(* ===== verification/Swim_Prelude.thy ===== *)
theory Swim_Prelude
  imports Main "HOL-Library.Word" "HOL-Library.List_Lexorder" "HOL-Library.Multiset"
begin

text \<open>
  Shared vocabulary of the development: the names of the machine types, the wire encoding of
  fixed-width integers, Rust's \<open>Result\<close> with its \<open>?\<close> operator, loops that stop at the first
  error, and the interface of a state machine with an invariant. Every component theory imports
  this one.

  Conventions. A byte is an \<open>8 word\<close>; \<open>[u8; n]\<close> and \<open>Vec<u8>\<close> are byte lists, the length of an
  array being a well-formedness condition; \<open>u64\<close> and \<open>u32\<close> are words, whose \<open>+\<close> wraps as the
  release profile of the crate does (\<open>Cargo.toml\<close> does not turn overflow checks on); \<open>usize\<close>
  lengths and indices are natural numbers. \<open>Result<T, E>\<close> is \<open>E + T\<close> with \<open>Inl\<close> the error.
  Byte lists carry the lexicographic order of \<open>List_Lexorder\<close>, which is Rust's \<open>Ord\<close> on
  \<open>[u8; 32]\<close>.
\<close>

type_synonym byte = "8 word"
type_synonym u32 = "32 word"
type_synonym u64 = "64 word"
type_synonym bytes = "byte list"
type_synonym hash32 = "byte list"
type_synonym 'e outcome = "'e + unit"

named_theorems wire_len \<open>lengths of encoded fields\<close>
named_theorems wire_rt \<open>decoding an encoded field gives it back\<close>
named_theorems result_simps \<open>evaluation and inversion of \<open>Result\<close> chains\<close>

subsection \<open>Arrays of bytes\<close>

definition zero32 :: hash32 where
  "zero32 = replicate 32 0"

definition is_hash :: "hash32 \<Rightarrow> bool" where
  "is_hash h \<longleftrightarrow> length h = 32"

definition byte_slice :: "bytes \<Rightarrow> nat \<Rightarrow> nat \<Rightarrow> bytes" where
  "byte_slice d off n = take n (drop off d)"

subsection \<open>Fixed-width integers on the wire\<close>

text \<open>\<open>to_be_bytes\<close> and \<open>from_be_bytes\<close>, most significant byte first.\<close>

primrec be_bytes :: "nat \<Rightarrow> nat \<Rightarrow> bytes" where
  "be_bytes 0 k = []"
| "be_bytes (Suc n) k = word_of_nat (k div 256 ^ n) # be_bytes n k"

primrec be_nat :: "bytes \<Rightarrow> nat" where
  "be_nat [] = 0"
| "be_nat (b # bs) = unat b * 256 ^ length bs + be_nat bs"

definition u64_be :: "u64 \<Rightarrow> bytes" where
  "u64_be w = be_bytes 8 (unat w)"

definition u64_of_be :: "bytes \<Rightarrow> u64" where
  "u64_of_be bs = word_of_nat (be_nat bs)"

definition u64_le :: "u64 \<Rightarrow> bytes" where
  "u64_le w = rev (u64_be w)"

definition u32_be :: "u32 \<Rightarrow> bytes" where
  "u32_be w = be_bytes 4 (unat w)"

definition u32_of_be :: "bytes \<Rightarrow> u32" where
  "u32_of_be bs = word_of_nat (be_nat bs)"

subsection \<open>Saturating arithmetic\<close>

definition sat_add :: "u64 \<Rightarrow> u64 \<Rightarrow> u64" where
  "sat_add a b = (if unat a + unat b < 2 ^ 64 then a + b else - 1)"

definition sat_sub :: "u64 \<Rightarrow> u64 \<Rightarrow> u64" where
  "sat_sub a b = (if b \<le> a then a - b else 0)"

subsection \<open>Results\<close>

definition rbind :: "'e + 'a \<Rightarrow> ('a \<Rightarrow> 'e + 'b) \<Rightarrow> 'e + 'b" where
  "rbind r f = (case r of Inl e \<Rightarrow> Inl e | Inr a \<Rightarrow> f a)"

definition map_err :: "('e \<Rightarrow> 'f) \<Rightarrow> 'e + 'a \<Rightarrow> 'f + 'a" where
  "map_err g r = (case r of Inl e \<Rightarrow> Inl (g e) | Inr a \<Rightarrow> Inr a)"

definition reject_if :: "bool \<Rightarrow> 'e \<Rightarrow> 'e outcome" where
  "reject_if c e = (if c then Inl e else Inr ())"

text \<open>A \<open>for\<close> loop whose body ends in \<open>?\<close>.\<close>

primrec for_each :: "('a \<Rightarrow> 'e outcome) \<Rightarrow> 'a list \<Rightarrow> 'e outcome" where
  "for_each f [] = Inr ()"
| "for_each f (x # xs) = rbind (f x) (\<lambda>_. for_each f xs)"

subsection \<open>Strings\<close>

text \<open>\<open>format!\<close> of an unsigned integer in decimal and of a byte as \<open>{:02x}\<close>.\<close>

definition digit_char :: "nat \<Rightarrow> char" where
  "digit_char d = ''0123456789abcdef'' ! (d mod 16)"

fun show_nat :: "nat \<Rightarrow> string" where
  "show_nat n = (if n < 10 then [digit_char n] else show_nat (n div 10) @ [digit_char (n mod 10)])"

declare show_nat.simps [simp del]

definition show_hex2 :: "byte \<Rightarrow> string" where
  "show_hex2 b = [digit_char (unat b div 16), digit_char (unat b mod 16)]"

definition string_bytes :: "string \<Rightarrow> bytes" where
  "string_bytes s = map of_char s"

subsection \<open>Lemmas on arrays and encodings\<close>

lemma length_zero32 [simp, wire_len]: "length zero32 = 32"
  by (simp add: zero32_def)

lemma is_hash_zero32 [simp]: "is_hash zero32"
  by (simp add: is_hash_def)

lemma is_hash_length [simp]: "is_hash h \<Longrightarrow> length h = 32"
  by (simp add: is_hash_def)

lemma length_be_bytes [simp, wire_len]: "length (be_bytes n k) = n"
  by (induction n) auto

lemma be_nat_be_bytes [simp]: "be_nat (be_bytes n k) = k mod 256 ^ n"
proof (induction n)
  case 0
  show ?case by simp
next
  case (Suc n)
  have "unat (word_of_nat (k div 256 ^ n) :: byte) = k div 256 ^ n mod 256"
    by (simp add: unat_of_nat)
  then show ?case
    using Suc.IH mod_mult2_eq [of k "256 ^ n" 256] by (simp add: mult.commute)
qed

lemma unat_byte_less: "unat (b :: byte) < 256"
proof -
  have "unat b < 2 ^ LENGTH(8)" by (rule unsigned_less)
  then show ?thesis by simp
qed

lemma unat_u64_less: "unat (w :: u64) < 2 ^ 64"
proof -
  have "unat w < 2 ^ LENGTH(64)" by (rule unsigned_less)
  then show ?thesis by simp
qed

lemma unat_u32_less: "unat (w :: u32) < 2 ^ 32"
proof -
  have "unat w < 2 ^ LENGTH(32)" by (rule unsigned_less)
  then show ?thesis by simp
qed

lemma be_nat_less: "be_nat bs < 256 ^ length bs"
proof (induction bs)
  case (Cons b bs)
  have b: "Suc (unat b) \<le> 256"
    using unat_byte_less [of b] by simp
  have "be_nat (b # bs) < unat b * 256 ^ length bs + 256 ^ length bs"
    using Cons.IH by simp
  also have "\<dots> = Suc (unat b) * 256 ^ length bs"
    by simp
  also have "\<dots> \<le> 256 * 256 ^ length bs"
    using b by (rule mult_le_mono1)
  finally show ?case by simp
qed simp

lemma length_u64_be [simp, wire_len]: "length (u64_be w) = 8"
  by (simp add: u64_be_def)

lemma length_u64_le [simp, wire_len]: "length (u64_le w) = 8"
  by (simp add: u64_le_def)

lemma length_u32_be [simp, wire_len]: "length (u32_be w) = 4"
  by (simp add: u32_be_def)

lemma u64_of_be_be [simp, wire_rt]: "u64_of_be (u64_be w) = w"
proof -
  have "unat w < 256 ^ 8"
    using unat_u64_less [of w] by simp
  then show ?thesis by (simp add: u64_of_be_def u64_be_def)
qed

lemma u32_of_be_be [simp, wire_rt]: "u32_of_be (u32_be w) = w"
proof -
  have "unat w < 256 ^ 4"
    using unat_u32_less [of w] by simp
  then show ?thesis by (simp add: u32_of_be_def u32_be_def)
qed

lemma u64_be_inject [simp]: "u64_be a = u64_be b \<longleftrightarrow> a = b"
  by (metis u64_of_be_be)

lemma u32_be_inject [simp]: "u32_be a = u32_be b \<longleftrightarrow> a = b"
  by (metis u32_of_be_be)

lemma u64_le_inject [simp]: "u64_le a = u64_le b \<longleftrightarrow> a = b"
  by (simp add: u64_le_def)

text \<open>Reading a field of a buffer assembled by concatenation.\<close>

lemma byte_slice_append_right [simp]:
  "length xs \<le> off \<Longrightarrow> byte_slice (xs @ ys) off n = byte_slice ys (off - length xs) n"
  by (simp add: byte_slice_def)

lemma byte_slice_append_left [simp]:
  "off + n \<le> length xs \<Longrightarrow> byte_slice (xs @ ys) off n = byte_slice xs off n"
  by (simp add: byte_slice_def)

lemma byte_slice_Cons [simp]: "byte_slice (x # xs) (Suc off) n = byte_slice xs off n"
  by (simp add: byte_slice_def)

lemma byte_slice_Cons_numeral [simp]:
  "byte_slice (x # xs) (numeral k) n = byte_slice xs (pred_numeral k) n"
  by (simp add: numeral_eq_Suc)

lemma byte_slice_all [simp]: "length xs \<le> n \<Longrightarrow> byte_slice xs 0 n = xs"
  by (simp add: byte_slice_def)

lemma length_byte_slice [simp, wire_len]:
  "off + n \<le> length d \<Longrightarrow> length (byte_slice d off n) = n"
  by (simp add: byte_slice_def)

lemma append_eq_same_length:
  "length xs = length ys \<Longrightarrow> xs @ us = ys @ vs \<longleftrightarrow> xs = ys \<and> us = vs"
  by simp

subsection \<open>Lemmas on results\<close>

lemma rbind_Inl [simp, result_simps]: "rbind (Inl e) f = Inl e"
  by (simp add: rbind_def)

lemma rbind_Inr [simp, result_simps]: "rbind (Inr a) f = f a"
  by (simp add: rbind_def)

lemma rbind_ok [result_simps]: "rbind r f = Inr b \<longleftrightarrow> (\<exists>a. r = Inr a \<and> f a = Inr b)"
  by (cases r) auto

lemma map_err_Inl [simp, result_simps]: "map_err g (Inl e) = Inl (g e)"
  by (simp add: map_err_def)

lemma map_err_Inr [simp, result_simps]: "map_err g (Inr a) = Inr a"
  by (simp add: map_err_def)

lemma map_err_ok [simp, result_simps]: "map_err g r = Inr a \<longleftrightarrow> r = Inr a"
  by (cases r) auto

lemma reject_if_False [simp, result_simps]: "reject_if False e = Inr ()"
  by (simp add: reject_if_def)

lemma reject_if_True [simp, result_simps]: "reject_if True e = Inl e"
  by (simp add: reject_if_def)

lemma reject_if_ok [simp, result_simps]: "reject_if c e = Inr () \<longleftrightarrow> \<not> c"
  by (simp add: reject_if_def)

lemma reject_if_err [simp, result_simps]: "reject_if c e = Inl e' \<longleftrightarrow> c \<and> e' = e"
  by (auto simp: reject_if_def)

lemma outcome_cases: "(r :: 'e outcome) = Inr () \<or> (\<exists>e. r = Inl e)"
  by (cases r) auto

lemma for_each_ok [simp, result_simps]:
  "for_each f xs = Inr () \<longleftrightarrow> (\<forall>x \<in> set xs. f x = Inr ())"
  by (induction xs) (auto simp: rbind_ok)

lemma for_each_err:
  assumes "for_each f xs = Inl e"
  shows "\<exists>x \<in> set xs. f x = Inl e"
  using assms
proof (induction xs)
  case (Cons x xs)
  then show ?case using outcome_cases [of "f x"] by auto
qed simp

lemma map_filter_member: "y \<in> set (List.map_filter f xs) \<longleftrightarrow> Some y \<in> f ` set xs"
proof (induction xs)
  case (Cons x xs)
  then show ?case by (cases "f x") (auto simp: List.map_filter_simps)
qed (simp add: List.map_filter_simps)

subsection \<open>Lemmas on decimal numbers\<close>

definition read_nat :: "string \<Rightarrow> nat" where
  "read_nat s = foldl (\<lambda>acc c. 10 * acc + (of_char c - 48)) 0 s"

lemma digit_char_less_10: "d < 10 \<Longrightarrow> digit_char d \<in> set ''0123456789'' \<and> of_char (digit_char d) = 48 + d"
proof -
  assume "d < 10"
  then have "d \<in> set [0, 1, 2, 3, 4, 5, 6, 7, 8, 9]" by auto
  then show ?thesis by (auto simp: digit_char_def)
qed

lemma show_nat_digits: "set (show_nat n) \<subseteq> set ''0123456789''"
proof (induction n rule: show_nat.induct)
  case (1 n)
  then show ?case
    using digit_char_less_10 [of n] digit_char_less_10 [of "n mod 10"] by (subst show_nat.simps) auto
qed

lemma read_show_nat [simp]: "read_nat (show_nat n) = n"
proof (induction n rule: show_nat.induct)
  case (1 n)
  show ?case
  proof (cases "n < 10")
    case True
    then show ?thesis using digit_char_less_10 [of n] by (simp add: show_nat.simps [of n] read_nat_def)
  next
    case False
    with 1 show ?thesis
      using digit_char_less_10 [of "n mod 10"] by (simp add: show_nat.simps [of n] read_nat_def)
  qed
qed

lemma show_nat_inject [simp]: "show_nat m = show_nat n \<longleftrightarrow> m = n"
  by (metis read_show_nat)

lemma show_nat_no_colon [simp]: "CHR '':'' \<notin> set (show_nat n)"
  using show_nat_digits [of n] by auto

lemma length_show_hex2 [simp]: "length (show_hex2 b) = 2"
  by (simp add: show_hex2_def)

lemma show_hex2_inject [simp]: "show_hex2 a = show_hex2 b \<longleftrightarrow> a = b"
proof
  assume eq: "show_hex2 a = show_hex2 b"
  have digit: "digit_char m = digit_char n \<longleftrightarrow> m = n" if "m < 16" "n < 16" for m n
  proof -
    have "distinct ''0123456789abcdef''" by simp
    from nth_eq_iff_index_eq [OF this, of m n] that show ?thesis by (simp add: digit_char_def)
  qed
  have "unat a div 16 < 16" "unat b div 16 < 16"
    using unat_byte_less [of a] unat_byte_less [of b] by simp_all
  then have "unat a div 16 = unat b div 16" "unat a mod 16 = unat b mod 16"
    using eq by (simp_all add: show_hex2_def digit)
  then have "unat a = unat b" by (metis div_mult_mod_eq)
  then show "a = b" by (simp add: word_unat_eq_iff)
qed simp

lemma hex_string_inject: "concat (map show_hex2 x) = concat (map show_hex2 y) \<Longrightarrow> x = y"
proof (induction x arbitrary: y)
  case Nil
  then show ?case by (cases y) (auto dest: arg_cong [where f = length])
next
  case (Cons b x)
  have "y \<noteq> []" using Cons.prems by (auto dest: arg_cong [where f = length])
  then obtain c z where y: "y = c # z" by (cases y) auto
  with Cons.prems have "show_hex2 b @ concat (map show_hex2 x) = show_hex2 c @ concat (map show_hex2 z)"
    by simp
  then have "show_hex2 b = show_hex2 c" "concat (map show_hex2 x) = concat (map show_hex2 z)"
    by (simp_all add: append_eq_same_length)
  with y Cons.IH show ?case by simp
qed

text \<open>Fields separated by a character that occurs in none of them.\<close>

lemma split_at_separator:
  "c \<notin> set xs \<Longrightarrow> c \<notin> set xs' \<Longrightarrow> xs @ c # ys = xs' @ c # ys' \<longleftrightarrow> xs = xs' \<and> ys = ys'"
  by (auto simp: append_eq_append_conv2 append_eq_Cons_conv Cons_eq_append_conv)

lemma separator_absent: "c \<notin> set zs \<Longrightarrow> xs @ c # ys \<noteq> zs"
  by auto

subsection \<open>Lemmas on saturating arithmetic\<close>

lemma unat_sat_add: "unat (sat_add a b) = min (unat a + unat b) (2 ^ 64 - 1)"
  by (auto simp: sat_add_def unat_word_ariths unsigned_minus_1_eq_mask mask_eq_exp_minus_1 min_def)

lemma unat_sat_sub: "unat (sat_sub a b) = unat a - unat b"
  by (auto simp: sat_sub_def unat_sub word_le_nat_alt)

subsection \<open>State machines with an invariant\<close>

text \<open>
  The interface of a component whose operations are steps of a state machine: which states it may
  start in, which steps it makes and which predicate every step keeps. What follows for whole runs
  is proved here once.
\<close>

locale stepping_component =
  fixes initial :: "'s \<Rightarrow> bool"
    and step :: "'s \<Rightarrow> 's \<Rightarrow> bool"
    and good :: "'s \<Rightarrow> bool"
  assumes good_initial: "initial s \<Longrightarrow> good s"
    and good_step: "good s \<Longrightarrow> step s t \<Longrightarrow> good t"
begin

lemma good_run: "good s \<Longrightarrow> step\<^sup>*\<^sup>* s t \<Longrightarrow> good t"
  by (rotate_tac 1) (induction rule: rtranclp_induct, auto intro: good_step)

lemma good_reachable: "initial s \<Longrightarrow> step\<^sup>*\<^sup>* s t \<Longrightarrow> good t"
  using good_initial good_run by blast

end

end
