(* ===== verification/Kv_Tree.thy ===== *)
theory Kv_Tree
  imports Swim_Prelude "HOL-Library.AList"
begin

text \<open>
  The ordered key-value trees of the embedded database (crate \<open>sled\<close>) that the stores keep their
  state in. A tree is an association list without repeated keys; the operations are those the code
  calls: \<open>get\<close>, \<open>insert\<close>, \<open>remove\<close>, \<open>contains_key\<close>, \<open>last\<close> and iteration in key order. Integer
  keys are stored as big-endian bytes, so their byte order is the order of the numbers. Failures of
  the database itself are not modelled.
\<close>

type_synonym ('k, 'v) tree = "('k \<times> 'v) list"

definition tree_get :: "('k, 'v) tree \<Rightarrow> 'k \<Rightarrow> 'v option" where
  "tree_get t k = map_of t k"

definition tree_insert :: "('k, 'v) tree \<Rightarrow> 'k \<Rightarrow> 'v \<Rightarrow> ('k, 'v) tree" where
  "tree_insert t k v = AList.update k v t"

definition tree_remove :: "('k, 'v) tree \<Rightarrow> 'k \<Rightarrow> ('k, 'v) tree" where
  "tree_remove t k = AList.delete k t"

primrec tree_last :: "('k :: linorder, 'v) tree \<Rightarrow> 'k option" where
  "tree_last [] = None"
| "tree_last (e # t) =
     (case tree_last t of None \<Rightarrow> Some (fst e) | Some k \<Rightarrow> Some (max (fst e) k))"

definition tree_iter :: "('k :: linorder, 'v) tree \<Rightarrow> ('k \<times> 'v) list" where
  "tree_iter t = sort_key fst t"

text \<open>What the clients of a tree rely on.\<close>

locale kv_store =
  fixes get :: "'t \<Rightarrow> 'k \<Rightarrow> 'v option"
    and insert_at :: "'t \<Rightarrow> 'k \<Rightarrow> 'v \<Rightarrow> 't"
    and remove_at :: "'t \<Rightarrow> 'k \<Rightarrow> 't"
    and empty :: 't
  assumes get_empty: "get empty k = None"
    and get_insert: "get (insert_at t k v) k' = (if k' = k then Some v else get t k')"
    and get_remove: "get (remove_at t k) k' = (if k' = k then None else get t k')"
begin

lemma get_insert_map: "get (insert_at t k v) = (get t)(k \<mapsto> v)"
  by (rule ext) (simp add: get_insert)

lemma get_remove_map: "get (remove_at t k) = (get t)(k := None)"
  by (rule ext) (simp add: get_remove)

lemma get_insert_all:
  "get (foldl (\<lambda>t e. insert_at t (fst e) (snd e)) t es) = get t ++ map_of (rev es)"
  by (induction es arbitrary: t) (auto simp: get_insert_map map_add_def fun_eq_iff split: option.splits)

lemma get_remove_all: "get (foldl remove_at t ks) k = (if k \<in> set ks then None else get t k)"
  by (induction ks arbitrary: t) (auto simp: get_remove)

end

interpretation tree: kv_store tree_get tree_insert tree_remove "[]"
  by unfold_locales (simp_all add: tree_get_def tree_insert_def tree_remove_def AList.update_conv' AList.delete_conv')

declare tree.get_empty [simp] tree.get_insert [simp] tree.get_remove [simp]

lemma tree_last_None [simp]: "tree_last t = None \<longleftrightarrow> t = []"
  by (cases t) (auto split: option.splits)

lemma tree_last_Some: "tree_last t = Some m \<Longrightarrow> tree_get t m \<noteq> None \<and> (\<forall>k. tree_get t k \<noteq> None \<longrightarrow> k \<le> m)"
proof (induction t arbitrary: m)
  case (Cons e t)
  show ?case
  proof (cases "tree_last t")
    case None
    with Cons.prems show ?thesis by (auto simp: tree_get_def)
  next
    case (Some k)
    with Cons.IH [OF Some] Cons.prems show ?thesis
      by (cases e) (auto simp: tree_get_def max_def le_max_iff_disj split: if_splits dest: order_trans)
  qed
qed simp

lemma tree_get_imp_last: "tree_get t k \<noteq> None \<Longrightarrow> \<exists>m. tree_last t = Some m \<and> k \<le> m"
  using tree_last_Some by (cases "tree_last t") (auto simp: tree_get_def)

lemma set_tree_iter [simp]: "set (tree_iter t) = set t"
  by (simp add: tree_iter_def)

text \<open>The inclusive range \<open>a..=b\<close> of \<open>u64\<close>.\<close>

definition u64_range :: "u64 \<Rightarrow> u64 \<Rightarrow> u64 list" where
  "u64_range a b = map word_of_nat [unat a ..< Suc (unat b)]"

lemma set_u64_range [simp]: "x \<in> set (u64_range a b) \<longleftrightarrow> a \<le> x \<and> x \<le> b"
proof -
  have "unat (word_of_nat n :: u64) = n" if "n \<le> unat b" for n
    using that unat_u64_less [of b] by (simp add: unat_of_nat)
  then have "x \<in> set (u64_range a b) \<longleftrightarrow> unat a \<le> unat x \<and> unat x \<le> unat b"
    by (force simp: u64_range_def image_iff intro: bexI [of _ "unat x"])
  then show ?thesis by (simp add: word_le_nat_alt)
qed

lemma distinct_u64_range [simp]: "distinct (u64_range a b)"
proof -
  have "inj_on (word_of_nat :: nat \<Rightarrow> u64) (set [unat a ..< Suc (unat b)])"
  proof (rule inj_onI)
    fix m n assume mn: "m \<in> set [unat a ..< Suc (unat b)]" "n \<in> set [unat a ..< Suc (unat b)]"
      and eq: "(word_of_nat m :: u64) = word_of_nat n"
    then have "m < 2 ^ 64" "n < 2 ^ 64" using unat_u64_less [of b] by auto
    then show "m = n" using arg_cong [OF eq, of unat] by (simp add: unat_of_nat)
  qed
  then show ?thesis by (simp add: u64_range_def distinct_map)
qed

end
