(* ===== verification/Merkle.thy ===== *)
theory Merkle
  imports Swim_Prelude
begin

text \<open>
  The Merkle trees of the block hierarchy (\<open>src/blocks/merkle.rs\<close>): the root of a list of hashes,
  an inclusion proof for an index and the check of such a proof. SHA-256 comes from the crate
  \<open>sha2\<close> and is the parameter \<open>H\<close>; what the code relies on is only that its digests have 32
  bytes. SHA-256 cannot be injective, so binding is stated as: equal roots of different lists
  exhibit a collision of \<open>H\<close> among the values that were actually hashed.
\<close>

subsection \<open>Definitions\<close>

text \<open>One pass of the \<open>chunks(2)\<close> loop: an odd last hash is paired with itself.\<close>

fun merkle_level :: "(bytes \<Rightarrow> hash32) \<Rightarrow> hash32 list \<Rightarrow> hash32 list" where
  "merkle_level H [] = []"
| "merkle_level H [x] = [H (x @ x)]"
| "merkle_level H (x # y # rest) = H (x @ y) # merkle_level H rest"

lemma length_merkle_level [simp]: "length (merkle_level H xs) = (length xs + 1) div 2"
  by (induction H xs rule: merkle_level.induct) auto

function merkle_loop :: "(bytes \<Rightarrow> hash32) \<Rightarrow> hash32 list \<Rightarrow> hash32 list" where
  "merkle_loop H level =
     (if length level > 1 then merkle_loop H (merkle_level H level) else level)"
  by pat_completeness auto
termination
  by (relation "measure (\<lambda>(H, level). length level)") auto

declare merkle_loop.simps [simp del]

definition compute_merkle_root :: "(bytes \<Rightarrow> hash32) \<Rightarrow> hash32 list \<Rightarrow> hash32" where
  "compute_merkle_root H hashes =
     (if hashes = [] then zero32
      else if length hashes = 1 then hashes ! 0
      else merkle_loop H hashes ! 0)"

function merkle_proof_loop ::
  "(bytes \<Rightarrow> hash32) \<Rightarrow> hash32 list \<Rightarrow> nat \<Rightarrow> (hash32 \<times> bool) list" where
  "merkle_proof_loop H level idx =
     (if length level > 1 then
        (let sibling_idx = (if idx mod 2 = 0 then idx + 1 else idx - 1);
             sibling = (if sibling_idx < length level then level ! sibling_idx
                        else level ! (length level - 1));
             is_right = (idx mod 2 = 0)
         in (sibling, is_right) # merkle_proof_loop H (merkle_level H level) (idx div 2))
      else [])"
  by pat_completeness auto
termination
  by (relation "measure (\<lambda>(H, level, idx). length level)") auto

declare merkle_proof_loop.simps [simp del]

definition compute_merkle_proof ::
  "(bytes \<Rightarrow> hash32) \<Rightarrow> hash32 list \<Rightarrow> nat \<Rightarrow> (hash32 \<times> bool) list" where
  "compute_merkle_proof H hashes index =
     (if hashes = [] \<or> index \<ge> length hashes then []
      else if length hashes = 1 then []
      else merkle_proof_loop H hashes index)"

definition merkle_step :: "(bytes \<Rightarrow> hash32) \<Rightarrow> hash32 \<Rightarrow> hash32 \<times> bool \<Rightarrow> hash32" where
  "merkle_step H current p =
     (case p of (sibling, is_right) \<Rightarrow>
        if is_right then H (current @ sibling) else H (sibling @ current))"

definition verify_merkle_proof ::
  "(bytes \<Rightarrow> hash32) \<Rightarrow> hash32 \<Rightarrow> (hash32 \<times> bool) list \<Rightarrow> hash32 \<Rightarrow> bool" where
  "verify_merkle_proof H leaf proof root \<longleftrightarrow> foldl (merkle_step H) leaf proof = root"

text \<open>The values one computation of a root feeds to the hash function.\<close>

fun merkle_level_inputs :: "hash32 list \<Rightarrow> bytes list" where
  "merkle_level_inputs [] = []"
| "merkle_level_inputs [x] = [x @ x]"
| "merkle_level_inputs (x # y # rest) = (x @ y) # merkle_level_inputs rest"

function merkle_inputs :: "(bytes \<Rightarrow> hash32) \<Rightarrow> hash32 list \<Rightarrow> bytes list" where
  "merkle_inputs H level =
     (if length level > 1 then merkle_level_inputs level @ merkle_inputs H (merkle_level H level)
      else [])"
  by pat_completeness auto
termination
  by (relation "measure (\<lambda>(H, level). length level)") auto

declare merkle_inputs.simps [simp del]

definition hash_collision :: "(bytes \<Rightarrow> hash32) \<Rightarrow> bytes list \<Rightarrow> bytes list \<Rightarrow> bool" where
  "hash_collision H as bs \<longleftrightarrow> (\<exists>a \<in> set as. \<exists>b \<in> set bs. a \<noteq> b \<and> H a = H b)"

subsection \<open>Levels\<close>

lemma merkle_level_map: "merkle_level H xs = map H (merkle_level_inputs xs)"
  by (induction H xs rule: merkle_level.induct) auto

lemma length_merkle_level_inputs [simp]: "length (merkle_level_inputs xs) = (length xs + 1) div 2"
  by (induction xs rule: merkle_level_inputs.induct) auto

lemma merkle_level_nth:
  "i < length xs \<Longrightarrow> merkle_level H xs ! (i div 2) =
     (if i mod 2 = 0 then H (xs ! i @ (if i + 1 < length xs then xs ! (i + 1) else xs ! i))
      else H (xs ! (i - 1) @ xs ! i))"
proof (induction H xs arbitrary: i rule: merkle_level.induct)
  case (3 H x y rest)
  show ?case
  proof (cases "i < 2")
    case True
    then have "i = 0 \<or> i = 1" by auto
    then show ?thesis by auto
  next
    case False
    then obtain j where i: "i = Suc (Suc j)"
      by (metis add_2_eq_Suc le_add_diff_inverse not_less)
    have "j < length rest" using "3.prems" i by simp
    from "3.IH" [OF this] show ?thesis
      by (cases "j = 0") (auto simp: i nth_Cons' mod_Suc split: if_splits)
  qed
qed auto

lemma merkle_level_eq_Nil [simp]: "merkle_level H xs = [] \<longleftrightarrow> xs = []"
  by (cases "(H, xs)" rule: merkle_level.cases) auto

lemma merkle_loop_length: "xs \<noteq> [] \<Longrightarrow> length (merkle_loop H xs) = 1"
proof (induction H xs rule: merkle_loop.induct)
  case (1 H level)
  show ?case
  proof (cases "length level > 1")
    case True
    then have "merkle_level H level \<noteq> []" by auto
    with True "1.IH" show ?thesis by (simp add: merkle_loop.simps [of H level])
  next
    case False
    with "1.prems" show ?thesis
      by (cases level) (auto simp: merkle_loop.simps [of H "[_]"])
  qed
qed

lemma compute_merkle_root_step:
  "length xs > 1 \<Longrightarrow> compute_merkle_root H xs = compute_merkle_root H (merkle_level H xs)"
  by (auto simp: compute_merkle_root_def merkle_loop.simps [of H xs]
      merkle_loop.simps [of H "merkle_level H xs"])

lemma merkle_level_hashes:
  "(\<And>x. length (H x) = 32) \<Longrightarrow> list_all is_hash (merkle_level H xs)"
  by (simp add: merkle_level_map list_all_iff is_hash_def)

lemma merkle_root_is_hash:
  "(\<And>x. length (H x) = 32) \<Longrightarrow> list_all is_hash xs \<Longrightarrow> is_hash (compute_merkle_root H xs)"
proof (induction H xs rule: merkle_loop.induct)
  case (1 H level)
  show ?case
  proof (cases "length level > 1")
    case True
    with 1 show ?thesis by (simp add: compute_merkle_root_step merkle_level_hashes)
  next
    case False
    with 1 show ?thesis by (cases level) (auto simp: compute_merkle_root_def)
  qed
qed

subsection \<open>Inclusion proofs\<close>

text \<open>One step of a proof climbs one level of the tree.\<close>

lemma merkle_step_climbs:
  assumes "i < length xs" and "length xs > 1"
  shows "merkle_step H (xs ! i) (if (if i mod 2 = 0 then i + 1 else i - 1) < length xs
           then xs ! (if i mod 2 = 0 then i + 1 else i - 1) else xs ! (length xs - 1), i mod 2 = 0)
         = merkle_level H xs ! (i div 2)"
proof (cases "i mod 2 = 0")
  case True
  have "\<not> i + 1 < length xs \<Longrightarrow> length xs - 1 = i"
    using assms(1) by simp
  with True show ?thesis
    using merkle_level_nth [OF assms(1), of H] by (auto simp: merkle_step_def)
next
  case False
  with assms show ?thesis
    using merkle_level_nth [OF assms(1), of H] by (auto simp: merkle_step_def)
qed

lemma merkle_proof_loop_verifies:
  "idx < length level \<Longrightarrow>
     foldl (merkle_step H) (level ! idx) (merkle_proof_loop H level idx) = compute_merkle_root H level"
proof (induction H level idx rule: merkle_proof_loop.induct)
  case (1 H level idx)
  show ?case
  proof (cases "length level > 1")
    case True
    have "idx div 2 < length (merkle_level H level)"
      using "1.prems" by simp
    from "1.IH" [OF True refl refl refl this] show ?thesis
      using True "1.prems" merkle_step_climbs [OF "1.prems" True, of H]
      by (simp add: merkle_proof_loop.simps [of H level idx] Let_def compute_merkle_root_step)
  next
    case False
    with "1.prems" show ?thesis
      by (cases level) (auto simp: merkle_proof_loop.simps [of H "[_]" 0] compute_merkle_root_def)
  qed
qed

subsection \<open>Binding\<close>

lemma merkle_level_inputs_inject:
  "length xs = length ys \<Longrightarrow> list_all is_hash xs \<Longrightarrow> list_all is_hash ys \<Longrightarrow>
   merkle_level_inputs xs = merkle_level_inputs ys \<Longrightarrow> xs = ys"
proof (induction xs arbitrary: ys rule: merkle_level_inputs.induct)
  case (2 x)
  then show ?case by (cases ys) (auto simp: length_Suc_conv)
next
  case (3 x y rest)
  then obtain u v r where ys: "ys = u # v # r"
    by (metis Suc_length_conv length_Cons)
  with "3.prems" have "x @ y = u @ v" and "length x = length u" by auto
  with "3.prems" ys "3.IH" [of r] show ?case by auto
qed simp

lemma map_hash_collision:
  assumes "map H as = map H bs" and "as \<noteq> bs"
  shows "hash_collision H as bs"
proof -
  have len: "length as = length bs"
    using assms(1) by (rule map_eq_imp_length_eq)
  with assms(2) obtain i where i: "i < length as" and ne: "as ! i \<noteq> bs ! i"
    by (meson nth_equalityI)
  have "H (as ! i) = H (bs ! i)"
    using assms(1) i len by (metis nth_map)
  with i len ne show ?thesis
    unfolding hash_collision_def by (metis nth_mem)
qed

lemma hash_collision_mono:
  "hash_collision H as bs \<Longrightarrow> set as \<subseteq> set as' \<Longrightarrow> set bs \<subseteq> set bs' \<Longrightarrow> hash_collision H as' bs'"
  unfolding hash_collision_def by blast

lemma no_collision_subset:
  "\<not> hash_collision H as' bs' \<Longrightarrow> set as \<subseteq> set as' \<Longrightarrow> set bs \<subseteq> set bs' \<Longrightarrow> \<not> hash_collision H as bs"
  using hash_collision_mono by blast

lemma merkle_binding_aux:
  "length xs = length ys \<Longrightarrow> list_all is_hash xs \<Longrightarrow> list_all is_hash ys \<Longrightarrow>
   (\<And>x. length (H x) = 32) \<Longrightarrow> compute_merkle_root H xs = compute_merkle_root H ys \<Longrightarrow> xs \<noteq> ys \<Longrightarrow>
   hash_collision H (merkle_inputs H xs) (merkle_inputs H ys)"
proof (induction H xs arbitrary: ys rule: merkle_inputs.induct)
  case (1 H level)
  show ?case
  proof (cases "length level > 1")
    case True
    then have lys: "length ys > 1" using "1.prems"(1) by simp
    have inputs: "merkle_inputs H level =
        merkle_level_inputs level @ merkle_inputs H (merkle_level H level)"
      "merkle_inputs H ys = merkle_level_inputs ys @ merkle_inputs H (merkle_level H ys)"
      using True lys by (simp_all add: merkle_inputs.simps [of H level] merkle_inputs.simps [of H ys])
    show ?thesis
    proof (cases "merkle_level H level = merkle_level H ys")
      case True
      have "merkle_level_inputs level \<noteq> merkle_level_inputs ys"
        using merkle_level_inputs_inject "1.prems" by blast
      with True have "hash_collision H (merkle_level_inputs level) (merkle_level_inputs ys)"
        unfolding merkle_level_map by (rule map_hash_collision)
      then show ?thesis
        by (rule hash_collision_mono) (auto simp: inputs)
    next
      case False
      have "compute_merkle_root H (merkle_level H level) = compute_merkle_root H (merkle_level H ys)"
        using "1.prems"(5) True lys by (simp add: compute_merkle_root_step)
      then have "hash_collision H (merkle_inputs H (merkle_level H level))
          (merkle_inputs H (merkle_level H ys))"
        using "1.IH" [OF True] "1.prems" merkle_level_hashes False by simp
      then show ?thesis
        by (rule hash_collision_mono) (auto simp: inputs)
    qed
  next
    case False
    then consider "level = []" | x where "level = [x]" by (cases level) auto
    then show ?thesis
      using "1.prems" by cases (cases ys, auto simp: compute_merkle_root_def)+
  qed
qed

subsection \<open>Duplicating an odd last hash\<close>

lemma merkle_level_duplicate:
  "odd (length xs) \<Longrightarrow> merkle_level H (xs @ [last xs]) = merkle_level H xs"
  by (induction H xs rule: merkle_level.induct) auto

lemma merkle_root_repeat_last:
  assumes "odd (length xs)" and "length xs > 1"
  shows "compute_merkle_root H (xs @ [last xs]) = compute_merkle_root H xs"
proof -
  have "length (xs @ [last xs]) > 1" using assms(2) by auto
  from compute_merkle_root_step [OF this, of H] compute_merkle_root_step [OF assms(2), of H]
  show ?thesis by (simp only: merkle_level_duplicate [OF assms(1)])
qed

subsection \<open>Properties\<close>

text \<open>
  Completeness of inclusion proofs: the proof that \<open>compute_merkle_proof\<close> produces for any
  index inside the list verifies against the root that \<open>compute_merkle_root\<close> produces, whatever
  the hash function is.
\<close>

theorem merkle_proof_complete:
  assumes "i < length hashes"
  shows "verify_merkle_proof H (hashes ! i) (compute_merkle_proof H hashes i)
           (compute_merkle_root H hashes)"
proof (cases "length hashes = 1")
  case True
  with assms show ?thesis
    by (cases hashes)
      (auto simp: verify_merkle_proof_def compute_merkle_proof_def compute_merkle_root_def)
next
  case False
  with assms show ?thesis
    by (auto simp: verify_merkle_proof_def compute_merkle_proof_def merkle_proof_loop_verifies)
qed

theorem merkle_proof_complete_witness:
  "2 < length [[1], [2], [3 :: byte]] \<and>
   verify_merkle_proof rev [3] (compute_merkle_proof rev [[1], [2], [3]] 2)
     (compute_merkle_root rev [[1], [2], [3]])"
  using merkle_proof_complete [of 2 "[[1], [2], [3 :: byte]]" rev] by simp

text \<open>
  C26. Binding: two lists of 32-byte hashes of the same length with the same root are equal, or
  the two computations fed two different values with the same digest to the hash function.
\<close>

theorem merkle_root_binding:
  assumes "\<And>x. length (H x) = 32"
    and "length xs = length ys"
    and "list_all is_hash xs" and "list_all is_hash ys"
    and "compute_merkle_root H xs = compute_merkle_root H ys"
  shows "xs = ys \<or> hash_collision H (merkle_inputs H xs) (merkle_inputs H ys)"
  using merkle_binding_aux [OF assms(2-4) assms(1) assms(5)] by blast

theorem merkle_root_binding_witness:
  "compute_merkle_root (\<lambda>_. zero32) [replicate 32 1, zero32]
     = compute_merkle_root (\<lambda>_. zero32) [zero32, zero32] \<and>
   ([replicate 32 1, zero32] = [zero32, zero32] \<or>
    hash_collision (\<lambda>_. zero32) (merkle_inputs (\<lambda>_. zero32) [replicate 32 1, zero32])
      (merkle_inputs (\<lambda>_. zero32) [zero32, zero32]))"
proof -
  have "compute_merkle_root (\<lambda>_. zero32) [replicate 32 1, zero32]
     = compute_merkle_root (\<lambda>_. zero32) [zero32, zero32]"
    by (simp add: compute_merkle_root_def merkle_loop.simps)
  then show ?thesis
    using merkle_root_binding [of "\<lambda>_. zero32" "[replicate 32 1, zero32]" "[zero32, zero32]"]
    by (simp add: is_hash_def)
qed

text \<open>
  The root does not determine the list: appending a copy of the last hash to a list of odd
  length greater than one leaves the root unchanged, so the number of leaves has to be
  authenticated separately (the block headers hash a count beside the root).
\<close>

theorem merkle_root_duplicate_last:
  assumes "odd (length xs)" and "length xs > 1"
  shows "compute_merkle_root H (xs @ [last xs]) = compute_merkle_root H xs"
  using assms by (rule merkle_root_repeat_last)

theorem merkle_root_duplicate_last_witness:
  "compute_merkle_root rev [[1], [2], [3], [3]] = compute_merkle_root rev [[1], [2], [3 :: byte]]"
  using merkle_root_duplicate_last [of "[[1], [2], [3 :: byte]]" rev] by simp

end
