(* ===== verification/Block_Contract.thy ===== *)
theory Block_Contract
  imports Merkle
begin

text \<open>
  What the three kinds of blocks have in common (\<open>content_block.rs\<close>, \<open>space_block.rs\<close>,
  \<open>root_block.rs\<close>): each stores the Merkle root of the hashes of its parts and checks it, each
  has a hash computed from a fixed layout of its header, and each stores the sum of the work of its
  parts and checks it. The three contracts are locales; the theories of the blocks interpret them.
\<close>

subsection \<open>A block commits to the hashes of its parts\<close>

locale committed_block =
  fixes H :: "bytes \<Rightarrow> hash32"
    and leaves :: "'b \<Rightarrow> hash32 list"
    and stored_root :: "'b \<Rightarrow> hash32"
    and check :: "'b \<Rightarrow> 'e outcome"
    and mismatch :: "hash32 \<Rightarrow> hash32 \<Rightarrow> 'e"
  assumes check_root: "check b =
      (if compute_merkle_root H (leaves b) \<noteq> stored_root b
       then Inl (mismatch (stored_root b) (compute_merkle_root H (leaves b))) else Inr ())"
begin

lemma root_ok: "check b = Inr () \<longleftrightarrow> compute_merkle_root H (leaves b) = stored_root b"
  by (simp add: check_root)

lemma leaves_bound:
  assumes "\<And>x. length (H x) = 32" and "list_all is_hash (leaves a)" and "list_all is_hash (leaves b)"
    and "length (leaves a) = length (leaves b)" and "stored_root a = stored_root b"
    and "check a = Inr ()" and "check b = Inr ()"
  shows "leaves a = leaves b \<or> hash_collision H (merkle_inputs H (leaves a)) (merkle_inputs H (leaves b))"
proof -
  have "compute_merkle_root H (leaves a) = compute_merkle_root H (leaves b)"
    using assms(5-7) by (simp add: root_ok)
  then show ?thesis using merkle_binding_aux [of "leaves a" "leaves b" H] assms(1-4) by blast
qed

text \<open>Repeating the last part of an odd number of parts is invisible to the check.\<close>

lemma repeat_last_passes:
  assumes "check a = Inr ()" and "odd (length (leaves a))" and "length (leaves a) > 1"
    and "leaves b = leaves a @ [last (leaves a)]" and "stored_root b = stored_root a"
  shows "check b = Inr ()"
  using assms merkle_root_repeat_last [OF assms(2,3), of H] by (simp add: root_ok)

end

subsection \<open>The hash of a block seals its header and its parts\<close>

locale sealed_block = committed_block H leaves stored_root check mismatch
  for H :: "bytes \<Rightarrow> hash32"
    and leaves :: "'b \<Rightarrow> hash32 list"
    and stored_root :: "'b \<Rightarrow> hash32"
    and check :: "'b \<Rightarrow> 'e outcome"
    and mismatch :: "hash32 \<Rightarrow> hash32 \<Rightarrow> 'e" +
  fixes typed :: "'b \<Rightarrow> bool"
    and preimage :: "'b \<Rightarrow> bytes"
    and seal :: "'b \<Rightarrow> hash32"
  assumes seal_preimage: "seal b = H (preimage b)"
    and preimage_root:
      "typed a \<Longrightarrow> typed b \<Longrightarrow> preimage a = preimage b \<Longrightarrow> stored_root a = stored_root b"
    and typed_leaves: "typed b \<Longrightarrow> (\<And>x. length (H x) = 32) \<Longrightarrow> list_all is_hash (leaves b)"
begin

lemma seal_binds_header:
  "seal a = seal b \<Longrightarrow> preimage a = preimage b \<or> hash_collision H [preimage a] [preimage b]"
  by (auto simp: seal_preimage hash_collision_def)

lemma seal_binds:
  assumes h: "\<And>x. length (H x) = 32" and t: "typed a" "typed b"
    and ok: "check a = Inr ()" "check b = Inr ()"
    and len: "length (leaves a) = length (leaves b)" and eq: "seal a = seal b"
  shows "(preimage a = preimage b \<and> leaves a = leaves b) \<or>
    hash_collision H (preimage a # merkle_inputs H (leaves a)) (preimage b # merkle_inputs H (leaves b))"
proof (cases "preimage a = preimage b")
  case True
  then have "stored_root a = stored_root b" using t by (rule preimage_root [rotated 2])
  from leaves_bound [OF h typed_leaves [OF t(1) h] typed_leaves [OF t(2) h] len this ok]
  show ?thesis using True by (auto intro: hash_collision_mono)
next
  case False
  then show ?thesis using eq by (auto simp: seal_preimage hash_collision_def)
qed

end

subsection \<open>A block aggregates the work of its parts\<close>

text \<open>\<open>Iterator::sum\<close> on \<open>u64\<close> wraps in the release profile, so a checked total is the sum modulo
  \<open>2 ^ 64\<close>, and the sum itself when that fits.\<close>

locale pow_aggregate =
  fixes parts :: "'b \<Rightarrow> 'c list"
    and work :: "'c \<Rightarrow> u64"
    and total :: "'b \<Rightarrow> u64"
    and check :: "'b \<Rightarrow> 'e outcome"
    and mismatch :: "u64 \<Rightarrow> u64 \<Rightarrow> 'e"
  assumes check_sum: "check b =
      (if sum_list (map work (parts b)) \<noteq> total b
       then Inl (mismatch (total b) (sum_list (map work (parts b)))) else Inr ())"
begin

lemma sum_ok: "check b = Inr () \<longleftrightarrow> sum_list (map work (parts b)) = total b"
  by (simp add: check_sum)

lemma unat_sum: "unat (sum_list (map work cs)) = (\<Sum>c\<leftarrow>cs. unat (work c)) mod 2 ^ 64"
  by (induction cs) (simp_all add: unat_word_ariths mod_add_right_eq)

lemma checked_total_mod:
  "check b = Inr () \<Longrightarrow> unat (total b) = (\<Sum>c\<leftarrow>parts b. unat (work c)) mod 2 ^ 64"
  using unat_sum [of "parts b"] by (simp add: sum_ok)

lemma checked_total_exact:
  "check b = Inr () \<Longrightarrow> (\<Sum>c\<leftarrow>parts b. unat (work c)) < 2 ^ 64 \<Longrightarrow>
   unat (total b) = (\<Sum>c\<leftarrow>parts b. unat (work c))"
  by (simp add: checked_total_mod)

end

end
