(* ===== verification/Branch_Path.thy ===== *)
theory Branch_Path
  imports Swim_Prelude "HOL-Library.Sublist"
begin

unbundle bit_operations_syntax

text \<open>
  Placement paths of threads in the tree of a space (\<open>src/blocks/branch_path.rs\<close>): a depth and a
  packed bit string, most significant bit first. The abstract meaning of a path is the list of
  its directions; the operations of the code are refinements of list operations on it.
\<close>

subsection \<open>Definitions\<close>

datatype branch_direction = Left | Right

record branch_path =
  bp_depth :: byte
  bp_path :: bytes

definition MAX_DEPTH :: byte where
  "MAX_DEPTH = 255"

definition path_root :: branch_path where
  "path_root = \<lparr>bp_depth = 0, bp_path = []\<rparr>"

definition direction_at :: "hash32 \<Rightarrow> byte \<Rightarrow> branch_direction" where
  "direction_at hash depth =
     (let byte_index = unat (depth div 8); bit_index = unat (7 - depth mod 8)
      in if byte_index \<ge> length hash then Left
         else if drop_bit bit_index (hash ! byte_index) AND 1 = 0 then Left
         else Right)"

text \<open>\<open>while new_path.len() <= byte_index { new_path.push(0) }\<close>\<close>

definition extend_path :: "bytes \<Rightarrow> nat \<Rightarrow> bytes" where
  "extend_path p byte_index = p @ replicate (Suc byte_index - length p) 0"

definition branch :: "branch_path \<Rightarrow> branch_direction \<Rightarrow> branch_path" where
  "branch p direction =
     (if bp_depth p = MAX_DEPTH then p
      else
        let byte_index = unat (bp_depth p div 8);
            bit_index = unat (7 - bp_depth p mod 8);
            new_path = extend_path (bp_path p) byte_index;
            new_path' = (case direction of
                Left \<Rightarrow> new_path
              | Right \<Rightarrow> new_path[byte_index := new_path ! byte_index OR push_bit bit_index 1])
        in \<lparr>bp_depth = bp_depth p + 1, bp_path = new_path'\<rparr>)"

definition from_thread_root :: "hash32 \<Rightarrow> byte \<Rightarrow> branch_path" where
  "from_thread_root hash depth =
     foldl (\<lambda>path d. branch path (direction_at hash d)) path_root
       (map word_of_nat [0..<unat depth])"

definition for_reply :: "branch_path \<Rightarrow> branch_path" where
  "for_reply parent_path = parent_path"

definition path_bit :: "branch_path \<Rightarrow> byte \<Rightarrow> byte" where
  "path_bit p i =
     (let byte_index = unat (i div 8); bit_index = unat (7 - i mod 8)
      in if byte_index < length (bp_path p)
         then drop_bit bit_index (bp_path p ! byte_index) AND 1 else 0)"

definition is_descendant_of :: "branch_path \<Rightarrow> branch_path \<Rightarrow> bool" where
  "is_descendant_of p ancestor =
     (if bp_depth p < bp_depth ancestor then False
      else list_all (\<lambda>i. path_bit p i = path_bit ancestor i)
             (map word_of_nat [0..<unat (bp_depth ancestor)]))"

definition path_serialize :: "branch_path \<Rightarrow> bytes" where
  "path_serialize p = bp_depth p # bp_path p"

definition path_deserialize :: "bytes \<Rightarrow> branch_path option" where
  "path_deserialize data =
     (case data of [] \<Rightarrow> None | d # rest \<Rightarrow> Some \<lparr>bp_depth = d, bp_path = rest\<rparr>)"

definition path_is_root :: "branch_path \<Rightarrow> bool" where
  "path_is_root p \<longleftrightarrow> bp_depth p = 0"

subsection \<open>The abstract path\<close>

text \<open>Bit \<open>i\<close> of a packed bit string, and the directions a path stands for.\<close>

definition packed_bit :: "bytes \<Rightarrow> nat \<Rightarrow> bool" where
  "packed_bit p i \<longleftrightarrow> i div 8 < length p \<and> bit (p ! (i div 8)) (7 - i mod 8)"

definition path_dirs :: "branch_path \<Rightarrow> branch_direction list" where
  "path_dirs p = map (\<lambda>i. if packed_bit (bp_path p) i then Right else Left) [0..<unat (bp_depth p)]"

definition hash_dirs :: "hash32 \<Rightarrow> nat \<Rightarrow> branch_direction list" where
  "hash_dirs h n = map (\<lambda>i. if packed_bit h i then Right else Left) [0..<n]"

text \<open>Paths the code builds have exactly the bytes their depth needs and no bit beyond it.\<close>

definition wf_path :: "branch_path \<Rightarrow> bool" where
  "wf_path p \<longleftrightarrow> length (bp_path p) = (unat (bp_depth p) + 7) div 8 \<and>
     list_all (\<lambda>i. \<not> packed_bit (bp_path p) i) [unat (bp_depth p)..<8 * length (bp_path p)]"

lemma drop_bit_and_one: "drop_bit n (b :: byte) AND 1 = (if bit b n then 1 else 0)"
  by (simp add: and_one_eq bit_iff_odd_drop_bit odd_iff_mod_2_eq_one flip: even_iff_mod_2_eq_zero)

lemma unat_div8: "unat ((d :: byte) div 8) = unat d div 8"
  by (simp add: unat_div)

lemma unat_bit_index: "unat (7 - (d :: byte) mod 8) = 7 - unat d mod 8"
proof -
  have "unat (d mod 8) = unat d mod 8" by (simp add: unat_mod)
  moreover have "d mod 8 \<le> 7"
    unfolding word_le_nat_alt by (simp add: unat_mod)
  ultimately show ?thesis by (simp add: unat_sub)
qed

lemma direction_at_packed:
  "direction_at h d = (if packed_bit h (unat d) then Right else Left)"
  by (auto simp: direction_at_def packed_bit_def Let_def unat_div8 unat_bit_index drop_bit_and_one
      split: if_splits)

lemma path_bit_packed: "path_bit p d = (if packed_bit (bp_path p) (unat d) then 1 else 0)"
  by (auto simp: path_bit_def packed_bit_def Let_def unat_div8 unat_bit_index drop_bit_and_one)

lemma packed_bit_extend [simp]: "packed_bit (extend_path p k) i = packed_bit p i"
  by (auto simp: packed_bit_def extend_path_def nth_append)

lemma length_extend_path: "length (extend_path p k) = max (length p) (Suc k)"
  by (simp add: extend_path_def)

lemma bit_position_inject: "i div 8 = n div 8 \<Longrightarrow> 7 - i mod 8 = 7 - n mod 8 \<Longrightarrow> i = (n :: nat)"
proof -
  assume d: "i div 8 = n div 8" and "7 - i mod 8 = 7 - n mod 8"
  moreover have "i mod 8 < 8" "n mod 8 < 8" by simp_all
  ultimately have "i mod 8 = n mod 8" by linarith
  with d show ?thesis by (metis div_mult_mod_eq)
qed

lemma packed_bit_set:
  assumes "n div 8 < length p"
  shows "packed_bit (p[n div 8 := p ! (n div 8) OR push_bit (7 - n mod 8) 1]) i
         \<longleftrightarrow> packed_bit p i \<or> i = n"
  using assms bit_position_inject [of i n]
  by (auto simp: packed_bit_def nth_list_update bit_or_iff bit_push_bit_iff
      bit_exp_iff)

text \<open>One \<open>branch\<close> appends one direction and keeps the representation well formed.\<close>

lemma unat_depth_Suc: "d \<noteq> (255 :: byte) \<Longrightarrow> unat (d + 1) = Suc (unat d)"
proof -
  assume "d \<noteq> 255"
  then have "unat d \<noteq> 255" by (simp add: word_unat_eq_iff)
  then show ?thesis using unat_byte_less [of d] by (simp add: unat_word_ariths)
qed

lemma branch_depth:
  "bp_depth p \<noteq> MAX_DEPTH \<Longrightarrow> unat (bp_depth (branch p d)) = Suc (unat (bp_depth p))"
  by (simp add: branch_def Let_def MAX_DEPTH_def unat_depth_Suc)

lemma branch_packed:
  assumes "bp_depth p \<noteq> MAX_DEPTH"
  shows "packed_bit (bp_path (branch p d)) i \<longleftrightarrow>
     packed_bit (bp_path p) i \<or> (d = Right \<and> i = unat (bp_depth p))"
proof -
  have "unat (bp_depth p) div 8 < length (extend_path (bp_path p) (unat (bp_depth p) div 8))"
    by (simp add: length_extend_path)
  from packed_bit_set [OF this, of i] assms show ?thesis
    by (auto simp: branch_def Let_def unat_div8 unat_bit_index split: branch_direction.splits)
qed

lemma wf_path_high_bits: "wf_path p \<Longrightarrow> unat (bp_depth p) \<le> i \<Longrightarrow> \<not> packed_bit (bp_path p) i"
  by (cases "i < 8 * length (bp_path p)") (auto simp: wf_path_def list_all_iff packed_bit_def)

lemma wf_pathI:
  "length (bp_path p) = (unat (bp_depth p) + 7) div 8 \<Longrightarrow>
   (\<And>i. unat (bp_depth p) \<le> i \<Longrightarrow> \<not> packed_bit (bp_path p) i) \<Longrightarrow> wf_path p"
  by (simp add: wf_path_def list_all_iff)

lemma wf_path_root [simp]: "wf_path path_root"
  by (simp add: wf_path_def path_root_def)

lemma wf_path_branch: "wf_path p \<Longrightarrow> wf_path (branch p d)"
proof (cases "bp_depth p = MAX_DEPTH")
  case True
  then show "wf_path p \<Longrightarrow> wf_path (branch p d)" by (simp add: branch_def)
next
  case False
  assume wf: "wf_path p"
  have "length (bp_path (branch p d)) = max (length (bp_path p)) (Suc (unat (bp_depth p) div 8))"
    using False
    by (auto simp: branch_def Let_def unat_div8 length_extend_path split: branch_direction.splits)
  also have "\<dots> = (unat (bp_depth (branch p d)) + 7) div 8"
    using wf False by (simp add: wf_path_def branch_depth)
  finally show "wf_path (branch p d)"
    using wf_path_high_bits [OF wf] False by (intro wf_pathI) (auto simp: branch_depth branch_packed)
qed

lemma path_dirs_branch:
  assumes "wf_path p" and "bp_depth p \<noteq> MAX_DEPTH"
  shows "path_dirs (branch p d) = path_dirs p @ [d]"
  using assms wf_path_high_bits [OF assms(1), of "unat (bp_depth p)"]
  by (cases d) (auto simp: path_dirs_def branch_depth branch_packed)

lemma length_path_dirs [simp]: "length (path_dirs p) = unat (bp_depth p)"
  by (simp add: path_dirs_def)

lemma from_thread_root_fold:
  "n \<le> 255 \<Longrightarrow>
   (let p = foldl (\<lambda>path d. branch path (direction_at h d)) path_root (map word_of_nat [0..<n])
    in wf_path p \<and> unat (bp_depth p) = n \<and> path_dirs p = hash_dirs h n)"
proof (induction n)
  case 0
  show ?case by (simp add: path_dirs_def hash_dirs_def path_root_def wf_path_def)
next
  case (Suc n)
  define p where
    "p = foldl (\<lambda>path d. branch path (direction_at h d)) path_root (map word_of_nat [0..<n])"
  have IH: "wf_path p" "unat (bp_depth p) = n" "path_dirs p = hash_dirs h n"
    using Suc by (simp_all add: p_def Let_def)
  have ne: "bp_depth p \<noteq> MAX_DEPTH"
    using IH(2) Suc.prems by (auto simp: MAX_DEPTH_def)
  have "unat (word_of_nat n :: byte) = n"
    using Suc.prems by (simp add: unat_of_nat)
  then have dirs: "path_dirs (branch p (direction_at h (word_of_nat n))) = hash_dirs h (Suc n)"
    using IH ne by (simp add: path_dirs_branch direction_at_packed hash_dirs_def)
  have "foldl (\<lambda>path d. branch path (direction_at h d)) path_root (map word_of_nat [0..<Suc n])
      = branch p (direction_at h (word_of_nat n))"
    by (simp add: p_def)
  then show ?case
    using IH ne dirs by (simp add: Let_def wf_path_branch branch_depth)
qed

lemma from_thread_root_spec:
  "wf_path (from_thread_root h d)" "bp_depth (from_thread_root h d) = d"
  "path_dirs (from_thread_root h d) = hash_dirs h (unat d)"
proof -
  have "unat d \<le> 255" using unat_byte_less [of d] by simp
  from from_thread_root_fold [OF this, of h]
  show "wf_path (from_thread_root h d)" "bp_depth (from_thread_root h d) = d"
    "path_dirs (from_thread_root h d) = hash_dirs h (unat d)"
    by (simp_all add: from_thread_root_def Let_def word_unat_eq_iff)
qed

lemma prefix_nth_iff:
  "prefix xs ys \<longleftrightarrow> length xs \<le> length ys \<and> (\<forall>i < length xs. xs ! i = ys ! i)"
proof
  assume "length xs \<le> length ys \<and> (\<forall>i < length xs. xs ! i = ys ! i)"
  then have "xs = take (length xs) ys" by (intro nth_equalityI) auto
  then show "prefix xs ys" by (metis take_is_prefix)
qed (auto simp: prefix_def nth_append)

lemma prefix_hash_dirs: "prefix (hash_dirs h m) (hash_dirs h n) \<longleftrightarrow> m \<le> n"
  by (auto simp: prefix_nth_iff hash_dirs_def)

lemma is_descendant_of_prefix:
  "is_descendant_of p q \<longleftrightarrow> prefix (path_dirs q) (path_dirs p)"
proof -
  have idx: "unat (word_of_nat i :: byte) = i" if "i < unat (bp_depth q)" for i
    using that unat_byte_less [of "bp_depth q"] by (simp add: unat_of_nat)
  show ?thesis
    by (auto simp: is_descendant_of_def list_all_iff prefix_nth_iff path_dirs_def path_bit_packed
        word_less_nat_alt idx split: if_splits)
qed

subsection \<open>Properties\<close>

text \<open>
  Descent is the prefix order: a path is a descendant of another exactly when the directions
  of the other are a prefix of its own, for every pair of paths the code can hold.
\<close>

theorem descendant_refines_prefix:
  "is_descendant_of p q \<longleftrightarrow> prefix (path_dirs q) (path_dirs p)"
  by (rule is_descendant_of_prefix)

text \<open>
  Placement of a thread: \<open>from_thread_root\<close> yields a well-formed path of exactly the asked
  depth whose directions are the leading bits of the hash; deepening a space moves a thread only
  to a descendant of its old branch, and two threads share a branch exactly when the leading bits
  of their hashes agree.
\<close>

theorem from_thread_root_placement:
  "wf_path (from_thread_root h d) \<and> bp_depth (from_thread_root h d) = d \<and>
   path_dirs (from_thread_root h d) = hash_dirs h (unat d) \<and>
   (is_descendant_of (from_thread_root h e) (from_thread_root h d) \<longleftrightarrow> d \<le> e) \<and>
   (is_descendant_of (from_thread_root g d) (from_thread_root h d) \<longleftrightarrow>
      hash_dirs g (unat d) = hash_dirs h (unat d))"
proof -
  have "length (hash_dirs g (unat d)) = length (hash_dirs h (unat d))"
    by (simp add: hash_dirs_def)
  then have "prefix (hash_dirs h (unat d)) (hash_dirs g (unat d)) \<longleftrightarrow>
      hash_dirs g (unat d) = hash_dirs h (unat d)"
    by (auto simp: prefix_nth_iff intro: nth_equalityI)
  then show ?thesis
    by (simp add: from_thread_root_spec is_descendant_of_prefix prefix_hash_dirs word_le_nat_alt)
qed

text \<open>
  The encoding of paths is a bijection between paths and non-empty buffers: \<open>deserialize\<close>
  returns a path exactly on that path's serialization, and fails only on the empty buffer.
\<close>

theorem path_serialize_roundtrip:
  "(path_deserialize data = Some p \<longleftrightarrow> data = path_serialize p) \<and>
   (path_deserialize data = None \<longleftrightarrow> data = [])"
  by (auto simp: path_serialize_def path_deserialize_def split: list.splits)

end
