(* ===== verification/Action.thy ===== *)
theory Action
  imports Swim_Prelude
begin

text \<open>
  Actions, the leaves of the chain (\<open>src/blocks/action.rs\<close>): their types, the constructors the RPC
  layer uses, the fixed 466-byte wire format with its legacy 465-byte form, the content hash and
  the signing messages. A Rust \<open>String\<close> is the list of its UTF-8 bytes.
\<close>

subsection \<open>UTF-8 validation\<close>

text \<open>
  \<open>String::from_utf8\<close>: \<open>None\<close> when the bytes are valid UTF-8, otherwise the index up to which they
  are valid and the length of the offending sequence (\<open>None\<close> inside when the input ends early).
\<close>

definition is_cont :: "byte \<Rightarrow> bool" where
  "is_cont c \<longleftrightarrow> 0x80 \<le> c \<and> c \<le> 0xBF"

definition utf8_second3 :: "byte \<Rightarrow> byte \<Rightarrow> bool" where
  "utf8_second3 first c \<longleftrightarrow>
     (first = 0xE0 \<and> 0xA0 \<le> c \<and> c \<le> 0xBF) \<or>
     (0xE1 \<le> first \<and> first \<le> 0xEC \<and> is_cont c) \<or>
     (first = 0xED \<and> 0x80 \<le> c \<and> c \<le> 0x9F) \<or>
     (0xEE \<le> first \<and> first \<le> 0xEF \<and> is_cont c)"

definition utf8_second4 :: "byte \<Rightarrow> byte \<Rightarrow> bool" where
  "utf8_second4 first c \<longleftrightarrow>
     (first = 0xF0 \<and> 0x90 \<le> c \<and> c \<le> 0xBF) \<or>
     (0xF1 \<le> first \<and> first \<le> 0xF3 \<and> is_cont c) \<or>
     (first = 0xF4 \<and> 0x80 \<le> c \<and> c \<le> 0x8F)"

fun utf8_run :: "nat \<Rightarrow> bytes \<Rightarrow> (nat \<times> nat option) option" where
  "utf8_run i [] = None"
| "utf8_run i (b # r) =
     (if b < 0x80 then utf8_run (i + 1) r
      else if 0xC2 \<le> b \<and> b \<le> 0xDF then
        (case r of [] \<Rightarrow> Some (i, None)
         | c # r1 \<Rightarrow> if is_cont c then utf8_run (i + 2) r1 else Some (i, Some 1))
      else if 0xE0 \<le> b \<and> b \<le> 0xEF then
        (case r of [] \<Rightarrow> Some (i, None)
         | c # r1 \<Rightarrow> if \<not> utf8_second3 b c then Some (i, Some 1)
             else (case r1 of [] \<Rightarrow> Some (i, None)
               | d # r2 \<Rightarrow> if is_cont d then utf8_run (i + 3) r2 else Some (i, Some 2)))
      else if 0xF0 \<le> b \<and> b \<le> 0xF4 then
        (case r of [] \<Rightarrow> Some (i, None)
         | c # r1 \<Rightarrow> if \<not> utf8_second4 b c then Some (i, Some 1)
             else (case r1 of [] \<Rightarrow> Some (i, None)
               | d # r2 \<Rightarrow> if \<not> is_cont d then Some (i, Some 2)
                   else (case r2 of [] \<Rightarrow> Some (i, None)
                     | e # r3 \<Rightarrow> if is_cont e then utf8_run (i + 4) r3 else Some (i, Some 3))))
      else Some (i, Some 1))"

definition is_utf8 :: "bytes \<Rightarrow> bool" where
  "is_utf8 bs \<longleftrightarrow> utf8_run 0 bs = None"

definition utf8_error_text :: "nat \<times> nat option \<Rightarrow> string" where
  "utf8_error_text err =
     (case err of
        (valid_up_to, Some n) \<Rightarrow>
          ''invalid utf-8 sequence of '' @ show_nat n @ '' bytes from index '' @ show_nat valid_up_to
      | (valid_up_to, None) \<Rightarrow>
          ''incomplete utf-8 byte sequence from index '' @ show_nat valid_up_to)"

subsection \<open>Types\<close>

datatype action_type =
    CreateSpace | Post | Reply | Engage | Edit
  | Invite | Leave | Kick | RevokeInvite | KeyRotation | DMRequest | AcceptDM | DeclineDM
  | Sponsor | GenesisRegister
  | RenameSpace

datatype action_error =
    InvalidActionType byte
  | SerializationError string
  | DeserializationError string
  | MissingField string

record action_media_ref =
  mr_media_hash :: hash32
  mr_media_type :: byte
  mr_size_bytes :: u32

record action =
  act_type :: action_type
  act_actor :: bytes
  act_timestamp :: u64
  act_content_hash :: "hash32 option"
  act_parent_id :: "hash32 option"
  act_pow_nonce :: u64
  act_pow_work :: u64
  act_pow_target :: hash32
  act_signature :: bytes
  act_emoji :: "byte option"
  act_display_name :: "bytes option"
  act_media_refs :: "action_media_ref list"
  act_replaces_pending :: "hash32 option"
  act_private :: bool

definition ACTION_SERIALIZED_SIZE :: nat where "ACTION_SERIALIZED_SIZE = 466"
definition ACTION_SERIALIZED_SIZE_LEGACY :: nat where "ACTION_SERIALIZED_SIZE_LEGACY = 465"
definition MAX_MEDIA_REFS :: nat where "MAX_MEDIA_REFS = 4"
definition MEDIA_REF_SERIALIZED_SIZE :: nat where "MEDIA_REF_SERIALIZED_SIZE = 37"
definition MAX_DISPLAY_NAME_LEN :: nat where "MAX_DISPLAY_NAME_LEN = 64"

lemmas action_sizes = ACTION_SERIALIZED_SIZE_def ACTION_SERIALIZED_SIZE_LEGACY_def
  MAX_MEDIA_REFS_def MEDIA_REF_SERIALIZED_SIZE_def MAX_DISPLAY_NAME_LEN_def

definition media_ref_new :: "hash32 \<Rightarrow> byte \<Rightarrow> u32 \<Rightarrow> action_media_ref" where
  "media_ref_new media_hash media_type size_bytes =
     \<lparr>mr_media_hash = media_hash, mr_media_type = media_type, mr_size_bytes = size_bytes\<rparr>"

fun action_type_byte :: "action_type \<Rightarrow> byte" where
  "action_type_byte CreateSpace = 0x00"
| "action_type_byte Post = 0x01"
| "action_type_byte Reply = 0x02"
| "action_type_byte Engage = 0x03"
| "action_type_byte Edit = 0x04"
| "action_type_byte Invite = 0x05"
| "action_type_byte Leave = 0x06"
| "action_type_byte Kick = 0x07"
| "action_type_byte RevokeInvite = 0x08"
| "action_type_byte KeyRotation = 0x09"
| "action_type_byte DMRequest = 0x0A"
| "action_type_byte AcceptDM = 0x0B"
| "action_type_byte DeclineDM = 0x0C"
| "action_type_byte Sponsor = 0x0D"
| "action_type_byte GenesisRegister = 0x0E"
| "action_type_byte RenameSpace = 0x0F"

definition action_type_try_from :: "byte \<Rightarrow> action_error + action_type" where
  "action_type_try_from v =
     (if v = 0x00 then Inr CreateSpace
      else if v = 0x01 then Inr Post
      else if v = 0x02 then Inr Reply
      else if v = 0x03 then Inr Engage
      else if v = 0x04 then Inr Edit
      else if v = 0x05 then Inr Invite
      else if v = 0x06 then Inr Leave
      else if v = 0x07 then Inr Kick
      else if v = 0x08 then Inr RevokeInvite
      else if v = 0x09 then Inr KeyRotation
      else if v = 0x0A then Inr DMRequest
      else if v = 0x0B then Inr AcceptDM
      else if v = 0x0C then Inr DeclineDM
      else if v = 0x0D then Inr Sponsor
      else if v = 0x0E then Inr GenesisRegister
      else if v = 0x0F then Inr RenameSpace
      else Inl (InvalidActionType v))"

fun requires_sponsored_author :: "action_type \<Rightarrow> bool" where
  "requires_sponsored_author CreateSpace = True"
| "requires_sponsored_author Post = True"
| "requires_sponsored_author Reply = True"
| "requires_sponsored_author Engage = True"
| "requires_sponsored_author Edit = True"
| "requires_sponsored_author RenameSpace = True"
| "requires_sponsored_author _ = False"

subsection \<open>Constructors\<close>

definition new_post ::
  "bytes \<Rightarrow> u64 \<Rightarrow> hash32 \<Rightarrow> u64 \<Rightarrow> u64 \<Rightarrow> hash32 \<Rightarrow> bytes \<Rightarrow> action" where
  "new_post actor timestamp content_hash pow_nonce pow_work pow_target signature =
     \<lparr>act_type = Post, act_actor = actor, act_timestamp = timestamp,
      act_content_hash = Some content_hash, act_parent_id = None,
      act_pow_nonce = pow_nonce, act_pow_work = pow_work, act_pow_target = pow_target,
      act_signature = signature, act_emoji = None, act_display_name = None,
      act_media_refs = [], act_replaces_pending = None, act_private = False\<rparr>"

definition new_post_with_media ::
  "bytes \<Rightarrow> u64 \<Rightarrow> hash32 \<Rightarrow> u64 \<Rightarrow> u64 \<Rightarrow> hash32 \<Rightarrow> bytes \<Rightarrow> action_media_ref list \<Rightarrow> action" where
  "new_post_with_media actor timestamp content_hash pow_nonce pow_work pow_target signature media_refs =
     \<lparr>act_type = Post, act_actor = actor, act_timestamp = timestamp,
      act_content_hash = Some content_hash, act_parent_id = None,
      act_pow_nonce = pow_nonce, act_pow_work = pow_work, act_pow_target = pow_target,
      act_signature = signature, act_emoji = None, act_display_name = None,
      act_media_refs = take MAX_MEDIA_REFS media_refs, act_replaces_pending = None,
      act_private = False\<rparr>"

definition new_reply ::
  "bytes \<Rightarrow> u64 \<Rightarrow> hash32 \<Rightarrow> hash32 \<Rightarrow> u64 \<Rightarrow> u64 \<Rightarrow> hash32 \<Rightarrow> bytes \<Rightarrow> action" where
  "new_reply actor timestamp content_hash parent_id pow_nonce pow_work pow_target signature =
     \<lparr>act_type = Reply, act_actor = actor, act_timestamp = timestamp,
      act_content_hash = Some content_hash, act_parent_id = Some parent_id,
      act_pow_nonce = pow_nonce, act_pow_work = pow_work, act_pow_target = pow_target,
      act_signature = signature, act_emoji = None, act_display_name = None,
      act_media_refs = [], act_replaces_pending = None, act_private = False\<rparr>"

definition new_reply_with_media ::
  "bytes \<Rightarrow> u64 \<Rightarrow> hash32 \<Rightarrow> hash32 \<Rightarrow> u64 \<Rightarrow> u64 \<Rightarrow> hash32 \<Rightarrow> bytes \<Rightarrow> action_media_ref list \<Rightarrow> action"
where
  "new_reply_with_media actor timestamp content_hash parent_id pow_nonce pow_work pow_target
     signature media_refs =
     \<lparr>act_type = Reply, act_actor = actor, act_timestamp = timestamp,
      act_content_hash = Some content_hash, act_parent_id = Some parent_id,
      act_pow_nonce = pow_nonce, act_pow_work = pow_work, act_pow_target = pow_target,
      act_signature = signature, act_emoji = None, act_display_name = None,
      act_media_refs = take MAX_MEDIA_REFS media_refs, act_replaces_pending = None,
      act_private = False\<rparr>"

definition new_engage ::
  "bytes \<Rightarrow> u64 \<Rightarrow> hash32 \<Rightarrow> u64 \<Rightarrow> u64 \<Rightarrow> hash32 \<Rightarrow> bytes \<Rightarrow> byte option \<Rightarrow> action" where
  "new_engage actor timestamp target_content pow_nonce pow_work pow_target signature emoji =
     \<lparr>act_type = Engage, act_actor = actor, act_timestamp = timestamp,
      act_content_hash = Some target_content, act_parent_id = None,
      act_pow_nonce = pow_nonce, act_pow_work = pow_work, act_pow_target = pow_target,
      act_signature = signature, act_emoji = emoji, act_display_name = None,
      act_media_refs = [], act_replaces_pending = None, act_private = False\<rparr>"

definition new_create_space ::
  "bytes \<Rightarrow> u64 \<Rightarrow> hash32 \<Rightarrow> u64 \<Rightarrow> u64 \<Rightarrow> hash32 \<Rightarrow> bytes \<Rightarrow> action" where
  "new_create_space actor timestamp space_id pow_nonce pow_work pow_target signature =
     \<lparr>act_type = CreateSpace, act_actor = actor, act_timestamp = timestamp,
      act_content_hash = Some space_id, act_parent_id = None,
      act_pow_nonce = pow_nonce, act_pow_work = pow_work, act_pow_target = pow_target,
      act_signature = signature, act_emoji = None, act_display_name = None,
      act_media_refs = [], act_replaces_pending = None, act_private = False\<rparr>"

definition new_edit ::
  "bytes \<Rightarrow> u64 \<Rightarrow> hash32 \<Rightarrow> hash32 \<Rightarrow> u64 \<Rightarrow> u64 \<Rightarrow> hash32 \<Rightarrow> bytes \<Rightarrow> action" where
  "new_edit actor timestamp original_content_id new_content_hash pow_nonce pow_work pow_target
     signature =
     \<lparr>act_type = Edit, act_actor = actor, act_timestamp = timestamp,
      act_content_hash = Some new_content_hash, act_parent_id = Some original_content_id,
      act_pow_nonce = pow_nonce, act_pow_work = pow_work, act_pow_target = pow_target,
      act_signature = signature, act_emoji = None, act_display_name = None,
      act_media_refs = [], act_replaces_pending = None, act_private = False\<rparr>"

definition new_edit_with_media ::
  "bytes \<Rightarrow> u64 \<Rightarrow> hash32 \<Rightarrow> hash32 \<Rightarrow> u64 \<Rightarrow> u64 \<Rightarrow> hash32 \<Rightarrow> bytes \<Rightarrow> action_media_ref list \<Rightarrow> action"
where
  "new_edit_with_media actor timestamp original_content_id new_content_hash pow_nonce pow_work
     pow_target signature media_refs =
     \<lparr>act_type = Edit, act_actor = actor, act_timestamp = timestamp,
      act_content_hash = Some new_content_hash, act_parent_id = Some original_content_id,
      act_pow_nonce = pow_nonce, act_pow_work = pow_work, act_pow_target = pow_target,
      act_signature = signature, act_emoji = None, act_display_name = None,
      act_media_refs = take MAX_MEDIA_REFS media_refs, act_replaces_pending = None,
      act_private = False\<rparr>"

definition new_sponsor :: "bytes \<Rightarrow> bytes \<Rightarrow> u64 \<Rightarrow> bytes \<Rightarrow> action" where
  "new_sponsor sponsor sponsee timestamp signature =
     \<lparr>act_type = Sponsor, act_actor = sponsor, act_timestamp = timestamp,
      act_content_hash = Some sponsee, act_parent_id = None,
      act_pow_nonce = 0, act_pow_work = 0, act_pow_target = zero32,
      act_signature = signature, act_emoji = None, act_display_name = None,
      act_media_refs = [], act_replaces_pending = None, act_private = False\<rparr>"

definition new_sponsor_with_pow ::
  "bytes \<Rightarrow> bytes \<Rightarrow> u64 \<Rightarrow> bytes \<Rightarrow> u64 \<Rightarrow> u64 \<Rightarrow> hash32 \<Rightarrow> action" where
  "new_sponsor_with_pow sponsor sponsee timestamp signature pow_nonce pow_work pow_target =
     \<lparr>act_type = Sponsor, act_actor = sponsor, act_timestamp = timestamp,
      act_content_hash = Some sponsee, act_parent_id = None,
      act_pow_nonce = pow_nonce, act_pow_work = pow_work, act_pow_target = pow_target,
      act_signature = signature, act_emoji = None, act_display_name = None,
      act_media_refs = [], act_replaces_pending = None, act_private = False\<rparr>"

definition new_sponsor_scoped_with_pow ::
  "bytes \<Rightarrow> bytes \<Rightarrow> u64 \<Rightarrow> hash32 option \<Rightarrow> bytes \<Rightarrow> u64 \<Rightarrow> u64 \<Rightarrow> hash32 \<Rightarrow> action" where
  "new_sponsor_scoped_with_pow sponsor sponsee timestamp scope signature pow_nonce pow_work
     pow_target =
     \<lparr>act_type = Sponsor, act_actor = sponsor, act_timestamp = timestamp,
      act_content_hash = Some sponsee, act_parent_id = scope,
      act_pow_nonce = pow_nonce, act_pow_work = pow_work, act_pow_target = pow_target,
      act_signature = signature, act_emoji = None, act_display_name = None,
      act_media_refs = [], act_replaces_pending = None, act_private = False\<rparr>"

definition new_genesis_register :: "bytes \<Rightarrow> u64 \<Rightarrow> bytes \<Rightarrow> action" where
  "new_genesis_register genesis_pubkey timestamp signature =
     \<lparr>act_type = GenesisRegister, act_actor = genesis_pubkey, act_timestamp = timestamp,
      act_content_hash = Some genesis_pubkey, act_parent_id = None,
      act_pow_nonce = 0, act_pow_work = 0, act_pow_target = zero32,
      act_signature = signature, act_emoji = None, act_display_name = None,
      act_media_refs = [], act_replaces_pending = None, act_private = False\<rparr>"

definition new_rename_space ::
  "bytes \<Rightarrow> u64 \<Rightarrow> hash32 \<Rightarrow> hash32 \<Rightarrow> u64 \<Rightarrow> u64 \<Rightarrow> hash32 \<Rightarrow> bytes \<Rightarrow> action" where
  "new_rename_space actor timestamp target_space_id new_name_hash pow_nonce pow_work pow_target
     signature =
     \<lparr>act_type = RenameSpace, act_actor = actor, act_timestamp = timestamp,
      act_content_hash = Some new_name_hash, act_parent_id = Some target_space_id,
      act_pow_nonce = pow_nonce, act_pow_work = pow_work, act_pow_target = pow_target,
      act_signature = signature, act_emoji = None, act_display_name = None,
      act_media_refs = [], act_replaces_pending = None, act_private = False\<rparr>"

lemmas action_constructors = new_post_def new_post_with_media_def new_reply_def
  new_reply_with_media_def new_engage_def new_create_space_def new_edit_def new_edit_with_media_def
  new_sponsor_def new_sponsor_with_pow_def new_sponsor_scoped_with_pow_def
  new_genesis_register_def new_rename_space_def

subsection \<open>Accessors and signing messages\<close>

definition sponsor_scope :: "action \<Rightarrow> hash32 option" where
  "sponsor_scope a = (if act_type a = Sponsor then act_parent_id a else None)"

definition sponsor_sig_message :: "bytes \<Rightarrow> u64 \<Rightarrow> hash32 option \<Rightarrow> bytes" where
  "sponsor_sig_message sponsee timestamp scope =
     sponsee @ u64_be timestamp @ (case scope of None \<Rightarrow> [] | Some s \<Rightarrow> s)"

definition rename_space_signing_message :: "hash32 \<Rightarrow> hash32 \<Rightarrow> u64 \<Rightarrow> bytes" where
  "rename_space_signing_message target_space_id new_name_hash timestamp =
     string_bytes ''swimchain:rename_space:v1'' @ target_space_id @ new_name_hash @ u64_be timestamp"

definition is_edit :: "action \<Rightarrow> bool" where
  "is_edit a \<longleftrightarrow> act_type a = Edit"

definition original_content_id :: "action \<Rightarrow> hash32 option" where
  "original_content_id a = (if act_type a = Edit then act_parent_id a else None)"

definition is_rename_space :: "action \<Rightarrow> bool" where
  "is_rename_space a \<longleftrightarrow> act_type a = RenameSpace"

definition rename_target_space_id :: "action \<Rightarrow> hash32 option" where
  "rename_target_space_id a = (if act_type a = RenameSpace then act_parent_id a else None)"

definition is_thread_root :: "action \<Rightarrow> bool" where
  "is_thread_root a \<longleftrightarrow> act_type a = Post"

definition is_create_space :: "action \<Rightarrow> bool" where
  "is_create_space a \<longleftrightarrow> act_type a = CreateSpace"

definition action_space_id :: "action \<Rightarrow> hash32 option" where
  "action_space_id a = (if act_type a = CreateSpace then act_content_hash a else None)"

definition is_sponsorship :: "action \<Rightarrow> bool" where
  "is_sponsorship a \<longleftrightarrow> act_type a = Sponsor \<or> act_type a = GenesisRegister"

definition sponsee_pubkey :: "action \<Rightarrow> hash32 option" where
  "sponsee_pubkey a = (if act_type a = Sponsor then act_content_hash a else None)"

subsection \<open>The wire format\<close>

definition opt_hash_bytes :: "hash32 option \<Rightarrow> bytes" where
  "opt_hash_bytes h = (case h of Some x \<Rightarrow> x | None \<Rightarrow> zero32)"

definition display_name_bytes :: "bytes option \<Rightarrow> bytes" where
  "display_name_bytes dn =
     (case dn of
        Some name \<Rightarrow>
          (let len = min (length name) MAX_DISPLAY_NAME_LEN
           in word_of_nat len # take len name @ replicate (MAX_DISPLAY_NAME_LEN - len) 0)
      | None \<Rightarrow> replicate (1 + MAX_DISPLAY_NAME_LEN) 0)"

definition media_ref_bytes :: "action_media_ref \<Rightarrow> bytes" where
  "media_ref_bytes r = mr_media_hash r @ [mr_media_type r] @ u32_be (mr_size_bytes r)"

definition media_refs_bytes :: "action_media_ref list \<Rightarrow> bytes" where
  "media_refs_bytes refs =
     (let media_count = min (length refs) MAX_MEDIA_REFS
      in word_of_nat media_count # concat (map media_ref_bytes (take MAX_MEDIA_REFS refs))
         @ replicate ((MAX_MEDIA_REFS - media_count) * MEDIA_REF_SERIALIZED_SIZE) 0)"

definition replaces_bytes :: "hash32 option \<Rightarrow> bytes" where
  "replaces_bytes h = (case h of Some x \<Rightarrow> 1 # x | None \<Rightarrow> replicate 33 0)"

definition action_serialize :: "action \<Rightarrow> bytes" where
  "action_serialize a =
     [action_type_byte (act_type a)]
     @ act_actor a
     @ u64_be (act_timestamp a)
     @ opt_hash_bytes (act_content_hash a)
     @ opt_hash_bytes (act_parent_id a)
     @ u64_be (act_pow_nonce a)
     @ u64_be (act_pow_work a)
     @ act_pow_target a
     @ act_signature a
     @ [case act_emoji a of Some e \<Rightarrow> e | None \<Rightarrow> 0]
     @ display_name_bytes (act_display_name a)
     @ media_refs_bytes (act_media_refs a)
     @ replaces_bytes (act_replaces_pending a)
     @ [if act_private a then 1 else 0]"

definition opt_hash_decode :: "bytes \<Rightarrow> hash32 option" where
  "opt_hash_decode b = (if b = zero32 then None else Some b)"

definition display_name_decode :: "bytes \<Rightarrow> action_error + bytes option" where
  "display_name_decode field =
     (let display_name_len = unat (field ! 0)
      in if display_name_len = 0 \<or> display_name_len > MAX_DISPLAY_NAME_LEN then Inr None
         else
           let name_bytes = byte_slice field 1 display_name_len
           in (case utf8_run 0 name_bytes of
                 None \<Rightarrow> Inr (Some name_bytes)
               | Some e \<Rightarrow> Inl (DeserializationError
                   (''Invalid UTF-8 in display_name: '' @ utf8_error_text e))))"

primrec media_refs_decode_loop :: "bytes \<Rightarrow> nat \<Rightarrow> action_media_ref list" where
  "media_refs_decode_loop slots 0 = []"
| "media_refs_decode_loop slots (Suc n) =
     (let slot = take MEDIA_REF_SERIALIZED_SIZE slots;
          rest = media_refs_decode_loop (drop MEDIA_REF_SERIALIZED_SIZE slots) n;
          media_hash = byte_slice slot 0 32
      in if media_hash = zero32 then rest
         else \<lparr>mr_media_hash = media_hash, mr_media_type = slot ! 32,
               mr_size_bytes = u32_of_be (byte_slice slot 33 4)\<rparr> # rest)"

definition media_refs_decode :: "bytes \<Rightarrow> action_media_ref list" where
  "media_refs_decode field =
     media_refs_decode_loop (tl field) (min (unat (field ! 0)) MAX_MEDIA_REFS)"

definition action_deserialize :: "bytes \<Rightarrow> action_error + action" where
  "action_deserialize data =
     (if length data \<noteq> ACTION_SERIALIZED_SIZE \<and> length data \<noteq> ACTION_SERIALIZED_SIZE_LEGACY
      then Inl (DeserializationError
             (''Expected '' @ show_nat ACTION_SERIALIZED_SIZE @ '' or ''
              @ show_nat ACTION_SERIALIZED_SIZE_LEGACY @ '' bytes, got '' @ show_nat (length data)))
      else
        let private = (length data = ACTION_SERIALIZED_SIZE \<and> data ! ACTION_SERIALIZED_SIZE_LEGACY = 1)
        in rbind (action_type_try_from (data ! 0)) (\<lambda>action_type.
           rbind (display_name_decode (byte_slice data 218 65)) (\<lambda>display_name.
             Inr \<lparr>act_type = action_type,
                  act_actor = byte_slice data 1 32,
                  act_timestamp = u64_of_be (byte_slice data 33 8),
                  act_content_hash = opt_hash_decode (byte_slice data 41 32),
                  act_parent_id = opt_hash_decode (byte_slice data 73 32),
                  act_pow_nonce = u64_of_be (byte_slice data 105 8),
                  act_pow_work = u64_of_be (byte_slice data 113 8),
                  act_pow_target = byte_slice data 121 32,
                  act_signature = byte_slice data 153 64,
                  act_emoji = (if data ! 217 = 0 then None else Some (data ! 217)),
                  act_display_name = display_name,
                  act_media_refs = media_refs_decode (byte_slice data 283 149),
                  act_replaces_pending =
                    (if data ! 432 = 0 then None else Some (byte_slice data 433 32)),
                  act_private = private\<rparr>)))"

definition act_hash :: "(bytes \<Rightarrow> hash32) \<Rightarrow> action \<Rightarrow> hash32" where
  "act_hash H a =
     H (take (if act_private a then ACTION_SERIALIZED_SIZE else ACTION_SERIALIZED_SIZE_LEGACY)
          (action_serialize a))"

subsection \<open>Well-formedness\<close>

text \<open>\<open>BlockBuilder::action_hash\<close>, the key under which mempool and chain store deduplicate actions.\<close>

definition action_hash :: "(bytes \<Rightarrow> hash32) \<Rightarrow> action \<Rightarrow> hash32" where
  "action_hash H a =
     H (act_actor a @ u64_be (act_timestamp a) @ [action_type_byte (act_type a)] @
        (case act_content_hash a of Some h \<Rightarrow> h | None \<Rightarrow> zero32))"

text \<open>
  What the Rust types guarantee of an action (array lengths, \<open>String\<close> is UTF-8), and what the wire
  format can carry beyond that: an all-zero hash, an emoji of 0, an empty or over-long name and a
  media reference with a zero hash or past the fourth have no faithful encoding.
\<close>

definition typed_action :: "action \<Rightarrow> bool" where
  "typed_action a \<longleftrightarrow>
     length (act_actor a) = 32 \<and> length (act_pow_target a) = 32 \<and> length (act_signature a) = 64 \<and>
     pred_option is_hash (act_content_hash a) \<and> pred_option is_hash (act_parent_id a) \<and>
     pred_option is_hash (act_replaces_pending a) \<and> pred_option is_utf8 (act_display_name a) \<and>
     list_all (\<lambda>r. is_hash (mr_media_hash r)) (act_media_refs a)"

definition wire_safe :: "action \<Rightarrow> bool" where
  "wire_safe a \<longleftrightarrow>
     act_content_hash a \<noteq> Some zero32 \<and> act_parent_id a \<noteq> Some zero32 \<and> act_emoji a \<noteq> Some 0 \<and>
     pred_option (\<lambda>n. n \<noteq> [] \<and> length n \<le> MAX_DISPLAY_NAME_LEN) (act_display_name a) \<and>
     length (act_media_refs a) \<le> MAX_MEDIA_REFS \<and>
     list_all (\<lambda>r. mr_media_hash r \<noteq> zero32) (act_media_refs a)"

subsection \<open>Fields\<close>

lemma action_type_roundtrip [simp, wire_rt]:
  "action_type_try_from (action_type_byte t) = Inr t"
  by (cases t) (simp_all add: action_type_try_from_def)

lemma action_type_try_from_ok:
  "action_type_try_from v = Inr t \<Longrightarrow> v = action_type_byte t"
  by (auto simp: action_type_try_from_def split: if_splits)

lemma length_opt_hash_bytes [simp, wire_len]:
  "pred_option is_hash h \<Longrightarrow> length (opt_hash_bytes h) = 32"
  by (cases h) (auto simp: opt_hash_bytes_def)

lemma opt_hash_roundtrip [wire_rt]:
  "opt_hash_decode (opt_hash_bytes h) = (if h = Some zero32 then None else h)"
  by (cases h) (auto simp: opt_hash_bytes_def opt_hash_decode_def)

lemma length_display_name_bytes [simp, wire_len]: "length (display_name_bytes dn) = 65"
  by (auto simp: display_name_bytes_def action_sizes Let_def split: option.splits)

lemma unat_small_byte: "n < 256 \<Longrightarrow> unat (word_of_nat n :: byte) = n"
  by (simp add: unat_of_nat)

lemma display_name_decode_bytes [wire_rt]:
  "display_name_decode (display_name_bytes dn) =
     (case dn of None \<Rightarrow> Inr None
      | Some name \<Rightarrow> if name = [] then Inr None
          else (case utf8_run 0 (take MAX_DISPLAY_NAME_LEN name) of
                  None \<Rightarrow> Inr (Some (take MAX_DISPLAY_NAME_LEN name))
                | Some e \<Rightarrow> Inl (DeserializationError
                    (''Invalid UTF-8 in display_name: '' @ utf8_error_text e))))"
proof (cases dn)
  case None
  then show ?thesis by (simp add: display_name_bytes_def display_name_decode_def action_sizes)
next
  case (Some name)
  define len where "len = min (length name) 64"
  have len: "len \<le> 64" "unat (word_of_nat len :: byte) = len" "take len name = take 64 name"
    by (auto simp: len_def unat_small_byte min_def)
  have "byte_slice (word_of_nat len # take len name @ replicate (64 - len) 0) 1 len = take len name"
    by (simp add: byte_slice_def len_def)
  moreover have "len = 0 \<longleftrightarrow> name = []"
    by (auto simp: len_def min_def)
  ultimately show ?thesis
    using Some len
    by (simp add: display_name_bytes_def display_name_decode_def action_sizes Let_def
        len_def [symmetric] split: option.splits)
qed

lemma length_media_ref_bytes [simp, wire_len]:
  "is_hash (mr_media_hash r) \<Longrightarrow> length (media_ref_bytes r) = 37"
  by (simp add: media_ref_bytes_def)

lemma length_concat_media [simp]:
  "list_all (\<lambda>r. is_hash (mr_media_hash r)) rs \<Longrightarrow>
   length (concat (map media_ref_bytes rs)) = 37 * length rs"
  by (induction rs) auto

lemma list_all_take: "list_all P xs \<Longrightarrow> list_all P (take n xs)"
  by (auto simp: list_all_iff dest: in_set_takeD)

lemma length_media_refs_bytes [simp, wire_len]:
  "list_all (\<lambda>r. is_hash (mr_media_hash r)) refs \<Longrightarrow> length (media_refs_bytes refs) = 149"
  using length_concat_media [OF list_all_take, of refs 4]
  by (auto simp: media_refs_bytes_def action_sizes Let_def min_def)

lemma media_refs_decode_loop_bytes:
  "list_all (\<lambda>r. is_hash (mr_media_hash r)) rs \<Longrightarrow>
   media_refs_decode_loop (concat (map media_ref_bytes rs) @ pad) (length rs)
     = filter (\<lambda>r. mr_media_hash r \<noteq> zero32) rs"
proof (induction rs)
  case (Cons r rs)
  have slot: "take 37 (media_ref_bytes r @ xs) = media_ref_bytes r"
    and rest: "drop 37 (media_ref_bytes r @ xs) = xs" for xs
    using Cons.prems by simp_all
  have "byte_slice (media_ref_bytes r) 0 32 = mr_media_hash r"
    "byte_slice (media_ref_bytes r) 33 4 = u32_be (mr_size_bytes r)"
    "media_ref_bytes r ! 32 = mr_media_type r"
    using Cons.prems by (simp_all add: media_ref_bytes_def nth_append)
  with Cons slot rest show ?case
    by (simp add: action_sizes Let_def)
qed simp

lemma media_refs_roundtrip [wire_rt]:
  "list_all (\<lambda>r. is_hash (mr_media_hash r)) refs \<Longrightarrow>
   media_refs_decode (media_refs_bytes refs)
     = filter (\<lambda>r. mr_media_hash r \<noteq> zero32) (take MAX_MEDIA_REFS refs)"
  using media_refs_decode_loop_bytes [OF list_all_take, of refs 4]
  by (simp add: media_refs_decode_def media_refs_bytes_def action_sizes Let_def unat_small_byte)

lemma length_replaces_bytes [simp, wire_len]:
  "pred_option is_hash h \<Longrightarrow> length (replaces_bytes h) = 33"
  by (cases h) (auto simp: replaces_bytes_def)

subsection \<open>Whole actions\<close>

lemma typed_actionD:
  assumes "typed_action a"
  shows "length (act_actor a) = 32" "length (act_pow_target a) = 32" "length (act_signature a) = 64"
    "pred_option is_hash (act_content_hash a)" "pred_option is_hash (act_parent_id a)"
    "pred_option is_hash (act_replaces_pending a)" "pred_option is_utf8 (act_display_name a)"
    "list_all (\<lambda>r. is_hash (mr_media_hash r)) (act_media_refs a)"
  using assms by (simp_all add: typed_action_def)

lemma length_action_serialize [wire_len]:
  "typed_action a \<Longrightarrow> length (action_serialize a) = ACTION_SERIALIZED_SIZE"
  using typed_actionD [of a] by (simp add: action_serialize_def action_sizes)

text \<open>
  Reading every field back from a serialized action, with or without the trailing \<open>private\<close> byte.
\<close>

lemma action_serialize_split:
  "action_serialize a = butlast (action_serialize a) @ [if act_private a then 1 else 0]"
  by (simp add: action_serialize_def butlast_append)

lemma action_fields:
  fixes a :: action and tail :: bytes
  assumes "typed_action a"
  defines "d \<equiv> butlast (action_serialize a) @ tail"
  shows "d ! 0 = action_type_byte (act_type a)"
    "byte_slice d 1 32 = act_actor a"
    "byte_slice d 33 8 = u64_be (act_timestamp a)"
    "byte_slice d 41 32 = opt_hash_bytes (act_content_hash a)"
    "byte_slice d 73 32 = opt_hash_bytes (act_parent_id a)"
    "byte_slice d 105 8 = u64_be (act_pow_nonce a)"
    "byte_slice d 113 8 = u64_be (act_pow_work a)"
    "byte_slice d 121 32 = act_pow_target a"
    "byte_slice d 153 64 = act_signature a"
    "d ! 217 = (case act_emoji a of Some e \<Rightarrow> e | None \<Rightarrow> 0)"
    "byte_slice d 218 65 = display_name_bytes (act_display_name a)"
    "byte_slice d 283 149 = media_refs_bytes (act_media_refs a)"
    "byte_slice d 432 33 = replaces_bytes (act_replaces_pending a)"
    "d ! 432 = replaces_bytes (act_replaces_pending a) ! 0"
    "length d = 465 + length tail"
  using typed_actionD [OF assms(1)]
  by (simp_all add: d_def action_serialize_def butlast_append nth_append)

lemma action_deserialize_serialize:
  assumes "typed_action a" and "tail = [] \<or> (\<exists>b. tail = [b])"
  shows "action_deserialize (butlast (action_serialize a) @ tail) =
     rbind (display_name_decode (display_name_bytes (act_display_name a))) (\<lambda>display_name.
       Inr (a\<lparr>act_content_hash := (if act_content_hash a = Some zero32 then None else act_content_hash a),
              act_parent_id := (if act_parent_id a = Some zero32 then None else act_parent_id a),
              act_emoji := (if act_emoji a = Some 0 then None else act_emoji a),
              act_display_name := display_name,
              act_media_refs :=
                filter (\<lambda>r. mr_media_hash r \<noteq> zero32) (take MAX_MEDIA_REFS (act_media_refs a)),
              act_private := (tail = [1])\<rparr>))"
proof -
  define d where "d = butlast (action_serialize a) @ tail"
  have len: "length d = 465 + length tail"
    and priv: "length d = 466 \<and> d ! 465 = 1 \<longleftrightarrow> tail = [1]"
    using action_fields(15) [OF assms(1)] action_fields(15) [OF assms(1), of "[]"] assms(2)
    by (auto simp: d_def nth_append)
  have flag: "(if d ! 432 = 0 then None else Some (byte_slice d 433 32)) = act_replaces_pending a"
  proof (cases "act_replaces_pending a")
    case None
    then show ?thesis
      using action_fields(14) [OF assms(1), of tail] by (simp add: d_def replaces_bytes_def)
  next
    case (Some h)
    have "byte_slice d 433 32 = drop 1 (byte_slice d 432 33)"
      by (simp add: byte_slice_def drop_take)
    with Some show ?thesis
      using action_fields(13,14) [OF assms(1), of tail] by (simp add: d_def replaces_bytes_def)
  qed
  have emoji: "(if d ! 217 = 0 then None else Some (d ! 217))
      = (if act_emoji a = Some 0 then None else act_emoji a)"
    using action_fields(10) [OF assms(1), of tail] by (cases "act_emoji a") (auto simp: d_def)
  have guard: "\<not> (length d \<noteq> 466 \<and> length d \<noteq> 465)"
    using len assms(2) by auto
  have same: "\<lparr>act_type = act_type a, act_actor = act_actor a, act_timestamp = act_timestamp a,
      act_content_hash = c, act_parent_id = p, act_pow_nonce = act_pow_nonce a,
      act_pow_work = act_pow_work a, act_pow_target = act_pow_target a,
      act_signature = act_signature a, act_emoji = e, act_display_name = n, act_media_refs = m,
      act_replaces_pending = act_replaces_pending a, act_private = v\<rparr> =
      a\<lparr>act_content_hash := c, act_parent_id := p, act_emoji := e, act_display_name := n,
        act_media_refs := m, act_private := v\<rparr>" for c p e n m v
    by (rule action.equality) simp_all
  show ?thesis
    unfolding d_def [symmetric] action_deserialize_def Let_def action_sizes
    by (simp only: guard if_False flag emoji priv same rbind_Inr
        action_fields(1-9,11,12) [OF assms(1), of tail, folded d_def]
        action_type_roundtrip u64_of_be_be opt_hash_roundtrip
        media_refs_roundtrip [OF typed_actionD(8) [OF assms(1)], unfolded action_sizes])
qed

text \<open>Decoded actions: the length checks and the UTF-8 check of the decoder give both conditions.\<close>

lemma display_name_decode_ok:
  assumes "display_name_decode f = Inr (Some n)" and "length f = 65"
  shows "is_utf8 n \<and> n \<noteq> [] \<and> length n \<le> MAX_DISPLAY_NAME_LEN"
proof -
  have len: "unat (f ! 0) \<noteq> 0" "unat (f ! 0) \<le> 64" and n: "n = byte_slice f 1 (unat (f ! 0))"
    and utf8: "utf8_run 0 n = None"
    using assms(1)
    by (auto simp: display_name_decode_def action_sizes Let_def split: if_splits option.splits)
  have "length n = unat (f ! 0)"
    using len assms(2) by (simp add: n)
  with len utf8 show ?thesis by (auto simp: is_utf8_def action_sizes)
qed

lemma media_refs_decode_loop_ok:
  "37 * n \<le> length slots \<Longrightarrow>
   length (media_refs_decode_loop slots n) \<le> n \<and>
   list_all (\<lambda>r. is_hash (mr_media_hash r) \<and> mr_media_hash r \<noteq> zero32)
     (media_refs_decode_loop slots n)"
proof (induction n arbitrary: slots)
  case (Suc n)
  have "length (byte_slice (take 37 slots) 0 32) = 32"
    using Suc.prems by simp
  moreover have "length (media_refs_decode_loop (drop 37 slots) n) \<le> n \<and>
      list_all (\<lambda>r. is_hash (mr_media_hash r) \<and> mr_media_hash r \<noteq> zero32)
        (media_refs_decode_loop (drop 37 slots) n)"
    using Suc.IH [of "drop 37 slots"] Suc.prems by simp
  ultimately show ?case
    by (auto simp: Let_def action_sizes is_hash_def)
qed simp

lemma media_refs_decode_ok:
  assumes "length f = 149"
  shows "length (media_refs_decode f) \<le> MAX_MEDIA_REFS"
    and "list_all (\<lambda>r. is_hash (mr_media_hash r) \<and> mr_media_hash r \<noteq> zero32) (media_refs_decode f)"
  using media_refs_decode_loop_ok [of "min (unat (f ! 0)) 4" "tl f"] assms
  by (auto simp: media_refs_decode_def action_sizes min_def)

lemma action_deserialize_ok:
  assumes "action_deserialize d = Inr a"
  shows "typed_action a \<and> wire_safe a"
proof -
  have len: "465 \<le> length d"
    using assms by (auto simp: action_deserialize_def action_sizes split: if_splits)
  obtain dn where dn: "display_name_decode (byte_slice d 218 65) = Inr dn"
    and fields: "act_actor a = byte_slice d 1 32" "act_pow_target a = byte_slice d 121 32"
      "act_signature a = byte_slice d 153 64"
      "act_content_hash a = opt_hash_decode (byte_slice d 41 32)"
      "act_parent_id a = opt_hash_decode (byte_slice d 73 32)"
      "act_emoji a = (if d ! 217 = 0 then None else Some (d ! 217))" "act_display_name a = dn"
      "act_media_refs a = media_refs_decode (byte_slice d 283 149)"
      "act_replaces_pending a = (if d ! 432 = 0 then None else Some (byte_slice d 433 32))"
    using assms by (auto simp: action_deserialize_def Let_def rbind_ok split: if_splits)
  have "pred_option is_utf8 dn \<and>
      pred_option (\<lambda>n. n \<noteq> [] \<and> length n \<le> MAX_DISPLAY_NAME_LEN) dn"
    using display_name_decode_ok dn len by (cases dn) auto
  then show ?thesis
    using len media_refs_decode_ok [of "byte_slice d 283 149"]
    by (auto simp: typed_action_def wire_safe_def fields opt_hash_decode_def is_hash_def list_all_iff)
qed

lemma utf8_run_ascii: "b < 0x80 \<Longrightarrow> utf8_run i (replicate n b @ r) = utf8_run (i + n) r"
  by (induction n arbitrary: i) auto

lemma wire_safe_display_name:
  "typed_action a \<Longrightarrow> wire_safe a \<Longrightarrow>
   display_name_decode (display_name_bytes (act_display_name a)) = Inr (act_display_name a)"
  using typed_actionD(7) [of a]
  by (auto simp: wire_rt wire_safe_def is_utf8_def split: option.splits)

lemma wire_safe_deserialize:
  assumes "typed_action a" and "wire_safe a" and "tail = [] \<or> (\<exists>b. tail = [b])"
  shows "action_deserialize (butlast (action_serialize a) @ tail) =
     Inr (a\<lparr>act_private := (tail = [1])\<rparr>)"
  unfolding action_deserialize_serialize [OF assms(1,3)] wire_safe_display_name [OF assms(1,2)]
  using assms(2)
  by (auto simp: wire_safe_def list_all_iff filter_True intro!: action.equality)

lemma take_legacy:
  "typed_action a \<Longrightarrow> take ACTION_SERIALIZED_SIZE_LEGACY (action_serialize a) = butlast (action_serialize a)"
  using length_action_serialize [of a] by (simp add: butlast_conv_take action_sizes)

definition act_preimage :: "action \<Rightarrow> bytes" where
  "act_preimage a =
     take (if act_private a then ACTION_SERIALIZED_SIZE else ACTION_SERIALIZED_SIZE_LEGACY)
       (action_serialize a)"

lemma act_hash_preimage: "act_hash H a = H (act_preimage a)"
  by (simp add: act_hash_def act_preimage_def)

lemma act_preimage_decodes:
  assumes "typed_action a" and "wire_safe a"
  shows "action_deserialize (act_preimage a) = Inr a"
proof (cases "act_private a")
  case True
  have "act_preimage a = butlast (action_serialize a) @ [1]"
    using True length_action_serialize [OF assms(1)] action_serialize_split [of a]
    by (simp add: act_preimage_def)
  then show ?thesis
    using wire_safe_deserialize [OF assms, of "[1]"] True by simp
next
  case False
  then have "act_preimage a = butlast (action_serialize a) @ []"
    using take_legacy [OF assms(1)] by (simp add: act_preimage_def)
  then show ?thesis
    using wire_safe_deserialize [OF assms, of "[]"] False by simp
qed

lemma act_preimage_inject:
  assumes "typed_action a" "wire_safe a" and "typed_action b" "wire_safe b"
    and "act_preimage a = act_preimage b"
  shows "a = b"
proof -
  have "Inr a = action_deserialize (act_preimage b)"
    using act_preimage_decodes [OF assms(1,2)] unfolding assms(5) by (rule sym)
  also have "\<dots> = Inr b"
    by (rule act_preimage_decodes [OF assms(3,4)])
  finally show ?thesis by (rule sum.inject(2) [THEN iffD1])
qed

lemma map_act_preimage_inject:
  assumes "list_all typed_action as" "list_all wire_safe as"
    and "list_all typed_action bs" "list_all wire_safe bs"
    and "map act_preimage as = map act_preimage bs"
  shows "as = bs"
proof (rule map_inj_on)
  show "inj_on act_preimage (set as \<union> set bs)"
    using assms(1-4) by (auto simp: inj_on_def list_all_iff intro: act_preimage_inject)
qed (fact assms(5))

subsection \<open>Properties\<close>

text \<open>
  C37. The wire format is faithful exactly on the actions it can represent: for every action the
  Rust types allow, decoding its 466-byte encoding gives the action back if and only if no hash is
  all zero, the emoji is not 0, the display name is non-empty and at most 64 bytes, and there are
  at most four media references, none with a zero hash.
\<close>

theorem action_wire_roundtrip:
  assumes "typed_action a"
  shows "length (action_serialize a) = ACTION_SERIALIZED_SIZE \<and>
     (action_deserialize (action_serialize a) = Inr a \<longleftrightarrow> wire_safe a)"
proof -
  let ?tail = "[if act_private a then 1 else 0 :: byte]"
  have eq: "action_serialize a = butlast (action_serialize a) @ ?tail"
    by (rule action_serialize_split)
  have "action_deserialize (action_serialize a) = Inr a" if "wire_safe a"
    by (subst eq, subst wire_safe_deserialize [OF assms that]) simp_all
  moreover have "wire_safe a" if "action_deserialize (action_serialize a) = Inr a"
    using action_deserialize_ok [OF that] by simp
  ultimately show ?thesis
    using length_action_serialize [OF assms] by blast
qed

definition sample_action :: action where
  "sample_action = new_reply (replicate 32 7) 1000 (replicate 32 1) (replicate 32 2) 5 3
     (replicate 32 9) (replicate 64 8)"

theorem action_wire_roundtrip_witness:
  "typed_action sample_action \<and> wire_safe sample_action \<and>
   action_deserialize (action_serialize sample_action) = Inr sample_action"
proof -
  have "(replicate 32 x :: byte list) = replicate 32 y \<longleftrightarrow> x = y" for x y :: byte
    by (simp add: replicate_eq_replicate)
  then have t: "typed_action sample_action" and w: "wire_safe sample_action"
    by (simp_all add: sample_action_def new_reply_def typed_action_def wire_safe_def is_hash_def
        zero32_def)
  then show ?thesis using action_wire_roundtrip [OF t] by simp
qed

text \<open>
  Decoding is sound on arbitrary input: whatever bytes a peer sends, an accepted action has the
  array lengths and UTF-8 name its type promises and is representable, so re-encoding it and
  decoding again is the identity; a buffer whose length is neither 466 nor 465 is an error.
\<close>

theorem action_decode_sound:
  "(case action_deserialize d of
      Inr a \<Rightarrow> typed_action a \<and> wire_safe a \<and> action_deserialize (action_serialize a) = Inr a \<and>
               (length d = ACTION_SERIALIZED_SIZE_LEGACY \<or> length d = ACTION_SERIALIZED_SIZE)
    | Inl e \<Rightarrow> True)"
proof (cases "action_deserialize d")
  case (Inr a)
  then have ok: "typed_action a" "wire_safe a"
    using action_deserialize_ok by blast+
  have "action_deserialize (action_serialize a) = Inr a"
    by (subst action_serialize_split, subst wire_safe_deserialize [OF ok]) simp_all
  moreover have "length d = ACTION_SERIALIZED_SIZE_LEGACY \<or> length d = ACTION_SERIALIZED_SIZE"
    using Inr by (auto simp: action_deserialize_def split: if_splits)
  ultimately show ?thesis using Inr ok by simp
qed simp

text \<open>
  The legacy layout: dropping the trailing byte of a representable action decodes to the same
  action with \<open>private\<close> off, and the hash of a public action is the hash of that 465-byte form.
\<close>

theorem action_legacy_layout:
  assumes "typed_action a" and "wire_safe a"
  shows "action_deserialize (take ACTION_SERIALIZED_SIZE_LEGACY (action_serialize a)) =
           Inr (a\<lparr>act_private := False\<rparr>) \<and>
         act_hash H (a\<lparr>act_private := False\<rparr>) =
           H (take ACTION_SERIALIZED_SIZE_LEGACY (action_serialize a))"
proof -
  have "action_serialize (a\<lparr>act_private := False\<rparr>) = butlast (action_serialize a) @ [0]"
    by (simp add: action_serialize_def butlast_append)
  then have "take ACTION_SERIALIZED_SIZE_LEGACY (action_serialize (a\<lparr>act_private := False\<rparr>))
      = take ACTION_SERIALIZED_SIZE_LEGACY (action_serialize a)"
    using length_action_serialize [OF assms(1)] take_legacy [OF assms(1)] by (simp add: action_sizes)
  then show ?thesis
    using wire_safe_deserialize [OF assms, of "[]"] take_legacy [OF assms(1)]
    by (simp add: act_hash_def)
qed

theorem action_legacy_layout_witness:
  "action_deserialize (take ACTION_SERIALIZED_SIZE_LEGACY (action_serialize sample_action)) =
     Inr (sample_action\<lparr>act_private := False\<rparr>)"
proof -
  have "typed_action sample_action" "wire_safe sample_action"
    by (simp_all add: sample_action_def new_reply_def typed_action_def wire_safe_def is_hash_def
        zero32_def replicate_eq_replicate)
  from action_legacy_layout [OF this, of rev] show ?thesis by (rule conjunct1)
qed

text \<open>
  The action hash is binding: two representable actions with the same hash are equal, or their
  two hashed encodings are different values with the same digest.
\<close>

theorem action_hash_binding:
  assumes "typed_action a" "wire_safe a" and "typed_action b" "wire_safe b"
    and "act_hash H a = act_hash H b"
  shows "a = b \<or> (act_preimage a \<noteq> act_preimage b \<and> H (act_preimage a) = H (act_preimage b))"
proof (cases "act_preimage a = act_preimage b")
  case True
  then show ?thesis using act_preimage_inject [OF assms(1-4)] by blast
next
  case False
  with assms(5) show ?thesis by (simp add: act_hash_preimage)
qed

theorem action_hash_binding_witness:
  "act_preimage sample_action \<noteq> act_preimage (sample_action\<lparr>act_pow_nonce := 6\<rparr>)"
proof -
  have "typed_action sample_action" "wire_safe sample_action"
    "typed_action (sample_action\<lparr>act_pow_nonce := 6\<rparr>)" "wire_safe (sample_action\<lparr>act_pow_nonce := 6\<rparr>)"
    by (simp_all add: sample_action_def new_reply_def typed_action_def wire_safe_def is_hash_def
        zero32_def replicate_eq_replicate)
  moreover have "act_hash (\<lambda>_. zero32) sample_action
      = act_hash (\<lambda>_. zero32) (sample_action\<lparr>act_pow_nonce := 6\<rparr>)"
    by (simp add: act_hash_def)
  moreover have "sample_action \<noteq> sample_action\<lparr>act_pow_nonce := 6\<rparr>"
    by (simp add: sample_action_def new_reply_def)
  ultimately show ?thesis
    using action_hash_binding [of sample_action "sample_action\<lparr>act_pow_nonce := 6\<rparr>" "\<lambda>_. zero32"]
    by blast
qed

text \<open>
  A display name is cut at 64 bytes when encoded, not at a character: when the cut falls
  inside a UTF-8 sequence the encoder still succeeds and every decoder rejects the result.
\<close>

theorem display_name_cut_undecodable:
  assumes "typed_action a" and "act_display_name a = Some n" and "n \<noteq> []"
    and "utf8_run 0 (take MAX_DISPLAY_NAME_LEN n) = Some err"
  shows "length (action_serialize a) = ACTION_SERIALIZED_SIZE \<and>
     action_deserialize (action_serialize a) =
       Inl (DeserializationError (''Invalid UTF-8 in display_name: '' @ utf8_error_text err))"
proof -
  have "action_deserialize (action_serialize a) = Inl (DeserializationError
      (''Invalid UTF-8 in display_name: '' @ utf8_error_text err))"
    by (subst action_serialize_split, subst action_deserialize_serialize [OF assms(1)])
      (simp_all add: display_name_decode_bytes assms)
  then show ?thesis using length_action_serialize [OF assms(1)] by simp
qed

text \<open>63 letters and one two-byte character: 65 bytes of valid UTF-8, cut after its first byte.\<close>

definition cut_action :: action where
  "cut_action = sample_action\<lparr>act_display_name := Some (replicate 63 0x61 @ [0xC3, 0xA9])\<rparr>"

theorem display_name_cut_undecodable_witness:
  "typed_action cut_action \<and>
   action_deserialize (action_serialize cut_action) =
     Inl (DeserializationError
       (''Invalid UTF-8 in display_name: '' @ utf8_error_text (63, None)))"
proof -
  have run: "utf8_run 0 (replicate 63 0x61 @ r) = utf8_run 63 r" for r
    by (subst utf8_run_ascii) simp_all
  have "utf8_run 63 [0xC3, 0xA9] = None" and "utf8_run 63 [0xC3] = Some (63, None)"
    by (simp_all add: is_cont_def)
  moreover have "take MAX_DISPLAY_NAME_LEN (replicate 63 0x61 @ [0xC3, 0xA9])
      = replicate 63 (0x61 :: byte) @ [0xC3]"
    by (simp add: action_sizes)
  ultimately have utf8: "is_utf8 (replicate 63 0x61 @ [0xC3, 0xA9])"
    and cut: "utf8_run 0 (take MAX_DISPLAY_NAME_LEN (replicate 63 0x61 @ [0xC3, 0xA9])) = Some (63, None)"
    unfolding is_utf8_def by (simp_all only: run)
  have t: "typed_action cut_action"
    using utf8 by (simp add: cut_action_def sample_action_def new_reply_def typed_action_def is_hash_def
       )
  show ?thesis
    using display_name_cut_undecodable [OF t _ _ cut] t
    by (simp add: cut_action_def)
qed

end
