(* ===== verification/Content_Block.thy ===== *)
theory Content_Block
  imports Block_Contract Branch_Path Action
begin

text \<open>
  Content blocks (\<open>src/blocks/content_block.rs\<close>), the leaves of the hierarchy: the actions of one
  thread, the Merkle root of their hashes and the sum of their work.
\<close>

subsection \<open>Definitions\<close>

datatype content_block_error =
    EmptyActions
  | ThreadMismatch hash32 hash32
  | InvalidAction string
  | CbPoWSumMismatch u64 u64
  | CbMerkleRootMismatch hash32 hash32

record space_creation_metadata =
  scm_name :: bytes
  scm_description :: "bytes option"

record content_block =
  cb_thread_root_id :: hash32
  cb_space_id :: hash32
  cb_actions :: "action list"
  cb_merkle_root :: hash32
  cb_prev_content_hash :: "hash32 option"
  cb_timestamp :: u64
  cb_total_pow :: u64
  cb_branch_path :: branch_path
  cb_space_metadata :: "space_creation_metadata option"

definition cb_new ::
  "(bytes \<Rightarrow> hash32) \<Rightarrow> hash32 \<Rightarrow> hash32 \<Rightarrow> action list \<Rightarrow> hash32 option \<Rightarrow> u64 \<Rightarrow> branch_path \<Rightarrow>
   content_block_error + content_block" where
  "cb_new H thread_root_id space_id actions prev_content_hash timestamp path =
     (if actions = [] then Inl EmptyActions
      else Inr \<lparr>cb_thread_root_id = thread_root_id, cb_space_id = space_id, cb_actions = actions,
                cb_merkle_root = compute_merkle_root H (map (act_hash H) actions),
                cb_prev_content_hash = prev_content_hash, cb_timestamp = timestamp,
                cb_total_pow = sum_list (map act_pow_work actions),
                cb_branch_path = path, cb_space_metadata = None\<rparr>)"

definition cb_new_with_space_metadata ::
  "(bytes \<Rightarrow> hash32) \<Rightarrow> hash32 \<Rightarrow> hash32 \<Rightarrow> action list \<Rightarrow> hash32 option \<Rightarrow> u64 \<Rightarrow> branch_path \<Rightarrow>
   space_creation_metadata \<Rightarrow> content_block_error + content_block" where
  "cb_new_with_space_metadata H thread_root_id space_id actions prev_content_hash timestamp path md =
     rbind (cb_new H thread_root_id space_id actions prev_content_hash timestamp path)
       (\<lambda>block. Inr (block\<lparr>cb_space_metadata := Some md\<rparr>))"

text \<open>The buffer \<open>data\<close> that \<open>hash\<close> assembles, and its digest.\<close>

definition cb_preimage :: "content_block \<Rightarrow> bytes" where
  "cb_preimage b =
     cb_thread_root_id b @ cb_space_id b @ cb_merkle_root b @ opt_hash_bytes (cb_prev_content_hash b) @
     u64_be (cb_timestamp b) @ u64_be (cb_total_pow b) @ path_serialize (cb_branch_path b)"

definition cb_hash :: "(bytes \<Rightarrow> hash32) \<Rightarrow> content_block \<Rightarrow> hash32" where
  "cb_hash H b = H (cb_preimage b)"

definition cb_verify_merkle_root :: "(bytes \<Rightarrow> hash32) \<Rightarrow> content_block \<Rightarrow> content_block_error outcome" where
  "cb_verify_merkle_root H b =
     (let computed = compute_merkle_root H (map (act_hash H) (cb_actions b))
      in reject_if (computed \<noteq> cb_merkle_root b) (CbMerkleRootMismatch (cb_merkle_root b) computed))"

definition cb_verify_pow_sum :: "content_block \<Rightarrow> content_block_error outcome" where
  "cb_verify_pow_sum b =
     (let computed = sum_list (map act_pow_work (cb_actions b))
      in reject_if (computed \<noteq> cb_total_pow b) (CbPoWSumMismatch (cb_total_pow b) computed))"

text \<open>The body of the loop of \<open>verify_thread_integrity\<close>; its arm for \<open>Post\<close> has only an empty
  block under its conditions, so it never rejects.\<close>

definition cb_check_action :: "action \<Rightarrow> content_block_error outcome" where
  "cb_check_action a =
     (case act_type a of
        Reply \<Rightarrow> reject_if (act_parent_id a = None) (InvalidAction ''Reply must have parent_id'')
      | Edit \<Rightarrow>
          rbind (reject_if (act_parent_id a = None)
                   (InvalidAction ''Edit must have parent_id (original content ID)''))
            (\<lambda>_. reject_if (act_content_hash a = None)
                   (InvalidAction ''Edit must have content_hash (new content)''))
      | _ \<Rightarrow> Inr ())"

definition cb_verify_thread_integrity :: "content_block \<Rightarrow> content_block_error outcome" where
  "cb_verify_thread_integrity b = for_each cb_check_action (cb_actions b)"

definition cb_action_count :: "content_block \<Rightarrow> nat" where
  "cb_action_count b = length (cb_actions b)"

definition is_first_in_thread :: "content_block \<Rightarrow> bool" where
  "is_first_in_thread b \<longleftrightarrow> cb_prev_content_hash b = None"

text \<open>What the Rust types guarantee of a content block.\<close>

definition typed_content_block :: "content_block \<Rightarrow> bool" where
  "typed_content_block b \<longleftrightarrow>
     is_hash (cb_thread_root_id b) \<and> is_hash (cb_space_id b) \<and> is_hash (cb_merkle_root b) \<and>
     pred_option is_hash (cb_prev_content_hash b) \<and> list_all typed_action (cb_actions b)"

subsection \<open>The contracts\<close>

lemma path_serialize_inject [simp]: "path_serialize p = path_serialize q \<longleftrightarrow> p = q"
  by (cases p; cases q) (simp add: path_serialize_def)

lemma cb_preimage_inject:
  assumes "typed_content_block a" and "typed_content_block b"
  shows "cb_preimage a = cb_preimage b \<longleftrightarrow>
    cb_thread_root_id a = cb_thread_root_id b \<and> cb_space_id a = cb_space_id b \<and>
    cb_merkle_root a = cb_merkle_root b \<and>
    opt_hash_bytes (cb_prev_content_hash a) = opt_hash_bytes (cb_prev_content_hash b) \<and>
    cb_timestamp a = cb_timestamp b \<and> cb_total_pow a = cb_total_pow b \<and>
    cb_branch_path a = cb_branch_path b"
  using assms by (simp add: cb_preimage_def typed_content_block_def append_eq_same_length)

interpretation cb: sealed_block H "\<lambda>b. map (act_hash H) (cb_actions b)" cb_merkle_root
  "cb_verify_merkle_root H" CbMerkleRootMismatch typed_content_block cb_preimage "cb_hash H"
  for H
proof unfold_locales
  show "typed_content_block b \<Longrightarrow> (\<And>x. length (H x) = 32) \<Longrightarrow>
      list_all is_hash (map (act_hash H) (cb_actions b))" for b
    by (simp add: list_all_iff is_hash_def act_hash_def)
qed (simp_all add: cb_verify_merkle_root_def Let_def reject_if_def cb_hash_def cb_preimage_inject)

interpretation cb_pow: pow_aggregate cb_actions act_pow_work cb_total_pow cb_verify_pow_sum
  CbPoWSumMismatch
  by unfold_locales (simp add: cb_verify_pow_sum_def Let_def reject_if_def)

subsection \<open>Properties\<close>

text \<open>
  \<open>ContentBlock::new\<close> fails exactly on an empty list of actions, and otherwise builds a block
  of these actions that passes its own checks and whose total is the sum of the actions' work
  modulo \<open>2 ^ 64\<close>.
\<close>

theorem content_block_new_verifies:
  "(case cb_new H thread space actions prev ts path of
      Inl e \<Rightarrow> actions = [] \<and> e = EmptyActions
    | Inr b \<Rightarrow> actions \<noteq> [] \<and> cb_actions b = actions \<and>
        cb_verify_merkle_root H b = Inr () \<and> cb_verify_pow_sum b = Inr () \<and>
        unat (cb_total_pow b) = (\<Sum>a\<leftarrow>actions. unat (act_pow_work a)) mod 2 ^ 64)"
  using cb_pow.unat_sum [of actions] by (simp add: cb_new_def cb.root_ok cb_pow.sum_ok)

text \<open>
  The hash of a content block binds its contents: two typed blocks with verified Merkle roots,
  the same number of actions and the same hash have the same actions and the same header, or the
  two computations fed two different values with the same digest to the hash function. The previous
  hash is bound up to \<open>None\<close> and the zero hash, which have the same encoding.
\<close>

theorem content_block_hash_binding:
  assumes "\<And>x. length (H x) = 32" and "typed_content_block a" "typed_content_block b"
    and "list_all wire_safe (cb_actions a)" "list_all wire_safe (cb_actions b)"
    and "cb_verify_merkle_root H a = Inr ()" "cb_verify_merkle_root H b = Inr ()"
    and "cb_action_count a = cb_action_count b" and "cb_hash H a = cb_hash H b"
  shows "(cb_actions a = cb_actions b \<and> cb_thread_root_id a = cb_thread_root_id b \<and>
          cb_space_id a = cb_space_id b \<and>
          opt_hash_bytes (cb_prev_content_hash a) = opt_hash_bytes (cb_prev_content_hash b) \<and>
          cb_timestamp a = cb_timestamp b \<and> cb_total_pow a = cb_total_pow b \<and>
          cb_branch_path a = cb_branch_path b) \<or>
         hash_collision H
           (cb_preimage a # merkle_inputs H (map (act_hash H) (cb_actions a)) @ map act_preimage (cb_actions a))
           (cb_preimage b # merkle_inputs H (map (act_hash H) (cb_actions b)) @ map act_preimage (cb_actions b))"
    (is "?same \<or> ?collision")
proof (rule disjCI)
  assume nc: "\<not> ?collision"
  have "length (map (act_hash H) (cb_actions a)) = length (map (act_hash H) (cb_actions b))"
    using assms(8) by (simp add: cb_action_count_def)
  note bound = cb.seal_binds [OF assms(1-3,6,7) this assms(9)]
  have "\<not> hash_collision H (cb_preimage a # merkle_inputs H (map (act_hash H) (cb_actions a)))
      (cb_preimage b # merkle_inputs H (map (act_hash H) (cb_actions b)))"
    by (rule no_collision_subset [OF nc]) auto
  with bound have pre: "cb_preimage a = cb_preimage b"
    and hashes: "map (act_hash H) (cb_actions a) = map (act_hash H) (cb_actions b)"
    by blast+
  have "\<not> hash_collision H (map act_preimage (cb_actions a)) (map act_preimage (cb_actions b))"
    by (rule no_collision_subset [OF nc]) auto
  moreover have "map H (map act_preimage (cb_actions a)) = map H (map act_preimage (cb_actions b))"
    using hashes by (simp add: act_hash_preimage [abs_def] comp_def)
  ultimately have "map act_preimage (cb_actions a) = map act_preimage (cb_actions b)"
    using map_hash_collision by blast
  then have "cb_actions a = cb_actions b"
    using assms(2-5) by (intro map_act_preimage_inject) (auto simp: typed_content_block_def)
  with pre show ?same by (simp add: cb_preimage_inject [OF assms(2,3)])
qed

text \<open>A block of three actions, the last without work, and a digest of 32 bytes.\<close>

definition sum_digest :: "bytes \<Rightarrow> hash32" where
  "sum_digest x = replicate 31 0 @ [sum_list x]"

definition sample_content_block :: content_block where
  "sample_content_block =
     \<lparr>cb_thread_root_id = replicate 32 1, cb_space_id = replicate 32 2,
      cb_actions = [sample_action, sample_action, sample_action\<lparr>act_pow_work := 0\<rparr>],
      cb_merkle_root = compute_merkle_root sum_digest
        (map (act_hash sum_digest) [sample_action, sample_action, sample_action\<lparr>act_pow_work := 0\<rparr>]),
      cb_prev_content_hash = None, cb_timestamp = 1000,
      cb_total_pow = sum_list (map act_pow_work [sample_action, sample_action, sample_action\<lparr>act_pow_work := 0\<rparr>]),
      cb_branch_path = path_root, cb_space_metadata = None\<rparr>"

lemma length_sum_digest [simp]: "length (sum_digest x) = 32"
  by (simp add: sum_digest_def)

lemma sample_content_block_ok:
  "cb_verify_merkle_root sum_digest sample_content_block = Inr ()"
  "cb_verify_pow_sum sample_content_block = Inr ()"
  "typed_content_block sample_content_block" "list_all wire_safe (cb_actions sample_content_block)"
proof -
  have root: "is_hash (cb_merkle_root sample_content_block)"
    unfolding sample_content_block_def content_block.select_convs
    by (rule merkle_root_is_hash) (simp_all add: is_hash_def act_hash_def)
  have act: "typed_action sample_action" "wire_safe sample_action"
    by (simp_all add: sample_action_def new_reply_def typed_action_def wire_safe_def is_hash_def
        zero32_def replicate_eq_replicate)
  show "cb_verify_merkle_root sum_digest sample_content_block = Inr ()"
    "cb_verify_pow_sum sample_content_block = Inr ()"
    by (simp_all add: cb.root_ok cb_pow.sum_ok sample_content_block_def)
  show "typed_content_block sample_content_block" "list_all wire_safe (cb_actions sample_content_block)"
    using act root by (simp_all add: sample_content_block_def typed_content_block_def is_hash_def
        typed_action_def wire_safe_def)
qed

theorem content_block_hash_binding_witness:
  "cb_hash sum_digest sample_content_block =
     cb_hash sum_digest (sample_content_block\<lparr>cb_space_metadata := Some \<lparr>scm_name = [], scm_description = None\<rparr>\<rparr>) \<and>
   (cb_timestamp sample_content_block = 1000 \<or>
    hash_collision sum_digest
      (cb_preimage sample_content_block #
       merkle_inputs sum_digest (map (act_hash sum_digest) (cb_actions sample_content_block)) @
       map act_preimage (cb_actions sample_content_block))
      (cb_preimage sample_content_block #
       merkle_inputs sum_digest (map (act_hash sum_digest) (cb_actions sample_content_block)) @
       map act_preimage (cb_actions sample_content_block)))"
proof -
  let ?b = "sample_content_block\<lparr>cb_space_metadata := Some \<lparr>scm_name = [], scm_description = None\<rparr>\<rparr>"
  have same: "cb_preimage ?b = cb_preimage sample_content_block"
    "cb_verify_merkle_root sum_digest ?b = cb_verify_merkle_root sum_digest sample_content_block"
    "typed_content_block ?b \<longleftrightarrow> typed_content_block sample_content_block"
    by (simp_all add: cb_preimage_def cb_verify_merkle_root_def typed_content_block_def)
  have "cb_hash sum_digest sample_content_block = cb_hash sum_digest ?b"
    by (simp add: cb_hash_def same)
  moreover note content_block_hash_binding [of sum_digest sample_content_block ?b]
  ultimately show ?thesis
    using sample_content_block_ok by (simp add: same cb_action_count_def sample_content_block_def)
qed

text \<open>
  The hash does not bind the number of actions, nor the space metadata. When a verified block
  has an odd number of actions, more than one, and its last action carries no work, the block with
  that action repeated is a different block with the same hash that passes the same checks; and
  replacing the space metadata changes neither the hash nor any check.
\<close>

theorem content_block_malleable:
  assumes "cb_verify_merkle_root H b = Inr ()" and "cb_verify_pow_sum b = Inr ()"
    and "cb_verify_thread_integrity b = Inr ()"
    and "odd (cb_action_count b)" and "cb_action_count b > 1"
    and "act_pow_work (last (cb_actions b)) = 0"
    and "b' = b\<lparr>cb_actions := cb_actions b @ [last (cb_actions b)], cb_space_metadata := md\<rparr>"
  shows "b' \<noteq> b \<and> cb_hash H b' = cb_hash H b \<and> cb_verify_merkle_root H b' = Inr () \<and>
         cb_verify_pow_sum b' = Inr () \<and> cb_verify_thread_integrity b' = Inr ()"
proof -
  have ne: "cb_actions b \<noteq> []" using assms(5) by (auto simp: cb_action_count_def)
  have "cb_verify_merkle_root H b' = Inr ()"
    by (rule cb.repeat_last_passes [OF assms(1)])
      (use assms(4-7) ne in \<open>simp_all add: cb_action_count_def last_map\<close>)
  moreover have "cb_verify_pow_sum b' = Inr ()"
    using assms(2,6,7) by (simp add: cb_pow.sum_ok)
  moreover have "cb_verify_thread_integrity b' = Inr ()"
    using assms(3,7) ne by (simp add: cb_verify_thread_integrity_def)
  moreover have "b' \<noteq> b"
    using assms(7) by (metis append_self_conv content_block.select_convs(3) content_block.surjective
        content_block.update_convs(3,9) not_Cons_self2)
  ultimately show ?thesis using assms(7) by (auto simp: cb_hash_def cb_preimage_def)
qed

theorem content_block_malleable_witness:
  "cb_hash sum_digest (sample_content_block\<lparr>cb_actions := cb_actions sample_content_block @
       [last (cb_actions sample_content_block)], cb_space_metadata := None\<rparr>)
     = cb_hash sum_digest sample_content_block"
proof -
  have "cb_verify_thread_integrity sample_content_block = Inr ()"
    by (simp add: cb_verify_thread_integrity_def cb_check_action_def sample_content_block_def
        sample_action_def new_reply_def)
  from content_block_malleable [OF sample_content_block_ok(1,2) this _ _ _ refl, of None]
  show ?thesis by (simp add: cb_action_count_def sample_content_block_def)
qed

end
