(* ===== verification/Space_Block.thy ===== *)
theory Space_Block
  imports Content_Block
begin

text \<open>
  Space blocks (\<open>src/blocks/space_block.rs\<close>), the middle level of the hierarchy: the hashes of the
  content blocks of one space, their Merkle root, their number and the sum of their work.
\<close>

subsection \<open>Definitions\<close>

datatype space_block_error =
    EmptyContentBlocks
  | SpaceMismatch hash32 hash32
  | SbPoWSumMismatch u64 u64
  | SbMerkleRootMismatch hash32 hash32

record space_block =
  sb_space_id :: hash32
  sb_merkle_root :: hash32
  sb_content_block_hashes :: "hash32 list"
  sb_prev_space_hash :: "hash32 option"
  sb_timestamp :: u64
  sb_total_pow :: u64
  sb_content_block_count :: u32

text \<open>\<open>len() as u32\<close> truncates.\<close>

definition from_content_blocks ::
  "(bytes \<Rightarrow> hash32) \<Rightarrow> hash32 \<Rightarrow> content_block list \<Rightarrow> hash32 option \<Rightarrow> u64 \<Rightarrow> space_block" where
  "from_content_blocks H space_id content_blocks prev_space_hash timestamp =
     (let content_block_hashes = map (cb_hash H) content_blocks
      in \<lparr>sb_space_id = space_id,
          sb_merkle_root = compute_merkle_root H content_block_hashes,
          sb_content_block_hashes = content_block_hashes,
          sb_prev_space_hash = prev_space_hash, sb_timestamp = timestamp,
          sb_total_pow = sum_list (map cb_total_pow content_blocks),
          sb_content_block_count = word_of_nat (length content_blocks)\<rparr>)"

definition sb_from_hashes ::
  "(bytes \<Rightarrow> hash32) \<Rightarrow> hash32 \<Rightarrow> hash32 list \<Rightarrow> u64 \<Rightarrow> hash32 option \<Rightarrow> u64 \<Rightarrow> space_block" where
  "sb_from_hashes H space_id content_block_hashes total_pow prev_space_hash timestamp =
     \<lparr>sb_space_id = space_id,
      sb_merkle_root = compute_merkle_root H content_block_hashes,
      sb_content_block_hashes = content_block_hashes,
      sb_prev_space_hash = prev_space_hash, sb_timestamp = timestamp,
      sb_total_pow = total_pow,
      sb_content_block_count = word_of_nat (length content_block_hashes)\<rparr>"

definition sb_preimage :: "space_block \<Rightarrow> bytes" where
  "sb_preimage b =
     sb_space_id b @ sb_merkle_root b @ opt_hash_bytes (sb_prev_space_hash b) @
     u64_be (sb_timestamp b) @ u64_be (sb_total_pow b) @ u32_be (sb_content_block_count b)"

definition sb_hash :: "(bytes \<Rightarrow> hash32) \<Rightarrow> space_block \<Rightarrow> hash32" where
  "sb_hash H b = H (sb_preimage b)"

definition sb_create_next ::
  "(bytes \<Rightarrow> hash32) \<Rightarrow> space_block \<Rightarrow> content_block list \<Rightarrow> u64 \<Rightarrow> space_block" where
  "sb_create_next H prev_block content_blocks timestamp =
     from_content_blocks H (sb_space_id prev_block) content_blocks (Some (sb_hash H prev_block)) timestamp"

definition sb_verify_merkle_root :: "(bytes \<Rightarrow> hash32) \<Rightarrow> space_block \<Rightarrow> space_block_error outcome" where
  "sb_verify_merkle_root H b =
     (let computed = compute_merkle_root H (sb_content_block_hashes b)
      in reject_if (computed \<noteq> sb_merkle_root b) (SbMerkleRootMismatch (sb_merkle_root b) computed))"

definition sb_verify_pow_sum :: "space_block \<Rightarrow> content_block list \<Rightarrow> space_block_error outcome" where
  "sb_verify_pow_sum b content_blocks =
     (let computed = sum_list (map cb_total_pow content_blocks)
      in reject_if (computed \<noteq> sb_total_pow b) (SbPoWSumMismatch (sb_total_pow b) computed))"

definition sb_verify_space_membership ::
  "space_block \<Rightarrow> content_block list \<Rightarrow> space_block_error outcome" where
  "sb_verify_space_membership b content_blocks =
     for_each (\<lambda>cb. reject_if (cb_space_id cb \<noteq> sb_space_id b)
       (SpaceMismatch (sb_space_id b) (cb_space_id cb))) content_blocks"

definition is_first_in_chain :: "space_block \<Rightarrow> bool" where
  "is_first_in_chain b \<longleftrightarrow> sb_prev_space_hash b = None"

text \<open>What the Rust types guarantee, and what both constructors establish: the stored number is
  the number of hashes.\<close>

definition typed_space_block :: "space_block \<Rightarrow> bool" where
  "typed_space_block b \<longleftrightarrow>
     is_hash (sb_space_id b) \<and> is_hash (sb_merkle_root b) \<and> pred_option is_hash (sb_prev_space_hash b) \<and>
     list_all is_hash (sb_content_block_hashes b)"

definition sb_counted :: "space_block \<Rightarrow> bool" where
  "sb_counted b \<longleftrightarrow> unat (sb_content_block_count b) = length (sb_content_block_hashes b)"

subsection \<open>The contracts\<close>

lemma sb_preimage_inject:
  assumes "typed_space_block a" and "typed_space_block b"
  shows "sb_preimage a = sb_preimage b \<longleftrightarrow>
    sb_space_id a = sb_space_id b \<and> sb_merkle_root a = sb_merkle_root b \<and>
    opt_hash_bytes (sb_prev_space_hash a) = opt_hash_bytes (sb_prev_space_hash b) \<and>
    sb_timestamp a = sb_timestamp b \<and> sb_total_pow a = sb_total_pow b \<and>
    sb_content_block_count a = sb_content_block_count b"
  using assms by (simp add: sb_preimage_def typed_space_block_def append_eq_same_length)

interpretation sb: sealed_block H sb_content_block_hashes sb_merkle_root
  "sb_verify_merkle_root H" SbMerkleRootMismatch typed_space_block sb_preimage "sb_hash H"
  for H
  by unfold_locales
    (simp_all add: sb_verify_merkle_root_def Let_def reject_if_def sb_hash_def sb_preimage_inject
      typed_space_block_def)

interpretation sb_pow: pow_aggregate snd cb_total_pow "\<lambda>p. sb_total_pow (fst p)"
  "\<lambda>p. sb_verify_pow_sum (fst p) (snd p)" SbPoWSumMismatch
  by unfold_locales (simp add: sb_verify_pow_sum_def Let_def reject_if_def)

lemma sb_pow_ok: "sb_verify_pow_sum b cbs = Inr () \<longleftrightarrow> sum_list (map cb_total_pow cbs) = sb_total_pow b"
  using sb_pow.sum_ok [of "(b, cbs)"] by simp

lemma from_content_blocks_checks:
  "sb_verify_merkle_root H (from_content_blocks H sp cbs prev ts) = Inr ()"
  "sb_verify_pow_sum (from_content_blocks H sp cbs prev ts) cbs = Inr ()"
  by (simp_all add: sb.root_ok sb_pow_ok from_content_blocks_def Let_def)

lemma from_content_blocks_counted:
  "length cbs < 2 ^ 32 \<Longrightarrow> sb_counted (from_content_blocks H sp cbs prev ts)"
  by (simp add: sb_counted_def from_content_blocks_def Let_def unat_of_nat)

lemma from_content_blocks_from_hashes:
  "from_content_blocks H sp cbs prev ts =
     sb_from_hashes H sp (map (cb_hash H) cbs) (sum_list (map cb_total_pow cbs)) prev ts"
  by (simp add: from_content_blocks_def sb_from_hashes_def Let_def)

end
