(* ===== verification/Root_Block.thy ===== *)
theory Root_Block
  imports Space_Block
begin

text \<open>
  Root blocks (\<open>src/blocks/root_block.rs\<close>), the chain layer: the hashes of the space blocks of one
  interval, the link to the previous root block, the height, and the work of the block and of the
  chain up to it as its creator claims it.
\<close>

subsection \<open>Definitions\<close>

definition INITIAL_DIFFICULTY :: u64 where "INITIAL_DIFFICULTY = 30"
definition CURRENT_VERSION :: byte where "CURRENT_VERSION = 1"

datatype root_block_error =
    RbPoWSumMismatch u64 u64
  | RbMerkleRootMismatch hash32 hash32
  | InvalidGenesisPrevHash
  | InvalidHeight u64 u64
  | DifficultyNotMet u64 u64

record root_block =
  rb_version :: byte
  rb_prev_root_hash :: hash32
  rb_timestamp :: u64
  rb_merkle_root :: hash32
  rb_space_block_hashes :: "hash32 list"
  rb_space_block_count :: u32
  rb_total_pow :: u64
  rb_cumulative_pow :: u64
  rb_difficulty_target :: u64
  rb_height :: u64
  rb_block_creator :: hash32

definition genesis :: "u64 \<Rightarrow> root_block" where
  "genesis timestamp =
     \<lparr>rb_version = CURRENT_VERSION, rb_prev_root_hash = zero32, rb_timestamp = timestamp,
      rb_merkle_root = zero32, rb_space_block_hashes = [], rb_space_block_count = 0,
      rb_total_pow = 0, rb_cumulative_pow = 0, rb_difficulty_target = INITIAL_DIFFICULTY,
      rb_height = 0, rb_block_creator = zero32\<rparr>"

datatype network_mode = Mainnet | Testnet | Regtest

definition canonical_genesis :: "network_mode \<Rightarrow> root_block" where
  "canonical_genesis mode =
     genesis (case mode of Mainnet \<Rightarrow> 1752710400 | Testnet \<Rightarrow> 1000000 | Regtest \<Rightarrow> 1000000)"

definition from_space_blocks ::
  "(bytes \<Rightarrow> hash32) \<Rightarrow> space_block list \<Rightarrow> hash32 \<Rightarrow> u64 \<Rightarrow> u64 \<Rightarrow> u64 \<Rightarrow> u64 \<Rightarrow> hash32 \<Rightarrow> root_block" where
  "from_space_blocks H space_blocks prev_root_hash prev_cumulative_pow timestamp difficulty_target
     height block_creator =
     (let space_block_hashes = map (sb_hash H) space_blocks;
          total_pow = sum_list (map sb_total_pow space_blocks)
      in \<lparr>rb_version = CURRENT_VERSION, rb_prev_root_hash = prev_root_hash, rb_timestamp = timestamp,
          rb_merkle_root = compute_merkle_root H space_block_hashes,
          rb_space_block_hashes = space_block_hashes,
          rb_space_block_count = word_of_nat (length space_blocks),
          rb_total_pow = total_pow, rb_cumulative_pow = prev_cumulative_pow + total_pow,
          rb_difficulty_target = difficulty_target, rb_height = height,
          rb_block_creator = block_creator\<rparr>)"

definition rb_from_hashes ::
  "(bytes \<Rightarrow> hash32) \<Rightarrow> hash32 list \<Rightarrow> u64 \<Rightarrow> hash32 \<Rightarrow> u64 \<Rightarrow> u64 \<Rightarrow> u64 \<Rightarrow> u64 \<Rightarrow> hash32 \<Rightarrow> root_block" where
  "rb_from_hashes H space_block_hashes total_pow prev_root_hash prev_cumulative_pow timestamp
     difficulty_target height block_creator =
     \<lparr>rb_version = CURRENT_VERSION, rb_prev_root_hash = prev_root_hash, rb_timestamp = timestamp,
      rb_merkle_root = compute_merkle_root H space_block_hashes,
      rb_space_block_hashes = space_block_hashes,
      rb_space_block_count = word_of_nat (length space_block_hashes),
      rb_total_pow = total_pow, rb_cumulative_pow = prev_cumulative_pow + total_pow,
      rb_difficulty_target = difficulty_target, rb_height = height, rb_block_creator = block_creator\<rparr>"

definition rb_preimage :: "root_block \<Rightarrow> bytes" where
  "rb_preimage b =
     [rb_version b] @ rb_prev_root_hash b @ u64_be (rb_timestamp b) @ rb_merkle_root b @
     u32_be (rb_space_block_count b) @ u64_be (rb_total_pow b) @ u64_be (rb_cumulative_pow b) @
     u64_be (rb_difficulty_target b) @ u64_be (rb_height b) @ rb_block_creator b"

definition rb_hash :: "(bytes \<Rightarrow> hash32) \<Rightarrow> root_block \<Rightarrow> hash32" where
  "rb_hash H b = H (rb_preimage b)"

definition rb_create_next ::
  "(bytes \<Rightarrow> hash32) \<Rightarrow> root_block \<Rightarrow> space_block list \<Rightarrow> u64 \<Rightarrow> hash32 \<Rightarrow> root_block" where
  "rb_create_next H prev_block space_blocks timestamp block_creator =
     from_space_blocks H space_blocks (rb_hash H prev_block) (rb_cumulative_pow prev_block) timestamp
       (rb_difficulty_target prev_block) (rb_height prev_block + 1) block_creator"

datatype ordering = Less | Equal | Greater

definition compare_chain_weight :: "root_block \<Rightarrow> root_block \<Rightarrow> ordering" where
  "compare_chain_weight a b =
     (if rb_cumulative_pow a < rb_cumulative_pow b then Less
      else if rb_cumulative_pow a = rb_cumulative_pow b then Equal else Greater)"

definition is_heavier_than :: "root_block \<Rightarrow> root_block \<Rightarrow> bool" where
  "is_heavier_than a b \<longleftrightarrow> rb_cumulative_pow a > rb_cumulative_pow b"

definition is_genesis :: "root_block \<Rightarrow> bool" where
  "is_genesis b \<longleftrightarrow> rb_prev_root_hash b = zero32 \<and> rb_height b = 0"

definition meets_difficulty :: "root_block \<Rightarrow> bool" where
  "meets_difficulty b \<longleftrightarrow> rb_total_pow b \<ge> rb_difficulty_target b"

definition rb_verify_merkle_root :: "(bytes \<Rightarrow> hash32) \<Rightarrow> root_block \<Rightarrow> root_block_error outcome" where
  "rb_verify_merkle_root H b =
     (let computed = compute_merkle_root H (rb_space_block_hashes b)
      in reject_if (computed \<noteq> rb_merkle_root b) (RbMerkleRootMismatch (rb_merkle_root b) computed))"

definition rb_verify_pow_sum :: "root_block \<Rightarrow> space_block list \<Rightarrow> root_block_error outcome" where
  "rb_verify_pow_sum b space_blocks =
     (let computed = sum_list (map sb_total_pow space_blocks)
      in reject_if (computed \<noteq> rb_total_pow b) (RbPoWSumMismatch (rb_total_pow b) computed))"

definition verify_genesis :: "root_block \<Rightarrow> root_block_error outcome" where
  "verify_genesis b =
     (if \<not> is_genesis b then Inr ()
      else rbind (reject_if (rb_prev_root_hash b \<noteq> zero32) InvalidGenesisPrevHash)
             (\<lambda>_. reject_if (rb_height b \<noteq> 0) (InvalidHeight 0 (rb_height b))))"

definition verify_difficulty :: "root_block \<Rightarrow> root_block_error outcome" where
  "verify_difficulty b =
     reject_if (\<not> meets_difficulty b) (DifficultyNotMet (rb_difficulty_target b) (rb_total_pow b))"

definition typed_root_block :: "root_block \<Rightarrow> bool" where
  "typed_root_block b \<longleftrightarrow>
     is_hash (rb_prev_root_hash b) \<and> is_hash (rb_merkle_root b) \<and> is_hash (rb_block_creator b) \<and>
     list_all is_hash (rb_space_block_hashes b)"

definition rb_counted :: "root_block \<Rightarrow> bool" where
  "rb_counted b \<longleftrightarrow> unat (rb_space_block_count b) = length (rb_space_block_hashes b)"

subsection \<open>The contracts\<close>

lemma rb_preimage_inject:
  assumes "typed_root_block a" and "typed_root_block b"
  shows "rb_preimage a = rb_preimage b \<longleftrightarrow>
    rb_version a = rb_version b \<and> rb_prev_root_hash a = rb_prev_root_hash b \<and>
    rb_timestamp a = rb_timestamp b \<and> rb_merkle_root a = rb_merkle_root b \<and>
    rb_space_block_count a = rb_space_block_count b \<and> rb_total_pow a = rb_total_pow b \<and>
    rb_cumulative_pow a = rb_cumulative_pow b \<and> rb_difficulty_target a = rb_difficulty_target b \<and>
    rb_height a = rb_height b \<and> rb_block_creator a = rb_block_creator b"
  using assms by (simp add: rb_preimage_def typed_root_block_def append_eq_same_length)

interpretation rb: sealed_block H rb_space_block_hashes rb_merkle_root
  "rb_verify_merkle_root H" RbMerkleRootMismatch typed_root_block rb_preimage "rb_hash H"
  for H
  by unfold_locales
    (simp_all add: rb_verify_merkle_root_def Let_def reject_if_def rb_hash_def rb_preimage_inject
      typed_root_block_def)

interpretation rb_pow: pow_aggregate snd sb_total_pow "\<lambda>p. rb_total_pow (fst p)"
  "\<lambda>p. rb_verify_pow_sum (fst p) (snd p)" RbPoWSumMismatch
  by unfold_locales (simp add: rb_verify_pow_sum_def Let_def reject_if_def)

lemma rb_pow_ok: "rb_verify_pow_sum b sbs = Inr () \<longleftrightarrow> sum_list (map sb_total_pow sbs) = rb_total_pow b"
  using rb_pow.sum_ok [of "(b, sbs)"] by simp

lemma verify_genesis_total [simp]: "verify_genesis b = Inr ()"
  by (simp add: verify_genesis_def is_genesis_def)

lemma verify_difficulty_ok: "verify_difficulty b = Inr () \<longleftrightarrow> rb_total_pow b \<ge> rb_difficulty_target b"
  by (simp add: verify_difficulty_def meets_difficulty_def)

lemma from_space_blocks_checks:
  "rb_verify_merkle_root H (from_space_blocks H sbs prev cum ts diff h creator) = Inr ()"
  "rb_verify_pow_sum (from_space_blocks H sbs prev cum ts diff h creator) sbs = Inr ()"
  by (simp_all add: rb.root_ok rb_pow_ok from_space_blocks_def Let_def)

lemma from_space_blocks_from_hashes:
  "from_space_blocks H sbs prev cum ts diff h creator =
     rb_from_hashes H (map (sb_hash H) sbs) (sum_list (map sb_total_pow sbs)) prev cum ts diff h creator"
  by (simp add: from_space_blocks_def rb_from_hashes_def Let_def)

subsection \<open>Properties\<close>

text \<open>
  The hash of a root block binds the whole block: two typed blocks whose counts are the numbers
  of their hashes, with verified Merkle roots and the same hash, are the same block, or the two
  computations fed two different values with the same digest to the hash function.
\<close>

theorem root_block_hash_binding:
  assumes "\<And>x. length (H x) = 32" and "typed_root_block a" "typed_root_block b"
    and "rb_counted a" "rb_counted b"
    and "rb_verify_merkle_root H a = Inr ()" "rb_verify_merkle_root H b = Inr ()"
    and "rb_hash H a = rb_hash H b"
  shows "a = b \<or>
    hash_collision H (rb_preimage a # merkle_inputs H (rb_space_block_hashes a))
      (rb_preimage b # merkle_inputs H (rb_space_block_hashes b))"
proof (cases "rb_preimage a = rb_preimage b")
  case True
  then have "length (rb_space_block_hashes a) = length (rb_space_block_hashes b)"
    using assms(4,5) by (auto simp: rb_preimage_inject [OF assms(2,3)] rb_counted_def)
  note bound = rb.seal_binds [OF assms(1-3,6,7) this assms(8)]
  have "a = b" if "rb_space_block_hashes a = rb_space_block_hashes b"
    using True that by (simp add: rb_preimage_inject [OF assms(2,3)])
  with bound show ?thesis by blast
next
  case False
  then show ?thesis using assms(8) by (auto simp: rb_hash_def hash_collision_def)
qed

theorem root_block_hash_binding_witness:
  "genesis 5 = genesis 6 \<or>
   hash_collision (\<lambda>_. zero32) (rb_preimage (genesis 5) # merkle_inputs (\<lambda>_. zero32) [])
     (rb_preimage (genesis 6) # merkle_inputs (\<lambda>_. zero32) [])"
proof -
  have "typed_root_block (genesis t)" "rb_counted (genesis t)"
    "rb_verify_merkle_root (\<lambda>_. zero32) (genesis t) = Inr ()" for t
    by (simp_all add: genesis_def typed_root_block_def rb_counted_def rb.root_ok compute_merkle_root_def)
  moreover have "rb_hash (\<lambda>_. zero32) (genesis 5) = rb_hash (\<lambda>_. zero32) (genesis 6)"
    by (simp add: rb_hash_def)
  ultimately show ?thesis
    using root_block_hash_binding [of "\<lambda>_. zero32" "genesis 5" "genesis 6"] by (simp add: genesis_def)
qed

end
