(* ===== verification/Chain_Store.thy ===== *)
theory Chain_Store
  imports Kv_Tree Root_Block
begin

text \<open>
  The chain store (\<open>src/storage/chain.rs\<close>): stored root, space and content blocks, the index of the
  canonical chain by height, the best tip, and fork choice by real chain weight. The record holds
  the trees these operations touch; the trees of the content indexes, of branches, communities and
  of the space registry are left out, and so are the byte counter and log output. Reads and writes
  of the database succeed, and what was serialized is read back.

  Two loops follow parent hashes, which a hash function with cycles could make run forever; they are
  partial functions whose value is \<open>None\<close> when the loop does not end. A \<open>Some\<close> around the result of
  an operation therefore means that it returns.
\<close>

subsection \<open>State\<close>

record chain_store =
  cs_root_blocks :: "(hash32, root_block) tree"
  cs_space_blocks :: "(hash32, space_block) tree"
  cs_content_blocks :: "(hash32, content_block) tree"
  cs_height_index :: "(u64, hash32) tree"
  cs_best_tip :: "hash32 option"
  cs_finalized_actions :: "(hash32, u64) tree"
  cs_finalized_content :: "(hash32, u64) tree"
  cs_applied_side_effects :: "(hash32, bytes) tree"
  cs_skipped_content_blocks :: "(hash32, bytes) tree"
  cs_chain_weight_cache :: "(hash32, u64) tree"
  cs_gap_scan_cursor :: u64
  cs_applied_scan_cursor :: u64

definition empty_store :: chain_store where
  "empty_store =
     \<lparr>cs_root_blocks = [], cs_space_blocks = [], cs_content_blocks = [], cs_height_index = [],
      cs_best_tip = None, cs_finalized_actions = [], cs_finalized_content = [],
      cs_applied_side_effects = [], cs_skipped_content_blocks = [], cs_chain_weight_cache = [],
      cs_gap_scan_cursor = 0, cs_applied_scan_cursor = 0\<rparr>"

subsection \<open>Blocks and the height index\<close>

definition put_root_block :: "(bytes \<Rightarrow> hash32) \<Rightarrow> chain_store \<Rightarrow> root_block \<Rightarrow> hash32 \<times> chain_store" where
  "put_root_block H s block =
     (let hash = rb_hash H block
      in (hash, s\<lparr>cs_root_blocks := tree_insert (cs_root_blocks s) hash block\<rparr>))"

definition get_root_block :: "chain_store \<Rightarrow> hash32 \<Rightarrow> root_block option" where
  "get_root_block s hash = tree_get (cs_root_blocks s) hash"

definition has_root_block :: "chain_store \<Rightarrow> hash32 \<Rightarrow> bool" where
  "has_root_block s hash \<longleftrightarrow> tree_get (cs_root_blocks s) hash \<noteq> None"

definition put_space_block :: "(bytes \<Rightarrow> hash32) \<Rightarrow> chain_store \<Rightarrow> space_block \<Rightarrow> hash32 \<times> chain_store" where
  "put_space_block H s block =
     (let hash = sb_hash H block
      in (hash, s\<lparr>cs_space_blocks := tree_insert (cs_space_blocks s) hash block\<rparr>))"

definition get_space_block :: "chain_store \<Rightarrow> hash32 \<Rightarrow> space_block option" where
  "get_space_block s hash = tree_get (cs_space_blocks s) hash"

definition get_content_block :: "chain_store \<Rightarrow> hash32 \<Rightarrow> content_block option" where
  "get_content_block s hash = tree_get (cs_content_blocks s) hash"

definition delete_block :: "chain_store \<Rightarrow> hash32 \<Rightarrow> bool \<times> chain_store" where
  "delete_block s hash =
     (get_root_block s hash \<noteq> None \<or> get_space_block s hash \<noteq> None \<or> get_content_block s hash \<noteq> None,
      s\<lparr>cs_root_blocks := tree_remove (cs_root_blocks s) hash,
        cs_space_blocks := tree_remove (cs_space_blocks s) hash,
        cs_content_blocks := tree_remove (cs_content_blocks s) hash\<rparr>)"

definition get_root_hash_at_height :: "chain_store \<Rightarrow> u64 \<Rightarrow> hash32 option" where
  "get_root_hash_at_height s height = tree_get (cs_height_index s) height"

definition index_height :: "chain_store \<Rightarrow> u64 \<Rightarrow> hash32 \<Rightarrow> chain_store" where
  "index_height s height hash = s\<lparr>cs_height_index := tree_insert (cs_height_index s) height hash\<rparr>"

definition remove_height_index :: "chain_store \<Rightarrow> u64 \<Rightarrow> chain_store" where
  "remove_height_index s height = s\<lparr>cs_height_index := tree_remove (cs_height_index s) height\<rparr>"

definition get_latest_height :: "chain_store \<Rightarrow> u64 option" where
  "get_latest_height s = tree_last (cs_height_index s)"

definition set_best_tip :: "chain_store \<Rightarrow> hash32 \<Rightarrow> chain_store" where
  "set_best_tip s hash = s\<lparr>cs_best_tip := Some hash\<rparr>"

definition get_best_tip_block :: "chain_store \<Rightarrow> root_block option" where
  "get_best_tip_block s = (case cs_best_tip s of Some hash \<Rightarrow> get_root_block s hash | None \<Rightarrow> None)"

subsection \<open>Marks that follow the canonical chain\<close>

definition is_action_finalized :: "chain_store \<Rightarrow> hash32 \<Rightarrow> u64 option" where
  "is_action_finalized s h = tree_get (cs_finalized_actions s) h"

definition mark_action_finalized :: "chain_store \<Rightarrow> hash32 \<Rightarrow> u64 \<Rightarrow> chain_store" where
  "mark_action_finalized s h height =
     s\<lparr>cs_finalized_actions := tree_insert (cs_finalized_actions s) h height\<rparr>"

definition unmark_action_finalized :: "chain_store \<Rightarrow> hash32 \<Rightarrow> chain_store" where
  "unmark_action_finalized s h =
     s\<lparr>cs_finalized_actions := tree_remove (cs_finalized_actions s) h\<rparr>"

definition check_content_block_for_duplicates ::
  "(bytes \<Rightarrow> hash32) \<Rightarrow> chain_store \<Rightarrow> content_block \<Rightarrow> (nat \<times> u64) list" where
  "check_content_block_for_duplicates H s content_block =
     List.map_filter (\<lambda>(idx, a). map_option (\<lambda>height. (idx, height)) (is_action_finalized s (action_hash H a)))
       (enumerate 0 (cb_actions content_block))"

definition finalize_action :: "(bytes \<Rightarrow> hash32) \<Rightarrow> u64 \<Rightarrow> chain_store \<Rightarrow> action \<Rightarrow> chain_store" where
  "finalize_action H height s a =
     (let s1 = mark_action_finalized s (action_hash H a) height
      in case act_content_hash a of
           Some ch \<Rightarrow> s1\<lparr>cs_finalized_content := tree_insert (cs_finalized_content s1) ch height\<rparr>
         | None \<Rightarrow> s1)"

definition mark_content_block_actions_finalized ::
  "(bytes \<Rightarrow> hash32) \<Rightarrow> chain_store \<Rightarrow> content_block \<Rightarrow> u64 \<Rightarrow> chain_store" where
  "mark_content_block_actions_finalized H s content_block height =
     foldl (finalize_action H height) s (cb_actions content_block)"

definition get_content_finalized_height :: "chain_store \<Rightarrow> hash32 \<Rightarrow> u64 option" where
  "get_content_finalized_height s h = tree_get (cs_finalized_content s) h"

definition mark_content_block_skipped :: "chain_store \<Rightarrow> hash32 \<Rightarrow> u64 \<Rightarrow> chain_store" where
  "mark_content_block_skipped s h height =
     s\<lparr>cs_skipped_content_blocks := tree_insert (cs_skipped_content_blocks s) h (u64_be height)\<rparr>"

definition is_content_block_skipped :: "chain_store \<Rightarrow> hash32 \<Rightarrow> bool" where
  "is_content_block_skipped s h \<longleftrightarrow> tree_get (cs_skipped_content_blocks s) h \<noteq> None"

text \<open>An unreadable mark counts as one at the largest height.\<close>

definition skip_claim :: "bytes \<Rightarrow> u64" where
  "skip_claim v = (if length v = 8 then u64_of_be v else - 1)"

definition clear_content_skips_at_or_above :: "chain_store \<Rightarrow> u64 \<Rightarrow> chain_store" where
  "clear_content_skips_at_or_above s height =
     s\<lparr>cs_skipped_content_blocks :=
        foldl tree_remove (cs_skipped_content_blocks s)
          (map fst (filter (\<lambda>(k, v). skip_claim v \<ge> height) (cs_skipped_content_blocks s)))\<rparr>"

definition side_effects_state :: "chain_store \<Rightarrow> hash32 \<Rightarrow> byte" where
  "side_effects_state s root_hash =
     (case tree_get (cs_applied_side_effects s) root_hash of
        Some v \<Rightarrow> if length v \<ge> 9 then v ! 8 else 1
      | None \<Rightarrow> 0)"

definition side_effects_applied :: "chain_store \<Rightarrow> hash32 \<Rightarrow> bool" where
  "side_effects_applied s root_hash \<longleftrightarrow> side_effects_state s root_hash \<ge> 2"

definition set_side_effects_state :: "chain_store \<Rightarrow> hash32 \<Rightarrow> u64 \<Rightarrow> byte \<Rightarrow> chain_store" where
  "set_side_effects_state s root_hash height state =
     s\<lparr>cs_applied_side_effects := tree_insert (cs_applied_side_effects s) root_hash (u64_be height @ [state])\<rparr>"

definition clear_side_effects_applied :: "chain_store \<Rightarrow> hash32 \<Rightarrow> chain_store" where
  "clear_side_effects_applied s root_hash =
     s\<lparr>cs_applied_side_effects := tree_remove (cs_applied_side_effects s) root_hash\<rparr>"

text \<open>The actions of a root block whose space and content blocks are stored, in walking order.\<close>

definition stored_content_of_root :: "chain_store \<Rightarrow> root_block \<Rightarrow> content_block list" where
  "stored_content_of_root s root =
     concat (map (\<lambda>sb. List.map_filter (get_content_block s) (sb_content_block_hashes sb))
       (List.map_filter (get_space_block s) (rb_space_block_hashes root)))"

definition stored_actions_of_root :: "chain_store \<Rightarrow> root_block \<Rightarrow> action list" where
  "stored_actions_of_root s root = concat (map cb_actions (stored_content_of_root s root))"

definition unmark_action_at ::
  "(bytes \<Rightarrow> hash32) \<Rightarrow> u64 \<Rightarrow> nat \<times> chain_store \<Rightarrow> action \<Rightarrow> nat \<times> chain_store" where
  "unmark_action_at H height st a =
     (case st of (n, s) \<Rightarrow>
        if is_action_finalized s (action_hash H a) = Some height then
          (let s1 = unmark_action_finalized s (action_hash H a)
           in (n + 1,
               case act_content_hash a of
                 Some ch \<Rightarrow> s1\<lparr>cs_finalized_content := tree_remove (cs_finalized_content s1) ch\<rparr>
               | None \<Rightarrow> s1))
        else (n, s))"

definition unmark_actions_for_root ::
  "(bytes \<Rightarrow> hash32) \<Rightarrow> chain_store \<Rightarrow> root_block \<Rightarrow> nat \<times> chain_store" where
  "unmark_actions_for_root H s root =
     foldl (unmark_action_at H (rb_height root)) (0, s) (stored_actions_of_root s root)"

subsection \<open>Fork choice\<close>

text \<open>
  The walk of \<open>chain_weight\<close> down the ancestry: \<open>Some (collected, base)\<close> when it reaches a memoized
  ancestor of weight \<open>base\<close> or the zero hash, \<open>None\<close> when an ancestor is missing.
\<close>

partial_function (option) weight_walk ::
  "(bytes \<Rightarrow> hash32) \<Rightarrow> chain_store \<Rightarrow> hash32 \<Rightarrow> (hash32 \<times> u64) list \<Rightarrow>
   ((hash32 \<times> u64) list \<times> u64) option option" where
  "weight_walk H s prev collected =
     (if prev = zero32 then Some (Some (collected, 0))
      else case tree_get (cs_chain_weight_cache s) prev of
             Some w \<Rightarrow> Some (Some (collected, w))
           | None \<Rightarrow>
               (case get_root_block s prev of
                  Some parent \<Rightarrow>
                    weight_walk H s (rb_prev_root_hash parent)
                      (collected @ [(rb_hash H parent, rb_total_pow parent)])
                | None \<Rightarrow> Some None))"

definition memo_step :: "u64 \<times> (hash32, u64) tree \<Rightarrow> hash32 \<times> u64 \<Rightarrow> u64 \<times> (hash32, u64) tree" where
  "memo_step st e =
     (case st of (acc, cache) \<Rightarrow>
        let acc' = sat_add acc (snd e) in (acc', tree_insert cache (fst e) acc'))"

definition chain_weight ::
  "(bytes \<Rightarrow> hash32) \<Rightarrow> chain_store \<Rightarrow> root_block \<Rightarrow> (u64 option \<times> chain_store) option" where
  "chain_weight H s block =
     (let hash = rb_hash H block
      in case tree_get (cs_chain_weight_cache s) hash of
           Some w \<Rightarrow> Some (Some w, s)
         | None \<Rightarrow>
             (case weight_walk H s (rb_prev_root_hash block) [(hash, rb_total_pow block)] of
                None \<Rightarrow> None
              | Some None \<Rightarrow> Some (None, s)
              | Some (Some (collected, base)) \<Rightarrow>
                  (let (acc, cache) = foldl memo_step (base, cs_chain_weight_cache s) (rev collected)
                   in Some (Some acc, s\<lparr>cs_chain_weight_cache := cache\<rparr>))))"

definition is_heavier_than_best_tip ::
  "(bytes \<Rightarrow> hash32) \<Rightarrow> chain_store \<Rightarrow> root_block \<Rightarrow> (bool \<times> chain_store) option" where
  "is_heavier_than_best_tip H s block =
     (case get_best_tip_block s of
        None \<Rightarrow> Some (True, s)
      | Some tip \<Rightarrow>
          if rb_height block = sat_add (rb_height tip) 1 \<and> rb_prev_root_hash block = rb_hash H tip
          then Some (True, s)
          else
            (case chain_weight H s block of
               None \<Rightarrow> None
             | Some (bw, s1) \<Rightarrow>
                 (case chain_weight H s1 tip of
                    None \<Rightarrow> None
                  | Some (tw, s2) \<Rightarrow>
                      Some (case (bw, tw) of
                              (Some block_weight, Some tip_weight) \<Rightarrow> block_weight > tip_weight
                            | (None, _) \<Rightarrow> False
                            | (Some _, None) \<Rightarrow> rb_cumulative_pow block > rb_cumulative_pow tip, s2))))"

text \<open>Phase 1 of \<open>make_canonical\<close>: the heights to reassign, from the new tip down to the first
  block that is canonical already, or to the end of the chain.\<close>

partial_function (option) collect_new_chain ::
  "(bytes \<Rightarrow> hash32) \<Rightarrow> chain_store \<Rightarrow> root_block \<Rightarrow> (u64 \<times> hash32) list \<Rightarrow> (u64 \<times> hash32) list option option" where
  "collect_new_chain H s cursor new_chain =
     (if get_root_hash_at_height s (rb_height cursor) = Some (rb_hash H cursor) then Some (Some new_chain)
      else if rb_prev_root_hash cursor = zero32
      then Some (Some (new_chain @ [(rb_height cursor, rb_hash H cursor)]))
      else case get_root_block s (rb_prev_root_hash cursor) of
             Some b \<Rightarrow> collect_new_chain H s b (new_chain @ [(rb_height cursor, rb_hash H cursor)])
           | None \<Rightarrow> Some None)"

text \<open>Phase 2: truncate above the new tip, reassign the collected heights, record what is displaced.\<close>

definition truncate_height :: "chain_store \<times> hash32 list \<Rightarrow> u64 \<Rightarrow> chain_store \<times> hash32 list" where
  "truncate_height st height =
     (case st of (s, orphaned) \<Rightarrow>
        case get_root_hash_at_height s height of
          Some old_hash \<Rightarrow> (remove_height_index s height, orphaned @ [old_hash])
        | None \<Rightarrow> (s, orphaned))"

definition reassign_height ::
  "chain_store \<times> hash32 list \<Rightarrow> u64 \<times> hash32 \<Rightarrow> chain_store \<times> hash32 list" where
  "reassign_height st e =
     (case st of (s, orphaned) \<Rightarrow> case e of (height, hash) \<Rightarrow>
        (index_height s height hash,
         case get_root_hash_at_height s height of
           Some old_hash \<Rightarrow> if old_hash \<noteq> hash then orphaned @ [old_hash] else orphaned
         | None \<Rightarrow> orphaned))"

definition displace_block :: "(bytes \<Rightarrow> hash32) \<Rightarrow> chain_store \<Rightarrow> hash32 \<Rightarrow> chain_store" where
  "displace_block H s old_hash =
     clear_side_effects_applied
       (case get_root_block s old_hash of
          Some old_root \<Rightarrow> snd (unmark_actions_for_root H s old_root)
        | None \<Rightarrow> s) old_hash"

definition clear_skips_from_fork :: "chain_store \<Rightarrow> hash32 list \<Rightarrow> chain_store" where
  "clear_skips_from_fork s orphaned =
     (case map rb_height (List.map_filter (get_root_block s) orphaned) of
        [] \<Rightarrow> s
      | heights \<Rightarrow> clear_content_skips_at_or_above s (min_list heights))"

definition apply_reorg ::
  "(bytes \<Rightarrow> hash32) \<Rightarrow> chain_store \<Rightarrow> root_block \<Rightarrow> (u64 \<times> hash32) list \<Rightarrow> hash32 list \<times> chain_store" where
  "apply_reorg H s new_tip new_chain =
     (let old_height = (case get_latest_height s of Some h \<Rightarrow> h | None \<Rightarrow> 0);
          (s1, orphaned1) = foldl truncate_height (s, []) (u64_range (rb_height new_tip + 1) old_height);
          (s2, orphaned) = foldl reassign_height (s1, orphaned1) new_chain;
          s3 = set_best_tip s2 (rb_hash H new_tip);
          s4 = foldl (displace_block H) s3 orphaned
      in (orphaned, clear_skips_from_fork s4 orphaned))"

definition make_canonical ::
  "(bytes \<Rightarrow> hash32) \<Rightarrow> chain_store \<Rightarrow> root_block \<Rightarrow> (hash32 list option \<times> chain_store) option" where
  "make_canonical H s new_tip =
     (case collect_new_chain H s new_tip [] of
        None \<Rightarrow> None
      | Some None \<Rightarrow> Some (None, s)
      | Some (Some new_chain) \<Rightarrow>
          (let (orphaned, s') = apply_reorg H s new_tip new_chain in Some (Some orphaned, s')))"

definition update_best_tip_if_heavier ::
  "(bytes \<Rightarrow> hash32) \<Rightarrow> chain_store \<Rightarrow> root_block \<Rightarrow> (bool \<times> chain_store) option" where
  "update_best_tip_if_heavier H s block =
     (case is_heavier_than_best_tip H s block of
        None \<Rightarrow> None
      | Some (False, s1) \<Rightarrow> Some (False, s1)
      | Some (True, s1) \<Rightarrow>
          (case make_canonical H s1 block of
             None \<Rightarrow> None
           | Some (None, s2) \<Rightarrow> Some (False, s2)
           | Some (Some orphaned, s2) \<Rightarrow> Some (True, s2)))"

definition put_root_block_with_fork_resolution_reporting ::
  "(bytes \<Rightarrow> hash32) \<Rightarrow> chain_store \<Rightarrow> root_block \<Rightarrow> ((hash32 \<times> bool \<times> hash32 list) \<times> chain_store) option" where
  "put_root_block_with_fork_resolution_reporting H s block =
     (let (hash, s0) = put_root_block H s block
      in case is_heavier_than_best_tip H s0 block of
           None \<Rightarrow> None
         | Some (False, s1) \<Rightarrow> Some ((hash, False, []), s1)
         | Some (True, s1) \<Rightarrow>
             (case make_canonical H s1 block of
                None \<Rightarrow> None
              | Some (None, s2) \<Rightarrow> Some ((hash, False, []), s2)
              | Some (Some orphaned, s2) \<Rightarrow> Some ((hash, True, orphaned), s2)))"

definition put_root_block_with_fork_resolution ::
  "(bytes \<Rightarrow> hash32) \<Rightarrow> chain_store \<Rightarrow> root_block \<Rightarrow> ((hash32 \<times> bool) \<times> chain_store) option" where
  "put_root_block_with_fork_resolution H s block =
     map_option (\<lambda>((hash, is_new_tip, displaced), s'). ((hash, is_new_tip), s'))
       (put_root_block_with_fork_resolution_reporting H s block)"

definition reorg_to_heavier_chain ::
  "(bytes \<Rightarrow> hash32) \<Rightarrow> chain_store \<Rightarrow> root_block \<Rightarrow> (hash32 list \<times> chain_store) option" where
  "reorg_to_heavier_chain H s new_tip =
     (let adopt = map_option (\<lambda>(r, s'). (case r of Some orphaned \<Rightarrow> orphaned | None \<Rightarrow> [], s'))
                    (make_canonical H s new_tip)
      in case get_best_tip_block s of
           None \<Rightarrow> adopt
         | Some current_tip \<Rightarrow>
             if rb_cumulative_pow new_tip \<le> rb_cumulative_pow current_tip then Some ([], s) else adopt)"

end
