(* ===== verification/Fork_Choice.thy ===== *)
theory Fork_Choice
  imports Chain_Store
begin

text \<open>
  Fork choice of the chain store: the memoized chain weight is the saturating sum of the work of the
  ancestry; \<open>make_canonical\<close> returns, changes nothing when the ancestry is incomplete, and otherwise
  makes the height index exactly the ancestry of the new tip; the invariant of the store is kept by
  every block that is put with fork resolution.
\<close>

subsection \<open>Frames\<close>

text \<open>Which components each reader depends on.\<close>

lemma get_root_block_frame [simp]:
  "get_root_block (s\<lparr>cs_chain_weight_cache := c\<rparr>) = get_root_block s"
  "get_root_block (s\<lparr>cs_height_index := i\<rparr>) = get_root_block s"
  "get_root_block (s\<lparr>cs_best_tip := t\<rparr>) = get_root_block s"
  "get_root_block (s\<lparr>cs_finalized_actions := fa\<rparr>) = get_root_block s"
  "get_root_block (s\<lparr>cs_finalized_content := fc\<rparr>) = get_root_block s"
  "get_root_block (s\<lparr>cs_applied_side_effects := ap\<rparr>) = get_root_block s"
  "get_root_block (s\<lparr>cs_skipped_content_blocks := sk\<rparr>) = get_root_block s"
  by (simp_all add: get_root_block_def fun_eq_iff)

lemma get_part_frame [simp]:
  "get_space_block (s\<lparr>cs_height_index := i\<rparr>) = get_space_block s"
  "get_space_block (s\<lparr>cs_best_tip := t\<rparr>) = get_space_block s"
  "get_content_block (s\<lparr>cs_height_index := i\<rparr>) = get_content_block s"
  "get_content_block (s\<lparr>cs_best_tip := t\<rparr>) = get_content_block s"
  by (simp_all add: get_space_block_def get_content_block_def fun_eq_iff)

subsection \<open>Ancestry and real weight\<close>

text \<open>\<open>ancestry R b bs\<close>: \<open>bs\<close> are the blocks from \<open>b\<close> down to a block without parent.\<close>

inductive ancestry :: "(hash32 \<Rightarrow> root_block option) \<Rightarrow> root_block \<Rightarrow> root_block list \<Rightarrow> bool"
  for R where
  ancestry_root: "rb_prev_root_hash b = zero32 \<Longrightarrow> ancestry R b [b]"
| ancestry_step: "rb_prev_root_hash b \<noteq> zero32 \<Longrightarrow> R (rb_prev_root_hash b) = Some p \<Longrightarrow> ancestry R p bs \<Longrightarrow>
    ancestry R b (b # bs)"

inductive_cases ancestry_ConsE: "ancestry R b (x # bs)"
inductive_cases ancestry_NilE: "ancestry R b []"

definition real_weight :: "root_block list \<Rightarrow> u64" where
  "real_weight bs = foldr (\<lambda>b acc. sat_add acc (rb_total_pow b)) bs 0"

text \<open>
  What the store relies on: blocks are stored under their hash, heights count up along parent links
  from 0 and stay below the maximum.
\<close>

definition linked_store :: "(bytes \<Rightarrow> hash32) \<Rightarrow> (hash32 \<Rightarrow> root_block option) \<Rightarrow> bool" where
  "linked_store H R \<longleftrightarrow>
     (\<forall>h b. R h = Some b \<longrightarrow>
        rb_hash H b = h \<and> unat (rb_height b) + 1 < 2 ^ 64 \<and>
        (if rb_prev_root_hash b = zero32 then rb_height b = 0
         else (\<forall>p. R (rb_prev_root_hash b) = Some p \<longrightarrow> rb_height b = rb_height p + 1)))"

definition cache_ok :: "chain_store \<Rightarrow> bool" where
  "cache_ok s \<longleftrightarrow>
     (\<forall>h w. tree_get (cs_chain_weight_cache s) h = Some w \<longrightarrow>
        (\<exists>b bs. get_root_block s h = Some b \<and> ancestry (get_root_block s) b bs \<and> real_weight bs = w))"

lemma real_weight_simps [simp]:
  "real_weight [] = 0" "real_weight (b # bs) = sat_add (real_weight bs) (rb_total_pow b)"
  by (simp_all add: real_weight_def)

lemma unat_real_weight: "unat (real_weight bs) = min (\<Sum>b\<leftarrow>bs. unat (rb_total_pow b)) (2 ^ 64 - 1)"
  by (induction bs) (auto simp: unat_sat_add)

lemma linkedD:
  assumes "linked_store H R" and "R h = Some b"
  shows "rb_hash H b = h" "unat (rb_height b) + 1 < 2 ^ 64"
    "rb_prev_root_hash b = zero32 \<Longrightarrow> rb_height b = 0"
    "rb_prev_root_hash b \<noteq> zero32 \<Longrightarrow> R (rb_prev_root_hash b) = Some p \<Longrightarrow> rb_height b = rb_height p + 1"
  using assms unfolding linked_store_def by (metis (full_types))+

lemma linked_parent_height:
  assumes "linked_store H R" and "R h = Some b" and "rb_prev_root_hash b \<noteq> zero32"
    and "R (rb_prev_root_hash b) = Some p"
  shows "unat (rb_height b) = Suc (unat (rb_height p))"
  using linkedD(4) [OF assms] linkedD(2) [OF assms(1,4)] by (simp add: unat_word_ariths)

lemma ancestry_unique: "ancestry R b bs \<Longrightarrow> ancestry R b bs' \<Longrightarrow> bs = bs'"
proof (induction arbitrary: bs' rule: ancestry.induct)
  case (ancestry_root b)
  then show ?case by (auto elim: ancestry.cases)
next
  case (ancestry_step b p bs)
  from ancestry_step.prems ancestry_step.hyps(1,2) obtain cs where "bs' = b # cs" "ancestry R p cs"
    by cases auto
  with ancestry_step.IH show ?case by simp
qed

lemma ancestry_hd: "ancestry R b bs \<Longrightarrow> \<exists>t. bs = b # t"
  by (auto elim: ancestry.cases)

lemma ancestry_stored:
  "ancestry R b bs \<Longrightarrow> linked_store H R \<Longrightarrow> R (rb_hash H b) = Some b \<Longrightarrow> x \<in> set bs \<Longrightarrow> R (rb_hash H x) = Some x"
proof (induction rule: ancestry.induct)
  case (ancestry_step b p bs)
  then have "R (rb_hash H p) = Some p" using linkedD(1) by metis
  with ancestry_step show ?case by auto
qed auto

lemma ancestry_suffix: "ancestry R b (pre @ x # post) \<Longrightarrow> ancestry R x (x # post)"
proof (induction pre arbitrary: b)
  case Nil
  then show ?case using ancestry_hd [of R b "x # post"] by auto
next
  case (Cons y pre)
  then have "ancestry R b (y # pre @ x # post)" by simp
  then obtain p where "ancestry R p (pre @ x # post)" by (auto elim: ancestry_ConsE)
  then show ?case by (rule Cons.IH)
qed

lemma ancestry_length:
  "ancestry R b bs \<Longrightarrow> linked_store H R \<Longrightarrow> R (rb_hash H b) = Some b \<Longrightarrow> length bs = Suc (unat (rb_height b))"
proof (induction rule: ancestry.induct)
  case (ancestry_root b)
  then show ?case using linkedD(3) by fastforce
next
  case (ancestry_step b p bs)
  then have "R (rb_hash H p) = Some p" using linkedD(1) by metis
  with ancestry_step linked_parent_height [of H R "rb_hash H b" b p] show ?case by simp
qed

subsection \<open>The memoized weight\<close>

abbreviation work_entry :: "(bytes \<Rightarrow> hash32) \<Rightarrow> root_block \<Rightarrow> hash32 \<times> u64" where
  "work_entry H b \<equiv> (rb_hash H b, rb_total_pow b)"

lemma weight_walk_complete:
  assumes "linked_store H (get_root_block s)" and "cache_ok s"
  shows "ancestry (get_root_block s) p bs \<Longrightarrow> prev \<noteq> zero32 \<Longrightarrow> get_root_block s prev = Some p \<Longrightarrow>
    \<exists>front rest. bs = front @ rest \<and>
      weight_walk H s prev acc = Some (Some (acc @ map (work_entry H) front, real_weight rest))"
proof (induction arbitrary: prev acc rule: ancestry.induct)
  case (ancestry_root p)
  show ?case
  proof (cases "tree_get (cs_chain_weight_cache s) prev")
    case None
    with ancestry_root have "weight_walk H s prev acc = Some (Some (acc @ [work_entry H p], 0))"
      by (simp add: weight_walk.simps [of H s prev] weight_walk.simps [of H s zero32])
    then show ?thesis by (intro exI [of _ "[p]"] exI [of _ "[]"]) simp
  next
    case (Some w)
    with assms(2) ancestry_root have "w = real_weight [p]"
      unfolding cache_ok_def using ancestry.ancestry_root ancestry_unique by (metis option.inject)
    with Some ancestry_root show ?thesis
      by (intro exI [of _ "[]"] exI [of _ "[p]"]) (simp add: weight_walk.simps [of H s prev])
  qed
next
  case (ancestry_step p q bs)
  show ?case
  proof (cases "tree_get (cs_chain_weight_cache s) prev")
    case None
    obtain front rest where "bs = front @ rest"
      "weight_walk H s (rb_prev_root_hash p) (acc @ [work_entry H p]) =
         Some (Some ((acc @ [work_entry H p]) @ map (work_entry H) front, real_weight rest))"
      using ancestry_step.IH [OF ancestry_step.hyps(1,2)] by blast
    with None ancestry_step.prems show ?thesis
      by (intro exI [of _ "p # front"] exI [of _ rest]) (simp add: weight_walk.simps [of H s prev])
  next
    case (Some w)
    have "ancestry (get_root_block s) p (p # bs)"
      using ancestry_step.hyps by (rule ancestry.ancestry_step)
    with Some assms(2) ancestry_step.prems have "w = real_weight (p # bs)"
      unfolding cache_ok_def using ancestry_unique by (metis option.inject)
    with Some ancestry_step.prems show ?thesis
      by (intro exI [of _ "[]"] exI [of _ "p # bs"]) (simp add: weight_walk.simps [of H s prev])
  qed
qed

lemma weight_walk_incomplete:
  assumes "linked_store H (get_root_block s)" and "cache_ok s"
  shows "get_root_block s prev = Some p \<Longrightarrow> prev \<noteq> zero32 \<Longrightarrow> \<nexists>bs. ancestry (get_root_block s) p bs \<Longrightarrow>
    weight_walk H s prev acc = Some None"
proof (induction "unat (rb_height p)" arbitrary: p prev acc rule: less_induct)
  case less
  have uncached: "tree_get (cs_chain_weight_cache s) prev = None"
    using assms(2) less.prems unfolding cache_ok_def by (metis option.collapse option.inject)
  have nz: "rb_prev_root_hash p \<noteq> zero32" using less.prems(3) ancestry_root by blast
  have walk: "weight_walk H s prev acc =
      weight_walk H s (rb_prev_root_hash p) (acc @ [work_entry H p])"
    using uncached less.prems by (simp add: weight_walk.simps [of H s prev])
  show ?case
  proof (cases "get_root_block s (rb_prev_root_hash p)")
    case None
    then have "tree_get (cs_chain_weight_cache s) (rb_prev_root_hash p) = None"
      using assms(2) unfolding cache_ok_def by (metis option.collapse option.distinct(1))
    with None nz show ?thesis unfolding walk by (simp add: weight_walk.simps)
  next
    case (Some q)
    have "unat (rb_height q) < unat (rb_height p)"
      using linked_parent_height [OF assms(1) less.prems(1) nz Some] by simp
    moreover have "\<nexists>bs. ancestry (get_root_block s) q bs"
      using less.prems(3) nz Some ancestry_step by blast
    ultimately show ?thesis unfolding walk by (rule less.hyps [OF _ Some nz])
  qed
qed

lemma memo_step_apply [simp]:
  "memo_step (acc, c) e = (sat_add acc (snd e), tree_insert c (fst e) (sat_add acc (snd e)))"
  by (simp add: memo_step_def Let_def)

lemma cache_ok_insert:
  assumes "cache_ok (s\<lparr>cs_chain_weight_cache := c\<rparr>)" and "get_root_block s (rb_hash H x) = Some x"
    and "ancestry (get_root_block s) x bs"
  shows "cache_ok (s\<lparr>cs_chain_weight_cache := tree_insert c (rb_hash H x) (real_weight bs)\<rparr>)"
  using assms unfolding cache_ok_def by (auto split: if_splits)

lemma memo_fold:
  assumes "linked_store H (get_root_block s)"
  shows "cache_ok (s\<lparr>cs_chain_weight_cache := c\<rparr>) \<Longrightarrow>
    front = [] \<or> (ancestry (get_root_block s) (hd front) (front @ rest) \<and>
      get_root_block s (rb_hash H (hd front)) = Some (hd front)) \<Longrightarrow>
    \<exists>c'. foldl memo_step (real_weight rest, c) (rev (map (work_entry H) front)) = (real_weight (front @ rest), c') \<and>
      cache_ok (s\<lparr>cs_chain_weight_cache := c'\<rparr>)"
proof (induction front)
  case (Cons x front)
  then have anc: "ancestry (get_root_block s) x (x # front @ rest)"
    and stored: "get_root_block s (rb_hash H x) = Some x" by auto
  have "front = [] \<or> (ancestry (get_root_block s) (hd front) (front @ rest) \<and>
      get_root_block s (rb_hash H (hd front)) = Some (hd front))"
  proof (cases front)
    case (Cons y ys)
    with anc have "ancestry (get_root_block s) y (y # ys @ rest)"
      using ancestry_suffix [of "get_root_block s" x "[x]" y "ys @ rest"] by simp
    moreover have "get_root_block s (rb_hash H y) = Some y"
      using ancestry_stored [OF anc assms stored] Cons by simp
    ultimately show ?thesis using Cons by simp
  qed simp
  with Cons.IH [OF Cons.prems(1)] obtain c' where
    "foldl memo_step (real_weight rest, c) (rev (map (work_entry H) front)) = (real_weight (front @ rest), c')"
    "cache_ok (s\<lparr>cs_chain_weight_cache := c'\<rparr>)" by blast
  with cache_ok_insert [OF _ stored anc] show ?case by auto
qed auto

text \<open>\<open>chain_weight\<close> returns; it changes only the memo, which stays right.\<close>

lemma chain_weight_correct:
  assumes "linked_store H (get_root_block s)" and "cache_ok s"
    and stored: "get_root_block s (rb_hash H b) = Some b"
  shows "\<exists>r c. chain_weight H s b = Some (r, s\<lparr>cs_chain_weight_cache := c\<rparr>) \<and>
    cache_ok (s\<lparr>cs_chain_weight_cache := c\<rparr>) \<and>
    (\<forall>w. r = Some w \<longleftrightarrow> (\<exists>bs. ancestry (get_root_block s) b bs \<and> real_weight bs = w))"
proof (cases "tree_get (cs_chain_weight_cache s) (rb_hash H b)")
  case (Some w)
  then obtain bs where anc: "ancestry (get_root_block s) b bs" "real_weight bs = w"
    using assms(2) stored unfolding cache_ok_def by (metis option.inject)
  with Some have "chain_weight H s b = Some (Some w, s\<lparr>cs_chain_weight_cache := cs_chain_weight_cache s\<rparr>)"
    by (simp add: chain_weight_def)
  with anc assms(2) show ?thesis
    by (intro exI [of _ "Some w"] exI [of _ "cs_chain_weight_cache s"]) (auto dest: ancestry_unique)
next
  case uncached: None
  let ?p = "rb_prev_root_hash b"
  have sid: "s\<lparr>cs_chain_weight_cache := cs_chain_weight_cache s\<rparr> = s" by simp
  show ?thesis
  proof (cases "\<exists>bs. ancestry (get_root_block s) b bs")
    case True
    then obtain bs where anc: "ancestry (get_root_block s) b bs" by blast
    obtain front rest where bs: "bs = b # front @ rest"
      and walk: "weight_walk H s ?p [work_entry H b] =
        Some (Some ([work_entry H b] @ map (work_entry H) front, real_weight rest))"
      using anc
    proof cases
      case ancestry_root
      then show ?thesis using that [of "[]" "[]"] by (simp add: weight_walk.simps)
    next
      case (ancestry_step p cs)
      with weight_walk_complete [OF assms(1,2) ancestry_step(4,2,3)] that show ?thesis by blast
    qed
    from memo_fold [OF assms(1), of "cs_chain_weight_cache s" "b # front" rest] bs anc stored assms(2)
    obtain c where "foldl memo_step (real_weight rest, cs_chain_weight_cache s) (rev (map (work_entry H) (b # front)))
        = (real_weight bs, c)" "cache_ok (s\<lparr>cs_chain_weight_cache := c\<rparr>)" by (auto simp: sid)
    with uncached walk anc show ?thesis
      by (intro exI [of _ "Some (real_weight bs)"] exI [of _ c])
        (auto simp: chain_weight_def Let_def dest: ancestry_unique)
  next
    case False
    then have nz: "?p \<noteq> zero32" using ancestry_root by blast
    have "weight_walk H s ?p [work_entry H b] = Some None"
    proof (cases "get_root_block s ?p")
      case None
      then have "tree_get (cs_chain_weight_cache s) ?p = None"
        using assms(2) unfolding cache_ok_def by (metis option.collapse option.distinct(1))
      with None nz show ?thesis by (simp add: weight_walk.simps)
    next
      case (Some p)
      with False nz ancestry_step show ?thesis
        by (intro weight_walk_incomplete [OF assms(1,2) Some nz]) blast
    qed
    with uncached False assms(2) show ?thesis
      by (intro exI [of _ None] exI [of _ "cs_chain_weight_cache s"]) (simp add: chain_weight_def)
  qed
qed

subsection \<open>The height index of an ancestry\<close>

abbreviation height_entry :: "(bytes \<Rightarrow> hash32) \<Rightarrow> root_block \<Rightarrow> u64 \<times> hash32" where
  "height_entry H b \<equiv> (rb_height b, rb_hash H b)"

definition height_map :: "(bytes \<Rightarrow> hash32) \<Rightarrow> root_block list \<Rightarrow> u64 \<Rightarrow> hash32 option" where
  "height_map H bs = map_of (map (height_entry H) bs)"

text \<open>The invariant: the index is the ancestry of the best tip.\<close>

definition canon_ok :: "(bytes \<Rightarrow> hash32) \<Rightarrow> chain_store \<Rightarrow> bool" where
  "canon_ok H s \<longleftrightarrow>
     (case cs_best_tip s of
        None \<Rightarrow> tree_get (cs_height_index s) = Map.empty
      | Some t \<Rightarrow> (\<exists>b bs. get_root_block s t = Some b \<and> ancestry (get_root_block s) b bs \<and>
                        tree_get (cs_height_index s) = height_map H bs))"

lemma ancestry_nth_height:
  assumes "linked_store H R" and "R (rb_hash H b) = Some b" and "ancestry R b bs" and "i < length bs"
  shows "unat (rb_height (bs ! i)) = length bs - 1 - i"
proof -
  have split: "bs = take i bs @ bs ! i # drop (Suc i) bs" using assms(4) by (rule id_take_nth_drop)
  then have anc: "ancestry R (bs ! i) (bs ! i # drop (Suc i) bs)"
    using assms(3) ancestry_suffix by metis
  have "R (rb_hash H (bs ! i)) = Some (bs ! i)"
    using ancestry_stored [OF assms(3,1,2)] assms(4) by simp
  from ancestry_length [OF anc assms(1) this] assms(4) show ?thesis by simp
qed

lemma distinct_heights:
  assumes "linked_store H R" and "R (rb_hash H b) = Some b" and "ancestry R b bs"
  shows "distinct (map rb_height bs)"
proof (subst distinct_conv_nth, intro allI impI)
  fix i j assume ij: "i < length (map rb_height bs)" "j < length (map rb_height bs)" "i \<noteq> j"
  then have "unat (rb_height (bs ! i)) \<noteq> unat (rb_height (bs ! j))"
    using ancestry_nth_height [OF assms, of i] ancestry_nth_height [OF assms, of j] by auto
  then show "map rb_height bs ! i \<noteq> map rb_height bs ! j" using ij by auto
qed

lemma height_map_Some:
  assumes "linked_store H R" and "R (rb_hash H b) = Some b" and "ancestry R b bs"
  shows "height_map H bs k = Some x \<longleftrightarrow> (\<exists>y \<in> set bs. rb_height y = k \<and> rb_hash H y = x)"
proof -
  have "distinct (map fst (map (height_entry H) bs))"
    using distinct_heights [OF assms] by (simp add: comp_def)
  from map_of_eq_Some_iff [OF this] show ?thesis by (auto simp: height_map_def)
qed

lemma ancestry_height_iff:
  assumes "linked_store H R" and "R (rb_hash H b) = Some b" and "ancestry R b bs"
  shows "(\<exists>y \<in> set bs. rb_height y = k) \<longleftrightarrow> k \<le> rb_height b"
proof -
  have len: "length bs = Suc (unat (rb_height b))" using ancestry_length [OF assms(3,1,2)] .
  have "(\<exists>y \<in> set bs. rb_height y = k) \<longleftrightarrow> (\<exists>i < length bs. unat (rb_height (bs ! i)) = unat k)"
    by (metis in_set_conv_nth word_unat_eq_iff)
  also have "\<dots> \<longleftrightarrow> (\<exists>i < length bs. length bs - 1 - i = unat k)"
    using ancestry_nth_height [OF assms] by auto
  also have "\<dots> \<longleftrightarrow> unat k < length bs"
    by (auto intro!: exI [of _ "length bs - 1 - unat k"])
  finally show ?thesis using len by (simp add: word_le_nat_alt less_Suc_eq_le)
qed

text \<open>A stored block that the index names at its height belongs to the canonical ancestry.\<close>

lemma canonical_block:
  assumes "linked_store H (get_root_block s)" and "canon_ok H s"
    and "get_root_block s (rb_hash H x) = Some x"
    and "get_root_hash_at_height s (rb_height x) = Some (rb_hash H x)"
  obtains t b pre rest where "cs_best_tip s = Some t" "get_root_block s t = Some b"
    "ancestry (get_root_block s) b (pre @ x # rest)"
    "tree_get (cs_height_index s) = height_map H (pre @ x # rest)"
proof -
  obtain t b bs where t: "cs_best_tip s = Some t" "get_root_block s t = Some b"
    and anc: "ancestry (get_root_block s) b bs" and idx: "tree_get (cs_height_index s) = height_map H bs"
    using assms(2,4) by (auto simp: canon_ok_def get_root_hash_at_height_def split: option.splits)
  have stored: "get_root_block s (rb_hash H b) = Some b"
    using t linkedD(1) [OF assms(1)] by simp
  obtain y where y: "y \<in> set bs" "rb_hash H y = rb_hash H x"
    using assms(4) idx height_map_Some [OF assms(1) stored anc]
    by (auto simp: get_root_hash_at_height_def)
  have "get_root_block s (rb_hash H x) = Some y"
    using ancestry_stored [OF anc assms(1) stored y(1)] unfolding y(2) .
  then have "y = x" using assms(3) by (metis option.inject)
  then obtain pre rest where bs: "bs = pre @ x # rest" using y(1) by (metis split_list)
  show ?thesis by (rule that [OF t anc [unfolded bs] idx [unfolded bs]])
qed

subsection \<open>Collecting the new chain\<close>

lemma collect_complete:
  assumes "linked_store H (get_root_block s)" and "canon_ok H s"
  shows "ancestry (get_root_block s) b bs \<Longrightarrow>
    \<exists>front rest. bs = front @ rest \<and>
      collect_new_chain H s b acc = Some (Some (acc @ map (height_entry H) front)) \<and>
      (rest = [] \<or> get_root_hash_at_height s (rb_height (hd rest)) = Some (rb_hash H (hd rest)))"
proof (induction arbitrary: acc rule: ancestry.induct)
  case (ancestry_root b)
  show ?case
  proof (cases "get_root_hash_at_height s (rb_height b) = Some (rb_hash H b)")
    case True
    then show ?thesis
      by (intro exI [of _ "[]"] exI [of _ "[b]"]) (simp add: collect_new_chain.simps)
  next
    case False
    with ancestry_root show ?thesis
      by (intro exI [of _ "[b]"] exI [of _ "[]"]) (simp add: collect_new_chain.simps)
  qed
next
  case (ancestry_step b p bs)
  show ?case
  proof (cases "get_root_hash_at_height s (rb_height b) = Some (rb_hash H b)")
    case True
    then show ?thesis
      by (intro exI [of _ "[]"] exI [of _ "b # bs"]) (simp add: collect_new_chain.simps)
  next
    case False
    obtain front rest where IH: "bs = front @ rest"
      "collect_new_chain H s p (acc @ [height_entry H b]) =
        Some (Some ((acc @ [height_entry H b]) @ map (height_entry H) front))"
      "rest = [] \<or> get_root_hash_at_height s (rb_height (hd rest)) = Some (rb_hash H (hd rest))"
      using ancestry_step.IH by blast
    with False ancestry_step.hyps show ?thesis
      by (intro exI [of _ "b # front"] exI [of _ rest]) (simp add: collect_new_chain.simps [of H s b])
  qed
qed

lemma collect_incomplete:
  assumes "linked_store H (get_root_block s)" and "canon_ok H s"
  shows "get_root_block s (rb_hash H b) = Some b \<Longrightarrow> \<nexists>bs. ancestry (get_root_block s) b bs \<Longrightarrow>
    collect_new_chain H s b acc = Some None"
proof (induction "unat (rb_height b)" arbitrary: b acc rule: less_induct)
  case less
  have nz: "rb_prev_root_hash b \<noteq> zero32" using less.prems(2) ancestry_root by blast
  have off: "get_root_hash_at_height s (rb_height b) \<noteq> Some (rb_hash H b)"
    using less.prems ancestry_suffix canonical_block [OF assms less.prems(1)] by metis
  show ?case
  proof (cases "get_root_block s (rb_prev_root_hash b)")
    case None
    with off nz show ?thesis by (simp add: collect_new_chain.simps)
  next
    case (Some p)
    have "get_root_block s (rb_hash H p) = Some p" using Some linkedD(1) [OF assms(1)] by simp
    moreover have "unat (rb_height p) < unat (rb_height b)"
      using linked_parent_height [OF assms(1) less.prems(1) nz Some] by simp
    moreover have "\<nexists>bs. ancestry (get_root_block s) p bs"
      using less.prems(2) nz Some ancestry_step by blast
    ultimately have "collect_new_chain H s p acc' = Some None" for acc' using less.hyps by blast
    with off nz Some show ?thesis by (simp add: collect_new_chain.simps [of H s b])
  qed
qed

subsection \<open>Applying a reorg\<close>

lemma truncate_fold:
  "distinct hs \<Longrightarrow>
   \<exists>i'. foldl truncate_height (s\<lparr>cs_height_index := i\<rparr>, orphaned) hs =
       (s\<lparr>cs_height_index := i'\<rparr>, orphaned @ List.map_filter (tree_get i) hs) \<and>
     (\<forall>k. tree_get i' k = (if k \<in> set hs then None else tree_get i k))"
proof (induction hs arbitrary: i orphaned)
  case Nil
  show ?case by (intro exI [of _ i]) (simp add: List.map_filter_simps)
next
  case (Cons h hs)
  show ?case
  proof (cases "tree_get i h")
    case None
    with Cons.IH [of i orphaned] Cons.prems show ?thesis
      by (auto simp: truncate_height_def get_root_hash_at_height_def List.map_filter_simps)
  next
    case (Some x)
    have filt: "List.map_filter (tree_get (tree_remove i h)) hs = List.map_filter (tree_get i) hs"
      using Cons.prems by (auto simp: List.map_filter_def intro!: map_cong filter_cong)
    have step: "truncate_height (s\<lparr>cs_height_index := i\<rparr>, orphaned) h =
        (s\<lparr>cs_height_index := tree_remove i h\<rparr>, orphaned @ [x])"
      using Some by (simp add: truncate_height_def get_root_hash_at_height_def remove_height_index_def)
    obtain i' where i': "foldl truncate_height (s\<lparr>cs_height_index := tree_remove i h\<rparr>, orphaned @ [x]) hs =
        (s\<lparr>cs_height_index := i'\<rparr>, (orphaned @ [x]) @ List.map_filter (tree_get i) hs)"
      "\<forall>k. tree_get i' k = (if k \<in> set hs then None else tree_get (tree_remove i h) k)"
      using Cons.IH [of "tree_remove i h" "orphaned @ [x]"] Cons.prems unfolding filt by auto
    have "List.map_filter (tree_get i) (h # hs) = x # List.map_filter (tree_get i) hs"
      using Some by (simp add: List.map_filter_simps)
    then show ?thesis using i' by (intro exI [of _ i']) (simp add: step)
  qed
qed

definition displaced_at :: "(u64, hash32) tree \<Rightarrow> u64 \<times> hash32 \<Rightarrow> hash32 option" where
  "displaced_at i e =
     (case tree_get i (fst e) of Some old \<Rightarrow> if old \<noteq> snd e then Some old else None | None \<Rightarrow> None)"

lemma reassign_fold:
  "distinct (map fst es) \<Longrightarrow>
   \<exists>i'. foldl reassign_height (s\<lparr>cs_height_index := i\<rparr>, orphaned) es =
       (s\<lparr>cs_height_index := i'\<rparr>, orphaned @ List.map_filter (displaced_at i) es) \<and>
     (\<forall>k. tree_get i' k = (case map_of es k of Some x \<Rightarrow> Some x | None \<Rightarrow> tree_get i k))"
proof (induction es arbitrary: i orphaned)
  case Nil
  show ?case by (intro exI [of _ i]) (simp add: List.map_filter_simps)
next
  case (Cons e es)
  obtain h x where e: "e = (h, x)" by (cases e)
  have "displaced_at (tree_insert i h x) f = displaced_at i f" if "f \<in> set es" for f
    using that Cons.prems e by (auto simp: displaced_at_def)
  then have filt: "List.map_filter (displaced_at (tree_insert i h x)) es = List.map_filter (displaced_at i) es"
    by (auto simp: List.map_filter_def intro!: map_cong filter_cong)
  have step: "reassign_height (s\<lparr>cs_height_index := i\<rparr>, orphaned) e =
      (s\<lparr>cs_height_index := tree_insert i h x\<rparr>, orphaned @ List.map_filter (displaced_at i) [e])"
    by (auto simp: reassign_height_def e index_height_def get_root_hash_at_height_def displaced_at_def
        List.map_filter_simps split: option.splits)
  have "h \<notin> fst ` set es" using Cons.prems e by simp
  then have "map_of es h = None" by (simp add: map_of_eq_None_iff)
  obtain i' where i': "foldl reassign_height
      (s\<lparr>cs_height_index := tree_insert i h x\<rparr>, orphaned @ List.map_filter (displaced_at i) [e]) es =
      (s\<lparr>cs_height_index := i'\<rparr>, (orphaned @ List.map_filter (displaced_at i) [e]) @ List.map_filter (displaced_at i) es)"
    "\<forall>k. tree_get i' k = (case map_of es k of Some y \<Rightarrow> Some y | None \<Rightarrow> tree_get (tree_insert i h x) k)"
    using Cons.IH [of "tree_insert i h x" "orphaned @ List.map_filter (displaced_at i) [e]"] Cons.prems
    unfolding filt by auto
  have "List.map_filter (displaced_at i) (e # es) =
      List.map_filter (displaced_at i) [e] @ List.map_filter (displaced_at i) es"
    by (simp add: List.map_filter_simps split: option.split)
  moreover have "tree_get i' k = (case map_of (e # es) k of Some y \<Rightarrow> Some y | None \<Rightarrow> tree_get i k)" for k
    using i'(2) \<open>map_of es h = None\<close> by (simp add: e split: option.split)
  ultimately show ?case using i'(1) by (intro exI [of _ i']) (simp add: step)
qed

text \<open>The last phases of a reorg touch only marks.\<close>

definition same_chain :: "chain_store \<Rightarrow> chain_store \<Rightarrow> bool" where
  "same_chain s s' \<longleftrightarrow>
     cs_root_blocks s' = cs_root_blocks s \<and> cs_space_blocks s' = cs_space_blocks s \<and>
     cs_content_blocks s' = cs_content_blocks s \<and> cs_height_index s' = cs_height_index s \<and>
     cs_best_tip s' = cs_best_tip s \<and> cs_chain_weight_cache s' = cs_chain_weight_cache s"

lemma same_chain_refl [simp]: "same_chain s s"
  by (simp add: same_chain_def)

lemma same_chain_trans: "same_chain s t \<Longrightarrow> same_chain t u \<Longrightarrow> same_chain s u"
  by (simp add: same_chain_def)

lemma same_chain_foldl: "(\<And>s x. same_chain s (f s x)) \<Longrightarrow> same_chain s (foldl f s xs)"
  by (induction xs arbitrary: s) (auto intro: same_chain_trans)

lemma unmark_action_at_chain: "same_chain (snd st) (snd (unmark_action_at H h st a))"
  by (cases st) (auto simp: unmark_action_at_def same_chain_def unmark_action_finalized_def Let_def
      split: option.splits)

lemma unmark_actions_fold_chain: "same_chain (snd st) (snd (foldl (unmark_action_at H h) st as))"
proof (induction as arbitrary: st)
  case (Cons a as)
  from same_chain_trans [OF unmark_action_at_chain Cons.IH] show ?case by simp
qed simp

lemma displace_block_chain: "same_chain s (displace_block H s h)"
proof -
  have "same_chain s (snd (unmark_actions_for_root H s r))" for r
    using unmark_actions_fold_chain [of "(0, s)"] by (simp add: unmark_actions_for_root_def)
  then show ?thesis
    by (auto simp: displace_block_def clear_side_effects_applied_def same_chain_def split: option.splits)
qed

lemma clear_skips_chain: "same_chain s (clear_skips_from_fork s os)"
  by (cases "map rb_height (List.map_filter (get_root_block s) os)")
    (simp_all add: clear_skips_from_fork_def clear_content_skips_at_or_above_def same_chain_def)

lemma apply_reorg_shape:
  assumes "unat (rb_height b) + 1 < 2 ^ 64" and "distinct (map fst es)"
    and "apply_reorg H s b es = (orphaned, s')"
  obtains i1 i2 where
    "\<And>k. tree_get i1 k = (if rb_height b < k then None else tree_get (cs_height_index s) k)"
    "\<And>k. tree_get i2 k = (case map_of es k of Some x \<Rightarrow> Some x | None \<Rightarrow> tree_get i1 k)"
    "\<And>x. x \<in> set orphaned \<longleftrightarrow> (\<exists>k. rb_height b < k \<and> tree_get (cs_height_index s) k = Some x) \<or>
        (\<exists>e \<in> set es. displaced_at i1 e = Some x)"
    "same_chain (set_best_tip (s\<lparr>cs_height_index := i2\<rparr>) (rb_hash H b)) s'"
proof -
  let ?i = "cs_height_index s"
  let ?old = "case get_latest_height s of Some h \<Rightarrow> h | None \<Rightarrow> 0"
  let ?range = "u64_range (rb_height b + 1) ?old"
  have range: "k \<in> set ?range \<longleftrightarrow> rb_height b < k \<and> k \<le> ?old" for k
    using assms(1) by (auto simp: word_le_nat_alt word_less_nat_alt unat_word_ariths)
  have bound: "tree_get ?i k \<noteq> None \<Longrightarrow> k \<le> ?old" for k
    using tree_get_imp_last [of ?i k] by (auto simp: get_latest_height_def)
  obtain i1 where t1: "foldl truncate_height (s, []) ?range =
      (s\<lparr>cs_height_index := i1\<rparr>, List.map_filter (tree_get ?i) ?range)"
    and i1: "\<And>k. tree_get i1 k = (if k \<in> set ?range then None else tree_get ?i k)"
    using truncate_fold [of ?range ?i s "[]"] by auto
  obtain i2 where t2: "foldl reassign_height (s\<lparr>cs_height_index := i1\<rparr>, List.map_filter (tree_get ?i) ?range) es =
      (s\<lparr>cs_height_index := i2\<rparr>, List.map_filter (tree_get ?i) ?range @ List.map_filter (displaced_at i1) es)"
    and i2: "\<And>k. tree_get i2 k = (case map_of es k of Some x \<Rightarrow> Some x | None \<Rightarrow> tree_get i1 k)"
    using reassign_fold [OF assms(2), of i1 s "List.map_filter (tree_get ?i) ?range"] by auto
  let ?orph = "List.map_filter (tree_get ?i) ?range @ List.map_filter (displaced_at i1) es"
  let ?s3 = "set_best_tip (s\<lparr>cs_height_index := i2\<rparr>) (rb_hash H b)"
  have res: "orphaned = ?orph" "s' = clear_skips_from_fork (foldl (displace_block H) ?s3 ?orph) ?orph"
    using assms(3) unfolding apply_reorg_def Let_def t1 t2 prod.case prod.inject
    by (metis (no_types))+
  have truncated: "x \<in> set (List.map_filter (tree_get ?i) ?range) \<longleftrightarrow>
      (\<exists>k. rb_height b < k \<and> tree_get ?i k = Some x)" for x
    unfolding map_filter_member image_iff using range bound by (metis option.distinct(1))
  have reassigned: "x \<in> set (List.map_filter (displaced_at i1) es) \<longleftrightarrow>
      (\<exists>e \<in> set es. displaced_at i1 e = Some x)" for x
    unfolding map_filter_member image_iff by metis
  show ?thesis
  proof (rule that [of i1 i2])
    show "tree_get i1 k = (if rb_height b < k then None else tree_get ?i k)" for k
      using i1 [of k] range [of k] bound [of k] by auto
    show "x \<in> set orphaned \<longleftrightarrow> (\<exists>k. rb_height b < k \<and> tree_get ?i k = Some x) \<or>
        (\<exists>e \<in> set es. displaced_at i1 e = Some x)" for x
      unfolding res(1) set_append Un_iff truncated reassigned ..
    show "same_chain ?s3 s'"
      unfolding res(2) by (rule same_chain_trans [OF same_chain_foldl clear_skips_chain])
        (rule displace_block_chain)
  qed (rule i2)
qed

lemma apply_reorg_index:
  assumes "unat (rb_height b) + 1 < 2 ^ 64" and "distinct (map fst es)" and "\<forall>e \<in> set es. fst e \<le> rb_height b"
    and "apply_reorg H s b es = (orphaned, s')"
  shows "cs_root_blocks s' = cs_root_blocks s" "cs_chain_weight_cache s' = cs_chain_weight_cache s"
    "cs_best_tip s' = Some (rb_hash H b)"
    "tree_get (cs_height_index s') k =
       (case map_of es k of Some x \<Rightarrow> Some x
        | None \<Rightarrow> if rb_height b < k then None else tree_get (cs_height_index s) k)"
    "x \<in> set orphaned \<longleftrightarrow>
       (\<exists>k. tree_get (cs_height_index s) k = Some x \<and> tree_get (cs_height_index s') k \<noteq> Some x)"
proof -
  from apply_reorg_shape [OF assms(1,2,4)] obtain i1 i2 where
    i1: "\<And>k. tree_get i1 k = (if rb_height b < k then None else tree_get (cs_height_index s) k)" and
    i2: "\<And>k. tree_get i2 k = (case map_of es k of Some x \<Rightarrow> Some x | None \<Rightarrow> tree_get i1 k)" and
    orph: "\<And>x. x \<in> set orphaned \<longleftrightarrow> (\<exists>k. rb_height b < k \<and> tree_get (cs_height_index s) k = Some x) \<or>
        (\<exists>e \<in> set es. displaced_at i1 e = Some x)" and
    same: "same_chain (set_best_tip (s\<lparr>cs_height_index := i2\<rparr>) (rb_hash H b)) s'"
    by blast
  have idx: "cs_height_index s' = i2" using same by (simp add: same_chain_def set_best_tip_def)
  show "cs_root_blocks s' = cs_root_blocks s" "cs_chain_weight_cache s' = cs_chain_weight_cache s"
    "cs_best_tip s' = Some (rb_hash H b)"
    using same by (simp_all add: same_chain_def set_best_tip_def)
  show "tree_get (cs_height_index s') k =
       (case map_of es k of Some x \<Rightarrow> Some x
        | None \<Rightarrow> if rb_height b < k then None else tree_get (cs_height_index s) k)" for k
    by (simp add: idx i2 i1 cong: option.case_cong)
  have above: "map_of es k = None" if "rb_height b < k" for k
    using assms(3) that by (auto simp: map_of_eq_None_iff)
  have entry: "(\<exists>e \<in> set es. displaced_at i1 e = Some x) \<longleftrightarrow>
      (\<exists>k y. map_of es k = Some y \<and> y \<noteq> x \<and> tree_get i1 k = Some x)"
    using map_of_eq_Some_iff [OF assms(2)]
    by (force simp: displaced_at_def split: option.splits if_splits)
  show "x \<in> set orphaned \<longleftrightarrow>
       (\<exists>k. tree_get (cs_height_index s) k = Some x \<and> tree_get (cs_height_index s') k \<noteq> Some x)"
    unfolding orph entry idx i2 i1 using above by (auto split: option.splits if_splits)
qed

subsection \<open>Making a block canonical\<close>

lemma canonical_suffix_indexed:
  assumes lk: "linked_store H (get_root_block s)" and can: "canon_ok H s"
    and stored: "get_root_block s (rb_hash H b) = Some b"
    and anc: "ancestry (get_root_block s) b (front @ rest)" and y: "y \<in> set rest"
    and top: "get_root_hash_at_height s (rb_height (hd rest)) = Some (rb_hash H (hd rest))"
  shows "tree_get (cs_height_index s) (rb_height y) = Some (rb_hash H y)"
proof -
  obtain x r where xr: "rest = x # r" using y by (cases rest) auto
  have x_stored: "get_root_block s (rb_hash H x) = Some x"
    using ancestry_stored [OF anc lk stored] by (simp add: xr)
  have "get_root_hash_at_height s (rb_height x) = Some (rb_hash H x)" using top xr by simp
  from canonical_block [OF lk can x_stored this] obtain t c pre r' where
    t: "get_root_block s t = Some c" and c: "ancestry (get_root_block s) c (pre @ x # r')"
    and old: "tree_get (cs_height_index s) = height_map H (pre @ x # r')" by metis
  have "ancestry (get_root_block s) x (x # r)" using anc xr ancestry_suffix by metis
  then have "x # r' = x # r" using ancestry_unique [OF ancestry_suffix [OF c]] by blast
  then have "y \<in> set (pre @ x # r')" using y xr by auto
  moreover have "get_root_block s (rb_hash H c) = Some c" using t linkedD(1) [OF lk t] by simp
  ultimately show ?thesis using height_map_Some [OF lk _ c] old by auto
qed

lemma make_canonical_complete:
  assumes lk: "linked_store H (get_root_block s)" and can: "canon_ok H s"
    and stored: "get_root_block s (rb_hash H b) = Some b" and anc: "ancestry (get_root_block s) b bs"
  shows "\<exists>orphaned s'. make_canonical H s b = Some (Some orphaned, s') \<and>
    cs_root_blocks s' = cs_root_blocks s \<and> cs_chain_weight_cache s' = cs_chain_weight_cache s \<and>
    cs_best_tip s' = Some (rb_hash H b) \<and> tree_get (cs_height_index s') = height_map H bs \<and>
    (\<forall>x. x \<in> set orphaned \<longleftrightarrow>
      (\<exists>k. tree_get (cs_height_index s) k = Some x \<and> height_map H bs k \<noteq> Some x))"
proof -
  obtain front rest where bs: "bs = front @ rest"
    and coll: "collect_new_chain H s b [] = Some (Some (map (height_entry H) front))"
    and rest: "rest = [] \<or> get_root_hash_at_height s (rb_height (hd rest)) = Some (rb_hash H (hd rest))"
    using collect_complete [OF lk can anc, of "[]"] by auto
  let ?es = "map (height_entry H) front"
  obtain orphaned s' where reorg: "apply_reorg H s b ?es = (orphaned, s')" by fastforce
  have fst_es: "map fst ?es = map rb_height front" by (simp add: comp_def)
  have dist: "distinct (map fst ?es)"
    unfolding fst_es using distinct_heights [OF lk stored anc] by (simp add: bs)
  have below: "\<forall>e \<in> set ?es. fst e \<le> rb_height b"
    using ancestry_height_iff [OF lk stored anc] by (auto simp: bs)
  note shape = apply_reorg_index [OF linkedD(2) [OF lk stored] dist below reorg]
  have in_front: "map_of ?es k = Some x \<longleftrightarrow> (\<exists>y \<in> set front. rb_height y = k \<and> rb_hash H y = x)" for k x
    using map_of_eq_Some_iff [OF dist] by auto
  have in_bs: "height_map H bs k = Some x \<longleftrightarrow> (\<exists>y \<in> set bs. rb_height y = k \<and> rb_hash H y = x)" for k x
    by (rule height_map_Some [OF lk stored anc])
  have idx: "tree_get (cs_height_index s') k = height_map H bs k" for k
  proof (cases "map_of ?es k")
    case (Some x)
    then have "height_map H bs k = Some x" unfolding in_front in_bs by (auto simp: bs)
    with Some show ?thesis by (simp add: shape(4))
  next
    case None
    show ?thesis
    proof (cases "rb_height b < k")
      case True
      then have "height_map H bs k = None"
        using in_bs [of k] ancestry_height_iff [OF lk stored anc, of k] by (cases "height_map H bs k") auto
      with None True show ?thesis by (simp add: shape(4))
    next
      case False
      then obtain y where y: "y \<in> set bs" "rb_height y = k"
        using ancestry_height_iff [OF lk stored anc, of k] by auto
      moreover have "y \<notin> set front" using None in_front [of k "rb_hash H y"] y(2) by auto
      ultimately have y_rest: "y \<in> set rest" by (simp add: bs)
      then have "tree_get (cs_height_index s) k = Some (rb_hash H y)"
        using canonical_suffix_indexed [OF lk can stored, of front rest y] anc rest y(2) by (auto simp: bs)
      moreover have "height_map H bs k = Some (rb_hash H y)" using in_bs y by auto
      ultimately show ?thesis using None False by (simp add: shape(4))
    qed
  qed
  have mc: "make_canonical H s b = Some (Some orphaned, s')"
    by (simp add: make_canonical_def coll reorg)
  show ?thesis
    using shape(1-3,5) by (intro exI [of _ orphaned] exI [of _ s']) (auto simp: mc idx)
qed

lemma make_canonical_incomplete:
  assumes "linked_store H (get_root_block s)" and "canon_ok H s"
    and "get_root_block s (rb_hash H b) = Some b" and "\<nexists>bs. ancestry (get_root_block s) b bs"
  shows "make_canonical H s b = Some (None, s)"
  using collect_incomplete [OF assms] by (simp add: make_canonical_def)

subsection \<open>The invariant of the store\<close>

definition chain_inv :: "(bytes \<Rightarrow> hash32) \<Rightarrow> chain_store \<Rightarrow> bool" where
  "chain_inv H s \<longleftrightarrow> linked_store H (get_root_block s) \<and> cache_ok s \<and> canon_ok H s"

text \<open>A block may be put when the store stays linked and no other block is stored under its hash.\<close>

definition admissible :: "(bytes \<Rightarrow> hash32) \<Rightarrow> chain_store \<Rightarrow> root_block \<Rightarrow> bool" where
  "admissible H s b \<longleftrightarrow>
     linked_store H ((get_root_block s)(rb_hash H b \<mapsto> b)) \<and>
     get_root_block s (rb_hash H b) \<in> {None, Some b}"

lemma ancestry_mono: "ancestry R b bs \<Longrightarrow> R \<subseteq>\<^sub>m R' \<Longrightarrow> ancestry R' b bs"
proof (induction rule: ancestry.induct)
  case (ancestry_step b p bs)
  then have "R' (rb_prev_root_hash b) = Some p" by (auto simp: map_le_def dom_def)
  with ancestry_step show ?case by (auto intro: ancestry.ancestry_step)
qed (rule ancestry.ancestry_root)

lemma put_root_block_inv:
  assumes "chain_inv H s" and "admissible H s b" and "put_root_block H s b = (h, s')"
  shows "h = rb_hash H b" "get_root_block s' = (get_root_block s)(rb_hash H b \<mapsto> b)"
    "chain_inv H s'" "cs_best_tip s' = cs_best_tip s" "cs_height_index s' = cs_height_index s"
    "get_root_block s \<subseteq>\<^sub>m get_root_block s'"
proof -
  show h: "h = rb_hash H b" and get: "get_root_block s' = (get_root_block s)(rb_hash H b \<mapsto> b)"
    and tip: "cs_best_tip s' = cs_best_tip s" and idx: "cs_height_index s' = cs_height_index s"
    using assms(3) by (auto simp: put_root_block_def Let_def get_root_block_def fun_eq_iff)
  have cache: "cs_chain_weight_cache s' = cs_chain_weight_cache s"
    using assms(3) by (auto simp: put_root_block_def Let_def)
  show le: "get_root_block s \<subseteq>\<^sub>m get_root_block s'"
    using assms(2) by (auto simp: get map_le_def admissible_def)
  have keep: "get_root_block s' k = Some c" if "get_root_block s k = Some c" for k c
    using le that by (auto simp: map_le_def dom_def)
  have "cache_ok s'"
    using assms(1) keep ancestry_mono [OF _ le] unfolding chain_inv_def cache_ok_def cache by blast
  moreover have "canon_ok H s'"
    using assms(1) keep ancestry_mono [OF _ le] unfolding chain_inv_def canon_ok_def tip idx
    by (auto split: option.splits) blast
  ultimately show "chain_inv H s'"
    using assms(2) by (simp add: chain_inv_def get admissible_def)
qed

text \<open>The weight of a stored tip.\<close>

definition tip_weight :: "chain_store \<Rightarrow> hash32 \<Rightarrow> u64 \<Rightarrow> bool" where
  "tip_weight s t w \<longleftrightarrow>
     (\<exists>b bs. get_root_block s t = Some b \<and> ancestry (get_root_block s) b bs \<and> real_weight bs = w)"

lemma chain_inv_cache:
  "chain_inv H s \<Longrightarrow> cache_ok (s\<lparr>cs_chain_weight_cache := c\<rparr>) \<Longrightarrow> chain_inv H (s\<lparr>cs_chain_weight_cache := c\<rparr>)"
  by (cases "cs_best_tip s") (simp_all add: chain_inv_def canon_ok_def)

lemma chain_weight_known:
  assumes "linked_store H (get_root_block s)" and "cache_ok s"
    and "get_root_block s (rb_hash H b) = Some b" and "ancestry (get_root_block s) b bs"
  shows "\<exists>c. chain_weight H s b = Some (Some (real_weight bs), s\<lparr>cs_chain_weight_cache := c\<rparr>) \<and>
    cache_ok (s\<lparr>cs_chain_weight_cache := c\<rparr>)"
  using chain_weight_correct [OF assms(1-3)] assms(4) by metis

text \<open>A block that directly extends the tip is at least as heavy, whatever work it carries.\<close>

lemma extension_grows:
  assumes lk: "linked_store H (get_root_block s)" and stored: "get_root_block s (rb_hash H b) = Some b"
    and tip: "get_root_block s (rb_hash H tip) = Some tip" "ancestry (get_root_block s) tip tbs"
    and ext: "rb_height b = sat_add (rb_height tip) 1" "rb_prev_root_hash b = rb_hash H tip"
    and anc: "ancestry (get_root_block s) b bs"
  shows "real_weight tbs \<le> real_weight bs"
  using anc
proof cases
  case ancestry_root
  then have "unat (sat_add (rb_height tip) 1) = 0" using linkedD(3) [OF lk stored] ext by simp
  then show ?thesis by (simp add: unat_sat_add)
next
  case (ancestry_step p ps)
  then have "ps = tbs" using ext tip ancestry_unique by auto
  then show ?thesis using ancestry_step unat_u64_less [of "real_weight tbs"]
    by (simp add: word_le_nat_alt unat_sat_add)
qed

lemma is_heavier_correct:
  assumes inv: "chain_inv H s" and stored: "get_root_block s (rb_hash H b) = Some b"
  shows "\<exists>v c. is_heavier_than_best_tip H s b = Some (v, s\<lparr>cs_chain_weight_cache := c\<rparr>) \<and>
    chain_inv H (s\<lparr>cs_chain_weight_cache := c\<rparr>) \<and>
    (v \<longrightarrow> (\<forall>t w bs. cs_best_tip s = Some t \<longrightarrow> tip_weight s t w \<longrightarrow> ancestry (get_root_block s) b bs \<longrightarrow>
       w \<le> real_weight bs)) \<and>
    (\<forall>bs. ancestry (get_root_block s) b bs \<longrightarrow>
       (\<forall>t w. cs_best_tip s = Some t \<longrightarrow> tip_weight s t w \<longrightarrow> w < real_weight bs) \<longrightarrow> v)"
proof (cases "cs_best_tip s")
  case None
  have "s\<lparr>cs_chain_weight_cache := cs_chain_weight_cache s\<rparr> = s" by simp
  with None inv show ?thesis
    by (intro exI [of _ True] exI [of _ "cs_chain_weight_cache s"])
      (simp add: is_heavier_than_best_tip_def get_best_tip_block_def)
next
  case (Some t)
  then obtain tip tbs where tip: "get_root_block s t = Some tip" "ancestry (get_root_block s) tip tbs"
    using inv by (auto simp: chain_inv_def canon_ok_def)
  have lk: "linked_store H (get_root_block s)" using inv by (simp add: chain_inv_def)
  have hash: "rb_hash H tip = t" by (rule linkedD(1) [OF lk tip(1)])
  have tw: "w = real_weight tbs" if "tip_weight s t w" for w
    using that tip ancestry_unique by (auto simp: tip_weight_def)
  show ?thesis
  proof (cases "rb_height b = sat_add (rb_height tip) 1 \<and> rb_prev_root_hash b = rb_hash H tip")
    case True
    have grows: "real_weight tbs \<le> real_weight bs" if "ancestry (get_root_block s) b bs" for bs
      using extension_grows [OF lk stored _ tip(2) _ _ that] True tip(1) hash by simp
    have "s\<lparr>cs_chain_weight_cache := cs_chain_weight_cache s\<rparr> = s" by simp
    with True Some tip inv tw grows show ?thesis
      by (intro exI [of _ True] exI [of _ "cs_chain_weight_cache s"])
        (auto simp: is_heavier_than_best_tip_def get_best_tip_block_def)
  next
    case False
    have ck: "cache_ok s" using inv by (simp add: chain_inv_def)
    from chain_weight_correct [OF lk ck stored] obtain r c where
      r: "chain_weight H s b = Some (r, s\<lparr>cs_chain_weight_cache := c\<rparr>)"
      "cache_ok (s\<lparr>cs_chain_weight_cache := c\<rparr>)"
      "\<forall>w. r = Some w \<longleftrightarrow> (\<exists>bs. ancestry (get_root_block s) b bs \<and> real_weight bs = w)" by blast
    have "get_root_block s (rb_hash H tip) = Some tip" using tip hash by simp
    with chain_weight_known [of H "s\<lparr>cs_chain_weight_cache := c\<rparr>" tip tbs] lk r(2) tip obtain c' where
      r': "chain_weight H (s\<lparr>cs_chain_weight_cache := c\<rparr>) tip = Some (Some (real_weight tbs), s\<lparr>cs_chain_weight_cache := c'\<rparr>)"
      "cache_ok (s\<lparr>cs_chain_weight_cache := c'\<rparr>)" by auto
    let ?v = "case r of Some w \<Rightarrow> w > real_weight tbs | None \<Rightarrow> False"
    have "is_heavier_than_best_tip H s b = Some (?v, s\<lparr>cs_chain_weight_cache := c'\<rparr>)"
      using Some tip(1) False r(1) r'(1)
      by (cases r) (auto simp: is_heavier_than_best_tip_def get_best_tip_block_def)
    moreover have "w \<le> real_weight bs" if "?v" "tip_weight s t w" "ancestry (get_root_block s) b bs" for w bs
    proof -
      have "r = Some (real_weight bs)" using r(3) that(3) by blast
      then show ?thesis using that(1) tw [OF that(2)] by simp
    qed
    moreover have "?v" if "ancestry (get_root_block s) b bs"
      "\<forall>t w. cs_best_tip s = Some t \<longrightarrow> tip_weight s t w \<longrightarrow> w < real_weight bs" for bs
    proof -
      have "r = Some (real_weight bs)" using r(3) that(1) by blast
      moreover have "tip_weight s t (real_weight tbs)" using tip by (auto simp: tip_weight_def)
      ultimately show ?thesis using that(2) Some by simp
    qed
    ultimately show ?thesis
      using Some chain_inv_cache [OF inv r'(2)] by (intro exI [of _ ?v] exI [of _ c']) auto
  qed
qed

subsection \<open>Putting a block\<close>

lemma chain_inv_canonical:
  assumes "chain_inv H s" and "get_root_block s (rb_hash H b) = Some b" and "ancestry (get_root_block s) b bs"
    and "cs_root_blocks s' = cs_root_blocks s" "cs_chain_weight_cache s' = cs_chain_weight_cache s"
    "cs_best_tip s' = Some (rb_hash H b)" "tree_get (cs_height_index s') = height_map H bs"
  shows "chain_inv H s'"
proof -
  have "get_root_block s' = get_root_block s" using assms(4) by (simp add: get_root_block_def fun_eq_iff)
  with assms show ?thesis by (auto simp: chain_inv_def cache_ok_def canon_ok_def)
qed

lemma tip_weight_frame:
  "get_root_block s' = get_root_block s \<Longrightarrow> tip_weight s' t w \<longleftrightarrow> tip_weight s t w"
  by (simp add: tip_weight_def)

lemma tip_weight_unique: "tip_weight s t w \<Longrightarrow> tip_weight s t w' \<Longrightarrow> w = w'"
  unfolding tip_weight_def using ancestry_unique by (metis option.inject)

text \<open>What a put promises: the block is stored, the invariant holds, the index and the tip change
  only when the block is adopted, what left the index is reported, the weight of the tip never
  falls, and a block whose stored ancestry is heavier than the tip is adopted.\<close>

definition put_outcome ::
  "(bytes \<Rightarrow> hash32) \<Rightarrow> chain_store \<Rightarrow> root_block \<Rightarrow> bool \<Rightarrow> hash32 list \<Rightarrow> chain_store \<Rightarrow> bool" where
  "put_outcome H s b new_tip displaced s' \<longleftrightarrow>
     chain_inv H s' \<and> get_root_block s' = (get_root_block s)(rb_hash H b \<mapsto> b) \<and>
     (if new_tip then cs_best_tip s' = Some (rb_hash H b) \<and>
        (\<forall>x. x \<in> set displaced \<longleftrightarrow>
          (\<exists>k. get_root_hash_at_height s k = Some x \<and> get_root_hash_at_height s' k \<noteq> Some x))
      else displaced = [] \<and> cs_best_tip s' = cs_best_tip s \<and> cs_height_index s' = cs_height_index s) \<and>
     (\<forall>t w. cs_best_tip s = Some t \<and> tip_weight s t w \<longrightarrow>
        (\<exists>t' w'. cs_best_tip s' = Some t' \<and> tip_weight s' t' w' \<and> w \<le> w')) \<and>
     (\<forall>bs. ancestry (get_root_block s') b bs \<and>
        (\<forall>t w. cs_best_tip s = Some t \<and> tip_weight s t w \<longrightarrow> w < real_weight bs) \<longrightarrow> new_tip)"

lemma put_weight_kept:
  assumes "chain_inv H s" and "admissible H s b" and "put_root_block H s b = (h, s0)" and "tip_weight s t w"
  shows "tip_weight s0 t w"
  using assms(4) put_root_block_inv(6) [OF assms(1-3)] ancestry_mono unfolding tip_weight_def
  by (metis (no_types, lifting) domI map_le_def)

lemma put_outcome_stays:
  assumes inv: "chain_inv H s" and adm: "admissible H s b" and put: "put_root_block H s b = (h, s0)"
    and inv1: "chain_inv H (s0\<lparr>cs_chain_weight_cache := c\<rparr>)"
    and light: "\<And>bs. ancestry (get_root_block s0) b bs \<Longrightarrow>
      \<exists>t w. cs_best_tip s0 = Some t \<and> tip_weight s0 t w \<and> \<not> w < real_weight bs"
  shows "put_outcome H s b False [] (s0\<lparr>cs_chain_weight_cache := c\<rparr>)"
proof -
  note p = put_root_block_inv [OF inv adm put]
  have "tip_weight (s0\<lparr>cs_chain_weight_cache := c\<rparr>) t w" if "tip_weight s t w" for t w
    using put_weight_kept [OF inv adm put that] tip_weight_frame [of "s0\<lparr>cs_chain_weight_cache := c\<rparr>" s0] by simp
  moreover have "\<exists>t w. cs_best_tip s = Some t \<and> tip_weight s t w \<and> \<not> w < real_weight bs"
    if anc: "ancestry (get_root_block s0) b bs" for bs
  proof -
    from light [OF anc] obtain t w where t: "cs_best_tip s = Some t" "tip_weight s0 t w" "\<not> w < real_weight bs"
      by (auto simp: p(4))
    obtain w' where "tip_weight s t w'" using inv t(1) by (auto simp: chain_inv_def canon_ok_def tip_weight_def)
    moreover from put_weight_kept [OF inv adm put this] have "w' = w" by (rule tip_weight_unique [OF _ t(2)])
    ultimately show ?thesis using t by blast
  qed
  ultimately show ?thesis using inv1 p(2,4,5) unfolding put_outcome_def by auto
qed

lemma put_outcome_adopts:
  assumes inv: "chain_inv H s" and adm: "admissible H s b" and put: "put_root_block H s b = (h, s0)"
    and inv1: "chain_inv H (s0\<lparr>cs_chain_weight_cache := c\<rparr>)" and anc: "ancestry (get_root_block s0) b bs"
    and heavier: "\<And>t w. cs_best_tip s0 = Some t \<Longrightarrow> tip_weight s0 t w \<Longrightarrow> w \<le> real_weight bs"
  shows "\<exists>orphaned s'. make_canonical H (s0\<lparr>cs_chain_weight_cache := c\<rparr>) b = Some (Some orphaned, s') \<and>
    put_outcome H s b True orphaned s'"
proof -
  note p = put_root_block_inv [OF inv adm put]
  let ?s1 = "s0\<lparr>cs_chain_weight_cache := c\<rparr>"
  have stored: "get_root_block ?s1 (rb_hash H b) = Some b" and anc1: "ancestry (get_root_block ?s1) b bs"
    using anc by (simp_all add: p(2))
  have lk: "linked_store H (get_root_block ?s1)" "canon_ok H ?s1" using inv1 by (simp_all only: chain_inv_def)
  from make_canonical_complete [OF lk stored anc1]
  obtain orphaned s' where mc: "make_canonical H ?s1 b = Some (Some orphaned, s')"
    and m: "cs_root_blocks s' = cs_root_blocks ?s1" "cs_chain_weight_cache s' = cs_chain_weight_cache ?s1"
      "cs_best_tip s' = Some (rb_hash H b)" "tree_get (cs_height_index s') = height_map H bs"
    and orph: "\<forall>x. x \<in> set orphaned \<longleftrightarrow>
      (\<exists>k. tree_get (cs_height_index ?s1) k = Some x \<and> height_map H bs k \<noteq> Some x)"
    by blast
  have get: "get_root_block s' = get_root_block s0" using m(1) by (simp add: get_root_block_def fun_eq_iff)
  have "chain_inv H s'" by (rule chain_inv_canonical [OF inv1 stored anc1 m])
  moreover have "tip_weight s' (rb_hash H b) (real_weight bs)"
    using stored anc by (auto simp: tip_weight_def get)
  moreover have "w \<le> real_weight bs" if "cs_best_tip s = Some t" "tip_weight s t w" for t w
    using heavier put_weight_kept [OF inv adm put that(2)] that(1) p(4) by simp
  ultimately have "put_outcome H s b True orphaned s'"
    unfolding put_outcome_def using p(2,5) m(3,4) orph get by (auto simp: get_root_hash_at_height_def)
  with mc show ?thesis by blast
qed

lemma put_with_fork_resolution:
  assumes inv: "chain_inv H s" and adm: "admissible H s b"
  shows "\<exists>new_tip displaced s'.
    put_root_block_with_fork_resolution_reporting H s b = Some ((rb_hash H b, new_tip, displaced), s') \<and>
    put_outcome H s b new_tip displaced s'"
proof -
  obtain h s0 where put: "put_root_block H s b = (h, s0)" by fastforce
  note p = put_root_block_inv [OF inv adm put]
  have stored: "get_root_block s0 (rb_hash H b) = Some b" by (simp add: p(2))
  obtain v c where hv: "is_heavier_than_best_tip H s0 b = Some (v, s0\<lparr>cs_chain_weight_cache := c\<rparr>)"
    and inv1: "chain_inv H (s0\<lparr>cs_chain_weight_cache := c\<rparr>)"
    and wv: "v \<longrightarrow> (\<forall>t w bs. cs_best_tip s0 = Some t \<longrightarrow> tip_weight s0 t w \<longrightarrow>
       ancestry (get_root_block s0) b bs \<longrightarrow> w \<le> real_weight bs)"
    and vw: "\<forall>bs. ancestry (get_root_block s0) b bs \<longrightarrow>
       (\<forall>t w. cs_best_tip s0 = Some t \<longrightarrow> tip_weight s0 t w \<longrightarrow> w < real_weight bs) \<longrightarrow> v"
    using is_heavier_correct [OF p(3) stored] by blast
  let ?s1 = "s0\<lparr>cs_chain_weight_cache := c\<rparr>"
  show ?thesis
  proof (cases "v \<and> (\<exists>bs. ancestry (get_root_block s0) b bs)")
    case False
    have "make_canonical H ?s1 b = Some (None, ?s1)" if v
      using that False inv1 stored make_canonical_incomplete [of H ?s1 b] by (simp add: chain_inv_def)
    then have "put_root_block_with_fork_resolution_reporting H s b = Some ((rb_hash H b, False, []), ?s1)"
      using hv p(1) by (cases v) (simp_all add: put_root_block_with_fork_resolution_reporting_def put)
    moreover have "put_outcome H s b False [] ?s1"
      by (rule put_outcome_stays [OF inv adm put inv1]) (use False vw in blast)
    ultimately show ?thesis by blast
  next
    case True
    with put_outcome_adopts [OF inv adm put inv1] wv obtain orphaned s' where
      "make_canonical H ?s1 b = Some (Some orphaned, s')" "put_outcome H s b True orphaned s'" by blast
    moreover from this have
      "put_root_block_with_fork_resolution_reporting H s b = Some ((rb_hash H b, True, orphaned), s')"
      using True hv p(1) by (simp add: put_root_block_with_fork_resolution_reporting_def put)
    ultimately show ?thesis by blast
  qed
qed

subsection \<open>The empty store\<close>

lemma chain_inv_empty: "chain_inv H empty_store"
  by (simp add: chain_inv_def linked_store_def cache_ok_def canon_ok_def empty_store_def get_root_block_def
      fun_eq_iff)

subsection \<open>Marks of displaced blocks\<close>

lemma unmark_action_at_marks:
  "tree_get (cs_finalized_actions (snd (unmark_action_at H h st a))) k =
     (if k = action_hash H a \<and> tree_get (cs_finalized_actions (snd st)) k = Some h then None
      else tree_get (cs_finalized_actions (snd st)) k)"
  by (cases st) (auto simp: unmark_action_at_def is_action_finalized_def unmark_action_finalized_def Let_def
      split: option.splits)

lemma unmark_fold_marks:
  "tree_get (cs_finalized_actions (snd (foldl (unmark_action_at H h) st as))) k =
     (if k \<in> action_hash H ` set as \<and> tree_get (cs_finalized_actions (snd st)) k = Some h then None
      else tree_get (cs_finalized_actions (snd st)) k)"
  by (induction as arbitrary: st) (auto simp: unmark_action_at_marks)

lemma stored_actions_frame: "same_chain s s' \<Longrightarrow> stored_actions_of_root s' r = stored_actions_of_root s r"
proof -
  assume "same_chain s s'"
  then have "get_space_block s' = get_space_block s" "get_content_block s' = get_content_block s"
    by (auto simp: same_chain_def get_space_block_def get_content_block_def fun_eq_iff)
  then show ?thesis by (simp add: stored_actions_of_root_def stored_content_of_root_def)
qed

text \<open>What \<open>displace_block\<close> does to the marks: those of the block's actions at its height go, no mark
  changes otherwise, and the applied flag of the block goes.\<close>

lemma displace_block_marks:
  "tree_get (cs_finalized_actions (displace_block H s h)) k =
     (case get_root_block s h of
        Some r \<Rightarrow> if k \<in> action_hash H ` set (stored_actions_of_root s r) \<and>
                    tree_get (cs_finalized_actions s) k = Some (rb_height r) then None
                  else tree_get (cs_finalized_actions s) k
      | None \<Rightarrow> tree_get (cs_finalized_actions s) k)"
  "tree_get (cs_applied_side_effects (displace_block H s h)) k =
     (if k = h then None else tree_get (cs_applied_side_effects s) k)"
proof -
  have "cs_applied_side_effects (snd (foldl (unmark_action_at H n) st as)) = cs_applied_side_effects (snd st)" for n st as
  proof (induction as arbitrary: st)
    case (Cons a as)
    show ?case
      by (simp add: Cons.IH) (cases st, auto simp: unmark_action_at_def unmark_action_finalized_def Let_def
          split: option.splits)
  qed simp
  then show "tree_get (cs_applied_side_effects (displace_block H s h)) k =
     (if k = h then None else tree_get (cs_applied_side_effects s) k)"
    by (simp add: displace_block_def clear_side_effects_applied_def unmark_actions_for_root_def split: option.split)
qed (simp add: displace_block_def clear_side_effects_applied_def unmark_actions_for_root_def unmark_fold_marks
      split: option.split)

lemma displace_fold_marks:
  "tree_get (cs_finalized_actions (foldl (displace_block H) s os)) k = Some n \<Longrightarrow>
     tree_get (cs_finalized_actions s) k = Some n \<and>
     (\<forall>h \<in> set os. \<forall>r. get_root_block s h = Some r \<longrightarrow> rb_height r = n \<longrightarrow>
        k \<notin> action_hash H ` set (stored_actions_of_root s r))"
  "tree_get (cs_applied_side_effects (foldl (displace_block H) s os)) k =
     (if k \<in> set os then None else tree_get (cs_applied_side_effects s) k)"
proof (induction os arbitrary: s)
  case (Cons h os)
  {
    case 1
    have same: "get_root_block (displace_block H s h) = get_root_block s"
      "stored_actions_of_root (displace_block H s h) = stored_actions_of_root s"
      using displace_block_chain [of s H h] stored_actions_frame [OF displace_block_chain]
      by (auto simp: same_chain_def get_root_block_def fun_eq_iff)
    show ?case
      using Cons.IH(1) [of "displace_block H s h"] 1 unfolding same displace_block_marks
      by (auto split: option.splits if_splits)
  next
    case 2
    show ?case using Cons.IH(2) [of "displace_block H s h"] by (auto simp: displace_block_marks)
  }
qed auto

lemma skip_marks_left:
  assumes "tree_get (cs_skipped_content_blocks (clear_content_skips_at_or_above s height)) k = Some v"
  shows "tree_get (cs_skipped_content_blocks s) k = Some v \<and> skip_claim v < height"
proof -
  let ?t = "cs_skipped_content_blocks s"
  let ?ks = "map fst (filter (\<lambda>(k, v). skip_claim v \<ge> height) ?t)"
  have "k \<notin> set ?ks" and get: "tree_get ?t k = Some v"
    using assms tree.get_remove_all [of ?t ?ks k]
    by (auto simp: clear_content_skips_at_or_above_def split: if_splits)
  moreover have "(k, v) \<in> set ?t" using get by (simp add: tree_get_def map_of_SomeD)
  ultimately show ?thesis by force
qed

lemma skip_marks_after_fork:
  assumes "tree_get (cs_skipped_content_blocks (clear_skips_from_fork s os)) k = Some v"
    and "h \<in> set os" and "get_root_block s h = Some r"
  shows "skip_claim v < rb_height r"
proof -
  let ?hs = "map rb_height (List.map_filter (get_root_block s) os)"
  have "Some r \<in> get_root_block s ` set os" using assms(2,3) by (metis imageI)
  then have mem: "rb_height r \<in> set ?hs"
    by (auto simp: map_filter_member)
  then obtain x xs where hs: "?hs = x # xs" by (cases ?hs) auto
  have "clear_skips_from_fork s os = clear_content_skips_at_or_above s (min_list ?hs)"
    unfolding clear_skips_from_fork_def hs by simp
  then have "skip_claim v < min_list ?hs"
    using skip_marks_left [of s "min_list ?hs" k v] assms(1) by simp
  also have "min_list ?hs \<le> rb_height r"
    using mem hs by (subst min_list_Min) auto
  finally show ?thesis .
qed

lemma truncate_fold_frame: "\<exists>i. fst (foldl truncate_height (s, os) hs) = s\<lparr>cs_height_index := i\<rparr>"
proof (induction hs arbitrary: s os)
  case Nil
  show ?case by (intro exI [of _ "cs_height_index s"]) simp
next
  case (Cons h hs)
  show ?case
    using Cons.IH [of s os] Cons.IH [of "remove_height_index s h"]
    by (auto simp: truncate_height_def remove_height_index_def split: option.splits)
qed

lemma reassign_fold_frame: "\<exists>i. fst (foldl reassign_height (s, os) es) = s\<lparr>cs_height_index := i\<rparr>"
proof (induction es arbitrary: s os)
  case Nil
  show ?case by (intro exI [of _ "cs_height_index s"]) simp
next
  case (Cons e es)
  show ?case
    using Cons.IH [of "index_height s (fst e) (snd e)"]
    by (cases e) (auto simp: reassign_height_def index_height_def)
qed

lemma apply_reorg_phases:
  assumes "apply_reorg H s b es = (orphaned, s')"
  obtains i where "s' = clear_skips_from_fork
    (foldl (displace_block H) (s\<lparr>cs_height_index := i, cs_best_tip := Some (rb_hash H b)\<rparr>) orphaned) orphaned"
proof -
  let ?hs = "u64_range (rb_height b + 1) (case get_latest_height s of Some h \<Rightarrow> h | None \<Rightarrow> 0)"
  obtain i1 where "fst (foldl truncate_height (s, []) ?hs) = s\<lparr>cs_height_index := i1\<rparr>"
    using truncate_fold_frame by blast
  then obtain o1 where t: "foldl truncate_height (s, []) ?hs = (s\<lparr>cs_height_index := i1\<rparr>, o1)"
    by (cases "foldl truncate_height (s, []) ?hs") simp
  obtain i2 where "fst (foldl reassign_height (s\<lparr>cs_height_index := i1\<rparr>, o1) es) = (s\<lparr>cs_height_index := i1\<rparr>)\<lparr>cs_height_index := i2\<rparr>"
    using reassign_fold_frame by blast
  then obtain o2 where r: "foldl reassign_height (s\<lparr>cs_height_index := i1\<rparr>, o1) es = (s\<lparr>cs_height_index := i2\<rparr>, o2)"
    by (cases "foldl reassign_height (s\<lparr>cs_height_index := i1\<rparr>, o1) es") simp
  show ?thesis
    by (rule that [of i2]) (use assms in \<open>auto simp: apply_reorg_def t r set_best_tip_def Let_def\<close>)
qed

subsection \<open>A concrete store\<close>

text \<open>A digest that reads the timestamp of a root block, three blocks (a genesis block and two
  competing children, the second lighter but claiming more) and the store that holds them.\<close>

definition ts_digest :: "bytes \<Rightarrow> hash32" where
  "ts_digest x = replicate 24 0 @ byte_slice x 33 8"

definition child_block :: "u64 \<Rightarrow> u64 \<Rightarrow> u64 \<Rightarrow> root_block" where
  "child_block ts work claim =
     (genesis ts)\<lparr>rb_prev_root_hash := replicate 24 0 @ u64_be 1, rb_height := 1,
       rb_total_pow := work, rb_cumulative_pow := claim\<rparr>"

definition fork_store :: chain_store where
  "fork_store = empty_store\<lparr>
     cs_root_blocks := [(replicate 24 0 @ u64_be 1, genesis 1),
       (replicate 24 0 @ u64_be 2, child_block 2 100 0), (replicate 24 0 @ u64_be 3, child_block 3 1 999)],
     cs_height_index := [(0, replicate 24 0 @ u64_be 1), (1, replicate 24 0 @ u64_be 2)],
     cs_best_tip := Some (replicate 24 0 @ u64_be 2)\<rparr>"

lemma rb_hash_ts: "length (rb_prev_root_hash b) = 32 \<Longrightarrow> rb_hash ts_digest b = replicate 24 0 @ u64_be (rb_timestamp b)"
  by (simp add: rb_hash_def ts_digest_def rb_preimage_def)

lemma ts_hash [simp]:
  "rb_hash ts_digest (genesis ts) = replicate 24 0 @ u64_be ts"
  "rb_hash ts_digest (child_block ts w c) = replicate 24 0 @ u64_be ts"
  by (simp_all add: rb_hash_ts child_block_def genesis_def)

lemma zero32_ts: "replicate 24 0 @ u64_be t = zero32 \<longleftrightarrow> t = 0"
proof -
  have "be_bytes n 0 = replicate n 0" for n by (induction n) simp_all
  then have "zero32 = replicate 24 0 @ u64_be 0"
    by (simp add: zero32_def u64_be_def flip: replicate_add)
  then show ?thesis by (metis same_append_eq u64_be_inject)
qed

lemma fork_store_get:
  "get_root_block fork_store h =
     (if h = replicate 24 0 @ u64_be 1 then Some (genesis 1)
      else if h = replicate 24 0 @ u64_be 2 then Some (child_block 2 100 0)
      else if h = replicate 24 0 @ u64_be 3 then Some (child_block 3 1 999) else None)"
  by (simp add: get_root_block_def fork_store_def tree_get_def)

lemma child_block_fields [simp]:
  "rb_prev_root_hash (child_block ts w c) = replicate 24 0 @ u64_be 1" "rb_height (child_block ts w c) = 1"
  "rb_total_pow (child_block ts w c) = w" "rb_cumulative_pow (child_block ts w c) = c"
  by (simp_all add: child_block_def)

lemma genesis_fields [simp]:
  "rb_prev_root_hash (genesis ts) = zero32" "rb_height (genesis ts) = 0" "rb_total_pow (genesis ts) = 0"
  by (simp_all add: genesis_def)

lemma child_ancestry: "ancestry (get_root_block fork_store) (child_block ts w c) [child_block ts w c, genesis 1]"
  by (rule ancestry_step [where p = "genesis 1"]) (simp_all add: fork_store_get zero32_ts ancestry_root)

lemma fork_store_inv: "chain_inv ts_digest fork_store"
proof -
  have "linked_store ts_digest (get_root_block fork_store)"
    unfolding linked_store_def fork_store_get by (auto simp: zero32_ts split: if_splits)
  moreover have "cache_ok fork_store"
    by (simp add: cache_ok_def fork_store_def empty_store_def)
  moreover have "tree_get (cs_height_index fork_store) = height_map ts_digest [child_block 2 100 0, genesis 1]"
    by (auto simp: fork_store_def tree_get_def height_map_def fun_eq_iff)
  then have "canon_ok ts_digest fork_store"
    using child_ancestry [of 2 100 0] fork_store_get [of "replicate 24 0 @ u64_be 2"]
    by (auto simp: canon_ok_def fork_store_def)
  ultimately show ?thesis by (simp add: chain_inv_def)
qed

lemma fork_store_stored:
  "get_root_block fork_store (rb_hash ts_digest (child_block 2 100 0)) = Some (child_block 2 100 0)"
  "get_root_block fork_store (rb_hash ts_digest (child_block 3 1 999)) = Some (child_block 3 1 999)"
  by (simp_all add: fork_store_get)

subsection \<open>Properties\<close>

text \<open>
  C4. \<open>chain_weight\<close> returns on every stored block, and its memo is transparent: the weight is the
  sum of the work of the ancestry, saturated at \<open>2 ^ 64 - 1\<close>, when every ancestor is stored, and
  absent when one is missing; only the memo changes and it stays right.
\<close>

theorem chain_weight_memo_correct:
  assumes "linked_store H (get_root_block s)" and "cache_ok s"
    and "get_root_block s (rb_hash H b) = Some b"
  shows "\<exists>r c. chain_weight H s b = Some (r, s\<lparr>cs_chain_weight_cache := c\<rparr>) \<and>
    cache_ok (s\<lparr>cs_chain_weight_cache := c\<rparr>) \<and>
    (\<forall>w. r = Some w \<longleftrightarrow>
      (\<exists>bs. ancestry (get_root_block s) b bs \<and>
        unat w = min (\<Sum>x\<leftarrow>bs. unat (rb_total_pow x)) (2 ^ 64 - 1)))"
  using chain_weight_correct [OF assms] unfolding unat_real_weight [symmetric] word_unat_eq_iff [symmetric]
  by (metis (no_types))

theorem chain_weight_memo_correct_witness:
  "\<exists>w c. chain_weight ts_digest fork_store (child_block 2 100 0) = Some (Some w, fork_store\<lparr>cs_chain_weight_cache := c\<rparr>) \<and>
     unat w = 100"
proof -
  from fork_store_inv have "linked_store ts_digest (get_root_block fork_store)" "cache_ok fork_store"
    by (simp_all add: chain_inv_def)
  from chain_weight_memo_correct [OF this fork_store_stored(1)] obtain r c where
    r: "chain_weight ts_digest fork_store (child_block 2 100 0) = Some (r, fork_store\<lparr>cs_chain_weight_cache := c\<rparr>)"
    "\<forall>w. r = Some w \<longleftrightarrow> (\<exists>bs. ancestry (get_root_block fork_store) (child_block 2 100 0) bs \<and>
        unat w = min (\<Sum>x\<leftarrow>bs. unat (rb_total_pow x)) (2 ^ 64 - 1))" by blast
  have "r = Some 100" using r(2) child_ancestry [of 2 100 0] by force
  with r(1) show ?thesis by auto
qed

text \<open>
  C2. \<open>make_canonical\<close> returns on every stored block of a store that satisfies the invariant. When
  the whole ancestry is stored, afterwards the height index is exactly that ancestry, the block is
  the best tip, and the reported hashes are exactly those that left the index; otherwise it reports
  that and changes nothing.
\<close>

theorem make_canonical_correct:
  assumes "chain_inv H s" and "get_root_block s (rb_hash H b) = Some b"
  shows "(\<exists>bs orphaned s'. ancestry (get_root_block s) b bs \<and>
      make_canonical H s b = Some (Some orphaned, s') \<and>
      cs_root_blocks s' = cs_root_blocks s \<and> cs_best_tip s' = Some (rb_hash H b) \<and>
      (\<forall>k x. get_root_hash_at_height s' k = Some x \<longleftrightarrow> (\<exists>y \<in> set bs. rb_height y = k \<and> rb_hash H y = x)) \<and>
      (\<forall>x. x \<in> set orphaned \<longleftrightarrow>
        (\<exists>k. get_root_hash_at_height s k = Some x \<and> get_root_hash_at_height s' k \<noteq> Some x))) \<or>
    (\<not> (\<exists>bs. ancestry (get_root_block s) b bs) \<and> make_canonical H s b = Some (None, s))"
proof (cases "\<exists>bs. ancestry (get_root_block s) b bs")
  case True
  then obtain bs where anc: "ancestry (get_root_block s) b bs" by blast
  have lk: "linked_store H (get_root_block s)" "canon_ok H s" using assms(1) by (simp_all add: chain_inv_def)
  from make_canonical_complete [OF lk assms(2) anc] obtain orphaned s' where
    "make_canonical H s b = Some (Some orphaned, s')" "cs_root_blocks s' = cs_root_blocks s"
    "cs_best_tip s' = Some (rb_hash H b)" and idx: "tree_get (cs_height_index s') = height_map H bs"
    and "\<forall>x. x \<in> set orphaned \<longleftrightarrow>
      (\<exists>k. tree_get (cs_height_index s) k = Some x \<and> height_map H bs k \<noteq> Some x)" by blast
  moreover have "get_root_hash_at_height s' k = Some x \<longleftrightarrow> (\<exists>y \<in> set bs. rb_height y = k \<and> rb_hash H y = x)" for k x
    using height_map_Some [OF lk(1) assms(2) anc] by (simp add: get_root_hash_at_height_def idx)
  ultimately show ?thesis using anc
    by (intro disjI1 exI [of _ bs] exI [of _ orphaned] exI [of _ s'])
      (simp only: get_root_hash_at_height_def, simp)
next
  case False
  with assms make_canonical_incomplete show ?thesis by (auto simp: chain_inv_def)
qed

theorem make_canonical_correct_witness:
  "\<exists>orphaned s'. make_canonical ts_digest fork_store (child_block 3 1 999) = Some (Some orphaned, s') \<and>
     get_root_hash_at_height s' 1 = Some (replicate 24 0 @ u64_be 3)"
proof -
  from make_canonical_correct [OF fork_store_inv fork_store_stored(2)] show ?thesis
  proof (elim disjE exE conjE)
    fix bs orphaned s'
    assume a: "ancestry (get_root_block fork_store) (child_block 3 1 999) bs"
      and m: "make_canonical ts_digest fork_store (child_block 3 1 999) = Some (Some orphaned, s')"
      and i: "\<forall>k x. get_root_hash_at_height s' k = Some x \<longleftrightarrow> (\<exists>y \<in> set bs. rb_height y = k \<and> rb_hash ts_digest y = x)"
    have "bs = [child_block 3 1 999, genesis 1]" by (rule ancestry_unique [OF a child_ancestry])
    with i have "get_root_hash_at_height s' 1 = Some (replicate 24 0 @ u64_be 3)" by simp
    with m show ?thesis by blast
  qed (use child_ancestry [of 3 1 999] in blast)
qed

text \<open>
  C1. Putting an admissible block with fork resolution returns and keeps the invariant. A block is admissible if with it
  every stored block is one higher than its stored parent, and no other block is stored under its hash. Nothing
  on the way of a block from the network checks the first (the headers of a batch are linked by hashes
  only), so it is a condition on what peers send; \<open>header_height_unchecked\<close> in
  \<open>Chain_Runs\<close> shows what happens without it. The block is stored; the
  index and the tip change only when it is adopted, in which case the displaced hashes it reports are
  exactly those that left the index; the real weight of the best tip never falls; and a block whose
  stored ancestry is heavier than the tip is always adopted.
\<close>

theorem put_with_fork_resolution_correct:
  assumes "chain_inv H s" and "admissible H s b"
  shows "\<exists>new_tip displaced s'.
    put_root_block_with_fork_resolution_reporting H s b = Some ((rb_hash H b, new_tip, displaced), s') \<and>
    chain_inv H s' \<and> get_root_block s' = (get_root_block s)(rb_hash H b \<mapsto> b) \<and>
    (if new_tip then cs_best_tip s' = Some (rb_hash H b) \<and>
       (\<forall>x. x \<in> set displaced \<longleftrightarrow>
         (\<exists>k. get_root_hash_at_height s k = Some x \<and> get_root_hash_at_height s' k \<noteq> Some x))
     else displaced = [] \<and> cs_best_tip s' = cs_best_tip s \<and> cs_height_index s' = cs_height_index s) \<and>
    (\<forall>t w. cs_best_tip s = Some t \<and> tip_weight s t w \<longrightarrow>
       (\<exists>t' w'. cs_best_tip s' = Some t' \<and> tip_weight s' t' w' \<and> w \<le> w')) \<and>
    (\<forall>bs. ancestry (get_root_block s') b bs \<and>
       (\<forall>t w. cs_best_tip s = Some t \<and> tip_weight s t w \<longrightarrow> w < real_weight bs) \<longrightarrow> new_tip)"
  using put_with_fork_resolution [OF assms] unfolding put_outcome_def .

theorem put_with_fork_resolution_correct_witness:
  "\<exists>r s'. put_root_block_with_fork_resolution_reporting ts_digest fork_store (child_block 3 1 999) = Some (r, s') \<and>
     chain_inv ts_digest s'"
proof -
  have "(get_root_block fork_store)(rb_hash ts_digest (child_block 3 1 999) \<mapsto> child_block 3 1 999) = get_root_block fork_store"
    using fork_store_stored(2) by (rule map_upd_triv)
  then have "admissible ts_digest fork_store (child_block 3 1 999)"
    using fork_store_inv fork_store_stored(2) by (simp add: admissible_def chain_inv_def)
  from put_with_fork_resolution_correct [OF fork_store_inv this] show ?thesis by blast
qed

text \<open>
  A reorg leaves no mark of a displaced block behind: its side effects are no longer recorded as
  applied, no action it carries is marked finalized at its height, and every mark of a skipped
  content block that is left was made below its height.
\<close>

theorem reorg_clears_marks:
  assumes "make_canonical H s b = Some (Some orphaned, s')"
    and "h \<in> set orphaned" and "get_root_block s h = Some r"
  shows "side_effects_state s' h = 0 \<and>
    (\<forall>a \<in> set (stored_actions_of_root s r). is_action_finalized s' (action_hash H a) \<noteq> Some (rb_height r)) \<and>
    (\<forall>c v. tree_get (cs_skipped_content_blocks s') c = Some v \<longrightarrow> skip_claim v < rb_height r)"
proof -
  obtain es where "apply_reorg H s b es = (orphaned, s')"
    using assms(1) by (auto simp: make_canonical_def split: option.splits prod.splits)
  from apply_reorg_phases [OF this] obtain i where
    s': "s' = clear_skips_from_fork (foldl (displace_block H) (s\<lparr>cs_height_index := i, cs_best_tip := Some (rb_hash H b)\<rparr>) orphaned) orphaned"
    (is "_ = clear_skips_from_fork (foldl _ ?s3 _) _") by blast
  let ?s4 = "foldl (displace_block H) ?s3 orphaned"
  have frame: "cs_applied_side_effects (clear_skips_from_fork t os) = cs_applied_side_effects t"
    "cs_finalized_actions (clear_skips_from_fork t os) = cs_finalized_actions t" for t os
    by (cases "map rb_height (List.map_filter (get_root_block t) os)";
        simp add: clear_skips_from_fork_def clear_content_skips_at_or_above_def)+
  have s3: "get_root_block ?s3 = get_root_block s" "stored_actions_of_root ?s3 = stored_actions_of_root s"
    by (simp_all add: stored_actions_of_root_def stored_content_of_root_def fun_eq_iff)
  have "same_chain ?s3 ?s4" by (rule same_chain_foldl) (rule displace_block_chain)
  then have s4: "get_root_block ?s4 h = Some r"
    using assms(3) by (simp add: same_chain_def get_root_block_def)
  have "side_effects_state s' h = 0"
    using assms(2) displace_fold_marks(2) [of H ?s3 orphaned h] by (simp add: s' side_effects_state_def frame)
  moreover have "is_action_finalized s' (action_hash H a) \<noteq> Some (rb_height r)"
    if "a \<in> set (stored_actions_of_root s r)" for a
    using displace_fold_marks(1) [of H ?s3 orphaned "action_hash H a" "rb_height r"] that assms(2,3)
    by (auto simp: s' is_action_finalized_def frame s3)
  moreover have "skip_claim v < rb_height r" if "tree_get (cs_skipped_content_blocks s') c = Some v" for c v
    using skip_marks_after_fork [OF that [unfolded s'] assms(2) s4] .
  ultimately show ?thesis by blast
qed

theorem reorg_clears_marks_witness:
  "\<exists>orphaned s'. make_canonical ts_digest fork_store (child_block 3 1 999) = Some (Some orphaned, s') \<and>
     side_effects_state s' (replicate 24 0 @ u64_be 2) = 0"
proof -
  have lk: "linked_store ts_digest (get_root_block fork_store)" "canon_ok ts_digest fork_store"
    using fork_store_inv by (simp_all add: chain_inv_def)
  from make_canonical_complete [OF lk fork_store_stored(2) child_ancestry] obtain orphaned s' where
    m: "make_canonical ts_digest fork_store (child_block 3 1 999) = Some (Some orphaned, s')"
    and o: "\<forall>x. x \<in> set orphaned \<longleftrightarrow> (\<exists>k. tree_get (cs_height_index fork_store) k = Some x \<and>
      height_map ts_digest [child_block 3 1 999, genesis 1] k \<noteq> Some x)" by blast
  have old: "replicate 24 0 @ u64_be 2 \<in> set orphaned"
    unfolding o [rule_format]
    by (intro exI [of _ 1]) (simp add: fork_store_def tree_get_def height_map_def)
  have "get_root_block fork_store (replicate 24 0 @ u64_be 2) = Some (child_block 2 100 0)"
    using fork_store_stored(1) by simp
  from reorg_clears_marks [OF m old this]
  have "side_effects_state s' (replicate 24 0 @ u64_be 2) = 0" by (rule conjunct1)
  with m show ?thesis by blast
qed

text \<open>
  \<open>reorg_to_heavier_chain\<close> trusts claims: it adopts any stored block with a complete ancestry
  whose claimed cumulative work exceeds that of the tip, however light the chain really is.
\<close>

theorem reorg_to_heavier_chain_trusts_claim:
  assumes "chain_inv H s" and "get_root_block s (rb_hash H b) = Some b"
    and "ancestry (get_root_block s) b bs" and "get_best_tip_block s = Some tip"
    and "rb_cumulative_pow tip < rb_cumulative_pow b"
  shows "\<exists>orphaned s'. reorg_to_heavier_chain H s b = Some (orphaned, s') \<and>
    cs_best_tip s' = Some (rb_hash H b)"
proof -
  have "linked_store H (get_root_block s)" "canon_ok H s" using assms(1) by (simp_all add: chain_inv_def)
  from make_canonical_complete [OF this assms(2,3)] assms(4,5) show ?thesis
    by (auto simp: reorg_to_heavier_chain_def)
qed

theorem reorg_to_heavier_chain_trusts_claim_witness:
  "\<exists>orphaned s'. reorg_to_heavier_chain ts_digest fork_store (child_block 3 1 999) = Some (orphaned, s') \<and>
     cs_best_tip s' = Some (replicate 24 0 @ u64_be 3) \<and>
     real_weight [child_block 3 1 999, genesis 1] < real_weight [child_block 2 100 0, genesis 1]"
proof -
  have tip: "get_best_tip_block fork_store = Some (child_block 2 100 0)"
    using fork_store_stored(1) by (simp add: get_best_tip_block_def fork_store_def)
  from reorg_to_heavier_chain_trusts_claim [OF fork_store_inv fork_store_stored(2) child_ancestry tip]
  show ?thesis by (auto simp: sat_add_def)
qed

end
