(* ===== verification/Chain_Sync.thy ===== *)
theory Chain_Sync
  imports Fork_Choice
begin

text \<open>
  The operations of the chain store (\<open>src/storage/chain.rs\<close>) that serve synchronization and repair:
  locators and the blocks sent for them, tips and gaps of fork branches, completeness scans,
  tie-breaks, rollback, validation and repair of the canonical chain; and the pure decisions of the
  router (\<open>src/node/router/router.rs\<close>) on blocks that compete with the chain.
\<close>

subsection \<open>Fork branches\<close>

definition MAX_FORK_LOCATOR_TIPS :: nat where "MAX_FORK_LOCATOR_TIPS = 6"

text \<open>Highest height first, lower hash first among equals.\<close>

definition before_tip :: "u64 \<times> hash32 \<Rightarrow> u64 \<times> hash32 \<Rightarrow> bool" where
  "before_tip a b \<longleftrightarrow> fst b < fst a \<or> (fst a = fst b \<and> snd a \<le> snd b)"

primrec insert_tip :: "u64 \<times> hash32 \<Rightarrow> (u64 \<times> hash32) list \<Rightarrow> (u64 \<times> hash32) list" where
  "insert_tip e [] = [e]"
| "insert_tip e (f # fs) = (if before_tip e f then e # f # fs else f # insert_tip e fs)"

definition sort_tips :: "(u64 \<times> hash32) list \<Rightarrow> (u64 \<times> hash32) list" where
  "sort_tips es = foldr insert_tip es []"

definition off_chain_blocks :: "(bytes \<Rightarrow> hash32) \<Rightarrow> chain_store \<Rightarrow> root_block list" where
  "off_chain_blocks H s =
     filter (\<lambda>b. get_root_hash_at_height s (rb_height b) \<noteq> Some (rb_hash H b))
       (map snd (tree_iter (cs_root_blocks s)))"

definition fork_branch_tips :: "(bytes \<Rightarrow> hash32) \<Rightarrow> chain_store \<Rightarrow> hash32 list" where
  "fork_branch_tips H s =
     (let blocks = off_chain_blocks H s;
          has_child = map rb_prev_root_hash blocks;
          off_chain = filter (\<lambda>e. snd e \<notin> set has_child) (map (height_entry H) blocks)
      in map snd (take MAX_FORK_LOCATOR_TIPS (sort_tips off_chain)))"

definition gap_step ::
  "chain_store \<Rightarrow> (u64 \<times> hash32) list \<Rightarrow> root_block \<Rightarrow> (u64 \<times> hash32) list" where
  "gap_step s gaps block =
     (let prev = rb_prev_root_hash block
      in if prev = zero32 then gaps
         else if get_root_block s prev \<noteq> None then gaps
         else if prev \<in> set (map snd gaps) then gaps
         else gaps @ [(rb_height block, prev)])"

definition fork_ancestry_gaps :: "chain_store \<Rightarrow> nat \<Rightarrow> (u64 \<times> hash32) list" where
  "fork_ancestry_gaps s limit =
     take limit (sort_tips (foldl (gap_step s) [] (map snd (tree_iter (cs_root_blocks s)))))"

definition fork_branch_count :: "(bytes \<Rightarrow> hash32) \<Rightarrow> chain_store \<Rightarrow> nat" where
  "fork_branch_count H s = length (fork_branch_tips H s)"

definition has_competing_branch_above_tip :: "(bytes \<Rightarrow> hash32) \<Rightarrow> chain_store \<Rightarrow> bool" where
  "has_competing_branch_above_tip H s \<longleftrightarrow>
     (let our_height = (case get_latest_height s of Some h \<Rightarrow> h | None \<Rightarrow> 0)
      in list_ex (\<lambda>h. case get_root_block s h of Some b \<Rightarrow> rb_height b > our_height | None \<Rightarrow> False)
           (fork_branch_tips H s))"

text \<open>The loop over the branch tips, threading the memo of weights.\<close>

primrec heaviest_loop ::
  "(bytes \<Rightarrow> hash32) \<Rightarrow> u64 \<Rightarrow> chain_store \<Rightarrow> (u64 \<times> root_block) option \<Rightarrow> hash32 list \<Rightarrow>
   ((u64 \<times> root_block) option \<times> chain_store) option" where
  "heaviest_loop H our_weight s best [] = Some (best, s)"
| "heaviest_loop H our_weight s best (h # hs) =
     (case get_root_block s h of
        None \<Rightarrow> heaviest_loop H our_weight s best hs
      | Some block \<Rightarrow>
          (case chain_weight H s block of
             None \<Rightarrow> None
           | Some (None, s1) \<Rightarrow> heaviest_loop H our_weight s1 best hs
           | Some (Some weight, s1) \<Rightarrow>
               heaviest_loop H our_weight s1
                 (if weight > our_weight \<and> (case best of None \<Rightarrow> True | Some (w, _) \<Rightarrow> weight > w)
                  then Some (weight, block) else best) hs))"

definition heaviest_adoptable_fork_tip ::
  "(bytes \<Rightarrow> hash32) \<Rightarrow> chain_store \<Rightarrow> (root_block option \<times> chain_store) option" where
  "heaviest_adoptable_fork_tip H s =
     (case (case get_best_tip_block s of None \<Rightarrow> Some (None, s) | Some tip \<Rightarrow> chain_weight H s tip) of
        None \<Rightarrow> None
      | Some (w, s1) \<Rightarrow>
          map_option (\<lambda>(best, s2). (map_option snd best, s2))
            (heaviest_loop H (case w of Some x \<Rightarrow> x | None \<Rightarrow> 0) s1 None (fork_branch_tips H s1)))"

subsection \<open>Locators\<close>

definition indexed_hashes :: "chain_store \<Rightarrow> u64 list \<Rightarrow> hash32 list" where
  "indexed_hashes s hs = List.map_filter (get_root_hash_at_height s) hs"

text \<open>The backoff loop: heights shrink by a step that doubles.\<close>

function backoff_heights :: "nat \<Rightarrow> nat \<Rightarrow> nat list" where
  "backoff_heights height step =
     (if height = 0 then []
      else if height \<le> step then [height]
      else if step = 0 then [height]
      else height # backoff_heights (height - step) (min (2 * step) (2 ^ 64 - 1)))"
  by pat_completeness auto
termination
  by (relation "measure fst") auto

declare backoff_heights.simps [simp del]

definition generate_locator :: "(bytes \<Rightarrow> hash32) \<Rightarrow> chain_store \<Rightarrow> hash32 list" where
  "generate_locator H s =
     (case get_latest_height s of
        None \<Rightarrow> []
      | Some tip_height \<Rightarrow>
          let tip = indexed_hashes s [tip_height]
          in if tip_height = 0 then tip
             else
               let near = tip @ indexed_hashes s
                            (rev (map word_of_nat [unat tip_height - 2 ..< unat tip_height]));
                   forks = foldl (\<lambda>l h. if h \<in> set l then l else l @ [h]) near (fork_branch_tips H s);
                   far = forks @ indexed_hashes s
                           (map word_of_nat (backoff_heights (unat tip_height - 3) 2))
               in (case get_root_hash_at_height s 0 of
                     Some genesis_hash \<Rightarrow>
                       if far = [] \<or> last far \<noteq> genesis_hash then far @ [genesis_hash] else far
                   | None \<Rightarrow> far))"

primrec find_locator_match :: "chain_store \<Rightarrow> hash32 list \<Rightarrow> u64 option" where
  "find_locator_match s [] = None"
| "find_locator_match s (hash # locator) =
     (case get_root_block s hash of
        Some block \<Rightarrow>
          if get_root_hash_at_height s (rb_height block) = Some hash then Some (rb_height block)
          else find_locator_match s locator
      | None \<Rightarrow> find_locator_match s locator)"

text \<open>The block the canonical chain has at a height, if it is stored.\<close>

definition canonical_at :: "chain_store \<Rightarrow> u64 \<Rightarrow> root_block option" where
  "canonical_at s height = Option.bind (get_root_hash_at_height s height) (get_root_block s)"

definition get_blocks_from_height :: "chain_store \<Rightarrow> u64 \<Rightarrow> nat \<Rightarrow> root_block list" where
  "get_blocks_from_height s start_height max_blocks =
     (case get_latest_height s of
        None \<Rightarrow> []
      | Some end_height \<Rightarrow>
          take max_blocks (List.map_filter (canonical_at s) (u64_range start_height end_height)))"

subsection \<open>Tie-breaks\<close>

definition hash_wins :: "hash32 \<Rightarrow> hash32 \<Rightarrow> bool" where
  "hash_wins hash_a hash_b \<longleftrightarrow> hash_a < hash_b"

definition content_aware_wins :: "hash32 \<Rightarrow> nat \<Rightarrow> hash32 \<Rightarrow> nat \<Rightarrow> bool" where
  "content_aware_wins hash_a actions_a hash_b actions_b \<longleftrightarrow>
     (if actions_a \<noteq> actions_b then actions_a > actions_b else hash_wins hash_a hash_b)"

primrec sum_content_actions :: "chain_store \<Rightarrow> nat \<Rightarrow> hash32 list \<Rightarrow> nat option" where
  "sum_content_actions s acc [] = Some acc"
| "sum_content_actions s acc (ch # chs) =
     (case get_content_block s ch of
        None \<Rightarrow> None
      | Some content \<Rightarrow> sum_content_actions s (acc + length (cb_actions content)) chs)"

primrec sum_space_actions :: "chain_store \<Rightarrow> nat \<Rightarrow> hash32 list \<Rightarrow> nat option" where
  "sum_space_actions s acc [] = Some acc"
| "sum_space_actions s acc (sh # shs) =
     (case get_space_block s sh of
        None \<Rightarrow> None
      | Some space \<Rightarrow>
          (case sum_content_actions s acc (sb_content_block_hashes space) of
             None \<Rightarrow> None
           | Some n \<Rightarrow> sum_space_actions s n shs))"

definition block_action_count :: "chain_store \<Rightarrow> root_block \<Rightarrow> nat option" where
  "block_action_count s block = sum_space_actions s 0 (rb_space_block_hashes block)"

subsection \<open>Decisions of the router\<close>

datatype height_verdict = IncomingHeavier | ExistingHeavier | Tie

definition same_height_verdict ::
  "(bytes \<Rightarrow> hash32) \<Rightarrow> chain_store \<Rightarrow> root_block \<Rightarrow> root_block \<Rightarrow> (height_verdict \<times> chain_store) option" where
  "same_height_verdict H s incoming existing =
     (case chain_weight H s incoming of
        None \<Rightarrow> None
      | Some (iw, s1) \<Rightarrow>
          (case chain_weight H s1 existing of
             None \<Rightarrow> None
           | Some (ew, s2) \<Rightarrow>
               Some (case (iw, ew) of
                       (Some incoming_w, Some existing_w) \<Rightarrow>
                         if incoming_w > existing_w then IncomingHeavier
                         else if incoming_w < existing_w then ExistingHeavier else Tie
                     | _ \<Rightarrow> Tie, s2)))"

datatype ahead_disposition = StoreBlock | Orphan | Reject

definition far_ahead_disposition :: "chain_store \<Rightarrow> root_block \<Rightarrow> ahead_disposition" where
  "far_ahead_disposition s incoming =
     (let prev = rb_prev_root_hash incoming
      in if prev = zero32 then Reject
         else if get_root_block s prev \<noteq> None then StoreBlock else Orphan)"

definition should_escalate_to_locator :: "chain_store \<Rightarrow> root_block \<Rightarrow> bool" where
  "should_escalate_to_locator s incoming \<longleftrightarrow> \<not> has_root_block s (rb_prev_root_hash incoming)"

definition deep_fork_blocked :: "chain_store \<Rightarrow> root_block \<Rightarrow> u64 \<Rightarrow> bool" where
  "deep_fork_blocked s incoming block_height \<longleftrightarrow>
     (case get_latest_height s of None \<Rightarrow> False | Some tip_height \<Rightarrow> \<not> block_height \<ge> tip_height)"

subsection \<open>Rollback, validation and repair\<close>

type_synonym returned_action = "hash32 \<times> hash32 \<times> action \<times> branch_path"

definition get_actions_at_height :: "chain_store \<Rightarrow> u64 \<Rightarrow> returned_action list" where
  "get_actions_at_height s height =
     (case canonical_at s height of
        None \<Rightarrow> []
      | Some root \<Rightarrow>
          concat (map (\<lambda>cb. map (\<lambda>a. (cb_thread_root_id cb, cb_space_id cb, a, path_root)) (cb_actions cb))
            (stored_content_of_root s root)))"

definition orphaned_actions_in_blocks :: "chain_store \<Rightarrow> hash32 list \<Rightarrow> returned_action list" where
  "orphaned_actions_in_blocks s blocks =
     concat (map (\<lambda>root.
         concat (map (\<lambda>cb. map (\<lambda>a. (cb_thread_root_id cb, cb_space_id cb, a, cb_branch_path cb)) (cb_actions cb))
           (stored_content_of_root s root)))
       (List.map_filter (get_root_block s) blocks))"

text \<open>The periodic pass of the router that adopts a stored branch; what it returns to the mempool is part
  of the result.\<close>

definition adopt_heaviest_fork_if_any ::
  "(bytes \<Rightarrow> hash32) \<Rightarrow> chain_store \<Rightarrow> ((bool \<times> returned_action list) \<times> chain_store) option" where
  "adopt_heaviest_fork_if_any H s =
     (case heaviest_adoptable_fork_tip H s of
        None \<Rightarrow> None
      | Some (None, s1) \<Rightarrow> Some ((False, []), s1)
      | Some (Some tip, s1) \<Rightarrow>
          (case put_root_block_with_fork_resolution_reporting H s1 tip of
             None \<Rightarrow> None
           | Some ((hash, True, displaced), s2) \<Rightarrow>
               Some ((True, if displaced = [] then [] else orphaned_actions_in_blocks s2 displaced), s2)
           | Some ((_, False, _), s2) \<Rightarrow> Some ((False, []), s2)))"

definition rollback_single_height ::
  "(bytes \<Rightarrow> hash32) \<Rightarrow> chain_store \<Rightarrow> u64 \<Rightarrow> returned_action list \<times> chain_store" where
  "rollback_single_height H s height =
     (case get_root_hash_at_height s height of
        None \<Rightarrow> ([], s)
      | Some root_hash \<Rightarrow>
          (case get_root_block s root_hash of
             None \<Rightarrow> ([], s)
           | Some root_block \<Rightarrow>
               let actions = get_actions_at_height s height;
                   s1 = foldl (\<lambda>t (_, _, a, _). unmark_action_finalized t (action_hash H a)) s actions;
                   s2 = remove_height_index s1 height
               in (actions,
                   if cs_best_tip s2 = Some root_hash \<and> height > 0 then
                     (case get_root_hash_at_height s2 (height - 1) of
                        Some prev_hash \<Rightarrow> set_best_tip s2 prev_hash
                      | None \<Rightarrow> s2)
                   else s2)))"

definition rollback_step ::
  "(bytes \<Rightarrow> hash32) \<Rightarrow> returned_action list \<times> chain_store \<Rightarrow> u64 \<Rightarrow> returned_action list \<times> chain_store" where
  "rollback_step H st height =
     (case st of (acc, s) \<Rightarrow>
        let (orphaned, s') = rollback_single_height H s height in (acc @ orphaned, s'))"

definition rollback_block_at_height ::
  "(bytes \<Rightarrow> hash32) \<Rightarrow> chain_store \<Rightarrow> u64 \<Rightarrow> returned_action list \<times> chain_store" where
  "rollback_block_at_height H s height =
     (let current_tip = (case get_latest_height s of Some h \<Rightarrow> h | None \<Rightarrow> 0)
      in rollback_step H
           (if current_tip > height
            then foldl (rollback_step H) ([], s) (rev (u64_range (height + 1) current_tip))
            else ([], s)) height)"

text \<open>The loop of \<open>validate_chain\<close>, with the last valid height and its hash; it stops at the first
  corrupt height.\<close>

primrec validate_loop :: "chain_store \<Rightarrow> u64 \<Rightarrow> hash32 option \<Rightarrow> u64 list \<Rightarrow> u64" where
  "validate_loop s last_valid prev_hash [] = last_valid"
| "validate_loop s last_valid prev_hash (height # hs) =
     (case get_root_hash_at_height s height of
        None \<Rightarrow> last_valid
      | Some indexed_hash \<Rightarrow>
          (case get_root_block s indexed_hash of
             None \<Rightarrow> last_valid
           | Some block \<Rightarrow>
               if rb_height block \<noteq> height then last_valid
               else if height > 1 \<and> (prev_hash \<noteq> None \<and> Some (rb_prev_root_hash block) \<noteq> prev_hash) then last_valid
               else if height > 1 \<and> get_root_block s (rb_prev_root_hash block) = None then last_valid
               else validate_loop s height (Some indexed_hash) hs))"

definition validate_chain :: "chain_store \<Rightarrow> u64" where
  "validate_chain s =
     (case get_latest_height s of
        None \<Rightarrow> 0
      | Some tip_height \<Rightarrow> validate_loop s 0 None (u64_range 1 tip_height))"

definition repair_chain :: "(bytes \<Rightarrow> hash32) \<Rightarrow> chain_store \<Rightarrow> returned_action list \<times> chain_store" where
  "repair_chain H s =
     (let last_valid = validate_chain s;
          tip_height = (case get_latest_height s of Some h \<Rightarrow> h | None \<Rightarrow> 0)
      in if last_valid \<ge> tip_height then ([], s)
         else
           let (orphaned, s1) = foldl (rollback_step H) ([], s) (rev (u64_range (last_valid + 1) tip_height))
           in (orphaned,
               if last_valid > 0 then
                 (case get_root_hash_at_height s1 last_valid of
                    Some valid_hash \<Rightarrow> set_best_tip s1 valid_hash
                  | None \<Rightarrow> s1)
               else s1))"

end
