(* ===== verification/Sync_Correct.thy ===== *)
theory Sync_Correct
  imports Chain_Sync
begin

text \<open>
  Synchronization of two chain stores: what a locator names and matches, what is sent for it, and
  what a node ends up with when it puts the blocks it receives; and the pass that adopts a stored
  branch that has become heavier than the tip.
\<close>

subsection \<open>The canonical chain of a store\<close>

lemma canon_tip:
  assumes "chain_inv H s" and "cs_best_tip s = Some t"
  obtains b bs where "get_root_block s t = Some b" "rb_hash H b = t" "ancestry (get_root_block s) b bs"
    "tree_get (cs_height_index s) = height_map H bs" "get_root_block s (rb_hash H b) = Some b"
proof -
  have lk: "linked_store H (get_root_block s)" using assms(1) by (simp add: chain_inv_def)
  obtain b bs where b: "get_root_block s t = Some b" "ancestry (get_root_block s) b bs"
      "tree_get (cs_height_index s) = height_map H bs"
    using assms by (auto simp: chain_inv_def canon_ok_def)
  then have "rb_hash H b = t" using linkedD(1) [OF lk] by simp
  with b that show ?thesis by simp
qed

lemma canonical_at_iff:
  assumes inv: "chain_inv H s" and anc: "ancestry (get_root_block s) b bs"
    and idx: "tree_get (cs_height_index s) = height_map H bs" and stored: "get_root_block s (rb_hash H b) = Some b"
  shows "canonical_at s k = Some y \<longleftrightarrow> y \<in> set bs \<and> rb_height y = k"
proof -
  have lk: "linked_store H (get_root_block s)" using inv by (simp add: chain_inv_def)
  note hm = height_map_Some [OF lk stored anc]
  have st: "get_root_block s (rb_hash H y) = Some y" if "y \<in> set bs" for y
    using ancestry_stored [OF anc lk stored that] .
  show ?thesis
  proof
    assume "canonical_at s k = Some y"
    then obtain h where h: "height_map H bs k = Some h" "get_root_block s h = Some y"
      by (auto simp: canonical_at_def get_root_hash_at_height_def idx bind_eq_Some_conv)
    then obtain z where "z \<in> set bs" "rb_height z = k" "rb_hash H z = h" using hm by blast
    with st h(2) show "y \<in> set bs \<and> rb_height y = k" by fastforce
  next
    assume y: "y \<in> set bs \<and> rb_height y = k"
    then have "height_map H bs k = Some (rb_hash H y)" using hm by blast
    with st y show "canonical_at s k = Some y"
      by (simp add: canonical_at_def get_root_hash_at_height_def idx)
  qed
qed

lemma index_iff_canonical:
  assumes inv: "chain_inv H s"
  shows "get_root_hash_at_height s k = Some h \<longleftrightarrow> (\<exists>y. canonical_at s k = Some y \<and> rb_hash H y = h)"
proof (cases "cs_best_tip s")
  case None
  with inv show ?thesis by (simp add: chain_inv_def canon_ok_def get_root_hash_at_height_def canonical_at_def)
next
  case (Some t)
  have lk: "linked_store H (get_root_block s)" using inv by (simp add: chain_inv_def)
  obtain b bs where b: "ancestry (get_root_block s) b bs"
    "tree_get (cs_height_index s) = height_map H bs" "get_root_block s (rb_hash H b) = Some b"
    using canon_tip [OF inv Some] by blast
  show ?thesis
    using height_map_Some [OF lk b(3,1)] canonical_at_iff [OF inv b]
    by (auto simp: get_root_hash_at_height_def b(2))
qed

lemma canonical_atD:
  assumes inv: "chain_inv H s" and k: "canonical_at s k = Some y"
  shows "rb_height y = k" "get_root_block s (rb_hash H y) = Some y"
proof -
  have lk: "linked_store H (get_root_block s)" using inv by (simp add: chain_inv_def)
  obtain h where h: "get_root_hash_at_height s k = Some h" "get_root_block s h = Some y"
    using k by (auto simp: canonical_at_def bind_eq_Some_conv)
  then show "get_root_block s (rb_hash H y) = Some y" using linkedD(1) [OF lk] by simp
  obtain t where t: "cs_best_tip s = Some t"
    using h inv by (auto simp: chain_inv_def canon_ok_def get_root_hash_at_height_def split: option.splits)
  obtain b bs where b: "ancestry (get_root_block s) b bs"
    "tree_get (cs_height_index s) = height_map H bs" "get_root_block s (rb_hash H b) = Some b"
    using canon_tip [OF inv t] by blast
  show "rb_height y = k" using canonical_at_iff [OF inv b] k by blast
qed

text \<open>The heights of the chain are those up to the tip, which is the latest height.\<close>

lemma latest_height_tip:
  assumes inv: "chain_inv H s" and tip: "cs_best_tip s = Some t" "get_root_block s t = Some b"
  shows "get_latest_height s = Some (rb_height b)" "(\<exists>y. canonical_at s k = Some y) \<longleftrightarrow> k \<le> rb_height b"
    "canonical_at s (rb_height b) = Some b"
proof -
  have lk: "linked_store H (get_root_block s)" using inv by (simp add: chain_inv_def)
  obtain bs where bs: "ancestry (get_root_block s) b bs"
    "tree_get (cs_height_index s) = height_map H bs" "get_root_block s (rb_hash H b) = Some b"
    using canon_tip [OF inv tip(1)] tip(2) by (metis option.inject)
  note ci = canonical_at_iff [OF inv bs]
  show all: "(\<exists>y. canonical_at s k = Some y) \<longleftrightarrow> k \<le> rb_height b" for k
    using ancestry_height_iff [OF lk bs(3,1)] ci by blast
  show "canonical_at s (rb_height b) = Some b" using ci ancestry_hd [OF bs(1)] by auto
  have dom: "tree_get (cs_height_index s) k \<noteq> None \<longleftrightarrow> k \<le> rb_height b" for k
    using index_iff_canonical [OF inv, of k] all [of k] by (auto simp: get_root_hash_at_height_def)
  then obtain m where m: "tree_last (cs_height_index s) = Some m" "rb_height b \<le> m"
    using tree_get_imp_last [of "cs_height_index s" "rb_height b"] by auto
  moreover have "m \<le> rb_height b" using tree_last_Some [OF m(1)] dom by blast
  ultimately show "get_latest_height s = Some (rb_height b)" by (simp add: get_latest_height_def)
qed

definition extends :: "(bytes \<Rightarrow> hash32) \<Rightarrow> root_block \<Rightarrow> root_block \<Rightarrow> bool" where
  "extends H p b \<longleftrightarrow> rb_prev_root_hash b = rb_hash H p \<and> rb_height b = rb_height p + 1"

lemma canonical_extends:
  assumes inv: "chain_inv H s" and p: "canonical_at s k = Some p" and b: "canonical_at s (k + 1) = Some b"
    and k: "k + 1 \<noteq> 0"
  shows "extends H p b"
proof -
  have lk: "linked_store H (get_root_block s)" using inv by (simp add: chain_inv_def)
  obtain t where t: "cs_best_tip s = Some t"
    using p inv by (cases "cs_best_tip s") (auto simp: chain_inv_def canon_ok_def get_root_hash_at_height_def canonical_at_def)
  obtain tb bs where bs: "ancestry (get_root_block s) tb bs"
    "tree_get (cs_height_index s) = height_map H bs" "get_root_block s (rb_hash H tb) = Some tb"
    using canon_tip [OF inv t] by blast
  note ci = canonical_at_iff [OF inv bs]
  have hb: "rb_height b = k + 1" "b \<in> set bs" using ci b by blast+
  have stb: "get_root_block s (rb_hash H b) = Some b" using canonical_atD [OF inv b] by blast
  obtain pre post where "bs = pre @ b # post" using hb(2) by (meson split_list)
  with bs(1) have "ancestry (get_root_block s) b (b # post)" using ancestry_suffix by metis
  then show ?thesis
  proof (cases)
    case ancestry_root
    then have "rb_height b = 0" using linkedD(3) [OF lk stb] by blast
    with hb k show ?thesis by simp
  next
    case (ancestry_step q)
    have hq: "rb_height b = rb_height q + 1" using linkedD(4) [OF lk stb ancestry_step(1,2)] .
    then have "rb_height q = k" using hb by simp
    moreover have "q \<in> set bs" using ancestry_hd [OF ancestry_step(3)] \<open>bs = pre @ b # post\<close> by auto
    ultimately have "q = p" using ci p by (metis option.inject)
    moreover have "rb_hash H q = rb_prev_root_hash b" using linkedD(1) [OF lk ancestry_step(2)] .
    ultimately show ?thesis using hq by (simp add: extends_def)
  qed
qed


subsection \<open>Serving blocks\<close>

lemma u64_range_Cons: "a \<le> b \<Longrightarrow> u64_range a b = a # (if a = b then [] else u64_range (a + 1) b)"
proof -
  assume ab: "a \<le> b"
  then have "[unat a ..< Suc (unat b)] = unat a # [Suc (unat a) ..< Suc (unat b)]"
    by (simp add: word_le_nat_alt upt_conv_Cons)
  moreover have "unat (a + 1) = Suc (unat a)" if "a \<noteq> b"
    using that ab unat_u64_less [of b] by (simp add: unat_word_ariths word_le_nat_alt word_unat_eq_iff)
  ultimately show ?thesis by (simp add: u64_range_def)
qed

lemma u64_range_empty: "b < a \<Longrightarrow> u64_range a b = []"
  by (simp add: u64_range_def word_less_nat_alt)

lemma length_u64_range: "length (u64_range a b) = Suc (unat b) - unat a"
  by (simp add: u64_range_def del: upt_Suc)

lemma map_filter_total: "(\<And>x. x \<in> set xs \<Longrightarrow> f x \<noteq> None) \<Longrightarrow> List.map_filter f xs = map (\<lambda>x. the (f x)) xs"
  by (induction xs) (auto simp: List.map_filter_simps split: option.splits)

lemma successively_take: "successively P xs \<Longrightarrow> successively P (take n xs)"
  by (metis append_take_drop_id successively_append_iff)

lemma canonical_chain_linked:
  assumes inv: "chain_inv H s" and tip: "cs_best_tip s = Some t" "get_root_block s t = Some b"
  shows "a \<le> rb_height b \<Longrightarrow>
    successively (extends H) (map (\<lambda>k. the (canonical_at s k)) (u64_range a (rb_height b)))"
proof (induction "unat (rb_height b) - unat a" arbitrary: a)
  case 0
  then have "a = rb_height b" by (simp add: word_le_nat_alt word_unat_eq_iff)
  then show ?case by (simp add: u64_range_Cons)
next
  case (Suc n)
  then have ne: "a \<noteq> rb_height b" by auto
  then have lt: "a < rb_height b" using Suc.prems by simp
  then have un: "unat (a + 1) = Suc (unat a)"
    using unat_u64_less [of "rb_height b"] by (simp add: unat_word_ariths word_less_nat_alt)
  then have le: "a + 1 \<le> rb_height b" and nz: "a + 1 \<noteq> 0"
    using lt by (auto simp: word_le_nat_alt word_less_nat_alt)
  have IH: "successively (extends H) (map (\<lambda>k. the (canonical_at s k)) (u64_range (a + 1) (rb_height b)))"
    using Suc.hyps(1) [of "a + 1"] Suc.hyps(2) un le by simp
  note all = latest_height_tip(2) [OF inv tip]
  obtain p q where pq: "canonical_at s a = Some p" "canonical_at s (a + 1) = Some q"
    using all [of a] all [of "a + 1"] le Suc.prems by auto
  have "extends H p q" by (rule canonical_extends [OF inv pq nz])
  with IH show ?case
    using u64_range_Cons [OF Suc.prems] u64_range_Cons [OF le] ne pq by (simp split: if_splits)
qed

lemma blocks_from_height:
  assumes inv: "chain_inv H s" and tip: "cs_best_tip s = Some t" "get_root_block s t = Some b"
  shows "get_blocks_from_height s a n = take n (map (\<lambda>k. the (canonical_at s k)) (u64_range a (rb_height b)))"
proof -
  have "List.map_filter (canonical_at s) (u64_range a (rb_height b)) =
      map (\<lambda>k. the (canonical_at s k)) (u64_range a (rb_height b))"
    using latest_height_tip(2) [OF inv tip] by (intro map_filter_total) (metis option.distinct(1) set_u64_range)
  then show ?thesis using latest_height_tip(1) [OF inv tip] by (simp add: get_blocks_from_height_def)
qed

text \<open>What is sent after a canonical height \<open>h\<close> continues the block at \<open>h\<close> without a gap.\<close>

lemma blocks_after_match:
  assumes inv: "chain_inv H s" and tip: "cs_best_tip s = Some t" "get_root_block s t = Some b"
    and m: "canonical_at s h = Some m"
  shows "m # get_blocks_from_height s (h + 1) n =
      take (Suc n) (map (\<lambda>k. the (canonical_at s k)) (u64_range h (rb_height b)))"
    "successively (extends H) (m # get_blocks_from_height s (h + 1) n)"
    "length (get_blocks_from_height s (h + 1) n) = min n (unat (rb_height b) - unat h)"
proof -
  have lk: "linked_store H (get_root_block s)" using inv by (simp add: chain_inv_def)
  have le: "h \<le> rb_height b" using latest_height_tip(2) [OF inv tip] m by blast
  have max: "unat (rb_height b) + 1 < 2 ^ 64" using linkedD(2) [OF lk tip(2)] .
  have un: "unat (h + 1) = Suc (unat h)"
    using le max by (simp add: unat_word_ariths word_le_nat_alt)
  have "u64_range h (rb_height b) = h # u64_range (h + 1) (rb_height b)"
    using u64_range_Cons [OF le] un by (auto simp: u64_range_empty word_less_nat_alt)
  then show eq: "m # get_blocks_from_height s (h + 1) n =
      take (Suc n) (map (\<lambda>k. the (canonical_at s k)) (u64_range h (rb_height b)))"
    using blocks_from_height [OF inv tip] m by simp
  show "successively (extends H) (m # get_blocks_from_height s (h + 1) n)"
    unfolding eq by (rule successively_take [OF canonical_chain_linked [OF inv tip le]])
  show "length (get_blocks_from_height s (h + 1) n) = min n (unat (rb_height b) - unat h)"
    using blocks_from_height [OF inv tip] un by (simp add: length_u64_range min.commute)
qed


subsection \<open>Locators\<close>

lemma set_insert_tip [simp]: "set (insert_tip e fs) = insert e (set fs)"
  by (induction fs) auto

lemma set_sort_tips [simp]: "set (sort_tips es) = set es"
  by (induction es) (auto simp: sort_tips_def)

lemma length_sort_tips [simp]: "length (sort_tips es) = length es"
proof -
  have "length (insert_tip e fs) = Suc (length fs)" for e fs by (induction fs) auto
  then show ?thesis by (induction es) (auto simp: sort_tips_def)
qed

lemma tree_get_mem: "tree_get t k = Some v \<Longrightarrow> (k, v) \<in> set t"
  by (simp add: tree_get_def map_of_SomeD)

text \<open>Each stored block is found under its key.\<close>

definition keys_distinct :: "chain_store \<Rightarrow> bool" where
  "keys_distinct s \<longleftrightarrow> distinct (map fst (cs_root_blocks s))"

lemma stored_iff_listed:
  "keys_distinct s \<Longrightarrow> (k, b) \<in> set (tree_iter (cs_root_blocks s)) \<longleftrightarrow> get_root_block s k = Some b"
  by (simp add: keys_distinct_def get_root_block_def tree_get_def map_of_eq_Some_iff)

lemma off_chain_iff:
  assumes "linked_store H (get_root_block s)" and "keys_distinct s"
  shows "b \<in> set (off_chain_blocks H s) \<longleftrightarrow>
    get_root_block s (rb_hash H b) = Some b \<and> get_root_hash_at_height s (rb_height b) \<noteq> Some (rb_hash H b)"
proof -
  have "b \<in> snd ` set (tree_iter (cs_root_blocks s)) \<longleftrightarrow> get_root_block s (rb_hash H b) = Some b"
    using stored_iff_listed [OF assms(2)] linkedD(1) [OF assms(1)] by (force simp: image_iff)
  then show ?thesis unfolding off_chain_blocks_def by auto
qed

lemma fork_tip_stored:
  assumes "linked_store H (get_root_block s)" and "keys_distinct s" and "h \<in> set (fork_branch_tips H s)"
  obtains b where "get_root_block s h = Some b" "rb_hash H b = h" "get_root_hash_at_height s (rb_height b) \<noteq> Some h"
proof -
  from assms(3) obtain b where b: "b \<in> set (off_chain_blocks H s)" "rb_hash H b = h"
    unfolding fork_branch_tips_def Let_def by (auto dest!: in_set_takeD)
  with off_chain_iff [OF assms(1,2)] that show ?thesis by blast
qed

lemma length_fork_branch_tips: "length (fork_branch_tips H s) \<le> 6"
  by (simp add: fork_branch_tips_def Let_def MAX_FORK_LOCATOR_TIPS_def)

lemma foldl_adjoin:
  "set (foldl (\<lambda>l h. if h \<in> set l then l else l @ [h]) l hs) = set l \<union> set hs"
  "length (foldl (\<lambda>l h. if h \<in> set l then l else l @ [h]) l hs) \<le> length l + length hs"
  "\<exists>r. foldl (\<lambda>l h. if h \<in> set l then l else l @ [h]) l hs = l @ r"
proof -
  let ?f = "\<lambda>l h. if h \<in> set l then l else l @ [h]"
  show "set (foldl ?f l hs) = set l \<union> set hs"
    by (induction hs arbitrary: l) (auto split: if_splits)
  show "length (foldl ?f l hs) \<le> length l + length hs"
  proof (induction hs arbitrary: l)
    case (Cons h hs)
    have "length (foldl ?f (?f l h) hs) \<le> length (?f l h) + length hs" by (rule Cons.IH)
    then show ?case by (simp split: if_splits)
  qed simp
  show "\<exists>r. foldl ?f l hs = l @ r"
  proof (induction hs arbitrary: l)
    case (Cons h hs)
    then obtain r where "foldl ?f (?f l h) hs = ?f l h @ r" by blast
    then show ?case by simp
  qed simp
qed

lemma indexed_hashes_stored:
  assumes "chain_inv H s" and "h \<in> set (indexed_hashes s ks)"
  shows "get_root_block s h \<noteq> None"
proof -
  obtain k where "get_root_hash_at_height s k = Some h"
    using assms(2) by (auto simp: indexed_hashes_def map_filter_member)
  then obtain y where "canonical_at s k = Some y" "rb_hash H y = h"
    using index_iff_canonical [OF assms(1)] by blast
  with canonical_atD(2) [OF assms(1)] show ?thesis by auto
qed

lemma length_indexed_hashes: "length (indexed_hashes s ks) \<le> length ks"
  by (induction ks) (auto simp: indexed_hashes_def List.map_filter_simps split: option.splits)

lemma length_backoff:
  "height < 2 ^ 64 \<Longrightarrow> 0 < step \<Longrightarrow> height < step * 2 ^ d \<Longrightarrow> length (backoff_heights height step) \<le> Suc d"
proof (induction d arbitrary: height step)
  case 0
  then show ?case by (simp add: backoff_heights.simps)
next
  case (Suc d)
  let ?step = "min (2 * step) (2 ^ 64 - 1)"
  have tail: "length (backoff_heights (height - step) ?step) \<le> Suc d" if "\<not> height \<le> step"
  proof (cases "2 * step \<le> 2 ^ 64 - 1")
    case True
    then have "?step = 2 * step" by simp
    moreover have "height - step < 2 * step * 2 ^ d" using Suc.prems by simp
    ultimately show ?thesis using Suc.prems Suc.IH [of "height - step" "2 * step"] by simp
  next
    case False
    then have "height - step \<le> ?step" using Suc.prems by (simp add: min_def)
    then show ?thesis by (simp add: backoff_heights.simps)
  qed
  then show ?case using Suc.prems by (subst backoff_heights.simps) auto
qed

lemma locator_stored:
  assumes inv: "chain_inv H s" and kd: "keys_distinct s" and h: "h \<in> set (generate_locator H s)"
  shows "get_root_block s h \<noteq> None"
proof -
  have lk: "linked_store H (get_root_block s)" using inv by (simp add: chain_inv_def)
  have forks: "get_root_block s h \<noteq> None" if "h \<in> set (fork_branch_tips H s)"
    using fork_tip_stored [OF lk kd that] by auto
  have gen: "get_root_block s h \<noteq> None" if "get_root_hash_at_height s 0 = Some h"
    using indexed_hashes_stored [OF inv, of h "[0]"] that by (simp add: indexed_hashes_def List.map_filter_simps)
  show ?thesis
    using h forks gen indexed_hashes_stored [OF inv]
    by (auto simp: generate_locator_def Let_def foldl_adjoin(1) split: option.splits if_splits)
qed

lemma locator_genesis:
  assumes "get_root_hash_at_height s 0 = Some g"
  shows "generate_locator H s \<noteq> []" "last (generate_locator H s) = g"
proof -
  have "tree_get (cs_height_index s) 0 \<noteq> None" using assms by (simp add: get_root_hash_at_height_def)
  from tree_get_imp_last [OF this] obtain m where "get_latest_height s = Some m" by (auto simp: get_latest_height_def)
  with assms show "generate_locator H s \<noteq> []" "last (generate_locator H s) = g"
    by (auto simp: generate_locator_def Let_def indexed_hashes_def List.map_filter_simps)
qed

lemma locator_tip:
  assumes "get_latest_height s = Some m" and "get_root_hash_at_height s m = Some x"
  shows "\<exists>r. generate_locator H s = x # r"
proof -
  have tip: "indexed_hashes s [m] = [x]" using assms by (simp add: indexed_hashes_def List.map_filter_simps)
  obtain r where "foldl (\<lambda>l h. if h \<in> set l then l else l @ [h])
      (x # indexed_hashes s (rev (map word_of_nat [unat m - 2 ..< unat m]))) (fork_branch_tips H s) = x # r"
    using foldl_adjoin(3) [of "x # indexed_hashes s (rev (map word_of_nat [unat m - 2 ..< unat m]))"] by fastforce
  with tip assms show ?thesis by (cases "m = 0") (auto simp: generate_locator_def Let_def split: option.splits)
qed

lemma locator_length: "length (generate_locator H s) \<le> 74"
proof (cases "get_latest_height s")
  case None
  then show ?thesis by (simp add: generate_locator_def)
next
  case (Some m)
  let ?tip = "indexed_hashes s [m]"
  let ?near = "?tip @ indexed_hashes s (rev (map word_of_nat [unat m - 2 ..< unat m]))"
  let ?forks = "foldl (\<lambda>l h. if h \<in> set l then l else l @ [h]) ?near (fork_branch_tips H s)"
  let ?behind = "indexed_hashes s (map word_of_nat (backoff_heights (unat m - 3) 2))"
  have "length ?near \<le> 3"
    using length_indexed_hashes [of s "[m]"] length_indexed_hashes [of s "rev (map word_of_nat [unat m - 2 ..< unat m])"]
    by simp
  then have "length ?forks \<le> 9"
    using foldl_adjoin(2) [of ?near "fork_branch_tips H s"] length_fork_branch_tips [of H s] by simp
  moreover have "length (backoff_heights (unat m - 3) 2) \<le> 64"
    using length_backoff [of "unat m - 3" 2 63] unat_u64_less [of m] by simp
  then have "length ?behind \<le> 64"
    using length_indexed_hashes [of s "map word_of_nat (backoff_heights (unat m - 3) 2)"] by simp
  moreover have "length ?tip \<le> 1" using length_indexed_hashes [of s "[m]"] by simp
  ultimately show ?thesis using Some
    by (cases "m = 0"; cases "get_root_hash_at_height s 0") (simp_all add: generate_locator_def Let_def)
qed

lemma find_locator_match_Some:
  assumes inv: "chain_inv H s"
  shows "find_locator_match s L = Some h \<Longrightarrow> \<exists>m. canonical_at s h = Some m \<and> rb_hash H m \<in> set L"
proof (induction L)
  case (Cons x L)
  show ?case
  proof (cases "\<exists>b. get_root_block s x = Some b \<and> get_root_hash_at_height s (rb_height b) = Some x")
    case True
    then obtain b where b: "get_root_block s x = Some b" "get_root_hash_at_height s (rb_height b) = Some x" by blast
    have "rb_hash H b = x" using linkedD(1) [of H "get_root_block s"] inv b(1) by (simp add: chain_inv_def)
    with b Cons.prems show ?thesis by (auto simp: canonical_at_def)
  next
    case False
    with Cons.prems have "find_locator_match s L = Some h" by (auto split: option.splits if_splits)
    with Cons.IH show ?thesis by auto
  qed
qed simp

lemma find_locator_match_exists:
  assumes inv: "chain_inv H s" and y: "canonical_at s k = Some y"
  shows "rb_hash H y \<in> set L \<Longrightarrow> \<exists>h. find_locator_match s L = Some h"
proof (induction L)
  case (Cons x L)
  have "get_root_block s (rb_hash H y) = Some y" "rb_height y = k" using canonical_atD [OF inv y] by simp_all
  moreover have "get_root_hash_at_height s k = Some (rb_hash H y)" using index_iff_canonical [OF inv] y by blast
  ultimately show ?case using Cons by (cases "x = rb_hash H y") (auto split: option.splits)
qed simp


subsection \<open>Receiving blocks\<close>

definition tip_at_least :: "chain_store \<Rightarrow> u64 \<Rightarrow> bool" where
  "tip_at_least s w \<longleftrightarrow> (\<exists>t w'. cs_best_tip s = Some t \<and> tip_weight s t w' \<and> w \<le> w')"

lemma linked_store_submap:
  assumes "linked_store H U" and "R \<subseteq>\<^sub>m U"
  shows "linked_store H R"
proof -
  have le: "U h = Some b" if "R h = Some b" for h b using assms(2) that by (auto simp: map_le_def dom_def)
  show ?thesis unfolding linked_store_def
  proof (intro allI impI)
    fix h b assume b: "R h = Some b"
    note d = linkedD [OF assms(1) le [OF b]]
    show "rb_hash H b = h \<and> unat (rb_height b) + 1 < 2 ^ 64 \<and>
       (if rb_prev_root_hash b = zero32 then rb_height b = 0
        else (\<forall>p. R (rb_prev_root_hash b) = Some p \<longrightarrow> rb_height b = rb_height p + 1))"
      using d le by simp
  qed
qed

lemma universe_admissible:
  assumes "linked_store H U" and "get_root_block s \<subseteq>\<^sub>m U" and "U (rb_hash H b) = Some b"
  shows "admissible H s b" "(get_root_block s)(rb_hash H b \<mapsto> b) \<subseteq>\<^sub>m U"
proof -
  show le: "(get_root_block s)(rb_hash H b \<mapsto> b) \<subseteq>\<^sub>m U"
    using assms(2,3) by (auto simp: map_le_def)
  have "get_root_block s (rb_hash H b) \<in> {None, Some b}"
    using assms(2,3) by (cases "get_root_block s (rb_hash H b)") (auto simp: map_le_def dom_def)
  with linked_store_submap [OF assms(1) le] show "admissible H s b" by (simp add: admissible_def)
qed

lemma put_one:
  assumes "linked_store H U" and "get_root_block s \<subseteq>\<^sub>m U" and "U (rb_hash H b) = Some b" and "chain_inv H s"
  shows "\<exists>r s'. put_root_block_with_fork_resolution_reporting H s b = Some (r, s') \<and> chain_inv H s' \<and>
    get_root_block s' = (get_root_block s)(rb_hash H b \<mapsto> b) \<and> get_root_block s' \<subseteq>\<^sub>m U \<and>
    get_root_block s \<subseteq>\<^sub>m get_root_block s' \<and> (\<forall>w. tip_at_least s w \<longrightarrow> tip_at_least s' w) \<and>
    (\<forall>bs. ancestry (get_root_block s') b bs \<longrightarrow> tip_at_least s' (real_weight bs))"
proof -
  note adm = universe_admissible [OF assms(1-3)]
  from put_with_fork_resolution [OF assms(4) adm(1)] obtain new_tip displaced s' where
    put: "put_root_block_with_fork_resolution_reporting H s b = Some ((rb_hash H b, new_tip, displaced), s')"
    and out: "put_outcome H s b new_tip displaced s'" by blast
  note o = out [unfolded put_outcome_def]
  have inv: "chain_inv H s'" and get: "get_root_block s' = (get_root_block s)(rb_hash H b \<mapsto> b)"
    and mono: "\<forall>t w. cs_best_tip s = Some t \<and> tip_weight s t w \<longrightarrow>
        (\<exists>t' w'. cs_best_tip s' = Some t' \<and> tip_weight s' t' w' \<and> w \<le> w')"
    and adopt: "\<forall>bs. ancestry (get_root_block s') b bs \<and>
        (\<forall>t w. cs_best_tip s = Some t \<and> tip_weight s t w \<longrightarrow> w < real_weight bs) \<longrightarrow> new_tip"
    by (insert o, elim conjE, assumption)+
  have tip: "cs_best_tip s' = Some (rb_hash H b)" if new_tip
    using o that by (elim conjE) simp
  have keep: "tip_at_least s' w" if "tip_at_least s w" for w
    using that mono unfolding tip_at_least_def by (meson order_trans)
  have "tip_at_least s' (real_weight bs)" if anc: "ancestry (get_root_block s') b bs" for bs
  proof (cases new_tip)
    case True
    have "tip_weight s' (rb_hash H b) (real_weight bs)" using anc by (auto simp: tip_weight_def get)
    with tip [OF True] show ?thesis by (auto simp: tip_at_least_def)
  next
    case False
    with adopt anc obtain t w where "cs_best_tip s = Some t" "tip_weight s t w" "\<not> w < real_weight bs" by blast
    then have "tip_at_least s (real_weight bs)" by (auto simp: tip_at_least_def not_less)
    then show ?thesis by (rule keep)
  qed
  moreover have "get_root_block s \<subseteq>\<^sub>m get_root_block s'"
    using adm(1) by (auto simp: get map_le_def admissible_def)
  moreover have "get_root_block s' \<subseteq>\<^sub>m U" unfolding get by (rule adm(2))
  ultimately show ?thesis using put inv get keep by blast
qed

subsection \<open>Gaps in the ancestry\<close>

lemma gap_fold_keeps: "gaps \<noteq> [] \<Longrightarrow> foldl (gap_step s) gaps bs \<noteq> []"
  by (induction bs arbitrary: gaps) (auto simp: gap_step_def Let_def)

lemma no_gaps_linked:
  "foldl (gap_step s) [] bs = [] \<Longrightarrow> b \<in> set bs \<Longrightarrow>
   rb_prev_root_hash b = zero32 \<or> get_root_block s (rb_prev_root_hash b) \<noteq> None"
proof (induction bs)
  case (Cons c bs)
  have "gap_step s [] c = []" using Cons.prems(1) gap_fold_keeps [of "gap_step s [] c" s bs] by auto
  with Cons show ?case by (auto simp: gap_step_def Let_def split: if_splits)
qed simp

lemma sort_tips_Nil [simp]: "sort_tips es = [] \<longleftrightarrow> es = []"
  by (metis length_0_conv length_sort_tips)

text \<open>A store without gaps holds the complete ancestry of every block it holds.\<close>

lemma no_gaps_complete:
  assumes lk: "linked_store H (get_root_block s)" and kd: "keys_distinct s"
    and gaps: "fork_ancestry_gaps s limit = []" "limit > 0"
  shows "get_root_block s h = Some b \<Longrightarrow> \<exists>bs. ancestry (get_root_block s) b bs"
proof (induction "unat (rb_height b)" arbitrary: h b rule: less_induct)
  case less
  have "foldl (gap_step s) [] (map snd (tree_iter (cs_root_blocks s))) = []"
    using gaps by (simp add: fork_ancestry_gaps_def)
  moreover have "b \<in> set (map snd (tree_iter (cs_root_blocks s)))"
    using less.prems stored_iff_listed [OF kd, of h b] by force
  ultimately consider "rb_prev_root_hash b = zero32"
    | p where "rb_prev_root_hash b \<noteq> zero32" "get_root_block s (rb_prev_root_hash b) = Some p"
    using no_gaps_linked by blast
  then show ?case
  proof cases
    case 1
    then show ?thesis using ancestry_root by blast
  next
    case 2
    have "unat (rb_height p) < unat (rb_height b)" using linked_parent_height [OF lk less.prems 2] by simp
    from less.hyps [OF this 2(2)] 2 show ?thesis using ancestry_step by blast
  qed
qed

lemma ancestry_transfer:
  "ancestry R b bs \<Longrightarrow> linked_store H R \<Longrightarrow> \<forall>x \<in> set bs. R2 (rb_hash H x) = Some x \<Longrightarrow> ancestry R2 b bs"
proof (induction rule: ancestry.induct)
  case (ancestry_step b p bs)
  have "rb_hash H p = rb_prev_root_hash b" using linkedD(1) [OF ancestry_step.prems(1) ancestry_step.hyps(2)] .
  moreover have "p \<in> set (b # bs)" using ancestry_hd [OF ancestry_step.hyps(3)] by auto
  ultimately have "R2 (rb_prev_root_hash b) = Some p" using ancestry_step.prems(2) by metis
  with ancestry_step show ?case by (auto intro: ancestry.ancestry_step)
qed (rule ancestry.ancestry_root)


lemma index_has_tip:
  assumes "chain_inv H s" and "get_root_hash_at_height s k = Some h"
  obtains t b where "cs_best_tip s = Some t" "get_root_block s t = Some b" "get_best_tip_block s = Some b"
proof -
  obtain t where t: "cs_best_tip s = Some t"
    using assms by (auto simp: chain_inv_def canon_ok_def get_root_hash_at_height_def split: option.splits)
  then obtain b where "get_root_block s t = Some b" using canon_tip [OF assms(1)] by blast
  with t that show ?thesis by (simp add: get_best_tip_block_def)
qed

text \<open>The match a server finds is a block the client holds.\<close>

lemma locator_match:
  assumes inv: "chain_inv H s" and kd: "keys_distinct s" and inv': "chain_inv H s'"
    and match: "find_locator_match s' (generate_locator H s) = Some h"
  obtains m t b where "canonical_at s' h = Some m" "get_root_block s (rb_hash H m) \<noteq> None"
    "cs_best_tip s' = Some t" "get_root_block s' t = Some b" "get_best_tip_block s' = Some b" "h \<le> rb_height b"
proof -
  obtain m where m: "canonical_at s' h = Some m" "rb_hash H m \<in> set (generate_locator H s)"
    using find_locator_match_Some [OF inv' match] by blast
  have "get_root_hash_at_height s' h = Some (rb_hash H m)" using index_iff_canonical [OF inv'] m(1) by blast
  from index_has_tip [OF inv' this] obtain t b where
    tip: "cs_best_tip s' = Some t" "get_root_block s' t = Some b" "get_best_tip_block s' = Some b" by blast
  have "h \<le> rb_height b" using latest_height_tip(2) [OF inv' tip(1,2)] m(1) by blast
  with that m(1) tip locator_stored [OF inv kd m(2)] show ?thesis by blast
qed

lemma chain_above_match:
  assumes inv: "chain_inv H s" and tip: "cs_best_tip s = Some t" "get_root_block s t = Some b"
    and anc: "ancestry (get_root_block s) b bs" and m: "canonical_at s h = Some m"
    and n: "unat (rb_height b) - unat h \<le> n" and x: "x \<in> set bs"
  shows "x \<in> set (get_blocks_from_height s (h + 1) n) \<or>
    (\<exists>post. ancestry (get_root_block s) m (m # post) \<and> x \<in> set (m # post))"
proof -
  have lk: "linked_store H (get_root_block s)" using inv by (simp add: chain_inv_def)
  have stored: "get_root_block s (rb_hash H b) = Some b" using tip(2) linkedD(1) [OF lk] by simp
  obtain b' bs' where c: "get_root_block s t = Some b'" "ancestry (get_root_block s) b' bs'"
    "tree_get (cs_height_index s) = height_map H bs'" using canon_tip [OF inv tip(1)] by blast
  have "b' = b" "bs' = bs" using c(1,2) tip(2) ancestry_unique [OF anc] by auto
  with c have idx: "tree_get (cs_height_index s) = height_map H bs" by simp
  note ci = canonical_at_iff [OF inv anc idx stored]
  have mb: "m \<in> set bs" "rb_height m = h" using ci m by blast+
  then obtain pre post where bs: "bs = pre @ m # post" by (meson split_list)
  have am: "ancestry (get_root_block s) m (m # post)" using anc ancestry_suffix unfolding bs by metis
  show ?thesis
  proof (cases "x \<in> set (m # post)")
    case False
    with x have "x \<in> set pre" by (simp add: bs)
    then obtain i where i: "i < length pre" "bs ! i = x" by (auto simp: bs in_set_conv_nth nth_append)
    have hx: "unat (rb_height x) = length bs - 1 - i" using ancestry_nth_height [OF lk stored anc, of i] i by (simp add: bs)
    have "unat (rb_height m) = length bs - 1 - length pre"
      using ancestry_nth_height [OF lk stored anc, of "length pre"] by (simp add: bs)
    then have "h < rb_height x" using hx i mb(2) by (simp add: bs word_less_nat_alt)
    moreover have "rb_height x \<le> rb_height b" using ancestry_height_iff [OF lk stored anc] x by blast
    moreover have "canonical_at s (rb_height x) = Some x" using ci x by blast
    moreover have "h + 1 \<le> rb_height x" using \<open>h < rb_height x\<close> by (metis inc_le)
    ultimately have "x \<in> set (map (\<lambda>k. the (canonical_at s k)) (u64_range (h + 1) (rb_height b)))"
      by (force simp: image_iff)
    moreover have "length (get_blocks_from_height s (h + 1) n) = unat (rb_height b) - unat h"
      using blocks_after_match(3) [OF inv tip m] n by simp
    moreover have "unat (h + 1) = Suc (unat h)"
      using linkedD(2) [OF lk tip(2)] \<open>h < rb_height x\<close> \<open>rb_height x \<le> rb_height b\<close>
      by (simp add: unat_word_ariths word_less_nat_alt word_le_nat_alt)
    ultimately show ?thesis
      using n by (simp add: blocks_from_height [OF inv tip] length_u64_range)
  qed (use am in blast)
qed


lemma map_leD: "R \<subseteq>\<^sub>m U \<Longrightarrow> R h = Some b \<Longrightarrow> U h = Some b"
  by (auto simp: map_le_def dom_def)

lemma sent_blocks_known:
  assumes inv: "chain_inv H s" and U: "get_root_block s \<subseteq>\<^sub>m U" and x: "x \<in> set (get_blocks_from_height s a n)"
  shows "U (rb_hash H x) = Some x"
proof -
  obtain k where "canonical_at s k = Some x"
    using x by (auto simp: get_blocks_from_height_def map_filter_member dest!: in_set_takeD split: option.splits)
  then show ?thesis using map_leD [OF U] canonical_atD(2) [OF inv] by blast
qed

text \<open>When the client holds the complete ancestry of the matched block, a batch that reaches the
  tip of the server completes the server's chain.\<close>

lemma batch_completes_chain:
  assumes U: "linked_store H U" "get_root_block s \<subseteq>\<^sub>m U" "get_root_block s' \<subseteq>\<^sub>m U"
    and inv': "chain_inv H s'" and tip: "cs_best_tip s' = Some t" "get_root_block s' t = Some b"
    and anc: "ancestry (get_root_block s') b bs" and m: "canonical_at s' h = Some m"
    and n: "unat (rb_height b) - unat h \<le> n"
    and held: "get_root_block s (rb_hash H m) = Some m" "ancestry (get_root_block s) m cs"
    and R2: "get_root_block s \<subseteq>\<^sub>m R2" "\<forall>x \<in> set (get_blocks_from_height s' (h + 1) n). R2 (rb_hash H x) = Some x"
  shows "ancestry R2 b bs"
proof -
  have lk': "linked_store H (get_root_block s')" using inv' by (simp add: chain_inv_def)
  have lk: "linked_store H (get_root_block s)" by (rule linked_store_submap [OF U(1,2)])
  have "R2 (rb_hash H x) = Some x" if "x \<in> set bs" for x
    using chain_above_match [OF inv' tip anc m n that]
  proof
    assume "\<exists>post. ancestry (get_root_block s') m (m # post) \<and> x \<in> set (m # post)"
    then obtain post where "ancestry U m (m # post)" "x \<in> set (m # post)" using ancestry_mono [OF _ U(3)] by blast
    moreover have "ancestry U m cs" using ancestry_mono [OF held(2) U(2)] .
    ultimately have "x \<in> set cs" using ancestry_unique by blast
    then have "get_root_block s (rb_hash H x) = Some x" using ancestry_stored [OF held(2) lk held(1)] by blast
    then show ?thesis by (rule map_leD [OF R2(1)])
  qed (use R2(2) in blast)
  then show ?thesis using ancestry_transfer [OF anc lk'] by blast
qed

lemma last_sent_block:
  assumes inv: "chain_inv H s" and tip: "cs_best_tip s = Some t" "get_root_block s t = Some b"
    and m: "canonical_at s h = Some m" and h: "h < rb_height b" and n: "unat (rb_height b) - unat h \<le> n"
  obtains pre where "get_blocks_from_height s (h + 1) n = pre @ [b]"
proof -
  have lk: "linked_store H (get_root_block s)" using inv by (simp add: chain_inv_def)
  have un: "unat (h + 1) = Suc (unat h)"
    using linkedD(2) [OF lk tip(2)] h by (simp add: unat_word_ariths word_less_nat_alt)
  let ?f = "\<lambda>k. the (canonical_at s k)"
  have "get_blocks_from_height s (h + 1) n = map ?f (u64_range (h + 1) (rb_height b))"
    using n un by (simp add: blocks_from_height [OF inv tip] length_u64_range)
  moreover have "u64_range (h + 1) (rb_height b) =
      map word_of_nat [Suc (unat h) ..< unat (rb_height b)] @ [rb_height b]"
    using h un by (simp add: u64_range_def word_less_nat_alt)
  ultimately have "get_blocks_from_height s (h + 1) n =
      map ?f (map word_of_nat [Suc (unat h) ..< unat (rb_height b)]) @ [b]"
    using latest_height_tip(3) [OF inv tip] by simp
  then show ?thesis by (rule that)
qed

subsection \<open>Adopting a stored branch\<close>

text \<open>What the loop over branch tips keeps: the best candidate so far is one of those seen, heavier
  than the own chain, and none seen is heavier.\<close>

definition best_of :: "chain_store \<Rightarrow> u64 \<Rightarrow> hash32 set \<Rightarrow> (u64 \<times> root_block) option \<Rightarrow> bool" where
  "best_of s own seen best \<longleftrightarrow>
     (\<forall>h \<in> seen. \<forall>w. tip_weight s h w \<longrightarrow> w \<le> (case best of None \<Rightarrow> own | Some (v, _) \<Rightarrow> v)) \<and>
     (\<forall>w b. best = Some (w, b) \<longrightarrow> own < w \<and> (\<exists>h \<in> seen. get_root_block s h = Some b \<and> tip_weight s h w))"

lemma best_of_skip: "best_of s own seen best \<Longrightarrow> \<nexists>w. tip_weight s h w \<Longrightarrow> best_of s own (insert h seen) best"
  unfolding best_of_def by blast

lemma best_of_weigh:
  assumes "best_of s own seen best" and "get_root_block s h = Some b" and "tip_weight s h w"
  shows "best_of s own (insert h seen)
    (if own < w \<and> (case best of None \<Rightarrow> True | Some (v, _) \<Rightarrow> v < w) then Some (w, b) else best)"
proof (cases best)
  case None
  with assms show ?thesis unfolding best_of_def
    by (auto dest: tip_weight_unique) (meson le_less_trans less_imp_le)
next
  case (Some vb)
  with assms show ?thesis unfolding best_of_def
    by (cases vb) (auto dest: tip_weight_unique, meson le_less_trans less_imp_le)
qed

lemma heaviest_loop_correct:
  assumes inv: "chain_inv H s"
  shows "cache_ok (s\<lparr>cs_chain_weight_cache := c\<rparr>) \<Longrightarrow> best_of s own seen best \<Longrightarrow>
    \<exists>best' c'. heaviest_loop H own (s\<lparr>cs_chain_weight_cache := c\<rparr>) best hs =
        Some (best', s\<lparr>cs_chain_weight_cache := c'\<rparr>) \<and>
      cache_ok (s\<lparr>cs_chain_weight_cache := c'\<rparr>) \<and> best_of s own (seen \<union> set hs) best'"
proof (induction hs arbitrary: c best seen)
  case (Cons h hs)
  have lk: "linked_store H (get_root_block s)" using inv by (simp add: chain_inv_def)
  let ?s = "s\<lparr>cs_chain_weight_cache := c\<rparr>"
  have step: ?case if "heaviest_loop H own ?s best (h # hs) = heaviest_loop H own (s\<lparr>cs_chain_weight_cache := c1\<rparr>) best1 hs"
    "cache_ok (s\<lparr>cs_chain_weight_cache := c1\<rparr>)" "best_of s own (insert h seen) best1" for c1 best1
    using Cons.IH [OF that(2,3)] that(1) by simp
  show ?case
  proof (cases "get_root_block s h")
    case None
    then have "best_of s own (insert h seen) best"
      using Cons.prems(2) by (intro best_of_skip) (auto simp: tip_weight_def)
    with None Cons.prems(1) show ?thesis by (intro step) simp_all
  next
    case (Some b)
    have hb: "rb_hash H b = h" using linkedD(1) [OF lk Some] .
    from chain_weight_correct [of H ?s b] lk Cons.prems(1) Some hb obtain r c1 where
      cw: "chain_weight H ?s b = Some (r, s\<lparr>cs_chain_weight_cache := c1\<rparr>)" "cache_ok (s\<lparr>cs_chain_weight_cache := c1\<rparr>)"
      and r: "\<forall>w. r = Some w \<longleftrightarrow> (\<exists>bs. ancestry (get_root_block s) b bs \<and> real_weight bs = w)" by auto
    have tw: "tip_weight s h w \<longleftrightarrow> r = Some w" for w using r Some by (auto simp: tip_weight_def)
    show ?thesis
    proof (cases r)
      case None
      with tw Cons.prems(2) have "best_of s own (insert h seen) best" by (intro best_of_skip) simp_all
      with None cw Some show ?thesis by (intro step) simp_all
    next
      case (Some w)
      with tw have "tip_weight s h w" by simp
      from best_of_weigh [OF Cons.prems(2) \<open>get_root_block s h = Some b\<close> this] show ?thesis
        using Some cw \<open>get_root_block s h = Some b\<close> by (intro step) simp_all
    qed
  qed
qed auto


lemma fork_branch_tips_frame [simp]:
  "fork_branch_tips H (s\<lparr>cs_chain_weight_cache := c\<rparr>) = fork_branch_tips H s"
  by (simp add: fork_branch_tips_def off_chain_blocks_def get_root_hash_at_height_def)

lemma heaviest_adoptable_correct:
  assumes inv: "chain_inv H s"
  shows "\<exists>own best c. heaviest_adoptable_fork_tip H s = Some (map_option snd best, s\<lparr>cs_chain_weight_cache := c\<rparr>) \<and>
    chain_inv H (s\<lparr>cs_chain_weight_cache := c\<rparr>) \<and> best_of s own (set (fork_branch_tips H s)) best \<and>
    (case cs_best_tip s of None \<Rightarrow> own = 0 | Some t \<Rightarrow> tip_weight s t own)"
proof -
  have lk: "linked_store H (get_root_block s)" and ca: "cache_ok s" using inv by (simp_all add: chain_inv_def)
  have "\<exists>w c. (case get_best_tip_block s of None \<Rightarrow> Some (None, s) | Some tip \<Rightarrow> chain_weight H s tip) =
        Some (w, s\<lparr>cs_chain_weight_cache := c\<rparr>) \<and> cache_ok (s\<lparr>cs_chain_weight_cache := c\<rparr>) \<and>
      (case cs_best_tip s of None \<Rightarrow> w = None | Some t \<Rightarrow> \<exists>v. w = Some v \<and> tip_weight s t v)"
  proof (cases "cs_best_tip s")
    case None
    then show ?thesis
      using ca by (intro exI [of _ None] exI [of _ "cs_chain_weight_cache s"]) (simp add: get_best_tip_block_def)
  next
    case (Some t)
    from canon_tip [OF inv Some] obtain b bs where b: "get_root_block s t = Some b"
      "ancestry (get_root_block s) b bs" "get_root_block s (rb_hash H b) = Some b" by metis
    from chain_weight_known [OF lk ca b(3,2)] b Some show ?thesis
      by (auto simp: get_best_tip_block_def tip_weight_def)
  qed
  then obtain w c where w: "(case get_best_tip_block s of None \<Rightarrow> Some (None, s) | Some tip \<Rightarrow> chain_weight H s tip) =
        Some (w, s\<lparr>cs_chain_weight_cache := c\<rparr>)" "cache_ok (s\<lparr>cs_chain_weight_cache := c\<rparr>)"
    "case cs_best_tip s of None \<Rightarrow> w = None | Some t \<Rightarrow> \<exists>v. w = Some v \<and> tip_weight s t v" by blast
  let ?own = "case w of Some x \<Rightarrow> x | None \<Rightarrow> 0"
  have "best_of s ?own {} None" by (simp add: best_of_def)
  from heaviest_loop_correct [OF inv w(2) this, of "fork_branch_tips H s"] obtain best c' where
    l: "heaviest_loop H ?own (s\<lparr>cs_chain_weight_cache := c\<rparr>) None (fork_branch_tips H s) =
        Some (best, s\<lparr>cs_chain_weight_cache := c'\<rparr>)" "cache_ok (s\<lparr>cs_chain_weight_cache := c'\<rparr>)"
      "best_of s ?own (set (fork_branch_tips H s)) best" by auto
  have "heaviest_adoptable_fork_tip H s = Some (map_option snd best, s\<lparr>cs_chain_weight_cache := c'\<rparr>)"
    using w(1) l(1) by (simp add: heaviest_adoptable_fork_tip_def)
  moreover have "case cs_best_tip s of None \<Rightarrow> ?own = 0 | Some t \<Rightarrow> tip_weight s t ?own"
    using w(3) by (auto split: option.splits)
  ultimately show ?thesis using l(3) chain_inv_cache [OF inv l(2)] by blast
qed

lemma stored_admissible:
  "chain_inv H s \<Longrightarrow> get_root_block s (rb_hash H b) = Some b \<Longrightarrow> admissible H s b"
  by (simp add: admissible_def chain_inv_def map_upd_triv)

lemma tip_at_least_frame [simp]:
  "tip_at_least (s\<lparr>cs_chain_weight_cache := c\<rparr>) w = tip_at_least s w"
  by (simp add: tip_at_least_def tip_weight_def)

text \<open>Putting a stored block again adopts it when its stored ancestry is heavier than the tip.\<close>

lemma put_heavier_stored:
  assumes inv: "chain_inv H s" and stored: "get_root_block s (rb_hash H b) = Some b"
    and anc: "ancestry (get_root_block s) b bs"
    and heavier: "\<forall>t w. cs_best_tip s = Some t \<and> tip_weight s t w \<longrightarrow> w < real_weight bs"
  shows "\<exists>d s'. put_root_block_with_fork_resolution_reporting H s b = Some ((rb_hash H b, True, d), s') \<and>
    chain_inv H s' \<and> get_root_block s' = get_root_block s \<and> cs_best_tip s' = Some (rb_hash H b)"
proof -
  from put_with_fork_resolution [OF inv stored_admissible [OF inv stored]] obtain nt d s' where
    put: "put_root_block_with_fork_resolution_reporting H s b = Some ((rb_hash H b, nt, d), s')"
    and out: "put_outcome H s b nt d s'" by blast
  note o = out [unfolded put_outcome_def]
  have inv': "chain_inv H s'" and upd: "get_root_block s' = (get_root_block s)(rb_hash H b \<mapsto> b)"
    and adopt: "\<forall>bs. ancestry (get_root_block s') b bs \<and>
      (\<forall>t w. cs_best_tip s = Some t \<and> tip_weight s t w \<longrightarrow> w < real_weight bs) \<longrightarrow> nt"
    by (insert o, elim conjE, assumption)+
  have get: "get_root_block s' = get_root_block s" using upd stored by (simp add: map_upd_triv)
  have nt using adopt anc heavier unfolding get by blast
  then have "cs_best_tip s' = Some (rb_hash H b)" using o by simp
  with put inv' get \<open>nt\<close> show ?thesis by simp
qed

subsection \<open>Sample stores\<close>

text \<open>A node that holds only genesis, and one that is on the lighter of two branches it holds.\<close>

definition new_store :: chain_store where
  "new_store = empty_store\<lparr>cs_root_blocks := [(replicate 24 0 @ u64_be 1, genesis 1)],
     cs_height_index := [(0, replicate 24 0 @ u64_be 1)], cs_best_tip := Some (replicate 24 0 @ u64_be 1)\<rparr>"

definition lagging_store :: chain_store where
  "lagging_store = fork_store\<lparr>
     cs_height_index := [(0, replicate 24 0 @ u64_be 1), (1, replicate 24 0 @ u64_be 3)],
     cs_best_tip := Some (replicate 24 0 @ u64_be 3)\<rparr>"

lemma new_store_get: "get_root_block new_store h = (if h = replicate 24 0 @ u64_be 1 then Some (genesis 1) else None)"
  by (simp add: get_root_block_def new_store_def tree_get_def)

lemma new_store_sub: "get_root_block new_store \<subseteq>\<^sub>m get_root_block fork_store"
  by (auto simp: map_le_def new_store_get fork_store_get split: if_splits)

lemma new_store_inv: "chain_inv ts_digest new_store"
proof -
  have "linked_store ts_digest (get_root_block fork_store)" using fork_store_inv by (simp add: chain_inv_def)
  from linked_store_submap [OF this new_store_sub] have "linked_store ts_digest (get_root_block new_store)" .
  moreover have "cache_ok new_store" by (simp add: cache_ok_def new_store_def empty_store_def)
  moreover have "ancestry (get_root_block new_store) (genesis 1) [genesis 1]" by (rule ancestry_root) simp
  then have "canon_ok ts_digest new_store"
    by (auto simp: canon_ok_def new_store_def height_map_def tree_get_def get_root_block_def fun_eq_iff)
  ultimately show ?thesis by (simp add: chain_inv_def)
qed

lemma new_store_keys: "keys_distinct new_store"
  by (simp add: keys_distinct_def new_store_def)

lemma new_store_locator: "generate_locator H new_store = [replicate 24 0 @ u64_be 1]"
  by (simp add: generate_locator_def new_store_def get_latest_height_def indexed_hashes_def
      get_root_hash_at_height_def tree_get_def List.map_filter_simps)

lemma new_store_gaps: "fork_ancestry_gaps new_store n = []"
  by (simp add: fork_ancestry_gaps_def new_store_def tree_iter_def gap_step_def sort_tips_def)

lemma fork_store_match: "find_locator_match fork_store [replicate 24 0 @ u64_be 1] = Some 0"
  by (simp add: fork_store_get) (simp add: fork_store_def get_root_hash_at_height_def tree_get_def)

lemma fork_store_tip: "get_best_tip_block fork_store = Some (child_block 2 100 0)"
  using fork_store_stored(1) by (simp add: get_best_tip_block_def fork_store_def)

lemma lagging_store_inv: "chain_inv ts_digest lagging_store"
proof -
  have get: "get_root_block lagging_store = get_root_block fork_store" by (simp add: lagging_store_def)
  have "linked_store ts_digest (get_root_block lagging_store)" using fork_store_inv by (simp add: chain_inv_def get)
  moreover have "cache_ok lagging_store" by (simp add: cache_ok_def lagging_store_def fork_store_def empty_store_def)
  moreover have "tree_get (cs_height_index lagging_store) = height_map ts_digest [child_block 3 1 999, genesis 1]"
    by (auto simp: lagging_store_def tree_get_def height_map_def fun_eq_iff)
  then have "canon_ok ts_digest lagging_store"
    using child_ancestry [of 3 1 999] fork_store_stored(2)
    by (auto simp: canon_ok_def get) (auto simp: lagging_store_def)
  ultimately show ?thesis by (simp add: chain_inv_def)
qed

lemma keys_distinct_fork: "keys_distinct fork_store"
  by (simp add: keys_distinct_def fork_store_def)

lemma fork_tips_few:
  assumes "length (cs_root_blocks s) \<le> 6"
  shows "h \<in> set (fork_branch_tips H s) \<longleftrightarrow>
    (\<exists>b \<in> set (off_chain_blocks H s). rb_hash H b = h) \<and> (\<forall>b \<in> set (off_chain_blocks H s). rb_prev_root_hash b \<noteq> h)"
proof -
  let ?es = "filter (\<lambda>e. snd e \<notin> set (map rb_prev_root_hash (off_chain_blocks H s))) (map (height_entry H) (off_chain_blocks H s))"
  have "length ?es \<le> length (map (height_entry H) (off_chain_blocks H s))" by (rule length_filter_le)
  then have "length ?es \<le> length (off_chain_blocks H s)" by simp
  also have "\<dots> \<le> length (cs_root_blocks s)"
    unfolding off_chain_blocks_def by (rule order_trans [OF length_filter_le]) (simp add: tree_iter_def)
  finally have "take 6 (sort_tips ?es) = sort_tips ?es" using assms by simp
  then have "set (fork_branch_tips H s) = snd ` set ?es"
    by (simp add: fork_branch_tips_def Let_def MAX_FORK_LOCATOR_TIPS_def)
  then show ?thesis by (auto simp: image_iff)
qed

lemma lagging_store_tip: "replicate 24 0 @ u64_be 2 \<in> set (fork_branch_tips ts_digest lagging_store)"
proof -
  have get: "get_root_block lagging_store = get_root_block fork_store" by (simp add: lagging_store_def)
  have lk: "linked_store ts_digest (get_root_block lagging_store)" using lagging_store_inv by (simp add: chain_inv_def)
  have kd: "keys_distinct lagging_store" using keys_distinct_fork by (simp add: keys_distinct_def lagging_store_def)
  have idx: "get_root_hash_at_height lagging_store k = (if k = 0 then Some (replicate 24 0 @ u64_be 1)
      else if k = 1 then Some (replicate 24 0 @ u64_be 3) else None)" for k
    by (simp add: lagging_store_def get_root_hash_at_height_def tree_get_def)
  have "b \<in> set (off_chain_blocks ts_digest lagging_store) \<longleftrightarrow> b = child_block 2 100 0" for b
    unfolding off_chain_iff [OF lk kd] get idx by (auto simp: fork_store_get split: if_splits)
  moreover have "length (cs_root_blocks lagging_store) \<le> 6" by (simp add: lagging_store_def fork_store_def)
  ultimately show ?thesis by (simp add: fork_tips_few)
qed

subsection \<open>Properties\<close>

text \<open>
  C10. A locator round attaches: when two nodes share their genesis, the node that serves a locator
  always finds a canonical block in it, the requesting node holds that block, and what is sent is
  the chain above it: each block extends the one before by parent hash and height, the first one
  the matched block, as many as asked for or up to the tip.
\<close>

theorem locator_sync_attaches:
  assumes inv: "chain_inv H s" and kd: "keys_distinct s" and inv': "chain_inv H s'"
    and g: "get_root_hash_at_height s 0 = Some g" "get_root_hash_at_height s' 0 = Some g"
  shows "\<exists>h m tip. find_locator_match s' (generate_locator H s) = Some h \<and> canonical_at s' h = Some m \<and>
    get_root_block s (rb_hash H m) \<noteq> None \<and> get_best_tip_block s' = Some tip \<and>
    successively (extends H) (m # get_blocks_from_height s' (h + 1) n) \<and>
    length (get_blocks_from_height s' (h + 1) n) = min n (unat (rb_height tip) - unat h)"
proof -
  have "g \<in> set (generate_locator H s)" using locator_genesis [OF g(1)] by (metis last_in_set)
  moreover obtain y where "canonical_at s' 0 = Some y" "rb_hash H y = g" using index_iff_canonical [OF inv'] g(2) by blast
  ultimately obtain h where h: "find_locator_match s' (generate_locator H s) = Some h"
    using find_locator_match_exists [OF inv'] by blast
  obtain m t b where m: "canonical_at s' h = Some m" "get_root_block s (rb_hash H m) \<noteq> None"
    "cs_best_tip s' = Some t" "get_root_block s' t = Some b" "get_best_tip_block s' = Some b" "h \<le> rb_height b"
    by (rule locator_match [OF inv kd inv' h]) (rule that)
  from h m blocks_after_match(2,3) [OF inv' m(3,4,1)] show ?thesis by blast
qed

theorem locator_sync_attaches_witness:
  "\<exists>h m. find_locator_match fork_store (generate_locator ts_digest new_store) = Some h \<and>
     canonical_at fork_store h = Some m \<and>
     successively (extends ts_digest) (m # get_blocks_from_height fork_store (h + 1) 50)"
proof -
  have "get_root_hash_at_height new_store 0 = Some (replicate 24 0 @ u64_be 1)"
    "get_root_hash_at_height fork_store 0 = Some (replicate 24 0 @ u64_be 1)"
    by (simp_all add: new_store_def fork_store_def get_root_hash_at_height_def tree_get_def)
  from locator_sync_attaches [OF new_store_inv new_store_keys fork_store_inv this, of 50]
  show ?thesis by blast
qed

text \<open>A stored tip with more work than the best tip is adopted when its block is put again.\<close>

lemma put_stored_tip_adopts:
  assumes inv: "chain_inv H s" and b: "get_root_block s x = Some b" and w: "tip_weight s x v"
    and less: "\<forall>t u. cs_best_tip s = Some t \<and> tip_weight s t u \<longrightarrow> u < v"
  shows "\<exists>d s'. put_root_block_with_fork_resolution_reporting H s b = Some ((x, True, d), s') \<and> chain_inv H s' \<and>
    cs_best_tip s' = Some x \<and> tip_weight s' x v"
proof -
  have "linked_store H (get_root_block s)" using inv by (simp only: chain_inv_def)
  then have hx: "rb_hash H b = x" using linkedD(1) b by blast
  obtain bs where bs: "ancestry (get_root_block s) b bs" "real_weight bs = v" using b w by (auto simp: tip_weight_def)
  from put_heavier_stored [OF inv, of b bs] b hx bs less obtain d s' where
    "put_root_block_with_fork_resolution_reporting H s b = Some ((rb_hash H b, True, d), s')"
    "chain_inv H s'" "get_root_block s' = get_root_block s" "cs_best_tip s' = Some x" by auto
  with hx w tip_weight_frame [of s' s] show ?thesis by auto
qed

lemma adopt_heaviest_fork:
  assumes inv: "chain_inv H s"
  shows "\<exists>adopted actions s'. adopt_heaviest_fork_if_any H s = Some ((adopted, actions), s') \<and> chain_inv H s' \<and>
    (adopted \<longleftrightarrow> (\<exists>h \<in> set (fork_branch_tips H s). \<exists>w. tip_weight s h w \<and> 0 < w \<and> \<not> tip_at_least s w)) \<and>
    (\<forall>h \<in> set (fork_branch_tips H s). \<forall>w. tip_weight s h w \<and> 0 < w \<longrightarrow> tip_at_least s' w) \<and>
    (\<not> adopted \<longrightarrow> actions = [] \<and> (\<exists>c. s' = s\<lparr>cs_chain_weight_cache := c\<rparr>))"
proof -
  from heaviest_adoptable_correct [OF inv] obtain own best c where
    h: "heaviest_adoptable_fork_tip H s = Some (map_option snd best, s\<lparr>cs_chain_weight_cache := c\<rparr>)"
    and inv1: "chain_inv H (s\<lparr>cs_chain_weight_cache := c\<rparr>)"
    and best: "best_of s own (set (fork_branch_tips H s)) best"
    and own: "case cs_best_tip s of None \<Rightarrow> own = 0 | Some t \<Rightarrow> tip_weight s t own" by blast
  have tal: "tip_at_least s w \<longleftrightarrow> w \<le> own" if "0 < w" for w
    using own that unfolding tip_at_least_def by (auto split: option.splits dest: tip_weight_unique)
  show ?thesis
  proof (cases best)
    case None
    then have "adopt_heaviest_fork_if_any H s = Some ((False, []), s\<lparr>cs_chain_weight_cache := c\<rparr>)"
      using h by (simp add: adopt_heaviest_fork_if_any_def)
    moreover have "tip_at_least s w" if "h \<in> set (fork_branch_tips H s)" "tip_weight s h w" "0 < w" for h w
      using best None that tal by (auto simp: best_of_def)
    ultimately show ?thesis using inv1 by fastforce
  next
    case (Some vb)
    obtain v b where vb: "vb = (v, b)" by fastforce
    then obtain x where x: "own < v" "x \<in> set (fork_branch_tips H s)" "get_root_block s x = Some b" "tip_weight s x v"
      using best Some by (auto simp: best_of_def)
    let ?s1 = "s\<lparr>cs_chain_weight_cache := c\<rparr>"
    have fr: "tip_weight ?s1 = tip_weight s" using tip_weight_frame [of ?s1 s] by (intro ext) simp
    have "\<forall>t u. cs_best_tip ?s1 = Some t \<and> tip_weight ?s1 t u \<longrightarrow> u < v"
      unfolding fr using own x(1) by (auto dest: tip_weight_unique)
    from put_stored_tip_adopts [OF inv1 _ _ this, of x b] x(3,4) fr obtain d s' where
      put: "put_root_block_with_fork_resolution_reporting H ?s1 b = Some ((x, True, d), s')"
      and s': "chain_inv H s'" "tip_weight s' x v" "cs_best_tip s' = Some x" by auto
    from s'(2,3) have new: "tip_at_least s' w" if "w \<le> v" for w using that by (auto simp: tip_at_least_def)
    have all: "w \<le> v" if "h \<in> set (fork_branch_tips H s)" "tip_weight s h w" for h w
      using best Some vb that by (auto simp: best_of_def)
    have "0 < v \<and> \<not> tip_at_least s v" using tal [of v] x(1) by (cases "v = 0") (auto simp: word_gt_0)
    then have ex: "\<exists>h \<in> set (fork_branch_tips H s). \<exists>w. tip_weight s h w \<and> 0 < w \<and> \<not> tip_at_least s w"
      using x(2,4) by blast
    have "\<exists>actions. adopt_heaviest_fork_if_any H s = Some ((True, actions), s')"
      using h Some vb put by (simp add: adopt_heaviest_fork_if_any_def)
    with s'(1) ex new all show ?thesis by blast
  qed
qed

text \<open>Which branch tips are looked at: the six highest.\<close>

lemma sorted_sort_tips: "sorted_wrt before_tip (sort_tips es)"
proof -
  have before: "before_tip a b \<or> before_tip b a" and trans: "before_tip a b \<Longrightarrow> before_tip b c \<Longrightarrow> before_tip a c" for a b c
    by (auto simp: before_tip_def)
  have "sorted_wrt before_tip fs \<Longrightarrow> sorted_wrt before_tip (insert_tip e fs)" for e fs
    by (induction fs) (use before trans in \<open>auto, blast+\<close>)
  then show ?thesis by (induction es) (simp_all add: sort_tips_def)
qed

lemma tips_left_out:
  assumes "b \<in> set (off_chain_blocks H s)" "rb_hash H b \<notin> rb_prev_root_hash ` set (off_chain_blocks H s)"
    and "rb_hash H b \<notin> set (fork_branch_tips H s)" and "h \<in> set (fork_branch_tips H s)"
  shows "length (fork_branch_tips H s) = MAX_FORK_LOCATOR_TIPS"
    "\<exists>c \<in> set (off_chain_blocks H s). rb_hash H c = h \<and> rb_height b \<le> rb_height c"
proof -
  let ?es = "filter (\<lambda>e. snd e \<notin> set (map rb_prev_root_hash (off_chain_blocks H s))) (map (height_entry H) (off_chain_blocks H s))"
  let ?l = "sort_tips ?es"
  have tips: "fork_branch_tips H s = map snd (take MAX_FORK_LOCATOR_TIPS ?l)" by (simp add: fork_branch_tips_def Let_def)
  have "height_entry H b \<in> set ?l" using assms(1,2) by auto
  moreover have "height_entry H b \<notin> set (take MAX_FORK_LOCATOR_TIPS ?l)" using assms(3) unfolding tips by force
  moreover have "set (take MAX_FORK_LOCATOR_TIPS ?l) \<union> set (drop MAX_FORK_LOCATOR_TIPS ?l) = set ?l"
    by (simp only: set_append [symmetric] append_take_drop_id)
  ultimately have bd: "height_entry H b \<in> set (drop MAX_FORK_LOCATOR_TIPS ?l)" by blast
  then have "drop MAX_FORK_LOCATOR_TIPS ?l \<noteq> []" by auto
  then show "length (fork_branch_tips H s) = MAX_FORK_LOCATOR_TIPS" by (simp add: tips)
  obtain k where k: "(k, h) \<in> set (take MAX_FORK_LOCATOR_TIPS ?l)" using assms(4) by (auto simp: tips)
  have "sorted_wrt before_tip (take MAX_FORK_LOCATOR_TIPS ?l @ drop MAX_FORK_LOCATOR_TIPS ?l)"
    using sorted_sort_tips [of ?es] by simp
  then have "before_tip (k, h) (height_entry H b)" using k bd unfolding sorted_wrt_append by blast
  then have "rb_height b \<le> k" by (auto simp: before_tip_def)
  moreover have "(k, h) \<in> set ?l" using k by (rule in_set_takeD)
  ultimately show "\<exists>c \<in> set (off_chain_blocks H s). rb_hash H c = h \<and> rb_height b \<le> rb_height c" by auto
qed

text \<open>
  C11. The periodic pass over stored branches returns and keeps the store valid. It looks at the tips
  of at most six branches: one that is left out is no higher than any of the six. It adopts exactly when
  one of those it looks at has complete ancestry with more work than the tip; after it none of these is
  heavier than the tip, and without adoption only the memo has changed.
\<close>

theorem adopt_heaviest_fork_correct:
  assumes inv: "chain_inv H s"
  shows "\<exists>adopted actions s'. adopt_heaviest_fork_if_any H s = Some ((adopted, actions), s') \<and> chain_inv H s' \<and>
    (adopted \<longleftrightarrow> (\<exists>h \<in> set (fork_branch_tips H s). \<exists>w. tip_weight s h w \<and> 0 < w \<and> \<not> tip_at_least s w)) \<and>
    (\<forall>h \<in> set (fork_branch_tips H s). \<forall>w. tip_weight s h w \<and> 0 < w \<longrightarrow> tip_at_least s' w) \<and>
    (\<not> adopted \<longrightarrow> actions = [] \<and> (\<exists>c. s' = s\<lparr>cs_chain_weight_cache := c\<rparr>)) \<and>
    length (fork_branch_tips H s) \<le> 6 \<and>
    (\<forall>b \<in> set (off_chain_blocks H s). rb_hash H b \<notin> rb_prev_root_hash ` set (off_chain_blocks H s) \<and>
       rb_hash H b \<notin> set (fork_branch_tips H s) \<longrightarrow>
       (\<forall>h \<in> set (fork_branch_tips H s). length (fork_branch_tips H s) = 6 \<and>
          (\<exists>c \<in> set (off_chain_blocks H s). rb_hash H c = h \<and> rb_height b \<le> rb_height c)))"
proof -
  have len: "length (fork_branch_tips H s) \<le> 6" by (simp add: fork_branch_tips_def Let_def MAX_FORK_LOCATOR_TIPS_def)
  have left: "\<forall>b \<in> set (off_chain_blocks H s). rb_hash H b \<notin> rb_prev_root_hash ` set (off_chain_blocks H s) \<and>
       rb_hash H b \<notin> set (fork_branch_tips H s) \<longrightarrow>
       (\<forall>h \<in> set (fork_branch_tips H s). length (fork_branch_tips H s) = 6 \<and>
          (\<exists>c \<in> set (off_chain_blocks H s). rb_hash H c = h \<and> rb_height b \<le> rb_height c))"
    using tips_left_out [of _ H s] unfolding MAX_FORK_LOCATOR_TIPS_def by simp
  from adopt_heaviest_fork [OF inv] show ?thesis by (elim exE conjE) (intro exI conjI, (assumption | rule len left)+)
qed

theorem adopt_heaviest_fork_correct_witness:
  "\<exists>actions s'. adopt_heaviest_fork_if_any ts_digest lagging_store = Some ((True, actions), s') \<and> chain_inv ts_digest s'"
proof -
  have get: "get_root_block lagging_store = get_root_block fork_store" by (simp add: lagging_store_def)
  have tw: "tip_weight lagging_store (replicate 24 0 @ u64_be 2) 100" "tip_weight lagging_store (replicate 24 0 @ u64_be 3) 1"
    using child_ancestry [of 2 100 0] child_ancestry [of 3 1 999] fork_store_stored
    by (force simp: tip_weight_def get sat_add_def)+
  have "cs_best_tip lagging_store = Some (replicate 24 0 @ u64_be 3)" by (simp add: lagging_store_def)
  then have "\<not> tip_at_least lagging_store 100"
    unfolding tip_at_least_def by (auto dest!: tip_weight_unique [OF tw(2)] simp: word_le_nat_alt)
  then have "\<exists>h \<in> set (fork_branch_tips ts_digest lagging_store). \<exists>w.
      tip_weight lagging_store h w \<and> 0 < w \<and> \<not> tip_at_least lagging_store w"
    using lagging_store_tip tw(1) by (intro bexI exI [of _ 100]) simp_all
  with adopt_heaviest_fork_correct [OF lagging_store_inv] show ?thesis by (elim exE conjE) auto
qed

end
