(* ===== verification/Chain_Repair.thy ===== *)
theory Chain_Repair
  imports Sync_Correct
begin

text \<open>
  Validation, rollback and repair of the canonical chain: validation finds the end of the run of
  valid heights; a rollback detaches heights from the top and keeps the store valid; a repair
  rolls back what is not valid, unless the block of a height is missing.
\<close>

subsection \<open>Validation\<close>

text \<open>What validation demands of a height of the index.\<close>

definition height_valid :: "chain_store \<Rightarrow> u64 \<Rightarrow> bool" where
  "height_valid s k \<longleftrightarrow>
     (case canonical_at s k of
        None \<Rightarrow> False
      | Some b \<Rightarrow> rb_height b = k \<and>
          (1 < k \<longrightarrow> get_root_hash_at_height s (k - 1) = Some (rb_prev_root_hash b) \<and>
             get_root_block s (rb_prev_root_hash b) \<noteq> None))"

lemma validate_loop_step:
  assumes "1 < k \<longrightarrow> prev = get_root_hash_at_height s (k - 1) \<and> prev \<noteq> None"
  shows "validate_loop s lv prev (k # ks) =
    (if height_valid s k then validate_loop s k (get_root_hash_at_height s k) ks else lv)"
  using assms by (auto simp: height_valid_def canonical_at_def split: option.splits)

lemma height_valid_indexed: "height_valid s k \<Longrightarrow> get_root_hash_at_height s k \<noteq> None"
  by (auto simp: height_valid_def canonical_at_def bind_eq_Some_conv split: option.splits)

lemma unat_u64_pred: "(a :: u64) \<noteq> 0 \<Longrightarrow> unat (a - 1) = unat a - 1"
  by (simp add: unat_minus_one)

lemma u64_pred_less: "(a :: u64) \<noteq> 0 \<Longrightarrow> a - 1 < a"
  using unat_eq_zero [of a] by (simp add: word_less_nat_alt unat_u64_pred)

text \<open>The loop finds the end of the run of valid heights that starts at \<open>a\<close>.\<close>

lemma validate_loop_correct:
  assumes "a \<noteq> 0" and "a \<le> t" and "1 < a \<longrightarrow> prev = get_root_hash_at_height s (a - 1) \<and> prev \<noteq> None"
  shows "let v = validate_loop s (a - 1) prev (u64_range a t)
    in a - 1 \<le> v \<and> v \<le> t \<and> (\<forall>k. a \<le> k \<and> k \<le> v \<longrightarrow> height_valid s k) \<and> (v < t \<longrightarrow> \<not> height_valid s (v + 1))"
  using assms
proof (induction "unat t - unat a" arbitrary: a prev)
  case 0
  then have at: "a = t" by (simp add: word_le_nat_alt word_unat_eq_iff)
  have "a - 1 < a" using 0(2) by (rule u64_pred_less)
  then have "\<not> (a \<le> k \<and> k \<le> a - 1)" for k by auto
  moreover have "\<And>k. a \<le> k \<and> k \<le> a \<longrightarrow> k = a" by auto
  ultimately show ?case
    using validate_loop_step [OF 0(4)] at \<open>a - 1 < a\<close> by (auto simp: u64_range_Cons Let_def)
next
  case (Suc n)
  then have ne: "a \<noteq> t" by auto
  with Suc.prems(2) have lt: "a < t" by simp
  have un: "unat (a + 1) = Suc (unat a)"
    using lt unat_u64_less [of t] by (simp add: unat_word_ariths word_less_nat_alt)
  have a1: "a + 1 \<noteq> 0" "a + 1 \<le> t" "a < a + 1" using un lt by (auto simp: word_le_nat_alt word_less_nat_alt)
  have a0: "a - 1 < a" using Suc.prems(1) by (rule u64_pred_less)
  have range: "u64_range a t = a # u64_range (a + 1) t" using u64_range_Cons [OF Suc.prems(2)] ne by simp
  show ?case
  proof (cases "height_valid s a")
    case False
    then show ?thesis
      using validate_loop_step [OF Suc.prems(3)] a0 lt unfolding range by (auto simp: Let_def)
  next
    case True
    let ?v = "validate_loop s a (get_root_hash_at_height s a) (u64_range (a + 1) t)"
    have "get_root_hash_at_height s a \<noteq> None" using height_valid_indexed [OF True] .
    then have IH: "a \<le> ?v \<and> ?v \<le> t \<and> (\<forall>k. a + 1 \<le> k \<and> k \<le> ?v \<longrightarrow> height_valid s k) \<and> (?v < t \<longrightarrow> \<not> height_valid s (?v + 1))"
      using Suc.hyps(1) [of "a + 1" "get_root_hash_at_height s a"] Suc.hyps(2) un a1 by (simp add: Let_def)
    moreover have "height_valid s k" if "a \<le> k \<and> k \<le> ?v" for k
      using that IH True by (cases "k = a") (auto simp: inc_le)
    moreover have "validate_loop s (a - 1) prev (u64_range a t) = ?v"
      using validate_loop_step [OF Suc.prems(3)] True unfolding range by simp
    ultimately show ?thesis using a0 by (auto simp: Let_def)
  qed
qed

lemma validate_chain_spec:
  assumes "get_latest_height s = Some t"
  shows "validate_chain s \<le> t" "1 \<le> k \<Longrightarrow> k \<le> validate_chain s \<Longrightarrow> height_valid s k"
    "validate_chain s < t \<Longrightarrow> \<not> height_valid s (validate_chain s + 1)"
proof -
  have "validate_chain s \<le> t \<and> (\<forall>k. 1 \<le> k \<and> k \<le> validate_chain s \<longrightarrow> height_valid s k) \<and>
    (validate_chain s < t \<longrightarrow> \<not> height_valid s (validate_chain s + 1))"
  proof (cases "t = 0")
    case True
    then have "validate_chain s = 0" using assms by (simp add: validate_chain_def u64_range_empty)
    with True show ?thesis by auto
  next
    case False
    then have "1 \<le> t" by (simp add: word_le_nat_alt unat_eq_zero Suc_le_eq) (metis unat_eq_zero neq0_conv)
    with validate_loop_correct [of 1 t None s] assms show ?thesis by (simp add: validate_chain_def Let_def)
  qed
  then show "validate_chain s \<le> t" "1 \<le> k \<Longrightarrow> k \<le> validate_chain s \<Longrightarrow> height_valid s k"
    "validate_chain s < t \<Longrightarrow> \<not> height_valid s (validate_chain s + 1)" by blast+
qed

lemma chain_inv_height_valid:
  assumes inv: "chain_inv H s" and tip: "cs_best_tip s = Some t" "get_root_block s t = Some b" and k: "k \<le> rb_height b"
  shows "height_valid s k"
proof -
  note all = latest_height_tip(2) [OF inv tip]
  obtain y where y: "canonical_at s k = Some y" using all k by blast
  have "get_root_hash_at_height s (k - 1) = Some (rb_prev_root_hash y) \<and> get_root_block s (rb_prev_root_hash y) \<noteq> None" if "1 < k"
  proof -
    have "k - 1 \<le> k" using that u64_pred_less [of k] by fastforce
    then obtain p where p: "canonical_at s (k - 1) = Some p" using all k by (meson order_trans)
    have "k \<noteq> 0" using that by auto
    then have "extends H p y" using canonical_extends [OF inv p, of y] y by simp
    then show ?thesis
      using index_iff_canonical [OF inv, of "k - 1"] p canonical_atD(2) [OF inv p] by (auto simp: extends_def)
  qed
  with y canonical_atD(1) [OF inv y] show ?thesis by (simp add: height_valid_def)
qed

lemma validate_chain_tip:
  assumes inv: "chain_inv H s" and t: "get_latest_height s = Some t"
  shows "validate_chain s = t"
proof (rule ccontr)
  assume "validate_chain s \<noteq> t"
  then have lt: "validate_chain s < t" using validate_chain_spec(1) [OF t] by simp
  have "get_root_hash_at_height s t \<noteq> None"
    using tree_last_Some [of "cs_height_index s" t] t by (simp add: get_latest_height_def get_root_hash_at_height_def)
  then obtain h b where tip: "cs_best_tip s = Some h" "get_root_block s h = Some b"
    using index_has_tip [OF inv] by (metis option.exhaust)
  have "rb_height b = t" using latest_height_tip(1) [OF inv tip] t by simp
  with lt have "validate_chain s + 1 \<le> rb_height b" by (metis inc_le)
  then show False using chain_inv_height_valid [OF inv tip] validate_chain_spec(3) [OF t lt] by blast
qed

subsection \<open>Rolling back\<close>

definition action_hashes :: "(bytes \<Rightarrow> hash32) \<Rightarrow> returned_action list \<Rightarrow> hash32 list" where
  "action_hashes H acts = map (\<lambda>(_, _, a, _). action_hash H a) acts"

lemma unmark_all:
  "foldl (\<lambda>t (_, _, a, _). unmark_action_finalized t (action_hash H a)) s acts =
     s\<lparr>cs_finalized_actions := foldl tree_remove (cs_finalized_actions s) (action_hashes H acts)\<rparr>"
  by (induction acts arbitrary: s) (auto simp: unmark_action_finalized_def action_hashes_def)

text \<open>One height, in any store.\<close>

lemma rollback_single_shape:
  assumes "canonical_at s height = Some b"
  shows "\<exists>t. rollback_single_height H s height =
    (get_actions_at_height s height,
     s\<lparr>cs_finalized_actions := foldl tree_remove (cs_finalized_actions s) (action_hashes H (get_actions_at_height s height)),
       cs_height_index := tree_remove (cs_height_index s) height, cs_best_tip := t\<rparr>) \<and>
    t = (if cs_best_tip s = get_root_hash_at_height s height \<and> height > 0 \<and> get_root_hash_at_height s (height - 1) \<noteq> None
         then get_root_hash_at_height s (height - 1) else cs_best_tip s)"
proof -
  obtain h where h: "get_root_hash_at_height s height = Some h" "get_root_block s h = Some b"
    using assms by (auto simp: canonical_at_def bind_eq_Some_conv)
  have "height > 0 \<Longrightarrow> height - 1 \<noteq> height" using u64_pred_less [of height] by (auto simp: word_gt_0)
  with h show ?thesis
    by (auto simp: rollback_single_height_def Let_def unmark_all remove_height_index_def set_best_tip_def
        get_root_hash_at_height_def split: option.splits)
qed

lemma rollback_single_missing:
  "canonical_at s height = None \<Longrightarrow> rollback_single_height H s height = ([], s)"
  by (auto simp: canonical_at_def rollback_single_height_def split: option.splits)

lemma canonical_at_frame:
  "canonical_at (s\<lparr>cs_finalized_actions := fa\<rparr>) = canonical_at s"
  "canonical_at (s\<lparr>cs_best_tip := t\<rparr>) = canonical_at s"
  "canonical_at (s\<lparr>cs_height_index := tree_remove (cs_height_index s) k\<rparr>) = (canonical_at s)(k := None)"
  by (auto simp: canonical_at_def get_root_hash_at_height_def fun_eq_iff)

lemma get_actions_frame:
  assumes "cs_root_blocks s' = cs_root_blocks s" "cs_space_blocks s' = cs_space_blocks s"
    "cs_content_blocks s' = cs_content_blocks s" "get_root_hash_at_height s' k = get_root_hash_at_height s k"
  shows "get_actions_at_height s' k = get_actions_at_height s k"
proof -
  have "get_root_block s' = get_root_block s" "get_space_block s' = get_space_block s" "get_content_block s' = get_content_block s"
    using assms by (simp_all add: fun_eq_iff get_root_block_def get_space_block_def get_content_block_def)
  moreover from this have "stored_content_of_root s' = stored_content_of_root s"
    by (intro ext) (simp add: stored_content_of_root_def)
  ultimately show ?thesis
    using assms(4) unfolding get_actions_at_height_def canonical_at_def by presburger
qed

text \<open>What a rollback of distinct heights leaves alone, and what it does to the index.\<close>

definition rolled_back :: "(bytes \<Rightarrow> hash32) \<Rightarrow> chain_store \<Rightarrow> u64 list \<Rightarrow> returned_action list \<Rightarrow> chain_store \<Rightarrow> bool" where
  "rolled_back H s ks acts s' \<longleftrightarrow>
     acts = concat (map (get_actions_at_height s) ks) \<and>
     (\<forall>k. get_root_hash_at_height s' k =
        (if k \<in> set ks \<and> canonical_at s k \<noteq> None then None else get_root_hash_at_height s k)) \<and>
     (\<forall>h. is_action_finalized s' h = (if h \<in> set (action_hashes H acts) then None else is_action_finalized s h)) \<and>
     (\<exists>fa i t. s' = s\<lparr>cs_finalized_actions := fa, cs_height_index := i, cs_best_tip := t\<rparr>)"

lemma rolled_back_Nil: "rolled_back H s [] [] s"
proof -
  have "s = s\<lparr>cs_finalized_actions := cs_finalized_actions s, cs_height_index := cs_height_index s, cs_best_tip := cs_best_tip s\<rparr>"
    by simp
  then have "\<exists>fa i t. s = s\<lparr>cs_finalized_actions := fa, cs_height_index := i, cs_best_tip := t\<rparr>" by blast
  then show ?thesis by (simp add: rolled_back_def action_hashes_def)
qed

lemma rolled_back_step:
  assumes rb: "rolled_back H s ks acc s1" and k: "k \<notin> set ks" and step: "rollback_step H (acc, s1) k = (acc', s')"
  shows "rolled_back H s (ks @ [k]) acc' s'"
proof -
  obtain fa i t where s1: "s1 = s\<lparr>cs_finalized_actions := fa, cs_height_index := i, cs_best_tip := t\<rparr>"
    and idx: "\<And>j. get_root_hash_at_height s1 j =
        (if j \<in> set ks \<and> canonical_at s j \<noteq> None then None else get_root_hash_at_height s j)"
    and fin: "\<And>h. is_action_finalized s1 h = (if h \<in> set (action_hashes H acc) then None else is_action_finalized s h)"
    and acc: "acc = concat (map (get_actions_at_height s) ks)"
    using rb unfolding rolled_back_def by auto
  have grb: "get_root_block s1 = get_root_block s" by (simp add: s1)
  have same: "get_actions_at_height s1 k = get_actions_at_height s k"
    using idx [of k] k by (intro get_actions_frame) (simp_all add: s1)
  have can: "canonical_at s1 k = canonical_at s k" using idx [of k] k grb by (simp add: canonical_at_def)
  show ?thesis
  proof (cases "canonical_at s k")
    case None
    then have "get_actions_at_height s k = []" by (simp add: get_actions_at_height_def)
    moreover have "acc' = acc" "s' = s1" using step rollback_single_missing [of s1 k H] can None by (auto simp: rollback_step_def)
    ultimately show ?thesis using rb None by (simp add: rolled_back_def acc)
  next
    case (Some b)
    with can rollback_single_shape [of s1 k b H] step same obtain t' where
      acc': "acc' = acc @ get_actions_at_height s k"
      and s': "s' = s1\<lparr>cs_finalized_actions := foldl tree_remove (cs_finalized_actions s1) (action_hashes H (get_actions_at_height s k)),
         cs_height_index := tree_remove (cs_height_index s1) k, cs_best_tip := t'\<rparr>"
      by (auto simp: rollback_step_def)
    have "get_root_hash_at_height s' j = (if j = k then None else get_root_hash_at_height s1 j)" for j
      by (simp add: s' get_root_hash_at_height_def)
    moreover have "is_action_finalized s' h =
        (if h \<in> set (action_hashes H (get_actions_at_height s k)) then None else is_action_finalized s1 h)" for h
      by (simp add: s' is_action_finalized_def tree.get_remove_all)
    moreover have "\<exists>fa i t. s' = s\<lparr>cs_finalized_actions := fa, cs_height_index := i, cs_best_tip := t\<rparr>"
      by (auto simp: s' s1)
    ultimately show ?thesis
      unfolding rolled_back_def using idx fin acc Some
      by (simp add: acc' action_hashes_def)
  qed
qed

lemma rollback_fold:
  assumes "rolled_back H s ds acc s1" and "distinct (ds @ ks)"
  shows "\<exists>acts s'. foldl (rollback_step H) (acc, s1) ks = (acts, s') \<and> rolled_back H s (ds @ ks) acts s'"
  using assms
proof (induction ks arbitrary: ds acc s1)
  case (Cons k ks)
  obtain acc' s2 where st: "rollback_step H (acc, s1) k = (acc', s2)" by fastforce
  have "rolled_back H s (ds @ [k]) acc' s2" using rolled_back_step [OF Cons.prems(1) _ st] Cons.prems(2) by simp
  from Cons.IH [OF this] Cons.prems(2) st show ?case by simp
qed simp


lemma rollback_heights:
  assumes "distinct ks"
  shows "\<exists>acts s'. foldl (rollback_step H) ([], s) ks = (acts, s') \<and> rolled_back H s ks acts s'"
  using rollback_fold [OF rolled_back_Nil, of ks] assms by simp

lemma rollback_down_tip:
  assumes inv: "chain_inv H s" and tip: "cs_best_tip s = Some t" "get_root_block s t = Some b"
  shows "a \<noteq> 0 \<Longrightarrow> a \<le> rb_height b \<Longrightarrow>
    cs_best_tip (snd (foldl (rollback_step H) ([], s) (rev (u64_range a (rb_height b))))) = get_root_hash_at_height s (a - 1)"
proof (induction "unat (rb_height b) - unat a" arbitrary: a)
  case 0
  have lk: "linked_store H (get_root_block s)" using inv by (simp add: chain_inv_def)
  note all = latest_height_tip [OF inv tip]
  from 0 have a: "a = rb_height b" by (simp add: word_le_nat_alt word_unat_eq_iff)
  have "a - 1 \<le> rb_height b" using u64_pred_less [OF 0(2)] a by simp
  then obtain p where p: "get_root_hash_at_height s (a - 1) = Some p" using all(2) index_iff_canonical [OF inv] by blast
  have "get_root_hash_at_height s a = Some t"
    using all(3) a index_iff_canonical [OF inv, of a t] linkedD(1) [OF lk tip(2)] by auto
  with rollback_single_shape [of s a b H] all(3) a tip(1) p 0(2) show ?case
    by (auto simp: u64_range_Cons rollback_step_def word_gt_0)
next
  case (Suc n)
  note all = latest_height_tip [OF inv tip]
  have ne: "a \<noteq> rb_height b" using Suc.hyps(2) by auto
  with Suc.prems(2) have lt: "a < rb_height b" by simp
  have un: "unat (a + 1) = Suc (unat a)"
    using lt unat_u64_less [of "rb_height b"] by (simp add: unat_word_ariths word_less_nat_alt)
  have a1: "a + 1 \<noteq> 0" "a + 1 \<le> rb_height b" "a < a + 1" using un lt by (auto simp: word_le_nat_alt word_less_nat_alt)
  obtain acts s1 where f: "foldl (rollback_step H) ([], s) (rev (u64_range (a + 1) (rb_height b))) = (acts, s1)"
    and rb: "rolled_back H s (rev (u64_range (a + 1) (rb_height b))) acts s1"
    using rollback_heights [of "rev (u64_range (a + 1) (rb_height b))" H s] by auto
  have bt: "cs_best_tip s1 = get_root_hash_at_height s a"
    using Suc.hyps(1) [of "a + 1"] Suc.hyps(2) un a1 f by simp
  have pa: "a - 1 < a" by (rule u64_pred_less [OF Suc.prems(1)])
  have "a - 1 \<le> rb_height b" using pa lt by simp
  then obtain q where "canonical_at s (a - 1) = Some q" using all(2) by blast
  then obtain p where p: "get_root_hash_at_height s (a - 1) = Some p" using index_iff_canonical [OF inv] by blast
  obtain y where y: "canonical_at s a = Some y" using all(2) Suc.prems(2) by blast
  have same: "get_root_hash_at_height s1 j = get_root_hash_at_height s j" if "j \<le> a" for j
    using rb that a1(3) unfolding rolled_back_def by auto
  have "get_root_block s1 = get_root_block s" using rb by (auto simp: rolled_back_def)
  with same [of a] y have "canonical_at s1 a = Some y" by (simp add: canonical_at_def)
  with rollback_single_shape [of s1 a y H] bt same [of a] same [of "a - 1"] p pa Suc.prems(1)
  have "cs_best_tip (snd (rollback_step H (acts, s1) a)) = get_root_hash_at_height s (a - 1)"
    by (auto simp: rollback_step_def word_gt_0)
  moreover have "u64_range a (rb_height b) = a # u64_range (a + 1) (rb_height b)"
    using u64_range_Cons [OF Suc.prems(2)] ne by simp
  ultimately show ?case using f by simp
qed

lemma rollback_block_range:
  assumes "get_latest_height s = Some t" and "height \<le> t"
  shows "rollback_block_at_height H s height = foldl (rollback_step H) ([], s) (rev (u64_range height t))"
  using assms u64_range_Cons [OF assms(2)] by (auto simp: rollback_block_at_height_def Let_def)

lemma ancestry_below:
  assumes lk: "linked_store H R" and stb: "R (rb_hash H b) = Some b" and anc: "ancestry R b (pre @ p # rest)"
    and stp: "R (rb_hash H p) = Some p"
  shows "y \<in> set (p # rest) \<longleftrightarrow> y \<in> set (pre @ p # rest) \<and> rb_height y \<le> rb_height p"
proof -
  have ap: "ancestry R p (p # rest)" using ancestry_suffix [OF anc] .
  have "rb_height y \<le> rb_height p" if "y \<in> set (p # rest)"
    using ancestry_height_iff [OF lk stp ap] that by blast
  moreover have "y \<in> set (p # rest)" if y: "y \<in> set (pre @ p # rest)" "rb_height y \<le> rb_height p"
  proof -
    obtain z where z: "z \<in> set (p # rest)" "rb_height z = rb_height y"
      using ancestry_height_iff [OF lk stp ap] y(2) by blast
    have "inj_on rb_height (set (pre @ p # rest))"
      using distinct_heights [OF lk stb anc] unfolding distinct_map by (rule conjunct2)
    with y(1) z have "z = y" unfolding inj_on_def by (metis Un_iff set_append)
    with z show ?thesis by simp
  qed
  ultimately show ?thesis by auto
qed

lemma chain_inv_truncated:
  assumes inv: "chain_inv H s" and p: "canonical_at s k = Some p"
    and s': "s' = s\<lparr>cs_finalized_actions := fa, cs_height_index := i, cs_best_tip := Some (rb_hash H p)\<rparr>"
    and idx: "\<forall>j. get_root_hash_at_height s' j = (if j \<le> k then get_root_hash_at_height s j else None)"
  shows "chain_inv H s'"
proof -
  have lk: "linked_store H (get_root_block s)" using inv by (simp add: chain_inv_def)
  have pk: "rb_height p = k" "get_root_block s (rb_hash H p) = Some p" using canonical_atD [OF inv p] by simp_all
  have can: "canon_ok H s" using inv by (simp add: chain_inv_def)
  have "get_root_hash_at_height s (rb_height p) = Some (rb_hash H p)"
    using index_iff_canonical [OF inv] p pk(1) by blast
  from canonical_block [OF lk can pk(2) this] obtain t b pre rest where
    c: "ancestry (get_root_block s) b (pre @ p # rest)"
    "tree_get (cs_height_index s) = height_map H (pre @ p # rest)" "get_root_block s t = Some b" "cs_best_tip s = Some t"
    by metis
  have stb: "get_root_block s (rb_hash H b) = Some b" using c(3) linkedD(1) [OF lk] by simp
  have ap: "ancestry (get_root_block s) p (p # rest)" using ancestry_suffix [OF c(1)] .
  note hm = height_map_Some [OF lk stb c(1)] and hp = height_map_Some [OF lk pk(2) ap]
  have "tree_get (cs_height_index s') j = Some x \<longleftrightarrow> height_map H (p # rest) j = Some x" for j x
  proof -
    have "tree_get (cs_height_index s') j = Some x \<longleftrightarrow> j \<le> k \<and> (\<exists>y \<in> set (pre @ p # rest). rb_height y = j \<and> rb_hash H y = x)"
      using idx hm c(2) by (simp add: get_root_hash_at_height_def)
    also have "\<dots> \<longleftrightarrow> (\<exists>y \<in> set (p # rest). rb_height y = j \<and> rb_hash H y = x)"
      using ancestry_below [OF lk stb c(1) pk(2)] pk(1) by blast
    also have "\<dots> \<longleftrightarrow> height_map H (p # rest) j = Some x" using hp by simp
    finally show ?thesis .
  qed
  then have "tree_get (cs_height_index s') = height_map H (p # rest)"
    by (intro ext) (metis option.exhaust)
  moreover have "cache_ok s'" using inv by (simp add: s' chain_inv_def cache_ok_def)
  ultimately show ?thesis
    using pk(2) ap lk by (auto simp: chain_inv_def canon_ok_def s')
qed


lemma rollback_detaches:
  assumes inv: "chain_inv H s" and tip: "get_best_tip_block s = Some b"
    and height: "0 < height" "height \<le> rb_height b"
  shows "\<exists>acts s'. rollback_block_at_height H s height = (acts, s') \<and> chain_inv H s' \<and>
    (\<forall>k. get_root_hash_at_height s' k = (if k < height then get_root_hash_at_height s k else None)) \<and>
    cs_best_tip s' = get_root_hash_at_height s (height - 1) \<and>
    acts = concat (map (get_actions_at_height s) (rev (u64_range height (rb_height b)))) \<and>
    (\<forall>h \<in> set (action_hashes H acts). is_action_finalized s' h = None) \<and>
    (\<exists>fa i t. s' = s\<lparr>cs_finalized_actions := fa, cs_height_index := i, cs_best_tip := t\<rparr>)"
proof -
  obtain t where t: "cs_best_tip s = Some t" "get_root_block s t = Some b"
    using tip by (auto simp: get_best_tip_block_def split: option.splits)
  note all = latest_height_tip [OF inv t]
  let ?ks = "rev (u64_range height (rb_height b))"
  obtain acts s' where f: "foldl (rollback_step H) ([], s) ?ks = (acts, s')" and rb: "rolled_back H s ?ks acts s'"
    using rollback_heights [of ?ks H s] by auto
  note r = rb [unfolded rolled_back_def]
  have nz: "height \<noteq> 0" using height(1) by auto
  have le: "height - 1 \<le> rb_height b" using u64_pred_less [OF nz] height(2) by simp
  have run: "rollback_block_at_height H s height = (acts, s')"
    using rollback_block_range [OF all(1) height(2)] f by simp
  have idx: "get_root_hash_at_height s' k = (if k < height then get_root_hash_at_height s k else None)" for k
    using r all(2) [of k] index_iff_canonical [OF inv, of k] by (cases "get_root_hash_at_height s k") auto
  have bt: "cs_best_tip s' = get_root_hash_at_height s (height - 1)"
    using rollback_down_tip [OF inv t nz height(2)] f by simp
  obtain p where p: "canonical_at s (height - 1) = Some p" using all(2) le by blast
  then have bp: "cs_best_tip s' = Some (rb_hash H p)" using bt index_iff_canonical [OF inv] by metis
  obtain fa i where s': "s' = s\<lparr>cs_finalized_actions := fa, cs_height_index := i, cs_best_tip := Some (rb_hash H p)\<rparr>"
    using r bp by auto
  have "k \<le> height - 1 \<longleftrightarrow> k < height" for k
    using unat_u64_pred [OF nz] unat_eq_zero [of height] nz by (auto simp: word_le_nat_alt word_less_nat_alt)
  then have "chain_inv H s'" using idx by (intro chain_inv_truncated [OF inv p s']) simp
  with run idx bt r show ?thesis by auto
qed

subsection \<open>Repair\<close>

lemma repair_index:
  assumes t: "get_latest_height s = Some t" and v: "validate_chain s < t"
  shows "\<exists>acts s'. repair_chain H s = (acts, s') \<and>
    (\<forall>k. get_root_hash_at_height s' k =
       (if validate_chain s < k \<and> canonical_at s k \<noteq> None then None else get_root_hash_at_height s k)) \<and>
    get_root_block s' = get_root_block s \<and>
    (0 < validate_chain s \<longrightarrow> cs_best_tip s' = get_root_hash_at_height s (validate_chain s)) \<and>
    acts = concat (map (get_actions_at_height s) (rev (u64_range (validate_chain s + 1) t)))"
proof -
  let ?v = "validate_chain s"
  let ?ks = "rev (u64_range (?v + 1) t)"
  obtain acts s1 where f: "foldl (rollback_step H) ([], s) ?ks = (acts, s1)" and rb: "rolled_back H s ?ks acts s1"
    using rollback_heights [of ?ks H s] by auto
  have above: "k \<le> t" if "get_root_hash_at_height s k = Some h" for k h
    using tree_last_Some [of "cs_height_index s" t] t that by (auto simp: get_latest_height_def get_root_hash_at_height_def)
  have can: "canonical_at s k = None" if "\<not> k \<le> t" for k
    using above that by (cases "get_root_hash_at_height s k") (auto simp: canonical_at_def)
  have "?v + 1 \<le> k \<longleftrightarrow> ?v < k" for k
    using v unat_u64_less [of t] by (auto simp: word_le_nat_alt word_less_nat_alt unat_word_ariths)
  then have idx: "get_root_hash_at_height s1 k =
      (if ?v < k \<and> canonical_at s k \<noteq> None then None else get_root_hash_at_height s k)" for k
    using rb can [of k] unfolding rolled_back_def by (cases "k \<le> t") auto
  have get: "get_root_block s1 = get_root_block s" using rb by (auto simp: rolled_back_def)
  have acts: "acts = concat (map (get_actions_at_height s) ?ks)" using rb unfolding rolled_back_def by (elim conjE)
  let ?s' = "if ?v > 0 then (case get_root_hash_at_height s1 ?v of Some h \<Rightarrow> set_best_tip s1 h | None \<Rightarrow> s1) else s1"
  have rep: "repair_chain H s = (acts, ?s')" using f t v by (auto simp: repair_chain_def Let_def)
  have frame: "get_root_hash_at_height ?s' = get_root_hash_at_height s1" "get_root_block ?s' = get_root_block s1"
    by (auto simp: set_best_tip_def get_root_hash_at_height_def fun_eq_iff split: option.splits)
  have "cs_best_tip ?s' = get_root_hash_at_height s ?v" if "0 < ?v"
  proof -
    have "height_valid s ?v" using validate_chain_spec(2) [OF t, of ?v] that by (simp add: word_le_nat_alt word_less_nat_alt)
    then obtain h where "get_root_hash_at_height s ?v = Some h" using height_valid_indexed by blast
    with idx [of ?v] that show ?thesis by (simp add: set_best_tip_def)
  qed
  with rep frame idx get acts show ?thesis by simp
qed

lemma latest_height_char:
  assumes "get_root_hash_at_height s k \<noteq> None" and "\<forall>j. get_root_hash_at_height s j \<noteq> None \<longrightarrow> j \<le> k"
  shows "get_latest_height s = Some k"
proof -
  obtain m where m: "tree_last (cs_height_index s) = Some m" "k \<le> m"
    using tree_get_imp_last [of "cs_height_index s" k] assms(1) by (auto simp: get_root_hash_at_height_def)
  then show ?thesis
    using tree_last_Some [OF m(1)] assms(2) by (auto simp: get_latest_height_def get_root_hash_at_height_def)
qed

lemma repair_noop: "get_latest_height s \<in> {None, Some (validate_chain s)} \<Longrightarrow> repair_chain H s = ([], s)"
  by (auto simp: repair_chain_def Let_def)

lemma u64_ge_1: "(a :: u64) \<noteq> 0 \<Longrightarrow> 1 \<le> a"
proof -
  assume "a \<noteq> 0"
  then have "0 < unat a" using unat_eq_zero [of a] by (metis neq0_conv)
  then show "1 \<le> a" by (simp add: word_le_nat_alt)
qed

text \<open>Cutting the index off above the last valid height leaves that height the last valid one.\<close>

lemma validate_truncated:
  assumes t: "get_latest_height s = Some t" and get: "get_root_block s' = get_root_block s"
    and idx: "\<And>k. get_root_hash_at_height s' k = (if k \<le> validate_chain s then get_root_hash_at_height s k else None)"
  shows "get_latest_height s' \<in> (if validate_chain s = 0 then {None, Some 0} else {Some (validate_chain s)})"
    "validate_chain s' = validate_chain s"
proof -
  let ?v = "validate_chain s"
  have top: "get_root_hash_at_height s' k \<noteq> None \<Longrightarrow> k \<le> ?v" for k by (simp add: idx split: if_splits)
  have bound: "m \<le> ?v" if "get_latest_height s' = Some m" for m
    using that top tree_last_Some [of "cs_height_index s'" m] by (simp add: get_latest_height_def get_root_hash_at_height_def)
  have latest: "get_latest_height s' = Some ?v" if v: "?v \<noteq> 0"
  proof (rule latest_height_char)
    have "1 \<le> ?v" using v by (rule u64_ge_1)
    then show "get_root_hash_at_height s' ?v \<noteq> None" using validate_chain_spec(2) [OF t] height_valid_indexed by (simp add: idx)
  qed (use top in blast)
  then show "get_latest_height s' \<in> (if ?v = 0 then {None, Some 0} else {Some ?v})"
    using bound by (cases "get_latest_height s'") auto
  show "validate_chain s' = ?v"
  proof (cases "get_latest_height s'")
    case None
    then show ?thesis using latest by (auto simp: validate_chain_def)
  next
    case (Some m)
    have valid: "height_valid s' k \<longleftrightarrow> height_valid s k" if "k \<noteq> 0" "k \<le> ?v" for k
      using that u64_pred_less [of k] idx get by (auto simp: height_valid_def canonical_at_def split: option.splits)
    show ?thesis
    proof (rule ccontr)
      assume ne: "validate_chain s' \<noteq> ?v"
      have "?v \<noteq> 0" using ne validate_chain_spec(1) [OF Some] bound [OF Some] by auto
      then have m: "m = ?v" using latest Some by simp
      then have lt: "validate_chain s' < ?v" using ne validate_chain_spec(1) [OF Some] by simp
      then have "validate_chain s' + 1 \<noteq> 0" "validate_chain s' + 1 \<le> ?v"
        using unat_u64_less [of ?v] by (auto simp: word_less_nat_alt word_le_nat_alt word_unat_eq_iff unat_word_ariths)
      moreover have "1 \<le> validate_chain s' + 1" using calculation(1) by (rule u64_ge_1)
      ultimately show False
        using valid validate_chain_spec(2) [OF t] validate_chain_spec(3) [OF Some] lt m by metis
    qed
  qed
qed

subsection \<open>Sample stores\<close>

text \<open>A height too many, with a stored block and with a missing one.\<close>

definition misplaced_store :: chain_store where
  "misplaced_store = fork_store\<lparr>cs_height_index :=
     [(0, replicate 24 0 @ u64_be 1), (1, replicate 24 0 @ u64_be 2), (2, replicate 24 0 @ u64_be 3)]\<rparr>"

definition missing_store :: chain_store where
  "missing_store = fork_store\<lparr>cs_height_index :=
     [(0, replicate 24 0 @ u64_be 1), (1, replicate 24 0 @ u64_be 2), (2, replicate 24 0 @ u64_be 9)]\<rparr>"

lemma misplaced_store_facts:
  "get_latest_height misplaced_store = Some 2" "validate_chain misplaced_store = 1"
  "get_root_hash_at_height misplaced_store k = Some h \<Longrightarrow> get_root_block misplaced_store h \<noteq> None"
proof -
  have idx: "get_root_hash_at_height misplaced_store k =
      (if k = 0 then Some (replicate 24 0 @ u64_be 1) else if k = 1 then Some (replicate 24 0 @ u64_be 2)
       else if k = 2 then Some (replicate 24 0 @ u64_be 3) else None)" for k
    by (simp add: misplaced_store_def get_root_hash_at_height_def tree_get_def)
  have get: "get_root_block misplaced_store = get_root_block fork_store" by (simp add: misplaced_store_def)
  show latest: "get_latest_height misplaced_store = Some 2"
    by (simp add: misplaced_store_def get_latest_height_def max_def)
  have "u64_range 1 2 = [1, 2]" by (simp add: u64_range_Cons)
  then show "validate_chain misplaced_store = 1"
    using latest by (simp add: validate_chain_def idx get fork_store_get)
  show "get_root_hash_at_height misplaced_store k = Some h \<Longrightarrow> get_root_block misplaced_store h \<noteq> None"
    by (auto simp: idx get fork_store_get split: if_splits)
qed

text \<open>
  C13. Validation is exact, in any store: the height it returns ends the run of valid heights from 1
  up; a height is valid when the index names a stored block of that height whose parent is
  the block indexed below it. In a store that satisfies the invariant it is the height of the tip.
\<close>

theorem validate_chain_exact:
  assumes "get_latest_height s = Some t"
  shows "validate_chain s \<le> t \<and> (\<forall>k. 1 \<le> k \<and> k \<le> validate_chain s \<longrightarrow> height_valid s k) \<and>
    (validate_chain s < t \<longrightarrow> \<not> height_valid s (validate_chain s + 1)) \<and>
    (\<forall>H. chain_inv H s \<longrightarrow> validate_chain s = t)"
  using validate_chain_spec [OF assms] validate_chain_tip [OF _ assms] by blast

theorem validate_chain_exact_witness:
  "validate_chain misplaced_store = 1 \<and> \<not> height_valid misplaced_store 2"
  using validate_chain_exact [OF misplaced_store_facts(1)] misplaced_store_facts(2) by simp

text \<open>
  C12. Rolling back to a height of the canonical chain above genesis detaches exactly the heights
  from there up: the store stays valid, its tip is the block below, every detached action is
  returned, newest block first, and is no longer marked finalized. Block data is kept, and nothing
  but the marks of actions, the index and the tip changes.
\<close>

theorem rollback_correct:
  assumes "chain_inv H s" and "get_best_tip_block s = Some b" and "0 < height" "height \<le> rb_height b"
  shows "\<exists>acts s'. rollback_block_at_height H s height = (acts, s') \<and> chain_inv H s' \<and>
    (\<forall>k. get_root_hash_at_height s' k = (if k < height then get_root_hash_at_height s k else None)) \<and>
    cs_best_tip s' = get_root_hash_at_height s (height - 1) \<and>
    acts = concat (map (get_actions_at_height s) (rev (u64_range height (rb_height b)))) \<and>
    (\<forall>h \<in> set (action_hashes H acts). is_action_finalized s' h = None) \<and>
    (\<exists>fa i t. s' = s\<lparr>cs_finalized_actions := fa, cs_height_index := i, cs_best_tip := t\<rparr>)"
  using assms by (rule rollback_detaches)

theorem rollback_correct_witness:
  "\<exists>acts s'. rollback_block_at_height ts_digest fork_store 1 = (acts, s') \<and>
     chain_inv ts_digest s' \<and> cs_best_tip s' = Some (replicate 24 0 @ u64_be 1)"
proof -
  have tip: "get_best_tip_block fork_store = Some (child_block 2 100 0)"
    using fork_store_stored(1) by (simp add: get_best_tip_block_def fork_store_def)
  have "get_root_hash_at_height fork_store 0 = Some (replicate 24 0 @ u64_be 1)"
    by (simp add: fork_store_def get_root_hash_at_height_def tree_get_def)
  with rollback_correct [OF fork_store_inv tip, of 1] show ?thesis by auto
qed

text \<open>
  C14. Repair reaches a fixed point when every indexed block above the last valid height is stored:
  the index is cut off above the last valid height and unchanged up to it, with no valid height above 0
  nothing but genesis is left, a second repair finds nothing to do, and what it returns are the actions of the
  detached heights. When it detaches something and the last valid height is not 0, the tip is the block
  there.
\<close>

theorem repair_fixpoint:
  assumes t: "get_latest_height s = Some t"
    and stored: "\<forall>k h. validate_chain s < k \<and> get_root_hash_at_height s k = Some h \<longrightarrow> get_root_block s h \<noteq> None"
  shows "\<exists>acts s'. repair_chain H s = (acts, s') \<and>
    (\<forall>k. get_root_hash_at_height s' k = (if k \<le> validate_chain s then get_root_hash_at_height s k else None)) \<and>
    get_latest_height s' \<in> (if validate_chain s = 0 then {None, Some 0} else {Some (validate_chain s)}) \<and>
    (validate_chain s < t \<and> 0 < validate_chain s \<longrightarrow> cs_best_tip s' = get_root_hash_at_height s (validate_chain s)) \<and>
    acts = (if validate_chain s < t then concat (map (get_actions_at_height s) (rev (u64_range (validate_chain s + 1) t))) else []) \<and>
    validate_chain s' = validate_chain s \<and> repair_chain H s' = ([], s')"
proof (cases "validate_chain s < t")
  case False
  then have v: "validate_chain s = t" using validate_chain_spec(1) [OF t] by simp
  have "k \<le> t" if "get_root_hash_at_height s k \<noteq> None" for k
    using tree_last_Some [of "cs_height_index s" t] t that by (simp add: get_latest_height_def get_root_hash_at_height_def)
  with v t repair_noop [of s H] show ?thesis by fastforce
next
  case True
  let ?v = "validate_chain s"
  from repair_index [OF t True, of H] obtain acts s' where rep: "repair_chain H s = (acts, s')"
    and idx0: "\<forall>k. get_root_hash_at_height s' k =
       (if ?v < k \<and> canonical_at s k \<noteq> None then None else get_root_hash_at_height s k)"
    and get: "get_root_block s' = get_root_block s"
    and tip: "0 < ?v \<longrightarrow> cs_best_tip s' = get_root_hash_at_height s ?v"
    and acts: "acts = concat (map (get_actions_at_height s) (rev (u64_range (?v + 1) t)))" by blast
  have idx: "get_root_hash_at_height s' k = (if k \<le> ?v then get_root_hash_at_height s k else None)" for k
    using idx0 stored by (cases "get_root_hash_at_height s k") (auto simp: canonical_at_def not_le)
  note v' = validate_truncated [OF t get idx]
  then have "get_latest_height s' \<in> {None, Some (validate_chain s')}" by (auto split: if_splits)
  with rep idx v' tip acts True repair_noop [of s' H] show ?thesis by auto
qed

theorem repair_fixpoint_witness:
  "\<exists>acts s'. repair_chain ts_digest misplaced_store = (acts, s') \<and> get_latest_height s' = Some 1 \<and>
     repair_chain ts_digest s' = ([], s')"
proof -
  have "\<forall>k h. validate_chain misplaced_store < k \<and> get_root_hash_at_height misplaced_store k = Some h \<longrightarrow>
      get_root_block misplaced_store h \<noteq> None" using misplaced_store_facts(3) by blast
  then show ?thesis
    using repair_fixpoint [OF misplaced_store_facts(1), of ts_digest] misplaced_store_facts(2) by auto
qed

text \<open>
  Repair cannot remove an indexed height whose block is missing from storage: the index still
  names it afterwards, so the latest height does not fall below it.
\<close>

theorem repair_leaves_missing_block:
  assumes "get_root_hash_at_height s k = Some h" and "get_root_block s h = None"
  shows "get_root_hash_at_height (snd (repair_chain H s)) k = Some h \<and>
    (\<exists>t. get_latest_height (snd (repair_chain H s)) = Some t \<and> k \<le> t)"
proof -
  obtain t where t: "get_latest_height s = Some t"
    using assms(1) tree_get_imp_last [of "cs_height_index s" k] by (auto simp: get_latest_height_def get_root_hash_at_height_def)
  have can: "canonical_at s k = None" using assms by (simp add: canonical_at_def)
  have "get_root_hash_at_height (snd (repair_chain H s)) k = Some h"
  proof (cases "validate_chain s < t")
    case True
    from repair_index [OF t True, of H] can assms(1) show ?thesis by auto
  next
    case False
    then have "validate_chain s = t" using validate_chain_spec(1) [OF t] by simp
    with t repair_noop [of s H] assms(1) show ?thesis by simp
  qed
  moreover from this have "\<exists>t. get_latest_height (snd (repair_chain H s)) = Some t \<and> k \<le> t"
    using tree_get_imp_last [of "cs_height_index (snd (repair_chain H s))" k]
    by (simp add: get_latest_height_def get_root_hash_at_height_def)
  ultimately show ?thesis ..
qed

theorem repair_leaves_missing_block_witness:
  "\<exists>t. get_latest_height (snd (repair_chain ts_digest missing_store)) = Some t \<and> 2 \<le> t"
proof -
  have "get_root_hash_at_height missing_store 2 = Some (replicate 24 0 @ u64_be 9)"
    by (simp add: missing_store_def get_root_hash_at_height_def tree_get_def)
  moreover have "get_root_block missing_store (replicate 24 0 @ u64_be 9) = None"
    by (simp add: missing_store_def fork_store_get)
  ultimately show ?thesis using repair_leaves_missing_block by blast
qed

end
