(* ===== verification/Chain_Runs.thy ===== *)
theory Chain_Runs
  imports Chain_Repair
begin

text \<open>
  Headers-first synchronisation (\<open>src/sync/header_sync.rs\<close> and the two handlers of
  \<open>src/node/router/router.rs\<close>): the headers served for a locator, their verification, and their
  insertion by fork resolution. Then all the ways in which a node changes its chain store, as one step
  relation. The framing of the payload is left out; \<open>ser\<close> and \<open>de\<close> are the encoding of a root block by
  \<open>bincode\<close>. Actions to be announced again are part of the result.
\<close>

subsection \<open>Verification of headers\<close>

text \<open>
  The errors of \<open>SyncError\<close> that the verification makes. The reason of \<open>InvalidGenesis\<close> is the error itself,
  or \<open>NotGenesis\<close>; that of \<open>InvalidPeerData\<close> the two heights it speaks of.
\<close>

datatype sync_error =
  InvalidChainLinkage u64 hash32 hash32
| InsufficientPoW u64 u64 u64
| NonMonotonicTimestamp u64 u64 u64
| InvalidGenesis root_block_error
| NotGenesis
| InvalidPeerData u64 u64

definition verify_single_header ::
  "(bytes \<Rightarrow> hash32) \<Rightarrow> root_block \<Rightarrow> root_block \<Rightarrow> sync_error outcome" where
  "verify_single_header H header prev =
     (let expected_prev = rb_hash H prev
      in if rb_prev_root_hash header \<noteq> expected_prev
         then Inl (InvalidChainLinkage (rb_height header) expected_prev (rb_prev_root_hash header))
         else if \<not> meets_difficulty header
         then Inl (InsufficientPoW (rb_height header) (rb_difficulty_target header) (rb_total_pow header))
         else if rb_timestamp header \<le> rb_timestamp prev
         then Inl (NonMonotonicTimestamp (rb_height header) (rb_timestamp prev) (rb_timestamp header))
         else Inr ())"

definition verify_genesis_header :: "root_block \<Rightarrow> sync_error outcome" where
  "verify_genesis_header b =
     (if \<not> is_genesis b then Inl NotGenesis else map_err InvalidGenesis (verify_genesis b))"

fun header_links :: "(bytes \<Rightarrow> hash32) \<Rightarrow> root_block list \<Rightarrow> sync_error outcome" where
  "header_links H (prev # current # headers) =
     rbind (verify_single_header H current prev) (\<lambda>_. header_links H (current # headers))"
| "header_links H headers = Inr ()"

definition verify_header_chain :: "(bytes \<Rightarrow> hash32) \<Rightarrow> root_block list \<Rightarrow> sync_error outcome" where
  "verify_header_chain H headers =
     (case headers of
        [] \<Rightarrow> Inr ()
      | first # _ \<Rightarrow>
          rbind (if is_genesis first then verify_genesis_header first else Inr ()) (\<lambda>_. header_links H headers))"

text \<open>Two checks that the module offers and no handler calls: the link to the own tip, and the heights of a batch.\<close>

definition verify_headers_connect :: "root_block list \<Rightarrow> hash32 \<Rightarrow> sync_error outcome" where
  "verify_headers_connect headers local_tip_hash =
     (case headers of
        [] \<Rightarrow> Inr ()
      | first # _ \<Rightarrow>
          if rb_prev_root_hash first \<noteq> local_tip_hash
          then Inl (InvalidChainLinkage (rb_height first) local_tip_hash (rb_prev_root_hash first))
          else Inr ())"

fun verify_height_sequence :: "root_block list \<Rightarrow> sync_error outcome" where
  "verify_height_sequence (prev # current # headers) =
     (if rb_height current \<noteq> rb_height prev + 1
      then Inl (InvalidPeerData (rb_height prev + 1) (rb_height current))
      else verify_height_sequence (current # headers))"
| "verify_height_sequence headers = Inr ()"

subsection \<open>Serving and receiving headers\<close>

primrec header_batch :: "(root_block \<Rightarrow> bytes option) \<Rightarrow> nat \<Rightarrow> root_block list \<Rightarrow> bytes list" where
  "header_batch ser total_bytes [] = []"
| "header_batch ser total_bytes (root_block # blocks) =
     (case ser root_block of
        None \<Rightarrow> header_batch ser total_bytes blocks
      | Some header_bytes \<Rightarrow>
          if total_bytes + length header_bytes > 1024 * 1024 then []
          else header_bytes # header_batch ser (total_bytes + length header_bytes) blocks)"

definition handle_getheaders_locator ::
  "(root_block \<Rightarrow> bytes option) \<Rightarrow> chain_store \<Rightarrow> hash32 list \<Rightarrow> nat \<Rightarrow> bytes list option" where
  "handle_getheaders_locator ser s locator_hashes max_headers =
     (let start_height = (case find_locator_match s locator_hashes of Some height \<Rightarrow> height + 1 | None \<Rightarrow> 0);
          blocks = get_blocks_from_height s start_height max_headers
      in if blocks = [] then None else Some (header_batch ser 0 blocks))"

primrec store_headers ::
  "(bytes \<Rightarrow> hash32) \<Rightarrow> u64 \<Rightarrow> returned_action list \<Rightarrow> chain_store \<Rightarrow> root_block list \<Rightarrow>
   (returned_action list \<times> chain_store) option" where
  "store_headers H our_height requeued s [] = Some (requeued, s)"
| "store_headers H our_height requeued s (header # headers) =
     (if rb_height header \<le> our_height \<and> get_root_block s (rb_hash H header) \<noteq> None
      then store_headers H our_height requeued s headers
      else
        case put_root_block_with_fork_resolution_reporting H s header of
          None \<Rightarrow> None
        | Some ((_, is_new_tip, displaced), s1) \<Rightarrow>
            store_headers H our_height
              (if is_new_tip \<and> displaced \<noteq> [] then requeued @ orphaned_actions_in_blocks s1 displaced
               else requeued) s1 headers)"

definition handle_headers ::
  "(bytes \<Rightarrow> hash32) \<Rightarrow> (bytes \<Rightarrow> root_block option) \<Rightarrow> chain_store \<Rightarrow> bytes list \<Rightarrow>
   (returned_action list \<times> chain_store) option" where
  "handle_headers H de s payload =
     (let headers = List.map_filter de payload
      in if headers = [] then Some ([], s)
         else
           case verify_header_chain H headers of
             Inl _ \<Rightarrow> Some ([], s)
           | Inr _ \<Rightarrow> store_headers H (case get_latest_height s of Some h \<Rightarrow> h | None \<Rightarrow> 0) [] s headers)"

subsection \<open>What is stored\<close>

lemma store_headers_correct:
  assumes "linked_store H U"
  shows "chain_inv H s \<Longrightarrow> get_root_block s \<subseteq>\<^sub>m U \<Longrightarrow> \<forall>b \<in> set bs. U (rb_hash H b) = Some b \<Longrightarrow>
    \<exists>acts' s'. store_headers H k acts s bs = Some (acts', s') \<and> chain_inv H s' \<and> get_root_block s' \<subseteq>\<^sub>m U \<and>
      get_root_block s \<subseteq>\<^sub>m get_root_block s' \<and> (\<forall>b \<in> set bs. get_root_block s' (rb_hash H b) = Some b) \<and>
      dom (get_root_block s') \<subseteq> dom (get_root_block s) \<union> rb_hash H ` set bs"
proof (induction bs arbitrary: s acts)
  case (Cons b bs)
  have bU: "U (rb_hash H b) = Some b" using Cons.prems(3) by simp
  show ?case
  proof (cases "rb_height b \<le> k \<and> get_root_block s (rb_hash H b) \<noteq> None")
    case True
    then have held: "get_root_block s (rb_hash H b) = Some b" using bU map_leD [OF Cons.prems(2)] by fastforce
    from Cons.IH [OF Cons.prems(1,2), of acts] Cons.prems(3) obtain acts' s' where
      s': "store_headers H k acts s bs = Some (acts', s')" "chain_inv H s'" "get_root_block s' \<subseteq>\<^sub>m U"
        "get_root_block s \<subseteq>\<^sub>m get_root_block s'" "\<forall>b \<in> set bs. get_root_block s' (rb_hash H b) = Some b"
        "dom (get_root_block s') \<subseteq> dom (get_root_block s) \<union> rb_hash H ` set bs" by auto
    have "get_root_block s' (rb_hash H b) = Some b" by (rule map_leD [OF s'(4) held])
    with s' True show ?thesis by auto
  next
    case False
    from put_one [OF assms Cons.prems(2) bU Cons.prems(1)] obtain r s1 where
      s1: "put_root_block_with_fork_resolution_reporting H s b = Some (r, s1)" "chain_inv H s1"
        "get_root_block s1 = (get_root_block s)(rb_hash H b \<mapsto> b)" "get_root_block s1 \<subseteq>\<^sub>m U"
        "get_root_block s \<subseteq>\<^sub>m get_root_block s1" by (elim exE conjE)
    obtain h nt d where r: "r = (h, nt, d)" by (rule prod_cases3)
    let ?acts = "if nt \<and> d \<noteq> [] then acts @ orphaned_actions_in_blocks s1 d else acts"
    from Cons.IH [OF s1(2,4), of ?acts] Cons.prems(3) obtain acts' s' where
      s': "store_headers H k ?acts s1 bs = Some (acts', s')" "chain_inv H s'" "get_root_block s' \<subseteq>\<^sub>m U"
        "get_root_block s1 \<subseteq>\<^sub>m get_root_block s'" "\<forall>b \<in> set bs. get_root_block s' (rb_hash H b) = Some b"
        "dom (get_root_block s') \<subseteq> dom (get_root_block s1) \<union> rb_hash H ` set bs" by auto
    have "store_headers H k acts s (b # bs) = Some (acts', s')" using s'(1) s1(1) r False by auto
    moreover have "get_root_block s' (rb_hash H b) = Some b" using map_leD [OF s'(4)] s1(3) by simp
    moreover have "get_root_block s \<subseteq>\<^sub>m get_root_block s'" using s1(5) s'(4) by (rule map_le_trans)
    moreover have "dom (get_root_block s') \<subseteq> dom (get_root_block s) \<union> rb_hash H ` set (b # bs)"
      using s'(6) by (auto simp: s1(3))
    ultimately show ?thesis using s'(2,3,5) by auto
  qed
qed auto

lemma store_headers_append:
  "store_headers H k acts s (xs @ ys) =
     Option.bind (store_headers H k acts s xs) (\<lambda>(acts', s'). store_headers H k acts' s' ys)"
  by (induction xs arbitrary: acts s) (auto split: option.splits)

text \<open>A batch within the size limit decodes to the blocks that were sent.\<close>

lemma header_batch_decodes:
  assumes "\<forall>b \<in> set bs. \<exists>x. ser b = Some x \<and> de x = Some b"
    and "n + (\<Sum>b\<leftarrow>bs. length (the (ser b))) \<le> 1024 * 1024"
  shows "List.map_filter de (header_batch ser n bs) = bs"
  using assms
proof (induction bs arbitrary: n)
  case (Cons b bs)
  then obtain x where "ser b = Some x" "de x = Some b" by auto
  with Cons.IH [of "n + length x"] Cons.prems show ?case by (simp add: List.map_filter_simps)
qed (simp add: List.map_filter_simps)

lemma header_links_linked:
  assumes "successively (extends H) bs"
    and "successively (\<lambda>p b. meets_difficulty b \<and> rb_timestamp p < rb_timestamp b) bs"
  shows "header_links H bs = Inr ()"
  using assms
  by (induction H bs rule: header_links.induct) (auto simp: verify_single_header_def extends_def)

lemma verify_header_chain_linked:
  assumes "successively (extends H) bs"
    and "successively (\<lambda>p b. meets_difficulty b \<and> rb_timestamp p < rb_timestamp b) bs"
  shows "verify_header_chain H bs = Inr ()"
  using header_links_linked [OF assms]
  by (auto simp: verify_header_chain_def verify_genesis_header_def split: list.splits)


text \<open>A chain whose blocks have enough work and rising times, as the verification of headers wants it.\<close>

definition well_timed :: "chain_store \<Rightarrow> bool" where
  "well_timed s \<longleftrightarrow>
     (\<forall>k p b. canonical_at s k = Some p \<and> canonical_at s (k + 1) = Some b \<and> k + 1 \<noteq> 0 \<longrightarrow>
        meets_difficulty b \<and> rb_timestamp p < rb_timestamp b)"

lemma batch_verifies:
  assumes inv: "chain_inv H s" and tip: "cs_best_tip s = Some t" "get_root_block s t = Some b"
    and m: "canonical_at s h = Some m" and wt: "well_timed s"
  shows "verify_header_chain H (get_blocks_from_height s (h + 1) n) = Inr ()"
proof -
  let ?bs = "get_blocks_from_height s (h + 1) n"
  have lk: "linked_store H (get_root_block s)" using inv by (simp add: chain_inv_def)
  have ext: "successively (extends H) ?bs" using blocks_after_match(2) [OF inv tip m, of n] by (cases ?bs) simp_all
  have can: "canonical_at s (rb_height x) = Some x" if x: "x \<in> set ?bs" for x
  proof -
    obtain k where "canonical_at s k = Some x"
      using x by (auto simp: get_blocks_from_height_def map_filter_member dest!: in_set_takeD split: option.splits)
    then show ?thesis using canonical_atD(1) [OF inv] by metis
  qed
  have "successively (\<lambda>p b. meets_difficulty b \<and> rb_timestamp p < rb_timestamp b) ?bs"
  proof (rule successively_mono [OF ext])
    fix p b assume pb: "p \<in> set ?bs" "b \<in> set ?bs" "extends H p b"
    have "get_root_block s (rb_hash H p) = Some p" using canonical_atD(2) [OF inv can [OF pb(1)]] .
    then have "unat (rb_height p) + 1 < 2 ^ 64" by (rule linkedD(2) [OF lk])
    then have "rb_height p + 1 \<noteq> 0" by (auto simp: word_unat_eq_iff unat_word_ariths)
    with wt can [OF pb(1)] can [OF pb(2)] pb(3) show "meets_difficulty b \<and> rb_timestamp p < rb_timestamp b"
      unfolding well_timed_def extends_def by metis
  qed
  with ext show ?thesis by (rule verify_header_chain_linked)
qed

lemma last_sent_new:
  assumes inv: "chain_inv H s" and tip: "cs_best_tip s = Some t" "get_root_block s t = Some b"
    and m: "canonical_at s h = Some m" and sent: "get_blocks_from_height s (h + 1) n = pre @ [b]"
  shows "b \<notin> set pre"
proof
  assume "b \<in> set pre"
  have lk: "linked_store H (get_root_block s)" using inv by (simp add: chain_inv_def)
  have "m # pre @ [b] = take (Suc n) (map (\<lambda>k. the (canonical_at s k)) (u64_range h (rb_height b)))"
    using blocks_after_match(1) [OF inv tip m, of n] sent by simp
  moreover have "inj_on (\<lambda>k. the (canonical_at s k)) (set (u64_range h (rb_height b)))"
  proof (rule inj_onI)
    fix x y assume xy: "x \<in> set (u64_range h (rb_height b))" "y \<in> set (u64_range h (rb_height b))"
      "the (canonical_at s x) = the (canonical_at s y)"
    obtain u where u: "canonical_at s x = Some u" using xy(1) latest_height_tip(2) [OF inv tip] by auto
    moreover obtain v where v: "canonical_at s y = Some v" using xy(2) latest_height_tip(2) [OF inv tip] by auto
    ultimately show "x = y" using xy(3) canonical_atD(1) [OF inv] by (metis option.sel)
  qed
  ultimately have "distinct (m # pre @ [b])"
    by (metis distinct_map distinct_take distinct_u64_range)
  with \<open>b \<in> set pre\<close> show False by simp
qed


subsection \<open>A round of headers\<close>

lemma headers_round:
  assumes U: "linked_store H U" "get_root_block s \<subseteq>\<^sub>m U" "get_root_block s' \<subseteq>\<^sub>m U"
    and inv: "chain_inv H s" and kd: "keys_distinct s" and inv': "chain_inv H s'"
    and gaps: "fork_ancestry_gaps s 1 = []"
    and match: "canonical_at s' h = Some m" "get_root_block s (rb_hash H m) \<noteq> None"
    and t: "cs_best_tip s' = Some t" "get_root_block s' t = Some tip"
    and below: "h < rb_height tip" and n: "unat (rb_height tip) \<le> n"
  shows "\<exists>acts r w. store_headers H k [] s (get_blocks_from_height s' (h + 1) n) = Some (acts, r) \<and> chain_inv H r \<and>
    get_root_block r t = Some tip \<and> tip_weight s' t w \<and> tip_weight r t w \<and>
    ((rb_height tip \<le> k \<longrightarrow> get_root_block s t = None) \<longrightarrow> tip_at_least r w)"
proof -
  have lk: "linked_store H (get_root_block s)" and lk': "linked_store H (get_root_block s')"
    using inv inv' by (simp_all add: chain_inv_def)
  have ht: "rb_hash H tip = t" by (rule linkedD(1) [OF lk' t(2)])
  obtain bs where anc: "ancestry (get_root_block s') tip bs"
    using canon_tip [OF inv' t(1)] t(2) by (metis option.inject)
  have "U (rb_hash H m) = Some m" using map_leD [OF U(3)] canonical_atD(2) [OF inv' match(1)] by blast
  then have held: "get_root_block s (rb_hash H m) = Some m" using match(2) map_leD [OF U(2)] by fastforce
  obtain cs where cs: "ancestry (get_root_block s) m cs" using no_gaps_complete [OF lk kd gaps _ held] by auto
  obtain pre where sent: "get_blocks_from_height s' (h + 1) n = pre @ [tip]"
    using last_sent_block [OF inv' t match(1) below] n by (metis diff_le_self order_trans)
  have inU: "\<forall>x \<in> set (pre @ [tip]). U (rb_hash H x) = Some x"
    using sent_blocks_known [OF inv' U(3)] unfolding sent [symmetric] by blast
  from store_headers_correct [OF U(1) inv U(2), of pre k "[]"] inU obtain acts s1 where
    s1: "store_headers H k [] s pre = Some (acts, s1)" "chain_inv H s1" "get_root_block s1 \<subseteq>\<^sub>m U"
      "get_root_block s \<subseteq>\<^sub>m get_root_block s1" "\<forall>x \<in> set pre. get_root_block s1 (rb_hash H x) = Some x"
      "dom (get_root_block s1) \<subseteq> dom (get_root_block s) \<union> rb_hash H ` set pre" by auto
  have tipU: "U (rb_hash H tip) = Some tip" using inU by simp
  from store_headers_correct [OF U(1) s1(2,3), of "[tip]" k acts] tipU obtain acts' r where
    r: "store_headers H k acts s1 [tip] = Some (acts', r)" "chain_inv H r"
      "get_root_block s1 \<subseteq>\<^sub>m get_root_block r" "get_root_block r t = Some tip" using ht by auto
  have run: "store_headers H k [] s (get_blocks_from_height s' (h + 1) n) = Some (acts', r)"
    using s1(1) r(1) by (simp add: sent store_headers_append)
  have le: "get_root_block s \<subseteq>\<^sub>m get_root_block r" using s1(4) r(3) by (rule map_le_trans)
  moreover have "\<forall>x \<in> set (get_blocks_from_height s' (h + 1) n). get_root_block r (rb_hash H x) = Some x"
    unfolding sent using s1(5) map_leD [OF r(3)] r(4) ht by auto
  ultimately have anc': "ancestry (get_root_block r) tip bs"
    using n by (intro batch_completes_chain [OF U inv' t anc match(1) _ held cs]) simp_all
  have "tip_at_least r (real_weight bs)" if new: "rb_height tip \<le> k \<longrightarrow> get_root_block s t = None"
  proof -
    have "t \<notin> rb_hash H ` set pre"
    proof
      assume "t \<in> rb_hash H ` set pre"
      then obtain x where x: "x \<in> set pre" "rb_hash H x = t" by auto
      then have "x = tip" using inU tipU ht by (metis Un_iff option.inject set_append)
      with x(1) last_sent_new [OF inv' t match(1) sent] show False by simp
    qed
    then have "rb_height tip \<le> k \<longrightarrow> get_root_block s1 t = None" using new s1(6) by blast
    moreover from put_one [OF U(1) s1(3) tipU s1(2)] obtain q s2 where
      q: "put_root_block_with_fork_resolution_reporting H s1 tip = Some (q, s2)"
        "\<forall>bs. ancestry (get_root_block s2) tip bs \<longrightarrow> tip_at_least s2 (real_weight bs)" by (elim exE conjE)
    ultimately have "r = s2" using r(1) ht by (cases q) (auto split: if_splits)
    with q(2) anc' show ?thesis by blast
  qed
  moreover have "tip_weight s' t (real_weight bs)" "tip_weight r t (real_weight bs)"
    using t(2) anc r(4) anc' by (auto simp: tip_weight_def)
  ultimately show ?thesis using run r(2,4) by blast
qed

abbreviation ts_hash32 :: "u64 \<Rightarrow> hash32" where
  "ts_hash32 t \<equiv> replicate 24 0 @ u64_be t"

definition far_block :: root_block where
  "far_block = (child_block 9 7 0)\<lparr>rb_height := 5\<rparr>"

lemma far_block_facts [simp]:
  "rb_height far_block = 5" "rb_prev_root_hash far_block = ts_hash32 1" "rb_total_pow far_block = 7"
  "rb_hash ts_digest far_block = ts_hash32 9"
proof -
  show "rb_height far_block = 5" "rb_prev_root_hash far_block = ts_hash32 1" "rb_total_pow far_block = 7"
    by (simp_all add: far_block_def)
  have "rb_timestamp far_block = 9" by (simp add: far_block_def child_block_def genesis_def)
  then show "rb_hash ts_digest far_block = ts_hash32 9" using rb_hash_ts [of far_block] by (simp add: far_block_def)
qed

definition far_store :: chain_store where
  "far_store = snd (put_root_block ts_digest new_store far_block)"

lemma far_store_facts [simp]:
  "get_root_block far_store (ts_hash32 1) = Some (genesis 1)" "tree_get (cs_chain_weight_cache far_store) h = None"
  "cs_best_tip far_store = Some (ts_hash32 1)" "cs_height_index far_store = [(0, ts_hash32 1)]"
  "get_root_block far_store (ts_hash32 9) = Some far_block"
  by (simp_all add: far_store_def put_root_block_def Let_def new_store_def get_root_block_def empty_store_def)
    (simp add: tree_get_def)

lemma far_heavier:
  "\<exists>c. is_heavier_than_best_tip ts_digest far_store far_block = Some (True, far_store\<lparr>cs_chain_weight_cache := c\<rparr>)"
proof -
  have w: "weight_walk ts_digest far_store zero32 xs = Some (Some (xs, 0))" for xs by (subst weight_walk.simps) simp
  have "weight_walk ts_digest far_store (ts_hash32 1) [(ts_hash32 9, 7)] = Some (Some ([(ts_hash32 9, 7), (ts_hash32 1, 0)], 0))"
    by (subst weight_walk.simps) (simp add: w zero32_ts)
  then have far: "\<exists>c. chain_weight ts_digest far_store far_block = Some (Some 7, far_store\<lparr>cs_chain_weight_cache := c\<rparr>) \<and>
      tree_get c (ts_hash32 1) = Some 0"
    by (intro exI [of _ "tree_insert (tree_insert (cs_chain_weight_cache far_store) (ts_hash32 1) 0) (ts_hash32 9) 7"])
      (simp add: chain_weight_def memo_step_def sat_add_def)
  then obtain c where c: "chain_weight ts_digest far_store far_block = Some (Some 7, far_store\<lparr>cs_chain_weight_cache := c\<rparr>)"
    "tree_get c (ts_hash32 1) = Some 0" by blast
  then have "chain_weight ts_digest (far_store\<lparr>cs_chain_weight_cache := c\<rparr>) (genesis 1) = Some (Some 0, far_store\<lparr>cs_chain_weight_cache := c\<rparr>)"
    by (simp add: chain_weight_def)
  with c have "is_heavier_than_best_tip ts_digest far_store far_block = Some (True, far_store\<lparr>cs_chain_weight_cache := c\<rparr>)"
    by (simp add: is_heavier_than_best_tip_def get_best_tip_block_def sat_add_def)
  then show ?thesis by blast
qed

lemma far_canonical:
  assumes "s = far_store\<lparr>cs_chain_weight_cache := c\<rparr>"
  shows "\<exists>r. make_canonical ts_digest s far_block = Some (Some [], r) \<and> cs_best_tip r = Some (ts_hash32 9) \<and>
    get_root_block r = get_root_block s \<and> (\<forall>k. get_root_hash_at_height r k = (if k = 5 then Some (ts_hash32 9) else if k = 0 then Some (ts_hash32 1) else None))"
proof -
  have idx: "get_root_hash_at_height s k = (if k = 0 then Some (ts_hash32 1) else None)" for k
    by (simp add: assms get_root_hash_at_height_def tree_get_def)
  have one: "tree_get [(0 :: u64, x)] k = (if k = 0 then Some x else None)" for x :: hash32 and k by (simp add: tree_get_def)
  have g: "get_root_block s (ts_hash32 1) = Some (genesis 1)" by (simp add: assms)
  have "collect_new_chain ts_digest s (genesis 1) xs = Some (Some xs)" for xs
    by (subst collect_new_chain.simps) (simp add: idx)
  then have "collect_new_chain ts_digest s far_block [] = Some (Some [(5, ts_hash32 9)])"
    by (subst collect_new_chain.simps) (simp add: idx g zero32_ts)
  moreover have "u64_range 6 0 = []" by (simp add: u64_range_empty)
  moreover have "get_latest_height s = Some 0" by (simp add: assms get_latest_height_def)
  ultimately show ?thesis
    by (simp add: make_canonical_def apply_reorg_def Let_def reassign_height_def idx clear_skips_from_fork_def
        List.map_filter_simps index_height_def set_best_tip_def)
      (simp add: assms get_root_hash_at_height_def one)
qed

subsection \<open>All steps of the store\<close>

text \<open>
  How a node changes its chain store: plain puts of blocks that lost a tie, puts with fork
  resolution, rollbacks, the adoption pass, repair at start, and the bookkeeping of space blocks and
  marks. A put is of a block whose height is that after its parent, if the parent is held, and
  whose hash no other block has; a rollback is above genesis.
\<close>

inductive store_step :: "(bytes \<Rightarrow> hash32) \<Rightarrow> chain_store \<Rightarrow> chain_store \<Rightarrow> bool" for H where
  store_plain: "admissible H s b \<Longrightarrow> store_step H s (snd (put_root_block H s b))"
| store_fork: "admissible H s b \<Longrightarrow>
    put_root_block_with_fork_resolution_reporting H s b = Some (r, s') \<Longrightarrow> store_step H s s'"
| store_rollback: "0 < height \<Longrightarrow> store_step H s (snd (rollback_block_at_height H s height))"
| store_adopt: "adopt_heaviest_fork_if_any H s = Some (r, s') \<Longrightarrow> store_step H s s'"
| store_repair: "store_step H s (snd (repair_chain H s))"
| store_space: "store_step H s (snd (put_space_block H s sb))"
| store_finalize: "store_step H s (mark_content_block_actions_finalized H s cb height)"
| store_skip: "store_step H s (mark_content_block_skipped s h height)"
| store_unskip: "store_step H s (clear_content_skips_at_or_above s height)"
| store_applied: "store_step H s (set_side_effects_state s h height state)"
| store_unapplied: "store_step H s (clear_side_effects_applied s h)"

lemma chain_inv_same:
  assumes inv: "chain_inv H s" and same: "same_chain s s'"
  shows "chain_inv H s'"
proof -
  have "get_root_block s' = get_root_block s" using same by (simp add: same_chain_def get_root_block_def fun_eq_iff)
  with assms show ?thesis
    by (cases "cs_best_tip s") (simp_all add: same_chain_def chain_inv_def cache_ok_def canon_ok_def)
qed

lemma finalize_chain: "same_chain s (mark_content_block_actions_finalized H s cb height)"
  unfolding mark_content_block_actions_finalized_def
  by (rule same_chain_foldl)
    (simp add: same_chain_def finalize_action_def mark_action_finalized_def Let_def split: option.split)

lemma rollback_keeps_inv:
  assumes inv: "chain_inv H s" and h: "0 < height"
  shows "chain_inv H (snd (rollback_block_at_height H s height))"
proof (cases "get_best_tip_block s")
  case None
  then have "cs_best_tip s = None" using canon_tip [OF inv] by (force simp: get_best_tip_block_def split: option.splits)
  then have "\<And>k. get_root_hash_at_height s k = None" using index_has_tip [OF inv] by (metis not_None_eq)
  then have "get_latest_height s = None" "canonical_at s height = None"
    by (auto simp: canonical_at_def) (metis get_latest_height_def get_root_hash_at_height_def not_None_eq tree_last_Some(1))
  then show ?thesis
    using rollback_single_missing [of s height H] inv h
    by (auto simp: rollback_block_at_height_def rollback_step_def word_gt_0 u64_range_empty)
next
  case (Some b)
  then obtain t where t: "cs_best_tip s = Some t" "get_root_block s t = Some b"
    by (auto simp: get_best_tip_block_def split: option.splits)
  show ?thesis
  proof (cases "height \<le> rb_height b")
    case True
    from rollback_detaches [OF inv Some h True] show ?thesis by auto
  next
    case False
    then have "canonical_at s height = None" using latest_height_tip(2) [OF inv t] by (metis not_None_eq)
    then have "rollback_single_height H s height = ([], s)" by (rule rollback_single_missing)
    moreover have "\<not> height < rb_height b" using False by simp
    ultimately show ?thesis
      using inv latest_height_tip(1) [OF inv t] by (simp add: rollback_block_at_height_def rollback_step_def Let_def)
  qed
qed

inductive_cases store_stepE: "store_step H s s'"

lemma put_fork_inv:
  assumes inv: "chain_inv H s" and adm: "admissible H s b"
    and put: "put_root_block_with_fork_resolution_reporting H s b = Some (r, s')"
  shows "chain_inv H s'"
  using put_with_fork_resolution [OF inv adm] put by (auto simp: put_outcome_def)

lemma repair_keeps_inv:
  assumes inv: "chain_inv H s"
  shows "chain_inv H (snd (repair_chain H s))"
proof (cases "get_latest_height s")
  case (Some t)
  then have "validate_chain s = t" by (rule validate_chain_tip [OF inv])
  with Some inv repair_noop [of s H] show ?thesis by simp
qed (use inv repair_noop [of s H] in simp)

lemma bookkeeping_keeps_inv:
  assumes inv: "chain_inv H s"
  shows "chain_inv H (snd (put_space_block H s sb))" "chain_inv H (mark_content_block_actions_finalized H s cb height)"
    "chain_inv H (mark_content_block_skipped s h height)" "chain_inv H (clear_content_skips_at_or_above s height)"
    "chain_inv H (set_side_effects_state s h height state)" "chain_inv H (clear_side_effects_applied s h)"
proof -
  show "chain_inv H (snd (put_space_block H s sb))"
    using inv by (cases "cs_best_tip s")
      (simp_all add: put_space_block_def Let_def chain_inv_def cache_ok_def canon_ok_def get_root_block_def [abs_def])
  show "chain_inv H (mark_content_block_actions_finalized H s cb height)"
    by (rule chain_inv_same [OF inv finalize_chain])
  show "chain_inv H (mark_content_block_skipped s h height)" "chain_inv H (clear_content_skips_at_or_above s height)"
    "chain_inv H (set_side_effects_state s h height state)" "chain_inv H (clear_side_effects_applied s h)"
    by (rule chain_inv_same [OF inv], simp add: same_chain_def mark_content_block_skipped_def
        clear_content_skips_at_or_above_def set_side_effects_state_def clear_side_effects_applied_def)+
qed

interpretation store: stepping_component "\<lambda>s. s = empty_store" "store_step H" "chain_inv H" for H
proof unfold_locales
  fix s t assume inv: "chain_inv H s" and "store_step H s t"
  from this(2) show "chain_inv H t"
  proof (cases rule: store_step.cases)
    case (store_plain b)
    obtain h s' where put: "put_root_block H s b = (h, s')" by (rule prod.exhaust)
    from put_root_block_inv(3) [OF inv store_plain(2) put] store_plain(1) put show ?thesis by simp
  next
    case (store_adopt r)
    with adopt_heaviest_fork [OF inv] show ?thesis by auto
  qed (use put_fork_inv [OF inv] rollback_keeps_inv [OF inv] repair_keeps_inv [OF inv] bookkeeping_keeps_inv [OF inv] in auto)
qed (simp add: chain_inv_empty)

subsection \<open>Sample run\<close>

definition pair_ser :: "root_block \<Rightarrow> bytes option" where
  "pair_ser b = Some [if b = genesis 1 then 0 else 1]"

definition pair_de :: "bytes \<Rightarrow> root_block option" where
  "pair_de x = Some (if x = [0] then genesis 1 else child_block 2 100 0)"

lemma fork_store_canonical:
  "canonical_at fork_store k = (if k = 0 then Some (genesis 1) else if k = 1 then Some (child_block 2 100 0) else None)"
proof -
  have "get_root_hash_at_height fork_store k = (if k = 0 then Some (ts_hash32 1) else if k = 1 then Some (ts_hash32 2) else None)"
    by (simp add: fork_store_def get_root_hash_at_height_def tree_get_def)
  then show ?thesis by (simp add: canonical_at_def fork_store_get)
qed

lemma fork_store_well_timed: "well_timed fork_store"
  by (auto simp: well_timed_def fork_store_canonical meets_difficulty_def child_block_def genesis_def INITIAL_DIFFICULTY_def split: if_splits)

lemma pair_codec:
  "\<forall>k b. canonical_at fork_store k = Some b \<longrightarrow> (\<exists>x. pair_ser b = Some x \<and> pair_de x = Some b)"
  by (auto simp: fork_store_canonical pair_ser_def pair_de_def split: if_splits)

lemma pair_size: "\<forall>a. (\<Sum>b\<leftarrow>get_blocks_from_height fork_store a 50. length (the (pair_ser b))) \<le> 1024 * 1024"
proof
  fix a
  have "(\<Sum>b\<leftarrow>get_blocks_from_height fork_store a 50. length (the (pair_ser b))) = length (get_blocks_from_height fork_store a 50)"
    by (simp add: pair_ser_def sum_list_triv)
  also have "\<dots> \<le> 50" by (simp add: get_blocks_from_height_def split: option.split)
  finally show "(\<Sum>b\<leftarrow>get_blocks_from_height fork_store a 50. length (the (pair_ser b))) \<le> 1024 * 1024" by simp
qed

subsection \<open>Properties\<close>

text \<open>
  C3. In every store that a node reaches from the empty one, by puts with and without fork resolution,
  rollbacks above genesis, adoption passes, repairs and bookkeeping, provided every block that is put has
  the height after its parent's and no two blocks share a hash: blocks are stored under their hashes, the memo
  of weights is right, and the height index is the complete ancestry of the best tip, or empty while there
  is no tip.
\<close>

theorem reachable_store_canonical:
  assumes "(store_step H)\<^sup>*\<^sup>* empty_store s"
  shows "chain_inv H s \<and>
    (case cs_best_tip s of
       None \<Rightarrow> \<forall>k. get_root_hash_at_height s k = None
     | Some t \<Rightarrow> \<exists>b bs. get_root_block s t = Some b \<and> ancestry (get_root_block s) b bs \<and>
         (\<forall>k x. get_root_hash_at_height s k = Some x \<longleftrightarrow> (\<exists>y \<in> set bs. rb_height y = k \<and> rb_hash H y = x)))"
proof -
  have inv: "chain_inv H s" using store.good_reachable [OF refl assms] .
  then have lk: "linked_store H (get_root_block s)" and can: "canon_ok H s" by (simp_all add: chain_inv_def)
  show ?thesis
  proof (cases "cs_best_tip s")
    case None
    with inv can show ?thesis by (simp add: canon_ok_def get_root_hash_at_height_def)
  next
    case (Some t)
    with can obtain b bs where b: "get_root_block s t = Some b" "ancestry (get_root_block s) b bs"
      and idx: "tree_get (cs_height_index s) = height_map H bs" by (auto simp: canon_ok_def)
    have "get_root_block s (rb_hash H b) = Some b" using b(1) linkedD(1) [OF lk b(1)] by simp
    from height_map_Some [OF lk this b(2)] have
      "\<forall>k x. get_root_hash_at_height s k = Some x \<longleftrightarrow> (\<exists>y \<in> set bs. rb_height y = k \<and> rb_hash H y = x)"
      by (simp add: get_root_hash_at_height_def idx)
    with inv b Some show ?thesis by auto
  qed
qed

theorem reachable_store_canonical_witness:
  "\<exists>s. (store_step ts_digest)\<^sup>*\<^sup>* empty_store s \<and> get_root_block s (ts_hash32 1) = Some (genesis 1) \<and>
     chain_inv ts_digest s"
proof -
  have adm: "admissible ts_digest empty_store (genesis 1)"
    by (auto simp: admissible_def linked_store_def empty_store_def get_root_block_def)
  with put_with_fork_resolution [OF chain_inv_empty this] obtain r s where
    put: "put_root_block_with_fork_resolution_reporting ts_digest empty_store (genesis 1) = Some (r, s)"
    and get: "get_root_block s = (get_root_block empty_store)(rb_hash ts_digest (genesis 1) \<mapsto> genesis 1)"
    and inv: "chain_inv ts_digest s"
    unfolding put_outcome_def by blast
  have run: "(store_step ts_digest)\<^sup>*\<^sup>* empty_store s" using store_fork [OF adm put] by (rule r_into_rtranclp)
  with reachable_store_canonical [OF run] get show ?thesis by auto
qed



text \<open>
  Heights of received headers are not checked: a single header that names the tip as its parent and
  a height of its own choosing passes the verification, is adopted, and leaves an index that jumps from height
  0 to height 5. The check of heights, which the handler does not call, would not see it either, as it compares
  the headers of a batch with each other.
\<close>

theorem header_height_unchecked:
  "\<exists>acts r. handle_headers ts_digest (\<lambda>_. Some far_block) new_store [[]] = Some (acts, r) \<and>
     cs_best_tip r = Some (rb_hash ts_digest far_block) \<and> get_latest_height r = Some 5 \<and>
     get_root_hash_at_height r 1 = None \<and> \<not> chain_inv ts_digest r \<and> verify_height_sequence [far_block] = Inr ()"
proof -
  from far_heavier obtain c where
    h: "is_heavier_than_best_tip ts_digest far_store far_block = Some (True, far_store\<lparr>cs_chain_weight_cache := c\<rparr>)" by blast
  from far_canonical [OF refl, of c] obtain r where
    r: "make_canonical ts_digest (far_store\<lparr>cs_chain_weight_cache := c\<rparr>) far_block = Some (Some [], r)"
      "cs_best_tip r = Some (ts_hash32 9)" "get_root_block r = get_root_block (far_store\<lparr>cs_chain_weight_cache := c\<rparr>)"
    and idx: "\<And>k. get_root_hash_at_height r k = (if k = 5 then Some (ts_hash32 9) else if k = 0 then Some (ts_hash32 1) else None)"
    by blast
  have put: "put_root_block ts_digest new_store far_block = (ts_hash32 9, far_store)"
    by (simp add: far_store_def put_root_block_def Let_def)
  have "verify_header_chain ts_digest [far_block] = Inr ()"
    by (simp add: verify_header_chain_def is_genesis_def)
  moreover have "get_latest_height new_store = Some 0" by (simp add: new_store_def get_latest_height_def)
  ultimately have "handle_headers ts_digest (\<lambda>_. Some far_block) new_store [[]] = Some ([], r)"
    using h r(1) by (simp add: handle_headers_def put_root_block_with_fork_resolution_reporting_def put List.map_filter_simps)
  moreover have "get_latest_height r = Some 5"
    by (rule latest_height_char) (auto simp: idx word_le_nat_alt)
  moreover have "\<not> chain_inv ts_digest r"
  proof
    assume "chain_inv ts_digest r"
    then have lk: "linked_store ts_digest (get_root_block r)" by (simp add: chain_inv_def)
    have "get_root_block r (ts_hash32 9) = Some far_block" "get_root_block r (ts_hash32 1) = Some (genesis 1)"
      by (simp_all add: r(3))
    with lk show False unfolding linked_store_def by (force simp: zero32_ts)
  qed
  ultimately show ?thesis using r(2) idx [of 1] by simp
qed

text \<open>
  Rolling back the genesis height empties the index but leaves the best tip on the detached
  block, so index and tip no longer agree.
\<close>

theorem genesis_rollback_strands_tip:
  "\<exists>acts r. rollback_block_at_height ts_digest new_store 0 = (acts, r) \<and> cs_best_tip r = Some (rb_hash ts_digest (genesis 1)) \<and>
     get_latest_height r = None \<and> \<not> chain_inv ts_digest r"
proof -
  have can: "canonical_at new_store 0 = Some (genesis 1)"
    by (simp add: canonical_at_def get_root_hash_at_height_def new_store_def tree_get_def get_root_block_def)
  have latest: "get_latest_height new_store = Some 0" by (simp add: new_store_def get_latest_height_def)
  obtain acts r where run: "rollback_single_height ts_digest new_store 0 = (acts, r)"
    "cs_best_tip r = cs_best_tip new_store" "cs_height_index r = tree_remove (cs_height_index new_store) 0"
    using rollback_single_shape [OF can, of ts_digest] by auto
  have "rollback_block_at_height ts_digest new_store 0 = (acts, r)"
    using run(1) latest by (simp add: rollback_block_at_height_def rollback_step_def)
  moreover have idx: "cs_height_index r = []" using run(3) by (simp add: new_store_def tree_remove_def)
  moreover have "\<not> chain_inv ts_digest r"
  proof
    assume inv: "chain_inv ts_digest r"
    have "cs_best_tip r = Some (ts_hash32 1)" using run(2) by (simp add: new_store_def)
    moreover from this obtain b where "get_root_block r (ts_hash32 1) = Some b" using canon_tip [OF inv] by blast
    ultimately have "get_latest_height r \<noteq> None" using latest_height_tip(1) [OF inv] by auto
    then show False by (simp add: get_latest_height_def idx)
  qed
  ultimately show ?thesis using run(2) by (auto simp: new_store_def get_latest_height_def)
qed

end
