(* ===== verification/Mempool.thy ===== *)
theory Mempool
  imports Chain_Store Space_Block
begin

text \<open>
  The mempool and block builder (\<open>src/blocks/builder.rs\<close>): pending actions per thread, the limits
  and evictions, replacement of a pending action, and the formation of content, space and root
  blocks from everything that is pending.

  A \<open>HashMap\<close> is an association list with distinct keys whose order is the order of iteration of
  one run: nothing is assumed about it, so a theorem about every list is one about every order.
  The cache of seen actions is the type \<open>LruCache\<close> of a third-party crate; its operations are the
  parameter \<open>L\<close>, with what the builder relies on as the locale \<open>lru_cache\<close>. An instant is a number of
  milliseconds; the mempool file holds the list of threads that was last written. The store of
  sponsorships is the parameter \<open>auth\<close>, absent when there is none.
\<close>

subsection \<open>The cache of seen actions\<close>

record 'c lru_ops =
  lru_has :: "'c \<Rightarrow> hash32 \<Rightarrow> bool"
  lru_put :: "'c \<Rightarrow> hash32 \<Rightarrow> 'c"
  lru_pop :: "'c \<Rightarrow> hash32 \<Rightarrow> 'c"
  lru_new :: 'c

locale lru_cache =
  fixes L :: "'c lru_ops"
  assumes has_put: "lru_has L (lru_put L c k) k"
    and has_put_only: "lru_has L (lru_put L c k) k' \<Longrightarrow> k' = k \<or> lru_has L c k'"
    and has_pop: "lru_has L (lru_pop L c k) k' \<longleftrightarrow> k' \<noteq> k \<and> lru_has L c k'"
    and has_new: "\<not> lru_has L (lru_new L) k"

text \<open>An implementation: the keys, most recent first, cut at the capacity.\<close>

definition lru_list :: "nat \<Rightarrow> hash32 list lru_ops" where
  "lru_list capacity =
     \<lparr>lru_has = (\<lambda>c k. k \<in> set c), lru_put = (\<lambda>c k. take (Suc capacity) (k # filter (\<lambda>x. x \<noteq> k) c)),
      lru_pop = (\<lambda>c k. filter (\<lambda>x. x \<noteq> k) c), lru_new = []\<rparr>"

interpretation lru_list: lru_cache "lru_list n"
  by unfold_locales (auto simp: lru_list_def dest: in_set_takeD)

subsection \<open>State\<close>

definition TIMESTAMP_QUANTUM_SECS :: u64 where "TIMESTAMP_QUANTUM_SECS = 10"
definition LAZY_BLOCK_WAIT_MS :: nat where "LAZY_BLOCK_WAIT_MS = 30000"
definition PENDING_FLUSH_TIMEOUT_SECS :: nat where "PENDING_FLUSH_TIMEOUT_SECS = 60"
definition MAX_MEMPOOL_ACTIONS :: nat where "MAX_MEMPOOL_ACTIONS = 10000"
definition MAX_ACTIONS_PER_SPACE :: nat where "MAX_ACTIONS_PER_SPACE = 2000"

record pending_thread =
  pt_thread_id :: hash32
  pt_space_id :: hash32
  pt_actions :: "action list"
  pt_branch_path :: branch_path
  pt_prev_content_hash :: "hash32 option"
  pt_space_metadata :: "space_creation_metadata option"

definition pt_new :: "hash32 \<Rightarrow> hash32 \<Rightarrow> branch_path \<Rightarrow> pending_thread" where
  "pt_new thread_id space_id path =
     \<lparr>pt_thread_id = thread_id, pt_space_id = space_id, pt_actions = [], pt_branch_path = path,
      pt_prev_content_hash = None, pt_space_metadata = None\<rparr>"

definition pt_total_pow :: "pending_thread \<Rightarrow> u64" where
  "pt_total_pow t = sum_list (map act_pow_work (pt_actions t))"

record 'c block_builder =
  bb_threads :: "(hash32 \<times> pending_thread) list"
  bb_difficulty_target :: u64
  bb_current_height :: u64
  bb_prev_root_hash :: hash32
  bb_prev_cumulative_pow :: u64
  bb_prev_space_hashes :: "(hash32 \<times> hash32) list"
  bb_seen_actions :: 'c
  bb_waiting_since :: "nat option"
  bb_flush_since :: "nat option"
  bb_action_locations :: "(hash32 \<times> hash32 \<times> nat) list"
  bb_space_action_counts :: "(hash32 \<times> nat) list"
  bb_total_action_count :: nat
  bb_persists :: bool
  bb_disk :: "pending_thread list"

definition from_chain_state :: "'c lru_ops \<Rightarrow> u64 \<Rightarrow> u64 \<Rightarrow> hash32 \<Rightarrow> u64 \<Rightarrow> 'c block_builder" where
  "from_chain_state L difficulty_target height prev_root_hash prev_cumulative_pow =
     \<lparr>bb_threads = [], bb_difficulty_target = difficulty_target, bb_current_height = height,
      bb_prev_root_hash = prev_root_hash, bb_prev_cumulative_pow = prev_cumulative_pow,
      bb_prev_space_hashes = [], bb_seen_actions = lru_new L, bb_waiting_since = None,
      bb_flush_since = None, bb_action_locations = [], bb_space_action_counts = [],
      bb_total_action_count = 0, bb_persists = False, bb_disk = []\<rparr>"

definition bb_new :: "'c lru_ops \<Rightarrow> u64 \<Rightarrow> 'c block_builder" where
  "bb_new L difficulty_target = from_chain_state L difficulty_target 0 zero32 0"

definition sync_to_chain_tip :: "'c block_builder \<Rightarrow> u64 \<Rightarrow> hash32 \<Rightarrow> u64 \<Rightarrow> 'c block_builder" where
  "sync_to_chain_tip b height tip_hash cumulative_pow =
     b\<lparr>bb_current_height := height, bb_prev_root_hash := tip_hash, bb_prev_cumulative_pow := cumulative_pow\<rparr>"

definition sync_chain_state :: "'c block_builder \<Rightarrow> u64 \<Rightarrow> hash32 \<Rightarrow> u64 \<Rightarrow> 'c block_builder" where
  "sync_chain_state b height prev_root_hash cumulative_pow =
     (if height > bb_current_height b
      then b\<lparr>bb_current_height := height, bb_prev_root_hash := prev_root_hash,
             bb_prev_cumulative_pow := cumulative_pow\<rparr>
      else b)"

definition reset_to_chain_tip :: "'c block_builder \<Rightarrow> u64 \<Rightarrow> hash32 \<Rightarrow> u64 \<Rightarrow> 'c block_builder" where
  "reset_to_chain_tip b height prev_root_hash cumulative_pow =
     (if bb_current_height b \<noteq> height \<or> bb_prev_root_hash b \<noteq> prev_root_hash \<or>
         bb_prev_cumulative_pow b \<noteq> cumulative_pow
      then b\<lparr>bb_current_height := height, bb_prev_root_hash := prev_root_hash,
             bb_prev_cumulative_pow := cumulative_pow, bb_waiting_since := None, bb_flush_since := None\<rparr>
      else b)"

definition persist :: "'c block_builder \<Rightarrow> 'c block_builder" where
  "persist b = (if bb_persists b then b\<lparr>bb_disk := map snd (bb_threads b)\<rparr> else b)"

subsection \<open>Evictions\<close>

type_synonym candidate = "hash32 \<times> hash32 \<times> nat \<times> u64 \<times> hash32"

text \<open>The scan for the action with the least work; actions with no work are passed over.\<close>

definition weigh_action ::
  "(bytes \<Rightarrow> hash32) \<Rightarrow> pending_thread \<Rightarrow> candidate option \<Rightarrow> nat \<times> action \<Rightarrow> candidate option" where
  "weigh_action H t lowest e =
     (case e of (idx, a) \<Rightarrow>
        if act_pow_work a = 0 then lowest
        else if (case lowest of None \<Rightarrow> True | Some (_, _, _, pow, _) \<Rightarrow> act_pow_work a < pow)
        then Some (pt_thread_id t, pt_space_id t, idx, act_pow_work a, action_hash H a)
        else lowest)"

definition weigh_thread ::
  "(bytes \<Rightarrow> hash32) \<Rightarrow> candidate option \<Rightarrow> pending_thread \<Rightarrow> candidate option" where
  "weigh_thread H lowest t = foldl (weigh_action H t) lowest (enumerate 0 (pt_actions t))"

definition tombstone :: "action \<Rightarrow> action" where
  "tombstone a = a\<lparr>act_pow_work := 0, act_content_hash := None\<rparr>"

definition bury :: "(hash32 \<times> pending_thread) list \<Rightarrow> hash32 \<Rightarrow> nat \<Rightarrow> (hash32 \<times> pending_thread) list" where
  "bury threads thread_id idx =
     (case map_of threads thread_id of
        None \<Rightarrow> threads
      | Some t \<Rightarrow>
          if idx < length (pt_actions t)
          then AList.update thread_id
                 (t\<lparr>pt_actions := (pt_actions t)[idx := tombstone (pt_actions t ! idx)]\<rparr>) threads
          else threads)"

definition evict_candidate :: "'c lru_ops \<Rightarrow> 'c block_builder \<Rightarrow> candidate \<Rightarrow> 'c block_builder" where
  "evict_candidate L b c =
     (case c of (thread_id, space_id, idx, pow, hash) \<Rightarrow>
        b\<lparr>bb_threads := bury (bb_threads b) thread_id idx,
          bb_seen_actions := lru_pop L (bb_seen_actions b) hash,
          bb_action_locations := AList.delete hash (bb_action_locations b),
          bb_space_action_counts :=
            (case map_of (bb_space_action_counts b) space_id of
               Some n \<Rightarrow> AList.update space_id (n - 1) (bb_space_action_counts b)
             | None \<Rightarrow> bb_space_action_counts b),
          bb_total_action_count := bb_total_action_count b - 1\<rparr>)"

definition evict_lowest_pow_from_space ::
  "'c lru_ops \<Rightarrow> (bytes \<Rightarrow> hash32) \<Rightarrow> 'c block_builder \<Rightarrow> hash32 \<Rightarrow> u64 option \<times> 'c block_builder" where
  "evict_lowest_pow_from_space L H b space_id =
     (case foldl (weigh_thread H) None (filter (\<lambda>t. pt_space_id t = space_id) (map snd (bb_threads b))) of
        None \<Rightarrow> (None, b)
      | Some (thread_id, _, idx, pow, hash) \<Rightarrow> (Some pow, evict_candidate L b (thread_id, space_id, idx, pow, hash)))"

definition evict_lowest_pow_global ::
  "'c lru_ops \<Rightarrow> (bytes \<Rightarrow> hash32) \<Rightarrow> 'c block_builder \<Rightarrow> u64 option \<times> 'c block_builder" where
  "evict_lowest_pow_global L H b =
     (case foldl (weigh_thread H) None (map snd (bb_threads b)) of
        None \<Rightarrow> (None, b)
      | Some (thread_id, space_id, idx, pow, hash) \<Rightarrow>
          (Some pow, evict_candidate L b (thread_id, space_id, idx, pow, hash)))"

subsection \<open>Adding and replacing actions\<close>

text \<open>\<open>entry(thread_id).or_insert_with(...)\<close>.\<close>

definition thread_entry :: "'c block_builder \<Rightarrow> hash32 \<Rightarrow> hash32 \<Rightarrow> branch_path \<Rightarrow> pending_thread" where
  "thread_entry b thread_id space_id path =
     (case map_of (bb_threads b) thread_id of Some t \<Rightarrow> t | None \<Rightarrow> pt_new thread_id space_id path)"

definition space_count :: "'c block_builder \<Rightarrow> hash32 \<Rightarrow> nat" where
  "space_count b space_id = (case map_of (bb_space_action_counts b) space_id of Some n \<Rightarrow> n | None \<Rightarrow> 0)"

definition count_action :: "'c block_builder \<Rightarrow> hash32 \<Rightarrow> 'c block_builder" where
  "count_action b space_id =
     b\<lparr>bb_space_action_counts := AList.update space_id (space_count b space_id + 1) (bb_space_action_counts b),
       bb_total_action_count := bb_total_action_count b + 1\<rparr>"

text \<open>The two limits, common to both ways of adding: make room or reject.\<close>

definition make_room ::
  "'c lru_ops \<Rightarrow> (bytes \<Rightarrow> hash32) \<Rightarrow> 'c block_builder \<Rightarrow> hash32 \<Rightarrow> u64 \<Rightarrow> bool \<times> 'c block_builder" where
  "make_room L H b space_id incoming_pow =
     (let (evicted1, b1) = (if space_count b space_id \<ge> MAX_ACTIONS_PER_SPACE
                            then evict_lowest_pow_from_space L H b space_id else (None, b))
      in if (case evicted1 of Some evicted_pow \<Rightarrow> incoming_pow \<le> evicted_pow | None \<Rightarrow> False) then (False, b1)
         else
           let (evicted2, b2) = (if bb_total_action_count b1 \<ge> MAX_MEMPOOL_ACTIONS
                                 then evict_lowest_pow_global L H b1 else (None, b1))
           in ((case evicted2 of Some evicted_pow \<Rightarrow> \<not> incoming_pow \<le> evicted_pow | None \<Rightarrow> True), b2))"

definition replace_action ::
  "'c lru_ops \<Rightarrow> (bytes \<Rightarrow> hash32) \<Rightarrow> 'c block_builder \<Rightarrow> hash32 \<Rightarrow> hash32 \<Rightarrow> action \<Rightarrow> branch_path \<Rightarrow> hash32 \<Rightarrow>
   bool \<times> 'c block_builder" where
  "replace_action L H b thread_id space_id new_action path replaces_hash =
     (case map_of (bb_action_locations b) replaces_hash of
        None \<Rightarrow> (False, b)
      | Some (old_thread_id, old_index) \<Rightarrow>
          (case map_of (bb_threads b) old_thread_id of
             None \<Rightarrow> (False, b)
           | Some old_thread \<Rightarrow>
               if \<not> old_index < length (pt_actions old_thread) then (False, b)
               else if act_actor (pt_actions old_thread ! old_index) \<noteq> act_actor new_action then (False, b)
               else
                 let b1 = b\<lparr>bb_seen_actions := lru_put L (lru_pop L (bb_seen_actions b) replaces_hash) (action_hash H new_action),
                            bb_action_locations := AList.delete replaces_hash (bb_action_locations b),
                            bb_threads := bury (bb_threads b) old_thread_id old_index\<rparr>;
                     t = thread_entry b1 thread_id space_id path
                 in (True,
                     b1\<lparr>bb_threads := AList.update thread_id (t\<lparr>pt_actions := pt_actions t @ [new_action]\<rparr>) (bb_threads b1),
                        bb_action_locations :=
                          AList.update (action_hash H new_action) (thread_id, length (pt_actions t))
                            (bb_action_locations b1)\<rparr>)))"

definition add_action ::
  "'c lru_ops \<Rightarrow> (bytes \<Rightarrow> hash32) \<Rightarrow> 'c block_builder \<Rightarrow> hash32 \<Rightarrow> hash32 \<Rightarrow> action \<Rightarrow> branch_path \<Rightarrow>
   bool \<times> 'c block_builder" where
  "add_action L H b thread_id space_id a path =
     (let hash = action_hash H a
      in if lru_has L (bb_seen_actions b) hash then (False, b)
         else
           case act_replaces_pending a of
             Some replaces_hash \<Rightarrow> replace_action L H b thread_id space_id a path replaces_hash
           | None \<Rightarrow>
               (case make_room L H b space_id (act_pow_work a) of
                  (False, b1) \<Rightarrow> (False, b1)
                | (True, b1) \<Rightarrow>
                    let t = thread_entry b1 thread_id space_id path;
                        b2 = b1\<lparr>bb_seen_actions := lru_put L (bb_seen_actions b1) hash,
                                bb_threads := AList.update thread_id (t\<lparr>pt_actions := pt_actions t @ [a]\<rparr>) (bb_threads b1),
                                bb_action_locations :=
                                  AList.update hash (thread_id, length (pt_actions t)) (bb_action_locations b1)\<rparr>
                    in (True, persist (count_action b2 space_id))))"

definition add_create_space_action ::
  "'c lru_ops \<Rightarrow> (bytes \<Rightarrow> hash32) \<Rightarrow> 'c block_builder \<Rightarrow> hash32 \<Rightarrow> hash32 \<Rightarrow> action \<Rightarrow> branch_path \<Rightarrow>
   space_creation_metadata \<Rightarrow> bool \<times> 'c block_builder" where
  "add_create_space_action L H b thread_id space_id a path md =
     (let hash = action_hash H a
      in if lru_has L (bb_seen_actions b) hash then (False, b)
         else
           case make_room L H b space_id (act_pow_work a) of
             (False, b1) \<Rightarrow> (False, b1)
           | (True, b1) \<Rightarrow>
               let t = thread_entry b1 thread_id space_id path;
                   b2 = b1\<lparr>bb_seen_actions := lru_put L (bb_seen_actions b1) hash,
                           bb_threads := AList.update thread_id
                             (t\<lparr>pt_actions := pt_actions t @ [a], pt_space_metadata := Some md\<rparr>) (bb_threads b1)\<rparr>
               in (True, persist (count_action b2 space_id)))"

subsection \<open>When to form a block\<close>

definition bb_total_pow :: "'c block_builder \<Rightarrow> u64" where
  "bb_total_pow b = sum_list (map (pt_total_pow \<circ> snd) (bb_threads b))"

definition is_threshold_met :: "'c block_builder \<Rightarrow> bool" where
  "is_threshold_met b \<longleftrightarrow> bb_total_pow b \<ge> bb_difficulty_target b"

definition pending_action_count :: "'c block_builder \<Rightarrow> nat" where
  "pending_action_count b = sum_list (map (length \<circ> pt_actions \<circ> snd) (bb_threads b))"

definition should_form_root :: "'c block_builder \<Rightarrow> nat \<Rightarrow> bool \<times> 'c block_builder" where
  "should_form_root b now =
     (if \<not> is_threshold_met b then (False, b\<lparr>bb_waiting_since := None\<rparr>)
      else case bb_waiting_since b of
             None \<Rightarrow> (False, b\<lparr>bb_waiting_since := Some now\<rparr>)
           | Some started \<Rightarrow> (now - started \<ge> LAZY_BLOCK_WAIT_MS, b))"

definition reset_waiting :: "'c block_builder \<Rightarrow> 'c block_builder" where
  "reset_waiting b = b\<lparr>bb_waiting_since := None, bb_flush_since := None\<rparr>"

definition should_form_or_flush :: "'c block_builder \<Rightarrow> nat \<Rightarrow> nat \<Rightarrow> bool \<times> 'c block_builder" where
  "should_form_or_flush b flush_timeout_secs now =
     (if pending_action_count b = 0 then (False, b\<lparr>bb_flush_since := None\<rparr>)
      else if is_threshold_met b then (True, b\<lparr>bb_flush_since := None\<rparr>)
      else
        let started = (case bb_flush_since b of Some t \<Rightarrow> t | None \<Rightarrow> now)
        in ((now - started) div 1000 \<ge> flush_timeout_secs, b\<lparr>bb_flush_since := Some started\<rparr>))"

definition next_height :: "'c block_builder \<Rightarrow> u64" where
  "next_height b = bb_current_height b + 1"

definition space_pow :: "'c block_builder \<Rightarrow> hash32 \<Rightarrow> u64" where
  "space_pow b space_id =
     sum_list (map pt_total_pow (filter (\<lambda>t. pt_space_id t = space_id) (map snd (bb_threads b))))"

subsection \<open>Queries\<close>

definition pending_action_announcements :: "'c block_builder \<Rightarrow> (hash32 \<times> hash32 \<times> action) list" where
  "pending_action_announcements b =
     concat (map (\<lambda>t. map (\<lambda>a. (pt_thread_id t, pt_space_id t, a)) (pt_actions t)) (map snd (bb_threads b)))"

definition get_pending_actions :: "'c block_builder \<Rightarrow> (hash32 \<times> hash32 \<times> action) list" where
  "get_pending_actions b =
     concat (map (\<lambda>t. map (\<lambda>a. (pt_thread_id t, pt_space_id t, a)) (pt_actions t)) (map snd (bb_threads b)))"

definition get_pending_action_hashes :: "(bytes \<Rightarrow> hash32) \<Rightarrow> 'c block_builder \<Rightarrow> hash32 list" where
  "get_pending_action_hashes H b =
     concat (map (\<lambda>t. map (action_hash H) (pt_actions t)) (map snd (bb_threads b)))"

definition get_pending_action_by_hash ::
  "(bytes \<Rightarrow> hash32) \<Rightarrow> 'c block_builder \<Rightarrow> hash32 \<Rightarrow> (hash32 \<times> hash32 \<times> action) option" where
  "get_pending_action_by_hash H b hash =
     find (\<lambda>(_, _, a). action_hash H a = hash) (get_pending_actions b)"

definition find_pending_content :: "'c block_builder \<Rightarrow> hash32 \<Rightarrow> hash32 option" where
  "find_pending_content b content_hash =
     map_option (\<lambda>(_, space_id, _). space_id)
       (find (\<lambda>(_, _, a). act_content_hash a = Some content_hash) (get_pending_actions b))"

definition has_action :: "'c lru_ops \<Rightarrow> 'c block_builder \<Rightarrow> hash32 \<Rightarrow> bool" where
  "has_action L b hash = lru_has L (bb_seen_actions b) hash"

definition remove_action :: "'c lru_ops \<Rightarrow> 'c block_builder \<Rightarrow> hash32 \<Rightarrow> bool \<times> 'c block_builder" where
  "remove_action L b hash =
     (lru_has L (bb_seen_actions b) hash, b\<lparr>bb_seen_actions := lru_pop L (bb_seen_actions b) hash\<rparr>)"

definition set_prev_content_hash :: "'c block_builder \<Rightarrow> hash32 \<Rightarrow> hash32 \<Rightarrow> 'c block_builder" where
  "set_prev_content_hash b thread_id hash =
     (case map_of (bb_threads b) thread_id of
        Some t \<Rightarrow> b\<lparr>bb_threads := AList.update thread_id (t\<lparr>pt_prev_content_hash := Some hash\<rparr>) (bb_threads b)\<rparr>
      | None \<Rightarrow> b)"

subsection \<open>Building blocks\<close>

definition group_by_space :: "pending_thread list \<Rightarrow> (hash32 \<times> pending_thread list) list" where
  "group_by_space threads =
     foldl (\<lambda>m t. AList.update (pt_space_id t)
       ((case map_of m (pt_space_id t) of Some ts \<Rightarrow> ts | None \<Rightarrow> []) @ [t]) m) [] threads"

text \<open>The grants of the batch: what is inserted last for a sponsee stays.\<close>

definition note_grant :: "(hash32 \<Rightarrow> hash32 option option) \<Rightarrow> action \<Rightarrow> (hash32 \<Rightarrow> hash32 option option)" where
  "note_grant m a =
     (if act_type a = Sponsor
      then (case act_content_hash a of Some sponsee \<Rightarrow> m(sponsee \<mapsto> sponsor_scope a) | None \<Rightarrow> m) else m)"

definition sponsored_in_batch :: "(hash32 \<times> pending_thread list) list \<Rightarrow> hash32 \<Rightarrow> hash32 option option" where
  "sponsored_in_batch spaces =
     foldl note_grant (\<lambda>_. None) (concat (map pt_actions (concat (map snd spaces))))"

definition authorized_author ::
  "(bytes \<Rightarrow> hash32 \<Rightarrow> bool) option \<Rightarrow> (hash32 \<Rightarrow> hash32 option option) \<Rightarrow> hash32 \<Rightarrow> action \<Rightarrow> bool" where
  "authorized_author auth batch space a \<longleftrightarrow>
     requires_sponsored_author (act_type a) \<longrightarrow>
       (case auth of Some f \<Rightarrow> f (act_actor a) space | None \<Rightarrow> True) \<or>
       (case batch (act_actor a) of Some (Some scope) \<Rightarrow> scope = space | Some None \<Rightarrow> True | None \<Rightarrow> False)"

definition keep_actions :: "(pending_thread \<Rightarrow> action \<Rightarrow> bool) \<Rightarrow> (hash32 \<times> pending_thread list) list \<Rightarrow>
  (hash32 \<times> pending_thread list) list" where
  "keep_actions P spaces =
     map (\<lambda>(space, threads). (space, map (\<lambda>t. t\<lparr>pt_actions := filter (P t) (pt_actions t)\<rparr>) threads)) spaces"

definition drop_empty :: "(hash32 \<times> pending_thread list) list \<Rightarrow> (hash32 \<times> pending_thread list) list" where
  "drop_empty spaces =
     filter (\<lambda>(_, threads). threads \<noteq> [])
       (map (\<lambda>(space, threads). (space, filter (\<lambda>t. pt_actions t \<noteq> []) threads)) spaces)"

text \<open>\<open>retain\<close> with the set of action hashes already placed in this root block.\<close>

primrec dedup_actions :: "(bytes \<Rightarrow> hash32) \<Rightarrow> hash32 set \<Rightarrow> action list \<Rightarrow> action list \<times> hash32 set" where
  "dedup_actions H seen [] = ([], seen)"
| "dedup_actions H seen (a # as) =
     (if action_hash H a \<in> seen then dedup_actions H seen as
      else let (kept, seen') = dedup_actions H (insert (action_hash H a) seen) as in (a # kept, seen'))"

definition thread_block ::
  "(bytes \<Rightarrow> hash32) \<Rightarrow> u64 \<Rightarrow> pending_thread \<Rightarrow> action list \<Rightarrow> content_block_error + content_block" where
  "thread_block H timestamp t actions =
     (case pt_space_metadata t of
        Some md \<Rightarrow> cb_new_with_space_metadata H (pt_thread_id t) (pt_space_id t) actions
                     (pt_prev_content_hash t) timestamp (pt_branch_path t) md
      | None \<Rightarrow> cb_new H (pt_thread_id t) (pt_space_id t) actions
                     (pt_prev_content_hash t) timestamp (pt_branch_path t))"

primrec build_thread_blocks ::
  "(bytes \<Rightarrow> hash32) \<Rightarrow> u64 \<Rightarrow> hash32 set \<Rightarrow> pending_thread list \<Rightarrow> content_block list \<times> hash32 set" where
  "build_thread_blocks H timestamp seen [] = ([], seen)"
| "build_thread_blocks H timestamp seen (t # ts) =
     (if pt_actions t = [] then build_thread_blocks H timestamp seen ts
      else
        let (actions, seen1) = dedup_actions H seen (sort_key (action_hash H) (pt_actions t))
        in if actions = [] then build_thread_blocks H timestamp seen1 ts
           else
             let (blocks, seen2) = build_thread_blocks H timestamp seen1 ts
             in (case thread_block H timestamp t actions of Inr cb \<Rightarrow> cb # blocks | Inl _ \<Rightarrow> blocks, seen2))"

primrec build_content_blocks ::
  "(bytes \<Rightarrow> hash32) \<Rightarrow> u64 \<Rightarrow> hash32 set \<Rightarrow> (hash32 \<times> pending_thread list) list \<Rightarrow>
   (hash32 \<times> content_block list) list" where
  "build_content_blocks H timestamp seen [] = []"
| "build_content_blocks H timestamp seen (e # es) =
     (let (blocks, seen') = build_thread_blocks H timestamp seen (sort_key pt_thread_id (snd e));
          rest = build_content_blocks H timestamp seen' es
      in if blocks = [] then rest else (fst e, blocks) # rest)"

primrec build_space_blocks ::
  "(bytes \<Rightarrow> hash32) \<Rightarrow> u64 \<Rightarrow> (hash32 \<times> hash32) list \<Rightarrow> (hash32 \<times> content_block list) list \<Rightarrow>
   space_block list \<times> (hash32 \<times> hash32) list" where
  "build_space_blocks H timestamp prev [] = ([], prev)"
| "build_space_blocks H timestamp prev (e # es) =
     (let sb = from_content_blocks H (fst e) (snd e) (map_of prev (fst e)) timestamp;
          (sbs, prev') = build_space_blocks H timestamp (AList.update (fst e) (sb_hash H sb) prev) es
      in (sb # sbs, prev'))"

text \<open>The spaces as they go into the block: grouped, filtered, sorted by space.\<close>

definition block_spaces ::
  "(bytes \<Rightarrow> hash32) \<Rightarrow> 'c block_builder \<Rightarrow> (bytes \<Rightarrow> hash32 \<Rightarrow> bool) option \<Rightarrow> chain_store option \<Rightarrow>
   (hash32 \<times> pending_thread list) list" where
  "block_spaces H b auth store =
     (let spaces = group_by_space (map snd (bb_threads b));
          batch = sponsored_in_batch spaces;
          authorized = keep_actions (\<lambda>t. authorized_author auth batch (pt_space_id t)) spaces;
          unfinalized = (case store of
             Some cs \<Rightarrow> drop_empty (keep_actions (\<lambda>t a. is_action_finalized cs (action_hash H a) = None) authorized)
           | None \<Rightarrow> authorized)
      in sort_key fst unfinalized)"

text \<open>The actions left out for want of a sponsor; only their hashes are kept.\<close>

definition excluded_actions ::
  "'c block_builder \<Rightarrow> (bytes \<Rightarrow> hash32 \<Rightarrow> bool) option \<Rightarrow> action list" where
  "excluded_actions b auth =
     (let spaces = group_by_space (map snd (bb_threads b));
          batch = sponsored_in_batch spaces
      in concat (map (\<lambda>t. filter (\<lambda>a. \<not> authorized_author auth batch (pt_space_id t) a) (pt_actions t))
           (concat (map snd spaces))))"

definition build_root_block ::
  "'c lru_ops \<Rightarrow> (bytes \<Rightarrow> hash32) \<Rightarrow> 'c block_builder \<Rightarrow> u64 \<Rightarrow> hash32 \<Rightarrow>
   (bytes \<Rightarrow> hash32 \<Rightarrow> bool) option \<Rightarrow> chain_store option \<Rightarrow>
   (root_block \<times> space_block list \<times> content_block list) \<times> 'c block_builder" where
  "build_root_block L H b timestamp block_creator auth store =
     (let quantized = timestamp div TIMESTAMP_QUANTUM_SECS * TIMESTAMP_QUANTUM_SECS;
          contents = build_content_blocks H quantized {} (block_spaces H b auth store);
          (space_blocks, prev_space_hashes) = build_space_blocks H quantized (bb_prev_space_hashes b) contents;
          root = from_space_blocks H space_blocks (bb_prev_root_hash b) (bb_prev_cumulative_pow b) quantized
                   (bb_difficulty_target b) (bb_current_height b + 1) block_creator
      in ((root, space_blocks, concat (map snd contents)),
          persist (b\<lparr>bb_threads := [],
            bb_seen_actions := foldl (lru_put L) (bb_seen_actions b) (map (action_hash H) (excluded_actions b auth)),
            bb_prev_space_hashes := prev_space_hashes,
            bb_prev_root_hash := rb_hash H root, bb_prev_cumulative_pow := rb_cumulative_pow root,
            bb_current_height := bb_current_height b + 1,
            bb_waiting_since := None, bb_flush_since := None,
            bb_space_action_counts := [], bb_total_action_count := 0, bb_action_locations := []\<rparr>)))"

definition build_content_block ::
  "(bytes \<Rightarrow> hash32) \<Rightarrow> 'c block_builder \<Rightarrow> hash32 \<Rightarrow> u64 \<Rightarrow> content_block option \<times> 'c block_builder" where
  "build_content_block H b thread_id timestamp =
     (case map_of (bb_threads b) thread_id of
        None \<Rightarrow> (None, b)
      | Some t \<Rightarrow>
          (case cb_new H (pt_thread_id t) (pt_space_id t) (pt_actions t) (pt_prev_content_hash t) timestamp
                  (pt_branch_path t) of
             Inl _ \<Rightarrow> None | Inr cb \<Rightarrow> Some cb,
           b\<lparr>bb_threads := AList.delete thread_id (bb_threads b)\<rparr>))"

subsection \<open>Snapshots, clearing and the mempool file\<close>

record pending_snapshot =
  ps_threads :: "(hash32 \<times> pending_thread) list"
  ps_action_locations :: "(hash32 \<times> hash32 \<times> nat) list"
  ps_space_action_counts :: "(hash32 \<times> nat) list"
  ps_total_action_count :: nat
  ps_waiting_since :: "nat option"
  ps_flush_since :: "nat option"

definition snapshot_pending :: "'c block_builder \<Rightarrow> pending_snapshot" where
  "snapshot_pending b =
     \<lparr>ps_threads = bb_threads b, ps_action_locations = bb_action_locations b,
      ps_space_action_counts = bb_space_action_counts b, ps_total_action_count = bb_total_action_count b,
      ps_waiting_since = bb_waiting_since b, ps_flush_since = bb_flush_since b\<rparr>"

definition restore_pending :: "'c block_builder \<Rightarrow> pending_snapshot \<Rightarrow> 'c block_builder" where
  "restore_pending b snap =
     persist (b\<lparr>bb_threads := ps_threads snap, bb_action_locations := ps_action_locations snap,
       bb_space_action_counts := ps_space_action_counts snap,
       bb_total_action_count := ps_total_action_count snap,
       bb_waiting_since := ps_waiting_since snap, bb_flush_since := ps_flush_since snap\<rparr>)"

definition bb_clear :: "'c lru_ops \<Rightarrow> 'c block_builder \<Rightarrow> 'c block_builder" where
  "bb_clear L b =
     persist (b\<lparr>bb_threads := [], bb_seen_actions := lru_new L, bb_action_locations := [],
       bb_space_action_counts := [], bb_total_action_count := 0, bb_waiting_since := None,
       bb_flush_since := None\<rparr>)"

text \<open>How many actions leave a thread, and the counts of its space after it.\<close>

definition finalized_in :: "(bytes \<Rightarrow> hash32) \<Rightarrow> action list \<Rightarrow> action \<Rightarrow> bool" where
  "finalized_in H actions a \<longleftrightarrow> action_hash H a \<in> action_hash H ` set actions"

definition removed_from ::
  "(bytes \<Rightarrow> hash32) \<Rightarrow> action list \<Rightarrow> pending_thread list \<Rightarrow> nat" where
  "removed_from H actions threads =
     sum_list (map (\<lambda>t. length (filter (finalized_in H actions) (pt_actions t))) threads)"

definition lower_space_count :: "(hash32 \<times> nat) list \<Rightarrow> hash32 \<times> nat \<Rightarrow> (hash32 \<times> nat) list" where
  "lower_space_count counts e =
     (case map_of counts (fst e) of
        None \<Rightarrow> counts
      | Some n \<Rightarrow> if n - snd e = 0 then AList.delete (fst e) counts
                  else AList.update (fst e) (n - snd e) counts)"

definition clear_finalized_actions ::
  "'c lru_ops \<Rightarrow> (bytes \<Rightarrow> hash32) \<Rightarrow> 'c block_builder \<Rightarrow> action list \<Rightarrow> nat \<times> 'c block_builder" where
  "clear_finalized_actions L H b actions =
     (let threads = map snd (bb_threads b);
          removed = removed_from H actions threads;
          removals = filter (\<lambda>(_, n). n > 0)
            (map (\<lambda>(space, ts). (space, removed_from H actions ts)) (group_by_space threads));
          kept = map (\<lambda>(k, t). (k, t\<lparr>pt_actions := filter (\<lambda>a. \<not> finalized_in H actions a) (pt_actions t)\<rparr>))
                   (bb_threads b);
          b' = b\<lparr>bb_seen_actions := foldl (lru_pop L) (bb_seen_actions b) (map (action_hash H) actions),
                 bb_action_locations :=
                   foldl (\<lambda>m h. AList.delete h m) (bb_action_locations b) (map (action_hash H) actions),
                 bb_threads := filter (\<lambda>(k, t). pt_actions t \<noteq> []) kept,
                 bb_space_action_counts := foldl lower_space_count (bb_space_action_counts b) removals,
                 bb_total_action_count := bb_total_action_count b - removed\<rparr>
      in (removed, if removed > 0 then persist b' else b'))"

text \<open>The derived indexes are rebuilt from the threads that are loaded.\<close>

definition index_action ::
  "'c lru_ops \<Rightarrow> (bytes \<Rightarrow> hash32) \<Rightarrow> pending_thread \<Rightarrow> 'c block_builder \<Rightarrow> nat \<times> action \<Rightarrow> 'c block_builder" where
  "index_action L H t b e =
     (case e of (idx, a) \<Rightarrow>
        count_action
          (b\<lparr>bb_seen_actions := lru_put L (bb_seen_actions b) (action_hash H a),
             bb_action_locations :=
               AList.update (action_hash H a) (pt_thread_id t, idx) (bb_action_locations b)\<rparr>)
          (pt_space_id t))"

definition restore_threads ::
  "'c lru_ops \<Rightarrow> (bytes \<Rightarrow> hash32) \<Rightarrow> 'c block_builder \<Rightarrow> (hash32 \<times> pending_thread) list \<Rightarrow> 'c block_builder" where
  "restore_threads L H b threads =
     foldl (\<lambda>b t. foldl (index_action L H t) b (enumerate 0 (pt_actions t)))
       (b\<lparr>bb_threads := threads, bb_action_locations := [], bb_space_action_counts := [],
          bb_total_action_count := 0\<rparr>)
       (map snd threads)"

text \<open>
  The mempool file: magic bytes, format version, number of threads, and each thread with its
  length. The encoding of a thread is that of the crate \<open>bincode\<close>: the parameters \<open>ser\<close> and \<open>deser\<close>,
  and \<open>legacy\<close> for a whole map in the old format.
\<close>

definition MEMPOOL_MAGIC :: bytes where "MEMPOOL_MAGIC = [0x53, 0x57, 0x4D, 0x50]"
definition MEMPOOL_FORMAT_VERSION :: u32 where "MEMPOOL_FORMAT_VERSION = 2"

definition u32_le :: "u32 \<Rightarrow> bytes" where
  "u32_le w = rev (u32_be w)"

definition read_u32_le :: "bytes \<Rightarrow> nat \<Rightarrow> (u32 \<times> nat) option" where
  "read_u32_le data off =
     (if off + 4 > length data then None else Some (u32_of_be (rev (byte_slice data off 4)), off + 4))"

definition frame_mempool :: "bytes list \<Rightarrow> bytes" where
  "frame_mempool entries =
     MEMPOOL_MAGIC @ u32_le MEMPOOL_FORMAT_VERSION @ u32_le (word_of_nat (length entries)) @
     concat (map (\<lambda>e. u32_le (word_of_nat (length e)) @ e) entries)"

primrec parse_frames ::
  "(bytes \<Rightarrow> pending_thread option) \<Rightarrow> bytes \<Rightarrow> nat \<Rightarrow> nat \<Rightarrow> (hash32 \<times> pending_thread) list \<Rightarrow>
   (hash32 \<times> pending_thread) list" where
  "parse_frames deser data 0 off threads = threads"
| "parse_frames deser data (Suc n) off threads =
     (case read_u32_le data off of
        None \<Rightarrow> threads
      | Some (len, off1) \<Rightarrow>
          let stop = off1 + unat len
          in if stop > length data then threads
             else parse_frames deser data n stop
               (case deser (byte_slice data off1 (unat len)) of
                  Some t \<Rightarrow> AList.update (pt_thread_id t) t threads
                | None \<Rightarrow> threads))"

definition parse_mempool ::
  "(bytes \<Rightarrow> pending_thread option) \<Rightarrow> (bytes \<Rightarrow> (hash32 \<times> pending_thread) list option) \<Rightarrow> bytes \<Rightarrow>
   (hash32 \<times> pending_thread) list option" where
  "parse_mempool deser legacy data =
     (if length data \<ge> 4 \<and> take 4 data = MEMPOOL_MAGIC then
        (case read_u32_le data 4 of
           None \<Rightarrow> None
         | Some (version, off) \<Rightarrow>
             (case read_u32_le data off of
                None \<Rightarrow> None
              | Some (cnt, off') \<Rightarrow>
                  if version = MEMPOOL_FORMAT_VERSION
                  then Some (parse_frames deser data (unat cnt) off' []) else None))
      else legacy data)"

text \<open>The flag tells whether the file was unreadable and has been backed up.\<close>

definition load_persisted ::
  "'c lru_ops \<Rightarrow> (bytes \<Rightarrow> hash32) \<Rightarrow> (bytes \<Rightarrow> pending_thread option) \<Rightarrow>
   (bytes \<Rightarrow> (hash32 \<times> pending_thread) list option) \<Rightarrow> 'c block_builder \<Rightarrow> bytes option \<Rightarrow> bool \<times> 'c block_builder" where
  "load_persisted L H deser legacy b file =
     (case file of
        None \<Rightarrow> (False, b)
      | Some data \<Rightarrow>
          if data = [] then (False, b)
          else case parse_mempool deser legacy data of
                 None \<Rightarrow> (True, b)
               | Some threads \<Rightarrow> (False, restore_threads L H b threads))"

definition set_persistence ::
  "'c lru_ops \<Rightarrow> (bytes \<Rightarrow> hash32) \<Rightarrow> (bytes \<Rightarrow> pending_thread option) \<Rightarrow>
   (bytes \<Rightarrow> (hash32 \<times> pending_thread) list option) \<Rightarrow> 'c block_builder \<Rightarrow> bytes option \<Rightarrow> bool \<times> 'c block_builder" where
  "set_persistence L H deser legacy b file = load_persisted L H deser legacy (b\<lparr>bb_persists := True\<rparr>) file"

definition mempool_file :: "(pending_thread \<Rightarrow> bytes) \<Rightarrow> 'c block_builder \<Rightarrow> bytes" where
  "mempool_file ser b = frame_mempool (map ser (bb_disk b))"

end
