(* ===== verification/Space_Class.thy ===== *)
theory Space_Class
  imports Swim_Prelude
begin

text \<open>
  Classes of space identifiers (\<open>src/types/space_class.rs\<close>): the first byte of a 16-byte id is its
  class; ids of app-namespaced spaces are derived from their name, all others from a proof of work.
  Rust strings are their UTF-8 bytes; the delimiters are ASCII, so splitting bytes is splitting
  characters. An \<open>assert!\<close> that fails is \<open>None\<close>.
\<close>

subsection \<open>Definitions\<close>

datatype space_class = Social | Profile | Dm | Private | App

fun class_byte :: "space_class \<Rightarrow> byte" where
  "class_byte Social = 0x01"
| "class_byte Profile = 0x02"
| "class_byte Dm = 0x03"
| "class_byte Private = 0x04"
| "class_byte App = 0x05"

definition class_from_byte :: "byte \<Rightarrow> space_class option" where
  "class_from_byte b =
     (if b = 0x01 then Some Social else if b = 0x02 then Some Profile else if b = 0x03 then Some Dm
      else if b = 0x04 then Some Private else if b = 0x05 then Some App else None)"

definition apply_class :: "space_class \<Rightarrow> bytes \<Rightarrow> bytes option" where
  "apply_class c h = (if length h \<ge> 15 then Some (class_byte c # take 15 h) else None)"

definition class_of :: "bytes \<Rightarrow> space_class option" where
  "class_of space_id_16 = class_from_byte (space_id_16 ! 0)"

text \<open>\<open>str::split_once\<close> at the first colon.\<close>

definition split_colon :: "bytes \<Rightarrow> (bytes \<times> bytes) option" where
  "split_colon s =
     (case dropWhile (\<lambda>b. b \<noteq> 0x3A) s of
        [] \<Rightarrow> None
      | _ # rest \<Rightarrow> Some (takeWhile (\<lambda>b. b \<noteq> 0x3A) s, rest))"

definition app_name_byte :: "byte \<Rightarrow> bool" where
  "app_name_byte b \<longleftrightarrow> (0x61 \<le> b \<and> b \<le> 0x7A) \<or> (0x30 \<le> b \<and> b \<le> 0x39) \<or> b = 0x2D"

definition parse_app_space_name :: "bytes \<Rightarrow> (bytes \<times> bytes) option" where
  "parse_app_space_name name =
     (case name of
        [] \<Rightarrow> None
      | c # rest \<Rightarrow>
          if c \<noteq> 0x40 then None
          else case split_colon rest of
                 None \<Rightarrow> None
               | Some (app, display) \<Rightarrow>
                   if app = [] \<or> length app > 32 \<or> display = [] then None
                   else if \<not> list_all app_name_byte app then None
                   else Some (app, display))"

text \<open>The formatted string that \<open>app_space_id_16\<close> hashes.\<close>

definition app_space_preimage :: "bytes \<Rightarrow> bytes \<Rightarrow> bytes" where
  "app_space_preimage app display =
     string_bytes ''app:'' @ app @ string_bytes '':v1:'' @ display"

definition app_space_id_16 :: "(bytes \<Rightarrow> hash32) \<Rightarrow> bytes \<Rightarrow> bytes \<Rightarrow> bytes option" where
  "app_space_id_16 H app display = apply_class App (H (app_space_preimage app display))"

definition derive_space_id :: "(bytes \<Rightarrow> hash32) \<Rightarrow> bytes \<Rightarrow> bytes \<Rightarrow> bytes option" where
  "derive_space_id H name pow_hash =
     (case parse_app_space_name name of
        Some (app, display) \<Rightarrow> app_space_id_16 H app display
      | None \<Rightarrow> apply_class Social pow_hash)"

subsection \<open>Lemmas\<close>

lemma class_roundtrip [simp]: "class_from_byte (class_byte c) = Some c"
  by (cases c) (simp_all add: class_from_byte_def)

lemma apply_class_ok:
  "apply_class c h = Some sid \<Longrightarrow> length sid = 16 \<and> class_of sid = Some c"
  by (auto simp: apply_class_def class_of_def split: if_splits)

lemma split_colon_ok: "split_colon s = Some (l, r) \<Longrightarrow> s = l @ 0x3A # r \<and> 0x3A \<notin> set l"
proof -
  assume "split_colon s = Some (l, r)"
  then obtain c where d: "dropWhile (\<lambda>b. b \<noteq> 0x3A) s = c # r" and l: "l = takeWhile (\<lambda>b. b \<noteq> 0x3A) s"
    by (auto simp: split_colon_def split: list.splits)
  have "c = 0x3A" using d by (metis (mono_tags, lifting) dropWhile_eq_Cons_conv)
  moreover have "s = l @ c # r" using d l by (metis takeWhile_dropWhile_id)
  ultimately show ?thesis using l by (auto dest: set_takeWhileD)
qed

lemma split_colon_append: "0x3A \<notin> set l \<Longrightarrow> split_colon (l @ 0x3A # r) = Some (l, r)"
proof -
  assume "0x3A \<notin> set l"
  then have "\<forall>b \<in> set l. b \<noteq> 0x3A" by auto
  then show ?thesis by (simp add: split_colon_def dropWhile_append2 takeWhile_append2)
qed

lemma parse_app_ok:
  assumes "parse_app_space_name name = Some (app, display)"
  shows "name = 0x40 # app @ 0x3A # display \<and> 0x3A \<notin> set app \<and> app \<noteq> [] \<and> display \<noteq> [] \<and> length app \<le> 32"
  using assms split_colon_ok [of "tl name" app display]
  by (auto simp: parse_app_space_name_def split: list.splits if_splits option.splits prod.splits)

lemma app_space_preimage_inject:
  assumes "0x3A \<notin> set a" "0x3A \<notin> set a'" and "app_space_preimage a d = app_space_preimage a' d'"
  shows "a = a' \<and> d = d'"
proof -
  have "a @ 0x3A # string_bytes ''v1:'' @ d = a' @ 0x3A # string_bytes ''v1:'' @ d'"
    using assms(3) by (simp add: app_space_preimage_def string_bytes_def)
  then have "split_colon (a @ 0x3A # string_bytes ''v1:'' @ d) = split_colon (a' @ 0x3A # string_bytes ''v1:'' @ d')"
    by simp
  then show ?thesis by (simp add: split_colon_append assms(1,2))
qed

subsection \<open>Properties\<close>

text \<open>
  \<open>derive_space_id\<close> always returns a 16-byte id of a known class when the digests and the
  proof-of-work hash have their sizes: class \<open>App\<close> exactly for names of the form \<open>@app:display\<close>,
  whose id does not depend on the proof of work, and class \<open>Social\<close> for all others.
\<close>

theorem derive_space_id_classed:
  assumes "\<And>x. length (H x) = 32" and "length pow_hash \<ge> 15"
  shows "\<exists>sid. derive_space_id H name pow_hash = Some sid \<and> length sid = 16 \<and>
    class_of sid = Some (if parse_app_space_name name = None then Social else App) \<and>
    (parse_app_space_name name = None \<or> derive_space_id H name pow_hash = derive_space_id H name [])"
proof -
  have apply_ok: "\<exists>sid. apply_class c h = Some sid" if "length h \<ge> 15" for c h
    using that by (simp add: apply_class_def)
  show ?thesis
  proof (cases "parse_app_space_name name")
    case None
    with apply_ok [OF assms(2), of Social] show ?thesis
      by (auto simp: derive_space_id_def dest: apply_class_ok)
  next
    case (Some p)
    with apply_ok [of "H (app_space_preimage (fst p) (snd p))" App] assms(1) show ?thesis
      by (auto simp: derive_space_id_def app_space_id_16_def split: prod.splits dest: apply_class_ok)
  qed
qed

theorem derive_space_id_classed_witness:
  "\<exists>sid. derive_space_id (\<lambda>_. zero32) [0x40, 0x61, 0x3A, 0x62] zero32 = Some sid \<and> class_of sid = Some App"
proof -
  have "parse_app_space_name [0x40, 0x61, 0x3A, 0x62] = Some ([0x61], [0x62])"
    by (simp add: parse_app_space_name_def split_colon_def app_name_byte_def)
  then show ?thesis
    using derive_space_id_classed [of "\<lambda>_. zero32" zero32 "[0x40, 0x61, 0x3A, 0x62]"] by auto
qed

text \<open>
  App-namespaced names do not clash: two different names that both parse as \<open>@app:display\<close>
  hash different strings, so equal ids come from digests that agree on their first 15 bytes.
\<close>

theorem app_space_names_distinct:
  assumes "parse_app_space_name n = Some (a, d)" and "parse_app_space_name n' = Some (a', d')"
    and "n \<noteq> n'"
  shows "app_space_preimage a d \<noteq> app_space_preimage a' d'"
  using parse_app_ok [OF assms(1)] parse_app_ok [OF assms(2)] assms(3)
    app_space_preimage_inject [of a a' d d'] by auto

theorem app_space_names_distinct_witness:
  "app_space_preimage [0x61] [0x62] \<noteq> app_space_preimage [0x61] [0x3A, 0x62]"
  by (rule app_space_names_distinct [of "[0x40, 0x61, 0x3A, 0x62]" _ _ "[0x40, 0x61, 0x3A, 0x3A, 0x62]"])
    (simp_all add: parse_app_space_name_def split_colon_def app_name_byte_def)

end
