(* ===== verification/Validation.thy ===== *)
theory Validation
  imports Root_Block Space_Class
begin

text \<open>
  Validation at every level of the hierarchy (\<open>src/blocks/validation.rs\<close>). Ed25519 verification
  (crate \<open>ed25519_dalek\<close>, called through \<open>crypto::signature::verify\<close>) is the parameter \<open>verify\<close>
  of public key, message and signature; \<open>hex::encode\<close> (crate \<open>hex\<close>) is the parameter \<open>hex\<close>;
  SHA-256 is \<open>H\<close>; the content store that \<open>validate_reply_parents\<close> asks is its closure argument.
\<close>

subsection \<open>Definitions\<close>

definition TIMESTAMP_WINDOW_SECS :: u64 where "TIMESTAMP_WINDOW_SECS = 600"
definition TIMESTAMP_FUTURE_SECS :: u64 where "TIMESTAMP_FUTURE_SECS = 60"

datatype validation_error =
    ActionError string
  | ContentBlockError content_block_error
  | SpaceBlockError space_block_error
  | RootBlockError root_block_error
  | TimestampTooOld u64 u64
  | TimestampInFuture u64 u64
  | InvalidActionTypeFor action_type action_type
  | ChainContinuityError hash32 hash32
  | HeightContinuityError u64 u64
  | SignatureVerificationFailed
  | PoWVerificationFailed string

definition space_id_class_is_valid :: "bytes \<Rightarrow> bool" where
  "space_id_class_is_valid space_id_16 \<longleftrightarrow> class_of space_id_16 \<noteq> None"

definition validate_action_timestamp :: "u64 \<Rightarrow> u64 \<Rightarrow> validation_error outcome" where
  "validate_action_timestamp timestamp current_time =
     rbind (reject_if (timestamp + TIMESTAMP_WINDOW_SECS < current_time)
              (TimestampTooOld timestamp current_time))
       (\<lambda>_. reject_if (timestamp > current_time + TIMESTAMP_FUTURE_SECS)
              (TimestampInFuture timestamp current_time))"

text \<open>One test of \<open>validate_action\<close> for a missing field, and two of them in a row.\<close>

definition require_field :: "'a option \<Rightarrow> string \<Rightarrow> validation_error outcome" where
  "require_field x msg = reject_if (x = None) (ActionError msg)"

definition require_both :: "action \<Rightarrow> string \<Rightarrow> string \<Rightarrow> validation_error outcome" where
  "require_both a content_msg parent_msg =
     rbind (require_field (act_content_hash a) content_msg)
       (\<lambda>_. require_field (act_parent_id a) parent_msg)"

definition check_space_class :: "action \<Rightarrow> validation_error outcome" where
  "check_space_class a =
     (case act_content_hash a of
        None \<Rightarrow> Inr ()
      | Some content_hash \<Rightarrow>
          let space_id_16 = take 16 content_hash
          in reject_if (\<not> space_id_class_is_valid space_id_16)
               (ActionError (''CreateSpace space_id has unknown class byte: 0x'' @ show_hex2 (space_id_16 ! 0))))"

definition validate_action_fields :: "action \<Rightarrow> validation_error outcome" where
  "validate_action_fields a =
     (case act_type a of
        Post \<Rightarrow> require_field (act_content_hash a) ''POST must have content_hash''
      | Reply \<Rightarrow> require_both a ''REPLY must have content_hash'' ''REPLY must have parent_id''
      | CreateSpace \<Rightarrow> check_space_class a
      | Engage \<Rightarrow> require_field (act_content_hash a) ''ENGAGE must have content_hash''
      | Edit \<Rightarrow> require_both a ''EDIT must have content_hash (new content)''
                 ''EDIT must have parent_id (original content)''
      | Invite \<Rightarrow> require_both a ''INVITE must have content_hash (invite payload)''
                   ''INVITE must have parent_id (space_id)''
      | Leave \<Rightarrow> require_field (act_parent_id a) ''LEAVE must have parent_id (space_id)''
      | Kick \<Rightarrow> require_both a ''KICK must have content_hash (kicked member pubkey hash)''
                 ''KICK must have parent_id (space_id)''
      | RevokeInvite \<Rightarrow> require_field (act_content_hash a)
                         ''REVOKE_INVITE must have content_hash (original invite hash)''
      | KeyRotation \<Rightarrow> require_both a ''KEY_ROTATION must have content_hash (rotation payload)''
                        ''KEY_ROTATION must have parent_id (space_id)''
      | DMRequest \<Rightarrow> require_field (act_content_hash a)
                      ''DM_REQUEST must have content_hash (request payload)''
      | AcceptDM \<Rightarrow> require_both a ''ACCEPT_DM must have content_hash (accept payload)''
                     ''ACCEPT_DM must have parent_id (DM space_id)''
      | DeclineDM \<Rightarrow> require_field (act_parent_id a)
                      ''DECLINE_DM must have parent_id (DM request hash)''
      | Sponsor \<Rightarrow> require_field (act_content_hash a) ''SPONSOR must have content_hash (sponsee pubkey)''
      | GenesisRegister \<Rightarrow> require_field (act_content_hash a)
                            ''GENESIS_REGISTER must have content_hash (genesis pubkey)''
      | RenameSpace \<Rightarrow> require_both a ''RENAME_SPACE must have content_hash (new-name commitment)''
                        ''RENAME_SPACE must have parent_id (target space id)'')"

definition validate_action :: "action \<Rightarrow> u64 \<Rightarrow> validation_error outcome" where
  "validate_action a current_time =
     rbind (validate_action_timestamp (act_timestamp a) current_time) (\<lambda>_. validate_action_fields a)"

text \<open>The 41 bytes that an author signs; the legacy form is the first 40 of them.\<close>

definition message_v2 :: "action \<Rightarrow> hash32 \<Rightarrow> bytes" where
  "message_v2 a content_hash =
     content_hash @ u64_le (act_timestamp a) @ [if act_private a then 1 else 0]"

definition validate_action_signature ::
  "(bytes \<Rightarrow> bytes \<Rightarrow> bytes \<Rightarrow> bool) \<Rightarrow> action \<Rightarrow> validation_error outcome" where
  "validate_action_signature verify a =
     (case act_content_hash a of
        None \<Rightarrow> Inl (ActionError ''Cannot verify signature without content_hash'')
      | Some content_hash \<Rightarrow>
          if verify (act_actor a) (message_v2 a content_hash) (act_signature a) then Inr ()
          else if \<not> act_private a \<and>
                  verify (act_actor a) (take 40 (message_v2 a content_hash)) (act_signature a)
          then Inr ()
          else Inl SignatureVerificationFailed)"

definition engage_message :: "(bytes \<Rightarrow> string) \<Rightarrow> action \<Rightarrow> hash32 \<Rightarrow> string" where
  "engage_message hex a content_hash =
     (let content_id = ''sha256:'' @ hex content_hash
      in case act_emoji a of
           Some emoji \<Rightarrow> ''engage:'' @ content_id @ '':'' @ show_nat (unat (act_pow_nonce a)) @ '':'' @
                         show_nat (unat (act_timestamp a)) @ '':'' @ show_nat (unat emoji)
         | None \<Rightarrow> ''engage:'' @ content_id @ '':'' @ show_nat (unat (act_pow_nonce a)) @ '':'' @
                   show_nat (unat (act_timestamp a)))"

definition validate_engage_signature ::
  "(bytes \<Rightarrow> bytes \<Rightarrow> bytes \<Rightarrow> bool) \<Rightarrow> (bytes \<Rightarrow> string) \<Rightarrow> action \<Rightarrow> validation_error outcome" where
  "validate_engage_signature verify hex a =
     (case act_content_hash a of
        None \<Rightarrow> Inl (ActionError ''Cannot verify engage without content_hash'')
      | Some content_hash \<Rightarrow>
          if verify (act_actor a) (string_bytes (engage_message hex a content_hash)) (act_signature a)
          then Inr () else Inl SignatureVerificationFailed)"

definition validate_content_action_authenticity ::
  "(bytes \<Rightarrow> bytes \<Rightarrow> bytes \<Rightarrow> bool) \<Rightarrow> (bytes \<Rightarrow> string) \<Rightarrow> action \<Rightarrow> validation_error outcome" where
  "validate_content_action_authenticity verify hex a =
     (case act_type a of
        Post \<Rightarrow> validate_action_signature verify a
      | Reply \<Rightarrow> validate_action_signature verify a
      | Edit \<Rightarrow> validate_action_signature verify a
      | Engage \<Rightarrow> validate_engage_signature verify hex a
      | _ \<Rightarrow> Inr ())"

fun min_work :: "action_type \<Rightarrow> u64" where
  "min_work Post = 1"
| "min_work Reply = 1"
| "min_work CreateSpace = 1"
| "min_work Engage = 0"
| "min_work Edit = 1"
| "min_work Invite = 1"
| "min_work Leave = 0"
| "min_work Kick = 1"
| "min_work RevokeInvite = 0"
| "min_work KeyRotation = 1"
| "min_work DMRequest = 1"
| "min_work AcceptDM = 0"
| "min_work DeclineDM = 0"
| "min_work Sponsor = 0"
| "min_work GenesisRegister = 0"
| "min_work RenameSpace = 1"

text \<open>The derived \<open>Debug\<close> form of an action type.\<close>

fun show_action_type :: "action_type \<Rightarrow> string" where
  "show_action_type CreateSpace = ''CreateSpace''"
| "show_action_type Post = ''Post''"
| "show_action_type Reply = ''Reply''"
| "show_action_type Engage = ''Engage''"
| "show_action_type Edit = ''Edit''"
| "show_action_type Invite = ''Invite''"
| "show_action_type Leave = ''Leave''"
| "show_action_type Kick = ''Kick''"
| "show_action_type RevokeInvite = ''RevokeInvite''"
| "show_action_type KeyRotation = ''KeyRotation''"
| "show_action_type DMRequest = ''DMRequest''"
| "show_action_type AcceptDM = ''AcceptDM''"
| "show_action_type DeclineDM = ''DeclineDM''"
| "show_action_type Sponsor = ''Sponsor''"
| "show_action_type GenesisRegister = ''GenesisRegister''"
| "show_action_type RenameSpace = ''RenameSpace''"

definition validate_action_pow :: "action \<Rightarrow> validation_error outcome" where
  "validate_action_pow a =
     reject_if (act_pow_work a < min_work (act_type a))
       (PoWVerificationFailed
         (''Action type '' @ show_action_type (act_type a) @ '' requires minimum '' @
          show_nat (unat (min_work (act_type a))) @ '' work, got '' @ show_nat (unat (act_pow_work a))))"

definition validate_action_full ::
  "(bytes \<Rightarrow> bytes \<Rightarrow> bytes \<Rightarrow> bool) \<Rightarrow> action \<Rightarrow> u64 \<Rightarrow> validation_error outcome" where
  "validate_action_full verify a current_time =
     rbind (validate_action a current_time) (\<lambda>_.
     rbind (validate_action_signature verify a) (\<lambda>_.
     validate_action_pow a))"

definition validate_content_block ::
  "(bytes \<Rightarrow> hash32) \<Rightarrow> (bytes \<Rightarrow> bytes \<Rightarrow> bytes \<Rightarrow> bool) \<Rightarrow> content_block \<Rightarrow> u64 \<Rightarrow> validation_error outcome" where
  "validate_content_block H verify block current_time =
     rbind (map_err ContentBlockError (cb_verify_merkle_root H block)) (\<lambda>_.
     rbind (map_err ContentBlockError (cb_verify_pow_sum block)) (\<lambda>_.
     rbind (map_err ContentBlockError (cb_verify_thread_integrity block)) (\<lambda>_.
     for_each (\<lambda>a. validate_action_full verify a current_time) (cb_actions block))))"

definition block_content_ids :: "content_block \<Rightarrow> hash32 list" where
  "block_content_ids block = List.map_filter act_content_hash (cb_actions block)"

definition validate_reply_parent ::
  "(bytes \<Rightarrow> string) \<Rightarrow> content_block \<Rightarrow> (hash32 \<Rightarrow> bool) \<Rightarrow> action \<Rightarrow> validation_error outcome" where
  "validate_reply_parent hex block parent_exists a =
     (case (act_type a, act_parent_id a) of
        (Reply, Some parent_id) \<Rightarrow>
          reject_if (parent_id \<notin> set (block_content_ids block) \<and> \<not> parent_exists parent_id)
            (ActionError (''Reply has orphan parent: parent '' @ hex (take 16 parent_id) @
              '' not found in store or block''))
      | _ \<Rightarrow> Inr ())"

definition validate_reply_parents ::
  "(bytes \<Rightarrow> string) \<Rightarrow> content_block \<Rightarrow> (hash32 \<Rightarrow> bool) \<Rightarrow> validation_error outcome" where
  "validate_reply_parents hex block parent_exists =
     for_each (validate_reply_parent hex block parent_exists) (cb_actions block)"

definition validate_space_block ::
  "(bytes \<Rightarrow> hash32) \<Rightarrow> space_block \<Rightarrow> content_block list option \<Rightarrow> validation_error outcome" where
  "validate_space_block H block content_blocks =
     rbind (map_err SpaceBlockError (sb_verify_merkle_root H block)) (\<lambda>_.
     case content_blocks of
       None \<Rightarrow> Inr ()
     | Some blocks \<Rightarrow>
         rbind (map_err SpaceBlockError (sb_verify_pow_sum block blocks)) (\<lambda>_.
         map_err SpaceBlockError (sb_verify_space_membership block blocks)))"

definition check_continuity ::
  "(bytes \<Rightarrow> hash32) \<Rightarrow> root_block \<Rightarrow> root_block \<Rightarrow> validation_error outcome" where
  "check_continuity H block prev =
     rbind (reject_if (rb_prev_root_hash block \<noteq> rb_hash H prev)
              (ChainContinuityError (rb_hash H prev) (rb_prev_root_hash block))) (\<lambda>_.
     reject_if (rb_height block \<noteq> rb_height prev + 1)
       (HeightContinuityError (rb_height prev + 1) (rb_height block)))"

definition validate_root_block ::
  "(bytes \<Rightarrow> hash32) \<Rightarrow> root_block \<Rightarrow> root_block option \<Rightarrow> space_block list option \<Rightarrow> validation_error outcome" where
  "validate_root_block H block prev_block space_blocks =
     rbind (map_err RootBlockError (rb_verify_merkle_root H block)) (\<lambda>_.
     rbind (case space_blocks of
              None \<Rightarrow> Inr ()
            | Some blocks \<Rightarrow> map_err RootBlockError (rb_verify_pow_sum block blocks)) (\<lambda>_.
     rbind (if \<not> is_genesis block then map_err RootBlockError (verify_difficulty block) else Inr ()) (\<lambda>_.
     rbind (map_err RootBlockError (verify_genesis block)) (\<lambda>_.
     case prev_block of None \<Rightarrow> Inr () | Some prev \<Rightarrow> check_continuity H block prev))))"

definition validate_chain_segment ::
  "(bytes \<Rightarrow> hash32) \<Rightarrow> root_block list \<Rightarrow> validation_error outcome" where
  "validate_chain_segment H blocks =
     (case blocks of
        [] \<Rightarrow> Inr ()
      | b0 # rest \<Rightarrow>
          rbind (validate_root_block H b0 None None) (\<lambda>_.
          for_each (\<lambda>(prev, block). validate_root_block H block (Some prev) None) (zip blocks rest)))"

subsection \<open>Actions\<close>

lemmas validation_ok = rbind_ok map_err_ok reject_if_ok for_each_ok

text \<open>Which fields each action type must carry.\<close>

definition needs_content :: "action_type \<Rightarrow> bool" where
  "needs_content t \<longleftrightarrow> t \<notin> {CreateSpace, Leave, DeclineDM}"

definition needs_parent :: "action_type \<Rightarrow> bool" where
  "needs_parent t \<longleftrightarrow> t \<in> {Reply, Edit, Invite, Leave, Kick, KeyRotation, AcceptDM, DeclineDM, RenameSpace}"

definition well_classed :: "action \<Rightarrow> bool" where
  "well_classed a \<longleftrightarrow> act_type a = CreateSpace \<longrightarrow>
     pred_option (\<lambda>h. class_of (take 16 h) \<noteq> None) (act_content_hash a)"

lemma require_field_ok [simp]: "require_field x msg = Inr () \<longleftrightarrow> x \<noteq> None"
  by (simp add: require_field_def)

lemma require_both_ok [simp]:
  "require_both a c p = Inr () \<longleftrightarrow> act_content_hash a \<noteq> None \<and> act_parent_id a \<noteq> None"
  by (simp add: require_both_def rbind_ok)

lemma check_space_class_ok:
  "check_space_class a = Inr () \<longleftrightarrow> pred_option (\<lambda>h. class_of (take 16 h) \<noteq> None) (act_content_hash a)"
  by (cases "act_content_hash a") (auto simp: check_space_class_def space_id_class_is_valid_def Let_def)

lemma validate_action_fields_ok:
  "validate_action_fields a = Inr () \<longleftrightarrow>
     (needs_content (act_type a) \<longrightarrow> act_content_hash a \<noteq> None) \<and>
     (needs_parent (act_type a) \<longrightarrow> act_parent_id a \<noteq> None) \<and> well_classed a"
  by (cases "act_type a")
    (simp_all add: validate_action_fields_def needs_content_def needs_parent_def well_classed_def
      check_space_class_ok)

lemma timestamp_window:
  assumes "unat now < 2 ^ 64 - 660"
  shows "validate_action_timestamp ts now = Inr () \<longleftrightarrow>
    unat now \<le> unat ts + 600 \<and> unat ts \<le> unat now + 60"
proof -
  have future: "unat (now + 60) = unat now + 60"
    using assms by (simp add: unat_word_ariths)
  have past: "unat (ts + 600) = (unat ts + 600) mod 2 ^ 64"
    by (simp add: unat_word_ariths)
  show ?thesis
  proof (cases "unat ts + 600 < 2 ^ 64")
    case True
    with future past show ?thesis
      by (auto simp: validate_action_timestamp_def TIMESTAMP_WINDOW_SECS_def TIMESTAMP_FUTURE_SECS_def
          rbind_ok word_less_nat_alt)
  next
    case False
    then have "\<not> unat ts \<le> unat now + 60" using assms by simp
    with future show ?thesis
      by (auto simp: validate_action_timestamp_def TIMESTAMP_FUTURE_SECS_def rbind_ok word_less_nat_alt)
  qed
qed

lemma validate_action_ok:
  "validate_action a now = Inr () \<longleftrightarrow>
     validate_action_timestamp (act_timestamp a) now = Inr () \<and> validate_action_fields a = Inr ()"
  by (auto simp: validate_action_def rbind_ok)

subsection \<open>Signatures\<close>

lemma validate_action_signature_ok:
  "validate_action_signature verify a = Inr () \<longleftrightarrow>
     (\<exists>h. act_content_hash a = Some h \<and>
        (verify (act_actor a) (message_v2 a h) (act_signature a) \<or>
         \<not> act_private a \<and> verify (act_actor a) (take 40 (message_v2 a h)) (act_signature a)))"
  by (cases "act_content_hash a") (auto simp: validate_action_signature_def)

lemma message_v2_eq:
  assumes "is_hash h" "is_hash h'"
  shows "message_v2 a h = message_v2 b h' \<longleftrightarrow>
    h = h' \<and> act_timestamp a = act_timestamp b \<and> act_private a = act_private b"
  using assms by (auto simp: message_v2_def)

lemma legacy_message_eq:
  assumes "is_hash h" "is_hash h'"
  shows "take 40 (message_v2 a h) = take 40 (message_v2 b h') \<longleftrightarrow>
    h = h' \<and> act_timestamp a = act_timestamp b"
  using assms by (auto simp: message_v2_def)

lemma message_v2_not_legacy:
  assumes "is_hash h" "is_hash h'"
  shows "message_v2 a h \<noteq> take 40 (message_v2 b h')"
proof
  assume "message_v2 a h = take 40 (message_v2 b h')"
  then have "length (message_v2 a h) = length (take 40 (message_v2 b h'))" by simp
  then show False using assms by (simp add: message_v2_def)
qed

lemma engage_message_eq:
  assumes hex: "\<And>x. length (hex x) = 2 * length x" "\<And>x y. hex x = hex y \<Longrightarrow> x = y"
    and h: "is_hash h" "is_hash h'" and eq: "engage_message hex a h = engage_message hex b h'"
  shows "h = h' \<and> act_pow_nonce a = act_pow_nonce b \<and> act_timestamp a = act_timestamp b \<and>
    act_emoji a = act_emoji b"
proof -
  have len: "length (hex h) = length (hex h')" using hex(1) h by simp
  note seps = split_at_separator [of "CHR '':''" "show_nat m" "show_nat n" for m n]
    separator_absent [of "CHR '':''" "show_nat n" for n] separator_absent [of "CHR '':''" "show_nat n" for n, symmetric]
  show ?thesis
    using eq len hex(2) by (cases "act_emoji a"; cases "act_emoji b") 
      (auto simp: engage_message_def Let_def seps word_unat_eq_iff)
qed

subsection \<open>Blocks\<close>

lemma validate_content_block_ok:
  "validate_content_block H verify b now = Inr () \<longleftrightarrow>
     cb_verify_merkle_root H b = Inr () \<and> cb_verify_pow_sum b = Inr () \<and>
     cb_verify_thread_integrity b = Inr () \<and>
     (\<forall>a \<in> set (cb_actions b). validate_action_full verify a now = Inr ())"
  by (auto simp: validate_content_block_def validation_ok)

lemma validate_space_block_ok:
  "validate_space_block H b cbs = Inr () \<longleftrightarrow>
     sb_verify_merkle_root H b = Inr () \<and>
     pred_option (\<lambda>blocks. sb_verify_pow_sum b blocks = Inr () \<and>
       sb_verify_space_membership b blocks = Inr ()) cbs"
  by (cases cbs) (auto simp: validate_space_block_def validation_ok)

lemma validate_root_block_ok:
  "validate_root_block H b prev sbs = Inr () \<longleftrightarrow>
     rb_verify_merkle_root H b = Inr () \<and> pred_option (\<lambda>blocks. rb_verify_pow_sum b blocks = Inr ()) sbs \<and>
     (is_genesis b \<or> rb_difficulty_target b \<le> rb_total_pow b) \<and>
     pred_option (\<lambda>p. rb_prev_root_hash b = rb_hash H p \<and> rb_height b = rb_height p + 1) prev"
  by (cases sbs; cases prev)
    (auto simp: validate_root_block_def validation_ok verify_difficulty_ok check_continuity_def)

lemma validate_chain_segment_ok:
  "validate_chain_segment H blocks = Inr () \<longleftrightarrow>
     (blocks = [] \<or> validate_root_block H (hd blocks) None None = Inr ()) \<and>
     (\<forall>i. Suc i < length blocks \<longrightarrow> validate_root_block H (blocks ! Suc i) (Some (blocks ! i)) None = Inr ())"
  by (cases blocks) (auto simp: validate_chain_segment_def validation_ok set_zip in_set_conv_nth)

lemma validate_reply_parents_ok:
  "validate_reply_parents hex b known = Inr () \<longleftrightarrow>
     (\<forall>a \<in> set (cb_actions b). act_type a = Reply \<longrightarrow>
        pred_option (\<lambda>p. Some p \<in> act_content_hash ` set (cb_actions b) \<or> known p) (act_parent_id a))"
proof -
  have ids: "p \<in> set (block_content_ids b) \<longleftrightarrow> Some p \<in> act_content_hash ` set (cb_actions b)" for p
    by (simp add: block_content_ids_def map_filter_member)
  have "validate_reply_parent hex b known a = Inr () \<longleftrightarrow>
      (act_type a = Reply \<longrightarrow> pred_option (\<lambda>p. p \<in> set (block_content_ids b) \<or> known p) (act_parent_id a))" for a
    by (cases "act_type a"; cases "act_parent_id a") (auto simp: validate_reply_parent_def)
  then show ?thesis by (simp add: validate_reply_parents_def ids)
qed

lemma validate_chain_segment_Cons:
  "validate_chain_segment H (a # b # rest) = Inr () \<longleftrightarrow>
     validate_root_block H a None None = Inr () \<and> validate_root_block H b (Some a) None = Inr () \<and>
     validate_chain_segment H (b # rest) = Inr ()"
  by (auto simp: validate_chain_segment_def validation_ok validate_root_block_ok)

subsection \<open>Chains built by \<open>create_next\<close>\<close>

text \<open>One batch per block: its space blocks, its timestamp and its creator.\<close>

fun chain_from ::
  "(bytes \<Rightarrow> hash32) \<Rightarrow> root_block \<Rightarrow> (space_block list \<times> u64 \<times> hash32) list \<Rightarrow> root_block list" where
  "chain_from H b [] = [b]"
| "chain_from H b ((sbs, ts, creator) # rest) = b # chain_from H (rb_create_next H b sbs ts creator) rest"

definition batch_work :: "space_block list \<times> u64 \<times> hash32 \<Rightarrow> u64" where
  "batch_work batch = sum_list (map sb_total_pow (fst batch))"

lemma chain_from_Cons: "\<exists>rest. chain_from H b batches = b # rest"
  by (cases "(H, b, batches)" rule: chain_from.cases) auto

lemma rb_create_next_fields [simp]:
  "rb_prev_root_hash (rb_create_next H b sbs ts c) = rb_hash H b"
  "rb_height (rb_create_next H b sbs ts c) = rb_height b + 1"
  "rb_difficulty_target (rb_create_next H b sbs ts c) = rb_difficulty_target b"
  "rb_total_pow (rb_create_next H b sbs ts c) = sum_list (map sb_total_pow sbs)"
  "rb_cumulative_pow (rb_create_next H b sbs ts c) = rb_cumulative_pow b + sum_list (map sb_total_pow sbs)"
  by (simp_all add: rb_create_next_def from_space_blocks_def Let_def)

lemma rb_create_next_validates:
  "validate_root_block H (rb_create_next H b sbs ts c) (Some b) (Some sbs) = Inr () \<longleftrightarrow>
     is_genesis (rb_create_next H b sbs ts c) \<or> rb_difficulty_target b \<le> sum_list (map sb_total_pow sbs)"
  using from_space_blocks_checks [of H sbs]
  by (simp add: validate_root_block_ok) (simp add: rb_create_next_def)

lemma chain_from_validates:
  "validate_root_block H b None None = Inr () \<Longrightarrow>
   \<forall>batch \<in> set batches. rb_difficulty_target b \<le> batch_work batch \<Longrightarrow>
   validate_chain_segment H (chain_from H b batches) = Inr () \<and>
   rb_cumulative_pow (last (chain_from H b batches)) = rb_cumulative_pow b + sum_list (map batch_work batches)"
proof (induction H b batches rule: chain_from.induct)
  case (1 H b)
  then show ?case by (simp add: validate_chain_segment_def)
next
  case (2 H b sbs ts creator rest)
  let ?n = "rb_create_next H b sbs ts creator"
  have next_ok: "validate_root_block H ?n (Some b) None = Inr ()"
    using 2(3) rb_create_next_validates [of H b sbs ts creator]
    by (auto simp: validate_root_block_ok batch_work_def)
  then have "validate_root_block H ?n None None = Inr ()" by (simp add: validate_root_block_ok)
  from 2(1) [OF this] 2(3) have IH: "validate_chain_segment H (chain_from H ?n rest) = Inr ()"
    "rb_cumulative_pow (last (chain_from H ?n rest)) = rb_cumulative_pow ?n + sum_list (map batch_work rest)"
    by simp_all
  from chain_from_Cons obtain r where "chain_from H ?n rest = ?n # r" by blast
  with IH next_ok 2(2) show ?case
    by (simp add: validate_chain_segment_Cons batch_work_def [of "(sbs, ts, creator)"] add.assoc)
qed

lemma genesis_validates: "validate_root_block H (canonical_genesis mode) None None = Inr ()"
  by (simp add: validate_root_block_ok canonical_genesis_def genesis_def is_genesis_def rb.root_ok
      compute_merkle_root_def)

subsection \<open>Properties of actions\<close>

text \<open>
  What \<open>validate_action\<close> accepts: an action whose timestamp lies at most 600 seconds before
  and at most 60 seconds after the local clock, which carries the fields its type needs and, when it
  creates a space, an id of a known class. The additions of the code wrap, but no timestamp slips
  through the wrap as long as the clock is not within 660 seconds of \<open>2 ^ 64\<close>.
\<close>

theorem validate_action_spec:
  assumes "unat now < 2 ^ 64 - 660"
  shows "validate_action a now = Inr () \<longleftrightarrow>
    unat now \<le> unat (act_timestamp a) + 600 \<and> unat (act_timestamp a) \<le> unat now + 60 \<and>
    (needs_content (act_type a) \<longrightarrow> act_content_hash a \<noteq> None) \<and>
    (needs_parent (act_type a) \<longrightarrow> act_parent_id a \<noteq> None) \<and> well_classed a"
  by (auto simp: validate_action_ok timestamp_window [OF assms] validate_action_fields_ok)

theorem validate_action_spec_witness:
  "validate_action sample_action 1600 = Inr () \<and> validate_action sample_action 1601 \<noteq> Inr () \<and>
   validate_action sample_action 940 = Inr () \<and> validate_action sample_action 939 \<noteq> Inr ()"
  using validate_action_spec [of 1600 sample_action] validate_action_spec [of 1601 sample_action]
    validate_action_spec [of 940 sample_action] validate_action_spec [of 939 sample_action]
  by (simp add: sample_action_def new_reply_def well_classed_def)

text \<open>
  A signature that verifies for one message only authenticates one triple of content hash,
  timestamp and \<open>private\<close> flag: two actions of the same author with the same signature that both
  pass \<open>validate_action_signature\<close> agree on all three. In particular the flag of a private action
  cannot be flipped, although public actions may use the legacy form without it.
\<close>

theorem action_signature_binds:
  assumes "typed_action a" "typed_action b"
    and "act_actor a = act_actor b" "act_signature a = act_signature b"
    and "\<And>m m'. verify (act_actor a) m (act_signature a) \<Longrightarrow> verify (act_actor a) m' (act_signature a) \<Longrightarrow> m = m'"
    and "validate_action_signature verify a = Inr ()" "validate_action_signature verify b = Inr ()"
  shows "act_content_hash a = act_content_hash b \<and> act_timestamp a = act_timestamp b \<and>
    act_private a = act_private b"
proof -
  obtain h h' where h: "act_content_hash a = Some h" "act_content_hash b = Some h'"
    using assms(6,7) by (auto simp: validate_action_signature_ok)
  then have hash: "is_hash h" "is_hash h'" using assms(1,2) by (simp_all add: typed_action_def)
  obtain m where "verify (act_actor a) m (act_signature a)"
    and a: "m = message_v2 a h \<or> \<not> act_private a \<and> m = take 40 (message_v2 a h)"
    using assms(6) h by (auto simp: validate_action_signature_ok)
  moreover obtain m' where "verify (act_actor a) m' (act_signature a)"
    and b: "m' = message_v2 b h' \<or> \<not> act_private b \<and> m' = take 40 (message_v2 b h')"
    using assms(3,4,7) h by (auto simp: validate_action_signature_ok)
  ultimately have "m = m'" using assms(5) by blast
  with a b h message_v2_eq [OF hash, of a b] legacy_message_eq [OF hash, of a b]
    message_v2_not_legacy [OF hash, of a b] message_v2_not_legacy [OF hash(2,1), of b a]
  show ?thesis by auto
qed

text \<open>An author whose signature verifies exactly one message.\<close>

definition verify_only :: "bytes \<Rightarrow> bytes \<Rightarrow> bytes \<Rightarrow> bytes \<Rightarrow> bool" where
  "verify_only m0 key m sig \<longleftrightarrow> m = m0"

theorem action_signature_binds_witness:
  "\<exists>verify. validate_action_signature verify sample_action = Inr () \<and>
     act_private sample_action = act_private (sample_action\<lparr>act_pow_nonce := 9\<rparr>)"
proof -
  let ?v = "verify_only (message_v2 sample_action (replicate 32 1))"
  have ch: "act_content_hash sample_action = Some (replicate 32 1)"
    by (simp add: sample_action_def new_reply_def)
  have t: "typed_action sample_action" "typed_action (sample_action\<lparr>act_pow_nonce := 9\<rparr>)"
    by (simp_all add: sample_action_def new_reply_def typed_action_def is_hash_def)
  have ok: "validate_action_signature ?v sample_action = Inr ()"
    "validate_action_signature ?v (sample_action\<lparr>act_pow_nonce := 9\<rparr>) = Inr ()"
    by (simp_all add: validate_action_signature_ok ch verify_only_def message_v2_def)
  from action_signature_binds [OF t _ _ _ ok] ok(1) show ?thesis
    by (auto simp: verify_only_def)
qed

text \<open>
  The signed text of an engagement binds the target content, the nonce, the timestamp and the
  emoji, including its absence, for every hexadecimal encoder that is injective and writes two
  characters per byte.
\<close>

theorem engage_message_binds:
  assumes "\<And>x. length (hex x) = 2 * length x" "\<And>x y. hex x = hex y \<Longrightarrow> x = y"
    and "typed_action a" "act_content_hash a = Some h" and "typed_action b" "act_content_hash b = Some h'"
    and "engage_message hex a h = engage_message hex b h'"
  shows "act_content_hash a = act_content_hash b \<and> act_pow_nonce a = act_pow_nonce b \<and>
    act_timestamp a = act_timestamp b \<and> act_emoji a = act_emoji b"
  using engage_message_eq [OF assms(1,2) _ _ assms(7)] assms(3-6) by (auto simp: typed_action_def)

theorem engage_message_binds_witness:
  "engage_message (\<lambda>x. concat (map show_hex2 x)) sample_action (replicate 32 1) \<noteq>
     engage_message (\<lambda>x. concat (map show_hex2 x)) (sample_action\<lparr>act_emoji := Some 0\<rparr>) (replicate 32 1)"
proof
  let ?hex = "\<lambda>x. concat (map show_hex2 x)"
  assume eq: "engage_message ?hex sample_action (replicate 32 1) =
     engage_message ?hex (sample_action\<lparr>act_emoji := Some 0\<rparr>) (replicate 32 1)"
  have len: "length (?hex x) = 2 * length x" for x
    by (induction x) (simp_all add: show_hex2_def)
  have "act_emoji sample_action = act_emoji (sample_action\<lparr>act_emoji := Some 0\<rparr>)"
    using engage_message_binds [OF len hex_string_inject _ _ _ _ eq]
    by (simp add: sample_action_def new_reply_def typed_action_def is_hash_def)
  then show False by (simp add: sample_action_def new_reply_def)
qed

subsection \<open>Properties of blocks\<close>

text \<open>
  \<open>validate_content_block\<close> applies the content-hash signature scheme to every action, so it
  rejects what the other checks accept. No block with an action that has no content hash passes,
  although \<open>Leave\<close> and \<open>DeclineDM\<close> need none; and no block passes that contains an engagement
  signed for its \<open>engage:\<close> text with a signature that verifies for that text only, although
  \<open>validate_content_action_authenticity\<close> accepts it.
\<close>

theorem content_block_rejects_other_schemes:
  assumes "a \<in> set (cb_actions b)" and "typed_action a"
    and "\<And>x. length (hex x) = 2 * length x"
    and "act_content_hash a = None \<or>
      (\<exists>h. act_content_hash a = Some h \<and> act_type a = Engage \<and>
        validate_content_action_authenticity verify hex a = Inr () \<and>
        (\<forall>m. verify (act_actor a) m (act_signature a) \<longrightarrow> m = string_bytes (engage_message hex a h)))"
  shows "validate_content_block H verify b now \<noteq> Inr ()"
proof -
  have "validate_action_signature verify a \<noteq> Inr ()"
  proof (cases "act_content_hash a")
    case (Some h)
    then have only: "\<And>m. verify (act_actor a) m (act_signature a) \<Longrightarrow> m = string_bytes (engage_message hex a h)"
      and h: "length h = 32" using assms(2,4) by (auto simp: typed_action_def)
    have long: "length (string_bytes (engage_message hex a h)) > 41"
      using assms(3) [of h] h
      by (cases "act_emoji a") (simp_all add: string_bytes_def engage_message_def Let_def)
    have "length (message_v2 a h) \<le> 41" "length (take 40 (message_v2 a h)) \<le> 41"
      using h by (simp_all add: message_v2_def)
    with long only have "\<not> verify (act_actor a) (message_v2 a h) (act_signature a)"
      "\<not> verify (act_actor a) (take 40 (message_v2 a h)) (act_signature a)"
      by (metis leD)+
    with Some show ?thesis by (simp add: validate_action_signature_ok)
  qed (simp add: validate_action_signature_def)
  then show ?thesis
    using assms(1) by (auto simp: validate_content_block_ok validate_action_full_def validation_ok)
qed

definition leave_action :: action where
  "leave_action = sample_action\<lparr>act_type := Leave, act_content_hash := None\<rparr>"

theorem content_block_rejects_other_schemes_witness:
  "validate_action leave_action 1000 = Inr () \<and> validate_action_pow leave_action = Inr () \<and>
   validate_content_action_authenticity (\<lambda>_ _ _. True) (\<lambda>x. replicate (2 * length x) CHR ''0'') leave_action = Inr () \<and>
   validate_content_block sum_digest (\<lambda>_ _ _. True)
     (sample_content_block\<lparr>cb_actions := [leave_action]\<rparr>) 1000 \<noteq> Inr ()"
proof -
  have "validate_content_block sum_digest (\<lambda>_ _ _. True)
      (sample_content_block\<lparr>cb_actions := [leave_action]\<rparr>) 1000 \<noteq> Inr ()"
    by (rule content_block_rejects_other_schemes [where a = leave_action and
          hex = "\<lambda>x. replicate (2 * length x) CHR ''0''"])
      (simp_all add: leave_action_def sample_action_def new_reply_def typed_action_def is_hash_def)
  then show ?thesis
    by (simp add: leave_action_def sample_action_def new_reply_def validate_action_def
        validate_action_timestamp_def TIMESTAMP_WINDOW_SECS_def TIMESTAMP_FUTURE_SECS_def
        validate_action_fields_def require_field_def validate_action_pow_def
        validate_content_action_authenticity_def)
qed

text \<open>
  What \<open>validate_reply_parents\<close> accepts: every reply with a parent has it in the store or among
  the content hashes of the block, without regard to order. So a reply that is its own parent passes
  against an empty store.
\<close>

theorem reply_parents_spec:
  "(validate_reply_parents hex b known = Inr () \<longleftrightarrow>
     (\<forall>a \<in> set (cb_actions b). act_type a = Reply \<longrightarrow>
        pred_option (\<lambda>p. Some p \<in> act_content_hash ` set (cb_actions b) \<or> known p) (act_parent_id a))) \<and>
   (act_content_hash r = act_parent_id r \<longrightarrow>
     validate_reply_parents hex (b\<lparr>cb_actions := [r]\<rparr>) (\<lambda>_. False) = Inr ())"
  by (auto simp: validate_reply_parents_ok option.pred_set)

theorem reply_parents_spec_witness:
  "validate_reply_parents (\<lambda>_. []) (sample_content_block\<lparr>cb_actions :=
      [sample_action\<lparr>act_parent_id := Some (replicate 32 1)\<rparr>]\<rparr>) (\<lambda>_. False) = Inr ()"
  using reply_parents_spec [of "\<lambda>_. []" sample_content_block "\<lambda>_. False"
      "sample_action\<lparr>act_parent_id := Some (replicate 32 1)\<rparr>"]
  by (simp add: sample_action_def new_reply_def)

text \<open>
  C36. What \<open>validate_chain_segment\<close> accepts: exactly the lists in which every block has a verified
  Merkle root and enough work for its own difficulty (or is a genesis block), every block names the
  hash of the one before it, and heights count up by one from the first.
\<close>

theorem chain_segment_spec:
  "validate_chain_segment H bs = Inr () \<longleftrightarrow>
     (\<forall>i < length bs.
        rb_verify_merkle_root H (bs ! i) = Inr () \<and>
        (is_genesis (bs ! i) \<or> rb_difficulty_target (bs ! i) \<le> rb_total_pow (bs ! i)) \<and>
        rb_height (bs ! i) = rb_height (bs ! 0) + word_of_nat i \<and>
        (0 < i \<longrightarrow> rb_prev_root_hash (bs ! i) = rb_hash H (bs ! (i - 1))))" (is "?acc \<longleftrightarrow> ?spec")
proof
  assume acc: ?acc
  have block: "validate_root_block H (bs ! 0) None None = Inr ()" if "bs \<noteq> []"
    using acc that by (cases bs) (auto simp: validate_chain_segment_ok)
  have step: "validate_root_block H (bs ! Suc i) (Some (bs ! i)) None = Inr ()" if "Suc i < length bs" for i
    using acc that by (simp add: validate_chain_segment_ok)
  have height: "i < length bs \<Longrightarrow> rb_height (bs ! i) = rb_height (bs ! 0) + word_of_nat i" for i
    by (induction i) (use step in \<open>auto simp: validate_root_block_ok\<close>)
  show ?spec
  proof (intro allI impI)
    fix i assume "i < length bs"
    then show "rb_verify_merkle_root H (bs ! i) = Inr () \<and>
        (is_genesis (bs ! i) \<or> rb_difficulty_target (bs ! i) \<le> rb_total_pow (bs ! i)) \<and>
        rb_height (bs ! i) = rb_height (bs ! 0) + word_of_nat i \<and>
        (0 < i \<longrightarrow> rb_prev_root_hash (bs ! i) = rb_hash H (bs ! (i - 1)))"
      using block step [of "i - 1"] height [of i] by (cases i) (auto simp: validate_root_block_ok)
  qed
next
  assume ?spec
  then have spec: "i < length bs \<Longrightarrow> rb_verify_merkle_root H (bs ! i) = Inr () \<and>
        (is_genesis (bs ! i) \<or> rb_difficulty_target (bs ! i) \<le> rb_total_pow (bs ! i)) \<and>
        rb_height (bs ! i) = rb_height (bs ! 0) + word_of_nat i \<and>
        (0 < i \<longrightarrow> rb_prev_root_hash (bs ! i) = rb_hash H (bs ! (i - 1)))" for i by blast
  have "validate_root_block H (bs ! Suc i) (Some (bs ! i)) None = Inr ()" if "Suc i < length bs" for i
    using spec [of i] spec [of "Suc i"] that by (simp add: validate_root_block_ok)
  moreover have "bs = [] \<or> validate_root_block H (hd bs) None None = Inr ()"
    using spec [of 0] by (cases bs) (simp_all add: validate_root_block_ok)
  ultimately show ?acc by (simp add: validate_chain_segment_ok)
qed

theorem chain_segment_spec_witness:
  "validate_chain_segment rev [genesis 5] = Inr () \<and> validate_chain_segment rev [genesis 5, genesis 5] \<noteq> Inr ()"
  using chain_segment_spec [of rev "[genesis 5]"] chain_segment_spec [of rev "[genesis 5, genesis 5]"]
  by (auto simp: genesis_def is_genesis_def rb.root_ok compute_merkle_root_def dest!: spec [of _ "Suc 0"])

text \<open>
  Honest chains validate: the chain that \<open>create_next\<close> builds on the canonical genesis block
  from batches of space blocks passes \<open>validate_chain_segment\<close> whenever each batch carries at least
  the initial difficulty in work, and the cumulative work of its last block is the sum of the work of
  all batches (modulo \<open>2 ^ 64\<close>).
\<close>

theorem created_chain_validates:
  assumes "\<forall>batch \<in> set batches. INITIAL_DIFFICULTY \<le> batch_work batch"
  shows "validate_chain_segment H (chain_from H (canonical_genesis mode) batches) = Inr () \<and>
    rb_cumulative_pow (last (chain_from H (canonical_genesis mode) batches)) =
      sum_list (map batch_work batches)"
  using chain_from_validates [OF genesis_validates, of batches mode H] assms
  by (simp add: canonical_genesis_def genesis_def)

definition work_space_block :: space_block where
  "work_space_block = sb_from_hashes sum_digest (replicate 32 2) [replicate 32 7] 40 None 1000"

theorem created_chain_validates_witness:
  "validate_chain_segment sum_digest (chain_from sum_digest (canonical_genesis Testnet)
     [([work_space_block], 1030, zero32), ([work_space_block, work_space_block], 1060, zero32)]) = Inr () \<and>
   INITIAL_DIFFICULTY \<le> batch_work ([work_space_block], 1030, zero32)"
proof -
  have "\<forall>batch \<in> set [([work_space_block], 1030, zero32), ([work_space_block, work_space_block], 1060, zero32)].
      INITIAL_DIFFICULTY \<le> batch_work batch"
    by (simp add: batch_work_def work_space_block_def sb_from_hashes_def INITIAL_DIFFICULTY_def)
  from created_chain_validates [OF this, of sum_digest Testnet] this show ?thesis by simp
qed

text \<open>
  Validation of a root block never reads the cumulative work it claims, its version or its
  count of space blocks: changing all three changes no verdict.
\<close>

theorem claimed_weight_unchecked:
  "validate_root_block H (b\<lparr>rb_cumulative_pow := c, rb_version := v, rb_space_block_count := n\<rparr>) prev sbs =
     validate_root_block H b prev sbs"
  by (simp add: validate_root_block_def rb_verify_merkle_root_def rb_verify_pow_sum_def verify_difficulty_def
      meets_difficulty_def is_genesis_def verify_genesis_def check_continuity_def cong: option.case_cong)

text \<open>
  A root block received without its space blocks is malleable: when it has an odd number of
  space blocks, more than one, the block with the last hash repeated is a different block with the
  same hash that gets the same verdict.
\<close>

theorem root_block_malleable:
  assumes "odd (length (rb_space_block_hashes b))" and "length (rb_space_block_hashes b) > 1"
    and "validate_root_block H b prev None = Inr ()"
    and "b' = b\<lparr>rb_space_block_hashes := rb_space_block_hashes b @ [last (rb_space_block_hashes b)]\<rparr>"
  shows "b' \<noteq> b \<and> rb_hash H b' = rb_hash H b \<and> validate_root_block H b' prev None = Inr ()"
proof -
  have "rb_verify_merkle_root H b' = Inr ()"
    by (rule rb.repeat_last_passes [of H b]) (use assms in \<open>simp_all add: validate_root_block_ok\<close>)
  then have "validate_root_block H b' prev None = Inr ()"
    using assms(3,4) by (auto simp: validate_root_block_ok is_genesis_def)
  moreover have "b' \<noteq> b"
  proof
    assume "b' = b"
    then have "rb_space_block_hashes b' = rb_space_block_hashes b" by simp
    then show False using assms(4) by simp
  qed
  ultimately show ?thesis using assms(4) by (simp add: rb_hash_def rb_preimage_def)
qed

definition three_space_root :: root_block where
  "three_space_root = rb_create_next sum_digest (genesis 5) [work_space_block, work_space_block, work_space_block] 9 zero32"

theorem root_block_malleable_witness:
  "validate_root_block sum_digest (three_space_root\<lparr>rb_space_block_hashes :=
     rb_space_block_hashes three_space_root @ [last (rb_space_block_hashes three_space_root)]\<rparr>)
     (Some (genesis 5)) None = Inr ()"
proof -
  have len: "length (rb_space_block_hashes three_space_root) = 3"
    by (simp add: three_space_root_def rb_create_next_def from_space_blocks_def Let_def)
  have "validate_root_block sum_digest three_space_root (Some (genesis 5))
      (Some [work_space_block, work_space_block, work_space_block]) = Inr ()"
    unfolding three_space_root_def rb_create_next_validates
    by (simp add: work_space_block_def sb_from_hashes_def genesis_def INITIAL_DIFFICULTY_def)
  then have "validate_root_block sum_digest three_space_root (Some (genesis 5)) None = Inr ()"
    by (simp add: validate_root_block_ok)
  from root_block_malleable [OF _ _ this refl] len show ?thesis by simp
qed

text \<open>
  The content blocks given to \<open>validate_space_block\<close> are not compared with the hashes the
  space block commits to: any list of the same work and the same spaces gets the same verdict.
\<close>

theorem space_block_parts_unchecked:
  assumes "sum_list (map cb_total_pow cbs) = sum_list (map cb_total_pow cbs')"
    and "cb_space_id ` set cbs = cb_space_id ` set cbs'"
  shows "validate_space_block H b (Some cbs) = Inr () \<longleftrightarrow> validate_space_block H b (Some cbs') = Inr ()"
proof -
  have "sb_verify_space_membership b xs = Inr () \<longleftrightarrow> cb_space_id ` set xs \<subseteq> {sb_space_id b}" for xs
    by (auto simp: sb_verify_space_membership_def)
  with assms show ?thesis by (simp add: validate_space_block_ok sb_pow_ok)
qed

theorem space_block_parts_unchecked_witness:
  "validate_space_block rev (from_content_blocks rev (replicate 32 2) [sample_content_block] None 7)
     (Some [sample_content_block\<lparr>cb_actions := [], cb_merkle_root := zero32\<rparr>]) = Inr ()"
proof -
  have "sb_verify_space_membership (from_content_blocks rev (replicate 32 2) [sample_content_block] None 7)
      [sample_content_block] = Inr ()"
    by (simp add: sb_verify_space_membership_def from_content_blocks_def sample_content_block_def Let_def)
  then have "validate_space_block rev (from_content_blocks rev (replicate 32 2) [sample_content_block] None 7)
     (Some [sample_content_block]) = Inr ()"
    by (simp add: validate_space_block_ok from_content_blocks_checks)
  then show ?thesis
    using space_block_parts_unchecked [of "[sample_content_block]"
        "[sample_content_block\<lparr>cb_actions := [], cb_merkle_root := zero32\<rparr>]"] by simp
qed

end
