(* ===== verification/Mempool_Correct.thy ===== *)
theory Mempool_Correct
  imports Mempool Validation
begin

text \<open>
  Correctness of block formation: which pending actions a root block contains, that the blocks
  commit to one another, that the result does not depend on the order in which hash maps iterate,
  what the limits and the replacement of pending actions really guarantee, and the round trip of
  the mempool file. The definitions here are specifications; the code is modelled in \<open>Mempool\<close>.
\<close>

subsection \<open>Grouping threads\<close>

definition group_threads :: "pending_thread list \<Rightarrow> hash32 \<Rightarrow> pending_thread list" where
  "group_threads ts s = filter (\<lambda>t. pt_space_id t = s) ts"

lemma group_by_space_snoc:
  "group_by_space (ts @ [t]) = AList.update (pt_space_id t)
     ((case map_of (group_by_space ts) (pt_space_id t) of Some l \<Rightarrow> l | None \<Rightarrow> []) @ [t]) (group_by_space ts)"
  by (simp add: group_by_space_def)

lemma group_by_space_map_of:
  "map_of (group_by_space ts) s = (if group_threads ts s = [] then None else Some (group_threads ts s))"
proof (induction ts rule: rev_induct)
  case Nil
  then show ?case by (simp add: group_by_space_def group_threads_def)
next
  case (snoc t ts)
  then show ?case by (auto simp: group_by_space_snoc AList.update_conv' group_threads_def)
qed

lemma distinct_group_by_space: "distinct (map fst (group_by_space ts))"
proof (induction ts rule: rev_induct)
  case (snoc t ts)
  then show ?case by (simp add: group_by_space_snoc AList.distinct_update)
qed (simp add: group_by_space_def)

lemma group_by_space_mem:
  "(s, l) \<in> set (group_by_space ts) \<longleftrightarrow> l = group_threads ts s \<and> l \<noteq> []"
  using map_of_eq_Some_iff [OF distinct_group_by_space, of ts s l] group_by_space_map_of [of ts s]
  by (auto split: if_splits)

lemma group_by_space_threads: "set (concat (map snd (group_by_space ts))) = set ts"
proof (intro set_eqI iffI)
  fix t assume "t \<in> set (concat (map snd (group_by_space ts)))"
  then obtain s l where "(s, l) \<in> set (group_by_space ts)" "t \<in> set l" by auto
  then show "t \<in> set ts" by (simp add: group_by_space_mem group_threads_def)
next
  fix t assume t: "t \<in> set ts"
  let ?l = "group_threads ts (pt_space_id t)"
  have mem: "t \<in> set ?l" using t by (simp add: group_threads_def)
  then have "(pt_space_id t, ?l) \<in> set (group_by_space ts)" by (auto simp: group_by_space_mem)
  with mem show "t \<in> set (concat (map snd (group_by_space ts)))" by force
qed

subsection \<open>Deduplication and content blocks\<close>

lemma dedup_actions_spec:
  "dedup_actions H seen as = (kept, seen') \<Longrightarrow>
   set kept \<subseteq> set as \<and> distinct (map (action_hash H) kept) \<and>
   action_hash H ` set kept = action_hash H ` set as - seen \<and> seen' = seen \<union> action_hash H ` set as"
proof (induction as arbitrary: seen kept seen')
  case (Cons a as)
  show ?case
  proof (cases "action_hash H a \<in> seen")
    case True
    with Cons.IH [of seen kept seen'] Cons.prems show ?thesis by auto
  next
    case False
    obtain k s where ks: "dedup_actions H (insert (action_hash H a) seen) as = (k, s)" by fastforce
    with Cons.prems False have "kept = a # k" "seen' = s" by auto
    with Cons.IH [OF ks] False show ?thesis by auto
  qed
qed simp

definition block_of_thread :: "(bytes \<Rightarrow> hash32) \<Rightarrow> pending_thread \<Rightarrow> content_block \<Rightarrow> bool" where
  "block_of_thread H t cb \<longleftrightarrow>
     cb_thread_root_id cb = pt_thread_id t \<and> cb_space_id cb = pt_space_id t \<and>
     cb_actions cb \<noteq> [] \<and> set (cb_actions cb) \<subseteq> set (pt_actions t) \<and>
     cb_verify_merkle_root H cb = Inr () \<and> cb_verify_pow_sum cb = Inr ()"

lemma thread_block_spec:
  assumes "actions \<noteq> []" and "set actions \<subseteq> set (pt_actions t)"
  shows "\<exists>cb. thread_block H ts t actions = Inr cb \<and> cb_actions cb = actions \<and> block_of_thread H t cb"
  using assms by (cases "pt_space_metadata t")
    (auto simp: thread_block_def cb_new_with_space_metadata_def cb_new_def block_of_thread_def
      cb_verify_merkle_root_def cb_verify_pow_sum_def)

definition block_actions :: "content_block list \<Rightarrow> action list" where
  "block_actions cbs = concat (map cb_actions cbs)"

definition thread_actions :: "pending_thread list \<Rightarrow> action list" where
  "thread_actions ts = concat (map pt_actions ts)"

lemma block_actions_simps [simp]:
  "block_actions [] = []" "block_actions (cb # cbs) = cb_actions cb @ block_actions cbs"
  "block_actions (xs @ ys) = block_actions xs @ block_actions ys"
  by (simp_all add: block_actions_def)

lemma thread_actions_simps [simp]:
  "thread_actions [] = []" "thread_actions (t # ts) = pt_actions t @ thread_actions ts"
  "thread_actions (xs @ ys) = thread_actions xs @ thread_actions ys"
  by (simp_all add: thread_actions_def)

text \<open>Each action hash that is new is placed once.\<close>

definition placed_once :: "(bytes \<Rightarrow> hash32) \<Rightarrow> hash32 set \<Rightarrow> action list \<Rightarrow> action list \<Rightarrow> bool" where
  "placed_once H seen pending placed \<longleftrightarrow>
     distinct (map (action_hash H) placed) \<and>
     action_hash H ` set placed = action_hash H ` set pending - seen"

lemma placed_once_append:
  assumes "placed_once H seen p q" and "placed_once H (seen \<union> action_hash H ` set p) p' q'"
  shows "placed_once H seen (p @ p') (q @ q')"
  using assms unfolding placed_once_def by (auto simp: image_Un)

lemma build_thread_blocks_spec:
  "build_thread_blocks H ts seen threads = (blocks, seen') \<Longrightarrow>
   placed_once H seen (thread_actions threads) (block_actions blocks) \<and>
   seen' = seen \<union> action_hash H ` set (thread_actions threads) \<and>
   (\<forall>cb \<in> set blocks. \<exists>t \<in> set threads. block_of_thread H t cb)"
proof (induction threads arbitrary: seen blocks seen')
  case (Cons t threads)
  obtain actions seen1 where d: "dedup_actions H seen (sort_key (action_hash H) (pt_actions t)) = (actions, seen1)" by fastforce
  note ds = dedup_actions_spec [OF d]
  have pl: "placed_once H seen (pt_actions t) actions" and s1: "seen1 = seen \<union> action_hash H ` set (pt_actions t)"
    using ds by (simp_all add: placed_once_def)
  obtain rest seen2 where r: "build_thread_blocks H ts seen1 threads = (rest, seen2)" by fastforce
  note IH = Cons.IH [OF r]
  have step: "placed_once H seen (pt_actions t @ thread_actions threads) (actions @ block_actions rest)"
    using placed_once_append [OF pl] IH s1 by simp
  show ?case
  proof (cases "actions = []")
    case True
    show ?thesis
    proof (cases "pt_actions t = []")
      case True
      with Cons.IH [of seen] Cons.prems show ?thesis by auto
    next
      case False
      with True Cons.prems d r have "blocks = rest" "seen' = seen2" by auto
      with True step IH s1 show ?thesis by (auto simp: image_Un)
    qed
  next
    case False
    then have ne: "pt_actions t \<noteq> []" using d by auto
    from thread_block_spec [OF False, of t H ts] ds obtain cb where
      cb: "thread_block H ts t actions = Inr cb" "cb_actions cb = actions" "block_of_thread H t cb" by auto
    with Cons.prems d r ne False have "blocks = cb # rest" "seen' = seen2" by auto
    with cb step IH s1 show ?thesis by (auto simp: image_Un)
  qed
qed (simp add: placed_once_def)

definition built_from :: "(bytes \<Rightarrow> hash32) \<Rightarrow> (hash32 \<times> pending_thread list) list \<Rightarrow> hash32 \<times> content_block list \<Rightarrow> bool" where
  "built_from H spaces e \<longleftrightarrow> snd e \<noteq> [] \<and>
     (\<exists>threads. (fst e, threads) \<in> set spaces \<and> (\<forall>cb \<in> set (snd e). \<exists>t \<in> set threads. block_of_thread H t cb))"

lemma build_content_blocks_spec:
  "placed_once H seen (thread_actions (concat (map snd spaces)))
     (block_actions (concat (map snd (build_content_blocks H ts seen spaces)))) \<and>
   (\<forall>e \<in> set (build_content_blocks H ts seen spaces). built_from H spaces e)"
proof (induction spaces arbitrary: seen)
  case (Cons e spaces)
  obtain blocks seen1 where b: "build_thread_blocks H ts seen (sort_key pt_thread_id (snd e)) = (blocks, seen1)" by fastforce
  note bs = build_thread_blocks_spec [OF b]
  have set_eq: "set (thread_actions (sort_key pt_thread_id (snd e))) = set (thread_actions (snd e))"
    by (simp add: thread_actions_def)
  have pl: "placed_once H seen (thread_actions (snd e)) (block_actions blocks)"
    and s1: "seen1 = seen \<union> action_hash H ` set (thread_actions (snd e))"
    using bs set_eq by (simp_all add: placed_once_def)
  note IH = Cons.IH [of seen1]
  have "placed_once H seen (thread_actions (snd e) @ thread_actions (concat (map snd spaces)))
      (block_actions blocks @ block_actions (concat (map snd (build_content_blocks H ts seen1 spaces))))"
    using placed_once_append [OF pl] IH s1 by simp
  moreover have here: "\<forall>cb \<in> set blocks. \<exists>t \<in> set (snd e). block_of_thread H t cb" using bs by auto
  let ?rest = "build_content_blocks H ts seen1 spaces"
  have eq: "build_content_blocks H ts seen (e # spaces) = (if blocks = [] then ?rest else (fst e, blocks) # ?rest)"
    using b by (simp add: Let_def)
  have rest: "built_from H (e # spaces) x" if "x \<in> set ?rest" for x
    using IH that unfolding built_from_def by fastforce
  have "built_from H (e # spaces) (fst e, blocks)" if "blocks \<noteq> []"
    unfolding built_from_def using that here by (auto intro!: exI [of _ "snd e"])
  with rest have "\<forall>x \<in> set (build_content_blocks H ts seen (e # spaces)). built_from H (e # spaces) x"
    unfolding eq by simp
  with calculation show ?case unfolding eq by (cases "blocks = []") simp_all
qed (simp add: placed_once_def)


subsection \<open>What goes into a block\<close>

abbreviation pending_threads :: "'c block_builder \<Rightarrow> pending_thread list" where
  "pending_threads b \<equiv> map snd (bb_threads b)"

definition batch_grants :: "'c block_builder \<Rightarrow> hash32 \<Rightarrow> hash32 option option" where
  "batch_grants b = sponsored_in_batch (group_by_space (pending_threads b))"

text \<open>A pending action may go into the block.\<close>

definition minable ::
  "(bytes \<Rightarrow> hash32) \<Rightarrow> 'c block_builder \<Rightarrow> (bytes \<Rightarrow> hash32 \<Rightarrow> bool) option \<Rightarrow> chain_store option \<Rightarrow> hash32 \<Rightarrow> action \<Rightarrow> bool" where
  "minable H b auth store space a \<longleftrightarrow>
     authorized_author auth (batch_grants b) space a \<and>
     (case store of Some cs \<Rightarrow> is_action_finalized cs (action_hash H a) = None | None \<Rightarrow> True)"

definition minable_part ::
  "(bytes \<Rightarrow> hash32) \<Rightarrow> 'c block_builder \<Rightarrow> (bytes \<Rightarrow> hash32 \<Rightarrow> bool) option \<Rightarrow> chain_store option \<Rightarrow> pending_thread \<Rightarrow> pending_thread" where
  "minable_part H b auth store t = t\<lparr>pt_actions := filter (minable H b auth store (pt_space_id t)) (pt_actions t)\<rparr>"

lemma minable_part_simps [simp]:
  "pt_thread_id (minable_part H b auth store t) = pt_thread_id t"
  "pt_space_id (minable_part H b auth store t) = pt_space_id t"
  "pt_actions (minable_part H b auth store t) = filter (minable H b auth store (pt_space_id t)) (pt_actions t)"
  by (simp_all add: minable_part_def)

text \<open>The threads of a space that go into the block.\<close>

definition space_part ::
  "(bytes \<Rightarrow> hash32) \<Rightarrow> 'c block_builder \<Rightarrow> (bytes \<Rightarrow> hash32 \<Rightarrow> bool) option \<Rightarrow> chain_store option \<Rightarrow> hash32 \<Rightarrow> pending_thread list" where
  "space_part H b auth store s =
     (let l = map (minable_part H b auth store) (group_threads (pending_threads b) s)
      in case store of Some _ \<Rightarrow> filter (\<lambda>t. pt_actions t \<noteq> []) l | None \<Rightarrow> l)"

lemma keep_actions_mem:
  "(s, l) \<in> set (keep_actions P spaces) \<longleftrightarrow>
     (\<exists>l0. (s, l0) \<in> set spaces \<and> l = map (\<lambda>t. t\<lparr>pt_actions := filter (P t) (pt_actions t)\<rparr>) l0)"
  by (force simp: keep_actions_def)

lemma fst_keep_actions: "map fst (keep_actions P spaces) = map fst spaces"
  by (auto simp: keep_actions_def)

lemma drop_empty_mem:
  "(s, l) \<in> set (drop_empty spaces) \<longleftrightarrow>
     l \<noteq> [] \<and> (\<exists>l0. (s, l0) \<in> set spaces \<and> l = filter (\<lambda>t. pt_actions t \<noteq> []) l0)"
  by (force simp: drop_empty_def)

lemma distinct_drop_empty: "distinct (map fst spaces) \<Longrightarrow> distinct (map fst (drop_empty spaces))"
proof -
  assume d: "distinct (map fst spaces)"
  have "map fst (map (\<lambda>(space, threads). (space, filter (\<lambda>t. pt_actions t \<noteq> []) threads)) spaces) = map fst spaces"
    by auto
  then show ?thesis using d unfolding drop_empty_def by (metis (no_types, lifting) distinct_map_filter)
qed

lemma keep_keep:
  "keep_actions (\<lambda>t. Q) (keep_actions (\<lambda>t. P (pt_space_id t)) spaces) =
   keep_actions (\<lambda>t a. P (pt_space_id t) a \<and> Q a) spaces"
  by (auto simp: keep_actions_def conj_commute)

lemma block_spaces_eq:
  "block_spaces H b auth store =
     sort_key fst (let spaces = keep_actions (\<lambda>t. minable H b auth store (pt_space_id t)) (group_by_space (pending_threads b))
                   in case store of Some _ \<Rightarrow> drop_empty spaces | None \<Rightarrow> spaces)"
proof (cases store)
  case None
  have "minable H b auth None = authorized_author auth (batch_grants b)"
    by (intro ext) (simp add: minable_def)
  with None show ?thesis by (simp add: block_spaces_def Let_def batch_grants_def)
next
  case (Some cs)
  have "minable H b auth (Some cs) =
      (\<lambda>s a. authorized_author auth (batch_grants b) s a \<and> is_action_finalized cs (action_hash H a) = None)"
    by (intro ext) (simp add: minable_def)
  with Some show ?thesis by (simp add: block_spaces_def Let_def batch_grants_def keep_keep)
qed

lemma block_spaces_mem:
  "(s, l) \<in> set (block_spaces H b auth store) \<longleftrightarrow>
     group_threads (pending_threads b) s \<noteq> [] \<and> l = space_part H b auth store s \<and> (store \<noteq> None \<longrightarrow> l \<noteq> [])"
proof -
  let ?spaces = "keep_actions (\<lambda>t. minable H b auth store (pt_space_id t)) (group_by_space (pending_threads b))"
  have k: "(s, l) \<in> set ?spaces \<longleftrightarrow> group_threads (pending_threads b) s \<noteq> [] \<and>
      l = map (minable_part H b auth store) (group_threads (pending_threads b) s)" for l
    by (auto simp: keep_actions_mem group_by_space_mem minable_part_def [abs_def])
  show ?thesis
  proof (cases store)
    case None
    then show ?thesis using k [of l] by (simp add: block_spaces_eq space_part_def)
  next
    case (Some cs)
    then have "(s, l) \<in> set (block_spaces H b auth store) \<longleftrightarrow> l \<noteq> [] \<and>
        (\<exists>l0. (s, l0) \<in> set ?spaces \<and> l = filter (\<lambda>t. pt_actions t \<noteq> []) l0)"
      by (simp add: block_spaces_eq drop_empty_mem)
    with Some k show ?thesis by (auto simp: space_part_def)
  qed
qed

lemma distinct_sort_key: "distinct (map k (sort_key k xs)) \<longleftrightarrow> distinct (map k xs)"
  by (metis mset_map mset_sort mset_eq_imp_distinct_iff)

lemma distinct_block_spaces: "distinct (map fst (block_spaces H b auth store))"
  unfolding block_spaces_eq distinct_sort_key Let_def
  by (cases store) (simp_all add: fst_keep_actions distinct_group_by_space distinct_drop_empty)

lemma sorted_block_spaces: "sorted (map fst (block_spaces H b auth store))"
  by (simp add: block_spaces_def Let_def)

lemma block_spaces_thread:
  assumes "(s, l) \<in> set (block_spaces H b auth store)" and "t' \<in> set l"
  shows "\<exists>t \<in> set (pending_threads b). pt_space_id t = s \<and> t' = minable_part H b auth store t"
  using assms unfolding block_spaces_mem space_part_def Let_def
  by (auto simp: group_threads_def split: option.splits)

lemma block_spaces_actions:
  "a \<in> set (thread_actions (concat (map snd (block_spaces H b auth store)))) \<longleftrightarrow>
     (\<exists>t \<in> set (pending_threads b). a \<in> set (pt_actions t) \<and> minable H b auth store (pt_space_id t) a)"
proof
  assume "a \<in> set (thread_actions (concat (map snd (block_spaces H b auth store))))"
  then obtain s l t' where "(s, l) \<in> set (block_spaces H b auth store)" "t' \<in> set l" "a \<in> set (pt_actions t')"
    by (auto simp: thread_actions_def)
  then show "\<exists>t \<in> set (pending_threads b). a \<in> set (pt_actions t) \<and> minable H b auth store (pt_space_id t) a"
    using block_spaces_thread by fastforce
next
  assume "\<exists>t \<in> set (pending_threads b). a \<in> set (pt_actions t) \<and> minable H b auth store (pt_space_id t) a"
  then obtain t where t: "t \<in> set (pending_threads b)" "a \<in> set (pt_actions (minable_part H b auth store t))" by auto
  let ?s = "pt_space_id t" and ?t = "minable_part H b auth store t"
  have g: "t \<in> set (group_threads (pending_threads b) ?s)" using t(1) by (simp add: group_threads_def)
  have "pt_actions ?t \<noteq> []" using t(2) by (metis empty_iff empty_set)
  with g have mem: "?t \<in> set (space_part H b auth store ?s)"
    unfolding space_part_def Let_def by (cases store) (auto simp: image_iff)
  then have "(?s, space_part H b auth store ?s) \<in> set (block_spaces H b auth store)"
    unfolding block_spaces_mem using g by (auto simp del: minable_part_simps)
  with mem t(2) show "a \<in> set (thread_actions (concat (map snd (block_spaces H b auth store))))"
    by (force simp: thread_actions_def simp del: minable_part_simps)
qed


subsection \<open>Space and root blocks\<close>

definition space_seals :: "(bytes \<Rightarrow> hash32) \<Rightarrow> space_block \<Rightarrow> hash32 \<times> content_block list \<Rightarrow> bool" where
  "space_seals H sb e \<longleftrightarrow>
     sb_space_id sb = fst e \<and> sb_content_block_hashes sb = map (cb_hash H) (snd e) \<and>
     sb_verify_merkle_root H sb = Inr () \<and> sb_verify_pow_sum sb (snd e) = Inr ()"

lemma from_content_blocks_seals: "space_seals H (from_content_blocks H (fst e) (snd e) prev ts) e"
  by (simp add: space_seals_def from_content_blocks_def sb_verify_merkle_root_def sb_verify_pow_sum_def Let_def)

lemma build_space_blocks_spec:
  "list_all2 (space_seals H) (fst (build_space_blocks H ts prev contents)) contents"
proof (induction contents arbitrary: prev)
  case (Cons e contents)
  let ?sb = "from_content_blocks H (fst e) (snd e) (map_of prev (fst e)) ts"
  obtain r p where "build_space_blocks H ts (AList.update (fst e) (sb_hash H ?sb) prev) contents = (r, p)" by fastforce
  with Cons.IH [of "AList.update (fst e) (sb_hash H ?sb) prev"] show ?case
    by (simp add: Let_def from_content_blocks_seals)
qed simp

lemma persist_simps [simp]:
  "bb_threads (persist b) = bb_threads b" "bb_difficulty_target (persist b) = bb_difficulty_target b"
  "bb_current_height (persist b) = bb_current_height b" "bb_prev_root_hash (persist b) = bb_prev_root_hash b"
  "bb_prev_cumulative_pow (persist b) = bb_prev_cumulative_pow b"
  "bb_prev_space_hashes (persist b) = bb_prev_space_hashes b" "bb_seen_actions (persist b) = bb_seen_actions b"
  "bb_waiting_since (persist b) = bb_waiting_since b" "bb_flush_since (persist b) = bb_flush_since b"
  "bb_action_locations (persist b) = bb_action_locations b"
  "bb_space_action_counts (persist b) = bb_space_action_counts b"
  "bb_total_action_count (persist b) = bb_total_action_count b" "bb_persists (persist b) = bb_persists b"
  by (simp_all add: persist_def)

text \<open>The blocks that are built, apart from the state they leave behind.\<close>

definition quantized :: "u64 \<Rightarrow> u64" where
  "quantized timestamp = timestamp div TIMESTAMP_QUANTUM_SECS * TIMESTAMP_QUANTUM_SECS"

definition mined_contents ::
  "(bytes \<Rightarrow> hash32) \<Rightarrow> 'c block_builder \<Rightarrow> u64 \<Rightarrow> (bytes \<Rightarrow> hash32 \<Rightarrow> bool) option \<Rightarrow> chain_store option \<Rightarrow>
   (hash32 \<times> content_block list) list" where
  "mined_contents H b timestamp auth store =
     build_content_blocks H (quantized timestamp) {} (block_spaces H b auth store)"

lemma build_root_block_parts:
  assumes "build_root_block L H b timestamp creator auth store = ((root, spaces, contents), b')"
  shows "contents = concat (map snd (mined_contents H b timestamp auth store))"
    "spaces = fst (build_space_blocks H (quantized timestamp) (bb_prev_space_hashes b) (mined_contents H b timestamp auth store))"
    "root = from_space_blocks H spaces (bb_prev_root_hash b) (bb_prev_cumulative_pow b) (quantized timestamp)
       (bb_difficulty_target b) (bb_current_height b + 1) creator"
    "bb_threads b' = []" "bb_prev_root_hash b' = rb_hash H root" "bb_current_height b' = bb_current_height b + 1"
    "bb_prev_cumulative_pow b' = rb_cumulative_pow root" "bb_total_action_count b' = 0"
    "bb_space_action_counts b' = []" "bb_action_locations b' = []"
    "bb_prev_space_hashes b' = snd (build_space_blocks H (quantized timestamp) (bb_prev_space_hashes b) (mined_contents H b timestamp auth store))"
    "bb_persists b' = bb_persists b" "bb_difficulty_target b' = bb_difficulty_target b"
proof -
  let ?contents = "mined_contents H b timestamp auth store"
  obtain sbs prev where sb: "build_space_blocks H (quantized timestamp) (bb_prev_space_hashes b) ?contents = (sbs, prev)"
    by fastforce
  have build: "build_root_block L H b timestamp creator auth store = ((root, spaces, contents), b')" by (rule assms)
  note def = build [unfolded build_root_block_def Let_def quantized_def [symmetric] mined_contents_def [symmetric] sb prod.case]
  from def show "contents = concat (map snd ?contents)" "bb_threads b' = []" "bb_total_action_count b' = 0"
    "bb_space_action_counts b' = []" "bb_action_locations b' = []" "bb_persists b' = bb_persists b"
    "bb_difficulty_target b' = bb_difficulty_target b" "bb_current_height b' = bb_current_height b + 1"
    by auto
  from def sb show "spaces = fst (build_space_blocks H (quantized timestamp) (bb_prev_space_hashes b) ?contents)"
    "bb_prev_space_hashes b' = snd (build_space_blocks H (quantized timestamp) (bb_prev_space_hashes b) ?contents)"
    by auto
  from def show "root = from_space_blocks H spaces (bb_prev_root_hash b) (bb_prev_cumulative_pow b) (quantized timestamp)
       (bb_difficulty_target b) (bb_current_height b + 1) creator"
    "bb_prev_root_hash b' = rb_hash H root" "bb_prev_cumulative_pow b' = rb_cumulative_pow root"
    by auto
qed

lemma mined_contents_spec:
  "placed_once H {} (thread_actions (concat (map snd (block_spaces H b auth store))))
     (block_actions (concat (map snd (mined_contents H b ts auth store))))"
  "e \<in> set (mined_contents H b ts auth store) \<Longrightarrow> built_from H (block_spaces H b auth store) e"
  using build_content_blocks_spec [of H "{}" "block_spaces H b auth store" "quantized ts"]
  by (simp_all add: mined_contents_def)

lemma mined_content_block:
  assumes "cb \<in> set (concat (map snd (mined_contents H b ts auth store)))"
  obtains t where "t \<in> set (pending_threads b)" "block_of_thread H (minable_part H b auth store t) cb"
proof -
  from assms obtain s cbs where e: "(s, cbs) \<in> set (mined_contents H b ts auth store)" "cb \<in> set cbs" by auto
  from mined_contents_spec(2) [OF e(1)] e(2) obtain threads t' where
    "(s, threads) \<in> set (block_spaces H b auth store)" "t' \<in> set threads" "block_of_thread H t' cb"
    unfolding built_from_def by force
  with block_spaces_thread that show ?thesis by blast
qed


subsection \<open>Independence of the order of iteration\<close>

definition grants :: "action \<Rightarrow> hash32 \<Rightarrow> bool" where
  "grants a x \<longleftrightarrow> act_type a = Sponsor \<and> act_content_hash a = Some x"

text \<open>No two pending grants give the same identity different scopes.\<close>

definition consistent_grants :: "action list \<Rightarrow> bool" where
  "consistent_grants as \<longleftrightarrow>
     (\<forall>a \<in> set as. \<forall>a' \<in> set as. \<forall>x. grants a x \<and> grants a' x \<longrightarrow> act_parent_id a = act_parent_id a')"

lemma note_grant_apply:
  "note_grant m a x = (if grants a x then Some (act_parent_id a) else m x)"
  by (auto simp: note_grant_def grants_def sponsor_scope_def split: option.splits)

lemma note_grants_fold:
  assumes "consistent_grants as"
  shows "a \<in> set as \<Longrightarrow> grants a x \<Longrightarrow> foldl note_grant (\<lambda>_. None) as x = Some (act_parent_id a)"
    "\<forall>a \<in> set as. \<not> grants a x \<Longrightarrow> foldl note_grant (\<lambda>_. None) as x = None"
proof -
  show "\<forall>a \<in> set as. \<not> grants a x \<Longrightarrow> foldl note_grant (\<lambda>_. None) as x = None"
    by (induction as rule: rev_induct) (auto simp: note_grant_apply)
  show "a \<in> set as \<Longrightarrow> grants a x \<Longrightarrow> foldl note_grant (\<lambda>_. None) as x = Some (act_parent_id a)"
    using assms
  proof (induction as rule: rev_induct)
    case (snoc y ys)
    show ?case
    proof (cases "grants y x")
      case True
      have "act_parent_id y = act_parent_id a"
        using snoc.prems True unfolding consistent_grants_def by (meson in_set_conv_decomp)
      with True show ?thesis by (simp add: note_grant_apply)
    next
      case False
      with snoc.prems have "a \<in> set ys" "consistent_grants ys" by (auto simp: consistent_grants_def)
      with snoc.IH snoc.prems(2) False show ?thesis by (simp add: note_grant_apply)
    qed
  qed simp
qed

lemma sponsored_in_batch_set:
  assumes "consistent_grants (thread_actions ts)" and "set ts = set ts'"
  shows "sponsored_in_batch (group_by_space ts) = sponsored_in_batch (group_by_space ts')"
proof
  fix x
  let ?as = "\<lambda>ts. concat (map pt_actions (concat (map snd (group_by_space ts))))"
  have set_as: "set (?as ts) = set (thread_actions ts)" for ts
    using group_by_space_threads [of ts] by (simp add: thread_actions_def)
  have eq: "set (thread_actions ts) = set (thread_actions ts')" using assms(2) by (simp add: thread_actions_def)
  have c: "consistent_grants (?as ts)" "consistent_grants (?as ts')"
    using assms(1) eq unfolding consistent_grants_def set_as by simp_all
  show "sponsored_in_batch (group_by_space ts) x = sponsored_in_batch (group_by_space ts') x"
  proof (cases "\<exists>a \<in> set (thread_actions ts). grants a x")
    case True
    then obtain a where "a \<in> set (?as ts)" "a \<in> set (?as ts')" "grants a x" unfolding set_as eq by blast
    then show ?thesis using note_grants_fold(1) [OF c(1)] note_grants_fold(1) [OF c(2)] by (simp add: sponsored_in_batch_def)
  next
    case False
    then have "\<forall>a \<in> set (?as ts). \<not> grants a x" "\<forall>a \<in> set (?as ts'). \<not> grants a x" unfolding set_as eq by blast+
    then show ?thesis using note_grants_fold(2) [OF c(1)] note_grants_fold(2) [OF c(2)] by (simp add: sponsored_in_batch_def)
  qed
qed

lemma sort_key_set_unique:
  assumes "distinct (map k xs)" and "distinct (map k ys)" and "set xs = set ys"
  shows "sort_key k xs = sort_key k ys"
proof (rule map_sorted_distinct_set_unique [where f = k])
  show "inj_on k (set (sort_key k xs) \<union> set (sort_key k ys))" using assms by (simp add: distinct_map)
qed (use assms in \<open>simp_all add: distinct_sort_key\<close>)

lemma build_content_blocks_normal:
  "build_content_blocks H ts seen spaces =
     build_content_blocks H ts seen (map (\<lambda>(s, l). (s, sort_key pt_thread_id l)) spaces)"
proof (induction spaces arbitrary: seen)
  case (Cons e spaces)
  have "sort_key pt_thread_id (sort_key pt_thread_id (snd e)) = sort_key pt_thread_id (snd e)"
    by (rule sort_key_id_if_sorted) simp
  then show ?case using Cons.IH by (cases e) (simp add: Let_def split: prod.split)
qed simp

lemma space_part_threads:
  "set (space_part H b auth store s) =
     minable_part H b auth store ` {t \<in> set (pending_threads b). pt_space_id t = s \<and>
       (store \<noteq> None \<longrightarrow> filter (minable H b auth store s) (pt_actions t) \<noteq> [])}"
  unfolding space_part_def Let_def group_threads_def by (cases store) (auto simp: image_iff)

lemma distinct_space_part:
  assumes "distinct (map pt_thread_id (pending_threads b))"
  shows "distinct (map pt_thread_id (space_part H b auth store s))"
proof -
  have "map pt_thread_id (map (minable_part H b auth store) l) = map pt_thread_id l" for l by simp
  then have "distinct (map pt_thread_id (map (minable_part H b auth store) (group_threads (pending_threads b) s)))"
    using assms unfolding group_threads_def by (metis distinct_map_filter)
  then show ?thesis unfolding space_part_def Let_def by (cases store) (simp_all add: distinct_map_filter)
qed

text \<open>Two builders with the same threads in any order.\<close>

lemma keyed_list_unique:
  assumes "sorted (map fst xs)" "distinct (map fst xs)" "sorted (map fst ys)" "distinct (map fst ys)" "set xs = set ys"
  shows "xs = ys"
  by (rule map_sorted_distinct_set_unique [where f = fst]) (use assms in \<open>simp_all add: distinct_map\<close>)

lemma normal_space_mem:
  "(s, l) \<in> (\<lambda>(s, l). (s, sort_key pt_thread_id l)) ` set (block_spaces H b auth store) \<longleftrightarrow>
     group_threads (pending_threads b) s \<noteq> [] \<and>
     l = sort_key pt_thread_id (space_part H b auth store s) \<and> (store \<noteq> None \<longrightarrow> space_part H b auth store s \<noteq> [])"
proof -
  have "(s, l) \<in> (\<lambda>(s, l). (s, sort_key pt_thread_id l)) ` set (block_spaces H b auth store) \<longleftrightarrow>
      (\<exists>l0. (s, l0) \<in> set (block_spaces H b auth store) \<and> l = sort_key pt_thread_id l0)"
    by (auto simp: image_iff) (metis case_prod_conv)
  then show ?thesis by (auto simp: block_spaces_mem)
qed

lemma mined_contents_permutation:
  assumes "set (pending_threads b) = set (pending_threads b')"
    and "distinct (map pt_thread_id (pending_threads b))" "distinct (map pt_thread_id (pending_threads b'))"
    and "consistent_grants (thread_actions (pending_threads b))"
  shows "mined_contents H b ts auth store = mined_contents H b' ts auth store"
proof -
  let ?n = "\<lambda>(s :: hash32, l). (s, sort_key pt_thread_id l)"
  have batch: "batch_grants b = batch_grants b'"
    unfolding batch_grants_def by (rule sponsored_in_batch_set [OF assms(4,1)])
  then have min: "minable H b auth store = minable H b' auth store" by (intro ext) (simp add: minable_def)
  have mp: "minable_part H b auth store = minable_part H b' auth store" by (intro ext) (simp add: minable_part_def min)
  have part: "set (space_part H b auth store s) = set (space_part H b' auth store s)" for s
    unfolding space_part_threads min mp assms(1) ..
  then have sorted_part: "sort_key pt_thread_id (space_part H b auth store s) = sort_key pt_thread_id (space_part H b' auth store s)" for s
    using distinct_space_part [OF assms(2)] distinct_space_part [OF assms(3)] by (intro sort_key_set_unique)
  have empty: "space_part H b auth store s = [] \<longleftrightarrow> space_part H b' auth store s = []" for s using part [of s] by (metis set_empty)
  have grp: "group_threads (pending_threads b) s = [] \<longleftrightarrow> group_threads (pending_threads b') s = []" for s
    using assms(1) by (simp add: group_threads_def filter_empty_conv)
  have "set (map ?n (block_spaces H b auth store)) = set (map ?n (block_spaces H b' auth store))"
    unfolding set_map
  proof (rule set_eqI)
    fix e :: "hash32 \<times> pending_thread list"
    obtain s l where e: "e = (s, l)" by fastforce
    show "e \<in> ?n ` set (block_spaces H b auth store) \<longleftrightarrow> e \<in> ?n ` set (block_spaces H b' auth store)"
      unfolding e normal_space_mem by (simp add: sorted_part empty grp)
  qed
  moreover have keys: "map fst (map ?n xs) = map fst xs" for xs by auto
  ultimately have "map ?n (block_spaces H b auth store) = map ?n (block_spaces H b' auth store)"
    by (intro keyed_list_unique) (simp_all only: keys sorted_block_spaces distinct_block_spaces)
  then show ?thesis unfolding mined_contents_def by (metis build_content_blocks_normal)
qed


subsection \<open>Limits and evictions\<close>

lemma sum_update:
  "sum_list (map (f \<circ> snd) (AList.update k v m)) + (case map_of m k of Some w \<Rightarrow> f w | None \<Rightarrow> 0) =
   sum_list (map (f \<circ> snd) m) + (f v :: nat)"
  by (induction m) (auto split: option.splits)

lemma bury_count:
  "sum_list (map (length \<circ> pt_actions \<circ> snd) (bury threads th i)) = sum_list (map (length \<circ> pt_actions \<circ> snd) threads)"
proof (cases "map_of threads th")
  case (Some t)
  let ?t = "t\<lparr>pt_actions := (pt_actions t)[i := tombstone (pt_actions t ! i)]\<rparr>"
  have "sum_list (map ((length \<circ> pt_actions) \<circ> snd) (AList.update th ?t threads)) =
      sum_list (map ((length \<circ> pt_actions) \<circ> snd) threads)"
    using sum_update [of "length \<circ> pt_actions" th ?t threads] Some by simp
  with Some show ?thesis by (simp add: bury_def comp_assoc)
qed (simp add: bury_def)

lemma pending_update:
  assumes "t = thread_entry b th sp path"
  shows "sum_list (map (length \<circ> pt_actions \<circ> snd) (AList.update th (t\<lparr>pt_actions := pt_actions t @ [a]\<rparr>) (bb_threads b))) =
    pending_action_count b + 1"
    "sum_list (map (length \<circ> pt_actions \<circ> snd) (AList.update th (t\<lparr>pt_actions := pt_actions t @ [a], pt_space_metadata := md\<rparr>) (bb_threads b))) =
    pending_action_count b + 1"
proof -
  have "sum_list (map ((length \<circ> pt_actions) \<circ> snd) (AList.update th v (bb_threads b))) = pending_action_count b + 1"
    if "length (pt_actions v) = length (pt_actions t) + 1" for v
    using sum_update [of "length \<circ> pt_actions" th v "bb_threads b"] assms that
    by (cases "map_of (bb_threads b) th")
      (simp_all add: pending_action_count_def thread_entry_def pt_new_def comp_assoc)
  then show "sum_list (map (length \<circ> pt_actions \<circ> snd) (AList.update th (t\<lparr>pt_actions := pt_actions t @ [a]\<rparr>) (bb_threads b))) =
      pending_action_count b + 1"
    "sum_list (map (length \<circ> pt_actions \<circ> snd) (AList.update th (t\<lparr>pt_actions := pt_actions t @ [a], pt_space_metadata := md\<rparr>) (bb_threads b))) =
      pending_action_count b + 1"
    by (simp_all add: comp_assoc)
qed

lemma pending_evict: "pending_action_count (evict_candidate L b c) = pending_action_count b"
  by (cases c) (simp add: evict_candidate_def pending_action_count_def bury_count)

lemma pending_make_room: "pending_action_count (snd (make_room L H b sp pow)) = pending_action_count b"
proof -
  have "pending_action_count (snd (evict_lowest_pow_from_space L H b s)) = pending_action_count b"
    "pending_action_count (snd (evict_lowest_pow_global L H b)) = pending_action_count b" for b s
    by (auto simp: evict_lowest_pow_from_space_def evict_lowest_pow_global_def pending_evict split: option.splits)
  then show ?thesis
    unfolding make_room_def Let_def by (auto split: prod.splits) (metis snd_conv)+
qed

lemma pending_persist [simp]: "pending_action_count (persist b) = pending_action_count b"
  by (simp add: pending_action_count_def)

lemma pending_count_action [simp]: "pending_action_count (count_action b s) = pending_action_count b"
  by (simp add: pending_action_count_def count_action_def)

text \<open>Nothing but actions without work: no room can be made and none is demanded.\<close>

lemma weigh_nothing:
  assumes "\<forall>t \<in> set ts. \<forall>a \<in> set (pt_actions t). act_pow_work a = 0"
  shows "foldl (weigh_thread H) None ts = None"
proof -
  have "foldl (weigh_action H t) None es = None" if "\<forall>e \<in> set es. act_pow_work (snd e) = 0" for t es
    using that by (induction es) (auto simp: weigh_action_def)
  then have "weigh_thread H None t = None" if "\<forall>a \<in> set (pt_actions t). act_pow_work a = 0" for t
  proof -
    have "snd e \<in> set (pt_actions t)" if "e \<in> set (enumerate 0 (pt_actions t))" for e
      using that by (metis image_eqI map_snd_enumerate set_map)
    with that \<open>\<And>t es. \<forall>e \<in> set es. act_pow_work (snd e) = 0 \<Longrightarrow> foldl (weigh_action H t) None es = None\<close>
    show ?thesis unfolding weigh_thread_def by blast
  qed
  then show ?thesis using assms by (induction ts) auto
qed

lemma make_room_no_work:
  assumes "\<forall>t \<in> set (pending_threads b). \<forall>a \<in> set (pt_actions t). act_pow_work a = 0"
  shows "make_room L H b s pow = (True, b)"
proof -
  have "foldl (weigh_thread H) None (filter (\<lambda>t. pt_space_id t = s) (pending_threads b)) = None"
    using assms by (intro weigh_nothing) auto
  then have "evict_lowest_pow_from_space L H b s = (None, b)" by (simp add: evict_lowest_pow_from_space_def)
  moreover have "evict_lowest_pow_global L H b = (None, b)"
    using weigh_nothing [OF assms, of H] by (simp add: evict_lowest_pow_global_def)
  ultimately show ?thesis by (simp add: make_room_def)
qed


subsection \<open>Tombstones\<close>

lemma bury_pending:
  assumes "map_of threads th = Some t" and "i < length (pt_actions t)"
  shows "\<exists>t'. map_of (bury threads th i) th = Some t' \<and> tombstone (pt_actions t ! i) \<in> set (pt_actions t')"
proof -
  let ?t = "t\<lparr>pt_actions := (pt_actions t)[i := tombstone (pt_actions t ! i)]\<rparr>"
  have "map_of (bury threads th i) th = Some ?t" using assms by (simp add: bury_def AList.update_conv')
  moreover have "tombstone (pt_actions t ! i) \<in> set (pt_actions ?t)" using assms(2) by (simp add: set_update_memI)
  ultimately show ?thesis by blast
qed

lemma replaced_tombstone:
  assumes "replace_action L H b th sp a path h = (True, b')"
  obtains t old where "t \<in> set (pending_threads b)" "old \<in> set (pt_actions t)" "act_actor old = act_actor a"
    "\<exists>t' \<in> set (pending_threads b'). tombstone old \<in> set (pt_actions t')"
proof -
  obtain oth i t where loc: "map_of (bb_action_locations b) h = Some (oth, i)" "map_of (bb_threads b) oth = Some t"
    and i: "i < length (pt_actions t)" "act_actor (pt_actions t ! i) = act_actor a"
    using assms by (auto simp: replace_action_def split: option.splits if_splits)
  let ?b1 = "b\<lparr>bb_seen_actions := lru_put L (lru_pop L (bb_seen_actions b) h) (action_hash H a),
      bb_action_locations := AList.delete h (bb_action_locations b), bb_threads := bury (bb_threads b) oth i\<rparr>"
  let ?t = "thread_entry ?b1 th sp path"
  have th': "bb_threads b' = AList.update th (?t\<lparr>pt_actions := pt_actions ?t @ [a]\<rparr>) (bury (bb_threads b) oth i)"
    using assms loc i by (auto simp: replace_action_def Let_def)
  obtain t' where t': "map_of (bury (bb_threads b) oth i) oth = Some t'" "tombstone (pt_actions t ! i) \<in> set (pt_actions t')"
    using bury_pending [OF loc(2) i(1)] by blast
  have "\<exists>t''. map_of (bb_threads b') oth = Some t'' \<and> tombstone (pt_actions t ! i) \<in> set (pt_actions t'')"
    using t' by (cases "oth = th") (auto simp: th' AList.update_conv' thread_entry_def)
  then have "\<exists>t' \<in> set (pending_threads b'). tombstone (pt_actions t ! i) \<in> set (pt_actions t')"
    by (metis map_of_SomeD image_eqI set_map snd_conv)
  moreover have "t \<in> set (pending_threads b)" using loc(2) by (metis map_of_SomeD image_eqI set_map snd_conv)
  ultimately show ?thesis using that [of t "pt_actions t ! i"] i by simp
qed

lemma content_missing_rejected:
  assumes "a \<in> set (cb_actions cb)" and "act_content_hash a = None"
  shows "validate_content_block H verify cb now \<noteq> Inr ()"
proof -
  have "validate_action_full verify a now \<noteq> Inr ()"
    using assms(2) by (simp add: validate_action_full_def validation_ok validate_action_signature_def)
  with assms(1) show ?thesis by (auto simp: validate_content_block_ok)
qed

subsection \<open>The mempool file\<close>

lemma length_u32_le [simp]: "length (u32_le w) = 4"
  by (simp add: u32_le_def)

lemma read_u32_le_at:
  "read_u32_le (pre @ u32_le w @ post) (length pre) = Some (w, length pre + 4)"
  by (simp add: read_u32_le_def u32_le_def)

text \<open>Loading a list of entries, each decoded on its own.\<close>

definition load_entry ::
  "(bytes \<Rightarrow> pending_thread option) \<Rightarrow> (hash32 \<times> pending_thread) list \<Rightarrow> bytes \<Rightarrow> (hash32 \<times> pending_thread) list" where
  "load_entry deser threads e = (case deser e of Some t \<Rightarrow> AList.update (pt_thread_id t) t threads | None \<Rightarrow> threads)"

definition frame_entry :: "bytes \<Rightarrow> bytes" where
  "frame_entry e = u32_le (word_of_nat (length e)) @ e"

lemma length_frame_entry: "length (frame_entry e) = 4 + length e"
  by (simp add: frame_entry_def)

lemma unat_of_length: "n < 2 ^ 32 \<Longrightarrow> unat (word_of_nat n :: u32) = n"
  by (simp add: unat_of_nat)

text \<open>Reading at the start of a frame that is whole, or that is cut.\<close>

lemma parse_frame_whole:
  assumes "length e < 2 ^ 32"
  shows "parse_frames deser (pre @ frame_entry e @ post) (Suc n) (length pre) threads =
    parse_frames deser (pre @ frame_entry e @ post) n (length (pre @ frame_entry e)) (load_entry deser threads e)"
proof -
  have "read_u32_le (pre @ frame_entry e @ post) (length pre) = Some (word_of_nat (length e), length pre + 4)"
    using read_u32_le_at [of pre "word_of_nat (length e)" "e @ post"] by (simp add: frame_entry_def)
  moreover have "byte_slice (pre @ frame_entry e @ post) (length pre + 4) (length e) = e"
    by (simp add: frame_entry_def)
  ultimately show ?thesis
    using unat_of_length [OF assms] by (simp add: Let_def load_entry_def length_frame_entry add.assoc)
qed

lemma parse_frame_cut:
  assumes "length e < 2 ^ 32" and "k < length (frame_entry e)"
  shows "parse_frames deser (pre @ take k (frame_entry e)) (Suc n) (length pre) threads = threads"
proof (cases "k < 4")
  case True
  then show ?thesis by (simp add: read_u32_le_def length_frame_entry)
next
  case False
  then have "pre @ take k (frame_entry e) = pre @ u32_le (word_of_nat (length e)) @ take (k - 4) e"
    by (simp add: frame_entry_def)
  moreover have "k - 4 < length e" using assms(2) False by (simp add: length_frame_entry)
  ultimately show ?thesis using unat_of_length [OF assms(1)] by (simp add: read_u32_le_at Let_def min_def)
qed

lemma parse_frames_cut:
  assumes "\<forall>e \<in> set entries. length e < 2 ^ 32"
  shows "\<exists>j. parse_frames deser (pre @ take k (concat (map frame_entry entries))) (length entries) (length pre) threads =
      foldl (load_entry deser) threads (take j entries) \<and>
    (length (concat (map frame_entry entries)) \<le> k \<longrightarrow> j = length entries)"
  using assms
proof (induction entries arbitrary: pre k threads)
  case (Cons e entries)
  have le: "length e < 2 ^ 32" using Cons.prems by simp
  show ?case
  proof (cases "k < length (frame_entry e)")
    case True
    then have "take k (concat (map frame_entry (e # entries))) = take k (frame_entry e)" by simp
    then show ?thesis using parse_frame_cut [OF le True] True by (intro exI [of _ 0]) simp
  next
    case False
    let ?pre = "pre @ frame_entry e" and ?k = "k - length (frame_entry e)"
    have split: "pre @ take k (concat (map frame_entry (e # entries))) =
        pre @ frame_entry e @ take ?k (concat (map frame_entry entries))" using False by simp
    from Cons.IH [of ?pre ?k "load_entry deser threads e"] Cons.prems obtain j where
      j: "parse_frames deser (?pre @ take ?k (concat (map frame_entry entries))) (length entries) (length ?pre)
          (load_entry deser threads e) = foldl (load_entry deser) (load_entry deser threads e) (take j entries)"
        "length (concat (map frame_entry entries)) \<le> ?k \<longrightarrow> j = length entries" by auto
    have "parse_frames deser (pre @ take k (concat (map frame_entry (e # entries)))) (length (e # entries)) (length pre) threads =
        foldl (load_entry deser) threads (take (Suc j) (e # entries))"
      unfolding split using parse_frame_whole [OF le] j(1) by simp
    then show ?thesis using j(2) False by (intro exI [of _ "Suc j"]) auto
  qed
qed simp


lemma update_fresh: "k \<notin> set (map fst m) \<Longrightarrow> AList.update k v m = m @ [(k, v)]"
  by (induction m) auto

lemma load_entries_all:
  assumes "\<forall>(k, t) \<in> set threads. k = pt_thread_id t \<and> deser (ser t) = Some t" and "distinct (map fst (acc @ threads))"
  shows "foldl (load_entry deser) acc (map (ser \<circ> snd) threads) = acc @ threads"
  using assms
proof (induction threads arbitrary: acc)
  case (Cons e threads)
  obtain k t where e: "e = (k, t)" by fastforce
  have "AList.update k t acc = acc @ [(k, t)]"
    using Cons.prems(2) e by (intro update_fresh) auto
  then have "load_entry deser acc (ser t) = acc @ [(k, t)]" using Cons.prems(1) e by (auto simp: load_entry_def)
  with Cons.IH [of "acc @ [(k, t)]"] Cons.prems e show ?case by simp
qed simp

subsection \<open>The predecessors of space blocks\<close>

lemma build_content_blocks_keys:
  "distinct (map fst spaces) \<Longrightarrow>
   distinct (map fst (build_content_blocks H ts seen spaces)) \<and>
   set (map fst (build_content_blocks H ts seen spaces)) \<subseteq> set (map fst spaces)"
proof (induction spaces arbitrary: seen)
  case (Cons e spaces)
  obtain bl s1 where b: "build_thread_blocks H ts seen (sort_key pt_thread_id (snd e)) = (bl, s1)" by fastforce
  with Cons.IH [of s1] Cons.prems show ?case by (auto simp: Let_def)
qed simp

lemma build_space_blocks_prev:
  assumes "distinct (map fst contents)"
  shows "sb \<in> set (fst (build_space_blocks H ts prev contents)) \<Longrightarrow>
      map_of (snd (build_space_blocks H ts prev contents)) (sb_space_id sb) = Some (sb_hash H sb)"
    "s \<notin> set (map fst contents) \<Longrightarrow> map_of (snd (build_space_blocks H ts prev contents)) s = map_of prev s"
proof -
  have other: "s \<notin> set (map fst contents) \<Longrightarrow> map_of (snd (build_space_blocks H ts prev contents)) s = map_of prev s"
    for s prev contents
  proof (induction contents arbitrary: prev)
    case (Cons e contents)
    let ?prev = "AList.update (fst e) (sb_hash H (from_content_blocks H (fst e) (snd e) (map_of prev (fst e)) ts)) prev"
    obtain r p where "build_space_blocks H ts ?prev contents = (r, p)" by fastforce
    with Cons.IH [of ?prev] Cons.prems show ?case by (auto simp: Let_def AList.update_conv')
  qed simp
  then show "s \<notin> set (map fst contents) \<Longrightarrow> map_of (snd (build_space_blocks H ts prev contents)) s = map_of prev s" .
  show "sb \<in> set (fst (build_space_blocks H ts prev contents)) \<Longrightarrow>
      map_of (snd (build_space_blocks H ts prev contents)) (sb_space_id sb) = Some (sb_hash H sb)"
    using assms
  proof (induction contents arbitrary: prev)
    case (Cons e contents)
    let ?sb = "from_content_blocks H (fst e) (snd e) (map_of prev (fst e)) ts"
    let ?prev = "AList.update (fst e) (sb_hash H ?sb) prev"
    obtain r p where rp: "build_space_blocks H ts ?prev contents = (r, p)" by fastforce
    have sid: "sb_space_id ?sb = fst e" by (simp add: from_content_blocks_def Let_def)
    have "sb = ?sb \<or> sb \<in> set r" using Cons.prems(1) rp by (auto simp: Let_def)
    then show ?case
    proof
      assume "sb = ?sb"
      then show ?thesis using other [of "fst e" contents ?prev] Cons.prems(2) rp sid by (simp add: Let_def AList.update_conv')
    next
      assume "sb \<in> set r"
      then show ?thesis using Cons.IH [of ?prev] Cons.prems(2) rp by (simp add: Let_def)
    qed
  qed simp
qed


subsection \<open>Properties\<close>

text \<open>
  C8. The blocks that are formed are consistent: the root block commits to the space blocks, each
  space block to the content blocks of its space, each content block to its actions, with the sums
  of work that the checks recompute; the root block extends the tip the builder knows, which
  becomes the new one; and nothing stays pending.
\<close>

theorem built_blocks_verify:
  "case build_root_block L H b timestamp creator auth store of ((root, spaces, contents), b') \<Rightarrow>
     rb_verify_merkle_root H root = Inr () \<and> rb_verify_pow_sum root spaces = Inr () \<and>
     rb_space_block_hashes root = map (sb_hash H) spaces \<and>
     rb_prev_root_hash root = bb_prev_root_hash b \<and> rb_height root = bb_current_height b + 1 \<and>
     (\<exists>parts. contents = concat (map snd parts) \<and> list_all2 (space_seals H) spaces parts \<and> distinct (map fst parts)) \<and>
     (\<forall>cb \<in> set contents. cb_verify_merkle_root H cb = Inr () \<and> cb_verify_pow_sum cb = Inr ()) \<and>
     bb_prev_root_hash b' = rb_hash H root \<and> pending_action_count b' = 0"
proof -
  obtain root spaces contents b' where build: "build_root_block L H b timestamp creator auth store = ((root, spaces, contents), b')"
    by (metis surj_pair)
  note p = build_root_block_parts [OF build]
  have "cb_verify_merkle_root H cb = Inr () \<and> cb_verify_pow_sum cb = Inr ()" if "cb \<in> set contents" for cb
    using mined_content_block [of cb] that unfolding p(1) block_of_thread_def by blast
  moreover have "\<exists>parts. contents = concat (map snd parts) \<and> list_all2 (space_seals H) spaces parts \<and> distinct (map fst parts)"
    using p(1,2) build_space_blocks_spec build_content_blocks_keys [OF distinct_block_spaces] unfolding mined_contents_def by metis
  moreover have "rb_verify_merkle_root H root = Inr () \<and> rb_verify_pow_sum root spaces = Inr () \<and>
      rb_space_block_hashes root = map (sb_hash H) spaces \<and>
      rb_prev_root_hash root = bb_prev_root_hash b \<and> rb_height root = bb_current_height b + 1"
    unfolding p(3) by (simp add: from_space_blocks_def Let_def rb_verify_merkle_root_def rb_verify_pow_sum_def)
  ultimately show ?thesis using p(4,5) unfolding build by (simp add: pending_action_count_def)
qed

text \<open>
  C7. What goes into a block is exactly what may: every action of a content block is pending in a
  thread of that space, its author is authorized there and it is not finalized; every such pending
  action is in the block, up to its identity; and no identity occurs twice.
\<close>

theorem built_actions_exact:
  "case build_root_block L H b timestamp creator auth store of ((root, spaces, contents), b') \<Rightarrow>
     (\<forall>cb \<in> set contents. \<exists>t \<in> set (pending_threads b). cb_space_id cb = pt_space_id t \<and>
        (\<forall>a \<in> set (cb_actions cb). a \<in> set (pt_actions t) \<and> minable H b auth store (pt_space_id t) a)) \<and>
     action_hash H ` set (block_actions contents) =
       action_hash H ` {a. \<exists>t \<in> set (pending_threads b). a \<in> set (pt_actions t) \<and> minable H b auth store (pt_space_id t) a} \<and>
     distinct (map (action_hash H) (block_actions contents))"
proof -
  obtain root spaces contents b' where build: "build_root_block L H b timestamp creator auth store = ((root, spaces, contents), b')"
    by (metis surj_pair)
  note p = build_root_block_parts(1) [OF build]
  have "\<exists>t \<in> set (pending_threads b). cb_space_id cb = pt_space_id t \<and>
      (\<forall>a \<in> set (cb_actions cb). a \<in> set (pt_actions t) \<and> minable H b auth store (pt_space_id t) a)"
    if "cb \<in> set contents" for cb
  proof -
    from that obtain t where "t \<in> set (pending_threads b)" "block_of_thread H (minable_part H b auth store t) cb"
      unfolding p by (rule mined_content_block)
    then show ?thesis unfolding block_of_thread_def by auto
  qed
  moreover have "{a. \<exists>t \<in> set (pending_threads b). a \<in> set (pt_actions t) \<and> minable H b auth store (pt_space_id t) a} =
      set (thread_actions (concat (map snd (block_spaces H b auth store))))" using block_spaces_actions by blast
  ultimately show ?thesis
    using mined_contents_spec(1) [of H b auth store timestamp] unfolding build placed_once_def p [symmetric] by simp
qed

text \<open>
  Block formation is deterministic: two nodes with the same pending threads, in whatever order
  their hash maps iterate, and the same view of the chain form the same blocks, provided no identity
  is granted two different scopes in the batch.
\<close>

theorem build_deterministic:
  assumes "set (pending_threads b) = set (pending_threads b')"
    and "distinct (map pt_thread_id (pending_threads b))" "distinct (map pt_thread_id (pending_threads b'))"
    and "consistent_grants (thread_actions (pending_threads b))"
    and "bb_prev_space_hashes b = bb_prev_space_hashes b'" "bb_prev_root_hash b = bb_prev_root_hash b'"
      "bb_prev_cumulative_pow b = bb_prev_cumulative_pow b'" "bb_difficulty_target b = bb_difficulty_target b'"
      "bb_current_height b = bb_current_height b'"
  shows "fst (build_root_block L H b timestamp creator auth store) =
    fst (build_root_block L' H b' timestamp creator auth store)"
proof -
  obtain root spaces contents c where 1: "build_root_block L H b timestamp creator auth store = ((root, spaces, contents), c)"
    by (metis surj_pair)
  obtain root' spaces' contents' c' where 2: "build_root_block L' H b' timestamp creator auth store = ((root', spaces', contents'), c')"
    by (metis surj_pair)
  have "mined_contents H b timestamp auth store = mined_contents H b' timestamp auth store"
    by (rule mined_contents_permutation [OF assms(1-4)])
  then have "contents = contents'" "spaces = spaces'"
    using build_root_block_parts(1,2) [OF 1] build_root_block_parts(1,2) [OF 2] assms(5) by simp_all
  moreover from this have "root = root'"
    using build_root_block_parts(3) [OF 1] build_root_block_parts(3) [OF 2] assms(6-9) by simp
  ultimately show ?thesis by (simp add: 1 2)
qed

theorem build_deterministic_witness:
  "fst (build_root_block (lru_list 8) sum_digest
     ((bb_new (lru_list 8) 1)\<lparr>bb_threads := [([1], pt_new [1] [7] path_root), ([2], pt_new [2] [7] path_root)]\<rparr>) 105 zero32 None None) =
   fst (build_root_block (lru_list 5) sum_digest
     ((bb_new (lru_list 5) 1)\<lparr>bb_threads := [([2], pt_new [2] [7] path_root), ([1], pt_new [1] [7] path_root)]\<rparr>) 105 zero32 None None)"
  by (rule build_deterministic)
    (auto simp: bb_new_def from_chain_state_def pt_new_def consistent_grants_def thread_actions_def)

text \<open>
  The limits of the mempool do not bound what it holds. An eviction only blanks an action, so
  every accepted action lengthens the pending lists by one; and while no pending action carries
  work there is nothing to evict and every unseen action is accepted, at any count.
\<close>

theorem mempool_limits_not_enforced:
  "pending_action_count (snd (add_action L H b th sp a path)) =
     pending_action_count b + (if fst (add_action L H b th sp a path) then 1 else 0) \<and>
   (act_replaces_pending a = None \<and> \<not> lru_has L (bb_seen_actions b) (action_hash H a) \<and>
    (\<forall>t \<in> set (pending_threads b). \<forall>x \<in> set (pt_actions t). act_pow_work x = 0) \<longrightarrow>
      fst (add_action L H b th sp a path) \<and>
      bb_total_action_count (snd (add_action L H b th sp a path)) = bb_total_action_count b + 1)"
proof (intro conjI impI)
  have rep: "pending_action_count (snd (replace_action L H b th sp a path h)) =
      pending_action_count b + (if fst (replace_action L H b th sp a path h) then 1 else 0)" for h
  proof (cases "fst (replace_action L H b th sp a path h)")
    case False
    then have "snd (replace_action L H b th sp a path h) = b"
      by (auto simp: replace_action_def Let_def split: option.splits if_splits)
    with False show ?thesis by simp
  next
    case True
    then obtain oth i t where loc: "map_of (bb_action_locations b) h = Some (oth, i)" "map_of (bb_threads b) oth = Some t"
      "i < length (pt_actions t)" "act_actor (pt_actions t ! i) = act_actor a"
      by (auto simp: replace_action_def split: option.splits if_splits)
    let ?b1 = "b\<lparr>bb_seen_actions := lru_put L (lru_pop L (bb_seen_actions b) h) (action_hash H a),
        bb_action_locations := AList.delete h (bb_action_locations b), bb_threads := bury (bb_threads b) oth i\<rparr>"
    from loc True show ?thesis using pending_update(1) [OF refl, of th ?b1 sp path a]
      by (simp add: replace_action_def Let_def pending_action_count_def bury_count)
  qed
  obtain ok b1 where room: "make_room L H b sp (act_pow_work a) = (ok, b1)" by fastforce
  have "pending_action_count b1 = pending_action_count b" using pending_make_room [of L H b sp "act_pow_work a"] room by simp
  then show "pending_action_count (snd (add_action L H b th sp a path)) =
      pending_action_count b + (if fst (add_action L H b th sp a path) then 1 else 0)"
    using rep room pending_update(1) [OF refl, of th b1 sp path a]
    by (cases ok; cases "act_replaces_pending a"; cases "lru_has L (bb_seen_actions b) (action_hash H a)")
      (simp_all add: add_action_def Let_def pending_action_count_def count_action_def)
next
  assume "act_replaces_pending a = None \<and> \<not> lru_has L (bb_seen_actions b) (action_hash H a) \<and>
    (\<forall>t \<in> set (pending_threads b). \<forall>x \<in> set (pt_actions t). act_pow_work x = 0)"
  then have h: "act_replaces_pending a = None" "\<not> lru_has L (bb_seen_actions b) (action_hash H a)"
    "make_room L H b sp (act_pow_work a) = (True, b)" using make_room_no_work [of b] by auto
  then show "fst (add_action L H b th sp a path)"
    "bb_total_action_count (snd (add_action L H b th sp a path)) = bb_total_action_count b + 1"
    by (simp_all add: add_action_def Let_def count_action_def)
qed


text \<open>A builder with one pending reply, and the replacement of that reply by its author.\<close>

definition sample_builder :: "hash32 list block_builder" where
  "sample_builder = snd (add_action (lru_list 8) (\<lambda>x. x) (bb_new (lru_list 8) 1) [1] [2] sample_action path_root)"

definition sample_replacement :: action where
  "sample_replacement = sample_action\<lparr>act_content_hash := Some (replicate 32 3),
     act_replaces_pending := Some (action_hash (\<lambda>x. x) sample_action)\<rparr>"

definition sample_thread :: "action list \<Rightarrow> pending_thread" where
  "sample_thread as = (pt_new [1] [2] path_root)\<lparr>pt_actions := as\<rparr>"

lemma sample_builder_eq:
  "sample_builder = (bb_new (lru_list 8) 1)\<lparr>bb_threads := [([1], sample_thread [sample_action])],
     bb_seen_actions := [action_hash (\<lambda>x. x) sample_action],
     bb_action_locations := [(action_hash (\<lambda>x. x) sample_action, [1], 0)],
     bb_space_action_counts := [([2], 1)], bb_total_action_count := 1\<rparr>"
proof -
  have "act_replaces_pending sample_action = None" by (simp add: sample_action_def new_reply_def)
  moreover have "make_room (lru_list 8) (\<lambda>x. x) (bb_new (lru_list 8) 1) [2] (act_pow_work sample_action) =
      (True, bb_new (lru_list 8) 1)"
    by (rule make_room_no_work) (simp add: bb_new_def from_chain_state_def)
  ultimately show ?thesis
    by (simp add: sample_builder_def add_action_def Let_def count_action_def space_count_def persist_def
        thread_entry_def sample_thread_def pt_new_def bb_new_def from_chain_state_def lru_list_def)
qed

theorem built_actions_exact_witness:
  "case build_root_block (lru_list 8) (\<lambda>x. x) sample_builder 100 zero32 None None of ((root, spaces, contents), b') \<Rightarrow>
     action_hash (\<lambda>x. x) ` set (block_actions contents) = {action_hash (\<lambda>x. x) sample_action} \<and>
     (\<forall>cb \<in> set contents. cb_space_id cb = [2])"
proof -
  have p: "pending_threads sample_builder = [sample_thread [sample_action]]"
    by (simp add: sample_builder_eq)
  have m: "minable (\<lambda>x. x) sample_builder None None [2] sample_action"
    by (simp add: minable_def authorized_author_def)
  show ?thesis using built_actions_exact [where L = "lru_list 8" and H = "\<lambda>x. x" and b = sample_builder and timestamp = 100 and creator = zero32 and auth = None and store = None] m
   unfolding p
   by (auto simp: sample_thread_def pt_new_def split: prod.splits)
qed

theorem built_blocks_verify_witness:
  "case build_root_block (lru_list 8) (\<lambda>x. x) sample_builder 100 zero32 None None of ((root, spaces, contents), b') \<Rightarrow>
     rb_verify_merkle_root (\<lambda>x. x) root = Inr () \<and> rb_height root = 1 \<and>
     (\<forall>cb \<in> set contents. cb_verify_merkle_root (\<lambda>x. x) cb = Inr ())"
  using built_blocks_verify [where L = "lru_list 8" and H = "\<lambda>x. x" and b = sample_builder and timestamp = 100 and creator = zero32 and auth = None and store = None]
  by (auto simp: sample_builder_eq bb_new_def from_chain_state_def split: prod.splits)

theorem mempool_limits_not_enforced_witness:
  "pending_action_count (snd (add_action (lru_list 8) (\<lambda>x. x) sample_builder [1] [2]
      (sample_action\<lparr>act_timestamp := 1\<rparr>) path_root)) \<le> 2 \<and>
   fst (add_action (lru_list 8) (\<lambda>x. x) (bb_new (lru_list 8) 1) [1] [2] sample_action path_root)"
  using mempool_limits_not_enforced [of "lru_list 8" "\<lambda>x. x" sample_builder "[1]" "[2]" "sample_action\<lparr>act_timestamp := 1\<rparr>" path_root]
    mempool_limits_not_enforced [of "lru_list 8" "\<lambda>x. x" "bb_new (lru_list 8) 1" "[1]" "[2]" sample_action path_root]
  by (auto simp: sample_builder_eq pending_action_count_def sample_thread_def bb_new_def from_chain_state_def
      lru_list_def sample_action_def new_reply_def)

text \<open>
  A replacement leaves the replaced action behind without its content hash, and block formation
  does not filter it: when its author may still act in the space, the next block contains a content
  block that the full validation rejects under every verifier and clock. (The hypothesis on
  identities only excludes that such an action is deduplicated away.)
\<close>

theorem replacement_builds_rejected_block:
  assumes "replace_action L H b th sp a path h = (True, b')"
    and "\<And>x y. x \<in> set (thread_actions (pending_threads b')) \<Longrightarrow> y \<in> set (thread_actions (pending_threads b')) \<Longrightarrow>
      action_hash H x = action_hash H y \<Longrightarrow> act_content_hash x = None \<Longrightarrow> act_content_hash y = None"
    and "\<And>t x. t \<in> set (pending_threads b') \<Longrightarrow> x \<in> set (pt_actions t) \<Longrightarrow> act_content_hash x = None \<Longrightarrow>
      minable H b' auth store (pt_space_id t) x"
  shows "\<exists>cb \<in> set (snd (snd (fst (build_root_block L H b' timestamp creator auth store)))).
    \<forall>verify now. validate_content_block H verify cb now \<noteq> Inr ()"
proof -
  obtain root spaces contents c where build: "build_root_block L H b' timestamp creator auth store = ((root, spaces, contents), c)"
    by (metis surj_pair)
  note p = build_root_block_parts(1) [OF build]
  let ?minable = "set (thread_actions (concat (map snd (block_spaces H b' auth store))))"
  obtain t old where t: "t \<in> set (pending_threads b')" "tombstone old \<in> set (pt_actions t)"
    using replaced_tombstone [OF assms(1)] by metis
  have none: "act_content_hash (tombstone old) = None" by (simp add: tombstone_def)
  then have "tombstone old \<in> ?minable" unfolding block_spaces_actions using t assms(3) by blast
  then have "action_hash H (tombstone old) \<in> action_hash H ` set (block_actions contents)"
    using mined_contents_spec(1) [of H b' auth store timestamp] unfolding p placed_once_def by auto
  then obtain cb x where cb: "cb \<in> set contents" "x \<in> set (cb_actions cb)" "action_hash H (tombstone old) = action_hash H x"
    by (auto simp: block_actions_def)
  obtain t' where "t' \<in> set (pending_threads b')" "block_of_thread H (minable_part H b' auth store t') cb"
    using cb(1) unfolding p by (rule mined_content_block)
  then have "x \<in> set (thread_actions (pending_threads b'))"
    using cb(2) by (auto simp: block_of_thread_def thread_actions_def)
  moreover have "tombstone old \<in> set (thread_actions (pending_threads b'))" using t by (auto simp: thread_actions_def)
  ultimately have "act_content_hash x = None" using assms(2) cb(3) none by blast
  then show ?thesis using content_missing_rejected [OF cb(2)] cb(1) unfolding build by auto
qed

theorem replacement_builds_rejected_block_witness:
  "\<exists>cb \<in> set (snd (snd (fst (build_root_block (lru_list 8) (\<lambda>x. x)
       (snd (add_action (lru_list 8) (\<lambda>x. x) sample_builder [1] [2] sample_replacement path_root)) 100 zero32 None None)))).
     \<forall>verify now. validate_content_block (\<lambda>x. x) verify cb now \<noteq> Inr ()"
proof -
  let ?H = "\<lambda>x. x :: hash32" and ?L = "lru_list 8"
  let ?b' = "snd (add_action ?L ?H sample_builder [1] [2] sample_replacement path_root)"
  have ne: "action_hash ?H sample_replacement \<noteq> action_hash ?H sample_action"
    "action_hash ?H sample_replacement \<noteq> action_hash ?H (tombstone sample_action)"
    by (simp_all add: action_hash_def sample_replacement_def tombstone_def sample_action_def new_reply_def zero32_def replicate_eq_replicate)
  have seen: "\<not> lru_has ?L (bb_seen_actions sample_builder) (action_hash ?H sample_replacement)"
    using ne(1) by (simp add: sample_builder_eq lru_list_def)
  have add: "add_action ?L ?H sample_builder [1] [2] sample_replacement path_root =
      replace_action ?L ?H sample_builder [1] [2] sample_replacement path_root (action_hash ?H sample_action)"
    using seen by (simp add: add_action_def Let_def sample_replacement_def)
  have rep: "fst (replace_action ?L ?H sample_builder [1] [2] sample_replacement path_root (action_hash ?H sample_action))"
    "pending_threads ?b' = [sample_thread [tombstone sample_action, sample_replacement]]"
    unfolding add by (simp_all add: replace_action_def sample_builder_eq sample_thread_def Let_def bury_def thread_entry_def
        sample_replacement_def)
  then have rep': "replace_action ?L ?H sample_builder [1] [2] sample_replacement path_root (action_hash ?H sample_action) = (True, ?b')"
    unfolding add by (metis prod.collapse)
  show ?thesis
  proof (rule replacement_builds_rejected_block [OF rep'], goal_cases)
    case (1 x y)
    then show ?case using ne(2) unfolding rep(2) by (auto simp: sample_thread_def pt_new_def tombstone_def sample_replacement_def)
  next
    case (2 t x)
    then show ?case unfolding rep(2) by (simp add: minable_def authorized_author_def)
  qed
qed

text \<open>
  When a formed block is not stored, the snapshot gives back every pending action and the reset
  the tip, so the next attempt sees the same mempool. The predecessors of the space blocks are not
  given back: each discarded space block stays as the predecessor of the next block of its space.
\<close>

theorem restore_after_discard:
  "case build_root_block L H b timestamp creator auth store of ((root, spaces, contents), b1) \<Rightarrow>
     let b2 = reset_to_chain_tip (restore_pending b1 (snapshot_pending b))
                (bb_current_height b) (bb_prev_root_hash b) (bb_prev_cumulative_pow b)
     in snapshot_pending b2 = (snapshot_pending b)\<lparr>ps_waiting_since := bb_waiting_since b2, ps_flush_since := bb_flush_since b2\<rparr> \<and>
        bb_current_height b2 = bb_current_height b \<and> bb_prev_root_hash b2 = bb_prev_root_hash b \<and>
        bb_prev_cumulative_pow b2 = bb_prev_cumulative_pow b \<and>
        (\<forall>sb \<in> set spaces. map_of (bb_prev_space_hashes b2) (sb_space_id sb) = Some (sb_hash H sb))"
proof -
  obtain root spaces contents b1 where build: "build_root_block L H b timestamp creator auth store = ((root, spaces, contents), b1)"
    by (metis surj_pair)
  note p = build_root_block_parts [OF build]
  have "distinct (map fst (mined_contents H b timestamp auth store))"
    using build_content_blocks_keys [OF distinct_block_spaces] unfolding mined_contents_def by blast
  note prev = build_space_blocks_prev(1) [OF this, of _ H "quantized timestamp" "bb_prev_space_hashes b"]
  show ?thesis unfolding build
    by (auto simp: Let_def reset_to_chain_tip_def restore_pending_def snapshot_pending_def p(2,11) prev)
qed

theorem restore_after_discard_witness:
  "case build_root_block (lru_list 8) (\<lambda>x. x) sample_builder 100 zero32 None None of (_, b1) \<Rightarrow>
     let b2 = reset_to_chain_tip (restore_pending b1 (snapshot_pending sample_builder)) 0 zero32 0
     in bb_threads b2 = bb_threads sample_builder \<and> (\<exists>h. map_of (bb_prev_space_hashes b2) [2] = Some h)"
proof -
  let ?L = "lru_list 8" and ?H = "\<lambda>x. x :: hash32"
  obtain root spaces contents b1 where build: "build_root_block ?L ?H sample_builder 100 zero32 None None = ((root, spaces, contents), b1)"
    by (metis surj_pair)
  let ?b2 = "reset_to_chain_tip (restore_pending b1 (snapshot_pending sample_builder))
     (bb_current_height sample_builder) (bb_prev_root_hash sample_builder) (bb_prev_cumulative_pow sample_builder)"
  note r = restore_after_discard [where L = ?L and H = ?H and b = sample_builder and timestamp = 100 and creator = zero32
      and auth = None and store = None, unfolded build prod.case Let_def]
  have "mined_contents ?H sample_builder 100 None None \<noteq> [] \<and> fst (hd (mined_contents ?H sample_builder 100 None None)) = [2]"
    by (simp add: mined_contents_def block_spaces_def sample_builder_eq Let_def group_by_space_def keep_actions_def
        authorized_author_def sample_thread_def pt_new_def thread_block_def cb_new_def)
  then obtain cbs rest where "mined_contents ?H sample_builder 100 None None = ([2], cbs) # rest"
    by (metis list.collapse prod.collapse)
  then have "\<exists>sb \<in> set spaces. sb_space_id sb = [2]"
    using build_root_block_parts(2) [OF build] by (auto simp: Let_def from_content_blocks_def split: prod.splits)
  then have "\<exists>h. map_of (bb_prev_space_hashes ?b2) [2] = Some h" using r by metis
  moreover have "bb_threads ?b2 = bb_threads sample_builder" using r by (simp add: snapshot_pending_def)
  moreover have "bb_current_height sample_builder = 0" "bb_prev_root_hash sample_builder = zero32"
    "bb_prev_cumulative_pow sample_builder = 0" by (simp_all add: sample_builder_eq bb_new_def from_chain_state_def)
  ultimately show ?thesis unfolding build by (simp add: Let_def)
qed

text \<open>
  The mempool file gives back the threads that were persisted, for every encoding of a thread
  that decodes; and a file cut anywhere after its header, as a crash while writing can leave it,
  gives back the first of them.
\<close>

theorem mempool_file_roundtrip:
  assumes "bb_persists b" and "distinct (map fst (bb_threads b))" "length (bb_threads b) < 2 ^ 32"
    and "\<forall>(k, t) \<in> set (bb_threads b). k = pt_thread_id t \<and> deser (ser t) = Some t \<and> length (ser t) < 2 ^ 32"
  shows "parse_mempool deser legacy (mempool_file ser (persist b)) = Some (bb_threads b) \<and>
    (\<forall>k \<ge> 12. \<exists>j. parse_mempool deser legacy (take k (mempool_file ser (persist b))) = Some (take j (bb_threads b)))"
proof -
  let ?es = "map (ser \<circ> snd) (bb_threads b)"
  let ?head = "MEMPOOL_MAGIC @ u32_le MEMPOOL_FORMAT_VERSION @ u32_le (word_of_nat (length ?es))"
  let ?body = "concat (map frame_entry ?es)"
  have magic: "length MEMPOOL_MAGIC = 4" by (simp add: MEMPOOL_MAGIC_def)
  then have len: "length ?head = 12" by simp
  have whole: "mempool_file ser (persist b) = ?head @ ?body"
    using assms(1) by (simp add: mempool_file_def frame_mempool_def persist_def comp_def frame_entry_def [abs_def])
  have loaded: "foldl (load_entry deser) [] (take j ?es) = take j (bb_threads b)" for j
  proof -
    have "\<forall>(k, t) \<in> set (take j (bb_threads b)). k = pt_thread_id t \<and> deser (ser t) = Some t"
      using assms(4) by (fast dest: in_set_takeD)
    moreover have "distinct (map fst ([] @ take j (bb_threads b)))"
      using distinct_take [OF assms(2), of j] by (simp add: take_map)
    ultimately show ?thesis using load_entries_all [of "take j (bb_threads b)" deser ser "[]"] by (simp add: take_map)
  qed
  have parse: "parse_mempool deser legacy (?head @ rest) = Some (parse_frames deser (?head @ rest) (length ?es) 12 [])" for rest
  proof -
    have "read_u32_le (?head @ rest) 4 = Some (MEMPOOL_FORMAT_VERSION, 8)"
      using read_u32_le_at [of MEMPOOL_MAGIC MEMPOOL_FORMAT_VERSION "u32_le (word_of_nat (length ?es)) @ rest"]
      by (simp add: magic)
    moreover have "read_u32_le (?head @ rest) 8 = Some (word_of_nat (length ?es), 12)"
      using read_u32_le_at [of "MEMPOOL_MAGIC @ u32_le MEMPOOL_FORMAT_VERSION" "word_of_nat (length ?es)" rest]
      by (simp add: magic)
    moreover have "take 4 (?head @ rest) = MEMPOOL_MAGIC" by (simp add: magic)
    moreover have "4 \<le> length (?head @ rest)" using len by simp
    ultimately show ?thesis using unat_of_length [OF assms(3)] unfolding parse_mempool_def by simp
  qed
  have "\<forall>e \<in> set ?es. length e < 2 ^ 32" using assms(4) by auto
  note cut = parse_frames_cut [OF this, where pre = ?head and deser = deser and threads = "[]", unfolded len]
  have "parse_mempool deser legacy (?head @ take (length ?body) ?body) = Some (bb_threads b)"
    unfolding parse using cut [of "length ?body"] loaded [of "length ?es"] by auto
  moreover have "\<exists>j. parse_mempool deser legacy (take k (?head @ ?body)) = Some (take j (bb_threads b))" if "12 \<le> k" for k
  proof -
    have split: "take k (?head @ ?body) = ?head @ take (k - 12) ?body" using that len by (subst take_append) simp
    show ?thesis unfolding split parse using cut [of "k - 12"] loaded by metis
  qed
  ultimately show ?thesis unfolding whole by simp
qed

theorem mempool_file_roundtrip_witness:
  "parse_mempool (\<lambda>x. Some (pt_new x [] path_root)) (\<lambda>_. None) (mempool_file pt_thread_id
      (persist ((bb_new (lru_list 8) 1)\<lparr>bb_persists := True, bb_threads := [([1], pt_new [1] [] path_root)]\<rparr>))) =
    Some [([1], pt_new [1] [] path_root)]"
proof -
  let ?b = "(bb_new (lru_list 8) 1)\<lparr>bb_persists := True, bb_threads := [([1], pt_new [1] [] path_root)]\<rparr>"
  have "parse_mempool (\<lambda>x. Some (pt_new x [] path_root)) (\<lambda>_. None) (mempool_file pt_thread_id (persist ?b)) = Some (bb_threads ?b)"
    by (rule mempool_file_roundtrip [THEN conjunct1]) (simp_all add: pt_new_def)
  then show ?thesis by simp
qed

end
