(* ===== verification/Dht_Id.thy ===== *)
theory Dht_Id
  imports Swim_Prelude
begin

unbundle bit_operations_syntax

text \<open>
  Node identifiers of the distributed hash table (\<open>src/dht/node_id.rs\<close>): the XOR distance, the
  bucket of an identifier, the comparison of distances. An identifier is a byte list of length 32,
  read as a number with the most significant byte first (\<open>be_nat\<close>).
\<close>

type_synonym node_id = bytes

definition ID_BITS :: nat where "ID_BITS = 256"

datatype dht_error =
    InvalidNodeId
  | SerializationError
  | InvalidDhtMessage byte
  | BucketIndexOutOfRange nat
  | SelfLookup
  | SubnetLimit bytes nat
  | InvalidProviderSignature hash32 hash32
  | InvalidMessageSignature hash32
  | MessageTimestampInvalid hash32 u64 u64
  | NoProviders hash32
  | RpcFailed hash32

definition id_from_slice :: "bytes \<Rightarrow> dht_error + node_id" where
  "id_from_slice data = (if length data \<noteq> 32 then Inl InvalidNodeId else Inr data)"

definition id_from_public_key :: "(bytes \<Rightarrow> hash32) \<Rightarrow> bytes \<Rightarrow> node_id" where
  "id_from_public_key H public_key = H public_key"

definition xor_distance :: "node_id \<Rightarrow> node_id \<Rightarrow> node_id" where
  "xor_distance a b = map2 (XOR) a b"

text \<open>\<open>u8::leading_zeros\<close>.\<close>

definition byte_leading_zeros :: "byte \<Rightarrow> nat" where
  "byte_leading_zeros b = length (takeWhile (\<lambda>i. \<not> bit b i) [7, 6, 5, 4, 3, 2, 1, 0])"

text \<open>The scan for the first byte that is not zero, with the index of the byte.\<close>

fun bucket_scan :: "nat \<Rightarrow> bytes \<Rightarrow> nat option" where
  "bucket_scan byte_idx [] = None"
| "bucket_scan byte_idx (b # bs) =
     (if b \<noteq> 0
      then let bit_pos = 7 - byte_leading_zeros b
           in Some (ID_BITS - 1 - (byte_idx * 8 + (7 - bit_pos)))
      else bucket_scan (Suc byte_idx) bs)"

definition bucket_index :: "node_id \<Rightarrow> node_id \<Rightarrow> nat option" where
  "bucket_index a b = bucket_scan 0 (xor_distance a b)"

fun closer_scan :: "bytes \<Rightarrow> bytes \<Rightarrow> bool" where
  "closer_scan (x # xs) (y # ys) = (if x < y then True else if y < x then False else closer_scan xs ys)"
| "closer_scan _ _ = False"

definition is_closer :: "node_id \<Rightarrow> node_id \<Rightarrow> node_id \<Rightarrow> bool" where
  "is_closer target a b = closer_scan (xor_distance target a) (xor_distance target b)"

fun id_leading_zeros :: "node_id \<Rightarrow> nat" where
  "id_leading_zeros [] = 0"
| "id_leading_zeros (b # bs) = (if b = 0 then 8 + id_leading_zeros bs else byte_leading_zeros b)"

definition id_is_zero :: "node_id \<Rightarrow> bool" where
  "id_is_zero a \<longleftrightarrow> a = zero32"

subsection \<open>Distances as numbers\<close>

abbreviation distance :: "node_id \<Rightarrow> node_id \<Rightarrow> nat" where
  "distance a b \<equiv> be_nat (xor_distance a b)"

lemma length_xor_distance [simp]: "length (xor_distance a b) = min (length a) (length b)"
  by (simp add: xor_distance_def)

lemma xor_distance_Cons [simp]:
  "xor_distance [] b = []" "xor_distance a [] = []"
  "xor_distance (x # a) (y # b) = (x XOR y) # xor_distance a b"
  by (simp_all add: xor_distance_def)

lemma be_nat_inject: "length a = length b \<Longrightarrow> be_nat a = be_nat b \<longleftrightarrow> a = b"
proof (induction a b rule: list_induct2)
  case (Cons x xs y ys)
  let ?m = "256 ^ length xs :: nat"
  have "unat x * ?m + be_nat xs = unat y * ?m + be_nat ys \<longleftrightarrow> unat x = unat y \<and> be_nat xs = be_nat ys"
  proof
    assume eq: "unat x * ?m + be_nat xs = unat y * ?m + be_nat ys"
    have l: "be_nat xs < ?m" "be_nat ys < ?m" using be_nat_less [of xs] be_nat_less [of ys] Cons.hyps by simp_all
    then have "(unat x * ?m + be_nat xs) div ?m = unat x" "(unat y * ?m + be_nat ys) div ?m = unat y"
      "(unat x * ?m + be_nat xs) mod ?m = be_nat xs" "(unat y * ?m + be_nat ys) mod ?m = be_nat ys" by simp_all
    with eq show "unat x = unat y \<and> be_nat xs = be_nat ys" by metis
  qed simp
  with Cons show ?case by (simp add: word_unat_eq_iff)
qed simp

text \<open>On identifiers of one length the lexicographic order is the order of the numbers.\<close>

lemma be_nat_less_iff: "length a = length b \<Longrightarrow> be_nat a < be_nat b \<longleftrightarrow> a < b"
proof (induction a b rule: list_induct2)
  case (Cons x xs y ys)
  let ?m = "256 ^ length xs :: nat"
  have l: "be_nat xs < ?m" "be_nat ys < ?m" using be_nat_less [of xs] be_nat_less [of ys] Cons.hyps by simp_all
  have less: "unat u * ?m + p < unat v * ?m + q" if "unat u < unat v" "p < ?m" for u v :: byte and p q
  proof -
    have "Suc (unat u) * ?m \<le> unat v * ?m" using that(1) by (intro mult_right_mono) simp_all
    with that(2) show ?thesis by simp
  qed
  consider "unat x < unat y" | "unat y < unat x" | "x = y" by (metis linorder_neqE_nat word_unat_eq_iff)
  then show ?case
  proof cases
    case 1
    with less [OF 1 l(1), of "be_nat ys"] Cons.hyps show ?thesis by (simp add: word_less_nat_alt)
  next
    case 2
    with less [OF 2 l(2), of "be_nat xs"] Cons.hyps show ?thesis by (auto simp: word_less_nat_alt)
  next
    case 3
    with Cons show ?thesis by simp
  qed
qed simp

lemma closer_scan_less: "length a = length b \<Longrightarrow> closer_scan a b \<longleftrightarrow> a < b"
  by (induction a b rule: list_induct2) auto

text \<open>The laws of a metric.\<close>

lemma xor_byte_zero: "x XOR y = 0 \<longleftrightarrow> x = (y :: byte)"
proof
  assume "x XOR y = 0"
  then have "(x XOR y) XOR y = 0 XOR y" by simp
  then show "x = y" by (simp add: xor.assoc)
qed simp

lemma distance_zero: "length a = length b \<Longrightarrow> distance a b = 0 \<longleftrightarrow> a = b"
  by (induction a b rule: list_induct2) (auto simp: unat_eq_zero xor_byte_zero)

lemma distance_commute: "distance a b = distance b a"
proof -
  have "xor_distance a b = xor_distance b a"
    by (induction a arbitrary: b; case_tac b) (simp_all add: xor.commute)
  then show ?thesis by simp
qed

lemma unat_xor_le: "unat (x XOR y :: byte) \<le> unat x + unat y"
proof -
  have "unat (x XOR y) = unat x XOR unat y" by (simp add: unsigned_xor_eq)
  moreover have "m XOR n \<le> m + n" for m n :: nat
  proof (induction m arbitrary: n rule: less_induct)
    case (less m)
    show ?case
    proof (cases "m = 0")
      case False
      then have "m div 2 < m" by simp
      then have IH: "(m div 2) XOR (n div 2) \<le> m div 2 + n div 2" by (rule less)
      have "m XOR n = of_bool (odd m \<noteq> odd n) + 2 * ((m div 2) XOR (n div 2))" by (rule xor_rec)
      also have "\<dots> \<le> (m mod 2 + n mod 2) + 2 * (m div 2 + n div 2)"
        using IH by (intro add_mono mult_left_mono) (auto simp: mod_2_eq_odd)
      also have "\<dots> = m + n" using div_mult_mod_eq [of m 2] div_mult_mod_eq [of n 2] by simp
      finally show ?thesis .
    qed simp
  qed
  ultimately show ?thesis by simp
qed

lemma distance_triangle: "length a = length b \<Longrightarrow> length b = length c \<Longrightarrow> distance a c \<le> distance a b + distance b c"
proof (induction a b c rule: list_induct3)
  case (Cons x a y b z c)
  have "x XOR z = (x XOR y) XOR (y XOR z)" by (simp add: xor.assoc)
  then have "unat (x XOR z) \<le> unat (x XOR y) + unat (y XOR z)" using unat_xor_le by metis
  then have "unat (x XOR z) * 256 ^ length a \<le> (unat (x XOR y) + unat (y XOR z)) * 256 ^ length a" by simp
  with Cons show ?case by (simp add: algebra_simps)
qed simp


subsection \<open>Buckets\<close>

lemma bit_iff_odd_nat: "bit b j \<longleftrightarrow> odd (unat (b :: byte) div 2 ^ j)"
proof -
  have "bit b j \<longleftrightarrow> bit (unat b) j" by (simp add: bit_unsigned_iff)
  also have "\<dots> \<longleftrightarrow> odd (unat b div 2 ^ j)" by (rule bit_iff_odd)
  finally show ?thesis .
qed

lemma byte_leading_zeros_bounds:
  assumes "b \<noteq> 0"
  shows "byte_leading_zeros b \<le> 7" "2 ^ (7 - byte_leading_zeros b) \<le> unat b" "unat b < 2 ^ (8 - byte_leading_zeros b)"
proof -
  have pos: "0 < unat b" using assms by (simp add: unat_gt_0)
  have "\<exists>k. 2 ^ k \<le> unat b \<and> unat b < 2 ^ Suc k"
    using ex_power_ivl1 [of 2 "unat b"] pos by simp
  then obtain k where k: "2 ^ k \<le> unat b" "unat b < 2 ^ Suc k" by blast
  have "(2 :: nat) ^ k < 2 ^ 8" using k(1) unat_byte_less [of b] by simp
  then have k8: "k < 8" by (rule power_less_imp_less_exp [rotated]) simp
  have bits: "bit b j \<longleftrightarrow> j = k" if "k \<le> j" for j
  proof (cases "j = k")
    case True
    have "unat b div 2 ^ k = 1" using k by (intro div_nat_eqI) simp_all
    with True show ?thesis by (simp add: bit_iff_odd_nat)
  next
    case False
    then have "Suc k \<le> j" using that by simp
    then have "unat b < 2 ^ j" using k(2) by (meson less_le_trans one_le_numeral power_increasing)
    with False show ?thesis by (simp add: bit_iff_odd_nat)
  qed
  have "byte_leading_zeros b = 7 - k"
  proof -
    have "k \<in> {0, 1, 2, 3, 4, 5, 6, 7}" using k8 by auto
    then show ?thesis
      using bits [of 7] bits [of 6] bits [of 5] bits [of 4] bits [of 3] bits [of 2] bits [of 1] bits [of 0]
      unfolding byte_leading_zeros_def by (elim insertE emptyE) simp_all
  qed
  with k k8 show "byte_leading_zeros b \<le> 7" "2 ^ (7 - byte_leading_zeros b) \<le> unat b" "unat b < 2 ^ (8 - byte_leading_zeros b)"
    by (simp_all add: Suc_diff_Suc)
qed

lemma power_256: "(256 :: nat) ^ n = 2 ^ (8 * n)"
  by (simp add: power_mult)

lemma bucket_scan_correct:
  assumes "8 * k + 8 * length bs = ID_BITS"
  shows "bucket_scan k bs = None \<Longrightarrow> be_nat bs = 0"
    "bucket_scan k bs = Some i \<Longrightarrow> 2 ^ i \<le> be_nat bs \<and> be_nat bs < 2 ^ Suc i \<and> i < ID_BITS"
  using assms
proof (induction k bs rule: bucket_scan.induct)
  case (2 k b bs)
  {
    case 1
    then show ?case using 2 by (auto split: if_splits)
  next
    case 2
    show ?case
    proof (cases "b = 0")
      case True
      with 2 "2.IH" show ?thesis by simp
    next
      case False
      note z = byte_leading_zeros_bounds [OF False]
      let ?z = "byte_leading_zeros b" and ?n = "8 * length bs"
      have i: "i = 7 - ?z + ?n" using 2 False z(1) by (auto simp: Let_def ID_BITS_def)
      have r: "be_nat bs < 2 ^ ?n" using be_nat_less [of bs] by (simp add: power_256)
      have "2 ^ (7 - ?z) * 2 ^ ?n \<le> unat b * 2 ^ ?n + be_nat bs"
        using mult_right_mono [OF z(2), of "2 ^ ?n"] by (rule trans_le_add1) simp
      then have lo: "2 ^ i \<le> be_nat (b # bs)" unfolding i power_add be_nat.simps power_256 .
      have "Suc (unat b) * 2 ^ ?n \<le> 2 ^ (8 - ?z) * 2 ^ ?n" using z(3) by (intro mult_right_mono) simp_all
      moreover have "Suc i = 8 - ?z + ?n" using i z(1) by simp
      ultimately have "be_nat (b # bs) < 2 ^ Suc i" using r by (simp add: power_add power_256)
      with lo show ?thesis using i z(1) 2 by (auto simp: ID_BITS_def)
    qed
  }
qed auto

lemma bucket_index_less: "bucket_index a b = Some i \<Longrightarrow> i < ID_BITS"
proof -
  have "bucket_scan k bs = Some i \<Longrightarrow> i < ID_BITS" for k bs
    by (induction k bs rule: bucket_scan.induct) (auto simp: Let_def ID_BITS_def split: if_splits)
  then show "bucket_index a b = Some i \<Longrightarrow> i < ID_BITS" by (simp add: bucket_index_def)
qed

lemma bucket_index_self [simp]: "bucket_index a a = None"
proof -
  have "bucket_scan k (xor_distance a a) = None" for k by (induction a arbitrary: k) simp_all
  then show ?thesis by (simp add: bucket_index_def)
qed

text \<open>
  Read as numbers, the XOR distances of identifiers are a metric; \<open>is_closer\<close> compares them;
  and the bucket of an identifier is the position of the highest bit of its distance, below 256 and
  absent exactly for the identifier itself.
\<close>

theorem bucket_index_correct:
  assumes "is_hash a" and "is_hash b" and "is_hash c"
  shows "(distance a b = 0 \<longleftrightarrow> a = b) \<and> distance a b = distance b a \<and> distance a c \<le> distance a b + distance b c \<and>
    (is_closer a b c \<longleftrightarrow> distance a b < distance a c) \<and>
    (bucket_index a b = None \<longleftrightarrow> a = b) \<and>
    (\<forall>i. bucket_index a b = Some i \<longleftrightarrow> 2 ^ i \<le> distance a b \<and> distance a b < 2 ^ Suc i) \<and>
    (\<forall>i. bucket_index a b = Some i \<longrightarrow> i < 256)"
proof -
  let ?d = "xor_distance a b"
  have len: "8 * 0 + 8 * length ?d = ID_BITS" using assms by (simp add: ID_BITS_def)
  note scan = bucket_scan_correct [OF len, folded bucket_index_def]
  have none: "bucket_index a b = None \<longleftrightarrow> a = b"
  proof
    assume "bucket_index a b = None"
    then show "a = b" using scan(1) distance_zero [of a b] assms by simp
  next
    assume "a = b"
    then have "distance a b = 0" using distance_zero [of a b] assms by simp
    then show "bucket_index a b = None" using scan(2) by (cases "bucket_index a b") auto
  qed
  have some: "bucket_index a b = Some i" if "2 ^ i \<le> distance a b" "distance a b < 2 ^ Suc i" for i
  proof (cases "bucket_index a b")
    case None
    then show ?thesis using that(1) none distance_zero [of a b] assms by simp
  next
    case (Some j)
    from scan(2) [OF this] that have "(2 :: nat) ^ i < 2 ^ Suc j" "(2 :: nat) ^ j < 2 ^ Suc i" by linarith+
    then have "i < Suc j" "j < Suc i" using power_less_imp_less_exp [of "2 :: nat"] by (metis one_less_numeral_iff semiring_norm(76))+
    with Some show ?thesis by simp
  qed
  show ?thesis
  proof (intro conjI allI)
    show "distance a b = 0 \<longleftrightarrow> a = b" using distance_zero assms by simp
    show "distance a b = distance b a" by (rule distance_commute)
    show "distance a c \<le> distance a b + distance b c" using distance_triangle assms by simp
    show "is_closer a b c \<longleftrightarrow> distance a b < distance a c"
      using assms by (simp add: is_closer_def closer_scan_less be_nat_less_iff)
    show "bucket_index a b = None \<longleftrightarrow> a = b" by (rule none)
    show "bucket_index a b = Some i \<longleftrightarrow> 2 ^ i \<le> distance a b \<and> distance a b < 2 ^ Suc i" for i
      using some scan(2) by blast
    show "bucket_index a b = Some i \<longrightarrow> i < 256" for i using scan(2) unfolding ID_BITS_def by blast
  qed
qed

lemma xor_distance_zeros: "xor_distance (replicate (length x) 0) x = x"
  by (induction x) simp_all

lemma be_nat_zeros: "be_nat (replicate n 0 @ x) = be_nat x"
  by (induction n) simp_all

theorem bucket_index_correct_witness:
  "bucket_index zero32 (replicate 31 0 @ [6]) = Some 2"
proof -
  have "distance zero32 (replicate 31 0 @ [6]) = 6"
    using xor_distance_zeros [of "replicate 31 0 @ [6]"] be_nat_zeros [of 31 "[6]"] by (simp add: zero32_def)
  then show ?thesis
    using bucket_index_correct [of zero32 "replicate 31 0 @ [6]" zero32] by (simp add: is_hash_def)
qed

end
