(* ===== verification/Dht_Table.thy ===== *)
theory Dht_Table
  imports Dht_Id
begin

text \<open>
  The Kademlia routing table (\<open>src/dht/routing_table.rs\<close>): 256 buckets of at most eight nodes, at
  most two of a subnet. An instant is a number of nanoseconds, the resolution of Rust's \<open>Duration\<close>;
  the clock is the argument \<open>now\<close>. A \<open>VecDeque\<close> is a list, its front first. The random choice
  \<open>random_nodes\<close> is left out.
\<close>

definition K :: nat where "K = 8"
definition NUM_BUCKETS :: nat where "NUM_BUCKETS = ID_BITS"
definition NODE_STALE_SECS :: nat where "NODE_STALE_SECS = 3600"
definition MAX_NODES_PER_SUBNET :: nat where "MAX_NODES_PER_SUBNET = 2"

definition nanos :: "nat \<Rightarrow> nat" where
  "nanos secs = secs * 1000000000"

subsection \<open>Nodes\<close>

datatype ip_addr = V4 bytes | V6 bytes

primrec ip_octets :: "ip_addr \<Rightarrow> bytes" where
  "ip_octets (V4 octets) = octets"
| "ip_octets (V6 octets) = octets"

record socket_addr =
  sa_ip :: ip_addr
  sa_port :: "16 word"

definition extract_subnet :: "socket_addr \<Rightarrow> bytes" where
  "extract_subnet addr = take 3 (ip_octets (sa_ip addr))"

record node_entry =
  ne_id :: node_id
  ne_addr :: socket_addr
  ne_last_seen :: nat
  ne_first_seen :: nat
  ne_failure_count :: u32

definition ne_new :: "nat \<Rightarrow> node_id \<Rightarrow> socket_addr \<Rightarrow> node_entry" where
  "ne_new now nid addr =
     \<lparr>ne_id = nid, ne_addr = addr, ne_last_seen = now, ne_first_seen = now, ne_failure_count = 0\<rparr>"

definition ne_subnet :: "node_entry \<Rightarrow> bytes" where
  "ne_subnet n = extract_subnet (ne_addr n)"

definition ne_touch :: "nat \<Rightarrow> node_entry \<Rightarrow> node_entry" where
  "ne_touch now n = n\<lparr>ne_last_seen := now, ne_failure_count := 0\<rparr>"

definition ne_record_failure :: "node_entry \<Rightarrow> node_entry" where
  "ne_record_failure n = n\<lparr>ne_failure_count := ne_failure_count n + 1\<rparr>"

definition ne_is_stale :: "nat \<Rightarrow> node_entry \<Rightarrow> bool" where
  "ne_is_stale now n \<longleftrightarrow> now - ne_last_seen n > nanos NODE_STALE_SECS"

definition ne_should_evict :: "nat \<Rightarrow> node_entry \<Rightarrow> bool" where
  "ne_should_evict now n \<longleftrightarrow> ne_failure_count n \<ge> 3 \<and> ne_is_stale now n"

subsection \<open>Buckets\<close>

datatype update_result =
    Success
  | PingRequired node_entry
  | SubnetLimitExceeded bytes nat

record k_bucket =
  kb_nodes :: "node_entry list"
  kb_pending :: "node_entry option"
  kb_subnet_counts :: "bytes \<rightharpoonup> nat"

definition kb_new :: k_bucket where
  "kb_new = \<lparr>kb_nodes = [], kb_pending = None, kb_subnet_counts = Map.empty\<rparr>"

definition subnet_count :: "k_bucket \<Rightarrow> bytes \<Rightarrow> nat" where
  "subnet_count b subnet = (case kb_subnet_counts b subnet of Some n \<Rightarrow> n | None \<Rightarrow> 0)"

definition increment_subnet :: "k_bucket \<Rightarrow> bytes \<Rightarrow> k_bucket" where
  "increment_subnet b subnet = b\<lparr>kb_subnet_counts := (kb_subnet_counts b)(subnet \<mapsto> subnet_count b subnet + 1)\<rparr>"

definition decrement_subnet :: "k_bucket \<Rightarrow> bytes \<Rightarrow> k_bucket" where
  "decrement_subnet b subnet =
     (case kb_subnet_counts b subnet of
        None \<Rightarrow> b
      | Some n \<Rightarrow> b\<lparr>kb_subnet_counts := (kb_subnet_counts b)(subnet := if n - 1 = 0 then None else Some (n - 1))\<rparr>)"

definition kb_is_full :: "k_bucket \<Rightarrow> bool" where
  "kb_is_full b \<longleftrightarrow> length (kb_nodes b) \<ge> K"

definition kb_get :: "k_bucket \<Rightarrow> node_id \<Rightarrow> node_entry option" where
  "kb_get b nid = find (\<lambda>n. ne_id n = nid) (kb_nodes b)"

definition kb_contains :: "k_bucket \<Rightarrow> node_id \<Rightarrow> bool" where
  "kb_contains b nid \<longleftrightarrow> (\<exists>n \<in> set (kb_nodes b). ne_id n = nid)"

text \<open>\<open>position\<close> and \<open>remove(pos)\<close> together: the first node with the identifier, and the others.\<close>

definition pick_node :: "node_id \<Rightarrow> node_entry list \<Rightarrow> (node_entry \<times> node_entry list) option" where
  "pick_node nid ns =
     (case List.extract (\<lambda>n. ne_id n = nid) ns of
        None \<Rightarrow> None
      | Some (before, n, behind) \<Rightarrow> Some (n, before @ behind))"

definition kb_update :: "nat \<Rightarrow> k_bucket \<Rightarrow> node_entry \<Rightarrow> update_result \<times> k_bucket" where
  "kb_update now b entry =
     (case pick_node (ne_id entry) (kb_nodes b) of
        Some (n, rest) \<Rightarrow> (Success, b\<lparr>kb_nodes := rest @ [ne_touch now n]\<rparr>)
      | None \<Rightarrow>
          let subnet = ne_subnet entry; cnt = subnet_count b subnet
          in if cnt \<ge> MAX_NODES_PER_SUBNET then (SubnetLimitExceeded subnet cnt, b)
             else if \<not> kb_is_full b
             then (Success, (increment_subnet b subnet)\<lparr>kb_nodes := kb_nodes b @ [entry]\<rparr>)
             else case kb_nodes b of
                    [] \<Rightarrow> (Success, b)
                  | oldest # rest \<Rightarrow>
                      if ne_should_evict now oldest
                      then (Success,
                            (increment_subnet (decrement_subnet b (ne_subnet oldest)) subnet)
                              \<lparr>kb_nodes := rest @ [entry]\<rparr>)
                      else (PingRequired oldest, b\<lparr>kb_pending := Some entry\<rparr>))"

definition on_ping_result :: "nat \<Rightarrow> k_bucket \<Rightarrow> node_id \<Rightarrow> bool \<Rightarrow> k_bucket" where
  "on_ping_result now b oldest_id responded =
     (case kb_pending b of
        None \<Rightarrow> b
      | Some pending \<Rightarrow>
          let b1 = b\<lparr>kb_pending := None\<rparr>
          in case pick_node oldest_id (kb_nodes b1) of
               None \<Rightarrow> b1
             | Some (n, rest) \<Rightarrow>
                 if responded then b1\<lparr>kb_nodes := rest @ [ne_touch now n]\<rparr>
                 else (increment_subnet (decrement_subnet b1 (ne_subnet n)) (ne_subnet pending))
                        \<lparr>kb_nodes := rest @ [pending]\<rparr>)"

definition kb_remove :: "k_bucket \<Rightarrow> node_id \<Rightarrow> node_entry option \<times> k_bucket" where
  "kb_remove b nid =
     (case pick_node nid (kb_nodes b) of
        None \<Rightarrow> (None, b)
      | Some (n, rest) \<Rightarrow> (Some n, decrement_subnet (b\<lparr>kb_nodes := rest\<rparr>) (ne_subnet n)))"

text \<open>\<open>get_mut\<close> with a change of the entry: the first node with the identifier is changed.\<close>

fun change_node :: "node_id \<Rightarrow> (node_entry \<Rightarrow> node_entry) \<Rightarrow> node_entry list \<Rightarrow> node_entry list" where
  "change_node nid f [] = []"
| "change_node nid f (n # ns) = (if ne_id n = nid then f n # ns else n # change_node nid f ns)"

subsection \<open>The table\<close>

record routing_table =
  rt_local_id :: node_id
  rt_buckets :: "k_bucket list"

definition rt_new :: "node_id \<Rightarrow> routing_table" where
  "rt_new local_id = \<lparr>rt_local_id = local_id, rt_buckets = replicate NUM_BUCKETS kb_new\<rparr>"

definition rt_bucket :: "routing_table \<Rightarrow> nat \<Rightarrow> dht_error + k_bucket" where
  "rt_bucket t i = (if i < length (rt_buckets t) then Inr (rt_buckets t ! i) else Inl (BucketIndexOutOfRange i))"

definition set_bucket :: "routing_table \<Rightarrow> nat \<Rightarrow> k_bucket \<Rightarrow> routing_table" where
  "set_bucket t i b = t\<lparr>rt_buckets := (rt_buckets t)[i := b]\<rparr>"

definition rt_update :: "nat \<Rightarrow> routing_table \<Rightarrow> node_id \<Rightarrow> socket_addr \<Rightarrow> (dht_error + node_entry option) \<times> routing_table" where
  "rt_update now t nid addr =
     (if nid = rt_local_id t then (Inl SelfLookup, t)
      else case bucket_index (rt_local_id t) nid of
             None \<Rightarrow> (Inl SelfLookup, t)
           | Some i \<Rightarrow>
               (case rt_bucket t i of
                  Inl e \<Rightarrow> (Inl e, t)
                | Inr b \<Rightarrow>
                    (case kb_update now b (ne_new now nid addr) of
                       (Success, b') \<Rightarrow> (Inr None, set_bucket t i b')
                     | (PingRequired oldest, b') \<Rightarrow> (Inr (Some oldest), set_bucket t i b')
                     | (SubnetLimitExceeded subnet _, b') \<Rightarrow>
                         (Inl (SubnetLimit subnet MAX_NODES_PER_SUBNET), set_bucket t i b'))))"

definition rt_remove :: "routing_table \<Rightarrow> node_id \<Rightarrow> node_entry option \<times> routing_table" where
  "rt_remove t nid =
     (case bucket_index (rt_local_id t) nid of
        None \<Rightarrow> (None, t)
      | Some i \<Rightarrow>
          (case rt_bucket t i of
             Inl _ \<Rightarrow> (None, t)
           | Inr b \<Rightarrow> (case kb_remove b nid of (r, b') \<Rightarrow> (r, set_bucket t i b'))))"

definition all_nodes :: "routing_table \<Rightarrow> node_entry list" where
  "all_nodes t = concat (map kb_nodes (rt_buckets t))"

definition closest :: "routing_table \<Rightarrow> node_id \<Rightarrow> nat \<Rightarrow> node_entry list" where
  "closest t target cnt = take cnt (sort_key (\<lambda>n. xor_distance target (ne_id n)) (all_nodes t))"

definition rt_size :: "routing_table \<Rightarrow> nat" where
  "rt_size t = sum_list (map (length \<circ> kb_nodes) (rt_buckets t))"

definition stale_buckets :: "nat \<Rightarrow> routing_table \<Rightarrow> nat list" where
  "stale_buckets now t =
     map fst (filter (\<lambda>(i, b). kb_nodes b \<noteq> [] \<and> list_all (ne_is_stale now) (kb_nodes b)) (enumerate 0 (rt_buckets t)))"

definition change_in_table :: "routing_table \<Rightarrow> node_id \<Rightarrow> (node_entry \<Rightarrow> node_entry) \<Rightarrow> routing_table" where
  "change_in_table t nid f =
     (case bucket_index (rt_local_id t) nid of
        None \<Rightarrow> t
      | Some i \<Rightarrow>
          (case rt_bucket t i of
             Inl _ \<Rightarrow> t
           | Inr b \<Rightarrow> set_bucket t i (b\<lparr>kb_nodes := change_node nid f (kb_nodes b)\<rparr>)))"

definition rt_record_failure :: "routing_table \<Rightarrow> node_id \<Rightarrow> routing_table" where
  "rt_record_failure t nid = change_in_table t nid ne_record_failure"

definition on_response :: "nat \<Rightarrow> routing_table \<Rightarrow> node_id \<Rightarrow> routing_table" where
  "on_response now t nid = change_in_table t nid (ne_touch now)"

definition non_empty_buckets :: "routing_table \<Rightarrow> nat list" where
  "non_empty_buckets t = map fst (filter (\<lambda>(i, b). kb_nodes b \<noteq> []) (enumerate 0 (rt_buckets t)))"

end
