(* ===== verification/Dht_Store.thy ===== *)
theory Dht_Store
  imports Dht_Table "HOL-Library.AList"
begin

text \<open>
  The provider records (\<open>src/dht/provider_store.rs\<close>) and the limiter of STORE requests
  (\<open>src/dht/store_rate_limiter.rs\<close>). A \<open>HashMap\<close> is an association list in the order of its
  iteration; an instant is a number of nanoseconds.
\<close>

definition PROVIDER_TTL_SECS :: nat where "PROVIDER_TTL_SECS = 3600"
definition PROVIDER_REFRESH_SECS :: nat where "PROVIDER_REFRESH_SECS = 2700"
definition MAX_PROVIDERS :: nat where "MAX_PROVIDERS = 20"
definition MAX_STORES_PER_SENDER_PER_MIN :: u32 where "MAX_STORES_PER_SENDER_PER_MIN = 60"
definition MAX_PROVIDERS_PER_SENDER :: nat where "MAX_PROVIDERS_PER_SENDER = 100"
definition STORE_RATE_LIMITER_CLEANUP_SECS :: nat where "STORE_RATE_LIMITER_CLEANUP_SECS = 300"

subsection \<open>Provider records\<close>

record provider_record =
  pr_node_id :: node_id
  pr_addr :: socket_addr
  pr_timestamp :: nat
  pr_public_key :: bytes
  pr_signature :: bytes

definition pr_new :: "nat \<Rightarrow> node_id \<Rightarrow> socket_addr \<Rightarrow> bytes \<Rightarrow> bytes \<Rightarrow> provider_record" where
  "pr_new now node addr public_key sig =
     \<lparr>pr_node_id = node, pr_addr = addr, pr_timestamp = now, pr_public_key = public_key, pr_signature = sig\<rparr>"

definition u16_be :: "16 word \<Rightarrow> bytes" where
  "u16_be w = be_bytes 2 (unat w)"

text \<open>An address on the wire: its kind, its octets and its port.\<close>

definition addr_bytes :: "socket_addr \<Rightarrow> bytes" where
  "addr_bytes addr =
     (case sa_ip addr of V4 octets \<Rightarrow> 4 # octets | V6 octets \<Rightarrow> 6 # octets) @ u16_be (sa_port addr)"

definition provider_signing_message :: "hash32 \<Rightarrow> node_id \<Rightarrow> socket_addr \<Rightarrow> bytes" where
  "provider_signing_message content_hash node addr =
     string_bytes ''PROVIDER_RECORD'' @ content_hash @ node @ addr_bytes addr"

definition pr_is_expired :: "nat \<Rightarrow> provider_record \<Rightarrow> bool" where
  "pr_is_expired now p \<longleftrightarrow> now - pr_timestamp p > nanos PROVIDER_TTL_SECS"

definition pr_refresh :: "nat \<Rightarrow> provider_record \<Rightarrow> provider_record" where
  "pr_refresh now p = p\<lparr>pr_timestamp := now\<rparr>"

definition pr_age_secs :: "nat \<Rightarrow> provider_record \<Rightarrow> nat" where
  "pr_age_secs now p = (now - pr_timestamp p) div 1000000000"

record provider_store =
  ps_providers :: "(hash32 \<times> provider_record list) list"
  ps_local_content :: "(hash32 \<times> nat) list"

definition ps_new :: provider_store where
  "ps_new = \<lparr>ps_providers = [], ps_local_content = []\<rparr>"

definition providers_of :: "provider_store \<Rightarrow> hash32 \<Rightarrow> provider_record list" where
  "providers_of s c = (case map_of (ps_providers s) c of Some ps \<Rightarrow> ps | None \<Rightarrow> [])"

text \<open>The first record of the node is refreshed.\<close>

fun refresh_first :: "nat \<Rightarrow> node_id \<Rightarrow> provider_record list \<Rightarrow> provider_record list" where
  "refresh_first now i [] = []"
| "refresh_first now i (p # ps) = (if pr_node_id p = i then pr_refresh now p # ps else p # refresh_first now i ps)"

text \<open>\<open>max_by_key\<close> over the ages: of several greatest, the last.\<close>

definition oldest_step :: "nat \<Rightarrow> (nat \<times> nat) option \<Rightarrow> nat \<times> provider_record \<Rightarrow> (nat \<times> nat) option" where
  "oldest_step now best e =
     (case e of (i, p) \<Rightarrow>
        (case best of
           None \<Rightarrow> Some (i, pr_age_secs now p)
         | Some (j, age) \<Rightarrow> if pr_age_secs now p \<ge> age then Some (i, pr_age_secs now p) else Some (j, age)))"

definition oldest_idx :: "nat \<Rightarrow> provider_record list \<Rightarrow> nat option" where
  "oldest_idx now ps = map_option fst (foldl (oldest_step now) None (enumerate 0 ps))"

definition insert_provider :: "nat \<Rightarrow> provider_record list \<Rightarrow> provider_record \<Rightarrow> provider_record list" where
  "insert_provider now ps r =
     (if \<exists>p \<in> set ps. pr_node_id p = pr_node_id r then refresh_first now (pr_node_id r) ps
      else
        let live = filter (\<lambda>p. \<not> pr_is_expired now p) ps
        in if length live < MAX_PROVIDERS then live @ [r]
           else case oldest_idx now live of None \<Rightarrow> live | Some i \<Rightarrow> live[i := r])"

definition ps_add_provider :: "nat \<Rightarrow> provider_store \<Rightarrow> hash32 \<Rightarrow> provider_record \<Rightarrow> provider_store" where
  "ps_add_provider now s c r =
     s\<lparr>ps_providers := AList.update c (insert_provider now (providers_of s c) r) (ps_providers s)\<rparr>"

definition get_providers :: "nat \<Rightarrow> provider_store \<Rightarrow> hash32 \<Rightarrow> nat \<Rightarrow> provider_record list" where
  "get_providers now s c limit = take limit (filter (\<lambda>p. \<not> pr_is_expired now p) (providers_of s c))"

definition has_providers :: "nat \<Rightarrow> provider_store \<Rightarrow> hash32 \<Rightarrow> bool" where
  "has_providers now s c \<longleftrightarrow> (\<exists>p \<in> set (providers_of s c). \<not> pr_is_expired now p)"

definition remove_provider :: "provider_store \<Rightarrow> hash32 \<Rightarrow> node_id \<Rightarrow> provider_store" where
  "remove_provider s c i =
     (case map_of (ps_providers s) c of
        None \<Rightarrow> s
      | Some ps \<Rightarrow>
          let kept = filter (\<lambda>p. pr_node_id p \<noteq> i) ps
          in s\<lparr>ps_providers := (if kept = [] then AList.delete c (ps_providers s) else AList.update c kept (ps_providers s))\<rparr>)"

definition ps_add_local :: "nat \<Rightarrow> provider_store \<Rightarrow> hash32 \<Rightarrow> provider_store" where
  "ps_add_local now s c = s\<lparr>ps_local_content := AList.update c now (ps_local_content s)\<rparr>"

definition ps_remove_local :: "provider_store \<Rightarrow> hash32 \<Rightarrow> provider_store" where
  "ps_remove_local s c = s\<lparr>ps_local_content := AList.delete c (ps_local_content s)\<rparr>"

definition is_local_content :: "provider_store \<Rightarrow> hash32 \<Rightarrow> bool" where
  "is_local_content s c \<longleftrightarrow> map_of (ps_local_content s) c \<noteq> None"

definition ps_needing_refresh :: "nat \<Rightarrow> provider_store \<Rightarrow> nat \<Rightarrow> hash32 list" where
  "ps_needing_refresh now s refresh_after =
     map fst (filter (\<lambda>(_, announced_at). now - announced_at > refresh_after) (ps_local_content s))"

definition refresh_local_content :: "nat \<Rightarrow> provider_store \<Rightarrow> hash32 \<Rightarrow> provider_store" where
  "refresh_local_content now s c =
     (case map_of (ps_local_content s) c of
        None \<Rightarrow> s
      | Some _ \<Rightarrow> s\<lparr>ps_local_content := AList.update c now (ps_local_content s)\<rparr>)"

definition cleanup_expired :: "nat \<Rightarrow> provider_store \<Rightarrow> nat \<times> provider_store" where
  "cleanup_expired now s =
     (let live = (\<lambda>ps. filter (\<lambda>p. \<not> pr_is_expired now p) ps)
      in (sum_list (map (\<lambda>(_, ps). length ps - length (live ps)) (ps_providers s)),
          s\<lparr>ps_providers := filter (\<lambda>(_, ps). ps \<noteq> []) (map (\<lambda>(c, ps). (c, live ps)) (ps_providers s))\<rparr>))"

definition total_providers :: "provider_store \<Rightarrow> nat" where
  "total_providers s = sum_list (map (length \<circ> snd) (ps_providers s))"

subsection \<open>The limiter of STORE requests\<close>

record sender_rate_entry =
  sr_request_times :: "nat list"
  sr_provider_count :: nat

definition sr_new :: sender_rate_entry where
  "sr_new = \<lparr>sr_request_times = [], sr_provider_count = 0\<rparr>"

text \<open>A request is kept while \<open>t > now - 60 s\<close>; instants before the origin are representable.\<close>

definition prune_old_requests :: "nat \<Rightarrow> sender_rate_entry \<Rightarrow> sender_rate_entry" where
  "prune_old_requests now e = e\<lparr>sr_request_times := filter (\<lambda>t. t + nanos 60 > now) (sr_request_times e)\<rparr>"

definition can_request :: "nat \<Rightarrow> sender_rate_entry \<Rightarrow> u32 \<Rightarrow> bool \<times> sender_rate_entry" where
  "can_request now e limit_per_min =
     (let e' = prune_old_requests now e
      in ((word_of_nat (length (sr_request_times e')) :: u32) < limit_per_min, e'))"

definition record_request :: "nat \<Rightarrow> sender_rate_entry \<Rightarrow> sender_rate_entry" where
  "record_request now e = e\<lparr>sr_request_times := sr_request_times e @ [now]\<rparr>"

record store_rate_limiter =
  rl_senders :: "(node_id \<times> sender_rate_entry) list"
  rl_last_cleanup :: nat
  rl_max_per_min :: u32
  rl_max_providers :: nat

datatype store_check_result = Allowed | RateLimited u32 | ProviderLimitExceeded nat

definition rl_new :: "nat \<Rightarrow> store_rate_limiter" where
  "rl_new now = \<lparr>rl_senders = [], rl_last_cleanup = now, rl_max_per_min = MAX_STORES_PER_SENDER_PER_MIN,
     rl_max_providers = MAX_PROVIDERS_PER_SENDER\<rparr>"

definition maybe_cleanup :: "nat \<Rightarrow> store_rate_limiter \<Rightarrow> store_rate_limiter" where
  "maybe_cleanup now l =
     (if now - rl_last_cleanup l < nanos STORE_RATE_LIMITER_CLEANUP_SECS then l
      else l\<lparr>rl_last_cleanup := now,
             rl_senders := filter (\<lambda>(_, e). sr_request_times e \<noteq> [] \<or> sr_provider_count e > 0)
               (map (\<lambda>(i, e). (i, prune_old_requests now e)) (rl_senders l))\<rparr>)"

definition sender_entry :: "store_rate_limiter \<Rightarrow> node_id \<Rightarrow> sender_rate_entry" where
  "sender_entry l i = (case map_of (rl_senders l) i of Some e \<Rightarrow> e | None \<Rightarrow> sr_new)"

definition check_store_allowed :: "nat \<Rightarrow> store_rate_limiter \<Rightarrow> node_id \<Rightarrow> store_check_result \<times> store_rate_limiter" where
  "check_store_allowed now l sender =
     (let l1 = maybe_cleanup now l;
          (ok, e) = can_request now (sender_entry l1 sender) (rl_max_per_min l1);
          l2 = l1\<lparr>rl_senders := AList.update sender e (rl_senders l1)\<rparr>
      in (if \<not> ok then RateLimited (rl_max_per_min l1)
          else if sr_provider_count e \<ge> rl_max_providers l1 then ProviderLimitExceeded (rl_max_providers l1)
          else Allowed, l2))"

definition record_store :: "nat \<Rightarrow> store_rate_limiter \<Rightarrow> node_id \<Rightarrow> bool \<Rightarrow> store_rate_limiter" where
  "record_store now l sender is_new_provider =
     (let e = record_request now (sender_entry l sender);
          e' = (if is_new_provider then e\<lparr>sr_provider_count := sr_provider_count e + 1\<rparr> else e)
      in l\<lparr>rl_senders := AList.update sender e' (rl_senders l)\<rparr>)"

definition provider_removed :: "store_rate_limiter \<Rightarrow> node_id \<Rightarrow> store_rate_limiter" where
  "provider_removed l sender =
     (case map_of (rl_senders l) sender of
        None \<Rightarrow> l
      | Some e \<Rightarrow> l\<lparr>rl_senders := AList.update sender (e\<lparr>sr_provider_count := sr_provider_count e - 1\<rparr>) (rl_senders l)\<rparr>)"

definition provider_count :: "store_rate_limiter \<Rightarrow> node_id \<Rightarrow> nat" where
  "provider_count l sender = sr_provider_count (sender_entry l sender)"

definition request_count :: "store_rate_limiter \<Rightarrow> node_id \<Rightarrow> nat" where
  "request_count l sender = length (sr_request_times (sender_entry l sender))"

subsection \<open>The records of the store\<close>

definition records_ok :: "provider_record list \<Rightarrow> bool" where
  "records_ok ps \<longleftrightarrow> length ps \<le> MAX_PROVIDERS \<and> distinct (map pr_node_id ps)"

definition store_ok :: "provider_store \<Rightarrow> bool" where
  "store_ok s \<longleftrightarrow> distinct (map fst (ps_providers s)) \<and> (\<forall>c. records_ok (providers_of s c))"

lemma refresh_first_ids: "map pr_node_id (refresh_first now i ps) = map pr_node_id ps"
  by (induction ps) (simp_all add: pr_refresh_def)

lemma oldest_idx_less: "oldest_idx now ps = Some i \<Longrightarrow> i < length ps"
proof -
  have fold: "\<forall>(j, a) \<in> set_option (foldl (oldest_step now) b es). j < n"
    if "\<forall>(j, a) \<in> set_option b. j < n" "\<forall>(j, p) \<in> set es. j < n" for b es n
    using that
  proof (induction es arbitrary: b)
    case (Cons e es)
    have "\<forall>(j, a) \<in> set_option (oldest_step now b e). j < n"
      using Cons.prems by (auto simp: oldest_step_def split: option.splits prod.splits if_splits)
    with Cons show ?case by simp
  qed simp
  have "\<forall>(j, a) \<in> set_option (foldl (oldest_step now) None (enumerate 0 ps)). j < length ps"
    by (rule fold) (auto simp: in_set_enumerate_eq)
  then show "oldest_idx now ps = Some i \<Longrightarrow> i < length ps" by (auto simp: oldest_idx_def)
qed

lemma oldest_idx_None: "oldest_idx now ps = None \<longleftrightarrow> ps = []"
proof -
  have "foldl (oldest_step now) b es \<noteq> None" if "b \<noteq> None \<or> es \<noteq> []" for b es
    using that by (induction es arbitrary: b) (auto simp: oldest_step_def split: option.splits prod.splits)
  from this [of None "enumerate 0 ps"] show ?thesis by (cases ps) (auto simp: oldest_idx_def)
qed

lemma records_ok_insert:
  assumes "records_ok ps"
  shows "records_ok (insert_provider now ps r)" "pr_node_id r \<in> pr_node_id ` set (insert_provider now ps r)"
proof -
  let ?live = "filter (\<lambda>p. \<not> pr_is_expired now p) ps"
  have live: "records_ok ?live"
    using assms le_trans [OF length_filter_le] by (auto simp: records_ok_def distinct_map_filter)
  have "records_ok (insert_provider now ps r) \<and> pr_node_id r \<in> pr_node_id ` set (insert_provider now ps r)"
  proof (cases "\<exists>p \<in> set ps. pr_node_id p = pr_node_id r")
    case True
    then have eq: "insert_provider now ps r = refresh_first now (pr_node_id r) ps" by (simp add: insert_provider_def)
    note ids = refresh_first_ids [of now "pr_node_id r" ps]
    have "length (refresh_first now (pr_node_id r) ps) = length ps" using arg_cong [OF ids, of length] by simp
    moreover have "pr_node_id ` set (refresh_first now (pr_node_id r) ps) = pr_node_id ` set ps"
      using arg_cong [OF ids, of set] by simp
    moreover have "pr_node_id r \<in> pr_node_id ` set ps" using True by (metis imageI)
    ultimately show ?thesis using assms ids by (simp add: eq records_ok_def)
  next
    case new: False
    then have notin: "pr_node_id r \<notin> pr_node_id ` set ?live" by auto
    show ?thesis
    proof (cases "length ?live < MAX_PROVIDERS")
      case True
      then have "insert_provider now ps r = ?live @ [r]" using new by (auto simp: insert_provider_def Let_def)
      with True live notin show ?thesis by (simp add: records_ok_def)
    next
      case False
      then have "?live \<noteq> []" by (auto simp: MAX_PROVIDERS_def)
      then obtain i where i: "oldest_idx now ?live = Some i" using oldest_idx_None by fastforce
      have "insert_provider now ps r = ?live[i := r]" using new False i by (auto simp: insert_provider_def Let_def)
      moreover have "distinct (map pr_node_id (?live[i := r]))"
        using live notin unfolding map_update records_ok_def by (intro distinct_list_update) auto
      ultimately show ?thesis
        using live oldest_idx_less [OF i] by (auto simp: records_ok_def intro!: image_eqI set_update_memI)
    qed
  qed
  then show "records_ok (insert_provider now ps r)" "pr_node_id r \<in> pr_node_id ` set (insert_provider now ps r)" by blast+
qed

lemma insert_provider_mem:
  assumes "p \<in> set (insert_provider now ps r)" and "\<forall>q \<in> set ps. pr_node_id q \<noteq> pr_node_id r"
  shows "p = r \<or> p \<in> set ps"
proof -
  let ?live = "filter (\<lambda>p. \<not> pr_is_expired now p) ps"
  have "set (?live[i := r]) \<subseteq> insert r (set ps)" for i
    using set_update_subset_insert [of ?live i r] by auto
  with assms show ?thesis by (auto simp: insert_provider_def Let_def split: if_splits option.splits)
qed

lemma insert_provider_ids: "pr_node_id ` set (insert_provider now ps r) \<subseteq> insert (pr_node_id r) (pr_node_id ` set ps)"
proof (cases "\<exists>p \<in> set ps. pr_node_id p = pr_node_id r")
  case True
  then show ?thesis using arg_cong [OF refresh_first_ids [of now "pr_node_id r" ps], of set] by (auto simp: insert_provider_def)
next
  case False
  then show ?thesis using insert_provider_mem [of _ now ps r] by blast
qed

lemma providers_of_add [simp]:
  "providers_of (ps_add_provider now s c r) c' = (if c' = c then insert_provider now (providers_of s c) r else providers_of s c')"
  by (simp add: ps_add_provider_def providers_of_def AList.update_conv')

lemma store_ok_add: "store_ok s \<Longrightarrow> store_ok (ps_add_provider now s c r)"
  using records_ok_insert(1) by (simp add: store_ok_def) (simp add: ps_add_provider_def AList.distinct_update)


lemma providers_of_local [simp]:
  "providers_of (ps_add_local now s c) = providers_of s" "providers_of (ps_remove_local s c) = providers_of s"
  "providers_of (refresh_local_content now s c) = providers_of s"
  by (auto simp: providers_of_def ps_add_local_def ps_remove_local_def refresh_local_content_def fun_eq_iff split: option.splits)

lemma store_ok_local:
  "store_ok s \<Longrightarrow> store_ok (ps_add_local now s c)" "store_ok s \<Longrightarrow> store_ok (ps_remove_local s c)"
  "store_ok s \<Longrightarrow> store_ok (refresh_local_content now s c)"
  by (simp_all add: store_ok_def) (simp_all add: ps_add_local_def ps_remove_local_def refresh_local_content_def split: option.splits)

lemma records_ok_filter: "records_ok ps \<Longrightarrow> records_ok (filter P ps)"
  using le_trans [OF length_filter_le] by (auto simp: records_ok_def distinct_map_filter)

lemma providers_of_remove:
  "store_ok s \<Longrightarrow> providers_of (remove_provider s c i) c' = (if c' = c then filter (\<lambda>p. pr_node_id p \<noteq> i) (providers_of s c) else providers_of s c')"
  by (cases "map_of (ps_providers s) c")
    (auto simp: providers_of_def remove_provider_def Let_def AList.update_conv' AList.delete_conv')

lemma store_ok_remove: "store_ok s \<Longrightarrow> store_ok (remove_provider s c i)"
proof -
  assume ok: "store_ok s"
  then have "records_ok (providers_of (remove_provider s c i) c')" for c'
    using providers_of_remove [OF ok] by (simp add: store_ok_def records_ok_filter)
  moreover have "distinct (map fst (ps_providers (remove_provider s c i)))"
    using ok by (auto simp: store_ok_def remove_provider_def Let_def AList.distinct_update AList.distinct_delete split: option.splits)
  ultimately show ?thesis by (simp add: store_ok_def)
qed

lemma map_of_filter_map:
  "distinct (map fst m) \<Longrightarrow> map_of (filter (\<lambda>(_, v). P v) (map (\<lambda>(k, v). (k, f v)) m)) k =
     (case map_of m k of Some v \<Rightarrow> if P (f v) then Some (f v) else None | None \<Rightarrow> None)"
proof (induction m)
  case (Cons e m)
  obtain a v where e: "e = (a, v)" by fastforce
  have "map_of m a = None" using Cons.prems e by (simp add: map_of_eq_None_iff)
  then show ?case using Cons e by (auto split: option.splits)
qed simp

lemma distinct_filter_map:
  "distinct (map fst m) \<Longrightarrow> distinct (map fst (filter (\<lambda>(_, v). P v) (map (\<lambda>(k, v). (k, f v)) m)))"
proof (induction m)
  case (Cons e m)
  then show ?case by (cases e) force
qed simp

lemma providers_of_cleanup:
  assumes "store_ok s"
  shows "providers_of (snd (cleanup_expired now s)) c = filter (\<lambda>p. \<not> pr_is_expired now p) (providers_of s c)"
  using assms map_of_filter_map [of "ps_providers s" "\<lambda>ps. ps \<noteq> []" "filter (\<lambda>p. \<not> pr_is_expired now p)" c]
  by (auto simp: providers_of_def cleanup_expired_def Let_def store_ok_def split: option.splits)

lemma store_ok_cleanup: "store_ok s \<Longrightarrow> store_ok (snd (cleanup_expired now s))"
  using providers_of_cleanup [of s now] distinct_filter_map [of "ps_providers s" "\<lambda>ps. ps \<noteq> []"]
  by (simp add: store_ok_def records_ok_filter) (simp add: cleanup_expired_def Let_def)

subsection \<open>The limits of a sender\<close>

definition limiter_ok :: "store_rate_limiter \<Rightarrow> bool" where
  "limiter_ok l \<longleftrightarrow> distinct (map fst (rl_senders l))"

abbreviation in_minute :: "nat \<Rightarrow> nat \<Rightarrow> bool" where
  "in_minute now t \<equiv> t + nanos 60 > now"

lemma limiter_ok_ops:
  "limiter_ok (rl_new now)"
  "limiter_ok l \<Longrightarrow> limiter_ok (maybe_cleanup now l)"
  "limiter_ok l \<Longrightarrow> limiter_ok (snd (check_store_allowed now l i))"
  "limiter_ok l \<Longrightarrow> limiter_ok (record_store now l i new)"
proof -
  show cleanup: "limiter_ok l \<Longrightarrow> limiter_ok (maybe_cleanup now l)" for l
    using distinct_filter_map [of "rl_senders l" "\<lambda>e. sr_request_times e \<noteq> [] \<or> sr_provider_count e > 0" "prune_old_requests now"]
    by (simp add: limiter_ok_def maybe_cleanup_def)
  show "limiter_ok l \<Longrightarrow> limiter_ok (snd (check_store_allowed now l i))"
    using cleanup [of l] by (simp add: limiter_ok_def check_store_allowed_def Let_def AList.distinct_update split: prod.split)
qed (simp_all add: limiter_ok_def rl_new_def record_store_def Let_def AList.distinct_update)

lemma sender_entry_cleanup:
  assumes "limiter_ok l"
  shows "sr_provider_count (sender_entry (maybe_cleanup now l) i) = sr_provider_count (sender_entry l i)"
    "filter (in_minute now) (sr_request_times (sender_entry (maybe_cleanup now l) i)) =
       filter (in_minute now) (sr_request_times (sender_entry l i))"
  using assms map_of_filter_map [of "rl_senders l" "\<lambda>e. sr_request_times e \<noteq> [] \<or> sr_provider_count e > 0" "prune_old_requests now" i]
  by (auto simp: sender_entry_def maybe_cleanup_def limiter_ok_def prune_old_requests_def sr_new_def split: option.splits)

text \<open>After a check the entry of the sender holds its requests of the last minute.\<close>

lemma check_entry:
  assumes "limiter_ok l"
  shows "sr_provider_count (sender_entry (snd (check_store_allowed now l i)) j) = sr_provider_count (sender_entry l j)"
    "filter (in_minute now) (sr_request_times (sender_entry (snd (check_store_allowed now l i)) j)) =
       filter (in_minute now) (sr_request_times (sender_entry l j))"
    "sr_request_times (sender_entry (snd (check_store_allowed now l i)) i) = filter (in_minute now) (sr_request_times (sender_entry l i))"
proof -
  have u: "sender_entry (l\<lparr>rl_senders := AList.update i e (rl_senders l)\<rparr>) j = (if j = i then e else sender_entry l j)" for l e j
    by (simp add: sender_entry_def AList.update_conv')
  note c = sender_entry_cleanup [OF assms, of now]
  show "sr_provider_count (sender_entry (snd (check_store_allowed now l i)) j) = sr_provider_count (sender_entry l j)"
    using c(1) by (simp add: check_store_allowed_def Let_def can_request_def u prune_old_requests_def)
  show "filter (in_minute now) (sr_request_times (sender_entry (snd (check_store_allowed now l i)) j)) =
       filter (in_minute now) (sr_request_times (sender_entry l j))"
    using c(2) by (simp add: check_store_allowed_def Let_def can_request_def u prune_old_requests_def)
  show "sr_request_times (sender_entry (snd (check_store_allowed now l i)) i) = filter (in_minute now) (sr_request_times (sender_entry l i))"
    using c(2) [of i] by (simp add: check_store_allowed_def Let_def can_request_def u prune_old_requests_def)
qed

lemma check_result:
  assumes "limiter_ok l"
  shows "fst (check_store_allowed now l i) =
    (if \<not> (word_of_nat (length (filter (in_minute now) (sr_request_times (sender_entry l i)))) < rl_max_per_min l)
     then RateLimited (rl_max_per_min l)
     else if provider_count l i \<ge> rl_max_providers l then ProviderLimitExceeded (rl_max_providers l) else Allowed)"
proof -
  note c = sender_entry_cleanup [OF assms, of now i]
  have "rl_max_per_min (maybe_cleanup now l) = rl_max_per_min l" "rl_max_providers (maybe_cleanup now l) = rl_max_providers l"
    by (simp_all add: maybe_cleanup_def)
  with c show ?thesis
    by (simp add: check_store_allowed_def Let_def can_request_def prune_old_requests_def provider_count_def)
qed

lemma record_store_entry:
  "sender_entry (record_store now l i new) j =
     (if j = i then \<lparr>sr_request_times = sr_request_times (sender_entry l i) @ [now],
                     sr_provider_count = sr_provider_count (sender_entry l i) + (if new then 1 else 0)\<rparr>
      else sender_entry l j)"
  by (simp add: record_store_def Let_def sender_entry_def AList.update_conv' record_request_def)

lemma limiter_limits:
  "rl_max_providers (snd (check_store_allowed now l i)) = rl_max_providers l"
  "rl_max_per_min (snd (check_store_allowed now l i)) = rl_max_per_min l"
  "rl_max_providers (record_store now l i new) = rl_max_providers l"
  "rl_max_per_min (record_store now l i new) = rl_max_per_min l"
  by (simp_all add: check_store_allowed_def record_store_def Let_def maybe_cleanup_def split: prod.split)

end
