(* ===== verification/Dht_Message.thy ===== *)
theory Dht_Message
  imports Dht_Store
begin

text \<open>
  Messages of the distributed hash table and their wire format (\<open>src/dht/messages.rs\<close>), with the
  envelope that authenticates a sender. The texts of errors are left out.
\<close>

definition MESSAGE_MAX_AGE_MS :: u64 where "MESSAGE_MAX_AGE_MS = 300000"

datatype dht_message_type =
    PingType | PongType | FindNodeType | NodesType | FindValueType | ProvidersType | StoreType | StoreAckType

definition type_to_byte :: "dht_message_type \<Rightarrow> byte" where
  "type_to_byte ty =
     (case ty of PingType \<Rightarrow> 0x80 | PongType \<Rightarrow> 0x81 | FindNodeType \<Rightarrow> 0x82 | NodesType \<Rightarrow> 0x83
      | FindValueType \<Rightarrow> 0x84 | ProvidersType \<Rightarrow> 0x85 | StoreType \<Rightarrow> 0x86 | StoreAckType \<Rightarrow> 0x87)"

definition type_from_byte :: "byte \<Rightarrow> dht_error + dht_message_type" where
  "type_from_byte b =
     (if b = 0x80 then Inr PingType else if b = 0x81 then Inr PongType
      else if b = 0x82 then Inr FindNodeType else if b = 0x83 then Inr NodesType
      else if b = 0x84 then Inr FindValueType else if b = 0x85 then Inr ProvidersType
      else if b = 0x86 then Inr StoreType else if b = 0x87 then Inr StoreAckType
      else Inl (InvalidDhtMessage b))"

record node_info =
  ni_id :: node_id
  ni_addr :: socket_addr

record signed_provider_info =
  sp_id :: node_id
  sp_addr :: socket_addr
  sp_public_key :: bytes
  sp_signature :: bytes

datatype dht_message =
    Ping u64
  | Pong u64
  | FindNode node_id
  | Nodes "node_info list"
  | FindValue hash32
  | Providers hash32 "signed_provider_info list" bool
  | Store hash32 u32 bytes bytes
  | StoreAck hash32 bool

definition node_to_bytes :: "node_info \<Rightarrow> bytes" where
  "node_to_bytes n = ni_id n @ addr_bytes (ni_addr n)"

definition u16_of_be :: "bytes \<Rightarrow> 16 word" where
  "u16_of_be bs = word_of_nat (be_nat bs)"

definition node_from_bytes :: "bytes \<Rightarrow> dht_error + (node_info \<times> nat)" where
  "node_from_bytes data =
     (if length data < 39 then Inl SerializationError
      else if data ! 32 = 4
      then Inr (\<lparr>ni_id = take 32 data, ni_addr = \<lparr>sa_ip = V4 (byte_slice data 33 4), sa_port = u16_of_be (byte_slice data 37 2)\<rparr>\<rparr>, 39)
      else if data ! 32 = 6
      then if length data < 51 then Inl SerializationError
           else Inr (\<lparr>ni_id = take 32 data, ni_addr = \<lparr>sa_ip = V6 (byte_slice data 33 16), sa_port = u16_of_be (byte_slice data 49 2)\<rparr>\<rparr>, 51)
      else Inl SerializationError)"

definition provider_to_bytes :: "signed_provider_info \<Rightarrow> bytes" where
  "provider_to_bytes p = sp_id p @ addr_bytes (sp_addr p) @ sp_public_key p @ sp_signature p"

definition provider_from_bytes :: "bytes \<Rightarrow> dht_error + (signed_provider_info \<times> nat)" where
  "provider_from_bytes data =
     (if length data < 135 then Inl SerializationError
      else
        rbind (if data ! 32 = 4
               then Inr (\<lparr>sa_ip = V4 (byte_slice data 33 4), sa_port = u16_of_be (byte_slice data 37 2)\<rparr>, 39)
               else if data ! 32 = 6
               then if length data < 147 then Inl SerializationError
                    else Inr (\<lparr>sa_ip = V6 (byte_slice data 33 16), sa_port = u16_of_be (byte_slice data 49 2)\<rparr>, 51)
               else Inl SerializationError)
          (\<lambda>(addr, addr_end).
             Inr (\<lparr>sp_id = take 32 data, sp_addr = addr, sp_public_key = byte_slice data addr_end 32,
                   sp_signature = byte_slice data (addr_end + 32) 64\<rparr>, addr_end + 96)))"

definition msg_type :: "dht_message \<Rightarrow> dht_message_type" where
  "msg_type m =
     (case m of Ping _ \<Rightarrow> PingType | Pong _ \<Rightarrow> PongType | FindNode _ \<Rightarrow> FindNodeType | Nodes _ \<Rightarrow> NodesType
      | FindValue _ \<Rightarrow> FindValueType | Providers _ _ _ \<Rightarrow> ProvidersType | Store _ _ _ _ \<Rightarrow> StoreType
      | StoreAck _ _ \<Rightarrow> StoreAckType)"

definition flag_byte :: "bool \<Rightarrow> byte" where
  "flag_byte b = (if b then 1 else 0)"

definition message_to_bytes :: "dht_message \<Rightarrow> bytes" where
  "message_to_bytes m =
     (case m of
        Ping nonce \<Rightarrow> u64_be nonce
      | Pong nonce \<Rightarrow> u64_be nonce
      | FindNode target \<Rightarrow> target
      | Nodes nodes \<Rightarrow> word_of_nat (length nodes) # concat (map node_to_bytes nodes)
      | FindValue content_hash \<Rightarrow> content_hash
      | Providers content_hash providers has_value \<Rightarrow>
          content_hash @ [flag_byte has_value, word_of_nat (length providers)] @ concat (map provider_to_bytes providers)
      | Store content_hash ttl public_key sig \<Rightarrow> content_hash @ u32_be ttl @ public_key @ sig
      | StoreAck content_hash accepted \<Rightarrow> content_hash @ [flag_byte accepted])"

text \<open>\<open>for _ in 0..count\<close>: each item is read from the rest of the data.\<close>

primrec parse_items :: "(bytes \<Rightarrow> dht_error + ('a \<times> nat)) \<Rightarrow> nat \<Rightarrow> bytes \<Rightarrow> dht_error + 'a list" where
  "parse_items item 0 data = Inr []"
| "parse_items item (Suc n) data =
     rbind (item data) (\<lambda>(x, consumed). rbind (parse_items item n (drop consumed data)) (\<lambda>xs. Inr (x # xs)))"

definition message_from_bytes :: "dht_message_type \<Rightarrow> bytes \<Rightarrow> dht_error + dht_message" where
  "message_from_bytes ty data =
     (case ty of
        PingType \<Rightarrow> if length data < 8 then Inl SerializationError else Inr (Ping (u64_of_be (take 8 data)))
      | PongType \<Rightarrow> if length data < 8 then Inl SerializationError else Inr (Pong (u64_of_be (take 8 data)))
      | FindNodeType \<Rightarrow> if length data < 32 then Inl SerializationError
                        else rbind (id_from_slice (take 32 data)) (\<lambda>target. Inr (FindNode target))
      | NodesType \<Rightarrow> if data = [] then Inl SerializationError
                     else rbind (parse_items node_from_bytes (unat (data ! 0)) (drop 1 data)) (\<lambda>nodes. Inr (Nodes nodes))
      | FindValueType \<Rightarrow> if length data < 32 then Inl SerializationError else Inr (FindValue (take 32 data))
      | ProvidersType \<Rightarrow> if length data < 34 then Inl SerializationError
                         else rbind (parse_items provider_from_bytes (unat (data ! 33)) (drop 34 data))
                                (\<lambda>providers. Inr (Providers (take 32 data) providers (data ! 32 \<noteq> 0)))
      | StoreType \<Rightarrow> if length data < 132 then Inl SerializationError
                     else Inr (Store (take 32 data) (u32_of_be (byte_slice data 32 4)) (byte_slice data 36 32) (byte_slice data 68 64))
      | StoreAckType \<Rightarrow> if length data < 33 then Inl SerializationError else Inr (StoreAck (take 32 data) (data ! 32 \<noteq> 0)))"

subsection \<open>The envelope\<close>

record authenticated_message =
  am_message :: dht_message
  am_sender_pubkey :: bytes
  am_timestamp :: u64
  am_signature :: bytes

definition dht_signing_message :: "dht_message_type \<Rightarrow> bytes \<Rightarrow> u64 \<Rightarrow> bytes" where
  "dht_signing_message ty payload timestamp =
     string_bytes ''DHT_MESSAGE_V1'' @ [type_to_byte ty] @ payload @ u64_be timestamp"

definition is_timestamp_valid :: "authenticated_message \<Rightarrow> u64 \<Rightarrow> bool" where
  "is_timestamp_valid a current_time_ms =
     (if am_timestamp a > current_time_ms + 300000 then False
      else if am_timestamp a + MESSAGE_MAX_AGE_MS < current_time_ms then False else True)"

definition auth_to_bytes :: "authenticated_message \<Rightarrow> bytes" where
  "auth_to_bytes a =
     (let payload = message_to_bytes (am_message a)
      in [type_to_byte (msg_type (am_message a))] @ u16_be (word_of_nat (length payload)) @ payload @
         am_sender_pubkey a @ u64_be (am_timestamp a) @ am_signature a)"

definition auth_from_bytes :: "bytes \<Rightarrow> dht_error + authenticated_message" where
  "auth_from_bytes data =
     (if length data < 107 then Inl SerializationError
      else
        rbind (type_from_byte (data ! 0)) (\<lambda>ty.
          let payload_len = unat (u16_of_be (byte_slice data 1 2)) in
          if length data < 3 + payload_len + 32 + 8 + 64 then Inl SerializationError
          else
            rbind (message_from_bytes ty (byte_slice data 3 payload_len)) (\<lambda>message.
              let offset = 3 + payload_len
              in Inr \<lparr>am_message = message, am_sender_pubkey = byte_slice data offset 32,
                      am_timestamp = u64_of_be (byte_slice data (offset + 32) 8),
                      am_signature = byte_slice data (offset + 40) 64\<rparr>)))"

definition get_signing_payload :: "authenticated_message \<Rightarrow> bytes" where
  "get_signing_payload a =
     dht_signing_message (msg_type (am_message a)) (message_to_bytes (am_message a)) (am_timestamp a)"

subsection \<open>Well-typed messages\<close>

text \<open>What the Rust types guarantee: the lengths of arrays.\<close>

definition typed_addr :: "socket_addr \<Rightarrow> bool" where
  "typed_addr a \<longleftrightarrow> (case sa_ip a of V4 octets \<Rightarrow> length octets = 4 | V6 octets \<Rightarrow> length octets = 16)"

definition typed_node :: "node_info \<Rightarrow> bool" where
  "typed_node n \<longleftrightarrow> is_hash (ni_id n) \<and> typed_addr (ni_addr n)"

definition typed_provider :: "signed_provider_info \<Rightarrow> bool" where
  "typed_provider p \<longleftrightarrow> is_hash (sp_id p) \<and> typed_addr (sp_addr p) \<and> is_hash (sp_public_key p) \<and> length (sp_signature p) = 64"

text \<open>Arrays of the right length, and lists that a count of one byte can carry.\<close>

definition typed_message :: "dht_message \<Rightarrow> bool" where
  "typed_message m =
     (case m of
        FindNode target \<Rightarrow> is_hash target
      | Nodes nodes \<Rightarrow> length nodes < 256 \<and> list_all typed_node nodes
      | FindValue c \<Rightarrow> is_hash c
      | Providers c providers _ \<Rightarrow> is_hash c \<and> length providers < 256 \<and> list_all typed_provider providers
      | Store c _ public_key sig \<Rightarrow> is_hash c \<and> is_hash public_key \<and> length sig = 64
      | StoreAck c _ \<Rightarrow> is_hash c
      | _ \<Rightarrow> True)"

definition typed_auth :: "authenticated_message \<Rightarrow> bool" where
  "typed_auth a \<longleftrightarrow> typed_message (am_message a) \<and> is_hash (am_sender_pubkey a) \<and> length (am_signature a) = 64 \<and>
     length (message_to_bytes (am_message a)) < 65536"

subsection \<open>Reading back what was written\<close>

lemma length_u16_be [simp, wire_len]: "length (u16_be w) = 2"
  by (simp add: u16_be_def)

lemma u16_of_be_be [simp, wire_rt]: "u16_of_be (u16_be w) = w"
proof -
  have "unat w < 2 ^ LENGTH(16)" by (rule unsigned_less)
  then have "unat w < 256 ^ 2" by simp
  then show ?thesis by (simp add: u16_of_be_def u16_be_def)
qed

lemma type_byte_roundtrip [simp]: "type_from_byte (type_to_byte ty) = Inr ty"
  by (cases ty) (simp_all add: type_from_byte_def type_to_byte_def)

lemma type_to_byte_inject [simp]: "type_to_byte a = type_to_byte b \<longleftrightarrow> a = b"
  by (metis type_byte_roundtrip sum.inject(2))

lemma flag_byte_nonzero [simp]: "flag_byte b \<noteq> 0 \<longleftrightarrow> b" "flag_byte b = 0 \<longleftrightarrow> \<not> b"
  by (simp_all add: flag_byte_def)

lemma node_roundtrip:
  assumes "typed_node n"
  shows "node_from_bytes (node_to_bytes n @ rest) = Inr (n, length (node_to_bytes n))"
proof -
  obtain i ip port where n: "n = \<lparr>ni_id = i, ni_addr = \<lparr>sa_ip = ip, sa_port = port\<rparr>\<rparr>"
    by (metis node_info.surjective old.unit.exhaust socket_addr.surjective)
  show ?thesis
  proof (cases ip)
    case (V4 o4)
    with assms n have "length i = 32" "length o4 = 4" by (simp_all add: typed_node_def typed_addr_def)
    then show ?thesis using V4 n
      by (simp add: node_from_bytes_def node_to_bytes_def addr_bytes_def nth_append)
  next
    case (V6 o6)
    with assms n have "length i = 32" "length o6 = 16" by (simp_all add: typed_node_def typed_addr_def)
    then show ?thesis using V6 n
      by (simp add: node_from_bytes_def node_to_bytes_def addr_bytes_def nth_append)
  qed
qed

lemma provider_roundtrip:
  assumes "typed_provider p"
  shows "provider_from_bytes (provider_to_bytes p @ rest) = Inr (p, length (provider_to_bytes p))"
proof -
  obtain i ip port k s where p: "p = \<lparr>sp_id = i, sp_addr = \<lparr>sa_ip = ip, sa_port = port\<rparr>, sp_public_key = k, sp_signature = s\<rparr>"
    by (metis signed_provider_info.surjective old.unit.exhaust socket_addr.surjective)
  show ?thesis
  proof (cases ip)
    case (V4 o4)
    with assms p have "length i = 32" "length o4 = 4" "length k = 32" "length s = 64"
      by (simp_all add: typed_provider_def typed_addr_def)
    then show ?thesis using V4 p
      by (simp add: provider_from_bytes_def provider_to_bytes_def addr_bytes_def nth_append)
  next
    case (V6 o6)
    with assms p have "length i = 32" "length o6 = 16" "length k = 32" "length s = 64"
      by (simp_all add: typed_provider_def typed_addr_def)
    then show ?thesis using V6 p
      by (simp add: provider_from_bytes_def provider_to_bytes_def addr_bytes_def nth_append)
  qed
qed


lemma parse_items_roundtrip:
  assumes "\<And>x rest. x \<in> set xs \<Longrightarrow> item (enc x @ rest) = Inr (x, length (enc x))"
  shows "parse_items item (length xs) (concat (map enc xs) @ rest) = Inr xs"
  using assms by (induction xs) simp_all

lemma unat_count: "n < 256 \<Longrightarrow> unat (word_of_nat n :: byte) = n"
  by (simp add: unat_of_nat)

lemma message_roundtrip:
  assumes "typed_message m"
  shows "message_from_bytes (msg_type m) (message_to_bytes m @ rest) = Inr m"
proof (cases m)
  case (Nodes nodes)
  with assms have "length nodes < 256" "\<And>n rest. n \<in> set nodes \<Longrightarrow> node_from_bytes (node_to_bytes n @ rest) = Inr (n, length (node_to_bytes n))"
    by (auto simp: typed_message_def list_all_iff node_roundtrip)
  with parse_items_roundtrip [of nodes node_from_bytes node_to_bytes rest] Nodes show ?thesis
    by (simp add: message_from_bytes_def message_to_bytes_def msg_type_def unat_count)
next
  case (Providers c ps has)
  with assms have c: "length c = 32" "length ps < 256"
    "\<And>p rest. p \<in> set ps \<Longrightarrow> provider_from_bytes (provider_to_bytes p @ rest) = Inr (p, length (provider_to_bytes p))"
    by (auto simp: typed_message_def list_all_iff provider_roundtrip)
  have "drop 34 (c @ [flag_byte has, word_of_nat (length ps)] @ concat (map provider_to_bytes ps) @ rest) =
      concat (map provider_to_bytes ps) @ rest" using c(1) by simp
  then show ?thesis using parse_items_roundtrip [of ps provider_from_bytes provider_to_bytes rest] Providers c
    by (simp add: message_from_bytes_def message_to_bytes_def msg_type_def unat_count nth_append)
qed (use assms in \<open>auto simp: message_from_bytes_def message_to_bytes_def msg_type_def typed_message_def id_from_slice_def nth_append\<close>)

lemma u16_length: "n < 65536 \<Longrightarrow> unat (word_of_nat n :: 16 word) = n"
  by (simp add: unat_of_nat)

text \<open>
  Every well-typed message, alone or in its authenticated envelope, is read back from its wire
  format, whatever bytes follow.
\<close>

theorem dht_wire_roundtrip:
  assumes "typed_auth a"
  shows "message_from_bytes (msg_type (am_message a)) (message_to_bytes (am_message a) @ rest) = Inr (am_message a) \<and>
    auth_from_bytes (auth_to_bytes a @ rest) = Inr a"
proof -
  let ?p = "message_to_bytes (am_message a)"
  have t: "typed_message (am_message a)" "length (am_sender_pubkey a) = 32" "length (am_signature a) = 64" "length ?p < 65536"
    using assms by (simp_all add: typed_auth_def)
  let ?d = "auth_to_bytes a @ rest"
  have d: "?d = type_to_byte (msg_type (am_message a)) # u16_be (word_of_nat (length ?p)) @ ?p @
      am_sender_pubkey a @ u64_be (am_timestamp a) @ am_signature a @ rest"
    by (simp add: auth_to_bytes_def Let_def)
  obtain h where h: "?d = h @ ?p @ am_sender_pubkey a @ u64_be (am_timestamp a) @ am_signature a @ rest" "length h = 3"
    using d by (metis append_Cons append_assoc length_Cons length_u16_be numeral_2_eq_2 numeral_3_eq_3)
  have len: "length ?d = 107 + length ?p + length rest" using t by (simp add: d)
  have "?d ! 0 = type_to_byte (msg_type (am_message a))" by (simp add: d)
  moreover have "unat (u16_of_be (byte_slice ?d 1 2)) = length ?p" using u16_length [OF t(4)] by (simp add: d)
  moreover have "byte_slice ?d 3 (length ?p) = ?p" by (simp add: h)
  moreover have "byte_slice ?d (3 + length ?p) 32 = am_sender_pubkey a" using t(2) by (simp add: h)
  moreover have "byte_slice ?d (3 + length ?p + 32) 8 = u64_be (am_timestamp a)" using t(2) by (simp add: h)
  moreover have "byte_slice ?d (3 + length ?p + 40) 64 = am_signature a" using t(2,3) by (simp add: h)
  moreover note message_roundtrip [OF t(1)]
  moreover note message_roundtrip [OF t(1), of "[]"]
  ultimately show ?thesis unfolding auth_from_bytes_def using len by (simp add: Let_def)
qed

definition sample_auth :: authenticated_message where
  "sample_auth = \<lparr>am_message = Ping 7, am_sender_pubkey = zero32, am_timestamp = 1000, am_signature = replicate 64 0\<rparr>"

theorem dht_wire_roundtrip_witness: "auth_from_bytes (auth_to_bytes sample_auth @ [1, 2]) = Inr sample_auth"
  using dht_wire_roundtrip [of sample_auth "[1, 2]"]
  by (simp add: typed_auth_def sample_auth_def typed_message_def message_to_bytes_def is_hash_def)

text \<open>
  A signed envelope binds the message and its timestamp, and a signed provider record binds the
  content, the node and its address: equal signed texts mean equal contents.
\<close>

theorem dht_signed_text_binds:
  assumes "typed_auth a" "typed_auth b" and "is_hash c" "is_hash c'" "is_hash n" "is_hash n'" "typed_addr x" "typed_addr x'"
  shows "(get_signing_payload a = get_signing_payload b \<longleftrightarrow> am_message a = am_message b \<and> am_timestamp a = am_timestamp b) \<and>
    (provider_signing_message c n x = provider_signing_message c' n' x' \<longleftrightarrow> c = c' \<and> n = n' \<and> x = x')"
proof (intro conjI iffI)
  let ?m = "am_message a" and ?m' = "am_message b"
  assume "get_signing_payload a = get_signing_payload b"
  then have "msg_type ?m = msg_type ?m'"
    "message_to_bytes ?m @ u64_be (am_timestamp a) = message_to_bytes ?m' @ u64_be (am_timestamp b)"
    by (simp_all add: get_signing_payload_def dht_signing_message_def)
  moreover from this have "message_to_bytes ?m = message_to_bytes ?m'" "am_timestamp a = am_timestamp b"
    by (simp_all add: append_eq_append_conv)
  moreover have "typed_message ?m" "typed_message ?m'" using assms(1,2) by (simp_all add: typed_auth_def)
  ultimately show "?m = ?m'" "am_timestamp a = am_timestamp b"
    using message_roundtrip [of ?m "[]"] message_roundtrip [of ?m' "[]"] by auto
next
  assume eq: "provider_signing_message c n x = provider_signing_message c' n' x'"
  then have addr: "c = c'" "n = n'" "addr_bytes x = addr_bytes x'"
    using assms(3-6) by (simp_all add: provider_signing_message_def)
  then show "c = c'" "n = n'" by simp_all
  have "node_to_bytes \<lparr>ni_id = n, ni_addr = x\<rparr> = node_to_bytes \<lparr>ni_id = n, ni_addr = x'\<rparr>" using addr by (simp add: node_to_bytes_def)
  then show "x = x'"
    using node_roundtrip [of "\<lparr>ni_id = n, ni_addr = x\<rparr>" "[]"] node_roundtrip [of "\<lparr>ni_id = n, ni_addr = x'\<rparr>" "[]"] assms(5,7,8)
    by (simp add: typed_node_def)
qed (auto simp: get_signing_payload_def)

theorem dht_signed_text_binds_witness:
  "get_signing_payload sample_auth \<noteq> get_signing_payload (sample_auth\<lparr>am_timestamp := 1001\<rparr>)"
proof -
  have "typed_auth sample_auth" "typed_auth (sample_auth\<lparr>am_timestamp := 1001\<rparr>)" "typed_addr (sample_addr)"
    if "sample_addr = \<lparr>sa_ip = V4 [10, 0, 0, 1], sa_port = 9000\<rparr>" for sample_addr
    using that by (simp_all add: typed_auth_def sample_auth_def typed_message_def message_to_bytes_def is_hash_def typed_addr_def)
  note t = this [OF refl]
  from dht_signed_text_binds [OF t(1,2) is_hash_zero32 is_hash_zero32 is_hash_zero32 is_hash_zero32 t(3,3)]
  show ?thesis by (simp add: sample_auth_def)
qed

end
