(* ===== verification/Dht_Table_Correct.thy ===== *)
theory Dht_Table_Correct
  imports Dht_Table
begin

text \<open>
  Invariants of the routing table: sizes, identifiers, buckets and subnets in every reachable table;
  what an update can displace; the nearest nodes; and what a late ping result does to a bucket.
  The definitions here are specifications; the code is modelled in \<open>Dht_Table\<close>.
\<close>

subsection \<open>Nodes per subnet\<close>

definition in_subnet :: "node_entry list \<Rightarrow> bytes \<Rightarrow> nat" where
  "in_subnet ns s = length (filter (\<lambda>n. ne_subnet n = s) ns)"

definition counts_exact :: "(bytes \<rightharpoonup> nat) \<Rightarrow> node_entry list \<Rightarrow> bool" where
  "counts_exact f ns \<longleftrightarrow> (\<forall>s. f s = (if in_subnet ns s = 0 then None else Some (in_subnet ns s)))"

lemma in_subnet_simps [simp]:
  "in_subnet [] s = 0"
  "in_subnet (n # ns) s = (if ne_subnet n = s then 1 else 0) + in_subnet ns s"
  "in_subnet (xs @ ys) s = in_subnet xs s + in_subnet ys s"
  by (simp_all add: in_subnet_def)

lemma pick_node_Some:
  assumes "pick_node i ns = Some (n, rest)"
  shows "ne_id n = i \<and> mset ns = add_mset n (mset rest) \<and> in_subnet ns s = in_subnet rest s + (if ne_subnet n = s then 1 else 0)"
proof -
  obtain xs zs where "List.extract (\<lambda>n. ne_id n = i) ns = Some (xs, n, zs)" "rest = xs @ zs"
    using assms by (auto simp: pick_node_def split: option.splits)
  then show ?thesis by (auto simp: extract_Some_iff)
qed

lemma pick_node_None: "pick_node i ns = None \<longleftrightarrow> i \<notin> ne_id ` set ns"
  by (auto simp: pick_node_def extract_None_iff extract_Some_iff split: option.splits)

lemma mset_parts:
  assumes "mset ns = add_mset n (mset rest)"
  shows "set ns = insert n (set rest)" "length ns = Suc (length rest)"
    "distinct (map ne_id ns) \<longleftrightarrow> distinct (map ne_id (n # rest))"
proof -
  have eq: "mset ns = mset (n # rest)" using assms by simp
  from mset_eq_setD [OF eq] show "set ns = insert n (set rest)" by simp
  from mset_eq_length [OF eq] show "length ns = Suc (length rest)" by simp
  have "mset (map ne_id ns) = mset (map ne_id (n # rest))" using eq by (simp only: mset_map)
  then show "distinct (map ne_id ns) \<longleftrightarrow> distinct (map ne_id (n # rest))" by (rule mset_eq_imp_distinct_iff)
qed

lemma ne_touch_simps [simp]:
  "ne_id (ne_touch now n) = ne_id n" "ne_subnet (ne_touch now n) = ne_subnet n"
  by (simp_all add: ne_touch_def ne_subnet_def)

lemma ne_record_failure_simps [simp]:
  "ne_id (ne_record_failure n) = ne_id n" "ne_subnet (ne_record_failure n) = ne_subnet n"
  by (simp_all add: ne_record_failure_def ne_subnet_def)

lemma subnet_update_simps [simp]:
  "kb_nodes (increment_subnet b s) = kb_nodes b" "kb_nodes (decrement_subnet b s) = kb_nodes b"
  "kb_pending (increment_subnet b s) = kb_pending b" "kb_pending (decrement_subnet b s) = kb_pending b"
  by (simp_all add: increment_subnet_def decrement_subnet_def split: option.splits)

lemma subnet_count_exact: "counts_exact (kb_subnet_counts b) ns \<Longrightarrow> subnet_count b s = in_subnet ns s"
  by (simp add: counts_exact_def subnet_count_def)

lemma increment_exact:
  assumes "counts_exact (kb_subnet_counts b) ns"
  shows "counts_exact (kb_subnet_counts (increment_subnet b (ne_subnet e))) (ns @ [e])"
  using assms subnet_count_exact [OF assms] by (auto simp: counts_exact_def increment_subnet_def)

lemma decrement_exact:
  assumes "counts_exact (kb_subnet_counts b) ns"
    and "\<And>s. in_subnet ns s = in_subnet rest s + (if ne_subnet n = s then 1 else 0)"
  shows "counts_exact (kb_subnet_counts (decrement_subnet b (ne_subnet n))) rest"
  using assms by (auto simp: counts_exact_def decrement_subnet_def split: option.splits)

subsection \<open>The invariant\<close>

definition bucket_ok :: "node_id \<Rightarrow> nat \<Rightarrow> k_bucket \<Rightarrow> bool" where
  "bucket_ok me i b \<longleftrightarrow>
     length (kb_nodes b) \<le> K \<and> distinct (map ne_id (kb_nodes b)) \<and>
     (\<forall>n \<in> set (kb_nodes b). bucket_index me (ne_id n) = Some i) \<and>
     (\<forall>s. in_subnet (kb_nodes b) s \<le> MAX_NODES_PER_SUBNET) \<and>
     counts_exact (kb_subnet_counts b) (kb_nodes b)"

definition table_ok :: "routing_table \<Rightarrow> bool" where
  "table_ok t \<longleftrightarrow> length (rt_buckets t) = NUM_BUCKETS \<and>
     (\<forall>i < NUM_BUCKETS. bucket_ok (rt_local_id t) i (rt_buckets t ! i))"

lemma bucket_ok_new: "bucket_ok me i kb_new"
  by (simp add: bucket_ok_def kb_new_def counts_exact_def)

text \<open>A node moved to the back of its bucket.\<close>

lemma bucket_ok_moved:
  assumes "bucket_ok me i b" and "pick_node k (kb_nodes b) = Some (n, rest)"
  shows "bucket_ok me i (b\<lparr>kb_nodes := rest @ [ne_touch now n]\<rparr>)"
proof -
  have p: "ne_id n = k" "mset (kb_nodes b) = add_mset n (mset rest)"
    "\<And>s. in_subnet (kb_nodes b) s = in_subnet rest s + (if ne_subnet n = s then 1 else 0)"
    using pick_node_Some [OF assms(2)] by blast+
  show ?thesis using assms(1) mset_parts [OF p(2)] p(3) unfolding bucket_ok_def counts_exact_def by auto
qed

lemma bucket_ok_update:
  assumes "bucket_ok me i b" and "bucket_index me (ne_id e) = Some i"
  shows "bucket_ok me i (snd (kb_update now b e))"
proof (cases "pick_node (ne_id e) (kb_nodes b)")
  case (Some x)
  then show ?thesis using bucket_ok_moved [OF assms(1)] by (cases x) (simp add: kb_update_def)
next
  case None
  then have new: "ne_id e \<notin> ne_id ` set (kb_nodes b)" by (simp add: pick_node_None)
  have ok: "length (kb_nodes b) \<le> K" "distinct (map ne_id (kb_nodes b))"
    "\<forall>n \<in> set (kb_nodes b). bucket_index me (ne_id n) = Some i"
    "\<And>s. in_subnet (kb_nodes b) s \<le> MAX_NODES_PER_SUBNET" "counts_exact (kb_subnet_counts b) (kb_nodes b)"
    using assms(1) by (auto simp: bucket_ok_def)
  note cnt = subnet_count_exact [OF ok(5), of "ne_subnet e"]
  show ?thesis
  proof (cases "subnet_count b (ne_subnet e) < MAX_NODES_PER_SUBNET")
    case room: True
    show ?thesis
    proof (cases "kb_is_full b")
      case False
      then have "kb_update now b e = (Success, (increment_subnet b (ne_subnet e))\<lparr>kb_nodes := kb_nodes b @ [e]\<rparr>)"
        using None room by (simp add: kb_update_def Let_def)
      then show ?thesis
        using ok new cnt room False increment_exact [OF ok(5), of e] assms(2)
        by (auto simp: bucket_ok_def kb_is_full_def)
    next
      case full: True
      then obtain old rest where nodes: "kb_nodes b = old # rest" by (cases "kb_nodes b") (auto simp: kb_is_full_def K_def)
      show ?thesis
      proof (cases "ne_should_evict now old")
        case True
        let ?b = "increment_subnet (decrement_subnet b (ne_subnet old)) (ne_subnet e)"
        have "kb_update now b e = (Success, ?b\<lparr>kb_nodes := rest @ [e]\<rparr>)"
          using None room full nodes True by (simp add: kb_update_def Let_def)
        moreover have "counts_exact (kb_subnet_counts (decrement_subnet b (ne_subnet old))) rest"
          by (rule decrement_exact [OF ok(5)]) (simp add: nodes)
        then have "counts_exact (kb_subnet_counts ?b) (rest @ [e])" by (rule increment_exact)
        moreover have "in_subnet rest s \<le> MAX_NODES_PER_SUBNET" for s using ok(4) [of s] nodes by simp
        moreover have "in_subnet rest (ne_subnet e) < MAX_NODES_PER_SUBNET" using cnt room nodes by simp
        ultimately show ?thesis using ok(1,2,3) new nodes assms(2) by (auto simp: bucket_ok_def)
      next
        case False
        then have "kb_update now b e = (PingRequired old, b\<lparr>kb_pending := Some e\<rparr>)"
          using None room full nodes by (simp add: kb_update_def Let_def)
        then show ?thesis using assms(1) by (simp add: bucket_ok_def)
      qed
    qed
  next
    case False
    then have "snd (kb_update now b e) = b" using None by (simp add: kb_update_def Let_def)
    then show ?thesis using assms(1) by simp
  qed
qed

lemma bucket_ok_remove:
  assumes "bucket_ok me i b"
  shows "bucket_ok me i (snd (kb_remove b k))"
proof (cases "pick_node k (kb_nodes b)")
  case (Some x)
  obtain n rest where x: "x = (n, rest)" by fastforce
  have p: "mset (kb_nodes b) = add_mset n (mset rest)"
    "\<And>s. in_subnet (kb_nodes b) s = in_subnet rest s + (if ne_subnet n = s then 1 else 0)"
    using pick_node_Some [OF Some [unfolded x]] by blast+
  have "counts_exact (kb_subnet_counts (decrement_subnet (b\<lparr>kb_nodes := rest\<rparr>) (ne_subnet n))) rest"
    by (rule decrement_exact [where ns = "kb_nodes b"]) (use assms p(2) in \<open>auto simp: bucket_ok_def\<close>)
  moreover have "in_subnet rest s \<le> MAX_NODES_PER_SUBNET" for s
  proof -
    have "in_subnet (kb_nodes b) s \<le> MAX_NODES_PER_SUBNET" using assms by (simp add: bucket_ok_def)
    with p(2) [of s] show ?thesis by linarith
  qed
  ultimately show ?thesis
    using assms mset_parts [OF p(1)] Some x by (auto simp: kb_remove_def bucket_ok_def)
qed (use assms in \<open>simp add: kb_remove_def\<close>)

lemma change_node_map:
  assumes "\<And>n. ne_id (f n) = ne_id n" "\<And>n. ne_subnet (f n) = ne_subnet n"
  shows "map ne_id (change_node k f ns) = map ne_id ns" "in_subnet (change_node k f ns) s = in_subnet ns s"
  by (induction ns) (simp_all add: assms)

lemma bucket_ok_change:
  assumes "bucket_ok me i b" and "\<And>n. ne_id (f n) = ne_id n" "\<And>n. ne_subnet (f n) = ne_subnet n"
  shows "bucket_ok me i (b\<lparr>kb_nodes := change_node k f (kb_nodes b)\<rparr>)"
proof -
  let ?ns = "change_node k f (kb_nodes b)"
  note c = change_node_map [where f = f, OF assms(2,3), of k "kb_nodes b"]
  have "ne_id ` set ?ns = ne_id ` set (kb_nodes b)" using arg_cong [OF c(1), of set] by simp
  moreover have "length ?ns = length (kb_nodes b)" using arg_cong [OF c(1), of length] by simp
  moreover have "(\<forall>n \<in> set ?ns. bucket_index me (ne_id n) = Some i) \<longleftrightarrow> (\<forall>x \<in> ne_id ` set ?ns. bucket_index me x = Some i)"
    by simp
  ultimately show ?thesis using assms(1) c by (simp add: bucket_ok_def counts_exact_def)
qed

lemma table_ok_set:
  assumes "table_ok t" and "i < NUM_BUCKETS" and "bucket_ok (rt_local_id t) i b"
  shows "table_ok (set_bucket t i b)"
  using assms by (auto simp: table_ok_def set_bucket_def nth_list_update)

lemma rt_bucket_Inr:
  assumes "table_ok t" and "rt_bucket t i = Inr b"
  shows "i < NUM_BUCKETS" "b = rt_buckets t ! i" "bucket_ok (rt_local_id t) i b"
  using assms by (auto simp: rt_bucket_def table_ok_def split: if_splits)


lemma table_ok_update: "table_ok t \<Longrightarrow> table_ok (snd (rt_update now t i addr))"
proof -
  assume ok: "table_ok t"
  show ?thesis
  proof (cases "i = rt_local_id t")
    case False
    show ?thesis
    proof (cases "bucket_index (rt_local_id t) i")
      case (Some k)
      show ?thesis
      proof (cases "rt_bucket t k")
        case (Inr b)
        note b = rt_bucket_Inr [OF ok Inr]
        have "bucket_ok (rt_local_id t) k (snd (kb_update now b (ne_new now i addr)))"
          by (rule bucket_ok_update [OF b(3)]) (simp add: ne_new_def Some)
        then have "table_ok (set_bucket t k (snd (kb_update now b (ne_new now i addr))))" by (rule table_ok_set [OF ok b(1)])
        with False Some Inr show ?thesis
          by (cases "kb_update now b (ne_new now i addr)") (auto simp: rt_update_def split: update_result.splits)
      qed (use ok False Some in \<open>simp add: rt_update_def\<close>)
    qed (use ok False in \<open>simp add: rt_update_def\<close>)
  qed (use ok in \<open>simp add: rt_update_def\<close>)
qed

lemma table_ok_remove: "table_ok t \<Longrightarrow> table_ok (snd (rt_remove t i))"
proof -
  assume ok: "table_ok t"
  have "table_ok (set_bucket t k (snd (kb_remove b i)))" if "rt_bucket t k = Inr b" for k b
    using rt_bucket_Inr [OF ok that] by (intro table_ok_set [OF ok] bucket_ok_remove)
  then show ?thesis using ok by (simp add: rt_remove_def split: option.split sum.split prod.split) (metis snd_conv)
qed

lemma table_ok_change:
  assumes "table_ok t" and "\<And>n. ne_id (f n) = ne_id n" "\<And>n. ne_subnet (f n) = ne_subnet n"
  shows "table_ok (change_in_table t i f)"
  using assms(1) table_ok_set [OF assms(1)] rt_bucket_Inr [OF assms(1)] bucket_ok_change [where f = f, OF _ assms(2,3)]
  by (simp add: change_in_table_def split: option.split sum.split)

text \<open>The operations of the table, as the node performs them.\<close>

inductive table_step :: "routing_table \<Rightarrow> routing_table \<Rightarrow> bool" where
  seen: "table_step t (snd (rt_update now t i addr))"
| removed: "table_step t (snd (rt_remove t i))"
| failed: "table_step t (rt_record_failure t i)"
| answered: "table_step t (on_response now t i)"

inductive_simps table_step_iff: "table_step t t'"

interpretation table: stepping_component "\<lambda>t. \<exists>me. t = rt_new me" table_step table_ok
proof
  fix t t'
  show "\<exists>me. t = rt_new me \<Longrightarrow> table_ok t"
    by (auto simp: rt_new_def table_ok_def bucket_ok_new)
  show "table_ok t \<Longrightarrow> table_step t t' \<Longrightarrow> table_ok t'"
    by (auto simp: table_step_iff rt_record_failure_def on_response_def intro: table_ok_update table_ok_remove table_ok_change)
qed

lemma local_id_step: "table_step t t' \<Longrightarrow> rt_local_id t' = rt_local_id t"
  by (induction rule: table_step.induct)
    (simp_all add: rt_update_def rt_remove_def rt_record_failure_def on_response_def change_in_table_def set_bucket_def
      split: option.split sum.split prod.split update_result.split)

subsection \<open>Consequences of the invariant\<close>

lemma all_nodes_mem:
  "n \<in> set (all_nodes t) \<longleftrightarrow> (\<exists>i < length (rt_buckets t). n \<in> set (kb_nodes (rt_buckets t ! i)))"
proof -
  have "n \<in> set (all_nodes t) \<longleftrightarrow> (\<exists>b \<in> set (rt_buckets t). n \<in> set (kb_nodes b))" by (simp add: all_nodes_def)
  then show ?thesis by (simp add: Bex_def in_set_conv_nth [of _ "rt_buckets t"]) blast
qed

lemma table_ok_bucket_of:
  assumes "table_ok t" and "n \<in> set (all_nodes t)"
  shows "\<exists>i < NUM_BUCKETS. bucket_index (rt_local_id t) (ne_id n) = Some i \<and> n \<in> set (kb_nodes (rt_buckets t ! i))"
  using assms by (auto simp: all_nodes_mem table_ok_def bucket_ok_def)

lemma concat_distinct_keys:
  assumes "\<And>i. i < length xss \<Longrightarrow> distinct (map f (xss ! i))"
    and "\<And>i j x y. i < length xss \<Longrightarrow> j < length xss \<Longrightarrow> x \<in> set (xss ! i) \<Longrightarrow> y \<in> set (xss ! j) \<Longrightarrow> f x = f y \<Longrightarrow> i = j"
  shows "distinct (map f (concat xss))"
  using assms
proof (induction xss)
  case (Cons xs xss)
  have "distinct (map f (concat xss))"
  proof (rule Cons.IH)
    fix i j x y
    show "i < length xss \<Longrightarrow> distinct (map f (xss ! i))" using Cons.prems(1) [of "Suc i"] by simp
    show "i < length xss \<Longrightarrow> j < length xss \<Longrightarrow> x \<in> set (xss ! i) \<Longrightarrow> y \<in> set (xss ! j) \<Longrightarrow> f x = f y \<Longrightarrow> i = j"
      using Cons.prems(2) [of "Suc i" "Suc j" x y] by simp
  qed
  moreover have "f x \<noteq> f y" if x: "x \<in> set xs" and y: "y \<in> set ys" and ys: "ys \<in> set xss" for x y ys
  proof
    assume eq: "f x = f y"
    obtain j where "j < length xss" "ys = xss ! j" using ys by (auto simp: in_set_conv_nth)
    with Cons.prems(2) [of 0 "Suc j" x y] x y eq show False by simp
  qed
  moreover have "distinct (map f xs)" using Cons.prems(1) [of 0] by simp
  ultimately show ?case by (auto simp: distinct_map image_iff)
qed simp

lemma table_ok_distinct: "table_ok t \<Longrightarrow> distinct (map ne_id (all_nodes t))"
  unfolding all_nodes_def
proof (rule concat_distinct_keys)
  fix i j x y
  assume ok: "table_ok t"
  let ?b = "rt_buckets t"
  have b: "bucket_ok (rt_local_id t) i (?b ! i)" if "i < length ?b" for i using ok that by (simp add: table_ok_def)
  show "i < length (map kb_nodes ?b) \<Longrightarrow> distinct (map ne_id (map kb_nodes ?b ! i))"
    using b [of i] by (simp add: bucket_ok_def)
  show "i < length (map kb_nodes ?b) \<Longrightarrow> j < length (map kb_nodes ?b) \<Longrightarrow> x \<in> set (map kb_nodes ?b ! i) \<Longrightarrow>
      y \<in> set (map kb_nodes ?b ! j) \<Longrightarrow> ne_id x = ne_id y \<Longrightarrow> i = j"
    using b [of i] b [of j] by (auto simp: bucket_ok_def)
qed


lemma all_nodes_set_bucket:
  assumes "i < length (rt_buckets t)"
  shows "n \<in> set (all_nodes (set_bucket t i b)) \<longleftrightarrow>
    n \<in> set (kb_nodes b) \<or> (\<exists>j < length (rt_buckets t). j \<noteq> i \<and> n \<in> set (kb_nodes (rt_buckets t ! j)))"
  using assms by (auto simp: all_nodes_mem set_bucket_def nth_list_update)

text \<open>The effect of an update on the nodes of a bucket.\<close>

lemma kb_update_effect:
  assumes "kb_update now b e = (r, b')"
  shows "case r of
      Success \<Rightarrow> ne_id e \<in> ne_id ` set (kb_nodes b') \<and>
        (\<forall>n \<in> set (kb_nodes b). \<not> ne_should_evict now n \<longrightarrow> n \<in> set (kb_nodes b') \<or> (ne_id n = ne_id e \<and> ne_touch now n \<in> set (kb_nodes b'))) \<and>
        (\<forall>n \<in> set (kb_nodes b'). n \<in> set (kb_nodes b) \<or> n = e \<or> n \<in> ne_touch now ` set (kb_nodes b))
    | _ \<Rightarrow> kb_nodes b' = kb_nodes b"
proof (cases "pick_node (ne_id e) (kb_nodes b)")
  case (Some x)
  obtain n rest where x: "x = (n, rest)" by fastforce
  have p: "ne_id n = ne_id e" "mset (kb_nodes b) = add_mset n (mset rest)" using pick_node_Some [OF Some [unfolded x]] by blast+
  have "r = Success" "kb_nodes b' = rest @ [ne_touch now n]" using assms Some x by (auto simp: kb_update_def)
  with p mset_parts(1) [OF p(2)] show ?thesis by auto
next
  case None
  have evict: "kb_nodes b = old # rest \<Longrightarrow> ne_should_evict now old \<Longrightarrow> n \<in> set (kb_nodes b) \<Longrightarrow> \<not> ne_should_evict now n \<Longrightarrow> n \<in> set rest"
    for old rest n by auto
  from assms None evict show ?thesis
    by (auto simp: kb_update_def Let_def kb_is_full_def K_def split: if_splits list.splits)
qed

lemma rt_update_bucket:
  assumes "table_ok t" and "rt_update now t i addr = (r, t')"
  shows "t' = t \<and> r = Inl SelfLookup \<or>
    (\<exists>k u b'. k < NUM_BUCKETS \<and> bucket_index (rt_local_id t) i = Some k \<and>
       kb_update now (rt_buckets t ! k) (ne_new now i addr) = (u, b') \<and> t' = set_bucket t k b' \<and>
       r = (case u of Success \<Rightarrow> Inr None | PingRequired old \<Rightarrow> Inr (Some old)
            | SubnetLimitExceeded s _ \<Rightarrow> Inl (SubnetLimit s MAX_NODES_PER_SUBNET)))"
proof (cases "i = rt_local_id t \<or> bucket_index (rt_local_id t) i = None")
  case True
  with assms(2) show ?thesis by (auto simp: rt_update_def split: if_splits)
next
  case False
  then obtain k where k: "bucket_index (rt_local_id t) i = Some k" by auto
  show ?thesis
  proof (cases "rt_bucket t k")
    case (Inr b)
    obtain u b' where u: "kb_update now b (ne_new now i addr) = (u, b')" by fastforce
    note b = rt_bucket_Inr(1,2) [OF assms(1) Inr]
    have "k < NUM_BUCKETS \<and> bucket_index (rt_local_id t) i = Some k \<and>
       kb_update now (rt_buckets t ! k) (ne_new now i addr) = (u, b') \<and> t' = set_bucket t k b' \<and>
       r = (case u of Success \<Rightarrow> Inr None | PingRequired old \<Rightarrow> Inr (Some old)
            | SubnetLimitExceeded s _ \<Rightarrow> Inl (SubnetLimit s MAX_NODES_PER_SUBNET))"
      using assms(2) False k Inr u b by (cases u) (simp_all add: rt_update_def)
    then show ?thesis by blast
  next
    case (Inl e)
    with bucket_index_less [OF k] assms(1) show ?thesis by (simp add: rt_bucket_def table_ok_def NUM_BUCKETS_def)
  qed
qed


text \<open>
  C38. In every table the node can reach, each of the 256 buckets holds at most eight nodes, at most
  two of one subnet, with the counts of the subnets exact; every node is in the bucket of its
  distance; no identifier occurs twice in the whole table and the node's own never.
\<close>

theorem reachable_table_ok:
  assumes "table_step\<^sup>*\<^sup>* (rt_new me) t"
  shows "rt_local_id t = me \<and> length (rt_buckets t) = 256 \<and> distinct (map ne_id (all_nodes t)) \<and>
    me \<notin> ne_id ` set (all_nodes t) \<and> rt_size t \<le> 2048 \<and>
    (\<forall>i < 256. length (kb_nodes (rt_buckets t ! i)) \<le> 8 \<and>
       (\<forall>n \<in> set (kb_nodes (rt_buckets t ! i)). bucket_index me (ne_id n) = Some i) \<and>
       (\<forall>s. in_subnet (kb_nodes (rt_buckets t ! i)) s \<le> 2 \<and>
            subnet_count (rt_buckets t ! i) s = in_subnet (kb_nodes (rt_buckets t ! i)) s))"
proof -
  have me: "rt_local_id t = me"
    using assms by (induction rule: rtranclp_induct) (simp_all add: rt_new_def local_id_step)
  have ok: "table_ok t" using table.good_reachable [OF _ assms] by blast
  have len: "length (rt_buckets t) = 256" using ok by (simp add: table_ok_def NUM_BUCKETS_def ID_BITS_def)
  have b: "bucket_ok me i (rt_buckets t ! i)" if "i < 256" for i
    using ok that me by (simp add: table_ok_def NUM_BUCKETS_def ID_BITS_def)
  have "me \<notin> ne_id ` set (all_nodes t)"
  proof
    assume "me \<in> ne_id ` set (all_nodes t)"
    then obtain n where n: "n \<in> set (all_nodes t)" "ne_id n = me" by auto
    from table_ok_bucket_of [OF ok n(1)] n(2) me show False by simp
  qed
  moreover have "rt_size t \<le> 2048"
  proof -
    have "sum_list (map (length \<circ> kb_nodes) bs) \<le> 8 * length bs" if "\<forall>x \<in> set bs. length (kb_nodes x) \<le> 8" for bs
      using that by (induction bs) auto
    moreover have "\<forall>x \<in> set (rt_buckets t). length (kb_nodes x) \<le> 8"
      using b len by (auto simp: in_set_conv_nth bucket_ok_def K_def)
    ultimately show ?thesis using len by (fastforce simp: rt_size_def)
  qed
  moreover have "length (kb_nodes (rt_buckets t ! i)) \<le> 8 \<and>
       (\<forall>n \<in> set (kb_nodes (rt_buckets t ! i)). bucket_index me (ne_id n) = Some i) \<and>
       (\<forall>s. in_subnet (kb_nodes (rt_buckets t ! i)) s \<le> 2 \<and>
            subnet_count (rt_buckets t ! i) s = in_subnet (kb_nodes (rt_buckets t ! i)) s)" if "i < 256" for i
    using b [OF that] subnet_count_exact [of "rt_buckets t ! i"] by (simp add: bucket_ok_def K_def MAX_NODES_PER_SUBNET_def)
  ultimately show ?thesis using me len table_ok_distinct [OF ok] by blast
qed

definition sample_addr :: "byte \<Rightarrow> socket_addr" where
  "sample_addr x = \<lparr>sa_ip = V4 [10, 0, x, 1], sa_port = 9000\<rparr>"

theorem reachable_table_ok_witness:
  "[0] \<notin> ne_id ` set (all_nodes (snd (rt_update 0 (rt_new [0]) [1] (sample_addr 1))))"
  using reachable_table_ok [of "[0]" "snd (rt_update 0 (rt_new [0]) [1] (sample_addr 1))"]
  by (auto intro: table_step.seen)

text \<open>A bucket replaced by one with the same nodes leaves the nodes of the table alone.\<close>

lemma all_nodes_same_bucket:
  assumes "k < length (rt_buckets t)" and "kb_nodes b' = kb_nodes (rt_buckets t ! k)"
  shows "set (all_nodes (set_bucket t k b')) = set (all_nodes t)"
  using assms all_nodes_set_bucket [OF assms(1), of _ b'] all_nodes_mem [of _ t] by auto

text \<open>A node that may stay is kept in the table, or brought up to date, with its bucket.\<close>

lemma set_bucket_keeps:
  assumes k: "k < length (rt_buckets t)"
    and e: "\<forall>n \<in> set (kb_nodes (rt_buckets t ! k)). \<not> ne_should_evict now n \<longrightarrow>
         n \<in> set (kb_nodes b') \<or> (ne_id n = i \<and> ne_touch now n \<in> set (kb_nodes b'))"
    and n: "n \<in> set (all_nodes t)" "\<not> ne_should_evict now n"
  shows "n \<in> set (all_nodes (set_bucket t k b')) \<or> (ne_id n = i \<and> ne_touch now n \<in> set (all_nodes (set_bucket t k b')))"
proof -
  from n(1) obtain j where j: "j < length (rt_buckets t)" "n \<in> set (kb_nodes (rt_buckets t ! j))"
    unfolding all_nodes_mem by blast
  show ?thesis using e n(2) j all_nodes_set_bucket [OF k, of _ b'] by (cases "j = k") auto
qed

text \<open>The nodes of the table after a bucket was replaced come from the table or from the update.\<close>

lemma set_bucket_ids:
  assumes k: "k < length (rt_buckets t)"
    and e: "\<forall>n \<in> set (kb_nodes b'). n \<in> set (kb_nodes (rt_buckets t ! k)) \<or> ne_id n = i \<or>
         n \<in> ne_touch now ` set (kb_nodes (rt_buckets t ! k))"
    and n: "n \<in> set (all_nodes (set_bucket t k b'))"
  shows "ne_id n \<in> insert i (ne_id ` set (all_nodes t))"
proof (cases "n \<in> set (kb_nodes b')")
  case True
  moreover have "x \<in> set (all_nodes t)" if "x \<in> set (kb_nodes (rt_buckets t ! k))" for x
    using that k unfolding all_nodes_mem by blast
  ultimately show ?thesis using e by auto
next
  case False
  with n have "n \<in> set (all_nodes t)" unfolding all_nodes_set_bucket [OF k, of _ b'] all_nodes_mem [of _ t] by blast
  then show ?thesis by simp
qed

text \<open>
  An update decides exactly as its result says. On success the node is in the table and no node
  is displaced but one that is stale and failing; when a ping of the oldest node is demanded, or the
  update is refused, the nodes of the table stay as they are. So nodes that answer cannot be pushed
  out by new ones.
\<close>

theorem rt_update_correct:
  assumes "table_ok t" and "rt_update now t i addr = (r, t')"
  shows "case r of
      Inr None \<Rightarrow> i \<in> ne_id ` set (all_nodes t') \<and>
        (\<forall>n \<in> set (all_nodes t). \<not> ne_should_evict now n \<longrightarrow> n \<in> set (all_nodes t') \<or> (ne_id n = i \<and> ne_touch now n \<in> set (all_nodes t'))) \<and>
        ne_id ` set (all_nodes t') \<subseteq> insert i (ne_id ` set (all_nodes t))
    | _ \<Rightarrow> set (all_nodes t') = set (all_nodes t)"
  using rt_update_bucket [OF assms]
proof
  assume "t' = t \<and> r = Inl SelfLookup"
  then show ?thesis by simp
next
  assume "\<exists>k u b'. k < NUM_BUCKETS \<and> bucket_index (rt_local_id t) i = Some k \<and>
       kb_update now (rt_buckets t ! k) (ne_new now i addr) = (u, b') \<and> t' = set_bucket t k b' \<and>
       r = (case u of Success \<Rightarrow> Inr None | PingRequired old \<Rightarrow> Inr (Some old)
            | SubnetLimitExceeded s _ \<Rightarrow> Inl (SubnetLimit s MAX_NODES_PER_SUBNET))"
  then obtain k u b' where k: "k < length (rt_buckets t)"
    and u: "kb_update now (rt_buckets t ! k) (ne_new now i addr) = (u, b')" and t': "t' = set_bucket t k b'"
    and r: "r = (case u of Success \<Rightarrow> Inr None | PingRequired old \<Rightarrow> Inr (Some old)
            | SubnetLimitExceeded s _ \<Rightarrow> Inl (SubnetLimit s MAX_NODES_PER_SUBNET))"
    using assms(1) by (auto simp: table_ok_def)
  note eff = kb_update_effect [OF u]
  have new: "ne_id (ne_new now i addr) = i" by (simp add: ne_new_def)
  show ?thesis
  proof (cases u)
    case Success
    have "n \<in> set (all_nodes t') \<or> (ne_id n = i \<and> ne_touch now n \<in> set (all_nodes t'))"
      if "n \<in> set (all_nodes t)" "\<not> ne_should_evict now n" for n
      unfolding t' by (rule set_bucket_keeps [OF k _ that]) (use eff new Success in auto)
    moreover have "ne_id n \<in> insert i (ne_id ` set (all_nodes t))" if "n \<in> set (all_nodes t')" for n
      by (rule set_bucket_ids [OF k _ that [unfolded t']]) (use eff new Success in auto)
    moreover obtain x where "x \<in> set (kb_nodes b')" "ne_id x = i" using eff new Success by auto
    then have "i \<in> ne_id ` set (all_nodes t')" unfolding t' using all_nodes_set_bucket [OF k, of x b'] by blast
    ultimately show ?thesis using Success r by (simp add: image_subset_iff)
  qed (use eff r all_nodes_same_bucket [OF k, of b'] t' in auto)
qed


theorem rt_update_correct_witness:
  "[1] \<in> ne_id ` set (all_nodes (snd (rt_update 0 (rt_new [0]) [1] (sample_addr 1))))"
proof -
  have "bucket_index [0] [1] = Some 248" by code_simp
  then have "fst (rt_update 0 (rt_new [0]) [1] (sample_addr 1)) = Inr None"
    by (simp add: rt_update_def rt_new_def rt_bucket_def NUM_BUCKETS_def ID_BITS_def kb_update_def pick_node_def kb_new_def
        extract_Nil_code subnet_count_def MAX_NODES_PER_SUBNET_def kb_is_full_def K_def Let_def)
  then obtain t' where t': "rt_update 0 (rt_new [0]) [1] (sample_addr 1) = (Inr None, t')" by (metis prod.collapse)
  have "table_ok (rt_new [0])" by (rule table.good_initial) blast
  from rt_update_correct [OF this t'] show ?thesis unfolding t' by simp
qed

text \<open>
  \<open>closest\<close> gives the nearest nodes: as many as asked for if the table has them, in order of
  their distance from the target, and no node that is left out is nearer than one that is returned.
\<close>

theorem closest_correct:
  assumes "is_hash target" and "\<forall>n \<in> set (all_nodes t). is_hash (ne_id n)"
  shows "length (closest t target k) = min k (rt_size t) \<and>
    mset (closest t target k) \<subseteq># mset (all_nodes t) \<and>
    sorted (map (\<lambda>n. distance target (ne_id n)) (closest t target k)) \<and>
    (\<forall>n \<in># mset (all_nodes t) - mset (closest t target k). \<forall>m \<in> set (closest t target k).
       distance target (ne_id m) \<le> distance target (ne_id n))"
proof -
  let ?d = "\<lambda>n. distance target (ne_id n)" and ?x = "\<lambda>n. xor_distance target (ne_id n)"
  let ?all = "sort_key ?x (all_nodes t)"
  have le: "?d m \<le> ?d n \<longleftrightarrow> ?x m \<le> ?x n" if "m \<in> set (all_nodes t)" "n \<in> set (all_nodes t)" for m n
  proof -
    have "length (?x n) = length (?x m)" using assms that by simp
    from be_nat_less_iff [OF this] show ?thesis by (metis linorder_not_less)
  qed
  have "sorted_wrt (\<lambda>m n. ?x m \<le> ?x n) ?all" using sorted_sort_key [of ?x "all_nodes t"] by (simp add: sorted_map)
  then have srt: "sorted_wrt (\<lambda>m n. ?d m \<le> ?d n) ?all"
    by (rule sorted_wrt_mono_rel [rotated]) (simp add: le)
  have split: "?all = closest t target k @ drop k ?all" by (simp add: closest_def)
  have ms: "mset (all_nodes t) = mset (closest t target k) + mset (drop k ?all)"
    using arg_cong [OF split, of mset] by simp
  have two: "sorted_wrt (\<lambda>m n. ?d m \<le> ?d n) (closest t target k @ drop k ?all)"
    using srt split by simp
  have "length (all_nodes t) = rt_size t" by (simp add: all_nodes_def rt_size_def length_concat comp_def)
  then have "length (closest t target k) = min k (rt_size t)" by (simp add: closest_def min.commute)
  moreover have "sorted (map ?d (closest t target k))" using two by (simp add: sorted_wrt_append sorted_map)
  moreover have "?d m \<le> ?d n" if "n \<in># mset (all_nodes t) - mset (closest t target k)" "m \<in> set (closest t target k)" for m n
  proof -
    have "n \<in> set (drop k ?all)" using that(1) ms by simp
    then show ?thesis using two that(2) by (simp add: sorted_wrt_append)
  qed
  ultimately show ?thesis using ms by simp
qed

theorem closest_correct_witness: "length (closest (rt_new zero32) zero32 8) = 0"
  using closest_correct [of zero32 "rt_new zero32" 8]
  by (simp add: all_nodes_def rt_new_def kb_new_def NUM_BUCKETS_def rt_size_def sum_list_replicate)

text \<open>
  The result of a ping is applied without looking at the bucket again. When the pending node has
  entered the bucket meanwhile, as it does if another node is removed and it is seen again, an
  unanswered ping puts it in a second time; and the limit of its subnet is not checked.
\<close>

theorem late_ping_duplicates:
  assumes "kb_pending b = Some p" and "kb_contains b (ne_id p)" and "kb_contains b old" and "ne_id p \<noteq> old"
  shows "\<not> distinct (map ne_id (kb_nodes (on_ping_result now b old False)))"
proof -
  obtain n rest where pick: "pick_node old (kb_nodes b) = Some (n, rest)"
    using assms(3) pick_node_None [of old "kb_nodes b"] by (cases "pick_node old (kb_nodes b)") (auto simp: kb_contains_def)
  have s: "ne_id n = old" "mset (kb_nodes b) = add_mset n (mset rest)" using pick_node_Some [OF pick] by blast+
  have "kb_nodes (on_ping_result now b old False) = rest @ [p]" using assms(1) pick by (simp add: on_ping_result_def Let_def)
  moreover have "ne_id p \<in> ne_id ` set rest"
    using assms(2,4) mset_parts(1) [OF s(2)] s(1) unfolding kb_contains_def by (metis imageI insertE)
  ultimately show ?thesis by simp
qed

text \<open>Eight nodes fill a bucket, a ninth waits for a ping, one is removed, the ninth is seen again.\<close>

definition full_bucket :: k_bucket where
  "full_bucket = foldl (\<lambda>b x. snd (kb_update 0 b (ne_new 0 [x] (sample_addr x)))) kb_new [1, 2, 3, 4, 5, 6, 7, 8, 9]"

definition late_bucket :: k_bucket where
  "late_bucket = snd (kb_update 0 (snd (kb_remove full_bucket [4])) (ne_new 0 [9] (sample_addr 9)))"

theorem late_ping_duplicates_witness:
  "\<not> distinct (map ne_id (kb_nodes (on_ping_result 0 late_bucket [1] False)))"
proof -
  have ids: "map ne_id (kb_nodes late_bucket) = [[1], [2], [3], [5], [6], [7], [8], [9]]" by code_simp
  have "map_option ne_id (kb_pending late_bucket) = Some [9]" by code_simp
  then obtain p where p: "kb_pending late_bucket = Some p" "ne_id p = [9]" by auto
  have "kb_contains late_bucket x \<longleftrightarrow> x \<in> set (map ne_id (kb_nodes late_bucket))" for x
    by (auto simp: kb_contains_def)
  then show ?thesis by (intro late_ping_duplicates [OF p(1)]) (simp_all add: p(2) ids)
qed

end
