(* ===== verification/Dht_Manager.thy ===== *)
theory Dht_Manager
  imports Dht_Message Dht_Table_Correct
begin

text \<open>
  The handlers of the distributed hash table (\<open>src/dht/manager.rs\<close>): routing table, provider store
  and limiter together. A handler is a function of the state and the instant \<open>now\<close> (nanoseconds), as it runs
  when no other handler comes in between; the code takes a lock for each access to a part of the
  state only, so handlers of several connections interleave. The handler of an announcement is split into its
  accesses for that: \<open>store_sched\<close> below runs any number of them side by side. \<open>verify\<close> is the
  check of an Ed25519 signature. The node runs without persistence, as \<open>DhtManager::new\<close> sets it up.
\<close>

record dht_manager =
  dm_local_id :: node_id
  dm_local_addr :: socket_addr
  dm_table :: routing_table
  dm_store :: provider_store
  dm_limiter :: store_rate_limiter

definition dm_new :: "nat \<Rightarrow> node_id \<Rightarrow> socket_addr \<Rightarrow> dht_manager" where
  "dm_new now local_id local_addr =
     \<lparr>dm_local_id = local_id, dm_local_addr = local_addr, dm_table = rt_new local_id, dm_store = ps_new,
      dm_limiter = rl_new now\<rparr>"

definition on_node_seen :: "nat \<Rightarrow> dht_manager \<Rightarrow> node_id \<Rightarrow> socket_addr \<Rightarrow> (dht_error + unit) \<times> dht_manager" where
  "on_node_seen now d i addr =
     (case rt_update now (dm_table d) i addr of
        (Inl e, t) \<Rightarrow> (Inl e, d\<lparr>dm_table := t\<rparr>)
      | (Inr _, t) \<Rightarrow> (Inr (), d\<lparr>dm_table := t\<rparr>))"

definition on_node_failed :: "dht_manager \<Rightarrow> node_id \<Rightarrow> dht_manager" where
  "on_node_failed d i = d\<lparr>dm_table := rt_record_failure (dm_table d) i\<rparr>"

definition get_closest_nodes :: "dht_manager \<Rightarrow> node_id \<Rightarrow> nat \<Rightarrow> node_info list" where
  "get_closest_nodes d target cnt = map (\<lambda>e. \<lparr>ni_id = ne_id e, ni_addr = ne_addr e\<rparr>) (closest (dm_table d) target cnt)"

definition dm_add_provider ::
  "(bytes \<Rightarrow> bytes \<Rightarrow> bytes \<Rightarrow> bool) \<Rightarrow> nat \<Rightarrow> dht_manager \<Rightarrow> hash32 \<Rightarrow> node_id \<Rightarrow> socket_addr \<Rightarrow> bytes \<Rightarrow> bytes \<Rightarrow>
   (dht_error + unit) \<times> dht_manager" where
  "dm_add_provider verify now d c node addr public_key sig =
     (if \<not> verify public_key (provider_signing_message c node addr) sig
      then (Inl (InvalidProviderSignature c node), d)
      else (Inr (), d\<lparr>dm_store := ps_add_provider now (dm_store d) c (pr_new now node addr public_key sig)\<rparr>))"

definition get_local_providers :: "nat \<Rightarrow> dht_manager \<Rightarrow> hash32 \<Rightarrow> signed_provider_info list" where
  "get_local_providers now d c =
     map (\<lambda>p. \<lparr>sp_id = pr_node_id p, sp_addr = pr_addr p, sp_public_key = pr_public_key p, sp_signature = pr_signature p\<rparr>)
       (get_providers now (dm_store d) c MAX_PROVIDERS)"

definition has_provider_for_content :: "nat \<Rightarrow> dht_manager \<Rightarrow> hash32 \<Rightarrow> node_id \<Rightarrow> bool" where
  "has_provider_for_content now d c i \<longleftrightarrow> (\<exists>p \<in> set (get_providers now (dm_store d) c MAX_PROVIDERS). pr_node_id p = i)"

definition add_local_content :: "nat \<Rightarrow> dht_manager \<Rightarrow> hash32 \<Rightarrow> dht_manager" where
  "add_local_content now d c =
     d\<lparr>dm_store := ps_add_provider now (ps_add_local now (dm_store d) c) c
         (pr_new now (dm_local_id d) (dm_local_addr d) zero32 (replicate 64 0))\<rparr>"

definition remove_local_content :: "dht_manager \<Rightarrow> hash32 \<Rightarrow> dht_manager" where
  "remove_local_content d c = d\<lparr>dm_store := remove_provider (ps_remove_local (dm_store d) c) c (dm_local_id d)\<rparr>"

definition content_needing_refresh :: "nat \<Rightarrow> dht_manager \<Rightarrow> hash32 list" where
  "content_needing_refresh now d = ps_needing_refresh now (dm_store d) (nanos PROVIDER_REFRESH_SECS)"

definition mark_content_announced :: "nat \<Rightarrow> dht_manager \<Rightarrow> hash32 \<Rightarrow> dht_manager" where
  "mark_content_announced now d c = d\<lparr>dm_store := refresh_local_content now (dm_store d) c\<rparr>"

definition cleanup_expired_providers :: "nat \<Rightarrow> dht_manager \<Rightarrow> nat \<times> dht_manager" where
  "cleanup_expired_providers now d = (case cleanup_expired now (dm_store d) of (n, s) \<Rightarrow> (n, d\<lparr>dm_store := s\<rparr>))"

subsection \<open>Messages\<close>

text \<open>The branches with effects: a list of nodes, a list of providers, an announcement.\<close>

definition handle_nodes :: "nat \<Rightarrow> dht_manager \<Rightarrow> node_info list \<Rightarrow> dht_manager" where
  "handle_nodes now d nodes = foldl (\<lambda>d n. snd (on_node_seen now d (ni_id n) (ni_addr n))) d nodes"

definition handle_providers ::
  "(bytes \<Rightarrow> bytes \<Rightarrow> bytes \<Rightarrow> bool) \<Rightarrow> nat \<Rightarrow> dht_manager \<Rightarrow> hash32 \<Rightarrow> signed_provider_info list \<Rightarrow> dht_manager" where
  "handle_providers verify now d c providers =
     foldl (\<lambda>d p. snd (dm_add_provider verify now d c (sp_id p) (sp_addr p) (sp_public_key p) (sp_signature p))) d providers"

text \<open>An announcement takes the lock of the limiter twice, before and after the record is added.\<close>

definition store_checked :: "nat \<Rightarrow> dht_manager \<Rightarrow> node_id \<Rightarrow> store_check_result \<times> dht_manager" where
  "store_checked now d sender = (case check_store_allowed now (dm_limiter d) sender of (r, l) \<Rightarrow> (r, d\<lparr>dm_limiter := l\<rparr>))"

definition store_recorded :: "nat \<Rightarrow> dht_manager \<Rightarrow> node_id \<Rightarrow> bool \<Rightarrow> dht_manager" where
  "store_recorded now d sender is_new_provider = d\<lparr>dm_limiter := record_store now (dm_limiter d) sender is_new_provider\<rparr>"

definition handle_store ::
  "(bytes \<Rightarrow> bytes \<Rightarrow> bytes \<Rightarrow> bool) \<Rightarrow> nat \<Rightarrow> dht_manager \<Rightarrow> hash32 \<Rightarrow> bytes \<Rightarrow> bytes \<Rightarrow> node_id \<Rightarrow> socket_addr \<Rightarrow>
   (dht_error + dht_message option) \<times> dht_manager" where
  "handle_store verify now d c public_key sig sender addr =
     (case store_checked now d sender of
        (Allowed, d1) \<Rightarrow>
          let is_new_provider = (\<not> has_provider_for_content now d1 c sender)
          in (case dm_add_provider verify now d1 c sender addr public_key sig of
                (Inr _, d2) \<Rightarrow> (Inr (Some (StoreAck c True)), store_recorded now d2 sender is_new_provider)
              | (Inl (InvalidProviderSignature _ _), d2) \<Rightarrow> (Inr (Some (StoreAck c False)), d2)
              | (Inl e, d2) \<Rightarrow> (Inl e, d2))
      | (_, d1) \<Rightarrow> (Inr (Some (StoreAck c False)), d1))"

definition handle_message ::
  "(bytes \<Rightarrow> bytes \<Rightarrow> bytes \<Rightarrow> bool) \<Rightarrow> nat \<Rightarrow> dht_manager \<Rightarrow> dht_message \<Rightarrow> node_id \<Rightarrow> socket_addr \<Rightarrow>
   (dht_error + dht_message option) \<times> dht_manager" where
  "handle_message verify now d0 msg sender addr =
     (case on_node_seen now d0 sender addr of
        (Inl e, d) \<Rightarrow> (Inl e, d)
      | (Inr _, d) \<Rightarrow>
          (case msg of
             Ping nonce \<Rightarrow> (Inr (Some (Pong nonce)), d)
           | Pong _ \<Rightarrow> (Inr None, d)
           | FindNode target \<Rightarrow> (Inr (Some (Nodes (get_closest_nodes d target K))), d)
           | Nodes nodes \<Rightarrow> (Inr None, handle_nodes now d nodes)
           | FindValue c \<Rightarrow>
               let providers = get_local_providers now d c; has_value = is_local_content (dm_store d) c
               in (if providers \<noteq> [] \<or> has_value then (Inr (Some (Providers c providers has_value)), d)
                   else (Inr (Some (Nodes (get_closest_nodes d c K))), d))
           | Providers c providers _ \<Rightarrow> (Inr None, handle_providers verify now d c providers)
           | Store c _ public_key sig \<Rightarrow> handle_store verify now d c public_key sig sender addr
           | StoreAck _ _ \<Rightarrow> (Inr None, d)))"

definition handle_authenticated_message ::
  "(bytes \<Rightarrow> bytes \<Rightarrow> bytes \<Rightarrow> bool) \<Rightarrow> nat \<Rightarrow> dht_manager \<Rightarrow> authenticated_message \<Rightarrow> node_id \<Rightarrow> socket_addr \<Rightarrow> u64 \<Rightarrow>
   (dht_error + authenticated_message option) \<times> dht_manager" where
  "handle_authenticated_message verify now d a sender addr current_time_ms =
     (if sender \<noteq> am_sender_pubkey a then (Inl (InvalidMessageSignature sender), d)
      else if \<not> is_timestamp_valid a current_time_ms
      then (Inl (MessageTimestampInvalid sender (am_timestamp a) current_time_ms), d)
      else if \<not> verify (am_sender_pubkey a) (get_signing_payload a) (am_signature a)
      then (Inl (InvalidMessageSignature sender), d)
      else case handle_message verify now d (am_message a) sender addr of
             (Inl e, d') \<Rightarrow> (Inl e, d')
           | (Inr response, d') \<Rightarrow>
               (Inr (map_option (\<lambda>m. \<lparr>am_message = m, am_sender_pubkey = zero32, am_timestamp = current_time_ms,
                                       am_signature = replicate 64 0\<rparr>) response), d'))"

definition create_authenticated_response :: "dht_message \<Rightarrow> bytes \<Rightarrow> u64 \<Rightarrow> authenticated_message \<times> bytes" where
  "create_authenticated_response m sender_pubkey timestamp =
     (\<lparr>am_message = m, am_sender_pubkey = sender_pubkey, am_timestamp = timestamp, am_signature = replicate 64 0\<rparr>,
      dht_signing_message (msg_type m) (message_to_bytes m) timestamp)"

subsection \<open>The invariant\<close>

definition manager_ok :: "dht_manager \<Rightarrow> bool" where
  "manager_ok d \<longleftrightarrow> table_ok (dm_table d) \<and> rt_local_id (dm_table d) = dm_local_id d \<and> store_ok (dm_store d) \<and>
     limiter_ok (dm_limiter d) \<and> rl_max_providers (dm_limiter d) = MAX_PROVIDERS_PER_SENDER \<and>
     rl_max_per_min (dm_limiter d) = MAX_STORES_PER_SENDER_PER_MIN"

lemma manager_ok_new: "manager_ok (dm_new now i addr)"
proof -
  have "table_ok (rt_new i)" by (rule table.good_initial) blast
  then show ?thesis
    by (simp add: manager_ok_def dm_new_def limiter_ok_ops store_ok_def ps_new_def providers_of_def records_ok_def)
      (simp add: rl_new_def rt_new_def)
qed

lemma local_id_update: "rt_local_id (snd (rt_update now t i addr)) = rt_local_id t"
  using local_id_step [OF table_step.seen] .

lemma on_node_seen_parts:
  "snd (on_node_seen now d i addr) = d\<lparr>dm_table := snd (rt_update now (dm_table d) i addr)\<rparr>"
  by (simp add: on_node_seen_def split: prod.split sum.split)

lemma manager_ok_seen: "manager_ok d \<Longrightarrow> manager_ok (snd (on_node_seen now d i addr))"
  by (simp add: on_node_seen_parts manager_ok_def table_ok_update local_id_update)

lemma dm_add_provider_parts:
  "snd (dm_add_provider verify now d c i addr k s) =
     (if verify k (provider_signing_message c i addr) s
      then d\<lparr>dm_store := ps_add_provider now (dm_store d) c (pr_new now i addr k s)\<rparr> else d)"
  by (simp add: dm_add_provider_def)

lemma manager_ok_add: "manager_ok d \<Longrightarrow> manager_ok (snd (dm_add_provider verify now d c i addr k s))"
  by (simp add: dm_add_provider_parts manager_ok_def store_ok_add)

lemma manager_ok_nodes: "manager_ok d \<Longrightarrow> manager_ok (handle_nodes now d ns)"
  unfolding handle_nodes_def by (induction ns arbitrary: d) (simp_all add: manager_ok_seen)

lemma manager_ok_providers: "manager_ok d \<Longrightarrow> manager_ok (handle_providers verify now d c ps)"
  unfolding handle_providers_def by (induction ps arbitrary: d) (simp_all add: manager_ok_add)

text \<open>An announcement, in terms of the three parts of the state.\<close>

lemma handle_store_parts:
  "handle_store verify now d c k s i addr =
     (let (r, l) = check_store_allowed now (dm_limiter d) i in
      if r = Allowed \<and> verify k (provider_signing_message c i addr) s
      then (Inr (Some (StoreAck c True)),
            d\<lparr>dm_store := ps_add_provider now (dm_store d) c (pr_new now i addr k s),
              dm_limiter := record_store now l i (\<not> has_provider_for_content now d c i)\<rparr>)
      else (Inr (Some (StoreAck c False)), d\<lparr>dm_limiter := l\<rparr>))"
  by (auto simp: handle_store_def store_checked_def store_recorded_def dm_add_provider_def has_provider_for_content_def Let_def
      split: prod.split store_check_result.split)

lemma manager_ok_store: "manager_ok d \<Longrightarrow> manager_ok (snd (handle_store verify now d c k s i addr))"
  using limiter_ok_ops(3) [of "dm_limiter d" now i] limiter_limits(1,2) [of now "dm_limiter d" i]
  by (auto simp: handle_store_parts manager_ok_def Let_def store_ok_add limiter_ok_ops(4) limiter_limits(3,4) split: prod.split)

lemma manager_ok_handle: "manager_ok d \<Longrightarrow> manager_ok (snd (handle_message verify now d m i addr))"
proof -
  assume ok: "manager_ok d"
  obtain r d1 where s: "on_node_seen now d i addr = (r, d1)" by fastforce
  have "manager_ok d1" using manager_ok_seen [OF ok, of now i addr] s by simp
  then show ?thesis
    by (cases m) (simp_all add: handle_message_def s manager_ok_nodes manager_ok_providers manager_ok_store Let_def split: sum.split)
qed


subsection \<open>Steps of the node\<close>

inductive dht_step :: "(bytes \<Rightarrow> bytes \<Rightarrow> bytes \<Rightarrow> bool) \<Rightarrow> dht_manager \<Rightarrow> dht_manager \<Rightarrow> bool" for verify where
  message: "dht_step verify d (snd (handle_message verify now d m i addr))"
| envelope: "dht_step verify d (snd (handle_authenticated_message verify now d a i addr ms))"
| failure: "dht_step verify d (on_node_failed d i)"
| provide: "dht_step verify d (add_local_content now d c)"
| withdraw: "dht_step verify d (remove_local_content d c)"
| announce: "dht_step verify d (mark_content_announced now d c)"
| expire: "dht_step verify d (snd (cleanup_expired_providers now d))"

inductive_cases dht_stepE: "dht_step verify d d'"

lemma handle_authenticated_parts:
  "snd (handle_authenticated_message verify now d a i addr ms) = d \<or>
   snd (handle_authenticated_message verify now d a i addr ms) = snd (handle_message verify now d (am_message a) i addr)"
  by (simp add: handle_authenticated_message_def split: prod.split sum.split)

lemma manager_ok_step: "manager_ok d \<Longrightarrow> dht_step verify d d' \<Longrightarrow> manager_ok d'"
proof -
  assume ok: "manager_ok d" and "dht_step verify d d'"
  from this(2) show "manager_ok d'"
  proof (cases rule: dht_step.cases)
    case (message now m i addr)
    then show ?thesis using manager_ok_handle [OF ok] by simp
  next
    case (envelope now a i addr ms)
    then show ?thesis using handle_authenticated_parts [of verify now d a i addr ms] manager_ok_handle [OF ok] ok by metis
  next
    case (failure i)
    have "table_ok (rt_record_failure t i)" if "table_ok t" for t using that by (simp add: rt_record_failure_def table_ok_change)
    moreover have "rt_local_id (rt_record_failure t i) = rt_local_id t" for t using local_id_step [OF table_step.failed] .
    ultimately show ?thesis using ok failure by (simp add: manager_ok_def on_node_failed_def)
  next
    case (expire now)
    then show ?thesis using ok store_ok_cleanup [of "dm_store d" now]
      by (simp add: manager_ok_def cleanup_expired_providers_def split: prod.splits)
  qed (use ok in \<open>auto simp: manager_ok_def add_local_content_def remove_local_content_def mark_content_announced_def
      store_ok_add store_ok_local store_ok_remove\<close>)
qed


interpretation node: stepping_component "\<lambda>d. \<exists>now i addr. d = dm_new now i addr" "dht_step verify" manager_ok
  by unfold_locales (use manager_ok_new manager_ok_step in blast)+

text \<open>What a message leaves of the limiter and, unless it carries records, of the store.\<close>

lemma handle_nodes_parts: "dm_store (handle_nodes now d ns) = dm_store d \<and> dm_limiter (handle_nodes now d ns) = dm_limiter d"
  unfolding handle_nodes_def by (induction ns arbitrary: d) (simp_all add: on_node_seen_parts)

lemma handle_providers_limiter: "dm_limiter (handle_providers verify now d c ps) = dm_limiter d"
  unfolding handle_providers_def by (induction ps arbitrary: d) (simp_all add: dm_add_provider_parts)

text \<open>An announcement that reaches the limiter, and every other message.\<close>

lemma handle_message_limiter:
  obtains (other) "dm_limiter (snd (handle_message verify now d m i addr)) = dm_limiter d"
    and "\<forall>c. fst (handle_message verify now d m i addr) \<noteq> Inr (Some (StoreAck c True))"
  | (announced) c ttl k s d1 where "m = Store c ttl k s" "dm_limiter d1 = dm_limiter d" "dm_store d1 = dm_store d"
    "handle_message verify now d m i addr = handle_store verify now d1 c k s i addr"
proof -
  obtain r d1 where s: "on_node_seen now d i addr = (r, d1)" by fastforce
  have p: "dm_limiter d1 = dm_limiter d" "dm_store d1 = dm_store d" using arg_cong [OF s, of snd] by (auto simp: on_node_seen_parts)
  show ?thesis
  proof (cases r)
    case (Inl e)
    then show ?thesis using other s p by (simp add: handle_message_def)
  next
    case (Inr u)
    show ?thesis
    proof (cases m)
      case (Store c ttl k s')
      then show ?thesis using announced [OF Store p] s Inr by (simp add: handle_message_def)
    qed (use other s p Inr handle_nodes_parts [of now d1] handle_providers_limiter [of verify now d1] in
        \<open>simp_all add: handle_message_def Let_def\<close>)
  qed
qed

lemma count_handle:
  assumes "limiter_ok (dm_limiter d)"
  shows "provider_count (dm_limiter d) j \<le> provider_count (dm_limiter (snd (handle_message verify now d m i addr))) j"
proof (cases rule: handle_message_limiter [of verify now d m i addr])
  case (announced c ttl k s d1)
  obtain r l where "check_store_allowed now (dm_limiter d) i = (r, l)" by fastforce
  with check_entry(1) [OF assms, of now i j] announced show ?thesis
    by (auto simp: handle_store_parts provider_count_def record_store_entry split: prod.splits if_splits)
qed simp

lemma count_step:
  assumes "manager_ok d" and "dht_step verify d d'"
  shows "provider_count (dm_limiter d) j \<le> provider_count (dm_limiter d') j"
proof -
  have l: "limiter_ok (dm_limiter d)" using assms(1) by (simp add: manager_ok_def)
  from assms(2) show ?thesis
  proof (cases rule: dht_step.cases)
    case (message now m i addr)
    then show ?thesis using count_handle [OF l] by simp
  next
    case (envelope now a i addr ms)
    then show ?thesis using handle_authenticated_parts [of verify now d a i addr ms] count_handle [OF l] by (metis order_refl)
  qed (auto simp: on_node_failed_def add_local_content_def remove_local_content_def mark_content_announced_def
      cleanup_expired_providers_def split: prod.splits)
qed

lemma count_run:
  assumes "(dht_step verify)\<^sup>*\<^sup>* d d'" and "manager_ok d"
  shows "manager_ok d' \<and> provider_count (dm_limiter d) j \<le> provider_count (dm_limiter d') j"
  using assms
proof (induction rule: rtranclp_induct)
  case (step y z)
  then show ?case using manager_ok_step [of y verify z] count_step [of y verify z j] by auto
qed simp

lemma full_quota_refused:
  assumes "manager_ok d" and "MAX_PROVIDERS_PER_SENDER \<le> provider_count (dm_limiter d) i"
  shows "fst (handle_message verify now d (Store c ttl k s) i addr) \<noteq> Inr (Some (StoreAck c' True))"
proof (cases rule: handle_message_limiter [of verify now d "Store c ttl k s" i addr])
  case (announced c1 ttl1 k1 s1 d1)
  have ok: "limiter_ok (dm_limiter d)" "rl_max_providers (dm_limiter d) = MAX_PROVIDERS_PER_SENDER"
    using assms(1) by (simp_all add: manager_ok_def)
  have "fst (check_store_allowed now (dm_limiter d) i) \<noteq> Allowed" using check_result [OF ok(1), of now i] ok(2) assms(2) by auto
  then show ?thesis using announced by (auto simp: handle_store_parts Let_def split: prod.splits)
qed simp

text \<open>
  The quota of provider records of a sender is never returned: its count does not fall in any
  step of the node, not even when its records expire or are removed, an accepted announcement of new
  content raises it, and once it has reached 100 every announcement of that sender is refused for
  good, refreshes of its live records included.
\<close>

theorem store_quota_never_returned:
  assumes "manager_ok d" and "(dht_step verify)\<^sup>*\<^sup>* d d'"
  shows "provider_count (dm_limiter d) i \<le> provider_count (dm_limiter d') i \<and>
    (fst (handle_message verify now d' (Store c ttl k s) i addr) = Inr (Some (StoreAck c True)) \<and>
       \<not> has_provider_for_content now d' c i \<longrightarrow>
       provider_count (dm_limiter (snd (handle_message verify now d' (Store c ttl k s) i addr))) i =
         provider_count (dm_limiter d') i + 1) \<and>
    (100 \<le> provider_count (dm_limiter d) i \<longrightarrow>
       fst (handle_message verify now d' (Store c ttl k s) i addr) \<noteq> Inr (Some (StoreAck c True)))"
proof (intro conjI impI)
  note run = count_run [OF assms(2,1), of i]
  then show "provider_count (dm_limiter d) i \<le> provider_count (dm_limiter d') i" by simp
  show "fst (handle_message verify now d' (Store c ttl k s) i addr) \<noteq> Inr (Some (StoreAck c True))"
    if "100 \<le> provider_count (dm_limiter d) i"
    using full_quota_refused [of d' i] run that by (simp add: MAX_PROVIDERS_PER_SENDER_def)
  assume acc: "fst (handle_message verify now d' (Store c ttl k s) i addr) = Inr (Some (StoreAck c True)) \<and>
       \<not> has_provider_for_content now d' c i"
  show "provider_count (dm_limiter (snd (handle_message verify now d' (Store c ttl k s) i addr))) i =
         provider_count (dm_limiter d') i + 1"
  proof (cases rule: handle_message_limiter [of verify now d' "Store c ttl k s" i addr])
    case other
    then show ?thesis using acc by blast
  next
    case (announced c1 ttl1 k1 s1 d1)
    have l: "limiter_ok (dm_limiter d')" using run by (simp add: manager_ok_def)
    obtain r l' where "check_store_allowed now (dm_limiter d') i = (r, l')" by fastforce
    with check_entry(1) [OF l, of now i i] announced acc show ?thesis
      by (auto simp: handle_store_parts provider_count_def record_store_entry has_provider_for_content_def split: if_splits)
  qed
qed

definition sample_manager :: dht_manager where
  "sample_manager = dm_new 0 zero32 \<lparr>sa_ip = V4 [10, 0, 0, 1], sa_port = 9000\<rparr>"

definition used_quota :: "nat \<Rightarrow> dht_manager" where
  "used_quota n = sample_manager\<lparr>dm_limiter := (dm_limiter sample_manager)\<lparr>rl_senders := [([1], \<lparr>sr_request_times = [], sr_provider_count = n\<rparr>)]\<rparr>\<rparr>"

theorem store_quota_never_returned_witness:
  "fst (handle_message (\<lambda>_ _ _. True) 7 (snd (cleanup_expired_providers 5 (used_quota 100))) (Store [2] 0 [] []) [1]
     \<lparr>sa_ip = V4 [10, 0, 0, 2], sa_port = 9000\<rparr>) \<noteq> Inr (Some (StoreAck [2] True))"
proof -
  have "manager_ok (used_quota 100)"
    using manager_ok_new [of 0 zero32 "\<lparr>sa_ip = V4 [10, 0, 0, 1], sa_port = 9000\<rparr>"]
    by (simp add: used_quota_def sample_manager_def manager_ok_def limiter_ok_def)
  from store_quota_never_returned [OF this r_into_rtranclp, OF dht_step.expire, where i = "[1]"] show ?thesis
    by (simp add: used_quota_def provider_count_def sender_entry_def)
qed


subsection \<open>The rate of announcements\<close>

text \<open>
  Announcements side by side. A handler that has passed the check is open until it has recorded the announcement or
  given up; it looks for a record of the sender, adds its own and records the announcement, each under
  a lock of its own, and everything else may happen in between. No other code takes the lock of the
  limiter: \<open>elsewhere\<close> stands for all steps that leave the limiter as it is. A step is labelled
  with the announcements that it records, each with its sender and time.
\<close>

datatype store_phase = Checked | Probed bool | Added bool

record store_job =
  sj_sender :: node_id
  sj_addr :: socket_addr
  sj_content :: hash32
  sj_public_key :: bytes
  sj_signature :: bytes
  sj_phase :: store_phase

definition remove_job :: "nat \<Rightarrow> 'a list \<Rightarrow> 'a list" where
  "remove_job n js = take n js @ drop (Suc n) js"

inductive store_sched ::
  "(bytes \<Rightarrow> bytes \<Rightarrow> bytes \<Rightarrow> bool) \<Rightarrow> nat \<Rightarrow> dht_manager \<times> store_job list \<Rightarrow> (node_id \<times> nat) list \<Rightarrow>
   dht_manager \<times> store_job list \<Rightarrow> bool" for verify now where
  refused: "store_checked now d i = (r, d') \<Longrightarrow> r \<noteq> Allowed \<Longrightarrow> store_sched verify now (d, js) [] (d', js)"
| opened: "store_checked now d i = (Allowed, d') \<Longrightarrow>
    store_sched verify now (d, js) []
      (d', js @ [\<lparr>sj_sender = i, sj_addr = addr, sj_content = c, sj_public_key = k, sj_signature = sig, sj_phase = Checked\<rparr>])"
| probed: "n < length js \<Longrightarrow> sj_phase (js ! n) = Checked \<Longrightarrow>
    store_sched verify now (d, js) []
      (d, js[n := (js ! n)\<lparr>sj_phase := Probed (\<not> has_provider_for_content now d (sj_content (js ! n)) (sj_sender (js ! n)))\<rparr>])"
| added: "n < length js \<Longrightarrow> sj_phase (js ! n) = Probed new \<Longrightarrow>
    dm_add_provider verify now d (sj_content (js ! n)) (sj_sender (js ! n)) (sj_addr (js ! n)) (sj_public_key (js ! n)) (sj_signature (js ! n)) = (Inr u, d') \<Longrightarrow>
    store_sched verify now (d, js) [] (d', js[n := (js ! n)\<lparr>sj_phase := Added new\<rparr>])"
| failed: "n < length js \<Longrightarrow> sj_phase (js ! n) = Probed new \<Longrightarrow>
    dm_add_provider verify now d (sj_content (js ! n)) (sj_sender (js ! n)) (sj_addr (js ! n)) (sj_public_key (js ! n)) (sj_signature (js ! n)) = (Inl e, d') \<Longrightarrow>
    store_sched verify now (d, js) [] (d', remove_job n js)"
| recorded: "n < length js \<Longrightarrow> sj_phase (js ! n) = Added new \<Longrightarrow>
    store_sched verify now (d, js) [(sj_sender (js ! n), now)] (store_recorded now d (sj_sender (js ! n)) new, remove_job n js)"
| dropped: "n < length js \<Longrightarrow> store_sched verify now (d, js) [] (d, remove_job n js)"
| elsewhere: "dm_limiter d' = dm_limiter d \<Longrightarrow> store_sched verify now (d, js) [] (d', js)"

text \<open>A run of a fresh node, in which no sender ever has more than \<open>n\<close> announcements open.\<close>

definition open_of :: "node_id \<Rightarrow> store_job list \<Rightarrow> nat" where
  "open_of i js = length (filter (\<lambda>j. sj_sender j = i) js)"

inductive store_run ::
  "(bytes \<Rightarrow> bytes \<Rightarrow> bytes \<Rightarrow> bool) \<Rightarrow> nat \<Rightarrow> dht_manager \<times> store_job list \<Rightarrow> (node_id \<times> nat) list \<Rightarrow> nat \<Rightarrow> bool" for verify n where
  start: "store_run verify n (dm_new now me addr, []) [] now"
| step: "store_run verify n s acc now0 \<Longrightarrow> now0 \<le> now \<Longrightarrow> store_sched verify now s a s' \<Longrightarrow> (\<And>i. open_of i (snd s') \<le> n) \<Longrightarrow>
    store_run verify n s' (acc @ a) now"

definition times_of :: "node_id \<Rightarrow> (node_id \<times> nat) list \<Rightarrow> nat list" where
  "times_of i acc = map snd (filter (\<lambda>e. fst e = i) acc)"

lemma times_of_simps [simp]:
  "times_of i [] = []" "times_of i ((j, t) # acc) = (if j = i then t # times_of i acc else times_of i acc)"
  "times_of i (xs @ ys) = times_of i xs @ times_of i ys"
  by (simp_all add: times_of_def)

lemma open_of_simps [simp]:
  "open_of i [] = 0" "open_of i (js @ [j]) = open_of i js + (if sj_sender j = i then 1 else 0)"
  by (simp_all add: open_of_def)

lemma open_of_remove:
  assumes "n < length js"
  shows "open_of i js = open_of i (remove_job n js) + (if sj_sender (js ! n) = i then 1 else 0)"
proof -
  have "js = take n js @ js ! n # drop (Suc n) js" using id_take_nth_drop [OF assms] .
  then have "open_of i js = open_of i (take n js @ js ! n # drop (Suc n) js)" by simp
  then show ?thesis by (simp add: open_of_def remove_job_def)
qed

lemma open_of_phase: "n < length js \<Longrightarrow> open_of i (js[n := (js ! n)\<lparr>sj_phase := ph\<rparr>]) = open_of i js"
proof -
  assume n: "n < length js"
  have "js[n := j] = take n js @ j # drop (Suc n) js" for j using n by (simp add: upd_conv_take_nth_drop)
  then show ?thesis using open_of_remove [OF n, of i] by (simp add: open_of_def remove_job_def)
qed

text \<open>What the limiter knows of the announcements so far, and the bound that they keep with those still to come.\<close>

abbreviation in_window :: "nat \<Rightarrow> nat \<Rightarrow> bool" where
  "in_window w t \<equiv> w \<le> t \<and> t < w + nanos 60"

definition rate_inv :: "nat \<Rightarrow> dht_manager \<times> store_job list \<Rightarrow> (node_id \<times> nat) list \<Rightarrow> nat \<Rightarrow> bool" where
  "rate_inv n s acc now0 \<longleftrightarrow>
     limiter_ok (dm_limiter (fst s)) \<and> rl_max_per_min (dm_limiter (fst s)) = 60 \<and> rl_max_providers (dm_limiter (fst s)) = MAX_PROVIDERS_PER_SENDER \<and>
     (\<forall>i. (\<forall>t \<in> set (times_of i acc). t \<le> now0) \<and> open_of i (snd s) \<le> n \<and>
        (\<forall>now \<ge> now0. filter (in_minute now) (sr_request_times (sender_entry (dm_limiter (fst s)) i)) = filter (in_minute now) (times_of i acc)) \<and>
        (\<forall>w. length (filter (in_window w) (times_of i acc)) + (if now0 < w + nanos 60 then open_of i (snd s) else 0) \<le> 59 + n))"

lemma rate_invD:
  assumes "rate_inv n s acc now0"
  shows "limiter_ok (dm_limiter (fst s))" "rl_max_per_min (dm_limiter (fst s)) = 60" "rl_max_providers (dm_limiter (fst s)) = MAX_PROVIDERS_PER_SENDER"
    "t \<in> set (times_of i acc) \<Longrightarrow> t \<le> now0" "open_of i (snd s) \<le> n"
    "now0 \<le> now \<Longrightarrow> filter (in_minute now) (sr_request_times (sender_entry (dm_limiter (fst s)) i)) = filter (in_minute now) (times_of i acc)"
    "length (filter (in_window w) (times_of i acc)) + (if now0 < w + nanos 60 then open_of i (snd s) else 0) \<le> 59 + n"
  using assms unfolding rate_inv_def by blast+

lemma rate_invI:
  assumes "limiter_ok (dm_limiter (fst s))" "rl_max_per_min (dm_limiter (fst s)) = 60" "rl_max_providers (dm_limiter (fst s)) = MAX_PROVIDERS_PER_SENDER"
    and "\<And>i t. t \<in> set (times_of i acc) \<Longrightarrow> t \<le> now0" and "\<And>i. open_of i (snd s) \<le> n"
    and "\<And>i now. now0 \<le> now \<Longrightarrow> filter (in_minute now) (sr_request_times (sender_entry (dm_limiter (fst s)) i)) = filter (in_minute now) (times_of i acc)"
    and "\<And>i w. length (filter (in_window w) (times_of i acc)) + (if now0 < w + nanos 60 then open_of i (snd s) else 0) \<le> 59 + n"
  shows "rate_inv n s acc now0"
  using assms unfolding rate_inv_def by blast

lemma filter_minute_later:
  assumes "filter (in_minute now) xs = filter (in_minute now) ys" and "now \<le> now'"
  shows "filter (in_minute now') xs = filter (in_minute now') ys"
proof -
  have "filter (in_minute now') zs = filter (in_minute now') (filter (in_minute now) zs)" for zs
    using assms(2) by (auto intro!: filter_cong)
  then show ?thesis using assms(1) by metis
qed

text \<open>A step that neither opens nor records an announcement.\<close>

lemma rate_inv_same:
  assumes "rate_inv n s acc now0" and "now0 \<le> now" and "limiter_ok (dm_limiter d')"
    and "rl_max_per_min (dm_limiter d') = 60" "rl_max_providers (dm_limiter d') = MAX_PROVIDERS_PER_SENDER"
    and "\<And>j. filter (in_minute now) (sr_request_times (sender_entry (dm_limiter d') j)) = filter (in_minute now) (sr_request_times (sender_entry (dm_limiter (fst s)) j))"
    and "\<And>i. open_of i js' \<le> open_of i (snd s)"
  shows "rate_inv n (d', js') acc now"
proof (rule rate_invI)
  note I = rate_invD [OF assms(1)]
  show "t \<le> now" if "t \<in> set (times_of i acc)" for i t using I(4) [OF that] assms(2) by simp
  show "open_of i (snd (d', js')) \<le> n" for i using I(5) [of i] assms(7) [of i] by simp
  show "filter (in_minute now') (sr_request_times (sender_entry (dm_limiter (fst (d', js'))) i)) = filter (in_minute now') (times_of i acc)"
    if "now \<le> now'" for i now'
    using filter_minute_later [OF assms(6) that, of i] I(6) [of now' i] that assms(2) by simp
  show "length (filter (in_window w) (times_of i acc)) + (if now < w + nanos 60 then open_of i (snd (d', js')) else 0) \<le> 59 + n" for i w
    using I(7) [of w i] assms(7) [of i] assms(2) by (auto split: if_splits)
qed (use assms(3-5) in simp_all)

text \<open>A check that is passed: fewer than sixty announcements were recorded in the minute before.\<close>

lemma minute_length:
  assumes "rate_inv n s acc now0" and "now0 \<le> now"
  shows "length (filter (in_minute now) (times_of i acc)) \<le> 59 + n"
proof -
  have "in_minute now t \<longleftrightarrow> in_window (now + 1 - nanos 60) t" if "t \<in> set (times_of i acc)" for t
    using rate_invD(4) [OF assms(1) that] assms(2) by (auto simp: nanos_def)
  then have "filter (in_minute now) (times_of i acc) = filter (in_window (now + 1 - nanos 60)) (times_of i acc)" by (rule filter_cong [OF refl])
  then show ?thesis using rate_invD(7) [OF assms(1), of "now + 1 - nanos 60" i] by simp
qed

lemma rate_inv_opened:
  assumes "rate_inv n (d, js) acc now0" and "now0 \<le> now" and "store_checked now d i = (Allowed, d')"
    and "\<And>j. open_of j js' \<le> n" and "\<And>j. j \<noteq> i \<Longrightarrow> open_of j js' = open_of j js" and "n < 2 ^ 31"
  shows "rate_inv n (d', js') acc now"
proof -
  note I = rate_invD [OF assms(1), simplified]
  have d: "dm_limiter d' = snd (check_store_allowed now (dm_limiter d) i)" "fst (check_store_allowed now (dm_limiter d) i) = Allowed"
    using assms(3) by (auto simp: store_checked_def split: prod.splits)
  have "(word_of_nat (length (filter (in_minute now) (times_of i acc))) :: u32) < 60"
    using d(2) check_result [OF I(1), of now i] I(2) I(6) [OF assms(2), of i] by (auto split: if_splits)
  then have few: "length (filter (in_minute now) (times_of i acc)) < 60"
    using minute_length [OF assms(1,2), of i] assms(6) by (simp add: word_less_nat_alt unat_of_nat)
  have w: "length (filter (in_window w) (times_of j acc)) + (if now < w + nanos 60 then open_of j js' else 0) \<le> 59 + n" for j w
  proof (cases "j = i \<and> now < w + nanos 60")
    case True
    have "in_minute now t \<and> in_window w t \<longleftrightarrow> in_window w t" for t using True by auto
    then have "filter (in_window w) (filter (in_minute now) (times_of i acc)) = filter (in_window w) (times_of i acc)"
      by (simp only: filter_filter)
    then have "length (filter (in_window w) (times_of i acc)) \<le> length (filter (in_minute now) (times_of i acc))"
      using length_filter_le [of "in_window w" "filter (in_minute now) (times_of i acc)"] by (simp only:)
    then have "length (filter (in_window w) (times_of i acc)) < 60" using few by simp
    then show ?thesis using True assms(4) [of i] by simp
  next
    case False
    then show ?thesis using I(7) [of w j] assms(2) assms(5) [of j] by (auto split: if_splits)
  qed
  show ?thesis
  proof (rule rate_invI)
    show "t \<le> now" if "t \<in> set (times_of j acc)" for j t using I(4) [OF that] assms(2) by simp
    show "filter (in_minute now') (sr_request_times (sender_entry (dm_limiter (fst (d', js'))) j)) = filter (in_minute now') (times_of j acc)"
      if "now \<le> now'" for j now'
      using filter_minute_later [OF check_entry(2) [OF I(1), of now i j] that] I(6) [of now' j] that assms(2) by (simp add: d)
    show "length (filter (in_window w) (times_of j acc)) + (if now < w + nanos 60 then open_of j (snd (d', js')) else 0) \<le> 59 + n" for j w
      using w [of w j] by (simp only: snd_conv)
  qed (use I(1-3) assms(4) limiter_ok_ops(3) [OF I(1)] in \<open>simp_all add: d limiter_limits\<close>)
qed

lemma rate_inv_recorded:
  assumes "rate_inv n (d, js) acc now0" and "now0 \<le> now" and "\<And>j. open_of j js = open_of j js' + (if j = i then 1 else 0)"
  shows "rate_inv n (store_recorded now d i new, js') (acc @ [(i, now)]) now"
proof -
  note I = rate_invD [OF assms(1), simplified]
  show ?thesis
  proof (rule rate_invI)
    show "t \<le> now" if "t \<in> set (times_of j (acc @ [(i, now)]))" for j t
      using that I(4) [of t j] assms(2) by (auto split: if_splits)
    show "open_of j (snd (store_recorded now d i new, js')) \<le> n" for j using I(5) [of j] assms(3) [of j] by simp
    show "filter (in_minute now') (sr_request_times (sender_entry (dm_limiter (fst (store_recorded now d i new, js'))) j)) =
        filter (in_minute now') (times_of j (acc @ [(i, now)]))" if "now \<le> now'" for j now'
      using I(6) [of now' j] that assms(2) by (simp add: store_recorded_def record_store_entry)
    show "length (filter (in_window w) (times_of j (acc @ [(i, now)]))) +
        (if now < w + nanos 60 then open_of j (snd (store_recorded now d i new, js')) else 0) \<le> 59 + n" for j w
      using I(7) [of w j] assms(2) assms(3) [of j] by (auto split: if_splits)
  qed (use I limiter_ok_ops(4) [OF I(1)] in \<open>simp_all add: store_recorded_def limiter_limits\<close>)
qed

lemma rate_inv_sched:
  assumes "store_sched verify now s a s'" and "rate_inv n s acc now0" and "now0 \<le> now"
    and "\<And>i. open_of i (snd s') \<le> n" and "n < 2 ^ 31"
  shows "rate_inv n s' (acc @ a) now"
proof -
  note I = rate_invD [OF assms(2)]
  from assms(1) show ?thesis
  proof (cases rule: store_sched.cases)
    case (refused d i r d' js)
    then have "dm_limiter d' = snd (check_store_allowed now (dm_limiter d) i)" by (auto simp: store_checked_def split: prod.splits)
    with refused I(1-3) check_entry(2) [of "dm_limiter d" now i] show ?thesis
      by (auto intro!: rate_inv_same [OF assms(2,3)] simp: limiter_limits limiter_ok_ops(3))
  next
    case (opened d i d' js addr c k sig)
    from rate_inv_opened [OF assms(2) [unfolded opened(1)] assms(3) opened(4) assms(4) [unfolded opened(3) snd_conv] _ assms(5)] show ?thesis
      unfolding opened(2,3) append_Nil2 by simp
  next
    case (probed k js d)
    with I(1-3) show ?thesis by (auto intro!: rate_inv_same [OF assms(2,3)] simp: open_of_phase)
  next
    case (added k js new d u d')
    with I(1-3) show ?thesis by (auto intro!: rate_inv_same [OF assms(2,3)] simp: open_of_phase dm_add_provider_def split: if_splits)
  next
    case (failed k js new d e d')
    with I(1-3) open_of_remove [OF failed(4)] show ?thesis
      by (auto intro!: rate_inv_same [OF assms(2,3)] simp: dm_add_provider_def split: if_splits)
  next
    case (recorded k js new d)
    have "open_of j js = open_of j (remove_job k js) + (if j = sj_sender (js ! k) then 1 else 0)" for j
      using open_of_remove [OF recorded(4)] by simp
    from rate_inv_recorded [OF assms(2) [unfolded recorded(1)] assms(3) this] show ?thesis by (simp add: recorded)
  next
    case (dropped k js d)
    with I(1-3) open_of_remove [OF dropped(4)] show ?thesis by (auto intro!: rate_inv_same [OF assms(2,3)])
  next
    case (elsewhere d' d js)
    with I(1-3) show ?thesis by (auto intro!: rate_inv_same [OF assms(2,3)])
  qed
qed

lemma rate_inv_run: "store_run verify n s acc now \<Longrightarrow> n < 2 ^ 31 \<Longrightarrow> rate_inv n s acc now"
proof (induction rule: store_run.induct)
  case (start now me addr)
  show ?case by (rule rate_invI)
    (simp_all add: dm_new_def limiter_ok_ops(1), simp_all add: rl_new_def sender_entry_def sr_new_def MAX_STORES_PER_SENDER_PER_MIN_def)
next
  case (step s acc now0 now a s')
  then show ?case by (intro rate_inv_sched [OF step.hyps(3)]) simp_all
qed

text \<open>
  C40. Whatever messages a fresh node receives, on however many connections and however their handlers interleave, it
  records at most \<open>59 + n\<close> announcements of one sender in any minute, where \<open>n\<close> is the greatest number of
  announcements of one sender that have passed the check and are not yet recorded or given up: sixty, as
  the limit says, when the announcements of a sender are handled one after the other, and more when they
  are not, since the check and the record are two accesses under two locks.
\<close>

theorem store_rate_bounded:
  assumes "store_run verify n s acc now" and "n < 2 ^ 31"
  shows "length (filter (\<lambda>t. w \<le> t \<and> t < w + nanos 60) (times_of i acc)) \<le> 59 + n"
  using rate_invD(7) [OF rate_inv_run [OF assms], of w i] by simp

text \<open>
  The bound is met: with \<open>n\<close> handlers side by side a sender gets in \<open>59 + n\<close> announcements in one instant. Fifty-nine
  are recorded one by one; then \<open>n\<close> more pass the check before the first of them is recorded.
\<close>

definition burst :: "nat \<Rightarrow> node_id \<Rightarrow> nat \<Rightarrow> nat \<Rightarrow> bool" where
  "burst n i m k \<longleftrightarrow> (\<exists>d js acc. store_run (\<lambda>_ _ _. True) n (d, js) acc 0 \<and> times_of i acc = replicate m 0 \<and>
     length js = k \<and> (\<forall>j \<in> set js. sj_sender j = i \<and> sj_phase j = Checked) \<and> provider_count (dm_limiter d) i \<le> m)"

lemma open_of_burst: "\<forall>j \<in> set js. sj_sender j = i \<Longrightarrow> open_of x js = (if x = i then length js else 0)"
  by (auto simp: open_of_def filter_empty_conv)

lemma burst_open:
  assumes "burst n i m k" and "m \<le> 59" "k < n" "n < 2 ^ 31"
  shows "burst n i m (Suc k)"
proof -
  from assms(1) obtain d js acc where r: "store_run (\<lambda>_ _ _. True) n (d, js) acc 0" "times_of i acc = replicate m 0"
    "length js = k" "\<forall>j \<in> set js. sj_sender j = i \<and> sj_phase j = Checked" "provider_count (dm_limiter d) i \<le> m"
    unfolding burst_def by blast
  note I = rate_invD [OF rate_inv_run [OF r(1) assms(4)], simplified]
  let ?l = "snd (check_store_allowed 0 (dm_limiter d) i)"
  let ?j = "\<lparr>sj_sender = i, sj_addr = \<lparr>sa_ip = V4 [], sa_port = 0\<rparr>, sj_content = [], sj_public_key = [], sj_signature = [], sj_phase = Checked\<rparr>"
  have "length (filter (in_minute 0) (sr_request_times (sender_entry (dm_limiter d) i))) = m"
    using I(6) [of 0 i] r(2) by (simp add: nanos_def)
  then have "fst (check_store_allowed 0 (dm_limiter d) i) = Allowed"
    using check_result [OF I(1), of 0 i] I(2,3) r(5) assms(2) by (simp add: word_less_nat_alt unat_of_nat MAX_PROVIDERS_PER_SENDER_def)
  then have "store_checked 0 d i = (Allowed, d\<lparr>dm_limiter := ?l\<rparr>)" by (auto simp: store_checked_def split: prod.splits)
  from store_sched.opened [OF this]
  have "store_sched (\<lambda>_ _ _. True) 0 (d, js) [] (d\<lparr>dm_limiter := ?l\<rparr>, js @ [?j])" .
  moreover have "open_of x (js @ [?j]) \<le> n" for x using open_of_burst [of js i x] r(3,4) assms(3) by simp
  ultimately have "store_run (\<lambda>_ _ _. True) n (d\<lparr>dm_limiter := ?l\<rparr>, js @ [?j]) (acc @ []) 0"
    by (intro store_run.step [OF r(1)]) simp_all
  moreover have "provider_count ?l i \<le> m" using r(5) check_entry(1) [OF I(1)] by (simp add: provider_count_def)
  ultimately show ?thesis unfolding burst_def using r(2-4)
    by (intro exI [of _ "d\<lparr>dm_limiter := ?l\<rparr>"] exI [of _ "js @ [?j]"] exI [of _ acc]) auto
qed

lemma burst_record:
  assumes "burst n i m (Suc k)" and "Suc k \<le> n" "n < 2 ^ 31"
  shows "burst n i (Suc m) k"
proof -
  from assms(1) obtain d js acc where r: "store_run (\<lambda>_ _ _. True) n (d, js) acc 0" "times_of i acc = replicate m 0"
    "length js = Suc k" "\<forall>j \<in> set js. sj_sender j = i \<and> sj_phase j = Checked" "provider_count (dm_limiter d) i \<le> m"
    unfolding burst_def by blast
  then obtain j js0 where js: "js = j # js0" by (cases js) auto
  have j: "sj_sender j = i" "sj_phase j = Checked" "\<forall>j \<in> set js0. sj_sender j = i" using r(4) js by simp_all
  have few: "open_of x (j\<lparr>sj_phase := ph\<rparr> # js0) \<le> n" "open_of x js0 \<le> n" for x ph
    using r(3) js j assms(2) open_of_burst [of js0 i x] open_of_burst [of "j\<lparr>sj_phase := ph\<rparr> # js0" i x] by simp_all
  define new where "new = (\<not> has_provider_for_content 0 d (sj_content j) i)"
  define d1 where "d1 = snd (dm_add_provider (\<lambda>_ _ _. True) 0 d (sj_content j) i (sj_addr j) (sj_public_key j) (sj_signature j))"
  have add: "dm_add_provider (\<lambda>_ _ _. True) 0 d (sj_content j) i (sj_addr j) (sj_public_key j) (sj_signature j) = (Inr (), d1)"
    and lim: "dm_limiter d1 = dm_limiter d"
    by (simp_all add: d1_def dm_add_provider_def)
  have s1: "store_sched (\<lambda>_ _ _. True) 0 (d, js) [] (d, j\<lparr>sj_phase := Probed new\<rparr> # js0)"
    using store_sched.probed [of 0 js _ 0 d] j by (simp add: js new_def)
  have s2: "store_sched (\<lambda>_ _ _. True) 0 (d, j\<lparr>sj_phase := Probed new\<rparr> # js0) [] (d1, j\<lparr>sj_phase := Added new\<rparr> # js0)"
    using store_sched.added [of 0 "j\<lparr>sj_phase := Probed new\<rparr> # js0" new "\<lambda>_ _ _. True" 0 d "()" d1] j(1) add by simp
  have s3: "store_sched (\<lambda>_ _ _. True) 0 (d1, j\<lparr>sj_phase := Added new\<rparr> # js0) [(i, 0)] (store_recorded 0 d1 i new, js0)"
    using store_sched.recorded [of 0 "j\<lparr>sj_phase := Added new\<rparr> # js0" new "\<lambda>_ _ _. True" 0 d1] j(1) by (simp add: remove_job_def)
  have "store_run (\<lambda>_ _ _. True) n (store_recorded 0 d1 i new, js0) (((acc @ []) @ []) @ [(i, 0)]) 0"
    using few by (intro store_run.step [OF store_run.step [OF store_run.step [OF r(1) _ s1] _ s2] _ s3]) simp_all
  moreover have "times_of i (((acc @ []) @ []) @ [(i, 0)]) = replicate (Suc m) 0"
    using r(2) by (simp add: replicate_append_same)
  moreover have "provider_count (dm_limiter (store_recorded 0 d1 i new)) i \<le> Suc m"
    using r(5) by (simp add: store_recorded_def provider_count_def record_store_entry lim)
  moreover have "length js0 = k" "\<forall>j \<in> set js0. sj_sender j = i \<and> sj_phase j = Checked" using r(3,4) js by simp_all
  ultimately show ?thesis unfolding burst_def by blast
qed

lemma burst_series: "burst n i m 0 \<Longrightarrow> 0 < n \<Longrightarrow> n < 2 ^ 31 \<Longrightarrow> m + k \<le> 59 \<Longrightarrow> burst n i (m + k) 0"
proof (induction k)
  case (Suc k)
  from Suc have "burst n i (m + k) (Suc 0)" by (intro burst_open) simp_all
  from burst_record [OF this] Suc.prems show ?case by simp
qed simp

lemma burst_crowd: "burst n i m 0 \<Longrightarrow> n < 2 ^ 31 \<Longrightarrow> m \<le> 59 \<Longrightarrow> k \<le> n \<Longrightarrow> burst n i m k"
  by (induction k) (simp_all add: burst_open)

lemma burst_drain: "burst n i m k \<Longrightarrow> n < 2 ^ 31 \<Longrightarrow> k \<le> n \<Longrightarrow> burst n i (m + k) 0"
proof (induction k arbitrary: m)
  case (Suc k)
  from Suc.IH [OF burst_record [OF Suc.prems(1,3,2)]] Suc.prems show ?case by simp
qed simp

lemma store_burst:
  assumes "0 < n" and "n < 2 ^ 31"
  shows "\<exists>s acc now. store_run (\<lambda>_ _ _. True) n s acc now \<and>
    length (filter (\<lambda>t. 0 \<le> t \<and> t < 0 + nanos 60) (times_of i acc)) = 59 + n"
proof -
  have "burst n i 0 0"
    unfolding burst_def using store_run.start [of "\<lambda>_ _ _. True" n 0]
    by (fastforce simp: dm_new_def rl_new_def provider_count_def sender_entry_def sr_new_def)
  from burst_drain [OF burst_crowd [OF burst_series [OF this assms, of 59]]] assms
  have "burst n i (59 + n) 0" by simp
  then obtain d js acc where "store_run (\<lambda>_ _ _. True) n (d, js) acc 0" "times_of i acc = replicate (59 + n) 0"
    unfolding burst_def by blast
  then show ?thesis by (intro exI [of _ "(d, js)"] exI [of _ acc] exI [of _ 0]) (simp add: nanos_def)
qed

theorem store_rate_bounded_witness:
  "\<exists>s acc now. store_run (\<lambda>_ _ _. True) 1 s acc now \<and>
     length (filter (\<lambda>t. 0 \<le> t \<and> t < 0 + nanos 60) (times_of [1] acc)) = 60 \<and>
     length (filter (\<lambda>t. 7 \<le> t \<and> t < 7 + nanos 60) (times_of [1] acc)) \<le> 60"
proof -
  from store_burst [of 1 "[1]"] obtain s acc now where r: "store_run (\<lambda>_ _ _. True) 1 s acc now"
    "length (filter (\<lambda>t. 0 \<le> t \<and> t < 0 + nanos 60) (times_of [1] acc)) = 60" by auto
  moreover have "length (filter (\<lambda>t. 7 \<le> t \<and> t < 7 + nanos 60) (times_of [1] acc)) \<le> 60"
    using store_rate_bounded [OF r(1), of 7 "[1]"] by simp
  ultimately show ?thesis by blast
qed

text \<open>Two handlers side by side are enough to exceed the limit of sixty.\<close>

theorem store_limit_exceeded:
  "\<exists>s acc now. store_run (\<lambda>_ _ _. True) 2 s acc now \<and>
     length (filter (\<lambda>t. 0 \<le> t \<and> t < 0 + nanos 60) (times_of [1] acc)) = 61"
  using store_burst [of 2 "[1]"] by simp

text \<open>
  A provider record is not tied to the node it names. A signature under any key lets any peer
  register a record for another node with an address of its choice; when that node later announces
  the content itself, the announcement is accepted but only refreshes the record, and the address
  that is served for the node stays the first one.
\<close>

theorem provider_address_hijack:
  assumes "manager_ok d" and "\<forall>p \<in> set (providers_of (dm_store d) c). pr_node_id p \<noteq> victim"
    and "verify k (provider_signing_message c victim evil) s"
    and "handle_message verify now d (Providers c [\<lparr>sp_id = victim, sp_addr = evil, sp_public_key = k, sp_signature = s\<rparr>] v) attacker a
      = (Inr None, d1)"
    and "handle_message verify later d1 (Store c ttl k' s') victim addr = (Inr (Some (StoreAck c True)), d2)"
  shows "(\<forall>p \<in> set (providers_of (dm_store d2) c). pr_node_id p = victim \<longrightarrow> pr_addr p = evil) \<and>
    (\<exists>p \<in> set (providers_of (dm_store d2) c). pr_node_id p = victim \<and> \<not> pr_is_expired later p)"
proof -
  let ?r = "pr_new now victim evil k s" and ?ps = "providers_of (dm_store d) c"
  obtain x d0 where seen: "on_node_seen now d attacker a = (x, d0)" by fastforce
  have "dm_store d0 = dm_store d" using arg_cong [OF seen, of snd] by (auto simp: on_node_seen_parts)
  then have "dm_store d1 = ps_add_provider now (dm_store d) c ?r"
    using assms(3,4) seen by (auto simp: handle_message_def handle_providers_def dm_add_provider_parts split: sum.splits)
  then have ps1: "providers_of (dm_store d1) c = insert_provider now ?ps ?r" by simp
  have id: "pr_node_id ?r = victim" by (simp add: pr_new_def)
  have "records_ok ?ps" using assms(1) by (simp add: manager_ok_def store_ok_def)
  note ins = records_ok_insert [OF this, where now = now and r = ?r, unfolded id]
  have evil: "p \<in> set (insert_provider now ?ps ?r) \<Longrightarrow> pr_node_id p = victim \<Longrightarrow> p = ?r" for p
    using insert_provider_mem [of p now ?ps ?r] assms(2) by (auto simp: id)
  have d2: "dm_store d2 = ps_add_provider later (dm_store d1) c (pr_new later victim addr k' s')"
  proof (cases rule: handle_message_limiter [of verify later d1 "Store c ttl k' s'" victim addr])
    case other
    then show ?thesis using assms(5) by simp
  next
    case (announced c2 ttl2 k2 s2 d3)
    then show ?thesis using assms(5) by (auto simp: handle_store_parts Let_def split: prod.splits if_splits)
  qed
  have "providers_of (dm_store d2) c = refresh_first later victim (insert_provider now ?ps ?r)"
    using ins(2) by (auto simp: d2 ps1 pr_new_def insert_provider_def [of later] image_iff)
  moreover have "\<forall>p \<in> set (refresh_first later victim qs). pr_node_id p = victim \<longrightarrow> pr_addr p = evil"
    if "\<forall>p \<in> set qs. pr_node_id p = victim \<longrightarrow> pr_addr p = evil" for qs
    using that by (induction qs) (auto simp: pr_refresh_def)
  moreover have "\<exists>p \<in> set (refresh_first later victim qs). pr_node_id p = victim \<and> \<not> pr_is_expired later p"
    if "victim \<in> pr_node_id ` set qs" for qs
    using that by (induction qs) (auto simp: pr_refresh_def pr_is_expired_def)
  moreover have "\<forall>p \<in> set (insert_provider now ?ps ?r). pr_node_id p = victim \<longrightarrow> pr_addr p = evil"
  proof (intro ballI impI)
    fix p assume "p \<in> set (insert_provider now ?ps ?r)" and "pr_node_id p = victim"
    then have "p = ?r" by (rule evil)
    then show "pr_addr p = evil" by (simp add: pr_new_def)
  qed
  ultimately show ?thesis using ins(2) by simp
qed


definition host_addr :: "byte \<Rightarrow> socket_addr" where
  "host_addr x = \<lparr>sa_ip = V4 [10, 0, x, 1], sa_port = 9000\<rparr>"

text \<open>Messages to a node with an empty table, from a peer at another distance than the local node.\<close>

lemma first_contact:
  assumes "bucket_index (dm_local_id d) i = Some b" and "kb_nodes (rt_buckets (dm_table d) ! b) = []"
    and "kb_subnet_counts (rt_buckets (dm_table d) ! b) = Map.empty" and "manager_ok d"
  shows "fst (on_node_seen now d i addr) = Inr ()"
proof -
  have "i \<noteq> dm_local_id d" using assms(1) by auto
  moreover have "b < length (rt_buckets (dm_table d))" using bucket_index_less [OF assms(1)] assms(4)
    by (simp add: manager_ok_def table_ok_def NUM_BUCKETS_def)
  ultimately show ?thesis using assms
    by (simp add: on_node_seen_def rt_update_def rt_bucket_def manager_ok_def kb_update_def pick_node_def extract_Nil_code
        subnet_count_def MAX_NODES_PER_SUBNET_def kb_is_full_def K_def Let_def)
qed

lemma handle_providers_table: "dm_table (handle_providers verify now d c ps) = dm_table d \<and> dm_local_id (handle_providers verify now d c ps) = dm_local_id d"
  unfolding handle_providers_def by (induction ps arbitrary: d) (simp_all add: dm_add_provider_parts)

lemma sample_manager_ok: "manager_ok sample_manager"
  unfolding sample_manager_def by (rule manager_ok_new)

theorem provider_address_hijack_witness:
  "case handle_message (\<lambda>_ _ _. True) 3 sample_manager
      (Providers [2] [\<lparr>sp_id = [8], sp_addr = host_addr 66, sp_public_key = [], sp_signature = []\<rparr>] False) [1] (host_addr 66) of (_, d1) \<Rightarrow>
   case handle_message (\<lambda>_ _ _. True) 4 d1 (Store [2] 0 [] []) [8] (host_addr 8) of (r, d2) \<Rightarrow>
     \<forall>p \<in> set (providers_of (dm_store d2) [2]). pr_node_id p = [8] \<longrightarrow> pr_addr p = host_addr 66"
proof -
  let ?v = "\<lambda>_ _ _. True"
  let ?ps = "[\<lparr>sp_id = [8], sp_addr = host_addr 66, sp_public_key = [], sp_signature = []\<rparr>]"
  have b: "bucket_index zero32 [1] = Some 248" "bucket_index zero32 [8] = Some 251" by code_simp+
  have init: "dm_local_id sample_manager = zero32" "dm_table sample_manager = rt_new zero32" "dm_limiter sample_manager = rl_new 0"
    by (simp_all add: sample_manager_def dm_new_def)
  have empty: "kb_nodes (rt_buckets (rt_new zero32) ! i) = [] \<and> kb_subnet_counts (rt_buckets (rt_new zero32) ! i) = Map.empty" if "i < 256" for i
    using that by (simp add: rt_new_def kb_new_def NUM_BUCKETS_def ID_BITS_def)
  have "fst (on_node_seen 3 sample_manager [1] (host_addr 66)) = Inr ()"
    by (rule first_contact [where b = 248]) (simp_all add: init b empty sample_manager_ok)
  then obtain d0 where s0: "on_node_seen 3 sample_manager [1] (host_addr 66) = (Inr (), d0)" by (metis prod.collapse)
  have d0: "d0 = sample_manager\<lparr>dm_table := snd (rt_update 3 (rt_new zero32) [1] (host_addr 66))\<rparr>"
    using arg_cong [OF s0, of snd] by (simp add: on_node_seen_parts init)
  let ?d1 = "handle_providers ?v 3 d0 [2] ?ps"
  have 1: "handle_message ?v 3 sample_manager (Providers [2] ?ps False) [1] (host_addr 66) = (Inr None, ?d1)"
    by (simp add: handle_message_def s0)
  have d1: "dm_local_id ?d1 = zero32" "dm_table ?d1 = snd (rt_update 3 (rt_new zero32) [1] (host_addr 66))" "dm_limiter ?d1 = rl_new 0" "manager_ok ?d1"
    using handle_providers_table [of ?v 3 d0 "[2]" ?ps] handle_providers_limiter [of ?v 3 d0 "[2]" ?ps]
      manager_ok_handle [OF sample_manager_ok, of ?v 3 "Providers [2] ?ps False" "[1]" "host_addr 66"]
    unfolding 1 by (simp_all add: d0 init)
  obtain r t' where rt: "rt_update 3 (rt_new zero32) [1] (host_addr 66) = (r, t')" by fastforce
  have "table_ok (rt_new zero32)" using sample_manager_ok by (simp add: manager_ok_def init)
  from rt_update_bucket [OF this rt] have "t' = rt_new zero32 \<or> (\<exists>b'. t' = set_bucket (rt_new zero32) 248 b')"
    by (auto simp: rt_new_def b)
  then have "rt_buckets t' ! 251 = rt_buckets (rt_new zero32) ! 251" by (auto simp: set_bucket_def)
  then have "fst (on_node_seen 4 ?d1 [8] (host_addr 8)) = Inr ()"
    using empty [of 251] by (intro first_contact [where b = 251]) (simp_all add: d1 b rt)
  then obtain d1' where s1: "on_node_seen 4 ?d1 [8] (host_addr 8) = (Inr (), d1')" by (metis prod.collapse)
  have "dm_limiter d1' = rl_new 0" using arg_cong [OF s1, of snd] d1(3) by (auto simp: on_node_seen_parts)
  moreover have "fst (check_store_allowed 4 (rl_new 0) [8]) = Allowed"
    by (subst check_result [OF limiter_ok_ops(1)])
      (simp add: rl_new_def sender_entry_def sr_new_def provider_count_def MAX_STORES_PER_SENDER_PER_MIN_def MAX_PROVIDERS_PER_SENDER_def)
  ultimately have "fst (handle_message ?v 4 ?d1 (Store [2] 0 [] []) [8] (host_addr 8)) = Inr (Some (StoreAck [2] True))"
    by (cases "check_store_allowed 4 (rl_new 0) [8]") (simp add: handle_message_def s1 handle_store_parts Let_def)
  then obtain d2 where 2: "handle_message ?v 4 ?d1 (Store [2] 0 [] []) [8] (host_addr 8) = (Inr (Some (StoreAck [2] True)), d2)"
    by (metis prod.collapse)
  have "\<forall>p \<in> set (providers_of (dm_store sample_manager) [2]). pr_node_id p \<noteq> [8]"
    by (simp add: sample_manager_def dm_new_def ps_new_def providers_of_def)
  then show ?thesis using provider_address_hijack [OF sample_manager_ok _ _ 1 2] unfolding 1 prod.case 2 by blast
qed


text \<open>
  Authentication is sound: a message in an envelope reaches the handler only with a valid
  signature of its text by the key that is the sender's identifier, within five minutes of its
  timestamp. But identifiers of nodes are hashes of their keys, so the envelopes of every node whose
  key is not its own hash are refused.
\<close>

theorem envelope_authenticates:
  "(\<forall>r d'. handle_authenticated_message verify now d a i addr ms = (Inr r, d') \<longrightarrow>
      am_sender_pubkey a = i \<and> verify i (get_signing_payload a) (am_signature a) \<and>
      am_timestamp a \<le> ms + 300000 \<and> ms \<le> am_timestamp a + 300000) \<and>
   (H (am_sender_pubkey a) \<noteq> am_sender_pubkey a \<longrightarrow>
      handle_authenticated_message verify now d a (id_from_public_key H (am_sender_pubkey a)) addr ms =
        (Inl (InvalidMessageSignature (id_from_public_key H (am_sender_pubkey a))), d))"
  by (auto simp: handle_authenticated_message_def is_timestamp_valid_def MESSAGE_MAX_AGE_MS_def id_from_public_key_def
      split: if_splits)

theorem envelope_authenticates_witness:
  "handle_authenticated_message (\<lambda>_ _ _. True) 0 sample_manager sample_auth (id_from_public_key (\<lambda>_. replicate 32 1) zero32) (host_addr 1) 1000 =
     (Inl (InvalidMessageSignature (replicate 32 1)), sample_manager)"
  using envelope_authenticates [of "\<lambda>_ _ _. True" 0 sample_manager sample_auth "[]" "host_addr 1" 1000 "\<lambda>_. replicate 32 1"]
  by (simp add: sample_auth_def id_from_public_key_def zero32_def replicate_eq_replicate)

text \<open>
  The record a node keeps of its own content does not propagate: it carries no signature, so a
  peer that asks for the content is sent it, and drops it under every verifier that rejects the
  all-zero key.
\<close>

theorem local_provider_not_propagated:
  assumes "\<And>msg. \<not> verify zero32 msg (replicate 64 0)"
    and "\<forall>p \<in> set (providers_of (dm_store d) c). pr_node_id p \<noteq> dm_local_id d"
    and "\<forall>p \<in> set (providers_of (dm_store peer) c). pr_node_id p \<noteq> dm_local_id d"
    and "handle_message verify later (add_local_content now d c) (FindValue c) i addr = (Inr (Some (Providers c ps v)), d')"
    and "handle_message verify t peer (Providers c ps v) j addr' = (Inr None, peer')"
  shows "v \<and> (\<forall>p \<in> set (providers_of (dm_store peer') c). pr_node_id p \<noteq> dm_local_id d)"
proof -
  let ?me = "dm_local_id d" and ?d = "add_local_content now d c"
  let ?r = "pr_new now ?me (dm_local_addr d) zero32 (replicate 64 0)"
  obtain x d1 where s: "on_node_seen later ?d i addr = (x, d1)" by fastforce
  have d1: "dm_store d1 = dm_store ?d" using arg_cong [OF s, of snd] by (auto simp: on_node_seen_parts)
  then have ps: "ps = get_local_providers later d1 c" and v: "v = is_local_content (dm_store d1) c"
    using assms(4) s by (auto simp: handle_message_def Let_def split: sum.splits if_splits)
  have "v" by (simp add: v d1 add_local_content_def is_local_content_def ps_add_provider_def ps_add_local_def AList.update_conv')
  have "providers_of (dm_store d1) c = insert_provider now (providers_of (dm_store d) c) ?r" by (simp add: d1 add_local_content_def)
  moreover have "pr_node_id ?r = ?me" by (simp add: pr_new_def)
  ultimately have own: "p = ?r" if "p \<in> set (providers_of (dm_store d1) c)" "pr_node_id p = ?me" for p
    using insert_provider_mem [of p now "providers_of (dm_store d) c" ?r] that assms(2) by auto
  have unsigned: "\<not> verify (sp_public_key q) (provider_signing_message c (sp_id q) (sp_addr q)) (sp_signature q)"
    if "q \<in> set ps" "sp_id q = ?me" for q
  proof -
    from that(1) obtain p where q: "p \<in> set (get_providers later (dm_store d1) c MAX_PROVIDERS)"
      "q = \<lparr>sp_id = pr_node_id p, sp_addr = pr_addr p, sp_public_key = pr_public_key p, sp_signature = pr_signature p\<rparr>"
      unfolding ps get_local_providers_def by auto
    have "p \<in> set (filter (\<lambda>p. \<not> pr_is_expired later p) (providers_of (dm_store d1) c))"
      using q(1) unfolding get_providers_def by (rule in_set_takeD)
    then have p: "p \<in> set (providers_of (dm_store d1) c)" "sp_id q = pr_node_id p"
      "sp_public_key q = pr_public_key p" "sp_signature q = pr_signature p"
      using q(2) by simp_all
    then have "p = ?r" using own [OF p(1)] that(2) by simp
    then show ?thesis using p assms(1) by (simp add: pr_new_def)
  qed
  obtain y peer1 where s': "on_node_seen t peer j addr' = (y, peer1)" by fastforce
  have p1: "dm_store peer1 = dm_store peer" using arg_cong [OF s', of snd] by (auto simp: on_node_seen_parts)
  have keep: "\<forall>p \<in> set (providers_of (dm_store (handle_providers verify t e c qs)) c). pr_node_id p \<noteq> ?me"
    if "\<forall>p \<in> set (providers_of (dm_store e) c). pr_node_id p \<noteq> ?me" "set qs \<subseteq> set ps" for e qs
    using that
  proof (induction qs arbitrary: e)
    case (Cons q qs)
    let ?q = "pr_new t (sp_id q) (sp_addr q) (sp_public_key q) (sp_signature q)"
    let ?e = "snd (dm_add_provider verify t e c (sp_id q) (sp_addr q) (sp_public_key q) (sp_signature q))"
    have "?me \<notin> pr_node_id ` set (providers_of (dm_store ?e) c)"
    proof (cases "verify (sp_public_key q) (provider_signing_message c (sp_id q) (sp_addr q)) (sp_signature q)")
      case True
      then have "sp_id q \<noteq> ?me" using unsigned Cons.prems(2) by auto
      then show ?thesis
        using insert_provider_ids [of t "providers_of (dm_store e) c" ?q] Cons.prems(1) True
        by (auto simp: dm_add_provider_parts pr_new_def)
    qed (use Cons.prems(1) in \<open>auto simp: dm_add_provider_parts\<close>)
    then have "\<forall>p \<in> set (providers_of (dm_store ?e) c). pr_node_id p \<noteq> ?me" by (metis imageI)
    from Cons.IH [OF this] Cons.prems(2) show ?case by (simp add: handle_providers_def)
  qed (simp add: handle_providers_def)
  have "peer' = handle_providers verify t peer1 c ps" using assms(5) s' by (auto simp: handle_message_def split: sum.splits)
  with keep [of peer1 ps] assms(3) p1 \<open>v\<close> show ?thesis by simp
qed


theorem local_provider_not_propagated_witness:
  "case handle_message (\<lambda>_ _ _. False) 3 (add_local_content 3 sample_manager [2]) (FindValue [2]) [1] (host_addr 1) of
     (Inr (Some (Providers c ps v)), _) \<Rightarrow> v | _ \<Rightarrow> False"
proof -
  let ?v = "\<lambda>_ _ _. False" and ?d = "add_local_content 3 sample_manager [2]"
  have b: "bucket_index zero32 [1] = Some 248" by code_simp
  have init: "dm_local_id ?d = zero32" "dm_table ?d = rt_new zero32"
    "dm_local_id sample_manager = zero32" "dm_table sample_manager = rt_new zero32"
    by (simp_all add: add_local_content_def sample_manager_def dm_new_def)
  have ok: "manager_ok ?d" using manager_ok_step [OF sample_manager_ok dht_step.provide] .
  have empty: "kb_nodes (rt_buckets (rt_new zero32) ! 248) = []" "kb_subnet_counts (rt_buckets (rt_new zero32) ! 248) = Map.empty"
    by (simp_all add: rt_new_def kb_new_def NUM_BUCKETS_def ID_BITS_def)
  have "fst (on_node_seen 3 ?d [1] (host_addr 1)) = Inr ()"
    by (rule first_contact [where b = 248]) (simp_all add: init b empty ok)
  then obtain d1 where s: "on_node_seen 3 ?d [1] (host_addr 1) = (Inr (), d1)" by (metis prod.collapse)
  have "dm_store d1 = dm_store ?d" using arg_cong [OF s, of snd] by (auto simp: on_node_seen_parts)
  then have "is_local_content (dm_store d1) [2]"
    by (simp add: add_local_content_def is_local_content_def ps_add_provider_def ps_add_local_def AList.update_conv')
  then obtain ps v where 1: "handle_message ?v 3 ?d (FindValue [2]) [1] (host_addr 1) = (Inr (Some (Providers [2] ps v)), d1)"
    by (simp add: handle_message_def s Let_def)
  have "fst (on_node_seen 3 sample_manager [1] (host_addr 1)) = Inr ()"
    by (rule first_contact [where b = 248]) (simp_all add: init b empty sample_manager_ok)
  then obtain d2 where s2: "on_node_seen 3 sample_manager [1] (host_addr 1) = (Inr (), d2)" by (metis prod.collapse)
  have 2: "handle_message ?v 3 sample_manager (Providers [2] ps v) [1] (host_addr 1) = (Inr None, handle_providers ?v 3 d2 [2] ps)"
    by (simp add: handle_message_def s2)
  have none: "providers_of (dm_store sample_manager) [2] = []"
    by (simp add: sample_manager_def dm_new_def ps_new_def providers_of_def)
  from local_provider_not_propagated [OF _ _ _ 1 2] none show ?thesis unfolding 1 by simp
qed

end
