(* ===== verification/Dht_Lookup.thy ===== *)
theory Dht_Lookup
  imports Dht_Manager
begin

text \<open>
  Iterative lookups (\<open>src/dht/lookup.rs\<close>). The answers of the network are the parameter \<open>rpc\<close>, which
  may depend on the number of calls made before; the order in which the answers of a round arrive
  is the parameter \<open>arrive\<close>. The clock is the number of rounds that begin before the timeout: the loop
  ends when they are used up, as the code's does when the time is over. A \<open>BinaryHeap\<close> of candidates
  is a list that is read in the order of the distances (candidates at one distance have one
  identifier).
\<close>

definition ALPHA :: nat where "ALPHA = 3"

record lookup_state =
  lk_candidates :: "node_info list"
  lk_queried :: "node_id set"
  lk_responded :: "node_info list"
  lk_providers :: "node_info list"
  lk_rpc_count :: nat

definition node_key :: "node_id \<Rightarrow> node_info \<Rightarrow> node_id" where
  "node_key target n = xor_distance target (ni_id n)"

text \<open>The candidates that were not queried, nearest first.\<close>

definition fresh_candidates :: "node_id \<Rightarrow> lookup_state \<Rightarrow> node_info list" where
  "fresh_candidates target s = filter (\<lambda>n. ni_id n \<notin> lk_queried s) (sort_key (node_key target) (lk_candidates s))"

text \<open>The start of a round: at most three nodes are queried.\<close>

definition begin_round :: "node_id \<Rightarrow> lookup_state \<Rightarrow> node_info list \<times> lookup_state" where
  "begin_round target s =
     (let fresh = fresh_candidates target s; to_query = take ALPHA fresh
      in (to_query, s\<lparr>lk_candidates := drop ALPHA fresh, lk_queried := lk_queried s \<union> ni_id ` set to_query\<rparr>))"

definition add_answer :: "lookup_state \<Rightarrow> node_info \<Rightarrow> node_info list \<Rightarrow> lookup_state" where
  "add_answer s n nodes =
     s\<lparr>lk_responded := lk_responded s @ [n],
       lk_candidates := lk_candidates s @ filter (\<lambda>x. ni_id x \<notin> lk_queried s) nodes\<rparr>"

definition node_answer ::
  "(nat \<Rightarrow> node_info \<Rightarrow> dht_error + node_info list) \<Rightarrow> lookup_state \<Rightarrow> node_info \<Rightarrow> lookup_state" where
  "node_answer rpc s n =
     (let s1 = s\<lparr>lk_rpc_count := lk_rpc_count s + 1\<rparr>
      in case rpc (lk_rpc_count s) n of Inr nodes \<Rightarrow> add_answer s1 n nodes | Inl _ \<Rightarrow> s1)"

text \<open>The check after a round: enough answers, and the nearest of them is as near as any candidate.\<close>

definition lookup_done :: "node_id \<Rightarrow> lookup_state \<Rightarrow> bool" where
  "lookup_done target s \<longleftrightarrow>
     length (lk_responded s) \<ge> K \<and> lk_candidates s \<noteq> [] \<and>
     Min (node_key target ` set (lk_responded s)) \<le> Min (node_key target ` set (lk_candidates s))"

primrec lookup_loop ::
  "(nat \<Rightarrow> node_info \<Rightarrow> dht_error + node_info list) \<Rightarrow> (node_info list \<Rightarrow> node_info list) \<Rightarrow> node_id \<Rightarrow> nat \<Rightarrow>
   lookup_state \<Rightarrow> lookup_state" where
  "lookup_loop rpc arrive target 0 s = s"
| "lookup_loop rpc arrive target (Suc rounds) s =
     (case begin_round target s of
        (to_query, s1) \<Rightarrow>
          if to_query = [] then s1
          else let s2 = foldl (node_answer rpc) s1 (arrive to_query)
               in if lookup_done target s2 then s2 else lookup_loop rpc arrive target rounds s2)"

definition lookup_start :: "routing_table \<Rightarrow> node_id \<Rightarrow> lookup_state" where
  "lookup_start t target =
     \<lparr>lk_candidates = map (\<lambda>e. \<lparr>ni_id = ne_id e, ni_addr = ne_addr e\<rparr>) (closest t target K),
      lk_queried = {}, lk_responded = [], lk_providers = [], lk_rpc_count = 0\<rparr>"

record lookup_result =
  lr_target :: node_id
  lr_closest :: "node_info list"
  lr_providers :: "node_info list"
  lr_found_value :: bool
  lr_rpc_count :: nat

definition lookup_finish :: "node_id \<Rightarrow> lookup_state \<Rightarrow> lookup_result" where
  "lookup_finish target s =
     \<lparr>lr_target = target, lr_closest = take K (sort_key (node_key target) (lk_responded s)),
      lr_providers = lk_providers s, lr_found_value = (lk_providers s \<noteq> []), lr_rpc_count = lk_rpc_count s\<rparr>"

definition do_lookup ::
  "(nat \<Rightarrow> node_info \<Rightarrow> dht_error + node_info list) \<Rightarrow> (node_info list \<Rightarrow> node_info list) \<Rightarrow> nat \<Rightarrow>
   routing_table \<Rightarrow> node_id \<Rightarrow> lookup_result" where
  "do_lookup rpc arrive rounds t target =
     lookup_finish target (lookup_loop rpc arrive target rounds (lookup_start t target))"

subsection \<open>Looking for providers\<close>

definition value_answer ::
  "(nat \<Rightarrow> node_info \<Rightarrow> dht_error + (node_info list \<times> bool)) \<Rightarrow> lookup_state \<Rightarrow> node_info \<Rightarrow> lookup_state" where
  "value_answer rpc s n =
     (let s1 = s\<lparr>lk_rpc_count := lk_rpc_count s + 1\<rparr>
      in case rpc (lk_rpc_count s) n of
           Inr (nodes, has_value) \<Rightarrow>
             add_answer (if has_value then s1\<lparr>lk_providers := lk_providers s1 @ [n]\<rparr> else s1) n nodes
         | Inl _ \<Rightarrow> s1)"

text \<open>The answers of a round, until three providers are known.\<close>

primrec value_answers ::
  "(nat \<Rightarrow> node_info \<Rightarrow> dht_error + (node_info list \<times> bool)) \<Rightarrow> lookup_state \<Rightarrow> node_info list \<Rightarrow> lookup_state" where
  "value_answers rpc s [] = s"
| "value_answers rpc s (n # ns) =
     (let s' = value_answer rpc s n
      in if length (lk_providers s') \<ge> 3 then s' else value_answers rpc s' ns)"

primrec value_loop ::
  "(nat \<Rightarrow> node_info \<Rightarrow> dht_error + (node_info list \<times> bool)) \<Rightarrow> (node_info list \<Rightarrow> node_info list) \<Rightarrow> node_id \<Rightarrow> nat \<Rightarrow>
   lookup_state \<Rightarrow> lookup_state" where
  "value_loop rpc arrive target 0 s = s"
| "value_loop rpc arrive target (Suc rounds) s =
     (if length (lk_providers s) \<ge> MAX_PROVIDERS then s
      else case begin_round target s of
             (to_query, s1) \<Rightarrow>
               if to_query = [] then s1
               else let s2 = value_answers rpc s1 (arrive to_query)
                    in if length (lk_providers s2) \<ge> 3 then s2 else value_loop rpc arrive target rounds s2)"

definition do_lookup_value ::
  "(nat \<Rightarrow> node_info \<Rightarrow> dht_error + (node_info list \<times> bool)) \<Rightarrow> (node_info list \<Rightarrow> node_info list) \<Rightarrow> nat \<Rightarrow>
   routing_table \<Rightarrow> hash32 \<Rightarrow> lookup_result" where
  "do_lookup_value rpc arrive rounds t c =
     lookup_finish c (value_loop rpc arrive c rounds (lookup_start t c))"

subsection \<open>The operations of the manager\<close>

definition find_node ::
  "(nat \<Rightarrow> node_info \<Rightarrow> dht_error + node_info list) \<Rightarrow> (node_info list \<Rightarrow> node_info list) \<Rightarrow> nat \<Rightarrow>
   dht_manager \<Rightarrow> node_id \<Rightarrow> node_info list" where
  "find_node rpc arrive rounds d target = lr_closest (do_lookup rpc arrive rounds (dm_table d) target)"

definition find_providers ::
  "(nat \<Rightarrow> node_info \<Rightarrow> dht_error + (node_info list \<times> bool)) \<Rightarrow> (node_info list \<Rightarrow> node_info list) \<Rightarrow> nat \<Rightarrow> nat \<Rightarrow>
   dht_manager \<Rightarrow> hash32 \<Rightarrow> dht_error + node_info list" where
  "find_providers rpc arrive rounds now d c =
     (let local_providers = get_local_providers now d c
      in if local_providers \<noteq> [] then Inr (map (\<lambda>p. \<lparr>ni_id = sp_id p, ni_addr = sp_addr p\<rparr>) local_providers)
         else
           let r = do_lookup_value rpc arrive rounds (dm_table d) c
           in if lr_providers r \<noteq> [] then Inr (lr_providers r) else Inl (NoProviders c))"


subsection \<open>What a round does\<close>

lemma begin_round_parts:
  assumes "begin_round target s = (q, s1)"
  shows "length q \<le> ALPHA" "ni_id ` set q \<inter> lk_queried s = {}" "set q \<subseteq> set (lk_candidates s)"
    "set (lk_candidates s1) \<subseteq> set (lk_candidates s)" "lk_queried s1 = lk_queried s \<union> ni_id ` set q"
    "lk_responded s1 = lk_responded s" "lk_providers s1 = lk_providers s" "lk_rpc_count s1 = lk_rpc_count s"
    "q = [] \<Longrightarrow> lk_candidates s1 = []" "ni_id ` set (lk_candidates s) \<subseteq> lk_queried s1 \<union> ni_id ` set (lk_candidates s1)"
proof -
  let ?f = "fresh_candidates target s"
  have f: "set ?f = {n \<in> set (lk_candidates s). ni_id n \<notin> lk_queried s}" by (auto simp: fresh_candidates_def)
  have p: "q = take ALPHA ?f" "s1 = s\<lparr>lk_candidates := drop ALPHA ?f, lk_queried := lk_queried s \<union> ni_id ` set q\<rparr>"
    using assms by (auto simp: begin_round_def Let_def)
  have "set q \<subseteq> set ?f" "set (drop ALPHA ?f) \<subseteq> set ?f" using p(1) by (auto dest: in_set_takeD in_set_dropD)
  with f p show "length q \<le> ALPHA" "ni_id ` set q \<inter> lk_queried s = {}" "set q \<subseteq> set (lk_candidates s)"
    "set (lk_candidates s1) \<subseteq> set (lk_candidates s)" "lk_queried s1 = lk_queried s \<union> ni_id ` set q"
    "lk_responded s1 = lk_responded s" "lk_providers s1 = lk_providers s" "lk_rpc_count s1 = lk_rpc_count s"
    by auto
  show "q = [] \<Longrightarrow> lk_candidates s1 = []" using p by (auto simp: ALPHA_def)
  have "set ?f = set q \<union> set (drop ALPHA ?f)" by (metis append_take_drop_id p(1) set_append)
  with f p(2) show "ni_id ` set (lk_candidates s) \<subseteq> lk_queried s1 \<union> ni_id ` set (lk_candidates s1)" by auto
qed

text \<open>The nodes that the loop calls, in the order of the answers: call number \<open>i\<close> goes to the node at place \<open>i\<close>.\<close>

primrec lookup_calls ::
  "(nat \<Rightarrow> node_info \<Rightarrow> dht_error + node_info list) \<Rightarrow> (node_info list \<Rightarrow> node_info list) \<Rightarrow> node_id \<Rightarrow> nat \<Rightarrow>
   lookup_state \<Rightarrow> node_info list" where
  "lookup_calls rpc arrive target 0 s = []"
| "lookup_calls rpc arrive target (Suc rounds) s =
     (case begin_round target s of
        (to_query, s1) \<Rightarrow>
          if to_query = [] then []
          else let s2 = foldl (node_answer rpc) s1 (arrive to_query)
               in arrive to_query @ (if lookup_done target s2 then [] else lookup_calls rpc arrive target rounds s2))"

text \<open>
  What holds after some calls: the calls are counted, whoever was called is marked, every node that was named at the
  start or in an answer is marked or a candidate, and the answers come from calls that were made.
\<close>

definition known :: "lookup_state \<Rightarrow> node_id set" where
  "known s = lk_queried s \<union> ni_id ` set (lk_candidates s)"

definition lookup_trace ::
  "(nat \<Rightarrow> node_info \<Rightarrow> dht_error + node_info list) \<Rightarrow> node_id set \<Rightarrow> node_info list \<Rightarrow> lookup_state \<Rightarrow> bool" where
  "lookup_trace rpc base cs s \<longleftrightarrow>
     lk_rpc_count s = length cs \<and> lk_providers s = [] \<and> base \<subseteq> known s \<and>
     (\<forall>i < length cs. \<forall>nodes. rpc i (cs ! i) = Inr nodes \<longrightarrow> ni_id ` set nodes \<subseteq> known s) \<and>
     (\<forall>n \<in> set (lk_responded s). \<exists>i < length cs. \<exists>nodes. cs ! i = n \<and> rpc i n = Inr nodes)"

lemma lookup_traceD:
  assumes "lookup_trace rpc base cs s"
  shows "base \<subseteq> known s" "i < length cs \<Longrightarrow> rpc i (cs ! i) = Inr nodes \<Longrightarrow> ni_id ` set nodes \<subseteq> known s"
    "n \<in> set (lk_responded s) \<Longrightarrow> \<exists>i < length cs. \<exists>nodes. cs ! i = n \<and> rpc i n = Inr nodes"
  using assms by (simp_all add: lookup_trace_def)

lemma trace_answer:
  assumes "lookup_trace rpc base cs s"
  shows "lookup_trace rpc base (cs @ [n]) (node_answer rpc s n)"
proof (cases "rpc (length cs) n")
  case (Inl e)
  then have "node_answer rpc s n = s\<lparr>lk_rpc_count := lk_rpc_count s + 1\<rparr>"
    using assms by (simp add: node_answer_def Let_def lookup_trace_def)
  then show ?thesis using assms Inl by (fastforce simp: lookup_trace_def known_def nth_append less_Suc_eq)
next
  case (Inr nodes)
  then have s: "node_answer rpc s n = s\<lparr>lk_rpc_count := lk_rpc_count s + 1, lk_responded := lk_responded s @ [n],
      lk_candidates := lk_candidates s @ filter (\<lambda>x. ni_id x \<notin> lk_queried s) nodes\<rparr>"
    using assms by (simp add: node_answer_def add_answer_def Let_def lookup_trace_def)
  have k: "known (node_answer rpc s n) = known s \<union> ni_id ` set nodes" by (auto simp: s known_def)
  show ?thesis
    unfolding lookup_trace_def k
  proof (intro conjI ballI allI impI)
    fix i nodes' assume i: "i < length (cs @ [n])" "rpc i ((cs @ [n]) ! i) = Inr nodes'"
    show "ni_id ` set nodes' \<subseteq> known s \<union> ni_id ` set nodes"
    proof (cases "i < length cs")
      case True
      with i(2) have "rpc i (cs ! i) = Inr nodes'" by (simp add: nth_append)
      with True assms have "ni_id ` set nodes' \<subseteq> known s" unfolding lookup_trace_def by blast
      then show ?thesis by blast
    next
      case False
      with i Inr show ?thesis by (simp add: nth_append less_Suc_eq)
    qed
  next
    fix m assume "m \<in> set (lk_responded (node_answer rpc s n))"
    then have "m \<in> set (lk_responded s) \<or> m = n" by (auto simp: s)
    then show "\<exists>i < length (cs @ [n]). \<exists>nodes. (cs @ [n]) ! i = m \<and> rpc i m = Inr nodes"
    proof
      assume "m \<in> set (lk_responded s)"
      then obtain i nodes' where "i < length cs" "cs ! i = m" "rpc i m = Inr nodes'" using assms unfolding lookup_trace_def by blast
      then show ?thesis by (intro exI [of _ i]) (simp add: nth_append)
    next
      assume "m = n"
      then show ?thesis using Inr by (intro exI [of _ "length cs"]) simp
    qed
  qed (use assms in \<open>auto simp: lookup_trace_def s\<close>)
qed

lemma trace_answers:
  "lookup_trace rpc base cs s \<Longrightarrow> lookup_trace rpc base (cs @ ns) (foldl (node_answer rpc) s ns)"
proof (induction ns arbitrary: cs s)
  case (Cons n ns)
  from Cons.IH [OF trace_answer [OF Cons.prems]] show ?case by simp
qed simp

lemma trace_round:
  assumes "lookup_trace rpc base cs s" and "begin_round target s = (q, s1)"
  shows "lookup_trace rpc base cs s1"
proof -
  note b = begin_round_parts [OF assms(2)]
  have "known s \<subseteq> known s1" using b(5,10) by (auto simp: known_def)
  then show ?thesis using assms(1) b(6-8) unfolding lookup_trace_def by (metis subset_trans)
qed

lemma answers_queried: "lk_queried (foldl (node_answer rpc) s ns) = lk_queried s"
  by (induction ns arbitrary: s) (simp_all add: node_answer_def add_answer_def Let_def split: sum.split)

lemma answers_candidates:
  assumes "\<forall>i n nodes. rpc i n = Inr nodes \<longrightarrow> ni_id ` set nodes \<subseteq> U" and "ni_id ` set (lk_candidates s) \<subseteq> U"
  shows "ni_id ` set (lk_candidates (foldl (node_answer rpc) s ns)) \<subseteq> U"
  using assms(2)
proof (induction ns arbitrary: s)
  case (Cons n ns)
  have "ni_id ` set (lk_candidates (node_answer rpc s n)) \<subseteq> U"
  proof (cases "rpc (lk_rpc_count s) n")
    case (Inr nodes)
    moreover from this have "ni_id ` set nodes \<subseteq> U" using assms(1) by blast
    ultimately show ?thesis using Cons.prems by (auto simp: node_answer_def add_answer_def Let_def)
  qed (use Cons.prems in \<open>simp add: node_answer_def Let_def\<close>)
  from Cons.IH [OF this] show ?case by simp
qed simp

lemma arrive_perm: "\<forall>xs. mset (arrive xs) = mset xs \<Longrightarrow> set (arrive q) = set q \<and> length (arrive q) = length q"
  using mset_eq_setD [of "arrive q" q] mset_eq_length [of "arrive q" q] by blast

lemma loop_trace:
  assumes "\<forall>xs. mset (arrive xs) = mset xs" and "lookup_trace rpc base cs s"
  shows "lookup_trace rpc base (cs @ lookup_calls rpc arrive target n s) (lookup_loop rpc arrive target n s) \<and>
    lk_queried (lookup_loop rpc arrive target n s) = lk_queried s \<union> ni_id ` set (lookup_calls rpc arrive target n s) \<and>
    length (lookup_calls rpc arrive target n s) \<le> ALPHA * n"
  using assms(2)
proof (induction n arbitrary: cs s)
  case (Suc n)
  obtain q s1 where b: "begin_round target s = (q, s1)" by fastforce
  note p = begin_round_parts [OF b] and r = trace_answers [OF trace_round [OF Suc.prems b], of "arrive q"]
  note a = arrive_perm [OF assms(1), of q]
  show ?case
  proof (cases "q = []")
    case True
    with b p(5) trace_round [OF Suc.prems b] show ?thesis by simp
  next
    case False
    with b p(1,5) a r Suc.IH [OF r] show ?thesis by (auto simp: Let_def answers_queried)
  qed
qed simp

lemma loop_stops:
  assumes "\<forall>i n nodes. rpc i n = Inr nodes \<longrightarrow> ni_id ` set nodes \<subseteq> U" and "\<forall>xs. mset (arrive xs) = mset xs" and "finite U"
    and "ni_id ` set (lk_candidates s) \<subseteq> U" and "card (U - lk_queried s) < n"
  shows "lookup_loop rpc arrive target (n + k) s = lookup_loop rpc arrive target n s \<and>
    (lookup_done target (lookup_loop rpc arrive target n s) \<or> lk_candidates (lookup_loop rpc arrive target n s) = [])"
  using assms(4,5)
proof (induction n arbitrary: s)
  case (Suc n)
  obtain q s1 where b: "begin_round target s = (q, s1)" by fastforce
  note p = begin_round_parts [OF b]
  let ?s2 = "foldl (node_answer rpc) s1 (arrive q)"
  show ?case
  proof (cases "q = []")
    case True
    with b p(9) show ?thesis by simp
  next
    case False
    show ?thesis
    proof (cases "lookup_done target ?s2")
      case True
      with b False show ?thesis by (simp add: Let_def)
    next
      case more: False
      obtain x where x: "x \<in> set q" using False by (cases q) auto
      then have "ni_id x \<in> U - lk_queried s" using p(2,3) Suc.prems(1) by auto
      moreover have "U - lk_queried ?s2 \<subseteq> U - lk_queried s - {ni_id x}" using p(5) x by (auto simp: answers_queried)
      ultimately have "card (U - lk_queried ?s2) < card (U - lk_queried s)"
        using assms(3) by (meson card_Diff1_less card_mono finite_Diff le_less_trans)
      then have small: "card (U - lk_queried ?s2) < n" using Suc.prems(2) by simp
      have "ni_id ` set (lk_candidates s1) \<subseteq> U" using p(4) Suc.prems(1) by auto
      from Suc.IH [OF answers_candidates [OF assms(1) this] small] b False more show ?thesis by (simp add: Let_def)
    qed
  qed
qed simp

lemma lookup_start_trace:
  "lookup_trace rpc (ne_id ` set (closest t target K)) [] (lookup_start t target)"
  by (auto simp: lookup_trace_def lookup_start_def known_def image_image)

lemma lookup_start_candidates:
  assumes "ne_id ` set (all_nodes t) \<subseteq> U"
  shows "ni_id ` set (lk_candidates (lookup_start t target)) \<subseteq> U"
proof -
  have "set (closest t target K) \<subseteq> set (all_nodes t)" by (auto simp: closest_def dest: in_set_takeD)
  with assms show ?thesis by (fastforce simp: lookup_start_def)
qed

lemma hd_sort_key_le: "x \<in> set xs \<Longrightarrow> f (hd (sort_key f xs)) \<le> f x"
proof -
  assume "x \<in> set xs"
  then have "x \<in> set (sort_key f xs)" by simp
  moreover have "sorted (map f (sort_key f xs))" by simp
  ultimately show ?thesis by (cases "sort_key f xs") auto
qed

text \<open>
  C39. What a lookup does, as long as the time that it has is enough for one round more than there are nodes that are
  ever named, and whatever the network answers and in whatever order: it ends by itself, after at most three
  calls a round; it returns at most eight nodes, nearest first, each of which was called and answered that
  call; and every node that it learned of, from the eight nearest of the table or in the answer to
  one of its calls, was called, unless eight nodes are returned of which the first is as near to the target.
\<close>

theorem lookup_correct:
  assumes "\<forall>i n nodes. rpc i n = Inr nodes \<longrightarrow> ni_id ` set nodes \<subseteq> U" and "\<forall>xs. mset (arrive xs) = mset xs"
    and "finite U" and "ne_id ` set (all_nodes t) \<subseteq> U" and "card U < rounds"
    and "calls = lookup_calls rpc arrive target rounds (lookup_start t target)"
    and "r = do_lookup rpc arrive rounds t target"
  shows "do_lookup rpc arrive (rounds + k) t target = r \<and> lr_rpc_count r = length calls \<and> length calls \<le> 3 * rounds \<and>
    length (lr_closest r) \<le> 8 \<and> sorted (map (node_key target) (lr_closest r)) \<and>
    (\<forall>n \<in> set (lr_closest r). \<exists>i < length calls. \<exists>nodes. calls ! i = n \<and> rpc i n = Inr nodes) \<and>
    (\<forall>x. x \<in> ne_id ` set (closest t target K) \<or>
         (\<exists>i < length calls. \<exists>nodes. rpc i (calls ! i) = Inr nodes \<and> x \<in> ni_id ` set nodes) \<longrightarrow>
       x \<in> ni_id ` set calls \<or>
       length (lr_closest r) = 8 \<and> node_key target (hd (lr_closest r)) \<le> xor_distance target x)"
proof -
  let ?s = "lookup_loop rpc arrive target rounds (lookup_start t target)"
  have start: "lk_queried (lookup_start t target) = {}" by (simp add: lookup_start_def)
  have "card (U - lk_queried (lookup_start t target)) < rounds" using assms(5) by (simp add: start)
  note stop = loop_stops [OF assms(1-3) lookup_start_candidates [OF assms(4)] this, of target k]
  note tr = loop_trace [OF assms(2) lookup_start_trace, of rpc t target target rounds, folded assms(6), simplified start, simplified]
  have r: "r = lookup_finish target ?s" using assms(7) by (simp add: do_lookup_def)
  have asked: "x \<in> ni_id ` set calls \<or> length (lr_closest r) = 8 \<and> node_key target (hd (lr_closest r)) \<le> xor_distance target x"
    if x: "x \<in> known ?s" for x
  proof (cases "x \<in> ni_id ` set calls")
    case False
    then obtain c where c: "c \<in> set (lk_candidates ?s)" "ni_id c = x" using x tr by (auto simp: known_def)
    then have d: "lookup_done target ?s" using stop by (cases "lk_candidates ?s") auto
    then have ne: "lk_responded ?s \<noteq> []" and len: "8 \<le> length (lk_responded ?s)" by (auto simp: lookup_done_def K_def)
    have hd: "hd (lr_closest r) = hd (sort_key (node_key target) (lk_responded ?s))"
      using len by (simp add: r lookup_finish_def K_def hd_take)
    have "node_key target (hd (lr_closest r)) \<le> Min (node_key target ` set (lk_responded ?s))"
      unfolding hd using ne by (auto intro: hd_sort_key_le)
    also have "\<dots> \<le> Min (node_key target ` set (lk_candidates ?s))" using d by (simp add: lookup_done_def)
    also have "\<dots> \<le> node_key target c" using c(1) by (intro Min_le) simp_all
    finally show ?thesis using c(2) len by (simp add: node_key_def r lookup_finish_def K_def)
  qed simp
  have named: "x \<in> known ?s" if "x \<in> ne_id ` set (closest t target K) \<or>
      (\<exists>i < length calls. \<exists>nodes. rpc i (calls ! i) = Inr nodes \<and> x \<in> ni_id ` set nodes)" for x
    using that
  proof
    assume "x \<in> ne_id ` set (closest t target K)"
    then show ?thesis using lookup_traceD(1) [OF tr [THEN conjunct1]] by (rule set_mp [rotated])
  next
    assume "\<exists>i < length calls. \<exists>nodes. rpc i (calls ! i) = Inr nodes \<and> x \<in> ni_id ` set nodes"
    then obtain i nodes where "i < length calls" "rpc i (calls ! i) = Inr nodes" "x \<in> ni_id ` set nodes" by (elim exE conjE)
    then show ?thesis using lookup_traceD(2) [OF tr [THEN conjunct1]] by (simp only: subset_iff)
  qed
  have resp: "\<exists>i < length calls. \<exists>nodes. calls ! i = n \<and> rpc i n = Inr nodes" if "n \<in> set (lr_closest r)" for n
  proof -
    have "n \<in> set (lk_responded ?s)" using that in_set_takeD by (fastforce simp: r lookup_finish_def)
    then show ?thesis by (rule lookup_traceD(3) [OF tr [THEN conjunct1]])
  qed
  have "sorted (map (node_key target) (take K (sort_key (node_key target) (lk_responded ?s))))"
    by (simp add: take_map [symmetric] sorted_wrt_take)
  moreover have "do_lookup rpc arrive (rounds + k) t target = r" using stop by (simp add: do_lookup_def r)
  moreover have "lr_rpc_count r = length calls" using tr by (simp add: r lookup_finish_def lookup_trace_def)
  moreover have "length calls \<le> 3 * rounds" using tr by (simp add: ALPHA_def)
  moreover have "length (lr_closest r) \<le> 8" "lr_closest r = take K (sort_key (node_key target) (lk_responded ?s))"
    by (simp_all add: r lookup_finish_def K_def)
  ultimately show ?thesis using asked [OF named] resp by (intro conjI allI ballI impI) simp_all
qed

text \<open>Tables with one bucket in use.\<close>

lemma concat_one: "i < n \<Longrightarrow> concat ((replicate n [])[i := xs]) = xs"
proof (induction n arbitrary: i)
  case (Suc n)
  then show ?case by (cases i) simp_all
qed simp

definition two_entries :: "node_entry list" where
  "two_entries = [ne_new 0 [1] (host_addr 1), ne_new 0 [2] (host_addr 2)]"

definition two_node_table :: routing_table where
  "two_node_table = (rt_new [0])\<lparr>rt_buckets := (replicate 256 kb_new)[248 := kb_new\<lparr>kb_nodes := two_entries\<rparr>]\<rparr>"

lemma two_node_table_nodes: "all_nodes two_node_table = two_entries"
  by (simp add: all_nodes_def two_node_table_def map_update kb_new_def concat_one)

lemma two_node_table_closest: "closest two_node_table [0] K = two_entries"
  unfolding closest_def two_node_table_nodes by (simp add: two_entries_def ne_new_def K_def)

text \<open>The first node names a third, which the lookup then calls as well.\<close>

definition naming_rpc :: "nat \<Rightarrow> node_info \<Rightarrow> dht_error + node_info list" where
  "naming_rpc i n = Inr (if ni_id n = [1] then [\<lparr>ni_id = [3], ni_addr = host_addr 3\<rparr>] else [])"

theorem lookup_correct_witness:
  "[3] \<in> ni_id ` set (lookup_calls naming_rpc rev [0] 4 (lookup_start two_node_table [0])) \<and>
   lr_rpc_count (do_lookup naming_rpc rev 4 two_node_table [0]) = 3"
proof -
  let ?e = "\<lambda>i. \<lparr>ni_id = [i], ni_addr = host_addr i\<rparr>"
  have start: "lookup_start two_node_table [0] =
      \<lparr>lk_candidates = [?e 1, ?e 2], lk_queried = {}, lk_responded = [], lk_providers = [], lk_rpc_count = 0\<rparr>"
    unfolding lookup_start_def two_node_table_closest by (simp add: two_entries_def ne_new_def)
  have calls: "[?e 2, ?e 1, ?e 3] = lookup_calls naming_rpc rev [0] 4 (lookup_start two_node_table [0])"
    unfolding start by (simp add: eval_nat_numeral begin_round_def fresh_candidates_def node_key_def ALPHA_def Let_def
        naming_rpc_def node_answer_def add_answer_def lookup_done_def K_def)
  have "\<forall>i n nodes. naming_rpc i n = Inr nodes \<longrightarrow> ni_id ` set nodes \<subseteq> {[1], [2], [3]}" by (auto simp: naming_rpc_def)
  moreover have "ne_id ` set (all_nodes two_node_table) \<subseteq> {[1], [2], [3]}"
    by (simp add: two_node_table_nodes two_entries_def ne_new_def)
  moreover have "card {[1], [2], [3] :: node_id} < 4" by simp
  ultimately have "lr_rpc_count (do_lookup naming_rpc rev 4 two_node_table [0]) = length [?e 2, ?e 1, ?e 3]"
    using lookup_correct [OF _ _ _ _ _ calls refl, of "{[1], [2], [3]}" 0] by (simp only: mset_rev finite.intros simp_thms)
  then show ?thesis unfolding calls [symmetric] by simp
qed

text \<open>
  A node can be returned more than once. Two nodes that name the same third node at different
  addresses put it among the candidates twice, the check for nodes already queried is made before
  the round, and so it is asked twice, counts twice towards the eight answers that end a lookup,
  and appears twice in the result.
\<close>

theorem lookup_repeats_node:
  assumes "closest t target K = [e1, e2]" and "x \<noteq> ne_id e1" and "x \<noteq> ne_id e2"
    and "rpc 0 \<lparr>ni_id = ne_id e1, ni_addr = ne_addr e1\<rparr> = Inr [\<lparr>ni_id = x, ni_addr = a1\<rparr>]"
    and "rpc 1 \<lparr>ni_id = ne_id e2, ni_addr = ne_addr e2\<rparr> = Inr [\<lparr>ni_id = x, ni_addr = a2\<rparr>]"
    and "rpc 2 \<lparr>ni_id = x, ni_addr = a1\<rparr> = Inr []" "rpc 3 \<lparr>ni_id = x, ni_addr = a2\<rparr> = Inr []"
    and "sorted (map (\<lambda>e. xor_distance target (ne_id e)) [e1, e2])" and "2 \<le> rounds"
  shows "\<not> distinct (map ni_id (lr_closest (do_lookup rpc (\<lambda>xs. xs) rounds t target)))"
proof -
  let ?n = "\<lambda>e. \<lparr>ni_id = ne_id e, ni_addr = ne_addr e\<rparr>" and ?x = "\<lambda>a. \<lparr>ni_id = x, ni_addr = a\<rparr>"
  have "rounds = Suc (Suc (rounds - 2))" using assms(9) by arith
  then obtain k where k: "rounds = Suc (Suc k)" by blast
  define s1 where "s1 = \<lparr>lk_candidates = [?x a1, ?x a2], lk_queried = {ne_id e1, ne_id e2}, lk_responded = [?n e1, ?n e2],
      lk_providers = [], lk_rpc_count = 2\<rparr>"
  have "begin_round target (lookup_start t target) = ([?n e1, ?n e2],
      \<lparr>lk_candidates = [], lk_queried = {ne_id e1, ne_id e2}, lk_responded = [], lk_providers = [], lk_rpc_count = 0\<rparr>)"
    using assms(1,8) by (simp add: begin_round_def fresh_candidates_def lookup_start_def node_key_def ALPHA_def Let_def)
  then have loop: "lookup_loop rpc (\<lambda>xs. xs) target rounds (lookup_start t target) = lookup_loop rpc (\<lambda>xs. xs) target (Suc k) s1"
    using assms(2-5) by (simp add: k s1_def node_answer_def add_answer_def Let_def lookup_done_def K_def numeral_2_eq_2)
  define s2 where "s2 = s1\<lparr>lk_candidates := [], lk_queried := {ne_id e1, ne_id e2, x}, lk_responded := [?n e1, ?n e2, ?x a1, ?x a2], lk_rpc_count := 4\<rparr>"
  have "begin_round target s1 = ([?x a1, ?x a2], s1\<lparr>lk_candidates := [], lk_queried := {ne_id e1, ne_id e2, x}\<rparr>)"
    using assms(2,3) by (auto simp: begin_round_def fresh_candidates_def s1_def node_key_def ALPHA_def Let_def)
  moreover have "begin_round target s2 = ([], s2)" by (simp add: begin_round_def fresh_candidates_def s2_def Let_def)
  ultimately have "lookup_loop rpc (\<lambda>xs. xs) target (Suc k) s1 = s2"
    using assms(6,7) by (cases k) (simp_all add: s2_def s1_def node_answer_def add_answer_def Let_def lookup_done_def K_def)
  then have "lr_closest (do_lookup rpc (\<lambda>xs. xs) rounds t target) = sort_key (node_key target) [?n e1, ?n e2, ?x a1, ?x a2]"
    by (simp add: do_lookup_def loop lookup_finish_def s2_def K_def)
  moreover have "distinct (map f (sort_key g xs)) \<longleftrightarrow> distinct (map f xs)" for f :: "node_info \<Rightarrow> node_id" and g :: "node_info \<Rightarrow> node_id" and xs
    by (metis mset_map mset_sort mset_eq_imp_distinct_iff)
  ultimately show ?thesis by simp
qed

theorem lookup_repeats_node_witness:
  "\<not> distinct (map ni_id (lr_closest (do_lookup
     (\<lambda>i n. Inr (if i = 0 then [\<lparr>ni_id = [9], ni_addr = host_addr 9\<rparr>] else if i = 1 then [\<lparr>ni_id = [9], ni_addr = host_addr 8\<rparr>] else []))
     (\<lambda>xs. xs) 5 two_node_table [0])))"
  by (rule lookup_repeats_node [OF two_node_table_closest [unfolded two_entries_def], where x = "[9]" and ?a1.0 = "host_addr 9" and ?a2.0 = "host_addr 8"])
    (simp_all add: ne_new_def)

end
