(* ===== verification/State_Result.thy ===== *)
theory State_Result
  imports Kv_Tree
begin

text \<open>
  Fallible operations on a state: what an operation wrote before it failed stays written. An operation
  returns its \<open>Result\<close> together with the state it leaves; \<open>and_then\<close> is the \<open>?\<close> operator, \<open>try_each\<close> a
  \<open>for\<close> loop whose body ends in \<open>?\<close>.
\<close>

definition and_then :: "('e + 'a) \<times> 's \<Rightarrow> ('a \<Rightarrow> 's \<Rightarrow> ('e + 'b) \<times> 's) \<Rightarrow> ('e + 'b) \<times> 's" where
  "and_then r f = (case r of (Inl e, s) \<Rightarrow> (Inl e, s) | (Inr a, s) \<Rightarrow> f a s)"

primrec try_each :: "('s \<Rightarrow> 'a \<Rightarrow> 'e outcome \<times> 's) \<Rightarrow> 's \<Rightarrow> 'a list \<Rightarrow> 'e outcome \<times> 's" where
  "try_each f s [] = (Inr (), s)"
| "try_each f s (x # xs) = and_then (f s x) (\<lambda>_ s'. try_each f s' xs)"

lemma and_then_Inl [simp]: "and_then (Inl e, s) f = (Inl e, s)"
  by (simp add: and_then_def)

lemma and_then_Inr [simp]: "and_then (Inr a, s) f = f a s"
  by (simp add: and_then_def)

lemma and_then_cases:
  obtains e s where "r = (Inl e, s)" "and_then r f = (Inl e, s)"
  | a s where "r = (Inr a, s)" "and_then r f = f a s"
  by (metis and_then_Inl and_then_Inr obj_sumE surj_pair)

text \<open>What every step keeps is kept by a chain of steps, whether it fails or not.\<close>

lemma and_then_keeps:
  "P (snd r) \<Longrightarrow> (\<And>a s. r = (Inr a, s) \<Longrightarrow> P s \<Longrightarrow> P (snd (f a s))) \<Longrightarrow> P (snd (and_then r f))"
  by (cases r rule: and_then_cases [of _ f]) auto

lemma try_each_keeps:
  "P s \<Longrightarrow> (\<And>s x. x \<in> set xs \<Longrightarrow> P s \<Longrightarrow> P (snd (f s x))) \<Longrightarrow> P (snd (try_each f s xs))"
proof (induction xs arbitrary: s)
  case (Cons x xs)
  show ?case
    unfolding try_each.simps
  proof (rule and_then_keeps)
    show "P (snd (f s x))" using Cons.prems by simp
    show "P (snd (try_each f t xs))" if "P t" for a t
      using Cons.IH [OF that] Cons.prems(2) by simp
  qed
qed simp

end
