(* ===== verification/Spons_Types.thy ===== *)
theory Spons_Types
  imports State_Result Root_Block
begin

text \<open>
  The data of the sponsorship system (\<open>src/sponsorship/types.rs\<close>, \<open>error.rs\<close>, \<open>genesis_list.rs\<close>): who
  sponsors whom, the status of a sponsored identity, and the genesis identities the tree grows from.
  Identities are the 32 bytes of an Ed25519 key. Depths are \<open>u8\<close>, slots \<open>u16\<close>, times \<open>u64\<close> seconds.
\<close>

type_synonym pub_key = hash32
type_synonym u8 = "8 word"
type_synonym u16 = "16 word"

definition u8_sat_add :: "u8 \<Rightarrow> u8 \<Rightarrow> u8" where
  "u8_sat_add a b = (if unat a + unat b < 256 then a + b else 255)"

datatype sponsorship_error =
    MissingSignature | InvalidSignature | StaleTimestamp | IdentityExists | InsufficientLevel
  | NoAvailableSlots | SponsorRestricted | LinearChainRestriction | InvalidPow | MissingGenesisProof
  | InvalidGenesisSlot | GenesisSlotClaimed | NotInGenesisList | InsufficientGenesisAttestations
  | InvalidGenesisAttestation | CommunityVoteNotImplemented | CannotRevokeGenesis
  | ExceedsMonthlyCapacity u8 u8 string | SponsorOnCooldown u64 | InvalidInvariant string
  | StorageError string | SponsorFlaggedForLinearChain | OfferExpired | OfferFullyClaimed
  | InvalidOfferId | InsufficientPow u8 u8 | MissingAttestation | InvalidAttestation
  | ApplicationRequired | ApplicationTooLong nat nat | OfferNotFound | InvalidOfferSignature
  | InsufficientLevelForOfferType string string | ClaimNotFound | DuplicateClaim
  | InvalidClaimantSignature | SponsorInactive u64 u64 | OrphanNotEligibleForAdoption u64
  | AdopterNotPoolKeeper string | AlreadyAdopted | NotOrphaned | CannotOrphanGenesis

subsection \<open>Constants\<close>

definition PROBATION_PERIOD_SECONDS :: u64 where "PROBATION_PERIOD_SECONDS = 15552000"
definition TIMESTAMP_TOLERANCE_SECONDS :: u64 where "TIMESTAMP_TOLERANCE_SECONDS = 3600"
definition LINEAR_CHAIN_MIN_DEPTH :: u8 where "LINEAR_CHAIN_MIN_DEPTH = 4"
definition DEFAULT_MAX_LINEAR_BREADTH :: u32 where "DEFAULT_MAX_LINEAR_BREADTH = 1"
definition MAX_GENESIS_IDENTITIES :: u32 where "MAX_GENESIS_IDENTITIES = 100"
definition MIN_ATTESTATION_COUNT :: u8 where "MIN_ATTESTATION_COUNT = 3"
definition SPONSORSHIP_COOLDOWN_SECONDS :: u64 where "SPONSORSHIP_COOLDOWN_SECONDS = 3600"
definition SPONSORSHIP_WINDOW_SECONDS :: u64 where "SPONSORSHIP_WINDOW_SECONDS = 2592000"
definition ORPHAN_INACTIVITY_THRESHOLD_SECONDS :: u64 where "ORPHAN_INACTIVITY_THRESHOLD_SECONDS = 7776000"
definition ORPHAN_GRACE_PERIOD_SECONDS :: u64 where "ORPHAN_GRACE_PERIOD_SECONDS = 2592000"

lemmas spons_constants =
  PROBATION_PERIOD_SECONDS_def TIMESTAMP_TOLERANCE_SECONDS_def MAX_GENESIS_IDENTITIES_def
  SPONSORSHIP_COOLDOWN_SECONDS_def SPONSORSHIP_WINDOW_SECONDS_def ORPHAN_INACTIVITY_THRESHOLD_SECONDS_def
  ORPHAN_GRACE_PERIOD_SECONDS_def

subsection \<open>Genesis proofs and the creation of an identity\<close>

datatype genesis_proof_type = HardcodedList | MultiSigThreshold | CommunityVote

record genesis_attestation =
  ga_attester :: pub_key
  ga_signature :: bytes
  ga_timestamp :: u64

definition ga_signing_bytes :: "pub_key \<Rightarrow> u16 \<Rightarrow> u64 \<Rightarrow> bytes" where
  "ga_signing_bytes new_pubkey slot timestamp = new_pubkey @ be_bytes 2 (unat slot) @ u64_be timestamp"

record genesis_proof =
  gp_slot_number :: u16
  gp_proof_type :: genesis_proof_type
  gp_proof_data :: bytes
  gp_attestations :: "genesis_attestation list"

definition validate_slot :: "genesis_proof \<Rightarrow> sponsorship_error outcome" where
  "validate_slot p = reject_if (gp_slot_number p \<ge> ucast MAX_GENESIS_IDENTITIES) InvalidGenesisSlot"

record identity_pow =
  ip_public_key :: pub_key
  ip_timestamp :: u64
  ip_nonce :: u64
  ip_pow_hash :: hash32

record identity_creation =
  ic_new_identity :: pub_key
  ic_sponsor :: "pub_key option"
  ic_sponsor_signature :: "bytes option"
  ic_pow_proof :: identity_pow
  ic_timestamp :: u64
  ic_probationary :: bool
  ic_genesis_proof :: "genesis_proof option"

definition ic_is_genesis :: "identity_creation \<Rightarrow> bool" where
  "ic_is_genesis c \<longleftrightarrow> ic_sponsor c = None \<and> ic_genesis_proof c \<noteq> None"

definition ic_signature_message :: "identity_creation \<Rightarrow> bytes" where
  "ic_signature_message c = ic_new_identity c @ u64_be (ic_timestamp c)"

subsection \<open>The stored record of an identity\<close>

datatype sponsorship_status = Active | Orphaned | Restricted | Revoked

definition status_try_from :: "u8 \<Rightarrow> sponsorship_status option" where
  "status_try_from v =
     (if v = 0 then Some Active else if v = 1 then Some Orphaned
      else if v = 2 then Some Restricted else if v = 3 then Some Revoked else None)"

record stored_sponsorship =
  sr_identity :: pub_key
  sr_sponsor :: "pub_key option"
  sr_created :: u64
  sr_status :: sponsorship_status
  sr_penalty_until :: "u64 option"
  sr_depth :: u8
  sr_probationary :: bool
  sr_probation_expires :: "u64 option"
  sr_score :: u16
  sr_is_genesis :: bool
  sr_orphaned_at :: "u64 option"

definition sr_validate_invariants :: "stored_sponsorship \<Rightarrow> sponsorship_error outcome" where
  "sr_validate_invariants s =
     rbind (if sr_is_genesis s
            then rbind (reject_if (sr_sponsor s \<noteq> None) (InvalidInvariant ''Genesis identity cannot have sponsor'')) (\<lambda>_.
                 reject_if (sr_depth s \<noteq> 0) (InvalidInvariant ''Genesis identity must have depth 0''))
            else reject_if (sr_sponsor s = None) (InvalidInvariant ''Non-genesis identity must have sponsor'')) (\<lambda>_.
     reject_if (sr_score s > 1000) (InvalidInvariant ''Contribution score exceeds 1000''))"

definition sr_is_under_penalty :: "stored_sponsorship \<Rightarrow> u64 \<Rightarrow> bool" where
  "sr_is_under_penalty s now = (case sr_penalty_until s of Some until \<Rightarrow> now < until | None \<Rightarrow> False)"

definition sr_is_probation_expired :: "stored_sponsorship \<Rightarrow> u64 \<Rightarrow> bool" where
  "sr_is_probation_expired s now =
     (if \<not> sr_probationary s then True
      else case sr_probation_expires s of Some expires \<Rightarrow> now \<ge> expires | None \<Rightarrow> False)"

definition sr_is_under_any_penalty :: "stored_sponsorship \<Rightarrow> u64 \<Rightarrow> bool" where
  "sr_is_under_any_penalty s now =
     (if sr_status s = Revoked then True else sr_status s = Restricted \<and> sr_is_under_penalty s now)"

definition sr_can_sponsor :: "stored_sponsorship \<Rightarrow> u64 \<Rightarrow> bool" where
  "sr_can_sponsor s now =
     (case sr_status s of Active \<Rightarrow> True | Restricted \<Rightarrow> \<not> sr_is_under_penalty s now
      | Orphaned \<Rightarrow> False | Revoked \<Rightarrow> False)"

definition sr_can_sponsor_basic :: "stored_sponsorship \<Rightarrow> u64 \<Rightarrow> bool" where
  "sr_can_sponsor_basic s now =
     (case sr_status s of Active \<Rightarrow> True | Restricted \<Rightarrow> \<not> sr_is_under_penalty s now
      | Orphaned \<Rightarrow> True | Revoked \<Rightarrow> False)"

definition sr_is_in_grace_period :: "stored_sponsorship \<Rightarrow> u64 \<Rightarrow> bool" where
  "sr_is_in_grace_period s now =
     (if sr_status s \<noteq> Orphaned then False
      else case sr_orphaned_at s of Some t \<Rightarrow> now < t + ORPHAN_GRACE_PERIOD_SECONDS | None \<Rightarrow> False)"

definition sr_grace_period_remaining :: "stored_sponsorship \<Rightarrow> u64 \<Rightarrow> u64" where
  "sr_grace_period_remaining s now =
     (if sr_status s \<noteq> Orphaned then 0
      else case sr_orphaned_at s of Some t \<Rightarrow> sat_sub (t + ORPHAN_GRACE_PERIOD_SECONDS) now | None \<Rightarrow> 0)"

definition sr_is_eligible_for_adoption :: "stored_sponsorship \<Rightarrow> u64 \<Rightarrow> bool" where
  "sr_is_eligible_for_adoption s now \<longleftrightarrow> sr_status s = Orphaned \<and> \<not> sr_is_in_grace_period s now"

subsection \<open>Genesis identities\<close>

definition MAINNET_GENESIS_LIST :: "pub_key list" where
  "MAINNET_GENESIS_LIST =
     [[0x99, 0x4f, 0xd0, 0xaf, 0x22, 0xeb, 0xc6, 0x6f, 0xcc, 0x5d, 0xa4, 0xcd, 0xc1, 0xcd, 0xb9,
       0x45, 0x00, 0xd1, 0x8d, 0x2d, 0xce, 0xc5, 0x14, 0x41, 0x5e, 0xde, 0xb9, 0x75, 0xa8, 0x48,
       0x09, 0xe3]]"

definition TESTNET_GENESIS_LIST :: "pub_key list" where
  "TESTNET_GENESIS_LIST =
     [[0x64, 0xf2, 0x87, 0x5a, 0xc6, 0xe9, 0xb4, 0x1d, 0xbd, 0xd0, 0xff, 0x0e, 0x0a, 0xdd,
       0x3a, 0x71, 0xc7, 0x5e, 0x44, 0x1a, 0x11, 0x5a, 0x08, 0x53, 0xe3, 0x18, 0x8b, 0xda,
       0xf1, 0x6e, 0x81, 0x2f],
      [0x9e, 0xc9, 0x66, 0x1d, 0x3a, 0x97, 0x5a, 0xd1, 0x41, 0xca, 0xa5, 0xdf, 0x9f, 0x14,
       0xb3, 0xc4, 0x6c, 0xf7, 0x25, 0x50, 0x9e, 0x7f, 0xa0, 0x44, 0xc1, 0x9d, 0x26, 0xfe,
       0x76, 0xbd, 0x04, 0x20]]"

definition active_genesis_list :: "network_mode \<Rightarrow> pub_key list" where
  "active_genesis_list mode = (case mode of Mainnet \<Rightarrow> MAINNET_GENESIS_LIST | _ \<Rightarrow> TESTNET_GENESIS_LIST)"

definition is_in_hardcoded_genesis_list :: "network_mode \<Rightarrow> pub_key \<Rightarrow> bool" where
  "is_in_hardcoded_genesis_list mode pk \<longleftrightarrow> pk \<in> set (active_genesis_list mode)"

lemma unat_u8_sat_add: "unat (u8_sat_add a b) = min (unat a + unat b) 255"
  by (auto simp: u8_sat_add_def unat_word_ariths)

lemma validate_invariants_ok:
  "sr_validate_invariants s = Inr () \<longleftrightarrow>
     (if sr_is_genesis s then sr_sponsor s = None \<and> sr_depth s = 0 else sr_sponsor s \<noteq> None) \<and> sr_score s \<le> 1000"
  by (auto simp: sr_validate_invariants_def rbind_ok)

end
