(* ===== verification/Spons_Store.thy ===== *)
theory Spons_Store
  imports Spons_Types
begin

text \<open>
  The sponsorship store (\<open>src/sponsorship/storage.rs\<close>). Its five trees are the fields of the record. The
  two searches over the tree of sponsees visit the nodes in the order of a queue; what the code counts
  while it goes is read off the list of visits.
\<close>

definition MAX_PATH_DEPTH :: nat where "MAX_PATH_DEPTH = 256"

record spons_store =
  ss_sponsorships :: "(pub_key, stored_sponsorship) tree"
  ss_by_sponsor :: "(pub_key, pub_key list) tree"
  ss_genesis_slots :: "(u16, pub_key) tree"
  ss_orphans :: "(pub_key, u64) tree"
  ss_scopes :: "(pub_key, hash32) tree"

definition ss_empty :: spons_store where
  "ss_empty = \<lparr>ss_sponsorships = [], ss_by_sponsor = [], ss_genesis_slots = [], ss_orphans = [], ss_scopes = []\<rparr>"

subsection \<open>Records, sponsees and scopes\<close>

definition ss_get :: "spons_store \<Rightarrow> pub_key \<Rightarrow> stored_sponsorship option" where
  "ss_get st i = tree_get (ss_sponsorships st) i"

definition ss_exists :: "spons_store \<Rightarrow> pub_key \<Rightarrow> bool" where
  "ss_exists st i \<longleftrightarrow> tree_get (ss_sponsorships st) i \<noteq> None"

definition ss_write :: "spons_store \<Rightarrow> pub_key \<Rightarrow> stored_sponsorship \<Rightarrow> spons_store" where
  "ss_write st i s = st\<lparr>ss_sponsorships := tree_insert (ss_sponsorships st) i s\<rparr>"

definition get_sponsor :: "spons_store \<Rightarrow> pub_key \<Rightarrow> pub_key option" where
  "get_sponsor st i = Option.bind (ss_get st i) sr_sponsor"

definition get_sponsees :: "spons_store \<Rightarrow> pub_key \<Rightarrow> pub_key list" where
  "get_sponsees st sponsor = (case tree_get (ss_by_sponsor st) sponsor of Some l \<Rightarrow> l | None \<Rightarrow> [])"

definition add_to_sponsee_list :: "spons_store \<Rightarrow> pub_key \<Rightarrow> pub_key \<Rightarrow> spons_store" where
  "add_to_sponsee_list st sponsor sponsee =
     (let sponsees = (case tree_get (ss_by_sponsor st) sponsor of Some l \<Rightarrow> l | None \<Rightarrow> [])
      in if sponsee \<in> set sponsees then st
         else st\<lparr>ss_by_sponsor := tree_insert (ss_by_sponsor st) sponsor (sponsees @ [sponsee])\<rparr>)"

definition ss_put :: "spons_store \<Rightarrow> stored_sponsorship \<Rightarrow> sponsorship_error outcome \<times> spons_store" where
  "ss_put st s =
     (case sr_validate_invariants s of
        Inl e \<Rightarrow> (Inl e, st)
      | Inr _ \<Rightarrow>
          (Inr (),
           let st1 = ss_write st (sr_identity s) s
           in case sr_sponsor s of Some sponsor \<Rightarrow> add_to_sponsee_list st1 sponsor (sr_identity s) | None \<Rightarrow> st1))"

definition set_scope :: "spons_store \<Rightarrow> pub_key \<Rightarrow> hash32 \<Rightarrow> spons_store" where
  "set_scope st i scope = st\<lparr>ss_scopes := tree_insert (ss_scopes st) i scope\<rparr>"

definition get_scope :: "spons_store \<Rightarrow> pub_key \<Rightarrow> hash32 option" where
  "get_scope st i =
     (case tree_get (ss_scopes st) i of Some v \<Rightarrow> if length v = 32 then Some v else None | None \<Rightarrow> None)"

definition remove_scope :: "spons_store \<Rightarrow> pub_key \<Rightarrow> spons_store" where
  "remove_scope st i = st\<lparr>ss_scopes := tree_remove (ss_scopes st) i\<rparr>"

definition is_authorized_in_space :: "network_mode \<Rightarrow> spons_store \<Rightarrow> pub_key \<Rightarrow> hash32 \<Rightarrow> bool" where
  "is_authorized_in_space mode st i space =
     (if is_in_hardcoded_genesis_list mode i then True
      else if \<not> ss_exists st i then False
      else case get_scope st i of Some scope \<Rightarrow> scope = space | None \<Rightarrow> True)"

definition count_sponsees :: "spons_store \<Rightarrow> pub_key \<Rightarrow> u32" where
  "count_sponsees st sponsor = word_of_nat (length (get_sponsees st sponsor))"

definition is_identity_active :: "spons_store \<Rightarrow> pub_key \<Rightarrow> bool" where
  "is_identity_active st i = (case ss_get st i of Some s \<Rightarrow> sr_status s = Active | None \<Rightarrow> False)"

definition can_identity_act :: "network_mode \<Rightarrow> spons_store \<Rightarrow> pub_key \<Rightarrow> bool" where
  "can_identity_act mode st i =
     (if is_in_hardcoded_genesis_list mode i then True
      else case ss_get st i of Some s \<Rightarrow> sr_status s = Active \<or> sr_status s = Restricted | None \<Rightarrow> False)"

subsection \<open>The path to a genesis identity\<close>

primrec path_loop :: "spons_store \<Rightarrow> nat \<Rightarrow> pub_key \<Rightarrow> pub_key list" where
  "path_loop st 0 current = []"
| "path_loop st (Suc n) current =
     current # (case ss_get st current of
                  None \<Rightarrow> []
                | Some s \<Rightarrow>
                    if sr_is_genesis s then []
                    else case sr_sponsor s of Some sponsor \<Rightarrow> path_loop st n sponsor | None \<Rightarrow> [])"

definition get_path_to_genesis :: "spons_store \<Rightarrow> pub_key \<Rightarrow> pub_key list" where
  "get_path_to_genesis st i = path_loop st MAX_PATH_DEPTH i"

subsection \<open>Genesis slots\<close>

definition get_genesis_at_slot :: "spons_store \<Rightarrow> u16 \<Rightarrow> pub_key option" where
  "get_genesis_at_slot st slot = tree_get (ss_genesis_slots st) slot"

definition is_slot_claimed :: "spons_store \<Rightarrow> u16 \<Rightarrow> bool" where
  "is_slot_claimed st slot \<longleftrightarrow> get_genesis_at_slot st slot \<noteq> None"

definition claim_genesis_slot :: "spons_store \<Rightarrow> u16 \<Rightarrow> pub_key \<Rightarrow> sponsorship_error outcome \<times> spons_store" where
  "claim_genesis_slot st slot i =
     (case tree_get (ss_genesis_slots st) slot of
        None \<Rightarrow> (Inr (), st\<lparr>ss_genesis_slots := tree_insert (ss_genesis_slots st) slot i\<rparr>)
      | Some _ \<Rightarrow> (Inl GenesisSlotClaimed, st))"

definition genesis_slot_count :: "spons_store \<Rightarrow> nat" where
  "genesis_slot_count st = length (ss_genesis_slots st)"

definition is_genesis_limit_reached :: "spons_store \<Rightarrow> bool" where
  "is_genesis_limit_reached st \<longleftrightarrow> genesis_slot_count st \<ge> unat MAX_GENESIS_IDENTITIES"

definition ss_is_genesis :: "spons_store \<Rightarrow> pub_key \<Rightarrow> bool" where
  "ss_is_genesis st i = (case ss_get st i of Some s \<Rightarrow> sr_is_genesis s | None \<Rightarrow> False)"

definition count_active_genesis :: "spons_store \<Rightarrow> nat" where
  "count_active_genesis st = genesis_slot_count st"

definition get_all_genesis_identities :: "spons_store \<Rightarrow> (u16 \<times> pub_key \<times> u64) list" where
  "get_all_genesis_identities st =
     List.map_filter (\<lambda>(slot, i). map_option (\<lambda>s. (slot, i, sr_created s)) (ss_get st i)) (tree_iter (ss_genesis_slots st))"

subsection \<open>Status, penalties and score\<close>

abbreviation (input) identity_not_found :: sponsorship_error where
  "identity_not_found \<equiv> StorageError ''identity not found''"

definition update_status :: "spons_store \<Rightarrow> pub_key \<Rightarrow> sponsorship_status \<Rightarrow> sponsorship_error outcome \<times> spons_store" where
  "update_status st i status =
     (case ss_get st i of
        Some s \<Rightarrow>
          if sr_is_genesis s \<and> status = Revoked then (Inl CannotRevokeGenesis, st)
          else (Inr (), ss_write st i (s\<lparr>sr_status := status\<rparr>))
      | None \<Rightarrow> (Inl identity_not_found, st))"

definition set_penalty :: "spons_store \<Rightarrow> pub_key \<Rightarrow> u64 \<Rightarrow> sponsorship_error outcome \<times> spons_store" where
  "set_penalty st i until =
     (case ss_get st i of
        Some s \<Rightarrow> (Inr (), ss_write st i (s\<lparr>sr_penalty_until := Some until, sr_status := Restricted\<rparr>))
      | None \<Rightarrow> (Inl identity_not_found, st))"

definition clear_penalty :: "spons_store \<Rightarrow> pub_key \<Rightarrow> sponsorship_error outcome \<times> spons_store" where
  "clear_penalty st i =
     (case ss_get st i of
        Some s \<Rightarrow>
          let s1 = s\<lparr>sr_penalty_until := None\<rparr>
          in (Inr (), ss_write st i (if sr_status s1 = Restricted then s1\<lparr>sr_status := Active\<rparr> else s1))
      | None \<Rightarrow> (Inl identity_not_found, st))"

definition update_contribution_score :: "spons_store \<Rightarrow> pub_key \<Rightarrow> u16 \<Rightarrow> sponsorship_error outcome \<times> spons_store" where
  "update_contribution_score st i score =
     (if score > 1000 then (Inl (InvalidInvariant ''Contribution score exceeds 1000''), st)
      else case ss_get st i of
             Some s \<Rightarrow> (Inr (), ss_write st i (s\<lparr>sr_score := score\<rparr>))
           | None \<Rightarrow> (Inl identity_not_found, st))"

subsection \<open>Orphans\<close>

definition set_orphan_status :: "spons_store \<Rightarrow> pub_key \<Rightarrow> u64 \<Rightarrow> sponsorship_error outcome \<times> spons_store" where
  "set_orphan_status st i orphaned_at =
     (case ss_get st i of
        Some s \<Rightarrow>
          if sr_is_genesis s then (Inl CannotOrphanGenesis, st)
          else (Inr (),
                (ss_write st i (s\<lparr>sr_status := Orphaned, sr_orphaned_at := Some orphaned_at\<rparr>))
                  \<lparr>ss_orphans := tree_insert (ss_orphans st) i orphaned_at\<rparr>)
      | None \<Rightarrow> (Inl identity_not_found, st))"

definition clear_orphan_status ::
  "spons_store \<Rightarrow> pub_key \<Rightarrow> pub_key \<Rightarrow> u8 \<Rightarrow> sponsorship_error outcome \<times> spons_store" where
  "clear_orphan_status st i adopter new_depth =
     (case ss_get st i of
        Some s \<Rightarrow>
          (Inr (),
           add_to_sponsee_list
             ((ss_write st i (s\<lparr>sr_status := Active, sr_orphaned_at := None, sr_sponsor := Some adopter,
                  sr_depth := new_depth, sr_penalty_until := None\<rparr>))
               \<lparr>ss_orphans := tree_remove (ss_orphans st) i\<rparr>) adopter i)
      | None \<Rightarrow> (Inl identity_not_found, st))"

definition get_orphans :: "spons_store \<Rightarrow> (pub_key \<times> u64) list" where
  "get_orphans st = tree_iter (ss_orphans st)"

definition get_orphans_eligible_for_adoption :: "spons_store \<Rightarrow> u64 \<Rightarrow> (pub_key \<times> u64) list" where
  "get_orphans_eligible_for_adoption st now =
     filter (\<lambda>(_, orphaned_at). now \<ge> orphaned_at + ORPHAN_GRACE_PERIOD_SECONDS) (get_orphans st)"

definition iter_all :: "spons_store \<Rightarrow> stored_sponsorship list" where
  "iter_all st = map snd (tree_iter (ss_sponsorships st))"

subsection \<open>Searching the subtree of an identity\<close>

lemma get_sponsees_unlisted: "sponsor \<notin> fst ` set (ss_by_sponsor st) \<Longrightarrow> get_sponsees st sponsor = []"
  by (simp add: get_sponsees_def tree_get_def map_of_eq_None_iff [THEN iffD2])

text \<open>
  The loop over the queue: a node that was visited is skipped, any other is visited and its unvisited
  sponsees join the queue one level deeper. A depth is a \<open>u8\<close> and never reaches the 256 at which the
  loop would stop. The value is the list of visits.
\<close>

function search_loop :: "spons_store \<Rightarrow> (pub_key \<times> u8) list \<Rightarrow> pub_key set \<Rightarrow> (pub_key \<times> u8) list" where
  "search_loop st [] visited = []"
| "search_loop st ((current, depth) # queue) visited =
     (if current \<in> visited then search_loop st queue visited
      else if unat depth \<ge> MAX_PATH_DEPTH then []
      else (current, depth) #
        (let visited' = insert current visited
         in search_loop st
              (queue @ map (\<lambda>s. (s, u8_sat_add depth 1)) (filter (\<lambda>s. s \<notin> visited') (get_sponsees st current)))
              visited'))"
  by pat_completeness auto

termination
proof (relation "inv_image (finite_psubset <*lex*> less_than)
    (\<lambda>(st, queue, visited). (fst ` set (ss_by_sponsor st) - visited, length queue))")
  fix st :: spons_store and current depth and queue :: "(pub_key \<times> u8) list" and visited visited' :: "pub_key set"
  assume "current \<notin> visited" and v: "visited' = insert current visited"
  show "((st, queue @ map (\<lambda>s. (s, u8_sat_add depth 1)) (filter (\<lambda>s. s \<notin> visited') (get_sponsees st current)), visited'),
      (st, (current, depth) # queue, visited))
      \<in> inv_image (finite_psubset <*lex*> less_than)
          (\<lambda>(st, queue, visited). (fst ` set (ss_by_sponsor st) - visited, length queue))"
  proof (cases "current \<in> fst ` set (ss_by_sponsor st)")
    case True
    then have "fst ` set (ss_by_sponsor st) - visited' \<subset> fst ` set (ss_by_sponsor st) - visited"
      using \<open>current \<notin> visited\<close> v by blast
    then show ?thesis by (simp add: finite_psubset_def)
  next
    case False
    then have "fst ` set (ss_by_sponsor st) - visited' = fst ` set (ss_by_sponsor st) - visited" using v by blast
    then show ?thesis using False by (simp add: get_sponsees_unlisted)
  qed
qed auto

definition search_subtree :: "spons_store \<Rightarrow> pub_key \<Rightarrow> (pub_key \<times> u8) list" where
  "search_subtree st root = search_loop st (map (\<lambda>s. (s, 1)) (get_sponsees st root)) {root}"

definition calculate_subtree_metrics :: "spons_store \<Rightarrow> pub_key \<Rightarrow> u32 \<times> u8" where
  "calculate_subtree_metrics st root =
     (let visits = search_subtree st root
      in (word_of_nat (length visits), foldl (\<lambda>m (_, depth). max m depth) 0 visits))"

end
