(* ===== verification/Ieee_Round.thy ===== *)
theory Ieee_Round
  imports "HOL-Library.Log_Nat" Swim_Prelude
begin

text \<open>
  The binary floating-point arithmetic of \<open>f32\<close> and \<open>f64\<close>, as far as the program uses it: numbers
  that stay far from the bounds of the exponent. A value is the rational number
  it stands for; an operation is the exact one, rounded to the nearest value with a significand of
  24 or 53 bits, ties going to the even significand. Infinities and NaN arise nowhere in the code
  that is modelled with it, except where a theory says so.
\<close>

subsection \<open>Rounding\<close>

definition floor_log2 :: "rat \<Rightarrow> int" where
  "floor_log2 x = (if 1 \<le> x then int (floorlog 2 (nat \<lfloor>x\<rfloor>)) - 1 else - int (ceillog2 (nat \<lceil>1 / x\<rceil>)))"

definition round_half_even :: "rat \<Rightarrow> int" where
  "round_half_even x =
     (let n = \<lfloor>x\<rfloor>; r = x - of_int n
      in if r < 1 / 2 \<or> (r = 1 / 2 \<and> even n) then n else n + 1)"

definition float_ulp :: "nat \<Rightarrow> rat \<Rightarrow> rat" where
  "float_ulp p x = 2 powi (floor_log2 x - int p + 1)"

definition float_round :: "nat \<Rightarrow> rat \<Rightarrow> rat" where
  "float_round p x = (if x \<le> 0 then 0 else of_int (round_half_even (x / float_ulp p x)) * float_ulp p x)"

definition f32_round :: "rat \<Rightarrow> rat" where "f32_round = float_round 24"
definition f64_round :: "rat \<Rightarrow> rat" where "f64_round = float_round 53"

text \<open>The rounding of differences, which may be negative, and the conversion \<open>as f64\<close>.\<close>

definition f64_signed :: "rat \<Rightarrow> rat" where
  "f64_signed x = (if x < 0 then - f64_round (- x) else f64_round x)"

definition u64_f64 :: "u64 \<Rightarrow> rat" where
  "u64_f64 n = f64_round (of_nat (unat n))"

text \<open>\<open>as u64\<close> truncates and saturates.\<close>

definition float_to_u64 :: "rat \<Rightarrow> u64" where
  "float_to_u64 x = (if x \<le> 0 then 0 else if x \<ge> 2 ^ 64 then - 1 else word_of_int \<lfloor>x\<rfloor>)"

subsection \<open>The binade of a number\<close>

lemma floor_log2_ge_1:
  assumes "1 \<le> x"
  shows "2 powi floor_log2 x \<le> x" "x < 2 powi (floor_log2 x + 1)"
proof -
  define n where "n = nat \<lfloor>x\<rfloor>"
  have n: "0 < n" "of_nat n \<le> x" "x < of_nat n + 1"
    using assms unfolding n_def by linarith+
  define k where "k = floorlog 2 n"
  have k: "2 ^ (k - 1) \<le> n" "n < 2 ^ k" using floorlog_bounds [of n 2] n(1) by (simp_all add: k_def)
  have "0 < k" using k(2) n(1) by (cases k) auto
  then have e: "floor_log2 x = int (k - 1)" "int (k - 1) + 1 = int k"
    using assms by (simp_all add: floor_log2_def n_def k_def)
  have "(2 :: rat) ^ (k - 1) \<le> of_nat n" using k(1) by (metis of_nat_le_iff of_nat_numeral of_nat_power)
  moreover have "of_nat n + 1 \<le> (2 :: rat) ^ k"
    using Suc_leI [OF k(2)] by (metis add.commute of_nat_Suc of_nat_le_iff of_nat_numeral of_nat_power)
  ultimately show "2 powi floor_log2 x \<le> x" "x < 2 powi (floor_log2 x + 1)"
    unfolding e power_int_of_nat using n by linarith+
qed

lemma floor_log2_less_1:
  assumes "0 < x" "x < 1"
  shows "2 powi floor_log2 x \<le> x" "x < 2 powi (floor_log2 x + 1)"
proof -
  define n where "n = nat \<lceil>1 / x\<rceil>"
  have "1 < 1 / x" using assms by simp
  then have n: "1 / x \<le> of_nat n" "of_nat n < 1 / x + 1" "1 < n" unfolding n_def by linarith+
  define k where "k = ceillog2 n"
  have k: "n \<le> 2 ^ k" "2 ^ k < 2 * n"
    using le_two_power_ceillog2 [of n] two_power_ceillog2_gt [of n] n(3) by (simp_all add: k_def)
  have k0: "0 < k" using k(1) n(3) by (cases k) auto
  then have "2 ^ (k - 1) < n" using k(2) by (cases k) auto
  then have "(2 :: rat) ^ (k - 1) + 1 \<le> of_nat n"
    by (metis Suc_leI add.commute of_nat_Suc of_nat_le_iff of_nat_numeral of_nat_power)
  then have lo: "(2 :: rat) ^ (k - 1) < 1 / x" using n(2) by linarith
  have "of_nat n \<le> (2 :: rat) ^ k" using k(1) by (metis of_nat_le_iff of_nat_numeral of_nat_power)
  then have hi: "1 / x \<le> (2 :: rat) ^ k" using n(1) by linarith
  have e: "floor_log2 x = - int k" "- int k + 1 = - int (k - 1)"
    using assms k0 by (simp_all add: floor_log2_def n_def k_def)
  show "2 powi floor_log2 x \<le> x" "x < 2 powi (floor_log2 x + 1)"
    unfolding e power_int_minus power_int_of_nat using lo hi assms by (simp_all add: field_simps)
qed

lemma floor_log2_bounds:
  assumes "0 < x"
  shows "2 powi floor_log2 x \<le> x" "x < 2 powi (floor_log2 x + 1)"
  using assms floor_log2_ge_1 [of x] floor_log2_less_1 [of x] by (cases "1 \<le> x"; simp)+

lemma floor_log2_mono:
  assumes "0 < x" "x \<le> y"
  shows "floor_log2 x \<le> floor_log2 y"
proof (rule ccontr)
  assume "\<not> ?thesis"
  then have "floor_log2 y + 1 \<le> floor_log2 x" by simp
  then have "(2 :: rat) powi (floor_log2 y + 1) \<le> 2 powi floor_log2 x" by (simp add: power_int_increasing)
  then show False using floor_log2_bounds [of x] floor_log2_bounds [of y] assms by simp
qed

lemma floor_log2_unique:
  assumes "2 powi e \<le> x" "x < 2 powi (e + 1)"
  shows "floor_log2 x = e"
proof -
  have "(0 :: rat) < 2 powi e" by simp
  then have "0 < x" using assms(1) by linarith
  note b = floor_log2_bounds [OF this]
  have "(2 :: rat) powi floor_log2 x < 2 powi (e + 1)" "(2 :: rat) powi e < 2 powi (floor_log2 x + 1)"
    using b assms by linarith+
  then have "floor_log2 x < e + 1" "e < floor_log2 x + 1"
    using power_int_increasing [of "e + 1" "floor_log2 x" "2 :: rat"]
      power_int_increasing [of "floor_log2 x + 1" e "2 :: rat"] by linarith+
  then show ?thesis by simp
qed

lemma float_ulp_pos [simp]: "0 < float_ulp p x"
  by (simp add: float_ulp_def)

subsection \<open>Rounding is monotone and exact on floating-point numbers\<close>

lemma round_half_even_of_int [simp]: "round_half_even (of_int n) = n"
  by (simp add: round_half_even_def)

lemma round_half_even_mono:
  assumes "x \<le> y"
  shows "round_half_even x \<le> round_half_even y"
proof (cases "\<lfloor>x\<rfloor> = \<lfloor>y\<rfloor>")
  case True
  then show ?thesis using assms by (auto simp: round_half_even_def Let_def)
next
  case False
  then have "\<lfloor>x\<rfloor> + 1 \<le> \<lfloor>y\<rfloor>" using floor_mono [OF assms] by simp
  then show ?thesis by (auto simp: round_half_even_def Let_def)
qed

lemma round_half_even_near: "\<bar>of_int (round_half_even x) - x\<bar> \<le> 1 / 2"
proof -
  have "of_int \<lfloor>x\<rfloor> \<le> x" "x < of_int \<lfloor>x\<rfloor> + 1" using floor_correct [of x] by simp_all
  moreover from this have "of_int \<lfloor>x\<rfloor> * 2 - x * 2 \<le> 1" by linarith
  ultimately show ?thesis unfolding round_half_even_def Let_def abs_le_iff by auto
qed

lemma scaled_bounds:
  assumes "0 < x" "0 < p"
  shows "2 ^ (p - 1) \<le> x / float_ulp p x" "x / float_ulp p x < 2 ^ p"
proof -
  note b = floor_log2_bounds [OF assms(1)]
  have u: "float_ulp p x = 2 powi floor_log2 x / 2 ^ (p - 1)"
    using assms(2) by (simp add: float_ulp_def power_int_add power_int_diff of_nat_diff flip: power_int_of_nat)
  have "(2 :: rat) ^ p = 2 * 2 ^ (p - 1)" using assms(2) by (cases p) auto
  moreover have "(2 :: rat) powi (floor_log2 x + 1) = 2 * 2 powi floor_log2 x" by (simp add: power_int_add)
  ultimately show "2 ^ (p - 1) \<le> x / float_ulp p x" "x / float_ulp p x < 2 ^ p"
    using b unfolding u by (simp_all add: field_simps)
qed

lemma float_round_binade:
  assumes "0 < x" "0 < p"
  shows "2 powi floor_log2 x \<le> float_round p x" "float_round p x \<le> 2 powi (floor_log2 x + 1)"
proof -
  note b = scaled_bounds [OF assms]
  have "round_half_even (of_int (2 ^ (p - 1))) \<le> round_half_even (x / float_ulp p x)"
    "round_half_even (x / float_ulp p x) \<le> round_half_even (of_int (2 ^ p))"
    using b by (intro round_half_even_mono; simp)+
  then have r: "2 ^ (p - 1) \<le> round_half_even (x / float_ulp p x)" "round_half_even (x / float_ulp p x) \<le> 2 ^ p"
    unfolding round_half_even_of_int .
  have "(2 :: rat) ^ (p - 1) \<le> of_int (round_half_even (x / float_ulp p x))"
    "of_int (round_half_even (x / float_ulp p x)) \<le> (2 :: rat) ^ p"
    using r by (metis of_int_le_iff of_int_numeral of_int_power)+
  then have "2 ^ (p - 1) * float_ulp p x \<le> float_round p x" "float_round p x \<le> 2 ^ p * float_ulp p x"
    using assms(1) by (simp_all add: float_round_def)
  moreover have "2 ^ (p - 1) * float_ulp p x = 2 powi floor_log2 x" "2 ^ p * float_ulp p x = 2 powi (floor_log2 x + 1)"
    using assms(2) by (simp_all add: float_ulp_def of_nat_diff flip: power_int_of_nat power_int_add)
  ultimately show "2 powi floor_log2 x \<le> float_round p x" "float_round p x \<le> 2 powi (floor_log2 x + 1)" by simp_all
qed

lemma float_round_nonneg [simp]: "0 \<le> float_round p x"
proof (cases "x \<le> 0")
  case False
  then have "0 \<le> round_half_even (x / float_ulp p x)"
    using round_half_even_mono [of "of_int 0" "x / float_ulp p x"] float_ulp_pos [of p x]
    unfolding round_half_even_of_int by simp
  then show ?thesis using False float_ulp_pos [of p x] by (simp add: float_round_def mult_nonneg_nonneg less_imp_le)
qed (simp add: float_round_def)

lemma float_round_mono:
  assumes "x \<le> y" "0 < p"
  shows "float_round p x \<le> float_round p y"
proof (cases "x \<le> 0")
  case True
  then show ?thesis by (simp add: float_round_def [of p x])
next
  case False
  then have pos: "0 < x" "0 < y" using assms by simp_all
  consider "floor_log2 x = floor_log2 y" | "floor_log2 x + 1 \<le> floor_log2 y"
    using floor_log2_mono [OF pos(1) assms(1)] by linarith
  then show ?thesis
  proof cases
    case 1
    then have u: "float_ulp p x = float_ulp p y" by (simp add: float_ulp_def)
    have "x / float_ulp p y \<le> y / float_ulp p y" using assms(1) by (simp add: divide_right_mono less_imp_le)
    from round_half_even_mono [OF this] show ?thesis using pos by (simp add: float_round_def u)
  next
    case 2
    then have "(2 :: rat) powi (floor_log2 x + 1) \<le> 2 powi floor_log2 y" by (simp add: power_int_increasing)
    then show ?thesis
      using float_round_binade(2) [OF pos(1) assms(2)] float_round_binade(1) [OF pos(2) assms(2)] by linarith
  qed
qed

text \<open>The numbers with a significand of \<open>p\<close> bits.\<close>

definition is_float :: "nat \<Rightarrow> rat \<Rightarrow> bool" where
  "is_float p x \<longleftrightarrow> (\<exists>m e. 0 \<le> m \<and> m < 2 ^ p \<and> x = of_int m * 2 powi e)"

lemma float_round_exact:
  assumes "is_float p x" "0 < p"
  shows "float_round p x = x"
proof (cases "x = 0")
  case False
  obtain m e where m: "0 \<le> m" "m < 2 ^ p" "x = of_int m * 2 powi e" using assms(1) by (auto simp: is_float_def)
  then have x: "0 < x" using False by (cases "m = 0") auto
  have "(of_int m :: rat) < 2 ^ p" using m(2) by (metis of_int_less_iff of_int_numeral of_int_power)
  then have "x < 2 powi (e + int p)" unfolding m(3) by (simp add: power_int_add mult.commute)
  then have "(2 :: rat) powi floor_log2 x < 2 powi (e + int p)" using floor_log2_bounds(1) [OF x] by linarith
  then have "floor_log2 x < e + int p"
    using power_int_increasing [of "e + int p" "floor_log2 x" "2 :: rat"] by linarith
  then obtain k where k: "e = floor_log2 x - int p + 1 + int k" by (metis zle_iff_zadd add.commute diff_add_eq diff_le_eq zless_imp_add1_zle)
  have "(2 :: rat) powi e = float_ulp p x * 2 ^ k"
    by (subst k) (simp add: float_ulp_def power_int_add)
  then have eq: "x = of_int (m * 2 ^ k) * float_ulp p x" by (subst m(3)) simp
  have "x / float_ulp p x = of_int (m * 2 ^ k)" 
    using eq float_ulp_pos [of p x] by (metis less_irrefl nonzero_mult_div_cancel_right)
  then have "float_round p x = of_int (m * 2 ^ k) * float_ulp p x"
    using x by (simp only: float_round_def round_half_even_of_int if_False not_le [symmetric] simp_thms)
  with eq show ?thesis by simp
qed (simp add: float_round_def)

lemma is_float_nat: "n < 2 ^ p \<Longrightarrow> is_float p (of_nat n)"
proof -
  assume "n < 2 ^ p"
  then have "int n < 2 ^ p" by (metis of_nat_less_iff of_nat_numeral of_nat_power)
  then show ?thesis unfolding is_float_def by (intro exI [of _ "int n"] exI [of _ 0]) simp
qed

subsection \<open>The two precisions\<close>

lemma f64_round_nat: "n < 2 ^ 53 \<Longrightarrow> f64_round (of_nat n) = of_nat n"
  unfolding f64_round_def by (rule float_round_exact [OF is_float_nat]) simp_all

lemma f64_round_int: "0 \<le> n \<Longrightarrow> n < 2 ^ 53 \<Longrightarrow> f64_round (of_int n) = of_int n"
  using f64_round_nat [of "nat n"] by (simp add: nat_less_iff)

lemma f64_round_numeral: "(numeral n :: nat) < 2 ^ 53 \<Longrightarrow> f64_round (numeral n) = numeral n"
  using f64_round_nat [of "numeral n"] by simp

lemma f32_round_power: "f32_round (1 / 2 ^ k) = 1 / 2 ^ k"
proof -
  have "is_float 24 (1 / 2 ^ k)"
    unfolding is_float_def by (intro exI [of _ 1] exI [of _ "- int k"]) (simp add: power_int_minus divide_inverse)
  then show ?thesis unfolding f32_round_def by (rule float_round_exact) simp
qed

lemma f32_round_0 [simp]: "f32_round 0 = 0"
  by (simp add: f32_round_def float_round_def)

lemma float_to_u64_nat: "n < 2 ^ 64 \<Longrightarrow> float_to_u64 (of_nat n) = word_of_nat n"
proof -
  assume "n < 2 ^ 64"
  then have "(of_nat n :: rat) < 2 ^ 64" by (metis of_nat_less_iff of_nat_numeral of_nat_power)
  then show ?thesis by (auto simp: float_to_u64_def)
qed

lemma f64_round_below:
  assumes "x < y" "1 \<le> x" "x < 2" "1 / 2 ^ 53 < y - x"
  shows "f64_round x < y"
proof -
  have "floor_log2 x = 0" using assms(2,3) by (intro floor_log2_unique) simp_all
  then have "float_ulp 53 x = 2 powi (- int 52)" by (simp add: float_ulp_def)
  then have u: "float_ulp 53 x = 1 / 2 ^ 52" by (simp only: power_int_minus power_int_of_nat divide_inverse mult_1)
  have "of_int (round_half_even (x * 2 ^ 52)) - x * 2 ^ 52 \<le> (1 / 2 :: rat)"
    using round_half_even_near [of "x * 2 ^ 52"] unfolding abs_le_iff by (rule conjunct1)
  moreover have "f64_round x * 2 ^ 52 = of_int (round_half_even (x * 2 ^ 52))"
    using assms(2) by (simp add: f64_round_def float_round_def u)
  ultimately have "f64_round x * 2 ^ 52 \<le> x * 2 ^ 52 + 1 / 2" by simp
  moreover have "x * 2 ^ 52 + 1 / 2 < y * 2 ^ 52" using assms(4) by simp
  ultimately show ?thesis by simp
qed

lemma f64_round_1 [simp]: "f64_round 1 = 1" "f64_round 2 = 2" "f64_round (3 / 2) = 3 / 2"
proof -
  show "f64_round 1 = 1" "f64_round 2 = 2" using f64_round_nat [of 1] f64_round_nat [of 2] by simp_all
  have "is_float 53 (3 / 2)"
    unfolding is_float_def by (intro exI [of _ 3] exI [of _ "- 1"]) (simp add: power_int_def)
  then show "f64_round (3 / 2) = 3 / 2" unfolding f64_round_def by (rule float_round_exact) simp
qed

lemma f64_round_mono: "x \<le> y \<Longrightarrow> f64_round x \<le> f64_round y"
  unfolding f64_round_def by (rule float_round_mono) simp_all

lemma f64_signed_nonneg: "0 \<le> x \<Longrightarrow> f64_signed x = f64_round x"
  by (simp add: f64_signed_def)

lemma rounded_ratio_ge:
  assumes b: "0 < b" "b < 2 ^ 52" and k: "m = 3 \<or> m = 4"
  shows "of_nat m / 2 \<le> f64_round (of_nat a / of_nat b) \<longleftrightarrow> m * b \<le> 2 * a"
proof -
  define x where "x = (of_nat a / of_nat b :: rat)"
  have y: "f64_round (of_nat m / 2) = (of_nat m / 2 :: rat)" using k by auto
  have "of_nat m / 2 \<le> x \<longleftrightarrow> (of_nat (m * b) :: rat) \<le> of_nat (2 * a)"
    using b(1) by (simp add: x_def field_simps)
  then have ge: "of_nat m / 2 \<le> x \<longleftrightarrow> m * b \<le> 2 * a" by (simp only: of_nat_le_iff)
  have "f64_round x < of_nat m / 2" if lt: "2 * a < m * b"
  proof (cases "1 \<le> x")
    case False
    then have "f64_round x \<le> 1" using f64_round_mono [of x 1] by simp
    then show ?thesis using k by auto
  next
    case True
    have xm: "x < of_nat m / 2" using ge lt by (metis not_le)
    have "(of_nat (2 * a) + 1 :: rat) \<le> of_nat (m * b)"
      using lt by (metis Suc_leI add.commute of_nat_Suc of_nat_le_iff)
    then have "1 / (2 * of_nat b) \<le> of_nat m / 2 - x" using b(1) by (simp add: x_def field_simps)
    moreover have "(1 / 2 ^ 53 :: rat) < 1 / (2 * of_nat b)"
    proof -
      have "(of_nat b :: rat) < 2 ^ 52" using b(2) by (metis of_nat_less_iff of_nat_numeral of_nat_power)
      then show ?thesis using b(1) by (intro divide_strict_left_mono) simp_all
    qed
    ultimately have "1 / 2 ^ 53 < of_nat m / 2 - x" by (rule order_less_le_trans [rotated])
    moreover have "x < 2" using xm k by auto
    ultimately show ?thesis using f64_round_below [OF xm True] by blast
  qed
  then show ?thesis using ge f64_round_mono [of "of_nat m / 2" x] y unfolding x_def [symmetric] by (metis not_le order_less_le_trans)
qed

lemma f32_round_mono: "x \<le> y \<Longrightarrow> f32_round x \<le> f32_round y"
  unfolding f32_round_def by (rule float_round_mono) simp_all

lemma f32_round_nat: "n < 2 ^ 24 \<Longrightarrow> f32_round (of_nat n) = of_nat n"
  unfolding f32_round_def by (intro float_round_exact is_float_nat) simp_all

lemma f32_round_ratio: "m < 2 ^ 24 \<Longrightarrow> f32_round (of_nat m / 2 ^ k) = of_nat m / 2 ^ k"
proof -
  assume "m < 2 ^ 24"
  then have "int m < 2 ^ 24" by (metis of_nat_less_iff of_nat_numeral of_nat_power)
  then have "is_float 24 (of_nat m / 2 ^ k)" unfolding is_float_def
    by (intro exI [of _ "int m"] exI [of _ "- int k"]) (simp add: power_int_minus divide_inverse)
  then show ?thesis unfolding f32_round_def by (rule float_round_exact) simp
qed

end
