(* ===== verification/Spons_Penalty.thy ===== *)
theory Spons_Penalty
  imports Spons_Store Ieee_Round
begin

text \<open>
  Penalties for misbehaviour (\<open>src/sponsorship/penalty.rs\<close>, \<open>penalty_store.rs\<close>, \<open>propagation.rs\<close>,
  \<open>recovery.rs\<close>): their records and stacking rules, how a penalty spreads up the chain of sponsors, and
  how contribution shortens it. Multipliers and ratios are floating-point numbers.
\<close>

subsection \<open>Severities and records\<close>

definition SPAM_PENALTY_SECONDS :: u64 where "SPAM_PENALTY_SECONDS = 604800"
definition ABUSE_PENALTY_SECONDS :: u64 where "ABUSE_PENALTY_SECONDS = 2592000"
definition ILLEGAL_PENALTY_SECONDS :: u64 where "ILLEGAL_PENALTY_SECONDS = 7776000"
definition ALL_INVITE_SLOTS :: u8 where "ALL_INVITE_SLOTS = 255"

lemmas penalty_constants = SPAM_PENALTY_SECONDS_def ABUSE_PENALTY_SECONDS_def ILLEGAL_PENALTY_SECONDS_def ALL_INVITE_SLOTS_def

datatype misbehavior_severity = NoMisbehavior | Spam | Abuse | Illegal

datatype penalty_type = RestrictedPosting | LostInviteSlots | AcceleratedDecay | PermanentRevocation

definition is_propagating :: "misbehavior_severity \<Rightarrow> bool" where
  "is_propagating severity \<longleftrightarrow> severity \<noteq> NoMisbehavior"

definition offender_duration_seconds :: "misbehavior_severity \<Rightarrow> u64 option" where
  "offender_duration_seconds severity =
     (case severity of NoMisbehavior \<Rightarrow> None | Spam \<Rightarrow> Some SPAM_PENALTY_SECONDS
      | Abuse \<Rightarrow> Some ABUSE_PENALTY_SECONDS | Illegal \<Rightarrow> Some (- 1))"

definition hop1_duration_seconds :: "misbehavior_severity \<Rightarrow> u64 option" where
  "hop1_duration_seconds severity =
     (case severity of NoMisbehavior \<Rightarrow> None | Spam \<Rightarrow> Some SPAM_PENALTY_SECONDS
      | Abuse \<Rightarrow> Some ABUSE_PENALTY_SECONDS | Illegal \<Rightarrow> Some ILLEGAL_PENALTY_SECONDS)"

definition hop2_duration_seconds :: "misbehavior_severity \<Rightarrow> u64 option" where
  "hop2_duration_seconds severity =
     (case severity of NoMisbehavior \<Rightarrow> None | Spam \<Rightarrow> None
      | Abuse \<Rightarrow> Some SPAM_PENALTY_SECONDS | Illegal \<Rightarrow> Some ABUSE_PENALTY_SECONDS)"

record penalty_record =
  pn_identity :: pub_key
  pn_type :: penalty_type
  pn_started_at :: u64
  pn_base_expires_at :: u64
  pn_current_expires_at :: u64
  pn_caused_by :: "pub_key option"
  pn_severity :: misbehavior_severity
  pn_hop_distance :: u8
  pn_slots_lost :: u8
  pn_additional :: "penalty_type option"

definition for_offender :: "pub_key \<Rightarrow> misbehavior_severity \<Rightarrow> u64 \<Rightarrow> penalty_record" where
  "for_offender i severity now =
     (let (ty, base) =
        (case severity of NoMisbehavior \<Rightarrow> (RestrictedPosting, now)
         | Spam \<Rightarrow> (RestrictedPosting, now + SPAM_PENALTY_SECONDS)
         | Abuse \<Rightarrow> (RestrictedPosting, now + ABUSE_PENALTY_SECONDS)
         | Illegal \<Rightarrow> (PermanentRevocation, - 1))
      in \<lparr>pn_identity = i, pn_type = ty, pn_started_at = now, pn_base_expires_at = base,
          pn_current_expires_at = base, pn_caused_by = None, pn_severity = severity,
          pn_hop_distance = 0, pn_slots_lost = 0, pn_additional = None\<rparr>)"

definition for_sponsor ::
  "pub_key \<Rightarrow> pub_key \<Rightarrow> misbehavior_severity \<Rightarrow> u8 \<Rightarrow> u64 \<Rightarrow> u64 \<Rightarrow> penalty_record" where
  "for_sponsor i offender severity hop duration now =
     (let (slots, more) =
        (if severity = Spam \<and> hop = 1 then (1, None)
         else if severity = Abuse \<and> hop = 1 then (ALL_INVITE_SLOTS, None)
         else if severity = Illegal \<and> hop = 1 then (ALL_INVITE_SLOTS, Some AcceleratedDecay)
         else if severity = Abuse \<and> hop = 2 then (1, None)
         else if severity = Illegal \<and> hop = 2 then (1, None)
         else (0, None));
          base = sat_add now duration
      in \<lparr>pn_identity = i, pn_type = LostInviteSlots, pn_started_at = now, pn_base_expires_at = base,
          pn_current_expires_at = base, pn_caused_by = Some offender, pn_severity = severity,
          pn_hop_distance = hop, pn_slots_lost = slots, pn_additional = more\<rparr>)"

definition pn_is_expired :: "penalty_record \<Rightarrow> u64 \<Rightarrow> bool" where
  "pn_is_expired p now \<longleftrightarrow> now \<ge> pn_current_expires_at p"

definition pn_is_permanent :: "penalty_record \<Rightarrow> bool" where
  "pn_is_permanent p \<longleftrightarrow> pn_type p = PermanentRevocation \<or> pn_base_expires_at p = - 1"

definition pn_remaining_duration :: "penalty_record \<Rightarrow> u64 \<Rightarrow> u64" where
  "pn_remaining_duration p now =
     (if pn_is_permanent p then - 1 else sat_sub (pn_current_expires_at p) now)"

definition pn_validate_invariants :: "penalty_record \<Rightarrow> sponsorship_error outcome" where
  "pn_validate_invariants p =
     rbind (reject_if (pn_current_expires_at p > pn_base_expires_at p)
              (InvalidInvariant ''current_expires_at cannot exceed base_expires_at'')) (\<lambda>_.
     rbind (reject_if (pn_hop_distance p > 2 \<and> pn_slots_lost p > 0)
              (InvalidInvariant ''hop_distance > 2 should only have warnings, not penalties'')) (\<lambda>_.
     reject_if (pn_type p = PermanentRevocation \<and> pn_base_expires_at p \<noteq> - 1)
       (InvalidInvariant ''PermanentRevocation must have u64::MAX expiration'')))"

definition set_current_expires_at :: "penalty_record \<Rightarrow> u64 \<Rightarrow> penalty_record" where
  "set_current_expires_at p t = p\<lparr>pn_current_expires_at := min t (pn_base_expires_at p)\<rparr>"

subsection \<open>The penalty store\<close>

record warning =
  wn_identity :: pub_key
  wn_caused_by :: pub_key
  wn_severity :: misbehavior_severity
  wn_timestamp :: u64
  wn_hop_distance :: u8

record penalty_store =
  ps_penalties :: "(pub_key, penalty_record list) tree"
  ps_by_cause :: "(pub_key, (pub_key \<times> penalty_type) list) tree"
  ps_warnings :: "(pub_key, warning list) tree"

definition ps_empty :: penalty_store where
  "ps_empty = \<lparr>ps_penalties = [], ps_by_cause = [], ps_warnings = []\<rparr>"

definition get_penalties :: "penalty_store \<Rightarrow> pub_key \<Rightarrow> penalty_record list" where
  "get_penalties ps i = (case tree_get (ps_penalties ps) i of Some l \<Rightarrow> l | None \<Rightarrow> [])"

definition get_active_penalties :: "penalty_store \<Rightarrow> pub_key \<Rightarrow> u64 \<Rightarrow> penalty_record list" where
  "get_active_penalties ps i now = filter (\<lambda>p. \<not> pn_is_expired p now) (get_penalties ps i)"

definition has_active_penalty :: "penalty_store \<Rightarrow> pub_key \<Rightarrow> u64 \<Rightarrow> bool" where
  "has_active_penalty ps i now \<longleftrightarrow> get_active_penalties ps i now \<noteq> []"

definition has_penalty_type :: "penalty_store \<Rightarrow> pub_key \<Rightarrow> penalty_type \<Rightarrow> u64 \<Rightarrow> bool" where
  "has_penalty_type ps i ty now \<longleftrightarrow> (\<exists>p \<in> set (get_active_penalties ps i now). pn_type p = ty)"

definition store_penalties :: "penalty_store \<Rightarrow> pub_key \<Rightarrow> penalty_record list \<Rightarrow> penalty_store" where
  "store_penalties ps i l =
     (if l = [] then ps\<lparr>ps_penalties := tree_remove (ps_penalties ps) i\<rparr>
      else ps\<lparr>ps_penalties := tree_insert (ps_penalties ps) i l\<rparr>)"

definition add_to_cause_index :: "penalty_store \<Rightarrow> pub_key \<Rightarrow> pub_key \<Rightarrow> penalty_type \<Rightarrow> penalty_store" where
  "add_to_cause_index ps caused_by i ty =
     (let refs = (case tree_get (ps_by_cause ps) caused_by of Some l \<Rightarrow> l | None \<Rightarrow> [])
      in if (i, ty) \<in> set refs then ps
         else ps\<lparr>ps_by_cause := tree_insert (ps_by_cause ps) caused_by (refs @ [(i, ty)])\<rparr>)"

definition extend_penalty :: "penalty_record \<Rightarrow> penalty_record \<Rightarrow> penalty_record" where
  "extend_penalty new p =
     (if pn_base_expires_at new > pn_current_expires_at p then
        let p1 = p\<lparr>pn_current_expires_at := min (pn_base_expires_at new) (pn_base_expires_at p)\<rparr>
        in if pn_base_expires_at new > pn_base_expires_at p1
           then p1\<lparr>pn_base_expires_at := pn_base_expires_at new, pn_current_expires_at := pn_base_expires_at new\<rparr>
           else p1
      else p)"

text \<open>The loop over the penalties of an identity stops at the first of the same type.\<close>

primrec stack_penalty :: "penalty_record \<Rightarrow> penalty_record list \<Rightarrow> penalty_record list \<times> bool" where
  "stack_penalty new [] = ([], False)"
| "stack_penalty new (p # ps) =
     (if pn_type p = pn_type new then (extend_penalty new p # ps, True)
      else let (ps', found) = stack_penalty new ps in (p # ps', found))"

definition apply_penalty :: "penalty_store \<Rightarrow> penalty_record \<Rightarrow> sponsorship_error outcome \<times> penalty_store" where
  "apply_penalty ps new =
     (case pn_validate_invariants new of
        Inl e \<Rightarrow> (Inl e, ps)
      | Inr _ \<Rightarrow>
          if pn_type new = PermanentRevocation \<and>
             (\<exists>p \<in> set (get_penalties ps (pn_identity new)). pn_type p = PermanentRevocation)
          then (Inr (), ps)
          else
            let (l, found) = stack_penalty new (get_penalties ps (pn_identity new));
                ps1 = store_penalties ps (pn_identity new) (if found then l else l @ [new])
            in (Inr (), case pn_caused_by new of
                          Some caused_by \<Rightarrow> add_to_cause_index ps1 caused_by (pn_identity new) (pn_type new)
                        | None \<Rightarrow> ps1))"

definition get_penalties_caused_by :: "penalty_store \<Rightarrow> pub_key \<Rightarrow> penalty_record list" where
  "get_penalties_caused_by ps offender =
     (case tree_get (ps_by_cause ps) offender of
        None \<Rightarrow> []
      | Some refs \<Rightarrow>
          concat (map (\<lambda>(i, _). filter (\<lambda>p. pn_caused_by p = Some offender) (get_penalties ps i)) refs))"

definition remove_expired_step :: "u64 \<Rightarrow> penalty_store \<times> nat \<Rightarrow> pub_key \<times> penalty_record list \<Rightarrow> penalty_store \<times> nat" where
  "remove_expired_step now acc e =
     (case (acc, e) of ((ps, removed), (key, l)) \<Rightarrow>
        let active = filter (\<lambda>p. \<not> pn_is_expired p now) l
        in (store_penalties ps key active, removed + length (filter (\<lambda>p. pn_is_expired p now) l)))"

definition remove_expired_penalties :: "penalty_store \<Rightarrow> u64 \<Rightarrow> penalty_store \<times> nat" where
  "remove_expired_penalties ps now = foldl (remove_expired_step now) (ps, 0) (tree_iter (ps_penalties ps))"

definition record_warning :: "penalty_store \<Rightarrow> warning \<Rightarrow> penalty_store" where
  "record_warning ps w =
     (let l = (case tree_get (ps_warnings ps) (wn_identity w) of Some l \<Rightarrow> l | None \<Rightarrow> [])
      in ps\<lparr>ps_warnings := tree_insert (ps_warnings ps) (wn_identity w) (l @ [w])\<rparr>)"

definition get_warnings :: "penalty_store \<Rightarrow> pub_key \<Rightarrow> warning list" where
  "get_warnings ps i = (case tree_get (ps_warnings ps) i of Some l \<Rightarrow> l | None \<Rightarrow> [])"

primrec recover_first :: "penalty_type \<Rightarrow> u64 \<Rightarrow> penalty_record list \<Rightarrow> penalty_record list option" where
  "recover_first ty t [] = None"
| "recover_first ty t (p # ps) =
     (if pn_type p = ty then (if pn_is_permanent p then None else Some (set_current_expires_at p t # ps))
      else map_option (\<lambda>l. p # l) (recover_first ty t ps))"

definition apply_recovery :: "penalty_store \<Rightarrow> pub_key \<Rightarrow> penalty_type \<Rightarrow> u64 \<Rightarrow> bool \<times> penalty_store" where
  "apply_recovery ps i ty t =
     (case recover_first ty t (get_penalties ps i) of
        Some l \<Rightarrow> (True, store_penalties ps i l)
      | None \<Rightarrow> (False, ps))"

definition total_penalty_count :: "penalty_store \<Rightarrow> nat" where
  "total_penalty_count ps = sum_list (map (\<lambda>(_, l). length l) (tree_iter (ps_penalties ps)))"

subsection \<open>Propagation up the chain of sponsors\<close>

text \<open>The multipliers are powers of two and zero; products with them are exact, and \<open>f32::EPSILON\<close> is
  two to the power of \<open>- 23\<close>.\<close>

definition get_hop_decay :: "u8 \<Rightarrow> rat" where
  "get_hop_decay hop = (if hop = 1 then 1 else if hop = 2 then 1 / 2 else 0)"

definition compute_sponsor_penalty ::
  "pub_key \<Rightarrow> pub_key \<Rightarrow> misbehavior_severity \<Rightarrow> u8 \<Rightarrow> rat \<Rightarrow> u64 \<Rightarrow> penalty_record option" where
  "compute_sponsor_penalty sponsor offender severity hop multiplier now =
     (let (base_duration, should_penalize) =
        (if severity = Spam \<and> hop = 1 then (SPAM_PENALTY_SECONDS, True)
         else if severity = Abuse \<and> hop = 1 then (ABUSE_PENALTY_SECONDS, True)
         else if severity = Illegal \<and> hop = 1 then (ILLEGAL_PENALTY_SECONDS, True)
         else if severity = Spam \<and> hop = 2 then (0, False)
         else if severity = Abuse \<and> hop = 2 then (SPAM_PENALTY_SECONDS, True)
         else if severity = Illegal \<and> hop = 2 then (ABUSE_PENALTY_SECONDS, True)
         else (0, False))
      in if \<not> should_penalize then None
         else
           let scaled = float_to_u64 (f64_round (f64_round (of_nat (unat base_duration)) * multiplier));
               final = max scaled 86400
           in Some (for_sponsor sponsor offender severity hop final now))"

definition note_sponsor ::
  "pub_key \<Rightarrow> misbehavior_severity \<Rightarrow> rat \<Rightarrow> u64 \<Rightarrow> penalty_record list \<times> warning list \<Rightarrow> nat \<times> pub_key \<Rightarrow>
   penalty_record list \<times> warning list" where
  "note_sponsor offender severity probation now acc e =
     (case (acc, e) of ((penalties, warnings), (idx, sponsor)) \<Rightarrow>
        let hop = word_of_nat idx;
            multiplier = f32_round (get_hop_decay hop * probation);
            w = \<lparr>wn_identity = sponsor, wn_caused_by = offender, wn_severity = severity,
                 wn_timestamp = now, wn_hop_distance = hop\<rparr>
        in if multiplier < 1 / 2 ^ 23 then (penalties, warnings @ [w])
           else case compute_sponsor_penalty sponsor offender severity hop multiplier now of
                  Some p \<Rightarrow> (penalties @ [p], warnings)
                | None \<Rightarrow> (penalties, warnings @ [w]))"

record propagation_result =
  pg_offender_penalty :: penalty_record
  pg_sponsor_penalties :: "penalty_record list"
  pg_warnings :: "warning list"

definition propagate_consequences ::
  "spons_store \<Rightarrow> pub_key \<Rightarrow> misbehavior_severity \<Rightarrow> u64 \<Rightarrow> sponsorship_error + propagation_result" where
  "propagate_consequences st offender severity now =
     (if \<not> is_propagating severity
      then Inl (InvalidInvariant ''Cannot propagate consequences for None severity'')
      else
        let chain = get_path_to_genesis st offender;
            probation = (case ss_get st offender of Some s \<Rightarrow> if sr_probationary s then 1 / 4 else 1 | None \<Rightarrow> 1);
            (penalties, warnings) =
              foldl (note_sponsor offender severity probation now) ([], []) (drop 1 (zip [0 ..< length chain] chain))
        in Inr \<lparr>pg_offender_penalty = for_offender offender severity now,
                pg_sponsor_penalties = penalties, pg_warnings = warnings\<rparr>)"

subsection \<open>Recovery by contribution\<close>

record recovery_result =
  rc_new_expires_at :: u64
  rc_fully_recovered :: bool
  rc_reduction_factor :: rat
  rc_accelerated :: bool

definition no_recovery :: "penalty_record \<Rightarrow> recovery_result" where
  "no_recovery p = \<lparr>rc_new_expires_at = pn_current_expires_at p, rc_fully_recovered = False,
     rc_reduction_factor = 0, rc_accelerated = False\<rparr>"

definition full_recovery :: "penalty_record \<Rightarrow> recovery_result" where
  "full_recovery p = \<lparr>rc_new_expires_at = pn_current_expires_at p, rc_fully_recovered = True,
     rc_reduction_factor = 0, rc_accelerated = False\<rparr>"

definition sat_mul :: "u64 \<Rightarrow> u64 \<Rightarrow> u64" where
  "sat_mul a b = (if unat a * unat b < 2 ^ 64 then a * b else - 1)"

definition contribution_ratio :: "u64 \<Rightarrow> u64 \<Rightarrow> rat" where
  "contribution_ratio contribution expected =
     f64_round (f64_round (of_nat (unat contribution)) / f64_round (of_nat (unat expected)))"

definition calculate_recovery :: "penalty_record \<Rightarrow> u64 \<Rightarrow> u64 \<Rightarrow> u8 \<Rightarrow> u64 \<Rightarrow> recovery_result" where
  "calculate_recovery p contribution rate attestations now =
     (if pn_is_permanent p then no_recovery p
      else if now \<ge> pn_base_expires_at p then full_recovery p
      else if attestations < MIN_ATTESTATION_COUNT then no_recovery p
      else
        let elapsed = sat_sub now (pn_started_at p)
        in if elapsed = 0 \<or> rate = 0 then no_recovery p
           else
             let expected = sat_mul rate elapsed
             in if expected = 0 then no_recovery p
                else
                  let ratio = contribution_ratio contribution expected;
                      factor = (if ratio \<ge> 2 then 1 / 2 else if ratio \<ge> 3 / 2 then 1 / 4 else 0)
                  in if factor < 1 / 2 ^ 23 then no_recovery p
                     else
                       let base_duration = sat_sub (pn_base_expires_at p) (pn_started_at p);
                           new_duration = float_to_u64 (f64_round (f64_round (of_nat (unat base_duration)) * (1 - factor)));
                           final = min (sat_add (pn_started_at p) new_duration) (pn_base_expires_at p)
                       in \<lparr>rc_new_expires_at = final, rc_fully_recovered = (now \<ge> final),
                           rc_reduction_factor = factor, rc_accelerated = True\<rparr>)"

definition qualifies_for_recovery :: "penalty_record \<Rightarrow> rat \<Rightarrow> u8 \<Rightarrow> bool" where
  "qualifies_for_recovery p ratio attestations =
     (if pn_is_permanent p then False
      else if attestations < MIN_ATTESTATION_COUNT then False
      else ratio \<ge> 3 / 2)"

end
