(* ===== verification/Spons_Rights.thy ===== *)
theory Spons_Rights
  imports Spons_Store Ieee_Round
begin

text \<open>
  Who may sponsor now (\<open>src/sponsorship/rights.rs\<close>) and which chains of sponsors look manufactured
  (\<open>src/sponsorship/linear_chain.rs\<close>, the metrics of \<open>types.rs\<close>). The compare-and-swap loop that records
  a sponsorship is one atomic step.
\<close>

subsection \<open>Cooldown\<close>

record rights_record =
  rr_identity :: pub_key
  rr_window_start :: u64
  rr_in_window :: u8
  rr_last :: "u64 option"

definition rr_new :: "pub_key \<Rightarrow> u64 \<Rightarrow> rights_record" where
  "rr_new i now = \<lparr>rr_identity = i, rr_window_start = now, rr_in_window = 0, rr_last = None\<rparr>"

definition is_window_expired :: "rights_record \<Rightarrow> u64 \<Rightarrow> bool" where
  "is_window_expired r now \<longleftrightarrow> now \<ge> sat_add (rr_window_start r) SPONSORSHIP_WINDOW_SECONDS"

definition is_cooldown_active :: "rights_record \<Rightarrow> u64 \<Rightarrow> bool" where
  "is_cooldown_active r now =
     (case rr_last r of Some t \<Rightarrow> now < sat_add t SPONSORSHIP_COOLDOWN_SECONDS | None \<Rightarrow> False)"

definition cooldown_expires_at :: "rights_record \<Rightarrow> u64 option" where
  "cooldown_expires_at r = map_option (\<lambda>t. sat_add t SPONSORSHIP_COOLDOWN_SECONDS) (rr_last r)"

record capacity_info =
  ci_can_sponsor :: bool
  ci_remaining_slots :: "u8 option"
  ci_next_available_at :: "u64 option"
  ci_denial_reason :: "sponsorship_error option"

definition ci_allowed :: "u8 option \<Rightarrow> capacity_info" where
  "ci_allowed remaining = \<lparr>ci_can_sponsor = True, ci_remaining_slots = remaining, ci_next_available_at = None,
     ci_denial_reason = None\<rparr>"

definition ci_denied :: "sponsorship_error \<Rightarrow> u64 option \<Rightarrow> capacity_info" where
  "ci_denied reason next = \<lparr>ci_can_sponsor = False, ci_remaining_slots = Some 0, ci_next_available_at = next,
     ci_denial_reason = Some reason\<rparr>"

type_synonym rights_store = "(pub_key, rights_record) tree"

definition rs_get :: "rights_store \<Rightarrow> pub_key \<Rightarrow> rights_record option" where
  "rs_get rs i = tree_get rs i"

definition rs_put :: "rights_store \<Rightarrow> rights_record \<Rightarrow> rights_store" where
  "rs_put rs r = tree_insert rs (rr_identity r) r"

definition get_or_create :: "rights_store \<Rightarrow> pub_key \<Rightarrow> u64 \<Rightarrow> rights_record \<times> rights_store" where
  "get_or_create rs i now =
     (case rs_get rs i of
        Some r \<Rightarrow>
          if is_window_expired r now
          then let r1 = r\<lparr>rr_window_start := now, rr_in_window := 0\<rparr> in (r1, rs_put rs r1)
          else (r, rs)
      | None \<Rightarrow> let r = rr_new i now in (r, rs_put rs r))"

definition record_sponsorship :: "rights_store \<Rightarrow> pub_key \<Rightarrow> u64 \<Rightarrow> rights_store" where
  "record_sponsorship rs i now =
     (let r = (case rs_get rs i of Some r \<Rightarrow> r | None \<Rightarrow> rr_new i now);
          r1 = (if is_window_expired r now then r\<lparr>rr_window_start := now, rr_in_window := 0\<rparr> else r)
      in tree_insert rs i (r1\<lparr>rr_in_window := u8_sat_add (rr_in_window r1) 1, rr_last := Some now\<rparr>))"

definition rs_can_sponsor :: "rights_store \<Rightarrow> pub_key \<Rightarrow> u64 \<Rightarrow> (pub_key \<Rightarrow> u64 \<Rightarrow> bool) \<Rightarrow> capacity_info \<times> rights_store" where
  "rs_can_sponsor rs sponsor now is_under_penalty =
     (if is_under_penalty sponsor now then (ci_denied SponsorRestricted None, rs)
      else
        let (r, rs1) = get_or_create rs sponsor now
        in if is_cooldown_active r now
           then let available_at = (case cooldown_expires_at r of Some t \<Rightarrow> t | None \<Rightarrow> now)
                in (ci_denied (SponsorOnCooldown available_at) (Some available_at), rs1)
           else (ci_allowed None, rs1))"

subsection \<open>Metrics of a chain of sponsors\<close>

record chain_metrics =
  cm_identity :: pub_key
  cm_depth :: u8
  cm_breadth :: u32
  cm_direct :: u32
  cm_avg_depth :: rat
  cm_linearity :: rat
  cm_suspicious :: bool

record chain_config =
  cc_threshold :: rat
  cc_min_depth :: u8
  cc_max_breadth :: u32

text \<open>The constant \<open>0.8_f32\<close>.\<close>

definition LINEARITY_SCORE_THRESHOLD :: rat where
  "LINEARITY_SCORE_THRESHOLD = f32_round (4 / 5)"

definition chain_config_default :: chain_config where
  "chain_config_default = \<lparr>cc_threshold = LINEARITY_SCORE_THRESHOLD, cc_min_depth = LINEAR_CHAIN_MIN_DEPTH,
     cc_max_breadth = DEFAULT_MAX_LINEAR_BREADTH\<rparr>"

definition linearity_of :: "u8 \<Rightarrow> u32 \<Rightarrow> rat" where
  "linearity_of depth breadth = f32_round (f32_round (of_nat (unat depth)) / f32_round (of_nat (unat (max breadth 1))))"

definition cm_new :: "pub_key \<Rightarrow> u8 \<Rightarrow> u32 \<Rightarrow> u32 \<Rightarrow> rat \<Rightarrow> chain_metrics" where
  "cm_new i depth breadth direct avg =
     (let linearity = linearity_of depth breadth
      in \<lparr>cm_identity = i, cm_depth = depth, cm_breadth = breadth, cm_direct = direct, cm_avg_depth = avg,
          cm_linearity = linearity,
          cm_suspicious = (linearity > LINEARITY_SCORE_THRESHOLD \<and> depth \<ge> LINEAR_CHAIN_MIN_DEPTH)\<rparr>)"

definition is_flagged_with_config :: "chain_metrics \<Rightarrow> chain_config \<Rightarrow> bool" where
  "is_flagged_with_config cm cfg =
     (let high_linearity = (cm_linearity cm > cc_threshold cfg \<and> cm_depth cm \<ge> cc_min_depth cfg);
          linear_chain = (cm_depth cm \<ge> cc_min_depth cfg \<and> cm_direct cm \<le> cc_max_breadth cfg)
      in high_linearity \<or> linear_chain)"

definition calculate_linear_chain_metrics :: "spons_store \<Rightarrow> pub_key \<Rightarrow> sponsorship_error + chain_metrics" where
  "calculate_linear_chain_metrics st i =
     (case ss_get st i of
        None \<Rightarrow> Inl (StorageError ''identity not found'')
      | Some s \<Rightarrow>
          let (breadth, max_depth) = calculate_subtree_metrics st i
          in Inr (cm_new i (sr_depth s) breadth (count_sponsees st i) (f32_round (of_nat (unat max_depth)))))"

subsection \<open>Flags and their review\<close>

datatype review_status = Pending | Cleared | Confirmed

record chain_flag =
  cf_identity :: pub_key
  cf_score_scaled :: u16
  cf_depth :: u8
  cf_breadth :: u32
  cf_direct :: u32
  cf_status :: review_status
  cf_created_at :: u64
  cf_appeal_reason :: "string option"
  cf_reviewer_notes :: "string option"

definition cf_new :: "chain_metrics \<Rightarrow> u64 \<Rightarrow> chain_flag" where
  "cf_new cm now =
     \<lparr>cf_identity = cm_identity cm,
      cf_score_scaled = word_of_int \<lfloor>min (f32_round (cm_linearity cm * 1000)) 65535\<rfloor>,
      cf_depth = cm_depth cm, cf_breadth = cm_breadth cm, cf_direct = cm_direct cm,
      cf_status = Pending, cf_created_at = now, cf_appeal_reason = None, cf_reviewer_notes = None\<rparr>"

record chain_detector =
  cd_flags :: "(pub_key, chain_flag) tree"
  cd_config :: chain_config

definition get_flag :: "chain_detector \<Rightarrow> pub_key \<Rightarrow> chain_flag option" where
  "get_flag d i = tree_get (cd_flags d) i"

definition is_flagged :: "chain_detector \<Rightarrow> pub_key \<Rightarrow> bool" where
  "is_flagged d i \<longleftrightarrow> tree_get (cd_flags d) i \<noteq> None"

definition is_pending_review :: "chain_detector \<Rightarrow> pub_key \<Rightarrow> bool" where
  "is_pending_review d i = (case get_flag d i of Some f \<Rightarrow> cf_status f = Pending | None \<Rightarrow> False)"

definition is_confirmed :: "chain_detector \<Rightarrow> pub_key \<Rightarrow> bool" where
  "is_confirmed d i = (case get_flag d i of Some f \<Rightarrow> cf_status f = Confirmed | None \<Rightarrow> False)"

definition check_and_flag ::
  "chain_detector \<Rightarrow> spons_store \<Rightarrow> pub_key \<Rightarrow> u64 \<Rightarrow> (sponsorship_error + chain_flag option) \<times> chain_detector" where
  "check_and_flag d st i now =
     (if is_flagged d i then (Inr None, d)
      else case calculate_linear_chain_metrics st i of
             Inl e \<Rightarrow> (Inl e, d)
           | Inr cm \<Rightarrow>
               if \<not> is_flagged_with_config cm (cd_config d) then (Inr None, d)
               else let f = cf_new cm now
                    in (Inr (Some f), d\<lparr>cd_flags := tree_insert (cd_flags d) i f\<rparr>))"

definition get_all_flags :: "chain_detector \<Rightarrow> chain_flag list" where
  "get_all_flags d = map snd (tree_iter (cd_flags d))"

definition get_all_pending :: "chain_detector \<Rightarrow> chain_flag list" where
  "get_all_pending d = filter (\<lambda>f. cf_status f = Pending) (map snd (tree_iter (cd_flags d)))"

definition change_flag :: "chain_detector \<Rightarrow> pub_key \<Rightarrow> (chain_flag \<Rightarrow> chain_flag) \<Rightarrow> chain_detector" where
  "change_flag d i g =
     (case get_flag d i of Some f \<Rightarrow> d\<lparr>cd_flags := tree_insert (cd_flags d) i (g f)\<rparr> | None \<Rightarrow> d)"

definition clear_flag :: "chain_detector \<Rightarrow> pub_key \<Rightarrow> string option \<Rightarrow> chain_detector" where
  "clear_flag d i notes = change_flag d i (\<lambda>f. f\<lparr>cf_status := Cleared, cf_reviewer_notes := notes\<rparr>)"

definition confirm_flag :: "chain_detector \<Rightarrow> pub_key \<Rightarrow> string option \<Rightarrow> chain_detector" where
  "confirm_flag d i notes = change_flag d i (\<lambda>f. f\<lparr>cf_status := Confirmed, cf_reviewer_notes := notes\<rparr>)"

definition submit_appeal :: "chain_detector \<Rightarrow> pub_key \<Rightarrow> string \<Rightarrow> chain_detector" where
  "submit_appeal d i reason = change_flag d i (\<lambda>f. f\<lparr>cf_appeal_reason := Some reason\<rparr>)"

definition count_flagged_in_subtree :: "chain_detector \<Rightarrow> spons_store \<Rightarrow> pub_key \<Rightarrow> nat" where
  "count_flagged_in_subtree d st ancestor =
     length (filter (is_flagged d) (ancestor # map fst (search_subtree st ancestor)))"

definition get_flagged_in_subtree :: "chain_detector \<Rightarrow> spons_store \<Rightarrow> pub_key \<Rightarrow> chain_flag list" where
  "get_flagged_in_subtree d st ancestor = List.map_filter (get_flag d) (ancestor # map fst (search_subtree st ancestor))"

end
