(* ===== verification/Spons_Flow.thy ===== *)
theory Spons_Flow
  imports Spons_Penalty Spons_Rights
begin

text \<open>
  The operations of the sponsorship system: validation of new identities (\<open>src/sponsorship/validation.rs\<close>),
  registration, misbehaviour and recovery (\<open>mod.rs\<close>), orphans and their adoption (\<open>orphan.rs\<close>) and the
  policy of a node (\<open>manager.rs\<close>). Signature verification is the parameter \<open>verify\<close>. The network mode
  selects the hard-coded genesis list.
\<close>

subsection \<open>Validation\<close>

definition validate_sponsor_signature ::
  "(bytes \<Rightarrow> bytes \<Rightarrow> bytes \<Rightarrow> bool) \<Rightarrow> pub_key \<Rightarrow> u64 \<Rightarrow> pub_key \<Rightarrow> bytes \<Rightarrow> sponsorship_error outcome" where
  "validate_sponsor_signature verify new_identity timestamp sponsor signature =
     reject_if (\<not> verify sponsor (new_identity @ u64_be timestamp) signature) InvalidSignature"

definition validate_timestamp_freshness :: "u64 \<Rightarrow> u64 \<Rightarrow> sponsorship_error outcome" where
  "validate_timestamp_freshness timestamp now =
     rbind (reject_if (timestamp > now) StaleTimestamp) (\<lambda>_.
     reject_if (now - timestamp > TIMESTAMP_TOLERANCE_SECONDS) StaleTimestamp)"

definition validate_identity_uniqueness :: "pub_key \<Rightarrow> (pub_key \<Rightarrow> bool) \<Rightarrow> sponsorship_error outcome" where
  "validate_identity_uniqueness i exists_check = reject_if (exists_check i) IdentityExists"

definition validate_genesis_handling :: "identity_creation \<Rightarrow> sponsorship_error outcome" where
  "validate_genesis_handling c =
     (case (ic_sponsor c, ic_genesis_proof c) of
        (None, None) \<Rightarrow> Inl MissingGenesisProof
      | (None, Some proof) \<Rightarrow>
          rbind (validate_slot proof) (\<lambda>_.
          case gp_proof_type proof of
            HardcodedList \<Rightarrow> Inr () | MultiSigThreshold \<Rightarrow> Inr ()
          | CommunityVote \<Rightarrow> Inl CommunityVoteNotImplemented)
      | (Some _, Some _) \<Rightarrow> Inl (InvalidInvariant ''Cannot have both sponsor and genesis proof'')
      | (Some _, None) \<Rightarrow> Inr ())"

definition calculate_required_attestations :: "nat \<Rightarrow> nat" where
  "calculate_required_attestations active_genesis_count = (active_genesis_count * 2 + 2) div 3"

definition verify_genesis_attestation ::
  "(bytes \<Rightarrow> bytes \<Rightarrow> bytes \<Rightarrow> bool) \<Rightarrow> genesis_attestation \<Rightarrow> pub_key \<Rightarrow> u16 \<Rightarrow> sponsorship_error outcome" where
  "verify_genesis_attestation verify a new_pubkey slot =
     reject_if (\<not> verify (ga_attester a) (ga_signing_bytes new_pubkey slot (ga_timestamp a)) (ga_signature a))
       InvalidGenesisAttestation"

definition verify_genesis_creation ::
  "(bytes \<Rightarrow> bytes \<Rightarrow> bytes \<Rightarrow> bool) \<Rightarrow> identity_creation \<Rightarrow> u64 \<Rightarrow> (u16 \<Rightarrow> bool) \<Rightarrow> (pub_key \<Rightarrow> bool) \<Rightarrow> nat \<Rightarrow>
   (pub_key \<Rightarrow> bool) \<Rightarrow> sponsorship_error outcome" where
  "verify_genesis_creation verify c now slot_claimed in_genesis_list active_genesis_count attester_genesis =
     (case ic_genesis_proof c of
        None \<Rightarrow> Inl MissingGenesisProof
      | Some proof \<Rightarrow>
          rbind (validate_slot proof) (\<lambda>_.
          rbind (reject_if (slot_claimed (gp_slot_number proof)) GenesisSlotClaimed) (\<lambda>_.
          case gp_proof_type proof of
            HardcodedList \<Rightarrow> reject_if (\<not> in_genesis_list (ic_new_identity c)) NotInGenesisList
          | MultiSigThreshold \<Rightarrow>
              rbind (reject_if (length (gp_attestations proof) < calculate_required_attestations active_genesis_count)
                       InsufficientGenesisAttestations) (\<lambda>_.
              for_each (\<lambda>a.
                rbind (reject_if (\<not> attester_genesis (ga_attester a)) InvalidGenesisAttestation) (\<lambda>_.
                verify_genesis_attestation verify a (ic_new_identity c) (gp_slot_number proof)))
                (gp_attestations proof))
          | CommunityVote \<Rightarrow> Inl CommunityVoteNotImplemented)))"

definition validate_sponsor_not_flagged :: "pub_key \<Rightarrow> bool \<Rightarrow> (pub_key \<Rightarrow> bool) \<Rightarrow> sponsorship_error outcome" where
  "validate_sponsor_not_flagged sponsor is_probationary flagged_confirmed =
     (if is_probationary then Inr ()
      else reject_if (flagged_confirmed sponsor) SponsorFlaggedForLinearChain)"

definition validate_sponsorship ::
  "(bytes \<Rightarrow> bytes \<Rightarrow> bytes \<Rightarrow> bool) \<Rightarrow> identity_creation \<Rightarrow> u64 \<Rightarrow> (pub_key \<Rightarrow> bool) \<Rightarrow> sponsorship_error outcome" where
  "validate_sponsorship verify c now exists_check =
     rbind (validate_timestamp_freshness (ic_timestamp c) now) (\<lambda>_.
     rbind (validate_identity_uniqueness (ic_new_identity c) exists_check) (\<lambda>_.
     rbind (validate_genesis_handling c) (\<lambda>_.
     if ic_is_genesis c then Inr ()
     else case (ic_sponsor c, ic_sponsor_signature c) of
            (Some sponsor, Some sig) \<Rightarrow>
              validate_sponsor_signature verify (ic_new_identity c) (ic_timestamp c) sponsor sig
          | (Some sponsor, None) \<Rightarrow> Inl MissingSignature
          | (None, _) \<Rightarrow> Inr ())))"

subsection \<open>Registration\<close>

definition register_genesis_identity ::
  "network_mode \<Rightarrow> (bytes \<Rightarrow> bytes \<Rightarrow> bytes \<Rightarrow> bool) \<Rightarrow> spons_store \<Rightarrow> identity_creation \<Rightarrow> u64 \<Rightarrow>
   (sponsorship_error + stored_sponsorship) \<times> spons_store" where
  "register_genesis_identity mode verify st c now =
     (case ic_genesis_proof c of
        None \<Rightarrow> (Inl MissingGenesisProof, st)
      | Some proof \<Rightarrow>
          (case verify_genesis_creation verify c now (is_slot_claimed st) (is_in_hardcoded_genesis_list mode)
                  (count_active_genesis st) (ss_is_genesis st) of
             Inl e \<Rightarrow> (Inl e, st)
           | Inr _ \<Rightarrow>
               and_then (claim_genesis_slot st (gp_slot_number proof) (ic_new_identity c)) (\<lambda>_ st1.
               let s = \<lparr>sr_identity = ic_new_identity c, sr_sponsor = None, sr_created = ic_timestamp c,
                        sr_status = Active, sr_penalty_until = None, sr_depth = 0, sr_probationary = False,
                        sr_probation_expires = None, sr_score = 0, sr_is_genesis = True, sr_orphaned_at = None\<rparr>
               in and_then (ss_put st1 s) (\<lambda>_ st2. (Inr s, st2)))))"

definition sponsored_record :: "identity_creation \<Rightarrow> pub_key \<Rightarrow> u8 \<Rightarrow> stored_sponsorship" where
  "sponsored_record c sponsor sponsor_depth =
     \<lparr>sr_identity = ic_new_identity c, sr_sponsor = Some sponsor, sr_created = ic_timestamp c,
      sr_status = Active, sr_penalty_until = None, sr_depth = u8_sat_add sponsor_depth 1,
      sr_probationary = ic_probationary c,
      sr_probation_expires = (if ic_probationary c then Some (ic_timestamp c + PROBATION_PERIOD_SECONDS) else None),
      sr_score = 0, sr_is_genesis = False, sr_orphaned_at = None\<rparr>"

definition register_sponsored_identity ::
  "spons_store \<Rightarrow> identity_creation \<Rightarrow> u8 \<Rightarrow> (sponsorship_error + stored_sponsorship) \<times> spons_store" where
  "register_sponsored_identity st c sponsor_depth =
     (case ic_sponsor c of
        None \<Rightarrow> (Inl MissingSignature, st)
      | Some sponsor \<Rightarrow>
          let s = sponsored_record c sponsor sponsor_depth
          in and_then (ss_put st s) (\<lambda>_ st1. (Inr s, st1)))"

definition under_penalty_in :: "spons_store \<Rightarrow> pub_key \<Rightarrow> u64 \<Rightarrow> bool" where
  "under_penalty_in st pk time = (case ss_get st pk of Some s \<Rightarrow> sr_is_under_penalty s time | None \<Rightarrow> False)"

definition register_sponsored_identity_with_rights ::
  "spons_store \<times> rights_store \<Rightarrow> identity_creation \<Rightarrow> u8 \<Rightarrow> bool \<Rightarrow> u64 \<Rightarrow>
   (sponsorship_error + stored_sponsorship) \<times> spons_store \<times> rights_store" where
  "register_sponsored_identity_with_rights sts c sponsor_depth is_genesis_sponsor now =
     (case sts of (st, rs) \<Rightarrow>
        case ic_sponsor c of
          None \<Rightarrow> (Inl MissingSignature, st, rs)
        | Some sponsor \<Rightarrow>
            and_then
              (if is_genesis_sponsor then (Inr (), st, rs)
               else let (info, rs1) = rs_can_sponsor rs sponsor now (under_penalty_in st)
                    in (if ci_can_sponsor info then Inr ()
                        else Inl (case ci_denial_reason info of Some e \<Rightarrow> e | None \<Rightarrow> NoAvailableSlots), st, rs1))
              (\<lambda>_ (st, rs1).
                 case register_sponsored_identity st c sponsor_depth of
                   (Inl e, st1) \<Rightarrow> (Inl e, st1, rs1)
                 | (Inr s, st1) \<Rightarrow> (Inr s, st1, record_sponsorship rs1 sponsor now)))"

definition register_sponsored_identity_with_rights_and_detection ::
  "spons_store \<times> rights_store \<Rightarrow> chain_detector option \<Rightarrow> identity_creation \<Rightarrow> u8 \<Rightarrow> bool \<Rightarrow> u64 \<Rightarrow>
   (sponsorship_error + stored_sponsorship) \<times> (spons_store \<times> rights_store) \<times> chain_detector option" where
  "register_sponsored_identity_with_rights_and_detection sts detector c sponsor_depth is_genesis_sponsor now =
     (case ic_sponsor c of
        None \<Rightarrow> (Inl MissingSignature, sts, detector)
      | Some sponsor \<Rightarrow>
          (case (case detector of
                   Some det \<Rightarrow> validate_sponsor_not_flagged sponsor (ic_probationary c) (is_confirmed det)
                 | None \<Rightarrow> Inr ()) of
             Inl e \<Rightarrow> (Inl e, sts, detector)
           | Inr _ \<Rightarrow>
               (case register_sponsored_identity_with_rights sts c sponsor_depth is_genesis_sponsor now of
                  (Inl e, sts1) \<Rightarrow> (Inl e, sts1, detector)
                | (Inr s, sts1) \<Rightarrow>
                    (Inr s, sts1, map_option (\<lambda>det. snd (check_and_flag det (fst sts1) sponsor now)) detector))))"

subsection \<open>Misbehaviour and recovery\<close>

type_synonym spons_state = "spons_store \<times> penalty_store"

definition lift_store :: "'e outcome \<times> spons_store \<Rightarrow> penalty_store \<Rightarrow> 'e outcome \<times> spons_state" where
  "lift_store r ps = (fst r, snd r, ps)"

definition lift_penalty :: "spons_store \<Rightarrow> 'e outcome \<times> penalty_store \<Rightarrow> 'e outcome \<times> spons_state" where
  "lift_penalty st r = (fst r, st, snd r)"

definition punish_sponsor :: "spons_state \<Rightarrow> penalty_record \<Rightarrow> sponsorship_error outcome \<times> spons_state" where
  "punish_sponsor s p =
     (case s of (st, ps) \<Rightarrow>
        and_then (lift_penalty st (apply_penalty ps p)) (\<lambda>_ (st, ps).
        lift_store (set_penalty st (pn_identity p) (pn_current_expires_at p)) ps))"

definition on_misbehavior ::
  "spons_state \<Rightarrow> pub_key \<Rightarrow> misbehavior_severity \<Rightarrow> u64 \<Rightarrow> (sponsorship_error + propagation_result) \<times> spons_state" where
  "on_misbehavior s offender severity now =
     (case s of (st, ps) \<Rightarrow>
        case propagate_consequences st offender severity now of
          Inl e \<Rightarrow> (Inl e, s)
        | Inr result \<Rightarrow>
            and_then (lift_penalty st (apply_penalty ps (pg_offender_penalty result))) (\<lambda>_ (st, ps).
            and_then (if \<not> pn_is_permanent (pg_offender_penalty result)
                      then lift_store (set_penalty st offender (pn_current_expires_at (pg_offender_penalty result))) ps
                      else lift_store (update_status st offender Revoked) ps) (\<lambda>_ s1.
            and_then (try_each punish_sponsor s1 (pg_sponsor_penalties result)) (\<lambda>_ (st, ps).
            (Inr result, st, foldl record_warning ps (pg_warnings result))))))"

definition penalty_type_name :: "penalty_type \<Rightarrow> string" where
  "penalty_type_name ty =
     (case ty of RestrictedPosting \<Rightarrow> ''RestrictedPosting'' | LostInviteSlots \<Rightarrow> ''LostInviteSlots''
      | AcceleratedDecay \<Rightarrow> ''AcceleratedDecay'' | PermanentRevocation \<Rightarrow> ''PermanentRevocation'')"

definition apply_recovery_to_penalty ::
  "spons_state \<Rightarrow> pub_key \<Rightarrow> penalty_type \<Rightarrow> u64 \<Rightarrow> u64 \<Rightarrow> u8 \<Rightarrow> u64 \<Rightarrow>
   (sponsorship_error + recovery_result) \<times> spons_state" where
  "apply_recovery_to_penalty s i ty contribution rate attestations now =
     (case s of (st, ps) \<Rightarrow>
        case List.find (\<lambda>p. pn_type p = ty) (get_active_penalties ps i now) of
          None \<Rightarrow> (Inl (InvalidInvariant (''No active '' @ penalty_type_name ty @ '' penalty found for identity'')), s)
        | Some p \<Rightarrow>
            let recovery = calculate_recovery p contribution rate attestations now
            in if rc_accelerated recovery then
                 let ps1 = snd (apply_recovery ps i ty (rc_new_expires_at recovery))
                 in and_then (lift_store (set_penalty st i (rc_new_expires_at recovery)) ps1) (\<lambda>_ s1. (Inr recovery, s1))
               else (Inr recovery, s))"

subsection \<open>Orphans\<close>

record adoption_request =
  ar_adopter :: pub_key
  ar_orphan :: pub_key
  ar_signature :: bytes
  ar_timestamp :: u64

definition ar_signature_message :: "adoption_request \<Rightarrow> bytes" where
  "ar_signature_message r = ar_adopter r @ ar_orphan r @ u64_be (ar_timestamp r)"

record adoption_result =
  ao_orphan :: pub_key
  ao_old_sponsor :: "pub_key option"
  ao_new_sponsor :: pub_key
  ao_new_depth :: u8

definition validate_adoption :: "adoption_request \<Rightarrow> spons_store \<Rightarrow> u64 \<Rightarrow> sponsorship_error outcome" where
  "validate_adoption r st now =
     (case ss_get st (ar_adopter r) of
        None \<Rightarrow> Inl NotOrphaned
      | Some adopter \<Rightarrow>
          if sr_status adopter \<noteq> Active then Inl SponsorRestricted
          else case ss_get st (ar_orphan r) of
                 None \<Rightarrow> Inl NotOrphaned
               | Some orphan \<Rightarrow>
                   if sr_status orphan \<noteq> Orphaned then Inl NotOrphaned
                   else if sr_is_in_grace_period orphan now
                   then Inl (OrphanNotEligibleForAdoption
                               (case sr_orphaned_at orphan of Some t \<Rightarrow> t + ORPHAN_GRACE_PERIOD_SECONDS | None \<Rightarrow> now))
                   else Inr ())"

definition execute_adoption :: "adoption_request \<Rightarrow> spons_store \<Rightarrow> (sponsorship_error + adoption_result) \<times> spons_store" where
  "execute_adoption r st =
     (case ss_get st (ar_orphan r) of
        None \<Rightarrow> (Inl NotOrphaned, st)
      | Some orphan \<Rightarrow>
          (case ss_get st (ar_adopter r) of
             None \<Rightarrow> (Inl (StorageError ''adopter not found''), st)
           | Some adopter \<Rightarrow>
               let new_depth = u8_sat_add (sr_depth adopter) 1
               in and_then (clear_orphan_status st (ar_orphan r) (ar_adopter r) new_depth) (\<lambda>_ st1.
                  (Inr \<lparr>ao_orphan = ar_orphan r, ao_old_sponsor = sr_sponsor orphan,
                        ao_new_sponsor = ar_adopter r, ao_new_depth = new_depth\<rparr>, st1))))"

definition orphan_sponsee ::
  "u64 \<Rightarrow> spons_store \<times> pub_key list \<Rightarrow> pub_key \<Rightarrow> sponsorship_error outcome \<times> spons_store \<times> pub_key list" where
  "orphan_sponsee now acc sponsee =
     (case acc of (st, newly_orphaned) \<Rightarrow>
        case ss_get st sponsee of
          Some s \<Rightarrow>
            if sr_status s = Active \<or> sr_status s = Restricted
            then (case set_orphan_status st sponsee now of
                    (Inl e, st1) \<Rightarrow> (Inl e, st1, newly_orphaned)
                  | (Inr _, st1) \<Rightarrow> (Inr (), st1, newly_orphaned @ [sponsee]))
            else (Inr (), acc)
        | None \<Rightarrow> (Inr (), acc))"

definition apply_cascade_protection ::
  "spons_store \<Rightarrow> pub_key \<Rightarrow> u64 \<Rightarrow> (sponsorship_error + pub_key list) \<times> spons_store" where
  "apply_cascade_protection st failed_sponsor now =
     (case try_each (orphan_sponsee now) (st, []) (get_sponsees st failed_sponsor) of
        (Inl e, st1, _) \<Rightarrow> (Inl e, st1)
      | (Inr _, st1, newly_orphaned) \<Rightarrow> (Inr newly_orphaned, st1))"

definition count_at_risk_identities :: "spons_store \<Rightarrow> pub_key \<Rightarrow> u32" where
  "count_at_risk_identities st sponsor = word_of_nat (length (get_sponsees st sponsor))"

definition ORPHAN_SCAN_INTERVAL_SECONDS :: u64 where "ORPHAN_SCAN_INTERVAL_SECONDS = 86400"

definition should_scan :: "u64 \<Rightarrow> u64 \<Rightarrow> bool" where
  "should_scan last_scan now \<longleftrightarrow> now \<ge> last_scan + ORPHAN_SCAN_INTERVAL_SECONDS"

definition scan_sponsorship ::
  "(pub_key \<Rightarrow> u64 option) \<Rightarrow> u64 \<Rightarrow> spons_store \<times> pub_key list \<Rightarrow> stored_sponsorship \<Rightarrow>
   sponsorship_error outcome \<times> spons_store \<times> pub_key list" where
  "scan_sponsorship last_active now acc s =
     (case acc of (st, newly_orphaned) \<Rightarrow>
        if sr_is_genesis s \<or> sr_status s = Orphaned \<or> sr_status s = Revoked then (Inr (), acc)
        else case Option.bind (sr_sponsor s) last_active of
               Some t \<Rightarrow>
                 if sat_sub now t \<ge> ORPHAN_INACTIVITY_THRESHOLD_SECONDS
                 then (case set_orphan_status st (sr_identity s) now of
                         (Inl e, st1) \<Rightarrow> (Inl e, st1, newly_orphaned)
                       | (Inr _, st1) \<Rightarrow> (Inr (), st1, newly_orphaned @ [sr_identity s]))
                 else (Inr (), acc)
             | None \<Rightarrow> (Inr (), acc))"

definition scan_for_inactive_sponsors ::
  "spons_store \<Rightarrow> u64 \<Rightarrow> (pub_key \<Rightarrow> u64 option) \<Rightarrow> (sponsorship_error + pub_key list) \<times> spons_store" where
  "scan_for_inactive_sponsors st now last_active =
     (case try_each (scan_sponsorship last_active now) (st, []) (iter_all st) of
        (Inl e, st1, _) \<Rightarrow> (Inl e, st1)
      | (Inr _, st1, newly_orphaned) \<Rightarrow> (Inr newly_orphaned, st1))"

subsection \<open>The policy of a node\<close>

definition on_spam_flagged_content ::
  "spons_state \<Rightarrow> pub_key \<Rightarrow> u64 \<Rightarrow> (sponsorship_error + propagation_result) \<times> spons_state" where
  "on_spam_flagged_content s author now = on_misbehavior s author Spam now"

definition is_sponsorship_barred :: "spons_state \<Rightarrow> pub_key \<Rightarrow> u64 \<Rightarrow> bool" where
  "is_sponsorship_barred s i now =
     (case s of (st, ps) \<Rightarrow>
        (case ss_get st i of Some r \<Rightarrow> sr_status r = Revoked \<or> sr_is_under_penalty r now | None \<Rightarrow> False) \<or>
        has_penalty_type ps i LostInviteSlots now \<or> has_penalty_type ps i PermanentRevocation now)"

definition accepts_sponsorship_from :: "spons_state \<Rightarrow> pub_key \<Rightarrow> u64 \<Rightarrow> bool" where
  "accepts_sponsorship_from s sponsor now \<longleftrightarrow> \<not> is_sponsorship_barred s sponsor now"

end
