(* ===== verification/Spons_Offer.thy ===== *)
theory Spons_Offer
  imports Spons_Flow
begin

text \<open>
  Public sponsorship offers: the offers and claims of \<open>src/sponsorship/types.rs\<close>, the store
  (\<open>offer_store.rs\<close>), the validation rules (\<open>offer_validation.rs\<close>), the life of an offer
  (\<open>offer_flow.rs\<close>) and the approval of a claim by a chain action (\<open>auto_approve.rs\<close>). SHA-256 and the
  verification of signatures are parameters. The store keeps the records themselves; their encoding by
  \<open>bincode\<close> and records an older encoding left unreadable are not modelled.
\<close>

subsection \<open>Offers and claims\<close>

definition MAX_OFFER_SPONSEES :: u8 where "MAX_OFFER_SPONSEES = 10"
definition MAX_APPLICATION_TEXT_BYTES :: nat where "MAX_APPLICATION_TEXT_BYTES = 2000"

datatype offer_type = OpenOffer | ProbationaryOffer | ConditionalOffer

fun offer_type_byte :: "offer_type \<Rightarrow> byte" where
  "offer_type_byte OpenOffer = 0"
| "offer_type_byte ProbationaryOffer = 1"
| "offer_type_byte ConditionalOffer = 2"

definition offer_type_try_from :: "byte \<Rightarrow> offer_type option" where
  "offer_type_try_from v =
     (if v = 0 then Some OpenOffer else if v = 1 then Some ProbationaryOffer
      else if v = 2 then Some ConditionalOffer else None)"

record requirements =
  rq_min_pow_difficulty :: u8
  rq_required_attester :: "pub_key option"
  rq_application_required :: bool

definition has_requirements :: "requirements \<Rightarrow> bool" where
  "has_requirements r \<longleftrightarrow> rq_min_pow_difficulty r > 0 \<or> rq_required_attester r \<noteq> None \<or> rq_application_required r"

definition requirements_hash :: "(bytes \<Rightarrow> hash32) \<Rightarrow> requirements \<Rightarrow> hash32" where
  "requirements_hash H r =
     H ([rq_min_pow_difficulty r] @
        (case rq_required_attester r of Some attester \<Rightarrow> 1 # attester | None \<Rightarrow> [0]) @
        [if rq_application_required r then 1 else 0])"

record offer =
  of_sponsor :: pub_key
  of_id :: bytes
  of_created_at :: u64
  of_expires_at :: u64
  of_max_sponsees :: u8
  of_type :: offer_type
  of_requirements :: requirements
  of_signature :: bytes
  of_auto_approve :: bool
  of_space_scope :: "hash32 option"

definition signature_message_for_creation ::
  "pub_key \<Rightarrow> u8 \<Rightarrow> offer_type \<Rightarrow> u32 \<Rightarrow> u8 \<Rightarrow> bool \<Rightarrow> u64 \<Rightarrow> bytes" where
  "signature_message_for_creation sponsor slots ty expires_days min_pow application_required timestamp =
     string_bytes ''swimchain-sponsor-offer:'' @ sponsor @ [slots, offer_type_byte ty] @ u32_be expires_days @
     [min_pow, if application_required then 1 else 0] @ u64_be timestamp"

text \<open>The subtraction wraps, as it does in a release build.\<close>

definition offer_signature_message :: "offer \<Rightarrow> bytes" where
  "offer_signature_message o1 =
     signature_message_for_creation (of_sponsor o1) (of_max_sponsees o1) (of_type o1)
       (ucast ((of_expires_at o1 - of_created_at o1) div 86400))
       (rq_min_pow_difficulty (of_requirements o1)) (rq_application_required (of_requirements o1)) (of_created_at o1)"

definition offer_is_expired :: "offer \<Rightarrow> u64 \<Rightarrow> bool" where
  "offer_is_expired o1 now \<longleftrightarrow> now \<ge> of_expires_at o1"

definition offer_remaining_time :: "offer \<Rightarrow> u64 \<Rightarrow> u64" where
  "offer_remaining_time o1 now = sat_sub (of_expires_at o1) now"

text \<open>The application text is the UTF-8 bytes of the string.\<close>

record claim =
  cl_offer_id :: bytes
  cl_claimant :: pub_key
  cl_claimed_at :: u64
  cl_pow :: identity_pow
  cl_pow_nonce_space :: hash32
  cl_application :: "bytes option"
  cl_attestation :: "bytes option"
  cl_signature :: bytes
  cl_approval :: "bytes option"

definition claim_signature_message :: "claim \<Rightarrow> bytes" where
  "claim_signature_message c = cl_offer_id c @ cl_claimant c @ u64_be (cl_claimed_at c) @ ip_pow_hash (cl_pow c)"

definition approval_message :: "claim \<Rightarrow> bytes" where
  "approval_message c = cl_claimant c @ cl_offer_id c"

definition claim_is_pending :: "claim \<Rightarrow> bool" where
  "claim_is_pending c \<longleftrightarrow> cl_approval c = None"

definition u8_leading_zeros :: "byte \<Rightarrow> nat" where
  "u8_leading_zeros b = length (takeWhile (\<lambda>i. \<not> bit b i) (rev [0 ..< 8]))"

primrec count_zeros_loop :: "bytes \<Rightarrow> nat" where
  "count_zeros_loop [] = 0"
| "count_zeros_loop (b # bs) = (if b = 0 then 8 + count_zeros_loop bs else u8_leading_zeros b)"

definition count_leading_zero_bits :: "hash32 \<Rightarrow> u8" where
  "count_leading_zero_bits h = word_of_nat (min (count_zeros_loop h) 255)"

subsection \<open>The store of offers\<close>

record offer_store =
  os_offers :: "(bytes, offer) tree"
  os_by_sponsor :: "(bytes, unit) tree"
  os_claims :: "(bytes, claim) tree"
  os_counts :: "(bytes, u8) tree"
  os_cancelled :: "(bytes, u64) tree"

definition os_empty :: offer_store where
  "os_empty = \<lparr>os_offers = [], os_by_sponsor = [], os_claims = [], os_counts = [], os_cancelled = []\<rparr>"

text \<open>\<open>scan_prefix\<close> of a tree: the entries whose key starts with the prefix, in key order.\<close>

definition scan_prefix :: "(bytes, 'v) tree \<Rightarrow> bytes \<Rightarrow> (bytes \<times> 'v) list" where
  "scan_prefix t p = filter (\<lambda>(k, _). take (length p) k = p) (tree_iter t)"

text \<open>
  \<open>fetch_and_update\<close> of a tree: the new value is what the function makes of the old one, \<open>None\<close> removes
  the key, and the old value is returned.
\<close>

definition fetch_and_update :: "('k, 'v) tree \<Rightarrow> 'k \<Rightarrow> ('v option \<Rightarrow> 'v option) \<Rightarrow> 'v option \<times> ('k, 'v) tree" where
  "fetch_and_update t k f =
     (tree_get t k, case f (tree_get t k) of Some v \<Rightarrow> tree_insert t k v | None \<Rightarrow> tree_remove t k)"

definition tombstone_offer :: "offer_store \<Rightarrow> bytes \<Rightarrow> u64 \<Rightarrow> offer_store" where
  "tombstone_offer os i cancelled_at =
     (if tree_get (os_cancelled os) i = None
      then os\<lparr>os_cancelled := tree_insert (os_cancelled os) i cancelled_at\<rparr> else os)"

definition is_offer_cancelled :: "offer_store \<Rightarrow> bytes \<Rightarrow> bool" where
  "is_offer_cancelled os i \<longleftrightarrow> tree_get (os_cancelled os) i \<noteq> None"

definition offer_exists :: "offer_store \<Rightarrow> bytes \<Rightarrow> bool" where
  "offer_exists os i \<longleftrightarrow> tree_get (os_offers os) i \<noteq> None"

definition create_offer :: "offer_store \<Rightarrow> offer \<Rightarrow> sponsorship_error outcome \<times> offer_store" where
  "create_offer os o1 =
     (if of_auto_approve o1 \<and> of_space_scope o1 = None
      then (Inl (InvalidInvariant ''auto_approve offer must carry a space_scope: an auto-approving offer with no scope grants unrestricted network write access to anyone who claims it''), os)
      else if offer_exists os (of_id o1) then (Inl (InvalidInvariant ''offer_id already exists''), os)
      else (Inr (), os\<lparr>os_offers := tree_insert (os_offers os) (of_id o1) o1,
                       os_by_sponsor := tree_insert (os_by_sponsor os) (of_sponsor o1 @ of_id o1) (),
                       os_counts := tree_insert (os_counts os) (of_id o1) 0\<rparr>))"

definition get_offer :: "offer_store \<Rightarrow> bytes \<Rightarrow> offer option" where
  "get_offer os i = tree_get (os_offers os) i"

definition delete_offer :: "offer_store \<Rightarrow> bytes \<Rightarrow> sponsorship_error outcome \<times> offer_store" where
  "delete_offer os i =
     (case get_offer os i of
        None \<Rightarrow> (Inl OfferNotFound, os)
      | Some o1 \<Rightarrow>
          (Inr (), os\<lparr>os_offers := tree_remove (os_offers os) i,
                      os_by_sponsor := tree_remove (os_by_sponsor os) (of_sponsor o1 @ i),
                      os_counts := tree_remove (os_counts os) i,
                      os_claims := foldl tree_remove (os_claims os) (map fst (scan_prefix (os_claims os) i))\<rparr>))"

definition list_by_sponsor :: "offer_store \<Rightarrow> pub_key \<Rightarrow> offer list" where
  "list_by_sponsor os sponsor =
     List.map_filter (\<lambda>(key, _). if length key = 48 then get_offer os (byte_slice key 32 16) else None)
       (scan_prefix (os_by_sponsor os) sponsor)"

definition get_claimed_count :: "offer_store \<Rightarrow> bytes \<Rightarrow> u8" where
  "get_claimed_count os i = (case tree_get (os_counts os) i of Some n \<Rightarrow> n | None \<Rightarrow> 0)"

definition increment_claimed_count :: "offer_store \<Rightarrow> bytes \<Rightarrow> u8 \<Rightarrow> (sponsorship_error + u8) \<times> offer_store" where
  "increment_claimed_count os i limit =
     (let (result, counts) = fetch_and_update (os_counts os) i
            (\<lambda>old. let current = (case old of Some n \<Rightarrow> n | None \<Rightarrow> 0)
                   in if current \<ge> limit then None else Some (current + 1));
          os1 = os\<lparr>os_counts := counts\<rparr>
      in case result of
           Some old_count \<Rightarrow>
             let new_count = old_count + 1
             in if new_count > limit then (Inl OfferFullyClaimed, os1) else (Inr new_count, os1)
         | None \<Rightarrow>
             let current = get_claimed_count os1 i
             in if current \<ge> limit then (Inl OfferFullyClaimed, os1) else (Inr current, os1))"

definition bump_claimed_count_to :: "offer_store \<Rightarrow> bytes \<Rightarrow> u8 \<Rightarrow> u8 \<times> offer_store" where
  "bump_claimed_count_to os i at_least =
     (let (result, counts) = fetch_and_update (os_counts os) i
            (\<lambda>old. Some (max (case old of Some n \<Rightarrow> n | None \<Rightarrow> 0) at_least));
          prev = (case result of Some n \<Rightarrow> n | None \<Rightarrow> 0)
      in (max prev at_least, os\<lparr>os_counts := counts\<rparr>))"

definition u8_sat_sub :: "u8 \<Rightarrow> u8 \<Rightarrow> u8" where
  "u8_sat_sub a b = (if b \<le> a then a - b else 0)"

definition decrement_claimed_count :: "offer_store \<Rightarrow> bytes \<Rightarrow> u8 \<times> offer_store" where
  "decrement_claimed_count os i =
     (let (result, counts) = fetch_and_update (os_counts os) i
            (\<lambda>old. Some (u8_sat_sub (case old of Some n \<Rightarrow> n | None \<Rightarrow> 0) 1))
      in (case result of Some n \<Rightarrow> u8_sat_sub n 1 | None \<Rightarrow> 0, os\<lparr>os_counts := counts\<rparr>))"

definition submit_claim :: "offer_store \<Rightarrow> claim \<Rightarrow> sponsorship_error outcome \<times> offer_store" where
  "submit_claim os c =
     (let key = cl_offer_id c @ cl_claimant c
      in if tree_get (os_claims os) key \<noteq> None then (Inl DuplicateClaim, os)
         else (Inr (), os\<lparr>os_claims := tree_insert (os_claims os) key c\<rparr>))"

definition get_claim :: "offer_store \<Rightarrow> bytes \<Rightarrow> pub_key \<Rightarrow> claim option" where
  "get_claim os i claimant = tree_get (os_claims os) (i @ claimant)"

definition remove_claim :: "offer_store \<Rightarrow> bytes \<Rightarrow> pub_key \<Rightarrow> offer_store" where
  "remove_claim os i claimant = os\<lparr>os_claims := tree_remove (os_claims os) (i @ claimant)\<rparr>"

definition update_claim :: "offer_store \<Rightarrow> claim \<Rightarrow> sponsorship_error outcome \<times> offer_store" where
  "update_claim os c =
     (let key = cl_offer_id c @ cl_claimant c
      in if tree_get (os_claims os) key = None then (Inl ClaimNotFound, os)
         else (Inr (), os\<lparr>os_claims := tree_insert (os_claims os) key c\<rparr>))"

definition get_pending_claims :: "offer_store \<Rightarrow> bytes \<Rightarrow> claim list" where
  "get_pending_claims os i = filter claim_is_pending (map snd (scan_prefix (os_claims os) i))"

definition get_all_claims :: "offer_store \<Rightarrow> bytes \<Rightarrow> claim list" where
  "get_all_claims os i = map snd (scan_prefix (os_claims os) i)"

definition get_own_pending_claims :: "offer_store \<Rightarrow> pub_key \<Rightarrow> claim list" where
  "get_own_pending_claims os me =
     filter (\<lambda>c. claim_is_pending c \<and> cl_claimant c = me) (map snd (tree_iter (os_claims os)))"

definition has_claimed :: "offer_store \<Rightarrow> bytes \<Rightarrow> pub_key \<Rightarrow> bool" where
  "has_claimed os i claimant \<longleftrightarrow> tree_get (os_claims os) (i @ claimant) \<noteq> None"

definition list_active_offers :: "offer_store \<Rightarrow> u64 \<Rightarrow> offer list" where
  "list_active_offers os now =
     filter (\<lambda>o1. \<not> of_expires_at o1 < now \<and> \<not> get_claimed_count os (of_id o1) \<ge> of_max_sponsees o1)
       (map snd (tree_iter (os_offers os)))"

definition filter_by_type :: "offer_store \<Rightarrow> offer_type \<Rightarrow> u64 \<Rightarrow> offer list" where
  "filter_by_type os ty now = filter (\<lambda>o1. of_type o1 = ty) (list_active_offers os now)"

definition get_offers_for_newcomer :: "offer_store \<Rightarrow> u8 \<Rightarrow> pub_key option \<Rightarrow> u64 \<Rightarrow> offer list" where
  "get_offers_for_newcomer os pow_capability attester now =
     filter (\<lambda>o1. rq_min_pow_difficulty (of_requirements o1) \<le> pow_capability \<and>
                  (rq_required_attester (of_requirements o1) = None \<or>
                   rq_required_attester (of_requirements o1) = attester))
       (list_active_offers os now)"

definition list_active_offers_paginated :: "offer_store \<Rightarrow> u64 \<Rightarrow> nat \<Rightarrow> nat \<Rightarrow> offer list \<times> bool" where
  "list_active_offers_paginated os now offset limit =
     (let all = list_active_offers os now
      in (take limit (drop offset all), length all > offset + limit))"

subsection \<open>Validation\<close>

definition time_distance :: "u64 \<Rightarrow> u64 \<Rightarrow> u64" where
  "time_distance a b = (if a > b then a - b else b - a)"

definition validate_offer_creation :: "offer \<Rightarrow> u64 \<Rightarrow> sponsorship_error outcome" where
  "validate_offer_creation o1 now =
     rbind (reject_if (of_expires_at o1 \<le> of_created_at o1) StaleTimestamp) (\<lambda>_.
     rbind (reject_if (of_max_sponsees o1 = 0 \<or> of_max_sponsees o1 > MAX_OFFER_SPONSEES)
              (InvalidInvariant ''max_sponsees must be 1-10'')) (\<lambda>_.
     reject_if (time_distance (of_created_at o1) now > TIMESTAMP_TOLERANCE_SECONDS) StaleTimestamp))"

definition application_too_long :: "bytes option \<Rightarrow> sponsorship_error outcome" where
  "application_too_long text =
     (case text of
        Some t \<Rightarrow> reject_if (length t > MAX_APPLICATION_TEXT_BYTES) (ApplicationTooLong MAX_APPLICATION_TEXT_BYTES (length t))
      | None \<Rightarrow> Inr ())"

definition validate_claim_requirements :: "claim \<Rightarrow> offer \<Rightarrow> sponsorship_error outcome" where
  "validate_claim_requirements c o1 =
     (let leading_zeros = count_leading_zero_bits (ip_pow_hash (cl_pow c)); rq = of_requirements o1
      in rbind (reject_if (leading_zeros < rq_min_pow_difficulty rq)
                  (InsufficientPow (rq_min_pow_difficulty rq) leading_zeros)) (\<lambda>_.
         rbind (reject_if (rq_required_attester rq \<noteq> None \<and> cl_attestation c = None) MissingAttestation) (\<lambda>_.
         if rq_application_required rq
         then (case cl_application c of
                 None \<Rightarrow> Inl ApplicationRequired
               | Some t \<Rightarrow> application_too_long (Some t))
         else application_too_long (cl_application c))))"

definition validate_offer_active :: "offer \<Rightarrow> u64 \<Rightarrow> u8 \<Rightarrow> sponsorship_error outcome" where
  "validate_offer_active o1 now claimed_count =
     rbind (reject_if (of_expires_at o1 \<le> now) OfferExpired) (\<lambda>_.
     reject_if (claimed_count \<ge> of_max_sponsees o1) OfferFullyClaimed)"

definition validate_claim_timestamp :: "claim \<Rightarrow> u64 \<Rightarrow> sponsorship_error outcome" where
  "validate_claim_timestamp c now =
     reject_if (time_distance (cl_claimed_at c) now > TIMESTAMP_TOLERANCE_SECONDS) StaleTimestamp"

definition validate_claim_identity_consistency :: "claim \<Rightarrow> sponsorship_error outcome" where
  "validate_claim_identity_consistency c =
     reject_if (ip_public_key (cl_pow c) \<noteq> cl_claimant c)
       (InvalidInvariant ''PoW proof public key does not match claimant'')"

definition verify_attestation_signature ::
  "claim \<Rightarrow> offer \<Rightarrow> (bytes \<Rightarrow> bytes \<Rightarrow> bytes \<Rightarrow> bool) \<Rightarrow> sponsorship_error outcome" where
  "verify_attestation_signature c o1 verify =
     (case rq_required_attester (of_requirements o1) of
        None \<Rightarrow> Inr ()
      | Some attester \<Rightarrow>
          (case cl_attestation c of
             None \<Rightarrow> Inl MissingAttestation
           | Some sig \<Rightarrow> reject_if (\<not> verify attester (cl_claimant c) sig) InvalidAttestation))"

subsection \<open>The life of an offer\<close>

definition create_public_offer ::
  "offer_store \<Rightarrow> spons_store \<Rightarrow> offer \<Rightarrow> u64 \<Rightarrow> sponsorship_error outcome \<times> offer_store" where
  "create_public_offer os st o1 now =
     (case validate_offer_creation o1 now of
        Inl e \<Rightarrow> (Inl e, os)
      | Inr _ \<Rightarrow>
          if under_penalty_in st (of_sponsor o1) now then (Inl SponsorRestricted, os)
          else create_offer os o1)"

definition create_public_offer_with_verification ::
  "offer_store \<Rightarrow> spons_store \<Rightarrow> offer \<Rightarrow> u64 \<Rightarrow> (bytes \<Rightarrow> bytes \<Rightarrow> bytes \<Rightarrow> bool) \<Rightarrow>
   sponsorship_error outcome \<times> offer_store" where
  "create_public_offer_with_verification os st o1 now verify =
     (if \<not> verify (of_sponsor o1) (offer_signature_message o1) (of_signature o1) then (Inl InvalidOfferSignature, os)
      else create_public_offer os st o1 now)"

definition claim_public_offer :: "offer_store \<Rightarrow> claim \<Rightarrow> u64 \<Rightarrow> sponsorship_error outcome \<times> offer_store" where
  "claim_public_offer os c now =
     (case get_offer os (cl_offer_id c) of
        None \<Rightarrow> (Inl OfferNotFound, os)
      | Some o1 \<Rightarrow>
          (case rbind (validate_offer_active o1 now (get_claimed_count os (cl_offer_id c))) (\<lambda>_.
                rbind (validate_claim_timestamp c now) (\<lambda>_.
                rbind (validate_claim_identity_consistency c) (\<lambda>_.
                validate_claim_requirements c o1))) of
             Inl e \<Rightarrow> (Inl e, os)
           | Inr _ \<Rightarrow> submit_claim os c))"

definition claim_public_offer_with_verification ::
  "offer_store \<Rightarrow> claim \<Rightarrow> u64 \<Rightarrow> (bytes \<Rightarrow> bytes \<Rightarrow> bytes \<Rightarrow> bool) \<Rightarrow> sponsorship_error outcome \<times> offer_store" where
  "claim_public_offer_with_verification os c now verify =
     (if \<not> verify (cl_claimant c) (claim_signature_message c) (cl_signature c) then (Inl InvalidClaimantSignature, os)
      else claim_public_offer os c now)"

definition approved_creation :: "offer \<Rightarrow> claim \<Rightarrow> bytes \<Rightarrow> u64 \<Rightarrow> identity_creation" where
  "approved_creation o1 c approval now =
     \<lparr>ic_new_identity = cl_claimant c, ic_sponsor = Some (of_sponsor o1), ic_sponsor_signature = Some approval,
      ic_pow_proof = cl_pow c, ic_timestamp = now, ic_probationary = (of_type o1 = ProbationaryOffer),
      ic_genesis_proof = None\<rparr>"

type_synonym offer_state = "offer_store \<times> spons_store \<times> rights_store"

definition approve_claim ::
  "offer_state \<Rightarrow> bytes \<Rightarrow> pub_key \<Rightarrow> bytes \<Rightarrow> u64 \<Rightarrow> (sponsorship_error + stored_sponsorship) \<times> offer_state" where
  "approve_claim s i claimant approval now =
     (case s of (os, st, rs) \<Rightarrow>
        case get_offer os i of
          None \<Rightarrow> (Inl OfferNotFound, s)
        | Some o1 \<Rightarrow>
            (case get_claim os i claimant of
               None \<Rightarrow> (Inl ClaimNotFound, s)
             | Some c \<Rightarrow>
                 (case increment_claimed_count os i (of_max_sponsees o1) of
                    (Inl e, os1) \<Rightarrow> (Inl e, os1, st, rs)
                  | (Inr _, os1) \<Rightarrow>
                      let sponsor_depth = (case ss_get st (of_sponsor o1) of Some r \<Rightarrow> sr_depth r | None \<Rightarrow> 0)
                      in (case register_sponsored_identity st (approved_creation o1 c approval now) sponsor_depth of
                            (Inl e, st1) \<Rightarrow> (Inl e, os1, st1, rs)
                          | (Inr r, st1) \<Rightarrow>
                              (Inr r, remove_claim os1 i claimant, st1, record_sponsorship rs (of_sponsor o1) now)))))"

definition approve_claim_with_verification ::
  "offer_state \<Rightarrow> bytes \<Rightarrow> pub_key \<Rightarrow> bytes \<Rightarrow> u64 \<Rightarrow> (bytes \<Rightarrow> bytes \<Rightarrow> bytes \<Rightarrow> bool) \<Rightarrow>
   (sponsorship_error + stored_sponsorship) \<times> offer_state" where
  "approve_claim_with_verification s i claimant approval now verify =
     (case get_offer (fst s) i of
        None \<Rightarrow> (Inl OfferNotFound, s)
      | Some o1 \<Rightarrow>
          (case get_claim (fst s) i claimant of
             None \<Rightarrow> (Inl ClaimNotFound, s)
           | Some c \<Rightarrow>
               if \<not> verify (of_sponsor o1) (approval_message c) approval then (Inl InvalidSignature, s)
               else approve_claim s i claimant approval now))"

definition reject_claim :: "offer_store \<Rightarrow> bytes \<Rightarrow> pub_key \<Rightarrow> pub_key \<Rightarrow> sponsorship_error outcome \<times> offer_store" where
  "reject_claim os i claimant sponsor =
     (case get_offer os i of
        None \<Rightarrow> (Inl OfferNotFound, os)
      | Some o1 \<Rightarrow>
          if of_sponsor o1 \<noteq> sponsor then (Inl InvalidSignature, os)
          else if get_claim os i claimant = None then (Inl ClaimNotFound, os)
          else (Inr (), remove_claim os i claimant))"

definition cancel_offer :: "offer_store \<Rightarrow> bytes \<Rightarrow> pub_key \<Rightarrow> sponsorship_error outcome \<times> offer_store" where
  "cancel_offer os i sponsor =
     (case get_offer os i of
        None \<Rightarrow> (Inl OfferNotFound, os)
      | Some o1 \<Rightarrow> if of_sponsor o1 \<noteq> sponsor then (Inl InvalidSignature, os) else delete_offer os i)"

record offer_status =
  ot_offer :: offer
  ot_claimed_count :: u8
  ot_pending_claim_count :: nat
  ot_is_expired :: bool
  ot_is_fully_claimed :: bool

definition get_offer_status :: "offer_store \<Rightarrow> bytes \<Rightarrow> u64 \<Rightarrow> sponsorship_error + offer_status" where
  "get_offer_status os i now =
     (case get_offer os i of
        None \<Rightarrow> Inl OfferNotFound
      | Some o1 \<Rightarrow>
          let claimed_count = get_claimed_count os i
          in Inr \<lparr>ot_offer = o1, ot_claimed_count = claimed_count,
                  ot_pending_claim_count = length (get_pending_claims os i),
                  ot_is_expired = offer_is_expired o1 now, ot_is_fully_claimed = (claimed_count \<ge> of_max_sponsees o1)\<rparr>)"

subsection \<open>Approval by a chain action\<close>

datatype approval_error = SponsorNotFound | ApprovalSponsorRestricted | NoSlots

text \<open>
  The last component is the action that joins the pool of the block builder and goes to every peer. The
  branch of the builder it joins and the sending are not modelled.
\<close>

definition claim_pow_work :: "(bytes \<Rightarrow> hash32) \<Rightarrow> claim \<Rightarrow> u64" where
  "claim_pow_work H c =
     word_of_nat (length (takeWhile (\<lambda>b. b = 0) (H (cl_pow_nonce_space c @ u64_le (ip_nonce (cl_pow c))))))"

definition execute_claim_approval ::
  "network_mode \<Rightarrow> (bytes \<Rightarrow> hash32) \<Rightarrow> offer_store \<Rightarrow> spons_store \<Rightarrow> offer \<Rightarrow> claim \<Rightarrow> bytes \<Rightarrow> u64 \<Rightarrow> u64 \<Rightarrow>
   (approval_error + u8 \<times> bool) \<times> offer_store \<times> action option" where
  "execute_claim_approval mode H os st o1 c sponsor_sig timestamp now =
     (let record = ss_get st (of_sponsor o1)
      in if record = None \<and> \<not> is_in_hardcoded_genesis_list mode (of_sponsor o1) then (Inl SponsorNotFound, os, None)
         else if (case record of Some r \<Rightarrow> \<not> sr_can_sponsor_basic r now | None \<Rightarrow> False)
         then (Inl ApprovalSponsorRestricted, os, None)
         else
           let depth = (case record of Some r \<Rightarrow> u8_sat_add (sr_depth r) 1 | None \<Rightarrow> 1);
               probationary = (of_type o1 = ProbationaryOffer)
           in case increment_claimed_count os (of_id o1) (of_max_sponsees o1) of
                (Inl e, os1) \<Rightarrow> (Inl NoSlots, os1, None)
              | (Inr _, os1) \<Rightarrow>
                  let os2 = snd (update_claim os1 (c\<lparr>cl_approval := Some sponsor_sig\<rparr>));
                      a = new_sponsor_scoped_with_pow (of_sponsor o1) (cl_claimant c) timestamp (of_space_scope o1)
                            sponsor_sig (ip_nonce (cl_pow c)) (claim_pow_work H c) (cl_pow_nonce_space c)
                  in (Inr (depth, probationary), os2, Some a))"

end
