(* ===== verification/Spons_Wire.thy ===== *)
theory Spons_Wire
  imports Spons_Offer
begin

text \<open>
  The wire format of offers, claims, responses and cancellations (\<open>src/sponsorship/wire.rs\<close>) and what it
  preserves. The encodings of requirements and proofs of work by the crate \<open>bincode\<close> are parameters.
\<close>

definition u64_of_le :: "bytes \<Rightarrow> u64" where
  "u64_of_le bs = u64_of_be (rev bs)"

definition u16_le :: "u16 \<Rightarrow> bytes" where
  "u16_le w = rev (be_bytes 2 (unat w))"

definition u16_of_le :: "bytes \<Rightarrow> u16" where
  "u16_of_le bs = word_of_nat (be_nat (rev bs))"

lemma u64_of_le_le [simp, wire_rt]: "u64_of_le (u64_le w) = w"
  by (simp add: u64_of_le_def u64_le_def)

lemma length_u16_le [simp, wire_len]: "length (u16_le w) = 2"
  by (simp add: u16_le_def)

lemma u16_of_le_le [simp, wire_rt]: "u16_of_le (u16_le w) = w"
proof -
  have "unat w < 65536" using unsigned_less [where 'a = nat and w = w] by simp
  then show ?thesis by (simp add: u16_of_le_def u16_le_def)
qed

lemma unat_u16_of_length: "n < 65536 \<Longrightarrow> unat (word_of_nat n :: u16) = n"
  by (simp add: unat_of_nat)

definition MIN_OFFER_WIRE_SIZE :: nat where "MIN_OFFER_WIRE_SIZE = 132"
definition MAX_REQUIREMENTS_SIZE :: nat where "MAX_REQUIREMENTS_SIZE = 128"
definition MAX_APPLICATION_WIRE_SIZE :: nat where "MAX_APPLICATION_WIRE_SIZE = 2000"

lemmas wire_sizes = MIN_OFFER_WIRE_SIZE_def MAX_REQUIREMENTS_SIZE_def MAX_APPLICATION_WIRE_SIZE_def

datatype wire_error =
    BufferTooShort nat nat | InvalidOfferType byte | InvalidUtf8 | BincodeError string
  | RequirementsTooLarge nat nat | ApplicationTooLarge nat nat

subsection \<open>Offers\<close>

definition scope_bytes :: "hash32 option \<Rightarrow> bytes" where
  "scope_bytes scope = (case scope of Some s \<Rightarrow> 1 # s | None \<Rightarrow> [0])"

definition serialize_offer :: "(requirements \<Rightarrow> bytes) \<Rightarrow> offer \<Rightarrow> wire_error + bytes" where
  "serialize_offer enc o1 =
     (let requirements_bytes = enc (of_requirements o1)
      in if length requirements_bytes > MAX_REQUIREMENTS_SIZE
         then Inl (RequirementsTooLarge MAX_REQUIREMENTS_SIZE (length requirements_bytes))
         else Inr (of_sponsor o1 @ of_id o1 @ u64_le (of_created_at o1) @ u64_le (of_expires_at o1) @
                   [of_max_sponsees o1, offer_type_byte (of_type o1)] @ u16_le (word_of_nat (length requirements_bytes)) @
                   requirements_bytes @ of_signature o1 @ [if of_auto_approve o1 then 1 else 0] @
                   scope_bytes (of_space_scope o1)))"

definition deserialize_offer :: "(bytes \<Rightarrow> string + requirements) \<Rightarrow> bytes \<Rightarrow> wire_error + offer" where
  "deserialize_offer dec data =
     (if length data < MIN_OFFER_WIRE_SIZE then Inl (BufferTooShort MIN_OFFER_WIRE_SIZE (length data))
      else case offer_type_try_from (data ! 65) of
        None \<Rightarrow> Inl (InvalidOfferType (data ! 65))
      | Some ty \<Rightarrow>
          let requirements_len = unat (u16_of_le (byte_slice data 66 2))
          in if length data < 68 + (requirements_len + 64)
             then Inl (BufferTooShort (68 + (requirements_len + 64)) (length data))
             else case dec (byte_slice data 68 requirements_len) of
               Inl e \<Rightarrow> Inl (BincodeError e)
             | Inr rq \<Rightarrow>
                 let pos = 68 + requirements_len + 64;
                     auto_approve = (pos < length data \<and> data ! pos = 1);
                     pos' = (if pos < length data then pos + 1 else pos);
                     scope = (if pos' < length data \<and> data ! pos' = 1 \<and> length data \<ge> pos' + 1 + 32
                              then Some (byte_slice data (pos' + 1) 32) else None)
                 in Inr \<lparr>of_sponsor = byte_slice data 0 32, of_id = byte_slice data 32 16,
                         of_created_at = u64_of_le (byte_slice data 48 8),
                         of_expires_at = u64_of_le (byte_slice data 56 8),
                         of_max_sponsees = data ! 64, of_type = ty, of_requirements = rq,
                         of_signature = byte_slice data (68 + requirements_len) 64,
                         of_auto_approve = auto_approve, of_space_scope = scope\<rparr>)"

definition typed_offer :: "offer \<Rightarrow> bool" where
  "typed_offer o1 \<longleftrightarrow> length (of_sponsor o1) = 32 \<and> length (of_id o1) = 16 \<and> length (of_signature o1) = 64 \<and>
     (\<forall>s. of_space_scope o1 = Some s \<longrightarrow> length s = 32)"

subsection \<open>Claims\<close>

definition serialize_claim :: "(identity_pow \<Rightarrow> bytes) \<Rightarrow> claim \<Rightarrow> wire_error + bytes" where
  "serialize_claim enc c =
     (let pow = enc (cl_pow c);
          application = (case cl_application c of Some t \<Rightarrow> t | None \<Rightarrow> [])
      in if length application > MAX_APPLICATION_WIRE_SIZE
         then Inl (ApplicationTooLarge MAX_APPLICATION_WIRE_SIZE (length application))
         else Inr (cl_offer_id c @ cl_claimant c @ u64_le (cl_claimed_at c) @
                   u16_le (word_of_nat (length pow)) @ pow @
                   u16_le (word_of_nat (length application)) @ application @
                   (case cl_attestation c of Some sig \<Rightarrow> 1 # sig | None \<Rightarrow> [0]) @ cl_signature c))"

definition need :: "bytes \<Rightarrow> nat \<Rightarrow> wire_error outcome" where
  "need data n = reject_if (length data < n) (BufferTooShort n (length data))"

definition deserialize_claim :: "(bytes \<Rightarrow> string + identity_pow) \<Rightarrow> bytes \<Rightarrow> wire_error + claim" where
  "deserialize_claim dec data =
     rbind (need data 125) (\<lambda>_.
     let pow_len = unat (u16_of_le (byte_slice data 56 2))
     in rbind (need data (58 + pow_len)) (\<lambda>_.
        rbind (map_err BincodeError (dec (byte_slice data 58 pow_len))) (\<lambda>pow.
        let pos = 58 + pow_len
        in rbind (need data (pos + 2)) (\<lambda>_.
           let application_len = unat (u16_of_le (byte_slice data pos 2)); pos = pos + 2
           in rbind (need data (pos + application_len)) (\<lambda>_.
              rbind (if application_len > 0
                     then (if is_utf8 (byte_slice data pos application_len)
                           then Inr (Some (byte_slice data pos application_len)) else Inl InvalidUtf8)
                     else Inr None) (\<lambda>application.
              let pos = pos + application_len
              in rbind (need data (pos + 1)) (\<lambda>_.
                 let has_attestation = (data ! pos = 1); pos = pos + 1
                 in rbind (if has_attestation
                           then rbind (need data (pos + 64)) (\<lambda>_. Inr (Some (byte_slice data pos 64))) else Inr None) (\<lambda>attestation.
                    let pos = (if has_attestation then pos + 64 else pos)
                    in rbind (need data (pos + 64)) (\<lambda>_.
                       Inr \<lparr>cl_offer_id = byte_slice data 0 16, cl_claimant = byte_slice data 16 32,
                            cl_claimed_at = u64_of_le (byte_slice data 48 8), cl_pow = pow,
                            cl_pow_nonce_space = zero32, cl_application = application,
                            cl_attestation = attestation, cl_signature = byte_slice data pos 64,
                            cl_approval = None\<rparr>)))))))))"

definition typed_claim :: "claim \<Rightarrow> bool" where
  "typed_claim c \<longleftrightarrow> length (cl_offer_id c) = 16 \<and> length (cl_claimant c) = 32 \<and> length (cl_signature c) = 64 \<and>
     (\<forall>s. cl_attestation c = Some s \<longrightarrow> length s = 64) \<and> (\<forall>t. cl_application c = Some t \<longrightarrow> is_utf8 t)"

subsection \<open>Responses and cancellations\<close>

datatype response_type = Approved | Rejected

record claim_response =
  rp_offer_id :: bytes
  rp_claimant :: pub_key
  rp_type :: response_type
  rp_signature :: "bytes option"

definition serialize_claim_response :: "claim_response \<Rightarrow> bytes" where
  "serialize_claim_response r =
     rp_offer_id r @ rp_claimant r @ [case rp_type r of Approved \<Rightarrow> 0 | Rejected \<Rightarrow> 1] @
     (case rp_signature r of Some sig \<Rightarrow> sig | None \<Rightarrow> [])"

definition deserialize_claim_response :: "bytes \<Rightarrow> wire_error + claim_response" where
  "deserialize_claim_response data =
     rbind (need data 49) (\<lambda>_.
     rbind (if data ! 48 = 0 then Inr Approved else if data ! 48 = 1 then Inr Rejected
            else Inl (InvalidOfferType (data ! 48))) (\<lambda>ty.
     rbind (if ty = Approved then rbind (need data (49 + 64)) (\<lambda>_. Inr (Some (byte_slice data 49 64))) else Inr None) (\<lambda>sig.
     Inr \<lparr>rp_offer_id = byte_slice data 0 16, rp_claimant = byte_slice data 16 32, rp_type = ty, rp_signature = sig\<rparr>)))"

record offer_cancel =
  oc_offer_id :: bytes
  oc_sponsor :: pub_key
  oc_timestamp :: u64
  oc_signature :: bytes

definition cancel_signing_message :: "offer_cancel \<Rightarrow> bytes" where
  "cancel_signing_message c = oc_offer_id c @ u64_be (oc_timestamp c)"

definition serialize_offer_cancel :: "offer_cancel \<Rightarrow> bytes" where
  "serialize_offer_cancel c = oc_offer_id c @ oc_sponsor c @ u64_be (oc_timestamp c) @ oc_signature c"

definition deserialize_offer_cancel :: "bytes \<Rightarrow> wire_error + offer_cancel" where
  "deserialize_offer_cancel data =
     rbind (need data 120) (\<lambda>_.
     Inr \<lparr>oc_offer_id = byte_slice data 0 16, oc_sponsor = byte_slice data 16 32,
          oc_timestamp = u64_of_be (byte_slice data 48 8), oc_signature = byte_slice data 56 64\<rparr>)"

subsection \<open>Round trips\<close>

lemma slice_at:
  "length a = n \<Longrightarrow> byte_slice (a @ b @ c) n (length b) = b"
  by (simp add: byte_slice_def)

lemma nth_at: "length a = n \<Longrightarrow> (a @ x # c) ! n = x"
  by (simp add: nth_append)

lemma offer_type_roundtrip [simp]: "offer_type_try_from (offer_type_byte ty) = Some ty"
  by (cases ty) (simp_all add: offer_type_try_from_def)

lemma length_scope_bytes: "typed_offer o1 \<Longrightarrow> length (scope_bytes (of_space_scope o1)) = (if of_space_scope o1 = None then 1 else 33)"
  by (auto simp: typed_offer_def scope_bytes_def split: option.splits)

lemma offer_roundtrip:
  assumes t: "typed_offer o1" and dec: "dec (enc (of_requirements o1)) = Inr (of_requirements o1)"
    and ser: "serialize_offer enc o1 = Inr bs"
  shows "deserialize_offer dec (bs @ tail) = Inr o1"
proof -
  let ?e = "enc (of_requirements o1)"
  define h where "h = of_sponsor o1 @ of_id o1 @ u64_le (of_created_at o1) @ u64_le (of_expires_at o1) @
    [of_max_sponsees o1, offer_type_byte (of_type o1)] @ u16_le (word_of_nat (length ?e))"
  define data where "data = bs @ tail"
  have len: "length ?e \<le> 128" and bs: "bs = h @ ?e @ of_signature o1 @ [if of_auto_approve o1 then 1 else 0] @ scope_bytes (of_space_scope o1)"
    using ser by (auto simp: serialize_offer_def Let_def wire_sizes h_def split: if_splits)
  have l: "length (of_sponsor o1) = 32" "length (of_id o1) = 16" "length (of_signature o1) = 64" using t by (auto simp: typed_offer_def)
  have h: "length h = 68" by (simp add: h_def l)
  have d: "data = h @ ?e @ of_signature o1 @ (if of_auto_approve o1 then 1 else 0) # scope_bytes (of_space_scope o1) @ tail"
    by (simp add: data_def bs)
  have head: "byte_slice data 0 32 = of_sponsor o1" "byte_slice data 32 16 = of_id o1"
    "byte_slice data 48 8 = u64_le (of_created_at o1)" "byte_slice data 56 8 = u64_le (of_expires_at o1)"
    "data ! 64 = of_max_sponsees o1" "data ! 65 = offer_type_byte (of_type o1)"
    "byte_slice data 66 2 = u16_le (word_of_nat (length ?e))"
    by (simp_all add: d h_def byte_slice_def l nth_append)
  have rest: "byte_slice data 68 (length ?e) = ?e" "byte_slice data (68 + length ?e) 64 = of_signature o1"
    "data ! (68 + length ?e + 64) = (if of_auto_approve o1 then 1 else 0)"
    "length data = 68 + length ?e + 65 + length (scope_bytes (of_space_scope o1)) + length tail"
    by (simp_all add: d byte_slice_def l h nth_append)
  have scope: "data ! (68 + length ?e + 65) = (if of_space_scope o1 = None then 0 else 1)"
    "of_space_scope o1 = Some s \<Longrightarrow> byte_slice data (68 + length ?e + 66) 32 = s" for s
    using t by (auto simp: d h l nth_append scope_bytes_def typed_offer_def byte_slice_def split: option.splits)
  have u: "unat (u16_of_le (byte_slice data 66 2)) = length ?e" using len by (simp add: head unat_u16_of_length)
  show ?thesis
    using dec scope rest(4) length_scope_bytes [OF t] unfolding data_def [symmetric] deserialize_offer_def
    by (cases "of_space_scope o1") (simp_all add: Let_def u head(1-6) rest rest(3) [simplified] wire_sizes)
qed


lemma claim_roundtrip:
  assumes t: "typed_claim c" and dec: "dec (enc (cl_pow c)) = Inr (cl_pow c)" and e: "0 < length (enc (cl_pow c))" "length (enc (cl_pow c)) < 65536"
    and ser: "serialize_claim enc c = Inr bs"
  shows "deserialize_claim dec bs = Inr (c\<lparr>cl_pow_nonce_space := zero32, cl_approval := None,
    cl_application := (if cl_application c = Some [] then None else cl_application c)\<rparr>)"
proof -
  let ?e = "enc (cl_pow c)"
  define a where "a = (case cl_application c of Some x \<Rightarrow> x | None \<Rightarrow> [])"
  define att where "att = (case cl_attestation c of Some sig \<Rightarrow> 1 # sig | None \<Rightarrow> [0])"
  define h where "h = cl_offer_id c @ cl_claimant c @ u64_le (cl_claimed_at c) @ u16_le (word_of_nat (length ?e))"
  have la: "length a \<le> 2000" and d: "bs = h @ ?e @ u16_le (word_of_nat (length a)) @ a @ att @ cl_signature c"
    using ser by (auto simp: serialize_claim_def Let_def wire_sizes h_def a_def att_def split: if_splits)
  have l: "length (cl_offer_id c) = 16" "length (cl_claimant c) = 32" "length (cl_signature c) = 64" using t by (auto simp: typed_claim_def)
  have h: "length h = 58" by (simp add: h_def l)
  have att: "length att = (if cl_attestation c = None then 1 else 65)" "att ! 0 = (if cl_attestation c = None then 0 else 1)"
    using t by (auto simp: att_def typed_claim_def split: option.splits)
  have head: "byte_slice bs 0 16 = cl_offer_id c" "byte_slice bs 16 32 = cl_claimant c" "byte_slice bs 48 8 = u64_le (cl_claimed_at c)"
    "byte_slice bs 56 2 = u16_le (word_of_nat (length ?e))"
    by (simp_all add: d h_def byte_slice_def l)
  have len: "length bs = 60 + length ?e + length a + length att + 64" by (simp add: d h l)
  have mid: "byte_slice bs 58 (length ?e) = ?e" "byte_slice bs (58 + length ?e) 2 = u16_le (word_of_nat (length a))"
    "byte_slice bs (60 + length ?e) (length a) = a"
    by (simp_all add: d byte_slice_def l h)
  have tail: "bs ! (60 + length ?e + length a) = (if cl_attestation c = None then 0 else 1)"
    using att by (simp add: d nth_append h)
  have sig: "cl_attestation c = Some s \<Longrightarrow> byte_slice bs (61 + length ?e + length a) 64 = s"
    "byte_slice bs (60 + length ?e + length a + length att) 64 = cl_signature c" for s
    using t by (simp_all add: d byte_slice_def l h att_def typed_claim_def)
  have u: "unat (u16_of_le (byte_slice bs 56 2)) = length ?e" "unat (u16_of_le (byte_slice bs (58 + length ?e) 2)) = length a"
    using e(2) la by (simp_all add: head mid unat_u16_of_length)
  have app: "(if cl_application c = Some [] then None else cl_application c) = (if a = [] then None else Some a)"
    and utf8: "a \<noteq> [] \<Longrightarrow> is_utf8 a"
    using t by (auto simp: a_def typed_claim_def split: option.splits)
  have "deserialize_claim dec bs = Inr \<lparr>cl_offer_id = cl_offer_id c, cl_claimant = cl_claimant c, cl_claimed_at = cl_claimed_at c,
      cl_pow = cl_pow c, cl_pow_nonce_space = zero32, cl_application = (if a = [] then None else Some a),
      cl_attestation = cl_attestation c, cl_signature = cl_signature c, cl_approval = None\<rparr>"
    using dec sig sig(2) [simplified] tail utf8 att(1) e(1) unfolding deserialize_claim_def need_def
    by (cases "cl_attestation c"; cases "a = []") (simp_all add: Let_def u head(1-3) mid(1,3) len add.assoc)
  then show ?thesis unfolding app by simp
qed

lemma response_roundtrip:
  assumes "length (rp_offer_id r) = 16" "length (rp_claimant r) = 32"
    and "case rp_signature r of Some sig \<Rightarrow> rp_type r = Approved \<and> length sig = 64 | None \<Rightarrow> rp_type r = Rejected"
  shows "deserialize_claim_response (serialize_claim_response r) = Inr r"
  using assms
  by (cases "rp_type r"; cases "rp_signature r")
    (auto simp: serialize_claim_response_def deserialize_claim_response_def need_def byte_slice_def nth_append)

lemma cancel_roundtrip:
  assumes "length (oc_offer_id c) = 16" "length (oc_sponsor c) = 32" "length (oc_signature c) = 64"
  shows "deserialize_offer_cancel (serialize_offer_cancel c) = Inr c"
  using assms by (simp add: serialize_offer_cancel_def deserialize_offer_cancel_def need_def byte_slice_def)

end
