(* ===== verification/Spons_Router.thy ===== *)
theory Spons_Router
  imports Spons_Wire Mempool Validation
begin

text \<open>
  What the router does for the sponsorship system (\<open>src/node/router/router.rs\<close>): the handlers of offers,
  claims, responses, lists and cancellations, the gate that admits a block by the authors of its actions,
  and the application of the sponsorship actions of a block to the store. Every handler is the step of the
  offer store, with its reply and the payload it relays to the other peers. Parameters are the
  verification of a signature, SHA-256 and the encodings by \<open>bincode\<close>; the clock is an argument.
\<close>

datatype route_error =
    HandlerError sponsorship_error | HandlerWireError wire_error | DeserializationError wire_error
  | PayloadTooSmall nat nat | RouteInvalidSignature

type_synonym handled = "(route_error + (byte \<times> bytes) option) \<times> offer_store \<times> bytes option"

definition MSG_SPONSORSHIP_OFFER_LIST :: byte where "MSG_SPONSORSHIP_OFFER_LIST = 0x4D"

subsection \<open>Offers and claims\<close>

definition handle_sponsorship_offer ::
  "(bytes \<Rightarrow> bytes \<Rightarrow> bytes \<Rightarrow> bool) \<Rightarrow> (bytes \<Rightarrow> string + requirements) \<Rightarrow> offer_store \<Rightarrow> bytes \<Rightarrow> u64 \<Rightarrow> handled" where
  "handle_sponsorship_offer verify dec os payload now =
     (if payload = [] then (Inl (PayloadTooSmall 1 0), os, None)
      else
        let ttl = last payload; offer_bytes = butlast payload
        in case deserialize_offer dec offer_bytes of
             Inl e \<Rightarrow> (Inl (DeserializationError e), os, None)
           | Inr o1 \<Rightarrow>
               if is_offer_cancelled os (of_id o1) \<or> offer_exists os (of_id o1) then (Inr None, os, None)
               else if \<not> verify (of_sponsor o1) (offer_signature_message o1) (of_signature o1)
               then (Inl RouteInvalidSignature, os, None)
               else if of_expires_at o1 \<le> now then (Inr None, os, None)
               else case create_offer os o1 of
                 (r, os1) \<Rightarrow>
                   (case r of
                      Inl e \<Rightarrow>
                        if e \<noteq> InvalidInvariant ''offer_id already exists'' then (Inl (HandlerError e), os1, None)
                        else (Inr None, os1, if ttl > 0 then Some (offer_bytes @ [ttl - 1]) else None)
                    | Inr _ \<Rightarrow> (Inr None, os1, if ttl > 0 then Some (offer_bytes @ [ttl - 1]) else None)))"

definition handle_sponsorship_claim ::
  "(bytes \<Rightarrow> bytes \<Rightarrow> bytes \<Rightarrow> bool) \<Rightarrow> (bytes \<Rightarrow> string + identity_pow) \<Rightarrow> offer_store \<Rightarrow> bytes \<Rightarrow> handled" where
  "handle_sponsorship_claim verify dec os payload =
     (case deserialize_claim dec payload of
        Inl e \<Rightarrow> (Inl (DeserializationError e), os, None)
      | Inr c \<Rightarrow>
          if get_offer os (cl_offer_id c) = None then (Inr None, os, None)
          else if \<not> verify (cl_claimant c) (claim_signature_message c) (cl_signature c)
          then (Inl RouteInvalidSignature, os, None)
          else case submit_claim os c of
                 (Inr _, os1) \<Rightarrow> (Inr None, os1, Some payload)
               | (Inl e, os1) \<Rightarrow>
                   if e = DuplicateClaim then (Inr None, os1, None) else (Inl (HandlerError e), os1, None))"

definition handle_sponsorship_claim_response :: "offer_store \<Rightarrow> bytes \<Rightarrow> handled" where
  "handle_sponsorship_claim_response os payload =
     (case deserialize_claim_response payload of
        Inl e \<Rightarrow> (Inl (DeserializationError e), os, None)
      | Inr r \<Rightarrow>
          if get_offer os (rp_offer_id r) = None then (Inr None, os, None)
          else case rp_type r of
                 Approved \<Rightarrow>
                   (case (get_claim os (rp_offer_id r) (rp_claimant r), rp_signature r) of
                      (Some c, Some sig) \<Rightarrow>
                        (case update_claim os (c\<lparr>cl_approval := Some sig\<rparr>) of
                           (Inl e, os1) \<Rightarrow> (Inl (HandlerError e), os1, None)
                         | (Inr _, os1) \<Rightarrow> (Inr None, os1, None))
                    | _ \<Rightarrow> (Inr None, os, None))
               | Rejected \<Rightarrow> (Inr None, remove_claim os (rp_offer_id r) (rp_claimant r), None))"

subsection \<open>Lists of offers\<close>

definition offer_entry :: "(requirements \<Rightarrow> bytes) \<Rightarrow> offer_store \<Rightarrow> offer \<Rightarrow> wire_error + bytes" where
  "offer_entry enc os o1 =
     rbind (serialize_offer enc o1) (\<lambda>bs.
     let bs = bs @ [get_claimed_count os (of_id o1)] in Inr (u16_le (word_of_nat (length bs)) @ bs))"

primrec offer_entries :: "(requirements \<Rightarrow> bytes) \<Rightarrow> offer_store \<Rightarrow> offer list \<Rightarrow> wire_error + bytes" where
  "offer_entries enc os [] = Inr []"
| "offer_entries enc os (o1 # os1) =
     rbind (offer_entry enc os o1) (\<lambda>b. rbind (offer_entries enc os os1) (\<lambda>bs. Inr (b @ bs)))"

definition handle_sponsorship_offer_query :: "(requirements \<Rightarrow> bytes) \<Rightarrow> offer_store \<Rightarrow> u64 \<Rightarrow> handled" where
  "handle_sponsorship_offer_query enc os now =
     (let offers = list_active_offers os now; n = min (length offers) 50
      in case offer_entries enc os (take 50 offers) of
           Inl e \<Rightarrow> (Inl (HandlerWireError e), os, None)
         | Inr bs \<Rightarrow> (Inr (Some (MSG_SPONSORSHIP_OFFER_LIST, u16_le (word_of_nat n) @ bs)), os, None))"

definition learn_listed_offer ::
  "(bytes \<Rightarrow> bytes \<Rightarrow> bytes \<Rightarrow> bool) \<Rightarrow> (requirements \<Rightarrow> bytes) \<Rightarrow> (bytes \<Rightarrow> string + requirements) \<Rightarrow> u64 \<Rightarrow>
   offer_store \<Rightarrow> bytes \<Rightarrow> offer_store" where
  "learn_listed_offer verify enc dec now os offer_bytes =
     (case deserialize_offer dec offer_bytes of
        Inl _ \<Rightarrow> os
      | Inr o1 \<Rightarrow>
          if of_expires_at o1 \<le> now \<or> is_offer_cancelled os (of_id o1) then os
          else
            let peer_claimed = (case serialize_offer enc o1 of
                    Inr base \<Rightarrow> if length base < length offer_bytes then Some (offer_bytes ! length base) else None
                  | Inl _ \<Rightarrow> None);
                os1 = (case peer_claimed of Some pc \<Rightarrow> snd (bump_claimed_count_to os (of_id o1) pc) | None \<Rightarrow> os)
            in if offer_exists os1 (of_id o1) then os1
               else if \<not> verify (of_sponsor o1) (offer_signature_message o1) (of_signature o1) then os1
               else case create_offer os1 o1 of
                      (Inl _, os2) \<Rightarrow> os2
                    | (Inr _, os2) \<Rightarrow>
                        (case peer_claimed of Some pc \<Rightarrow> snd (bump_claimed_count_to os2 (of_id o1) pc) | None \<Rightarrow> os2))"

primrec offer_list_loop ::
  "(offer_store \<Rightarrow> bytes \<Rightarrow> offer_store) \<Rightarrow> bytes \<Rightarrow> nat \<Rightarrow> nat \<Rightarrow> offer_store \<Rightarrow> offer_store" where
  "offer_list_loop learn payload 0 pos os = os"
| "offer_list_loop learn payload (Suc n) pos os =
     (if length payload < pos + 2 then os
      else
        let len = unat (u16_of_le (byte_slice payload pos 2)); pos = pos + 2
        in if length payload < pos + len then os
           else offer_list_loop learn payload n (pos + len) (learn os (byte_slice payload pos len)))"

definition handle_sponsorship_offer_list ::
  "(bytes \<Rightarrow> bytes \<Rightarrow> bytes \<Rightarrow> bool) \<Rightarrow> (requirements \<Rightarrow> bytes) \<Rightarrow> (bytes \<Rightarrow> string + requirements) \<Rightarrow>
   offer_store \<Rightarrow> bytes \<Rightarrow> u64 \<Rightarrow> handled" where
  "handle_sponsorship_offer_list verify enc dec os payload now =
     (if length payload < 2 then (Inl (PayloadTooSmall 2 (length payload)), os, None)
      else (Inr None,
            offer_list_loop (learn_listed_offer verify enc dec now) payload
              (unat (u16_of_le (byte_slice payload 0 2))) 2 os, None))"

subsection \<open>Cancellations\<close>

definition handle_sponsorship_offer_cancel :: "(bytes \<Rightarrow> bytes \<Rightarrow> bytes \<Rightarrow> bool) \<Rightarrow> offer_store \<Rightarrow> bytes \<Rightarrow> handled" where
  "handle_sponsorship_offer_cancel verify os payload =
     (case deserialize_offer_cancel payload of
        Inl e \<Rightarrow> (Inl (DeserializationError e), os, None)
      | Inr c \<Rightarrow>
          if \<not> verify (oc_sponsor c) (cancel_signing_message c) (oc_signature c) then (Inl RouteInvalidSignature, os, None)
          else if (case get_offer os (oc_offer_id c) of Some o1 \<Rightarrow> of_sponsor o1 \<noteq> oc_sponsor c | None \<Rightarrow> False)
          then (Inr None, os, None)
          else if is_offer_cancelled os (oc_offer_id c) then (Inr None, os, None)
          else (Inr None, tombstone_offer (snd (delete_offer os (oc_offer_id c))) (oc_offer_id c) (oc_timestamp c),
                Some payload))"

subsection \<open>The gate of a block\<close>

definition sponsored_in_block :: "content_block list \<Rightarrow> hash32 \<Rightarrow> hash32 option option" where
  "sponsored_in_block blocks = foldl note_grant (\<lambda>_. None) (concat (map cb_actions blocks))"

definition action_admitted ::
  "network_mode \<Rightarrow> spons_store \<Rightarrow> (hash32 \<Rightarrow> hash32 option option) \<Rightarrow> hash32 \<Rightarrow> action \<Rightarrow> bool" where
  "action_admitted mode st grants space a \<longleftrightarrow>
     (requires_sponsored_author (act_type a) \<longrightarrow>
        is_authorized_in_space mode st (act_actor a) space \<or>
        (case grants (act_actor a) of Some (Some scope) \<Rightarrow> scope = space | Some None \<Rightarrow> True | None \<Rightarrow> False)) \<and>
     (act_type a = CreateSpace \<longrightarrow>
        (case act_content_hash a of Some h \<Rightarrow> space_id_class_is_valid (take 16 h) | None \<Rightarrow> True))"

definition block_admitted :: "network_mode \<Rightarrow> spons_store option \<Rightarrow> content_block list \<Rightarrow> bool" where
  "block_admitted mode ss blocks =
     (case ss of
        None \<Rightarrow> True
      | Some st \<Rightarrow>
          (\<forall>cb \<in> set blocks. \<forall>a \<in> set (cb_actions cb).
             action_admitted mode st (sponsored_in_block blocks) (cb_space_id cb) a))"

text \<open>The gate of the pool, for an action a peer announces.\<close>

definition announced_admitted ::
  "network_mode \<Rightarrow> spons_store option \<Rightarrow> action list \<Rightarrow> hash32 \<Rightarrow> action \<Rightarrow> bool" where
  "announced_admitted mode ss pending space a =
     (if requires_sponsored_author (act_type a) then
        (case ss of
           None \<Rightarrow> True
         | Some st \<Rightarrow>
             is_authorized_in_space mode st (act_actor a) space \<or>
             (\<exists>p \<in> set pending. act_type p = Sponsor \<and> act_content_hash p = Some (act_actor a) \<and>
                (case sponsor_scope p of Some scope \<Rightarrow> scope = space | None \<Rightarrow> True)))
      else True)"

subsection \<open>Application of the sponsorship actions of a block\<close>

definition pow_zero_bytes :: "(bytes \<Rightarrow> hash32) \<Rightarrow> action \<Rightarrow> u64" where
  "pow_zero_bytes H a =
     word_of_nat (length (takeWhile (\<lambda>b. b = 0) (H (act_pow_target a @ u64_le (act_pow_nonce a)))))"

definition chain_record :: "pub_key \<Rightarrow> pub_key option \<Rightarrow> u64 \<Rightarrow> u8 \<Rightarrow> stored_sponsorship" where
  "chain_record i sponsor t depth =
     \<lparr>sr_identity = i, sr_sponsor = sponsor, sr_created = t, sr_status = Active, sr_penalty_until = None,
      sr_depth = depth, sr_probationary = False, sr_probation_expires = None, sr_score = 0,
      sr_is_genesis = (sponsor = None), sr_orphaned_at = None\<rparr>"

definition apply_sponsor_action ::
  "network_mode \<Rightarrow> (bytes \<Rightarrow> bytes \<Rightarrow> bytes \<Rightarrow> bool) \<Rightarrow> (bytes \<Rightarrow> hash32) \<Rightarrow> spons_store \<Rightarrow> action \<Rightarrow> hash32 \<Rightarrow>
   spons_store \<times> bool" where
  "apply_sponsor_action mode verify H st a sponsee =
     (let sponsor = act_actor a; scope = sponsor_scope a
      in if \<not> verify sponsor (sponsor_sig_message sponsee (act_timestamp a) scope) (act_signature a) then (st, True)
         else if \<not> (case ss_get st sponsor of
                      Some r \<Rightarrow> sr_status r = Active \<or> is_in_hardcoded_genesis_list mode sponsor
                    | None \<Rightarrow> is_in_hardcoded_genesis_list mode sponsor) then (st, False)
         else if act_pow_work a > 0 \<and> pow_zero_bytes H a < act_pow_work a then (st, True)
         else if ss_exists st sponsee then (st, True)
         else
           let depth = (case ss_get st sponsor of Some r \<Rightarrow> u8_sat_add (sr_depth r) 1 | None \<Rightarrow> 1)
           in case ss_put st (chain_record sponsee (Some sponsor) (act_timestamp a) depth) of
                (Inl _, st1) \<Rightarrow> (st1, False)
              | (Inr _, st1) \<Rightarrow> (case scope of Some s \<Rightarrow> set_scope st1 sponsee s | None \<Rightarrow> st1, True))"

definition apply_genesis_action ::
  "network_mode \<Rightarrow> (bytes \<Rightarrow> bytes \<Rightarrow> bytes \<Rightarrow> bool) \<Rightarrow> spons_store \<Rightarrow> action \<Rightarrow> hash32 \<Rightarrow> spons_store \<times> bool" where
  "apply_genesis_action mode verify st a g =
     (if act_actor a \<noteq> g then (st, True)
      else if \<not> is_in_hardcoded_genesis_list mode g then (st, True)
      else if \<not> verify (act_actor a) (g @ u64_be (act_timestamp a)) (act_signature a) then (st, True)
      else if ss_exists st g then (st, True)
      else case ss_put st (chain_record g None (act_timestamp a) 0) of
             (Inl _, st1) \<Rightarrow> (st1, False)
           | (Inr _, st1) \<Rightarrow> (st1, True))"

definition apply_sponsorship_action ::
  "network_mode \<Rightarrow> (bytes \<Rightarrow> bytes \<Rightarrow> bytes \<Rightarrow> bool) \<Rightarrow> (bytes \<Rightarrow> hash32) \<Rightarrow> spons_store \<times> bool \<Rightarrow> action \<Rightarrow> spons_store \<times> bool" where
  "apply_sponsorship_action mode verify H acc a =
     (case acc of (st, fully) \<Rightarrow>
        case (act_type a, act_content_hash a) of
          (Sponsor, Some sponsee) \<Rightarrow>
            (case apply_sponsor_action mode verify H st a sponsee of (st1, b) \<Rightarrow> (st1, fully \<and> b))
        | (GenesisRegister, Some g) \<Rightarrow>
            (case apply_genesis_action mode verify st a g of (st1, b) \<Rightarrow> (st1, fully \<and> b))
        | _ \<Rightarrow> acc)"

definition apply_sponsorship_actions ::
  "network_mode \<Rightarrow> (bytes \<Rightarrow> bytes \<Rightarrow> bytes \<Rightarrow> bool) \<Rightarrow> (bytes \<Rightarrow> hash32) \<Rightarrow> spons_store \<Rightarrow> content_block \<Rightarrow> spons_store \<times> bool" where
  "apply_sponsorship_actions mode verify H st cb =
     foldl (apply_sponsorship_action mode verify H) (st, True) (cb_actions cb)"

text \<open>The second stage of the reconciliation of a block runs over all its content blocks.\<close>

definition reconcile_sponsorship ::
  "network_mode \<Rightarrow> (bytes \<Rightarrow> bytes \<Rightarrow> bytes \<Rightarrow> bool) \<Rightarrow> (bytes \<Rightarrow> hash32) \<Rightarrow> spons_store \<Rightarrow> content_block list \<Rightarrow> spons_store \<times> bool" where
  "reconcile_sponsorship mode verify H st blocks =
     foldl (\<lambda>(st, fully) cb.
              case apply_sponsorship_actions mode verify H st cb of (st1, b) \<Rightarrow> (st1, fully \<and> b)) (st, True) blocks"

end
