(* ===== verification/Spons_Correct.thy ===== *)
theory Spons_Correct
  imports Spons_Flow
begin

text \<open>
  Correctness of the sponsorship system: an invariant of its stores that every operation keeps, what a
  penalty amounts to, how consequences spread, and where the code departs from its documentation.
\<close>

named_theorems store_simps \<open>reading the sponsorship store after an operation\<close>

subsection \<open>Reading after writing\<close>

lemma ss_get_write [simp]: "ss_get (ss_write st i s) j = (if j = i then Some s else ss_get st j)"
  by (simp add: ss_get_def ss_write_def)

lemma get_sponsees_write [simp]: "get_sponsees (ss_write st i s) p = get_sponsees st p"
  by (simp add: get_sponsees_def ss_write_def)

lemma ss_orphans_write [simp]: "ss_orphans (ss_write st i s) = ss_orphans st"
  by (simp add: ss_write_def)

lemma ss_get_add [simp]: "ss_get (add_to_sponsee_list st p i) j = ss_get st j"
  by (simp add: add_to_sponsee_list_def ss_get_def Let_def)

lemma ss_orphans_add [simp]: "ss_orphans (add_to_sponsee_list st p i) = ss_orphans st"
  by (simp add: add_to_sponsee_list_def Let_def)

lemma get_sponsees_add:
  "get_sponsees (add_to_sponsee_list st p i) q =
     (if q = p \<and> i \<notin> set (get_sponsees st p) then get_sponsees st p @ [i] else get_sponsees st q)"
  by (auto simp: add_to_sponsee_list_def get_sponsees_def Let_def)

lemma ss_get_other [simp]:
  "ss_get (st\<lparr>ss_orphans := a\<rparr>) = ss_get st" "ss_get (st\<lparr>ss_scopes := b\<rparr>) = ss_get st"
  "ss_get (st\<lparr>ss_genesis_slots := c\<rparr>) = ss_get st"
  by (auto simp: ss_get_def)

lemma get_sponsees_other [simp]:
  "get_sponsees (st\<lparr>ss_orphans := a\<rparr>) = get_sponsees st" "get_sponsees (st\<lparr>ss_scopes := b\<rparr>) = get_sponsees st"
  "get_sponsees (st\<lparr>ss_genesis_slots := c\<rparr>) = get_sponsees st"
  by (auto simp: get_sponsees_def)

subsection \<open>The invariant of the store\<close>

text \<open>
  Every record is stored under its identity and passes its own check; the index by sponsor has every
  sponsee once; an orphaned identity is no genesis identity and is in the index of orphans with the
  time it was orphaned.
\<close>

definition record_ok :: "spons_store \<Rightarrow> pub_key \<Rightarrow> stored_sponsorship \<Rightarrow> bool" where
  "record_ok st i s \<longleftrightarrow>
     sr_identity s = i \<and> sr_validate_invariants s = Inr () \<and>
     (\<forall>p. sr_sponsor s = Some p \<longrightarrow> i \<in> set (get_sponsees st p)) \<and>
     (sr_status s = Orphaned \<longrightarrow>
        \<not> sr_is_genesis s \<and> sr_orphaned_at s \<noteq> None \<and> tree_get (ss_orphans st) i = sr_orphaned_at s)"

definition spons_ok :: "spons_store \<Rightarrow> bool" where
  "spons_ok st \<longleftrightarrow> (\<forall>i s. ss_get st i = Some s \<longrightarrow> record_ok st i s) \<and> (\<forall>p. distinct (get_sponsees st p))"

lemma spons_okD: "spons_ok st \<Longrightarrow> ss_get st i = Some s \<Longrightarrow> record_ok st i s"
  by (simp add: spons_ok_def)

lemma spons_ok_empty: "spons_ok ss_empty"
  by (simp add: spons_ok_def ss_empty_def ss_get_def get_sponsees_def)

text \<open>An update that keeps the place of an identity in the tree.\<close>

lemma spons_ok_update:
  assumes ok: "spons_ok st" and s: "ss_get st i = Some s"
    and same: "sr_identity s' = sr_identity s" "sr_sponsor s' = sr_sponsor s" "sr_is_genesis s' = sr_is_genesis s"
      "sr_depth s' = sr_depth s" "sr_score s' \<le> 1000"
    and orphaned: "sr_status s' = Orphaned \<Longrightarrow> sr_status s = Orphaned \<and> sr_orphaned_at s' = sr_orphaned_at s"
  shows "spons_ok (ss_write st i s')"
proof -
  have old: "record_ok st i s" by (rule spons_okD [OF ok s])
  then have "record_ok (ss_write st i s') i s'"
    using same orphaned by (auto simp: record_ok_def validate_invariants_ok split: if_splits)
  moreover have "record_ok (ss_write st i s') j r" if "ss_get st j = Some r" for j r
    using spons_okD [OF ok that] by (simp add: record_ok_def)
  ultimately show ?thesis using ok by (auto simp: spons_ok_def)
qed

lemma record_ok_mono:
  "record_ok st i s \<Longrightarrow> (\<And>p. set (get_sponsees st p) \<subseteq> set (get_sponsees st' p)) \<Longrightarrow>
   (sr_status s = Orphaned \<Longrightarrow> tree_get (ss_orphans st') i = tree_get (ss_orphans st) i) \<Longrightarrow> record_ok st' i s"
  by (auto simp: record_ok_def split: option.splits)

lemma ss_put_ok:
  assumes ok: "spons_ok st" and s: "sr_status s \<noteq> Orphaned"
  shows "spons_ok (snd (ss_put st s))"
proof (cases "sr_validate_invariants s")
  case (Inr u)
  let ?st1 = "ss_write st (sr_identity s) s"
  let ?st' = "case sr_sponsor s of Some p \<Rightarrow> add_to_sponsee_list ?st1 p (sr_identity s) | None \<Rightarrow> ?st1"
  have more: "set (get_sponsees st p) \<subseteq> set (get_sponsees ?st' p)" for p
    by (auto simp: get_sponsees_add split: option.splits)
  have new: "record_ok ?st' (sr_identity s) s"
    using Inr s by (auto simp: record_ok_def get_sponsees_add split: option.splits)
  have get: "ss_get ?st' j = (if j = sr_identity s then Some s else ss_get st j)" for j by (simp split: option.splits)
  have old: "record_ok ?st' j r" if "ss_get st j = Some r" for j r
    using spons_okD [OF ok that] more by (rule record_ok_mono) (simp split: option.splits)
  have "distinct (get_sponsees ?st' p)" for p
    using ok by (auto simp: get_sponsees_add spons_ok_def split: option.splits)
  then have "spons_ok ?st'" unfolding spons_ok_def get using new old by (metis option.inject)
  then show ?thesis using Inr by (simp add: ss_put_def Let_def)
qed (simp add: ss_put_def ok)

lemma claim_slot_ok: "spons_ok st \<Longrightarrow> spons_ok (snd (claim_genesis_slot st slot i))"
  by (auto simp: claim_genesis_slot_def spons_ok_def record_ok_def split: option.splits)

lemma register_genesis_ok:
  assumes "spons_ok st"
  shows "spons_ok (snd (register_genesis_identity mode verify st c now))"
proof (cases "ic_genesis_proof c")
  case (Some gp)
  let ?v = "verify_genesis_creation verify c now (is_slot_claimed st) (is_in_hardcoded_genesis_list mode)
      (count_active_genesis st) (ss_is_genesis st)"
  show ?thesis
  proof (cases ?v)
    case (Inr u)
    show ?thesis unfolding register_genesis_identity_def Some Inr option.case sum.case Let_def
      by (intro and_then_keeps [where P = spons_ok] claim_slot_ok assms) (simp_all add: ss_put_ok)
  qed (simp add: register_genesis_identity_def Some assms)
qed (simp add: register_genesis_identity_def assms)

lemma register_sponsored_ok:
  assumes "spons_ok st"
  shows "spons_ok (snd (register_sponsored_identity st c d))"
proof (cases "ic_sponsor c")
  case (Some sponsor)
  have "sr_status (sponsored_record c sponsor d) \<noteq> Orphaned" by (simp add: sponsored_record_def)
  from ss_put_ok [OF assms this] show ?thesis
    unfolding register_sponsored_identity_def Some option.case Let_def
    by (intro and_then_keeps [where P = spons_ok]) simp_all
qed (simp add: register_sponsored_identity_def assms)

lemma set_penalty_ok: "spons_ok st \<Longrightarrow> spons_ok (snd (set_penalty st i t))"
  by (auto simp: set_penalty_def validate_invariants_ok record_ok_def dest: spons_okD intro!: spons_ok_update split: option.splits)

lemma update_status_ok: "spons_ok st \<Longrightarrow> status \<noteq> Orphaned \<Longrightarrow> spons_ok (snd (update_status st i status))"
  by (auto simp: update_status_def validate_invariants_ok record_ok_def dest: spons_okD intro!: spons_ok_update split: option.splits)

lemma clear_penalty_ok: "spons_ok st \<Longrightarrow> spons_ok (snd (clear_penalty st i))"
  by (auto simp: clear_penalty_def Let_def validate_invariants_ok record_ok_def dest: spons_okD
      intro!: spons_ok_update split: option.splits)

lemma update_score_ok: "spons_ok st \<Longrightarrow> spons_ok (snd (update_contribution_score st i score))"
  by (auto simp: update_contribution_score_def intro!: spons_ok_update split: option.splits)

lemma scope_ok: "spons_ok st \<Longrightarrow> spons_ok (set_scope st i x)" "spons_ok st \<Longrightarrow> spons_ok (remove_scope st i)"
  by (simp_all add: spons_ok_def record_ok_def set_scope_def remove_scope_def)

lemma set_orphan_ok:
  assumes ok: "spons_ok st"
  shows "spons_ok (snd (set_orphan_status st i t))"
proof (cases "\<exists>s. ss_get st i = Some s \<and> \<not> sr_is_genesis s")
  case True
  then obtain s where s: "ss_get st i = Some s" "\<not> sr_is_genesis s" by blast
  let ?s' = "s\<lparr>sr_status := Orphaned, sr_orphaned_at := Some t\<rparr>"
  let ?st' = "(ss_write st i ?s')\<lparr>ss_orphans := tree_insert (ss_orphans st) i t\<rparr>"
  have "record_ok ?st' i ?s'" using spons_okD [OF ok s(1)] s(2) by (auto simp: record_ok_def validate_invariants_ok)
  moreover have "record_ok ?st' j r" if "ss_get st j = Some r" "j \<noteq> i" for j r
    using spons_okD [OF ok that(1)] that(2) by (simp add: record_ok_def)
  ultimately have "spons_ok ?st'" using ok by (auto simp: spons_ok_def)
  then show ?thesis using s by (simp add: set_orphan_status_def)
qed (use ok in \<open>auto simp: set_orphan_status_def split: option.splits\<close>)

lemma clear_orphan_ok:
  assumes ok: "spons_ok st" and s: "ss_get st i = Some s" "\<not> sr_is_genesis s"
  shows "spons_ok (snd (clear_orphan_status st i p d))"
proof -
  let ?s' = "s\<lparr>sr_status := Active, sr_orphaned_at := None, sr_sponsor := Some p, sr_depth := d, sr_penalty_until := None\<rparr>"
  let ?st' = "add_to_sponsee_list ((ss_write st i ?s')\<lparr>ss_orphans := tree_remove (ss_orphans st) i\<rparr>) p i"
  have new: "record_ok ?st' i ?s'"
    using spons_okD [OF ok s(1)] s(2) by (auto simp: record_ok_def validate_invariants_ok get_sponsees_add)
  have old: "record_ok ?st' j r" if "ss_get st j = Some r" "j \<noteq> i" for j r
    using spons_okD [OF ok that(1)] by (rule record_ok_mono) (use that(2) in \<open>auto simp: get_sponsees_add\<close>)
  have "distinct (get_sponsees ?st' q)" for q using ok by (auto simp: get_sponsees_add spons_ok_def)
  then have "spons_ok ?st'" using new old by (auto simp: spons_ok_def)
  then show ?thesis using s(1) by (simp add: clear_orphan_status_def)
qed


subsection \<open>The penalty store as a map of expiry times\<close>

definition penalty_ok :: "pub_key \<Rightarrow> penalty_record \<Rightarrow> bool" where
  "penalty_ok i p \<longleftrightarrow>
     pn_identity p = i \<and> pn_current_expires_at p \<le> pn_base_expires_at p \<and>
     (pn_type p = PermanentRevocation \<longrightarrow> pn_current_expires_at p = - 1)"

definition penalties_ok :: "penalty_store \<Rightarrow> bool" where
  "penalties_ok ps \<longleftrightarrow> distinct (map fst (ps_penalties ps)) \<and>
     (\<forall>i. (\<forall>p \<in> set (get_penalties ps i). penalty_ok i p) \<and> distinct (map pn_type (get_penalties ps i)))"

definition expiry :: "penalty_store \<Rightarrow> pub_key \<Rightarrow> penalty_type \<Rightarrow> u64 option" where
  "expiry ps i ty = map_option pn_current_expires_at (List.find (\<lambda>p. pn_type p = ty) (get_penalties ps i))"

lemma get_penalties_store [simp]:
  "get_penalties (store_penalties ps i l) j = (if j = i then l else get_penalties ps j)"
  by (simp add: get_penalties_def store_penalties_def)

lemma get_penalties_store_map: "get_penalties (store_penalties ps i l) = (get_penalties ps)(i := l)"
  by (simp add: fun_eq_iff)

lemma distinct_tree [simp]:
  "distinct (map fst t) \<Longrightarrow> distinct (map fst (tree_insert t k v))"
  "distinct (map fst t) \<Longrightarrow> distinct (map fst (tree_remove t k))"
  by (simp_all add: tree_insert_def tree_remove_def distinct_update distinct_delete)

lemma penalty_keys [simp]:
  "distinct (map fst (ps_penalties ps)) \<Longrightarrow> distinct (map fst (ps_penalties (store_penalties ps i l)))"
  "ps_penalties (add_to_cause_index ps c i ty) = ps_penalties ps"
  "ps_penalties (record_warning ps w) = ps_penalties ps"
  "ps_penalties (foldl record_warning ps ws) = ps_penalties ps"
proof -
  show "distinct (map fst (ps_penalties ps)) \<Longrightarrow> distinct (map fst (ps_penalties (store_penalties ps i l)))"
    by (simp add: store_penalties_def)
  show "ps_penalties (add_to_cause_index ps c i ty) = ps_penalties ps"
    by (simp add: add_to_cause_index_def Let_def)
  show w: "ps_penalties (record_warning ps w) = ps_penalties ps" for ps w
    by (simp add: record_warning_def Let_def)
  show "ps_penalties (foldl record_warning ps ws) = ps_penalties ps"
    by (induction ws arbitrary: ps) (simp_all add: w)
qed

lemma get_penalties_cause [simp]: "get_penalties (add_to_cause_index ps c i ty) = get_penalties ps"
  by (auto simp: get_penalties_def add_to_cause_index_def Let_def)

lemma get_penalties_warning [simp]: "get_penalties (record_warning ps w) = get_penalties ps"
  by (auto simp: get_penalties_def record_warning_def Let_def)

lemma get_penalties_warnings [simp]: "get_penalties (foldl record_warning ps ws) = get_penalties ps"
  by (induction ws arbitrary: ps) simp_all

lemma extend_penalty_fields [simp]:
  "pn_identity (extend_penalty new p) = pn_identity p" "pn_type (extend_penalty new p) = pn_type p"
  by (simp_all add: extend_penalty_def Let_def)

lemma word_minus_1_max: "(x :: u64) \<le> - 1"
  using unat_u64_less [of x] by (simp add: word_le_nat_alt unsigned_minus_1_eq_mask mask_eq_exp_minus_1)

lemma extend_penalty_max:
  "pn_current_expires_at p \<le> pn_base_expires_at p \<Longrightarrow>
   pn_current_expires_at (extend_penalty new p) = max (pn_current_expires_at p) (pn_base_expires_at new) \<and>
   pn_current_expires_at (extend_penalty new p) \<le> pn_base_expires_at (extend_penalty new p)"
  by (auto simp: extend_penalty_def Let_def max_def min_def)

lemma stack_penalty_spec:
  assumes "stack_penalty new l = (l', found)"
  shows "map pn_type l' = map pn_type l"
    and "found \<longleftrightarrow> (\<exists>p \<in> set l. pn_type p = pn_type new)"
    and "\<forall>ty. ty \<noteq> pn_type new \<longrightarrow> List.find (\<lambda>p. pn_type p = ty) l' = List.find (\<lambda>p. pn_type p = ty) l"
    and "List.find (\<lambda>p. pn_type p = pn_type new) l' =
           map_option (extend_penalty new) (List.find (\<lambda>p. pn_type p = pn_type new) l)"
    and "set l' \<subseteq> set l \<union> extend_penalty new ` set l"
  using assms
  by (induction l arbitrary: l' found) (auto split: if_splits prod.splits)

lemma stack_penalty_ok:
  assumes l: "\<forall>p \<in> set l. penalty_ok i p" and new: "penalty_ok i new" "pn_current_expires_at new = pn_base_expires_at new"
    and stack: "stack_penalty new l = (l', found)" and p: "p \<in> set l'"
  shows "penalty_ok i p"
proof -
  have "penalty_ok i (extend_penalty new q)" if "q \<in> set l" for q
    using l that extend_penalty_max [of q new] order_antisym [OF word_minus_1_max [of "pn_base_expires_at new"]]
    by (auto simp: penalty_ok_def max_def)
  then show ?thesis using stack_penalty_spec(5) [OF stack] p l by blast
qed

lemma find_append:
  "List.find P (xs @ ys) = (case List.find P xs of Some x \<Rightarrow> Some x | None \<Rightarrow> List.find P ys)"
  by (induction xs) auto

lemma find_type_None: "List.find (\<lambda>p. pn_type p = ty) l = None \<longleftrightarrow> (\<forall>p \<in> set l. pn_type p \<noteq> ty)"
  by (induction l) auto

text \<open>The new list of the penalised identity, and that no other list changes.\<close>

lemma apply_penalty_list:
  assumes ok: "penalties_ok ps" and new: "penalty_ok i new" "pn_current_expires_at new = pn_base_expires_at new"
    and app: "apply_penalty ps new = (Inr (), ps')"
  shows "\<exists>l. get_penalties ps' = (get_penalties ps)(i := l) \<and> (\<forall>p \<in> set l. penalty_ok i p) \<and> distinct (map pn_type l) \<and>
    (\<forall>ty. map_option pn_current_expires_at (List.find (\<lambda>p. pn_type p = ty) l) =
       (if ty = pn_type new
        then Some (case expiry ps i ty of Some t \<Rightarrow> max t (pn_base_expires_at new) | None \<Rightarrow> pn_base_expires_at new)
        else expiry ps i ty))"
proof -
  let ?l = "get_penalties ps i"
  have i: "pn_identity new = i" using new(1) by (simp add: penalty_ok_def)
  have l: "\<forall>p \<in> set ?l. penalty_ok i p" "distinct (map pn_type ?l)" using ok by (simp_all add: penalties_ok_def)
  show ?thesis
  proof (cases "pn_type new = PermanentRevocation \<and> (\<exists>p \<in> set ?l. pn_type p = PermanentRevocation)")
    case True
    then have "ps' = ps" using app i by (auto simp: apply_penalty_def split: sum.splits)
    obtain p where p: "List.find (\<lambda>p. pn_type p = pn_type new) ?l = Some p"
      using True find_type_None [of "pn_type new" ?l]
      by (cases "List.find (\<lambda>p. pn_type p = pn_type new) ?l") auto
    then have "p \<in> set ?l" "pn_type p = PermanentRevocation" using True by (auto simp: find_Some_iff)
    then have "pn_current_expires_at p = - 1" using l(1) by (simp add: penalty_ok_def)
    then have "max (pn_current_expires_at p) x = pn_current_expires_at p" for x
      using order_antisym [OF word_minus_1_max [of x]] by (auto simp: max_def)
    then show ?thesis using \<open>ps' = ps\<close> l p by (intro exI [of _ ?l]) (auto simp: expiry_def)
  next
    case False
    obtain l' found where st: "stack_penalty new ?l = (l', found)" by fastforce
    note spec = stack_penalty_spec [OF st]
    let ?n = "if found then l' else l' @ [new]"
    have "get_penalties ps' = (get_penalties ps)(i := ?n)"
      using app False st i by (auto simp: apply_penalty_def Let_def fun_eq_iff split: sum.splits option.splits if_splits)
    moreover have "\<forall>p \<in> set ?n. penalty_ok i p" using stack_penalty_ok [OF l(1) new st] new(1) by auto
    moreover have "distinct (map pn_type ?n)"
    proof -
      have "pn_type ` set l' = pn_type ` set ?l" using spec(1) by (metis set_map)
      then show ?thesis using l(2) spec(2) by (auto simp: spec(1))
    qed
    moreover have "map_option pn_current_expires_at (List.find (\<lambda>p. pn_type p = ty) ?n) =
       (if ty = pn_type new
        then Some (case expiry ps i ty of Some t \<Rightarrow> max t (pn_base_expires_at new) | None \<Rightarrow> pn_base_expires_at new)
        else expiry ps i ty)" for ty
    proof (cases "List.find (\<lambda>p. pn_type p = pn_type new) ?l")
      case None
      then have "\<not> found" using spec(2) find_type_None by blast
      then show ?thesis using spec(3,4) None new(2) by (auto simp: expiry_def find_append split: option.splits)
    next
      case (Some q)
      then have found using spec(2) find_type_None [of "pn_type new" ?l] by auto
      moreover have "pn_current_expires_at q \<le> pn_base_expires_at q"
        using l(1) Some by (auto simp: penalty_ok_def find_Some_iff)
      ultimately show ?thesis using spec(3,4) Some extend_penalty_max [of q new] by (auto simp: expiry_def)
    qed
    ultimately show ?thesis by blast
  qed
qed


lemma penalties_ok_change:
  assumes "penalties_ok ps" and "get_penalties ps' = (get_penalties ps)(i := l)" and "distinct (map fst (ps_penalties ps'))"
    and "\<forall>p \<in> set l. penalty_ok i p" and "distinct (map pn_type l)"
  shows "penalties_ok ps'"
  using assms by (simp add: penalties_ok_def)

lemma apply_penalty_ok:
  assumes "penalties_ok ps" and "penalty_ok i new" "pn_current_expires_at new = pn_base_expires_at new"
  shows "penalties_ok (snd (apply_penalty ps new))"
proof -
  obtain r ps' where app: "apply_penalty ps new = (r, ps')" by fastforce
  show ?thesis
  proof (cases r)
    case (Inl e)
    then have "ps' = ps" using app by (auto simp: apply_penalty_def Let_def split: sum.splits if_splits prod.splits)
    then show ?thesis using assms(1) app by simp
  next
    case (Inr u)
    have "distinct (map fst (ps_penalties ps'))"
      using app assms(1) by (auto simp: apply_penalty_def penalties_ok_def Let_def split: sum.splits if_splits prod.splits option.splits)
    with Inr apply_penalty_list [OF assms, of ps'] app penalties_ok_change [OF assms(1)] show ?thesis by auto
  qed
qed

text \<open>The penalties that propagation hands out are whole: nothing has been taken off their duration yet.\<close>

definition fresh_penalty :: "penalty_record \<Rightarrow> bool" where
  "fresh_penalty p \<longleftrightarrow> penalty_ok (pn_identity p) p \<and> pn_current_expires_at p = pn_base_expires_at p"

lemma fresh_for_offender: "fresh_penalty (for_offender i severity now)" "pn_identity (for_offender i severity now) = i"
  by (auto simp: fresh_penalty_def penalty_ok_def for_offender_def split: misbehavior_severity.splits)

lemma fresh_for_sponsor: "fresh_penalty (for_sponsor i offender severity hop d now)"
  by (auto simp: fresh_penalty_def penalty_ok_def for_sponsor_def Let_def)

definition probation_factor :: "spons_store \<Rightarrow> pub_key \<Rightarrow> rat" where
  "probation_factor st offender =
     (case ss_get st offender of Some s \<Rightarrow> if sr_probationary s then 1 / 4 else 1 | None \<Rightarrow> 1)"

lemma propagate_parts:
  assumes "propagate_consequences st offender severity now = Inr r"
  shows "pg_offender_penalty r = for_offender offender severity now"
    and "pg_sponsor_penalties r = fst (foldl (note_sponsor offender severity (probation_factor st offender) now) ([], [])
      (drop 1 (zip [0 ..< length (get_path_to_genesis st offender)] (get_path_to_genesis st offender))))"
    and "pg_warnings r = snd (foldl (note_sponsor offender severity (probation_factor st offender) now) ([], [])
      (drop 1 (zip [0 ..< length (get_path_to_genesis st offender)] (get_path_to_genesis st offender))))"
    and "severity \<noteq> NoMisbehavior"
  using assms
  unfolding propagate_consequences_def Let_def probation_factor_def [symmetric] case_prod_beta
  by (auto simp: is_propagating_def split: if_splits)

text \<open>What one sponsor on the path gets, and that the loop collects it for each of them.\<close>

definition consequence :: "pub_key \<Rightarrow> misbehavior_severity \<Rightarrow> rat \<Rightarrow> u64 \<Rightarrow> nat \<times> pub_key \<Rightarrow> penalty_record option" where
  "consequence offender severity probation now e =
     (let hop = word_of_nat (fst e); multiplier = f32_round (get_hop_decay hop * probation)
      in if multiplier < 1 / 2 ^ 23 then None
         else compute_sponsor_penalty (snd e) offender severity hop multiplier now)"

definition warning_of :: "pub_key \<Rightarrow> misbehavior_severity \<Rightarrow> u64 \<Rightarrow> nat \<times> pub_key \<Rightarrow> warning" where
  "warning_of offender severity now e =
     \<lparr>wn_identity = snd e, wn_caused_by = offender, wn_severity = severity, wn_timestamp = now,
      wn_hop_distance = word_of_nat (fst e)\<rparr>"

lemma note_sponsor_eq:
  "note_sponsor offender severity probation now (ps, ws) e =
     (case consequence offender severity probation now e of
        Some p \<Rightarrow> (ps @ [p], ws) | None \<Rightarrow> (ps, ws @ [warning_of offender severity now e]))"
  by (cases e) (simp add: note_sponsor_def consequence_def warning_of_def Let_def split: option.split)

lemma note_sponsors:
  "foldl (note_sponsor offender severity probation now) (ps, ws) es =
     (ps @ List.map_filter (consequence offender severity probation now) es,
      ws @ map (warning_of offender severity now) (filter (\<lambda>e. consequence offender severity probation now e = None) es))"
  by (induction es arbitrary: ps ws) (auto simp: note_sponsor_eq List.map_filter_simps split: option.split)

lemma fresh_consequence:
  "consequence offender severity probation now e = Some p \<Longrightarrow> fresh_penalty p"
  by (auto simp: consequence_def compute_sponsor_penalty_def Let_def fresh_for_sponsor split: if_splits prod.splits)

lemma fresh_sponsor_penalties:
  assumes "propagate_consequences st offender severity now = Inr r" and "p \<in> set (pg_sponsor_penalties r)"
  shows "fresh_penalty p"
  using assms(2) unfolding propagate_parts(2) [OF assms(1)] note_sponsors
  by (auto simp: map_filter_member intro: fresh_consequence)

lemma recover_first_spec:
  "recover_first ty t l = Some l' \<Longrightarrow> \<forall>p \<in> set l. penalty_ok i p \<Longrightarrow>
   (\<forall>p \<in> set l'. penalty_ok i p) \<and> map pn_type l' = map pn_type l"
  by (induction l arbitrary: l')
    (auto simp: penalty_ok_def set_current_expires_at_def pn_is_permanent_def split: if_splits)

lemma apply_recovery_ok: "penalties_ok ps \<Longrightarrow> penalties_ok (snd (apply_recovery ps i ty t))"
proof (cases "recover_first ty t (get_penalties ps i)")
  case (Some l)
  assume ok: "penalties_ok ps"
  then have "\<forall>p \<in> set l. penalty_ok i p" "map pn_type l = map pn_type (get_penalties ps i)"
    using recover_first_spec [OF Some, of i] by (simp_all add: penalties_ok_def)
  then show ?thesis
    using ok penalties_ok_change [OF ok get_penalties_store_map, of i l] Some by (auto simp: apply_recovery_def penalties_ok_def)
qed (simp add: apply_recovery_def)

lemma remove_expired_ok:
  assumes ok: "penalties_ok ps"
  shows "penalties_ok (fst (remove_expired_penalties ps now))"
proof -
  have keep: "penalties_ok (fst (remove_expired_step now acc e))"
    if a: "penalties_ok (fst acc)" "\<forall>p \<in> set (snd e). penalty_ok (fst e) p" "distinct (map pn_type (snd e))" for acc e
    using a(2,3) penalties_ok_change [OF a(1) get_penalties_store_map, of "fst e" "filter (\<lambda>p. \<not> pn_is_expired p now) (snd e)"] a(1)
    by (cases acc; cases e) (auto simp: remove_expired_step_def penalties_ok_def distinct_map_filter)
  have fold: "penalties_ok (fst (foldl (remove_expired_step now) acc es))"
    if "penalties_ok (fst acc)" "\<forall>e \<in> set es. (\<forall>p \<in> set (snd e). penalty_ok (fst e) p) \<and> distinct (map pn_type (snd e))" for acc es
    using that by (induction es arbitrary: acc) (simp_all add: keep)
  have "get_penalties ps (fst e) = snd e" if "e \<in> set (ps_penalties ps)" for e
  proof -
    have "(fst e, snd e) \<in> set (ps_penalties ps)" using that by simp
    then have "map_of (ps_penalties ps) (fst e) = Some (snd e)"
      using ok unfolding penalties_ok_def by (intro map_of_is_SomeI) blast+
    then show ?thesis by (simp add: get_penalties_def tree_get_def)
  qed
  then have "\<forall>e \<in> set (tree_iter (ps_penalties ps)). (\<forall>p \<in> set (snd e). penalty_ok (fst e) p) \<and> distinct (map pn_type (snd e))"
    using ok by (metis penalties_ok_def set_tree_iter)
  then show ?thesis using fold [of "(ps, 0)"] ok by (simp add: remove_expired_penalties_def)
qed

text \<open>Everything that is stored and everything that is done keeps the two invariants.\<close>

definition state_ok :: "spons_state \<Rightarrow> bool" where
  "state_ok s \<longleftrightarrow> spons_ok (fst s) \<and> penalties_ok (snd s)"

lemma punish_sponsor_ok:
  assumes "state_ok s" "fresh_penalty p"
  shows "state_ok (snd (punish_sponsor s p))"
proof -
  obtain st ps where s: "s = (st, ps)" by fastforce
  have "penalties_ok (snd (apply_penalty ps p))"
    using assms apply_penalty_ok [of ps "pn_identity p" p] by (simp add: s state_ok_def fresh_penalty_def)
  then show ?thesis unfolding punish_sponsor_def s prod.case using assms(1)
    by (intro and_then_keeps [where P = state_ok])
      (auto simp: s state_ok_def lift_penalty_def lift_store_def set_penalty_ok)
qed

lemma on_misbehavior_ok:
  assumes "state_ok s"
  shows "state_ok (snd (on_misbehavior s offender severity now))"
proof -
  obtain st ps where s: "s = (st, ps)" by fastforce
  show ?thesis
  proof (cases "propagate_consequences st offender severity now")
    case (Inl e)
    then show ?thesis using assms by (simp add: on_misbehavior_def s)
  next
    case (Inr r)
    note off = propagate_parts(1) [OF Inr]
    have ps: "penalties_ok (snd (apply_penalty ps (pg_offender_penalty r)))"
      using assms fresh_for_offender [of offender severity now]
      by (auto simp: off s state_ok_def fresh_penalty_def intro: apply_penalty_ok)
    have tail: "state_ok (snd (and_then (try_each punish_sponsor s1 (pg_sponsor_penalties r))
        (\<lambda>_ (st, ps). (Inr r :: sponsorship_error + propagation_result, st, foldl record_warning ps (pg_warnings r)))))"
      if "state_ok s1" for s1
    proof (rule and_then_keeps [where P = state_ok])
      show "state_ok (snd (try_each punish_sponsor s1 (pg_sponsor_penalties r)))"
        by (rule try_each_keeps [where P = state_ok, OF that])
          (rule punish_sponsor_ok, assumption, rule fresh_sponsor_penalties [OF Inr])
    qed (auto simp: state_ok_def penalties_ok_def)
    have mark: "state_ok (snd (lift_store (set_penalty st1 offender t) ps1))"
      "state_ok (snd (lift_store (update_status st1 offender Revoked) ps1))"
      if "spons_ok st1" "penalties_ok ps1" for t st1 ps1
      using that by (simp_all add: state_ok_def lift_store_def set_penalty_ok update_status_ok)
    show ?thesis unfolding on_misbehavior_def s prod.case Inr sum.case
      by (rule and_then_keeps [where P = state_ok])
        (use assms ps in \<open>auto simp: s lift_penalty_def state_ok_def [of "(_, _)"] intro!: and_then_keeps [where P = state_ok] mark tail\<close>)
  qed
qed


lemma adoption_ok:
  assumes ok: "spons_ok st" and valid: "validate_adoption r st now = Inr ()"
  shows "spons_ok (snd (execute_adoption r st))"
proof -
  obtain a s where a: "ss_get st (ar_adopter r) = Some a" and s: "ss_get st (ar_orphan r) = Some s" "sr_status s = Orphaned"
    using valid by (auto simp: validate_adoption_def split: option.splits if_splits)
  then have "\<not> sr_is_genesis s" using spons_okD [OF ok s(1)] by (simp add: record_ok_def)
  from clear_orphan_ok [OF ok s(1) this] show ?thesis
    unfolding execute_adoption_def s(1) a option.case Let_def by (intro and_then_keeps [where P = spons_ok]) simp_all
qed

lemma orphan_sponsee_ok: "spons_ok (fst acc) \<Longrightarrow> spons_ok (fst (snd (orphan_sponsee now acc i)))"
  using set_orphan_ok [of "fst acc" i now]
  by (cases acc) (auto simp: orphan_sponsee_def split: option.splits sum.splits prod.splits)

lemma cascade_ok:
  assumes "spons_ok st"
  shows "spons_ok (snd (apply_cascade_protection st i now))"
proof -
  have "spons_ok (fst (snd (try_each (orphan_sponsee now) (st, []) (get_sponsees st i))))"
    by (rule try_each_keeps [where P = "\<lambda>a. spons_ok (fst a)"]) (simp_all add: assms orphan_sponsee_ok)
  then show ?thesis by (auto simp: apply_cascade_protection_def split: prod.splits sum.splits)
qed

lemma scan_sponsorship_ok: "spons_ok (fst acc) \<Longrightarrow> spons_ok (fst (snd (scan_sponsorship f now acc s)))"
  using set_orphan_ok [of "fst acc" "sr_identity s" now]
  by (cases acc) (auto simp: scan_sponsorship_def split: option.splits sum.splits prod.splits)

lemma scan_ok:
  assumes "spons_ok st"
  shows "spons_ok (snd (scan_for_inactive_sponsors st now f))"
proof -
  have "spons_ok (fst (snd (try_each (scan_sponsorship f now) (st, []) (iter_all st))))"
    by (rule try_each_keeps [where P = "\<lambda>a. spons_ok (fst a)"]) (simp_all add: assms scan_sponsorship_ok)
  then show ?thesis by (auto simp: scan_for_inactive_sponsors_def split: prod.splits sum.splits)
qed

lemma recovery_ok:
  assumes "state_ok s"
  shows "state_ok (snd (apply_recovery_to_penalty s i ty contribution rate attestations now))"
  using assms apply_recovery_ok [of "snd s" i ty] set_penalty_ok [of "fst s" i]
  by (cases s) (auto simp: apply_recovery_to_penalty_def state_ok_def [of "(_, _)"] Let_def lift_store_def
      intro!: and_then_keeps [where P = state_ok] split: option.splits)

subsection \<open>Reachable states\<close>

text \<open>
  The operations on the two stores. The rule \<open>stored\<close> is a put of an active record of any content: the RPC methods
  that register an identity put such records themselves, and so does the application of the actions of a
  block.
\<close>

inductive spons_step :: "spons_state \<Rightarrow> spons_state \<Rightarrow> bool" where
  genesis: "spons_step (st, ps) (snd (register_genesis_identity mode verify st c now), ps)"
| sponsored: "spons_step (st, ps) (snd (register_sponsored_identity st c d), ps)"
| stored: "sr_status r = Active \<Longrightarrow> spons_step (st, ps) (snd (ss_put st r), ps)"
| misbehaved: "spons_step s (snd (on_misbehavior s i severity now))"
| recovered: "spons_step s (snd (apply_recovery_to_penalty s i ty contribution rate attestations now))"
| forgiven: "spons_step (st, ps) (snd (clear_penalty st i), ps)"
| expired: "spons_step (st, ps) (st, fst (remove_expired_penalties ps now))"
| adopted: "validate_adoption r st now = Inr () \<Longrightarrow> spons_step (st, ps) (snd (execute_adoption r st), ps)"
| cascaded: "spons_step (st, ps) (snd (apply_cascade_protection st i now), ps)"
| scanned: "spons_step (st, ps) (snd (scan_for_inactive_sponsors st now last_active), ps)"
| scored: "spons_step (st, ps) (snd (update_contribution_score st i score), ps)"
| scoped: "spons_step (st, ps) (set_scope st i x, ps)"
| unscoped: "spons_step (st, ps) (remove_scope st i, ps)"

lemma spons_step_ok: "spons_step s t \<Longrightarrow> state_ok s \<Longrightarrow> state_ok t"
  by (induction rule: spons_step.induct)
    (auto simp: on_misbehavior_ok recovery_ok,
     simp_all add: state_ok_def register_genesis_ok register_sponsored_ok ss_put_ok clear_penalty_ok remove_expired_ok
       adoption_ok cascade_ok scan_ok update_score_ok scope_ok)

interpretation sponsorship: stepping_component "\<lambda>s. s = (ss_empty, ps_empty)" spons_step state_ok
proof
  show "state_ok s" if "s = (ss_empty, ps_empty)" for s
    using that by (simp add: state_ok_def spons_ok_empty penalties_ok_def get_penalties_def ps_empty_def)
  show "state_ok t" if "state_ok s" "spons_step s t" for s t
    using that spons_step_ok by blast
qed

end
