(* ===== verification/Spons_Props.thy ===== *)
theory Spons_Props
  imports Spons_Correct
begin

text \<open>
  What the sponsorship system guarantees and where it does not: the size of a penalty at each hop, its
  expiry, recovery and cooldown, and states in which a revoked identity acts again, one genesis identity
  creates others, or the tree of sponsors has a cycle.
\<close>

subsection \<open>Reachable states\<close>

text \<open>
  C22. In every state the sponsorship system reaches, each record is filed under its identity, a genesis
  identity has no sponsor and depth 0 and every other identity has a sponsor whose list of sponsees names
  it, once; an orphaned identity is listed as such since the time it was orphaned; and an identity has at
  most one penalty of each type, which ends no later than it was first given.
\<close>

theorem reachable_sponsorship_ok:
  assumes "spons_step\<^sup>*\<^sup>* (ss_empty, ps_empty) (st, ps)"
  shows "(ss_get st i = Some s \<longrightarrow>
      sr_identity s = i \<and> (sr_is_genesis s \<longleftrightarrow> sr_sponsor s = None) \<and> (sr_is_genesis s \<longrightarrow> sr_depth s = 0) \<and>
      (\<forall>p. sr_sponsor s = Some p \<longrightarrow> i \<in> set (get_sponsees st p)) \<and>
      (sr_status s = Orphaned \<longrightarrow> (\<exists>t. sr_orphaned_at s = Some t \<and> (i, t) \<in> set (get_orphans st)))) \<and>
    distinct (get_sponsees st i) \<and> distinct (map pn_type (get_penalties ps i)) \<and>
    (\<forall>p \<in> set (get_penalties ps i). pn_identity p = i \<and> pn_current_expires_at p \<le> pn_base_expires_at p)"
proof -
  have "state_ok (st, ps)" using sponsorship.good_reachable [OF _ assms] by simp
  then have ok: "spons_ok st" and pok: "penalties_ok ps" by (simp_all add: state_ok_def)
  have "(j, t) \<in> set (get_orphans st)" if "tree_get (ss_orphans st) j = Some t" for j t
    using that by (auto simp: get_orphans_def tree_get_def dest: map_of_SomeD)
  then have "\<exists>t. sr_orphaned_at s = Some t \<and> (i, t) \<in> set (get_orphans st)"
    if "ss_get st i = Some s" "sr_status s = Orphaned"
    using spons_okD [OF ok that(1)] that(2) by (auto simp: record_ok_def)
  moreover have "distinct (get_sponsees st i)" using ok by (simp add: spons_ok_def)
  moreover have "distinct (map pn_type (get_penalties ps i)) \<and>
      (\<forall>p \<in> set (get_penalties ps i). pn_identity p = i \<and> pn_current_expires_at p \<le> pn_base_expires_at p)"
    using pok by (simp add: penalties_ok_def penalty_ok_def)
  ultimately show ?thesis using spons_okD [OF ok, of i s]
    by (auto simp: record_ok_def validate_invariants_ok split: if_splits)
qed

subsection \<open>Penalties at each hop\<close>

text \<open>The duration in seconds before the multipliers.\<close>

definition hop_base :: "misbehavior_severity \<Rightarrow> nat \<Rightarrow> nat" where
  "hop_base severity hop =
     (if hop = 1 then (case severity of NoMisbehavior \<Rightarrow> 0 | Spam \<Rightarrow> 7 | Abuse \<Rightarrow> 30 | Illegal \<Rightarrow> 90)
      else if hop = 2 then (case severity of NoMisbehavior \<Rightarrow> 0 | Spam \<Rightarrow> 0 | Abuse \<Rightarrow> 7 | Illegal \<Rightarrow> 30)
      else 0) * 86400"

lemma scaled_duration:
  assumes "n * 2 ^ k < 2 ^ 53"
  shows "float_to_u64 (f64_round (f64_round (of_nat (n * 2 ^ k)) * (1 / 2 ^ k))) = word_of_nat n"
proof -
  have n: "n < 2 ^ 53" using assms by (metis le_less_trans mult.right_neutral mult_le_mono2 one_le_numeral one_le_power)
  have "f64_round (of_nat (n * 2 ^ k)) * (1 / 2 ^ k) = (of_nat n :: rat)"
    using f64_round_nat [OF assms] by simp
  then show ?thesis using f64_round_nat [OF n] float_to_u64_nat [of n] n by simp
qed


lemmas scaled_durations =
  scaled_duration [of 604800 0, simplified] scaled_duration [of 151200 2, simplified]
  scaled_duration [of 302400 1, simplified] scaled_duration [of 75600 3, simplified]
  scaled_duration [of 2592000 0, simplified] scaled_duration [of 648000 2, simplified]
  scaled_duration [of 1296000 1, simplified] scaled_duration [of 324000 3, simplified]
  scaled_duration [of 7776000 0, simplified] scaled_duration [of 1944000 2, simplified]

lemma multipliers: "f32_round 1 = 1" "f32_round (1 / 2) = 1 / 2" "f32_round (1 / 4) = 1 / 4" "f32_round (1 / 8) = 1 / 8"
  using f32_round_power [of 0] f32_round_power [of 1] f32_round_power [of 2] f32_round_power [of 3] by simp_all

lemma word_hop: "h < 256 \<Longrightarrow> (word_of_nat h = (1 :: u8) \<longleftrightarrow> h = 1) \<and> (word_of_nat h = (2 :: u8) \<longleftrightarrow> h = 2)"
  by (auto simp: word_unat_eq_iff unat_of_nat)

lemma consequence_hop1:
  assumes "severity \<noteq> NoMisbehavior" and "j = 0 \<or> j = 2"
  shows "consequence offender severity (1 / 2 ^ j) now (1, sponsor) =
    Some (for_sponsor sponsor offender severity 1 (word_of_nat (max 86400 (hop_base severity 1 div 2 ^ j))) now)"
  using assms
  by (cases severity; elim disjE)
    (simp_all add: consequence_def Let_def get_hop_decay_def compute_sponsor_penalty_def multipliers penalty_constants
      scaled_durations hop_base_def max_def)

lemma consequence_hop2:
  assumes "severity \<noteq> NoMisbehavior" and "j = 0 \<or> j = 2"
  shows "consequence offender severity (1 / 2 ^ j) now (2, sponsor) =
    (if severity = Spam then None
     else Some (for_sponsor sponsor offender severity 2 (word_of_nat (max 86400 (hop_base severity 2 div 2 ^ Suc j))) now))"
  using assms
  by (cases severity; elim disjE)
    (simp_all add: consequence_def Let_def get_hop_decay_def compute_sponsor_penalty_def multipliers penalty_constants
      scaled_durations hop_base_def max_def)

lemma consequence_far:
  assumes "2 < h" "h < 256"
  shows "consequence offender severity probation now (h, sponsor) = None"
  using word_hop [OF assms(2)] assms(1) by (simp add: consequence_def get_hop_decay_def)


lemma length_path_loop: "length (path_loop st n i) \<le> n"
  by (induction n arbitrary: i) (auto split: option.splits)

lemma length_path: "length (get_path_to_genesis st i) \<le> 256"
  using length_path_loop [of st MAX_PATH_DEPTH i] by (simp add: get_path_to_genesis_def MAX_PATH_DEPTH_def)

lemma path_Cons:
  "get_path_to_genesis st i = i # (case ss_get st i of None \<Rightarrow> []
     | Some s \<Rightarrow> if sr_is_genesis s then [] else case sr_sponsor s of Some p \<Rightarrow> path_loop st 255 p | None \<Rightarrow> [])"
proof -
  have m: "MAX_PATH_DEPTH = Suc 255" by (simp add: MAX_PATH_DEPTH_def)
  show ?thesis unfolding get_path_to_genesis_def m path_loop.simps by (rule refl)
qed

lemma sponsors_of_path:
  assumes "get_path_to_genesis st i = i # rest"
  shows "drop 1 (zip [0 ..< length (get_path_to_genesis st i)] (get_path_to_genesis st i)) = zip [1 ..< Suc (length rest)] rest"
  using assms by (simp add: upt_conv_Cons [of 0] del: upt_Suc)

lemma far_sponsors:
  assumes "2 < n" "n + length l \<le> 256"
  shows "List.map_filter (consequence offender severity probation now) (zip [n ..< n + length l] l) = [] \<and>
    filter (\<lambda>e. consequence offender severity probation now e = None) (zip [n ..< n + length l] l) = zip [n ..< n + length l] l"
  using assms
proof (induction l arbitrary: n)
  case (Cons x l)
  have u: "[n ..< n + length (x # l)] = n # [Suc n ..< Suc n + length l]" by (simp add: upt_conv_Cons del: upt_Suc)
  have "consequence offender severity probation now (n, x) = None" using Cons.prems by (intro consequence_far) simp_all
  with Cons.IH [of "Suc n"] Cons.prems show ?case unfolding u by (simp add: List.map_filter_simps)
qed (simp add: List.map_filter_simps)

lemma probation_power: "probation_factor st i = 1 / 2 ^ (if probation_factor st i = 1 then 0 else 2)"
  by (auto simp: probation_factor_def split: option.splits if_splits)

lemma propagate_result:
  assumes r: "propagate_consequences st offender severity now = Inr r"
    and path: "get_path_to_genesis st offender = offender # rest"
    and j: "j = (if probation_factor st offender = 1 then 0 else 2)"
  shows "pg_sponsor_penalties r =
      map (\<lambda>a. for_sponsor a offender severity 1 (word_of_nat (max 86400 (hop_base severity 1 div 2 ^ j))) now) (take 1 rest) @
      map (\<lambda>b. for_sponsor b offender severity 2 (word_of_nat (max 86400 (hop_base severity 2 div 2 ^ Suc j))) now)
        (if severity = Spam then [] else take 1 (drop 1 rest)) \<and>
    map wn_identity (pg_warnings r) = drop (if severity = Spam then 1 else 2) rest"
proof -
  have pf: "probation_factor st offender = 1 / 2 ^ j" "j = 0 \<or> j = 2"
    using probation_power [of st offender] by (simp_all add: j)
  note h = propagate_parts(4) [OF r]
  note h1 = consequence_hop1 [OF h pf(2)] and h2 = consequence_hop2 [OF h pf(2)]
  have len: "length rest \<le> 255" using length_path [of st offender] path by simp
  note parts = propagate_parts(2,3) [OF r, unfolded sponsors_of_path [OF path] note_sponsors pf(1)]
  have w: "wn_identity (warning_of offender severity now e) = snd e" for e by (simp add: warning_of_def)
  consider "rest = []" | a where "rest = [a]" | a b l where "rest = a # b # l" by (metis list.exhaust)
  then show ?thesis
  proof cases
    case 3
    have u: "zip [1 ..< Suc (length rest)] rest = (1, a) # (2, b) # zip [3 ..< 3 + length l] l"
      by (simp add: 3 upt_conv_Cons numeral_3_eq_3 numeral_2_eq_2 del: upt_Suc)
    have n: "(2 :: nat) < 3" "3 + length l \<le> 256" using len 3 by simp_all
    show ?thesis using parts unfolding u
      by (simp add: List.map_filter_simps h1 [simplified] h2 far_sponsors [OF n] w comp_def map_snd_zip 3 split: if_splits)
  qed (use parts in \<open>auto simp: List.map_filter_simps h1 [simplified] upt_conv_Cons\<close>)
qed

lemma propagate_succeeds: "severity \<noteq> NoMisbehavior \<Longrightarrow> \<exists>r. propagate_consequences st offender severity now = Inr r"
  by (auto simp: propagate_consequences_def is_propagating_def Let_def split: prod.splits)


subsection \<open>Expiry\<close>

text \<open>
  C24. To the outside a penalty store is a map from an identity and a type of penalty to the time it
  ends: applying a penalty raises one entry to the later of the two ends and changes no other, however
  many penalties were applied, recovered from or removed before.
\<close>

theorem penalty_expiry_max:
  assumes "spons_step\<^sup>*\<^sup>* (ss_empty, ps_empty) (st, ps)"
    and "apply_penalty ps new = (Inr (), ps')" and "pn_current_expires_at new = pn_base_expires_at new"
  shows "expiry ps' i ty =
    (if i = pn_identity new \<and> ty = pn_type new
     then Some (case expiry ps i ty of Some t \<Rightarrow> max t (pn_base_expires_at new) | None \<Rightarrow> pn_base_expires_at new)
     else expiry ps i ty)"
proof -
  have ok: "penalties_ok ps" using sponsorship.good_reachable [OF _ assms(1)] by (simp add: state_ok_def)
  have "penalty_ok (pn_identity new) new"
    using assms(2,3) by (auto simp: penalty_ok_def apply_penalty_def pn_validate_invariants_def rbind_ok split: sum.splits)
  from apply_penalty_list [OF ok this assms(3,2)] show ?thesis
    by (auto simp: expiry_def [of ps'] expiry_def [of ps i, symmetric] simp del: not_None_eq split: if_splits)
qed

subsection \<open>Recovery\<close>

text \<open>The rounded ratio of two byte counts reaches a threshold exactly when the counts do.\<close>

lemma contribution_ratio_ge:
  assumes c: "unat c < 2 ^ 53" and e: "0 < unat e" "unat e < 2 ^ 52" and k: "m = 3 \<or> m = 4"
  shows "of_nat m / 2 \<le> contribution_ratio c e \<longleftrightarrow> m * unat e \<le> 2 * unat c"
proof -
  have "unat e < 2 ^ 53" using e(2) by simp
  from rounded_ratio_ge [OF e k, of "unat c"] show ?thesis
    unfolding contribution_ratio_def f64_round_nat [OF c] f64_round_nat [OF \<open>unat e < 2 ^ 53\<close>] .
qed


lemma recovered_duration:
  assumes "d < 2 ^ 51"
  shows "float_to_u64 (f64_round (f64_round (of_nat d) / 2)) = word_of_nat (d div 2)"
    and "float_to_u64 (f64_round (f64_round (of_nat d) * (3 / 4))) = word_of_nat (3 * d div 4)"
proof -
  have d: "f64_round (of_nat d) = of_nat d" using assms by (intro f64_round_nat) simp
  have fl: "float_to_u64 (of_nat m / of_nat n) = word_of_nat (m div n)" if "m < 2 ^ 64" "0 < n" for m n :: nat
  proof -
    have "(of_nat m :: rat) < 2 ^ 64" using that(1) by (metis of_nat_less_iff of_nat_numeral of_nat_power)
    also have "\<dots> \<le> 2 ^ 64 * of_nat n" using that(2) by simp
    finally have "(of_nat m / of_nat n :: rat) < 2 ^ 64" using that(2) by (simp add: field_simps)
    moreover have "\<lfloor>of_nat m / of_nat n :: rat\<rfloor> = int (m div n)" by (metis floor_divide_of_nat_eq)
    ultimately show ?thesis by (auto simp: float_to_u64_def divide_le_0_iff)
  qed
  have x: "f64_round (of_int (int m) * 2 powi (- int k)) = of_nat m / 2 ^ k" if "m < 2 ^ 53" for m k :: nat
  proof -
    have "int m < 2 ^ 53" using that by (metis of_nat_less_iff of_nat_numeral of_nat_power)
    then have "is_float 53 (of_int (int m) * 2 powi (- int k))"
      unfolding is_float_def by (intro exI [of _ "int m"] exI [of _ "- int k"]) simp
    then have "f64_round (of_int (int m) * 2 powi (- int k)) = of_int (int m) * 2 powi (- int k)"
      unfolding f64_round_def by (rule float_round_exact) simp
    then show ?thesis by (simp add: power_int_minus divide_inverse)
  qed
  have "d < 2 ^ 53" using assms by simp
  have half: "f64_round (of_nat d / 2) = of_nat d / 2"
  proof -
    have "(of_nat d / 2 :: rat) = of_int (int d) * 2 powi (- int 1)" by (simp add: power_int_minus)
    with x [OF \<open>d < 2 ^ 53\<close>, of 1] show ?thesis by (simp only: power_one_right)
  qed
  have "f64_round (of_nat d * (3 / 4)) = of_nat (3 * d) / 2 ^ 2"
  proof -
    have "(of_nat d * (3 / 4) :: rat) = of_int (int (3 * d)) * 2 powi (- int 2)" by (simp add: power_int_minus)
    moreover have "3 * d < 2 ^ 53" using assms by simp
    ultimately show ?thesis using x by metis
  qed
  then have "float_to_u64 (f64_round (of_nat d * (3 / 4))) = float_to_u64 (of_nat (3 * d) / of_nat 4)"
    by (simp only: power2_eq_square of_nat_numeral) simp
  also have "\<dots> = word_of_nat (3 * d div 4)" using assms by (intro fl) simp_all
  finally show "float_to_u64 (f64_round (f64_round (of_nat d) * (3 / 4))) = word_of_nat (3 * d div 4)"
    unfolding d .
  have "float_to_u64 (of_nat d / of_nat 2) = word_of_nat (d div 2)" using assms by (intro fl) simp_all
  then show "float_to_u64 (f64_round (f64_round (of_nat d) / 2)) = word_of_nat (d div 2)"
    unfolding d half by simp
qed

text \<open>
  The floating-point computation of a recovery is exact: an identity with three attestations that has
  served one and a half times what was expected of it gets a quarter off its penalty, one that has served
  twice as much gets half off, and no one else gets anything, for all byte counts below \<open>2\<^sup>5\<^sup>2\<close>.
\<close>

theorem recovery_exact:
  assumes "\<not> pn_is_permanent p" and "pn_started_at p < now" "now < pn_base_expires_at p" and "0 < rate"
    and "unat rate * (unat now - unat (pn_started_at p)) = E" "E < 2 ^ 52" and "unat contribution < 2 ^ 53"
    and "unat (pn_base_expires_at p) - unat (pn_started_at p) = D" "D < 2 ^ 51"
  shows "unat (rc_new_expires_at (calculate_recovery p contribution rate attestations now)) =
    (if attestations < 3 \<or> 2 * unat contribution < 3 * E then unat (pn_current_expires_at p)
     else unat (pn_started_at p) + (if 2 * E \<le> unat contribution then D div 2 else 3 * D div 4))"
proof -
  let ?st = "pn_started_at p" and ?b = "pn_base_expires_at p"
  have order: "unat ?st < unat now" "unat now < unat ?b" using assms(2,3) by (simp_all add: word_less_nat_alt)
  have el: "unat (sat_sub now ?st) = unat now - unat ?st" "unat (sat_sub ?b ?st) = D"
    using assms(8) by (simp_all add: unat_sat_sub)
  then have el0: "sat_sub now ?st \<noteq> 0" using order(1) by (metis unat_0 zero_less_diff less_irrefl)
  define e where "e = sat_mul rate (sat_sub now ?st)"
  have e: "unat e = E" using assms(5,6) el(1) by (simp add: e_def sat_mul_def unat_word_ariths)
  have "0 < unat rate" using assms(4) by (simp add: word_less_nat_alt)
  then have E0: "0 < E" using order(1) by (simp flip: assms(5))
  have e0: "e \<noteq> 0" using e E0 by (metis unat_0 less_irrefl)
  have r2: "contribution_ratio contribution e \<ge> 2 \<longleftrightarrow> 2 * E \<le> unat contribution"
    and r3: "contribution_ratio contribution e \<ge> 3 / 2 \<longleftrightarrow> 3 * E \<le> 2 * unat contribution"
    using contribution_ratio_ge [OF assms(7), of e 4] contribution_ratio_ge [OF assms(7), of e 3] e E0 assms(6) by auto
  have dur: "word_of_nat n + ?st = word_of_nat (unat ?st + n) \<and> unat (min (sat_add ?st (word_of_nat n)) ?b) = unat ?st + n"
    if "n \<le> D" for n
  proof -
    have "unat (word_of_nat n :: u64) = n" using that assms(9) by (simp add: unat_of_nat)
    moreover have "unat ?st + n \<le> unat ?b" using that assms(8) order by linarith
    ultimately show ?thesis using unat_u64_less [of ?b]
      by (auto simp: min_def word_le_nat_alt unat_sat_add)
  qed
  have uD: "(unsigned (sat_sub ?b ?st) :: rat) = of_nat D" by (simp flip: el(2))
  have "\<not> ?b \<le> now" "rate \<noteq> 0" using assms(3,4) by auto
  then show ?thesis
    using assms(1) el0 e0 r2 r3 recovered_duration [OF assms(9)] dur [of "D div 2"] dur [of "3 * D div 4"]
    by (simp add: calculate_recovery_def Let_def no_recovery_def MIN_ATTESTATION_COUNT_def uD el flip: e_def)
qed

subsection \<open>Cooldown\<close>

definition rights_ok :: "rights_store \<Rightarrow> bool" where
  "rights_ok rs \<longleftrightarrow> (\<forall>i r. rs_get rs i = Some r \<longrightarrow> rr_identity r = i)"

definition last_sponsored :: "rights_store \<Rightarrow> pub_key \<Rightarrow> u64 option" where
  "last_sponsored rs i = Option.bind (rs_get rs i) rr_last"

definition apart :: "u64 \<Rightarrow> u64 \<Rightarrow> bool" where
  "apart s t \<longleftrightarrow> unat s + 3600 \<le> unat t"

lemma rs_get_put [simp]: "rs_get (rs_put rs r) i = (if i = rr_identity r then Some r else rs_get rs i)"
  by (simp add: rs_get_def rs_put_def)

lemma get_or_create_keeps:
  assumes "rights_ok rs" "get_or_create rs i now = (r, rs1)"
  shows "rights_ok rs1" "last_sponsored rs1 j = last_sponsored rs j" "rr_last r = last_sponsored rs i"
  using assms
  by (auto simp: get_or_create_def Let_def rights_ok_def last_sponsored_def rr_new_def split: option.splits if_splits)

lemma record_sponsorship_keeps:
  assumes "rights_ok rs"
  shows "rights_ok (record_sponsorship rs i now)"
    "last_sponsored (record_sponsorship rs i now) j = (if j = i then Some now else last_sponsored rs j)"
  using assms
  by (auto simp: record_sponsorship_def Let_def rights_ok_def last_sponsored_def rr_new_def rs_get_def split: option.splits if_splits)

lemma rs_can_sponsor_keeps:
  assumes "rights_ok rs" "rs_can_sponsor rs i now f = (info, rs1)"
  shows "rights_ok rs1" "last_sponsored rs1 j = last_sponsored rs j"
    "ci_can_sponsor info \<Longrightarrow> \<not> f i now \<and> (\<forall>t. last_sponsored rs i = Some t \<longrightarrow> sat_add t SPONSORSHIP_COOLDOWN_SECONDS \<le> now)"
proof -
  obtain r rs2 where g: "get_or_create rs i now = (r, rs2)" by fastforce
  note k = get_or_create_keeps [OF assms(1) g]
  show "rights_ok rs1" "last_sponsored rs1 j = last_sponsored rs j"
    using assms k by (auto simp: rs_can_sponsor_def g Let_def split: if_splits)
  show "\<not> f i now \<and> (\<forall>t. last_sponsored rs i = Some t \<longrightarrow> sat_add t SPONSORSHIP_COOLDOWN_SECONDS \<le> now)" if "ci_can_sponsor info"
    using assms(2) that k(3)
    by (auto simp: rs_can_sponsor_def g Let_def ci_denied_def is_cooldown_active_def split: if_splits)
qed

lemma registered_with_rights:
  assumes "rights_ok rs" and "register_sponsored_identity_with_rights (st, rs) c d False now = (res, st1, rs1)"
  shows "rights_ok rs1"
    and "last_sponsored rs1 j = (if ic_sponsor c = Some j \<and> res \<in> range Inr then Some now else last_sponsored rs j)"
    and "ic_sponsor c = Some p \<Longrightarrow> res \<in> range Inr \<Longrightarrow> last_sponsored rs p = Some t \<Longrightarrow>
      sat_add t SPONSORSHIP_COOLDOWN_SECONDS \<le> now"
proof -
  obtain info rs2 where g: "rs_can_sponsor rs (the (ic_sponsor c)) now (under_penalty_in st) = (info, rs2)" by fastforce
  note k = rs_can_sponsor_keeps [OF assms(1) g]
  show "rights_ok rs1" "last_sponsored rs1 j = (if ic_sponsor c = Some j \<and> res \<in> range Inr then Some now else last_sponsored rs j)"
    "ic_sponsor c = Some p \<Longrightarrow> res \<in> range Inr \<Longrightarrow> last_sponsored rs p = Some t \<Longrightarrow>
      sat_add t SPONSORSHIP_COOLDOWN_SECONDS \<le> now"
    using assms g k
    by (auto simp: register_sponsored_identity_with_rights_def record_sponsorship_keeps and_then_def Let_def
        split: option.splits if_splits sum.splits prod.splits)
qed

text \<open>The times at which a sponsor succeeds in a run of registrations.\<close>

fun sponsor_times :: "pub_key \<Rightarrow> spons_store \<times> rights_store \<Rightarrow> (identity_creation \<times> u8 \<times> u64) list \<Rightarrow> u64 list" where
  "sponsor_times p sts [] = []"
| "sponsor_times p sts ((c, d, now) # es) =
     (case register_sponsored_identity_with_rights sts c d False now of
        (Inl _, sts1) \<Rightarrow> sponsor_times p sts1 es
      | (Inr _, sts1) \<Rightarrow>
          if ic_sponsor c = Some p then now # sponsor_times p sts1 es else sponsor_times p sts1 es)"

lemma sponsor_times_run:
  assumes "rights_ok (snd sts)" "\<forall>(_, _, now) \<in> set es. unat now + 3600 < 2 ^ 64"
    and "\<And>t. last_sponsored (snd sts) p = Some t \<Longrightarrow> unat t + 3600 < 2 ^ 64"
  shows "sorted_wrt apart (case last_sponsored (snd sts) p of Some t \<Rightarrow> t # sponsor_times p sts es
    | None \<Rightarrow> sponsor_times p sts es)"
  using assms
proof (induction p sts es rule: sponsor_times.induct)
  case (2 p sts c d now es)
  obtain st rs where sts: "sts = (st, rs)" by fastforce
  obtain res st1 rs1 where r: "register_sponsored_identity_with_rights sts c d False now = (res, st1, rs1)"
    using prod_cases3 by blast
  note k = registered_with_rights [OF _ r [unfolded sts]]
  have ok: "rights_ok rs" "rights_ok rs1" using 2(4) k(1) sts by auto
  show ?case
  proof (cases "ic_sponsor c = Some p \<and> res \<in> range Inr")
    case False
    have last: "last_sponsored rs1 p = last_sponsored rs p" using k(2) [OF ok(1), of p] False by auto
    have times: "sponsor_times p sts ((c, d, now) # es) = sponsor_times p (st1, rs1) es"
      using r False by (auto split: sum.splits)
    have "sorted_wrt apart (case last_sponsored (snd (st1, rs1)) p of Some t \<Rightarrow> t # sponsor_times p (st1, rs1) es
      | None \<Rightarrow> sponsor_times p (st1, rs1) es)"
      using 2 r False last sts ok by (cases res) auto
    then show ?thesis unfolding times using last sts by simp
  next
    case True
    then obtain s where s: "res = Inr s" by auto
    have last: "last_sponsored rs1 p = Some now" using k(2) [OF ok(1), of p] True by simp
    have times: "sponsor_times p sts ((c, d, now) # es) = now # sponsor_times p (st1, rs1) es"
      using r s True by simp
    have "sorted_wrt apart (case last_sponsored (snd (st1, rs1)) p of Some t \<Rightarrow> t # sponsor_times p (st1, rs1) es
      | None \<Rightarrow> sponsor_times p (st1, rs1) es)"
      using r s True last ok 2(5) by (intro 2(2)) auto
    then have sorted: "sorted_wrt apart (now # sponsor_times p (st1, rs1) es)" using last by simp
    have "apart t now" if "last_sponsored rs p = Some t" for t
    proof -
      have "unat t + 3600 < 2 ^ 64" using 2(6) [of t] that sts by simp
      then show ?thesis using k(3) [OF ok(1) _ _ that] True
        by (auto simp: apart_def word_le_nat_alt unat_sat_add SPONSORSHIP_COOLDOWN_SECONDS_def min_def split: if_splits)
    qed
    then have "sorted_wrt apart (case last_sponsored rs p of Some t \<Rightarrow> t # now # sponsor_times p (st1, rs1) es
      | None \<Rightarrow> now # sponsor_times p (st1, rs1) es)"
      using sorted by (fastforce simp: apart_def split: option.splits)
    then show ?thesis unfolding times by (simp add: sts)
  qed
qed (simp split: option.splits)

text \<open>
  C25. When registrations run one after another, each from its check to its record, a sponsor that is no genesis
  identity has its successes at least an hour apart, in whatever order the registrations of different sponsors
  come and whatever clock each brings, as long as no clock is within an hour of the largest time.
\<close>

theorem sponsorship_cooldown:
  assumes "\<forall>(_, _, now) \<in> set es. unat now + 3600 < 2 ^ 64"
  shows "sorted_wrt (\<lambda>s t. unat s + 3600 \<le> unat t) (sponsor_times p (st, []) es)"
proof -
  have "rights_ok []" "last_sponsored [] p = None" by (simp_all add: rights_ok_def last_sponsored_def rs_get_def tree_get_def)
  from sponsor_times_run [of "(st, [])" es p] this assms have "sorted_wrt apart (sponsor_times p (st, []) es)" by simp
  then show ?thesis by (simp add: apart_def [abs_def])
qed


subsection \<open>The subtree of an identity\<close>

definition sponsees :: "spons_store \<Rightarrow> (pub_key \<times> pub_key) set" where
  "sponsees st = {(p, i). i \<in> set (get_sponsees st p)}"

lemma search_loop_fresh:
  "distinct (map fst (search_loop st queue visited)) \<and> fst ` set (search_loop st queue visited) \<inter> visited = {}"
  by (induction st queue visited rule: search_loop.induct) (auto simp: Let_def)

lemma u8_below_256: "\<not> MAX_PATH_DEPTH \<le> unat (d :: u8)"
  using unsigned_less [where 'a = nat and w = d] by (simp add: MAX_PATH_DEPTH_def)

lemma search_loop_sound:
  "x \<in> fst ` set (search_loop st queue visited) \<Longrightarrow> \<exists>y \<in> fst ` set queue. (y, x) \<in> (sponsees st)\<^sup>*"
proof (induction st queue visited arbitrary: x rule: search_loop.induct)
  case (2 st current depth queue visited)
  show ?case
  proof (cases "current \<in> visited")
    case True
    then show ?thesis using 2 by auto
  next
    case False
    note IH = 2(2) [OF False u8_below_256 refl]
    have "x = current \<or> (\<exists>y \<in> fst ` set queue \<union> set (get_sponsees st current). (y, x) \<in> (sponsees st)\<^sup>*)"
    proof (cases "x = current")
      case False
      then show ?thesis using 2(3) \<open>current \<notin> visited\<close> u8_below_256 IH [of x]
        by (fastforce simp: Let_def)
    qed simp
    then show ?thesis by (auto simp: sponsees_def intro: converse_rtrancl_into_rtrancl)
  qed
qed simp

lemma search_loop_closed:
  fixes st queue visited
  defines "V \<equiv> fst ` set (search_loop st queue visited) \<union> visited"
  shows "fst ` set queue \<subseteq> V \<and> (\<forall>x \<in> fst ` set (search_loop st queue visited). set (get_sponsees st x) \<subseteq> V)"
  unfolding V_def
proof (induction st queue visited rule: search_loop.induct)
  case (2 st current depth queue visited)
  show ?case
  proof (cases "current \<in> visited")
    case True
    then show ?thesis using 2 by auto
  next
    case False
    then show ?thesis using 2(2) [OF False u8_below_256 refl] u8_below_256
      by (auto simp: Let_def image_Un image_image)
  qed
qed simp

theorem search_subtree_set:
  "distinct (map fst (search_subtree st r)) \<and> fst ` set (search_subtree st r) = {i. (r, i) \<in> (sponsees st)\<^sup>+} - {r}"
proof -
  let ?q = "map (\<lambda>s. (s, 1)) (get_sponsees st r)" and ?V = "fst ` set (search_subtree st r)"
  have fresh: "distinct (map fst (search_subtree st r))" "r \<notin> ?V"
    using search_loop_fresh [of st ?q "{r}"] by (auto simp: search_subtree_def)
  have "(r, i) \<in> (sponsees st)\<^sup>+" if "i \<in> ?V" for i
    using search_loop_sound [of i st ?q "{r}"] that
    by (auto simp: search_subtree_def sponsees_def image_image intro: rtrancl_into_trancl2)
  moreover have "i \<in> insert r ?V" if "(r, i) \<in> (sponsees st)\<^sup>+" for i
    using that
  proof (induction rule: trancl_induct)
    case (base i)
    then show ?case using search_loop_closed [of ?q st "{r}"] by (auto simp: search_subtree_def sponsees_def image_image)
  next
    case (step i k)
    then show ?case using search_loop_closed [of ?q st "{r}"] by (auto simp: search_subtree_def sponsees_def image_image)
  qed
  ultimately show ?thesis using fresh by auto
qed

subsection \<open>Manufactured chains\<close>

lemma threshold_below: "LINEARITY_SCORE_THRESHOLD < 13421774 / 2 ^ 24"
proof -
  have "LINEARITY_SCORE_THRESHOLD \<le> f32_round (of_nat 13421773 / 2 ^ 24)"
    unfolding LINEARITY_SCORE_THRESHOLD_def by (rule f32_round_mono) simp
  also have "\<dots> = of_nat 13421773 / 2 ^ 24" by (rule f32_round_ratio) simp
  finally show ?thesis by simp
qed

lemma ratio_above_threshold:
  assumes "d < 256" "0 < b"
  shows "f32_round (f32_round (of_nat d) / f32_round (of_nat b)) > LINEARITY_SCORE_THRESHOLD \<longleftrightarrow> 4 * b < 5 * d"
proof (cases "4 * b < 5 * d")
  case True
  then have "b < 319" using assms(1) by simp
  have "(13421774 / 2 ^ 24 :: rat) \<le> of_nat d / of_nat b"
  proof -
    have "4 * b + 1 \<le> 5 * d" using True by simp
    then have "13421774 * b * 5 \<le> 2 ^ 24 * (5 * d)" using \<open>b < 319\<close> by simp
    then have "13421774 * b \<le> 2 ^ 24 * d" by simp
    then have "(of_nat (13421774 * b) :: rat) \<le> of_nat (2 ^ 24 * d)" by (rule of_nat_mono)
    then show ?thesis using assms(2) by (simp add: field_simps)
  qed
  then have "f32_round (of_nat 13421774 / 2 ^ 24) \<le> f32_round (of_nat d / of_nat b)" by (intro f32_round_mono) simp
  moreover have "f32_round (of_nat 13421774 / 2 ^ 24) = of_nat 13421774 / 2 ^ 24" by (rule f32_round_ratio) simp
  ultimately show ?thesis using threshold_below True assms(1) \<open>b < 319\<close> by (simp add: f32_round_nat)
next
  case False
  have d: "f32_round (of_nat d) = of_nat d" using assms(1) by (intro f32_round_nat) simp
  have "(of_nat d :: rat) / f32_round (of_nat b) \<le> 4 / 5"
  proof (cases "b < 2 ^ 24")
    case True
    have "(of_nat (5 * d) :: rat) \<le> of_nat (4 * b)" using False by (intro of_nat_mono) simp
    then show ?thesis using assms(2) by (simp add: f32_round_nat [OF True] field_simps)
  next
    case big: False
    have "f32_round (of_nat (2 ^ 23)) \<le> f32_round (of_nat b)" using big by (intro f32_round_mono of_nat_mono) simp
    then have "2 ^ 23 \<le> f32_round (of_nat b)" by (subst (asm) f32_round_nat) simp_all
    moreover have "(of_nat d :: rat) \<le> 255" using assms(1) of_nat_mono [of d 255] by simp
    ultimately show ?thesis by (simp add: field_simps)
  qed
  then have "f32_round (of_nat d / f32_round (of_nat b)) \<le> LINEARITY_SCORE_THRESHOLD"
    unfolding LINEARITY_SCORE_THRESHOLD_def by (rule f32_round_mono)
  then show ?thesis using False d by simp
qed

lemma linearity_above: "linearity_of d b > LINEARITY_SCORE_THRESHOLD \<longleftrightarrow> 4 * max 1 (unat b) < 5 * unat d"
proof -
  have "unat d < 256" using unsigned_less [where 'a = nat and w = d] by simp
  moreover have "unat (max b 1) = max 1 (unat b)" "0 < unat (max b 1)" by (auto simp: max_def word_le_nat_alt)
  ultimately show ?thesis unfolding linearity_of_def using ratio_above_threshold [of "unat d" "unat (max b 1)"] by metis
qed

text \<open>
  The detector flags an identity exactly when it is at depth 4 or more and either sponsors at most one
  identity itself or has fewer than five descendants for every four levels of its depth; the descendants are those of the
  sponsorship relation, each counted once, and the floating-point score decides exactly as the fractions do.
\<close>

theorem check_and_flag_exact:
  assumes "\<not> is_flagged d i" "cd_config d = chain_config_default" and "ss_get st i = Some s"
    and "card ({k. (i, k) \<in> (sponsees st)\<^sup>+} - {i}) = n" "n < 2 ^ 32" and "length (get_sponsees st i) < 2 ^ 32"
  shows "is_flagged (snd (check_and_flag d st i now)) i \<longleftrightarrow>
    4 \<le> sr_depth s \<and> (4 * max 1 n < 5 * unat (sr_depth s) \<or> length (get_sponsees st i) \<le> 1)"
proof -
  let ?v = "search_subtree st i"
  have len: "length ?v = n"
    using search_subtree_set [of st i] assms(4) distinct_card [of "map fst ?v"] by simp
  then have n: "unat (word_of_nat (length ?v) :: u32) = n" using assms(5) by (simp add: unat_of_nat)
  have l: "(word_of_nat (length (get_sponsees st i)) :: u32) \<le> 1 \<longleftrightarrow> length (get_sponsees st i) \<le> 1"
    using assms(6) by (simp add: word_le_nat_alt unat_of_nat)
  have "is_flagged (snd (check_and_flag d st i now)) i \<longleftrightarrow>
      is_flagged_with_config (cm_new i (sr_depth s) (word_of_nat (length ?v)) (count_sponsees st i)
        (f32_round (of_nat (unat (snd (calculate_subtree_metrics st i)))))) chain_config_default"
    using assms(1-3)
    by (simp add: check_and_flag_def calculate_linear_chain_metrics_def calculate_subtree_metrics_def Let_def is_flagged_def)
  also have "\<dots> \<longleftrightarrow> 4 \<le> sr_depth s \<and> (4 * max 1 n < 5 * unat (sr_depth s) \<or> length (get_sponsees st i) \<le> 1)"
    using linearity_above [of "sr_depth s" "word_of_nat (length ?v)", unfolded n] l
    by (auto simp: is_flagged_with_config_def cm_new_def Let_def chain_config_default_def LINEAR_CHAIN_MIN_DEPTH_def
        DEFAULT_MAX_LINEAR_BREADTH_def count_sponsees_def)
  finally show ?thesis .
qed

subsection \<open>A revocation that another identity lifts\<close>

definition has_status :: "pub_key \<Rightarrow> sponsorship_status \<Rightarrow> spons_state \<Rightarrow> bool" where
  "has_status i status s \<longleftrightarrow> (\<exists>r. ss_get (fst s) i = Some r \<and> sr_status r = status)"

lemma set_penalty_other:
  "ss_get (snd (set_penalty st i t)) j =
     (if j = i then map_option (\<lambda>s. s\<lparr>sr_penalty_until := Some t, sr_status := Restricted\<rparr>) (ss_get st i) else ss_get st j)"
  by (auto simp: set_penalty_def split: option.splits)

lemma punish_sponsor_keeps_restricted:
  "has_status a Restricted s \<Longrightarrow> has_status a Restricted (snd (punish_sponsor s p))"
  by (cases s; cases "apply_penalty (snd s) p")
    (auto simp: punish_sponsor_def has_status_def lift_penalty_def lift_store_def and_then_def set_penalty_other split: sum.splits)

lemma apply_penalty_valid: "pn_validate_invariants p = Inr () \<Longrightarrow> \<exists>ps1. apply_penalty ps p = (Inr (), ps1)"
  by (cases "stack_penalty p (get_penalties ps (pn_identity p))") (simp add: apply_penalty_def Let_def)

lemma valid_for_sponsor: "hop \<le> 2 \<Longrightarrow> pn_validate_invariants (for_sponsor a b severity hop d now) = Inr ()"
  by (auto simp: pn_validate_invariants_def for_sponsor_def Let_def reject_if_def)

lemma valid_for_offender: "pn_validate_invariants (for_offender a severity now) = Inr ()"
  by (auto simp: pn_validate_invariants_def for_offender_def reject_if_def split: misbehavior_severity.splits)

lemma punish_sponsor_restricts:
  assumes "pn_validate_invariants p = Inr ()" "ss_get (fst s) (pn_identity p) \<noteq> None"
  shows "\<exists>s'. punish_sponsor s p = (Inr (), s') \<and> has_status (pn_identity p) Restricted s'"
proof -
  obtain st ps where s: "s = (st, ps)" by fastforce
  obtain ps1 where "apply_penalty ps p = (Inr (), ps1)"
    using apply_penalty_valid [OF assms(1)] by blast
  then show ?thesis using assms(2)
    by (auto simp: s punish_sponsor_def has_status_def lift_penalty_def lift_store_def set_penalty_def)
qed


text \<open>
  A revocation does not last: when an identity that a revoked sponsor had introduced is punished for spam,
  the sponsor's own penalty overwrites the revocation, and the sponsor may act on the chain again.
\<close>

theorem revocation_overwritten:
  assumes b: "ss_get st b = Some rb" "\<not> sr_is_genesis rb" "sr_sponsor rb = Some a" and "a \<noteq> b"
    and a: "ss_get st a = Some ra" "sr_status ra = Revoked"
  shows "\<exists>r st' ps'. on_misbehavior (st, ps) b Spam now = (Inr r, st', ps') \<and>
    (\<exists>ra'. ss_get st' a = Some ra' \<and> sr_status ra' = Restricted) \<and> can_identity_act mode st' a"
proof -
  have path: "get_path_to_genesis st b = b # a # tl (path_loop st (Suc 254) a)"
    using b by (simp add: path_Cons numeral_eq_Suc)
  obtain r where r: "propagate_consequences st b Spam now = Inr r"
    using propagate_succeeds [of Spam st b now] by auto
  obtain d where sp: "pg_sponsor_penalties r = [for_sponsor a b Spam 1 d now]"
    using propagate_result [OF r path refl] by simp
  obtain ps1 where ps1: "apply_penalty ps (pg_offender_penalty r) = (Inr (), ps1)"
    using apply_penalty_valid [OF valid_for_offender [of b Spam now], of ps] propagate_parts(1) [OF r] by auto
  let ?mark = "if \<not> pn_is_permanent (pg_offender_penalty r)
    then lift_store (set_penalty st b (pn_current_expires_at (pg_offender_penalty r))) ps1
    else lift_store (update_status st b Revoked) ps1"
  have "fst ?mark = Inr () \<and> snd (snd ?mark) = ps1 \<and> ss_get (fst (snd ?mark)) a = Some ra"
    using b a \<open>a \<noteq> b\<close> by (simp add: lift_store_def set_penalty_def update_status_def)
  then have st1: "?mark = (Inr (), fst (snd ?mark), ps1)" "ss_get (fst (snd ?mark)) a = Some ra"
    by (simp_all only: prod_eq_iff fst_conv snd_conv)
  have a1: "pn_identity (for_sponsor a b Spam 1 d now) = a" by (simp add: for_sponsor_def Let_def)
  have "pn_validate_invariants (for_sponsor a b Spam 1 d now) = Inr ()" by (rule valid_for_sponsor) simp
  then obtain s' where s': "punish_sponsor (fst (snd ?mark), ps1) (for_sponsor a b Spam 1 d now) = (Inr (), s')" "has_status a Restricted s'"
    using punish_sponsor_restricts [of _ "(fst (snd ?mark), ps1)"] a1 st1(2) by fastforce
  have "on_misbehavior (st, ps) b Spam now = (Inr r, fst s', foldl record_warning (snd s') (pg_warnings r))"
    unfolding on_misbehavior_def prod.case r sum.case ps1 lift_penalty_def fst_conv snd_conv and_then_Inr
    by (subst st1(1)) (simp add: s'(1) sp case_prod_beta)
  then show ?thesis using s'(2) by (auto simp: has_status_def can_identity_act_def)
qed

subsection \<open>Genesis identities without a threshold\<close>

text \<open>
  The threshold of two thirds counts attestations, not attesters: one genesis identity that attests often
  enough admits a further genesis identity alone, and while no slot is taken no attestation is needed.
\<close>

theorem genesis_threshold_counts_repeats:
  assumes "ic_genesis_proof c = Some p" "gp_proof_type p = MultiSigThreshold" "unat (gp_slot_number p) < 100"
    and "gp_attestations p = replicate (calculate_required_attestations (count_active_genesis st)) a"
    and "\<not> is_slot_claimed st (gp_slot_number p)"
    and "count_active_genesis st = 0 \<or> ss_is_genesis st (ga_attester a) \<and>
      verify (ga_attester a) (ga_signing_bytes (ic_new_identity c) (gp_slot_number p) (ga_timestamp a)) (ga_signature a)"
  shows "\<exists>s st'. register_genesis_identity mode verify st c now = (Inr s, st') \<and>
    ss_is_genesis st' (ic_new_identity c) \<and> can_identity_act mode st' (ic_new_identity c)"
proof -
  have slot: "validate_slot p = Inr ()"
    using assms(3) by (simp add: validate_slot_def reject_if_def MAX_GENESIS_IDENTITIES_def word_le_nat_alt)
  have each: "for_each f (replicate n a) = Inr ()" if "n = 0 \<or> f a = Inr ()" for f :: "_ \<Rightarrow> sponsorship_error outcome" and n
    using that by (induction n) (auto simp: rbind_def)
  have "calculate_required_attestations (count_active_genesis st) = 0 \<or> count_active_genesis st \<noteq> 0"
    by (auto simp: calculate_required_attestations_def)
  then have "verify_genesis_creation verify c now (is_slot_claimed st) (is_in_hardcoded_genesis_list mode)
      (count_active_genesis st) (ss_is_genesis st) = Inr ()"
    using assms slot by (auto simp: verify_genesis_creation_def rbind_def reject_if_def verify_genesis_attestation_def intro!: each)
  moreover obtain st1 where "claim_genesis_slot st (gp_slot_number p) (ic_new_identity c) = (Inr (), st1)"
    using assms(5) by (auto simp: claim_genesis_slot_def is_slot_claimed_def get_genesis_at_slot_def)
  ultimately show ?thesis using assms(1)
    by (auto simp: register_genesis_identity_def Let_def ss_put_def sr_validate_invariants_def rbind_def reject_if_def
        ss_is_genesis_def can_identity_act_def)
qed

subsection \<open>Adoption by a descendant\<close>

primrec alternate :: "nat \<Rightarrow> 'a \<Rightarrow> 'a \<Rightarrow> 'a list" where
  "alternate 0 a b = []"
| "alternate (Suc n) a b = a # alternate n b a"

lemma path_cycle:
  assumes "ss_get st a = Some ra" "\<not> sr_is_genesis ra" "sr_sponsor ra = Some b"
    and "ss_get st b = Some rb" "\<not> sr_is_genesis rb" "sr_sponsor rb = Some a"
  shows "path_loop st n a = alternate n a b \<and> path_loop st n b = alternate n b a"
  using assms by (induction n) simp_all

lemma alternate_set: "length (alternate n a b) = n \<and> set (alternate n a b) \<subseteq> {a, b}"
  by (induction n arbitrary: a b) auto

text \<open>
  An orphan may be adopted by an identity it sponsored itself. The two then sponsor each other, the path
  of either to a genesis identity runs its full 256 steps between the two and meets no genesis identity.
\<close>

theorem adoption_by_sponsee_cuts_off:
  assumes valid: "validate_adoption r st now = Inr ()" and "ar_adopter r \<noteq> ar_orphan r"
    and "ss_get st (ar_adopter r) = Some rb" "\<not> sr_is_genesis rb" "sr_sponsor rb = Some (ar_orphan r)"
    and orphan: "ss_get st (ar_orphan r) = Some ra" "\<not> sr_is_genesis ra"
  shows "\<exists>res st'. execute_adoption r st = (Inr res, st') \<and>
    length (get_path_to_genesis st' (ar_orphan r)) = 256 \<and>
    (\<forall>i \<in> set (get_path_to_genesis st' (ar_orphan r)). \<not> ss_is_genesis st' i)"
proof -
  let ?a = "ar_orphan r" and ?b = "ar_adopter r"
  obtain res st' where e: "execute_adoption r st = (Inr res, st')"
    and a': "ss_get st' ?a = Some (ra\<lparr>sr_status := Active, sr_orphaned_at := None, sr_sponsor := Some ?b,
      sr_depth := u8_sat_add (sr_depth rb) 1, sr_penalty_until := None\<rparr>)" and b': "ss_get st' ?b = Some rb"
    using assms by (simp add: execute_adoption_def Let_def clear_orphan_status_def)
  have "get_path_to_genesis st' ?a = alternate 256 ?a ?b"
    unfolding get_path_to_genesis_def MAX_PATH_DEPTH_def using path_cycle [OF a' _ _ b'] assms by simp
  with e show ?thesis using alternate_set [of 256 ?a ?b] a' b' assms
    by (intro exI [of _ res] exI [of _ st']) (auto simp: ss_is_genesis_def)
qed

subsection \<open>Registration of an identity that exists\<close>

text \<open>
  Registering an identity that exists replaces its record: a revoked identity is active again, without
  penalty, under the sponsor it names, whatever the state of that sponsor.
\<close>

theorem registration_replaces_record:
  assumes "ic_sponsor c = Some p" and "ss_get st (ic_new_identity c) = Some old" "sr_status old = Revoked"
  shows "\<exists>s st'. register_sponsored_identity st c d = (Inr s, st') \<and>
    ss_get st' (ic_new_identity c) = Some s \<and> sr_status s = Active \<and> sr_penalty_until s = None \<and> sr_sponsor s = Some p"
  using assms
  by (simp add: register_sponsored_identity_def Let_def ss_put_def sponsored_record_def sr_validate_invariants_def
      rbind_def reject_if_def)

subsection \<open>Examples\<close>

definition sample_creation :: "pub_key \<Rightarrow> pub_key \<Rightarrow> u64 \<Rightarrow> identity_creation" where
  "sample_creation i p t =
     \<lparr>ic_new_identity = i, ic_sponsor = Some p, ic_sponsor_signature = Some [],
      ic_pow_proof = \<lparr>ip_public_key = i, ip_timestamp = t, ip_nonce = 0, ip_pow_hash = []\<rparr>,
      ic_timestamp = t, ic_probationary = False, ic_genesis_proof = None\<rparr>"

definition sample_store :: "(pub_key \<times> pub_key \<times> u8) list \<Rightarrow> spons_store" where
  "sample_store l = foldl (\<lambda>st (i, p, d). snd (register_sponsored_identity st (sample_creation i p 100) d)) ss_empty l"

lemmas sample_simps =
  sample_store_def sample_creation_def register_sponsored_identity_def sponsored_record_def ss_put_def ss_write_def
  sr_validate_invariants_def rbind_def reject_if_def add_to_sponsee_list_def ss_empty_def Let_def and_then_def
  tree_get_def tree_insert_def ss_get_def get_sponsees_def u8_sat_add_def

lemma sample_reached: "spons_step\<^sup>*\<^sup>* (ss_empty, ps_empty) (sample_store l, ps_empty)"
proof (induction l rule: rev_induct)
  case (snoc e l)
  then show ?case
    by (cases e) (auto simp: sample_store_def intro: rtranclp.rtrancl_into_rtrancl spons_step.sponsored)
qed (simp add: sample_store_def)

theorem reachable_sponsorship_ok_witness:
  "spons_step\<^sup>*\<^sup>* (ss_empty, ps_empty) (sample_store [([2], [1], 0), ([3], [2], 1)], ps_empty) \<and>
   distinct (get_sponsees (sample_store [([2], [1], 0), ([3], [2], 1)]) [2]) \<and>
   get_sponsees (sample_store [([2], [1], 0), ([3], [2], 1)]) [2] = [[3]]"
proof (intro conjI)
  show "distinct (get_sponsees (sample_store [([2], [1], 0), ([3], [2], 1)]) [2])"
    using reachable_sponsorship_ok [OF sample_reached] by blast
qed (rule sample_reached, simp add: sample_simps)


text \<open>
  The check reserves nothing: two registrations of one sponsor whose checks both come before the first record
  both succeed, a second apart. The code holds no lock from the check to the record.
\<close>

theorem registration_race:
  "\<exists>i1 rs1 i2 rs2 s1 st1 s2 st2.
     rs_can_sponsor [] [1] 100 (under_penalty_in ss_empty) = (i1, rs1) \<and> ci_can_sponsor i1 \<and>
     rs_can_sponsor rs1 [1] 101 (under_penalty_in ss_empty) = (i2, rs2) \<and> ci_can_sponsor i2 \<and>
     register_sponsored_identity ss_empty (sample_creation [2] [1] 100) 0 = (Inr s1, st1) \<and>
     register_sponsored_identity st1 (sample_creation [3] [1] 101) 0 = (Inr s2, st2) \<and> get_sponsees st2 [1] = [[2], [3]]"
  by (simp add: sample_simps rs_can_sponsor_def get_or_create_def rs_get_def rs_put_def rr_new_def is_cooldown_active_def
      is_window_expired_def under_penalty_in_def sr_is_under_penalty_def ci_allowed_def ci_denied_def sat_add_def spons_constants)

theorem penalty_expiry_max_witness:
  "expiry (snd (apply_penalty ps_empty (for_offender [2] Spam 1000))) [2] RestrictedPosting = Some 605800"
proof -
  obtain ps where ps: "apply_penalty ps_empty (for_offender [2] Spam 1000) = (Inr (), ps)"
    using apply_penalty_valid [OF valid_for_offender] by blast
  have "expiry ps_empty i ty = None" for i ty
    by (simp add: expiry_def get_penalties_def ps_empty_def tree_get_def)
  then show ?thesis
    using penalty_expiry_max [OF sample_reached [of "[]"] ps, of "[2]" RestrictedPosting] ps
    by (simp add: for_offender_def penalty_constants)
qed

theorem recovery_exact_witness:
  "unat (rc_new_expires_at (calculate_recovery (for_offender [2] Spam 1000) 3000 1 3 3000)) = 1000 + 302400 + 151200"
  using recovery_exact [of "for_offender [2] Spam 1000" 3000 1 2000 3000 604800 3]
  by (simp add: for_offender_def penalty_constants pn_is_permanent_def)

theorem sponsorship_cooldown_witness:
  "sponsor_times [1] (ss_empty, []) [(sample_creation [2] [1] 100, 0, 100), (sample_creation [3] [1] 200, 0, 200),
     (sample_creation [4] [1] 3700, 0, 3700)] = [100, 3700] \<and>
   sorted_wrt (\<lambda>s t. unat s + 3600 \<le> unat t)
     (sponsor_times [1] (ss_empty, []) [(sample_creation [2] [1] 100, 0, 100), (sample_creation [3] [1] 200, 0, 200),
        (sample_creation [4] [1] 3700, 0, 3700)])"
proof
  show "sponsor_times [1] (ss_empty, []) [(sample_creation [2] [1] 100, 0, 100), (sample_creation [3] [1] 200, 0, 200),
     (sample_creation [4] [1] 3700, 0, 3700)] = [100, 3700]"
    by (simp add: sample_simps register_sponsored_identity_with_rights_def rs_can_sponsor_def get_or_create_def rs_get_def
        rs_put_def rr_new_def is_cooldown_active_def is_window_expired_def record_sponsorship_def under_penalty_in_def
        sr_is_under_penalty_def ci_allowed_def ci_denied_def sat_add_def spons_constants)
qed (rule sponsorship_cooldown, simp)


lemma sample_tree:
  "sponsees (sample_store [([2], [1], 3)]) = {([1], [2])}"
  by (auto simp: sponsees_def sample_simps split: if_splits)

theorem check_and_flag_exact_witness:
  "is_flagged (snd (check_and_flag \<lparr>cd_flags = [], cd_config = chain_config_default\<rparr> (sample_store [([2], [1], 3)]) [2] 100)) [2]"
proof -
  let ?st = "sample_store [([2], [1], 3)]"
  have none: "([2], k) \<notin> (sponsees ?st)\<^sup>+" for k
    by (auto simp: sample_tree dest: tranclD)
  have "ss_get ?st [2] = Some (sponsored_record (sample_creation [2] [1] 100) [1] 3)" by (simp add: sample_simps)
  from check_and_flag_exact [OF _ _ this, of "\<lparr>cd_flags = [], cd_config = chain_config_default\<rparr>" 0 100] show ?thesis
    by (simp add: none is_flagged_def tree_get_def sponsored_record_def u8_sat_add_def) (simp add: sample_simps)
qed

definition sample_revoked :: spons_store where
  "sample_revoked = snd (update_status (sample_store [([2], [1], 0), ([3], [2], 1)]) [2] Revoked)"

theorem revocation_overwritten_witness:
  "\<not> can_identity_act Mainnet sample_revoked [2] \<and>
   can_identity_act Mainnet (fst (snd (on_misbehavior (sample_revoked, ps_empty) [3] Spam 1000))) [2]"
proof -
  have b: "ss_get sample_revoked [3] = Some (sponsored_record (sample_creation [3] [2] 100) [2] 1)"
    and a: "ss_get sample_revoked [2] = Some ((sponsored_record (sample_creation [2] [1] 100) [1] 0)\<lparr>sr_status := Revoked\<rparr>)"
    by (simp_all add: sample_revoked_def update_status_def sample_simps)
  then show ?thesis
    using revocation_overwritten [OF b _ _ _ a, of ps_empty 1000 Mainnet]
    by (auto simp: can_identity_act_def is_in_hardcoded_genesis_list_def active_genesis_list_def MAINNET_GENESIS_LIST_def
        sponsored_record_def)
qed

definition sample_genesis :: "pub_key \<Rightarrow> u16 \<Rightarrow> genesis_attestation list \<Rightarrow> identity_creation" where
  "sample_genesis i slot l = (sample_creation i [] 100)\<lparr>ic_sponsor := None,
     ic_genesis_proof := Some \<lparr>gp_slot_number = slot, gp_proof_type = MultiSigThreshold, gp_proof_data = [], gp_attestations = l\<rparr>\<rparr>"

theorem genesis_threshold_counts_repeats_witness:
  "\<exists>s st'. register_genesis_identity Mainnet (\<lambda>_ _ _. False) ss_empty (sample_genesis [7] 0 []) 100 = (Inr s, st') \<and>
     ss_is_genesis st' [7] \<and> can_identity_act Mainnet st' [7]"
  using genesis_threshold_counts_repeats [of "sample_genesis [7] 0 []" _ ss_empty undefined "\<lambda>_ _ _. False" Mainnet 100]
  by (simp add: sample_genesis_def sample_creation_def count_active_genesis_def genesis_slot_count_def ss_empty_def
      calculate_required_attestations_def is_slot_claimed_def get_genesis_at_slot_def tree_get_def)

end
