(* ===== verification/Spons_Chain.thy ===== *)
theory Spons_Chain
  imports Spons_Router Spons_Props
begin

text \<open>
  The sponsorship records that blocks create: every one of them is signed for by its sponsor and descends
  from a hard-coded genesis identity, and a block that was applied in full is applied once. The order in
  which blocks are applied decides who sponsors whom, and the gate of a block trusts the grants in the
  block itself.
\<close>

subsection \<open>One action\<close>

text \<open>What an action must carry to create a record.\<close>

definition backs ::
  "network_mode \<Rightarrow> (bytes \<Rightarrow> bytes \<Rightarrow> bytes \<Rightarrow> bool) \<Rightarrow> action \<Rightarrow> stored_sponsorship \<Rightarrow> bool" where
  "backs mode verify a r \<longleftrightarrow>
     act_content_hash a = Some (sr_identity r) \<and>
     (act_type a = Sponsor \<and> sr_sponsor r = Some (act_actor a) \<and>
        verify (act_actor a) (sponsor_sig_message (sr_identity r) (act_timestamp a) (sponsor_scope a)) (act_signature a) \<or>
      act_type a = GenesisRegister \<and> sr_sponsor r = None \<and> act_actor a = sr_identity r \<and>
        is_in_hardcoded_genesis_list mode (sr_identity r) \<and>
        verify (sr_identity r) (sr_identity r @ u64_be (act_timestamp a)) (act_signature a))"

definition may_sponsor :: "network_mode \<Rightarrow> spons_store \<Rightarrow> pub_key \<Rightarrow> bool" where
  "may_sponsor mode st p \<longleftrightarrow> is_in_hardcoded_genesis_list mode p \<or> (\<exists>r. ss_get st p = Some r \<and> sr_status r = Active)"

lemma chain_record_valid: "sponsor = None \<longrightarrow> d = 0 \<Longrightarrow> sr_validate_invariants (chain_record i sponsor t d) = Inr ()"
  by (simp add: validate_invariants_ok chain_record_def)

lemma ss_put_chain_record:
  assumes "sponsor = None \<longrightarrow> d = 0"
  obtains st1 where "ss_put st (chain_record i sponsor t d) = (Inr (), st1)"
    "\<And>j. ss_get st1 j = (if j = i then Some (chain_record i sponsor t d) else ss_get st j)"
proof -
  have "sr_identity (chain_record i sponsor t d) = i" "sr_sponsor (chain_record i sponsor t d) = sponsor"
    by (simp_all add: chain_record_def)
  then show ?thesis using that chain_record_valid [OF assms, of i t]
    by (cases sponsor) (auto simp: ss_put_def Let_def)
qed

lemma ss_get_scope [simp]: "ss_get (set_scope st i x) = ss_get st"
  by (simp add: set_scope_def)

definition adds_record ::
  "network_mode \<Rightarrow> (bytes \<Rightarrow> bytes \<Rightarrow> bytes \<Rightarrow> bool) \<Rightarrow> action \<Rightarrow> spons_store \<Rightarrow> spons_store \<Rightarrow> stored_sponsorship \<Rightarrow> bool" where
  "adds_record mode verify a st st1 r \<longleftrightarrow>
     ss_get st (sr_identity r) = None \<and> backs mode verify a r \<and> sr_status r = Active \<and>
     (\<forall>p. sr_sponsor r = Some p \<longrightarrow> may_sponsor mode st p) \<and>
     (\<forall>j. ss_get st1 j = (if j = sr_identity r then Some r else ss_get st j))"

lemma apply_sponsor_adds:
  assumes "apply_sponsor_action mode verify H st a i = (st1, b)" "act_type a = Sponsor" "act_content_hash a = Some i"
  shows "st1 = st \<or> b \<and> (\<exists>r. adds_record mode verify a st st1 r)"
proof (cases "st1 = st")
  case False
  define d where "d = (case ss_get st (act_actor a) of Some r \<Rightarrow> u8_sat_add (sr_depth r) 1 | None \<Rightarrow> 1)"
  define r where "r = chain_record i (Some (act_actor a)) (act_timestamp a) d"
  obtain st2 where put: "ss_put st r = (Inr (), st2)" "\<And>j. ss_get st2 j = (if j = i then Some r else ss_get st j)"
    unfolding r_def by (rule ss_put_chain_record [of "Some (act_actor a)" d]) auto
  have sp: "may_sponsor mode st (act_actor a)"
    and v: "verify (act_actor a) (sponsor_sig_message i (act_timestamp a) (sponsor_scope a)) (act_signature a)"
    and fresh: "\<not> ss_exists st i"
    and st1: "b" "st1 = (case sponsor_scope a of Some s \<Rightarrow> set_scope st2 i s | None \<Rightarrow> st2)"
    using False assms(1) put(1)
    by (auto simp: apply_sponsor_action_def Let_def d_def [symmetric] r_def [symmetric] may_sponsor_def split: if_splits option.splits)
  have "ss_get st1 = ss_get st2" by (simp add: st1(2) split: option.splits)
  then have "adds_record mode verify a st st1 r"
    using fresh put(2) sp v assms(2,3)
    by (auto simp: adds_record_def backs_def r_def chain_record_def ss_exists_def ss_get_def)
  with st1(1) show ?thesis by blast
qed simp

lemma apply_genesis_adds:
  assumes "apply_genesis_action mode verify st a i = (st1, b)" "act_type a = GenesisRegister" "act_content_hash a = Some i"
  shows "st1 = st \<or> b \<and> (\<exists>r. adds_record mode verify a st st1 r)"
proof (cases "st1 = st")
  case False
  define r where "r = chain_record i None (act_timestamp a) 0"
  obtain st2 where put: "ss_put st r = (Inr (), st2)" "\<And>j. ss_get st2 j = (if j = i then Some r else ss_get st j)"
    unfolding r_def by (rule ss_put_chain_record [of None 0]) auto
  have "act_actor a = i" "is_in_hardcoded_genesis_list mode i" "verify i (i @ u64_be (act_timestamp a)) (act_signature a)"
    "\<not> ss_exists st i" "b" "st1 = st2"
    using False assms(1) put(1) by (auto simp: apply_genesis_action_def r_def [symmetric] split: if_splits)
  then have "adds_record mode verify a st st1 r" using put(2) assms(2,3)
    by (auto simp: adds_record_def backs_def r_def chain_record_def ss_exists_def ss_get_def)
  with \<open>b\<close> show ?thesis by blast
qed simp

text \<open>An action leaves the store as it is or adds one record that it backs.\<close>

lemma apply_action_cases:
  assumes "apply_sponsorship_action mode verify H (st, fully) a = (st1, fully1)"
  shows "st1 = st \<or> (\<exists>r. adds_record mode verify a st st1 r)"
  using assms apply_sponsor_adds [of mode verify H st a] apply_genesis_adds [of mode verify st a]
  by (auto simp: apply_sponsorship_action_def split: action_type.splits option.splits prod.splits)

lemma apply_action_keeps:
  "apply_sponsorship_action mode verify H (st, fully) a = (st1, fully1) \<Longrightarrow> ss_get st i = Some r \<Longrightarrow> ss_get st1 i = Some r"
  using apply_action_cases [of mode verify H st fully a st1 fully1] by (auto simp: adds_record_def)

subsection \<open>All actions of the blocks\<close>

abbreviation apply_all where
  "apply_all mode verify H \<equiv> foldl (apply_sponsorship_action mode verify H)"

lemma apply_all_flag:
  "apply_all mode verify H (st, b) l = (fst (apply_all mode verify H (st, True) l), b \<and> snd (apply_all mode verify H (st, True) l))"
proof (induction l arbitrary: st b)
  case (Cons a l)
  obtain st1 b1 where "apply_sponsorship_action mode verify H (st, True) a = (st1, b1)" by fastforce
  moreover from this have "apply_sponsorship_action mode verify H (st, b) a = (st1, b \<and> b1)"
    by (auto simp: apply_sponsorship_action_def split: action_type.splits option.splits prod.splits)
  ultimately show ?case
    using Cons.IH [of st1 "b \<and> b1"] Cons.IH [of st1 b1] by simp
qed simp

lemma reconcile_apply_all:
  "reconcile_sponsorship mode verify H st blocks = apply_all mode verify H (st, True) (concat (map cb_actions blocks))"
proof -
  have "foldl (\<lambda>(st, fully) cb. case apply_sponsorship_actions mode verify H st cb of (st1, b) \<Rightarrow> (st1, fully \<and> b)) acc blocks =
      apply_all mode verify H acc (concat (map cb_actions blocks))" for acc
  proof (induction blocks arbitrary: acc)
    case (Cons cb blocks)
    obtain st b where acc: "acc = (st, b)" by fastforce
    have "(case apply_sponsorship_actions mode verify H st cb of (st1, b1) \<Rightarrow> (st1, b \<and> b1)) = apply_all mode verify H acc (cb_actions cb)"
      using apply_all_flag [of mode verify H st b "cb_actions cb"] by (simp add: acc apply_sponsorship_actions_def case_prod_beta)
    then show ?case using Cons.IH by (simp add: acc)
  qed simp
  then show ?thesis by (simp add: reconcile_sponsorship_def)
qed

text \<open>The application of a block is a run of the steps of the store, so the invariant of
  \<open>reachable_sponsorship_ok\<close> covers it.\<close>

lemma apply_action_steps:
  "spons_step\<^sup>*\<^sup>* (fst acc, ps) (fst (apply_sponsorship_action mode verify H acc a), ps)"
proof -
  have active: "sr_status (chain_record i sponsor t d) = Active" for i sponsor t d by (simp add: chain_record_def)
  have put: "spons_step\<^sup>*\<^sup>* (st, ps) (st1, ps)" if "ss_put st (chain_record i sponsor t d) = (r, st1)" for st st1 i sponsor t d r
    using spons_step.stored [OF active, of st ps i sponsor t d] that by (simp add: r_into_rtranclp)
  have "spons_step\<^sup>*\<^sup>* (st, ps) (fst (apply_sponsor_action mode verify H st a i), ps)" for st i
    by (auto simp: apply_sponsor_action_def Let_def intro: put rtranclp.rtrancl_into_rtrancl [OF put spons_step.scoped]
        split: sum.splits prod.splits option.splits)
  moreover have "spons_step\<^sup>*\<^sup>* (st, ps) (fst (apply_genesis_action mode verify st a i), ps)" for st i
    by (auto simp: apply_genesis_action_def intro: put split: sum.splits prod.splits)
  ultimately show ?thesis
    by (auto simp: apply_sponsorship_action_def case_prod_beta split: action_type.splits option.splits)
qed

lemma reconcile_steps:
  "spons_step\<^sup>*\<^sup>* (st, ps) (fst (reconcile_sponsorship mode verify H st blocks), ps)"
proof -
  have one: "spons_step\<^sup>*\<^sup>* (fst acc, ps) (fst (foldl (apply_sponsorship_action mode verify H) acc as), ps)" for acc as
    by (induction as rule: rev_induct) (auto intro: rtranclp_trans [OF _ apply_action_steps])
  from one [of "(st, True)" "concat (map cb_actions blocks)"] show ?thesis by (simp add: reconcile_apply_all)
qed

subsection \<open>Descent from the genesis identities\<close>

inductive rooted :: "network_mode \<Rightarrow> spons_store \<Rightarrow> pub_key \<Rightarrow> bool" for mode st where
  genesis_key: "is_in_hardcoded_genesis_list mode i \<Longrightarrow> rooted mode st i"
| sponsored: "ss_get st i = Some r \<Longrightarrow> sr_sponsor r = Some p \<Longrightarrow> rooted mode st p \<Longrightarrow> rooted mode st i"

lemma rooted_mono:
  assumes "rooted mode st i" "\<And>j r. ss_get st j = Some r \<Longrightarrow> ss_get st1 j = Some r"
  shows "rooted mode st1 i"
  using assms by (induction rule: rooted.induct) (auto intro: rooted.intros)

definition accounted ::
  "network_mode \<Rightarrow> (bytes \<Rightarrow> bytes \<Rightarrow> bytes \<Rightarrow> bool) \<Rightarrow> action set \<Rightarrow> spons_store \<Rightarrow> bool" where
  "accounted mode verify A st \<longleftrightarrow>
     (\<forall>i r. ss_get st i = Some r \<longrightarrow> sr_identity r = i \<and> rooted mode st i \<and> (\<exists>a \<in> A. backs mode verify a r))"

lemma accounted_step:
  assumes "accounted mode verify A st" "apply_sponsorship_action mode verify H (st, b) a = (st1, b1)"
  shows "accounted mode verify (insert a A) st1"
proof -
  consider "st1 = st" | r where "adds_record mode verify a st st1 r"
    using apply_action_cases [OF assms(2)] by blast
  then show ?thesis
  proof cases
    case 1
    then show ?thesis using assms(1) unfolding accounted_def by blast
  next
    case 2
    have mono: "rooted mode st j \<Longrightarrow> rooted mode st1 j" for j
      using rooted_mono apply_action_keeps [OF assms(2)] by blast
    have r: "ss_get st1 (sr_identity r) = Some r" "backs mode verify a r" using 2 by (simp_all add: adds_record_def)
    have "rooted mode st1 (sr_identity r)"
    proof (cases "sr_sponsor r")
      case None
      then show ?thesis using r(2) by (auto simp: backs_def intro: rooted.intros)
    next
      case (Some p)
      then have "rooted mode st1 p" using 2 assms(1) mono
        by (auto simp: adds_record_def may_sponsor_def accounted_def intro: rooted.genesis_key)
      then show ?thesis using r(1) Some by (blast intro: rooted.sponsored)
    qed
    then show ?thesis using 2 assms(1) mono r
      unfolding accounted_def by (auto simp: adds_record_def split: if_splits)
  qed
qed

lemma accounted_all:
  "accounted mode verify A st \<Longrightarrow> accounted mode verify (A \<union> set l) (fst (apply_all mode verify H (st, b) l))"
proof (induction l arbitrary: A st b)
  case (Cons a l)
  obtain st1 b1 where s: "apply_sponsorship_action mode verify H (st, b) a = (st1, b1)" by fastforce
  from Cons.IH [OF accounted_step [OF Cons.prems s], of b1] s show ?case by simp
qed simp

text \<open>
  C19. Whatever blocks a node applies and in whatever order, every identity in its sponsorship store was put
  there by an action in one of them: by its sponsor, whose signature over the new identity, the time and the
  scope verifies, or as a hard-coded genesis identity by itself. And every identity descends, sponsor by
  sponsor, from a hard-coded genesis identity.
\<close>

theorem chain_identities_accounted:
  assumes "reconcile_sponsorship mode verify H ss_empty blocks = (st, fully)" and "ss_get st i = Some r"
  shows "rooted mode st i \<and> (\<exists>cb \<in> set blocks. \<exists>a \<in> set (cb_actions cb). backs mode verify a r)"
proof -
  have "accounted mode verify {} ss_empty" by (simp add: accounted_def ss_get_def ss_empty_def tree_get_def)
  from accounted_all [OF this, of "concat (map cb_actions blocks)" H True] assms(1)
  have "accounted mode verify (set (concat (map cb_actions blocks))) st" by (simp add: reconcile_apply_all)
  with assms(2) show ?thesis by (auto simp: accounted_def)
qed

subsection \<open>Applying a block again\<close>

definition quiet ::
  "network_mode \<Rightarrow> (bytes \<Rightarrow> bytes \<Rightarrow> bytes \<Rightarrow> bool) \<Rightarrow> (bytes \<Rightarrow> hash32) \<Rightarrow> spons_store \<Rightarrow> action \<Rightarrow> bool" where
  "quiet mode verify H st a =
     (case (act_type a, act_content_hash a) of
        (Sponsor, Some i) \<Rightarrow>
          \<not> verify (act_actor a) (sponsor_sig_message i (act_timestamp a) (sponsor_scope a)) (act_signature a) \<or>
          may_sponsor mode st (act_actor a) \<and>
            (act_pow_work a > 0 \<and> pow_zero_bytes H a < act_pow_work a \<or> ss_get st i \<noteq> None)
      | (GenesisRegister, Some i) \<Rightarrow>
          act_actor a \<noteq> i \<or> \<not> is_in_hardcoded_genesis_list mode i \<or>
          \<not> verify i (i @ u64_be (act_timestamp a)) (act_signature a) \<or> ss_get st i \<noteq> None
      | _ \<Rightarrow> True)"

lemma ss_exists_get: "ss_exists st i \<longleftrightarrow> ss_get st i \<noteq> None"
  by (simp add: ss_exists_def ss_get_def)

lemma quiet_apply: "quiet mode verify H st a \<Longrightarrow> apply_sponsorship_action mode verify H (st, b) a = (st, b)"
  by (auto simp: quiet_def apply_sponsorship_action_def apply_sponsor_action_def apply_genesis_action_def ss_exists_get
      may_sponsor_def Let_def split: action_type.splits option.splits)

lemma quiet_mono:
  "quiet mode verify H st a \<Longrightarrow> (\<And>j r. ss_get st j = Some r \<Longrightarrow> ss_get st1 j = Some r) \<Longrightarrow> quiet mode verify H st1 a"
  by (fastforce simp: quiet_def may_sponsor_def split: action_type.splits option.splits)

lemma put_changes:
  assumes "ss_get st i = None" "sponsor = None \<longrightarrow> d = 0"
  shows "\<exists>st1. ss_put st (chain_record i sponsor t d) = (Inr (), st1) \<and> st1 \<noteq> st \<and> (\<forall>x. set_scope st1 i x \<noteq> st)"
proof -
  obtain st1 where "ss_put st (chain_record i sponsor t d) = (Inr (), st1)" "ss_get st1 i = Some (chain_record i sponsor t d)"
    using ss_put_chain_record [OF assms(2), of st i t] by metis
  moreover from this have "st1 \<noteq> st" "set_scope st1 i x \<noteq> st" for x
    using assms(1) ss_get_scope [of st1 i x] by auto
  ultimately show ?thesis by blast
qed

lemma unquiet_changes:
  assumes "\<not> quiet mode verify H st a"
  shows "apply_sponsorship_action mode verify H (st, True) a \<noteq> (st, True)"
proof -
  obtain i where i: "act_content_hash a = Some i" "act_type a = Sponsor \<or> act_type a = GenesisRegister"
    using assms by (auto simp: quiet_def split: action_type.splits option.splits)
  show ?thesis
    using i(2)
  proof
    assume ty: "act_type a = Sponsor"
    define d where "d = (case ss_get st (act_actor a) of Some r \<Rightarrow> u8_sat_add (sr_depth r) 1 | None \<Rightarrow> 1)"
    obtain st1 where st1: "ss_get st i = None \<Longrightarrow> ss_put st (chain_record i (Some (act_actor a)) (act_timestamp a) d) = (Inr (), st1) \<and>
        st1 \<noteq> st \<and> (\<forall>x. set_scope st1 i x \<noteq> st)"
      using put_changes [of st i "Some (act_actor a)" d] by fastforce
    have "apply_sponsor_action mode verify H st a i \<noteq> (st, True)"
      using assms st1 i(1) ty unfolding apply_sponsor_action_def Let_def d_def [symmetric]
      by (auto simp: quiet_def ss_exists_get may_sponsor_def split: option.splits if_splits)
    then show ?thesis using i(1) ty by (auto simp: apply_sponsorship_action_def split: prod.splits)
  next
    assume ty: "act_type a = GenesisRegister"
    have "apply_genesis_action mode verify st a i \<noteq> (st, True)"
      using assms put_changes [of st i None 0 "act_timestamp a"] i(1) ty
      by (auto simp: quiet_def apply_genesis_action_def ss_exists_get split: option.splits if_splits)
    then show ?thesis using i(1) ty by (auto simp: apply_sponsorship_action_def split: prod.splits)
  qed
qed

lemma applied_quiet:
  assumes "apply_sponsorship_action mode verify H (st, True) a = (st1, True)"
  shows "quiet mode verify H st1 a"
proof (cases "st1 = st")
  case True
  then show ?thesis
    using assms unquiet_changes by blast
next
  case False
  then obtain r where r: "adds_record mode verify a st st1 r" using apply_action_cases [OF assms] by blast
  have "may_sponsor mode st p \<Longrightarrow> may_sponsor mode st1 p" for p
    using apply_action_keeps [OF assms] by (auto simp: may_sponsor_def)
  then show ?thesis using r by (auto simp: quiet_def adds_record_def backs_def split: action_type.splits option.splits)
qed

lemma quiet_all:
  assumes "\<forall>a \<in> set l. quiet mode verify H st a"
  shows "apply_all mode verify H (st, b) l = (st, b)"
  using assms by (induction l) (simp_all add: quiet_apply)

lemma applied_all_quiet:
  assumes "apply_all mode verify H (st, True) l = (st1, True)"
  shows "(\<forall>a \<in> set l. quiet mode verify H st1 a) \<and> (\<forall>j r. ss_get st j = Some r \<longrightarrow> ss_get st1 j = Some r)"
  using assms
proof (induction l arbitrary: st)
  case (Cons a l)
  obtain st2 b where s: "apply_sponsorship_action mode verify H (st, True) a = (st2, b)" by fastforce
  have "apply_all mode verify H (st2, b) l = (st1, True)" using Cons.prems s by simp
  moreover from this have b: "b" using apply_all_flag [of mode verify H st2 b l] by simp
  ultimately have b: "b" "apply_all mode verify H (st2, True) l = (st1, True)" by simp_all
  note IH = Cons.IH [OF b(2)]
  have "quiet mode verify H st2 a" using s b(1) applied_quiet by simp
  then have "quiet mode verify H st1 a" by (rule quiet_mono) (use IH in blast)
  with IH show ?case using apply_action_keeps [OF s] by auto
qed simp

text \<open>
  C20. A block whose sponsorship actions were all applied can be applied again without any effect: the
  store stays as it is and the block still counts as applied. In between, records are only added.
\<close>

theorem reconcile_idempotent:
  assumes "reconcile_sponsorship mode verify H st blocks = (st1, True)"
  shows "reconcile_sponsorship mode verify H st1 blocks = (st1, True) \<and>
    (\<forall>i r. ss_get st i = Some r \<longrightarrow> ss_get st1 i = Some r)"
  using assms applied_all_quiet [of mode verify H st "concat (map cb_actions blocks)" st1]
    quiet_all [of "concat (map cb_actions blocks)" mode verify H st1 True]
  by (simp add: reconcile_apply_all)

subsection \<open>The order of application\<close>

definition grant_block :: "content_block \<Rightarrow> bytes \<Rightarrow> bytes \<Rightarrow> u64 \<Rightarrow> hash32 option \<Rightarrow> bytes \<Rightarrow> content_block" where
  "grant_block cb sponsor sponsee t scope sig =
     cb\<lparr>cb_actions := [new_sponsor_scoped_with_pow sponsor sponsee t scope sig 0 0 zero32]\<rparr>"

lemma apply_grant_block:
  assumes "verify sponsor (sponsor_sig_message sponsee t scope) sig" "may_sponsor mode st sponsor" "ss_get st sponsee = None"
  obtains st1 d where "apply_sponsorship_actions mode verify H st (grant_block cb sponsor sponsee t scope sig) = (st1, True)"
    "\<And>j. ss_get st1 j = (if j = sponsee then Some (chain_record sponsee (Some sponsor) t d) else ss_get st j)"
proof -
  define d where "d = (case ss_get st sponsor of Some r \<Rightarrow> u8_sat_add (sr_depth r) 1 | None \<Rightarrow> 1)"
  obtain st1 where st1: "ss_put st (chain_record sponsee (Some sponsor) t d) = (Inr (), st1)"
    "\<And>j. ss_get st1 j = (if j = sponsee then Some (chain_record sponsee (Some sponsor) t d) else ss_get st j)"
    by (rule ss_put_chain_record [of "Some sponsor" d]) auto
  define st2 where "st2 = (case scope of Some s \<Rightarrow> set_scope st1 sponsee s | None \<Rightarrow> st1)"
  have "\<not> \<not> (case ss_get st sponsor of Some r \<Rightarrow> sr_status r = Active \<or> is_in_hardcoded_genesis_list mode sponsor
      | None \<Rightarrow> is_in_hardcoded_genesis_list mode sponsor)"
    using assms(2) by (auto simp: may_sponsor_def split: option.splits)
  then have "apply_sponsorship_actions mode verify H st (grant_block cb sponsor sponsee t scope sig) = (st2, True)"
    using assms(1,3) st1(1)
    by (simp add: apply_sponsorship_actions_def grant_block_def apply_sponsorship_action_def apply_sponsor_action_def Let_def
        new_sponsor_scoped_with_pow_def sponsor_scope_def ss_exists_get d_def [symmetric] st2_def split: option.splits)
  moreover have "ss_get st2 = ss_get st1" by (simp add: st2_def split: option.splits)
  ultimately show ?thesis using that st1(2) by metis
qed

lemma apply_grant_again:
  assumes "verify sponsor (sponsor_sig_message sponsee t scope) sig" "may_sponsor mode st sponsor" "ss_get st sponsee \<noteq> None"
  shows "apply_sponsorship_actions mode verify H st (grant_block cb sponsor sponsee t scope sig) = (st, True)"
proof -
  have "quiet mode verify H st (new_sponsor_scoped_with_pow sponsor sponsee t scope sig 0 0 zero32)"
    using assms by (simp add: quiet_def new_sponsor_scoped_with_pow_def sponsor_scope_def)
  then show ?thesis by (simp add: apply_sponsorship_actions_def grant_block_def quiet_apply)
qed

lemma apply_grant_waits:
  assumes "verify sponsor (sponsor_sig_message sponsee t scope) sig" "\<not> may_sponsor mode st sponsor"
  shows "apply_sponsorship_actions mode verify H st (grant_block cb sponsor sponsee t scope sig) = (st, False)"
  using assms
  by (auto simp: apply_sponsorship_actions_def grant_block_def apply_sponsorship_action_def apply_sponsor_action_def Let_def
      new_sponsor_scoped_with_pow_def sponsor_scope_def may_sponsor_def split: option.splits)

text \<open>
  The outcome depends on the order in which a node gets to apply its blocks. Three blocks, in chain order:
  a genesis identity sponsors a, a sponsors x, the genesis identity sponsors x. A node that applies them in
  this order has x sponsored by a. A node that has the contents of the first block later than the others has
  to leave the second, applies the third, and has x sponsored by the genesis identity, for good: with all
  three blocks applied in full, the two stores differ.
\<close>

theorem application_order_matters:
  assumes g: "is_in_hardcoded_genesis_list mode g"
    and a: "\<not> is_in_hardcoded_genesis_list mode a" "a \<noteq> x"
    and v: "verify g (sponsor_sig_message a 1 None) s1" "verify a (sponsor_sig_message x 2 sc) s2" "verify g (sponsor_sig_message x 3 None) s3"
    and b: "b1 = grant_block cb g a 1 None s1" "b2 = grant_block cb a x 2 sc s2" "b3 = grant_block cb g x 3 None s3"
  shows "\<exists>st st'.
    reconcile_sponsorship mode verify H ss_empty [b1, b2, b3] = (st, True) \<and> get_sponsor st x = Some a \<and>
    snd (reconcile_sponsorship mode verify H ss_empty [b2]) = False \<and>
    fst (reconcile_sponsorship mode verify H ss_empty [b2, b3, b1, b2]) = st' \<and> get_sponsor st' x = Some g \<and>
    reconcile_sponsorship mode verify H st' [b1, b2, b3] = (st', True)"
proof -
  let ?ap = "apply_sponsorship_actions mode verify H"
  have e: "ss_get ss_empty j = None" for j by (simp add: ss_get_def ss_empty_def tree_get_def)
  have mg: "may_sponsor mode st g" for st using g by (simp add: may_sponsor_def)
  have wait: "?ap ss_empty b2 = (ss_empty, False)"
    unfolding b using v(2) a(1) by (intro apply_grant_waits) (auto simp: may_sponsor_def e)
  obtain p1 d1 where p1: "?ap ss_empty b1 = (p1, True)"
    "\<And>j. ss_get p1 j = (if j = a then Some (chain_record a (Some g) 1 d1) else ss_get ss_empty j)"
    unfolding b by (rule apply_grant_block [where H = H and cb = cb and verify = verify and st = ss_empty, OF v(1) mg e]) auto
  have ma: "may_sponsor mode p1 a" by (auto simp: may_sponsor_def p1(2) chain_record_def)
  have "ss_get p1 x = None" using a(2) by (simp add: p1(2) e)
  then obtain p2 d2 where p2: "?ap p1 b2 = (p2, True)"
    "\<And>j. ss_get p2 j = (if j = x then Some (chain_record x (Some a) 2 d2) else ss_get p1 j)"
    unfolding b by (rule apply_grant_block [where H = H and cb = cb and verify = verify and st = p1, OF v(2) ma]) auto
  have p3: "?ap p2 b3 = (p2, True)" unfolding b by (rule apply_grant_again [where verify = verify, OF v(3) mg]) (simp add: p2(2))
  obtain t1 e1 where t1: "?ap ss_empty b3 = (t1, True)"
    "\<And>j. ss_get t1 j = (if j = x then Some (chain_record x (Some g) 3 e1) else ss_get ss_empty j)"
    unfolding b by (rule apply_grant_block [where H = H and cb = cb and verify = verify and st = ss_empty, OF v(3) mg e]) auto
  have "ss_get t1 a = None" using a(2) by (simp add: t1(2) e)
  then obtain t2 e2 where t2: "?ap t1 b1 = (t2, True)"
    "\<And>j. ss_get t2 j = (if j = a then Some (chain_record a (Some g) 1 e2) else ss_get t1 j)"
    unfolding b by (rule apply_grant_block [where H = H and cb = cb and verify = verify and st = t1, OF v(1) mg]) auto
  have again: "?ap t2 b1 = (t2, True)" "?ap t2 b3 = (t2, True)"
    unfolding b by (rule apply_grant_again [where verify = verify, OF v(1) mg], simp add: t2(2), rule apply_grant_again [where verify = verify, OF v(3) mg], simp add: t2(2) t1(2))
  have "may_sponsor mode t2 a" by (auto simp: may_sponsor_def t2(2) chain_record_def)
  then have again2: "?ap t2 b2 = (t2, True)" unfolding b by (rule apply_grant_again [where verify = verify, OF v(2)]) (simp add: t2(2) t1(2))
  have "get_sponsor p2 x = Some a" "get_sponsor t2 x = Some g"
    using a(2) by (simp_all add: get_sponsor_def p2(2) t2(2) t1(2) chain_record_def)
  then show ?thesis
    using p1(1) p2(1) p3 wait t1(1) t2(1) again again2 by (simp add: reconcile_sponsorship_def)
qed

subsection \<open>Examples\<close>

definition sample_cb :: content_block where
  "sample_cb = \<lparr>cb_thread_root_id = zero32, cb_space_id = zero32, cb_actions = [], cb_merkle_root = zero32,
     cb_prev_content_hash = None, cb_timestamp = 0, cb_total_pow = 0, cb_branch_path = path_root, cb_space_metadata = None\<rparr>"

definition sample_root_key :: pub_key where
  "sample_root_key = hd MAINNET_GENESIS_LIST"

lemma sample_root_listed: "is_in_hardcoded_genesis_list Mainnet sample_root_key"
  by (simp add: is_in_hardcoded_genesis_list_def active_genesis_list_def sample_root_key_def MAINNET_GENESIS_LIST_def)

lemma sample_grant_applied:
  obtains st d where
    "reconcile_sponsorship Mainnet (\<lambda>_ _ _. True) H ss_empty [grant_block sample_cb sample_root_key [2] 1 None []] = (st, True)"
    "ss_get st [2] = Some (chain_record [2] (Some sample_root_key) 1 d)"
proof -
  have "may_sponsor Mainnet ss_empty sample_root_key" using sample_root_listed by (simp add: may_sponsor_def)
  moreover have "ss_get ss_empty [2] = None" by (simp add: ss_get_def ss_empty_def tree_get_def)
  ultimately obtain st d where
    "apply_sponsorship_actions Mainnet (\<lambda>_ _ _. True) H ss_empty (grant_block sample_cb sample_root_key [2] 1 None []) = (st, True)"
    "ss_get st [2] = Some (chain_record [2] (Some sample_root_key) 1 d)"
    by (rule apply_grant_block [where H = H and cb = sample_cb and verify = "\<lambda>_ _ _. True" and t = 1 and scope = None and sig = "[]", OF TrueI]) simp
  then show ?thesis using that [of st d] by (simp add: reconcile_sponsorship_def)
qed

theorem chain_identities_accounted_witness:
  "rooted Mainnet (fst (reconcile_sponsorship Mainnet (\<lambda>_ _ _. True) (\<lambda>x. x) ss_empty
     [grant_block sample_cb sample_root_key [2] 1 None []])) [2]"
proof -
  obtain st d where s: "reconcile_sponsorship Mainnet (\<lambda>_ _ _. True) (\<lambda>x. x) ss_empty [grant_block sample_cb sample_root_key [2] 1 None []] = (st, True)"
    "ss_get st [2] = Some (chain_record [2] (Some sample_root_key) 1 d)" by (rule sample_grant_applied)
  from chain_identities_accounted [OF s] s(1) show ?thesis by simp
qed

theorem reconcile_idempotent_witness:
  "\<exists>st. reconcile_sponsorship Mainnet (\<lambda>_ _ _. True) (\<lambda>x. x) ss_empty [grant_block sample_cb sample_root_key [2] 1 None []] = (st, True) \<and>
     reconcile_sponsorship Mainnet (\<lambda>_ _ _. True) (\<lambda>x. x) st [grant_block sample_cb sample_root_key [2] 1 None []] = (st, True)"
proof -
  obtain st d where s: "reconcile_sponsorship Mainnet (\<lambda>_ _ _. True) (\<lambda>x. x) ss_empty [grant_block sample_cb sample_root_key [2] 1 None []] = (st, True)"
    "ss_get st [2] = Some (chain_record [2] (Some sample_root_key) 1 d)" by (rule sample_grant_applied)
  from reconcile_idempotent [OF s(1)] s(1) show ?thesis by blast
qed

theorem application_order_matters_witness:
  "\<exists>st st'. reconcile_sponsorship Mainnet (\<lambda>_ _ _. True) (\<lambda>x. x) ss_empty
       [grant_block sample_cb sample_root_key [2] 1 None [], grant_block sample_cb [2] [3] 2 None [],
        grant_block sample_cb sample_root_key [3] 3 None []] = (st, True) \<and>
     get_sponsor st [3] = Some [2] \<and> get_sponsor st' [3] = Some sample_root_key"
proof -
  have "\<not> is_in_hardcoded_genesis_list Mainnet [2]"
    by (simp add: is_in_hardcoded_genesis_list_def active_genesis_list_def MAINNET_GENESIS_LIST_def)
  from application_order_matters [where verify = "\<lambda>_ _ _. True" and H = "\<lambda>x. x" and cb = sample_cb and x = "[3]" and ?s1.0 = "[]"
      and ?s2.0 = "[]" and ?s3.0 = "[]" and sc = None, OF sample_root_listed this _ TrueI TrueI TrueI refl refl refl]
  show ?thesis by auto
qed

end
