(* ===== verification/Spons_Gate.thy ===== *)
theory Spons_Gate
  imports Spons_Chain Mempool_Correct
begin

text \<open>
  The gate of blocks and the block builder: the gate of a node admits what the builder of a node with the
  same sponsorship store forms. But the gate takes the grants in a block at face value.
\<close>

subsection \<open>Blocks of the builder pass\<close>

lemma batch_grants_cases:
  assumes "consistent_grants (thread_actions (pending_threads b))"
  shows "batch_grants b x = Some scope \<longleftrightarrow>
    (\<exists>a \<in> set (thread_actions (pending_threads b)). grants a x \<and> act_parent_id a = scope)"
proof -
  let ?as = "concat (map pt_actions (concat (map snd (group_by_space (pending_threads b)))))"
  have s: "set ?as = set (thread_actions (pending_threads b))"
    using group_by_space_threads [of "pending_threads b"] by (simp add: thread_actions_def)
  have c: "consistent_grants ?as" using assms unfolding consistent_grants_def s .
  have fold: "batch_grants b x = foldl note_grant (\<lambda>_. None) ?as x" by (simp add: batch_grants_def sponsored_in_batch_def)
  show ?thesis
    using note_grants_fold(1) [OF c, of _ x] note_grants_fold(2) [OF c, of x] unfolding fold s [symmetric] by (metis option.distinct(1) option.inject)
qed

lemma built_block_passes:
  assumes "build_root_block L H b timestamp creator (Some (is_authorized_in_space mode st)) store = ((rb, spaces, contents), b')"
    and cons: "consistent_grants (thread_actions (pending_threads b))"
    and inj: "inj_on (action_hash H) (set (thread_actions (pending_threads b)))"
    and fresh: "\<And>a cs. a \<in> set (thread_actions (pending_threads b)) \<Longrightarrow> act_type a = Sponsor \<Longrightarrow> store = Some cs \<Longrightarrow>
      is_action_finalized cs (action_hash H a) = None"
    and "cb \<in> set contents" and "a \<in> set (cb_actions cb)"
  shows "a \<in> set (thread_actions (pending_threads b))"
    "requires_sponsored_author (act_type a) \<Longrightarrow> is_authorized_in_space mode st (act_actor a) (cb_space_id cb) \<or>
      (case sponsored_in_block contents (act_actor a) of Some (Some scope) \<Rightarrow> scope = cb_space_id cb | Some None \<Rightarrow> True | None \<Rightarrow> False)"
proof -
  let ?auth = "Some (is_authorized_in_space mode st)" and ?pool = "set (thread_actions (pending_threads b))"
  note p = build_root_block_parts(1) [OF assms(1)]
  have in_pool: "a \<in> ?pool" "cb_space_id cb = s \<Longrightarrow> minable H b ?auth store s a"
    if "cb \<in> set contents" "a \<in> set (cb_actions cb)" for cb a s
  proof -
    from that(1) obtain t where "t \<in> set (pending_threads b)" "block_of_thread H (minable_part H b ?auth store t) cb"
      unfolding p by (rule mined_content_block)
    then show "a \<in> ?pool" "cb_space_id cb = s \<Longrightarrow> minable H b ?auth store s a"
      using that(2) unfolding block_of_thread_def by (auto simp: thread_actions_def)
  qed
  have placed: "action_hash H ` set (block_actions contents) =
      action_hash H ` set (thread_actions (concat (map snd (block_spaces H b ?auth store))))"
    using mined_contents_spec(1) [of H b ?auth store timestamp] unfolding placed_once_def p by simp
  have grant_in_block: "g \<in> set (block_actions contents)" if g: "g \<in> ?pool" "act_type g = Sponsor" for g
  proof -
    have "g \<in> set (thread_actions (concat (map snd (block_spaces H b ?auth store))))"
      unfolding block_spaces_actions using g fresh [OF g]
      by (auto simp: thread_actions_def minable_def authorized_author_def split: option.splits)
    then obtain g' where g': "g' \<in> set (block_actions contents)" "action_hash H g' = action_hash H g"
      using placed by (metis (no_types, lifting) imageE image_eqI)
    then have "g' \<in> ?pool" using in_pool(1) by (auto simp: block_actions_def)
    with g' g(1) inj show ?thesis by (auto dest: inj_onD)
  qed
  have sub: "set (block_actions contents) \<subseteq> ?pool" using in_pool(1) by (auto simp: block_actions_def)
  then have cons': "consistent_grants (block_actions contents)" using cons unfolding consistent_grants_def by blast
  have same: "sponsored_in_block contents x = Some scope" if "batch_grants b x = Some scope" for x scope
  proof -
    from that obtain g where "g \<in> ?pool" "grants g x" "act_parent_id g = scope" using batch_grants_cases [OF cons] by blast
    then show ?thesis using note_grants_fold(1) [OF cons' grant_in_block]
      by (auto simp: sponsored_in_block_def block_actions_def grants_def)
  qed
  show "a \<in> ?pool" by (rule in_pool(1) [OF assms(5,6)])
  show "requires_sponsored_author (act_type a) \<Longrightarrow> is_authorized_in_space mode st (act_actor a) (cb_space_id cb) \<or>
      (case sponsored_in_block contents (act_actor a) of Some (Some scope) \<Rightarrow> scope = cb_space_id cb | Some None \<Rightarrow> True | None \<Rightarrow> False)"
    using in_pool(2) [OF assms(5,6) refl] same [of "act_actor a"]
    by (auto simp: minable_def authorized_author_def split: option.splits)
qed


subsection \<open>Grants in the block are taken at face value\<close>

lemma grants_all_global:
  assumes "\<exists>a \<in> set as. grants a x" "\<forall>a \<in> set as. \<forall>x. grants a x \<longrightarrow> act_parent_id a = None"
  shows "foldl note_grant (\<lambda>_. None) as x = Some None"
proof -
  have "consistent_grants as" using assms(2) unfolding consistent_grants_def by metis
  from note_grants_fold(1) [OF this] assms show ?thesis by metis
qed

text \<open>
  A block passes the gate if it brings grants for its own authors, whoever signs them: no one checks the
  signature of the grants or that their sponsor exists. When the block is applied, the grants are dropped for
  their signatures, so the authors stay unsponsored, and their actions are on the chain.
\<close>

theorem forged_grants_pass_gate:
  assumes "cb_actions cb = map (\<lambda>x. new_sponsor_scoped_with_pow forger x t None sig 0 0 zero32) authors @ actions"
    and "act_actor ` set actions \<subseteq> set authors"
    and "\<And>a. a \<in> set actions \<Longrightarrow> act_type a = Post \<or> act_type a = Reply \<or> act_type a = Engage"
    and "\<And>x. x \<in> set authors \<Longrightarrow> \<not> verify forger (sponsor_sig_message x t None) sig"
  shows "block_admitted mode (Some st) [cb] \<and> reconcile_sponsorship mode verify H st [cb] = (st, True)"
proof
  let ?g = "\<lambda>x. new_sponsor_scoped_with_pow forger x t None sig 0 0 zero32"
  have g: "grants (?g x) x" "act_parent_id (?g x) = None" "act_type (?g x) = Sponsor" for x
    by (simp_all add: grants_def new_sponsor_scoped_with_pow_def)
  have only: "\<forall>a \<in> set (cb_actions cb). \<forall>x. grants a x \<longrightarrow> act_parent_id a = None"
    using assms(1,3) g(2) by (fastforce simp: grants_def)
  have granted: "sponsored_in_block [cb] x = Some None" if "x \<in> set authors" for x
    unfolding sponsored_in_block_def using that assms(1) g(1) only by (intro grants_all_global) auto
  have "action_admitted mode st (sponsored_in_block [cb]) s a" if a: "a \<in> set (cb_actions cb)" for s a
  proof (cases "a \<in> set actions")
    case True
    then have "act_actor a \<in> set authors" "act_type a \<noteq> CreateSpace" using assms(2) assms(3) [OF True] by auto
    then show ?thesis using granted by (simp add: action_admitted_def)
  next
    case False
    then have "act_type a = Sponsor" using a assms(1) g(3) by auto
    then show ?thesis by (simp add: action_admitted_def)
  qed
  then show "block_admitted mode (Some st) [cb]" by (simp add: block_admitted_def)
  have "quiet mode verify H st a" if a: "a \<in> set (cb_actions cb)" for a
  proof (cases "a \<in> set actions")
    case True
    with assms(3) [OF this] show ?thesis by (auto simp: quiet_def split: option.splits)
  next
    case False
    then show ?thesis using a assms(1,4) by (auto simp: quiet_def new_sponsor_scoped_with_pow_def sponsor_scope_def)
  qed
  then show "reconcile_sponsorship mode verify H st [cb] = (st, True)"
    by (simp add: reconcile_apply_all quiet_all)
qed

subsection \<open>Examples\<close>


theorem forged_grants_pass_gate_witness:
  "let cb = sample_cb\<lparr>cb_actions := [new_sponsor_scoped_with_pow [6] (act_actor sample_action) 1 None [] 0 0 zero32, sample_action]\<rparr>
   in block_admitted Mainnet (Some ss_empty) [cb] \<and>
      reconcile_sponsorship Mainnet (\<lambda>_ _ _. False) (\<lambda>x. x) ss_empty [cb] = (ss_empty, True)"
proof -
  have "act_type sample_action = Reply" by (simp add: sample_action_def new_reply_def)
  then show ?thesis unfolding Let_def
    by (intro forged_grants_pass_gate [where authors = "[act_actor sample_action]" and actions = "[sample_action]" and forger = "[6]"
          and t = 1 and sig = "[]"]) simp_all
qed

end
