(* ===== verification/Offer_Correct.thy ===== *)
theory Offer_Correct
  imports Spons_Router
begin

text \<open>
  Correctness of public sponsorship offers: an invariant of the store under every message of a peer and
  every local operation, the round trips of the wire format, and what a peer can do to the offers and
  claims of others.
\<close>

subsection \<open>Counters\<close>

lemma fetch_and_update_get:
  "fst (fetch_and_update t k f) = tree_get t k"
  "tree_get (snd (fetch_and_update t k f)) j = (if j = k then f (tree_get t k) else tree_get t j)"
  by (auto simp: fetch_and_update_def split: option.splits)

lemma increment_below:
  assumes "tree_get (os_counts os) i = Some n" "n < limit"
  shows "\<exists>os1. increment_claimed_count os i limit = (Inr (n + 1), os1) \<and> tree_get (os_counts os1) i = Some (n + 1)"
proof -
  have "n + 1 \<le> limit" using assms(2) by (simp add: inc_le)
  then show ?thesis using assms
    by (simp add: increment_claimed_count_def fetch_and_update_def Let_def not_less)
qed

text \<open>
  The counter that protects the slots of an offer is lost when it refuses: one approval too many
  deletes it, the next two succeed again, as far as the offer is concerned from the start.
\<close>

theorem full_offer_reopens:
  assumes "tree_get (os_counts os) i = Some n" "limit \<le> n" "n < 255" "2 \<le> limit"
  shows "\<exists>os1 os2. increment_claimed_count os i limit = (Inl OfferFullyClaimed, os1) \<and> get_claimed_count os1 i = 0 \<and>
    increment_claimed_count os1 i limit = (Inr 1, os2) \<and> get_claimed_count os2 i = 1"
proof -
  have n1: "limit < n + 1" using assms(2,3) by (simp add: word_less_nat_alt word_le_nat_alt unat_word_ariths)
  define os1 where "os1 = os\<lparr>os_counts := tree_remove (os_counts os) i\<rparr>"
  have r: "increment_claimed_count os i limit = (Inl OfferFullyClaimed, os1)"
    using assms(1,2) n1 by (simp add: increment_claimed_count_def fetch_and_update_def Let_def os1_def)
  have none: "tree_get (os_counts os1) i = None" by (simp add: os1_def)
  have lim: "\<not> limit \<le> 0" "\<not> limit \<le> 1" using assms(4) by (auto simp: word_le_nat_alt)
  have "increment_claimed_count os1 i limit = (Inr 1, os1\<lparr>os_counts := tree_insert (os_counts os1) i 1\<rparr>)"
    using none lim by (simp add: increment_claimed_count_def fetch_and_update_def Let_def get_claimed_count_def)
  with r none show ?thesis by (simp add: get_claimed_count_def)
qed

subsection \<open>Proof of work\<close>

lemma length_takeWhile_ge: "k \<le> length xs \<Longrightarrow> k \<le> length (takeWhile P xs) \<longleftrightarrow> (\<forall>j < k. P (xs ! j))"
proof (induction xs arbitrary: k)
  case (Cons x xs)
  then show ?case by (cases k) (auto simp: less_Suc_eq_0_disj)
qed simp

lemma unat_less_bits: "unat (b :: byte) < 2 ^ n \<longleftrightarrow> (\<forall>m. n \<le> m \<longrightarrow> m < 8 \<longrightarrow> \<not> bit b m)"
proof -
  have "unat b < 2 ^ n \<longleftrightarrow> take_bit n (unat b) = unat b" by (simp add: take_bit_nat_eq_self_iff)
  also have "\<dots> \<longleftrightarrow> (\<forall>m. bit b m \<and> m < 8 \<longrightarrow> m < n)"
    using bit_imp_le_length [of b] by (auto simp: bit_eq_iff bit_take_bit_iff bit_unsigned_iff)
  finally show ?thesis by (auto simp: not_le)
qed

lemma u8_leading_zeros_spec: "k \<le> 8 \<Longrightarrow> k \<le> u8_leading_zeros b \<longleftrightarrow> unat b < 2 ^ (8 - k)"
proof -
  assume k: "k \<le> 8"
  have "k \<le> u8_leading_zeros b \<longleftrightarrow> (\<forall>j < k. \<not> bit b (rev [0 ..< 8] ! j))"
    unfolding u8_leading_zeros_def using k by (intro length_takeWhile_ge) simp
  also have "\<dots> \<longleftrightarrow> (\<forall>j < k. \<not> bit b (7 - j))" using k by (auto simp: rev_nth)
  also have "\<dots> \<longleftrightarrow> (\<forall>m. 8 - k \<le> m \<longrightarrow> m < 8 \<longrightarrow> \<not> bit b m)"
  proof (intro iffI allI impI)
    fix m :: nat
    assume h: "\<forall>j < k. \<not> bit b (7 - j)" and m: "8 - k \<le> m" "m < 8"
    then show "\<not> bit b m" using h [rule_format, of "7 - m"] by simp
  next
    fix j
    assume "\<forall>m. 8 - k \<le> m \<longrightarrow> m < 8 \<longrightarrow> \<not> bit b m" "j < k"
    then show "\<not> bit b (7 - j)" using k by simp
  qed
  finally show ?thesis by (simp add: unat_less_bits)
qed

lemma u8_leading_zeros_le: "b \<noteq> 0 \<Longrightarrow> u8_leading_zeros b < 8"
  using u8_leading_zeros_spec [of 8 b] by (auto simp: unat_eq_0)

lemma count_zeros_spec: "k \<le> 8 * length h \<Longrightarrow> k \<le> count_zeros_loop h \<longleftrightarrow> be_nat h < 2 ^ (8 * length h - k)"
proof (induction h arbitrary: k)
  case (Cons b h)
  let ?n = "8 * length h"
  have p: "(256 :: nat) ^ length h = 2 ^ ?n" by (simp add: power_mult)
  have lt: "be_nat h < 2 ^ ?n" using be_nat_less [of h] p by simp
  show ?case
  proof (cases "b = 0")
    case True
    show ?thesis
    proof (cases "k \<le> 8")
      case True
      then have "(2 :: nat) ^ ?n \<le> 2 ^ (8 + ?n - k)" by (intro power_increasing) simp_all
      with lt have "be_nat h < 2 ^ (8 + ?n - k)" by (rule order_less_le_trans)
      with True \<open>b = 0\<close> show ?thesis by simp
    next
      case False
      then have "k - 8 \<le> ?n" "?n - (k - 8) = 8 * length (b # h) - k" using Cons.prems by simp_all
      with Cons.IH [of "k - 8"] have "k - 8 \<le> count_zeros_loop h \<longleftrightarrow> be_nat h < 2 ^ (8 * length (b # h) - k)" by simp
      then show ?thesis using False \<open>b = 0\<close> by (simp add: le_diff_conv2) (simp add: le_diff_conv add.commute)
    qed
  next
    case False
    show ?thesis
    proof (cases "k \<le> 8")
      case True
      then have e: "8 * length (b # h) - k = (8 - k) + ?n" by simp
      have "be_nat (b # h) div 2 ^ ?n = unat b" using lt unfolding be_nat.simps p by simp
      then have "be_nat (b # h) < 2 ^ ((8 - k) + ?n) \<longleftrightarrow> unat b < 2 ^ (8 - k)"
        using div_less_iff_less_mult [of "2 ^ ?n" "be_nat (b # h)" "2 ^ (8 - k)"] by (simp add: power_add del: be_nat.simps)
      then show ?thesis using u8_leading_zeros_spec [OF True, of b] \<open>b \<noteq> 0\<close> unfolding e by simp
    next
      case k: False
      have "2 ^ (8 * length (b # h) - k) \<le> (2 :: nat) ^ ?n" using k by (intro power_increasing) simp_all
      also have "\<dots> \<le> unat b * 2 ^ ?n" using False by (simp add: unat_gt_0 Suc_leI)
      finally have "\<not> be_nat (b # h) < 2 ^ (8 * length (b # h) - k)" using p by simp
      then show ?thesis using u8_leading_zeros_le [OF False] k False by simp
    qed
  qed
qed simp

text \<open>
  The proof of work of a claim is measured right: a hash has at least so many leading zero bits as
  \<open>count_leading_zero_bits\<close> says iff, read as a number of 256 bits, it is below the corresponding power
  of two, up to the 255 that fit a byte.
\<close>

theorem leading_zero_bits_correct:
  assumes "length h = 32"
  shows "d \<le> count_leading_zero_bits h \<longleftrightarrow> be_nat h < 2 ^ (256 - unat d)"
proof -
  have d: "unat d \<le> 255" using unsigned_less [where 'a = nat and w = d] by simp
  have "unat (count_leading_zero_bits h) = min (count_zeros_loop h) 255"
    by (simp add: count_leading_zero_bits_def unat_of_nat)
  then have "d \<le> count_leading_zero_bits h \<longleftrightarrow> unat d \<le> count_zeros_loop h" using d by (simp add: word_le_nat_alt)
  then show ?thesis using count_zeros_spec [of "unat d" h] assms d by simp
qed

subsection \<open>The invariant of the store\<close>

definition offer_ok :: "(bytes \<Rightarrow> bytes \<Rightarrow> bytes \<Rightarrow> bool) \<Rightarrow> bytes \<Rightarrow> offer \<Rightarrow> bool" where
  "offer_ok verify i o1 \<longleftrightarrow>
     of_id o1 = i \<and> length i = 16 \<and> length (of_sponsor o1) = 32 \<and> (of_auto_approve o1 \<longrightarrow> of_space_scope o1 \<noteq> None) \<and>
     verify (of_sponsor o1) (offer_signature_message o1) (of_signature o1)"

definition offers_ok :: "(bytes \<Rightarrow> bytes \<Rightarrow> bytes \<Rightarrow> bool) \<Rightarrow> offer_store \<Rightarrow> bool" where
  "offers_ok verify os \<longleftrightarrow>
     (\<forall>i o1. get_offer os i = Some o1 \<longrightarrow> offer_ok verify i o1) \<and>
     (\<forall>k. tree_get (os_by_sponsor os) k \<noteq> None \<longleftrightarrow> (\<exists>i o1. get_offer os i = Some o1 \<and> k = of_sponsor o1 @ i)) \<and>
     (\<forall>k c. tree_get (os_claims os) k = Some c \<longrightarrow>
        k = cl_offer_id c @ cl_claimant c \<and> length (cl_offer_id c) = 16 \<and> get_offer os (cl_offer_id c) \<noteq> None)"

lemma offers_okI:
  assumes "\<And>i o1. get_offer os i = Some o1 \<Longrightarrow> offer_ok verify i o1"
    and "\<And>k. tree_get (os_by_sponsor os) k \<noteq> None \<longleftrightarrow> (\<exists>i o1. get_offer os i = Some o1 \<and> k = of_sponsor o1 @ i)"
    and "\<And>k c. tree_get (os_claims os) k = Some c \<Longrightarrow>
      k = cl_offer_id c @ cl_claimant c \<and> length (cl_offer_id c) = 16 \<and> get_offer os (cl_offer_id c) \<noteq> None"
  shows "offers_ok verify os"
  using assms unfolding offers_ok_def by blast

lemma offers_okD:
  assumes "offers_ok verify os"
  shows "get_offer os i = Some o1 \<Longrightarrow> offer_ok verify i o1"
    "tree_get (os_by_sponsor os) k \<noteq> None \<longleftrightarrow> (\<exists>i o1. get_offer os i = Some o1 \<and> k = of_sponsor o1 @ i)"
    "tree_get (os_claims os) k = Some c \<Longrightarrow>
      k = cl_offer_id c @ cl_claimant c \<and> length (cl_offer_id c) = 16 \<and> get_offer os (cl_offer_id c) \<noteq> None"
  using assms unfolding offers_ok_def by blast+

lemma offers_ok_same:
  "offers_ok verify os \<Longrightarrow> os_offers os1 = os_offers os \<Longrightarrow> os_by_sponsor os1 = os_by_sponsor os \<Longrightarrow>
   os_claims os1 = os_claims os \<Longrightarrow> offers_ok verify os1"
  by (simp add: offers_ok_def get_offer_def is_offer_cancelled_def)

lemma offers_ok_counts:
  assumes "offers_ok verify os"
  shows "offers_ok verify (snd (increment_claimed_count os i n))" "offers_ok verify (snd (bump_claimed_count_to os i n))"
    "offers_ok verify (snd (decrement_claimed_count os i))"
  by (rule offers_ok_same [OF assms];
      simp add: increment_claimed_count_def bump_claimed_count_to_def decrement_claimed_count_def Let_def case_prod_beta split: option.splits)+

lemma create_offer_ok:
  assumes ok: "offers_ok verify os" and new: "length (of_id o1) = 16" "length (of_sponsor o1) = 32"
    and sig: "verify (of_sponsor o1) (offer_signature_message o1) (of_signature o1)"
  shows "offers_ok verify (snd (create_offer os o1))"
proof (cases "fst (create_offer os o1) = Inr ()")
  case False
  then show ?thesis using ok by (auto simp: create_offer_def split: if_splits)
next
  case True
  let ?os = "snd (create_offer os o1)"
  have fresh: "get_offer os (of_id o1) = None" and scoped: "of_auto_approve o1 \<longrightarrow> of_space_scope o1 \<noteq> None"
    using True by (auto simp: create_offer_def offer_exists_def get_offer_def split: if_splits)
  have fields: "get_offer ?os = (get_offer os)(of_id o1 \<mapsto> o1)" "os_claims ?os = os_claims os" "os_cancelled ?os = os_cancelled os"
    "tree_get (os_by_sponsor ?os) = (tree_get (os_by_sponsor os))(of_sponsor o1 @ of_id o1 \<mapsto> ())"
    using True by (auto simp: create_offer_def get_offer_def fun_eq_iff split: if_splits)
  show ?thesis
  proof (rule offers_okI)
    fix i o2
    assume "get_offer ?os i = Some o2"
    then show "offer_ok verify i o2"
      using offers_okD(1) [OF ok, of i o2] new sig scoped
      by (auto simp: fields offer_ok_def split: if_splits)
  next
    fix k
    show "tree_get (os_by_sponsor ?os) k \<noteq> None \<longleftrightarrow> (\<exists>i o2. get_offer ?os i = Some o2 \<and> k = of_sponsor o2 @ i)"
    proof -
      have "(\<exists>i o2. get_offer ?os i = Some o2 \<and> k = of_sponsor o2 @ i) \<longleftrightarrow>
          k = of_sponsor o1 @ of_id o1 \<or> (\<exists>i o2. i \<noteq> of_id o1 \<and> get_offer os i = Some o2 \<and> k = of_sponsor o2 @ i)"
        unfolding fields by auto
      also have "(\<exists>i o2. i \<noteq> of_id o1 \<and> get_offer os i = Some o2 \<and> k = of_sponsor o2 @ i) \<longleftrightarrow> tree_get (os_by_sponsor os) k \<noteq> None"
        using offers_okD(2) [OF ok, of k] fresh by (metis option.distinct(1))
      finally show ?thesis unfolding fields by auto
    qed
  next
    fix k c
    assume "tree_get (os_claims ?os) k = Some c"
    then show "k = cl_offer_id c @ cl_claimant c \<and> length (cl_offer_id c) = 16 \<and> get_offer ?os (cl_offer_id c) \<noteq> None"
      using offers_okD(3) [OF ok, of k c] unfolding fields by simp
  qed
qed

lemma scan_prefix_keys: "k \<in> fst ` set (scan_prefix t p) \<longleftrightarrow> k \<in> fst ` set t \<and> take (length p) k = p"
  by (force simp: scan_prefix_def tree_iter_def)

lemma tree_get_dom: "tree_get t k \<noteq> None \<longleftrightarrow> k \<in> fst ` set t"
  by (metis tree_get_def map_of_eq_None_iff)

lemma delete_offer_ok:
  assumes ok: "offers_ok verify os"
  shows "offers_ok verify (snd (delete_offer os i))" "get_offer (snd (delete_offer os i)) i = None"
proof -
  show "get_offer (snd (delete_offer os i)) i = None"
    by (auto simp: delete_offer_def get_offer_def split: option.splits)
  show "offers_ok verify (snd (delete_offer os i))"
  proof (cases "get_offer os i")
    case None
    then show ?thesis using ok by (simp add: delete_offer_def)
  next
    case (Some o1)
    let ?os = "snd (delete_offer os i)"
    have i: "of_id o1 = i" "length i = 16" "length (of_sponsor o1) = 32"
      using offers_okD(1) [OF ok Some] by (auto simp: offer_ok_def)
    have os: "?os = os\<lparr>os_offers := tree_remove (os_offers os) i, os_by_sponsor := tree_remove (os_by_sponsor os) (of_sponsor o1 @ i),
        os_counts := tree_remove (os_counts os) i,
        os_claims := foldl tree_remove (os_claims os) (map fst (scan_prefix (os_claims os) i))\<rparr>"
      by (simp add: delete_offer_def Some)
    have offers: "get_offer ?os j = (if j = i then None else get_offer os j)" for j unfolding os by (simp add: get_offer_def)
    have index: "tree_get (os_by_sponsor ?os) k = (if k = of_sponsor o1 @ i then None else tree_get (os_by_sponsor os) k)" for k
      unfolding os by simp
    have "tree_get (os_claims ?os) k = (if k \<in> fst ` set (scan_prefix (os_claims os) i) then None else tree_get (os_claims os) k)" for k
      unfolding os by (simp add: tree.get_remove_all)
    then have claims: "tree_get (os_claims ?os) k = (if take 16 k = i then None else tree_get (os_claims os) k)" for k
      using tree_get_dom [of "os_claims os" k] unfolding scan_prefix_keys i(2) by auto
    have other: "of_sponsor o2 @ j = of_sponsor o1 @ i \<longleftrightarrow> j = i" if "get_offer os j = Some o2" for o2 j
    proof -
      have "length (of_sponsor o2) = length (of_sponsor o1)" using offers_okD(1) [OF ok that] i(3) by (simp add: offer_ok_def)
      then show ?thesis using that Some by (cases "j = i") simp_all
    qed
    show ?thesis
    proof (rule offers_okI)
      fix j o2
      assume "get_offer ?os j = Some o2"
      then show "offer_ok verify j o2"
        using offers_okD(1) [OF ok, of j o2] by (auto simp: offers split: if_splits)
    next
      fix k
      show "tree_get (os_by_sponsor ?os) k \<noteq> None \<longleftrightarrow> (\<exists>j o2. get_offer ?os j = Some o2 \<and> k = of_sponsor o2 @ j)"
        using offers_okD(2) [OF ok, of k] other unfolding offers index by (metis option.distinct(1))
    next
      fix k c
      assume "tree_get (os_claims ?os) k = Some c"
      then show "k = cl_offer_id c @ cl_claimant c \<and> length (cl_offer_id c) = 16 \<and> get_offer ?os (cl_offer_id c) \<noteq> None"
        using offers_okD(3) [OF ok, of k c] unfolding claims offers by (auto split: if_splits)
    qed
  qed
qed

lemma claim_put_ok:
  assumes ok: "offers_ok verify os" and "get_offer os (cl_offer_id c) \<noteq> None"
  shows "offers_ok verify (os\<lparr>os_claims := tree_insert (os_claims os) (cl_offer_id c @ cl_claimant c) c\<rparr>)"
proof -
  have "length (cl_offer_id c) = 16" using offers_okD(1) [OF ok] assms(2) by (auto simp: offer_ok_def)
  then show ?thesis
    using assms by (auto simp: offers_ok_def get_offer_def is_offer_cancelled_def split: if_splits)
qed

lemma submit_claim_ok:
  "offers_ok verify os \<Longrightarrow> get_offer os (cl_offer_id c) \<noteq> None \<Longrightarrow> offers_ok verify (snd (submit_claim os c))"
  using claim_put_ok [of verify os c] by (auto simp: submit_claim_def Let_def)

lemma update_claim_ok:
  "offers_ok verify os \<Longrightarrow> get_offer os (cl_offer_id c) \<noteq> None \<Longrightarrow> offers_ok verify (snd (update_claim os c))"
  using claim_put_ok [of verify os c] by (auto simp: update_claim_def Let_def)

lemma update_approved_ok:
  assumes "offers_ok verify os" "get_claim os i x = Some c"
  shows "offers_ok verify (snd (update_claim os (c\<lparr>cl_approval := s\<rparr>)))"
  using assms offers_okD(3) [OF assms(1), of "i @ x" c] by (intro update_claim_ok) (auto simp: get_claim_def)

lemma remove_claim_ok: "offers_ok verify os \<Longrightarrow> offers_ok verify (remove_claim os i x)"
  by (auto simp: offers_ok_def remove_claim_def get_offer_def is_offer_cancelled_def split: if_splits)

lemma tombstone_ok:
  "offers_ok verify os \<Longrightarrow> get_offer os i = None \<Longrightarrow> offers_ok verify (tombstone_offer os i t)"
  by (auto simp: offers_ok_def tombstone_offer_def get_offer_def is_offer_cancelled_def split: if_splits)

subsection \<open>Messages and local operations\<close>

lemma deserialize_offer_typed:
  assumes "deserialize_offer dec data = Inr o1"
  shows "length (of_id o1) = 16 \<and> length (of_sponsor o1) = 32"
proof -
  have len: "\<not> length data < MIN_OFFER_WIRE_SIZE" using assms unfolding deserialize_offer_def by (metis Inl_Inr_False)
  note d = assms [unfolded deserialize_offer_def if_not_P [OF len]]
  obtain ty where ty: "offer_type_try_from (data ! 65) = Some ty" using d by (cases "offer_type_try_from (data ! 65)") simp_all
  define n where "n = unat (u16_of_le (byte_slice data 66 2))"
  note d2 = d [unfolded ty option.case Let_def n_def [symmetric]]
  have l2: "\<not> length data < 68 + (n + 64)" using d2 by (metis Inl_Inr_False)
  obtain rq where rq: "dec (byte_slice data 68 n) = Inr rq"
    using d2 unfolding if_not_P [OF l2] by (cases "dec (byte_slice data 68 n)") simp_all
  have "of_sponsor o1 = byte_slice data 0 32" "of_id o1 = byte_slice data 32 16"
    using d2 unfolding if_not_P [OF l2] rq sum.case by auto
  then show ?thesis using len by (simp add: wire_sizes byte_slice_def)
qed

lemma handle_offer_ok:
  assumes "offers_ok verify os"
  shows "offers_ok verify (fst (snd (handle_sponsorship_offer verify dec os payload now)))"
proof (cases "deserialize_offer dec (butlast payload)")
  case (Inr o1)
  then show ?thesis
    using assms deserialize_offer_typed [OF Inr] create_offer_ok [OF assms, of o1]
    by (auto simp: handle_sponsorship_offer_def Let_def split: prod.splits sum.splits if_splits)
qed (use assms in \<open>simp add: handle_sponsorship_offer_def Let_def\<close>)

lemma handle_claim_ok:
  assumes "offers_ok verify os"
  shows "offers_ok verify (fst (snd (handle_sponsorship_claim verify dec os payload)))"
  using assms submit_claim_ok [OF assms]
  by (auto simp: handle_sponsorship_claim_def split: sum.splits prod.splits) (metis option.distinct(1) snd_conv)+

lemma handle_response_ok:
  assumes "offers_ok verify os"
  shows "offers_ok verify (fst (snd (handle_sponsorship_claim_response os payload)))"
  using assms remove_claim_ok [OF assms] update_approved_ok [OF assms]
  by (auto simp: handle_sponsorship_claim_response_def split: sum.splits prod.splits response_type.splits option.splits) (metis snd_conv)+

lemma bump_facts [simp]:
  "get_offer (snd (bump_claimed_count_to os i n)) = get_offer os"
  "is_offer_cancelled (snd (bump_claimed_count_to os i n)) = is_offer_cancelled os"
  by (auto simp: bump_claimed_count_to_def get_offer_def is_offer_cancelled_def Let_def case_prod_beta fun_eq_iff)

lemma learn_offer_ok:
  assumes "offers_ok verify os"
  shows "offers_ok verify (learn_listed_offer verify enc dec now os bs)"
proof (cases "deserialize_offer dec bs")
  case (Inr o1)
  note b = offers_ok_counts(2)
  show ?thesis
    using assms deserialize_offer_typed [OF Inr] create_offer_ok [of verify _ o1] b
    by (auto simp: learn_listed_offer_def Inr Let_def split: prod.splits sum.splits if_splits option.splits)
      (metis snd_conv bump_facts(2))+
qed (use assms in \<open>simp add: learn_listed_offer_def\<close>)

lemma handle_list_ok:
  assumes "offers_ok verify os"
  shows "offers_ok verify (fst (snd (handle_sponsorship_offer_list verify enc dec os payload now)))"
proof -
  have "offers_ok verify os \<Longrightarrow> offers_ok verify (offer_list_loop (learn_listed_offer verify enc dec now) payload n pos os)" for n pos os
    by (induction n arbitrary: pos os) (simp_all add: Let_def learn_offer_ok)
  then show ?thesis using assms by (simp add: handle_sponsorship_offer_list_def)
qed

lemma handle_cancel_ok:
  assumes "offers_ok verify os"
  shows "offers_ok verify (fst (snd (handle_sponsorship_offer_cancel verify os payload)))"
  using assms tombstone_ok [OF delete_offer_ok [OF assms]]
  by (auto simp: handle_sponsorship_offer_cancel_def split: sum.splits)

text \<open>
  Messages of peers and operations of the node itself. The set \<open>A\<close> holds the ids under which the node creates
  offers of its own: by the flow of offers, or by the RPC method, which checks the signature before it stores.
\<close>

inductive offer_step ::
  "(bytes \<Rightarrow> bytes \<Rightarrow> bytes \<Rightarrow> bool) \<Rightarrow> bytes set \<Rightarrow> offer_store \<Rightarrow> offer_store \<Rightarrow> bool" for verify A where
  offer_message: "offer_step verify A os (fst (snd (handle_sponsorship_offer verify dec os payload now)))"
| claim_message: "offer_step verify A os (fst (snd (handle_sponsorship_claim verify pdec os payload)))"
| response_message: "offer_step verify A os (fst (snd (handle_sponsorship_claim_response os payload)))"
| list_message: "offer_step verify A os (fst (snd (handle_sponsorship_offer_list verify enc dec os payload now)))"
| cancel_message: "offer_step verify A os (fst (snd (handle_sponsorship_offer_cancel verify os payload)))"
| offered: "typed_offer o1 \<Longrightarrow> of_id o1 \<in> A \<Longrightarrow>
    offer_step verify A os (snd (create_public_offer_with_verification os st o1 now verify))"
| rpc_offered: "typed_offer o1 \<Longrightarrow> of_id o1 \<in> A \<Longrightarrow> verify (of_sponsor o1) (offer_signature_message o1) (of_signature o1) \<Longrightarrow>
    offer_step verify A os (snd (create_offer os o1))"
| claimed: "offer_step verify A os (snd (claim_public_offer_with_verification os c now verify))"
| approved: "get_claim os (of_id o1) (cl_claimant c) = Some c \<Longrightarrow> offer_step verify A os (fst (snd (execute_claim_approval mode H os st o1 c sig t now)))"
| rejected: "offer_step verify A os (snd (reject_claim os i x sponsor))"
| withdrawn: "offer_step verify A os (snd (cancel_offer os i sponsor))"
| counted: "offer_step verify A os (snd (decrement_claimed_count os i))"

lemma claimed_ok:
  assumes "offers_ok verify os"
  shows "offers_ok verify (snd (claim_public_offer_with_verification os c now verify))"
  using assms submit_claim_ok [OF assms, of c]
  by (auto simp: claim_public_offer_with_verification_def claim_public_offer_def split: option.splits sum.splits)

lemma offered_ok:
  assumes "offers_ok verify os" "typed_offer o1"
  shows "offers_ok verify (snd (create_public_offer_with_verification os st o1 now verify))"
  using assms create_offer_ok [OF assms(1)]
  by (auto simp: create_public_offer_with_verification_def create_public_offer_def typed_offer_def split: sum.splits)

lemma increment_facts:
  "os_claims (snd (increment_claimed_count os i n)) = os_claims os"
  "os_cancelled (snd (increment_claimed_count os i n)) = os_cancelled os"
  by (auto simp: increment_claimed_count_def Let_def case_prod_beta split: option.splits)

lemma approved_ok:
  assumes "offers_ok verify os" "get_claim os (of_id o1) (cl_claimant c) = Some c"
  shows "offers_ok verify (fst (snd (execute_claim_approval mode H os st o1 c sig t now)))"
proof -
  obtain res os1 where inc: "increment_claimed_count os (of_id o1) (of_max_sponsees o1) = (res, os1)" by fastforce
  have ok1: "offers_ok verify os1" "get_claim os1 (of_id o1) (cl_claimant c) = Some c"
    using offers_ok_counts(1) [OF assms(1), of "of_id o1" "of_max_sponsees o1"] increment_facts(1) [of os "of_id o1" "of_max_sponsees o1"]
      assms(2) by (simp_all add: inc get_claim_def)
  show ?thesis
    using assms(1) update_approved_ok [OF ok1, of "Some sig"] ok1(1)
    by (simp add: execute_claim_approval_def Let_def inc split: sum.splits)
qed

lemma offer_step_ok: "offer_step verify A os os1 \<Longrightarrow> offers_ok verify os \<Longrightarrow> offers_ok verify os1"
proof (induction rule: offer_step.induct)
  case (rejected os i x sponsor)
  then show ?case using remove_claim_ok by (auto simp: reject_claim_def split: option.splits)
next
  case (withdrawn os i sponsor)
  then show ?case using delete_offer_ok(1) by (auto simp: cancel_offer_def split: option.splits)
qed (simp_all add: handle_offer_ok handle_claim_ok handle_response_ok handle_list_ok handle_cancel_ok offered_ok claimed_ok approved_ok
    offers_ok_counts create_offer_ok typed_offer_def)

interpretation offers: stepping_component "\<lambda>os. os = os_empty" "offer_step verify A" "offers_ok verify" for verify A
proof
  show "offers_ok verify os" if "os = os_empty" for os
    using that by (simp add: offers_ok_def os_empty_def get_offer_def tree_get_def)
  show "offers_ok verify os1" if "offers_ok verify os" "offer_step verify A os os1" for os os1
    using that offer_step_ok by blast
qed

lemma list_by_sponsor_exact:
  assumes ok: "offers_ok verify os" and "length p = 32"
  shows "o1 \<in> set (list_by_sponsor os p) \<longleftrightarrow> get_offer os (of_id o1) = Some o1 \<and> of_sponsor o1 = p"
proof
  assume "o1 \<in> set (list_by_sponsor os p)"
  then obtain k u where e: "(k, u) \<in> set (scan_prefix (os_by_sponsor os) p)" "get_offer os (byte_slice k 32 16) = Some o1"
    unfolding list_by_sponsor_def map_filter_member by (auto split: if_splits)
  from e(1) have "k \<in> fst ` set (scan_prefix (os_by_sponsor os) p)" by (metis fst_conv image_eqI)
  with e(2) have k: "k \<in> fst ` set (os_by_sponsor os)" "take 32 k = p" "get_offer os (byte_slice k 32 16) = Some o1"
    unfolding scan_prefix_keys assms(2) by simp_all
  then obtain i o2 where o2: "get_offer os i = Some o2" "k = of_sponsor o2 @ i"
    using offers_okD(2) [OF ok, of k] unfolding tree_get_dom by blast
  have "length (of_sponsor o2) = 32" "length i = 16" "of_id o2 = i" using offers_okD(1) [OF ok o2(1)] by (simp_all add: offer_ok_def)
  then show "get_offer os (of_id o1) = Some o1 \<and> of_sponsor o1 = p" using k(2,3) o2 by (simp add: byte_slice_def)
next
  assume o1: "get_offer os (of_id o1) = Some o1 \<and> of_sponsor o1 = p"
  have l: "length (of_id o1) = 16" using o1 offers_okD(1) [OF ok] by (auto simp: offer_ok_def)
  have "p @ of_id o1 \<in> fst ` set (os_by_sponsor os)" using offers_okD(2) [OF ok] o1 unfolding tree_get_dom by blast
  then have "p @ of_id o1 \<in> fst ` set (scan_prefix (os_by_sponsor os) p)" by (simp add: scan_prefix_keys)
  then obtain u where "(p @ of_id o1, u) \<in> set (scan_prefix (os_by_sponsor os) p)" by auto
  then show "o1 \<in> set (list_by_sponsor os p)"
    unfolding list_by_sponsor_def map_filter_member
    using o1 assms(2) l by (intro image_eqI [of _ _ "(p @ of_id o1, u)"]) (simp_all add: byte_slice_def)
qed

text \<open>
  C27. In every state the store of offers reaches, whatever peers send: an offer is filed under its id, carries a
  signature of its sponsor that verifies, and is bound to a space if it approves claims by itself; the offers
  listed for a sponsor are exactly the stored offers of that sponsor; and every stored claim is for an offer in
  the store. What the signature covers is the terms of the offer, not its id, its space and whether it approves
  by itself.
\<close>

theorem reachable_offers_ok:
  assumes "(offer_step verify A)\<^sup>*\<^sup>* os_empty os"
  shows "(get_offer os i = Some o1 \<longrightarrow>
      of_id o1 = i \<and> verify (of_sponsor o1) (offer_signature_message o1) (of_signature o1) \<and>
      (of_auto_approve o1 \<longrightarrow> of_space_scope o1 \<noteq> None)) \<and>
    (length p = 32 \<longrightarrow> (o1 \<in> set (list_by_sponsor os p) \<longleftrightarrow> get_offer os (of_id o1) = Some o1 \<and> of_sponsor o1 = p)) \<and>
    (get_claim os i x = Some c \<and> length i = 16 \<longrightarrow> cl_offer_id c = i \<and> cl_claimant c = x \<and> get_offer os i \<noteq> None)"
proof -
  have ok: "offers_ok verify os" using offers.good_reachable [OF _ assms] by simp
  show ?thesis
    using offers_okD(1) [OF ok, of i o1] list_by_sponsor_exact [OF ok, of p o1] offers_okD(3) [OF ok, of "i @ x" c]
    by (auto simp: offer_ok_def get_claim_def)
qed

subsection \<open>Cancellations last\<close>

lemma cancelled_facts [simp]:
  "is_offer_cancelled (snd (create_offer os o1)) = is_offer_cancelled os"
  "is_offer_cancelled (snd (submit_claim os c)) = is_offer_cancelled os"
  "is_offer_cancelled (snd (update_claim os c)) = is_offer_cancelled os"
  "is_offer_cancelled (remove_claim os i x) = is_offer_cancelled os"
  "is_offer_cancelled (snd (delete_offer os i)) = is_offer_cancelled os"
  "is_offer_cancelled (snd (increment_claimed_count os i n)) = is_offer_cancelled os"
  "is_offer_cancelled (snd (decrement_claimed_count os i)) = is_offer_cancelled os"
  by (auto simp: is_offer_cancelled_def create_offer_def submit_claim_def update_claim_def remove_claim_def delete_offer_def
      increment_facts(2) decrement_claimed_count_def Let_def case_prod_beta fun_eq_iff split: option.splits)

lemma cancelled_after:
  "create_offer os o1 = (r, os1) \<Longrightarrow> is_offer_cancelled os1 = is_offer_cancelled os"
  "submit_claim os c = (r, os1) \<Longrightarrow> is_offer_cancelled os1 = is_offer_cancelled os"
  "update_claim os c = (r, os1) \<Longrightarrow> is_offer_cancelled os1 = is_offer_cancelled os"
  "increment_claimed_count os i n = (r', os1) \<Longrightarrow> is_offer_cancelled os1 = is_offer_cancelled os"
  using cancelled_facts [of os] by (metis snd_conv)+

lemma cancelled_tombstone: "is_offer_cancelled (tombstone_offer os i t) j \<longleftrightarrow> is_offer_cancelled os j \<or> j = i"
  by (auto simp: is_offer_cancelled_def tombstone_offer_def)

lemma cancelled_learn [simp]: "is_offer_cancelled (learn_listed_offer verify enc dec now os bs) = is_offer_cancelled os"
  by (simp add: learn_listed_offer_def Let_def cancelled_after(1) split: sum.splits prod.splits option.splits)

lemma cancelled_list [simp]:
  "is_offer_cancelled (offer_list_loop (learn_listed_offer verify enc dec now) payload n pos os) = is_offer_cancelled os"
  by (induction n arbitrary: pos os) (simp_all add: Let_def)

lemma cancelled_step: "offer_step verify A os os1 \<Longrightarrow> is_offer_cancelled os i \<Longrightarrow> is_offer_cancelled os1 i"
proof (induction rule: offer_step.induct)
  case (offer_message os dec payload now)
  then show ?case
    by (auto simp: cancelled_after(1) handle_sponsorship_offer_def Let_def split: sum.splits prod.splits)
next
  case (claim_message os pdec payload)
  then show ?case
    by (auto simp: cancelled_after(2) handle_sponsorship_claim_def split: sum.splits prod.splits)
next
  case (response_message os payload)
  then show ?case
    by (auto simp: cancelled_after(3) handle_sponsorship_claim_response_def split: sum.splits prod.splits response_type.splits option.splits)
next
  case (list_message os enc dec payload now)
  then show ?case by (simp add: handle_sponsorship_offer_list_def)
next
  case (cancel_message os payload)
  then show ?case by (auto simp: handle_sponsorship_offer_cancel_def cancelled_tombstone split: sum.splits)
next
  case (approved os o1 c mode H st sig t now)
  then show ?case
    by (auto simp: cancelled_after(4) execute_claim_approval_def Let_def split: sum.splits prod.splits)
qed (auto simp: create_public_offer_with_verification_def create_public_offer_def claim_public_offer_with_verification_def
    claim_public_offer_def reject_claim_def cancel_offer_def split: sum.splits option.splits)

text \<open>Neither a message nor an operation on claims brings back an offer that was cancelled.\<close>

lemma gone_create: "get_offer os i = None \<Longrightarrow> of_id o1 \<noteq> i \<Longrightarrow> get_offer (snd (create_offer os o1)) i = None"
  by (simp add: create_offer_def get_offer_def)

lemma offers_kept [simp]:
  "get_offer (snd (submit_claim os c)) = get_offer os" "get_offer (snd (update_claim os c)) = get_offer os"
  "get_offer (remove_claim os j x) = get_offer os" "get_offer (snd (increment_claimed_count os j n)) = get_offer os"
  "get_offer (snd (decrement_claimed_count os j)) = get_offer os" "get_offer (tombstone_offer os j n') = get_offer os"
  by (auto simp: get_offer_def tombstone_offer_def submit_claim_def update_claim_def remove_claim_def increment_claimed_count_def
      decrement_claimed_count_def Let_def case_prod_beta fun_eq_iff split: option.splits)

lemma offers_kept_after:
  "submit_claim os c = (r, os1) \<Longrightarrow> get_offer os1 = get_offer os" "update_claim os c = (r, os1) \<Longrightarrow> get_offer os1 = get_offer os"
  "increment_claimed_count os j n = (r', os1) \<Longrightarrow> get_offer os1 = get_offer os"
  by (metis offers_kept snd_conv)+

lemma gone_create_after:
  "create_offer os o1 = (r, os1) \<Longrightarrow> get_offer os i = None \<Longrightarrow> of_id o1 \<noteq> i \<Longrightarrow> get_offer os1 i = None"
  using gone_create [of os i o1] by simp

lemma gone_delete: "get_offer os i = None \<Longrightarrow> get_offer (snd (delete_offer os j)) i = None"
  by (auto simp: delete_offer_def get_offer_def split: option.splits)

lemma gone_learn:
  assumes "get_offer os i = None" "is_offer_cancelled os i"
  shows "get_offer (learn_listed_offer verify enc dec now os bs) i = None"
proof (cases "deserialize_offer dec bs")
  case (Inr o1)
  show ?thesis
  proof (cases "of_id o1 = i")
    case True
    then show ?thesis using assms Inr by (simp add: learn_listed_offer_def Let_def)
  next
    case False
    have "get_offer (snd (create_offer s o1)) i = None" if "get_offer s i = None" for s
      using gone_create [OF that False] .
    then show ?thesis using assms Inr by (auto simp: learn_listed_offer_def Let_def case_prod_beta split: sum.split option.split)
  qed
qed (use assms in \<open>simp add: learn_listed_offer_def\<close>)

lemma gone_list:
  "get_offer os i = None \<Longrightarrow> is_offer_cancelled os i \<Longrightarrow>
   get_offer (offer_list_loop (learn_listed_offer verify enc dec now) payload n pos os) i = None"
  by (induction n arbitrary: pos os) (simp_all add: Let_def gone_learn)

lemma gone_offer_message:
  assumes "get_offer os i = None" "is_offer_cancelled os i"
  shows "get_offer (fst (snd (handle_sponsorship_offer verify dec os payload now))) i = None"
proof (cases "deserialize_offer dec (butlast payload)")
  case (Inr o1)
  show ?thesis
  proof (cases "of_id o1 = i")
    case True
    then show ?thesis using assms Inr by (simp add: handle_sponsorship_offer_def Let_def)
  next
    case False
    then show ?thesis
      using assms Inr gone_create [OF assms(1) False]
      by (cases "create_offer os o1") (auto simp: handle_sponsorship_offer_def Let_def split: sum.splits)
  qed
qed (use assms in \<open>simp add: handle_sponsorship_offer_def Let_def\<close>)

lemma gone_step:
  assumes "offer_step verify A os os1" and "i \<notin> A" and "is_offer_cancelled os i" and "get_offer os i = None"
  shows "get_offer os1 i = None"
  using assms
proof (induction rule: offer_step.induct)
  case (offer_message os dec payload now)
  then show ?case by (simp add: gone_offer_message)
next
  case (claim_message os pdec payload)
  then show ?case by (auto simp: offers_kept_after(1) handle_sponsorship_claim_def split: sum.splits prod.splits)
next
  case (response_message os payload)
  then show ?case
    by (auto simp: offers_kept_after(2) handle_sponsorship_claim_response_def split: sum.splits prod.splits response_type.splits option.splits)
next
  case (list_message os enc dec payload now)
  then show ?case by (simp add: handle_sponsorship_offer_list_def gone_list)
next
  case (cancel_message os payload)
  then show ?case
    by (auto simp: handle_sponsorship_offer_cancel_def gone_delete split: sum.splits)
next
  case (offered o1 os st now)
  then have "of_id o1 \<noteq> i" by auto
  with offered show ?case
    by (auto simp: create_public_offer_with_verification_def create_public_offer_def gone_create split: sum.splits)
next
  case (rpc_offered o1 os)
  then have "of_id o1 \<noteq> i" by auto
  with rpc_offered show ?case by (simp add: gone_create)
next
  case (approved os o1 c mode H st sig t now)
  then show ?case
    by (auto simp: offers_kept_after execute_claim_approval_def Let_def split: sum.splits prod.splits)
qed (auto simp: claim_public_offer_with_verification_def claim_public_offer_def reject_claim_def cancel_offer_def gone_delete
    split: sum.splits option.splits)

text \<open>
  C28. Once a node has handled the first signed cancellation of an offer, the offer is gone, and no later message of any
  peer and no operation brings it or a claim for it back under its id, unless the node creates an offer of its
  own under that id again.
\<close>

theorem cancelled_offer_stays_gone:
  assumes "(offer_step verify A)\<^sup>*\<^sup>* os_empty os" and "deserialize_offer_cancel payload = Inr c"
    and "verify (oc_sponsor c) (cancel_signing_message c) (oc_signature c)"
    and "\<And>o1. get_offer os (oc_offer_id c) = Some o1 \<Longrightarrow> of_sponsor o1 = oc_sponsor c"
    and "\<not> is_offer_cancelled os (oc_offer_id c)"
    and "(offer_step verify B)\<^sup>*\<^sup>* (fst (snd (handle_sponsorship_offer_cancel verify os payload))) os'" and "oc_offer_id c \<notin> B"
  shows "get_offer os' (oc_offer_id c) = None \<and> get_claim os' (oc_offer_id c) x = None"
proof -
  let ?os1 = "fst (snd (handle_sponsorship_offer_cancel verify os payload))" and ?i = "oc_offer_id c"
  have ok0: "offers_ok verify os" using offers.good_reachable [OF refl assms(1)] .
  have "is_offer_cancelled ?os1 ?i"
    using assms(2-5) by (auto simp: handle_sponsorship_offer_cancel_def cancelled_tombstone split: option.splits)
  moreover have "get_offer ?os1 ?i = None"
    using assms(2-5) delete_offer_ok(2) [OF ok0, of ?i] by (auto simp: handle_sponsorship_offer_cancel_def split: option.splits)
  ultimately have "is_offer_cancelled ?os1 ?i \<and> get_offer ?os1 ?i = None" by simp
  with assms(6) have gone: "is_offer_cancelled os' ?i \<and> get_offer os' ?i = None"
    by (induction rule: rtranclp_induct) (use assms(7) cancelled_step gone_step in \<open>blast+\<close>)
  have "offers_ok verify ?os1" by (rule handle_cancel_ok [OF ok0])
  with assms(6) have ok: "offers_ok verify os'" by (induction rule: rtranclp_induct) (auto dest: offer_step_ok)
  have "length ?i = 16" using assms(2) by (auto simp: deserialize_offer_cancel_def need_def byte_slice_def rbind_ok)
  then have "get_claim os' ?i x = None"
    using offers_okD(3) [OF ok, of "?i @ x"] gone by (cases "get_claim os' ?i x") (auto simp: get_claim_def)
  with gone show ?thesis by simp
qed

text \<open>
  What a node creates itself is not held against the cancellations: \<open>create_offer\<close> stores an offer whose id was
  cancelled. The RPC method makes ids of the sponsor, the second and the number of places, so an offer that is
  created, cancelled and created again within a second is back, and no further cancellation removes it, because
  the handler takes it for a repetition.
\<close>

theorem cancelled_offer_recreated:
  assumes "of_id o1 = i" "of_auto_approve o1 \<longrightarrow> of_space_scope o1 \<noteq> None"
    and "os' = tombstone_offer (snd (delete_offer os i)) i ts"
    and "deserialize_offer_cancel payload = Inr c" "oc_offer_id c = i"
  shows "is_offer_cancelled (snd (create_offer os' o1)) i \<and> get_offer (snd (create_offer os' o1)) i = Some o1 \<and>
    get_offer (fst (snd (handle_sponsorship_offer_cancel verify (snd (create_offer os' o1)) payload))) i = Some o1"
proof -
  have "get_offer (snd (delete_offer os i)) i = None" by (auto simp: delete_offer_def get_offer_def split: option.splits)
  then have "\<not> offer_exists os' (of_id o1)" using assms(1) by (simp add: assms(3) tombstone_offer_def offer_exists_def get_offer_def)
  with assms(1-3) have "is_offer_cancelled (snd (create_offer os' o1)) i \<and> get_offer (snd (create_offer os' o1)) i = Some o1"
    by (auto simp: create_offer_def get_offer_def is_offer_cancelled_def tombstone_offer_def)
  with assms(4,5) show ?thesis by (simp add: handle_sponsorship_offer_cancel_def)
qed

text \<open>
  The signature of an offer covers neither its id nor its space nor whether it approves claims by itself: any peer
  can take a signed offer, cancelled or not, put another id on it, and have it approve everyone for a
  space of the peer's choice; every node stores the result.
\<close>

theorem offer_relabelled_by_any_peer:
  assumes "verify (of_sponsor o1) (offer_signature_message o1) (of_signature o1)"
    and "o2 = o1\<lparr>of_id := j, of_auto_approve := True, of_space_scope := Some scope\<rparr>"
    and "typed_offer o2" "dec (enc (of_requirements o2)) = Inr (of_requirements o2)" "serialize_offer enc o2 = Inr bs"
    and "\<not> is_offer_cancelled os j" "get_offer os j = None" "now < of_expires_at o1"
  shows "get_offer (fst (snd (handle_sponsorship_offer verify dec os (bs @ [ttl]) now))) j = Some o2"
proof -
  have "deserialize_offer dec bs = Inr o2" using offer_roundtrip [where enc = enc and dec = dec and tail = "[]", OF assms(3-5)] by simp
  moreover have "offer_signature_message o2 = offer_signature_message o1" by (simp add: assms(2) offer_signature_message_def)
  moreover have "\<not> offer_exists os j" using assms(7) by (simp add: offer_exists_def get_offer_def)
  moreover obtain os2 where "create_offer os o2 = (Inr (), os2)" "get_offer os2 j = Some o2"
    using calculation(3) by (simp add: create_offer_def assms(2) get_offer_def)
  moreover have "of_id o2 = j" "of_sponsor o2 = of_sponsor o1" "of_signature o2 = of_signature o1" "\<not> of_expires_at o2 \<le> now"
    using assms(8) by (simp_all add: assms(2))
  ultimately show ?thesis using assms(1,6) by (simp add: handle_sponsorship_offer_def Let_def)
qed

subsection \<open>What a peer can do to the offers and claims of others\<close>

text \<open>
  Any peer can close any offer. The number of claims in a list of offers is believed before the signature
  of the offer is looked at, and the counter is only ever raised: after one list with an unsigned copy of the
  offer that says 255, no claim is accepted any more.
\<close>

theorem offer_closed_by_any_peer:
  assumes "get_offer os i = Some o1" "\<not> is_offer_cancelled os i"
    and "typed_offer o2" "of_id o2 = i" "now < of_expires_at o2"
    and "dec (enc (of_requirements o2)) = Inr (of_requirements o2)" "serialize_offer enc o2 = Inr bs" "length bs < 65535"
    and "cl_offer_id c = i" "now' < of_expires_at o1"
    and "os' = fst (snd (handle_sponsorship_offer_list verify enc dec os
      (u16_le 1 @ u16_le (word_of_nat (length bs + 1)) @ bs @ [255]) now))"
  shows "claim_public_offer os' c now' = (Inl OfferFullyClaimed, os')"
proof -
  let ?p = "u16_le 1 @ u16_le (word_of_nat (length bs + 1)) @ bs @ [255]"
  have len: "unat (u16_of_le (byte_slice ?p 2 2)) = length bs + 1" "unat (u16_of_le (byte_slice ?p 0 2)) = 1"
    using assms(8) unat_u16_of_length [of "length bs + 1"] by (simp_all add: byte_slice_def)
  have entry: "byte_slice ?p 4 (length bs + 1) = bs @ [255]" by (simp add: byte_slice_def)
  have "os' = learn_listed_offer verify enc dec now os (bs @ [255])"
    unfolding assms(11) handle_sponsorship_offer_list_def
    using len entry by (simp add: numeral_eq_Suc [of Num.One])
  moreover have "deserialize_offer dec (bs @ [255]) = Inr o2" by (rule offer_roundtrip [where enc = enc and dec = dec, OF assms(3,6,7)])
  moreover have "offer_exists (snd (bump_claimed_count_to os i 255)) i"
    using assms(1) bump_facts(1) [of os i 255] by (simp add: offer_exists_def get_offer_def [symmetric])
  ultimately have os': "os' = snd (bump_claimed_count_to os i 255)"
    using assms(2,4,5,7) by (simp add: learn_listed_offer_def Let_def not_le)
  have "get_claimed_count os' i = 255"
  proof -
    have "max n (255 :: u8) = 255" for n
      using unsigned_less [where 'a = nat and w = n] by (simp add: max_def word_le_nat_alt)
    then show ?thesis
      by (simp add: os' bump_claimed_count_to_def fetch_and_update_def get_claimed_count_def Let_def)
  qed
  moreover have "of_max_sponsees o1 \<le> 255"
    using unsigned_less [where 'a = nat and w = "of_max_sponsees o1"] by (simp add: word_le_nat_alt)
  ultimately show ?thesis
    using assms(1,9) leD [of "of_expires_at o1" now'] assms(10)
    by (simp add: claim_public_offer_def os' validate_offer_active_def) (simp add: not_le [symmetric])
qed

text \<open>
  Any peer can withdraw the claim of another: a rejection carries no signature and is acted upon without
  asking who sent it.
\<close>

theorem claim_removed_by_any_peer:
  assumes "get_offer os i \<noteq> None" "length i = 16" "length x = 32"
  shows "get_claim (fst (snd (handle_sponsorship_claim_response os
      (serialize_claim_response \<lparr>rp_offer_id = i, rp_claimant = x, rp_type = Rejected, rp_signature = None\<rparr>)))) i x = None"
proof -
  have "deserialize_claim_response (serialize_claim_response
      \<lparr>rp_offer_id = i, rp_claimant = x, rp_type = Rejected, rp_signature = None\<rparr>) =
      Inr \<lparr>rp_offer_id = i, rp_claimant = x, rp_type = Rejected, rp_signature = None\<rparr>"
    using assms(2,3) by (intro response_roundtrip) simp_all
  then show ?thesis using assms(1) by (auto simp: handle_sponsorship_claim_response_def remove_claim_def get_claim_def)
qed

subsection \<open>The wire\<close>

text \<open>
  What the wire keeps: an offer arrives as it was sent, whatever follows it; a claim arrives as it was sent
  but for its nonce space, which arrives as zeros, an approval, which is not sent, and an empty application,
  which arrives as none; an approval with its signature, a rejection without one and a cancellation arrive as
  they were sent.
\<close>

theorem sponsorship_wire_roundtrip:
  assumes "dec (enc (of_requirements o1)) = Inr (of_requirements o1)"
    and "pdec (penc (cl_pow c)) = Inr (cl_pow c)" "penc (cl_pow c) \<noteq> []" "length (penc (cl_pow c)) < 65536"
  shows "(typed_offer o1 \<and> serialize_offer enc o1 = Inr bs \<longrightarrow> deserialize_offer dec (bs @ rest) = Inr o1) \<and>
    (typed_claim c \<and> serialize_claim penc c = Inr cs \<longrightarrow>
       deserialize_claim pdec cs = Inr (c\<lparr>cl_pow_nonce_space := zero32, cl_approval := None,
         cl_application := (if cl_application c = Some [] then None else cl_application c)\<rparr>)) \<and>
    (length (rp_offer_id r) = 16 \<and> length (rp_claimant r) = 32 \<and>
     (case rp_signature r of Some sig \<Rightarrow> rp_type r = Approved \<and> length sig = 64 | None \<Rightarrow> rp_type r = Rejected) \<longrightarrow>
       deserialize_claim_response (serialize_claim_response r) = Inr r) \<and>
    (length (oc_offer_id x) = 16 \<and> length (oc_sponsor x) = 32 \<and> length (oc_signature x) = 64 \<longrightarrow>
       deserialize_offer_cancel (serialize_offer_cancel x) = Inr x)"
  using offer_roundtrip [of o1 dec enc bs rest] claim_roundtrip [of c pdec penc cs] response_roundtrip [of r]
    cancel_roundtrip [of x] assms
  by (simp del: fun_upd_apply)

text \<open>
  The work of a claimant is lost on the way to the sponsor: whatever nonce space the claimant worked on,
  the action made of a claim that came over the wire names the zero target, and counts the work of its nonce
  there.
\<close>

theorem relayed_claim_loses_target:
  assumes "deserialize_claim pdec cs = Inr c" and "execute_claim_approval mode H os st o1 c sig t now = (Inr r, os', Some a)"
  shows "act_pow_target a = zero32 \<and>
    act_pow_work a = word_of_nat (length (takeWhile (\<lambda>b. b = 0) (H (zero32 @ u64_le (ip_nonce (cl_pow c))))))"
proof -
  have "cl_pow_nonce_space c = zero32" using assms(1) by (auto simp: deserialize_claim_def Let_def rbind_ok)
  then show ?thesis using assms(2)
    by (auto simp: execute_claim_approval_def Let_def new_sponsor_scoped_with_pow_def claim_pow_work_def
        split: if_splits sum.splits prod.splits)
qed

subsection \<open>Examples\<close>

definition sample_offer :: offer where
  "sample_offer = \<lparr>of_sponsor = replicate 32 1, of_id = replicate 16 7, of_created_at = 100, of_expires_at = 200,
     of_max_sponsees = 3, of_type = OpenOffer,
     of_requirements = \<lparr>rq_min_pow_difficulty = 8, rq_required_attester = None, rq_application_required = False\<rparr>,
     of_signature = replicate 64 0, of_auto_approve = False, of_space_scope = None\<rparr>"

definition sample_offers :: offer_store where
  "sample_offers = snd (create_public_offer_with_verification os_empty ss_empty sample_offer 100 (\<lambda>_ _ _. True))"

lemma sample_offers_eq:
  "sample_offers = os_empty\<lparr>os_offers := [(replicate 16 7, sample_offer)],
     os_by_sponsor := [(replicate 32 1 @ replicate 16 7, ())], os_counts := [(replicate 16 7, 0)]\<rparr>"
  by (simp add: sample_offers_def create_public_offer_with_verification_def create_public_offer_def validate_offer_creation_def
      sample_offer_def time_distance_def MAX_OFFER_SPONSEES_def TIMESTAMP_TOLERANCE_SECONDS_def under_penalty_in_def ss_get_def
      ss_empty_def tree_get_def create_offer_def offer_exists_def os_empty_def tree_insert_def)

lemma sample_typed: "typed_offer sample_offer" "of_id sample_offer = replicate 16 7"
  by (simp_all add: typed_offer_def sample_offer_def)

lemma sample_offers_reached: "(offer_step (\<lambda>_ _ _. True) UNIV)\<^sup>*\<^sup>* os_empty sample_offers"
  unfolding sample_offers_def
  by (rule r_into_rtranclp, rule offer_step.offered) (simp_all add: sample_typed)

lemma sample_get: "get_offer sample_offers (replicate 16 7) = Some sample_offer" "\<not> is_offer_cancelled sample_offers i"
  by (simp_all add: sample_offers_eq get_offer_def is_offer_cancelled_def os_empty_def tree_get_def)

theorem reachable_offers_ok_witness:
  "get_offer sample_offers (replicate 16 7) = Some sample_offer \<and>
   sample_offer \<in> set (list_by_sponsor sample_offers (replicate 32 1))"
  using reachable_offers_ok [OF sample_offers_reached, of "replicate 16 7" sample_offer "replicate 32 1"] sample_get(1)
  by (simp add: sample_typed) (simp add: sample_offer_def)

theorem full_offer_reopens_witness:
  "\<exists>os1 os2. increment_claimed_count (sample_offers\<lparr>os_counts := [([7], 3)]\<rparr>) [7] 3 = (Inl OfferFullyClaimed, os1) \<and>
     increment_claimed_count os1 [7] 3 = (Inr 1, os2)"
  using full_offer_reopens [of "sample_offers\<lparr>os_counts := [([7], 3)]\<rparr>" "[7]" 3 3] by (fastforce simp: tree_get_def)

lemma be_nat_zero_hash: "be_nat (replicate n 0) = 0"
  by (induction n) simp_all

theorem leading_zero_bits_correct_witness: "255 \<le> count_leading_zero_bits (replicate 32 0)"
  using leading_zero_bits_correct [of "replicate 32 0" 255] by (simp add: be_nat_zero_hash)

definition sample_cancel :: offer_cancel where
  "sample_cancel = \<lparr>oc_offer_id = replicate 16 7, oc_sponsor = replicate 32 1, oc_timestamp = 150, oc_signature = replicate 64 0\<rparr>"

theorem cancelled_offer_stays_gone_witness:
  "get_offer (fst (snd (handle_sponsorship_offer_cancel (\<lambda>_ _ _. True) sample_offers (serialize_offer_cancel sample_cancel))))
     (replicate 16 7) = None"
proof -
  have d: "deserialize_offer_cancel (serialize_offer_cancel sample_cancel) = Inr sample_cancel"
    by (rule cancel_roundtrip) (simp_all add: sample_cancel_def)
  have o1: "of_sponsor o1 = oc_sponsor sample_cancel" if "get_offer sample_offers (oc_offer_id sample_cancel) = Some o1" for o1
  proof -
    have "o1 = sample_offer" using that sample_get(1) by (simp add: sample_cancel_def)
    then show ?thesis by (simp add: sample_cancel_def sample_offer_def)
  qed
  from cancelled_offer_stays_gone [OF sample_offers_reached d _ o1 _ rtranclp.rtrancl_refl, of "{}"] sample_get(2) show ?thesis
    by (simp add: sample_cancel_def)
qed

definition sample_enc :: "requirements \<Rightarrow> bytes" where
  "sample_enc r = rq_min_pow_difficulty r # (if rq_application_required r then 1 else 0) #
     (case rq_required_attester r of None \<Rightarrow> [0] | Some a \<Rightarrow> 1 # a)"

definition sample_dec :: "bytes \<Rightarrow> string + requirements" where
  "sample_dec bs =
     (case bs of
        d # p # t # rest \<Rightarrow>
          Inr \<lparr>rq_min_pow_difficulty = d, rq_required_attester = (if t = 0 then None else Some rest),
               rq_application_required = (p = 1)\<rparr>
      | _ \<Rightarrow> Inl ''eof'')"

lemma sample_dec_enc: "sample_dec (sample_enc r) = Inr r"
  by (cases "rq_required_attester r") (simp_all add: sample_dec_def sample_enc_def)

definition sample_pow :: identity_pow where
  "sample_pow = \<lparr>ip_public_key = replicate 32 3, ip_timestamp = 100, ip_nonce = 5, ip_pow_hash = replicate 32 0\<rparr>"

definition sample_claim :: claim where
  "sample_claim = \<lparr>cl_offer_id = replicate 16 7, cl_claimant = replicate 32 3, cl_claimed_at = 100, cl_pow = sample_pow,
     cl_pow_nonce_space = replicate 32 9, cl_application = None, cl_attestation = None,
     cl_signature = replicate 64 0, cl_approval = None\<rparr>"

theorem offer_closed_by_any_peer_witness:
  "\<exists>bs. serialize_offer sample_enc sample_offer = Inr bs \<and>
     (let os' = fst (snd (handle_sponsorship_offer_list (\<lambda>_ _ _. False) sample_enc sample_dec sample_offers
            (u16_le 1 @ u16_le (word_of_nat (length bs + 1)) @ bs @ [255]) 110))
      in claim_public_offer os' sample_claim 120 = (Inl OfferFullyClaimed, os'))"
proof -
  obtain bs where bs: "serialize_offer sample_enc sample_offer = Inr bs" "length bs < 65535"
    by (simp add: serialize_offer_def sample_enc_def sample_offer_def wire_sizes scope_bytes_def)
  then show ?thesis
    using offer_closed_by_any_peer [where enc = sample_enc and dec = sample_dec and verify = "\<lambda>_ _ _. False" and now = 110 and now' = 120 and c = sample_claim,
        OF sample_get sample_typed _ sample_dec_enc bs]
    by (intro exI [of _ bs]) (simp add: Let_def sample_claim_def sample_offer_def)
qed

theorem claim_removed_by_any_peer_witness:
  "get_claim (fst (snd (handle_sponsorship_claim_response (snd (submit_claim sample_offers sample_claim))
      (serialize_claim_response \<lparr>rp_offer_id = replicate 16 7, rp_claimant = replicate 32 3, rp_type = Rejected, rp_signature = None\<rparr>))))
     (replicate 16 7) (replicate 32 3) = None \<and>
   get_claim (snd (submit_claim sample_offers sample_claim)) (replicate 16 7) (replicate 32 3) = Some sample_claim"
proof
  have "get_offer (snd (submit_claim sample_offers sample_claim)) (replicate 16 7) \<noteq> None"
    using sample_get(1) by (simp add: submit_claim_def Let_def get_offer_def)
  then show "get_claim (fst (snd (handle_sponsorship_claim_response (snd (submit_claim sample_offers sample_claim))
      (serialize_claim_response \<lparr>rp_offer_id = replicate 16 7, rp_claimant = replicate 32 3, rp_type = Rejected, rp_signature = None\<rparr>))))
     (replicate 16 7) (replicate 32 3) = None"
    by (rule claim_removed_by_any_peer) simp_all
  show "get_claim (snd (submit_claim sample_offers sample_claim)) (replicate 16 7) (replicate 32 3) = Some sample_claim"
    by (simp add: submit_claim_def Let_def get_claim_def sample_offers_eq os_empty_def tree_get_def tree_insert_def)
      (simp add: sample_claim_def)
qed

theorem sponsorship_wire_roundtrip_witness:
  "\<exists>bs. serialize_offer sample_enc sample_offer = Inr bs \<and> deserialize_offer sample_dec (bs @ [0xFF]) = Inr sample_offer"
proof -
  obtain bs where bs: "serialize_offer sample_enc sample_offer = Inr bs"
    by (simp add: serialize_offer_def sample_enc_def sample_offer_def wire_sizes)
  then show ?thesis
    using sponsorship_wire_roundtrip [where ?o1.0 = sample_offer and enc = sample_enc and dec = sample_dec and bs = bs and rest = "[0xFF]"
        and pdec = "\<lambda>_. Inr sample_pow" and penc = "\<lambda>_. [0]" and c = sample_claim] sample_dec_enc sample_typed(1)
    by (auto simp: sample_claim_def)
qed

end
