(* ===== verification/Formation_Gate.thy ===== *)
theory Formation_Gate
  imports Kv_Tree
begin

text \<open>
  The gate that keeps a node from forming blocks on its own (\<open>src/node/formation_gate.rs\<close>). It opens when
  the node has reached the height its peers advertise or when a grace window has passed, and stays open;
  a block that was validated above the own tip closes it for as long as it stands above. Times are
  milliseconds since the start of the process. The atomic flags that only choose the level of a log line
  are left out.
\<close>

subsection \<open>State\<close>

definition FORMATION_GRACE_SECS :: nat where "FORMATION_GRACE_SECS = 90"
definition FORM_BEHIND_TOLERANCE :: u64 where "FORM_BEHIND_TOLERANCE = 2"
definition CORROBORATING_PEERS :: nat where "CORROBORATING_PEERS = 2"
definition MAX_TRACKED_PEERS :: nat where "MAX_TRACKED_PEERS = 64"
definition CORROBORATION_MAX_HOLD :: nat where "CORROBORATION_MAX_HOLD = 600000"

record formation_gate =
  fg_grace :: nat
  fg_open :: bool
  fg_seen_peer :: bool
  fg_best_peer_height :: u64
  fg_first_peer_offset_ms :: u64
  fg_best_block_height :: u64
  fg_peer_heights :: "(hash32, u64) tree"
  fg_corroboration_since_ms :: u64
  fg_corroboration_max_hold :: nat

definition fg_new :: "nat \<Rightarrow> formation_gate" where
  "fg_new grace =
     \<lparr>fg_grace = grace, fg_open = False, fg_seen_peer = False, fg_best_peer_height = 0,
      fg_first_peer_offset_ms = 0, fg_best_block_height = 0, fg_peer_heights = [],
      fg_corroboration_since_ms = 0, fg_corroboration_max_hold = CORROBORATION_MAX_HOLD\<rparr>"

subsection \<open>Operations\<close>

definition note_validated_block :: "formation_gate \<Rightarrow> u64 \<Rightarrow> formation_gate" where
  "note_validated_block g height = g\<lparr>fg_best_block_height := max (fg_best_block_height g) height\<rparr>"

definition note_peer_height :: "formation_gate \<Rightarrow> hash32 \<Rightarrow> u64 \<Rightarrow> u64 \<Rightarrow> formation_gate" where
  "note_peer_height g peer height elapsed =
     (let g1 = g\<lparr>fg_seen_peer := True, fg_best_peer_height := max (fg_best_peer_height g) height\<rparr>;
          g2 = (if length (fg_peer_heights g1) < MAX_TRACKED_PEERS \<or> tree_get (fg_peer_heights g1) peer \<noteq> None
                then g1\<lparr>fg_peer_heights := tree_insert (fg_peer_heights g1) peer height\<rparr> else g1)
      in if fg_first_peer_offset_ms g2 = 0 then g2\<lparr>fg_first_peer_offset_ms := sat_add elapsed 1\<rparr> else g2)"

definition peers_claiming_above :: "formation_gate \<Rightarrow> u64 \<Rightarrow> nat" where
  "peers_claiming_above g threshold = length (filter (\<lambda>(_, h). h > threshold) (fg_peer_heights g))"

definition grace_deadline :: "formation_gate \<Rightarrow> nat" where
  "grace_deadline g =
     (if fg_first_peer_offset_ms g = 0 then fg_grace g
      else unat (fg_first_peer_offset_ms g - 1) + fg_grace g)"

definition allow_formation :: "formation_gate \<Rightarrow> u64 \<Rightarrow> u64 \<Rightarrow> bool \<times> formation_gate" where
  "allow_formation g our_height elapsed =
     (if fg_best_block_height g > sat_add our_height FORM_BEHIND_TOLERANCE then (False, g)
      else if fg_open g then (True, g)
      else if fg_seen_peer g \<and> our_height \<ge> fg_best_peer_height g
      then (True, g\<lparr>fg_corroboration_since_ms := 0, fg_open := True\<rparr>)
      else if unat elapsed \<ge> grace_deadline g then
        if peers_claiming_above g (sat_add our_height FORM_BEHIND_TOLERANCE) \<ge> CORROBORATING_PEERS then
          let (since, g1) =
            (if fg_corroboration_since_ms g = 0 then (elapsed, g\<lparr>fg_corroboration_since_ms := sat_add elapsed 1\<rparr>)
             else (fg_corroboration_since_ms g - 1, g))
          in if unat (sat_sub elapsed since) \<ge> fg_corroboration_max_hold g1
             then (True, g1\<lparr>fg_open := True\<rparr>) else (False, g1)
        else (True, g\<lparr>fg_corroboration_since_ms := 0, fg_open := True\<rparr>)
      else (False, g))"

subsection \<open>Events\<close>

text \<open>What happens to a gate in the course of time: peers connect, blocks are stored, a block is to be formed.\<close>

datatype gate_event =
    Handshake hash32 u64 u64
  | Validated u64
  | Ask u64 u64

fun gate_step :: "formation_gate \<Rightarrow> gate_event \<Rightarrow> formation_gate" where
  "gate_step g (Handshake peer height elapsed) = note_peer_height g peer height elapsed"
| "gate_step g (Validated height) = note_validated_block g height"
| "gate_step g (Ask height elapsed) = snd (allow_formation g height elapsed)"

definition gate_run :: "formation_gate \<Rightarrow> gate_event list \<Rightarrow> formation_gate" where
  "gate_run = foldl gate_step"

fun event_time :: "gate_event \<Rightarrow> u64 option" where
  "event_time (Handshake _ _ t) = Some t"
| "event_time (Validated _) = None"
| "event_time (Ask _ t) = Some t"

lemma gate_run_append: "gate_run g (es @ fs) = gate_run (gate_run g es) fs"
  by (simp add: gate_run_def)

subsection \<open>What every event keeps\<close>

lemmas gate_defs = note_peer_height_def note_validated_block_def allow_formation_def Let_def

lemma gate_step_keeps:
  "fg_open g \<Longrightarrow> fg_open (gate_step g e)"
  "fg_grace (gate_step g e) = fg_grace g"
  "fg_corroboration_max_hold (gate_step g e) = fg_corroboration_max_hold g"
  "fg_best_block_height g \<le> fg_best_block_height (gate_step g e)"
  "fg_first_peer_offset_ms g \<noteq> 0 \<Longrightarrow> fg_first_peer_offset_ms (gate_step g e) = fg_first_peer_offset_ms g"
  by (cases e; auto simp: gate_defs split: prod.splits if_splits)+

lemma gate_run_keeps:
  "fg_open g \<Longrightarrow> fg_open (gate_run g es)"
  "fg_grace (gate_run g es) = fg_grace g"
  "fg_corroboration_max_hold (gate_run g es) = fg_corroboration_max_hold g"
  "fg_best_block_height g \<le> fg_best_block_height (gate_run g es)"
  "fg_first_peer_offset_ms g \<noteq> 0 \<Longrightarrow> fg_first_peer_offset_ms (gate_run g es) = fg_first_peer_offset_ms g"
proof (induction es arbitrary: g)
  case (Cons e es)
  have run: "gate_run g (e # es) = gate_run (gate_step g e) es" for g by (simp add: gate_run_def)
  { case 1 then show ?case by (simp add: run Cons.IH(1) gate_step_keeps(1)) }
  { case 2 then show ?case by (simp add: run Cons.IH(2) gate_step_keeps(2)) }
  { case 3 then show ?case by (simp add: run Cons.IH(3) gate_step_keeps(3)) }
  { case 4 then show ?case using Cons.IH(4) [of "gate_step g e"] gate_step_keeps(4) [of g e] run by simp }
  { case 5 then show ?case by (simp add: run Cons.IH(5) gate_step_keeps(5)) }
qed (simp_all add: gate_run_def)

lemma gate_run_unvalidated:
  "\<forall>e \<in> set es. \<forall>h. e \<noteq> Validated h \<Longrightarrow> fg_best_block_height (gate_run g es) = fg_best_block_height g"
proof (induction es arbitrary: g)
  case (Cons e es)
  then have "fg_best_block_height (gate_step g e) = fg_best_block_height g"
    by (cases e) (auto simp: gate_defs split: prod.splits if_splits)
  then show ?case using Cons by (simp add: gate_run_def)
qed (simp add: gate_run_def)

text \<open>A running hold is only ended by opening the gate.\<close>

lemma gate_step_hold:
  "fg_corroboration_since_ms g \<noteq> 0 \<Longrightarrow>
   fg_open (gate_step g e) \<or> fg_corroboration_since_ms (gate_step g e) = fg_corroboration_since_ms g"
  by (cases e) (auto simp: gate_defs split: prod.splits if_splits)

lemma gate_run_hold:
  "fg_corroboration_since_ms g \<noteq> 0 \<Longrightarrow>
   fg_open (gate_run g es) \<or> fg_corroboration_since_ms (gate_run g es) = fg_corroboration_since_ms g"
proof (induction es arbitrary: g)
  case (Cons e es)
  have run: "gate_run g (e # es) = gate_run (gate_step g e) es" by (simp add: gate_run_def)
  from gate_step_hold [OF Cons.prems, of e] show ?case
    using Cons.IH [of "gate_step g e"] gate_run_keeps(1) [of "gate_step g e" es] Cons.prems run by auto
qed (simp add: gate_run_def)

subsection \<open>Bounds on the clocks\<close>

definition gate_ok :: "u64 \<Rightarrow> formation_gate \<Rightarrow> bool" where
  "gate_ok t g \<longleftrightarrow>
     unat (fg_corroboration_since_ms g) \<le> unat t + 1 \<and>
     (fg_peer_heights g \<noteq> [] \<longrightarrow> fg_first_peer_offset_ms g \<noteq> 0)"

lemma sat_add_1_neq_0 [simp]: "sat_add (t :: u64) 1 \<noteq> 0"
  using unat_sat_add [of t 1] by (auto simp: unat_eq_zero [symmetric] min_def split: if_splits)

lemma gate_ok_new: "gate_ok t (fg_new grace)"
  by (simp add: gate_ok_def fg_new_def)

lemma gate_ok_step:
  assumes "gate_ok t g" and "\<And>s. event_time e = Some s \<Longrightarrow> s \<le> t"
  shows "gate_ok t (gate_step g e)"
proof (cases e)
  case (Ask height s)
  then have "unat (sat_add s 1) \<le> unat t + 1"
    using assms(2) [of s] unat_sat_add [of s 1] by (auto simp: word_le_nat_alt)
  then show ?thesis using Ask assms(1) by (auto simp: gate_ok_def gate_defs split: prod.splits if_splits)
qed (use assms in \<open>auto simp: gate_ok_def gate_defs split: if_splits\<close>)

lemma gate_ok_run:
  assumes "gate_ok t g" and "\<forall>e \<in> set es. \<forall>s. event_time e = Some s \<longrightarrow> s \<le> t"
  shows "gate_ok t (gate_run g es)"
  using assms
proof (induction es arbitrary: g)
  case (Cons e es)
  then have "gate_ok t (gate_step g e)" by (intro gate_ok_step) auto
  then show ?case using Cons.IH [of "gate_step g e"] Cons.prems by (simp add: gate_run_def)
qed (simp add: gate_run_def)

lemma no_claims: "fg_peer_heights g = [] \<Longrightarrow> peers_claiming_above g h = 0"
  by (simp add: peers_claiming_above_def)

text \<open>What an unbraked question leaves behind: an open gate, or a hold that began in time.\<close>

lemma ask_opens_or_holds:
  assumes "gate_ok t g" and "fg_best_block_height g \<le> sat_add h FORM_BEHIND_TOLERANCE" and "grace_deadline g \<le> unat t"
    and g': "g' = snd (allow_formation g h t)"
  shows "fg_open g' \<or> (fg_corroboration_since_ms g' \<noteq> 0 \<and> fg_first_peer_offset_ms g' = fg_first_peer_offset_ms g \<and>
    fg_first_peer_offset_ms g \<noteq> 0 \<and> unat (fg_corroboration_since_ms g') \<le> unat t + 1)"
proof (cases "fg_open g'")
  case False
  have nb: "\<not> sat_add h FORM_BEHIND_TOLERANCE < fg_best_block_height g" using assms(2) by simp
  have "CORROBORATING_PEERS \<le> peers_claiming_above g (sat_add h FORM_BEHIND_TOLERANCE)"
    using False nb assms(3) unfolding g' allow_formation_def by (auto split: if_splits)
  then have "fg_peer_heights g \<noteq> []" using no_claims [of g] by (auto simp: CORROBORATING_PEERS_def)
  then have "fg_first_peer_offset_ms g \<noteq> 0" using assms(1) by (simp add: gate_ok_def)
  moreover have "fg_corroboration_since_ms g' \<noteq> 0" "fg_first_peer_offset_ms g' = fg_first_peer_offset_ms g"
    using False nb assms(3) unfolding g' allow_formation_def by (auto simp: Let_def split: if_splits prod.splits)
  moreover have "gate_ok t (gate_step g (Ask h t))" using assms(1) by (rule gate_ok_step) simp
  then have "unat (fg_corroboration_since_ms g') \<le> unat t + 1" by (simp add: gate_ok_def g')
  ultimately show ?thesis by blast
qed simp

text \<open>
  C17. Claims of peers delay the forming of blocks but cannot prevent it. Whatever peers connected and claimed
  before and in between: a node that asked once after its grace window, and asks again ten minutes later or
  more, may form a block, unless it has validated a block more than two above its own tip.
\<close>

theorem gate_claims_only_delay:
  assumes "\<forall>e \<in> set es. \<forall>s. event_time e = Some s \<longrightarrow> s \<le> t1"
    and "g = gate_run (fg_new grace) es" and "grace_deadline g \<le> unat t1"
    and "fg_best_block_height g \<le> sat_add h1 FORM_BEHIND_TOLERANCE"
    and "g' = gate_run g (Ask h1 t1 # es')" and "unat t1 + 600000 \<le> unat t2"
    and "fg_best_block_height g' \<le> sat_add h2 FORM_BEHIND_TOLERANCE"
  shows "fst (allow_formation g' h2 t2)"
proof -
  define a where "a = snd (allow_formation g h1 t1)"
  have ok: "gate_ok t1 g" using gate_ok_run [OF gate_ok_new assms(1)] assms(2) by simp
  have g': "g' = gate_run a es'" using assms(5) by (simp add: a_def gate_run_def)
  have nb: "\<not> sat_add h2 FORM_BEHIND_TOLERANCE < fg_best_block_height g'" using assms(7) by simp
  consider "fg_open g'" | "\<not> fg_open g'" by blast
  then show ?thesis
  proof cases
    case 2
    then have "\<not> fg_open a" using gate_run_keeps(1) [of a es'] g' by blast
    then have a: "fg_corroboration_since_ms a \<noteq> 0" "fg_first_peer_offset_ms a = fg_first_peer_offset_ms g"
      "fg_first_peer_offset_ms g \<noteq> 0" "unat (fg_corroboration_since_ms a) \<le> unat t1 + 1"
      using ask_opens_or_holds [OF ok assms(4,3) a_def] by auto
    have since: "fg_corroboration_since_ms g' = fg_corroboration_since_ms a"
      using gate_run_hold [OF a(1), of es'] 2 g' by blast
    have "fg_first_peer_offset_ms g' = fg_first_peer_offset_ms g" "fg_grace g' = fg_grace g"
      using gate_run_keeps(5) [of a es'] a gate_run_keeps(2) [of a es'] gate_step_keeps(2) [of g "Ask h1 t1"] g'
      by (simp_all add: a_def)
    then have dl: "grace_deadline g' \<le> unat t2" using assms(3,6) by (simp add: grace_deadline_def split: if_splits)
    have hold: "fg_corroboration_max_hold g' = 600000"
      using gate_run_keeps(3) [of "fg_new grace" "es @ Ask h1 t1 # es'"] assms(2,5)
      by (simp add: gate_run_append fg_new_def CORROBORATION_MAX_HOLD_def)
    have "unat (fg_corroboration_since_ms g' - 1) = unat (fg_corroboration_since_ms g') - 1"
      using since a(1) by (metis unat_minus_one)
    then have "600000 \<le> unat (sat_sub t2 (fg_corroboration_since_ms g' - 1))"
      using a(4) assms(6) since by (simp add: unat_sat_sub)
    then show ?thesis using nb dl hold since a(1) by (auto simp: allow_formation_def Let_def)
  qed (use nb in \<open>simp add: allow_formation_def\<close>)
qed

text \<open>
  C18. A node never forms a block while it knows of a longer chain: when the gate lets it form one, no block it
  ever validated is more than two above its own tip.
\<close>

theorem gate_stops_behind_validated:
  assumes "fst (allow_formation (gate_run (fg_new grace) es) our_height elapsed)" and "Validated h \<in> set es"
  shows "unat h \<le> unat our_height + 2"
proof -
  obtain es1 es2 where es: "es = es1 @ Validated h # es2" using assms(2) by (meson split_list)
  have "h \<le> fg_best_block_height (gate_run (fg_new grace) es)"
    using gate_run_keeps(4) [of "note_validated_block (gate_run (fg_new grace) es1) h" es2]
    by (simp add: es gate_run_append gate_run_def note_validated_block_def)
  moreover have "fg_best_block_height (gate_run (fg_new grace) es) \<le> sat_add our_height FORM_BEHIND_TOLERANCE"
    using assms(1) by (auto simp: allow_formation_def split: if_splits)
  ultimately have "unat h \<le> unat (sat_add our_height 2)" by (simp add: word_le_nat_alt FORM_BEHIND_TOLERANCE_def)
  then show ?thesis by (simp add: unat_sat_add)
qed

text \<open>
  The claims that count are those of the first 64 peers: once as many are tracked, what any later peer
  advertises is not counted, so the node does not wait for a chain that only later peers report.
\<close>

theorem gate_ignores_later_peers:
  assumes "length (fg_peer_heights g) \<ge> MAX_TRACKED_PEERS" and "tree_get (fg_peer_heights g) peer = None"
  shows "peers_claiming_above (note_peer_height g peer height elapsed) h = peers_claiming_above g h"
  using assms by (simp add: note_peer_height_def peers_claiming_above_def Let_def)

definition sample_claims :: "gate_event list" where
  "sample_claims = [Handshake [1] 500 0, Handshake [2] 500 0]"

lemma sample_gate:
  "grace_deadline (gate_run (fg_new 90000) sample_claims) = 90000"
  "fg_best_block_height (gate_run (fg_new 90000) sample_claims) = 0"
  "fg_best_block_height (gate_run (gate_run (fg_new 90000) sample_claims) [Ask 7 90000, Handshake [3] 900 100000]) = 0"
proof -
  have "sat_add 0 1 = (1 :: u64)" by (simp add: sat_add_def)
  then show "grace_deadline (gate_run (fg_new 90000) sample_claims) = 90000"
    by (simp add: sample_claims_def gate_run_def note_peer_height_def fg_new_def grace_deadline_def Let_def)
  show "fg_best_block_height (gate_run (fg_new 90000) sample_claims) = 0"
    "fg_best_block_height (gate_run (gate_run (fg_new 90000) sample_claims) [Ask 7 90000, Handshake [3] 900 100000]) = 0"
    by (simp_all add: sample_claims_def gate_run_unvalidated) (simp_all add: fg_new_def)
qed

theorem gate_claims_only_delay_witness:
  "fst (allow_formation (gate_run (fg_new 90000) (sample_claims @ [Ask 7 90000, Handshake [3] 900 100000])) 7 690000)"
  unfolding gate_run_append
  by (rule gate_claims_only_delay [where es = sample_claims and ?t1.0 = 90000 and ?h1.0 = 7, OF _ refl _ _ refl])
    (simp_all add: sample_gate sample_claims_def [symmetric], simp add: sample_claims_def)

definition sample_run :: "gate_event list" where
  "sample_run = [Handshake [1] 9 0, Validated 9, Ask 3 10, Validated 4, Ask 5 20]"

text \<open>Two behind the highest validated block the node may form a block, three behind it may not.\<close>

theorem gate_stops_behind_validated_witness:
  "fst (allow_formation (gate_run (fg_new 0) sample_run) 7 30) \<and> \<not> fst (allow_formation (gate_run (fg_new 0) sample_run) 6 30)"
proof
  show "fst (allow_formation (gate_run (fg_new 0) sample_run) 7 30)"
    by (simp add: sample_run_def gate_run_def gate_defs fg_new_def FORM_BEHIND_TOLERANCE_def sat_add_def grace_deadline_def
        peers_claiming_above_def CORROBORATING_PEERS_def MAX_TRACKED_PEERS_def tree_insert_def)
  show "\<not> fst (allow_formation (gate_run (fg_new 0) sample_run) 6 30)"
    using gate_stops_behind_validated [of 0 sample_run 6 30 9] by (auto simp: sample_run_def)
qed

theorem gate_ignores_later_peers_witness:
  "peers_claiming_above (note_peer_height ((fg_new 0)\<lparr>fg_peer_heights := map (\<lambda>i. ([word_of_nat i], 0)) [0 ..< 64]\<rparr>) [64] 900 0) 9 =
   peers_claiming_above ((fg_new 0)\<lparr>fg_peer_heights := map (\<lambda>i. ([word_of_nat i], 0)) [0 ..< 64]\<rparr>) 9"
  by (rule gate_ignores_later_peers) (simp_all add: MAX_TRACKED_PEERS_def tree_get_def upt_rec)

end
