(* ===== verification/Block_Leader.thy ===== *)
theory Block_Leader
  imports Ieee_Round Dht_Id Fork_Choice Mempool
begin

unbundle bit_operations_syntax

text \<open>
  The election of block creators (\<open>src/blocks/leader.rs\<close>) and its two users: the check of a received
  block (\<open>handle_blocks\<close> in \<open>src/node/router/router.rs\<close>) and the decision to form one
  (\<open>spawn_block_formation\<close> in \<open>src/node/tasks.rs\<close>). The identities nearest to a seed, taken from the
  previous block, may create the next one; the share of identities that are near enough grows until, after
  the maximum time, it is everyone. Logarithm and exponential are those of the platform and a parameter;
  all other operations on \<open>f64\<close> are rounded as the standard says.
\<close>

subsection \<open>Functions of the platform\<close>

record libm =
  lm_ln :: "rat \<Rightarrow> rat"
  lm_exp :: "rat \<Rightarrow> rat"
  lm_log2 :: "rat \<Rightarrow> rat"

subsection \<open>Thresholds\<close>

definition TARGET_BLOCK_INTERVAL :: u64 where "TARGET_BLOCK_INTERVAL = 600"
definition MAX_ELIGIBILITY_TIME :: u64 where "MAX_ELIGIBILITY_TIME = 480"
definition BASE_STARTING_PCT :: rat where "BASE_STARTING_PCT = f64_round (1 / 1000)"
definition MIN_STARTING_PCT :: rat where "MIN_STARTING_PCT = f64_round (1 / 100000)"
definition MAX_STARTING_PCT :: rat where "MAX_STARTING_PCT = 10"

definition max_eligibility_time :: "network_mode \<Rightarrow> u64" where
  "max_eligibility_time mode = (case mode of Regtest \<Rightarrow> 45 | _ \<Rightarrow> MAX_ELIGIBILITY_TIME)"

definition leader_distance :: "hash32 \<Rightarrow> hash32 \<Rightarrow> hash32" where
  "leader_distance a b = map2 (XOR) a b"

fun bytes_less_than :: "bytes \<Rightarrow> bytes \<Rightarrow> bool" where
  "bytes_less_than (x # xs) (y # ys) = (if x < y then True else if y < x then False else bytes_less_than xs ys)"
| "bytes_less_than _ _ = False"

text \<open>The loop over the bytes of a threshold, most significant first.\<close>

primrec threshold_loop :: "nat \<Rightarrow> rat \<Rightarrow> bytes" where
  "threshold_loop 0 remaining = []"
| "threshold_loop (Suc n) remaining =
     (let byte = word_of_int \<lfloor>min (f64_round (remaining * 256)) 255\<rfloor>;
          rest = f64_signed (f64_round (remaining * 256) - of_nat (unat byte))
      in byte # (if rest \<le> 0 then replicate n 0 else threshold_loop n rest))"

definition threshold_for_percentage :: "libm \<Rightarrow> rat \<Rightarrow> bytes" where
  "threshold_for_percentage M pct =
     (if pct \<ge> 100 then replicate 32 0xFF
      else if pct \<le> 0 then replicate 32 0
      else
        let fraction = f64_round (pct / 100)
        in if fraction < f64_round (1 / u64_f64 (- 1))
           then
             let leading_zero_bits = nat \<lfloor>- lm_log2 M fraction\<rfloor>;
                 leading_zero_bytes = leading_zero_bits div 8
             in if leading_zero_bytes < 32
                then replicate leading_zero_bytes 0 @ drop_bit (leading_zero_bits mod 8) 0xFF #
                  replicate (31 - leading_zero_bytes) 0xFF
                else replicate 32 0
           else threshold_loop 32 fraction)"

definition threshold_at_elapsed :: "libm \<Rightarrow> u64 \<Rightarrow> rat \<Rightarrow> u64 \<Rightarrow> bytes" where
  "threshold_at_elapsed M elapsed starting_pct max_time =
     (if elapsed \<ge> max_time then replicate 32 0xFF
      else if elapsed = 0 then threshold_for_percentage M starting_pct
      else
        let start_log = lm_ln M starting_pct;
            end_log = lm_ln M 100;
            progress = f64_round (u64_f64 elapsed / u64_f64 max_time);
            current_log = f64_signed (start_log + f64_signed (f64_signed (end_log - start_log) * progress))
        in threshold_for_percentage M (lm_exp M current_log))"

definition calculate_starting_percentage :: "u64 list \<Rightarrow> u64 \<Rightarrow> rat" where
  "calculate_starting_percentage timestamps target_interval =
     (if length timestamps < 2 then BASE_STARTING_PCT
      else
        let total_time = sat_sub (last timestamps) (hd timestamps)
        in if total_time = 0 then BASE_STARTING_PCT
           else
             let avg_interval = total_time div word_of_nat (length timestamps - 1);
                 ratio = f64_round (u64_f64 avg_interval / u64_f64 target_interval);
                 adjusted = f64_round (BASE_STARTING_PCT * ratio)
             in if adjusted < MIN_STARTING_PCT then MIN_STARTING_PCT
                else if adjusted > MAX_STARTING_PCT then MAX_STARTING_PCT else adjusted)"

definition compute_block_seed :: "(bytes \<Rightarrow> hash32) \<Rightarrow> hash32 \<Rightarrow> bytes \<Rightarrow> hash32" where
  "compute_block_seed H prev_block_hash space_id = H (prev_block_hash @ space_id)"

subsection \<open>Eligibility\<close>

record block_eligibility =
  be_block_seed :: hash32
  be_prev_timestamp :: u64
  be_starting_pct :: rat
  be_max_time :: u64

definition be_new :: "network_mode \<Rightarrow> (bytes \<Rightarrow> hash32) \<Rightarrow> hash32 \<Rightarrow> u64 \<Rightarrow> bytes \<Rightarrow> u64 list \<Rightarrow> block_eligibility" where
  "be_new mode H prev_hash prev_timestamp space_id recent =
     \<lparr>be_block_seed = compute_block_seed H prev_hash space_id, be_prev_timestamp = prev_timestamp,
      be_starting_pct = calculate_starting_percentage recent TARGET_BLOCK_INTERVAL,
      be_max_time = max_eligibility_time mode\<rparr>"

definition threshold_at :: "libm \<Rightarrow> block_eligibility \<Rightarrow> u64 \<Rightarrow> bytes" where
  "threshold_at M e now =
     threshold_at_elapsed M (sat_sub now (be_prev_timestamp e)) (be_starting_pct e) (be_max_time e)"

definition is_eligible :: "libm \<Rightarrow> block_eligibility \<Rightarrow> hash32 \<Rightarrow> u64 \<Rightarrow> bool" where
  "is_eligible M e identity now =
     (if sat_sub now (be_prev_timestamp e) \<ge> be_max_time e then True
      else bytes_less_than (leader_distance (be_block_seed e) identity) (threshold_at M e now))"

definition can_create_block :: "libm \<Rightarrow> block_eligibility \<Rightarrow> hash32 \<Rightarrow> u64 \<Rightarrow> u64 \<Rightarrow> u64 \<Rightarrow> bool" where
  "can_create_block M e identity pow_accumulated pow_threshold now \<longleftrightarrow>
     pow_accumulated \<ge> pow_threshold \<and> is_eligible M e identity now"

lemma midpoint:
  fixes low high :: u64
  assumes "low < high"
  shows "unat (low + (high - low) div 2) = unat low + (unat high - unat low) div 2"
proof -
  have "unat low < unat high" "unat high < 2 ^ 64" using assms unat_u64_less [of high] by (simp_all add: word_less_nat_alt)
  moreover have "unat ((high - low) div 2) = (unat high - unat low) div 2"
    using assms by (simp add: unat_div unat_sub word_le_nat_alt word_less_nat_alt)
  ultimately show ?thesis by (subst unat_add_lem [THEN iffD1]) simp_all
qed

lemma midpoint_bounds:
  fixes low high :: u64
  assumes "low < high" and "mid = low + (high - low) div 2"
  shows "low \<le> mid" "mid < high" "unat (mid + 1) = unat mid + 1" "mid + 1 \<le> high"
proof -
  have l: "unat low < unat high" "unat high < 2 ^ 64" using assms unat_u64_less [of high] by (simp_all add: word_less_nat_alt)
  have m: "unat mid = unat low + (unat high - unat low) div 2" using midpoint [OF assms(1)] assms(2) by simp
  then show 1: "low \<le> mid" "mid < high" using l by (auto simp: word_le_nat_alt word_less_nat_alt)
  then have "unat mid + 1 < 2 ^ 64" using l by (simp add: word_less_nat_alt)
  then show "unat (mid + 1) = unat mid + 1" by (subst unat_add_lem [THEN iffD1]) simp_all
  then show "mid + 1 \<le> high" using 1 by (simp add: word_le_nat_alt word_less_nat_alt)
qed

text \<open>The binary search for the time at which an identity becomes eligible.\<close>

function eligible_search :: "(u64 \<Rightarrow> bool) \<Rightarrow> u64 \<Rightarrow> u64 \<Rightarrow> u64" where
  "eligible_search eligible low high =
     (if low < high then
        let mid = low + (high - low) div 2
        in if eligible mid then eligible_search eligible low mid else eligible_search eligible (mid + 1) high
      else low)"
  by pat_completeness auto

termination
proof (relation "measure (\<lambda>(_, low, high). unat high - unat low)")
  fix eligible and low high mid :: u64
  assume "low < high" and "mid = low + (high - low) div 2"
  note m = midpoint_bounds [OF this] \<open>low < high\<close>
  then show "((eligible, low, mid), eligible, low, high) \<in> measure (\<lambda>(_, low, high). unat high - unat low)"
    "((eligible, mid + 1, high), eligible, low, high) \<in> measure (\<lambda>(_, low, high). unat high - unat low)"
    by (auto simp: word_less_nat_alt word_le_nat_alt)
qed simp

declare eligible_search.simps [simp del]

definition when_eligible :: "libm \<Rightarrow> block_eligibility \<Rightarrow> hash32 \<Rightarrow> u64 \<Rightarrow> u64 option" where
  "when_eligible M e identity now =
     (if is_eligible M e identity now then None
      else Some (eligible_search (is_eligible M e identity) now (be_prev_timestamp e + be_max_time e)))"

definition validate_block_leader ::
  "network_mode \<Rightarrow> (bytes \<Rightarrow> hash32) \<Rightarrow> libm \<Rightarrow> hash32 \<Rightarrow> u64 \<Rightarrow> hash32 \<Rightarrow> u64 \<Rightarrow> bytes \<Rightarrow> u64 list \<Rightarrow> bool" where
  "validate_block_leader mode H M creator timestamp prev_hash prev_timestamp space_id recent =
     is_eligible M (be_new mode H prev_hash prev_timestamp space_id recent) creator timestamp"

subsection \<open>The check of a received block\<close>

primrec ancestor_timestamps :: "nat \<Rightarrow> chain_store \<Rightarrow> hash32 \<Rightarrow> u64 list" where
  "ancestor_timestamps 0 s cursor = []"
| "ancestor_timestamps (Suc n) s cursor =
     (case get_root_block s cursor of
        Some ancestor \<Rightarrow>
          rb_timestamp ancestor #
            (if rb_prev_root_hash ancestor = zero32 then []
             else ancestor_timestamps n s (rb_prev_root_hash ancestor))
      | None \<Rightarrow> [])"

definition leader_accepted ::
  "network_mode \<Rightarrow> (bytes \<Rightarrow> hash32) \<Rightarrow> libm \<Rightarrow> chain_store \<Rightarrow> bool \<Rightarrow> root_block \<Rightarrow> bool" where
  "leader_accepted mode H M s known_header_backfill block =
     (if \<not> known_header_backfill \<and> rb_height block > 0 \<and> rb_block_creator block \<noteq> zero32 then
        (case get_root_block s (rb_prev_root_hash block) of
           Some prev \<Rightarrow>
             validate_block_leader mode H M (rb_block_creator block) (rb_timestamp block) (rb_prev_root_hash block)
               (rb_timestamp prev) (replicate 16 0) (rev (ancestor_timestamps 11 s (rb_prev_root_hash block)))
         | None \<Rightarrow> True)
      else True)"

subsection \<open>The decision to form a block\<close>

definition recent_timestamps :: "chain_store \<Rightarrow> u64 \<Rightarrow> u64 list" where
  "recent_timestamps s tip_height =
     List.map_filter (\<lambda>h. case get_root_hash_at_height s h of
                           Some hash \<Rightarrow> map_option rb_timestamp (get_root_block s hash)
                         | None \<Rightarrow> None)
       (u64_range (sat_sub tip_height 10) tip_height)"

definition quantize :: "u64 \<Rightarrow> u64" where
  "quantize raw = raw div TIMESTAMP_QUANTUM_SECS * TIMESTAMP_QUANTUM_SECS"

definition BLOCK_FORMATION_CHECK_INTERVAL_SECS :: u64 where "BLOCK_FORMATION_CHECK_INTERVAL_SECS = 300"

definition block_formation_check_interval_secs :: "network_mode \<Rightarrow> u64" where
  "block_formation_check_interval_secs mode =
     (case mode of Mainnet \<Rightarrow> BLOCK_FORMATION_CHECK_INTERVAL_SECS | _ \<Rightarrow> 30)"

definition formation_eligible ::
  "network_mode \<Rightarrow> (bytes \<Rightarrow> hash32) \<Rightarrow> libm \<Rightarrow> chain_store \<Rightarrow> hash32 \<Rightarrow> u64 \<Rightarrow> bool \<times> u64" where
  "formation_eligible mode H M s identity now =
     (case get_best_tip_block s of
        Some prev \<Rightarrow>
          let e = be_new mode H (rb_hash H prev) (rb_timestamp prev) (replicate 16 0) (recent_timestamps s (rb_height prev));
              eligible = is_eligible M e identity now
          in (eligible, if eligible then 0
                        else case when_eligible M e identity now of
                               Some t \<Rightarrow> sat_sub t now
                             | None \<Rightarrow> block_formation_check_interval_secs mode)
      | None \<Rightarrow> (True, 0))"

end
