(* ===== verification/Leader_Correct.thy ===== *)
theory Leader_Correct
  imports Block_Leader
begin

unbundle bit_operations_syntax

text \<open>
  What the election of block creators guarantees: the share of identities that a percentage admits is
  exact, the search for the time of one's turn is right, and whoever forms a block by its own judgement
  is accepted by every node that knows the chain it extends.
\<close>

subsection \<open>Thresholds are exact\<close>

lemma is_float_scale: "is_float p x \<Longrightarrow> is_float p (x * 256)"
proof -
  assume "is_float p x"
  then obtain m e where m: "0 \<le> m" "m < 2 ^ p" "x = of_int m * 2 powi e" by (auto simp: is_float_def)
  have "(2 :: rat) powi (e + 8) = 2 powi e * 256" by (simp add: power_int_add)
  then have "x * 256 = of_int m * 2 powi (e + 8)" by (simp add: m(3))
  with m show ?thesis unfolding is_float_def by blast
qed

lemma is_float_frac:
  assumes "is_float p x"
  shows "is_float p (x - of_int \<lfloor>x\<rfloor>)"
proof -
  obtain m e where m: "0 \<le> m" "m < 2 ^ p" "x = of_int m * 2 powi e" using assms by (auto simp: is_float_def)
  show ?thesis
  proof (cases "0 \<le> e")
    case True
    then have "x = of_int (m * 2 ^ nat e)" by (simp add: m(3) power_int_def)
    then have "x - of_int \<lfloor>x\<rfloor> = of_int 0 * 2 powi 0" by (metis diff_self floor_of_int mult_zero_left of_int_0)
    then show ?thesis unfolding is_float_def by (intro exI [of _ 0]) (simp add: exI [of _ 0])
  next
    case False
    define d :: int where "d = 2 ^ nat (- e)"
    have pow: "2 powi e = (1 / of_int d :: rat)"
    proof -
      have e: "e = - int (nat (- e))" using False by simp
      have "(2 :: rat) powi (- int (nat (- e))) = 1 / of_int (2 ^ nat (- e))"
        by (simp only: power_int_minus power_int_of_nat of_int_power of_int_numeral divide_inverse mult_1)
      then show ?thesis unfolding d_def e [symmetric] .
    qed
    have d: "0 < d" "x = of_int m / of_int d" unfolding m(3) pow by (simp_all add: d_def)
    have fl: "\<lfloor>x\<rfloor> = m div d" unfolding d(2) by (rule floor_divide_of_int_eq)
    have "(of_int m :: rat) = of_int (m div d * d + m mod d)" by simp
    then have "(of_int m :: rat) = of_int (m div d) * of_int d + of_int (m mod d)" unfolding of_int_add of_int_mult .
    then have "x = of_int (m div d) + of_int (m mod d) / of_int d"
      unfolding d(2) using d(1) by (simp add: add_divide_distrib)
    then have "x - of_int \<lfloor>x\<rfloor> = of_int (m mod d) / of_int d" unfolding fl by simp
    also have "\<dots> = of_int (m mod d) * 2 powi e" unfolding pow by simp
    finally have "x - of_int \<lfloor>x\<rfloor> = of_int (m mod d) * 2 powi e" .
    moreover have "0 \<le> m mod d" "m mod d \<le> m" using d(1) m(1) by (simp_all add: zmod_le_nonneg_dividend)
    ultimately show ?thesis unfolding is_float_def using m(2) by (intro exI [of _ "m mod d"] exI [of _ e]) simp
  qed
qed

lemma f64_round_float: "is_float 53 x \<Longrightarrow> f64_round x = x"
  unfolding f64_round_def by (rule float_round_exact) simp_all

lemma be_nat_replicate_0 [simp]: "be_nat (replicate n 0) = 0"
  by (induction n) simp_all

lemma length_threshold_loop [simp]: "length (threshold_loop n r) = n"
  by (induction n arbitrary: r) (simp_all add: Let_def)

text \<open>A floating-point fraction that fits into the bytes is written out digit by digit.\<close>

lemma threshold_loop_exact:
  assumes "is_float 53 r" "0 \<le> r" "r < 1" and "r * 256 ^ n = of_nat k"
  shows "be_nat (threshold_loop n r) = k"
  using assms
proof (induction n arbitrary: r k)
  case 0
  then have "(of_nat k :: rat) < of_nat 1" by simp
  then have "k = 0" unfolding of_nat_less_iff by simp
  then show ?case by simp
next
  case (Suc n)
  define v where "v = r * 256"
  define b where "b = \<lfloor>v\<rfloor>"
  have v: "0 \<le> v" "v < 256" "is_float 53 v" using Suc.prems is_float_scale by (simp_all add: v_def)
  have b: "0 \<le> b" "b \<le> 255" using v by (simp_all add: b_def)
  have fv: "f64_round v = v" using v(3) by (rule f64_round_float)
  have mn: "\<lfloor>min v 255\<rfloor> = b"
  proof (cases "v \<le> 255")
    case False
    then have "255 \<le> b" by (simp add: b_def le_floor_iff)
    with b False show ?thesis by (simp add: min_def)
  qed (simp add: b_def min_def)
  have ub: "unat (word_of_int b :: byte) = nat b" using b by (simp add: unat_eq_nat_uint take_bit_int_eq_self uint_word_of_int_eq)
  define rest where "rest = v - of_int b"
  have rest: "0 \<le> rest" "rest < 1" "is_float 53 rest"
    using floor_correct [of v] is_float_frac [OF v(3)] unfolding rest_def b_def by simp_all
  have fr: "f64_signed (v - of_nat (nat b)) = rest"
    using rest b by (simp add: rest_def f64_signed_nonneg f64_round_float of_nat_nat)
  have loop: "threshold_loop (Suc n) r = word_of_int b # (if rest \<le> 0 then replicate n 0 else threshold_loop n rest)"
    unfolding threshold_loop.simps v_def [symmetric] fv mn ub Let_def fr ..
  have keq: "rest * 256 ^ n = of_int (int k - b * 256 ^ n)"
    using Suc.prems(4) unfolding rest_def v_def by (simp add: algebra_simps)
  then have "(0 :: rat) \<le> of_int (int k - b * 256 ^ n)" using rest(1) by (metis mult_nonneg_nonneg zero_le_numeral zero_le_power)
  then have nn: "0 \<le> int k - b * 256 ^ n" by (simp only: of_int_0_le_iff)
  define j where "j = nat (int k - b * 256 ^ n)"
  have "of_int (int k - b * 256 ^ n) = (of_nat j :: rat)" unfolding j_def of_nat_nat [OF nn] ..
  with keq have j: "rest * 256 ^ n = of_nat j" by simp
  have tail: "be_nat (if rest \<le> 0 then replicate n 0 else threshold_loop n rest) = j"
  proof (cases "rest \<le> 0")
    case True
    then have "(of_nat j :: rat) = 0" using j rest(1) by simp
    then show ?thesis using True by simp
  next
    case False
    then show ?thesis using Suc.IH [OF rest(3,1,2) j] by simp
  qed
  have "int (nat b * 256 ^ n + j) = int k" using nn b(1) by (simp add: j_def)
  then have "nat b * 256 ^ n + j = k" by (simp only: of_nat_eq_iff)
  moreover have "length (if rest \<le> 0 then replicate n 0 else threshold_loop n rest) = n" by simp
  ultimately show ?case unfolding loop be_nat.simps tail ub by simp
qed

lemma threshold_loop_one: "threshold_loop n 1 = replicate n 0xFF"
proof (induction n)
  case (Suc n)
  have "f64_round 256 = 256" by (rule f64_round_numeral) simp
  moreover have "f64_signed 1 = 1" by (simp add: f64_signed_def)
  ultimately show ?case using Suc by (simp add: Let_def)
qed simp

lemma be_nat_replicate_max: "of_nat (be_nat (replicate n 0xFF)) = (256 ^ n - 1 :: rat)"
proof (induction n)
  case (Suc n)
  have "unat (0xFF :: byte) = 255" by (simp add: take_bit_eq_mod)
  then have "of_nat (be_nat (replicate (Suc n) 0xFF)) = 255 * 256 ^ n + (of_nat (be_nat (replicate n 0xFF)) :: rat)" by simp
  also have "\<dots> = 256 ^ Suc n - 1" unfolding Suc by simp
  finally show ?case .
qed simp

lemma is_float_round:
  assumes "0 < x" "0 < p"
  shows "is_float p (float_round p x)"
proof -
  define m where "m = round_half_even (x / float_ulp p x)"
  define e where "e = floor_log2 x - int p + 1"
  have fr: "float_round p x = of_int m * 2 powi e" using assms(1) by (simp add: float_round_def m_def e_def float_ulp_def)
  note b = scaled_bounds [OF assms]
  have "round_half_even (of_int 0) \<le> m" "m \<le> round_half_even (of_int (2 ^ p))"
    unfolding m_def using b assms(1) by (intro round_half_even_mono; simp add: less_imp_le)+
  then have m: "0 \<le> m" "m \<le> 2 ^ p" unfolding round_half_even_of_int .
  show ?thesis
  proof (cases "m = 2 ^ p")
    case True
    have "(2 :: int) ^ p = 2 ^ (p - 1) * 2" using assms(2) by (cases p) auto
    then have "float_round p x = of_int (2 ^ (p - 1)) * 2 powi (e + 1)" unfolding fr True by (simp add: power_int_add)
    moreover have "(2 :: int) ^ (p - 1) < 2 ^ p" using assms(2) by simp
    ultimately show ?thesis unfolding is_float_def by (intro exI [of _ "2 ^ (p - 1)"] exI [of _ "e + 1"]) simp
  qed (use m fr in \<open>auto simp: is_float_def\<close>)
qed

lemma u64_max_f64: "f64_round (1 / u64_f64 (- 1)) = 1 / 2 ^ 64"
proof -
  define x :: rat where "x = 18446744073709551615"
  have "floor_log2 x = 63" unfolding x_def by (rule floor_log2_unique) (simp_all add: power_int_def)
  then have u: "float_ulp 53 x = 2048" by (simp add: float_ulp_def power_int_def)
  have fl: "\<lfloor>x / 2048\<rfloor> = 9007199254740991" unfolding x_def by (simp add: floor_divide_of_int_eq [of 18446744073709551615 2048, simplified])
  have "round_half_even (x / 2048) = 9007199254740992"
    unfolding round_half_even_def fl Let_def by (simp add: x_def)
  then have "f64_round x = 2 ^ 64" by (simp add: f64_round_def float_round_def u) (simp add: x_def)
  moreover have "unat (- 1 :: u64) = 18446744073709551615" by (simp add: unsigned_minus_1_eq_mask mask_eq_exp_minus_1)
  ultimately have m: "u64_f64 (- 1) = 2 ^ 64" by (simp add: u64_f64_def x_def)
  have "is_float 53 (1 / 2 ^ 64)" unfolding is_float_def
    by (intro exI [of _ 1] exI [of _ "- int 64"]) (simp only: power_int_minus power_int_of_nat divide_inverse, simp)
  from f64_round_float [OF this] show ?thesis unfolding m .
qed

text \<open>The fraction is a multiple of a power of two that 32 bytes can hold.\<close>

lemma rounded_fraction_fits:
  assumes "0 < x" and "1 / 2 ^ 64 \<le> f64_round x"
  obtains k where "f64_round x * 256 ^ 32 = of_nat k"
proof -
  define u where "u = floor_log2 x - 52"
  have x: "f64_round x = of_int (round_half_even (x / float_ulp 53 x)) * 2 powi u"
    using assms(1) by (simp add: f64_round_def float_round_def float_ulp_def u_def)
  have "f64_round x \<le> 2 powi (floor_log2 x + 1)"
    unfolding f64_round_def using assms(1) by (intro float_round_binade) simp_all
  then have "(2 :: rat) powi (- int 64) \<le> 2 powi (floor_log2 x + 1)"
    using assms(2) by (simp only: power_int_minus power_int_of_nat divide_inverse mult_1)
  then have "- 64 \<le> floor_log2 x + 1"
    using power_int_strict_increasing [of "floor_log2 x + 1" "- int 64" "2 :: rat"] by force
  then obtain n where n: "u + 256 = int n" using zero_le_imp_eq_int [of "u + 256"] by (auto simp: u_def)
  define m where "m = round_half_even (x / float_ulp 53 x) * 2 ^ n"
  have p: "(256 :: rat) ^ 32 = 2 powi 256" by (simp add: power_int_def)
  have "f64_round x * 256 ^ 32 = of_int (round_half_even (x / float_ulp 53 x)) * 2 powi (u + 256)"
    unfolding x p by (subst power_int_add) simp_all
  also have "\<dots> = of_int m" unfolding n power_int_of_nat m_def by simp
  finally have eq: "f64_round x * 256 ^ 32 = of_int m" .
  have "0 \<le> f64_round x * 256 ^ 32" by (simp add: f64_round_def)
  then have "0 \<le> m" unfolding eq by simp
  then have "f64_round x * 256 ^ 32 = of_nat (nat m)" unfolding eq by simp
  then show ?thesis by (rule that)
qed

lemma length_threshold [simp]: "length (threshold_for_percentage M pct) = 32"
  by (simp add: threshold_for_percentage_def Let_def)

lemma threshold_for_percentage_exact:
  assumes "0 < pct" "pct < 100" and f: "f = f64_round (pct / 100)" "1 / 2 ^ 64 \<le> f"
  shows "of_nat (be_nat (threshold_for_percentage M pct)) = (if f = 1 then 2 ^ 256 - 1 else f * 2 ^ 256)"
proof -
  have thr: "threshold_for_percentage M pct = threshold_loop 32 f"
    using assms(1,2) f(2) unfolding threshold_for_percentage_def u64_max_f64 f(1) [symmetric] by (simp add: Let_def not_less)
  have "f \<le> 1" using f64_round_mono [of "pct / 100" 1] assms(2) by (simp add: f(1))
  show ?thesis
  proof (cases "f = 1")
    case True
    have "(256 :: rat) ^ 32 = 2 ^ 256" by (simp add: power_mult [of 2 8 32, symmetric, simplified])
    then show ?thesis using True be_nat_replicate_max [of 32] by (simp add: thr threshold_loop_one)
  next
    case False
    obtain k where k: "f * 256 ^ 32 = of_nat k"
      using rounded_fraction_fits [of "pct / 100"] assms(1) f by auto
    have "0 < f" using f(2) by (simp add: less_le_trans [of 0 "1 / 2 ^ 64"])
    have fl: "is_float 53 f"
      unfolding f(1) f64_round_def by (rule is_float_round) (use assms(1) in simp_all)
    have "be_nat (threshold_loop 32 f) = k"
      using threshold_loop_exact [OF fl _ _ k] \<open>0 < f\<close> \<open>f \<le> 1\<close> False by simp
    moreover have "(256 :: rat) ^ 32 = 2 ^ 256" by (simp add: power_mult [of 2 8 32, symmetric, simplified])
    ultimately show ?thesis using False k by (simp add: thr)
  qed
qed

subsection \<open>The share of eligible identities\<close>

lemma bytes_less_than_be_nat: "length a = length b \<Longrightarrow> bytes_less_than a b \<longleftrightarrow> be_nat a < be_nat b"
proof -
  assume l: "length a = length b"
  then have "bytes_less_than a b = closer_scan a b" by (induction a b rule: list_induct2) auto
  with l show ?thesis by (simp add: closer_scan_less be_nat_less_iff)
qed

lemma leader_distance_xor: "leader_distance a b = xor_distance a b"
  by (simp add: leader_distance_def xor_distance_def)

lemma xor_distance_twice: "length a = length b \<Longrightarrow> xor_distance a (xor_distance a b) = b"
  by (induction a b rule: list_induct2) (simp_all add: xor.assoc [symmetric])

lemma card_be_nat_less:
  assumes "t \<le> 256 ^ n"
  shows "card {l :: bytes. length l = n \<and> be_nat l < t} = t"
proof -
  have "bij_betw be_nat {l :: bytes. length l = n \<and> be_nat l < t} {..<t}"
    unfolding bij_betw_def
  proof
    show "inj_on be_nat {l :: bytes. length l = n \<and> be_nat l < t}" by (auto simp: inj_on_def be_nat_inject)
    show "be_nat ` {l :: bytes. length l = n \<and> be_nat l < t} = {..<t}"
    proof
      show "{..<t} \<subseteq> be_nat ` {l :: bytes. length l = n \<and> be_nat l < t}"
      proof
        fix k assume "k \<in> {..<t}"
        then have "be_nat (be_bytes n k) = k" "length (be_bytes n k) = n" using assms by simp_all
        with \<open>k \<in> {..<t}\<close> show "k \<in> be_nat ` {l :: bytes. length l = n \<and> be_nat l < t}"
          by (intro image_eqI [of _ _ "be_bytes n k"]) simp_all
      qed
    qed auto
  qed
  from bij_betw_same_card [OF this] show ?thesis by simp
qed

lemma card_eligible:
  assumes "length seed = 32" "length thr = 32"
  shows "card {i. length i = 32 \<and> bytes_less_than (leader_distance seed i) thr} = be_nat thr"
proof -
  let ?S = "{l :: bytes. length l = 32 \<and> be_nat l < be_nat thr}"
  have "{i. length i = 32 \<and> bytes_less_than (leader_distance seed i) thr} = xor_distance seed ` ?S"
  proof (intro set_eqI iffI)
    fix i assume "i \<in> {i. length i = 32 \<and> bytes_less_than (leader_distance seed i) thr}"
    then have "length i = 32" "be_nat (xor_distance seed i) < be_nat thr"
      using assms bytes_less_than_be_nat [of "xor_distance seed i" thr] by (simp_all add: leader_distance_xor)
    then show "i \<in> xor_distance seed ` ?S"
      using assms by (intro image_eqI [of _ _ "xor_distance seed i"]) (simp_all add: xor_distance_twice)
  qed (use assms in \<open>auto simp: leader_distance_xor bytes_less_than_be_nat xor_distance_twice\<close>)
  moreover have "inj_on (xor_distance seed) ?S"
    by (rule inj_on_inverseI [of _ "xor_distance seed"]) (simp add: assms xor_distance_twice)
  moreover have "be_nat thr \<le> 256 ^ 32" using be_nat_less [of thr] assms(2) by simp
  ultimately show ?thesis by (simp add: card_image card_be_nat_less)
qed

text \<open>The starting percentages a node computes.\<close>

lemma f64_round_near:
  assumes "0 < x"
  shows "x * (1 - 1 / 2 ^ 53) \<le> f64_round x"
proof -
  define u where "u = float_ulp 53 x"
  have u: "0 < u" by (simp add: u_def)
  have "\<bar>of_int (round_half_even (x / u)) - x / u\<bar> \<le> 1 / 2" by (rule round_half_even_near)
  then have "x / u - 1 / 2 \<le> of_int (round_half_even (x / u))" unfolding abs_le_iff by linarith
  then have "(x / u - 1 / 2) * u \<le> of_int (round_half_even (x / u)) * u" using u by (intro mult_right_mono) simp_all
  then have "x - u / 2 \<le> f64_round x" using assms u by (simp add: f64_round_def float_round_def u_def [symmetric] left_diff_distrib)
  moreover have "2 ^ 52 \<le> x / u" using scaled_bounds(1) [OF assms, of 53] by (simp add: u_def)
  then have "u / 2 \<le> x * (1 / 2 ^ 53)" using u by (simp add: field_simps)
  ultimately show ?thesis unfolding right_diff_distrib by linarith
qed

lemma starting_percentage_bounds:
  "MIN_STARTING_PCT \<le> calculate_starting_percentage ts target"
  "calculate_starting_percentage ts target \<le> MAX_STARTING_PCT"
proof -
  have "BASE_STARTING_PCT \<le> f64_round 10" "MIN_STARTING_PCT \<le> BASE_STARTING_PCT"
    unfolding BASE_STARTING_PCT_def MIN_STARTING_PCT_def by (intro f64_round_mono, simp)+
  moreover have "f64_round 10 = 10" by (rule f64_round_numeral) simp
  ultimately have b: "MIN_STARTING_PCT \<le> BASE_STARTING_PCT" "BASE_STARTING_PCT \<le> MAX_STARTING_PCT"
    by (simp_all add: MAX_STARTING_PCT_def)
  show "MIN_STARTING_PCT \<le> calculate_starting_percentage ts target"
    "calculate_starting_percentage ts target \<le> MAX_STARTING_PCT"
    using b by (auto simp: calculate_starting_percentage_def Let_def)
qed

lemma starting_fraction:
  assumes "p = calculate_starting_percentage ts target"
  shows "0 < p" "p < 100" "1 / 2 ^ 64 \<le> f64_round (p / 100)" "f64_round (p / 100) \<noteq> 1"
proof -
  note b = starting_percentage_bounds [of ts target, folded assms]
  have lo: "1 / 200000 \<le> MIN_STARTING_PCT"
    unfolding MIN_STARTING_PCT_def by (rule order_trans [OF _ f64_round_near]) simp_all
  then show p: "0 < p" "p < 100" using b by (simp_all add: MAX_STARTING_PCT_def)
  have "1 / 20000000 * (1 - 1 / 2 ^ 53) \<le> f64_round (1 / 20000000)" by (rule f64_round_near) simp
  also have "\<dots> \<le> f64_round (p / 100)" using lo b by (intro f64_round_mono) simp
  finally show "1 / 2 ^ 64 \<le> f64_round (p / 100)" by simp
  have "is_float 53 (1 / 2)" unfolding is_float_def by (intro exI [of _ 1] exI [of _ "- 1"]) (simp add: power_int_def)
  then have "f64_round (1 / 2) = 1 / 2" by (rule f64_round_float)
  then have "f64_round (p / 100) \<le> 1 / 2" using f64_round_mono [of "p / 100" "1 / 2"] b by (simp add: MAX_STARTING_PCT_def)
  then show "f64_round (p / 100) \<noteq> 1" by auto
qed

definition sample_libm :: libm where
  "sample_libm = \<lparr>lm_ln = (\<lambda>x. x), lm_exp = (\<lambda>x. x), lm_log2 = (\<lambda>x. x)\<rparr>"

lemma not_below_farthest: "\<not> bytes_less_than (replicate n 0xFF) ys"
proof (induction n arbitrary: ys)
  case (Suc n)
  have "\<not> 0xFF < y" for y :: byte using unsigned_less [of y, where ?'a = nat] by (simp add: word_less_nat_alt)
  with Suc show ?case by (cases ys) auto
qed simp

text \<open>
  C15. Right after a block exactly the announced share of all identities may create the next one: of the
  \<open>2\<^sup>2\<^sup>5\<^sup>6\<close> identities, the number of those that are eligible is the starting percentage divided by 100, as the
  code rounds it, times \<open>2\<^sup>2\<^sup>5\<^sup>6\<close>, whatever the history of the chain and its seed; and the percentage stays between
  a hundred-thousandth and ten.
\<close>

theorem eligible_share_exact:
  assumes "\<And>x. length (H x) = 32" and "e = be_new mode H prev_hash prev_timestamp space_id recent"
  shows "of_nat (card {i. length i = 32 \<and> is_eligible M e i prev_timestamp}) = f64_round (be_starting_pct e / 100) * 2 ^ 256 \<and>
    f64_round (1 / 100000) \<le> be_starting_pct e \<and> be_starting_pct e \<le> 10"
proof -
  define p where "p = calculate_starting_percentage recent TARGET_BLOCK_INTERVAL"
  have e: "be_starting_pct e = p" "be_prev_timestamp e = prev_timestamp" "length (be_block_seed e) = 32" "0 < be_max_time e"
    using assms by (auto simp: be_new_def p_def compute_block_seed_def max_eligibility_time_def MAX_ELIGIBILITY_TIME_def
        split: network_mode.splits)
  have elig: "is_eligible M e i prev_timestamp = bytes_less_than (leader_distance (be_block_seed e) i) (threshold_for_percentage M p)" for i
    using e by (auto simp: is_eligible_def threshold_at_def threshold_at_elapsed_def sat_sub_def not_le)
  note f = starting_fraction [OF p_def]
  show ?thesis
    using card_eligible [OF e(3) length_threshold, of M p] threshold_for_percentage_exact [OF f(1,2) refl f(3), of M] f(4)
      starting_percentage_bounds [of recent TARGET_BLOCK_INTERVAL, folded p_def]
    by (simp add: elig e(1) MIN_STARTING_PCT_def MAX_STARTING_PCT_def)
qed

theorem eligible_share_exact_witness:
  "\<exists>e. e = be_new Mainnet (\<lambda>_. zero32) zero32 1000 (replicate 16 0) [400, 1000] \<and>
     of_nat (card {i. length i = 32 \<and> is_eligible sample_libm e i 1000}) = f64_round (be_starting_pct e / 100) * 2 ^ 256"
  using eligible_share_exact [where H = "\<lambda>_. zero32" and mode = Mainnet and prev_hash = zero32 and prev_timestamp = 1000
      and space_id = "replicate 16 0" and recent = "[400, 1000]" and M = sample_libm, OF _ refl]
  by (simp add: zero32_def)


subsection \<open>The search for the own turn\<close>

lemma eligible_search_correct:
  assumes "low \<le> high" and "eligible high" and "low = a \<or> (a < low \<and> \<not> eligible (low - 1))"
  shows "low \<le> eligible_search eligible low high \<and> eligible_search eligible low high \<le> high \<and>
    eligible (eligible_search eligible low high) \<and>
    (eligible_search eligible low high = a \<or> \<not> eligible (eligible_search eligible low high - 1))"
  using assms
proof (induction eligible low high rule: eligible_search.induct)
  case (1 eligible low high)
  show ?case
  proof (cases "low < high")
    case True
    define mid where "mid = low + (high - low) div 2"
    note m = midpoint_bounds [OF True mid_def]
    show ?thesis
    proof (cases "eligible mid")
      case e: True
      have "eligible_search eligible low high = eligible_search eligible low mid"
        using True e by (subst eligible_search.simps) (simp add: mid_def Let_def)
      then show ?thesis using 1(1) [OF True mid_def e m(1) e 1(5)] m(2) by (auto intro: order_trans less_imp_le)
    next
      case e: False
      have "eligible_search eligible low high = eligible_search eligible (mid + 1) high"
        using True e by (subst eligible_search.simps) (simp add: mid_def Let_def)
      moreover have "a \<le> mid" using 1(5) m(1) by auto
      then have "a < mid + 1" using m(3) by (simp add: word_less_nat_alt word_le_nat_alt)
      moreover have "low \<le> mid + 1" using m(1,3) by (simp add: word_le_nat_alt)
      ultimately show ?thesis using 1(2) [OF True mid_def e m(4) 1(4)] e by auto
    qed
  next
    case False
    then have "low = high" using 1(3) by simp
    then show ?thesis using 1(4,5) by (subst (1 2 3 4 5) eligible_search.simps) auto
  qed
qed

text \<open>
  C16. A node that is not eligible knows of a turn: the search ends with a time after the present and
  at most the maximum time after the previous block, at which the identity is eligible and was not a second
  before. So every identity gets a turn within eight minutes. It is the first such second after the present if
  an eligible identity stays eligible; whether it does depends on the functions of the platform.
\<close>

theorem when_eligible_correct:
  assumes "unat (be_prev_timestamp e) + unat (be_max_time e) < 2 ^ 64"
  shows "case when_eligible M e i now of
      None \<Rightarrow> is_eligible M e i now
    | Some t \<Rightarrow> now < t \<and> unat t \<le> unat (be_prev_timestamp e) + unat (be_max_time e) \<and> is_eligible M e i t \<and>
        \<not> is_eligible M e i (t - 1) \<and>
        ((\<forall>u v. u \<le> v \<and> is_eligible M e i u \<longrightarrow> is_eligible M e i v) \<longrightarrow> (\<forall>u < t. \<not> is_eligible M e i u))"
proof (cases "is_eligible M e i now")
  case False
  define high where "high = be_prev_timestamp e + be_max_time e"
  have high: "unat high = unat (be_prev_timestamp e) + unat (be_max_time e)"
    using assms unfolding high_def by (subst unat_add_lem [THEN iffD1]) simp_all
  have "be_max_time e \<le> sat_sub high (be_prev_timestamp e)" using high by (simp add: word_le_nat_alt unat_sat_sub)
  then have eh: "is_eligible M e i high" by (simp add: is_eligible_def)
  have "\<not> be_max_time e \<le> sat_sub now (be_prev_timestamp e)" using False by (auto simp: is_eligible_def)
  then have "now \<le> high" using high by (simp add: word_le_nat_alt unat_sat_sub)
  from eligible_search_correct [where eligible = "is_eligible M e i" and a = now, OF this eh]
  have s: "now \<le> eligible_search (is_eligible M e i) now high" "eligible_search (is_eligible M e i) now high \<le> high"
    "is_eligible M e i (eligible_search (is_eligible M e i) now high)"
    "eligible_search (is_eligible M e i) now high = now \<or>
      \<not> is_eligible M e i (eligible_search (is_eligible M e i) now high - 1)" by simp_all
  with False have "eligible_search (is_eligible M e i) now high \<noteq> now" by metis
  moreover have "u \<le> t - 1" if "u < t" for u t :: u64
  proof -
    have "t \<noteq> 0" using that by auto
    then show ?thesis using that by (simp add: word_le_nat_alt word_less_nat_alt unat_minus_one)
  qed
  ultimately show ?thesis
    using s high False by (simp add: when_eligible_def high_def [symmetric] word_le_nat_alt less_le) blast
qed (simp add: when_eligible_def)

theorem when_eligible_correct_witness:
  "\<exists>e t. e = be_new Mainnet (\<lambda>_. zero32) zero32 1000 (replicate 16 0) [] \<and>
     when_eligible sample_libm e (replicate 32 0xFF) 1000 = Some t \<and> unat t \<le> 1480 \<and>
     is_eligible sample_libm e (replicate 32 0xFF) t"
proof -
  define e where "e = be_new Mainnet (\<lambda>_. zero32) zero32 1000 (replicate 16 0) []"
  have e: "be_prev_timestamp e = 1000" "be_max_time e = 480" "be_block_seed e = zero32"
    by (simp_all add: e_def be_new_def max_eligibility_time_def MAX_ELIGIBILITY_TIME_def compute_block_seed_def)
  have "leader_distance zero32 (replicate 32 0xFF) = replicate 32 0xFF"
    by (simp add: leader_distance_def zero32_def map2_map_map map_replicate_const zip_replicate)
  then have "\<not> is_eligible sample_libm e (replicate 32 0xFF) 1000"
    using not_below_farthest [of 32] by (simp add: is_eligible_def e sat_sub_def)
  then obtain t where t: "when_eligible sample_libm e (replicate 32 0xFF) 1000 = Some t" by (simp add: when_eligible_def)
  have "unat (be_prev_timestamp e) + unat (be_max_time e) = 1480" by (simp add: e)
  then have "unat t \<le> 1480 \<and> is_eligible sample_libm e (replicate 32 0xFF) t"
    using when_eligible_correct [of e sample_libm "replicate 32 0xFF" 1000] t by simp
  with t show ?thesis unfolding e_def [symmetric] by blast
qed


subsection \<open>Both sides read the same history\<close>

lemma ancestor_timestamps_ancestry:
  assumes "ancestry R b bs" and "get_root_block s h = Some b"
    and "\<And>x. x \<in> set bs \<Longrightarrow> rb_prev_root_hash x \<noteq> zero32 \<Longrightarrow> get_root_block s (rb_prev_root_hash x) = R (rb_prev_root_hash x)"
  shows "ancestor_timestamps n s h = map rb_timestamp (take n bs)"
  using assms
proof (induction arbitrary: n h rule: ancestry.induct)
  case (ancestry_root b)
  then show ?case by (cases n) simp_all
next
  case (ancestry_step b p bs)
  then show ?case by (cases n) simp_all
qed

lemma recent_timestamps_ancestry:
  assumes lk: "linked_store H (get_root_block s)" and st: "get_root_block s (rb_hash H b) = Some b"
    and anc: "ancestry (get_root_block s) b bs" and idx: "tree_get (cs_height_index s) = height_map H bs"
  shows "recent_timestamps s (rb_height b) = rev (map rb_timestamp (take 11 bs))"
proof -
  have len: "length bs = Suc (unat (rb_height b))" by (rule ancestry_length [OF anc lk st])
  let ?f = "\<lambda>h. case get_root_hash_at_height s h of Some hash \<Rightarrow> map_option rb_timestamp (get_root_block s hash) | None \<Rightarrow> None"
  have at: "?f (word_of_nat k) = Some (rb_timestamp (bs ! (length bs - 1 - k)))" if k: "k < length bs" for k
  proof -
    define x where "x = bs ! (length bs - 1 - k)"
    have x: "x \<in> set bs" using k len by (simp add: x_def)
    have "unat (rb_height x) = k" using ancestry_nth_height [OF lk st anc, of "length bs - 1 - k"] k len by (simp add: x_def)
    then have hx: "rb_height x = word_of_nat k" by auto
    have "height_map H bs (word_of_nat k) = Some (rb_hash H x)"
      unfolding height_map_Some [OF lk st anc] using x hx by blast
    moreover have "get_root_block s (rb_hash H x) = Some x" by (rule ancestry_stored [OF anc lk st x])
    ultimately show ?thesis by (simp add: get_root_hash_at_height_def idx x_def)
  qed
  define a where "a = length bs - 11"
  have ua: "unat (sat_sub (rb_height b) 10) = a" using len by (simp add: unat_sat_sub a_def)
  have "recent_timestamps s (rb_height b) = List.map_filter ?f (map word_of_nat [a ..< length bs])"
    by (simp add: recent_timestamps_def u64_range_def ua len)
  also have "\<dots> = map (\<lambda>k. rb_timestamp (bs ! (length bs - 1 - k))) [a ..< length bs]"
    using at by (auto simp: List.map_filter_def comp_def intro!: map_cong)
  also have "\<dots> = rev (map rb_timestamp (take 11 bs))"
  proof (rule nth_equalityI)
    fix i
    assume "i < length (map (\<lambda>k. rb_timestamp (bs ! (length bs - 1 - k))) [a ..< length bs])"
    then have i: "i < min (length bs) 11" and ia: "i < length bs - a" by (auto simp: a_def)
    then have "length bs - 1 - (a + i) = min (length bs) 11 - Suc i" by (auto simp: a_def min_def)
    with i show "map (\<lambda>k. rb_timestamp (bs ! (length bs - 1 - k))) [a ..< length bs] ! i = rev (map rb_timestamp (take 11 bs)) ! i"
      by (simp only: nth_map_upt [OF ia] rev_map [symmetric]) (simp add: rev_nth rev_map)
  qed (simp add: a_def)
  finally show ?thesis .
qed

lemma tip_history:
  assumes "chain_inv H s" and "get_best_tip_block s = Some b"
    and "\<And>h x. get_root_block s h = Some x \<Longrightarrow> get_root_block s' h = Some x"
  shows "get_root_block s' (rb_hash H b) = Some b"
    "rev (ancestor_timestamps 11 s' (rb_hash H b)) = recent_timestamps s (rb_height b)"
proof -
  obtain t where t: "cs_best_tip s = Some t" "get_root_block s t = Some b"
    using assms(2) by (auto simp: get_best_tip_block_def split: option.splits)
  have lk: "linked_store H (get_root_block s)" using assms(1) by (simp add: chain_inv_def)
  obtain bs where anc: "ancestry (get_root_block s) b bs" and idx: "tree_get (cs_height_index s) = height_map H bs"
    using assms(1) t by (auto simp: chain_inv_def canon_ok_def)
  have st: "get_root_block s (rb_hash H b) = Some b" using t linkedD(1) [OF lk] by simp
  then show st': "get_root_block s' (rb_hash H b) = Some b" by (rule assms(3))
  have le: "get_root_block s \<subseteq>\<^sub>m get_root_block s'" using assms(3) by (auto simp: map_le_def dom_def)
  have "ancestor_timestamps 11 s' (rb_hash H b) = map rb_timestamp (take 11 bs)"
    by (rule ancestor_timestamps_ancestry [OF ancestry_mono [OF anc le] st']) simp
  then show "rev (ancestor_timestamps 11 s' (rb_hash H b)) = recent_timestamps s (rb_height b)"
    using recent_timestamps_ancestry [OF lk st anc idx] by simp
qed

lemma leader_accepted_formed:
  assumes "chain_inv H s" and "fst (formation_eligible mode H M s (rb_block_creator block) (rb_timestamp block))"
    and "get_best_tip_block s = Some tip" and "rb_prev_root_hash block = rb_hash H tip"
    and "\<And>h x. get_root_block s h = Some x \<Longrightarrow> get_root_block s' h = Some x"
  shows "leader_accepted mode H M s' known_header_backfill block"
proof -
  note th = tip_history [OF assms(1,3,5)]
  show ?thesis using assms(2,3,4) th
    by (simp add: leader_accepted_def formation_eligible_def validate_block_leader_def Let_def)
qed

text \<open>
  The check does not bind a creator to the clock: a block that claims a time eight minutes after its parent
  passes it, whoever created it and whenever it arrives, and so does a block that names no creator.
\<close>

theorem leader_check_evaded:
  assumes "get_root_block s (rb_prev_root_hash block) = Some prev"
    and "rb_block_creator block = zero32 \<or> unat (rb_timestamp prev) + 480 \<le> unat (rb_timestamp block)"
  shows "leader_accepted mode H M s known_header_backfill block"
proof -
  have "max_eligibility_time mode \<le> sat_sub (rb_timestamp block) (rb_timestamp prev)"
    if "unat (rb_timestamp prev) + 480 \<le> unat (rb_timestamp block)"
    using that by (cases mode) (simp_all add: max_eligibility_time_def MAX_ELIGIBILITY_TIME_def word_le_nat_alt unat_sat_sub)
  then show ?thesis using assms
    by (auto simp: leader_accepted_def validate_block_leader_def is_eligible_def be_new_def)
qed

theorem leader_check_evaded_witness:
  "leader_accepted Mainnet ts_digest sample_libm fork_store False (child_block 481 1 0)"
proof -
  have "get_root_block fork_store (rb_prev_root_hash (child_block 481 1 0)) = Some (genesis 1)"
    by (simp add: fork_store_get)
  from leader_check_evaded [OF this] show ?thesis by (simp add: child_block_def genesis_def)
qed


end
