(* ===== verification/Formation.thy ===== *)
theory Formation
  imports Formation_Gate Leader_Correct Sync_Correct Spons_Gate
begin

text \<open>
  The formation of blocks: the periodic task (\<open>spawn_block_formation\<close> in \<open>src/node/tasks.rs\<close>) and the attempt
  after an action was submitted (\<open>try_form_block_if_threshold_met\<close> in \<open>src/rpc/methods.rs\<close>). Each asks the
  gate, the block builder, the chain store and the leader election, and builds a block; the task checks it
  again before it is stored. The model is one run of each, from the state of gate and builder to the next,
  with what it decided; storing and announcing are the caller's.
\<close>

subsection \<open>One run of the task\<close>

datatype formation =
    GateClosed
  | NotDue
  | HeightTaken
  | NotLeader u64
  | Refused root_block "space_block list" "content_block list"
  | Formed root_block "space_block list" "content_block list"

definition gate_allows :: "formation_gate option \<Rightarrow> chain_store \<Rightarrow> u64 \<Rightarrow> bool \<times> formation_gate option" where
  "gate_allows gate s elapsed =
     (case gate of
        None \<Rightarrow> (True, None)
      | Some g \<Rightarrow>
          let our_height = (case get_latest_height s of Some h \<Rightarrow> h | None \<Rightarrow> 0);
              (allowed, g') = allow_formation g our_height elapsed
          in (allowed, Some g'))"

definition follow_tip :: "chain_store \<Rightarrow> 'c block_builder \<Rightarrow> 'c block_builder" where
  "follow_tip s b =
     (case get_latest_height s of
        None \<Rightarrow> b
      | Some tip_height \<Rightarrow>
          (case get_root_hash_at_height s tip_height of
             None \<Rightarrow> b
           | Some tip_hash \<Rightarrow>
               reset_to_chain_tip b tip_height tip_hash
                 (case get_root_block s tip_hash of Some t \<Rightarrow> rb_cumulative_pow t | None \<Rightarrow> 0)))"

definition formed_authorized :: "network_mode \<Rightarrow> spons_store option \<Rightarrow> content_block list \<Rightarrow> bool" where
  "formed_authorized mode ss contents =
     (case ss of
        None \<Rightarrow> True
      | Some st \<Rightarrow>
          (\<forall>cb \<in> set contents. \<forall>a \<in> set (cb_actions cb).
             requires_sponsored_author (act_type a) \<longrightarrow>
               is_authorized_in_space mode st (act_actor a) (cb_space_id cb) \<or>
               (case sponsored_in_block contents (act_actor a) of
                  Some (Some scope) \<Rightarrow> scope = cb_space_id cb | Some None \<Rightarrow> True | None \<Rightarrow> False)))"

definition includes_finalized :: "(bytes \<Rightarrow> hash32) \<Rightarrow> chain_store \<Rightarrow> content_block list \<Rightarrow> bool" where
  "includes_finalized H s contents \<longleftrightarrow>
     (\<exists>cb \<in> set contents. \<exists>a \<in> set (cb_actions cb). is_action_finalized s (action_hash H a) \<noteq> None)"

definition formation_tick ::
  "network_mode \<Rightarrow> 'c lru_ops \<Rightarrow> (bytes \<Rightarrow> hash32) \<Rightarrow> libm \<Rightarrow> spons_store option \<Rightarrow> chain_store \<Rightarrow> hash32 \<Rightarrow>
   u64 \<Rightarrow> nat \<Rightarrow> u64 \<Rightarrow> formation_gate option \<Rightarrow> 'c block_builder \<Rightarrow> formation \<times> formation_gate option \<times> 'c block_builder" where
  "formation_tick mode L H M ss s identity elapsed now_ms raw gate b =
     (let (allowed, gate') = gate_allows gate s elapsed
      in if \<not> allowed then (GateClosed, gate', b)
         else
           let (form, b1) = should_form_or_flush (follow_tip s b) PENDING_FLUSH_TIMEOUT_SECS now_ms
           in if \<not> form then (NotDue, gate', b1)
              else if get_root_hash_at_height s (next_height b1) \<noteq> None then (HeightTaken, gate', reset_waiting b1)
              else
                let now = quantize raw;
                    (eligible, eta_secs) = formation_eligible mode H M s identity now
                in if \<not> eligible then (NotLeader (min (max (eta_secs + 1) 5) 15), gate', b1)
                   else
                     let ((rb, space_blocks, content_blocks), b2) =
                           build_root_block L H b1 now identity (map_option (is_authorized_in_space mode) ss) (Some s)
                     in (if formed_authorized mode ss content_blocks \<and> \<not> includes_finalized H s content_blocks
                         then Formed rb space_blocks content_blocks
                         else Refused rb space_blocks content_blocks,
                         gate', b2))"

subsection \<open>The attempt after a submission\<close>

text \<open>Nothing is scheduled when the node is not eligible.\<close>

definition rpc_form ::
  "network_mode \<Rightarrow> 'c lru_ops \<Rightarrow> (bytes \<Rightarrow> hash32) \<Rightarrow> libm \<Rightarrow> spons_store option \<Rightarrow> chain_store \<Rightarrow> hash32 \<Rightarrow>
   u64 \<Rightarrow> nat \<Rightarrow> u64 \<Rightarrow> formation_gate option \<Rightarrow> 'c block_builder \<Rightarrow> formation \<times> formation_gate option \<times> 'c block_builder" where
  "rpc_form mode L H M ss s identity elapsed now_ms raw gate b =
     (let (allowed, gate') = gate_allows gate s elapsed
      in if \<not> allowed then (GateClosed, gate', b)
         else if get_root_hash_at_height s (next_height b) \<noteq> None then (HeightTaken, gate', reset_waiting b)
         else
           let eligible = fst (formation_eligible mode H M s identity raw)
           in if \<not> eligible then (NotLeader 0, gate', b)
              else
                let (form, b1) = should_form_root b now_ms
                in if \<not> form then (NotDue, gate', b1)
                   else
                     let ((rb, space_blocks, content_blocks), b2) =
                           build_root_block L H b1 raw identity (map_option (is_authorized_in_space mode) ss) (Some s)
                     in (Formed rb space_blocks content_blocks, gate', b2))"

subsection \<open>The builder follows the tip\<close>

lemma tip_of_best:
  assumes "get_best_tip_block s = Some tip"
  obtains t where "cs_best_tip s = Some t" "get_root_block s t = Some tip"
  using assms by (auto simp: get_best_tip_block_def split: option.splits)

lemma follow_tip_fields:
  assumes "chain_inv H s" and "get_best_tip_block s = Some tip"
  shows "bb_current_height (follow_tip s b) = rb_height tip" "bb_prev_root_hash (follow_tip s b) = rb_hash H tip"
    "bb_threads (follow_tip s b) = bb_threads b" "bb_difficulty_target (follow_tip s b) = bb_difficulty_target b"
    "bb_prev_cumulative_pow (follow_tip s b) = rb_cumulative_pow tip"
proof -
  obtain t where t: "cs_best_tip s = Some t" "get_root_block s t = Some tip" by (rule tip_of_best [OF assms(2)])
  have lk: "linked_store H (get_root_block s)" using assms(1) by (simp add: chain_inv_def)
  note lh = latest_height_tip [OF assms(1) t]
  from lh(3) obtain x where x: "get_root_hash_at_height s (rb_height tip) = Some x" "get_root_block s x = Some tip"
    by (auto simp: canonical_at_def bind_eq_Some_conv)
  have "x = rb_hash H tip" using linkedD(1) [OF lk x(2)] by simp
  with x lh(1) show "bb_current_height (follow_tip s b) = rb_height tip" "bb_prev_root_hash (follow_tip s b) = rb_hash H tip"
    "bb_threads (follow_tip s b) = bb_threads b" "bb_difficulty_target (follow_tip s b) = bb_difficulty_target b"
    "bb_prev_cumulative_pow (follow_tip s b) = rb_cumulative_pow tip"
    by (simp_all add: follow_tip_def reset_to_chain_tip_def)
qed

lemma should_form_or_flush_frame:
  assumes "should_form_or_flush b secs now = (form, b')"
  shows "bb_current_height b' = bb_current_height b" "bb_prev_root_hash b' = bb_prev_root_hash b"
    "bb_threads b' = bb_threads b" "bb_prev_cumulative_pow b' = bb_prev_cumulative_pow b"
  using assms by (auto simp: should_form_or_flush_def Let_def split: if_splits)

lemma height_above_tip_free:
  assumes "chain_inv H s" and "get_best_tip_block s = Some tip"
  shows "get_root_hash_at_height s (rb_height tip + 1) = None"
proof -
  obtain t where t: "cs_best_tip s = Some t" "get_root_block s t = Some tip" by (rule tip_of_best [OF assms(2)])
  have "unat (rb_height tip) + 1 < 2 ^ 64" using assms(1) t(2) linkedD(2) by (auto simp: chain_inv_def)
  then have "unat (rb_height tip + 1) = unat (rb_height tip) + 1" by (subst unat_add_lem [THEN iffD1]) simp_all
  then have "\<not> rb_height tip + 1 \<le> rb_height tip" by (simp add: word_le_nat_alt)
  then show ?thesis
    using latest_height_tip(2) [OF assms(1) t, of "rb_height tip + 1"] index_iff_canonical [OF assms(1), of "rb_height tip + 1"]
    by auto
qed


subsection \<open>What the task does once it is due\<close>

definition pool_of :: "'c block_builder \<Rightarrow> action list" where
  "pool_of b = thread_actions (pending_threads b)"

text \<open>Enough work is pending, or what is pending has waited for a minute on the same tip.\<close>

definition formation_due :: "chain_store \<Rightarrow> nat \<Rightarrow> 'c block_builder \<Rightarrow> bool" where
  "formation_due s now_ms b \<longleftrightarrow>
     pool_of b \<noteq> [] \<and>
     (is_threshold_met b \<or>
      follow_tip s b = b \<and> (\<exists>started. bb_flush_since b = Some started \<and> started + 60000 \<le> now_ms))"

lemma pending_action_count_pool: "pending_action_count b = length (pool_of b)"
  by (simp add: pending_action_count_def pool_of_def thread_actions_def length_concat comp_def)

lemma due_forms:
  assumes "chain_inv H s" and "get_best_tip_block s = Some tip" and "formation_due s now_ms b"
  shows "fst (should_form_or_flush (follow_tip s b) PENDING_FLUSH_TIMEOUT_SECS now_ms)"
proof -
  note f = follow_tip_fields [OF assms(1,2), of b]
  have "pending_action_count (follow_tip s b) \<noteq> 0"
    using assms(3) f(3) by (simp add: pending_action_count_pool formation_due_def pool_of_def)
  moreover have "is_threshold_met (follow_tip s b) = is_threshold_met b"
    using f(3,4) by (simp add: is_threshold_met_def bb_total_pow_def)
  ultimately show ?thesis using assms(3)
    by (auto simp: should_form_or_flush_def formation_due_def PENDING_FLUSH_TIMEOUT_SECS_def Let_def)
qed

lemma unat_quantize: "unat (quantize raw) = unat raw div 10 * 10"
  using unat_u64_less [of raw]
  by (simp add: quantize_def TIMESTAMP_QUANTUM_SECS_def unat_word_ariths unat_div le_less_trans [OF div_times_less_eq_dividend])

lemma late_eligible:
  assumes "get_best_tip_block s = Some tip" and "unat (rb_timestamp tip) + 490 \<le> unat raw"
  shows "formation_eligible mode H M s identity (quantize raw) = (True, 0)"
proof -
  have "max_eligibility_time mode \<le> sat_sub (quantize raw) (rb_timestamp tip)"
    using assms(2) by (cases mode) (auto simp: unat_quantize max_eligibility_time_def MAX_ELIGIBILITY_TIME_def word_le_nat_alt unat_sat_sub)
  then show ?thesis using assms(1) by (simp add: formation_eligible_def is_eligible_def be_new_def Let_def)
qed

lemma quantized_quantize: "quantized (quantize raw) = quantize raw"
proof -
  have "quantize (quantize raw) = quantize raw" by (simp add: word_unat_eq_iff unat_quantize)
  then show ?thesis by (simp add: quantized_def quantize_def)
qed

text \<open>What the builder puts into a block, without reference to its threads.\<close>

lemma built_from_pool:
  assumes "build_root_block L H b ts creator auth store = ((rb, spaces, contents), b')" and "a \<in> set (block_actions contents)"
  shows "a \<in> set (thread_actions (pending_threads b))"
    "case store of Some cs \<Rightarrow> is_action_finalized cs (action_hash H a) = None | None \<Rightarrow> True"
proof -
  obtain cb where cb: "cb \<in> set contents" "a \<in> set (cb_actions cb)" using assms(2) by (auto simp: block_actions_def)
  then obtain t where t: "t \<in> set (pending_threads b)" "block_of_thread H (minable_part H b auth store t) cb"
    unfolding build_root_block_parts(1) [OF assms(1)] by (metis mined_content_block)
  then show "a \<in> set (thread_actions (pending_threads b))"
    "case store of Some cs \<Rightarrow> is_action_finalized cs (action_hash H a) = None | None \<Rightarrow> True"
    using cb(2) unfolding block_of_thread_def by (auto simp: thread_actions_def minable_def)
qed

lemma built_not_finalized:
  assumes "build_root_block L H b ts creator auth (Some s) = ((rb, spaces, contents), b')"
  shows "\<not> includes_finalized H s contents"
  using built_from_pool(2) [OF assms] by (auto simp: includes_finalized_def block_actions_def)

lemma built_has_minable:
  assumes "build_root_block L H b ts creator auth store = ((rb, spaces, contents), b')"
    and "t \<in> set (pending_threads b)" "a \<in> set (pt_actions t)" "minable H b auth store (pt_space_id t) a"
  shows "\<exists>x \<in> set (block_actions contents). action_hash H x = action_hash H a"
proof -
  have "a \<in> set (thread_actions (concat (map snd (block_spaces H b auth store))))"
    unfolding block_spaces_actions using assms(2-4) by blast
  then have "action_hash H a \<in> action_hash H ` set (block_actions contents)"
    using mined_contents_spec(1) [of H b auth store ts] unfolding placed_once_def build_root_block_parts(1) [OF assms(1)] by auto
  then show ?thesis by (metis imageE)
qed

text \<open>The run that gets to the builder, taken apart.\<close>

lemma formation_tick_built:
  assumes "formation_tick mode L H M ss s identity elapsed now_ms raw gate b = (r, gate', b')"
    and "r = Formed rb spaces contents \<or> r = Refused rb spaces contents"
  obtains b1 where "fst (gate_allows gate s elapsed)"
    "should_form_or_flush (follow_tip s b) PENDING_FLUSH_TIMEOUT_SECS now_ms = (True, b1)"
    "fst (formation_eligible mode H M s identity (quantize raw))"
    "build_root_block L H b1 (quantize raw) identity (map_option (is_authorized_in_space mode) ss) (Some s) = ((rb, spaces, contents), b')"
    "(r = Formed rb spaces contents) = (formed_authorized mode ss contents \<and> \<not> includes_finalized H s contents)"
  using assms by (auto simp: formation_tick_def Let_def split: prod.splits if_splits)

lemma formation_tick_builds:
  assumes "chain_inv H s" and "get_best_tip_block s = Some tip" and "fst (gate_allows gate s elapsed)"
    and "formation_due s now_ms b" and "fst (formation_eligible mode H M s identity (quantize raw))"
  obtains b1 rb spaces contents b' where "bb_threads b1 = bb_threads b"
    "build_root_block L H b1 (quantize raw) identity (map_option (is_authorized_in_space mode) ss) (Some s) = ((rb, spaces, contents), b')"
    "formation_tick mode L H M ss s identity elapsed now_ms raw gate b =
      (if formed_authorized mode ss contents \<and> \<not> includes_finalized H s contents then Formed rb spaces contents
       else Refused rb spaces contents, snd (gate_allows gate s elapsed), b')"
proof -
  obtain b1 where b1: "should_form_or_flush (follow_tip s b) PENDING_FLUSH_TIMEOUT_SECS now_ms = (True, b1)"
    using due_forms [OF assms(1,2,4)] by (metis prod.exhaust_sel)
  note fr = should_form_or_flush_frame [OF b1] follow_tip_fields [OF assms(1,2), of b]
  obtain rb spaces contents b' where
    build: "build_root_block L H b1 (quantize raw) identity (map_option (is_authorized_in_space mode) ss) (Some s) = ((rb, spaces, contents), b')"
    by (metis surj_pair)
  have free: "get_root_hash_at_height s (next_height b1) = None"
    using height_above_tip_free [OF assms(1,2)] fr by (simp add: next_height_def)
  obtain gate' where g: "gate_allows gate s elapsed = (True, gate')" using assms(3) by (metis prod.exhaust_sel)
  obtain eta where e: "formation_eligible mode H M s identity (quantize raw) = (True, eta)" using assms(5) by (metis prod.exhaust_sel)
  show ?thesis
    by (rule that [OF _ build]) (simp_all add: fr formation_tick_def g b1 free e build Let_def)
qed


subsection \<open>Storing what was formed\<close>

lemma extension_adopted:
  assumes inv: "chain_inv H s" and adm: "admissible H s b" and tip: "get_best_tip_block s = Some tip"
    and "rb_prev_root_hash b = rb_hash H tip" and "rb_height b = rb_height tip + 1"
  shows "\<exists>s'. put_root_block_with_fork_resolution H s b = Some ((rb_hash H b, True), s') \<and> chain_inv H s' \<and>
    cs_best_tip s' = Some (rb_hash H b) \<and> get_root_block s' = (get_root_block s)(rb_hash H b \<mapsto> b)"
proof -
  obtain t where t: "cs_best_tip s = Some t" "get_root_block s t = Some tip" by (rule tip_of_best [OF tip])
  obtain h s0 where put: "put_root_block H s b = (h, s0)" by fastforce
  note p = put_root_block_inv [OF inv adm put]
  have lk: "linked_store H (get_root_block s)" "linked_store H (get_root_block s0)" and can: "canon_ok H s0"
    using inv p(3) by (simp_all add: chain_inv_def)
  have th: "rb_hash H tip = t" by (rule linkedD(1) [OF lk(1) t(2)])
  have high: "unat (rb_height tip) + 1 < 2 ^ 64" by (rule linkedD(2) [OF lk(1) t(2)])
  then have succ: "sat_add (rb_height tip) 1 = rb_height tip + 1" "rb_height tip + 1 \<noteq> 0"
    by (simp_all add: word_unat_eq_iff unat_sat_add unat_word_ariths)
  have t0: "get_root_block s0 t = Some tip" using p(6) t(2) by (auto simp: map_le_def dom_def)
  then have tip0: "get_best_tip_block s0 = Some tip" using t(1) p(4) by (simp add: get_best_tip_block_def)
  have b0: "get_root_block s0 (rb_hash H b) = Some b" by (simp add: p(2))
  have "rb_prev_root_hash b \<noteq> zero32" using linkedD(3) [OF lk(2) b0] assms(5) succ(2) by auto
  moreover obtain bs where "ancestry (get_root_block s0) tip bs" using can t(1) t0 p(4) by (auto simp: canon_ok_def)
  ultimately have anc: "ancestry (get_root_block s0) b (b # bs)"
    using t0 th assms(4) by (intro ancestry_step [where p = tip]) auto
  obtain orphaned s2 where mc: "make_canonical H s0 b = Some (Some orphaned, s2)"
    using make_canonical_complete [OF lk(2) can b0 anc] by blast
  have "put_root_block_with_fork_resolution_reporting H s b = Some ((rb_hash H b, True, orphaned), s2)"
    using put p(1) mc tip0 assms(4,5) succ(1)
    by (simp add: put_root_block_with_fork_resolution_reporting_def is_heavier_than_best_tip_def)
  moreover from this put_with_fork_resolution [OF inv adm] have "put_outcome H s b True orphaned s2" by auto
  ultimately show ?thesis by (auto simp: put_root_block_with_fork_resolution_def put_outcome_def)
qed

lemma formation_tick_fields:
  assumes inv: "chain_inv H s" and tip: "get_best_tip_block s = Some tip"
    and tick: "formation_tick mode L H M ss s identity elapsed now_ms raw gate b = (Formed rb spaces contents, gate', b')"
  shows "rb_prev_root_hash rb = rb_hash H tip" "rb_height rb = rb_height tip + 1" "rb_timestamp rb = quantize raw"
    "rb_block_creator rb = identity" "rb_verify_merkle_root H rb = Inr ()" "rb_verify_pow_sum rb spaces = Inr ()"
proof -
  from formation_tick_built [OF tick] obtain b1 where
    form: "should_form_or_flush (follow_tip s b) PENDING_FLUSH_TIMEOUT_SECS now_ms = (True, b1)"
    and build: "build_root_block L H b1 (quantize raw) identity (map_option (is_authorized_in_space mode) ss) (Some s) = ((rb, spaces, contents), b')"
    by blast
  have "rb = from_space_blocks H spaces (rb_hash H tip) (rb_cumulative_pow tip) (quantize raw)
      (bb_difficulty_target b1) (rb_height tip + 1) identity"
    using build_root_block_parts(3) [OF build] should_form_or_flush_frame [OF form] follow_tip_fields [OF inv tip, of b]
    by (simp add: quantized_quantize)
  then show "rb_prev_root_hash rb = rb_hash H tip" "rb_height rb = rb_height tip + 1" "rb_timestamp rb = quantize raw"
    "rb_block_creator rb = identity" "rb_verify_merkle_root H rb = Inr ()" "rb_verify_pow_sum rb spaces = Inr ()"
    by (simp_all add: from_space_blocks_def Let_def rb_verify_merkle_root_def rb_verify_pow_sum_def)
qed

text \<open>
  C5. What the task forms, the network takes: the block extends the tip of the chain and becomes the tip when it is
  stored; it is stamped with the ten-second window in which the node judged itself eligible, so that it passes
  the leader check of every node that holds the blocks of the former; its parts verify; none of its actions
  is on the chain already and all that need a sponsor have one, in the store or in the block.
\<close>

theorem formed_block_accepted:
  assumes inv: "chain_inv H s" and tip: "get_best_tip_block s = Some tip"
    and tick: "formation_tick mode L H M ss s identity elapsed now_ms raw gate b = (Formed rb spaces contents, gate', b')"
    and "admissible H s rb"
    and peer: "\<And>h x. get_root_block s h = Some x \<Longrightarrow> get_root_block peer h = Some x"
  shows "(\<exists>s'. put_root_block_with_fork_resolution H s rb = Some ((rb_hash H rb, True), s') \<and> chain_inv H s') \<and>
    rb_prev_root_hash rb = rb_hash H tip \<and> rb_timestamp rb = raw div 10 * 10 \<and>
    leader_accepted mode H M peer known_header_backfill rb \<and>
    rb_verify_merkle_root H rb = Inr () \<and> rb_verify_pow_sum rb spaces = Inr () \<and>
    (\<forall>a \<in> set (block_actions contents). is_action_finalized s (action_hash H a) = None) \<and>
    formed_authorized mode ss contents"
proof -
  from formation_tick_built [OF tick] have elig: "fst (formation_eligible mode H M s identity (quantize raw))"
    and ok: "formed_authorized mode ss contents" "\<not> includes_finalized H s contents" by blast+
  note fields = formation_tick_fields [OF inv tip tick]
  have "leader_accepted mode H M peer known_header_backfill rb"
    by (rule leader_accepted_formed [OF inv _ tip fields(1) peer]) (simp add: fields elig)
  moreover have "\<forall>a \<in> set (block_actions contents). is_action_finalized s (action_hash H a) = None"
    using ok(2) by (auto simp: includes_finalized_def block_actions_def)
  ultimately show ?thesis
    using extension_adopted [OF inv assms(4) tip fields(1,2)] fields ok(1)
    by (auto simp: quantize_def TIMESTAMP_QUANTUM_SECS_def)
qed


text \<open>
  C6. Formation does not stall: when the gate is open, something is due and eight minutes and ten seconds have passed
  since the tip, a run of the task forms a block, whatever the election, unless pending grants contradict each
  other or one of them is on the chain already.
\<close>

theorem formation_never_stalls:
  assumes inv: "chain_inv H s" and tip: "get_best_tip_block s = Some tip"
    and "fst (gate_allows gate s elapsed)" and "formation_due s now_ms b"
    and late: "unat (rb_timestamp tip) + 490 \<le> unat raw"
    and cons: "consistent_grants (pool_of b)" and inj: "inj_on (action_hash H) (set (pool_of b))"
    and fresh: "\<And>a. a \<in> set (pool_of b) \<Longrightarrow> act_type a = Sponsor \<Longrightarrow> is_action_finalized s (action_hash H a) = None"
  shows "\<exists>rb spaces contents gate' b'.
    formation_tick mode L H M ss s identity elapsed now_ms raw gate b = (Formed rb spaces contents, gate', b')"
proof -
  have "fst (formation_eligible mode H M s identity (quantize raw))" by (simp add: late_eligible [OF tip late])
  from formation_tick_builds [OF inv tip assms(3,4) this, of L ss] obtain b1 rb spaces contents b' where
    thr: "bb_threads b1 = bb_threads b"
    and build: "build_root_block L H b1 (quantize raw) identity (map_option (is_authorized_in_space mode) ss) (Some s) = ((rb, spaces, contents), b')"
    and tick: "formation_tick mode L H M ss s identity elapsed now_ms raw gate b =
      (if formed_authorized mode ss contents \<and> \<not> includes_finalized H s contents then Formed rb spaces contents
       else Refused rb spaces contents, snd (gate_allows gate s elapsed), b')" by blast
  have pool: "thread_actions (pending_threads b1) = pool_of b" by (simp add: pool_of_def thr)
  have "formed_authorized mode ss contents"
  proof (cases ss)
    case (Some st)
    have "requires_sponsored_author (act_type a) \<Longrightarrow> is_authorized_in_space mode st (act_actor a) (cb_space_id cb) \<or>
        (case sponsored_in_block contents (act_actor a) of Some (Some scope) \<Rightarrow> scope = cb_space_id cb | Some None \<Rightarrow> True | None \<Rightarrow> False)"
      if "cb \<in> set contents" "a \<in> set (cb_actions cb)" for cb a
      by (rule built_block_passes(2) [OF build [unfolded Some option.map] _ _ _ that]) (use cons inj fresh in \<open>simp_all add: pool\<close>)
    with Some show ?thesis by (simp add: formed_authorized_def)
  qed (simp add: formed_authorized_def)
  moreover have "\<not> includes_finalized H s contents" by (rule built_not_finalized [OF build])
  ultimately show ?thesis using tick by simp
qed

text \<open>
  The check before storing costs the whole pool. When the only grants for an author that are pending are
  on the chain already but did not take effect, the builder leaves them out and keeps what the author wrote; the
  block is refused. By then the builder has emptied the pool, actions of all other authors included, and
  counts the refused block as its tip.
\<close>

theorem refused_block_drops_pool:
  assumes inv: "chain_inv H s" and tip: "get_best_tip_block s = Some tip"
    and "fst (gate_allows gate s elapsed)" and "formation_due s now_ms b"
    and "fst (formation_eligible mode H M s identity (quantize raw))"
    and cons: "consistent_grants (pool_of b)" and inj: "inj_on (action_hash H) (set (pool_of b))"
    and g: "g \<in> set (pool_of b)" "grants g (act_actor a)" "act_parent_id g = None"
    and dead: "\<And>g. g \<in> set (pool_of b) \<Longrightarrow> grants g (act_actor a) \<Longrightarrow> is_action_finalized s (action_hash H g) \<noteq> None"
    and t: "t \<in> set (pending_threads b)" and a: "a \<in> set (pt_actions t)" "requires_sponsored_author (act_type a)"
    and new: "is_action_finalized s (action_hash H a) = None"
    and unauth: "\<And>space. \<not> is_authorized_in_space mode st (act_actor a) space"
  shows "\<exists>rb spaces contents gate' b'.
    formation_tick mode L H M (Some st) s identity elapsed now_ms raw gate b = (Refused rb spaces contents, gate', b') \<and>
    pool_of b' = [] \<and> bb_prev_root_hash b' = rb_hash H rb"
proof -
  from formation_tick_builds [OF inv tip assms(3-5), of L "Some st", unfolded option.map] obtain b1 rb spaces contents b' where
    thr: "bb_threads b1 = bb_threads b"
    and build: "build_root_block L H b1 (quantize raw) identity (Some (is_authorized_in_space mode st)) (Some s) = ((rb, spaces, contents), b')"
    and tick: "formation_tick mode L H M (Some st) s identity elapsed now_ms raw gate b =
      (if formed_authorized mode (Some st) contents \<and> \<not> includes_finalized H s contents then Formed rb spaces contents
       else Refused rb spaces contents, snd (gate_allows gate s elapsed), b')" by blast
  have pool: "thread_actions (pending_threads b1) = pool_of b" by (simp add: pool_of_def thr)
  have sub: "x \<in> set (pool_of b)" if "x \<in> set (block_actions contents)" for x
    using built_from_pool [OF build that] by (simp add: pool)
  have "batch_grants b1 (act_actor a) = Some None"
    using batch_grants_cases [of b1 "act_actor a" None] cons g by (auto simp: pool)
  then have "minable H b1 (Some (is_authorized_in_space mode st)) (Some s) (pt_space_id t) a"
    using new by (simp add: minable_def authorized_author_def)
  then obtain x where x: "x \<in> set (block_actions contents)" "action_hash H x = action_hash H a"
    using built_has_minable [OF build, of t a] t a(1) thr by auto
  moreover have "a \<in> set (pool_of b)" using t a(1) by (auto simp: pool_of_def thread_actions_def)
  ultimately have "a \<in> set (block_actions contents)" using sub inj by (metis inj_onD)
  moreover have "sponsored_in_block contents (act_actor a) = None"
  proof -
    have cb: "consistent_grants (block_actions contents)" using cons sub unfolding consistent_grants_def by blast
    have "\<not> grants x (act_actor a)" if "x \<in> set (block_actions contents)" for x
      using dead [OF sub [OF that]] built_from_pool(2) [OF build that] by auto
    then show ?thesis
      using note_grants_fold(2) [OF cb, of "act_actor a"] by (simp add: sponsored_in_block_def block_actions_def)
  qed
  ultimately have "\<not> formed_authorized mode (Some st) contents"
    using unauth a(2) by (force simp: formed_authorized_def block_actions_def)
  then show ?thesis using tick build_root_block_parts(4,5) [OF build] by (simp add: pool_of_def)
qed

text \<open>
  A block that is formed after a submission is judged at the current second but stamped with the start of its
  ten-second window: when the maximum time is reached within the window, an identity at the greatest distance
  forms a block that every node refuses, its own included.
\<close>

theorem submitted_block_refused:
  assumes "rpc_form mode L H M ss s identity elapsed now_ms raw gate b = (Formed rb spaces contents, gate', b')"
    and tip: "get_best_tip_block s = Some tip" and "bb_prev_root_hash b = rb_hash H tip" and "identity \<noteq> zero32"
    and stored: "get_root_block peer (rb_hash H tip) = Some tip" and "bb_current_height b + 1 > 0"
    and early: "unat raw div 10 * 10 < unat (rb_timestamp tip) + unat (max_eligibility_time mode)"
    and far: "leader_distance (compute_block_seed H (rb_hash H tip) (replicate 16 0)) identity = replicate 32 0xFF"
  shows "\<not> leader_accepted mode H M peer False rb"
proof -
  from assms(1) obtain b1 where form: "should_form_root b now_ms = (True, b1)"
    and build: "build_root_block L H b1 raw identity (map_option (is_authorized_in_space mode) ss) (Some s) = ((rb, spaces, contents), b')"
    by (auto simp: rpc_form_def Let_def split: prod.splits if_splits)
  have "bb_prev_root_hash b1 = bb_prev_root_hash b" "bb_current_height b1 = bb_current_height b"
    using form by (auto simp: should_form_root_def split: if_splits option.splits)
  then have rb: "rb_prev_root_hash rb = rb_hash H tip" "rb_height rb > 0" "rb_timestamp rb = quantized raw" "rb_block_creator rb = identity"
    using build_root_block_parts(3) [OF build] assms(3,6) by (simp_all add: from_space_blocks_def Let_def)
  have "unat (quantized raw) = unat raw div 10 * 10" using unat_quantize [of raw] by (simp add: quantized_def quantize_def)
  moreover have "0 < unat (max_eligibility_time mode)"
    by (cases mode) (simp_all add: max_eligibility_time_def MAX_ELIGIBILITY_TIME_def)
  ultimately have "\<not> max_eligibility_time mode \<le> sat_sub (quantized raw) (rb_timestamp tip)"
    using early by (simp add: word_le_nat_alt unat_sat_sub)
  then show ?thesis using rb assms(4) stored far
    by (simp add: leader_accepted_def validate_block_leader_def is_eligible_def be_new_def not_below_farthest)
qed


subsection \<open>Examples\<close>

definition tip_builder :: "action list \<Rightarrow> hash32 list block_builder" where
  "tip_builder as = (bb_new (lru_list 8) 1)\<lparr>bb_threads := [([1], sample_thread as)], bb_current_height := 1,
     bb_prev_root_hash := replicate 24 0 @ u64_be 2, bb_waiting_since := Some 0\<rparr>"

definition dead_grant :: action where
  "dead_grant = new_sponsor_scoped_with_pow (replicate 32 6) (replicate 32 7) 1000 None [] 0 0 zero32"

definition marked_store :: chain_store where
  "marked_store = fork_store\<lparr>cs_finalized_actions := [(action_hash ts_digest dead_grant, 1)]\<rparr>"

lemma chain_inv_marks: "chain_inv H (s\<lparr>cs_finalized_actions := m\<rparr>) = chain_inv H s"
proof -
  have "get_root_block (s\<lparr>cs_finalized_actions := m\<rparr>) = get_root_block s" by (simp add: fun_eq_iff get_root_block_def)
  then show ?thesis by (cases "cs_best_tip s") (simp_all add: chain_inv_def cache_ok_def canon_ok_def)
qed

lemma child_timestamp: "rb_timestamp (child_block ts w c) = ts" by (simp add: child_block_def genesis_def)

lemma marked_store_tip: "get_best_tip_block marked_store = Some (child_block 2 100 0)"
  using fork_store_tip by (cases "cs_best_tip fork_store") (simp_all add: marked_store_def get_best_tip_block_def)

lemma tip_builder_pool: "pool_of (tip_builder as) = as" "pending_threads (tip_builder as) = [sample_thread as]"
  by (simp_all add: pool_of_def tip_builder_def sample_thread_def)

lemma sample_action_fields: "act_pow_work sample_action = 3" "act_type sample_action = Reply" "act_actor sample_action = replicate 32 7"
  by (simp_all add: sample_action_def new_reply_def)

lemma tip_builder_due: "formation_due s now (tip_builder [sample_action])" "formation_due s now (tip_builder [dead_grant, sample_action])"
  unfolding formation_due_def tip_builder_pool
  by (simp_all add: is_threshold_met_def bb_total_pow_def pt_total_pow_def tip_builder_def
      sample_thread_def sample_action_fields dead_grant_def new_sponsor_scoped_with_pow_def bb_new_def from_chain_state_def)

lemma dead_grant_hash: "action_hash ts_digest dead_grant \<noteq> action_hash ts_digest sample_action"
  by (simp add: action_hash_def ts_digest_def byte_slice_def dead_grant_def new_sponsor_scoped_with_pow_def sample_action_def
      new_reply_def u64_be_def)

lemma tip_builder_formed:
  obtains rb spaces contents gate' b' where
    "formation_tick Mainnet (lru_list 8) ts_digest sample_libm None fork_store (replicate 32 1) 0 0 500 None (tip_builder [sample_action]) =
       (Formed rb spaces contents, gate', b')"
proof -
  have g: "fst (gate_allows None fork_store 0)" by (simp add: gate_allows_def)
  have "fst (formation_eligible Mainnet ts_digest sample_libm fork_store (replicate 32 1) (quantize 500))"
    using late_eligible [OF fork_store_tip, of 500] by (simp add: child_timestamp)
  show ?thesis
  proof (rule formation_tick_builds [OF fork_store_inv fork_store_tip g tip_builder_due(1) [of fork_store 0] \<open>fst (formation_eligible _ _ _ _ _ _)\<close>,
        of "lru_list 8" None])
    fix b1 :: "hash32 list block_builder" and rb spaces contents b'
    assume "build_root_block (lru_list 8) ts_digest b1 (quantize 500) (replicate 32 1) (map_option (is_authorized_in_space Mainnet) None)
        (Some fork_store) = ((rb, spaces, contents), b')"
      and tick: "formation_tick Mainnet (lru_list 8) ts_digest sample_libm None fork_store (replicate 32 1) 0 0 500 None (tip_builder [sample_action]) =
        (if formed_authorized Mainnet None contents \<and> \<not> includes_finalized ts_digest fork_store contents then Formed rb spaces contents
         else Refused rb spaces contents, snd (gate_allows None fork_store 0), b')"
    then have "formed_authorized Mainnet None contents \<and> \<not> includes_finalized ts_digest fork_store contents"
      using built_not_finalized by (simp add: formed_authorized_def)
    with tick show ?thesis by (intro that) simp
  qed
qed

theorem formation_never_stalls_witness:
  "\<exists>rb spaces contents gate' b'.
     formation_tick Mainnet (lru_list 8) ts_digest sample_libm (Some ss_empty) fork_store (replicate 32 1) 0 0 500 None (tip_builder [sample_action]) =
       (Formed rb spaces contents, gate', b')"
  by (rule formation_never_stalls [OF fork_store_inv fork_store_tip _ tip_builder_due(1)])
    (simp_all add: gate_allows_def tip_builder_pool child_timestamp consistent_grants_def grants_def sample_action_fields)

theorem refused_block_drops_pool_witness:
  "\<exists>rb spaces contents gate' b'.
     formation_tick Mainnet (lru_list 8) ts_digest sample_libm (Some ss_empty) marked_store (replicate 32 1) 0 0 500 None
       (tip_builder [dead_grant, sample_action]) = (Refused rb spaces contents, gate', b') \<and> pool_of b' = [] \<and>
     bb_prev_root_hash b' = rb_hash ts_digest rb"
proof -
  have inv: "chain_inv ts_digest marked_store" by (simp add: marked_store_def chain_inv_marks fork_store_inv)
  have "fst (formation_eligible Mainnet ts_digest sample_libm marked_store (replicate 32 1) (quantize 500))"
    using late_eligible [OF marked_store_tip, of 500] by (simp add: child_timestamp)
  moreover have "fst (gate_allows None marked_store 0)" by (simp add: gate_allows_def)
  moreover have fin: "is_action_finalized marked_store (action_hash ts_digest dead_grant) = Some 1"
    "is_action_finalized marked_store (action_hash ts_digest sample_action) = None"
    using dead_grant_hash by (simp_all add: marked_store_def is_action_finalized_def tree_get_def)
  moreover have g: "act_type dead_grant = Sponsor" "act_content_hash dead_grant = Some (replicate 32 7)" "act_parent_id dead_grant = None"
    by (simp_all add: dead_grant_def new_sponsor_scoped_with_pow_def)
  moreover have "\<not> is_authorized_in_space Mainnet ss_empty (replicate 32 7) space" for space
    by (simp add: is_authorized_in_space_def ss_exists_def ss_empty_def is_in_hardcoded_genesis_list_def active_genesis_list_def
        MAINNET_GENESIS_LIST_def numeral_nat)
  moreover have "inj_on (action_hash ts_digest) (set [dead_grant, sample_action])" using dead_grant_hash by (auto simp: inj_on_def)
  moreover have "\<exists>y. is_action_finalized marked_store (action_hash ts_digest x) = Some y"
    if "x = dead_grant \<or> x = sample_action" "act_type x = Sponsor \<and> act_content_hash x = Some (replicate 32 7)" for x
    using that fin(1) by (auto simp: sample_action_fields)
  moreover have "sample_action \<in> set (pt_actions (sample_thread [dead_grant, sample_action]))" by (simp add: sample_thread_def)
  ultimately show ?thesis
    using refused_block_drops_pool [OF inv marked_store_tip, where gate = None and elapsed = 0 and b = "tip_builder [dead_grant, sample_action]"
        and g = dead_grant and a = sample_action and t = "sample_thread [dead_grant, sample_action]" and st = ss_empty and mode = Mainnet
        and identity = "replicate 32 1" and raw = 500 and M = sample_libm and L = "lru_list 8" and now_ms = 0]
      tip_builder_due(2)
    by (simp add: tip_builder_pool grants_def consistent_grants_def sample_action_fields)
qed


lemma leader_distance_complement: "leader_distance a (map NOT a) = replicate (length a) 0xFF"
  by (induction a) (simp_all add: leader_distance_def)

theorem submitted_block_refused_witness:
  "\<exists>identity rb spaces contents gate' b'.
     rpc_form Mainnet (lru_list 8) ts_digest sample_libm None fork_store identity 0 30000 482 None (tip_builder [sample_action]) =
       (Formed rb spaces contents, gate', b') \<and> \<not> leader_accepted Mainnet ts_digest sample_libm fork_store False rb"
proof -
  define seed where "seed = compute_block_seed ts_digest (rb_hash ts_digest (child_block 2 100 0)) (replicate 16 0)"
  define identity where "identity = map NOT seed"
  have seed: "seed = replicate 24 0 @ byte_slice (replicate 24 0 @ u64_be 2 @ replicate 16 0) 33 8"
    by (simp add: seed_def compute_block_seed_def ts_digest_def)
  then have len: "length seed = 32" and id: "identity \<noteq> zero32"
    by (simp_all add: byte_slice_def identity_def zero32_def replicate_eq_replicate flip: replicate_add)
  have far: "leader_distance (compute_block_seed ts_digest (rb_hash ts_digest (child_block 2 100 0)) (replicate 16 0)) identity =
      replicate 32 0xFF"
    unfolding seed_def [symmetric] identity_def leader_distance_complement len ..
  let ?b = "tip_builder [sample_action]"
  have elig: "fst (formation_eligible Mainnet ts_digest sample_libm fork_store identity 482)"
    by (simp add: formation_eligible_def fork_store_tip child_timestamp is_eligible_def be_new_def max_eligibility_time_def
        MAX_ELIGIBILITY_TIME_def sat_sub_def Let_def)
  have "next_height ?b = rb_height (child_block 2 100 0) + 1" by (simp add: next_height_def tip_builder_def)
  then have free: "get_root_hash_at_height fork_store (next_height ?b) = None"
    using height_above_tip_free [OF fork_store_inv fork_store_tip] by simp
  have form: "should_form_root ?b 30000 = (True, ?b)"
    using tip_builder_due(1) [of fork_store 0]
    by (simp add: should_form_root_def is_threshold_met_def bb_total_pow_def pt_total_pow_def tip_builder_def sample_thread_def
        sample_action_fields bb_new_def from_chain_state_def LAZY_BLOCK_WAIT_MS_def)
  obtain rb spaces contents b' where
    "build_root_block (lru_list 8) ts_digest ?b 482 identity None (Some fork_store) = ((rb, spaces, contents), b')" by (metis surj_pair)
  then have r: "rpc_form Mainnet (lru_list 8) ts_digest sample_libm None fork_store identity 0 30000 482 None ?b =
      (Formed rb spaces contents, None, b')"
    by (simp add: rpc_form_def gate_allows_def free elig form)
  have "\<not> leader_accepted Mainnet ts_digest sample_libm fork_store False rb"
    by (rule submitted_block_refused [OF r fork_store_tip _ id _ _ _ far])
      (simp_all add: tip_builder_def fork_store_get child_timestamp max_eligibility_time_def MAX_ELIGIBILITY_TIME_def)
  with r show ?thesis by blast
qed

theorem formed_block_accepted_witness:
  "\<exists>rb spaces contents gate' b' s'.
     formation_tick Mainnet (lru_list 8) ts_digest sample_libm None fork_store (replicate 32 1) 0 0 500 None (tip_builder [sample_action]) =
       (Formed rb spaces contents, gate', b') \<and>
     put_root_block_with_fork_resolution ts_digest fork_store rb = Some ((rb_hash ts_digest rb, True), s') \<and>
     leader_accepted Mainnet ts_digest sample_libm fork_store False rb"
proof -
  obtain rb spaces contents gate' b' where tick: "formation_tick Mainnet (lru_list 8) ts_digest sample_libm None fork_store
      (replicate 32 1) 0 0 500 None (tip_builder [sample_action]) = (Formed rb spaces contents, gate', b')"
    by (rule tip_builder_formed)
  note f = formation_tick_fields [OF fork_store_inv fork_store_tip tick]
  have ts: "rb_timestamp rb = 500" using f(3) by (simp add: word_unat_eq_iff unat_quantize)
  have prev: "rb_prev_root_hash rb = replicate 24 0 @ u64_be 2" using f(1) by simp
  then have h: "rb_hash ts_digest rb = replicate 24 0 @ u64_be 500" using ts by (subst rb_hash_ts) simp_all
  have "linked_store ts_digest ((get_root_block fork_store)(rb_hash ts_digest rb \<mapsto> rb))"
    unfolding linked_store_def fork_store_get h using prev f(2)
    by (auto simp: zero32_ts h split: if_splits)
  then have "admissible ts_digest fork_store rb" by (simp add: admissible_def fork_store_get h)
  from formed_block_accepted [OF fork_store_inv fork_store_tip tick this, of fork_store False] tick show ?thesis by blast
qed

end
