(* ===== verification/Reputation.thy ===== *)
theory Reputation
  imports Ieee_Round Spons_Wire Mempool_Correct
begin

text \<open>
  The reputation of authors (\<open>src/reputation\<close>): what is counted for an identity, the score computed from it,
  the effects of a score, and the store of the records. Scores are signed 32-bit numbers. The products in
  the score are those of a release build, which wrap around; its sums saturate.
\<close>

subsection \<open>Signed 32-bit numbers\<close>

type_synonym i32 = int

definition i32_wrap :: "int \<Rightarrow> i32" where "i32_wrap x = signed_take_bit 31 x"
definition i32_sat :: "int \<Rightarrow> i32" where "i32_sat x = max (- (2 ^ 31)) (min (2 ^ 31 - 1) x)"
definition i32_of_u32 :: "u32 \<Rightarrow> i32" where "i32_of_u32 w = i32_wrap (uint w)"

definition u32_sat_succ :: "u32 \<Rightarrow> u32" where "u32_sat_succ w = (if w = - 1 then w else w + 1)"
definition u32_sat_sub :: "u32 \<Rightarrow> u32 \<Rightarrow> u32" where "u32_sat_sub a b = (if b \<le> a then a - b else 0)"

subsection \<open>Scores\<close>

record poster_reputation =
  pr_identity :: hash32
  pr_spam_flags_received :: u32
  pr_spam_flags_countered :: u32
  pr_illegal_content_flags :: u32
  pr_quality_attestations :: u32
  pr_attester_countered_count :: u32
  pr_counter_attestation_successes :: u32
  pr_identity_age_days :: u32
  pr_last_spam_flag_at :: u64
  pr_last_counter_success_at :: u64
  pr_cached_score :: i32
  pr_total_posts :: u32
  pr_total_engagements :: u32

definition REPUTATION_BASE_SCORE :: i32 where "REPUTATION_BASE_SCORE = 100"
definition REPUTATION_RECOVERY_MAX_DAYS :: i32 where "REPUTATION_RECOVERY_MAX_DAYS = 90"
definition REPUTATION_FAST_RECOVERY_PER_COUNTER :: i32 where "REPUTATION_FAST_RECOVERY_PER_COUNTER = 10"
definition REPUTATION_TRUSTED_THRESHOLD :: i32 where "REPUTATION_TRUSTED_THRESHOLD = 200"
definition REPUTATION_NORMAL_THRESHOLD :: i32 where "REPUTATION_NORMAL_THRESHOLD = 100"
definition REPUTATION_WATCHED_THRESHOLD :: i32 where "REPUTATION_WATCHED_THRESHOLD = 50"
definition REPUTATION_RESTRICTED_THRESHOLD :: i32 where "REPUTATION_RESTRICTED_THRESHOLD = 0"
definition REPUTATION_MIN_SCORE :: i32 where "REPUTATION_MIN_SCORE = - 1000"
definition AGE_BONUS_CAP :: u32 where "AGE_BONUS_CAP = 365"
definition QUALITY_BONUS_PER_ATTESTATION :: i32 where "QUALITY_BONUS_PER_ATTESTATION = 5"
definition COUNTER_SUCCESS_BONUS :: i32 where "COUNTER_SUCCESS_BONUS = 3"
definition COUNTER_BONUS_PER_FLAG :: i32 where "COUNTER_BONUS_PER_FLAG = 15"
definition SPAM_PENALTY_PER_FLAG :: i32 where "SPAM_PENALTY_PER_FLAG = 20"
definition ATTESTER_PENALTY_PER_COUNTER :: i32 where "ATTESTER_PENALTY_PER_COUNTER = 30"
definition ILLEGAL_PENALTY_PER_FLAG :: i32 where "ILLEGAL_PENALTY_PER_FLAG = 1000"

lemmas reputation_consts = REPUTATION_BASE_SCORE_def REPUTATION_RECOVERY_MAX_DAYS_def REPUTATION_FAST_RECOVERY_PER_COUNTER_def
  REPUTATION_TRUSTED_THRESHOLD_def REPUTATION_NORMAL_THRESHOLD_def REPUTATION_WATCHED_THRESHOLD_def
  REPUTATION_RESTRICTED_THRESHOLD_def REPUTATION_MIN_SCORE_def AGE_BONUS_CAP_def QUALITY_BONUS_PER_ATTESTATION_def
  COUNTER_SUCCESS_BONUS_def COUNTER_BONUS_PER_FLAG_def SPAM_PENALTY_PER_FLAG_def ATTESTER_PENALTY_PER_COUNTER_def
  ILLEGAL_PENALTY_PER_FLAG_def

definition calculate_reputation_score :: "poster_reputation \<Rightarrow> u32 \<Rightarrow> i32" where
  "calculate_reputation_score rep days_since_last_flag =
     (let age_bonus = i32_of_u32 (min (pr_identity_age_days rep) AGE_BONUS_CAP);
          quality_bonus = i32_wrap (i32_of_u32 (pr_quality_attestations rep) * QUALITY_BONUS_PER_ATTESTATION);
          counter_success_bonus = i32_wrap (i32_of_u32 (pr_counter_attestation_successes rep) * COUNTER_SUCCESS_BONUS);
          counter_bonus = i32_wrap (i32_of_u32 (pr_spam_flags_countered rep) * COUNTER_BONUS_PER_FLAG);
          spam_penalty = i32_wrap (i32_of_u32 (pr_spam_flags_received rep) * SPAM_PENALTY_PER_FLAG);
          attester_penalty = i32_wrap (i32_of_u32 (pr_attester_countered_count rep) * ATTESTER_PENALTY_PER_COUNTER);
          illegal_penalty = i32_wrap (i32_of_u32 (pr_illegal_content_flags rep) * ILLEGAL_PENALTY_PER_FLAG);
          recovery_bonus = min (i32_of_u32 days_since_last_flag) REPUTATION_RECOVERY_MAX_DAYS;
          fast_recovery = i32_wrap (i32_of_u32 (pr_spam_flags_countered rep) * REPUTATION_FAST_RECOVERY_PER_COUNTER);
          bonus = foldl (\<lambda>s x. i32_sat (s + x)) REPUTATION_BASE_SCORE
            [age_bonus, quality_bonus, counter_success_bonus, counter_bonus, recovery_bonus, fast_recovery];
          score = foldl (\<lambda>s x. i32_sat (s - x)) bonus [spam_penalty, attester_penalty, illegal_penalty]
      in max score REPUTATION_MIN_SCORE)"

subsection \<open>Records\<close>

definition recalculate_score :: "poster_reputation \<Rightarrow> u32 \<Rightarrow> poster_reputation" where
  "recalculate_score rep days = rep\<lparr>pr_cached_score := calculate_reputation_score rep days\<rparr>"

definition rep_new :: "hash32 \<Rightarrow> poster_reputation" where
  "rep_new identity =
     \<lparr>pr_identity = identity, pr_spam_flags_received = 0, pr_spam_flags_countered = 0, pr_illegal_content_flags = 0,
      pr_quality_attestations = 0, pr_attester_countered_count = 0, pr_counter_attestation_successes = 0,
      pr_identity_age_days = 0, pr_last_spam_flag_at = 0, pr_last_counter_success_at = 0, pr_cached_score = 100,
      pr_total_posts = 0, pr_total_engagements = 0\<rparr>"

definition pr_with_age :: "hash32 \<Rightarrow> u32 \<Rightarrow> poster_reputation" where
  "pr_with_age identity age_days = recalculate_score ((rep_new identity)\<lparr>pr_identity_age_days := age_days\<rparr>) 0"

definition receive_spam_flag :: "u64 \<Rightarrow> poster_reputation \<Rightarrow> poster_reputation" where
  "receive_spam_flag timestamp rep =
     recalculate_score (rep\<lparr>pr_spam_flags_received := u32_sat_succ (pr_spam_flags_received rep), pr_last_spam_flag_at := timestamp\<rparr>) 0"

definition receive_counter :: "u64 \<Rightarrow> poster_reputation \<Rightarrow> poster_reputation" where
  "receive_counter timestamp rep =
     recalculate_score (rep\<lparr>pr_spam_flags_countered := u32_sat_succ (pr_spam_flags_countered rep),
       pr_last_counter_success_at := timestamp\<rparr>) 0"

definition receive_illegal_flag :: "u64 \<Rightarrow> poster_reputation \<Rightarrow> poster_reputation" where
  "receive_illegal_flag timestamp rep =
     recalculate_score (rep\<lparr>pr_illegal_content_flags := u32_sat_succ (pr_illegal_content_flags rep), pr_last_spam_flag_at := timestamp\<rparr>) 0"

definition attestation_countered :: "poster_reputation \<Rightarrow> poster_reputation" where
  "attestation_countered rep =
     recalculate_score (rep\<lparr>pr_attester_countered_count := u32_sat_succ (pr_attester_countered_count rep)\<rparr>) 0"

definition counter_success :: "poster_reputation \<Rightarrow> poster_reputation" where
  "counter_success rep =
     recalculate_score (rep\<lparr>pr_counter_attestation_successes := u32_sat_succ (pr_counter_attestation_successes rep)\<rparr>) 0"

definition receive_quality_attestation :: "poster_reputation \<Rightarrow> poster_reputation" where
  "receive_quality_attestation rep =
     recalculate_score (rep\<lparr>pr_quality_attestations := u32_sat_succ (pr_quality_attestations rep)\<rparr>) 0"

definition days_since_last_flag :: "poster_reputation \<Rightarrow> u64 \<Rightarrow> u32" where
  "days_since_last_flag rep current_time =
     (if pr_last_spam_flag_at rep = 0 \<or> current_time \<le> pr_last_spam_flag_at rep then 0
      else ucast ((current_time - pr_last_spam_flag_at rep) div 86400))"

definition pr_update_age :: "u32 \<Rightarrow> poster_reputation \<Rightarrow> poster_reputation" where
  "pr_update_age age_days rep =
     (let rep1 = rep\<lparr>pr_identity_age_days := age_days\<rparr> in recalculate_score rep1 (days_since_last_flag rep1 0))"

definition pr_record_post :: "poster_reputation \<Rightarrow> poster_reputation" where
  "pr_record_post rep = rep\<lparr>pr_total_posts := u32_sat_succ (pr_total_posts rep)\<rparr>"

definition pr_record_engagement :: "poster_reputation \<Rightarrow> poster_reputation" where
  "pr_record_engagement rep = rep\<lparr>pr_total_engagements := u32_sat_succ (pr_total_engagements rep)\<rparr>"

definition update_score :: "u64 \<Rightarrow> poster_reputation \<Rightarrow> poster_reputation" where
  "update_score current_time rep = recalculate_score rep (days_since_last_flag rep current_time)"

definition pr_has_illegal_flags :: "poster_reputation \<Rightarrow> bool" where
  "pr_has_illegal_flags rep \<longleftrightarrow> pr_illegal_content_flags rep > 0"

definition net_spam_flags :: "poster_reputation \<Rightarrow> u32" where
  "net_spam_flags rep = u32_sat_sub (pr_spam_flags_received rep) (pr_spam_flags_countered rep)"

definition u32_of_le :: "bytes \<Rightarrow> u32" where
  "u32_of_le bs = u32_of_be (rev bs)"

definition pr_to_bytes :: "poster_reputation \<Rightarrow> bytes" where
  "pr_to_bytes rep =
     pr_identity rep @ u32_le (pr_spam_flags_received rep) @ u32_le (pr_spam_flags_countered rep) @
     u32_le (pr_illegal_content_flags rep) @ u32_le (pr_quality_attestations rep) @
     u32_le (pr_attester_countered_count rep) @ u32_le (pr_counter_attestation_successes rep) @
     u32_le (pr_identity_age_days rep) @ u64_le (pr_last_spam_flag_at rep) @ u64_le (pr_last_counter_success_at rep) @
     u32_le (word_of_int (pr_cached_score rep)) @ u32_le (pr_total_posts rep) @ u32_le (pr_total_engagements rep)"

definition pr_from_bytes :: "bytes \<Rightarrow> poster_reputation option" where
  "pr_from_bytes bytes =
     (if length bytes < 88 then None
      else Some
        \<lparr>pr_identity = byte_slice bytes 0 32,
         pr_spam_flags_received = u32_of_le (byte_slice bytes 32 4),
         pr_spam_flags_countered = u32_of_le (byte_slice bytes 36 4),
         pr_illegal_content_flags = u32_of_le (byte_slice bytes 40 4),
         pr_quality_attestations = u32_of_le (byte_slice bytes 44 4),
         pr_attester_countered_count = u32_of_le (byte_slice bytes 48 4),
         pr_counter_attestation_successes = u32_of_le (byte_slice bytes 52 4),
         pr_identity_age_days = u32_of_le (byte_slice bytes 56 4),
         pr_last_spam_flag_at = u64_of_le (byte_slice bytes 60 8),
         pr_last_counter_success_at = u64_of_le (byte_slice bytes 68 8),
         pr_cached_score = i32_of_u32 (u32_of_le (byte_slice bytes 76 4)),
         pr_total_posts = u32_of_le (byte_slice bytes 80 4),
         pr_total_engagements = u32_of_le (byte_slice bytes 84 4)\<rparr>)"

subsection \<open>Effects\<close>

datatype reputation_effect = Trusted | Normal | Watched | RestrictedEffect | Untrusted

definition get_reputation_effect :: "i32 \<Rightarrow> reputation_effect" where
  "get_reputation_effect score =
     (if score > REPUTATION_TRUSTED_THRESHOLD then Trusted
      else if score \<ge> REPUTATION_NORMAL_THRESHOLD then Normal
      else if score > REPUTATION_WATCHED_THRESHOLD then Watched
      else if score > REPUTATION_RESTRICTED_THRESHOLD then RestrictedEffect
      else Untrusted)"

fun decay_multiplier :: "reputation_effect \<Rightarrow> rat" where
  "decay_multiplier Trusted = 3 / 2"
| "decay_multiplier Untrusted = 1 / 4"
| "decay_multiplier _ = 1"

fun rate_limit_multiplier :: "reputation_effect \<Rightarrow> rat" where
  "rate_limit_multiplier Watched = 1 / 2"
| "rate_limit_multiplier RestrictedEffect = f64_round (1 / 5)"
| "rate_limit_multiplier Untrusted = f64_round (1 / 10)"
| "rate_limit_multiplier _ = 1"

definition blocks_new_space_posting :: "reputation_effect \<Rightarrow> bool" where
  "blocks_new_space_posting e \<longleftrightarrow> e = RestrictedEffect \<or> e = Untrusted"

definition starts_accelerated_decay :: "reputation_effect \<Rightarrow> bool" where
  "starts_accelerated_decay e \<longleftrightarrow> e = Untrusted"

text \<open>\<open>round\<close> goes to the nearest integer, halves away from zero.\<close>

definition calculate_rate_limit :: "u32 \<Rightarrow> i32 \<Rightarrow> u32" where
  "calculate_rate_limit base_limit score =
     (let multiplier = rate_limit_multiplier (get_reputation_effect score)
      in word_of_int (min (2 ^ 32 - 1) (round (f64_round (of_nat (unat base_limit) * multiplier)))))"

definition calculate_decay_multiplier :: "i32 \<Rightarrow> rat" where
  "calculate_decay_multiplier score = decay_multiplier (get_reputation_effect score)"

definition ATTESTER_FULL_WEIGHT_SCORE :: i32 where "ATTESTER_FULL_WEIGHT_SCORE = REPUTATION_TRUSTED_THRESHOLD"

definition attester_weight :: "i32 \<Rightarrow> rat" where
  "attester_weight score =
     (if score \<le> 0 then 0
      else min (f64_round (of_int score / of_int ATTESTER_FULL_WEIGHT_SCORE)) 1)"

subsection \<open>The store\<close>

type_synonym reputation_store = "(hash32, bytes) tree"

definition rep_get :: "reputation_store \<Rightarrow> hash32 \<Rightarrow> string + poster_reputation option" where
  "rep_get s identity =
     (case tree_get s identity of
        Some bytes \<Rightarrow> (case pr_from_bytes bytes of Some rep \<Rightarrow> Inr (Some rep) | None \<Rightarrow> Inl ''Invalid reputation bytes'')
      | None \<Rightarrow> Inr None)"

definition rep_put :: "reputation_store \<Rightarrow> poster_reputation \<Rightarrow> reputation_store" where
  "rep_put s rep = tree_insert s (pr_identity rep) (pr_to_bytes rep)"

definition rep_get_or_create :: "reputation_store \<Rightarrow> hash32 \<Rightarrow> (string + poster_reputation) \<times> reputation_store" where
  "rep_get_or_create s identity =
     (case rep_get s identity of
        Inl e \<Rightarrow> (Inl e, s)
      | Inr (Some rep) \<Rightarrow> (Inr rep, s)
      | Inr None \<Rightarrow> let rep = rep_new identity in (Inr rep, rep_put s rep))"

definition rep_update ::
  "reputation_store \<Rightarrow> hash32 \<Rightarrow> (poster_reputation \<Rightarrow> poster_reputation) \<Rightarrow> (string + poster_reputation) \<times> reputation_store" where
  "rep_update s identity f =
     (case rep_get_or_create s identity of
        (Inl e, s1) \<Rightarrow> (Inl e, s1)
      | (Inr rep, s1) \<Rightarrow> let rep' = f rep in (Inr rep', rep_put s1 rep'))"

definition record_spam_flag :: "reputation_store \<Rightarrow> hash32 \<Rightarrow> u64 \<Rightarrow> (string + poster_reputation) \<times> reputation_store" where
  "record_spam_flag s identity timestamp = rep_update s identity (receive_spam_flag timestamp)"

definition record_counter :: "reputation_store \<Rightarrow> hash32 \<Rightarrow> u64 \<Rightarrow> (string + poster_reputation) \<times> reputation_store" where
  "record_counter s identity timestamp = rep_update s identity (receive_counter timestamp)"

definition record_illegal_flag :: "reputation_store \<Rightarrow> hash32 \<Rightarrow> u64 \<Rightarrow> (string + poster_reputation) \<times> reputation_store" where
  "record_illegal_flag s identity timestamp = rep_update s identity (receive_illegal_flag timestamp)"

definition record_attestation_countered :: "reputation_store \<Rightarrow> hash32 \<Rightarrow> (string + poster_reputation) \<times> reputation_store" where
  "record_attestation_countered s identity = rep_update s identity attestation_countered"

definition record_counter_success :: "reputation_store \<Rightarrow> hash32 \<Rightarrow> (string + poster_reputation) \<times> reputation_store" where
  "record_counter_success s identity = rep_update s identity counter_success"

definition record_quality_attestation :: "reputation_store \<Rightarrow> hash32 \<Rightarrow> (string + poster_reputation) \<times> reputation_store" where
  "record_quality_attestation s identity = rep_update s identity receive_quality_attestation"

definition rep_update_age :: "reputation_store \<Rightarrow> hash32 \<Rightarrow> u32 \<Rightarrow> (string + poster_reputation) \<times> reputation_store" where
  "rep_update_age s identity age_days = rep_update s identity (pr_update_age age_days)"

definition rep_record_post :: "reputation_store \<Rightarrow> hash32 \<Rightarrow> (string + poster_reputation) \<times> reputation_store" where
  "rep_record_post s identity = rep_update s identity pr_record_post"

definition rep_record_engagement :: "reputation_store \<Rightarrow> hash32 \<Rightarrow> (string + poster_reputation) \<times> reputation_store" where
  "rep_record_engagement s identity = rep_update s identity pr_record_engagement"

definition refresh_score :: "reputation_store \<Rightarrow> hash32 \<Rightarrow> u64 \<Rightarrow> (string + poster_reputation) \<times> reputation_store" where
  "refresh_score s identity current_time = rep_update s identity (update_score current_time)"

definition get_score :: "reputation_store \<Rightarrow> hash32 \<Rightarrow> string + i32" where
  "get_score s identity =
     (case rep_get s identity of Inl e \<Rightarrow> Inl e | Inr (Some rep) \<Rightarrow> Inr (pr_cached_score rep) | Inr None \<Rightarrow> Inr 100)"

definition is_below_threshold :: "reputation_store \<Rightarrow> hash32 \<Rightarrow> i32 \<Rightarrow> string + bool" where
  "is_below_threshold s identity threshold =
     (case get_score s identity of Inl e \<Rightarrow> Inl e | Inr score \<Rightarrow> Inr (score \<le> threshold))"

definition rep_has_illegal_flags :: "reputation_store \<Rightarrow> hash32 \<Rightarrow> string + bool" where
  "rep_has_illegal_flags s identity =
     (case rep_get s identity of Inl e \<Rightarrow> Inl e | Inr (Some rep) \<Rightarrow> Inr (pr_has_illegal_flags rep) | Inr None \<Rightarrow> Inr False)"

definition get_identities_below_threshold :: "reputation_store \<Rightarrow> i32 \<Rightarrow> hash32 list" where
  "get_identities_below_threshold s threshold =
     map fst (filter (\<lambda>(_, v). case pr_from_bytes v of Some rep \<Rightarrow> pr_cached_score rep \<le> threshold | None \<Rightarrow> False) (tree_iter s))"

subsection \<open>What the score is\<close>

text \<open>The score over the integers, before the floor.\<close>

definition raw_score :: "poster_reputation \<Rightarrow> int \<Rightarrow> int" where
  "raw_score rep days =
     100 + min (uint (pr_identity_age_days rep)) 365 + 5 * uint (pr_quality_attestations rep) +
     3 * uint (pr_counter_attestation_successes rep) + 25 * uint (pr_spam_flags_countered rep) +
     min days 90 - 20 * uint (pr_spam_flags_received rep) -
     30 * uint (pr_attester_countered_count rep) - 1000 * uint (pr_illegal_content_flags rep)"

text \<open>No count has reached a million.\<close>

definition small_counts :: "poster_reputation \<Rightarrow> bool" where
  "small_counts rep \<longleftrightarrow>
     uint (pr_quality_attestations rep) \<le> 1000000 \<and> uint (pr_counter_attestation_successes rep) \<le> 1000000 \<and>
     uint (pr_spam_flags_countered rep) \<le> 1000000 \<and> uint (pr_spam_flags_received rep) \<le> 1000000 \<and>
     uint (pr_attester_countered_count rep) \<le> 1000000 \<and> uint (pr_illegal_content_flags rep) \<le> 1000000"

lemma i32_wrap_id: "- (2 ^ 31) \<le> x \<Longrightarrow> x < 2 ^ 31 \<Longrightarrow> i32_wrap x = x"
  by (simp add: i32_wrap_def signed_take_bit_int_eq_self)

lemma i32_wrap_range: "- (2 ^ 31) \<le> i32_wrap x" "i32_wrap x < 2 ^ 31"
  unfolding i32_wrap_def using signed_take_bit_int_greater_eq_minus_exp [of 31 x] signed_take_bit_int_less_exp [of 31 x] by simp_all

lemma i32_of_small: "uint w < 2 ^ 31 \<Longrightarrow> i32_of_u32 w = uint w"
  unfolding i32_of_u32_def by (rule i32_wrap_id) (use uint_ge_0 [of w] in linarith)

lemma i32_product: "uint w \<le> 1000000 \<Longrightarrow> 0 \<le> k \<Longrightarrow> k \<le> 1000 \<Longrightarrow> i32_wrap (i32_of_u32 w * k) = uint w * k"
proof -
  assume w: "uint w \<le> 1000000" and k: "0 \<le> k" "k \<le> 1000"
  have "uint w * k \<le> 1000000 * 1000" using w k by (intro mult_mono) simp_all
  moreover have "0 \<le> uint w * k" using k by simp
  ultimately have "i32_wrap (uint w * k) = uint w * k" by (intro i32_wrap_id) simp_all
  then show ?thesis using w by (simp add: i32_of_small)
qed

lemma i32_sat_id: "- (2 ^ 31) \<le> x \<Longrightarrow> x < 2 ^ 31 \<Longrightarrow> i32_sat x = x"
  by (simp add: i32_sat_def)

lemma sum_list_simps: "sum_list [] = (0 :: int)" "sum_list (x # xs) = x + sum_list (xs :: int list)" by simp_all

lemma sat_add_all: "0 \<le> a \<Longrightarrow> \<forall>x \<in> set xs. 0 \<le> x \<Longrightarrow> a + sum_list xs < 2 ^ 31 \<Longrightarrow> foldl (\<lambda>s x. i32_sat (s + x)) a xs = a + sum_list xs"
proof (induction xs arbitrary: a)
  case (Cons x xs)
  then have "0 \<le> sum_list xs" by (intro sum_list_nonneg) simp
  with Cons have "i32_sat (a + x) = a + x" by (intro i32_sat_id) simp_all
  with Cons show ?case by (simp add: add.assoc)
qed simp

lemma sat_sub_all: "a < 2 ^ 31 \<Longrightarrow> \<forall>x \<in> set xs. 0 \<le> x \<Longrightarrow> - (2 ^ 31) \<le> a - sum_list xs \<Longrightarrow> foldl (\<lambda>s x. i32_sat (s - x)) a xs = a - sum_list xs"
proof (induction xs arbitrary: a)
  case (Cons x xs)
  then have "0 \<le> sum_list xs" by (intro sum_list_nonneg) simp
  with Cons have "i32_sat (a - x) = a - x" by (intro i32_sat_id) simp_all
  with Cons show ?case by simp
qed simp

lemma score_raw:
  assumes "small_counts rep" and "uint days < 2 ^ 31"
  shows "calculate_reputation_score rep days = max (raw_score rep (uint days)) (- 1000)"
proof -
  note s = assms(1) [unfolded small_counts_def]
  have s': "uint (pr_quality_attestations rep) \<le> 1000000" "uint (pr_counter_attestation_successes rep) \<le> 1000000"
    "uint (pr_spam_flags_countered rep) \<le> 1000000" "uint (pr_spam_flags_received rep) \<le> 1000000"
    "uint (pr_attester_countered_count rep) \<le> 1000000" "uint (pr_illegal_content_flags rep) \<le> 1000000" using s by simp_all
  have age: "i32_of_u32 (min (pr_identity_age_days rep) 365) = min (uint (pr_identity_age_days rep)) 365"
    by (subst i32_of_small) (auto simp: min_def word_le_def)
  have days: "min (i32_of_u32 days) 90 = min (uint days) 90" using assms(2) by (simp add: i32_of_small)
  define bonuses where "bonuses = [min (uint (pr_identity_age_days rep)) 365, uint (pr_quality_attestations rep) * 5,
    uint (pr_counter_attestation_successes rep) * 3, uint (pr_spam_flags_countered rep) * 15, min (uint days) 90,
    uint (pr_spam_flags_countered rep) * 10]"
  define penalties where "penalties = [uint (pr_spam_flags_received rep) * 20, uint (pr_attester_countered_count rep) * 30,
    uint (pr_illegal_content_flags rep) * 1000]"
  have nonneg: "\<forall>x \<in> set bonuses. 0 \<le> x" "\<forall>x \<in> set penalties. 0 \<le> x" by (simp_all add: bonuses_def penalties_def)
  have "min (uint (pr_identity_age_days rep)) 365 \<le> 365" "min (uint days) 90 \<le> 90" by simp_all
  then have up: "100 + sum_list bonuses < 2 ^ 31" using s' unfolding bonuses_def sum_list_simps by simp
  have "0 \<le> sum_list bonuses" using nonneg by (intro sum_list_nonneg) simp
  moreover have "sum_list penalties \<le> 2 ^ 31" using s' unfolding penalties_def sum_list_simps by simp
  ultimately have down: "- (2 ^ 31) \<le> 100 + sum_list bonuses - sum_list penalties" by simp
  have "calculate_reputation_score rep days =
      max (foldl (\<lambda>s x. i32_sat (s - x)) (foldl (\<lambda>s x. i32_sat (s + x)) 100 bonuses) penalties) (- 1000)"
    unfolding calculate_reputation_score_def Let_def reputation_consts bonuses_def penalties_def using s
    by (simp only: i32_product age days)
  also have "\<dots> = max (100 + sum_list bonuses - sum_list penalties) (- 1000)"
    using sat_add_all [OF _ nonneg(1) up] sat_sub_all [OF up nonneg(2) down] by simp
  finally show ?thesis by (simp add: bonuses_def penalties_def raw_score_def algebra_simps)
qed

lemma score_bounds: "- 1000 \<le> calculate_reputation_score rep days" "calculate_reputation_score rep days < 2 ^ 31"
proof -
  have sat: "i32_sat x < 2 ^ 31" for x by (simp add: i32_sat_def min_def max_def)
  show "- 1000 \<le> calculate_reputation_score rep days" "calculate_reputation_score rep days < 2 ^ 31"
    unfolding calculate_reputation_score_def Let_def foldl.simps REPUTATION_MIN_SCORE_def using sat by (simp_all add: max_def)
qed

lemma uint_sat_succ: "uint w < 2 ^ 32 - 1 \<Longrightarrow> uint (u32_sat_succ w) = uint w + 1"
  by (auto simp: u32_sat_succ_def uint_word_ariths word_uint_eq_iff)

text \<open>
  The score is the documented formula: as long as no count has reached a million, nothing wraps around or
  saturates, and the score is the sum of the bonuses less the penalties, with a floor of -1000.
\<close>

theorem reputation_score_exact:
  assumes "small_counts rep" and "uint days < 2 ^ 31"
  shows "calculate_reputation_score rep days =
    max (100 + min (uint (pr_identity_age_days rep)) 365 + 5 * uint (pr_quality_attestations rep) +
         3 * uint (pr_counter_attestation_successes rep) + 25 * uint (pr_spam_flags_countered rep) +
         min (uint days) 90 - 20 * uint (pr_spam_flags_received rep) -
         30 * uint (pr_attester_countered_count rep) - 1000 * uint (pr_illegal_content_flags rep)) (- 1000)"
  using score_raw [OF assms] by (simp add: raw_score_def)

theorem reputation_score_exact_witness:
  "calculate_reputation_score ((rep_new zero32)\<lparr>pr_spam_flags_received := 7, pr_identity_age_days := 400\<rparr>) 3 = 328"
  using reputation_score_exact [of "(rep_new zero32)\<lparr>pr_spam_flags_received := 7, pr_identity_age_days := 400\<rparr>" 3]
  by (simp add: small_counts_def rep_new_def)

text \<open>
  Vindication can cost more than the flag did. A record that is read with its bonus for the days since the
  last flag loses that bonus with the next event of any kind: when counter-attestations clear a flag after
  more than 25 days, the score falls, and so it does with every update of the age of the identity.
\<close>

theorem vindication_lowers_score:
  assumes small: "small_counts rep" "uint (pr_spam_flags_countered rep) < 1000000"
    and days: "days = uint (days_since_last_flag rep now)" "days < 2 ^ 31"
    and above: "- 900 < pr_cached_score (update_score now rep)"
  shows "pr_cached_score (receive_counter t (update_score now rep)) = pr_cached_score (update_score now rep) + 25 - min days 90 \<and>
    pr_cached_score (pr_update_age (pr_identity_age_days rep) (update_score now rep)) =
      pr_cached_score (update_score now rep) - min days 90"
proof -
  let ?r = "update_score now rep"
  have now: "pr_cached_score ?r = max (raw_score rep days) (- 1000)"
    using score_raw [OF small(1), of "days_since_last_flag rep now"] days by (simp add: update_score_def recalculate_score_def)
  then have raw: "pr_cached_score ?r = raw_score rep days" using above by simp
  have succ: "uint (u32_sat_succ (pr_spam_flags_countered rep)) = uint (pr_spam_flags_countered rep) + 1"
    using small(2) by (simp add: uint_sat_succ)
  let ?c = "?r\<lparr>pr_spam_flags_countered := u32_sat_succ (pr_spam_flags_countered rep), pr_last_counter_success_at := t\<rparr>"
  have "small_counts ?c" using small succ by (simp add: small_counts_def update_score_def recalculate_score_def)
  then have c: "pr_cached_score (receive_counter t ?r) = max (raw_score ?c 0) (- 1000)"
    using score_raw [of ?c 0] by (simp add: receive_counter_def recalculate_score_def update_score_def)
  have "raw_score ?c 0 = raw_score rep days + 25 - min days 90"
    using succ by (simp add: raw_score_def update_score_def recalculate_score_def)
  moreover have "small_counts ?r" using small by (simp add: small_counts_def update_score_def recalculate_score_def)
  then have a: "pr_cached_score (pr_update_age (pr_identity_age_days rep) ?r) = max (raw_score ?r 0) (- 1000)"
    using score_raw [of ?r 0] by (simp add: pr_update_age_def recalculate_score_def update_score_def days_since_last_flag_def)
  have "raw_score ?r 0 = raw_score rep days - min days 90"
    by (simp add: raw_score_def update_score_def recalculate_score_def)
  ultimately show ?thesis using raw c a above by simp
qed

theorem vindication_lowers_score_witness:
  "\<exists>rep. pr_spam_flags_received rep = 1 \<and> pr_cached_score rep = 170 \<and> pr_cached_score (receive_counter 9000000 rep) = 105"
proof -
  define rep where "rep = receive_spam_flag 1000 (rep_new zero32)"
  have d: "uint (days_since_last_flag rep 9000000) = 104"
    by (simp add: rep_def days_since_last_flag_def receive_spam_flag_def recalculate_score_def)
  have r: "pr_cached_score (update_score 9000000 rep) = 170"
  proof -
    have "small_counts rep" by (simp add: rep_def small_counts_def receive_spam_flag_def recalculate_score_def rep_new_def u32_sat_succ_def)
    from score_raw [OF this, of "days_since_last_flag rep 9000000"] d show ?thesis
      by (simp add: update_score_def recalculate_score_def raw_score_def rep_def receive_spam_flag_def rep_new_def u32_sat_succ_def)
  qed
  have "pr_cached_score (receive_counter 9000000 (update_score 9000000 rep)) = 105"
    using vindication_lowers_score [of rep 104 9000000 9000000] d r
    by (simp add: rep_def small_counts_def receive_spam_flag_def recalculate_score_def rep_new_def u32_sat_succ_def)
  moreover have "pr_spam_flags_received (update_score 9000000 rep) = 1"
    by (simp add: update_score_def recalculate_score_def rep_def receive_spam_flag_def rep_new_def u32_sat_succ_def)
  ultimately show ?thesis using r by blast
qed

subsection \<open>The store keeps what it is given\<close>

definition rep_typed :: "poster_reputation \<Rightarrow> bool" where
  "rep_typed rep \<longleftrightarrow> is_hash (pr_identity rep) \<and> - (2 ^ 31) \<le> pr_cached_score rep \<and> pr_cached_score rep < 2 ^ 31"

definition rep_store_ok :: "reputation_store \<Rightarrow> bool" where
  "rep_store_ok s \<longleftrightarrow>
     (\<forall>k v. tree_get s k = Some v \<longrightarrow> (\<exists>rep. v = pr_to_bytes rep \<and> rep_typed rep \<and> pr_identity rep = k \<and> - 1000 \<le> pr_cached_score rep))"

text \<open>What is recorded about an identity, as one operation of the store.\<close>

datatype reputation_event =
    SpamFlag u64 | FlagCountered u64 | IllegalFlag u64 | AttestationCountered | CounterSuccess | QualityAttestation
  | Aged u32 | Posted | Engaged | Refreshed u64

fun record_event :: "reputation_store \<Rightarrow> hash32 \<Rightarrow> reputation_event \<Rightarrow> (string + poster_reputation) \<times> reputation_store" where
  "record_event s i (SpamFlag t) = record_spam_flag s i t"
| "record_event s i (FlagCountered t) = record_counter s i t"
| "record_event s i (IllegalFlag t) = record_illegal_flag s i t"
| "record_event s i AttestationCountered = record_attestation_countered s i"
| "record_event s i CounterSuccess = record_counter_success s i"
| "record_event s i QualityAttestation = record_quality_attestation s i"
| "record_event s i (Aged d) = rep_update_age s i d"
| "record_event s i Posted = rep_record_post s i"
| "record_event s i Engaged = rep_record_engagement s i"
| "record_event s i (Refreshed t) = refresh_score s i t"

fun apply_event :: "reputation_event \<Rightarrow> poster_reputation \<Rightarrow> poster_reputation" where
  "apply_event (SpamFlag t) = receive_spam_flag t"
| "apply_event (FlagCountered t) = receive_counter t"
| "apply_event (IllegalFlag t) = receive_illegal_flag t"
| "apply_event AttestationCountered = attestation_countered"
| "apply_event CounterSuccess = counter_success"
| "apply_event QualityAttestation = receive_quality_attestation"
| "apply_event (Aged d) = pr_update_age d"
| "apply_event Posted = pr_record_post"
| "apply_event Engaged = pr_record_engagement"
| "apply_event (Refreshed t) = update_score t"

lemmas rep_event_defs = receive_spam_flag_def receive_counter_def receive_illegal_flag_def attestation_countered_def
  counter_success_def receive_quality_attestation_def pr_update_age_def pr_record_post_def pr_record_engagement_def
  update_score_def recalculate_score_def Let_def

lemma record_event_update: "record_event s i e = rep_update s i (apply_event e)"
  by (cases e) (simp_all add: record_spam_flag_def record_counter_def record_illegal_flag_def record_attestation_countered_def
      record_counter_success_def record_quality_attestation_def rep_update_age_def rep_record_post_def
      rep_record_engagement_def refresh_score_def)

lemma apply_event_shape:
  "(\<exists>r d. apply_event e rep = recalculate_score r d \<and> pr_identity r = pr_identity rep) \<or>
   pr_cached_score (apply_event e rep) = pr_cached_score rep \<and> pr_identity (apply_event e rep) = pr_identity rep"
  unfolding receive_spam_flag_def
  by (cases e) (auto simp: receive_spam_flag_def receive_counter_def receive_illegal_flag_def attestation_countered_def
      counter_success_def receive_quality_attestation_def pr_update_age_def pr_record_post_def pr_record_engagement_def
      update_score_def Let_def intro!: exI)

lemma apply_event_keeps:
  "pr_identity (apply_event e rep) = pr_identity rep"
  "- 1000 \<le> pr_cached_score rep \<Longrightarrow> - 1000 \<le> pr_cached_score (apply_event e rep)"
  "pr_cached_score rep < 2 ^ 31 \<Longrightarrow> pr_cached_score (apply_event e rep) < 2 ^ 31"
  using apply_event_shape [of e rep] score_bounds by (auto simp: recalculate_score_def)

lemma u32_of_le_le [simp, wire_rt]: "u32_of_le (u32_le w) = w"
  by (simp add: u32_of_le_def u32_le_def)

lemma pr_bytes_roundtrip:
  assumes "rep_typed rep"
  shows "pr_from_bytes (pr_to_bytes rep) = Some rep"
proof -
  have "i32_of_u32 (word_of_int (pr_cached_score rep)) = pr_cached_score rep"
    using assms by (simp add: rep_typed_def i32_of_u32_def i32_wrap_def signed_take_bit_int_eq_self unsigned_of_int
        signed_take_bit_take_bit)
  with assms show ?thesis
    by (simp add: pr_from_bytes_def pr_to_bytes_def rep_typed_def is_hash_def)
qed

lemma rep_get_stored:
  assumes "tree_get s i = Some (pr_to_bytes rep)" and "rep_typed rep"
  shows "rep_get s i = Inr (Some rep)"
  using assms by (simp add: rep_get_def pr_bytes_roundtrip)

lemma rep_get_put: "rep_typed rep \<Longrightarrow> rep_get (rep_put s rep) i = (if i = pr_identity rep then Inr (Some rep) else rep_get s i)"
  by (simp add: rep_get_def rep_put_def pr_bytes_roundtrip)

lemma rep_store_ok_put:
  "rep_store_ok s \<Longrightarrow> rep_typed rep \<Longrightarrow> - 1000 \<le> pr_cached_score rep \<Longrightarrow> rep_store_ok (rep_put s rep)"
  by (auto simp: rep_store_ok_def rep_put_def)

lemma rep_store_get:
  assumes "rep_store_ok s" and "is_hash i"
  obtains (known) rep where "rep_get s i = Inr (Some rep)" "rep_typed rep" "pr_identity rep = i" "- 1000 \<le> pr_cached_score rep"
  | (unknown) "rep_get s i = Inr None" "tree_get s i = None"
proof (cases "tree_get s i")
  case (Some v)
  then obtain rep where "v = pr_to_bytes rep" "rep_typed rep" "pr_identity rep = i" "- 1000 \<le> pr_cached_score rep"
    using assms(1) by (auto simp: rep_store_ok_def)
  with Some known show ?thesis using rep_get_stored by blast
qed (use unknown in \<open>simp add: rep_get_def\<close>)

definition rep_current :: "reputation_store \<Rightarrow> hash32 \<Rightarrow> poster_reputation" where
  "rep_current s i = (case rep_get s i of Inr (Some rep) \<Rightarrow> rep | _ \<Rightarrow> rep_new i)"

lemma pr_new_typed: "is_hash i \<Longrightarrow> rep_typed (rep_new i)" "- 1000 \<le> pr_cached_score (rep_new i)" "pr_identity (rep_new i) = i"
  by (simp_all add: rep_typed_def rep_new_def)

lemma rep_current_created:
  assumes "rep_store_ok s" and "is_hash i"
  shows "rep_typed (rep_current s i) \<and> - 1000 \<le> pr_cached_score (rep_current s i) \<and> pr_identity (rep_current s i) = i \<and>
    (\<exists>s1. rep_get_or_create s i = (Inr (rep_current s i), s1) \<and> rep_store_ok s1 \<and> (\<forall>j. j \<noteq> i \<longrightarrow> rep_get s1 j = rep_get s j))"
proof (cases rule: rep_store_get [OF assms])
  case (1 rep)
  then show ?thesis using assms by (auto simp: rep_current_def rep_get_or_create_def)
next
  case 2
  then show ?thesis
    using assms pr_new_typed(1) [OF assms(2)] pr_new_typed(2,3) rep_store_ok_put [OF assms(1) pr_new_typed(1) [OF assms(2)] pr_new_typed(2)]
    by (auto simp: rep_current_def rep_get_or_create_def Let_def rep_get_put)
qed

lemmas rep_current_ok = rep_current_created [THEN conjunct1] rep_current_created [THEN conjunct2, THEN conjunct1]
  rep_current_created [THEN conjunct2, THEN conjunct2, THEN conjunct1] rep_current_created [THEN conjunct2, THEN conjunct2, THEN conjunct2]

lemma record_event_correct:
  assumes "rep_store_ok s" and "is_hash i"
  shows "\<exists>s'. record_event s i e = (Inr (apply_event e (rep_current s i)), s') \<and> rep_store_ok s' \<and>
    rep_get s' i = Inr (Some (apply_event e (rep_current s i))) \<and> (\<forall>j. j \<noteq> i \<longrightarrow> rep_get s' j = rep_get s j)"
proof -
  note c = rep_current_ok [OF assms]
  let ?rep = "apply_event e (rep_current s i)"
  obtain s1 where s1: "rep_get_or_create s i = (Inr (rep_current s i), s1)" "rep_store_ok s1" "\<forall>j. j \<noteq> i \<longrightarrow> rep_get s1 j = rep_get s j"
    using c(4) by blast
  have r: "rep_typed ?rep" "- 1000 \<le> pr_cached_score ?rep" "pr_identity ?rep = i"
    using c(1-3) apply_event_keeps [where e = e and rep = "rep_current s i"] by (auto simp: rep_typed_def)
  have "record_event s i e = (Inr ?rep, rep_put s1 ?rep)" by (simp add: record_event_update rep_update_def s1(1) Let_def)
  then show ?thesis using rep_store_ok_put [OF s1(2) r(1,2)] s1(3) r by (simp add: rep_get_put)
qed

text \<open>
  C32. The store of reputations keeps its types: from a store whose entries are encodings of records under their
  identities, every operation succeeds and leaves such a store; what is read back is the old record, or a
  fresh one, with the event applied, with a score in range; other identities are untouched.
\<close>

theorem reputation_store_typed:
  assumes "rep_store_ok s" and "is_hash i"
  shows "\<exists>rep s'. record_event s i e = (Inr rep, s') \<and> rep_store_ok s' \<and>
    rep = apply_event e (case rep_get s i of Inr (Some old) \<Rightarrow> old | _ \<Rightarrow> rep_new i) \<and>
    rep_get s' i = Inr (Some rep) \<and> pr_identity rep = i \<and> - 1000 \<le> pr_cached_score rep \<and> pr_cached_score rep < 2 ^ 31 \<and>
    (\<forall>j. j \<noteq> i \<longrightarrow> rep_get s' j = rep_get s j)"
  using record_event_correct [OF assms, of e] rep_current_ok(1-3) [OF assms] apply_event_keeps [where e = e and rep = "rep_current s i"]
  unfolding rep_current_def [symmetric] rep_typed_def by auto

theorem reputation_store_typed_witness:
  "\<exists>rep s'. record_event [] zero32 (SpamFlag 7) = (Inr rep, s') \<and> rep_get s' zero32 = Inr (Some rep) \<and> pr_last_spam_flag_at rep = 7"
proof -
  have "rep_store_ok []" by (simp add: rep_store_ok_def)
  moreover have "is_hash zero32" by (simp add: is_hash_def zero32_def)
  ultimately have "\<exists>rep s'. record_event [] zero32 (SpamFlag 7) = (Inr rep, s') \<and> rep_store_ok s' \<and>
    rep = apply_event (SpamFlag 7) (case rep_get [] zero32 of Inr (Some old) \<Rightarrow> old | _ \<Rightarrow> rep_new zero32) \<and>
    rep_get s' zero32 = Inr (Some rep) \<and> pr_identity rep = zero32 \<and> - 1000 \<le> pr_cached_score rep \<and> pr_cached_score rep < 2 ^ 31 \<and>
    (\<forall>j. j \<noteq> zero32 \<longrightarrow> rep_get s' j = rep_get [] j)" by (rule reputation_store_typed)
  then obtain rep s' where r: "record_event [] zero32 (SpamFlag 7) = (Inr rep, s')" "rep_get s' zero32 = Inr (Some rep)"
    "rep = apply_event (SpamFlag 7) (case rep_get [] zero32 of Inr (Some old) \<Rightarrow> old | _ \<Rightarrow> rep_new zero32)" by blast
  then have "pr_last_spam_flag_at rep = 7" by (simp add: rep_get_def rep_event_defs)
  with r show ?thesis by blast
qed

subsection \<open>Weights and limits\<close>

lemma attester_weight_range: "0 \<le> attester_weight score" "attester_weight score \<le> 1"
  by (simp_all add: attester_weight_def f64_round_def)

lemma attester_weight_mono: "a \<le> b \<Longrightarrow> attester_weight a \<le> attester_weight b"
proof -
  assume ab: "a \<le> b"
  have "f64_round (of_int a / 200) \<le> f64_round (of_int b / 200)" using ab by (intro f64_round_mono) (simp add: divide_right_mono)
  then show ?thesis using ab attester_weight_range(1) [of b]
    by (auto simp: attester_weight_def ATTESTER_FULL_WEIGHT_SCORE_def REPUTATION_TRUSTED_THRESHOLD_def min_def f64_round_def split: if_splits)
qed

lemma is_float_half: "is_float 53 (1 / 2)"
  unfolding is_float_def by (rule exI [of _ 1], rule exI [of _ "- 1"]) (simp add: power_int_minus)

lemma f64_round_nonneg [simp]: "0 \<le> f64_round x" by (simp add: f64_round_def)

lemma rate_limit_multiplier_range: "0 \<le> rate_limit_multiplier e" "rate_limit_multiplier e \<le> 1"
  using f64_round_mono [of "1 / 5" 1] f64_round_mono [of "1 / 10" 1] by (cases e; simp)+

lemma rate_limit_multiplier_mono:
  assumes "score \<le> score'"
  shows "rate_limit_multiplier (get_reputation_effect score) \<le> rate_limit_multiplier (get_reputation_effect score')"
proof -
  have h: "f64_round (1 / 2) = 1 / 2"
    using float_round_exact [of 53 "1 / 2"] by (simp add: f64_round_def is_float_half)
  have "f64_round (1 / 10) \<le> f64_round (1 / 5)" "f64_round (1 / 5) \<le> f64_round (1 / 2)" "f64_round (1 / 5) \<le> f64_round 1"
    "f64_round (1 / 10) \<le> f64_round (1 / 2)" "f64_round (1 / 10) \<le> f64_round 1"
    by (intro f64_round_mono; simp)+
  then show ?thesis using assms h by (auto simp: get_reputation_effect_def reputation_consts)
qed

lemma uint_rate_limit:
  "uint (calculate_rate_limit base score) =
     round (f64_round (of_nat (unat base) * rate_limit_multiplier (get_reputation_effect score))) \<and>
   uint (calculate_rate_limit base score) \<le> uint base"
proof -
  let ?m = "rate_limit_multiplier (get_reputation_effect score)"
  let ?r = "round (f64_round (of_nat (unat base) * ?m))"
  have b: "unat base < 2 ^ 32" by (rule unat_u32_less)
  have "of_nat (unat base) * ?m \<le> of_nat (unat base)"
    by (rule mult_left_le [OF rate_limit_multiplier_range(2) of_nat_0_le_iff])
  then have "f64_round (of_nat (unat base) * ?m) \<le> f64_round (of_nat (unat base))" by (rule f64_round_mono)
  also have "\<dots> = of_nat (unat base)" using b by (intro f64_round_nat) simp
  finally have "?r \<le> round (of_nat (unat base) :: rat)" by (rule round_mono)
  then have up: "?r \<le> uint base" by (simp only: round_of_nat uint_nat [symmetric])
  have "round (0 :: rat) \<le> ?r" by (rule round_mono) simp
  then have low: "0 \<le> ?r" by simp
  have "?r < 2 ^ 32" using up uint_lt2p [of base] by simp
  then show ?thesis using low up by (simp add: calculate_rate_limit_def Let_def word_of_int_inverse uint_word_of_int_eq take_bit_int_eq_self)
qed

text \<open>
  Reputation never raises a limit: the limit that a score gives is at most the base limit, and it does not grow
  when the score falls.
\<close>

theorem rate_limit_never_raised:
  assumes "score \<le> score'"
  shows "calculate_rate_limit base score \<le> base \<and> calculate_rate_limit base score \<le> calculate_rate_limit base score'"
proof -
  have "f64_round (of_nat (unat base) * rate_limit_multiplier (get_reputation_effect score)) \<le>
      f64_round (of_nat (unat base) * rate_limit_multiplier (get_reputation_effect score'))"
    by (intro f64_round_mono mult_left_mono rate_limit_multiplier_mono assms of_nat_0_le_iff)
  from round_mono [OF this] show ?thesis
    using uint_rate_limit [of base score] uint_rate_limit [of base score'] by (simp add: word_le_def)
qed

theorem rate_limit_never_raised_witness:
  "calculate_rate_limit 50 (- 3) \<le> 50 \<and> calculate_rate_limit 50 (- 3) \<le> calculate_rate_limit 50 70"
  by (rule rate_limit_never_raised) simp

end
