(* ===== verification/Spam_Attest.thy ===== *)
theory Spam_Attest
  imports Reputation Spons_Router Dht_Id
begin

text \<open>
  Spam attestations (\<open>src/spam_attestation\<close>) and the code that receives them: the handlers of the router
  (\<open>handle_spam_attestation\<close>, \<open>handle_counter_attestation\<close>), the methods of the RPC server after they have parsed
  their parameters, and the local API (\<open>src/api/anti_abuse.rs\<close>). Three attestations from different sponsor trees
  flag content; five counter-attestations clear it. The two trees of the store share a database under
  different prefixes; a key is the content hash followed by the attester. The serialization of stored records by
  the crate \<open>bincode\<close> is not modelled, nor is the most common reason, which nothing reads.
\<close>

subsection \<open>Attestations\<close>

definition SPAM_ATTESTATION_THRESHOLD :: u8 where "SPAM_ATTESTATION_THRESHOLD = 3"
definition COUNTER_ATTESTATION_THRESHOLD :: u8 where "COUNTER_ATTESTATION_THRESHOLD = 5"
definition SPAM_ATTESTATION_POW_DIFFICULTY :: u8 where "SPAM_ATTESTATION_POW_DIFFICULTY = 12"
definition SPAM_ATTESTATION_RATE_LIMIT_HOURLY :: u32 where "SPAM_ATTESTATION_RATE_LIMIT_HOURLY = 10"
definition SPAM_ATTESTATION_RATE_LIMIT_WINDOW_SECS :: u64 where "SPAM_ATTESTATION_RATE_LIMIT_WINDOW_SECS = 3600"
definition SPAM_ATTESTATION_MAX_AGE_SECS :: u64 where "SPAM_ATTESTATION_MAX_AGE_SECS = 86400"

lemmas spam_consts = SPAM_ATTESTATION_THRESHOLD_def COUNTER_ATTESTATION_THRESHOLD_def SPAM_ATTESTATION_POW_DIFFICULTY_def
  SPAM_ATTESTATION_RATE_LIMIT_HOURLY_def SPAM_ATTESTATION_RATE_LIMIT_WINDOW_SECS_def SPAM_ATTESTATION_MAX_AGE_SECS_def

datatype spam_reason = Advertising | Repetitive | OffTopic | Harassment | IllegalContent

fun reason_as_u8 :: "spam_reason \<Rightarrow> byte" where
  "reason_as_u8 Advertising = 1"
| "reason_as_u8 Repetitive = 2"
| "reason_as_u8 OffTopic = 3"
| "reason_as_u8 Harassment = 4"
| "reason_as_u8 IllegalContent = 5"

definition reason_from_u8 :: "byte \<Rightarrow> spam_reason option" where
  "reason_from_u8 v =
     (if v = 1 then Some Advertising else if v = 2 then Some Repetitive else if v = 3 then Some OffTopic
      else if v = 4 then Some Harassment else if v = 5 then Some IllegalContent else None)"

record spam_attestation =
  at_content_hash :: hash32
  at_attester :: hash32
  at_reason :: spam_reason
  at_timestamp :: u64
  at_pow_nonce :: u64
  at_signature :: bytes

definition attestation_signing_message :: "spam_attestation \<Rightarrow> bytes" where
  "attestation_signing_message a =
     map (\<lambda>c. word_of_nat (of_char c)) ''SPAM_ATTESTATION'' @ at_content_hash a @ [reason_as_u8 (at_reason a)] @ u64_le (at_timestamp a)"

definition attestation_pow_message :: "spam_attestation \<Rightarrow> bytes" where
  "attestation_pow_message a =
     at_content_hash a @ at_attester a @ [reason_as_u8 (at_reason a)] @ u64_le (at_timestamp a)"

definition attestation_to_bytes :: "spam_attestation \<Rightarrow> bytes" where
  "attestation_to_bytes a =
     at_content_hash a @ at_attester a @ [reason_as_u8 (at_reason a)] @ u64_le (at_timestamp a) @
     u64_le (at_pow_nonce a) @ at_signature a"

definition attestation_from_bytes :: "bytes \<Rightarrow> spam_attestation option" where
  "attestation_from_bytes d =
     (if length d < 145 then None
      else case reason_from_u8 (d ! 64) of
             None \<Rightarrow> None
           | Some reason \<Rightarrow>
               Some \<lparr>at_content_hash = byte_slice d 0 32, at_attester = byte_slice d 32 32, at_reason = reason,
                     at_timestamp = u64_of_le (byte_slice d 65 8), at_pow_nonce = u64_of_le (byte_slice d 73 8),
                     at_signature = byte_slice d 81 64\<rparr>)"

record stored_attestation =
  st_attestation :: spam_attestation
  st_sponsor_tree_root :: hash32
  st_is_deduplicated :: bool

subsection \<open>Counter-attestations\<close>

record counter_attestation =
  ct_content_hash :: hash32
  ct_counter_attester :: hash32
  ct_timestamp :: u64
  ct_signature :: bytes

definition counter_signing_message :: "counter_attestation \<Rightarrow> bytes" where
  "counter_signing_message c =
     map (\<lambda>c. word_of_nat (of_char c)) ''COUNTER_ATTESTATION'' @ ct_content_hash c @ u64_le (ct_timestamp c)"

definition counter_to_bytes :: "counter_attestation \<Rightarrow> bytes" where
  "counter_to_bytes c = ct_content_hash c @ ct_counter_attester c @ u64_le (ct_timestamp c) @ ct_signature c"

definition counter_from_bytes :: "bytes \<Rightarrow> counter_attestation option" where
  "counter_from_bytes d =
     (if length d < 136 then None
      else Some \<lparr>ct_content_hash = byte_slice d 0 32, ct_counter_attester = byte_slice d 32 32,
                 ct_timestamp = u64_of_le (byte_slice d 64 8), ct_signature = byte_slice d 72 64\<rparr>)"

record counter_state =
  cs_content_hash :: hash32
  cs_counter_attesters :: "hash32 list"
  cs_is_cleared :: bool
  cs_cleared_at :: "u64 option"

definition counter_empty :: "hash32 \<Rightarrow> counter_state" where
  "counter_empty content_hash =
     \<lparr>cs_content_hash = content_hash, cs_counter_attesters = [], cs_is_cleared = False, cs_cleared_at = None\<rparr>"

definition add_counter_attester :: "counter_state \<Rightarrow> hash32 \<Rightarrow> u64 \<Rightarrow> bool \<times> counter_state" where
  "add_counter_attester c attester timestamp =
     (if attester \<in> set (cs_counter_attesters c) then (False, c)
      else
        let c1 = c\<lparr>cs_counter_attesters := cs_counter_attesters c @ [attester]\<rparr>
        in if \<not> cs_is_cleared c1 \<and> length (cs_counter_attesters c1) \<ge> unat COUNTER_ATTESTATION_THRESHOLD
           then (True, c1\<lparr>cs_is_cleared := True, cs_cleared_at := Some timestamp\<rparr>)
           else (False, c1))"

definition counter_count :: "counter_state \<Rightarrow> u8" where
  "counter_count c = word_of_nat (length (cs_counter_attesters c))"

definition remaining_to_clear :: "counter_state \<Rightarrow> u8" where
  "remaining_to_clear c =
     (if cs_is_cleared c then 0
      else let n = word_of_nat (length (cs_counter_attesters c))
           in if n \<le> COUNTER_ATTESTATION_THRESHOLD then COUNTER_ATTESTATION_THRESHOLD - n else 0)"

subsection \<open>Aggregation\<close>

record attestation_aggregation =
  ag_unique_tree_count :: u8
  ag_total_attestations :: u32
  ag_threshold_reached :: bool
  ag_reason_counts :: "spam_reason \<Rightarrow> u8"
  ag_weighted_tree_count :: rat
  ag_should_accelerate_decay :: bool
  ag_is_cleared :: bool

definition aggregation_empty :: attestation_aggregation where
  "aggregation_empty =
     \<lparr>ag_unique_tree_count = 0, ag_total_attestations = 0, ag_threshold_reached = False, ag_reason_counts = (\<lambda>_. 0),
      ag_weighted_tree_count = 0, ag_should_accelerate_decay = False, ag_is_cleared = False\<rparr>"

definition count_reasons :: "stored_attestation list \<Rightarrow> spam_reason \<Rightarrow> u8" where
  "count_reasons as r = foldl (\<lambda>n a. if at_reason (st_attestation a) = r then n + 1 else n) 0 as"

definition aggregate_attestations :: "stored_attestation list \<Rightarrow> bool \<Rightarrow> attestation_aggregation" where
  "aggregate_attestations as is_cleared =
     (if as = [] then aggregation_empty
      else
        let unique_tree_count = word_of_nat (card (st_sponsor_tree_root ` set as));
            threshold_reached = (unique_tree_count \<ge> SPAM_ATTESTATION_THRESHOLD)
        in \<lparr>ag_unique_tree_count = unique_tree_count, ag_total_attestations = word_of_nat (length as),
            ag_threshold_reached = threshold_reached, ag_reason_counts = count_reasons as,
            ag_weighted_tree_count = of_nat (unat unique_tree_count),
            ag_should_accelerate_decay = (threshold_reached \<and> \<not> is_cleared), ag_is_cleared = is_cleared\<rparr>)"

text \<open>The best weight of each tree. The map is iterated in an order of its own, which is a parameter.\<close>

definition note_weight :: "(hash32 \<Rightarrow> rat) \<Rightarrow> (hash32 \<times> rat) list \<Rightarrow> stored_attestation \<Rightarrow> (hash32 \<times> rat) list" where
  "note_weight weight_of m a =
     (let w = max 0 (min 1 (weight_of (at_attester (st_attestation a))));
          tree = st_sponsor_tree_root a;
          entry = (case map_of m tree of Some e \<Rightarrow> e | None \<Rightarrow> 0)
      in AList.update tree (if w > entry then w else entry) m)"

definition aggregate_attestations_weighted ::
  "((hash32 \<times> rat) list \<Rightarrow> (hash32 \<times> rat) list) \<Rightarrow> stored_attestation list \<Rightarrow> bool \<Rightarrow> (hash32 \<Rightarrow> rat) \<Rightarrow> attestation_aggregation" where
  "aggregate_attestations_weighted order as is_cleared weight_of =
     (if as = [] then aggregation_empty
      else
        let tree_weights = foldl (note_weight weight_of) [] as;
            weighted_tree_count = foldl (\<lambda>s e. f64_round (s + snd e)) 0 (order tree_weights);
            threshold_reached = (weighted_tree_count \<ge> of_nat (unat SPAM_ATTESTATION_THRESHOLD))
        in \<lparr>ag_unique_tree_count = word_of_nat (card (st_sponsor_tree_root ` set as)),
            ag_total_attestations = word_of_nat (length as), ag_threshold_reached = threshold_reached,
            ag_reason_counts = count_reasons as, ag_weighted_tree_count = weighted_tree_count,
            ag_should_accelerate_decay = (threshold_reached \<and> \<not> is_cleared), ag_is_cleared = is_cleared\<rparr>)"

definition TREE_MAX_DEPTH :: nat where "TREE_MAX_DEPTH = 100"

primrec tree_root_loop :: "nat \<Rightarrow> (hash32 \<Rightarrow> hash32 option) \<Rightarrow> hash32 \<Rightarrow> hash32 option" where
  "tree_root_loop 0 sponsor_of current = None"
| "tree_root_loop (Suc n) sponsor_of current =
     (case sponsor_of current of Some sponsor \<Rightarrow> tree_root_loop n sponsor_of sponsor | None \<Rightarrow> Some current)"

definition find_sponsor_tree_root :: "(hash32 \<Rightarrow> hash32 option) \<Rightarrow> hash32 \<Rightarrow> hash32 option" where
  "find_sponsor_tree_root sponsor_of identity = tree_root_loop TREE_MAX_DEPTH sponsor_of identity"

definition share_sponsor_tree :: "(hash32 \<Rightarrow> hash32 option) \<Rightarrow> hash32 \<Rightarrow> hash32 \<Rightarrow> bool option" where
  "share_sponsor_tree sponsor_of a b =
     (case find_sponsor_tree_root sponsor_of a of
        None \<Rightarrow> None
      | Some root1 \<Rightarrow> map_option (\<lambda>root2. root1 = root2) (find_sponsor_tree_root sponsor_of b))"

subsection \<open>The store\<close>

record spam_store =
  sa_attestations :: "(bytes, stored_attestation) tree"
  sa_counters :: "(hash32, counter_state) tree"
  sa_rate_limits :: "(hash32 \<times> u32 \<times> u64) list"

definition sa_empty :: spam_store where
  "sa_empty = \<lparr>sa_attestations = [], sa_counters = [], sa_rate_limits = []\<rparr>"

definition put_attestation :: "spam_store \<Rightarrow> stored_attestation \<Rightarrow> spam_store" where
  "put_attestation s a =
     s\<lparr>sa_attestations := tree_insert (sa_attestations s)
        (at_content_hash (st_attestation a) @ at_attester (st_attestation a)) a\<rparr>"

definition get_attestations_for_content :: "spam_store \<Rightarrow> hash32 \<Rightarrow> stored_attestation list" where
  "get_attestations_for_content s content_hash =
     map snd (filter (\<lambda>e. take (length content_hash) (fst e) = content_hash) (tree_iter (sa_attestations s)))"

definition has_attestation :: "spam_store \<Rightarrow> hash32 \<Rightarrow> hash32 \<Rightarrow> bool" where
  "has_attestation s content_hash attester \<longleftrightarrow> tree_get (sa_attestations s) (content_hash @ attester) \<noteq> None"

definition get_counter_state :: "spam_store \<Rightarrow> hash32 \<Rightarrow> counter_state" where
  "get_counter_state s content_hash =
     (case tree_get (sa_counters s) content_hash of Some c \<Rightarrow> c | None \<Rightarrow> counter_empty content_hash)"

definition put_counter_state :: "spam_store \<Rightarrow> counter_state \<Rightarrow> spam_store" where
  "put_counter_state s c = s\<lparr>sa_counters := tree_insert (sa_counters s) (cs_content_hash c) c\<rparr>"

definition get_attestation_count_in_window :: "spam_store \<Rightarrow> hash32 \<Rightarrow> u64 \<Rightarrow> u32" where
  "get_attestation_count_in_window s attester current_time =
     (case map_of (sa_rate_limits s) attester of
        Some (n, window_start) \<Rightarrow> if current_time < window_start + SPAM_ATTESTATION_RATE_LIMIT_WINDOW_SECS then n else 0
      | None \<Rightarrow> 0)"

definition increment_attestation_count :: "spam_store \<Rightarrow> hash32 \<Rightarrow> u64 \<Rightarrow> spam_store" where
  "increment_attestation_count s attester current_time =
     (let (n, window_start) = (case map_of (sa_rate_limits s) attester of Some e \<Rightarrow> e | None \<Rightarrow> (0, current_time));
          (n', start') = (if current_time \<ge> window_start + SPAM_ATTESTATION_RATE_LIMIT_WINDOW_SECS then (0, current_time)
                          else (n, window_start))
      in s\<lparr>sa_rate_limits := AList.update attester (n' + 1, start') (sa_rate_limits s)\<rparr>)"

definition sa_cleanup_rate_limits :: "spam_store \<Rightarrow> u64 \<Rightarrow> spam_store" where
  "sa_cleanup_rate_limits s current_time =
     s\<lparr>sa_rate_limits := filter (\<lambda>(_, _, window_start). current_time < window_start + SPAM_ATTESTATION_RATE_LIMIT_WINDOW_SECS * 2)
        (sa_rate_limits s)\<rparr>"

definition content_accelerates :: "spam_store \<Rightarrow> hash32 \<Rightarrow> bool" where
  "content_accelerates s content_hash =
     ag_should_accelerate_decay
       (aggregate_attestations (get_attestations_for_content s content_hash) (cs_is_cleared (get_counter_state s content_hash)))"

primrec flagged_loop :: "spam_store \<Rightarrow> hash32 list \<Rightarrow> bytes list \<Rightarrow> hash32 list" where
  "flagged_loop s seen [] = []"
| "flagged_loop s seen (key # keys) =
     (if length key \<ge> 32 then
        let content_hash = take 32 key
        in if content_hash \<in> set seen then flagged_loop s seen keys
           else if content_accelerates s content_hash then content_hash # flagged_loop s (content_hash # seen) keys
           else flagged_loop s (content_hash # seen) keys
      else flagged_loop s seen keys)"

definition get_flagged_content :: "spam_store \<Rightarrow> hash32 list" where
  "get_flagged_content s = flagged_loop s [] (map fst (tree_iter (sa_attestations s)))"

definition delete_attestations_for_content :: "spam_store \<Rightarrow> hash32 \<Rightarrow> u32 \<times> spam_store" where
  "delete_attestations_for_content s content_hash =
     (let keys = map fst (filter (\<lambda>e. take (length content_hash) (fst e) = content_hash) (tree_iter (sa_attestations s)))
      in (word_of_nat (length keys),
          s\<lparr>sa_attestations := foldl tree_remove (sa_attestations s) keys, sa_counters := tree_remove (sa_counters s) content_hash\<rparr>))"

subsection \<open>Validation\<close>

datatype spam_error =
    SpamInvalidSignature
  | TimestampTooOld u64 u64
  | TimestampInFuture u64
  | InsufficientPoW u8 u8
  | SpamRateLimitExceeded u32 u32 u64
  | SelfAttestation
  | SpamContentNotFound
  | DuplicateAttestation
  | SponsorTreeError string

definition check_attester_eligibility :: "u32 \<Rightarrow> spam_error + unit" where
  "check_attester_eligibility attestations_in_window =
     (if attestations_in_window \<ge> SPAM_ATTESTATION_RATE_LIMIT_HOURLY
      then Inl (SpamRateLimitExceeded attestations_in_window SPAM_ATTESTATION_RATE_LIMIT_HOURLY SPAM_ATTESTATION_RATE_LIMIT_WINDOW_SECS)
      else Inr ())"

definition check_counter_attester_eligibility :: "u32 \<Rightarrow> spam_error + unit" where
  "check_counter_attester_eligibility attestations_in_window =
     (if attestations_in_window \<ge> SPAM_ATTESTATION_RATE_LIMIT_HOURLY
      then Inl (SpamRateLimitExceeded attestations_in_window SPAM_ATTESTATION_RATE_LIMIT_HOURLY SPAM_ATTESTATION_RATE_LIMIT_WINDOW_SECS)
      else Inr ())"

definition check_age :: "u64 \<Rightarrow> u64 \<Rightarrow> spam_error + unit" where
  "check_age timestamp current_time =
     (if current_time > timestamp then
        let age = current_time - timestamp
        in if age > SPAM_ATTESTATION_MAX_AGE_SECS then Inl (TimestampTooOld age SPAM_ATTESTATION_MAX_AGE_SECS) else Inr ()
      else
        let future = timestamp - current_time
        in if future > 300 then Inl (TimestampInFuture future) else Inr ())"

fun pow_leading_zeros :: "bytes \<Rightarrow> nat" where
  "pow_leading_zeros [] = 0"
| "pow_leading_zeros (b # bs) = (if b = 0 then 8 + pow_leading_zeros bs else byte_leading_zeros b)"

definition check_pow :: "(bytes \<Rightarrow> hash32) \<Rightarrow> spam_attestation \<Rightarrow> spam_error + unit" where
  "check_pow sha a =
     (let zeros = word_of_nat (pow_leading_zeros (sha (attestation_pow_message a @ u64_le (at_pow_nonce a))))
      in if zeros < SPAM_ATTESTATION_POW_DIFFICULTY then Inl (InsufficientPoW SPAM_ATTESTATION_POW_DIFFICULTY zeros) else Inr ())"

definition validate_attestation ::
  "(bytes \<Rightarrow> hash32) \<Rightarrow> (bytes \<Rightarrow> bytes \<Rightarrow> bytes \<Rightarrow> bool) \<Rightarrow> spam_attestation \<Rightarrow> u64 \<Rightarrow> hash32 \<Rightarrow> spam_error + unit" where
  "validate_attestation sha verify a current_time content_author =
     (if at_attester a = content_author then Inl SelfAttestation
      else case check_age (at_timestamp a) current_time of
             Inl e \<Rightarrow> Inl e
           | Inr _ \<Rightarrow>
               if \<not> verify (at_attester a) (attestation_signing_message a) (at_signature a) then Inl SpamInvalidSignature
               else check_pow sha a)"

subsection \<open>The manager of counter-attestations\<close>

definition validate_counter ::
  "(bytes \<Rightarrow> bytes \<Rightarrow> bytes \<Rightarrow> bool) \<Rightarrow> spam_store \<Rightarrow> counter_attestation \<Rightarrow> u32 \<Rightarrow> u64 \<Rightarrow> spam_error + unit" where
  "validate_counter verify s c attestations_in_window current_time =
     (case check_counter_attester_eligibility attestations_in_window of
        Inl e \<Rightarrow> Inl e
      | Inr _ \<Rightarrow>
          (case check_age (ct_timestamp c) current_time of
             Inl e \<Rightarrow> Inl e
           | Inr _ \<Rightarrow>
               if \<not> verify (ct_counter_attester c) (counter_signing_message c) (ct_signature c) then Inl SpamInvalidSignature
               else if get_attestations_for_content s (ct_content_hash c) = [] then Inl SpamContentNotFound
               else if ct_counter_attester c \<in> set (cs_counter_attesters (get_counter_state s (ct_content_hash c)))
               then Inl DuplicateAttestation
               else Inr ()))"

definition COUNTER_ATTESTATION_HEAT_BONUS :: u64 where "COUNTER_ATTESTATION_HEAT_BONUS = 10"
definition MAX_COUNTER_ATTESTATION_HEAT_BONUS :: u64 where "MAX_COUNTER_ATTESTATION_HEAT_BONUS = 50"

definition calculate_heat_bonus :: "u8 \<Rightarrow> u64" where
  "calculate_heat_bonus n = min (ucast n * COUNTER_ATTESTATION_HEAT_BONUS) MAX_COUNTER_ATTESTATION_HEAT_BONUS"

record counter_result =
  cr_total :: u8
  cr_flag_cleared :: bool
  cr_heat_bonus :: u64
  cr_cleared_at :: "u64 option"

definition process_counter ::
  "(bytes \<Rightarrow> bytes \<Rightarrow> bytes \<Rightarrow> bool) \<Rightarrow> spam_store \<Rightarrow> counter_attestation \<Rightarrow> u32 \<Rightarrow> u64 \<Rightarrow> (spam_error + counter_result) \<times> spam_store" where
  "process_counter verify s c attestations_in_window current_time =
     (case validate_counter verify s c attestations_in_window current_time of
        Inl e \<Rightarrow> (Inl e, s)
      | Inr _ \<Rightarrow>
          let (threshold_just_reached, c1) = add_counter_attester (get_counter_state s (ct_content_hash c)) (ct_counter_attester c) (ct_timestamp c);
              s1 = increment_attestation_count (put_counter_state s c1) (ct_counter_attester c) current_time
          in (Inr \<lparr>cr_total = counter_count c1, cr_flag_cleared = threshold_just_reached,
                   cr_heat_bonus = calculate_heat_bonus (counter_count c1), cr_cleared_at = cs_cleared_at c1\<rparr>, s1))"

subsection \<open>The handlers of the router\<close>

text \<open>What a node holds: the attestations, the reputations, the authors of the content it has, and the sponsorships.\<close>

record spam_node =
  sn_spam :: spam_store
  sn_reputations :: "reputation_store option"
  sn_authors :: "(hash32 \<Rightarrow> hash32 option) option"
  sn_sponsorship :: "spons_state option"

definition record_spam_flag_for_content :: "spam_node \<Rightarrow> hash32 \<Rightarrow> u64 \<Rightarrow> spam_node" where
  "record_spam_flag_for_content n content_hash timestamp =
     (case (sn_reputations n, sn_authors n) of
        (Some rep, Some author_of) \<Rightarrow>
          (case author_of content_hash of
             None \<Rightarrow> n
           | Some author \<Rightarrow>
               n\<lparr>sn_sponsorship := map_option (\<lambda>m. snd (on_spam_flagged_content m author timestamp)) (sn_sponsorship n),
                 sn_reputations := Some (snd (record_spam_flag rep author timestamp))\<rparr>)
      | _ \<Rightarrow> n)"

definition record_counter_for_content :: "spam_node \<Rightarrow> hash32 \<Rightarrow> u64 \<Rightarrow> spam_node" where
  "record_counter_for_content n content_hash timestamp =
     (case (sn_reputations n, sn_authors n) of
        (Some rep, Some author_of) \<Rightarrow>
          (case author_of content_hash of
             None \<Rightarrow> n
           | Some author \<Rightarrow> n\<lparr>sn_reputations := Some (snd (record_counter rep author timestamp))\<rparr>)
      | _ \<Rightarrow> n)"

definition handle_spam_attestation :: "spam_node \<Rightarrow> bytes \<Rightarrow> u64 \<Rightarrow> spam_node option" where
  "handle_spam_attestation n payload current_time =
     (case attestation_from_bytes payload of
        None \<Rightarrow> None
      | Some a \<Rightarrow>
          if has_attestation (sn_spam n) (at_content_hash a) (at_attester a) then Some n
          else
            let was_flagged = content_accelerates (sn_spam n) (at_content_hash a);
                s1 = put_attestation (sn_spam n) \<lparr>st_attestation = a, st_sponsor_tree_root = at_attester a, st_is_deduplicated = False\<rparr>;
                n1 = n\<lparr>sn_spam := s1\<rparr>;
                n2 = (if content_accelerates s1 (at_content_hash a) \<and> \<not> was_flagged
                      then record_spam_flag_for_content n1 (at_content_hash a) current_time else n1)
            in Some (n2\<lparr>sn_spam := increment_attestation_count (sn_spam n2) (at_attester a) current_time\<rparr>))"

definition handle_counter_attestation :: "spam_node \<Rightarrow> bytes \<Rightarrow> spam_node option" where
  "handle_counter_attestation n payload =
     (case counter_from_bytes payload of
        None \<Rightarrow> None
      | Some c \<Rightarrow>
          let st = get_counter_state (sn_spam n) (ct_content_hash c)
          in if cs_is_cleared st then Some n
             else
               let (threshold_reached, st') = add_counter_attester st (ct_counter_attester c) (ct_timestamp c);
                   n1 = n\<lparr>sn_spam := put_counter_state (sn_spam n) st'\<rparr>
               in Some (if threshold_reached then record_counter_for_content n1 (ct_content_hash c) (ct_timestamp c) else n1))"

subsection \<open>The methods of the RPC server\<close>

datatype spam_rpc_error = NotSponsored | InvalidTimestamp | AlreadyAttested | BadSignature | LowPoW

text \<open>\<open>check_identity_sponsored\<close>: anyone on a regression test network, a member, or one whose sponsorship is pending.\<close>

definition check_identity_sponsored :: "network_mode \<Rightarrow> spons_store \<Rightarrow> action list \<Rightarrow> hash32 \<Rightarrow> bool" where
  "check_identity_sponsored mode st pending identity \<longleftrightarrow>
     mode = Regtest \<or> can_identity_act mode st identity \<or> (\<exists>a \<in> set pending. act_type a = Sponsor \<and> act_content_hash a = Some identity)"

definition aggregate_with_reputation ::
  "((hash32 \<times> rat) list \<Rightarrow> (hash32 \<times> rat) list) \<Rightarrow> spam_node \<Rightarrow> hash32 \<Rightarrow> attestation_aggregation" where
  "aggregate_with_reputation order n content_hash =
     (let as = get_attestations_for_content (sn_spam n) content_hash;
          is_cleared = cs_is_cleared (get_counter_state (sn_spam n) content_hash)
      in case sn_reputations n of
           Some rep \<Rightarrow>
             aggregate_attestations_weighted order as is_cleared
               (\<lambda>attester. attester_weight (case get_score rep attester of Inr score \<Rightarrow> score | Inl _ \<Rightarrow> REPUTATION_BASE_SCORE))
         | None \<Rightarrow> aggregate_attestations as is_cleared)"

definition submit_spam_attestation ::
  "network_mode \<Rightarrow> (bytes \<Rightarrow> hash32) \<Rightarrow> (bytes \<Rightarrow> bytes \<Rightarrow> bytes \<Rightarrow> bool) \<Rightarrow> ((hash32 \<times> rat) list \<Rightarrow> (hash32 \<times> rat) list) \<Rightarrow>
   spons_store \<Rightarrow> action list \<Rightarrow> spam_node \<Rightarrow> spam_attestation \<Rightarrow> u64 \<Rightarrow> (spam_rpc_error + attestation_aggregation) \<times> spam_node" where
  "submit_spam_attestation mode sha verify order st pending n a now =
     (if \<not> check_identity_sponsored mode st pending (at_attester a) then (Inl NotSponsored, n)
      else if at_timestamp a > sat_add now 120 \<or> at_timestamp a < sat_sub now 600 then (Inl InvalidTimestamp, n)
      else if has_attestation (sn_spam n) (at_content_hash a) (at_attester a) then (Inl AlreadyAttested, n)
      else if \<not> verify (at_attester a) (attestation_signing_message a) (at_signature a) then (Inl BadSignature, n)
      else case check_pow sha a of
             Inl _ \<Rightarrow> (Inl LowPoW, n)
           | Inr _ \<Rightarrow>
               let tree = (case find_sponsor_tree_root (get_sponsor st) (at_attester a) of Some r \<Rightarrow> r | None \<Rightarrow> at_attester a);
                   was_flagged = ag_should_accelerate_decay (aggregate_with_reputation order n (at_content_hash a));
                   n1 = n\<lparr>sn_spam := put_attestation (sn_spam n) \<lparr>st_attestation = a, st_sponsor_tree_root = tree, st_is_deduplicated = False\<rparr>\<rparr>;
                   aggregation = aggregate_with_reputation order n1 (at_content_hash a);
                   n2 = (if \<not> was_flagged \<and> ag_should_accelerate_decay aggregation
                         then record_spam_flag_for_content n1 (at_content_hash a) (at_timestamp a) else n1)
               in (Inr aggregation, n2\<lparr>sn_spam := increment_attestation_count (sn_spam n2) (at_attester a) (at_timestamp a)\<rparr>))"

text \<open>The time that the signature is checked for is the time of the server.\<close>

definition submit_counter_attestation ::
  "(bytes \<Rightarrow> bytes \<Rightarrow> bytes \<Rightarrow> bool) \<Rightarrow> spam_node \<Rightarrow> hash32 \<Rightarrow> hash32 \<Rightarrow> bytes \<Rightarrow> u64 \<Rightarrow> (spam_rpc_error + bool) \<times> spam_node" where
  "submit_counter_attestation verify n content_hash counter_attester signature timestamp =
     (let c = \<lparr>ct_content_hash = content_hash, ct_counter_attester = counter_attester, ct_timestamp = timestamp, ct_signature = signature\<rparr>
      in if \<not> verify counter_attester (counter_signing_message c) signature then (Inl BadSignature, n)
         else
           let st = get_counter_state (sn_spam n) content_hash
           in if cs_is_cleared st then (Inr False, n)
              else
                let (threshold_reached, st') = add_counter_attester st counter_attester timestamp;
                    n1 = n\<lparr>sn_spam := put_counter_state (sn_spam n) st'\<rparr>
                in (Inr threshold_reached,
                    if threshold_reached then record_counter_for_content n1 content_hash timestamp else n1))"

subsection \<open>The local API\<close>

definition api_submit_spam_attestation ::
  "(bytes \<Rightarrow> hash32) \<Rightarrow> (bytes \<Rightarrow> bytes \<Rightarrow> bytes \<Rightarrow> bool) \<Rightarrow> (hash32 \<Rightarrow> hash32 option) \<Rightarrow> spam_store \<times> reputation_store \<Rightarrow>
   spam_attestation \<Rightarrow> hash32 \<Rightarrow> u32 \<Rightarrow> u64 \<Rightarrow> (spam_error + bool) \<times> spam_store \<times> reputation_store" where
  "api_submit_spam_attestation sha verify sponsor_of sr a content_author attestations_in_window now =
     (case sr of (s, rep) \<Rightarrow>
        (case check_attester_eligibility attestations_in_window of
           Inl e \<Rightarrow> (Inl e, sr)
         | Inr _ \<Rightarrow>
             (case validate_attestation sha verify a now content_author of
                Inl e \<Rightarrow> (Inl e, sr)
              | Inr _ \<Rightarrow>
                  (case find_sponsor_tree_root sponsor_of (at_attester a) of
                     None \<Rightarrow> (Inl (SponsorTreeError ''Exceeded maximum tree depth''), sr)
                   | Some tree \<Rightarrow>
                       let s1 = put_attestation s \<lparr>st_attestation = a, st_sponsor_tree_root = tree, st_is_deduplicated = False\<rparr>;
                           is_cleared = cs_is_cleared (get_counter_state s1 (at_content_hash a));
                           aggregation = aggregate_attestations (get_attestations_for_content s1 (at_content_hash a)) is_cleared;
                           threshold_reached = (ag_unique_tree_count aggregation \<ge> SPAM_ATTESTATION_THRESHOLD \<and> \<not> is_cleared);
                           rep1 = (if threshold_reached then snd (record_spam_flag rep content_author now) else rep)
                       in (Inr threshold_reached, s1, rep1)))))"

definition is_spam_flagged :: "spam_store \<Rightarrow> hash32 \<Rightarrow> bool" where
  "is_spam_flagged s content_hash =
     (let agg = aggregate_attestations (get_attestations_for_content s content_hash) (cs_is_cleared (get_counter_state s content_hash))
      in ag_unique_tree_count agg \<ge> SPAM_ATTESTATION_THRESHOLD \<and> \<not> ag_is_cleared agg)"

end
