(* ===== verification/Spam_Correct.thy ===== *)
theory Spam_Correct
  imports Spam_Attest
begin

text \<open>
  What the spam attestations of a node guarantee, and what they do not: the flag of content is decided by the
  number of sponsor trees, clearing is final, weighting by reputation makes flagging harder; but what peers send
  is neither authenticated nor traced to a sponsor tree.
\<close>

subsection \<open>Encodings\<close>

lemma reason_roundtrip [simp]: "reason_from_u8 (reason_as_u8 r) = Some r"
  by (cases r) (simp_all add: reason_from_u8_def)

definition typed_attestation :: "spam_attestation \<Rightarrow> bool" where
  "typed_attestation a \<longleftrightarrow> is_hash (at_content_hash a) \<and> is_hash (at_attester a) \<and> length (at_signature a) = 64"

definition typed_counter :: "counter_attestation \<Rightarrow> bool" where
  "typed_counter c \<longleftrightarrow> is_hash (ct_content_hash c) \<and> is_hash (ct_counter_attester c) \<and> length (ct_signature c) = 64"

lemma attestation_bytes:
  assumes "typed_attestation a"
  shows "attestation_from_bytes (attestation_to_bytes a @ rest) = Some a"
proof -
  have "(attestation_to_bytes a @ rest) ! 64 = reason_as_u8 (at_reason a)"
    using assms by (simp add: attestation_to_bytes_def typed_attestation_def is_hash_def nth_append)
  with assms show ?thesis
    by (simp add: attestation_from_bytes_def attestation_to_bytes_def typed_attestation_def is_hash_def)
qed

lemma counter_bytes:
  assumes "typed_counter c"
  shows "counter_from_bytes (counter_to_bytes c @ rest) = Some c"
  using assms by (simp add: counter_from_bytes_def counter_to_bytes_def typed_counter_def is_hash_def)

lemma attestation_from_bytes_typed: "attestation_from_bytes d = Some a \<Longrightarrow> typed_attestation a"
  by (auto simp: attestation_from_bytes_def typed_attestation_def is_hash_def byte_slice_def split: if_splits option.splits)

lemma counter_from_bytes_typed: "counter_from_bytes d = Some c \<Longrightarrow> typed_counter c"
  by (auto simp: counter_from_bytes_def typed_counter_def is_hash_def byte_slice_def split: if_splits)

text \<open>
  Attestations survive the wire: a receiver decodes what was sent, whatever bytes follow; and whatever it decodes
  from arbitrary bytes has the array lengths of its type.
\<close>

theorem attestation_wire_roundtrip:
  assumes "typed_attestation a" and "typed_counter c"
  shows "attestation_from_bytes (attestation_to_bytes a @ rest) = Some a \<and> counter_from_bytes (counter_to_bytes c @ rest) = Some c \<and>
    (\<forall>d x. attestation_from_bytes d = Some x \<longrightarrow> typed_attestation x) \<and> (\<forall>d x. counter_from_bytes d = Some x \<longrightarrow> typed_counter x)"
  using attestation_bytes [OF assms(1)] counter_bytes [OF assms(2)] attestation_from_bytes_typed counter_from_bytes_typed by blast

definition sample_attestation :: "byte \<Rightarrow> spam_attestation" where
  "sample_attestation k = \<lparr>at_content_hash = replicate 32 9, at_attester = replicate 32 k, at_reason = OffTopic, at_timestamp = 100,
     at_pow_nonce = 0, at_signature = replicate 64 0\<rparr>"

definition sample_counter :: "byte \<Rightarrow> counter_attestation" where
  "sample_counter k = \<lparr>ct_content_hash = replicate 32 9, ct_counter_attester = replicate 32 k, ct_timestamp = 100, ct_signature = replicate 64 0\<rparr>"

lemma sample_attestation_typed: "typed_attestation (sample_attestation k)" "typed_counter (sample_counter k)"
  by (simp_all add: sample_attestation_def typed_attestation_def sample_counter_def typed_counter_def is_hash_def)

theorem attestation_wire_roundtrip_witness:
  "attestation_from_bytes (attestation_to_bytes (sample_attestation 1) @ [7]) = Some (sample_attestation 1) \<and>
   counter_from_bytes (counter_to_bytes (sample_counter 1) @ [7]) = Some (sample_counter 1)"
  using attestation_wire_roundtrip [OF sample_attestation_typed, of 1 "[7]" 1] by blast

subsection \<open>The state of the store\<close>

definition counter_ok :: "counter_state \<Rightarrow> bool" where
  "counter_ok c \<longleftrightarrow> distinct (cs_counter_attesters c) \<and> cs_is_cleared c = (5 \<le> length (cs_counter_attesters c)) \<and>
     (cs_cleared_at c \<noteq> None) = cs_is_cleared c"

definition spam_ok :: "spam_store \<Rightarrow> bool" where
  "spam_ok s \<longleftrightarrow> distinct (map fst (sa_attestations s)) \<and>
     (\<forall>k v. tree_get (sa_attestations s) k = Some v \<longrightarrow> typed_attestation (st_attestation v) \<and>
        k = at_content_hash (st_attestation v) @ at_attester (st_attestation v)) \<and>
     (\<forall>k c. tree_get (sa_counters s) k = Some c \<longrightarrow> cs_content_hash c = k \<and> counter_ok c)"

text \<open>The attestations of a content, and the trees they come from.\<close>

definition attestations_of :: "spam_store \<Rightarrow> hash32 \<Rightarrow> stored_attestation set" where
  "attestations_of s c = {v. \<exists>k. tree_get (sa_attestations s) k = Some v \<and> at_content_hash (st_attestation v) = c}"

definition trees_of :: "spam_store \<Rightarrow> hash32 \<Rightarrow> hash32 set" where
  "trees_of s c = st_sponsor_tree_root ` attestations_of s c"

lemma spam_ok_empty: "spam_ok sa_empty"
  by (simp add: spam_ok_def sa_empty_def)

lemma spam_okD:
  assumes "spam_ok s" and "tree_get (sa_attestations s) k = Some v"
  shows "typed_attestation (st_attestation v)" "k = at_content_hash (st_attestation v) @ at_attester (st_attestation v)"
    "take 32 k = at_content_hash (st_attestation v)" "length k = 64"
proof -
  show t: "typed_attestation (st_attestation v)" and k: "k = at_content_hash (st_attestation v) @ at_attester (st_attestation v)"
    using assms by (auto simp: spam_ok_def)
  from t show "take 32 k = at_content_hash (st_attestation v)" "length k = 64"
    by (simp_all add: k typed_attestation_def is_hash_def)
qed

lemma set_attestations_for_content:
  assumes "spam_ok s" and "is_hash c"
  shows "set (get_attestations_for_content s c) = attestations_of s c"
proof -
  have "(k, v) \<in> set (sa_attestations s) \<longleftrightarrow> tree_get (sa_attestations s) k = Some v" for k v
    using assms(1) by (simp add: spam_ok_def tree_get_def)
  moreover have "take (length c) k = c \<longleftrightarrow> at_content_hash (st_attestation v) = c" if "tree_get (sa_attestations s) k = Some v" for k v
    using spam_okD(3) [OF assms(1) that] assms(2) by (simp add: is_hash_def)
  ultimately show ?thesis by (force simp: get_attestations_for_content_def attestations_of_def)
qed

lemma counter_state_ok: "spam_ok s \<Longrightarrow> counter_ok (get_counter_state s c) \<and> cs_content_hash (get_counter_state s c) = c"
  by (auto simp: get_counter_state_def spam_ok_def counter_ok_def counter_empty_def split: option.splits)

lemma unat_tree_count: "unat (word_of_nat n :: u8) = n mod 256"
  by (simp add: unat_of_nat)

lemma aggregate_accelerates:
  "ag_should_accelerate_decay (aggregate_attestations as cleared) \<longleftrightarrow>
     \<not> cleared \<and> 3 \<le> card (st_sponsor_tree_root ` set as) mod 256"
  by (simp add: aggregate_attestations_def aggregation_empty_def Let_def spam_consts word_le_nat_alt unat_tree_count conj_commute)

lemma content_accelerates_iff:
  assumes "spam_ok s" and "is_hash c"
  shows "content_accelerates s c \<longleftrightarrow> \<not> cs_is_cleared (get_counter_state s c) \<and> 3 \<le> card (trees_of s c) mod 256"
  by (simp add: content_accelerates_def aggregate_accelerates set_attestations_for_content [OF assms] trees_of_def)

subsection \<open>Operations keep the invariant\<close>

lemma add_counter_attester_ok:
  assumes "counter_ok c" and "add_counter_attester c i t = (r, c')"
  shows "counter_ok c'" "cs_content_hash c' = cs_content_hash c" "r \<longleftrightarrow> \<not> cs_is_cleared c \<and> cs_is_cleared c'"
    "cs_is_cleared c \<Longrightarrow> cs_is_cleared c'" "set (cs_counter_attesters c') = insert i (set (cs_counter_attesters c))"
  using assms by (auto simp: add_counter_attester_def counter_ok_def Let_def spam_consts split: if_splits)

lemma distinct_tree_insert: "distinct (map fst t) \<Longrightarrow> distinct (map fst (tree_insert t k v))"
  by (simp add: tree_insert_def distinct_update)

lemma distinct_tree_remove_all: "distinct (map fst t) \<Longrightarrow> distinct (map fst (foldl tree_remove t ks))"
  by (induction ks arbitrary: t) (simp_all add: tree_remove_def distinct_delete)

lemma put_attestation_ok:
  "spam_ok s \<Longrightarrow> typed_attestation (st_attestation v) \<Longrightarrow> spam_ok (put_attestation s v)"
  by (auto simp: spam_ok_def put_attestation_def distinct_tree_insert)

lemma put_counter_ok: "spam_ok s \<Longrightarrow> counter_ok c \<Longrightarrow> spam_ok (put_counter_state s c)"
  by (auto simp: spam_ok_def put_counter_state_def)

lemma increment_ok [simp]: "spam_ok (increment_attestation_count s i t) = spam_ok s"
  by (simp add: spam_ok_def increment_attestation_count_def Let_def split: prod.split)

lemma increment_frame [simp]:
  "get_attestations_for_content (increment_attestation_count s i t) c = get_attestations_for_content s c"
  "get_counter_state (increment_attestation_count s i t) c = get_counter_state s c"
  "sa_attestations (increment_attestation_count s i t) = sa_attestations s"
  by (simp_all add: increment_attestation_count_def get_attestations_for_content_def get_counter_state_def Let_def split: prod.split)

lemma put_counter_get [simp]:
  "get_counter_state (put_counter_state s c) k = (if k = cs_content_hash c then c else get_counter_state s k)"
  by (simp add: get_counter_state_def put_counter_state_def)

lemma put_attestation_get [simp]: "get_counter_state (put_attestation s v) k = get_counter_state s k"
  by (simp add: get_counter_state_def put_attestation_def)

lemma record_for_content_frame [simp]:
  "sn_spam (record_spam_flag_for_content n c t) = sn_spam n" "sn_spam (record_counter_for_content n c t) = sn_spam n"
  "sn_authors (record_spam_flag_for_content n c t) = sn_authors n" "sn_authors (record_counter_for_content n c t) = sn_authors n"
  by (simp_all add: record_spam_flag_for_content_def record_counter_for_content_def split: option.split prod.split)

lemma handle_spam_ok:
  assumes "spam_ok (sn_spam n)" and "handle_spam_attestation n p now = Some n'"
  shows "spam_ok (sn_spam n')" "get_counter_state (sn_spam n') c = get_counter_state (sn_spam n) c"
  using assms put_attestation_ok [OF assms(1)] attestation_from_bytes_typed
  by (auto simp: handle_spam_attestation_def Let_def split: option.splits if_splits)

lemma handle_counter_ok:
  assumes "spam_ok (sn_spam n)" and "handle_counter_attestation n p = Some n'"
  shows "spam_ok (sn_spam n')" "cs_is_cleared (get_counter_state (sn_spam n) c) \<Longrightarrow> cs_is_cleared (get_counter_state (sn_spam n') c)"
  using assms add_counter_attester_ok [OF counter_state_ok [OF assms(1), THEN conjunct1]] put_counter_ok [OF assms(1)]
    counter_state_ok [OF assms(1)]
  by (auto simp: handle_counter_attestation_def Let_def split: option.splits if_splits prod.splits)

lemma submit_spam_ok:
  assumes "spam_ok (sn_spam n)" and "typed_attestation a"
    and "submit_spam_attestation mode sha verify order st pending n a now = (r, n')"
  shows "spam_ok (sn_spam n')" "get_counter_state (sn_spam n') c = get_counter_state (sn_spam n) c"
  using assms put_attestation_ok [OF assms(1)]
  by (auto simp: submit_spam_attestation_def Let_def split: sum.splits if_splits)

lemma submit_counter_ok:
  assumes "spam_ok (sn_spam n)" and "submit_counter_attestation verify n content i sig t = (r, n')"
  shows "spam_ok (sn_spam n')" "cs_is_cleared (get_counter_state (sn_spam n) c) \<Longrightarrow> cs_is_cleared (get_counter_state (sn_spam n') c)"
  using assms add_counter_attester_ok [OF counter_state_ok [OF assms(1), THEN conjunct1]] put_counter_ok [OF assms(1)]
    counter_state_ok [OF assms(1)]
  by (auto simp: submit_counter_attestation_def Let_def split: if_splits prod.splits)

lemma process_counter_ok:
  assumes "spam_ok s" and "process_counter verify s ca k now = (r, s')"
  shows "spam_ok s'" "cs_is_cleared (get_counter_state s c) \<Longrightarrow> cs_is_cleared (get_counter_state s' c)"
  using assms add_counter_attester_ok [OF counter_state_ok [OF assms(1), THEN conjunct1]] put_counter_ok [OF assms(1)]
    counter_state_ok [OF assms(1)]
  by (auto simp: process_counter_def Let_def split: if_splits prod.splits sum.splits)

lemma api_submit_ok:
  assumes "spam_ok s" and "typed_attestation a"
    and "api_submit_spam_attestation sha verify sponsor_of (s, rep) a author k now = (r, s', rep')"
  shows "spam_ok s'" "get_counter_state s' c = get_counter_state s c"
  using assms put_attestation_ok [OF assms(1)]
  by (auto simp: api_submit_spam_attestation_def Let_def split: sum.splits option.splits if_splits)

lemma delete_ok:
  assumes "spam_ok s"
  shows "spam_ok (snd (delete_attestations_for_content s c))"
    "k \<noteq> c \<Longrightarrow> get_counter_state (snd (delete_attestations_for_content s c)) k = get_counter_state s k"
  using assms
  by (auto simp: delete_attestations_for_content_def Let_def spam_ok_def distinct_tree_remove_all tree.get_remove_all
      get_counter_state_def split: if_splits)

subsection \<open>Nodes\<close>

text \<open>Everything that changes the attestations of a node. The RPC methods get arrays that they parsed.\<close>

inductive spam_step :: "spam_node \<Rightarrow> spam_node \<Rightarrow> bool" where
  network_attestation: "handle_spam_attestation n p now = Some n' \<Longrightarrow> spam_step n n'"
| network_counter: "handle_counter_attestation n p = Some n' \<Longrightarrow> spam_step n n'"
| rpc_attestation: "typed_attestation a \<Longrightarrow> submit_spam_attestation mode sha verify order st pending n a now = (r, n') \<Longrightarrow> spam_step n n'"
| rpc_counter: "is_hash content \<Longrightarrow> submit_counter_attestation verify n content i sig t = (r, n') \<Longrightarrow> spam_step n n'"
| api_attestation: "typed_attestation a \<Longrightarrow> sn_reputations n = Some rep \<Longrightarrow>
    api_submit_spam_attestation sha verify sponsor_of (sn_spam n, rep) a author k now = (r, s', rep') \<Longrightarrow>
    spam_step n (n\<lparr>sn_spam := s', sn_reputations := Some rep'\<rparr>)"
| managed_counter: "process_counter verify (sn_spam n) c k now = (r, s') \<Longrightarrow> spam_step n (n\<lparr>sn_spam := s'\<rparr>)"
| rate_cleanup: "spam_step n (n\<lparr>sn_spam := sa_cleanup_rate_limits (sn_spam n) now\<rparr>)"

text \<open>Content that is pruned takes its attestations with it.\<close>

inductive spam_prune :: "hash32 \<Rightarrow> spam_node \<Rightarrow> spam_node \<Rightarrow> bool" where
  pruned: "spam_prune c n (n\<lparr>sn_spam := snd (delete_attestations_for_content (sn_spam n) c)\<rparr>)"

lemma cleanup_ok [simp]: "spam_ok (sa_cleanup_rate_limits s now) = spam_ok s"
  "get_counter_state (sa_cleanup_rate_limits s now) c = get_counter_state s c"
  by (simp_all add: spam_ok_def sa_cleanup_rate_limits_def get_counter_state_def)

lemma spam_step_ok:
  assumes "spam_step n n'" and "spam_ok (sn_spam n)"
  shows "spam_ok (sn_spam n') \<and>
    (cs_is_cleared (get_counter_state (sn_spam n) c) \<longrightarrow> cs_is_cleared (get_counter_state (sn_spam n') c))"
  using assms
proof (induction rule: spam_step.induct)
  case (network_attestation n p now n')
  then show ?case using handle_spam_ok [OF network_attestation(2,1)] by simp
next
  case (network_counter n p n')
  then show ?case using handle_counter_ok [OF network_counter(2,1)] by simp
next
  case (rpc_attestation a mode sha verify order st pending n now r n')
  then show ?case using submit_spam_ok [OF rpc_attestation(3,1,2)] by simp
next
  case (rpc_counter content verify n i sig t r n')
  then show ?case using submit_counter_ok [OF rpc_counter(3,2)] by simp
next
  case (api_attestation a n rep sha verify sponsor_of author k now r s' rep')
  then show ?case using api_submit_ok [OF api_attestation(4,1,3)] by simp
next
  case (managed_counter verify n c' k now r s')
  then show ?case using process_counter_ok [OF managed_counter(2,1)] by simp
qed simp

definition spam_evolves :: "spam_node \<Rightarrow> spam_node \<Rightarrow> bool" where
  "spam_evolves = (\<lambda>n n'. spam_step n n' \<or> (\<exists>c. is_hash c \<and> spam_prune c n n'))\<^sup>*\<^sup>*"

lemma spam_evolves_ok: "spam_evolves n n' \<Longrightarrow> spam_ok (sn_spam n) \<Longrightarrow> spam_ok (sn_spam n')"
  unfolding spam_evolves_def
proof (induction rule: rtranclp_induct)
  case (step y z)
  then show ?case using spam_step_ok delete_ok(1) by (auto elim!: spam_prune.cases)
qed simp

lemma flagged_loop_spec:
  "set (flagged_loop s seen keys) = {c. c \<notin> set seen \<and> content_accelerates s c \<and> (\<exists>k \<in> set keys. 32 \<le> length k \<and> take 32 k = c)} \<and>
   distinct (flagged_loop s seen keys)"
proof (induction keys arbitrary: seen)
  case (Cons k keys)
  show ?case using Cons [of seen] Cons [of "take 32 k # seen"] by (auto simp: Let_def)
qed simp

lemma flagged_content_iff:
  assumes "spam_ok s"
  shows "distinct (get_flagged_content s)"
    "c \<in> set (get_flagged_content s) \<longleftrightarrow>
      is_hash c \<and> \<not> cs_is_cleared (get_counter_state s c) \<and> 3 \<le> card (trees_of s c) mod 256"
proof -
  show "distinct (get_flagged_content s)" using flagged_loop_spec by (simp add: get_flagged_content_def)
  have keys: "(\<exists>k \<in> set (map fst (tree_iter (sa_attestations s))). 32 \<le> length k \<and> take 32 k = c) \<longleftrightarrow> attestations_of s c \<noteq> {}"
  proof
    assume "\<exists>k \<in> set (map fst (tree_iter (sa_attestations s))). 32 \<le> length k \<and> take 32 k = c"
    then obtain k v where k: "(k, v) \<in> set (sa_attestations s)" "take 32 k = c" by auto
    then have "tree_get (sa_attestations s) k = Some v" using assms by (simp add: spam_ok_def tree_get_def)
    with k(2) spam_okD(3) [OF assms] show "attestations_of s c \<noteq> {}" by (auto simp: attestations_of_def)
  next
    assume "attestations_of s c \<noteq> {}"
    then obtain k v where k: "tree_get (sa_attestations s) k = Some v" "at_content_hash (st_attestation v) = c" by (auto simp: attestations_of_def)
    then have "k \<in> set (map fst (sa_attestations s))" by (force simp: tree_get_def dest!: map_of_SomeD)
    then show "\<exists>k \<in> set (map fst (tree_iter (sa_attestations s))). 32 \<le> length k \<and> take 32 k = c"
      using spam_okD(3,4) [OF assms k(1)] k(2) by (intro bexI [of _ k]) auto
  qed
  have hash: "is_hash c" if "attestations_of s c \<noteq> {}"
    using that spam_okD(1) [OF assms] by (auto simp: attestations_of_def typed_attestation_def)
  have "3 \<le> card (trees_of s c) mod 256 \<Longrightarrow> attestations_of s c \<noteq> {}" by (auto simp: trees_of_def)
  then show "c \<in> set (get_flagged_content s) \<longleftrightarrow>
      is_hash c \<and> \<not> cs_is_cleared (get_counter_state s c) \<and> 3 \<le> card (trees_of s c) mod 256"
    using flagged_loop_spec [of s "[]" "map fst (tree_iter (sa_attestations s))"] keys hash content_accelerates_iff [OF assms]
    unfolding get_flagged_content_def by auto
qed


lemma spam_steps_cleared:
  assumes "spam_step\<^sup>*\<^sup>* n n'" and "spam_ok (sn_spam n)"
  shows "spam_ok (sn_spam n') \<and>
    (cs_is_cleared (get_counter_state (sn_spam n) c) \<longrightarrow> cs_is_cleared (get_counter_state (sn_spam n') c))"
  using assms(1)
proof (induction rule: rtranclp_induct)
  case (step y z)
  then show ?case using spam_step_ok by blast
qed (use assms(2) in simp)

text \<open>
  C30. Clearing is exact and final: content is cleared if and only if five different identities have counter-attested, and
  then no number of later attestations flags it again, on whatever path they arrive, until the content is pruned.
\<close>

theorem cleared_stays_cleared:
  assumes "spam_evolves n0 n" and "sn_spam n0 = sa_empty" and "spam_step\<^sup>*\<^sup>* n n'" and "is_hash c"
  shows "(cs_is_cleared (get_counter_state (sn_spam n) c) \<longleftrightarrow> 5 \<le> card (set (cs_counter_attesters (get_counter_state (sn_spam n) c)))) \<and>
    (cs_is_cleared (get_counter_state (sn_spam n) c) \<longrightarrow> c \<notin> set (get_flagged_content (sn_spam n')))"
proof -
  have ok: "spam_ok (sn_spam n)" using spam_evolves_ok [OF assms(1)] assms(2) spam_ok_empty by simp
  have "spam_ok (sn_spam n')" using spam_steps_cleared [OF assms(3) ok, of c] by simp
  then show ?thesis
    using spam_steps_cleared [OF assms(3) ok, of c] flagged_content_iff(2) [of "sn_spam n'" c] counter_state_ok [OF ok, of c]
    by (auto simp: counter_ok_def distinct_card)
qed

subsection \<open>Weighting\<close>

lemma note_weights_bounds:
  assumes "\<forall>e \<in> set m. 0 \<le> snd e \<and> snd e \<le> 1" and "distinct (map fst m)"
  shows "(\<forall>e \<in> set (foldl (note_weight w) m as). 0 \<le> snd e \<and> snd e \<le> 1) \<and> distinct (map fst (foldl (note_weight w) m as)) \<and>
    set (map fst (foldl (note_weight w) m as)) = set (map fst m) \<union> st_sponsor_tree_root ` set as"
  using assms
proof (induction as arbitrary: m)
  case (Cons a as)
  let ?t = "st_sponsor_tree_root a"
  define e0 where "e0 = (case map_of m ?t of Some e \<Rightarrow> e | None \<Rightarrow> 0)"
  have "0 \<le> e0 \<and> e0 \<le> 1" using Cons.prems(1) by (auto simp: e0_def split: option.split dest!: map_of_SomeD)
  then obtain v where v: "note_weight w m a = AList.update ?t v m" "0 \<le> v" "v \<le> 1"
    by (auto simp: note_weight_def Let_def e0_def [symmetric])
  have keys: "set (map fst (AList.update ?t v m)) = insert ?t (set (map fst m))" by (simp add: dom_update)
  have "set (AList.update ?t v m) \<subseteq> insert (?t, v) (set m)" by (induction m) auto
  then have "\<forall>e \<in> set (AList.update ?t v m). 0 \<le> snd e \<and> snd e \<le> 1" using Cons.prems(1) v(2,3) by auto
  from Cons.IH [OF this distinct_update [OF Cons.prems(2)]] keys show ?case by (auto simp: v(1))
qed simp

lemma rounded_sum_le:
  assumes "\<forall>e \<in> set xs. snd e \<le> 1" and "0 \<le> s" "s \<le> of_nat k" "k + length xs < 2 ^ 53"
  shows "foldl (\<lambda>s e. f64_round (s + snd e)) s xs \<le> of_nat (k + length xs)"
  using assms
proof (induction xs arbitrary: s k)
  case (Cons e xs)
  have "f64_round (s + snd e) \<le> f64_round (of_nat (Suc k))" using Cons.prems by (intro f64_round_mono) (simp add: add_mono)
  also have "\<dots> = of_nat (Suc k)" using Cons.prems(4) by (intro f64_round_nat) simp
  finally show ?case using Cons.IH [of "f64_round (s + snd e)" "Suc k"] Cons.prems by simp
qed simp

lemma weighted_count_le:
  assumes "\<And>xs. mset (order xs) = mset xs" and "length as < 2 ^ 53"
  shows "ag_weighted_tree_count (aggregate_attestations_weighted order as cleared w) \<le> of_nat (card (st_sponsor_tree_root ` set as))"
proof (cases "as = []")
  case False
  let ?m = "foldl (note_weight w) [] as"
  note b = note_weights_bounds [of "[]" w as]
  have "length ?m = card (set (map fst ?m))" using b distinct_card [of "map fst ?m"] by simp
  then have len: "length ?m = card (st_sponsor_tree_root ` set as)" using b by simp
  have "card (st_sponsor_tree_root ` set as) \<le> length as" using card_image_le [of "set as"] card_length [of as] by (meson List.finite_set order_trans)
  moreover have "set (order ?m) = set ?m" "length (order ?m) = length ?m" using assms(1) [of ?m] by (metis set_mset_mset, metis size_mset)
  ultimately show ?thesis using rounded_sum_le [of "order ?m" 0 0] b len assms(2) False
    by (simp add: aggregate_attestations_weighted_def Let_def)
qed (simp add: aggregate_attestations_weighted_def aggregation_empty_def)

text \<open>
  Weighting by reputation only makes flagging harder: whatever weights the attesters have and in whatever order the
  weights are added up, with the rounding of each sum, content that is flagged by weight is flagged by count, as
  long as there are fewer than 256 trees.
\<close>

theorem weighting_only_harder:
  assumes "\<And>xs. mset (order xs) = mset xs" and "length as < 2 ^ 53" and "card (st_sponsor_tree_root ` set as) < 256"
    and "ag_should_accelerate_decay (aggregate_attestations_weighted order as cleared w)"
  shows "ag_should_accelerate_decay (aggregate_attestations as cleared)"
proof -
  have "3 \<le> ag_weighted_tree_count (aggregate_attestations_weighted order as cleared w)" "\<not> cleared"
    using assms(4) by (auto simp: aggregate_attestations_weighted_def aggregation_empty_def Let_def spam_consts split: if_splits)
  moreover note weighted_count_le [OF assms(1,2), of cleared w]
  ultimately have "(3 :: rat) \<le> of_nat (card (st_sponsor_tree_root ` set as))" by simp
  then have "3 \<le> card (st_sponsor_tree_root ` set as)" by simp
  then show ?thesis using assms(3) \<open>\<not> cleared\<close> by (simp add: aggregate_accelerates)
qed

text \<open>
  The count of trees is cut to eight bits: with 256 trees against it, content is not flagged. By weight it is, so that
  weighting then makes flagging easier.
\<close>

theorem tree_count_wraps:
  assumes "card (st_sponsor_tree_root ` set as) mod 256 < 3"
  shows "\<not> ag_should_accelerate_decay (aggregate_attestations as cleared)"
  using assms by (simp add: aggregate_accelerates)

subsection \<open>Sponsor trees\<close>

fun sponsor_iter :: "(hash32 \<Rightarrow> hash32 option) \<Rightarrow> nat \<Rightarrow> hash32 \<Rightarrow> hash32 option" where
  "sponsor_iter f 0 i = Some i"
| "sponsor_iter f (Suc k) i = (case f i of Some j \<Rightarrow> sponsor_iter f k j | None \<Rightarrow> None)"

lemma tree_root_loop_iff:
  "tree_root_loop n f i = Some r \<longleftrightarrow> (\<exists>k < n. sponsor_iter f k i = Some r) \<and> f r = None"
proof (induction n arbitrary: i)
  case (Suc n)
  show ?case
  proof (cases "f i")
    case None
    have "(\<exists>k < Suc n. sponsor_iter f k i = Some r) \<longleftrightarrow> r = i"
    proof
      assume "\<exists>k < Suc n. sponsor_iter f k i = Some r"
      then obtain k where "sponsor_iter f k i = Some r" by blast
      then show "r = i" using None by (cases k) auto
    qed (auto intro!: exI [of _ 0])
    with None show ?thesis by auto
  next
    case (Some j)
    have "(\<exists>k < Suc n. sponsor_iter f k i = Some r) \<longleftrightarrow> r = i \<or> (\<exists>k < n. sponsor_iter f k j = Some r)"
      using Some by (auto simp: less_Suc_eq_0_disj)
    with Suc [of j] Some show ?thesis by auto
  qed
qed simp

text \<open>
  The root of an identity is found if it is less than a hundred sponsors away, and it is the one identity up the
  chain without a sponsor. So two identities of one tree count once; but every identity further down is, for
  the RPC method, a tree of its own.
\<close>

theorem sponsor_tree_root_exact:
  "find_sponsor_tree_root sponsor_of i = Some r \<longleftrightarrow> (\<exists>k < 100. sponsor_iter sponsor_of k i = Some r) \<and> sponsor_of r = None"
  by (simp add: find_sponsor_tree_root_def TREE_MAX_DEPTH_def tree_root_loop_iff)

subsection \<open>What peers may do\<close>

lemma attestations_of_put:
  assumes "spam_ok s" and "\<not> has_attestation s (at_content_hash (st_attestation v)) (at_attester (st_attestation v))"
  shows "attestations_of (put_attestation s v) c =
    (if c = at_content_hash (st_attestation v) then insert v (attestations_of s c) else attestations_of s c)"
  using assms(2) unfolding attestations_of_def put_attestation_def has_attestation_def
  by (simp add: set_eq_iff) (metis option.distinct(1) option.inject)

lemma has_attestation_put:
  "has_attestation (put_attestation s v) c i \<longleftrightarrow> has_attestation s c i \<or> c @ i = at_content_hash (st_attestation v) @ at_attester (st_attestation v)"
  by (auto simp: has_attestation_def put_attestation_def)

lemma increment_attestations [simp]: "attestations_of (increment_attestation_count s i t) c = attestations_of s c"
  "has_attestation (increment_attestation_count s i t) c j = has_attestation s c j"
  by (simp_all add: attestations_of_def has_attestation_def)

lemma content_accelerates_increment [simp]:
  "content_accelerates (increment_attestation_count s i t) c = content_accelerates s c"
  by (simp add: content_accelerates_def)

text \<open>A node that knows the author of a content, with what it holds of his reputation.\<close>

definition knows_author :: "spam_node \<Rightarrow> hash32 \<Rightarrow> hash32 \<Rightarrow> poster_reputation \<Rightarrow> bool" where
  "knows_author n c author r \<longleftrightarrow>
     spam_ok (sn_spam n) \<and> is_hash author \<and> (\<exists>f. sn_authors n = Some f \<and> f c = Some author) \<and>
     (\<exists>reps. sn_reputations n = Some reps \<and> rep_store_ok reps \<and> rep_current reps author = r)"

lemma recorded_reputation:
  assumes "rep_store_ok reps" and "is_hash author"
  shows "rep_store_ok (snd (record_event reps author e))"
    "rep_current (snd (record_event reps author e)) author = apply_event e (rep_current reps author)"
  using record_event_correct [OF assms, of e] by (auto simp: rep_current_def)

lemma knows_author_flag:
  assumes "knows_author n c author r"
  shows "knows_author (record_spam_flag_for_content n c t) c author (receive_spam_flag t r)"
    "knows_author (record_counter_for_content n c t) c author (receive_counter t r)"
  using assms recorded_reputation [of _ author "SpamFlag t"] recorded_reputation [of _ author "FlagCountered t"]
  by (auto simp: knows_author_def record_spam_flag_for_content_def record_counter_for_content_def)

lemma knows_author_store:
  "knows_author n c author r \<Longrightarrow> spam_ok s \<Longrightarrow> knows_author (n\<lparr>sn_spam := s\<rparr>) c author r"
  by (auto simp: knows_author_def)

lemma handle_attestation_step:
  assumes n: "knows_author n (at_content_hash a) author r" and "typed_attestation a"
    and "\<not> has_attestation (sn_spam n) (at_content_hash a) (at_attester a)"
  shows "\<exists>n'. handle_spam_attestation n (attestation_to_bytes a) now = Some n' \<and>
    knows_author n' (at_content_hash a) author
      (if content_accelerates (sn_spam n') (at_content_hash a) \<and> \<not> content_accelerates (sn_spam n) (at_content_hash a)
       then receive_spam_flag now r else r) \<and>
    trees_of (sn_spam n') (at_content_hash a) = insert (at_attester a) (trees_of (sn_spam n) (at_content_hash a)) \<and>
    (\<forall>c. get_counter_state (sn_spam n') c = get_counter_state (sn_spam n) c) \<and>
    (\<forall>i. has_attestation (sn_spam n') (at_content_hash a) i \<longleftrightarrow> has_attestation (sn_spam n) (at_content_hash a) i \<or> i = at_attester a)"
proof -
  let ?v = "\<lparr>st_attestation = a, st_sponsor_tree_root = at_attester a, st_is_deduplicated = False\<rparr>" and ?c = "at_content_hash a"
  let ?s = "put_attestation (sn_spam n) ?v"
  have ok: "spam_ok (sn_spam n)" using n by (simp add: knows_author_def)
  have ok1: "spam_ok ?s" using put_attestation_ok [OF ok, of ?v] assms(2) by simp
  let ?n1 = "n\<lparr>sn_spam := ?s\<rparr>"
  define n2 where "n2 = (if content_accelerates ?s ?c \<and> \<not> content_accelerates (sn_spam n) ?c
    then record_spam_flag_for_content ?n1 ?c now else ?n1)"
  have n2: "sn_spam n2 = ?s" by (simp add: n2_def)
  have k2: "knows_author n2 ?c author (if content_accelerates ?s ?c \<and> \<not> content_accelerates (sn_spam n) ?c then receive_spam_flag now r else r)"
    using knows_author_flag(1) [OF knows_author_store [OF n ok1]] knows_author_store [OF n ok1] by (simp add: n2_def)
  define n' where "n' = n2\<lparr>sn_spam := increment_attestation_count ?s (at_attester a) now\<rparr>"
  have "handle_spam_attestation n (attestation_to_bytes a) now = Some n'"
    using attestation_bytes [OF assms(2), of "[]"] assms(3) n2 by (simp add: handle_spam_attestation_def Let_def n2_def n'_def)
  moreover have "trees_of ?s ?c = insert (at_attester a) (trees_of (sn_spam n) ?c)"
    using attestations_of_put [OF ok, of ?v ?c] assms(3) by (simp add: trees_of_def)
  moreover have "knows_author n' ?c author (if content_accelerates ?s ?c \<and> \<not> content_accelerates (sn_spam n) ?c then receive_spam_flag now r else r)"
    unfolding n'_def by (rule knows_author_store [OF k2]) (simp add: ok1)
  ultimately show ?thesis by (auto simp: n'_def trees_of_def has_attestation_put)
qed

lemma handle_counter_step:
  assumes n: "knows_author n (ct_content_hash ca) author r" and "typed_counter ca"
    and "\<not> cs_is_cleared (get_counter_state (sn_spam n) (ct_content_hash ca))"
  shows "\<exists>n'. handle_counter_attestation n (counter_to_bytes ca) = Some n' \<and>
    knows_author n' (ct_content_hash ca) author
      (if cs_is_cleared (get_counter_state (sn_spam n') (ct_content_hash ca)) then receive_counter (ct_timestamp ca) r else r) \<and>
    set (cs_counter_attesters (get_counter_state (sn_spam n') (ct_content_hash ca))) =
      insert (ct_counter_attester ca) (set (cs_counter_attesters (get_counter_state (sn_spam n) (ct_content_hash ca))))"
proof -
  let ?c = "ct_content_hash ca"
  obtain x st' where add: "add_counter_attester (get_counter_state (sn_spam n) ?c) (ct_counter_attester ca) (ct_timestamp ca) = (x, st')"
    by fastforce
  have ok: "spam_ok (sn_spam n)" using n by (simp add: knows_author_def)
  note cs = counter_state_ok [OF ok, of ?c]
  note a = add_counter_attester_ok [OF cs [THEN conjunct1] add]
  let ?n1 = "n\<lparr>sn_spam := put_counter_state (sn_spam n) st'\<rparr>"
  have k1: "knows_author ?n1 ?c author r" by (rule knows_author_store [OF n put_counter_ok [OF ok a(1)]])
  have x: "x = cs_is_cleared st'" using a(3) assms(3) by simp
  have "handle_counter_attestation n (counter_to_bytes ca) = Some (if x then record_counter_for_content ?n1 ?c (ct_timestamp ca) else ?n1)"
    using counter_bytes [OF assms(2), of "[]"] assms(3) add by (simp add: handle_counter_attestation_def Let_def)
  then show ?thesis using k1 knows_author_flag(2) [OF k1] x a(2,5) cs by auto
qed

text \<open>A sequence of messages of peers.\<close>

primrec deliver_all :: "(spam_node \<Rightarrow> 'm \<Rightarrow> spam_node option) \<Rightarrow> spam_node \<Rightarrow> 'm list \<Rightarrow> spam_node option" where
  "deliver_all f n [] = Some n"
| "deliver_all f n (m # ms) = Option.bind (f n m) (\<lambda>n'. deliver_all f n' ms)"

lemma deliver_attestations:
  assumes "knows_author n c author r" and "\<forall>a \<in> set as. typed_attestation a \<and> at_content_hash a = c"
    and "distinct (map at_attester as)" and "\<forall>a \<in> set as. \<not> has_attestation (sn_spam n) c (at_attester a)"
    and "\<not> cs_is_cleared (get_counter_state (sn_spam n) c)" and "is_hash c"
    and "card (trees_of (sn_spam n) c) + length as \<le> 3" and "at_attester ` set as \<inter> trees_of (sn_spam n) c = {}"
    and "finite (trees_of (sn_spam n) c)"
  shows "\<exists>n'. deliver_all (\<lambda>n a. handle_spam_attestation n (attestation_to_bytes a) now) n as = Some n' \<and>
    knows_author n' c author (if card (trees_of (sn_spam n) c) < 3 \<and> card (trees_of (sn_spam n) c) + length as = 3 then receive_spam_flag now r else r) \<and>
    card (trees_of (sn_spam n') c) = card (trees_of (sn_spam n) c) + length as \<and>
    (\<forall>k. get_counter_state (sn_spam n') k = get_counter_state (sn_spam n) k)"
  using assms
proof (induction as arbitrary: n r)
  case (Cons a as)
  let ?t = "trees_of (sn_spam n) c"
  have a: "typed_attestation a" "at_content_hash a = c" "\<not> has_attestation (sn_spam n) c (at_attester a)" using Cons.prems by auto
  from handle_attestation_step [of n a author r now] Cons.prems(1) a obtain n1 where
    n1: "handle_spam_attestation n (attestation_to_bytes a) now = Some n1"
    and k1: "knows_author n1 c author (if content_accelerates (sn_spam n1) c \<and> \<not> content_accelerates (sn_spam n) c then receive_spam_flag now r else r)"
    and t1: "trees_of (sn_spam n1) c = insert (at_attester a) ?t"
    and c1: "\<forall>c. get_counter_state (sn_spam n1) c = get_counter_state (sn_spam n) c"
    and h1: "\<forall>i. has_attestation (sn_spam n1) c i \<longleftrightarrow> has_attestation (sn_spam n) c i \<or> i = at_attester a" by auto
  have ok: "spam_ok (sn_spam n)" "spam_ok (sn_spam n1)" using Cons.prems(1) k1 by (simp_all add: knows_author_def)
  have card: "card (insert (at_attester a) ?t) = Suc (card ?t)" using Cons.prems(8,9) by simp
  have acc: "content_accelerates (sn_spam n1) c \<and> \<not> content_accelerates (sn_spam n) c \<longleftrightarrow> card ?t = 2"
    using content_accelerates_iff [OF ok(1)] content_accelerates_iff [OF ok(2)] Cons.prems(5-7) c1 t1 card by auto
  have "at_attester a \<notin> at_attester ` set as" using Cons.prems(3) by simp
  then have dis: "at_attester ` set as \<inter> trees_of (sn_spam n1) c = {}" using Cons.prems(8) t1 by auto
  define r1 where "r1 = (if card ?t = 2 then receive_spam_flag now r else r)"
  have IH: "\<exists>n'. deliver_all (\<lambda>n a. handle_spam_attestation n (attestation_to_bytes a) now) n1 as = Some n' \<and>
    knows_author n' c author (if card (trees_of (sn_spam n1) c) < 3 \<and> card (trees_of (sn_spam n1) c) + length as = 3
      then receive_spam_flag now r1 else r1) \<and>
    card (trees_of (sn_spam n') c) = card (trees_of (sn_spam n1) c) + length as \<and>
    (\<forall>k. get_counter_state (sn_spam n') k = get_counter_state (sn_spam n1) k)"
  proof (rule Cons.IH)
    show "knows_author n1 c author r1" using k1 acc by (simp add: r1_def)
    show "\<forall>a \<in> set as. \<not> has_attestation (sn_spam n1) c (at_attester a)"
      using h1 Cons.prems(4) \<open>at_attester a \<notin> at_attester ` set as\<close> by (metis imageI list.set_intros(2))
    show "card (trees_of (sn_spam n1) c) + length as \<le> 3" using Cons.prems(7) t1 card by simp
    show "finite (trees_of (sn_spam n1) c)" using Cons.prems(9) t1 by simp
  qed (use Cons.prems c1 dis in simp_all)
  show ?case
  proof (cases "card ?t = 2")
    case True
    then have "as = []" using Cons.prems(7) by simp
    then show ?thesis using n1 k1 acc True t1 card c1 by simp
  next
    case False
    then have "r1 = r" "card (trees_of (sn_spam n1) c) < 3 \<longleftrightarrow> card ?t < 3"
      using Cons.prems(7) t1 card by (simp_all add: r1_def)
    with IH n1 t1 card c1 show ?thesis by auto
  qed
qed auto

lemma deliver_counters:
  assumes "knows_author n c author r" and "\<forall>a \<in> set cas. typed_counter a \<and> ct_content_hash a = c"
    and "distinct (map ct_counter_attester cas)" and "cas \<noteq> []"
    and "ct_counter_attester ` set cas \<inter> set (cs_counter_attesters (get_counter_state (sn_spam n) c)) = {}"
    and "length (cs_counter_attesters (get_counter_state (sn_spam n) c)) + length cas = 5"
  shows "\<exists>n'. deliver_all (\<lambda>n a. handle_counter_attestation n (counter_to_bytes a)) n cas = Some n' \<and>
    knows_author n' c author (receive_counter (ct_timestamp (last cas)) r) \<and> cs_is_cleared (get_counter_state (sn_spam n') c)"
  using assms
proof (induction cas arbitrary: n r)
  case (Cons a cas)
  note prems = Cons.prems and IH = Cons.IH
  let ?l = "cs_counter_attesters (get_counter_state (sn_spam n) c)"
  have ok: "spam_ok (sn_spam n)" using Cons.prems(1) by (simp add: knows_author_def)
  have nc: "\<not> cs_is_cleared (get_counter_state (sn_spam n) c)" using counter_state_ok [OF ok, of c] Cons.prems(6) by (simp add: counter_ok_def)
  from handle_counter_step [of n a author r] Cons.prems(1,2) nc obtain n1 where
    n1: "handle_counter_attestation n (counter_to_bytes a) = Some n1"
    and k1: "knows_author n1 c author (if cs_is_cleared (get_counter_state (sn_spam n1) c) then receive_counter (ct_timestamp a) r else r)"
    and s1: "set (cs_counter_attesters (get_counter_state (sn_spam n1) c)) = insert (ct_counter_attester a) (set ?l)" by auto
  have ok1: "spam_ok (sn_spam n1)" using k1 by (simp add: knows_author_def)
  note d = counter_state_ok [OF ok, of c] counter_state_ok [OF ok1, of c]
  have "card (insert (ct_counter_attester a) (set ?l)) = Suc (length ?l)"
    using Cons.prems(5) d(1) by (simp add: counter_ok_def distinct_card)
  then have len: "length (cs_counter_attesters (get_counter_state (sn_spam n1) c)) = Suc (length ?l)"
    using d(2) s1 distinct_card [of "cs_counter_attesters (get_counter_state (sn_spam n1) c)"] by (simp add: counter_ok_def)
  show ?case
  proof (cases cas)
    case Nil
    then have "cs_is_cleared (get_counter_state (sn_spam n1) c)" using d(2) len Cons.prems(6) by (simp add: counter_ok_def)
    then show ?thesis using Nil n1 k1 by simp
  next
    case (Cons b l)
    then have "\<not> cs_is_cleared (get_counter_state (sn_spam n1) c)" using d(2) len prems(6) by (simp add: counter_ok_def)
    moreover have "ct_counter_attester ` set cas \<inter> set (cs_counter_attesters (get_counter_state (sn_spam n1) c)) = {}"
      using prems(3,5) s1 by auto
    moreover have "\<forall>a \<in> set cas. typed_counter a \<and> ct_content_hash a = c" "distinct (map ct_counter_attester cas)" "cas \<noteq> []"
      "length (cs_counter_attesters (get_counter_state (sn_spam n1) c)) + length cas = 5"
      using prems(2,3,6) len \<open>cas = b # l\<close> by simp_all
    ultimately show ?thesis using IH [of n1 r] k1 n1 by simp
  qed
qed simp

text \<open>
  Peers flag, clear and reward at will. Whatever the signatures: three messages with three keys of the sender's
  choice flag any content and count as a spam flag against its author; five more clear it, and leave the
  author with a score that is five points higher than before.
\<close>

theorem peers_flag_and_reward:
  assumes n: "knows_author n c author r" and c: "is_hash c"
    and none: "attestations_of (sn_spam n) c = {}" "cs_counter_attesters (get_counter_state (sn_spam n) c) = []"
      "\<forall>i. \<not> has_attestation (sn_spam n) c i"
    and as: "\<forall>a \<in> set as. typed_attestation a \<and> at_content_hash a = c" "distinct (map at_attester as)" "length as = 3"
    and cas: "\<forall>a \<in> set cas. typed_counter a \<and> ct_content_hash a = c" "distinct (map ct_counter_attester cas)" "length cas = 5"
    and small: "small_counts r" "uint (pr_spam_flags_countered r) < 1000000" "uint (pr_spam_flags_received r) < 1000000"
  shows "\<exists>n1 n2. deliver_all (\<lambda>n a. handle_spam_attestation n (attestation_to_bytes a) now) n as = Some n1 \<and>
    content_accelerates (sn_spam n1) c \<and> knows_author n1 c author (receive_spam_flag now r) \<and>
    deliver_all (\<lambda>n a. handle_counter_attestation n (counter_to_bytes a)) n1 cas = Some n2 \<and>
    \<not> content_accelerates (sn_spam n2) c \<and>
    (\<exists>r'. knows_author n2 c author r' \<and> pr_cached_score r' = max (raw_score r 0 + 5) (- 1000))"
proof -
  have ok: "spam_ok (sn_spam n)" using n by (simp add: knows_author_def)
  have t0: "trees_of (sn_spam n) c = {}" by (simp add: trees_of_def none(1))
  have nc: "\<not> cs_is_cleared (get_counter_state (sn_spam n) c)" using counter_state_ok [OF ok, of c] none(2) by (simp add: counter_ok_def)
  from deliver_attestations [OF n as(1,2), of now] none(3) nc c t0 as(3) obtain n1 where
    n1: "deliver_all (\<lambda>n a. handle_spam_attestation n (attestation_to_bytes a) now) n as = Some n1"
      "knows_author n1 c author (receive_spam_flag now r)" "card (trees_of (sn_spam n1) c) = 3"
      "\<forall>k. get_counter_state (sn_spam n1) k = get_counter_state (sn_spam n) k" by auto
  have ok1: "spam_ok (sn_spam n1)" using n1(2) by (simp add: knows_author_def)
  have acc: "content_accelerates (sn_spam n1) c" using content_accelerates_iff [OF ok1 c] n1(3,4) nc by simp
  have "cas \<noteq> []" using cas(3) by auto
  from deliver_counters [OF n1(2) cas(1,2) this] none(2) n1(4) cas(3) obtain n2 where
    n2: "deliver_all (\<lambda>n a. handle_counter_attestation n (counter_to_bytes a)) n1 cas = Some n2"
      "knows_author n2 c author (receive_counter (ct_timestamp (last cas)) (receive_spam_flag now r))"
      "cs_is_cleared (get_counter_state (sn_spam n2) c)" by auto
  have "spam_ok (sn_spam n2)" using n2(2) by (simp add: knows_author_def)
  then have "\<not> content_accelerates (sn_spam n2) c" using content_accelerates_iff c n2(3) by blast
  moreover have "pr_cached_score (receive_counter t (receive_spam_flag now r)) = max (raw_score r 0 + 5) (- 1000)" for t
  proof -
    let ?r1 = "receive_spam_flag now r"
    let ?r2 = "?r1\<lparr>pr_spam_flags_countered := u32_sat_succ (pr_spam_flags_countered ?r1), pr_last_counter_success_at := t\<rparr>"
    have f: "uint (u32_sat_succ (pr_spam_flags_countered r)) = uint (pr_spam_flags_countered r) + 1"
      "uint (u32_sat_succ (pr_spam_flags_received r)) = uint (pr_spam_flags_received r) + 1"
      using small(2,3) by (simp_all add: uint_sat_succ)
    have "small_counts ?r2" using small f by (simp add: small_counts_def receive_spam_flag_def recalculate_score_def)
    moreover have "raw_score ?r2 0 = raw_score r 0 + 5" using f by (simp add: raw_score_def receive_spam_flag_def recalculate_score_def)
    ultimately show ?thesis using score_raw [of ?r2 0] by (simp add: receive_counter_def recalculate_score_def)
  qed
  ultimately show ?thesis using n1(1,2) n2(1,2) acc by blast
qed

definition sample_spam_node :: spam_node where
  "sample_spam_node = \<lparr>sn_spam = sa_empty, sn_reputations = Some [], sn_authors = Some (\<lambda>_. Some zero32), sn_sponsorship = None\<rparr>"

theorem peers_flag_and_reward_witness:
  "\<exists>n1 n2 r'. deliver_all (\<lambda>n a. handle_spam_attestation n (attestation_to_bytes a) 50) sample_spam_node (map sample_attestation [1, 2, 3]) = Some n1 \<and>
     content_accelerates (sn_spam n1) (replicate 32 9) \<and>
     deliver_all (\<lambda>n a. handle_counter_attestation n (counter_to_bytes a)) n1 (map sample_counter [1, 2, 3, 4, 5]) = Some n2 \<and>
     knows_author n2 (replicate 32 9) zero32 r' \<and> pr_cached_score r' = 105"
proof -
  have r: "rep_current [] zero32 = rep_new zero32" by (simp add: rep_current_def rep_get_def)
  have n: "knows_author sample_spam_node (replicate 32 9) zero32 (rep_new zero32)"
    by (simp add: knows_author_def sample_spam_node_def spam_ok_empty is_hash_def zero32_def rep_store_ok_def r [unfolded zero32_def])
  have c: "at_content_hash (sample_attestation k) = replicate 32 9" "ct_content_hash (sample_counter k) = replicate 32 9"
    "at_attester (sample_attestation k) = replicate 32 k" "ct_counter_attester (sample_counter k) = replicate 32 k" for k
    by (simp_all add: sample_attestation_def sample_counter_def)
  have "raw_score (rep_new zero32) 0 = 100" "small_counts (rep_new zero32)" by (simp_all add: raw_score_def small_counts_def rep_new_def)
  moreover have "is_hash (replicate 32 9)" "attestations_of (sn_spam sample_spam_node) (replicate 32 9) = {}"
    "cs_counter_attesters (get_counter_state (sn_spam sample_spam_node) (replicate 32 9)) = []"
    "\<forall>i. \<not> has_attestation (sn_spam sample_spam_node) (replicate 32 9) i"
    by (simp_all add: is_hash_def sample_spam_node_def sa_empty_def attestations_of_def has_attestation_def get_counter_state_def counter_empty_def)
  moreover have "\<forall>a \<in> set (map sample_attestation [1, 2, 3]). typed_attestation a \<and> at_content_hash a = replicate 32 9"
    "distinct (map at_attester (map sample_attestation [1, 2, 3]))" "length (map sample_attestation [1, 2, 3]) = 3"
    "\<forall>a \<in> set (map sample_counter [1, 2, 3, 4, 5]). typed_counter a \<and> ct_content_hash a = replicate 32 9"
    "distinct (map ct_counter_attester (map sample_counter [1, 2, 3, 4, 5]))" "length (map sample_counter [1, 2, 3, 4, 5]) = 5"
    by (simp_all add: c sample_attestation_typed replicate_eq_replicate)
  moreover have "uint (pr_spam_flags_countered (rep_new zero32)) < 1000000" "uint (pr_spam_flags_received (rep_new zero32)) < 1000000"
    by (simp_all add: rep_new_def)
  ultimately have "\<exists>n1 n2. deliver_all (\<lambda>n a. handle_spam_attestation n (attestation_to_bytes a) 50) sample_spam_node (map sample_attestation [1, 2, 3]) = Some n1 \<and>
    content_accelerates (sn_spam n1) (replicate 32 9) \<and> knows_author n1 (replicate 32 9) zero32 (receive_spam_flag 50 (rep_new zero32)) \<and>
    deliver_all (\<lambda>n a. handle_counter_attestation n (counter_to_bytes a)) n1 (map sample_counter [1, 2, 3, 4, 5]) = Some n2 \<and>
    \<not> content_accelerates (sn_spam n2) (replicate 32 9) \<and>
    (\<exists>r'. knows_author n2 (replicate 32 9) zero32 r' \<and> pr_cached_score r' = max (raw_score (rep_new zero32) 0 + 5) (- 1000))"
    by (intro peers_flag_and_reward [OF n])
  then show ?thesis unfolding \<open>raw_score (rep_new zero32) 0 = 100\<close> by auto
qed

subsection \<open>The local API\<close>

lemma threshold_accelerates:
  "(SPAM_ATTESTATION_THRESHOLD \<le> ag_unique_tree_count (aggregate_attestations as cleared) \<and> \<not> cleared) =
     ag_should_accelerate_decay (aggregate_attestations as cleared)"
  by (simp add: aggregate_attestations_def aggregation_empty_def Let_def spam_consts word_le_nat_alt)

lemma api_submit_accepted:
  assumes "check_attester_eligibility k = Inr ()" "validate_attestation sha verify a now author = Inr ()"
    "find_sponsor_tree_root sponsor_of (at_attester a) = Some tree"
    and "s1 = put_attestation s \<lparr>st_attestation = a, st_sponsor_tree_root = tree, st_is_deduplicated = False\<rparr>"
  shows "api_submit_spam_attestation sha verify sponsor_of (s, rep) a author k now =
    (Inr (content_accelerates s1 (at_content_hash a)), s1,
     if content_accelerates s1 (at_content_hash a) then snd (record_spam_flag rep author now) else rep)"
  using assms by (simp add: api_submit_spam_attestation_def Let_def threshold_accelerates content_accelerates_def)

lemma api_submit_cases:
  "(\<exists>b. fst (api_submit_spam_attestation sha verify sponsor_of (s, rep) a author k now) = Inr b) \<longleftrightarrow>
     check_attester_eligibility k = Inr () \<and> validate_attestation sha verify a now author = Inr () \<and>
     find_sponsor_tree_root sponsor_of (at_attester a) \<noteq> None"
  "\<nexists>b. fst (api_submit_spam_attestation sha verify sponsor_of (s, rep) a author k now) = Inr b \<Longrightarrow>
     snd (api_submit_spam_attestation sha verify sponsor_of (s, rep) a author k now) = (s, rep)"
proof -
  consider (1) e where "check_attester_eligibility k = Inl e"
    | (2) e where "check_attester_eligibility k = Inr ()" "validate_attestation sha verify a now author = Inl e"
    | (3) "check_attester_eligibility k = Inr ()" "validate_attestation sha verify a now author = Inr ()"
        "find_sponsor_tree_root sponsor_of (at_attester a) = None"
    | (4) tree where "check_attester_eligibility k = Inr ()" "validate_attestation sha verify a now author = Inr ()"
        "find_sponsor_tree_root sponsor_of (at_attester a) = Some tree"
    by (metis (full_types) obj_sumE old.unit.exhaust option.exhaust)
  then have "((\<exists>b. fst (api_submit_spam_attestation sha verify sponsor_of (s, rep) a author k now) = Inr b) \<longleftrightarrow>
      check_attester_eligibility k = Inr () \<and> validate_attestation sha verify a now author = Inr () \<and>
      find_sponsor_tree_root sponsor_of (at_attester a) \<noteq> None) \<and>
    ((\<nexists>b. fst (api_submit_spam_attestation sha verify sponsor_of (s, rep) a author k now) = Inr b) \<longrightarrow>
      snd (api_submit_spam_attestation sha verify sponsor_of (s, rep) a author k now) = (s, rep))"
  proof cases
    case (4 tree)
    then show ?thesis by (simp add: api_submit_accepted [OF 4 refl])
  qed (simp_all add: api_submit_spam_attestation_def)
  then show "(\<exists>b. fst (api_submit_spam_attestation sha verify sponsor_of (s, rep) a author k now) = Inr b) \<longleftrightarrow>
      check_attester_eligibility k = Inr () \<and> validate_attestation sha verify a now author = Inr () \<and>
      find_sponsor_tree_root sponsor_of (at_attester a) \<noteq> None"
    "\<nexists>b. fst (api_submit_spam_attestation sha verify sponsor_of (s, rep) a author k now) = Inr b \<Longrightarrow>
      snd (api_submit_spam_attestation sha verify sponsor_of (s, rep) a author k now) = (s, rep)" by blast+
qed


text \<open>
  An attestation that flags content may be submitted again, and each time the author is charged with one more flag.
\<close>

theorem api_charges_again:
  assumes "api_submit_spam_attestation sha verify sponsor_of (s, rep) a author k now = (Inr True, s1, rep1)"
    and "spam_ok s" and "typed_attestation a" and "rep_store_ok rep1" and "is_hash author"
  shows "\<exists>s2 rep2. api_submit_spam_attestation sha verify sponsor_of (s1, rep1) a author k now = (Inr True, s2, rep2) \<and>
    rep_current rep2 author = receive_spam_flag now (rep_current rep1 author)"
proof -
  have "\<exists>b. fst (api_submit_spam_attestation sha verify sponsor_of (s, rep) a author k now) = Inr b" unfolding assms(1) by (intro exI [of _ True]) simp
  then obtain tree where tree: "check_attester_eligibility k = Inr ()" "validate_attestation sha verify a now author = Inr ()"
    "find_sponsor_tree_root sponsor_of (at_attester a) = Some tree"
    unfolding api_submit_cases(1) by auto
  from api_submit_accepted [OF this refl, of s rep] assms(1)
  have s1: "s1 = put_attestation s \<lparr>st_attestation = a, st_sponsor_tree_root = tree, st_is_deduplicated = False\<rparr>"
    and acc: "content_accelerates s1 (at_content_hash a)" by auto
  let ?v = "\<lparr>st_attestation = a, st_sponsor_tree_root = tree, st_is_deduplicated = False\<rparr>" and ?c = "at_content_hash a"
  have ok1: "spam_ok s1" using put_attestation_ok [OF assms(2), of ?v] assms(3) s1 by simp
  have ok2: "spam_ok (put_attestation s1 ?v)" using put_attestation_ok [OF ok1, of ?v] assms(3) by simp
  have c: "is_hash ?c" using assms(3) by (simp add: typed_attestation_def)
  have "attestations_of (put_attestation s1 ?v) ?c = attestations_of s1 ?c"
    by (auto simp: attestations_of_def s1 put_attestation_def)
  then have acc2: "content_accelerates (put_attestation s1 ?v) ?c"
    using acc content_accelerates_iff [OF ok1 c] content_accelerates_iff [OF ok2 c] by (simp add: trees_of_def)
  then have "api_submit_spam_attestation sha verify sponsor_of (s1, rep1) a author k now =
      (Inr True, put_attestation s1 ?v, snd (record_spam_flag rep1 author now))"
    using api_submit_accepted [OF tree refl, of s1 rep1] by simp
  moreover have "rep_current (snd (record_spam_flag rep1 author now)) author = receive_spam_flag now (rep_current rep1 author)"
    using recorded_reputation(2) [OF assms(4,5), of "SpamFlag now"] by simp
  ultimately show ?thesis by blast
qed

subsection \<open>Examples\<close>

lemma deliver_steps:
  assumes "\<And>n m n'. f n m = Some n' \<Longrightarrow> spam_step n n'" and "deliver_all f n ms = Some n'"
  shows "spam_step\<^sup>*\<^sup>* n n'"
  using assms(2)
proof (induction ms arbitrary: n)
  case (Cons m ms)
  then obtain n1 where "f n m = Some n1" "spam_step\<^sup>*\<^sup>* n1 n'" by (auto simp: bind_eq_Some_conv)
  then show ?case using assms(1) by (meson converse_rtranclp_into_rtranclp)
qed simp

lemma steps_evolve: "spam_step\<^sup>*\<^sup>* n n' \<Longrightarrow> spam_evolves n n'"
  unfolding spam_evolves_def by (erule rtranclp_mono [THEN predicate2D, rotated]) blast

lemma sample_knows: "knows_author sample_spam_node (replicate 32 9) zero32 (rep_new zero32)"
proof -
  have "rep_current [] zero32 = rep_new zero32" by (simp add: rep_current_def rep_get_def)
  then show ?thesis
    by (simp add: knows_author_def sample_spam_node_def spam_ok_empty is_hash_def zero32_def rep_store_ok_def)
qed

lemma sample_flagged:
  obtains n where "spam_step\<^sup>*\<^sup>* sample_spam_node n" "card (trees_of (sn_spam n) (replicate 32 9)) = 3"
    "\<not> cs_is_cleared (get_counter_state (sn_spam n) (replicate 32 9))"
proof -
  have "\<exists>n'. deliver_all (\<lambda>n a. handle_spam_attestation n (attestation_to_bytes a) 50) sample_spam_node (map sample_attestation [1, 2, 3]) = Some n' \<and>
    knows_author n' (replicate 32 9) zero32 (if card (trees_of (sn_spam sample_spam_node) (replicate 32 9)) < 3 \<and>
      card (trees_of (sn_spam sample_spam_node) (replicate 32 9)) + length (map sample_attestation [1, 2, 3]) = 3
      then receive_spam_flag 50 (rep_new zero32) else rep_new zero32) \<and>
    card (trees_of (sn_spam n') (replicate 32 9)) =
      card (trees_of (sn_spam sample_spam_node) (replicate 32 9)) + length (map sample_attestation [1, 2, 3]) \<and>
    (\<forall>k. get_counter_state (sn_spam n') k = get_counter_state (sn_spam sample_spam_node) k)"
    by (rule deliver_attestations [OF sample_knows])
      (simp_all add: sample_attestation_typed sample_attestation_def [of 1] sample_attestation_def [of 2] sample_attestation_def [of 3] typed_attestation_def
        replicate_eq_replicate sample_spam_node_def sa_empty_def has_attestation_def get_counter_state_def counter_empty_def is_hash_def
        trees_of_def attestations_of_def)
  then obtain n' where n': "deliver_all (\<lambda>n a. handle_spam_attestation n (attestation_to_bytes a) 50) sample_spam_node (map sample_attestation [1, 2, 3]) = Some n'"
    "card (trees_of (sn_spam n') (replicate 32 9)) = card (trees_of (sn_spam sample_spam_node) (replicate 32 9)) + 3"
    "\<forall>k. get_counter_state (sn_spam n') k = get_counter_state (sn_spam sample_spam_node) k" by auto
  have "spam_step\<^sup>*\<^sup>* sample_spam_node n'" by (rule deliver_steps [OF _ n'(1)]) (rule network_attestation)
  then show ?thesis using n'(2,3)
    by (intro that [of n']) (simp_all add: trees_of_def attestations_of_def sample_spam_node_def sa_empty_def get_counter_state_def counter_empty_def)
qed


theorem cleared_stays_cleared_witness:
  "\<exists>n. spam_step\<^sup>*\<^sup>* sample_spam_node n \<and> cs_is_cleared (get_counter_state (sn_spam n) (replicate 32 9)) \<and>
     replicate 32 9 \<notin> set (get_flagged_content (sn_spam n))"
proof -
  have "\<exists>n'. deliver_all (\<lambda>n a. handle_counter_attestation n (counter_to_bytes a)) sample_spam_node (map sample_counter [1, 2, 3, 4, 5]) = Some n' \<and>
    knows_author n' (replicate 32 9) zero32 (receive_counter (ct_timestamp (last (map sample_counter [1, 2, 3, 4, 5]))) (rep_new zero32)) \<and>
    cs_is_cleared (get_counter_state (sn_spam n') (replicate 32 9))"
    by (rule deliver_counters [OF sample_knows])
      (simp_all add: sample_counter_def typed_counter_def is_hash_def replicate_eq_replicate sample_spam_node_def sa_empty_def get_counter_state_def
        counter_empty_def)
  then obtain n' where n': "deliver_all (\<lambda>n a. handle_counter_attestation n (counter_to_bytes a)) sample_spam_node (map sample_counter [1, 2, 3, 4, 5]) = Some n'"
    "cs_is_cleared (get_counter_state (sn_spam n') (replicate 32 9))" by blast
  have s: "spam_step\<^sup>*\<^sup>* sample_spam_node n'" by (rule deliver_steps [OF _ n'(1)]) (rule network_counter)
  have "sn_spam sample_spam_node = sa_empty" by (simp add: sample_spam_node_def)
  from cleared_stays_cleared [OF steps_evolve [OF s] this rtranclp.rtrancl_refl, of "replicate 32 9"] s n'(2)
  show ?thesis by (auto simp: is_hash_def)
qed

definition sample_stored :: "byte \<Rightarrow> stored_attestation" where
  "sample_stored k = \<lparr>st_attestation = sample_attestation k, st_sponsor_tree_root = replicate 32 k, st_is_deduplicated = False\<rparr>"

theorem weighting_only_harder_witness:
  "ag_should_accelerate_decay (aggregate_attestations (map sample_stored [1, 2, 3]) False)"
proof (rule weighting_only_harder [where order = "\<lambda>xs. xs" and w = "\<lambda>_. 1"])
  have "f64_round 3 = 3" by (rule f64_round_numeral) simp
  then show "ag_should_accelerate_decay (aggregate_attestations_weighted (\<lambda>xs. xs) (map sample_stored [1, 2, 3]) False (\<lambda>_. 1))"
    by (simp add: aggregate_attestations_weighted_def note_weight_def sample_stored_def Let_def spam_consts replicate_eq_replicate)
  have "card (st_sponsor_tree_root ` set (map sample_stored [1, 2, 3])) \<le> length (map sample_stored [1, 2, 3])"
    by (rule order_trans [OF card_image_le card_length]) simp
  also have "\<dots> < 256" by simp
  finally show "card (st_sponsor_tree_root ` set (map sample_stored [1, 2, 3])) < 256" .
qed simp_all

definition sample_sha :: "bytes \<Rightarrow> hash32" where "sample_sha x = 0 # 1 # replicate 30 1"


end
