(* ===== verification/Content_Decay.thy ===== *)
theory Content_Decay
  imports Ieee_Round Reputation
begin

text \<open>
  The decay of content (\<open>src/content/decay.rs\<close>), engagement with it (\<open>src/content/engagement.rs\<close>) and the
  types of \<open>src/types/content.rs\<close> that they work on. Content is safe for two days; after that its chance of
  survival halves with every half-life since the last engagement, and below one sixteenth it has decayed. The
  half-life adapts to the storage in use. The power function of the platform is a parameter; all other
  operations on \<open>f64\<close> are rounded as the standard says. A division by zero is an infinity or NaN, and
  those are values of the model here.
\<close>

subsection \<open>Values of \<open>f64\<close> that are not finite\<close>

datatype f64 = Finite rat | Infinite | NaN

definition f64_div :: "rat \<Rightarrow> rat \<Rightarrow> f64" where
  "f64_div x y = (if y = 0 then if x = 0 then NaN else Infinite else Finite (f64_round (x / y)))"

definition f64_below :: "f64 \<Rightarrow> rat \<Rightarrow> bool" where
  "f64_below x y = (case x of Finite q \<Rightarrow> q < y | _ \<Rightarrow> False)"

text \<open>\<open>clamp\<close> is \<open>x.max(low).min(high)\<close>, where \<open>max\<close> drops a NaN.\<close>

definition f64_clamp :: "f64 \<Rightarrow> rat \<Rightarrow> rat \<Rightarrow> rat" where
  "f64_clamp x low high = (case x of Finite q \<Rightarrow> min (max q low) high | Infinite \<Rightarrow> high | NaN \<Rightarrow> min low high)"

text \<open>\<open>0.5.powf(x)\<close>, from the power of finite numbers.\<close>

definition half_powf :: "(rat \<Rightarrow> rat) \<Rightarrow> f64 \<Rightarrow> f64" where
  "half_powf P x = (case x of Finite q \<Rightarrow> Finite (P q) | Infinite \<Rightarrow> Finite 0 | NaN \<Rightarrow> NaN)"

text \<open>\<open>round\<close> takes halves away from zero.\<close>

definition round_half_away :: "rat \<Rightarrow> int" where
  "round_half_away x = (if x < 0 then - \<lfloor>- x + 1 / 2\<rfloor> else \<lfloor>x + 1 / 2\<rfloor>)"

subsection \<open>Content\<close>

definition INLINE_CONTENT_THRESHOLD :: nat where "INLINE_CONTENT_THRESHOLD = 1024"
definition DECAY_FLOOR_SECS :: u64 where "DECAY_FLOOR_SECS = 172800"
definition HALF_LIFE_SECS :: u64 where "HALF_LIFE_SECS = 604800"
definition DECAY_THRESHOLD :: rat where "DECAY_THRESHOLD = 1 / 16"
definition TARGET_STORAGE_BYTES :: u64 where "TARGET_STORAGE_BYTES = 524288000"
definition MIN_HALF_LIFE_SECS :: u64 where "MIN_HALF_LIFE_SECS = 86400"
definition MAX_HALF_LIFE_SECS :: u64 where "MAX_HALF_LIFE_SECS = 2592000"
definition ADAPTATION_SMOOTHING :: rat where "ADAPTATION_SMOOTHING = f64_round (1 / 10)"
definition PRUNE_GRACE_PERIOD_MS :: u64 where "PRUNE_GRACE_PERIOD_MS = 86400000"
definition ENGAGEMENT_FUTURE_TOLERANCE_MS :: u64 where "ENGAGEMENT_FUTURE_TOLERANCE_MS = 3600000"
definition FLAGGED_DECAY_HALF_LIFE_SECS :: u64 where "FLAGGED_DECAY_HALF_LIFE_SECS = 14400"

lemmas decay_constants =
  DECAY_FLOOR_SECS_def HALF_LIFE_SECS_def DECAY_THRESHOLD_def MIN_HALF_LIFE_SECS_def MAX_HALF_LIFE_SECS_def
  PRUNE_GRACE_PERIOD_MS_def FLAGGED_DECAY_HALF_LIFE_SECS_def

datatype content_type = PostContent | ReplyContent | QuoteContent | EditContent

datatype media_type = ImageJpeg | ImagePng | ImageGif | ImageWebp

record media_ref =
  me_media_hash :: hash32
  me_media_type :: media_type
  me_size_bytes :: u32
  me_inline_preview :: "bytes option"

datatype pin_type = AuthorPin | CommunityPin

record pin_state =
  ps_pin_type :: pin_type
  ps_pin_created :: u64
  ps_pin_expiry :: "u64 option"
  ps_pin_cost :: u64

record content_item =
  ci_content_id :: hash32
  ci_author_id :: hash32
  ci_content_type :: content_type
  ci_space_id :: hash32
  ci_parent_id :: "hash32 option"
  ci_created_at :: u64
  ci_last_engagement :: u64
  ci_body_inline :: "bytes option"
  ci_content_hash :: "hash32 option"
  ci_content_size :: "u32 option"
  ci_content_type_mime :: "bytes option"
  ci_media_refs :: "media_ref list"
  ci_pin_state :: "pin_state option"
  ci_engagement_count :: u32
  ci_signature :: bytes
  ci_pow_nonce :: u64
  ci_pow_difficulty :: byte
  ci_preservation_pow :: "u64 option"
  ci_display_name :: "bytes option"

record decay_state =
  ds_content_id :: hash32
  ds_age_seconds :: u64
  ds_time_since_engagement :: u64
  ds_half_lives_elapsed :: f64
  ds_survival_probability :: f64
  ds_is_decayed :: bool
  ds_is_protected :: bool

subsection \<open>The state of decay\<close>

definition calculate_decay_state :: "(rat \<Rightarrow> rat) \<Rightarrow> content_item \<Rightarrow> u64 \<Rightarrow> u64 \<Rightarrow> decay_state" where
  "calculate_decay_state P content current_time_ms half_life_secs =
     (let current_time_secs = current_time_ms div 1000;
          age_seconds = sat_sub current_time_secs (ci_created_at content div 1000);
          time_since_engagement = sat_sub current_time_secs (ci_last_engagement content div 1000);
          safe = \<lparr>ds_content_id = ci_content_id content, ds_age_seconds = age_seconds,
                  ds_time_since_engagement = time_since_engagement, ds_half_lives_elapsed = Finite 0,
                  ds_survival_probability = Finite 1, ds_is_decayed = False, ds_is_protected = True\<rparr>
      in if age_seconds < DECAY_FLOOR_SECS then safe
         else if (case ci_pin_state content of
                    None \<Rightarrow> False
                  | Some pin \<Rightarrow> (case ps_pin_expiry pin of None \<Rightarrow> True | Some expiry \<Rightarrow> current_time_ms < expiry))
         then safe
         else
           let effective_decay_time = sat_sub time_since_engagement DECAY_FLOOR_SECS;
               half_lives_elapsed = f64_div (u64_f64 effective_decay_time) (u64_f64 half_life_secs);
               survival_probability = half_powf P half_lives_elapsed
           in safe\<lparr>ds_half_lives_elapsed := half_lives_elapsed, ds_survival_probability := survival_probability,
                   ds_is_decayed := f64_below survival_probability DECAY_THRESHOLD, ds_is_protected := False\<rparr>)"

definition select_half_life :: "u64 \<Rightarrow> bool \<Rightarrow> u64" where
  "select_half_life base_half_life_secs is_spam_flagged =
     (if is_spam_flagged then FLAGGED_DECAY_HALF_LIFE_SECS else base_half_life_secs)"

definition calculate_decay_state_full :: "(rat \<Rightarrow> rat) \<Rightarrow> content_item \<Rightarrow> u64 \<Rightarrow> u64 \<Rightarrow> bool \<Rightarrow> decay_state" where
  "calculate_decay_state_full P content current_time_ms base_half_life_secs is_spam_flagged =
     calculate_decay_state P content current_time_ms (select_half_life base_half_life_secs is_spam_flagged)"

definition calculate_decay_state_spam_flagged :: "(rat \<Rightarrow> rat) \<Rightarrow> content_item \<Rightarrow> u64 \<Rightarrow> bool \<Rightarrow> decay_state" where
  "calculate_decay_state_spam_flagged P content current_time_ms is_spam_flagged =
     calculate_decay_state_full P content current_time_ms HALF_LIFE_SECS is_spam_flagged"

subsection \<open>The half-life\<close>

record node_state =
  ns_total_storage_bytes :: u64
  ns_target_storage_bytes :: u64
  ns_current_half_life_secs :: u64

definition calculate_adaptive_half_life :: "node_state \<Rightarrow> u64" where
  "calculate_adaptive_half_life st =
     (let current = u64_f64 (ns_current_half_life_secs st);
          pressure = f64_div (u64_f64 (ns_total_storage_bytes st)) (u64_f64 (ns_target_storage_bytes st));
          target_half_life =
            (case pressure of
               Finite p \<Rightarrow>
                 Finite (if p > 1 then f64_round (current / p)
                         else f64_round (current * f64_round (1 + f64_round (f64_round (1 - p) * (1 / 2)))))
             | Infinite \<Rightarrow> Finite 0
             | NaN \<Rightarrow> NaN);
          clamped = f64_clamp target_half_life (u64_f64 MIN_HALF_LIFE_SECS) (u64_f64 MAX_HALF_LIFE_SECS);
          smoothed = f64_signed (current + f64_signed (f64_signed (clamped - current) * ADAPTATION_SMOOTHING))
      in float_to_u64 (of_int (round_half_away smoothed)))"

subsection \<open>Engagement\<close>

datatype engagement_type = ReplyEngagement | QuoteEngagement | DirectEngagement

record engagement_record =
  er_content_id :: hash32
  er_engager_id :: hash32
  er_engagement_type :: engagement_type
  er_timestamp :: u64
  er_pow_nonce :: u64
  er_pow_work :: u64
  er_signature :: bytes
  er_emoji :: "byte option"

datatype engagement_rejection = ContentDecayed | InvalidPow | DuplicateEngagement | FutureTimestamp

datatype engagement_result = Accepted | Rejected engagement_rejection

definition process_engagement ::
  "(rat \<Rightarrow> rat) \<Rightarrow> content_item \<Rightarrow> engagement_record \<Rightarrow> u64 \<Rightarrow> u64 \<Rightarrow> engagement_result \<times> content_item" where
  "process_engagement P content engagement current_time_ms half_life_secs =
     (if er_timestamp engagement > sat_add current_time_ms ENGAGEMENT_FUTURE_TOLERANCE_MS
      then (Rejected FutureTimestamp, content)
      else if ds_is_decayed (calculate_decay_state P content current_time_ms half_life_secs)
      then (Rejected ContentDecayed, content)
      else
        let effective_timestamp = min (er_timestamp engagement) current_time_ms;
            engaged = content\<lparr>ci_engagement_count := u32_sat_succ (ci_engagement_count content),
                              ci_last_engagement := effective_timestamp\<rparr>
        in (case er_engagement_type engagement of
              ReplyEngagement \<Rightarrow> (Accepted, engaged)
            | QuoteEngagement \<Rightarrow> (Accepted, engaged)
            | DirectEngagement \<Rightarrow> (Accepted, engaged)))"

subsection \<open>The threshold\<close>

lemma f64_round_dyadic: "m < 2 ^ 53 \<Longrightarrow> f64_round (of_nat m / 2 ^ k) = of_nat m / 2 ^ k"
proof -
  assume "m < 2 ^ 53"
  then have "int m < 2 ^ 53" by simp
  then have "is_float 53 (of_nat m / 2 ^ k)"
    unfolding is_float_def by (intro exI [of _ "int m"] exI [of _ "- int k"]) (simp add: power_int_minus divide_inverse)
  then show ?thesis unfolding f64_round_def by (rule float_round_exact) simp
qed

lemma f64_round_near_4: "f64_round (4 + 1 / 2 ^ 30) = 4 + 1 / 2 ^ 30" "f64_round (4 - 1 / 2 ^ 30) = 4 - 1 / 2 ^ 30"
  using f64_round_dyadic [of "2 ^ 32 + 1" 30] f64_round_dyadic [of "2 ^ 32 - 1" 30] by simp_all

lemma u64_f64_small: "unat n < 2 ^ 53 \<Longrightarrow> u64_f64 n = of_nat (unat n)"
  unfolding u64_f64_def by (rule f64_round_nat)

lemma u64_f64_mono: "a \<le> b \<Longrightarrow> u64_f64 a \<le> u64_f64 b"
  unfolding u64_f64_def by (intro f64_round_mono of_nat_mono) (simp add: word_le_nat_alt)

text \<open>A pin protects until it expires.\<close>

definition pinned :: "content_item \<Rightarrow> u64 \<Rightarrow> bool" where
  "pinned c now \<longleftrightarrow> (\<exists>pin. ci_pin_state c = Some pin \<and> (\<forall>expiry. ps_pin_expiry pin = Some expiry \<longrightarrow> now < expiry))"

lemma decay_state_pin:
  "(case ci_pin_state c of None \<Rightarrow> False
     | Some pin \<Rightarrow> (case ps_pin_expiry pin of None \<Rightarrow> True | Some expiry \<Rightarrow> now < expiry)) = pinned c now"
  by (auto simp: pinned_def split: option.splits)

text \<open>
  The half-lives that have passed since the two days after the last engagement, and whether the power of one half
  that the platform returns for them is below the threshold. The precision of \<open>powf\<close> is unspecified in Rust
  and may differ from call to call, so nothing is assumed of it.
\<close>

definition half_lives :: "u64 \<Rightarrow> u64 \<Rightarrow> u64 \<Rightarrow> f64" where
  "half_lives engaged now h = f64_div (f64_round (of_nat (unat now div 1000 - unat engaged div 1000 - 172800))) (u64_f64 h)"

definition faded :: "(rat \<Rightarrow> rat) \<Rightarrow> u64 \<Rightarrow> u64 \<Rightarrow> u64 \<Rightarrow> bool" where
  "faded P engaged now h \<longleftrightarrow> f64_below (half_powf P (half_lives engaged now h)) (1 / 16)"

lemma decayed_iff:
  "ds_is_decayed (calculate_decay_state P c now h) \<longleftrightarrow>
    unat (ci_created_at c) div 1000 + 172800 \<le> unat now div 1000 \<and> \<not> pinned c now \<and> faded P (ci_last_engagement c) now h"
proof -
  have a: "sat_sub (now div 1000) (ci_created_at c div 1000) < DECAY_FLOOR_SECS \<longleftrightarrow>
      \<not> unat (ci_created_at c) div 1000 + 172800 \<le> unat now div 1000"
    by (simp add: word_less_nat_alt unat_sat_sub unat_div decay_constants) linarith
  have e: "unat (sat_sub (sat_sub (now div 1000) (ci_last_engagement c div 1000)) DECAY_FLOOR_SECS) =
      unat now div 1000 - unat (ci_last_engagement c) div 1000 - 172800"
    by (simp add: unat_sat_sub unat_div decay_constants)
  have "ds_is_decayed (calculate_decay_state P c now h) \<longleftrightarrow>
      \<not> sat_sub (now div 1000) (ci_created_at c div 1000) < DECAY_FLOOR_SECS \<and> \<not> pinned c now \<and> faded P (ci_last_engagement c) now h"
    unfolding calculate_decay_state_def Let_def decay_state_pin faded_def half_lives_def u64_f64_def e [symmetric]
    by (simp add: DECAY_THRESHOLD_def)
  then show ?thesis unfolding a by auto
qed

lemma faded_finite:
  assumes "0 < unat h" "unat h < 2 ^ 53"
  shows "faded P engaged now h \<longleftrightarrow>
    P (f64_round (f64_round (of_nat (unat now div 1000 - unat engaged div 1000 - 172800)) / of_nat (unat h))) < 1 / 16"
proof -
  have "(of_nat (unat h) :: rat) \<noteq> 0" using assms(1) by (simp only: of_nat_eq_0_iff)
  then show ?thesis
    unfolding faded_def half_lives_def f64_div_def u64_f64_small [OF assms(2)] half_powf_def f64_below_def by simp
qed

text \<open>Within two days of an engagement the exponent is zero, where every power is one.\<close>

lemma faded_recent:
  assumes "P 0 = 1" and "unat now div 1000 \<le> unat engaged div 1000 + 172800"
  shows "\<not> faded P engaged now h"
  using assms by (auto simp: faded_def half_lives_def f64_div_def half_powf_def f64_below_def f64_round_def float_round_def)

lemma protected_iff:
  "ds_is_protected (calculate_decay_state P c now h) \<longleftrightarrow>
    unat now div 1000 < unat (ci_created_at c) div 1000 + 172800 \<or> pinned c now"
proof -
  have "sat_sub (now div 1000) (ci_created_at c div 1000) < DECAY_FLOOR_SECS \<longleftrightarrow>
      unat now div 1000 < unat (ci_created_at c) div 1000 + 172800"
    by (simp add: word_less_nat_alt unat_sat_sub unat_div decay_constants) linarith
  then show ?thesis unfolding calculate_decay_state_def Let_def decay_state_pin by simp
qed

text \<open>A power function for examples: the power is cut off after 60 bits of its significand.\<close>

definition cut_pow :: "rat \<Rightarrow> rat" where
  "cut_pow x = of_int \<lfloor>2 powr (real (nat \<lceil>x\<rceil> + 60) - real_of_rat x)\<rfloor> / 2 ^ (nat \<lceil>x\<rceil> + 60)"

lemma cut_pow_0: "cut_pow 0 = 1"
proof -
  have "(2 :: real) powr 60 = of_int (2 ^ 60)" by (simp add: powr_numeral)
  then have "\<lfloor>(2 :: real) powr 60\<rfloor> = 2 ^ 60" by (simp only: floor_of_int)
  then show ?thesis by (simp add: cut_pow_def)
qed

lemma cut_pow_below: "cut_pow x < 1 / 16 \<longleftrightarrow> 4 < x"
proof -
  define k where "k = nat \<lceil>x\<rceil> + 56"
  have k: "nat \<lceil>x\<rceil> + 60 = k + 4" by (simp add: k_def)
  have "cut_pow x < 1 / 16 \<longleftrightarrow> (of_int \<lfloor>2 powr (real (k + 4) - real_of_rat x)\<rfloor> :: rat) < of_int (2 ^ k)"
    unfolding cut_pow_def k by (simp add: power_add field_simps)
  also have "\<dots> \<longleftrightarrow> \<lfloor>2 powr (real (k + 4) - real_of_rat x)\<rfloor> < 2 ^ k" by (simp only: of_int_less_iff)
  also have "\<dots> \<longleftrightarrow> 2 powr (real (k + 4) - real_of_rat x) < 2 powr real k" by (simp add: floor_less_iff powr_realpow)
  also have "\<dots> \<longleftrightarrow> real_of_rat 4 < real_of_rat x" by simp
  finally show ?thesis unfolding of_rat_less .
qed

lemma faded_cut_pow:
  assumes "0 < unat h" "unat h \<le> 2 ^ 30"
  shows "faded cut_pow engaged now h \<longleftrightarrow> unat engaged div 1000 + 172800 + 4 * unat h < unat now div 1000"
proof -
  define m where "m = unat h"
  define e where "e = unat now div 1000 - unat engaged div 1000 - 172800"
  have m: "0 < m" "m \<le> 2 ^ 30" using assms by (simp_all add: m_def)
  have step: "(1 :: rat) / 2 ^ 30 \<le> 1 / of_nat m"
  proof -
    have "(of_nat m :: rat) \<le> of_nat (2 ^ 30)" using m(2) by (simp only: of_nat_le_iff)
    then show ?thesis using m(1) by (intro divide_left_mono) simp_all
  qed
  have "4 < f64_round (f64_round (of_nat e) / of_nat m) \<longleftrightarrow> 4 * m < e"
  proof (cases "4 * m < e")
    case True
    have "(of_nat (4 * m + 1) :: rat) = f64_round (of_nat (4 * m + 1))" using m(2) by (intro f64_round_nat [symmetric]) simp
    also have "\<dots> \<le> f64_round (of_nat e)" using True by (intro f64_round_mono) (simp only: of_nat_le_iff)
    finally have "of_nat (4 * m + 1) / of_nat m \<le> f64_round (of_nat e) / (of_nat m :: rat)" by (rule divide_right_mono) simp
    then have "4 + 1 / of_nat m \<le> f64_round (of_nat e) / (of_nat m :: rat)" using m(1) by (simp add: add_divide_distrib)
    then have "4 + 1 / 2 ^ 30 \<le> f64_round (of_nat e) / (of_nat m :: rat)" using step by linarith
    from f64_round_mono [OF this] have "4 + 1 / 2 ^ 30 \<le> f64_round (f64_round (of_nat e) / of_nat m)" unfolding f64_round_near_4 .
    moreover have "(4 :: rat) < 4 + 1 / 2 ^ 30" by simp
    ultimately show ?thesis using True by linarith
  next
    case False
    then have "f64_round (of_nat e) = of_nat e" using m(2) by (intro f64_round_nat) simp
    moreover have "(of_nat e :: rat) \<le> of_nat (4 * m)" using False by (simp only: of_nat_le_iff)
    ultimately have "f64_round (of_nat e) / of_nat m \<le> 4" using m(1) by (simp add: field_simps)
    from f64_round_mono [OF this] have "f64_round (f64_round (of_nat e) / of_nat m) \<le> 4" using f64_round_nat [of 4] by simp
    then show ?thesis using False by simp
  qed
  moreover have "unat h < 2 ^ 53" using assms(2) by simp
  ultimately show ?thesis
    unfolding faded_finite [OF assms(1) \<open>unat h < 2 ^ 53\<close>] cut_pow_below m_def e_def by linarith
qed

definition sample_content :: "hash32 \<Rightarrow> hash32 option \<Rightarrow> u64 \<Rightarrow> content_item" where
  "sample_content i parent t =
     \<lparr>ci_content_id = i, ci_author_id = zero32, ci_content_type = PostContent, ci_space_id = zero32, ci_parent_id = parent,
      ci_created_at = t, ci_last_engagement = t, ci_body_inline = None, ci_content_hash = None, ci_content_size = None,
      ci_content_type_mime = None, ci_media_refs = [], ci_pin_state = None, ci_engagement_count = 0, ci_signature = [],
      ci_pow_nonce = 0, ci_pow_difficulty = 0, ci_preservation_pow = None, ci_display_name = None\<rparr>"

lemma sample_content_fields [simp]:
  "ci_content_id (sample_content i parent t) = i" "ci_parent_id (sample_content i parent t) = parent"
  "ci_created_at (sample_content i parent t) = t" "ci_last_engagement (sample_content i parent t) = t"
  "ci_pin_state (sample_content i parent t) = None" "ci_body_inline (sample_content i parent t) = None"
  "ci_media_refs (sample_content i parent t) = []"
  by (simp_all add: sample_content_def)

lemma sample_not_pinned [simp]: "\<not> pinned (sample_content i parent t) now"
  by (simp add: pinned_def)

subsection \<open>The half-life stays in bounds\<close>

lemma f64_round_between:
  assumes "of_nat a \<le> x" "x \<le> of_nat b" "b < 2 ^ 53"
  shows "of_nat a \<le> f64_round x" "f64_round x \<le> of_nat b"
proof -
  have "(of_nat a :: rat) \<le> of_nat b" using assms by linarith
  then have "a < 2 ^ 53" using assms(3) by simp
  then show "of_nat a \<le> f64_round x" "f64_round x \<le> of_nat b"
    using f64_round_mono [OF assms(1)] f64_round_mono [OF assms(2)] assms(3) by (simp_all add: f64_round_nat)
qed

lemma f64_round_0: "f64_round 0 = 0"
  by (simp add: f64_round_def float_round_def)

lemma f64_signed_minus: "0 \<le> x \<Longrightarrow> f64_signed (- x) = - f64_round x"
  by (cases "x = 0") (simp_all add: f64_signed_def f64_round_def float_round_def)

text \<open>A share of a difference, rounded, is between nothing and the difference.\<close>

lemma rounded_share:
  assumes "0 \<le> x" "x \<le> of_nat d" "d < 2 ^ 53" "0 \<le> t" "t \<le> (1 :: rat)"
  shows "0 \<le> f64_round (f64_round x * t)" "f64_round (f64_round x * t) \<le> of_nat d"
proof -
  have r: "0 \<le> f64_round x" "f64_round x \<le> of_nat d" using f64_round_between [of 0 x d] assms by simp_all
  then have "0 \<le> f64_round x * t" "f64_round x * t \<le> of_nat d"
    using assms mult_left_mono [of t 1 "f64_round x"] by simp_all
  then show "0 \<le> f64_round (f64_round x * t)" "f64_round (f64_round x * t) \<le> of_nat d"
    using f64_round_between [of 0 "f64_round x * t" d] assms(3) by simp_all
qed

definition smooth :: "rat \<Rightarrow> rat \<Rightarrow> rat \<Rightarrow> rat" where
  "smooth cur c t = f64_signed (cur + f64_signed (f64_signed (c - cur) * t))"

lemma smooth_down:
  assumes "of_nat lo \<le> c" "c \<le> of_nat cur" "cur < 2 ^ 53" "0 \<le> t" "t \<le> 1"
  shows "of_nat lo \<le> smooth (of_nat cur) c t" "smooth (of_nat cur) c t \<le> of_nat cur"
proof -
  have "(of_nat lo :: rat) \<le> of_nat cur" using assms(1,2) by linarith
  then have lc: "lo \<le> cur" by simp
  define b where "b = f64_round (f64_round (of_nat cur - c) * t)"
  have b: "0 \<le> b" "b \<le> of_nat (cur - lo)"
    unfolding b_def using assms lc by (intro rounded_share; simp add: of_nat_diff)+
  have "f64_signed (c - of_nat cur) = - f64_round (of_nat cur - c)"
    using f64_signed_minus [of "of_nat cur - c"] assms(2) by simp
  then have "f64_signed (f64_signed (c - of_nat cur) * t) = - b"
    using f64_signed_minus [of "f64_round (of_nat cur - c) * t"] assms(4) by (simp add: b_def f64_round_def)
  moreover have ge: "of_nat lo \<le> of_nat cur - b" using b(2) lc by (simp add: of_nat_diff)
  moreover have "(0 :: rat) \<le> of_nat lo" by simp
  ultimately have "smooth (of_nat cur) c t = f64_round (of_nat cur - b)"
    unfolding smooth_def by (simp add: f64_signed_nonneg)
  then show "of_nat lo \<le> smooth (of_nat cur) c t" "smooth (of_nat cur) c t \<le> of_nat cur"
    using f64_round_between [OF ge _ assms(3)] b(1) by simp_all
qed

lemma smooth_up:
  assumes "of_nat cur \<le> c" "c \<le> of_nat hi" "hi < 2 ^ 53" "0 \<le> t" "t \<le> 1"
  shows "of_nat cur \<le> smooth (of_nat cur) c t" "smooth (of_nat cur) c t \<le> of_nat hi"
proof -
  have "(of_nat cur :: rat) \<le> of_nat hi" using assms(1,2) by linarith
  then have ch: "cur \<le> hi" by simp
  define b where "b = f64_round (f64_round (c - of_nat cur) * t)"
  have b: "0 \<le> b" "b \<le> of_nat (hi - cur)"
    unfolding b_def using assms ch by (intro rounded_share; simp add: of_nat_diff)+
  have "f64_signed (f64_signed (c - of_nat cur) * t) = b"
    using assms(1,4) by (simp add: b_def f64_signed_nonneg f64_round_def)
  then have "smooth (of_nat cur) c t = f64_round (of_nat cur + b)"
    unfolding smooth_def using b(1) by (simp add: f64_signed_nonneg)
  moreover have "of_nat cur \<le> of_nat cur + b" "of_nat cur + b \<le> of_nat hi" using b ch by (simp_all add: of_nat_diff)
  ultimately show "of_nat cur \<le> smooth (of_nat cur) c t" "smooth (of_nat cur) c t \<le> of_nat hi"
    using f64_round_between [of cur "of_nat cur + b" hi] assms(3) by simp_all
qed

lemma rounded_to_u64:
  assumes "of_nat a \<le> x" "x \<le> of_nat b" "b < 2 ^ 53"
  shows "a \<le> unat (float_to_u64 (of_int (round_half_away x)))" "unat (float_to_u64 (of_int (round_half_away x))) \<le> b"
proof -
  have "(0 :: rat) \<le> of_nat a" by simp
  then have x: "\<not> x < 0" using assms(1) by linarith
  define n where "n = nat \<lfloor>x + 1 / 2\<rfloor>"
  have n: "int a \<le> \<lfloor>x + 1 / 2\<rfloor>" "\<lfloor>x + 1 / 2\<rfloor> \<le> int b"
    using assms(1,2) by (simp_all add: le_floor_iff floor_le_iff)
  then have r: "round_half_away x = int n" using x by (simp add: round_half_away_def n_def)
  have "n < 2 ^ 64" using n(2) assms(3) by (simp add: n_def nat_less_iff)
  then have "float_to_u64 (of_int (round_half_away x)) = word_of_nat n"
    using float_to_u64_nat [of n] by (simp add: r)
  then have "unat (float_to_u64 (of_int (round_half_away x))) = n"
    using \<open>n < 2 ^ 64\<close> by (simp add: unat_of_nat take_bit_eq_mod)
  then show "a \<le> unat (float_to_u64 (of_int (round_half_away x)))" "unat (float_to_u64 (of_int (round_half_away x))) \<le> b"
    using n by (simp_all add: n_def le_nat_iff nat_le_iff)
qed

lemma smoothing_share: "0 \<le> ADAPTATION_SMOOTHING" "ADAPTATION_SMOOTHING \<le> 1"
  using f64_round_mono [of "1 / 10" 1] by (simp_all add: ADAPTATION_SMOOTHING_def f64_round_nonneg)


text \<open>The half-life that storage calls for, before and after the bounds are applied.\<close>

definition clamped_target :: "node_state \<Rightarrow> rat" where
  "clamped_target st =
     f64_clamp
       (case f64_div (u64_f64 (ns_total_storage_bytes st)) (u64_f64 (ns_target_storage_bytes st)) of
          Finite p \<Rightarrow>
            Finite (if p > 1 then f64_round (u64_f64 (ns_current_half_life_secs st) / p)
                    else f64_round (u64_f64 (ns_current_half_life_secs st) * f64_round (1 + f64_round (f64_round (1 - p) * (1 / 2)))))
        | Infinite \<Rightarrow> Finite 0
        | NaN \<Rightarrow> NaN)
       86400 2592000"

lemma u64_f64_bounds: "u64_f64 MIN_HALF_LIFE_SECS = 86400" "u64_f64 MAX_HALF_LIFE_SECS = 2592000"
  using f64_round_nat [of 86400] f64_round_nat [of 2592000] by (simp_all add: u64_f64_def decay_constants)

lemma adaptive_smooth:
  "calculate_adaptive_half_life st =
     float_to_u64 (of_int (round_half_away (smooth (u64_f64 (ns_current_half_life_secs st)) (clamped_target st) ADAPTATION_SMOOTHING)))"
  unfolding calculate_adaptive_half_life_def Let_def clamped_target_def smooth_def u64_f64_bounds ..

lemma clamped_target_bounds: "86400 \<le> clamped_target st" "clamped_target st \<le> 2592000"
  by (auto simp: clamped_target_def f64_clamp_def split: f64.splits)

lemma u64_f64_0: "u64_f64 n = 0 \<longleftrightarrow> n = 0"
proof
  assume "u64_f64 n = 0"
  moreover have "n \<noteq> 0 \<Longrightarrow> 1 \<le> u64_f64 n"
    using f64_round_between(1) [of 1 "of_nat (unat n)" "unat n"] f64_round_mono [of "of_nat 1" "of_nat (unat n)"] unat_gt_0 [of n]
    unfolding u64_f64_def of_nat_le_iff by simp
  ultimately show "n = 0" by force
qed (simp add: u64_f64_def f64_round_def float_round_def)

lemma clamped_target_down:
  assumes "ns_target_storage_bytes st < ns_total_storage_bytes st" "86400 \<le> cur" "cur \<le> 2592000"
    and "u64_f64 (ns_current_half_life_secs st) = of_nat cur"
  shows "clamped_target st \<le> of_nat cur"
proof (cases "ns_target_storage_bytes st = 0")
  case True
  then have "f64_div (u64_f64 (ns_total_storage_bytes st)) (u64_f64 (ns_target_storage_bytes st)) = Infinite"
    using assms(1) by (simp add: f64_div_def u64_f64_0)
  then show ?thesis using assms(2) by (simp add: clamped_target_def f64_clamp_def)
next
  case False
  define p where "p = f64_round (u64_f64 (ns_total_storage_bytes st) / u64_f64 (ns_target_storage_bytes st))"
  have "0 < u64_f64 (ns_target_storage_bytes st)"
    using False u64_f64_0 [of "ns_target_storage_bytes st"] f64_round_nonneg [of "of_nat (unat (ns_target_storage_bytes st))"]
    by (simp add: u64_f64_def order_less_le)
  then have "1 \<le> u64_f64 (ns_total_storage_bytes st) / u64_f64 (ns_target_storage_bytes st)"
    using u64_f64_mono [of "ns_target_storage_bytes st" "ns_total_storage_bytes st"] assms(1) by simp
  then have p: "1 \<le> p" using f64_round_mono [of 1] by (metis f64_round_1(1) p_def)
  have d: "f64_div (u64_f64 (ns_total_storage_bytes st)) (u64_f64 (ns_target_storage_bytes st)) = Finite p"
    using False by (simp add: f64_div_def u64_f64_0 p_def)
  have "(if p > 1 then f64_round (of_nat cur / p)
      else f64_round (of_nat cur * f64_round (1 + f64_round (f64_round (1 - p) * (1 / 2))))) \<le> of_nat cur"
  proof (cases "p = 1")
    case True
    then show ?thesis using assms(3) by (simp add: f64_round_0 f64_round_nat)
  next
    case False
    then have "of_nat cur / p \<le> of_nat cur" using p by (simp add: divide_le_eq mult_le_cancel_left1)
    then show ?thesis using f64_round_mono [of "of_nat cur / p" "of_nat cur"] assms(3) False p by (simp add: f64_round_nat)
  qed
  moreover have "(86400 :: rat) \<le> of_nat cur" using assms(2) by simp
  ultimately show ?thesis unfolding clamped_target_def d f64_clamp_def assms(4) f64.case by (auto simp: min_def max_def)
qed

lemma clamped_target_up:
  assumes "0 < ns_target_storage_bytes st" "ns_total_storage_bytes st \<le> ns_target_storage_bytes st" "cur \<le> 2592000"
    and "u64_f64 (ns_current_half_life_secs st) = of_nat cur"
  shows "of_nat cur \<le> clamped_target st"
proof -
  define p where "p = f64_round (u64_f64 (ns_total_storage_bytes st) / u64_f64 (ns_target_storage_bytes st))"
  have "0 < u64_f64 (ns_target_storage_bytes st)"
    using assms(1) u64_f64_0 [of "ns_target_storage_bytes st"] f64_round_nonneg [of "of_nat (unat (ns_target_storage_bytes st))"]
    by (simp add: u64_f64_def order_less_le)
  then have "u64_f64 (ns_total_storage_bytes st) / u64_f64 (ns_target_storage_bytes st) \<le> 1"
    using u64_f64_mono [OF assms(2)] by simp
  then have p: "p \<le> 1" using f64_round_mono [of _ 1] by (metis f64_round_1(1) p_def)
  have d: "f64_div (u64_f64 (ns_total_storage_bytes st)) (u64_f64 (ns_target_storage_bytes st)) = Finite p"
    using assms(1) by (auto simp: f64_div_def u64_f64_0 p_def)
  define g where "g = f64_round (1 + f64_round (f64_round (1 - p) * (1 / 2)))"
  have "1 \<le> g" using f64_round_mono [of 1 "1 + f64_round (f64_round (1 - p) * (1 / 2))"] f64_round_nonneg by (simp add: g_def)
  then have "of_nat cur \<le> of_nat cur * g" by (simp add: mult_le_cancel_left1)
  then have "of_nat cur \<le> f64_round (of_nat cur * g)"
    using f64_round_mono [of "of_nat cur" "of_nat cur * g"] assms(3) by (simp add: f64_round_nat)
  moreover have "(of_nat cur :: rat) \<le> of_nat 2592000" using assms(3) by (simp only: of_nat_le_iff)
  ultimately show ?thesis
    using p unfolding clamped_target_def d f64_clamp_def assms(4) f64.case g_def [symmetric] by (auto simp: min_def max_def)
qed

lemma half_life_in_bounds:
  assumes "MIN_HALF_LIFE_SECS \<le> ns_current_half_life_secs st" "ns_current_half_life_secs st \<le> MAX_HALF_LIFE_SECS"
  shows "MIN_HALF_LIFE_SECS \<le> calculate_adaptive_half_life st \<and> calculate_adaptive_half_life st \<le> MAX_HALF_LIFE_SECS \<and>
    (ns_target_storage_bytes st < ns_total_storage_bytes st \<longrightarrow> calculate_adaptive_half_life st \<le> ns_current_half_life_secs st) \<and>
    (0 < ns_target_storage_bytes st \<and> ns_total_storage_bytes st \<le> ns_target_storage_bytes st \<longrightarrow>
       ns_current_half_life_secs st \<le> calculate_adaptive_half_life st)"
proof -
  define cur where "cur = unat (ns_current_half_life_secs st)"
  have cur: "86400 \<le> cur" "cur \<le> 2592000" using assms by (simp_all add: cur_def decay_constants word_le_nat_alt)
  have f: "u64_f64 (ns_current_half_life_secs st) = of_nat cur" using cur(2) by (simp add: cur_def u64_f64_small)
  define c where "c = clamped_target st"
  define s where "s = smooth (of_nat cur) c ADAPTATION_SMOOTHING"
  note cb = clamped_target_bounds [of st, folded c_def]
  have new: "calculate_adaptive_half_life st = float_to_u64 (of_int (round_half_away s))"
    unfolding adaptive_smooth f s_def c_def ..
  have down: "86400 \<le> unat (calculate_adaptive_half_life st) \<and> unat (calculate_adaptive_half_life st) \<le> cur" if "c \<le> of_nat cur"
    using rounded_to_u64 [of 86400 s cur] smooth_down [of 86400 c cur ADAPTATION_SMOOTHING] smoothing_share cb cur that
    unfolding new s_def by simp
  have up: "cur \<le> unat (calculate_adaptive_half_life st) \<and> unat (calculate_adaptive_half_life st) \<le> 2592000" if "of_nat cur \<le> c"
    using rounded_to_u64 [of cur s 2592000] smooth_up [of cur c 2592000 ADAPTATION_SMOOTHING] smoothing_share cb cur that
    unfolding new s_def by simp
  have "86400 \<le> unat (calculate_adaptive_half_life st) \<and> unat (calculate_adaptive_half_life st) \<le> 2592000"
    using down up cur by (cases "c \<le> of_nat cur") auto
  moreover have "ns_target_storage_bytes st < ns_total_storage_bytes st \<Longrightarrow> unat (calculate_adaptive_half_life st) \<le> cur"
    using down clamped_target_down [OF _ cur f] by (simp add: c_def)
  moreover have "0 < ns_target_storage_bytes st \<Longrightarrow> ns_total_storage_bytes st \<le> ns_target_storage_bytes st \<Longrightarrow>
      cur \<le> unat (calculate_adaptive_half_life st)"
    using up clamped_target_up [OF _ _ cur(2) f] by (simp add: c_def)
  ultimately show ?thesis by (auto simp: word_le_nat_alt decay_constants cur_def)
qed

text \<open>
  C35. The half-life stays between one day and thirty days, and it moves the right way: it does not grow while
  more storage is in use than there should be, and does not shrink while there is room.
\<close>

theorem half_life_bounded:
  assumes "MIN_HALF_LIFE_SECS \<le> ns_current_half_life_secs st" "ns_current_half_life_secs st \<le> MAX_HALF_LIFE_SECS"
  shows "MIN_HALF_LIFE_SECS \<le> calculate_adaptive_half_life st \<and> calculate_adaptive_half_life st \<le> MAX_HALF_LIFE_SECS \<and>
    (ns_target_storage_bytes st < ns_total_storage_bytes st \<longrightarrow> calculate_adaptive_half_life st \<le> ns_current_half_life_secs st) \<and>
    (0 < ns_target_storage_bytes st \<and> ns_total_storage_bytes st \<le> ns_target_storage_bytes st \<longrightarrow>
       ns_current_half_life_secs st \<le> calculate_adaptive_half_life st)"
  using assms by (rule half_life_in_bounds)

theorem half_life_bounded_witness:
  "calculate_adaptive_half_life \<lparr>ns_total_storage_bytes = 2 ^ 30, ns_target_storage_bytes = TARGET_STORAGE_BYTES, ns_current_half_life_secs = HALF_LIFE_SECS\<rparr> \<le> HALF_LIFE_SECS \<and>
   HALF_LIFE_SECS \<le> calculate_adaptive_half_life \<lparr>ns_total_storage_bytes = 1000, ns_target_storage_bytes = TARGET_STORAGE_BYTES, ns_current_half_life_secs = HALF_LIFE_SECS\<rparr>"
  using half_life_bounded [of "\<lparr>ns_total_storage_bytes = 2 ^ 30, ns_target_storage_bytes = TARGET_STORAGE_BYTES, ns_current_half_life_secs = HALF_LIFE_SECS\<rparr>"]
    half_life_bounded [of "\<lparr>ns_total_storage_bytes = 1000, ns_target_storage_bytes = TARGET_STORAGE_BYTES, ns_current_half_life_secs = HALF_LIFE_SECS\<rparr>"]
  by (simp add: decay_constants TARGET_STORAGE_BYTES_def)

subsection \<open>Engagement resets the clock\<close>

text \<open>
  An engagement is accepted exactly when its time is at most an hour ahead and the content has not decayed; a
  refusal changes nothing. An engagement that is stamped now, or ahead, keeps the content for another two
  days: there the power of zero is one, on every platform.
\<close>

theorem engagement_exact:
  assumes r: "process_engagement P c e now h = (r, c')"
  shows "(r = Accepted \<longleftrightarrow> unat (er_timestamp e) \<le> min (unat now + 3600000) (2 ^ 64 - 1) \<and>
      \<not> ds_is_decayed (calculate_decay_state P c now h)) \<and>
    (r \<noteq> Accepted \<longrightarrow> c' = c) \<and>
    (r = Accepted \<and> now \<le> er_timestamp e \<and> P 0 = 1 \<and> unat later div 1000 \<le> unat now div 1000 + 172800 \<longrightarrow>
       \<not> ds_is_decayed (calculate_decay_state P c' later h))"
proof -
  have acc: "process_engagement P c e now h =
      (if er_timestamp e > sat_add now ENGAGEMENT_FUTURE_TOLERANCE_MS then (Rejected FutureTimestamp, c)
       else if ds_is_decayed (calculate_decay_state P c now h) then (Rejected ContentDecayed, c)
       else (Accepted, c\<lparr>ci_engagement_count := u32_sat_succ (ci_engagement_count c), ci_last_engagement := min (er_timestamp e) now\<rparr>))"
    by (cases "er_engagement_type e") (simp_all add: process_engagement_def Let_def)
  have future: "er_timestamp e > sat_add now ENGAGEMENT_FUTURE_TOLERANCE_MS \<longleftrightarrow>
      \<not> unat (er_timestamp e) \<le> min (unat now + 3600000) (2 ^ 64 - 1)"
    by (auto simp: word_less_nat_alt unat_sat_add ENGAGEMENT_FUTURE_TOLERANCE_MS_def not_le min_less_iff_disj)
  have "ci_last_engagement c' = now" if "r = Accepted" "now \<le> er_timestamp e"
    using r that unfolding acc by (auto split: if_splits)
  then show ?thesis
    using r faded_recent [of P later now h] unfolding acc future by (auto simp: decayed_iff [of P c'] split: if_splits)
qed

definition sample_engagement :: "u64 \<Rightarrow> engagement_record" where
  "sample_engagement t =
     \<lparr>er_content_id = zero32, er_engager_id = zero32, er_engagement_type = DirectEngagement, er_timestamp = t,
      er_pow_nonce = 0, er_pow_work = 0, er_signature = [], er_emoji = None\<rparr>"

lemma sample_half_life: "0 < unat (604800 :: u64)" "unat (604800 :: u64) \<le> 2 ^ 30"
  by simp_all

theorem engagement_exact_witness:
  "fst (process_engagement cut_pow (sample_content zero32 None 0) (sample_engagement 2592000000) 2592000000 604800) = Accepted \<and>
   fst (process_engagement cut_pow (sample_content zero32 None 0) (sample_engagement 2592001000) 2592001000 604800) \<noteq> Accepted"
proof -
  obtain r c' where 1: "process_engagement cut_pow (sample_content zero32 None 0) (sample_engagement 2592000000) 2592000000 604800 = (r, c')"
    by fastforce
  obtain r2 c2 where 2: "process_engagement cut_pow (sample_content zero32 None 0) (sample_engagement 2592001000) 2592001000 604800 = (r2, c2)"
    by fastforce
  show ?thesis
    using engagement_exact [OF 1, of 0] engagement_exact [OF 2, of 0]
    unfolding 1 2 by (simp add: sample_engagement_def decayed_iff faded_cut_pow [OF sample_half_life])
qed

text \<open>
  An engagement sets the clock to its own time even when that is earlier than the last engagement: a reply or a
  reaction that is stamped far enough in the past is accepted and makes the content decay at once.
\<close>

theorem engagement_backdates:
  assumes alive: "\<not> ds_is_decayed (calculate_decay_state P c now h)"
    and old: "unat (ci_created_at c) div 1000 + 172800 \<le> unat now div 1000" "\<not> pinned c now"
    and late: "er_timestamp e \<le> now" "faded P (er_timestamp e) now h"
  shows "\<exists>c'. process_engagement P c e now h = (Accepted, c') \<and> ds_is_decayed (calculate_decay_state P c' now h)"
proof -
  have m: "min (er_timestamp e) now = er_timestamp e" and "\<not> er_timestamp e > sat_add now ENGAGEMENT_FUTURE_TOLERANCE_MS"
    using late(1) unat_u64_less [of now] by (auto simp: min_def word_le_nat_alt word_less_nat_alt unat_sat_add)
  then have "process_engagement P c e now h =
      (Accepted, c\<lparr>ci_engagement_count := u32_sat_succ (ci_engagement_count c), ci_last_engagement := er_timestamp e\<rparr>)"
    using alive by (cases "er_engagement_type e") (simp_all add: process_engagement_def Let_def m)
  moreover have "pinned (c\<lparr>ci_engagement_count := u32_sat_succ (ci_engagement_count c), ci_last_engagement := er_timestamp e\<rparr>) now = pinned c now"
    by (simp add: pinned_def)
  ultimately show ?thesis using old late(2) by (auto simp: decayed_iff)
qed

theorem engagement_backdates_witness:
  "\<exists>c'. process_engagement cut_pow (sample_content zero32 None 0\<lparr>ci_last_engagement := 2592001000\<rparr>) (sample_engagement 0) 2592001000 604800 = (Accepted, c') \<and>
     ds_is_decayed (calculate_decay_state cut_pow c' 2592001000 604800)"
proof -
  let ?c = "sample_content zero32 None 0\<lparr>ci_last_engagement := 2592001000\<rparr>"
  have "\<not> ds_is_decayed (calculate_decay_state cut_pow ?c 2592001000 604800)"
    by (simp add: decayed_iff faded_cut_pow [OF sample_half_life])
  moreover have "\<not> pinned ?c 2592001000" by (simp add: pinned_def)
  ultimately show ?thesis
    by (intro engagement_backdates) (simp_all add: sample_engagement_def faded_cut_pow [OF sample_half_life])
qed

end
