(* ===== verification/Content_Prune.thy ===== *)
theory Content_Prune
  imports Content_Decay Kv_Tree
begin

text \<open>
  The store of content items in memory (\<open>src/content/storage.rs\<close>), its pruning (\<open>src/content/pruning.rs\<close>) and the
  manager on top (\<open>src/content/lifecycle.rs\<close>). What has decayed is deleted; where replies are alive a tombstone
  takes its place. The search for living replies recurses along the replies without a bound, so it is
  modelled with fuel, where no fuel left stands for a stack that overflows. The hash of the summary is a
  parameter. Poisoned locks are left out.
\<close>

subsection \<open>The store\<close>

record content_tombstone =
  tb_content_id :: hash32
  tb_tombstone_time :: u64
  tb_author_id :: hash32
  tb_summary_hash :: hash32

record content_store =
  cc_content :: "(hash32, content_item) tree"
  cc_tombstones :: "(hash32, content_tombstone) tree"
  cc_children_index :: "(hash32, hash32 list) tree"
  cc_total_bytes :: u64

datatype content_error =
    AlreadyExists hash32
  | ContentNotFound hash32
  | Decayed hash32
  | InvalidContent string
  | StorageLockPoisoned
  | InvalidEngagement string

definition cc_new :: content_store where
  "cc_new = \<lparr>cc_content = [], cc_tombstones = [], cc_children_index = [], cc_total_bytes = 0\<rparr>"

definition estimate_item_size :: "content_item \<Rightarrow> u64" where
  "estimate_item_size c =
     200 + word_of_nat (case ci_body_inline c of Some b \<Rightarrow> length b | None \<Rightarrow> 0) + word_of_nat (length (ci_media_refs c) * 68)"

definition cc_get :: "content_store \<Rightarrow> hash32 \<Rightarrow> content_item option" where
  "cc_get s i = tree_get (cc_content s) i"

definition children_of :: "content_store \<Rightarrow> hash32 \<Rightarrow> hash32 list" where
  "children_of s i = (case tree_get (cc_children_index s) i of Some ids \<Rightarrow> ids | None \<Rightarrow> [])"

definition cc_put :: "content_store \<Rightarrow> content_item \<Rightarrow> content_error outcome \<times> content_store" where
  "cc_put s c =
     (if cc_get s (ci_content_id c) \<noteq> None then (Inl (AlreadyExists (ci_content_id c)), s)
      else
        (Inr (),
         s\<lparr>cc_children_index :=
              (case ci_parent_id c of
                 Some parent \<Rightarrow> tree_insert (cc_children_index s) parent (children_of s parent @ [ci_content_id c])
               | None \<Rightarrow> cc_children_index s),
           cc_content := tree_insert (cc_content s) (ci_content_id c) c,
           cc_total_bytes := cc_total_bytes s + estimate_item_size c\<rparr>))"

definition cc_delete :: "content_store \<Rightarrow> hash32 \<Rightarrow> bool \<times> content_store" where
  "cc_delete s i =
     (case cc_get s i of
        None \<Rightarrow> (False, s)
      | Some c \<Rightarrow>
          let index1 =
            (case ci_parent_id c of
               None \<Rightarrow> cc_children_index s
             | Some parent \<Rightarrow>
                 (case tree_get (cc_children_index s) parent of
                    None \<Rightarrow> cc_children_index s
                  | Some children \<Rightarrow> tree_insert (cc_children_index s) parent (filter (\<lambda>x. x \<noteq> i) children)))
          in (True,
              s\<lparr>cc_content := tree_remove (cc_content s) i,
                cc_total_bytes := sat_sub (cc_total_bytes s) (estimate_item_size c),
                cc_children_index := tree_remove index1 i\<rparr>))"

definition cc_get_children :: "content_store \<Rightarrow> hash32 \<Rightarrow> content_item list" where
  "cc_get_children s parent = List.map_filter (cc_get s) (children_of s parent)"

definition put_tombstone :: "content_store \<Rightarrow> content_tombstone \<Rightarrow> content_store" where
  "put_tombstone s t = s\<lparr>cc_tombstones := tree_insert (cc_tombstones s) (tb_content_id t) t\<rparr>"

definition get_tombstone :: "content_store \<Rightarrow> hash32 \<Rightarrow> content_tombstone option" where
  "get_tombstone s i = tree_get (cc_tombstones s) i"

subsection \<open>Pruning\<close>

record prune_stats =
  pt_items_checked :: nat
  pt_items_pruned :: nat
  pt_tombstones_created :: nat
  pt_bytes_freed :: u64

definition compute_summary_hash :: "(bytes \<Rightarrow> hash32) \<Rightarrow> bytes option \<Rightarrow> hash32" where
  "compute_summary_hash sha body = (case body of Some b \<Rightarrow> sha (take 256 b) | None \<Rightarrow> sha [])"

text \<open>The loop over the children: the first that is alive, or has a living descendant, ends it.\<close>

fun any_child :: "(content_item \<Rightarrow> bool) \<Rightarrow> (hash32 \<Rightarrow> bool option) \<Rightarrow> content_item list \<Rightarrow> bool option" where
  "any_child decayed below [] = Some False"
| "any_child decayed below (child # children) =
     (if \<not> decayed child then Some True
      else case below (ci_content_id child) of
             None \<Rightarrow> None
           | Some True \<Rightarrow> Some True
           | Some False \<Rightarrow> any_child decayed below children)"

primrec has_non_decayed_children :: "nat \<Rightarrow> (rat \<Rightarrow> rat) \<Rightarrow> content_store \<Rightarrow> u64 \<Rightarrow> u64 \<Rightarrow> hash32 \<Rightarrow> bool option" where
  "has_non_decayed_children 0 P s now h parent = None"
| "has_non_decayed_children (Suc fuel) P s now h parent =
     any_child (\<lambda>c. ds_is_decayed (calculate_decay_state P c now h)) (has_non_decayed_children fuel P s now h)
       (cc_get_children s parent)"

text \<open>The first pass sorts the items into those to delete and those to replace by a tombstone.\<close>

fun classify_items ::
  "(bytes \<Rightarrow> hash32) \<Rightarrow> nat \<Rightarrow> (rat \<Rightarrow> rat) \<Rightarrow> content_store \<Rightarrow> u64 \<Rightarrow> u64 \<Rightarrow> content_item list \<Rightarrow>
   (hash32 list \<times> (hash32 \<times> content_tombstone) list) option" where
  "classify_items sha fuel P s now h [] = Some ([], [])"
| "classify_items sha fuel P s now h (c # cs) =
     (let d = calculate_decay_state P c now h
      in if ds_is_decayed d \<and> \<not> ds_is_protected d \<and> \<not> sat_sub now (ci_last_engagement c) < PRUNE_GRACE_PERIOD_MS then
           (case has_non_decayed_children fuel P s now h (ci_content_id c) of
              None \<Rightarrow> None
            | Some active \<Rightarrow>
                (case classify_items sha fuel P s now h cs of
                   None \<Rightarrow> None
                 | Some (to_prune, to_tombstone) \<Rightarrow>
                     if active
                     then Some (to_prune, (ci_content_id c,
                            \<lparr>tb_content_id = ci_content_id c, tb_tombstone_time = now, tb_author_id = ci_author_id c,
                             tb_summary_hash = compute_summary_hash sha (ci_body_inline c)\<rparr>) # to_tombstone)
                     else Some (ci_content_id c # to_prune, to_tombstone)))
         else classify_items sha fuel P s now h cs)"

definition delete_item :: "nat \<times> content_store \<Rightarrow> hash32 \<Rightarrow> nat \<times> content_store" where
  "delete_item = (\<lambda>(pruned, s) i. let (existed, s') = cc_delete s i in (if existed then pruned + 1 else pruned, s'))"

definition bury_item :: "nat \<times> nat \<times> content_store \<Rightarrow> hash32 \<times> content_tombstone \<Rightarrow> nat \<times> nat \<times> content_store" where
  "bury_item = (\<lambda>(pruned, buried, s) (i, t).
     let (existed, s') = cc_delete s i
     in if existed then (pruned + 1, buried + 1, put_tombstone s' t) else (pruned, buried, s'))"

definition prune_decayed_content ::
  "(bytes \<Rightarrow> hash32) \<Rightarrow> nat \<Rightarrow> (rat \<Rightarrow> rat) \<Rightarrow> content_store \<Rightarrow> u64 \<Rightarrow> u64 \<Rightarrow> (prune_stats \<times> content_store) option" where
  "prune_decayed_content sha fuel P s now h =
     (case classify_items sha fuel P s now h (map snd (cc_content s)) of
        None \<Rightarrow> None
      | Some (to_prune, to_tombstone) \<Rightarrow>
          let (pruned, s1) = foldl delete_item (0, s) to_prune;
              (pruned', buried, s2) = foldl bury_item (pruned, 0, s1) to_tombstone
          in Some (\<lparr>pt_items_checked = length (cc_content s), pt_items_pruned = pruned', pt_tombstones_created = buried,
                    pt_bytes_freed = 0\<rparr>, s2))"

subsection \<open>The manager\<close>

record content_manager =
  mg_storage :: content_store
  mg_current_half_life_secs :: u64
  mg_target_storage_bytes :: u64

definition with_target_storage :: "u64 \<Rightarrow> content_manager" where
  "with_target_storage target_bytes =
     \<lparr>mg_storage = cc_new, mg_current_half_life_secs = HALF_LIFE_SECS, mg_target_storage_bytes = target_bytes\<rparr>"

definition mg_new :: content_manager where
  "mg_new = with_target_storage TARGET_STORAGE_BYTES"

definition create_content :: "content_manager \<Rightarrow> content_item \<Rightarrow> (content_error + hash32) \<times> content_manager" where
  "create_content mg c =
     (let c1 = c\<lparr>ci_last_engagement := ci_created_at c\<rparr>
      in case cc_put (mg_storage mg) c1 of
           (Inl e, _) \<Rightarrow> (Inl e, mg)
         | (Inr _, s) \<Rightarrow> (Inr (ci_content_id c1), mg\<lparr>mg_storage := s\<rparr>))"

definition get_content :: "content_manager \<Rightarrow> hash32 \<Rightarrow> content_item option" where
  "get_content mg i = cc_get (mg_storage mg) i"

definition mg_get_decay_state :: "(rat \<Rightarrow> rat) \<Rightarrow> content_manager \<Rightarrow> hash32 \<Rightarrow> u64 \<Rightarrow> decay_state option" where
  "mg_get_decay_state P mg i now =
     map_option (\<lambda>c. calculate_decay_state P c now (mg_current_half_life_secs mg)) (cc_get (mg_storage mg) i)"

definition mg_process_engagement ::
  "(rat \<Rightarrow> rat) \<Rightarrow> content_manager \<Rightarrow> engagement_record \<Rightarrow> u64 \<Rightarrow> (content_error + engagement_result) \<times> content_manager" where
  "mg_process_engagement P mg e now =
     (case cc_get (mg_storage mg) (er_content_id e) of
        None \<Rightarrow> (Inl (ContentNotFound (er_content_id e)), mg)
      | Some c \<Rightarrow>
          let (r, c') = process_engagement P c e now (mg_current_half_life_secs mg)
          in (Inr r, mg\<lparr>mg_storage := (mg_storage mg)\<lparr>cc_content := tree_insert (cc_content (mg_storage mg)) (er_content_id e) c'\<rparr>\<rparr>))"

definition mg_prune ::
  "(bytes \<Rightarrow> hash32) \<Rightarrow> nat \<Rightarrow> (rat \<Rightarrow> rat) \<Rightarrow> content_manager \<Rightarrow> u64 \<Rightarrow> (prune_stats \<times> content_manager) option" where
  "mg_prune sha fuel P mg now =
     (case prune_decayed_content sha fuel P (mg_storage mg) now (mg_current_half_life_secs mg) of
        None \<Rightarrow> None
      | Some (stats, s) \<Rightarrow> Some (stats, mg\<lparr>mg_storage := s\<rparr>))"

definition mg_adapt_half_life :: "content_manager \<Rightarrow> u64 \<times> content_manager" where
  "mg_adapt_half_life mg =
     (let new_half_life = calculate_adaptive_half_life
            \<lparr>ns_total_storage_bytes = cc_total_bytes (mg_storage mg), ns_target_storage_bytes = mg_target_storage_bytes mg,
             ns_current_half_life_secs = mg_current_half_life_secs mg\<rparr>
      in (new_half_life, mg\<lparr>mg_current_half_life_secs := new_half_life\<rparr>))"

subsection \<open>What pruning relies on\<close>

text \<open>The laws of a store of content that deletions and tombstones are made of.\<close>

locale content_backend =
  fixes get :: "'s \<Rightarrow> 'k \<Rightarrow> 'c option"
    and delete :: "'s \<Rightarrow> 'k \<Rightarrow> bool \<times> 's"
    and get_stone :: "'s \<Rightarrow> 'k \<Rightarrow> 't option"
    and put_stone :: "'s \<Rightarrow> 't \<Rightarrow> 's"
    and stone_key :: "'t \<Rightarrow> 'k"
  assumes get_delete: "get (snd (delete s i)) j = (if j = i then None else get s j)"
    and delete_existed: "fst (delete s i) \<longleftrightarrow> get s i \<noteq> None"
    and stone_delete: "get_stone (snd (delete s i)) j = get_stone s j"
    and get_put_stone: "get (put_stone s t) j = get s j"
    and stone_put_stone: "get_stone (put_stone s t) j = (if j = stone_key t then Some t else get_stone s j)"
begin

lemma delete_all:
  assumes "foldl (\<lambda>(n, s) i. let (existed, s') = delete s i in (if existed then n + 1 else n, s')) (n, s) is = (n', s')"
  shows "get s' j = (if j \<in> set is then None else get s j)" "get_stone s' j = get_stone s j"
  using assms
proof (induction "is" arbitrary: n s)
  case (Cons i "is")
  {
    case 1
    then show ?case using Cons.IH(1) get_delete [of s i] by (cases "delete s i") (fastforce simp: split: if_splits)
  next
    case 2
    then show ?case using Cons.IH(2) stone_delete [of s i] by (cases "delete s i") (fastforce simp: split: if_splits)
  }
qed auto

lemma bury_all:
  assumes "foldl (\<lambda>(n, b, s) (i, t). let (existed, s') = delete s i
      in if existed then (n + 1, b + 1, put_stone s' t) else (n, b, s')) (n, b, s) ts = (n', b', s')"
    and "distinct (map fst ts)" and "\<forall>(i, t) \<in> set ts. stone_key t = i \<and> get s i \<noteq> None"
  shows "get s' j = (if j \<in> fst ` set ts then None else get s j) \<and>
    get_stone s' j = (case map_of ts j of Some t \<Rightarrow> Some t | None \<Rightarrow> get_stone s j)"
  using assms
proof (induction ts arbitrary: n b s)
  case (Cons x ts)
  obtain i t where x: "x = (i, t)" by (cases x)
  obtain e s1 where d: "delete s i = (e, s1)" by (cases "delete s i")
  have s1: "get s1 k = (if k = i then None else get s k)" "get_stone s1 k = get_stone s k" for k
    using get_delete [of s i k] stone_delete [of s i k] by (simp_all add: d)
  have e: e and key: "stone_key t = i" using delete_existed [of s i] Cons.prems(3) by (simp_all add: d x)
  have "\<forall>(j, u) \<in> set ts. stone_key u = j \<and> get (put_stone s1 t) j \<noteq> None"
    using Cons.prems(2,3) by (force simp: x get_put_stone s1)
  with Cons.IH [of "n + 1" "b + 1" "put_stone s1 t"] Cons.prems(1,2)
  have "get s' j = (if j \<in> fst ` set ts then None else get (put_stone s1 t) j)"
    "get_stone s' j = (case map_of ts j of Some u \<Rightarrow> Some u | None \<Rightarrow> get_stone (put_stone s1 t) j)"
    by (simp_all add: x d e)
  moreover have "map_of ts i = None" using Cons.prems(2) by (simp add: x map_of_eq_None_iff)
  ultimately show ?case by (auto simp: x get_put_stone stone_put_stone s1 key split: option.splits)
qed simp

end

lemma cc_delete_get [simp]: "cc_get (snd (cc_delete s i)) j = (if j = i then None else cc_get s j)"
  by (auto simp: cc_delete_def cc_get_def Let_def split: option.splits)

interpretation cc: content_backend cc_get cc_delete get_tombstone put_tombstone tb_content_id
  by unfold_locales
    (auto simp: cc_delete_def cc_get_def get_tombstone_def put_tombstone_def Let_def split: option.splits)

subsection \<open>The store keeps its books\<close>

definition items_size :: "(hash32, content_item) tree \<Rightarrow> nat" where
  "items_size t = sum_list (map (\<lambda>(_, c). unat (estimate_item_size c)) t)"

definition cc_ok :: "content_store \<Rightarrow> bool" where
  "cc_ok s \<longleftrightarrow>
     distinct (map fst (cc_content s)) \<and> (\<forall>i c. cc_get s i = Some c \<longrightarrow> ci_content_id c = i) \<and>
     (\<forall>p i. i \<in> set (children_of s p) \<longrightarrow> (\<exists>c. cc_get s i = Some c \<and> ci_parent_id c = Some p)) \<and>
     unat (cc_total_bytes s) = items_size (cc_content s)"

lemma items_size_insert: "tree_get t i = None \<Longrightarrow> items_size (tree_insert t i c) = items_size t + unat (estimate_item_size c)"
  by (induction t) (auto simp: items_size_def tree_insert_def tree_get_def split: if_splits)

lemma items_size_remove:
  "distinct (map fst t) \<Longrightarrow> tree_get t i = Some c \<Longrightarrow> items_size t = items_size (tree_remove t i) + unat (estimate_item_size c)"
proof (induction t)
  case (Cons e t)
  show ?case
  proof (cases "fst e = i")
    case True
    then have "tree_remove t i = t" using Cons.prems(1) by (auto simp: tree_remove_def intro!: AList.delete_idem)
    then show ?thesis using True Cons.prems(2) by (cases e) (auto simp: items_size_def tree_remove_def tree_get_def)
  next
    case False
    then show ?thesis using Cons by (cases e) (auto simp: items_size_def tree_remove_def tree_get_def)
  qed
qed (simp add: tree_get_def)

lemma cc_okD:
  assumes "cc_ok s"
  shows "distinct (map fst (cc_content s))" "cc_get s i = Some c \<Longrightarrow> ci_content_id c = i"
    "i \<in> set (children_of s p) \<Longrightarrow> \<exists>c. cc_get s i = Some c \<and> ci_parent_id c = Some p"
    "unat (cc_total_bytes s) = items_size (cc_content s)"
  using assms by (simp_all add: cc_ok_def)

lemma cc_ok_new: "cc_ok cc_new"
  by (simp add: cc_ok_def cc_new_def cc_get_def children_of_def items_size_def)

lemma children_of_delete:
  "children_of (snd (cc_delete s i)) p =
     (case cc_get s i of
        None \<Rightarrow> children_of s p
      | Some c \<Rightarrow> if p = i then [] else if ci_parent_id c = Some p then filter (\<lambda>x. x \<noteq> i) (children_of s p) else children_of s p)"
  by (auto simp: cc_delete_def children_of_def Let_def split: option.splits)

lemma cc_delete_ok:
  assumes "cc_ok s"
  shows "cc_ok (snd (cc_delete s i))"
proof (cases "cc_get s i")
  case None
  then show ?thesis using assms by (simp add: cc_delete_def)
next
  case (Some c)
  note ok = cc_okD [OF assms]
  have "\<exists>d. cc_get (snd (cc_delete s i)) j = Some d \<and> ci_parent_id d = Some p" if "j \<in> set (children_of (snd (cc_delete s i)) p)" for j p
  proof -
    have j: "j \<in> set (children_of s p)" "ci_parent_id c = Some p \<Longrightarrow> j \<noteq> i"
      using that Some by (auto simp: children_of_delete split: if_splits)
    from ok(3) [OF j(1)] obtain d where "cc_get s j = Some d" "ci_parent_id d = Some p" by blast
    with j(2) Some show ?thesis by (cases "j = i") auto
  qed
  moreover have size: "items_size (cc_content s) = items_size (tree_remove (cc_content s) i) + unat (estimate_item_size c)"
    using items_size_remove [OF ok(1)] Some by (simp add: cc_get_def)
  moreover have "distinct (map fst (cc_content (snd (cc_delete s i))))"
    using Some ok(1) by (simp add: cc_delete_def Let_def tree_remove_def AList.distinct_delete)
  moreover have "unat (cc_total_bytes (snd (cc_delete s i))) = items_size (cc_content (snd (cc_delete s i)))"
    using Some ok(4) size by (simp add: cc_delete_def Let_def unat_sat_sub)
  ultimately show ?thesis using ok(2) unfolding cc_ok_def by auto
qed

lemma put_tombstone_ok [simp]: "cc_ok (put_tombstone s t) = cc_ok s"
  by (simp add: cc_ok_def put_tombstone_def cc_get_def children_of_def)

lemma cc_put_ok:
  assumes "cc_ok s" and "items_size (cc_content s) + unat (estimate_item_size c) < 2 ^ 64"
  shows "cc_ok (snd (cc_put s c))"
proof (cases "cc_get s (ci_content_id c)")
  case None
  note ok = cc_okD [OF assms(1)]
  have sum: "unat (cc_total_bytes s + estimate_item_size c) = unat (cc_total_bytes s) + unat (estimate_item_size c)"
    using assms(2) ok(4) by (simp add: unat_word_ariths)
  moreover have "i \<in> set (children_of (snd (cc_put s c)) p) \<Longrightarrow>
      i \<in> set (children_of s p) \<or> i = ci_content_id c \<and> ci_parent_id c = Some p" for i p
    using None by (auto simp: cc_put_def children_of_def split: option.splits if_splits)
  moreover have get: "cc_get (snd (cc_put s c)) i = (if i = ci_content_id c then Some c else cc_get s i)" for i
    using None by (simp add: cc_put_def cc_get_def)
  ultimately have "\<exists>d. cc_get (snd (cc_put s c)) i = Some d \<and> ci_parent_id d = Some p"
    if "i \<in> set (children_of (snd (cc_put s c)) p)" for i p
    using that ok(3) [of i p] None by fastforce
  moreover have "distinct (map fst (cc_content (snd (cc_put s c))))"
    using None ok(1) by (simp add: cc_put_def tree_insert_def AList.distinct_update)
  moreover have "unat (cc_total_bytes (snd (cc_put s c))) = items_size (cc_content (snd (cc_put s c)))"
    using None sum ok(4) by (simp add: cc_put_def cc_get_def items_size_insert)
  moreover have "cc_get (snd (cc_put s c)) i = Some d \<Longrightarrow> ci_content_id d = i" for i d
    using get ok(2) by (auto split: if_splits)
  ultimately show ?thesis unfolding cc_ok_def by blast
qed (use assms(1) in \<open>simp add: cc_put_def\<close>)

subsection \<open>The search for living replies\<close>

text \<open>
  A reply names its parent. The search does not look for replies by that name but follows the index of children,
  which may name fewer: the deletion of an item drops the entry of its replies.
\<close>

definition reply_of :: "content_store \<Rightarrow> (hash32 \<times> hash32) set" where
  "reply_of s = {(i, p). \<exists>c. cc_get s i = Some c \<and> ci_parent_id c = Some p}"

definition indexed_reply :: "content_store \<Rightarrow> (hash32 \<times> hash32) set" where
  "indexed_reply s = {(i, p). i \<in> set (children_of s p) \<and> cc_get s i \<noteq> None}"

definition alive_in :: "(hash32 \<times> hash32) set \<Rightarrow> (rat \<Rightarrow> rat) \<Rightarrow> content_store \<Rightarrow> u64 \<Rightarrow> u64 \<Rightarrow> hash32 \<Rightarrow> bool" where
  "alive_in R P s now h p \<longleftrightarrow>
     (\<exists>i c. (i, p) \<in> R\<^sup>+ \<and> cc_get s i = Some c \<and> \<not> ds_is_decayed (calculate_decay_state P c now h))"

abbreviation alive_below :: "(rat \<Rightarrow> rat) \<Rightarrow> content_store \<Rightarrow> u64 \<Rightarrow> u64 \<Rightarrow> hash32 \<Rightarrow> bool" where
  "alive_below P s \<equiv> alive_in (reply_of s) P s"

abbreviation alive_indexed :: "(rat \<Rightarrow> rat) \<Rightarrow> content_store \<Rightarrow> u64 \<Rightarrow> u64 \<Rightarrow> hash32 \<Rightarrow> bool" where
  "alive_indexed P s \<equiv> alive_in (indexed_reply s) P s"

lemma indexed_reply_subset: "cc_ok s \<Longrightarrow> indexed_reply s \<subseteq> reply_of s"
  using cc_okD(3) by (fastforce simp: indexed_reply_def reply_of_def)

lemma alive_in_mono: "R \<subseteq> R' \<Longrightarrow> alive_in R P s now h p \<Longrightarrow> alive_in R' P s now h p"
  unfolding alive_in_def by (meson trancl_mono)

text \<open>The index is complete: it names every item that has a parent.\<close>

definition indexed :: "content_store \<Rightarrow> bool" where
  "indexed s \<longleftrightarrow> (\<forall>i c p. cc_get s i = Some c \<and> ci_parent_id c = Some p \<longrightarrow> i \<in> set (children_of s p))"

lemma indexed_reply_eq: "cc_ok s \<Longrightarrow> indexed s \<Longrightarrow> indexed_reply s = reply_of s"
  by (rule subset_antisym [OF indexed_reply_subset]) (auto simp: indexed_reply_def reply_of_def indexed_def)

lemma indexed_new: "indexed cc_new"
  by (simp add: indexed_def cc_new_def cc_get_def)

lemma indexed_put:
  assumes "indexed s"
  shows "indexed (snd (cc_put s c))"
proof (cases "cc_get s (ci_content_id c)")
  case None
  have "i \<in> set (children_of s p) \<Longrightarrow> i \<in> set (children_of (snd (cc_put s c)) p)" for i p
    using None by (auto simp: cc_put_def children_of_def split: option.splits)
  moreover have "ci_content_id c \<in> set (children_of (snd (cc_put s c)) p)" if "ci_parent_id c = Some p" for p
    using None that by (simp add: cc_put_def children_of_def)
  moreover have get: "cc_get (snd (cc_put s c)) i = (if i = ci_content_id c then Some c else cc_get s i)" for i
    using None by (simp add: cc_put_def cc_get_def)
  ultimately show ?thesis using assms unfolding indexed_def get by (auto split: if_splits)
qed (use assms in \<open>simp add: cc_put_def\<close>)

lemma indexed_delete: "indexed s \<Longrightarrow> \<forall>j. (j, i) \<notin> reply_of s \<Longrightarrow> indexed (snd (cc_delete s i))"
  by (auto simp: indexed_def reply_of_def children_of_delete split: option.splits)

lemma finite_indexed_reply: "finite (indexed_reply s)"
proof (rule finite_subset)
  show "indexed_reply s \<subseteq> fst ` set (cc_content s) \<times> fst ` set (cc_children_index s)"
  proof
    fix x assume "x \<in> indexed_reply s"
    then obtain i p where x: "x = (i, p)" "i \<in> set (children_of s p)" "cc_get s i \<noteq> None" by (auto simp: indexed_reply_def)
    from x(2) have "tree_get (cc_children_index s) p \<noteq> None"
      by (cases "tree_get (cc_children_index s) p") (simp_all add: children_of_def)
    with x(3) have "i \<in> fst ` set (cc_content s)" "p \<in> fst ` set (cc_children_index s)"
      by (simp_all add: cc_get_def tree_get_def map_of_eq_None_iff)
    then show "x \<in> fst ` set (cc_content s) \<times> fst ` set (cc_children_index s)" by (simp add: x(1))
  qed
qed simp

lemma set_get_children:
  assumes "cc_ok s"
  shows "c \<in> set (cc_get_children s p) \<longleftrightarrow> (ci_content_id c, p) \<in> indexed_reply s \<and> cc_get s (ci_content_id c) = Some c"
proof
  assume "c \<in> set (cc_get_children s p)"
  then obtain i where "i \<in> set (children_of s p)" "cc_get s i = Some c"
    by (auto simp: cc_get_children_def List.map_filter_def)
  then show "(ci_content_id c, p) \<in> indexed_reply s \<and> cc_get s (ci_content_id c) = Some c"
    using cc_okD(2) [OF assms] by (auto simp: indexed_reply_def)
next
  assume "(ci_content_id c, p) \<in> indexed_reply s \<and> cc_get s (ci_content_id c) = Some c"
  then show "c \<in> set (cc_get_children s p)" by (force simp: indexed_reply_def cc_get_children_def List.map_filter_def)
qed

lemma alive_indexed_step:
  assumes "cc_ok s"
  shows "alive_indexed P s now h p \<longleftrightarrow>
    (\<exists>c \<in> set (cc_get_children s p). \<not> ds_is_decayed (calculate_decay_state P c now h) \<or> alive_indexed P s now h (ci_content_id c))"
proof
  assume "alive_indexed P s now h p"
  then obtain i c where i: "(i, p) \<in> (indexed_reply s)\<^sup>+" "cc_get s i = Some c" "\<not> ds_is_decayed (calculate_decay_state P c now h)"
    by (auto simp: alive_in_def)
  from i(1) show "\<exists>c \<in> set (cc_get_children s p). \<not> ds_is_decayed (calculate_decay_state P c now h) \<or> alive_indexed P s now h (ci_content_id c)"
  proof (cases rule: tranclE)
    case base
    then have "c \<in> set (cc_get_children s p)" using i(2) set_get_children [OF assms] cc_okD(2) [OF assms i(2)] by auto
    then show ?thesis using i(3) by blast
  next
    case (step j)
    then obtain d where "cc_get s j = Some d" by (auto simp: indexed_reply_def)
    moreover from this have "ci_content_id d = j" by (rule cc_okD(2) [OF assms])
    ultimately have "d \<in> set (cc_get_children s p)" "alive_indexed P s now h (ci_content_id d)"
      using step i set_get_children [OF assms] by (auto simp: alive_in_def)
    then show ?thesis by blast
  qed
next
  assume "\<exists>c \<in> set (cc_get_children s p). \<not> ds_is_decayed (calculate_decay_state P c now h) \<or> alive_indexed P s now h (ci_content_id c)"
  then obtain c where c: "(ci_content_id c, p) \<in> indexed_reply s" "cc_get s (ci_content_id c) = Some c"
    "\<not> ds_is_decayed (calculate_decay_state P c now h) \<or> alive_indexed P s now h (ci_content_id c)"
    using set_get_children [OF assms] by blast
  then show "alive_indexed P s now h p" unfolding alive_in_def by (metis r_into_trancl trancl_into_trancl)
qed

lemma any_child_total:
  assumes "\<forall>c \<in> set cs. below (ci_content_id c) = Some (B (ci_content_id c))"
  shows "any_child decayed below cs = Some (\<exists>c \<in> set cs. \<not> decayed c \<or> B (ci_content_id c))"
  using assms by (induction cs) (auto split: bool.splits)

lemma enough_fuel:
  assumes "\<forall>x \<in> set xs. \<exists>n. \<forall>fuel \<ge> n. Q x fuel"
  shows "\<exists>n. \<forall>x \<in> set xs. \<forall>fuel \<ge> (n :: nat). Q x fuel"
  using assms
proof (induction xs)
  case (Cons x xs)
  then obtain n m where "\<forall>fuel \<ge> n. Q x fuel" "\<forall>y \<in> set xs. \<forall>fuel \<ge> m. Q y fuel" by auto
  then show ?case by (intro exI [of _ "max n m"]) auto
qed simp

lemma children_search:
  assumes "cc_ok s" and "acyclic (reply_of s)"
  shows "\<exists>n. \<forall>fuel \<ge> n. has_non_decayed_children fuel P s now h p = Some (alive_indexed P s now h p)"
proof -
  have "acyclic (indexed_reply s)" using acyclic_subset [OF assms(2) indexed_reply_subset [OF assms(1)]] .
  then have "wf (indexed_reply s)" by (rule finite_acyclic_wf [OF finite_indexed_reply])
  then show ?thesis
  proof (induction p rule: wf_induct_rule)
    case (less p)
    have "\<forall>c \<in> set (cc_get_children s p). \<exists>n. \<forall>fuel \<ge> n.
        has_non_decayed_children fuel P s now h (ci_content_id c) = Some (alive_indexed P s now h (ci_content_id c))"
      using less set_get_children [OF assms(1)] by blast
    from enough_fuel [OF this] obtain n where n: "\<forall>c \<in> set (cc_get_children s p). \<forall>fuel \<ge> n.
        has_non_decayed_children fuel P s now h (ci_content_id c) = Some (alive_indexed P s now h (ci_content_id c))"
      by blast
    have "has_non_decayed_children fuel P s now h p = Some (alive_indexed P s now h p)" if le: "Suc n \<le> fuel" for fuel
    proof -
      obtain f where f: "fuel = Suc f" "n \<le> f" using le by (cases fuel) auto
      show ?thesis using any_child_total [of "cc_get_children s p" "has_non_decayed_children f P s now h" "alive_indexed P s now h"] n f(2)
        unfolding f(1) alive_indexed_step [OF assms(1), of P now h p] by simp
    qed
    then show ?case by blast
  qed
qed

text \<open>Replies that form a circle make the search run for ever: content that names itself as its parent is enough.\<close>

theorem self_reply_diverges:
  assumes "children_of s i = [i]" and "cc_get s i = Some c" and "ci_content_id c = i"
    and "ds_is_decayed (calculate_decay_state P c now h)"
  shows "has_non_decayed_children fuel P s now h i = None"
  using assms by (induction fuel) (simp_all add: cc_get_children_def List.map_filter_def)

subsection \<open>Pruning is coherent\<close>

definition grave :: "(bytes \<Rightarrow> hash32) \<Rightarrow> u64 \<Rightarrow> content_item \<Rightarrow> content_tombstone" where
  "grave sha now c =
     \<lparr>tb_content_id = ci_content_id c, tb_tombstone_time = now, tb_author_id = ci_author_id c,
      tb_summary_hash = compute_summary_hash sha (ci_body_inline c)\<rparr>"

text \<open>What a run removes: what has decayed, with a day of grace since the last engagement.\<close>

definition prune_due :: "(rat \<Rightarrow> rat) \<Rightarrow> u64 \<Rightarrow> u64 \<Rightarrow> content_item \<Rightarrow> bool" where
  "prune_due P now h c \<longleftrightarrow>
     ds_is_decayed (calculate_decay_state P c now h) \<and> unat (ci_last_engagement c) + 86400000 \<le> unat now"

lemma classify_items_spec:
  assumes "\<And>c. c \<in> set cs \<Longrightarrow> (ds_is_decayed (calculate_decay_state P c now h) \<and> \<not> ds_is_protected (calculate_decay_state P c now h) \<and>
      \<not> sat_sub now (ci_last_engagement c) < PRUNE_GRACE_PERIOD_MS) = gone c"
    and "\<And>c. c \<in> set cs \<Longrightarrow> has_non_decayed_children fuel P s now h (ci_content_id c) = Some (alive (ci_content_id c))"
  shows "classify_items sha fuel P s now h cs =
    Some (map ci_content_id (filter (\<lambda>c. gone c \<and> \<not> alive (ci_content_id c)) cs),
      map (\<lambda>c. (ci_content_id c, grave sha now c)) (filter (\<lambda>c. gone c \<and> alive (ci_content_id c)) cs))"
  using assms
proof (induction cs)
  case (Cons c cs)
  then show ?case using Cons.prems(1) [of c] Cons.prems(2) [of c] by (simp add: Let_def grave_def)
qed simp

lemma stored_entry: "cc_ok s \<Longrightarrow> (i, c) \<in> set (cc_content s) \<longleftrightarrow> cc_get s i = Some c"
  using cc_okD(1) [of s] by (simp add: cc_get_def tree_get_def map_of_eq_Some_iff)

lemma stored_items: "cc_ok s \<Longrightarrow> c \<in> set (map snd (cc_content s)) \<longleftrightarrow> cc_get s (ci_content_id c) = Some c"
proof
  assume "cc_ok s" "c \<in> set (map snd (cc_content s))"
  moreover from this(2) obtain i where "(i, c) \<in> set (cc_content s)" by auto
  ultimately show "cc_get s (ci_content_id c) = Some c" using stored_entry cc_okD(2) by metis
next
  assume "cc_ok s" "cc_get s (ci_content_id c) = Some c"
  then have "(ci_content_id c, c) \<in> set (cc_content s)" by (simp only: stored_entry)
  then have "snd (ci_content_id c, c) \<in> snd ` set (cc_content s)" by (rule imageI)
  then show "c \<in> set (map snd (cc_content s))" by simp
qed

lemma stored_ids: "cc_ok s \<Longrightarrow> map ci_content_id (map snd (cc_content s)) = map fst (cc_content s)"
  unfolding map_map by (rule map_cong [OF refl]) (metis comp_apply prod.collapse stored_entry cc_okD(2))

lemma selected_ids:
  assumes "cc_ok s"
  shows "i \<in> set (map ci_content_id (filter Q (map snd (cc_content s)))) \<longleftrightarrow> (\<exists>c. cc_get s i = Some c \<and> Q c)"
proof -
  have "i \<in> set (map ci_content_id (filter Q (map snd (cc_content s)))) \<longleftrightarrow>
      (\<exists>c. i = ci_content_id c \<and> c \<in> set (map snd (cc_content s)) \<and> Q c)" by auto
  then show ?thesis unfolding stored_items [OF assms] using cc_okD(2) [OF assms] by blast
qed

lemma selected_map:
  assumes "cc_ok s"
  shows "map_of (map (\<lambda>c. (ci_content_id c, g c)) (filter Q (map snd (cc_content s)))) i =
    (case cc_get s i of Some c \<Rightarrow> if Q c then Some (g c) else None | None \<Rightarrow> None)" (is "map_of ?l i = _")
proof -
  have f: "map fst ?l = map ci_content_id (filter Q (map snd (cc_content s)))" by simp
  have "distinct (map ci_content_id (map snd (cc_content s)))"
    unfolding stored_ids [OF assms] by (rule cc_okD(1) [OF assms])
  then have d: "distinct (map fst ?l)" unfolding f by (rule distinct_map_filter)
  show ?thesis
  proof (cases "\<exists>c. cc_get s i = Some c \<and> Q c")
    case True
    then obtain c where c: "cc_get s i = Some c" "Q c" by blast
    note i = cc_okD(2) [OF assms c(1)]
    have "c \<in> set (map snd (cc_content s))" using c(1) i unfolding stored_items [OF assms] by simp
    then have "(i, g c) \<in> set ?l" using c(2) i by (simp only: set_map set_filter) blast
    then have "map_of ?l i = Some (g c)" by (rule map_of_is_SomeI [OF d])
    then show ?thesis using c by simp
  next
    case False
    then have "i \<notin> set (map fst ?l)" unfolding f selected_ids [OF assms] .
    then have "map_of ?l i = None" by (simp only: map_of_eq_None_iff set_map not_False_eq_True)
    then show ?thesis using False by (simp split: option.splits)
  qed
qed

lemma delete_items_ok: "foldl delete_item (n, s) is = (n', s') \<Longrightarrow> cc_ok s \<Longrightarrow> cc_ok s'"
proof (induction "is" arbitrary: n s)
  case (Cons i "is")
  then show ?case using cc_delete_ok [OF Cons.prems(2), of i] by (cases "cc_delete s i") (auto simp: delete_item_def)
qed simp

lemma bury_items_ok: "foldl bury_item (n, b, s) ts = (n', b', s') \<Longrightarrow> cc_ok s \<Longrightarrow> cc_ok s'"
proof (induction ts arbitrary: n b s)
  case (Cons x ts)
  obtain i t where x: "x = (i, t)" by (cases x)
  obtain e s1 where d: "cc_delete s i = (e, s1)" by (cases "cc_delete s i")
  have "cc_ok s1" using cc_delete_ok [OF Cons.prems(2), of i] by (simp add: d)
  then show ?case using Cons by (cases e) (auto simp: bury_item_def x d)
qed simp


lemma prune_spec:
  assumes ok: "cc_ok s" and "acyclic (reply_of s)"
  shows "\<exists>n. \<forall>fuel \<ge> n. \<exists>stats s'. prune_decayed_content sha fuel P s now h = Some (stats, s') \<and> cc_ok s' \<and>
    (\<forall>i. cc_get s' i = (case cc_get s i of
       Some c \<Rightarrow> if prune_due P now h c then None else Some c | None \<Rightarrow> None)) \<and>
    (\<forall>i. get_tombstone s' i = (case cc_get s i of
       Some c \<Rightarrow> if prune_due P now h c \<and> alive_indexed P s now h i then Some (grave sha now c) else get_tombstone s i
     | None \<Rightarrow> get_tombstone s i))"
proof -
  let ?cs = "map snd (cc_content s)"
  let ?gone = "prune_due P now h"
  let ?live = "\<lambda>c. alive_indexed P s now h (ci_content_id c)"
  note cs = stored_items [OF ok] and ids = stored_ids [OF ok]
  have gone: "(ds_is_decayed (calculate_decay_state P c now h) \<and> \<not> ds_is_protected (calculate_decay_state P c now h) \<and>
      \<not> sat_sub now (ci_last_engagement c) < PRUNE_GRACE_PERIOD_MS) = ?gone c" for c
    unfolding prune_due_def using decayed_iff [of P c now h] protected_iff [of P c now h]
    by (auto simp: word_less_nat_alt unat_sat_sub decay_constants)
  from enough_fuel [of ?cs "\<lambda>c fuel. has_non_decayed_children fuel P s now h (ci_content_id c) = Some (?live c)"]
  obtain n where n: "\<forall>c \<in> set ?cs. \<forall>fuel \<ge> n. has_non_decayed_children fuel P s now h (ci_content_id c) = Some (?live c)"
    using children_search [OF assms(1,2)] by blast
  let ?del = "map ci_content_id (filter (\<lambda>c. ?gone c \<and> \<not> ?live c) ?cs)"
  let ?bury = "map (\<lambda>c. (ci_content_id c, grave sha now c)) (filter (\<lambda>c. ?gone c \<and> ?live c) ?cs)"
  obtain m s1 where 1: "foldl delete_item (0, s) ?del = (m, s1)" by (rule prod.exhaust)
  obtain m' b s2 where 2: "foldl bury_item (m, 0, s1) ?bury = (m', b, s2)" by (rule prod_cases3)
  have "\<exists>stats. prune_decayed_content sha fuel P s now h = Some (stats, s2)" if "n \<le> fuel" for fuel
    using classify_items_spec [of ?cs P now h ?gone fuel s "alive_indexed P s now h" sha] gone n that 1 2
    by (simp add: prune_decayed_content_def)
  moreover have "cc_ok s2" using bury_items_ok [OF 2 delete_items_ok [OF 1 ok]] .
  moreover note get1 = cc.delete_all [OF 1 [unfolded delete_item_def], unfolded selected_ids [OF ok]]
  have f: "map fst ?bury = map ci_content_id (filter (\<lambda>c. ?gone c \<and> ?live c) ?cs)" by simp
  have "distinct (map ci_content_id ?cs)" unfolding ids by (rule cc_okD(1) [OF ok])
  then have dist: "distinct (map fst ?bury)" unfolding f by (rule distinct_map_filter)
  have buried: "i \<in> fst ` set ?bury \<longleftrightarrow> (\<exists>c. cc_get s i = Some c \<and> ?gone c \<and> ?live c)" for i
    using selected_ids [OF ok, of i "\<lambda>c. ?gone c \<and> ?live c"] unfolding f [symmetric] set_map .
  have pre: "\<forall>(i, t) \<in> set ?bury. tb_content_id t = i \<and> cc_get s1 i \<noteq> None"
  proof (rule ballI, rule case_prodI2)
    fix x i t assume "x \<in> set ?bury" "x = (i, t)"
    then have "tb_content_id t = i" "\<exists>c. cc_get s i = Some c \<and> ?gone c \<and> ?live c"
      using buried [of i] by (auto simp: grave_def image_iff)
    then show "tb_content_id t = i \<and> cc_get s1 i \<noteq> None" using get1(1) [of i] by auto
  qed
  note get2 = cc.bury_all [OF 2 [unfolded bury_item_def] dist pre, unfolded buried selected_map [OF ok]]
  have "cc_get s2 i = (case cc_get s i of Some c \<Rightarrow> if ?gone c then None else Some c | None \<Rightarrow> None)" for i
    using get1(1) [of i] get2 [of i] by (auto split: option.splits)
  moreover have "get_tombstone s2 i = (case cc_get s i of
      Some c \<Rightarrow> if ?gone c \<and> alive_indexed P s now h i then Some (grave sha now c) else get_tombstone s i
    | None \<Rightarrow> get_tombstone s i)" for i
    using get1(2) [of i] get2 [of i] cc_okD(2) [OF ok, of i] by (auto split: option.splits)
  ultimately show ?thesis by blast
qed

text \<open>
  C34. Pruning keeps threads coherent as far as the index of children reaches: as long as replies form no circle, a run
  ends; it keeps the books of the store; the items that are gone are exactly those that have decayed and were
  not engaged with for a day; and of these exactly the ones below which the index of children leads to a living
  reply, at whatever depth, leave a tombstone with their author and the hash of what they said. What the index
  leads to are replies, and as long as the index is complete, as it is until an item with replies is first
  removed, it leads to all of them: then the tombstones stand exactly where replies are alive. After
  that the index may miss living replies, as shown below. Nothing is assumed of the precision of the power function.
\<close>

theorem prune_coherent:
  assumes "cc_ok s" and "acyclic (reply_of s)"
  shows "\<exists>n. \<forall>fuel \<ge> n. \<exists>stats s'. prune_decayed_content sha fuel P s now h = Some (stats, s') \<and> cc_ok s' \<and>
    (\<forall>i. cc_get s' i = (case cc_get s i of
       Some c \<Rightarrow> if prune_due P now h c then None else Some c | None \<Rightarrow> None)) \<and>
    (\<forall>i. get_tombstone s' i = (case cc_get s i of
       Some c \<Rightarrow> if prune_due P now h c \<and> alive_indexed P s now h i then Some (grave sha now c) else get_tombstone s i
     | None \<Rightarrow> get_tombstone s i)) \<and>
    (\<forall>i. alive_indexed P s now h i \<longrightarrow> alive_below P s now h i) \<and>
    (indexed s \<longrightarrow> (\<forall>i. alive_indexed P s now h i \<longleftrightarrow> alive_below P s now h i))"
  using prune_spec [OF assms, of sha P now h] alive_in_mono [OF indexed_reply_subset [OF assms(1)]] indexed_reply_eq [OF assms(1)]
  by simp

definition reply_thread :: content_store where
  "reply_thread =
     snd (cc_put (snd (cc_put (snd (cc_put cc_new (sample_content (replicate 32 1) None 0\<lparr>ci_last_engagement := 2592001000\<rparr>)))
       (sample_content (replicate 32 2) (Some (replicate 32 1)) 0))) (sample_content (replicate 32 3) (Some (replicate 32 2)) 2592001000))"

lemma reply_thread_facts:
  "cc_ok reply_thread" "indexed reply_thread" "indexed_reply reply_thread = {(replicate 32 2, replicate 32 1), (replicate 32 3, replicate 32 2)}"
  "cc_get reply_thread (replicate 32 1) = Some (sample_content (replicate 32 1) None 0\<lparr>ci_last_engagement := 2592001000\<rparr>)"
  "cc_get reply_thread (replicate 32 2) = Some (sample_content (replicate 32 2) (Some (replicate 32 1)) 0)"
  "cc_get reply_thread (replicate 32 3) = Some (sample_content (replicate 32 3) (Some (replicate 32 2)) 2592001000)"
proof -
  show "cc_ok reply_thread"
    unfolding reply_thread_def
    by (intro cc_put_ok cc_ok_new) (simp_all add: cc_put_def cc_new_def cc_get_def items_size_def estimate_item_size_def tree_insert_def replicate_eq_replicate split: option.splits)
  show "indexed reply_thread" unfolding reply_thread_def by (intro indexed_put indexed_new)
  have index: "children_of reply_thread p =
      (if p = replicate 32 1 then [replicate 32 2] else if p = replicate 32 2 then [replicate 32 3] else [])" for p
    by (simp add: reply_thread_def cc_put_def cc_new_def cc_get_def children_of_def replicate_eq_replicate)
  show get: "cc_get reply_thread (replicate 32 1) = Some (sample_content (replicate 32 1) None 0\<lparr>ci_last_engagement := 2592001000\<rparr>)"
    "cc_get reply_thread (replicate 32 2) = Some (sample_content (replicate 32 2) (Some (replicate 32 1)) 0)"
    "cc_get reply_thread (replicate 32 3) = Some (sample_content (replicate 32 3) (Some (replicate 32 2)) 2592001000)"
    by (simp_all add: reply_thread_def cc_put_def cc_new_def cc_get_def replicate_eq_replicate)
  show "indexed_reply reply_thread = {(replicate 32 2, replicate 32 1), (replicate 32 3, replicate 32 2)}"
    using get by (auto simp: indexed_reply_def index split: if_splits)
qed

lemma reply_thread_replies: "reply_of reply_thread = {(replicate 32 2, replicate 32 1), (replicate 32 3, replicate 32 2)}"
  using indexed_reply_eq [OF reply_thread_facts(1,2)] reply_thread_facts(3) by simp

lemma reply_thread_acyclic: "acyclic (reply_of reply_thread)"
proof -
  have "reply_of reply_thread \<subseteq> measure (\<lambda>i. 3 - unat (hd i))"
    by (simp add: reply_thread_replies)
  then show ?thesis by (rule acyclic_subset [OF wf_acyclic [OF wf_measure]])
qed

lemma sample_due:
  "prune_due cut_pow now 604800 c \<longleftrightarrow>
     ds_is_decayed (calculate_decay_state cut_pow c now 604800) \<and> unat (ci_last_engagement c) + 86400000 \<le> unat now"
  "ds_is_decayed (calculate_decay_state cut_pow c now 604800) \<longleftrightarrow>
     unat (ci_created_at c) div 1000 + 172800 \<le> unat now div 1000 \<and> \<not> pinned c now \<and>
     unat (ci_last_engagement c) div 1000 + 172800 + 4 * 604800 < unat now div 1000"
  using faded_cut_pow [OF sample_half_life] by (simp_all add: prune_due_def decayed_iff)

theorem prune_coherent_witness:
  "\<exists>fuel stats s'. prune_decayed_content (\<lambda>_. zero32) fuel cut_pow reply_thread 2592001000 604800 = Some (stats, s') \<and>
     cc_get s' (replicate 32 1) \<noteq> None \<and> cc_get s' (replicate 32 2) = None \<and> get_tombstone s' (replicate 32 2) \<noteq> None \<and>
     cc_get s' (replicate 32 3) \<noteq> None"
proof -
  have "\<not> ds_is_decayed (calculate_decay_state cut_pow (sample_content (replicate 32 3) (Some (replicate 32 2)) 2592001000) 2592001000 604800)"
    by (simp add: sample_due)
  then have "alive_below cut_pow reply_thread 2592001000 604800 (replicate 32 2)"
    unfolding alive_in_def reply_thread_replies using reply_thread_facts(6) by (blast intro: r_into_trancl)
  with prune_coherent [OF reply_thread_facts(1) reply_thread_acyclic, of "\<lambda>_. zero32" cut_pow 2592001000 604800] reply_thread_facts(2)
  show ?thesis by (fastforce simp: reply_thread_facts(4-6) sample_due)
qed

lemma children_of_delete_subset: "set (children_of (snd (cc_delete s i)) p) \<subseteq> set (children_of s p)"
  by (auto simp: children_of_delete split: option.splits if_splits)

lemma delete_items_children: "foldl delete_item (n, s) is = (n', s') \<Longrightarrow> set (children_of s' p) \<subseteq> set (children_of s p)"
proof (induction "is" arbitrary: n s)
  case (Cons i "is")
  then show ?case using children_of_delete_subset [of s i p] by (cases "cc_delete s i") (fastforce simp: delete_item_def)
qed simp

lemma bury_items_children: "foldl bury_item (n, b, s) ts = (n', b', s') \<Longrightarrow> set (children_of s' p) \<subseteq> set (children_of s p)"
proof (induction ts arbitrary: n b s)
  case (Cons x ts)
  obtain i t where x: "x = (i, t)" by (cases x)
  obtain e s1 where d: "cc_delete s i = (e, s1)" by (cases "cc_delete s i")
  have "children_of (put_tombstone s1 t) p = children_of s1 p" by (simp add: children_of_def put_tombstone_def)
  then show ?case using Cons.prems Cons.IH children_of_delete_subset [of s i p] unfolding x d bury_item_def
    by (cases e) (fastforce simp: d)+
qed simp

lemma prune_children:
  assumes "prune_decayed_content sha fuel P s now h = Some (stats, s')"
  shows "set (children_of s' p) \<subseteq> set (children_of s p)"
  using assms delete_items_children bury_items_children
  by (fastforce simp: prune_decayed_content_def Let_def split: option.splits prod.splits)

text \<open>
  A tombstone cuts its thread in two. The entry of its replies goes with the content, so that later runs do not see
  them from above: once all direct replies of some content are gone, the index leads to nothing alive below it,
  whatever is said further down and however long it lives. When its own time comes it is deleted without a tombstone.
\<close>

theorem tombstone_cuts_thread:
  assumes "cc_ok s" and "acyclic (reply_of s)"
    and "\<forall>i c. (i, g) \<in> reply_of s \<and> cc_get s i = Some c \<longrightarrow> prune_due P now h c"
  shows "\<exists>n. \<forall>fuel \<ge> n. \<exists>stats s'. prune_decayed_content sha fuel P s now h = Some (stats, s') \<and>
    (\<forall>P' later h'. \<not> alive_indexed P' s' later h' g)"
proof -
  from prune_spec [OF assms(1,2), of sha P now h] obtain n where n: "\<forall>fuel \<ge> n. \<exists>stats s'. prune_decayed_content sha fuel P s now h = Some (stats, s') \<and>
    (\<forall>i. cc_get s' i = (case cc_get s i of Some c \<Rightarrow> if prune_due P now h c then None else Some c | None \<Rightarrow> None))" by blast
  have "\<not> alive_indexed P' s' later h' g"
    if pr: "prune_decayed_content sha fuel P s now h = Some (stats, s')"
      and get: "\<forall>i. cc_get s' i = (case cc_get s i of Some c \<Rightarrow> if prune_due P now h c then None else Some c | None \<Rightarrow> None)"
    for fuel stats s' P' later h'
  proof
    assume "alive_indexed P' s' later h' g"
    then obtain j where "(j, g) \<in> indexed_reply s'" unfolding alive_in_def by (metis tranclE)
    then have j: "j \<in> set (children_of s g)" "cc_get s' j \<noteq> None" using prune_children [OF pr] by (auto simp: indexed_reply_def)
    then obtain c where c: "cc_get s j = Some c" "\<not> prune_due P now h c"
      using get by (cases "cc_get s j") (auto split: if_splits)
    moreover have "(j, g) \<in> reply_of s" using cc_okD(3) [OF assms(1) j(1)] by (auto simp: reply_of_def)
    ultimately show False using assms(3) by blast
  qed
  with n show ?thesis by meson
qed

theorem tombstone_cuts_thread_witness:
  "alive_below cut_pow reply_thread 2592001000 604800 (replicate 32 1) \<and>
   (\<exists>fuel stats s'. prune_decayed_content (\<lambda>_. zero32) fuel cut_pow reply_thread 2592001000 604800 = Some (stats, s') \<and>
     (\<forall>P later h'. \<not> alive_indexed P s' later h' (replicate 32 1)))"
proof
  have "(replicate 32 3, replicate 32 1) \<in> (reply_of reply_thread)\<^sup>+"
    unfolding reply_thread_replies by (rule trancl_into_trancl [OF r_into_trancl, of _ "replicate 32 2"]) simp_all
  moreover have "\<not> ds_is_decayed (calculate_decay_state cut_pow (sample_content (replicate 32 3) (Some (replicate 32 2)) 2592001000) 2592001000 604800)"
    by (simp add: sample_due)
  ultimately show "alive_below cut_pow reply_thread 2592001000 604800 (replicate 32 1)"
    unfolding alive_in_def using reply_thread_facts(6) by blast
  have "\<forall>i c. (i, replicate 32 1) \<in> reply_of reply_thread \<and> cc_get reply_thread i = Some c \<longrightarrow> prune_due cut_pow 2592001000 604800 c"
    by (auto simp: reply_thread_replies reply_thread_facts replicate_eq_replicate sample_due)
  from tombstone_cuts_thread [OF reply_thread_facts(1) reply_thread_acyclic this, of "\<lambda>_. zero32"]
  show "\<exists>fuel stats s'. prune_decayed_content (\<lambda>_. zero32) fuel cut_pow reply_thread 2592001000 604800 = Some (stats, s') \<and>
     (\<forall>P later h'. \<not> alive_indexed P s' later h' (replicate 32 1))" by blast
qed

subsection \<open>The manager keeps its books\<close>

inductive manager_step :: "(bytes \<Rightarrow> hash32) \<Rightarrow> (rat \<Rightarrow> rat) \<Rightarrow> content_manager \<Rightarrow> content_manager \<Rightarrow> bool" for sha P where
  created: "items_size (cc_content (mg_storage mg)) + unat (estimate_item_size c) < 2 ^ 64 \<Longrightarrow>
    manager_step sha P mg (snd (create_content mg c))"
| engaged: "manager_step sha P mg (snd (mg_process_engagement P mg e now))"
| pruned: "mg_prune sha fuel P mg now = Some (stats, mg') \<Longrightarrow> manager_step sha P mg mg'"
| adapted: "manager_step sha P mg (snd (mg_adapt_half_life mg))"

definition mg_ok :: "content_manager \<Rightarrow> bool" where
  "mg_ok mg \<longleftrightarrow> cc_ok (mg_storage mg) \<and>
     MIN_HALF_LIFE_SECS \<le> mg_current_half_life_secs mg \<and> mg_current_half_life_secs mg \<le> MAX_HALF_LIFE_SECS"

lemma items_size_replace:
  "distinct (map fst t) \<Longrightarrow> tree_get t i = Some c \<Longrightarrow> estimate_item_size c' = estimate_item_size c \<Longrightarrow>
   items_size (tree_insert t i c') = items_size t"
proof (induction t)
  case (Cons e t)
  then show ?case by (cases e) (auto simp: items_size_def tree_insert_def tree_get_def split: if_splits)
qed (simp add: tree_get_def)

lemma process_engagement_frame:
  assumes "process_engagement P c e now h = (r, c')"
  shows "ci_content_id c' = ci_content_id c" "ci_parent_id c' = ci_parent_id c" "estimate_item_size c' = estimate_item_size c"
  using assms by (auto simp: process_engagement_def Let_def estimate_item_size_def split: if_splits engagement_type.splits)

lemma replace_item_ok:
  assumes "cc_ok s" and "cc_get s i = Some c"
    and "ci_content_id c' = ci_content_id c" "ci_parent_id c' = ci_parent_id c" "estimate_item_size c' = estimate_item_size c"
  shows "cc_ok (s\<lparr>cc_content := tree_insert (cc_content s) i c'\<rparr>)"
proof -
  note ok = cc_okD [OF assms(1)]
  have get: "cc_get (s\<lparr>cc_content := tree_insert (cc_content s) i c'\<rparr>) j = (if j = i then Some c' else cc_get s j)" for j
    by (simp add: cc_get_def)
  have "children_of (s\<lparr>cc_content := tree_insert (cc_content s) i c'\<rparr>) p = children_of s p" for p by (simp add: children_of_def)
  moreover have "distinct (map fst (tree_insert (cc_content s) i c'))" using ok(1) by (simp add: tree_insert_def AList.distinct_update)
  moreover have "items_size (tree_insert (cc_content s) i c') = items_size (cc_content s)"
    using items_size_replace [OF ok(1)] assms(2,5) by (simp add: cc_get_def)
  moreover have "\<exists>d. (if j = i then Some c' else cc_get s j) = Some d \<and> ci_parent_id d = Some p" if "j \<in> set (children_of s p)" for j p
    using ok(3) [OF that] assms(2,4) by auto
  ultimately show ?thesis using ok(2,4) assms(2,3) unfolding cc_ok_def get by simp
qed

lemma prune_ok: "prune_decayed_content sha fuel P s now h = Some (stats, s') \<Longrightarrow> cc_ok s \<Longrightarrow> cc_ok s'"
  by (auto simp: prune_decayed_content_def Let_def split: option.splits prod.splits dest: delete_items_ok bury_items_ok)

lemma adapted_bounds:
  "MIN_HALF_LIFE_SECS \<le> h \<Longrightarrow> h \<le> MAX_HALF_LIFE_SECS \<Longrightarrow>
   MIN_HALF_LIFE_SECS \<le> calculate_adaptive_half_life \<lparr>ns_total_storage_bytes = used, ns_target_storage_bytes = target, ns_current_half_life_secs = h\<rparr> \<and>
   calculate_adaptive_half_life \<lparr>ns_total_storage_bytes = used, ns_target_storage_bytes = target, ns_current_half_life_secs = h\<rparr> \<le> MAX_HALF_LIFE_SECS"
  using half_life_in_bounds [of "\<lparr>ns_total_storage_bytes = used, ns_target_storage_bytes = target, ns_current_half_life_secs = h\<rparr>"] by simp

lemma manager_step_ok: "manager_step sha P mg mg' \<Longrightarrow> mg_ok mg \<Longrightarrow> mg_ok mg'"
proof (induction rule: manager_step.induct)
  case (created mg c)
  let ?c = "c\<lparr>ci_last_engagement := ci_created_at c\<rparr>"
  have "estimate_item_size ?c = estimate_item_size c" by (simp add: estimate_item_size_def)
  then have "cc_ok (snd (cc_put (mg_storage mg) ?c))" using created by (intro cc_put_ok) (simp_all add: mg_ok_def)
  then show ?case using created(2)
    by (cases "cc_put (mg_storage mg) ?c") (auto simp: create_content_def Let_def mg_ok_def split: sum.splits)
next
  case (engaged mg e now)
  show ?case
  proof (cases "cc_get (mg_storage mg) (er_content_id e)")
    case (Some c)
    obtain r c' where p: "process_engagement P c e now (mg_current_half_life_secs mg) = (r, c')" by (rule prod.exhaust)
    show ?thesis using engaged Some p replace_item_ok [OF _ Some process_engagement_frame [OF p]]
      by (simp add: mg_process_engagement_def mg_ok_def)
  qed (use engaged in \<open>simp add: mg_process_engagement_def\<close>)
next
  case (pruned fuel mg now stats mg')
  then show ?case by (auto simp: mg_prune_def mg_ok_def split: option.splits dest: prune_ok)
next
  case (adapted mg)
  then show ?case using adapted_bounds by (simp add: mg_adapt_half_life_def Let_def mg_ok_def)
qed

lemma mg_ok_start: "mg_ok (with_target_storage target)"
  by (simp add: mg_ok_def with_target_storage_def cc_ok_new decay_constants)

text \<open>
  The manager keeps its books: whatever is created, engaged with and pruned, every item is stored under its id, the
  children index names stored items with that parent only, the count of bytes is the sum of the estimated
  sizes, and the half-life is between one day and thirty, as long as the sizes do not exceed 64 bits.
\<close>

theorem manager_keeps_books:
  assumes "(manager_step sha P)\<^sup>*\<^sup>* (with_target_storage target) mg"
  shows "(\<forall>i c. get_content mg i = Some c \<longrightarrow> ci_content_id c = i) \<and>
    (\<forall>p i. i \<in> set (children_of (mg_storage mg) p) \<longrightarrow> (\<exists>c. get_content mg i = Some c \<and> ci_parent_id c = Some p)) \<and>
    unat (cc_total_bytes (mg_storage mg)) = sum_list (map (\<lambda>(_, c). unat (estimate_item_size c)) (cc_content (mg_storage mg))) \<and>
    86400 \<le> unat (mg_current_half_life_secs mg) \<and> unat (mg_current_half_life_secs mg) \<le> 2592000"
proof -
  have "mg_ok mg" using assms
    by (induction rule: rtranclp_induct) (blast intro: mg_ok_start manager_step_ok)+
  then show ?thesis by (simp add: mg_ok_def cc_ok_def get_content_def items_size_def decay_constants word_le_nat_alt)
qed

theorem manager_keeps_books_witness:
  "cc_total_bytes (mg_storage (snd (create_content mg_new (sample_content zero32 None 7)))) = 200"
proof -
  have "(manager_step sha P)\<^sup>*\<^sup>* (with_target_storage TARGET_STORAGE_BYTES) (snd (create_content mg_new (sample_content zero32 None 7)))" for sha P
    unfolding mg_new_def
    by (rule r_into_rtranclp, rule manager_step.created)
      (simp add: with_target_storage_def cc_new_def items_size_def estimate_item_size_def)
  from manager_keeps_books [OF this]
  have "unat (cc_total_bytes (mg_storage (snd (create_content mg_new (sample_content zero32 None 7))))) = 200"
    by (simp add: create_content_def mg_new_def with_target_storage_def cc_put_def cc_new_def cc_get_def tree_insert_def estimate_item_size_def)
  then show ?thesis by (simp add: word_unat_eq_iff)
qed

end
