(* ===== verification/Decay_Track.thy ===== *)
theory Decay_Track
  imports Content_Decay Spam_Correct
begin

text \<open>
  The tracking of blobs for decay (\<open>src/content/decay_integration.rs\<close>) and the periodic task that drives it
  (\<open>spawn_decay_tick\<close> in \<open>src/node/tasks.rs\<close>): every blob file has an entry that says when it came and when
  it was last engaged with; a run removes what has decayed, entry and file, with the half-life of the node or,
  for content that is flagged as spam, one of four hours. The entries are kept under the hash of the blob; its
  spelling in hexadecimal and the file they are saved to are left out. The clock, the blob files and whether
  the operating system lets a file be removed are arguments.
\<close>

subsection \<open>Entries\<close>

record decay_metadata =
  dm_blob_hash :: hash32
  dm_content_id :: hash32
  dm_author_id :: hash32
  dm_space_id :: hash32
  dm_content_type :: byte
  dm_parent_id :: "hash32 option"
  dm_created_at :: u64
  dm_last_engagement :: u64
  dm_engagement_count :: u32
  dm_content_size :: u64
  dm_is_pinned :: bool

definition from_content ::
  "hash32 \<Rightarrow> hash32 \<Rightarrow> hash32 \<Rightarrow> hash32 \<Rightarrow> content_type \<Rightarrow> hash32 option \<Rightarrow> u64 \<Rightarrow> u64 \<Rightarrow> decay_metadata" where
  "from_content blob_hash content_id author_id space_id ty parent_id created_at content_size =
     \<lparr>dm_blob_hash = blob_hash, dm_content_id = content_id, dm_author_id = author_id, dm_space_id = space_id,
      dm_content_type = (case ty of PostContent \<Rightarrow> 0 | ReplyContent \<Rightarrow> 1 | QuoteContent \<Rightarrow> 2 | EditContent \<Rightarrow> 3),
      dm_parent_id = parent_id, dm_created_at = created_at, dm_last_engagement = created_at, dm_engagement_count = 0,
      dm_content_size = content_size, dm_is_pinned = False\<rparr>"

definition to_content_item :: "decay_metadata \<Rightarrow> content_item" where
  "to_content_item m =
     \<lparr>ci_content_id = dm_content_id m, ci_author_id = dm_author_id m,
      ci_content_type = (if dm_content_type m = 0 then PostContent else if dm_content_type m = 1 then ReplyContent else QuoteContent),
      ci_space_id = dm_space_id m, ci_parent_id = dm_parent_id m, ci_created_at = dm_created_at m,
      ci_last_engagement = dm_last_engagement m, ci_body_inline = None, ci_content_hash = None,
      ci_content_size = Some (ucast (dm_content_size m)), ci_content_type_mime = None, ci_media_refs = [],
      ci_pin_state =
        (if dm_is_pinned m
         then Some \<lparr>ps_pin_type = AuthorPin, ps_pin_created = dm_created_at m, ps_pin_expiry = None, ps_pin_cost = 0\<rparr>
         else None),
      ci_engagement_count = dm_engagement_count m, ci_signature = replicate 64 0, ci_pow_nonce = 0, ci_pow_difficulty = 0,
      ci_preservation_pow = None, ci_display_name = None\<rparr>"

record decay_store =
  de_items :: "(hash32, decay_metadata) tree"
  de_half_life_secs :: u64
  de_last_adaptation :: u64

definition decay_store_default :: decay_store where
  "decay_store_default = \<lparr>de_items = [], de_half_life_secs = HALF_LIFE_SECS, de_last_adaptation = 0\<rparr>"

record decay_integration =
  di_store :: decay_store
  di_blobs :: "hash32 list"
  di_target_storage_bytes :: u64
  di_spam_attestation_store :: "spam_store option"

definition di_new :: "hash32 list \<Rightarrow> u64 \<Rightarrow> decay_integration" where
  "di_new blobs target =
     \<lparr>di_store = decay_store_default, di_blobs = blobs, di_target_storage_bytes = target, di_spam_attestation_store = None\<rparr>"

subsection \<open>Registration and engagement\<close>

definition set_items :: "decay_integration \<Rightarrow> (hash32, decay_metadata) tree \<Rightarrow> decay_integration" where
  "set_items di items = di\<lparr>di_store := (di_store di)\<lparr>de_items := items\<rparr>\<rparr>"

definition di_contains :: "decay_integration \<Rightarrow> hash32 \<Rightarrow> bool" where
  "di_contains di blob_hash \<longleftrightarrow> tree_get (de_items (di_store di)) blob_hash \<noteq> None"

definition register :: "decay_integration \<Rightarrow> decay_metadata \<Rightarrow> decay_integration" where
  "register di m =
     (if di_contains di (dm_blob_hash m) then di
      else set_items di (tree_insert (de_items (di_store di)) (dm_blob_hash m) m))"

definition register_blob :: "decay_integration \<Rightarrow> hash32 \<Rightarrow> u64 \<Rightarrow> u64 \<Rightarrow> decay_integration" where
  "register_blob di blob_hash content_size now_ms =
     register di
       \<lparr>dm_blob_hash = blob_hash, dm_content_id = blob_hash, dm_author_id = zero32, dm_space_id = zero32,
        dm_content_type = 0, dm_parent_id = None, dm_created_at = now_ms, dm_last_engagement = now_ms,
        dm_engagement_count = 0, dm_content_size = content_size, dm_is_pinned = False\<rparr>"

definition change_item :: "decay_integration \<Rightarrow> hash32 \<Rightarrow> (decay_metadata \<Rightarrow> decay_metadata) \<Rightarrow> bool \<times> decay_integration" where
  "change_item di blob_hash f =
     (case tree_get (de_items (di_store di)) blob_hash of
        Some m \<Rightarrow> (True, set_items di (tree_insert (de_items (di_store di)) blob_hash (f m)))
      | None \<Rightarrow> (False, di))"

definition on_engagement :: "decay_integration \<Rightarrow> hash32 \<Rightarrow> u64 \<Rightarrow> bool \<times> decay_integration" where
  "on_engagement di blob_hash now_ms =
     change_item di blob_hash (\<lambda>m. m\<lparr>dm_last_engagement := now_ms, dm_engagement_count := dm_engagement_count m + 1\<rparr>)"

definition pin :: "decay_integration \<Rightarrow> hash32 \<Rightarrow> bool \<times> decay_integration" where
  "pin di blob_hash = change_item di blob_hash (\<lambda>m. m\<lparr>dm_is_pinned := True\<rparr>)"

definition unpin :: "decay_integration \<Rightarrow> hash32 \<Rightarrow> bool \<times> decay_integration" where
  "unpin di blob_hash = change_item di blob_hash (\<lambda>m. m\<lparr>dm_is_pinned := False\<rparr>)"

text \<open>The scan at startup: the files of the blob directory with their sizes; empty files are skipped.\<close>

definition scan_file :: "u64 \<Rightarrow> nat \<times> decay_integration \<Rightarrow> hash32 \<times> u64 \<Rightarrow> nat \<times> decay_integration" where
  "scan_file now_ms = (\<lambda>(registered, di) (blob_hash, file_size).
     if file_size = 0 \<or> length blob_hash \<noteq> 32 \<or> di_contains di blob_hash then (registered, di)
     else (registered + 1, register_blob di blob_hash file_size now_ms))"

definition scan_and_register :: "decay_integration \<Rightarrow> (hash32 \<times> u64) list \<Rightarrow> u64 \<Rightarrow> nat \<times> decay_integration" where
  "scan_and_register di files now_ms = foldl (scan_file now_ms) (0, di) files"

subsection \<open>Flags\<close>

definition flagged_blob_hashes :: "decay_integration \<Rightarrow> hash32 list" where
  "flagged_blob_hashes di =
     (case di_spam_attestation_store di of Some store \<Rightarrow> get_flagged_content store | None \<Rightarrow> [])"

definition di_is_spam_flagged :: "decay_integration \<Rightarrow> hash32 \<Rightarrow> bool" where
  "di_is_spam_flagged di content_hash =
     (case di_spam_attestation_store di of
        None \<Rightarrow> False
      | Some store \<Rightarrow>
          let attestations = get_attestations_for_content store content_hash;
              is_cleared = cs_is_cleared (get_counter_state store content_hash)
          in \<not> is_cleared \<and> ag_should_accelerate_decay (aggregate_attestations attestations is_cleared))"

definition di_get_decay_state :: "(rat \<Rightarrow> rat) \<Rightarrow> decay_integration \<Rightarrow> hash32 \<Rightarrow> u64 \<Rightarrow> decay_state option" where
  "di_get_decay_state P di blob_hash now_ms =
     (case tree_get (de_items (di_store di)) blob_hash of
        None \<Rightarrow> None
      | Some m \<Rightarrow>
          let half_life_secs = select_half_life HALF_LIFE_SECS (di_is_spam_flagged di blob_hash)
          in Some (calculate_decay_state P (to_content_item m) now_ms half_life_secs))"

subsection \<open>Pruning\<close>

record decay_prune_stats =
  dp_items_checked :: nat
  dp_items_pruned :: nat
  dp_items_protected :: nat
  dp_bytes_freed :: u64
  dp_orphans_cleaned :: nat

definition item_decay_state :: "(rat \<Rightarrow> rat) \<Rightarrow> hash32 list \<Rightarrow> u64 \<Rightarrow> u64 \<Rightarrow> decay_metadata \<Rightarrow> decay_state" where
  "item_decay_state P flagged_blobs base_half_life_secs now_ms m =
     (let is_spam_flagged = dm_blob_hash m \<in> set flagged_blobs;
          half_life_secs = select_half_life base_half_life_secs is_spam_flagged
      in calculate_decay_state P (to_content_item m) now_ms half_life_secs)"

definition item_protected :: "(rat \<Rightarrow> rat) \<Rightarrow> hash32 list \<Rightarrow> u64 \<Rightarrow> u64 \<Rightarrow> decay_metadata \<Rightarrow> bool" where
  "item_protected P flagged_blobs base now_ms m \<longleftrightarrow>
     dm_is_pinned m \<or> ds_is_protected (item_decay_state P flagged_blobs base now_ms m)"

definition item_due :: "(rat \<Rightarrow> rat) \<Rightarrow> hash32 list \<Rightarrow> u64 \<Rightarrow> u64 \<Rightarrow> decay_metadata \<Rightarrow> bool" where
  "item_due P flagged_blobs base now_ms m \<longleftrightarrow>
     \<not> item_protected P flagged_blobs base now_ms m \<and>
     ds_is_decayed (item_decay_state P flagged_blobs base now_ms m) \<and>
     sat_sub now_ms (dm_last_engagement m) \<ge> PRUNE_GRACE_PERIOD_MS"

text \<open>The removal of one entry with its file; \<open>locked\<close> files stay.\<close>

definition prune_item ::
  "(hash32 \<Rightarrow> bool) \<Rightarrow> (hash32, decay_metadata) tree \<times> hash32 list \<times> nat \<Rightarrow> hash32 \<Rightarrow>
   (hash32, decay_metadata) tree \<times> hash32 list \<times> nat" where
  "prune_item locked = (\<lambda>(items, blobs, pruned) hash.
     case tree_get items hash of
       None \<Rightarrow> (items, blobs, pruned)
     | Some m \<Rightarrow>
         (tree_remove items hash,
          if dm_blob_hash m \<in> set blobs \<and> \<not> locked (dm_blob_hash m) then filter (\<lambda>b. b \<noteq> dm_blob_hash m) blobs else blobs,
          pruned + 1))"

definition di_prune :: "(rat \<Rightarrow> rat) \<Rightarrow> (hash32 \<Rightarrow> bool) \<Rightarrow> decay_integration \<Rightarrow> u64 \<Rightarrow> decay_prune_stats \<times> decay_integration" where
  "di_prune P locked di now_ms =
     (let flagged_blobs = flagged_blob_hashes di;
          base = de_half_life_secs (di_store di);
          items = de_items (di_store di);
          due = filter (\<lambda>(_, m). item_due P flagged_blobs base now_ms m) items;
          (items1, blobs, pruned) = foldl (prune_item locked) (items, di_blobs di, 0) (map fst due);
          orphans = filter (\<lambda>hash. length hash = 32 \<and> hash \<notin> set blobs) (map fst items1)
      in (\<lparr>dp_items_checked = length items, dp_items_pruned = pruned,
           dp_items_protected = length (filter (\<lambda>(_, m). item_protected P flagged_blobs base now_ms m) items),
           dp_bytes_freed = sum_list (map (\<lambda>(_, m). dm_content_size m) due),
           dp_orphans_cleaned = length orphans\<rparr>,
          set_items (di\<lparr>di_blobs := blobs\<rparr>) (foldl tree_remove items1 orphans)))"

subsection \<open>Adaptation and the periodic task\<close>

definition di_adapt_half_life :: "decay_integration \<Rightarrow> u64 \<Rightarrow> u64 \<times> decay_integration" where
  "di_adapt_half_life di now_ms =
     (let total_storage = sum_list (map (\<lambda>(_, m). dm_content_size m) (de_items (di_store di)));
          new_half_life =
            min (max (calculate_adaptive_half_life
                        \<lparr>ns_total_storage_bytes = total_storage, ns_target_storage_bytes = di_target_storage_bytes di,
                         ns_current_half_life_secs = de_half_life_secs (di_store di)\<rparr>)
                   MIN_HALF_LIFE_SECS) MAX_HALF_LIFE_SECS
      in (new_half_life,
          if new_half_life \<noteq> de_half_life_secs (di_store di)
          then di\<lparr>di_store := (di_store di)\<lparr>de_half_life_secs := new_half_life, de_last_adaptation := now_ms\<rparr>\<rparr>
          else di))"

definition decay_tick :: "(rat \<Rightarrow> rat) \<Rightarrow> (hash32 \<Rightarrow> bool) \<Rightarrow> decay_integration \<Rightarrow> nat \<Rightarrow> u64 \<Rightarrow> decay_integration" where
  "decay_tick P locked di tick_count now_ms =
     (let di1 = snd (di_prune P locked di now_ms)
      in if tick_count mod 60 = 0 then snd (di_adapt_half_life di1 now_ms) else di1)"

subsection \<open>The invariant\<close>

definition items_ok :: "(hash32, decay_metadata) tree \<Rightarrow> bool" where
  "items_ok items \<longleftrightarrow> distinct (map fst items) \<and> (\<forall>k m. tree_get items k = Some m \<longrightarrow> dm_blob_hash m = k \<and> is_hash k)"

definition di_ok :: "decay_integration \<Rightarrow> bool" where
  "di_ok di \<longleftrightarrow> items_ok (de_items (di_store di)) \<and>
     MIN_HALF_LIFE_SECS \<le> de_half_life_secs (di_store di) \<and> de_half_life_secs (di_store di) \<le> MAX_HALF_LIFE_SECS"

lemma di_ok_new: "di_ok (di_new blobs target)"
  by (simp add: di_ok_def di_new_def decay_store_default_def items_ok_def decay_constants)

lemma set_items_simps [simp]:
  "de_items (di_store (set_items di items)) = items" "de_half_life_secs (di_store (set_items di items)) = de_half_life_secs (di_store di)"
  "di_blobs (set_items di items) = di_blobs di" "flagged_blob_hashes (set_items di items) = flagged_blob_hashes di"
  by (simp_all add: set_items_def flagged_blob_hashes_def)

lemma di_ok_items: "di_ok di \<Longrightarrow> items_ok items \<Longrightarrow> di_ok (set_items di items)"
  by (simp add: di_ok_def)

lemma items_ok_insert: "items_ok items \<Longrightarrow> dm_blob_hash m = k \<Longrightarrow> is_hash k \<Longrightarrow> items_ok (tree_insert items k m)"
  by (simp add: items_ok_def distinct_tree_insert)

lemma items_ok_remove_all: "items_ok items \<Longrightarrow> items_ok (foldl tree_remove items ks)"
  by (auto simp: items_ok_def distinct_tree_remove_all tree.get_remove_all split: if_splits)

lemma di_okD:
  assumes "di_ok di"
  shows "items_ok (de_items (di_store di))" "0 < unat (de_half_life_secs (di_store di))" "unat (de_half_life_secs (di_store di)) \<le> 2 ^ 30"
  using assms by (auto simp: di_ok_def decay_constants word_le_nat_alt)

lemma register_ok: "di_ok di \<Longrightarrow> is_hash (dm_blob_hash m) \<Longrightarrow> di_ok (register di m)"
  by (auto simp: register_def intro: di_ok_items items_ok_insert dest: di_okD(1))

lemma register_blob_ok: "di_ok di \<Longrightarrow> is_hash k \<Longrightarrow> di_ok (register_blob di k sz now)"
  by (simp add: register_blob_def register_ok)

lemma change_item_ok:
  assumes "di_ok di" "\<And>m. dm_blob_hash (f m) = dm_blob_hash m"
  shows "di_ok (snd (change_item di k f))"
proof (cases "tree_get (de_items (di_store di)) k")
  case (Some m)
  then have "dm_blob_hash m = k" "is_hash k" using di_okD(1) [OF assms(1)] by (simp_all add: items_ok_def)
  then show ?thesis using Some assms by (auto simp: change_item_def intro: di_ok_items items_ok_insert dest: di_okD(1))
qed (simp add: change_item_def assms(1))

lemma scan_files_ok: "di_ok di \<Longrightarrow> di_ok (snd (scan_and_register di files now))"
proof -
  have "di_ok (snd s) \<Longrightarrow> di_ok (snd (foldl (scan_file now) s files))" for s
    by (induction files arbitrary: s)
      (auto simp: scan_file_def register_blob_ok is_hash_def split: prod.splits)
  then show "di_ok di \<Longrightarrow> ?thesis" by (simp add: scan_and_register_def)
qed

lemma adapt_ok: "di_ok di \<Longrightarrow> di_ok (snd (di_adapt_half_life di now))"
  by (auto simp: di_adapt_half_life_def Let_def di_ok_def decay_constants max_def min_def)

subsection \<open>Pruning removes exactly what has decayed\<close>

text \<open>
  What an entry has to be to stay. \<open>P\<close> gives the powers of one half that the platform returned in the run; its
  argument is the number of half-lives since two days after the last engagement, rounded as the code rounds it.
\<close>

definition item_stays :: "(rat \<Rightarrow> rat) \<Rightarrow> decay_integration \<Rightarrow> u64 \<Rightarrow> decay_metadata \<Rightarrow> bool" where
  "item_stays P di now m \<longleftrightarrow>
     dm_is_pinned m \<or> unat now div 1000 < unat (dm_created_at m) div 1000 + 172800 \<or>
     unat now < unat (dm_last_engagement m) + 86400000 \<or>
     1 / 16 \<le> P (f64_round (f64_round (of_nat (unat now div 1000 - unat (dm_last_engagement m) div 1000 - 172800)) /
       (if dm_blob_hash m \<in> set (flagged_blob_hashes di) then 14400 else of_nat (unat (de_half_life_secs (di_store di))))))"

lemma to_content_item_fields [simp]:
  "ci_created_at (to_content_item m) = dm_created_at m" "ci_last_engagement (to_content_item m) = dm_last_engagement m"
  "pinned (to_content_item m) now = dm_is_pinned m"
  by (simp_all add: to_content_item_def pinned_def)

lemma unat_select: "unat (select_half_life h flagged) = (if flagged then 14400 else unat h)"
  by (simp add: select_half_life_def decay_constants)

lemma item_due_iff:
  assumes "di_ok di"
  shows "item_due P (flagged_blob_hashes di) (de_half_life_secs (di_store di)) now m \<longleftrightarrow> \<not> item_stays P di now m"
proof -
  let ?h = "select_half_life (de_half_life_secs (di_store di)) (dm_blob_hash m \<in> set (flagged_blob_hashes di))"
  have h: "0 < unat ?h" "unat ?h < 2 ^ 53" using di_okD(2,3) [OF assms] by (simp_all add: unat_select)
  have n: "(of_nat (unat ?h) :: rat) =
      (if dm_blob_hash m \<in> set (flagged_blob_hashes di) then 14400 else of_nat (unat (de_half_life_secs (di_store di))))"
    by (simp only: unat_select of_nat_numeral split: if_split) blast
  have "PRUNE_GRACE_PERIOD_MS \<le> sat_sub now (dm_last_engagement m) \<longleftrightarrow> \<not> unat now < unat (dm_last_engagement m) + 86400000"
    by (auto simp: word_le_nat_alt unat_sat_sub decay_constants)
  then show ?thesis
    unfolding item_due_def item_protected_def item_decay_state_def Let_def decayed_iff protected_iff item_stays_def
      to_content_item_fields faded_finite [OF h] n not_le [symmetric]
    by blast
qed

lemma prune_items:
  assumes "foldl (prune_item locked) (items, blobs, n) ks = (items', blobs', n')" and "items_ok items"
  shows "items_ok items' \<and> (\<forall>k. tree_get items' k = (if k \<in> set ks then None else tree_get items k)) \<and>
    (\<forall>b. b \<in> set blobs' \<longleftrightarrow> b \<in> set blobs \<and> (locked b \<or> b \<notin> set ks \<or> tree_get items b = None))"
  using assms
proof (induction ks arbitrary: items blobs n)
  case (Cons k ks)
  obtain i1 b1 n1 where 1: "prune_item locked (items, blobs, n) k = (i1, b1, n1)" by (cases "prune_item locked (items, blobs, n) k")
  have r: "foldl (prune_item locked) (i1, b1, n1) ks = (items', blobs', n')" using Cons.prems(1) 1 by simp
  have s: "items_ok i1" "\<forall>x. tree_get i1 x = (if x = k then None else tree_get items x)"
    "\<forall>b. b \<in> set b1 \<longleftrightarrow> b \<in> set blobs \<and> (locked b \<or> b \<noteq> k \<or> tree_get items k = None)"
    using 1 Cons.prems(2) items_ok_remove_all [of items "[k]"]
    by (auto simp: prune_item_def items_ok_def split: option.splits if_splits)
  show ?case using Cons.IH [OF r s(1)] s(2,3) by auto
qed simp

lemma di_prune_spec:
  assumes "di_ok di" and "di_prune P locked di now = (stats, di')"
  shows "di_ok di' \<and>
    (\<forall>k. tree_get (de_items (di_store di')) k =
       (case tree_get (de_items (di_store di)) k of
          Some m \<Rightarrow> if item_stays P di now m \<and> k \<in> set (di_blobs di') then Some m else None
        | None \<Rightarrow> None)) \<and>
    (\<forall>b. b \<in> set (di_blobs di') \<longleftrightarrow> b \<in> set (di_blobs di) \<and>
       (locked b \<or> (\<forall>m. tree_get (de_items (di_store di)) b = Some m \<longrightarrow> item_stays P di now m)))"
proof -
  let ?items = "de_items (di_store di)"
  let ?due = "filter (\<lambda>(_, m). item_due P (flagged_blob_hashes di) (de_half_life_secs (di_store di)) now m) ?items"
  obtain i1 b1 n1 where f: "foldl (prune_item locked) (?items, di_blobs di, 0) (map fst ?due) = (i1, b1, n1)"
    by (metis prod_cases3)
  note i = di_okD(1) [OF assms(1)]
  have due: "k \<in> set (map fst ?due) \<longleftrightarrow> (\<exists>m. tree_get ?items k = Some m \<and> \<not> item_stays P di now m)" for k
    using i item_due_iff [OF assms(1), of P now] by (force simp: items_ok_def tree_get_def map_of_eq_Some_iff)
  note p = prune_items [OF f i, unfolded due]
  have d: "di' = set_items (di\<lparr>di_blobs := b1\<rparr>) (foldl tree_remove i1 (filter (\<lambda>hash. length hash = 32 \<and> hash \<notin> set b1) (map fst i1)))"
    using assms(2) f by (simp add: di_prune_def Let_def)
  have "di_ok (di\<lparr>di_blobs := b1\<rparr>)" using assms(1) by (simp add: di_ok_def)
  then have ok: "di_ok di'" unfolding d using p by (intro di_ok_items items_ok_remove_all) simp_all
  have b: "b \<in> set (di_blobs di') \<longleftrightarrow> b \<in> set (di_blobs di) \<and>
      (locked b \<or> (\<forall>m. tree_get ?items b = Some m \<longrightarrow> item_stays P di now m))" for b
    using p unfolding d by auto
  have keys: "k \<in> set (map fst i1) \<longleftrightarrow> tree_get i1 k \<noteq> None" for k by (simp add: tree_get_def map_of_eq_None_iff)
  have "tree_get (de_items (di_store di')) k = (case tree_get ?items k of
      Some m \<Rightarrow> if item_stays P di now m \<and> k \<in> set (di_blobs di') then Some m else None | None \<Rightarrow> None)" for k
  proof (cases "tree_get ?items k")
    case (Some m)
    then have "is_hash k" using i by (simp add: items_ok_def)
    then show ?thesis using Some p unfolding d by (auto simp: tree.get_remove_all keys [unfolded set_map] is_hash_def)
  next
    case None
    then show ?thesis using p unfolding d by (auto simp: tree.get_remove_all)
  qed
  with ok b show ?thesis by blast
qed

text \<open>What happens to the tracked blobs of a node; files come and go and flags change between the steps.\<close>

inductive decay_step :: "decay_integration \<Rightarrow> decay_integration \<Rightarrow> bool" where
  "is_hash (dm_blob_hash m) \<Longrightarrow> decay_step di (register di m)"
| "is_hash b \<Longrightarrow> decay_step di (register_blob di b sz now)"
| "decay_step di (snd (on_engagement di b now))"
| "decay_step di (snd (pin di b))"
| "decay_step di (snd (unpin di b))"
| "decay_step di (snd (scan_and_register di files now))"
| "decay_step di (decay_tick P locked di n now)"
| "decay_step di (snd (di_adapt_half_life di now))"
| "decay_step di (di\<lparr>di_blobs := blobs\<rparr>)"
| "decay_step di (di\<lparr>di_spam_attestation_store := spam\<rparr>)"

lemma decay_step_ok: "decay_step di di' \<Longrightarrow> di_ok di \<Longrightarrow> di_ok di'"
proof (induction rule: decay_step.induct)
  case (7 di P locked n now)
  have "di_ok (snd (di_prune P locked di now))"
    using di_prune_spec [OF 7, of P locked now] by (metis prod.collapse)
  then show ?case by (simp add: decay_tick_def Let_def adapt_ok)
next
  case (9 di blobs)
  then show ?case by (simp add: di_ok_def)
next
  case (10 di spam)
  then show ?case by (simp add: di_ok_def)
qed (auto simp: register_ok register_blob_ok on_engagement_def pin_def unpin_def scan_files_ok adapt_ok intro: change_item_ok)

lemma reachable_di_ok: "(decay_step)\<^sup>*\<^sup>* (di_new blobs target) di \<Longrightarrow> di_ok di"
  by (induction rule: rtranclp_induct) (auto intro: di_ok_new decay_step_ok)

text \<open>
  C33. Pruning removes exactly what has decayed: in every state a node reaches, an entry survives a run if and only if
  it is pinned, or younger than two days, or was engaged with within the last day, or the power of one half that
  the platform returns is at least one sixteenth, and if its file is still there. The exponent of the power is
  the time since the last engagement, less two days, in half-lives: those of the node, which are always between
  one day and thirty, or of four hours for flagged content. Entries that survive are unchanged, and a file is
  deleted only with its entry. Nothing is assumed of the precision of the power function, which Rust leaves
  open: it may be a different one in every run.
\<close>

theorem tracked_prune_exact:
  assumes "decay_step\<^sup>*\<^sup>* (di_new blobs target) di" and "di_prune P locked di now = (stats, di')"
  shows "(\<forall>k. tree_get (de_items (di_store di')) k =
      (case tree_get (de_items (di_store di)) k of
         Some m \<Rightarrow> if item_stays P di now m \<and> k \<in> set (di_blobs di') then Some m else None
       | None \<Rightarrow> None)) \<and>
    (\<forall>b. b \<in> set (di_blobs di') \<longleftrightarrow> b \<in> set (di_blobs di) \<and>
      (locked b \<or> (\<forall>m. tree_get (de_items (di_store di)) b = Some m \<longrightarrow> item_stays P di now m))) \<and>
    86400 \<le> unat (de_half_life_secs (di_store di)) \<and> unat (de_half_life_secs (di_store di)) \<le> 2592000"
  using di_prune_spec [OF _ assms(2)] reachable_di_ok [OF assms(1)]
  by (auto simp: di_ok_def decay_constants word_le_nat_alt)

definition sample_tracker :: decay_integration where
  "sample_tracker = register_blob (register_blob (di_new [replicate 32 1, replicate 32 2] 10) (replicate 32 1) 50 0) (replicate 32 2) 60 5000"

lemma sample_tracker_reached: "decay_step\<^sup>*\<^sup>* (di_new [replicate 32 1, replicate 32 2] 10) sample_tracker"
  unfolding sample_tracker_def
  by (rule rtranclp.rtrancl_into_rtrancl [OF r_into_rtranclp]; rule decay_step.intros) (simp_all add: is_hash_def)

lemma sample_tracker_items:
  "tree_get (de_items (di_store sample_tracker)) (replicate 32 1) =
     Some \<lparr>dm_blob_hash = replicate 32 1, dm_content_id = replicate 32 1, dm_author_id = zero32, dm_space_id = zero32,
        dm_content_type = 0, dm_parent_id = None, dm_created_at = 0, dm_last_engagement = 0, dm_engagement_count = 0,
        dm_content_size = 50, dm_is_pinned = False\<rparr>"
  "tree_get (de_items (di_store sample_tracker)) (replicate 32 2) =
     Some \<lparr>dm_blob_hash = replicate 32 2, dm_content_id = replicate 32 2, dm_author_id = zero32, dm_space_id = zero32,
        dm_content_type = 0, dm_parent_id = None, dm_created_at = 5000, dm_last_engagement = 5000, dm_engagement_count = 0,
        dm_content_size = 60, dm_is_pinned = False\<rparr>"
  "di_blobs sample_tracker = [replicate 32 1, replicate 32 2]" "flagged_blob_hashes sample_tracker = []"
  "de_half_life_secs (di_store sample_tracker) = 604800"
  by (simp_all add: sample_tracker_def register_blob_def register_def di_contains_def di_new_def decay_store_default_def
      flagged_blob_hashes_def set_items_def replicate_eq_replicate decay_constants)

lemma item_stays_cut_pow:
  assumes "di_ok di" "dm_blob_hash m \<notin> set (flagged_blob_hashes di)" "unat (dm_last_engagement m) + 86400000 \<le> unat now"
  shows "item_stays cut_pow di now m \<longleftrightarrow>
    dm_is_pinned m \<or> unat now div 1000 < unat (dm_created_at m) div 1000 + 172800 \<or>
    unat now div 1000 \<le> unat (dm_last_engagement m) div 1000 + 172800 + 4 * unat (de_half_life_secs (di_store di))"
proof -
  note h = di_okD(2,3) [OF assms(1)]
  then have "unat (de_half_life_secs (di_store di)) < 2 ^ 53" by simp
  note low = faded_finite [OF h(1) this, of cut_pow "dm_last_engagement m" now, unfolded faded_cut_pow [OF h]]
  have "\<not> unat now < unat (dm_last_engagement m) + 86400000" using assms(3) by simp
  then show ?thesis unfolding item_stays_def if_not_P [OF assms(2)] not_less [symmetric] low [symmetric] by blast
qed

theorem tracked_prune_exact_witness:
  "di_blobs (snd (di_prune cut_pow (\<lambda>_. False) sample_tracker 2592003000)) \<noteq> [] \<and>
   tree_get (de_items (di_store (snd (di_prune cut_pow (\<lambda>_. False) sample_tracker 2592003000)))) (replicate 32 1) = None \<and>
   tree_get (de_items (di_store (snd (di_prune cut_pow (\<lambda>_. False) sample_tracker 2592003000)))) (replicate 32 2) \<noteq> None"
proof -
  obtain stats di' where p: "di_prune cut_pow (\<lambda>_. False) sample_tracker 2592003000 = (stats, di')" by fastforce
  note e = tracked_prune_exact [OF sample_tracker_reached p]
  note stays = item_stays_cut_pow [OF reachable_di_ok [OF sample_tracker_reached]]
  have "replicate 32 (2 :: byte) \<in> set (di_blobs di')"
    using e sample_tracker_items by (simp add: stays)
  with e show ?thesis unfolding p using sample_tracker_items by (auto simp: stays)
qed

text \<open>
  The day of grace is none: whatever has decayed was last engaged with more than two days ago, as the power of zero is
  one, so that the check that a day has passed since then never holds anything.
\<close>

theorem grace_period_unused:
  assumes "P 0 = 1" and "ds_is_decayed (calculate_decay_state P c now h)"
  shows "PRUNE_GRACE_PERIOD_MS \<le> sat_sub now (ci_last_engagement c)"
proof -
  have "\<not> unat now div 1000 \<le> unat (ci_last_engagement c) div 1000 + 172800"
    using assms faded_recent [of P now "ci_last_engagement c" h] by (auto simp: decayed_iff)
  then show ?thesis by (simp add: decay_constants word_le_nat_alt unat_sat_sub)
qed

theorem grace_period_unused_witness:
  "PRUNE_GRACE_PERIOD_MS \<le> sat_sub 2592001000 (ci_last_engagement (sample_content zero32 None 0))"
proof -
  have "ds_is_decayed (calculate_decay_state cut_pow (sample_content zero32 None 0) 2592001000 604800)"
    by (simp add: decayed_iff faded_cut_pow [OF sample_half_life])
  then show ?thesis by (rule grace_period_unused [where P = cut_pow, OF cut_pow_0])
qed

text \<open>With eleven times the storage in use that there should be, one adaptation takes away more than eight hours.\<close>

lemma half_life_under_pressure:
  "calculate_adaptive_half_life \<lparr>ns_total_storage_bytes = 110, ns_target_storage_bytes = 10, ns_current_half_life_secs = 604800\<rparr> \<le> 572400"
proof -
  define st where "st = \<lparr>ns_total_storage_bytes = 110, ns_target_storage_bytes = 10, ns_current_half_life_secs = 604800 :: u64\<rparr>"
  have cur: "u64_f64 604800 = of_nat 604800" by (subst u64_f64_small) simp_all
  have "f64_div (u64_f64 110) (u64_f64 10) = Finite 11"
    using f64_round_nat [of 11] by (simp add: f64_div_def u64_f64_small)
  moreover have "f64_round (604800 / 11) \<le> 86400" using f64_round_between(2) [of 0 "604800 / 11" 86400] by simp
  ultimately have c: "clamped_target st = 86400"
    using cur by (simp add: clamped_target_def st_def f64_clamp_def)
  have t: "1 / 16 \<le> ADAPTATION_SMOOTHING"
    using f64_round_mono [of "1 / 16" "1 / 10"] f64_round_dyadic [of 1 4] by (simp add: ADAPTATION_SMOOTHING_def)
  define b where "b = f64_round (518400 * ADAPTATION_SMOOTHING)"
  have b: "32400 \<le> b" "b \<le> 518400"
    using f64_round_between [of 32400 "518400 * ADAPTATION_SMOOTHING" 518400] t smoothing_share by (simp_all add: b_def)
  have "f64_round 518400 = 518400" using f64_round_nat [of 518400] by simp
  then have "f64_signed (f64_signed (86400 - 604800) * ADAPTATION_SMOOTHING) = - b"
    using f64_signed_minus [of 518400] f64_signed_minus [of "518400 * ADAPTATION_SMOOTHING"] smoothing_share(1) by (simp add: b_def)
  then have "smooth 604800 86400 ADAPTATION_SMOOTHING = f64_round (604800 - b)"
    using b by (simp add: smooth_def f64_signed_nonneg)
  moreover have "f64_round (604800 - b) \<le> of_nat 572400" "of_nat 0 \<le> f64_round (604800 - b)"
    using f64_round_between [of 0 "604800 - b" 572400] b by simp_all
  ultimately have "unat (calculate_adaptive_half_life st) \<le> 572400"
    using rounded_to_u64(2) [of 0 "smooth 604800 86400 ADAPTATION_SMOOTHING" 572400] cur
    unfolding adaptive_smooth c by (simp add: st_def)
  then show ?thesis unfolding st_def by (simp add: word_le_nat_alt)
qed

definition adapted_tracker :: decay_integration where
  "adapted_tracker = snd (di_adapt_half_life sample_tracker 5000)"

lemma adapted_tracker_facts:
  "decay_step\<^sup>*\<^sup>* (di_new [replicate 32 1, replicate 32 2] 10) adapted_tracker"
  "de_items (di_store adapted_tracker) = de_items (di_store sample_tracker)" "di_blobs adapted_tracker = di_blobs sample_tracker"
  "di_spam_attestation_store adapted_tracker = None" "unat (de_half_life_secs (di_store adapted_tracker)) \<le> 572400"
proof -
  show "decay_step\<^sup>*\<^sup>* (di_new [replicate 32 1, replicate 32 2] 10) adapted_tracker"
    unfolding adapted_tracker_def by (rule rtranclp.rtrancl_into_rtrancl [OF sample_tracker_reached decay_step.intros(8)])
  have total: "sum_list (map (\<lambda>(_, m). dm_content_size m) (de_items (di_store sample_tracker))) = 110"
    and target: "di_target_storage_bytes sample_tracker = 10" and spam: "di_spam_attestation_store sample_tracker = None"
    by (simp_all add: sample_tracker_def register_blob_def register_def di_contains_def di_new_def decay_store_default_def
        set_items_def replicate_eq_replicate tree_insert_def tree_get_def)
  show "de_items (di_store adapted_tracker) = de_items (di_store sample_tracker)" "di_blobs adapted_tracker = di_blobs sample_tracker"
    "di_spam_attestation_store adapted_tracker = None"
    by (simp_all add: adapted_tracker_def di_adapt_half_life_def Let_def spam)
  have "de_half_life_secs (di_store adapted_tracker) = fst (di_adapt_half_life sample_tracker 5000)"
    by (simp add: adapted_tracker_def di_adapt_half_life_def Let_def)
  then show "unat (de_half_life_secs (di_store adapted_tracker)) \<le> 572400"
    using half_life_under_pressure
    by (simp add: di_adapt_half_life_def Let_def total target sample_tracker_items(5) decay_constants word_le_nat_alt min_def max_def split: if_splits)
qed

text \<open>
  Reading and pruning disagree: a reader is told the decay with the standard half-life of seven days, a run of the task
  uses the half-life of the node. In the tracker that has adapted to storage pressure, a blob reads as alive and
  is removed in the same second.
\<close>

theorem read_prune_disagree:
  "\<exists>d. di_get_decay_state cut_pow adapted_tracker (replicate 32 1) 2592000000 = Some d \<and> \<not> ds_is_decayed d \<and>
     \<not> di_contains (snd (di_prune cut_pow (\<lambda>_. False) adapted_tracker 2592000000)) (replicate 32 1)"
proof -
  obtain stats di' where p: "di_prune cut_pow (\<lambda>_. False) adapted_tracker 2592000000 = (stats, di')" by fastforce
  note f = adapted_tracker_facts(2-) sample_tracker_items
  note ok = reachable_di_ok [OF adapted_tracker_facts(1)]
  have flags: "flagged_blob_hashes adapted_tracker = []" by (simp add: flagged_blob_hashes_def f)
  have "\<not> di_contains di' (replicate 32 1)"
    using di_prune_spec [OF ok p] f by (auto simp: di_contains_def item_stays_cut_pow [OF ok] flags)
  moreover have "di_get_decay_state cut_pow adapted_tracker (replicate 32 1) 2592000000 =
      Some (calculate_decay_state cut_pow (to_content_item (the (tree_get (de_items (di_store sample_tracker)) (replicate 32 1)))) 2592000000 604800)"
    using f by (simp add: di_get_decay_state_def di_is_spam_flagged_def select_half_life_def HALF_LIFE_SECS_def)
  moreover have "\<not> ds_is_decayed (calculate_decay_state cut_pow (to_content_item (the (tree_get (de_items (di_store sample_tracker)) (replicate 32 1)))) 2592000000 604800)"
    using f by (simp add: decayed_iff faded_cut_pow [OF sample_half_life])
  ultimately show ?thesis unfolding p by simp
qed

end
