(* ===== verification/Spec2Isabelle.thy ===== *)
theory Spec2Isabelle
  imports Chain_Runs Mempool_Correct Dht_Lookup Spons_Gate Offer_Correct Formation Spam_Correct Content_Prune Decay_Track
begin

text \<open>
  A verification library of Swimchain, a peer-to-peer forum whose posts live in a block chain.

  \<^bold>\<open>The program.\<close> Users sign \<^emph>\<open>actions\<close> (posts, replies, engagements, grants). A node collects them in
  its mempool, groups them by thread and space and seals them in three levels of blocks: content
  blocks hold the actions of a thread, space blocks the content blocks of a space, root blocks the
  space blocks. Root blocks form the chain; nodes exchange them, keep every branch they have seen and
  follow the branch with the most work. Who may create the next block is decided by an election whose
  circle of candidates widens with time. Who may take part at all is decided by sponsorship. Content
  itself is found through a distributed hash table; it decays unless people engage with it, and faster
  when enough independent members attest that it is spam, which also costs its author reputation.

  \<^bold>\<open>Theories and sources\<close> (all paths under \<open>src/src\<close>).
  \<^item> \<open>Swim_Prelude\<close>, \<open>Kv_Tree\<close>, \<open>Block_Contract\<close>: machine types, wire encodings, results, runs of a
    state machine; the trees of the embedded database; what a block type promises to its users.
  \<^item> \<open>Merkle\<close>, \<open>Branch_Path\<close>, \<open>Action\<close>, \<open>Content_Block\<close>, \<open>Space_Block\<close>, \<open>Root_Block\<close>,
    \<open>Space_Class\<close>, \<open>Validation\<close>: the files of the same names in \<open>blocks\<close> and \<open>types\<close>. Construction,
    encodings and hashes of the three levels, and every check of a received block.
  \<^item> \<open>Chain_Store\<close>, \<open>Fork_Choice\<close>: \<open>storage/chain.rs\<close>. Stored blocks, the height index, the best tip,
    chain weight with its memo, reorganisation, finality marks.
  \<^item> \<open>Chain_Sync\<close>, \<open>Sync_Correct\<close>, \<open>Chain_Repair\<close>: locators, batches, adoption of stored branches,
    rollback, validation and repair (\<open>storage/chain.rs\<close>, \<open>node/router/router.rs\<close>).
  \<^item> \<open>Chain_Runs\<close>: \<open>sync/header_sync.rs\<close> and the two handlers of headers of \<open>node/router/router.rs\<close>;
    then all operations that change the chain store as the steps of one machine.
  \<^item> \<open>Mempool\<close>, \<open>Mempool_Correct\<close>: \<open>blocks/builder.rs\<close>. Pending threads, limits, replacement, block
    formation, the mempool file.
  \<^item> \<open>Dht_Id\<close>, \<open>Dht_Table\<close>, \<open>Dht_Table_Correct\<close>, \<open>Dht_Store\<close>, \<open>Dht_Message\<close>, \<open>Dht_Manager\<close>,
    \<open>Dht_Lookup\<close>: the files of \<open>dht\<close>. Distances, buckets, provider records, rate limits, the wire
    format, the message handlers and the iterative lookups.
  \<^item> \<open>State_Result\<close>, \<open>Ieee_Round\<close>: steps that may fail, and rounding of \<open>f32\<close> and \<open>f64\<close>.
  \<^item> \<open>Spons_Types\<close>, \<open>Spons_Store\<close>, \<open>Spons_Penalty\<close>, \<open>Spons_Rights\<close>, \<open>Spons_Flow\<close>: the files \<open>types\<close>,
    \<open>genesis_list\<close>; \<open>storage\<close>; \<open>penalty\<close>, \<open>penalty_store\<close>, \<open>propagation\<close>, \<open>recovery\<close>; \<open>rights\<close>,
    \<open>linear_chain\<close>; \<open>validation\<close>, \<open>mod\<close>, \<open>orphan\<close>, \<open>manager\<close> of \<open>sponsorship\<close>. Who may take part, who
    answers for whom, and what misbehaviour costs. \<open>Spons_Correct\<close> and \<open>Spons_Props\<close> hold the invariant
    and the properties.
  \<^item> \<open>Spons_Offer\<close>, \<open>Spons_Wire\<close>, \<open>Offer_Correct\<close>: the files \<open>offer_store\<close>, \<open>offer_validation\<close>,
    \<open>offer_flow\<close>, \<open>auto_approve\<close>, \<open>wire\<close> of \<open>sponsorship\<close>. Public offers, claims and their messages.
  \<^item> \<open>Spons_Router\<close>, \<open>Spons_Chain\<close>, \<open>Spons_Gate\<close>: the part of \<open>node/router/router.rs\<close> that joins
    sponsorship with the chain: the gate of blocks and of announced actions, the application of the
    sponsorship actions of a block, the handlers of the six offer messages. The handlers are those of a node
    that has an offer store; without one they answer that it is unavailable.
  \<^item> \<open>Block_Leader\<close>, \<open>Leader_Correct\<close>: \<open>blocks/leader.rs\<close>, with the leader check of
    \<open>node/router/router.rs\<close> and the eligibility test of \<open>node/tasks.rs\<close>.
  \<^item> \<open>Formation_Gate\<close>: \<open>node/formation_gate.rs\<close>. When a node is caught up far enough to form blocks.
  \<^item> \<open>Formation\<close>: one run of the formation task of \<open>node/tasks.rs\<close> and of the attempt after a
    submission in \<open>rpc/methods.rs\<close>. It composes gate, builder, election, sponsorship and chain store.
  \<^item> \<open>Reputation\<close>: the files of \<open>reputation\<close>. Records, score, effects, store.
  \<^item> \<open>Spam_Attest\<close>, \<open>Spam_Correct\<close>: the files of \<open>spam_attestation\<close>, and all that feeds it: the two
    handlers of the router, the two methods of the RPC server, \<open>api/anti_abuse.rs\<close>.
  \<^item> \<open>Content_Decay\<close>, \<open>Content_Prune\<close>, \<open>Decay_Track\<close>: the files \<open>decay\<close>, \<open>engagement\<close>; \<open>storage\<close>,
    \<open>pruning\<close>, \<open>lifecycle\<close>; \<open>decay_integration\<close> of \<open>content\<close>, and the decay task of \<open>node/tasks.rs\<close>.

  \<^bold>\<open>How the code is modelled.\<close> A struct is a record, an enum a datatype, a method that changes state a
  function that returns the new state, \<open>Result\<close> a sum with \<open>Inl\<close> the error. Words keep their width;
  sums that the release build lets wrap are sums of words, \<open>saturating_add\<close> is \<open>sat_add\<close>. What other
  crates provide is an argument: the hash function \<open>H\<close> (SHA-256), signature verification \<open>verify\<close>,
  the encodings by \<open>bincode\<close>, the bounded cache \<open>L\<close>, the serializer of a thread, the network and the order of its answers, the
  functions \<open>ln\<close>, \<open>exp\<close>, \<open>log2\<close> and \<open>powf\<close> of the platform, the order in which a hash map is traversed
  where sums of \<open>f64\<close> depend on it, the files of the blob directory, the clock. All other operations on
  \<open>f64\<close> are exact operations on rational numbers, rounded to 53 bits. Of the precision of the platform's
  functions nothing is assumed, as Rust promises none; theorems that need two nodes to agree take the same
  functions for both.

  \<^bold>\<open>Steps and interleaving.\<close> An operation is a function of the state it meets, as it runs when nothing comes
  between, and a run of a component is a sequence of such operations: the theorems on runs are about
  operations that do not overlap. The code takes locks for the parts of its state, not always for a whole
  operation. Where a check and its record are apart and the property depends on it, the overlap is
  modelled: the announcement of content in the hash table is split into its accesses and its bound
  proved for every interleaving (\<open>store_sched\<close> in \<open>Dht_Manager\<close>); for the registration of a sponsored
  identity the race is shown beside the property (\<open>registration_race\<close> in \<open>Spons_Props\<close>).

  The loops that follow parent hashes are partial functions whose value is
  \<open>None\<close> when they do not end; the theorems about them show that they return. A lookup in the hash
  table is bounded by the number of its rounds. The search for living replies recurses without a bound
  in the code and has fuel in the model; that some amount is enough is part of the theorem, under the
  condition that replies form no circle.

  \<^bold>\<open>Interfaces.\<close> The locales \<open>kv_store\<close> (trees), \<open>committed_block\<close>, \<open>sealed_block\<close> and \<open>pow_aggregate\<close>
  (the levels of blocks), \<open>lru_cache\<close> (the bounded cache of the mempool), \<open>content_backend\<close> (the store
  under pruning) and \<open>stepping_component\<close> (state machines with an invariant) state what one component
  relies on of another; each is interpreted on the definitions of the model.

  \<^bold>\<open>What the theorems show.\<close>
  \<^item> Fork choice: as long as heights count up and hashes do not collide, every change of the chain store
    keeps the index equal to the ancestry of the best tip; a stored block whose complete branch is heavier
    than the tip is adopted when it is put, the weight of the tip never falls by a put, and the memo of
    weights is the real weight. A pass over stored branches adopts the heaviest of the (at most six)
    branch tips it looks at. That heights count up is not checked when headers arrive.
  \<^item> Synchronisation: two nodes with one genesis always find a common block and the batch attaches to
    it; after a round of headers that reaches the tip of the server the receiver holds its chain and, if
    that tip was new or higher, is at least as heavy. Repair ends at the last valid height.
  \<^item> Blocks: the actions of a formed block are exactly the minable ones, once each, and the block
    passes the node's own checks; the hash of a block binds its content as far as the encoding allows.
  \<^item> Hash table: the routing table keeps its invariant, lookups end and return the nearest nodes seen,
    the announcements of a sender in a minute are bounded by the limit and the number of its handlers that are
    open at once.
  \<^item> Sponsorship: every identity in the store was put there by a signed action and descends from a
    hard-coded genesis identity; what a builder forms passes the gate of its peers under stated conditions
    on the pool; a block can be applied again without effect. Penalties weaken with distance and combine as a maximum, the floating-point
    computations are exact in the stated ranges, sponsors keep an hour between grants that do not overlap, a
    cancelled offer returns only if its sponsor creates it again.
  \<^item> Election and formation: the share of eligible identities is exact to the last bit of the
    threshold; every identity gets its turn within the maximum time, and the search finds a second
    at which it begins. Claims of peers delay formation for a bounded time; what was validated stops it as
    long as it should. A block that the task forms passes the checks of its peers, and with something to
    seal the task does form one.
  \<^item> Attestations: content is flagged exactly when three trees attest and it is not cleared, clearing is
    by five identities and final, weighting makes flagging harder only; the reputation store keeps its
    types and its scores.
  \<^item> Decay: pruning removes exactly what is old enough, unpinned and below the threshold, whatever the power
    function of the platform returns; the half-life stays in its bounds in spite of rounding; tombstones
    are left exactly where the index of children leads to living replies, which are all replies until an
    item with replies is first removed.
  \<^item> Weaknesses: theorems beside the properties give the state in which a weakness shows, such as
    \<open>header_height_unchecked\<close>, \<open>genesis_rollback_strands_tip\<close>, \<open>store_limit_exceeded\<close>, \<open>registration_race\<close>,
    \<open>cancelled_offer_recreated\<close>, \<open>offer_relabelled_by_any_peer\<close>, \<open>tombstone_cuts_thread\<close>.

  \<^bold>\<open>Not modelled.\<close> Input and output, the command line, the transport, most methods of the RPC server
  and the other tasks of the node manager: they parse, format, wait and call what is modelled here. The
  encodings of peer messages, the handlers of whole blocks and the queues of the synchroniser, behavioural branches, deliberate forks, blocklists,
  chunks and retrieval of content have logic of their own that is outside this library. The cryptography
  is in other crates. Statistics and notifications for users decide nothing. Failures of the embedded
  database and of serialisation to it are not modelled: its trees are maps.
\<close>

end
